(* ===== verification/Nx_Prelude.thy ===== *)
theory Nx_Prelude
  imports Main "HOL-Library.Word"
begin

text \<open>
  Shared vocabulary of the development: names for the machine integer types of
  \<^verbatim>\<open>src/src/common/common_types.h\<close>, 64-bit address arithmetic on \<open>nat\<close> with the
  wrap-around written out, the kernel's result codes, and the generic lemmas on lists and
  words that several components use.

  Addresses and sizes (\<open>u64\<close>, \<open>size_t\<close>, \<open>uintptr_t\<close>) that only take part in
  linear arithmetic are natural numbers, and every \<open>+\<close>, \<open>-\<close> and \<open>*\<close> of the source on
  them is \<open>add64\<close>, \<open>sub64\<close> or \<open>mul64\<close>, which reduce modulo \<open>2 ^ 64\<close>. Values on
  which the source works bitwise are words of the source's width.
\<close>

unbundle bit_operations_syntax

section \<open>Machine types\<close>

type_synonym u8 = "8 word"
type_synonym u16 = "16 word"
type_synonym u32 = "32 word"
type_synonym u64 = "64 word"

section \<open>Automation collections\<close>

named_theorems arith64 "64-bit arithmetic that does not wrap"
named_theorems block_frame "fields an operation on a memory block leaves alone"

section \<open>64-bit address arithmetic\<close>

definition add64 :: "nat \<Rightarrow> nat \<Rightarrow> nat" where
  "add64 a b = (a + b) mod 2 ^ 64"

definition sub64 :: "nat \<Rightarrow> nat \<Rightarrow> nat" where
  "sub64 a b = (a + (2 ^ 64 - b mod 2 ^ 64)) mod 2 ^ 64"

definition mul64 :: "nat \<Rightarrow> nat \<Rightarrow> nat" where
  "mul64 a b = (a * b) mod 2 ^ 64"

lemma add64_eq [arith64]: "a + b < 2 ^ 64 \<Longrightarrow> add64 a b = a + b"
  by (simp add: add64_def)

lemma mul64_eq [arith64]: "a * b < 2 ^ 64 \<Longrightarrow> mul64 a b = a * b"
  by (simp add: mul64_def)

lemma sub64_eq [arith64]:
  assumes "b \<le> a" "a < 2 ^ 64"
  shows "sub64 a b = a - b"
proof -
  have "a + (2 ^ 64 - b mod 2 ^ 64) = (a - b) + 2 ^ 64"
    using assms by simp
  then have "sub64 a b = ((a - b) + 2 ^ 64) mod 2 ^ 64"
    by (simp only: sub64_def)
  also have "\<dots> = a - b"
    using assms by (simp only: mod_add_self2) simp
  finally show ?thesis .
qed

text \<open>\<open>AlignUp\<close> and \<open>AlignDown\<close> of \<^verbatim>\<open>src/src/common/alignment.h\<close>.\<close>

definition AlignUp :: "nat \<Rightarrow> nat \<Rightarrow> nat" where
  "AlignUp v sz = (if v mod sz = 0 then v - v mod sz else add64 (v - v mod sz) sz)"

definition AlignDown :: "nat \<Rightarrow> nat \<Rightarrow> nat" where
  "AlignDown v sz = v - v mod sz"

text \<open>The page size of \<^verbatim>\<open>src/src/core/hle/kernel/memory_types.h\<close>.\<close>

definition PageSize :: nat where
  "PageSize = 2 ^ 12"

text \<open>\<open>std::countr_zero\<close> and \<open>std::countl_zero\<close> of a 64-bit word.\<close>

definition countr_zero :: "u64 \<Rightarrow> nat" where
  "countr_zero v = length (takeWhile (\<lambda>i. \<not> bit v i) [0..<64])"

definition countl_zero :: "u64 \<Rightarrow> nat" where
  "countl_zero v = length (takeWhile (\<lambda>i. \<not> bit v (63 - i)) [0..<64])"

section \<open>Result codes\<close>

text \<open>
  \<open>Result\<close> of \<^verbatim>\<open>src/src/core/hle/result.h\<close>, restricted to the codes of
  \<^verbatim>\<open>src/src/core/hle/kernel/svc_results.h\<close> the modelled operations return.
\<close>

datatype Result = ResultSuccess | ResultOutOfResource | ResultOutOfMemory
  | ResultOutOfHandles | ResultInvalidState | ResultBusy
  | ResultInvalidCombination | ResultNoSynchronizationObject | ResultTerminationRequested
  | ResultInvalidCurrentMemory | ResultInvalidHandle | ResultTimedOut | ResultCancelled

section \<open>Pages\<close>

lemma PageSize_pos [simp]: "0 < PageSize" "PageSize \<noteq> 0"
  by (simp_all add: PageSize_def)

section \<open>Lists\<close>

lemma length_filter_list_update_le:
  "i < length xs \<Longrightarrow> length (filter P (xs[i := x])) \<le> Suc (length (filter P xs))"
proof (induction xs arbitrary: i)
  case Nil
  then show ?case by simp
next
  case (Cons y ys)
  then show ?case by (cases i) (auto intro: le_SucI)
qed

lemma map_replicate_eq [simp]: "map f (replicate n x) = replicate n (f x)"
  by (induction n) auto

lemma nth_list_update_if: "i < length xs \<Longrightarrow> xs[i := x] ! j = (if i = j then x else xs ! j)"
  by simp

section \<open>Words\<close>

lemma or_and_not_cancel: "a AND b = 0 \<Longrightarrow> (a OR b) AND NOT b = a"
  for a b :: "'a::len word"
proof (rule bit_word_eqI)
  fix n assume "a AND b = 0" "n < LENGTH('a)"
  then have "\<not> bit (a AND b) n" by simp
  then show "bit ((a OR b) AND NOT b) n = bit a n"
    using \<open>n < LENGTH('a)\<close> by (auto simp: bit_simps)
qed

lemma or_exp_eq_self: "a AND 2 ^ n \<noteq> 0 \<Longrightarrow> a OR 2 ^ n = a"
  for a :: "'a::len word"
  by (rule bit_word_eqI) (auto simp: bit_simps and_exp_eq_0_iff_not_bit)

lemma word_nonzero_bit: "v \<noteq> 0 \<Longrightarrow> \<exists>j<64. bit v j" for v :: u64
proof (rule ccontr)
  assume "v \<noteq> 0" "\<not> (\<exists>j<64. bit v j)"
  moreover from this have "v = 0" by (intro bit_word_eqI) simp
  ultimately show False by simp
qed

lemma countr_zero_bit:
  assumes "v \<noteq> 0"
  shows "bit v (countr_zero v)" "bit v j \<Longrightarrow> countr_zero v \<le> j"
proof -
  let ?t = "takeWhile (\<lambda>i. \<not> bit v i) [0..<64]"
  obtain j where j: "j < 64" "bit v j" using word_nonzero_bit [OF assms] by blast
  have below: "\<not> bit v i" if "i < length ?t" for i
    using that nth_mem [of i ?t] set_takeWhileD [of _ "\<lambda>i. \<not> bit v i" "[0..<64]"]
      takeWhile_nth [of i "\<lambda>i. \<not> bit v i" "[0..<64]"] length_takeWhile_le [of "\<lambda>i. \<not> bit v i" "[0..<64]"]
    by force
  have len: "length ?t < 64" using below [of j] j by (meson not_less order.strict_trans1)
  then show "bit v (countr_zero v)"
    using nth_length_takeWhile [of "\<lambda>i. \<not> bit v i" "[0..<64]"] by (simp add: countr_zero_def)
  show "bit v j \<Longrightarrow> countr_zero v \<le> j" for j
    using below [of j] by (auto simp: countr_zero_def not_less [symmetric])
qed

section \<open>Options\<close>

lemma option_eqI: "(\<And>x. a = Some x \<longleftrightarrow> b = Some x) \<Longrightarrow> a = b"
  by (cases a; cases b) auto

end
