(* ===== verification/KMemoryBlock.thy ===== *)
theory KMemoryBlock
  imports Nx_Prelude
begin

text \<open>
  Memory blocks of the kernel's address-space bookkeeping:
  \<^verbatim>\<open>src/src/core/hle/kernel/k_memory_block.h\<close>. A block is a run of pages with one state,
  permission and attribute, three lock counters and the marks that forbid merging it with a
  neighbour. The theory holds the constants of the four flag enumerations, the block and its
  query record, and every operation of the class.

  \<open>ASSERT\<close> (\<^verbatim>\<open>src/src/common/assert.h\<close>) logs and carries on unless the debug setting
  turns it into a break point, so it has no effect on the state in the model; the conditions it
  names are hypotheses of the lemmas that need them.
\<close>

section \<open>Flag constants\<close>

subsection \<open>The state codes the supervisor calls report\<close>

datatype Svc_MemoryState = Svc_Free | Svc_Io | Svc_Static | Svc_Code | Svc_CodeData | Svc_Normal
  | Svc_Shared | Svc_Alias | Svc_AliasCode | Svc_AliasCodeData | Svc_Ipc | Svc_Stack
  | Svc_ThreadLocal | Svc_Transferred | Svc_SharedTransferred | Svc_SharedCode
  | Svc_Inaccessible | Svc_NonSecureIpc | Svc_NonDeviceIpc | Svc_Kernel | Svc_GeneratedCode
  | Svc_CodeOut | Svc_Coverage | Svc_Insecure

fun svc_state_code :: "Svc_MemoryState \<Rightarrow> u32" where
  "svc_state_code Svc_Free = 0x00"
| "svc_state_code Svc_Io = 0x01"
| "svc_state_code Svc_Static = 0x02"
| "svc_state_code Svc_Code = 0x03"
| "svc_state_code Svc_CodeData = 0x04"
| "svc_state_code Svc_Normal = 0x05"
| "svc_state_code Svc_Shared = 0x06"
| "svc_state_code Svc_Alias = 0x07"
| "svc_state_code Svc_AliasCode = 0x08"
| "svc_state_code Svc_AliasCodeData = 0x09"
| "svc_state_code Svc_Ipc = 0x0A"
| "svc_state_code Svc_Stack = 0x0B"
| "svc_state_code Svc_ThreadLocal = 0x0C"
| "svc_state_code Svc_Transferred = 0x0D"
| "svc_state_code Svc_SharedTransferred = 0x0E"
| "svc_state_code Svc_SharedCode = 0x0F"
| "svc_state_code Svc_Inaccessible = 0x10"
| "svc_state_code Svc_NonSecureIpc = 0x11"
| "svc_state_code Svc_NonDeviceIpc = 0x12"
| "svc_state_code Svc_Kernel = 0x13"
| "svc_state_code Svc_GeneratedCode = 0x14"
| "svc_state_code Svc_CodeOut = 0x15"
| "svc_state_code Svc_Coverage = 0x16"
| "svc_state_code Svc_Insecure = 0x17"

subsection \<open>KMemoryState\<close>

type_synonym KMemoryState = u32

datatype KMemoryStateFlag = FlagCanReprotect | FlagCanDebug | FlagCanUseIpc
  | FlagCanUseNonDeviceIpc | FlagCanUseNonSecureIpc | FlagMapped | FlagCode | FlagCanAlias
  | FlagCanCodeAlias | FlagCanTransfer | FlagCanQueryPhysical | FlagCanDeviceMap
  | FlagCanAlignedDeviceMap | FlagCanIpcUserBuffer | FlagReferenceCounted | FlagCanMapProcess
  | FlagCanChangeAttribute | FlagCanCodeMemory | FlagLinearMapped | FlagCanPermissionLock

fun state_flag_bit :: "KMemoryStateFlag \<Rightarrow> nat" where
  "state_flag_bit FlagCanReprotect = 8"
| "state_flag_bit FlagCanDebug = 9"
| "state_flag_bit FlagCanUseIpc = 10"
| "state_flag_bit FlagCanUseNonDeviceIpc = 11"
| "state_flag_bit FlagCanUseNonSecureIpc = 12"
| "state_flag_bit FlagMapped = 13"
| "state_flag_bit FlagCode = 14"
| "state_flag_bit FlagCanAlias = 15"
| "state_flag_bit FlagCanCodeAlias = 16"
| "state_flag_bit FlagCanTransfer = 17"
| "state_flag_bit FlagCanQueryPhysical = 18"
| "state_flag_bit FlagCanDeviceMap = 19"
| "state_flag_bit FlagCanAlignedDeviceMap = 20"
| "state_flag_bit FlagCanIpcUserBuffer = 21"
| "state_flag_bit FlagReferenceCounted = 22"
| "state_flag_bit FlagCanMapProcess = 23"
| "state_flag_bit FlagCanChangeAttribute = 24"
| "state_flag_bit FlagCanCodeMemory = 25"
| "state_flag_bit FlagLinearMapped = 26"
| "state_flag_bit FlagCanPermissionLock = 27"

definition flag_word :: "KMemoryStateFlag \<Rightarrow> u32" where
  "flag_word f = push_bit (state_flag_bit f) 1"

primrec or_flags :: "KMemoryStateFlag list \<Rightarrow> u32" where
  "or_flags [] = 0"
| "or_flags (f # fs) = flag_word f OR or_flags fs"

definition KMemoryState_Mask :: KMemoryState where
  "KMemoryState_Mask = 0xFF"

definition FlagsData :: KMemoryState where
  "FlagsData = or_flags [FlagCanReprotect, FlagCanUseIpc, FlagCanUseNonDeviceIpc,
     FlagCanUseNonSecureIpc, FlagMapped, FlagCanAlias, FlagCanTransfer, FlagCanQueryPhysical,
     FlagCanDeviceMap, FlagCanAlignedDeviceMap, FlagCanIpcUserBuffer, FlagReferenceCounted,
     FlagCanChangeAttribute, FlagLinearMapped]"

definition FlagsCode :: KMemoryState where
  "FlagsCode = or_flags [FlagCanDebug, FlagCanUseIpc, FlagCanUseNonDeviceIpc,
     FlagCanUseNonSecureIpc, FlagMapped, FlagCode, FlagCanQueryPhysical, FlagCanDeviceMap,
     FlagCanAlignedDeviceMap, FlagReferenceCounted, FlagLinearMapped]"

definition FlagsMisc :: KMemoryState where
  "FlagsMisc = or_flags [FlagMapped, FlagReferenceCounted, FlagCanQueryPhysical,
     FlagCanDeviceMap, FlagLinearMapped]"

datatype KMemoryStateName = KMS_Free | KMS_IoMemory | KMS_IoRegister | KMS_Static
  | KMS_Code | KMS_CodeData | KMS_Normal
  | KMS_Shared | KMS_AliasCode | KMS_AliasCodeData | KMS_Ipc | KMS_Stack | KMS_ThreadLocal | KMS_Transferred
  | KMS_SharedTransferred | KMS_SharedCode | KMS_Inaccessible | KMS_NonSecureIpc | KMS_NonDeviceIpc | KMS_Kernel
  | KMS_GeneratedCode | KMS_CodeOut | KMS_Coverage | KMS_Insecure

fun kmemory_state :: "KMemoryStateName \<Rightarrow> KMemoryState" where
  "kmemory_state KMS_Free = svc_state_code Svc_Free"
| "kmemory_state KMS_IoMemory = svc_state_code Svc_Io
     OR or_flags [FlagMapped, FlagCanDeviceMap, FlagCanAlignedDeviceMap]"
| "kmemory_state KMS_IoRegister = svc_state_code Svc_Io
     OR or_flags [FlagCanDeviceMap, FlagCanAlignedDeviceMap]"
| "kmemory_state KMS_Static = svc_state_code Svc_Static
     OR or_flags [FlagMapped, FlagCanQueryPhysical]"
| "kmemory_state KMS_Code = svc_state_code Svc_Code OR FlagsCode OR or_flags [FlagCanMapProcess]"
| "kmemory_state KMS_CodeData = svc_state_code Svc_CodeData OR FlagsData
     OR or_flags [FlagCanMapProcess, FlagCanCodeMemory, FlagCanPermissionLock]"
| "kmemory_state KMS_Normal = svc_state_code Svc_Normal OR FlagsData OR or_flags [FlagCanCodeMemory]"
| "kmemory_state KMS_Shared = svc_state_code Svc_Shared
     OR or_flags [FlagMapped, FlagReferenceCounted, FlagLinearMapped]"
| "kmemory_state KMS_AliasCode = svc_state_code Svc_AliasCode OR FlagsCode
     OR or_flags [FlagCanMapProcess, FlagCanCodeAlias]"
| "kmemory_state KMS_AliasCodeData = svc_state_code Svc_AliasCodeData OR FlagsData
     OR or_flags [FlagCanMapProcess, FlagCanCodeAlias, FlagCanCodeMemory, FlagCanPermissionLock]"
| "kmemory_state KMS_Ipc = svc_state_code Svc_Ipc OR FlagsMisc
     OR or_flags [FlagCanAlignedDeviceMap, FlagCanUseIpc, FlagCanUseNonSecureIpc,
          FlagCanUseNonDeviceIpc]"
| "kmemory_state KMS_Stack = svc_state_code Svc_Stack OR FlagsMisc
     OR or_flags [FlagCanAlignedDeviceMap, FlagCanUseIpc, FlagCanUseNonSecureIpc,
          FlagCanUseNonDeviceIpc]"
| "kmemory_state KMS_ThreadLocal = svc_state_code Svc_ThreadLocal OR or_flags [FlagLinearMapped]"
| "kmemory_state KMS_Transferred = svc_state_code Svc_Transferred OR FlagsMisc
     OR or_flags [FlagCanAlignedDeviceMap, FlagCanChangeAttribute, FlagCanUseIpc,
          FlagCanUseNonSecureIpc, FlagCanUseNonDeviceIpc]"
| "kmemory_state KMS_SharedTransferred = svc_state_code Svc_SharedTransferred OR FlagsMisc
     OR or_flags [FlagCanAlignedDeviceMap, FlagCanUseNonSecureIpc, FlagCanUseNonDeviceIpc]"
| "kmemory_state KMS_SharedCode = svc_state_code Svc_SharedCode
     OR or_flags [FlagMapped, FlagReferenceCounted, FlagLinearMapped, FlagCanUseNonSecureIpc,
          FlagCanUseNonDeviceIpc]"
| "kmemory_state KMS_Inaccessible = svc_state_code Svc_Inaccessible"
| "kmemory_state KMS_NonSecureIpc = svc_state_code Svc_NonSecureIpc OR FlagsMisc
     OR or_flags [FlagCanAlignedDeviceMap, FlagCanUseNonSecureIpc, FlagCanUseNonDeviceIpc]"
| "kmemory_state KMS_NonDeviceIpc = svc_state_code Svc_NonDeviceIpc OR FlagsMisc
     OR or_flags [FlagCanUseNonDeviceIpc]"
| "kmemory_state KMS_Kernel = svc_state_code Svc_Kernel"
| "kmemory_state KMS_GeneratedCode = svc_state_code Svc_GeneratedCode
     OR or_flags [FlagMapped, FlagReferenceCounted, FlagCanDebug, FlagLinearMapped]"
| "kmemory_state KMS_CodeOut = svc_state_code Svc_CodeOut
     OR or_flags [FlagMapped, FlagReferenceCounted, FlagLinearMapped]"
| "kmemory_state KMS_Coverage = svc_state_code Svc_Coverage OR or_flags [FlagMapped]"
| "kmemory_state KMS_Insecure = svc_state_code Svc_Insecure
     OR or_flags [FlagMapped, FlagReferenceCounted, FlagLinearMapped, FlagCanChangeAttribute,
          FlagCanDeviceMap, FlagCanAlignedDeviceMap, FlagCanQueryPhysical,
          FlagCanUseNonSecureIpc, FlagCanUseNonDeviceIpc]"

text \<open>The header's static assertions on the state words.\<close>

lemma kmemory_state_values:
  "kmemory_state KMS_Free = 0x00000000"
  "kmemory_state KMS_IoMemory = 0x00182001"
  "kmemory_state KMS_IoRegister = 0x00180001"
  "kmemory_state KMS_Static = 0x00042002"
  "kmemory_state KMS_Code = 0x04DC7E03"
  "kmemory_state KMS_CodeData = 0x0FFEBD04"
  "kmemory_state KMS_Normal = 0x077EBD05"
  "kmemory_state KMS_Shared = 0x04402006"
  "kmemory_state KMS_AliasCode = 0x04DD7E08"
  "kmemory_state KMS_AliasCodeData = 0x0FFFBD09"
  "kmemory_state KMS_Ipc = 0x045C3C0A"
  "kmemory_state KMS_Stack = 0x045C3C0B"
  "kmemory_state KMS_ThreadLocal = 0x0400000C"
  "kmemory_state KMS_Transferred = 0x055C3C0D"
  "kmemory_state KMS_SharedTransferred = 0x045C380E"
  "kmemory_state KMS_SharedCode = 0x0440380F"
  "kmemory_state KMS_Inaccessible = 0x00000010"
  "kmemory_state KMS_NonSecureIpc = 0x045C3811"
  "kmemory_state KMS_NonDeviceIpc = 0x044C2812"
  "kmemory_state KMS_Kernel = 0x00000013"
  "kmemory_state KMS_GeneratedCode = 0x04402214"
  "kmemory_state KMS_CodeOut = 0x04402015"
  "kmemory_state KMS_Coverage = 0x00002016"
  "kmemory_state KMS_Insecure = 0x055C3817"
  by (simp_all add: flag_word_def FlagsCode_def FlagsData_def FlagsMisc_def)

subsection \<open>KMemoryPermission, KMemoryAttribute, KMemoryBlockDisableMergeAttribute\<close>

type_synonym KMemoryPermission = u8
type_synonym KMemoryAttribute = u8
type_synonym KMemoryBlockDisableMergeAttribute = u8

text \<open>\<open>Svc::MemoryPermission\<close>: read 1, write 2, execute 4 (\<^verbatim>\<open>svc_types.h\<close>).\<close>

definition PermNone :: KMemoryPermission where "PermNone = 0"
definition KernelShift :: nat where "KernelShift = 3"
definition KernelRead :: KMemoryPermission where "KernelRead = push_bit KernelShift 1"
definition KernelWrite :: KMemoryPermission where "KernelWrite = push_bit KernelShift 2"
definition KernelExecute :: KMemoryPermission where "KernelExecute = push_bit KernelShift 4"
definition NotMapped :: KMemoryPermission where "NotMapped = push_bit (2 * KernelShift) 1"
definition UserRead :: KMemoryPermission where "UserRead = 1 OR KernelRead"
definition UserWrite :: KMemoryPermission where "UserWrite = 2 OR KernelWrite"
definition UserExecute :: KMemoryPermission where "UserExecute = 4"
definition UserReadWrite :: KMemoryPermission where "UserReadWrite = UserRead OR UserWrite"
definition UserReadExecute :: KMemoryPermission where
  "UserReadExecute = UserRead OR UserExecute"
definition UserMask :: KMemoryPermission where "UserMask = 1 OR 2 OR 4"
definition IpcLockChangeMask :: KMemoryPermission where
  "IpcLockChangeMask = NotMapped OR UserReadWrite"

lemmas permission_defs = PermNone_def KernelShift_def KernelRead_def KernelWrite_def
  KernelExecute_def NotMapped_def UserRead_def UserWrite_def UserExecute_def UserReadWrite_def
  UserReadExecute_def UserMask_def IpcLockChangeMask_def

text \<open>
  The shift of the source acts on an \<open>u8\<close> value and the result is cast back to \<open>u8\<close>; the
  enumeration's operators are those of \<open>DECLARE_ENUM_FLAG_OPERATORS\<close>.
\<close>

definition ConvertToKMemoryPermission :: "u32 \<Rightarrow> KMemoryPermission" where
  "ConvertToKMemoryPermission perm =
     (let p = (ucast perm :: u8) in
      (p AND UserMask) OR KernelRead OR push_bit KernelShift (p AND UserWrite)
      OR (if perm = 0 then NotMapped else PermNone))"

definition AttrNone :: KMemoryAttribute where "AttrNone = 0x00"
definition AttrUserMask :: KMemoryAttribute where "AttrUserMask = 0xFF"
definition AttrLocked :: KMemoryAttribute where "AttrLocked = 1"
definition AttrIpcLocked :: KMemoryAttribute where "AttrIpcLocked = 2"
definition AttrDeviceShared :: KMemoryAttribute where "AttrDeviceShared = 4"
definition AttrUncached :: KMemoryAttribute where "AttrUncached = 8"
definition AttrPermissionLocked :: KMemoryAttribute where "AttrPermissionLocked = 16"
definition AttrSetMask :: KMemoryAttribute where
  "AttrSetMask = AttrUncached OR AttrPermissionLocked"

lemmas attribute_defs = AttrNone_def AttrUserMask_def AttrLocked_def AttrIpcLocked_def
  AttrDeviceShared_def AttrUncached_def AttrPermissionLocked_def AttrSetMask_def

definition DisableMerge_None :: KMemoryBlockDisableMergeAttribute where "DisableMerge_None = 0"
definition DisableMerge_Normal :: KMemoryBlockDisableMergeAttribute where
  "DisableMerge_Normal = push_bit 0 1"
definition DisableMerge_DeviceLeft :: KMemoryBlockDisableMergeAttribute where
  "DisableMerge_DeviceLeft = push_bit 1 1"
definition DisableMerge_IpcLeft :: KMemoryBlockDisableMergeAttribute where
  "DisableMerge_IpcLeft = push_bit 2 1"
definition DisableMerge_Locked :: KMemoryBlockDisableMergeAttribute where
  "DisableMerge_Locked = push_bit 3 1"
definition DisableMerge_DeviceRight :: KMemoryBlockDisableMergeAttribute where
  "DisableMerge_DeviceRight = push_bit 4 1"
definition DisableMerge_AllLeft :: KMemoryBlockDisableMergeAttribute where
  "DisableMerge_AllLeft = DisableMerge_Normal OR DisableMerge_DeviceLeft
     OR DisableMerge_IpcLeft OR DisableMerge_Locked"
definition DisableMerge_AllRight :: KMemoryBlockDisableMergeAttribute where
  "DisableMerge_AllRight = DisableMerge_DeviceRight"

lemmas disable_merge_defs = DisableMerge_None_def DisableMerge_Normal_def
  DisableMerge_DeviceLeft_def DisableMerge_IpcLeft_def DisableMerge_Locked_def
  DisableMerge_DeviceRight_def DisableMerge_AllLeft_def DisableMerge_AllRight_def

section \<open>Blocks\<close>

record KMemoryBlock =
  m_device_disable_merge_left_count :: u16
  m_device_disable_merge_right_count :: u16
  m_address :: nat
  m_num_pages :: nat
  m_memory_state :: KMemoryState
  m_ipc_lock_count :: u16
  m_device_use_count :: u16
  m_ipc_disable_merge_count :: u16
  m_permission :: KMemoryPermission
  m_original_permission :: KMemoryPermission
  m_attribute :: KMemoryAttribute
  m_disable_merge_attribute :: KMemoryBlockDisableMergeAttribute

definition GetSize :: "KMemoryBlock \<Rightarrow> nat" where
  "GetSize b = mul64 (m_num_pages b) PageSize"

definition GetEndAddress :: "KMemoryBlock \<Rightarrow> nat" where
  "GetEndAddress b = add64 (m_address b) (GetSize b)"

definition GetLastAddress :: "KMemoryBlock \<Rightarrow> nat" where
  "GetLastAddress b = sub64 (GetEndAddress b) 1"

text \<open>The order of the tree: a block compares equal to every block that starts inside it.\<close>

definition Compare :: "KMemoryBlock \<Rightarrow> KMemoryBlock \<Rightarrow> int" where
  "Compare lhs rhs =
     (if m_address lhs < m_address rhs then -1
      else if m_address lhs \<le> GetLastAddress rhs then 0
      else 1)"

subsection \<open>The query record\<close>

record KMemoryInfo =
  mi_address :: nat
  mi_size :: nat
  mi_state :: KMemoryState
  mi_device_disable_merge_left_count :: u16
  mi_device_disable_merge_right_count :: u16
  mi_ipc_lock_count :: u16
  mi_device_use_count :: u16
  mi_ipc_disable_merge_count :: u16
  mi_permission :: KMemoryPermission
  mi_attribute :: KMemoryAttribute
  mi_original_permission :: KMemoryPermission
  mi_disable_merge_attribute :: KMemoryBlockDisableMergeAttribute

definition GetMemoryInfo :: "KMemoryBlock \<Rightarrow> KMemoryInfo" where
  "GetMemoryInfo b = \<lparr>
     mi_address = m_address b,
     mi_size = GetSize b,
     mi_state = m_memory_state b,
     mi_device_disable_merge_left_count = m_device_disable_merge_left_count b,
     mi_device_disable_merge_right_count = m_device_disable_merge_right_count b,
     mi_ipc_lock_count = m_ipc_lock_count b,
     mi_device_use_count = m_device_use_count b,
     mi_ipc_disable_merge_count = m_ipc_disable_merge_count b,
     mi_permission = m_permission b,
     mi_attribute = m_attribute b,
     mi_original_permission = m_original_permission b,
     mi_disable_merge_attribute = m_disable_merge_attribute b\<rparr>"

definition mi_GetNumPages :: "KMemoryInfo \<Rightarrow> nat" where
  "mi_GetNumPages i = mi_size i div PageSize"

definition mi_GetEndAddress :: "KMemoryInfo \<Rightarrow> nat" where
  "mi_GetEndAddress i = add64 (mi_address i) (mi_size i)"

definition mi_GetLastAddress :: "KMemoryInfo \<Rightarrow> nat" where
  "mi_GetLastAddress i = sub64 (mi_GetEndAddress i) 1"

record Svc_MemoryInfo =
  base_address :: nat
  svc_size :: nat
  svc_state :: u32
  svc_attribute :: u32
  svc_permission :: u32
  ipc_count :: u32
  device_count :: u32

definition GetSvcMemoryInfo :: "KMemoryInfo \<Rightarrow> Svc_MemoryInfo" where
  "GetSvcMemoryInfo i = \<lparr>
     base_address = mi_address i,
     svc_size = mi_size i,
     svc_state = mi_state i AND KMemoryState_Mask,
     svc_attribute = ucast (mi_attribute i AND AttrUserMask),
     svc_permission = ucast (mi_permission i AND UserMask),
     ipc_count = ucast (mi_ipc_lock_count i),
     device_count = ucast (mi_device_use_count i)\<rparr>"

section \<open>Operations on blocks\<close>

text \<open>
  The constructor and \<open>Initialize\<close>. The default member initialisers give the fields that the
  constructor does not name; \<open>Initialize\<close> leaves \<open>m_ipc_disable_merge_count\<close> as it was.
\<close>

definition new_KMemoryBlock ::
  "nat \<Rightarrow> nat \<Rightarrow> KMemoryState \<Rightarrow> KMemoryPermission \<Rightarrow> KMemoryAttribute \<Rightarrow> KMemoryBlock" where
  "new_KMemoryBlock addr np ms p attr = \<lparr>
     m_device_disable_merge_left_count = 0,
     m_device_disable_merge_right_count = 0,
     m_address = addr,
     m_num_pages = np,
     m_memory_state = ms,
     m_ipc_lock_count = 0,
     m_device_use_count = 0,
     m_ipc_disable_merge_count = 0,
     m_permission = p,
     m_original_permission = PermNone,
     m_attribute = attr,
     m_disable_merge_attribute = DisableMerge_None\<rparr>"

definition block_Initialize ::
  "KMemoryBlock \<Rightarrow> nat \<Rightarrow> nat \<Rightarrow> KMemoryState \<Rightarrow> KMemoryPermission \<Rightarrow> KMemoryAttribute
     \<Rightarrow> KMemoryBlock" where
  "block_Initialize b addr np ms p attr = b\<lparr>
     m_device_disable_merge_left_count := 0,
     m_device_disable_merge_right_count := 0,
     m_address := addr,
     m_num_pages := np,
     m_memory_state := ms,
     m_ipc_lock_count := 0,
     m_device_use_count := 0,
     m_permission := p,
     m_original_permission := PermNone,
     m_attribute := attr,
     m_disable_merge_attribute := DisableMerge_None\<rparr>"

definition AttributeIgnoreMask :: KMemoryAttribute where
  "AttributeIgnoreMask = AttrIpcLocked OR AttrDeviceShared"

definition HasProperties ::
  "KMemoryBlock \<Rightarrow> KMemoryState \<Rightarrow> KMemoryPermission \<Rightarrow> KMemoryAttribute \<Rightarrow> bool" where
  "HasProperties b s p a \<longleftrightarrow>
     m_memory_state b = s \<and> m_permission b = p \<and>
     m_attribute b OR AttributeIgnoreMask = a OR AttributeIgnoreMask"

definition HasSameProperties :: "KMemoryBlock \<Rightarrow> KMemoryBlock \<Rightarrow> bool" where
  "HasSameProperties b rhs \<longleftrightarrow>
     m_memory_state b = m_memory_state rhs \<and> m_permission b = m_permission rhs \<and>
     m_original_permission b = m_original_permission rhs \<and>
     m_attribute b = m_attribute rhs \<and> m_ipc_lock_count b = m_ipc_lock_count rhs \<and>
     m_device_use_count b = m_device_use_count rhs"

definition CanMergeWith :: "KMemoryBlock \<Rightarrow> KMemoryBlock \<Rightarrow> bool" where
  "CanMergeWith b rhs \<longleftrightarrow>
     HasSameProperties b rhs \<and>
     m_disable_merge_attribute b AND DisableMerge_AllRight = DisableMerge_None \<and>
     m_disable_merge_attribute rhs AND DisableMerge_AllLeft = DisableMerge_None"

definition Contains :: "KMemoryBlock \<Rightarrow> nat \<Rightarrow> bool" where
  "Contains b addr \<longleftrightarrow> m_address b \<le> addr \<and> addr \<le> GetEndAddress b"

definition block_Add :: "KMemoryBlock \<Rightarrow> KMemoryBlock \<Rightarrow> KMemoryBlock" where
  "block_Add b added = b\<lparr>
     m_num_pages := add64 (m_num_pages b) (m_num_pages added),
     m_disable_merge_attribute :=
       m_disable_merge_attribute b OR m_disable_merge_attribute added,
     m_device_disable_merge_right_count := m_device_disable_merge_right_count added\<rparr>"

definition block_Update ::
  "KMemoryBlock \<Rightarrow> KMemoryState \<Rightarrow> KMemoryPermission \<Rightarrow> KMemoryAttribute \<Rightarrow> bool \<Rightarrow> u8 \<Rightarrow> u8
     \<Rightarrow> KMemoryBlock" where
  "block_Update b s p a set_disable_merge_attr set_mask clear_mask =
     (let b = b\<lparr>m_memory_state := s, m_permission := p,
            m_attribute := a OR (m_attribute b AND (AttrIpcLocked OR AttrDeviceShared))\<rparr>;
          b = (if set_disable_merge_attr \<and> set_mask \<noteq> 0
               then b\<lparr>m_disable_merge_attribute := m_disable_merge_attribute b OR set_mask\<rparr>
               else b)
      in if clear_mask \<noteq> 0
         then b\<lparr>m_disable_merge_attribute := m_disable_merge_attribute b AND NOT clear_mask\<rparr>
         else b)"

definition block_UpdateAttribute ::
  "KMemoryBlock \<Rightarrow> KMemoryAttribute \<Rightarrow> KMemoryAttribute \<Rightarrow> KMemoryBlock" where
  "block_UpdateAttribute b attr_mask attr =
     b\<lparr>m_attribute := (m_attribute b AND NOT attr_mask) OR attr\<rparr>"

text \<open>
  \<open>Split\<close> turns the block into its part from \<open>addr\<close> on and fills \<open>block\<close> with the part
  before; the pair is (\<open>*block\<close>, \<open>*this\<close>).
\<close>

definition block_Split :: "KMemoryBlock \<Rightarrow> nat \<Rightarrow> KMemoryBlock \<times> KMemoryBlock" where
  "block_Split b addr =
     (let block = \<lparr>
            m_device_disable_merge_left_count = m_device_disable_merge_left_count b,
            m_device_disable_merge_right_count = 0,
            m_address = m_address b,
            m_num_pages = sub64 addr (m_address b) div PageSize,
            m_memory_state = m_memory_state b,
            m_ipc_lock_count = m_ipc_lock_count b,
            m_device_use_count = m_device_use_count b,
            m_ipc_disable_merge_count = m_ipc_disable_merge_count b,
            m_permission = m_permission b,
            m_original_permission = m_original_permission b,
            m_attribute = m_attribute b,
            m_disable_merge_attribute =
              m_disable_merge_attribute b AND DisableMerge_AllLeft\<rparr>
      in (block,
          b\<lparr>m_address := addr,
            m_num_pages := sub64 (m_num_pages b) (m_num_pages block),
            m_ipc_disable_merge_count := 0,
            m_device_disable_merge_left_count := 0,
            m_disable_merge_attribute :=
              m_disable_merge_attribute b AND DisableMerge_AllRight\<rparr>))"

subsection \<open>Sharing with a device\<close>

definition UpdateDeviceDisableMergeStateForShareLeft ::
  "KMemoryPermission \<Rightarrow> bool \<Rightarrow> bool \<Rightarrow> KMemoryBlock \<Rightarrow> KMemoryBlock" where
  "UpdateDeviceDisableMergeStateForShareLeft new_perm left right b =
     (if left
      then b\<lparr>m_disable_merge_attribute :=
               m_disable_merge_attribute b OR DisableMerge_DeviceLeft,
             m_device_disable_merge_left_count := m_device_disable_merge_left_count b + 1\<rparr>
      else b)"

definition UpdateDeviceDisableMergeStateForShareRight ::
  "KMemoryPermission \<Rightarrow> bool \<Rightarrow> bool \<Rightarrow> KMemoryBlock \<Rightarrow> KMemoryBlock" where
  "UpdateDeviceDisableMergeStateForShareRight new_perm left right b =
     (if right
      then b\<lparr>m_disable_merge_attribute :=
               m_disable_merge_attribute b OR DisableMerge_DeviceRight,
             m_device_disable_merge_right_count := m_device_disable_merge_right_count b + 1\<rparr>
      else b)"

definition UpdateDeviceDisableMergeStateForShare ::
  "KMemoryPermission \<Rightarrow> bool \<Rightarrow> bool \<Rightarrow> KMemoryBlock \<Rightarrow> KMemoryBlock" where
  "UpdateDeviceDisableMergeStateForShare new_perm left right b =
     UpdateDeviceDisableMergeStateForShareRight new_perm left right
       (UpdateDeviceDisableMergeStateForShareLeft new_perm left right b)"

definition ShareToDevice :: "KMemoryPermission \<Rightarrow> bool \<Rightarrow> bool \<Rightarrow> KMemoryBlock \<Rightarrow> KMemoryBlock" where
  "ShareToDevice new_perm left right b =
     UpdateDeviceDisableMergeStateForShare new_perm left right
       (b\<lparr>m_device_use_count := m_device_use_count b + 1,
          m_attribute := m_attribute b OR AttrDeviceShared\<rparr>)"

definition UpdateDeviceDisableMergeStateForUnshareLeft ::
  "KMemoryPermission \<Rightarrow> bool \<Rightarrow> bool \<Rightarrow> KMemoryBlock \<Rightarrow> KMemoryBlock" where
  "UpdateDeviceDisableMergeStateForUnshareLeft new_perm left right b =
     (if left \<and> m_device_disable_merge_left_count b = 0 then b
      else
        let b = (if left
                 then b\<lparr>m_device_disable_merge_left_count :=
                          m_device_disable_merge_left_count b - 1\<rparr>
                 else b);
            b = b\<lparr>m_device_disable_merge_left_count :=
                    min (m_device_disable_merge_left_count b) (m_device_use_count b)\<rparr>
        in if m_device_disable_merge_left_count b = 0
           then b\<lparr>m_disable_merge_attribute :=
                    m_disable_merge_attribute b AND NOT DisableMerge_DeviceLeft\<rparr>
           else b)"

definition UpdateDeviceDisableMergeStateForUnshareRight ::
  "KMemoryPermission \<Rightarrow> bool \<Rightarrow> bool \<Rightarrow> KMemoryBlock \<Rightarrow> KMemoryBlock" where
  "UpdateDeviceDisableMergeStateForUnshareRight new_perm left right b =
     (if right
      then
        let old_count = m_device_disable_merge_right_count b;
            b = b\<lparr>m_device_disable_merge_right_count := old_count - 1\<rparr>
        in if old_count = 1
           then b\<lparr>m_disable_merge_attribute :=
                    m_disable_merge_attribute b AND NOT DisableMerge_DeviceRight\<rparr>
           else b
      else b)"

definition UpdateDeviceDisableMergeStateForUnshare ::
  "KMemoryPermission \<Rightarrow> bool \<Rightarrow> bool \<Rightarrow> KMemoryBlock \<Rightarrow> KMemoryBlock" where
  "UpdateDeviceDisableMergeStateForUnshare new_perm left right b =
     UpdateDeviceDisableMergeStateForUnshareRight new_perm left right
       (UpdateDeviceDisableMergeStateForUnshareLeft new_perm left right b)"

definition release_device_use :: "KMemoryBlock \<Rightarrow> KMemoryBlock" where
  "release_device_use b =
     (let old_count = m_device_use_count b;
          b = b\<lparr>m_device_use_count := old_count - 1\<rparr>
      in if old_count = 1
         then b\<lparr>m_attribute := m_attribute b AND NOT AttrDeviceShared\<rparr>
         else b)"

definition UnshareToDevice :: "KMemoryPermission \<Rightarrow> bool \<Rightarrow> bool \<Rightarrow> KMemoryBlock \<Rightarrow> KMemoryBlock"
where
  "UnshareToDevice new_perm left right b =
     UpdateDeviceDisableMergeStateForUnshare new_perm left right (release_device_use b)"

definition UnshareToDeviceRight ::
  "KMemoryPermission \<Rightarrow> bool \<Rightarrow> bool \<Rightarrow> KMemoryBlock \<Rightarrow> KMemoryBlock" where
  "UnshareToDeviceRight new_perm left right b =
     UpdateDeviceDisableMergeStateForUnshareRight new_perm left right (release_device_use b)"

subsection \<open>Locking for IPC\<close>

definition LockForIpc :: "KMemoryPermission \<Rightarrow> bool \<Rightarrow> bool \<Rightarrow> KMemoryBlock \<Rightarrow> KMemoryBlock" where
  "LockForIpc new_perm left right b =
     (let new_lock_count = m_ipc_lock_count b + 1;
          b = b\<lparr>m_ipc_lock_count := new_lock_count\<rparr>;
          b = (if new_lock_count = 1
               then b\<lparr>m_original_permission := m_permission b,
                      m_permission := (new_perm AND IpcLockChangeMask)
                        OR (m_permission b AND NOT IpcLockChangeMask)\<rparr>
               else b);
          b = b\<lparr>m_attribute := m_attribute b OR AttrIpcLocked\<rparr>
      in if left
         then b\<lparr>m_disable_merge_attribute :=
                  m_disable_merge_attribute b OR DisableMerge_IpcLeft,
                m_ipc_disable_merge_count := m_ipc_disable_merge_count b + 1\<rparr>
         else b)"

definition UnlockForIpc :: "KMemoryPermission \<Rightarrow> bool \<Rightarrow> bool \<Rightarrow> KMemoryBlock \<Rightarrow> KMemoryBlock" where
  "UnlockForIpc new_perm left right b =
     (let old_lock_count = m_ipc_lock_count b;
          b = b\<lparr>m_ipc_lock_count := old_lock_count - 1\<rparr>;
          b = (if old_lock_count = 1
               then b\<lparr>m_permission := m_original_permission b,
                      m_original_permission := PermNone,
                      m_attribute := m_attribute b AND NOT AttrIpcLocked\<rparr>
               else b)
      in if left
         then
           let old_count = m_ipc_disable_merge_count b;
               b = b\<lparr>m_ipc_disable_merge_count := old_count - 1\<rparr>
           in if old_count = 1
              then b\<lparr>m_disable_merge_attribute :=
                       m_disable_merge_attribute b AND NOT DisableMerge_IpcLeft\<rparr>
              else b
         else b)"

section \<open>What a block says about each of its pages\<close>

text \<open>
  \<open>PageProps\<close> is the part of a block that describes its pages: what \<open>HasSameProperties\<close>
  compares. The remaining fields (address, length, merge marks and their counters) say how the
  pages are grouped into blocks.
\<close>

record PageProps =
  pp_state :: KMemoryState
  pp_permission :: KMemoryPermission
  pp_original_permission :: KMemoryPermission
  pp_attribute :: KMemoryAttribute
  pp_ipc_lock_count :: u16
  pp_device_use_count :: u16

definition props_of :: "KMemoryBlock \<Rightarrow> PageProps" where
  "props_of b = \<lparr>pp_state = m_memory_state b, pp_permission = m_permission b,
     pp_original_permission = m_original_permission b, pp_attribute = m_attribute b,
     pp_ipc_lock_count = m_ipc_lock_count b, pp_device_use_count = m_device_use_count b\<rparr>"

lemma HasSameProperties_iff: "HasSameProperties b c \<longleftrightarrow> props_of b = props_of c"
  by (auto simp: HasSameProperties_def props_of_def)

text \<open>The page-level effect of each block operation.\<close>

definition props_has :: "KMemoryState \<Rightarrow> KMemoryPermission \<Rightarrow> KMemoryAttribute \<Rightarrow> PageProps \<Rightarrow> bool"
where
  "props_has s p a q \<longleftrightarrow> pp_state q = s \<and> pp_permission q = p \<and>
     pp_attribute q OR AttributeIgnoreMask = a OR AttributeIgnoreMask"

definition props_Update ::
  "KMemoryState \<Rightarrow> KMemoryPermission \<Rightarrow> KMemoryAttribute \<Rightarrow> PageProps \<Rightarrow> PageProps" where
  "props_Update s p a q = q\<lparr>pp_state := s, pp_permission := p,
     pp_attribute := a OR (pp_attribute q AND AttributeIgnoreMask)\<rparr>"

definition props_UpdateAttribute ::
  "KMemoryAttribute \<Rightarrow> KMemoryAttribute \<Rightarrow> PageProps \<Rightarrow> PageProps" where
  "props_UpdateAttribute attr_mask attr q =
     q\<lparr>pp_attribute := (pp_attribute q AND NOT attr_mask) OR attr\<rparr>"

definition props_Share :: "PageProps \<Rightarrow> PageProps" where
  "props_Share q = q\<lparr>pp_device_use_count := pp_device_use_count q + 1,
     pp_attribute := pp_attribute q OR AttrDeviceShared\<rparr>"

definition props_Unshare :: "PageProps \<Rightarrow> PageProps" where
  "props_Unshare q = q\<lparr>pp_device_use_count := pp_device_use_count q - 1,
     pp_attribute := (if pp_device_use_count q = 1
       then pp_attribute q AND NOT AttrDeviceShared else pp_attribute q)\<rparr>"

definition props_Lock :: "KMemoryPermission \<Rightarrow> PageProps \<Rightarrow> PageProps" where
  "props_Lock new_perm q =
     (let first = (pp_ipc_lock_count q + 1 = 1) in
      q\<lparr>pp_ipc_lock_count := pp_ipc_lock_count q + 1,
        pp_original_permission :=
          (if first then pp_permission q else pp_original_permission q),
        pp_permission := (if first
          then (new_perm AND IpcLockChangeMask) OR (pp_permission q AND NOT IpcLockChangeMask)
          else pp_permission q),
        pp_attribute := pp_attribute q OR AttrIpcLocked\<rparr>)"

definition props_Unlock :: "PageProps \<Rightarrow> PageProps" where
  "props_Unlock q =
     (let last = (pp_ipc_lock_count q = 1) in
      q\<lparr>pp_ipc_lock_count := pp_ipc_lock_count q - 1,
        pp_permission := (if last then pp_original_permission q else pp_permission q),
        pp_original_permission := (if last then PermNone else pp_original_permission q),
        pp_attribute := (if last then pp_attribute q AND NOT AttrIpcLocked
          else pp_attribute q)\<rparr>)"

lemma HasProperties_iff: "HasProperties b s p a \<longleftrightarrow> props_has s p a (props_of b)"
  by (simp add: HasProperties_def props_has_def props_of_def)

lemma props_of_Update [block_frame]:
  "props_of (block_Update b s p a dis set_mask clear_mask) = props_Update s p a (props_of b)"
  by (simp add: block_Update_def props_of_def props_Update_def AttributeIgnoreMask_def Let_def)

lemma props_of_UpdateAttribute [block_frame]:
  "props_of (block_UpdateAttribute b attr_mask attr) =
     props_UpdateAttribute attr_mask attr (props_of b)"
  by (simp add: block_UpdateAttribute_def props_of_def props_UpdateAttribute_def)

lemmas share_defs = UpdateDeviceDisableMergeStateForShareLeft_def
  UpdateDeviceDisableMergeStateForShareRight_def UpdateDeviceDisableMergeStateForShare_def
  ShareToDevice_def

lemmas unshare_defs = UpdateDeviceDisableMergeStateForUnshareLeft_def
  UpdateDeviceDisableMergeStateForUnshareRight_def UpdateDeviceDisableMergeStateForUnshare_def
  release_device_use_def UnshareToDevice_def UnshareToDeviceRight_def

lemma props_of_ShareToDevice [block_frame]:
  "props_of (ShareToDevice p l r b) = props_Share (props_of b)"
  by (simp add: share_defs props_of_def props_Share_def)

lemma props_of_UnshareToDevice [block_frame]:
  "props_of (UnshareToDevice p l r b) = props_Unshare (props_of b)"
  by (simp add: unshare_defs props_of_def props_Unshare_def Let_def)

lemma props_of_UnshareToDeviceRight [block_frame]:
  "props_of (UnshareToDeviceRight p l r b) = props_Unshare (props_of b)"
  by (simp add: unshare_defs props_of_def props_Unshare_def Let_def)

lemma props_of_LockForIpc [block_frame]:
  "props_of (LockForIpc p l r b) = props_Lock p (props_of b)"
  by (simp add: LockForIpc_def props_of_def props_Lock_def Let_def)

lemma props_of_UnlockForIpc [block_frame]:
  "props_of (UnlockForIpc p l r b) = props_Unlock (props_of b)"
  by (simp add: UnlockForIpc_def props_of_def props_Unlock_def Let_def)

lemma props_of_Add [block_frame]: "props_of (block_Add b c) = props_of b"
  by (simp add: block_Add_def props_of_def)

lemma props_of_Split [block_frame]:
  "props_of (fst (block_Split b x)) = props_of b"
  "props_of (snd (block_Split b x)) = props_of b"
  by (simp_all add: block_Split_def props_of_def Let_def)

text \<open>Every operation but \<open>Add\<close> and \<open>Split\<close> keeps the extent of the block.\<close>

lemma extent_Update [block_frame]:
  "m_address (block_Update b s p a dis set_mask clear_mask) = m_address b"
  "m_num_pages (block_Update b s p a dis set_mask clear_mask) = m_num_pages b"
  by (simp_all add: block_Update_def Let_def)

lemma extent_UpdateAttribute [block_frame]:
  "m_address (block_UpdateAttribute b attr_mask attr) = m_address b"
  "m_num_pages (block_UpdateAttribute b attr_mask attr) = m_num_pages b"
  by (simp_all add: block_UpdateAttribute_def)

lemma extent_locks [block_frame]:
  "m_address (ShareToDevice p l r b) = m_address b"
  "m_num_pages (ShareToDevice p l r b) = m_num_pages b"
  "m_address (UnshareToDevice p l r b) = m_address b"
  "m_num_pages (UnshareToDevice p l r b) = m_num_pages b"
  "m_address (UnshareToDeviceRight p l r b) = m_address b"
  "m_num_pages (UnshareToDeviceRight p l r b) = m_num_pages b"
  "m_address (LockForIpc p l r b) = m_address b"
  "m_num_pages (LockForIpc p l r b) = m_num_pages b"
  "m_address (UnlockForIpc p l r b) = m_address b"
  "m_num_pages (UnlockForIpc p l r b) = m_num_pages b"
  by (simp_all add: share_defs unshare_defs LockForIpc_def UnlockForIpc_def Let_def)

lemma props_Update_idem:
  assumes "props_has s p a q" "a AND AttributeIgnoreMask = 0"
  shows "props_Update s p a q = q"
proof -
  have "pp_attribute q = a OR (pp_attribute q AND AttributeIgnoreMask)"
  proof (rule bit_word_eqI)
    fix n assume "n < LENGTH(8)"
    have "bit (pp_attribute q OR AttributeIgnoreMask) n \<longleftrightarrow> bit (a OR AttributeIgnoreMask) n"
      using assms(1) by (simp add: props_has_def)
    moreover have "\<not> bit (a AND AttributeIgnoreMask) n"
      by (simp add: assms(2))
    ultimately show "bit (pp_attribute q) n \<longleftrightarrow>
        bit (a OR (pp_attribute q AND AttributeIgnoreMask)) n"
      by (auto simp: bit_or_iff bit_and_iff)
  qed
  then show ?thesis
    using assms(1) by (cases q) (simp add: props_Update_def props_has_def)
qed

end
