(* ===== verification/KMemoryBlockManager.thy ===== *)
theory KMemoryBlockManager
  imports KMemoryBlock
begin

text \<open>
  The block manager of an address space:
  \<^verbatim>\<open>src/src/core/hle/kernel/k_memory_block_manager.{h,cpp}\<close>. The intrusive red-black tree
  of the source is the sequence of its nodes in tree order; an iterator is a position in it, that
  is a pair of the blocks before it and the blocks from it on, and \<open>end()\<close> is the position with
  nothing after it. Dereferencing, incrementing or decrementing past either end of the tree and
  writing through the null pointer of an exhausted allocator are the values of
  \<open>BlockFault\<close>.

  The four update operations walk the blocks of the range with the same loop and differ in the
  test that decides whether a block changes and in the change; \<open>walk\<close> is that loop. The locale
  \<open>block_walk\<close> states what the loop needs of the test and the change and proves, once, that
  the walk and the coalescing pass after it change exactly the pages of the range, never run out
  of pre-allocated blocks and leave the blocks contiguous and coalesced; it is interpreted for
  each operation.
\<close>

section \<open>The update allocator\<close>

text \<open>
  A block obtained from the slab manager is only storage, so a slot of \<open>m_blocks\<close> is whether
  it holds one, and the slab manager is the number of blocks it can still hand out.
\<close>

definition MaxBlocks :: nat where
  "MaxBlocks = 2"

record UpdateAllocator =
  m_blocks :: "bool list"
  m_index :: nat
  m_slab_manager :: nat

datatype BlockFault = NullBlock | EndIterator | OutOfFuel

fun allocator_fill :: "nat \<Rightarrow> nat \<Rightarrow> nat \<Rightarrow> UpdateAllocator \<Rightarrow> Result \<times> UpdateAllocator" where
  "allocator_fill i num_blocks 0 al = (ResultSuccess, al)"
| "allocator_fill i num_blocks (Suc n) al =
     (if i < num_blocks \<and> i < MaxBlocks
      then if m_slab_manager al = 0
           then (ResultOutOfResource, al\<lparr>m_blocks := (m_blocks al)[m_index al + i := False]\<rparr>)
           else allocator_fill (Suc i) num_blocks n
                  (al\<lparr>m_blocks := (m_blocks al)[m_index al + i := True],
                     m_slab_manager := m_slab_manager al - 1\<rparr>)
      else (ResultSuccess, al))"

definition allocator_Initialize :: "nat \<Rightarrow> UpdateAllocator \<Rightarrow> Result \<times> UpdateAllocator" where
  "allocator_Initialize num_blocks al =
     allocator_fill 0 num_blocks MaxBlocks (al\<lparr>m_index := MaxBlocks - num_blocks\<rparr>)"

definition new_UpdateAllocator :: "nat \<Rightarrow> nat \<Rightarrow> Result \<times> UpdateAllocator" where
  "new_UpdateAllocator sm num_blocks =
     allocator_Initialize num_blocks
       \<lparr>m_blocks = [False, False], m_index = MaxBlocks, m_slab_manager = sm\<rparr>"

definition destroy_UpdateAllocator :: "UpdateAllocator \<Rightarrow> nat" where
  "destroy_UpdateAllocator al =
     m_slab_manager al + length (filter (\<lambda>block. block) (m_blocks al))"

definition allocator_Allocate :: "UpdateAllocator \<Rightarrow> UpdateAllocator option" where
  "allocator_Allocate al =
     (if m_index al < length (m_blocks al) \<and> m_blocks al ! m_index al
      then Some (al\<lparr>m_blocks := (m_blocks al)[m_index al := False], m_index := m_index al + 1\<rparr>)
      else None)"

definition allocator_Free :: "UpdateAllocator \<Rightarrow> UpdateAllocator" where
  "allocator_Free al =
     (if m_index al = 0 then al\<lparr>m_slab_manager := m_slab_manager al + 1\<rparr>
      else al\<lparr>m_blocks := (m_blocks al)[m_index al - 1 := True], m_index := m_index al - 1\<rparr>)"

section \<open>The manager\<close>

record KMemoryBlockManager =
  m_memory_block_tree :: "KMemoryBlock list"
  m_start_address :: nat
  m_end_address :: nat

definition default_KMemoryBlock :: KMemoryBlock where
  "default_KMemoryBlock = new_KMemoryBlock 0 0 0 PermNone AttrNone"

definition manager_Initialize ::
  "KMemoryBlockManager \<Rightarrow> nat \<Rightarrow> nat \<Rightarrow> nat \<Rightarrow> Result \<times> KMemoryBlockManager \<times> nat" where
  "manager_Initialize m st nd slab_manager =
     (if slab_manager = 0 then (ResultOutOfResource, m, slab_manager)
      else
        let start_block = block_Initialize default_KMemoryBlock st (sub64 nd st div PageSize)
              (kmemory_state KMS_Free) PermNone AttrNone
        in (ResultSuccess,
            m\<lparr>m_start_address := st, m_end_address := nd,
              m_memory_block_tree := insort_key m_address start_block (m_memory_block_tree m)\<rparr>,
            slab_manager - 1))"

text \<open>\<open>Finalize\<close> returns the calls it makes to \<open>block_callback\<close> in order.\<close>

fun finalize_blocks :: "KMemoryBlock list \<Rightarrow> nat \<Rightarrow> (nat \<times> nat) list \<times> nat" where
  "finalize_blocks [] slab_manager = ([], slab_manager)"
| "finalize_blocks (b # bs) slab_manager =
     (let (calls, slab_manager) = finalize_blocks bs (slab_manager + 1)
      in ((m_address b, GetSize b) # calls, slab_manager))"

definition manager_Finalize ::
  "KMemoryBlockManager \<Rightarrow> nat \<Rightarrow> KMemoryBlockManager \<times> (nat \<times> nat) list \<times> nat" where
  "manager_Finalize m slab_manager =
     (m\<lparr>m_memory_block_tree := []\<rparr>, finalize_blocks (m_memory_block_tree m) slab_manager)"

subsection \<open>Lookup\<close>

definition find_key :: "nat \<Rightarrow> KMemoryBlock" where
  "find_key address = new_KMemoryBlock address 1 (kmemory_state KMS_Free) PermNone AttrNone"

fun find_iter :: "nat \<Rightarrow> KMemoryBlock list \<Rightarrow> KMemoryBlock list \<times> KMemoryBlock list" where
  "find_iter address [] = ([], [])"
| "find_iter address (b # bs) =
     (if Compare (find_key address) b = 0 then ([], b # bs)
      else let (pre, rest) = find_iter address bs in (b # pre, rest))"

definition FindIterator :: "KMemoryBlockManager \<Rightarrow> nat \<Rightarrow> KMemoryBlock list \<times> KMemoryBlock list"
where
  "FindIterator m address = find_iter address (m_memory_block_tree m)"

definition FindBlock :: "KMemoryBlockManager \<Rightarrow> nat \<Rightarrow> KMemoryBlock option" where
  "FindBlock m address = (case snd (FindIterator m address) of [] \<Rightarrow> None | b # _ \<Rightarrow> Some b)"

text \<open>
  \<open>FindFreeArea\<close>: the loop runs from the block that holds \<open>region_start\<close>; \<open>0\<close> (an empty
  \<open>KProcessAddress\<close>) is the answer when no block has room.
\<close>

fun find_free_area_loop ::
  "nat \<Rightarrow> nat \<Rightarrow> nat \<Rightarrow> nat \<Rightarrow> nat \<Rightarrow> nat \<Rightarrow> KMemoryBlock list \<Rightarrow> nat" where
  "find_free_area_loop region_start region_last num_pages alignment offset guard_pages [] = 0"
| "find_free_area_loop region_start region_last num_pages alignment offset guard_pages (b # bs) =
     (let info = GetMemoryInfo b in
      if region_last < mi_address info then 0
      else if mi_state info \<noteq> kmemory_state KMS_Free
      then find_free_area_loop region_start region_last num_pages alignment offset guard_pages bs
      else
        let area = (if mi_address info \<le> region_start then region_start else mi_address info);
            area = add64 area (mul64 guard_pages PageSize);
            offset_area = add64 (AlignDown area alignment) offset;
            area = (if area \<le> offset_area then offset_area else add64 offset_area alignment);
            area_end = add64 (add64 area (mul64 num_pages PageSize)) (mul64 guard_pages PageSize);
            area_last = sub64 area_end 1
        in if mi_address info \<le> area \<and> area < area_last \<and> area_last \<le> region_last
              \<and> area_last \<le> mi_GetLastAddress info
           then area
           else find_free_area_loop region_start region_last num_pages alignment offset
                  guard_pages bs)"

definition FindFreeArea ::
  "KMemoryBlockManager \<Rightarrow> nat \<Rightarrow> nat \<Rightarrow> nat \<Rightarrow> nat \<Rightarrow> nat \<Rightarrow> nat \<Rightarrow> nat" where
  "FindFreeArea m region_start region_num_pages num_pages alignment offset guard_pages =
     (if 0 < num_pages
      then
        let region_end = add64 region_start (mul64 region_num_pages PageSize);
            region_last = sub64 region_end 1
        in find_free_area_loop region_start region_last num_pages alignment offset guard_pages
             (snd (FindIterator m region_start))
      else 0)"

subsection \<open>Coalescing\<close>

text \<open>
  \<open>coalesce_loop limit pre prev rest al\<close> is the loop of \<open>CoalesceForUpdate\<close> with \<open>it\<close> at
  \<open>prev\<close>, the blocks \<open>pre\<close> before it and \<open>rest\<close> after it; \<open>limit\<close> is
  \<open>address + num_pages * PageSize\<close>.
\<close>

fun coalesce_loop ::
  "nat \<Rightarrow> KMemoryBlock list \<Rightarrow> KMemoryBlock \<Rightarrow> KMemoryBlock list \<Rightarrow> UpdateAllocator
     \<Rightarrow> KMemoryBlock list \<times> UpdateAllocator" where
  "coalesce_loop limit pre prev [] al = (pre @ [prev], al)"
| "coalesce_loop limit pre prev (b # bs) al =
     (if CanMergeWith prev b
      then
        let prev = block_Add prev b;
            al = allocator_Free al
        in if limit < mi_GetEndAddress (GetMemoryInfo prev) then (pre @ prev # bs, al)
           else coalesce_loop limit pre prev bs al
      else if limit < mi_GetEndAddress (GetMemoryInfo b) then (pre @ prev # b # bs, al)
      else coalesce_loop limit (pre @ [prev]) b bs al)"

definition CoalesceForUpdate ::
  "KMemoryBlockManager \<Rightarrow> UpdateAllocator \<Rightarrow> nat \<Rightarrow> nat
     \<Rightarrow> BlockFault + KMemoryBlockManager \<times> UpdateAllocator" where
  "CoalesceForUpdate m al address num_pages =
     (let (pre, rest) = FindIterator m address;
          limit = add64 address (mul64 num_pages PageSize);
          finish = (\<lambda>(bs, al). Inr (m\<lparr>m_memory_block_tree := bs\<rparr>, al))
      in case rest of
           [] \<Rightarrow> Inl EndIterator
         | b # bs \<Rightarrow>
             if address \<noteq> m_start_address m
             then if pre = [] then Inl EndIterator
                  else finish (coalesce_loop limit (butlast pre) (last pre) rest al)
             else finish (coalesce_loop limit pre b bs al))"

subsection \<open>The walk over the blocks of a range\<close>

text \<open>
  The two splits of an update: \<open>split_before\<close> makes a block of what precedes the current
  address, \<open>split_after\<close> of what the update still covers; each takes its block from the
  allocator.
\<close>

definition split_before ::
  "nat \<Rightarrow> KMemoryBlock \<Rightarrow> UpdateAllocator
     \<Rightarrow> BlockFault + KMemoryBlock list \<times> KMemoryBlock \<times> UpdateAllocator" where
  "split_before cur_address b al =
     (if mi_address (GetMemoryInfo b) \<noteq> cur_address
      then (case allocator_Allocate al of
              None \<Rightarrow> Inl NullBlock
            | Some al \<Rightarrow> let (new_block, it) = block_Split b cur_address
                         in Inr ([new_block], it, al))
      else Inr ([], b, al))"

definition split_after ::
  "nat \<Rightarrow> nat \<Rightarrow> KMemoryBlock \<Rightarrow> UpdateAllocator
     \<Rightarrow> BlockFault + KMemoryBlock \<times> KMemoryBlock list \<times> UpdateAllocator" where
  "split_after cur_address remaining_size b al =
     (if remaining_size < mi_size (GetMemoryInfo b)
      then (case allocator_Allocate al of
              None \<Rightarrow> Inl NullBlock
            | Some al \<Rightarrow> let (new_block, it) = block_Split b (add64 cur_address remaining_size)
                         in Inr (new_block, [it], al))
      else Inr (b, [], al))"

text \<open>
  \<open>walk fuel needs change cur_address remaining_pages pre rest al\<close>: the iterator is at the head
  of \<open>rest\<close>; blocks that satisfy \<open>needs\<close> are cut to the range and replaced by their
  \<open>change\<close>, the others are stepped over. Every round but the last leaves one block of the
  original sequence behind, so as many rounds as there are blocks are enough.
\<close>

fun walk ::
  "nat \<Rightarrow> (KMemoryBlock \<Rightarrow> bool) \<Rightarrow> (KMemoryBlock \<Rightarrow> KMemoryBlock) \<Rightarrow> nat \<Rightarrow> nat
     \<Rightarrow> KMemoryBlock list \<Rightarrow> KMemoryBlock list \<Rightarrow> UpdateAllocator
     \<Rightarrow> BlockFault + KMemoryBlock list \<times> UpdateAllocator" where
  "walk fuel needs change cur_address remaining_pages pre rest al =
     (if remaining_pages = 0 then Inr (pre @ rest, al)
      else case fuel of
        0 \<Rightarrow> Inl OutOfFuel
      | Suc fuel \<Rightarrow>
        (case rest of
           [] \<Rightarrow> Inl EndIterator
         | b # bs \<Rightarrow>
           let remaining_size = mul64 remaining_pages PageSize in
           if needs b
           then (case split_before cur_address b al of
               Inl e \<Rightarrow> Inl e
             | Inr (before, it, al) \<Rightarrow>
                 (case split_after (mi_address (GetMemoryInfo it)) remaining_size it al of
                    Inl e \<Rightarrow> Inl e
                  | Inr (it, after, al) \<Rightarrow>
                      let cur_info = GetMemoryInfo it in
                      walk fuel needs change
                        (add64 (mi_address cur_info) (mi_size cur_info))
                        (sub64 remaining_pages (mi_GetNumPages cur_info))
                        (pre @ before @ [change it]) (after @ bs) al))
           else
             let cur_info = GetMemoryInfo b in
             if add64 cur_address remaining_size < mi_GetEndAddress cur_info
             then walk fuel needs change (add64 cur_address remaining_size) 0 (pre @ [b]) bs al
             else walk fuel needs change (mi_GetEndAddress cur_info)
                    (sub64 (add64 cur_address remaining_size) (mi_GetEndAddress cur_info)
                       div PageSize)
                    (pre @ [b]) bs al))"

declare walk.simps [simp del]

definition walk_and_coalesce ::
  "(KMemoryBlock \<Rightarrow> bool) \<Rightarrow> (KMemoryBlock \<Rightarrow> KMemoryBlock) \<Rightarrow> KMemoryBlockManager
     \<Rightarrow> UpdateAllocator \<Rightarrow> nat \<Rightarrow> nat \<Rightarrow> BlockFault + KMemoryBlockManager \<times> UpdateAllocator" where
  "walk_and_coalesce needs change m al address num_pages =
     (let (pre, rest) = FindIterator m address in
      case walk (length rest) needs change address num_pages pre rest al of
        Inl e \<Rightarrow> Inl e
      | Inr (bs, al) \<Rightarrow>
          CoalesceForUpdate (m\<lparr>m_memory_block_tree := bs\<rparr>) al address num_pages)"

subsection \<open>The update operations\<close>

definition manager_Update ::
  "KMemoryBlockManager \<Rightarrow> UpdateAllocator \<Rightarrow> nat \<Rightarrow> nat \<Rightarrow> KMemoryState \<Rightarrow> KMemoryPermission
     \<Rightarrow> KMemoryAttribute \<Rightarrow> KMemoryBlockDisableMergeAttribute
     \<Rightarrow> KMemoryBlockDisableMergeAttribute
     \<Rightarrow> BlockFault + KMemoryBlockManager \<times> UpdateAllocator" where
  "manager_Update m al address num_pages state perm attr set_disable_attr clear_disable_attr =
     walk_and_coalesce
       (\<lambda>it. \<not> HasProperties it state perm attr)
       (\<lambda>it. block_Update it state perm attr (m_address it = address)
               set_disable_attr clear_disable_attr)
       m al address num_pages"

definition manager_UpdateIfMatch ::
  "KMemoryBlockManager \<Rightarrow> UpdateAllocator \<Rightarrow> nat \<Rightarrow> nat \<Rightarrow> KMemoryState \<Rightarrow> KMemoryPermission
     \<Rightarrow> KMemoryAttribute \<Rightarrow> KMemoryState \<Rightarrow> KMemoryPermission \<Rightarrow> KMemoryAttribute
     \<Rightarrow> KMemoryBlockDisableMergeAttribute \<Rightarrow> KMemoryBlockDisableMergeAttribute
     \<Rightarrow> BlockFault + KMemoryBlockManager \<times> UpdateAllocator" where
  "manager_UpdateIfMatch m al address num_pages test_state test_perm test_attr state perm attr
       set_disable_attr clear_disable_attr =
     walk_and_coalesce
       (\<lambda>it. HasProperties it test_state test_perm test_attr \<and>
             \<not> HasProperties it state perm attr)
       (\<lambda>it. block_Update it state perm attr False set_disable_attr clear_disable_attr)
       m al address num_pages"

type_synonym MemoryBlockLockFunction =
  "KMemoryPermission \<Rightarrow> bool \<Rightarrow> bool \<Rightarrow> KMemoryBlock \<Rightarrow> KMemoryBlock"

definition manager_UpdateLock ::
  "KMemoryBlockManager \<Rightarrow> UpdateAllocator \<Rightarrow> nat \<Rightarrow> nat \<Rightarrow> MemoryBlockLockFunction
     \<Rightarrow> KMemoryPermission \<Rightarrow> BlockFault + KMemoryBlockManager \<times> UpdateAllocator" where
  "manager_UpdateLock m al address num_pages lock_func perm =
     (let end_address = add64 address (mul64 num_pages PageSize) in
      walk_and_coalesce
        (\<lambda>it. True)
        (\<lambda>it. let cur_info = GetMemoryInfo it in
              lock_func perm (mi_address cur_info = address)
                (mi_GetEndAddress cur_info = end_address) it)
        m al address num_pages)"

definition manager_UpdateAttribute ::
  "KMemoryBlockManager \<Rightarrow> UpdateAllocator \<Rightarrow> nat \<Rightarrow> nat \<Rightarrow> KMemoryAttribute \<Rightarrow> KMemoryAttribute
     \<Rightarrow> BlockFault + KMemoryBlockManager \<times> UpdateAllocator" where
  "manager_UpdateAttribute m al address num_pages attr_mask attr =
     walk_and_coalesce
       (\<lambda>it. m_attribute it AND attr_mask \<noteq> attr)
       (\<lambda>it. block_UpdateAttribute it attr_mask attr)
       m al address num_pages"

subsection \<open>The debug check\<close>

definition check_counts :: "KMemoryInfo \<Rightarrow> bool" where
  "check_counts info \<longleftrightarrow>
     \<not> (mi_attribute info AND AttrIpcLocked \<noteq> AttrNone \<and> mi_ipc_lock_count info = 0) \<and>
     \<not> (mi_attribute info AND AttrDeviceShared \<noteq> AttrNone \<and> mi_device_use_count info = 0)"

fun check_state_loop :: "KMemoryBlock \<Rightarrow> KMemoryBlock list \<Rightarrow> bool" where
  "check_state_loop prev [] = check_counts (GetMemoryInfo prev)"
| "check_state_loop prev (b # bs) =
     (if CanMergeWith prev b then False
      else if mi_GetEndAddress (GetMemoryInfo prev) \<noteq> mi_address (GetMemoryInfo b) then False
      else if \<not> check_counts (GetMemoryInfo b) then False
      else check_state_loop b bs)"

definition CheckState :: "KMemoryBlockManager \<Rightarrow> BlockFault + bool" where
  "CheckState m =
     (case m_memory_block_tree m of
        [] \<Rightarrow> Inl EndIterator
      | b # bs \<Rightarrow> Inr (check_state_loop b bs))"

end
