(* ===== verification/Memory_Block_Refinement.thy ===== *)
theory Memory_Block_Refinement
  imports KMemoryBlockManager
begin

text \<open>
  What the block manager promises. Abstractly an address space is the sequence of its pages'
  properties (\<open>pages\<close>), and an update maps a function over a segment of it
  (\<open>map_segment\<close>). The theory proves that the four update operations refine that
  specification, with the well-formedness invariant of the block sequence: contiguous
  (\<open>chain\<close>) and coalesced (no two neighbours that \<open>CanMergeWith\<close>).
\<close>

section \<open>Contiguous sequences of blocks\<close>

fun chain :: "nat \<Rightarrow> KMemoryBlock list \<Rightarrow> nat \<Rightarrow> bool" where
  "chain a [] e \<longleftrightarrow> a = e"
| "chain a (b # bs) e \<longleftrightarrow>
     m_address b = a \<and> 0 < m_num_pages b \<and> chain (a + m_num_pages b * PageSize) bs e"

definition pages :: "KMemoryBlock list \<Rightarrow> PageProps list" where
  "pages bs = concat (map (\<lambda>b. replicate (m_num_pages b) (props_of b)) bs)"

lemma pages_simps [simp]:
  "pages [] = []"
  "pages (b # bs) = replicate (m_num_pages b) (props_of b) @ pages bs"
  "pages (xs @ ys) = pages xs @ pages ys"
  by (simp_all add: pages_def)

lemma chain_append [simp]: "chain a (xs @ ys) e \<longleftrightarrow> (\<exists>m. chain a xs m \<and> chain m ys e)"
  by (induction xs arbitrary: a) auto

lemma chain_length: "chain a bs e \<Longrightarrow> e = a + length (pages bs) * PageSize"
  by (induction bs arbitrary: a) (fastforce simp: algebra_simps)+

lemma chain_le: "chain a bs e \<Longrightarrow> a \<le> e"
  by (drule chain_length) simp

lemma chain_last: "chain a (bs @ [b]) e \<Longrightarrow> e = m_address b + m_num_pages b * PageSize"
  by auto

lemma chain_mem:
  "chain a bs e \<Longrightarrow> b \<in> set bs \<Longrightarrow>
     a \<le> m_address b \<and> m_address b + m_num_pages b * PageSize \<le> e \<and> 0 < m_num_pages b"
proof (induction bs arbitrary: a)
  case Nil
  then show ?case by simp
next
  case (Cons c cs)
  from Cons.prems(1) have cs: "chain (a + m_num_pages c * PageSize) cs e"
    and c: "m_address c = a" "0 < m_num_pages c"
    by auto
  show ?case
  proof (cases "b = c")
    case True
    with c chain_le [OF cs] show ?thesis by simp
  next
    case False
    with Cons.prems(2) have "b \<in> set cs" by simp
    from Cons.IH [OF cs this] show ?thesis by simp
  qed
qed

text \<open>Inside the address space no size or address computation of a block wraps.\<close>

lemma block_arith:
  assumes "m_address b + m_num_pages b * PageSize < 2 ^ 64"
  shows "GetSize b = m_num_pages b * PageSize"
    and "GetEndAddress b = m_address b + m_num_pages b * PageSize"
    and "mi_size (GetMemoryInfo b) = m_num_pages b * PageSize"
    and "mi_GetEndAddress (GetMemoryInfo b) = m_address b + m_num_pages b * PageSize"
    and "mi_GetNumPages (GetMemoryInfo b) = m_num_pages b"
    and "mi_address (GetMemoryInfo b) = m_address b"
  using assms
  by (simp_all add: GetSize_def GetEndAddress_def GetMemoryInfo_def mi_GetEndAddress_def
      mi_GetNumPages_def arith64)

lemma GetLastAddress_eq:
  assumes "m_address b + m_num_pages b * PageSize < 2 ^ 64" "0 < m_num_pages b"
  shows "GetLastAddress b = m_address b + m_num_pages b * PageSize - 1"
  using assms by (simp add: GetLastAddress_def block_arith arith64 Suc_leI)

lemma find_key_compare:
  assumes "m_address b + m_num_pages b * PageSize < 2 ^ 64" "0 < m_num_pages b"
  shows "Compare (find_key x) b = 0 \<longleftrightarrow>
    m_address b \<le> x \<and> x < m_address b + m_num_pages b * PageSize"
proof -
  have "0 < m_num_pages b * PageSize" using assms(2) by simp
  then have "x \<le> m_address b + m_num_pages b * PageSize - 1 \<longleftrightarrow>
      x < m_address b + m_num_pages b * PageSize"
    by arith
  then show ?thesis
    using assms by (auto simp: Compare_def find_key_def new_KMemoryBlock_def GetLastAddress_eq)
qed

text \<open>The iterator found for an address in the space is at the block that holds it.\<close>

lemma find_iter_chain:
  assumes "chain a bs e" "a \<le> x" "x < e" "e < 2 ^ 64"
  shows "\<exists>pre b post m. find_iter x bs = (pre, b # post) \<and> bs = pre @ b # post \<and>
    chain a pre m \<and> chain m (b # post) e \<and> m_address b = m \<and> m \<le> x \<and>
    x < m + m_num_pages b * PageSize"
  using assms
proof (induction bs arbitrary: a)
  case Nil
  then show ?case by simp
next
  case (Cons b bs)
  let ?n = "a + m_num_pages b * PageSize"
  from Cons.prems have tl: "chain ?n bs e" and b: "m_address b = a" "0 < m_num_pages b"
    by auto
  have fit: "m_address b + m_num_pages b * PageSize < 2 ^ 64"
    using chain_le [OF tl] b Cons.prems by simp
  note cmp = find_key_compare [OF fit b(2), of x]
  show ?case
  proof (cases "x < ?n")
    case True
    with cmp b Cons.prems have "find_iter x (b # bs) = ([], b # bs)" by simp
    with True b Cons.prems show ?thesis by (intro exI [of _ "[]"]) auto
  next
    case False
    then have ge: "?n \<le> x" by simp
    from Cons.IH [OF tl ge Cons.prems(3,4)] obtain pre c post m where
      IH: "find_iter x bs = (pre, c # post)" "bs = pre @ c # post" "chain ?n pre m"
        "chain m (c # post) e" "m_address c = m" "m \<le> x" "x < m + m_num_pages c * PageSize"
      by blast
    from False cmp b IH(1) have "find_iter x (b # bs) = (b # pre, c # post)" by simp
    with IH b show ?thesis by (intro exI [of _ "b # pre"]) auto
  qed
qed

text \<open>A position that starts a block, or the end of the space.\<close>

definition boundary :: "KMemoryBlock list \<Rightarrow> nat \<Rightarrow> nat \<Rightarrow> bool" where
  "boundary bs e x \<longleftrightarrow> x = e \<or> x \<in> m_address ` set bs"

lemma boundary_tail:
  assumes "boundary (b # bs) e x" "x \<noteq> m_address b"
  shows "boundary bs e x"
  using assms by (auto simp: boundary_def)

lemma boundary_append_tail:
  assumes "chain a pre m" "boundary (pre @ bs) e x" "m \<le> x"
  shows "boundary bs e x"
proof -
  have "x \<notin> m_address ` set pre"
  proof
    assume "x \<in> m_address ` set pre"
    then obtain c where "c \<in> set pre" "x = m_address c" by auto
    from chain_mem [OF assms(1) this(1)] have "0 < m_num_pages c * PageSize"
      and "m_address c + m_num_pages c * PageSize \<le> m"
      by simp_all
    with assms(3) \<open>x = m_address c\<close> show False by linarith
  qed
  with assms(2) show ?thesis by (auto simp: boundary_def)
qed

lemma not_boundary_inside:
  assumes "chain a (b # bs) e" "a < x" "x < a + m_num_pages b * PageSize"
  shows "\<not> boundary (b # bs) e x"
proof -
  from assms(1) have tl: "chain (a + m_num_pages b * PageSize) bs e" and "m_address b = a"
    by auto
  have "x \<notin> m_address ` set bs"
    using chain_mem [OF tl] assms(3) by fastforce
  with chain_le [OF tl] assms \<open>m_address b = a\<close> show ?thesis
    by (auto simp: boundary_def)
qed

section \<open>The allocator\<close>

text \<open>\<open>available n al\<close>: the next \<open>n\<close> calls to \<open>Allocate\<close> return a block.\<close>

definition available :: "nat \<Rightarrow> UpdateAllocator \<Rightarrow> bool" where
  "available n al \<longleftrightarrow> length (m_blocks al) = MaxBlocks \<and> m_index al + n \<le> MaxBlocks \<and>
     (\<forall>i. m_index al \<le> i \<and> i < MaxBlocks \<longrightarrow> m_blocks al ! i)"

lemma available_Allocate:
  assumes "available (Suc n) al"
  shows "\<exists>al'. allocator_Allocate al = Some al' \<and> available n al'"
  using assms
  by (auto simp: available_def allocator_Allocate_def MaxBlocks_def nth_list_update_if)

lemma available_Free: "available n al \<Longrightarrow> available n (allocator_Free al)"
  by (auto simp: available_def allocator_Free_def MaxBlocks_def nth_list_update_if)

lemma available_weaken: "available n al \<Longrightarrow> k \<le> n \<Longrightarrow> available k al"
  by (auto simp: available_def)

lemma available_new:
  assumes "new_UpdateAllocator sm num_blocks = (ResultSuccess, al)" "num_blocks \<le> MaxBlocks"
  shows "available num_blocks al"
proof -
  consider "num_blocks = 0" | "num_blocks = 1" | "num_blocks = 2"
    using assms(2) by (fastforce simp: MaxBlocks_def)
  then show ?thesis
    using assms(1)
    by cases (auto simp: new_UpdateAllocator_def allocator_Initialize_def available_def
        MaxBlocks_def numeral_2_eq_2 less_Suc_eq split: if_splits)
qed

section \<open>Splitting and merging\<close>

lemma block_Split_eq:
  assumes "m_address b + m_num_pages b * PageSize < 2 ^ 64" "k \<le> m_num_pages b"
    and "block_Split b (m_address b + k * PageSize) = (l, r)"
  shows "m_address l = m_address b" "m_num_pages l = k" "props_of l = props_of b"
    and "m_address r = m_address b + k * PageSize" "m_num_pages r = m_num_pages b - k"
    and "props_of r = props_of b"
    and "m_disable_merge_attribute l = m_disable_merge_attribute b AND DisableMerge_AllLeft"
    and "m_disable_merge_attribute r = m_disable_merge_attribute b AND DisableMerge_AllRight"
proof -
  have le: "k * PageSize \<le> m_num_pages b * PageSize"
    using assms(2) by simp
  have "m_num_pages b \<le> m_num_pages b * PageSize"
    by (simp add: PageSize_def)
  then have n: "m_num_pages b < 2 ^ 64" using assms(1) by linarith
  have "sub64 (m_address b + k * PageSize) (m_address b) = k * PageSize"
    by (subst sub64_eq) (use assms(1) le in linarith)+
  moreover have "sub64 (m_num_pages b) k = m_num_pages b - k"
    using assms(2) n by (simp add: arith64)
  ultimately show "m_address l = m_address b" "m_num_pages l = k" "props_of l = props_of b"
    "m_address r = m_address b + k * PageSize" "m_num_pages r = m_num_pages b - k"
    "props_of r = props_of b"
    "m_disable_merge_attribute l = m_disable_merge_attribute b AND DisableMerge_AllLeft"
    "m_disable_merge_attribute r = m_disable_merge_attribute b AND DisableMerge_AllRight"
    using assms(3) by (auto simp: block_Split_def Let_def props_of_def)
qed

definition coalesced :: "KMemoryBlock list \<Rightarrow> bool" where
  "coalesced bs \<longleftrightarrow> successively (\<lambda>b c. \<not> CanMergeWith b c) bs"

lemma coalesced_simps [simp]:
  "coalesced []"
  "coalesced [b]"
  "coalesced (b # c # bs) \<longleftrightarrow> \<not> CanMergeWith b c \<and> coalesced (c # bs)"
  by (simp_all add: coalesced_def)

lemma coalesced_Cons:
  "coalesced (b # bs) \<longleftrightarrow> (bs = [] \<or> \<not> CanMergeWith b (hd bs)) \<and> coalesced bs"
  by (cases bs) auto

lemma coalesced_append:
  "coalesced (xs @ ys) \<longleftrightarrow> coalesced xs \<and> coalesced ys \<and>
     (xs = [] \<or> ys = [] \<or> \<not> CanMergeWith (last xs) (hd ys))"
  by (auto simp: coalesced_def successively_append_iff)

lemma CanMergeWith_iff:
  "CanMergeWith b c \<longleftrightarrow> props_of b = props_of c \<and>
     m_disable_merge_attribute b AND DisableMerge_AllRight = 0 \<and>
     m_disable_merge_attribute c AND DisableMerge_AllLeft = 0"
  by (simp add: CanMergeWith_def HasSameProperties_iff DisableMerge_None_def)

text \<open>
  The left side of a block only matters to its left neighbour and the right side to its right
  one: \<open>left_like\<close> and \<open>right_like\<close> blocks can stand in for each other there.
\<close>

definition left_like :: "KMemoryBlock \<Rightarrow> KMemoryBlock \<Rightarrow> bool" where
  "left_like b c \<longleftrightarrow> props_of b = props_of c \<and>
     m_disable_merge_attribute b AND DisableMerge_AllLeft =
     m_disable_merge_attribute c AND DisableMerge_AllLeft"

definition right_like :: "KMemoryBlock \<Rightarrow> KMemoryBlock \<Rightarrow> bool" where
  "right_like b c \<longleftrightarrow> props_of b = props_of c \<and>
     m_disable_merge_attribute b AND DisableMerge_AllRight =
     m_disable_merge_attribute c AND DisableMerge_AllRight"

lemma right_like_coalesced: "right_like b c \<Longrightarrow> coalesced (b # bs) \<longleftrightarrow> coalesced (c # bs)"
  by (cases bs) (auto simp: right_like_def CanMergeWith_iff)

lemma left_like_coalesced: "left_like b c \<Longrightarrow> coalesced (bs @ [b]) \<longleftrightarrow> coalesced (bs @ [c])"
  by (auto simp: coalesced_append left_like_def CanMergeWith_iff)

lemma block_Split_like:
  assumes "block_Split b x = (l, r)"
  shows "left_like l b" "right_like r b"
  using assms
  by (auto simp: block_Split_def Let_def left_like_def right_like_def props_of_def ac_simps)

lemma block_Add_like:
  assumes "CanMergeWith b c"
  shows "left_like (block_Add b c) b" "right_like (block_Add b c) c"
proof -
  have b: "m_disable_merge_attribute b AND DisableMerge_AllRight = 0"
    and c: "m_disable_merge_attribute c AND DisableMerge_AllLeft = 0"
    and p: "props_of b = props_of c"
    using assms by (auto simp: CanMergeWith_iff)
  have "m_disable_merge_attribute (block_Add b c) =
      m_disable_merge_attribute b OR m_disable_merge_attribute c"
    by (simp add: block_Add_def)
  then show "left_like (block_Add b c) b" "right_like (block_Add b c) c"
    using b c p
    by (simp_all add: left_like_def right_like_def block_frame bit.conj_disj_distrib2)
qed

text \<open>From the first block on that reaches beyond \<open>x\<close>, neighbours cannot be merged.\<close>

fun settled_after :: "nat \<Rightarrow> KMemoryBlock list \<Rightarrow> bool" where
  "settled_after x [] \<longleftrightarrow> True"
| "settled_after x (c # cs) \<longleftrightarrow>
     (x < m_address c + m_num_pages c * PageSize \<longrightarrow> coalesced (c # cs)) \<and> settled_after x cs"

lemma coalesced_settled: "coalesced bs \<Longrightarrow> settled_after x bs"
  by (induction bs) (simp_all add: coalesced_Cons)

section \<open>The walk\<close>

definition map_segment :: "('a \<Rightarrow> 'a) \<Rightarrow> nat \<Rightarrow> nat \<Rightarrow> 'a list \<Rightarrow> 'a list" where
  "map_segment f i n xs = take i xs @ map f (take n (drop i xs)) @ drop (i + n) xs"

lemma map_segment_zero [simp]: "map_segment f i 0 xs = xs"
  by (simp add: map_segment_def)

lemma map_segment_append:
  "length xs = i \<Longrightarrow> map_segment f i n (xs @ ys) = xs @ map_segment f 0 n ys"
  by (simp add: map_segment_def)

lemma map_segment_append_add:
  "map_segment f (length xs + j) n (xs @ ys) = xs @ map_segment f j n ys"
  by (simp add: map_segment_def)

lemma map_segment_replicate_less:
  "n \<le> k \<Longrightarrow> map_segment f 0 n (replicate k p @ xs) =
     replicate n (f p) @ replicate (k - n) p @ xs"
  by (simp add: map_segment_def)

lemma map_segment_replicate_ge:
  "k \<le> n \<Longrightarrow> map_segment f 0 n (replicate k p @ xs) =
     replicate k (f p) @ map_segment f 0 (n - k) xs"
  by (simp add: map_segment_def)

subsection \<open>Single rounds of the loop\<close>

abbreviation block_end :: "KMemoryBlock \<Rightarrow> nat" where
  "block_end b \<equiv> m_address b + m_num_pages b * PageSize"

lemma walk_done: "walk fuel needs change x 0 pre rest al = Inr (pre @ rest, al)"
  by (simp add: walk.simps)

lemma pages_lt_2_64: "n * PageSize < 2 ^ 64 \<Longrightarrow> n < 2 ^ 64"
  by (simp add: PageSize_def)

lemma walk_skip_short:
  assumes "\<not> needs b" "0 < n" "x + n * PageSize < block_end b" "block_end b < 2 ^ 64"
  shows "walk (Suc fuel) needs change x n pre (b # bs) al = Inr (pre @ b # bs, al)"
proof -
  have "n * PageSize < 2 ^ 64" "x + n * PageSize < 2 ^ 64" using assms(3,4) by linarith+
  then show ?thesis
    using assms block_arith [OF assms(4)]
    by (simp add: walk.simps [of "Suc fuel"] walk_done mul64_eq add64_eq Let_def)
qed

lemma walk_skip_long:
  assumes "\<not> needs b" "0 < n" "x + n * PageSize = block_end b + k * PageSize"
    and "x + n * PageSize < 2 ^ 64"
  shows "walk (Suc fuel) needs change x n pre (b # bs) al =
    walk fuel needs change (block_end b) k (pre @ [b]) bs al"
proof -
  have fits: "n * PageSize < 2 ^ 64" "block_end b < 2 ^ 64" using assms(3,4) by linarith+
  have "sub64 (x + n * PageSize) (block_end b) = k * PageSize"
    using assms(3,4) by (subst sub64_eq) simp_all
  then show ?thesis
    using assms fits block_arith [OF fits(2)]
    by (simp add: walk.simps [of "Suc fuel"] mul64_eq add64_eq Let_def)
qed

lemma walk_change_short:
  assumes "needs b" "0 < n" "n < m_num_pages b" "block_end b < 2 ^ 64"
    and "allocator_Allocate al = Some al'"
    and "block_Split b (m_address b + n * PageSize) = (l, r)"
  shows "walk (Suc fuel) needs change (m_address b) n pre (b # bs) al =
    Inr (pre @ change l # r # bs, al')"
proof -
  have lt: "n * PageSize < m_num_pages b * PageSize" using assms(3) by simp
  then have "n * PageSize < 2 ^ 64" "m_address b + n * PageSize < 2 ^ 64"
    using assms(4) by linarith+
  note fits = this pages_lt_2_64 [OF this(1)]
  have le: "n \<le> m_num_pages b" using assms(3) by simp
  note sp = block_Split_eq [OF assms(4) le assms(6)]
  have l: "block_end l < 2 ^ 64" unfolding sp(1,2) by (rule fits(2))
  have "split_after (m_address b) (n * PageSize) b al = Inr (l, [r], al')"
    using lt fits assms(5,6) block_arith [OF assms(4)]
    by (simp add: split_after_def add64_eq del: mult_less_cancel2)
  moreover have "sub64 n n = 0" using fits(3) by (simp add: sub64_eq)
  ultimately show ?thesis
    using assms(1,2) fits block_arith(6) [OF assms(4)] block_arith [OF l] sp(2)
    by (simp add: walk.simps [of "Suc fuel"] walk_done split_before_def mul64_eq Let_def)
qed

lemma walk_change_long:
  assumes "needs b" "0 < n" "m_num_pages b \<le> n" "m_address b + n * PageSize < 2 ^ 64"
  shows "walk (Suc fuel) needs change (m_address b) n pre (b # bs) al =
    walk fuel needs change (block_end b) (n - m_num_pages b) (pre @ [change b]) bs al"
proof -
  have le: "m_num_pages b * PageSize \<le> n * PageSize" using assms(3) by simp
  then have "n * PageSize < 2 ^ 64" "block_end b < 2 ^ 64"
    using assms(4) by linarith+
  note fits = this pages_lt_2_64 [OF this(1)]
  have "split_after (m_address b) (n * PageSize) b al = Inr (b, [], al)"
    using le block_arith [OF fits(2)] by (simp add: split_after_def del: mult_le_cancel2)
  moreover have "sub64 n (m_num_pages b) = n - m_num_pages b"
    using assms(3) fits(3) by (simp add: sub64_eq)
  ultimately show ?thesis
    using assms(1,2) fits block_arith [OF fits(2)]
    by (simp add: walk.simps [of "Suc fuel"] split_before_def mul64_eq add64_eq Let_def)
qed

lemma walk_split_before:
  assumes "needs b" "needs r" "0 < n" "m_address b \<noteq> x" "m_address r = x"
    and "allocator_Allocate al = Some al'" "block_Split b x = (l, r)"
  shows "walk (Suc fuel) needs change x n pre (b # bs) al =
    walk (Suc fuel) needs change x n (pre @ [l]) (r # bs) al'"
  using assms
  by (simp add: walk.simps [of "Suc fuel"] split_before_def GetMemoryInfo_def Let_def
      split: sum.split)

subsection \<open>Whole walks\<close>

locale block_walk =
  fixes needs :: "KMemoryBlock \<Rightarrow> bool"
    and change :: "KMemoryBlock \<Rightarrow> KMemoryBlock"
    and nd :: "PageProps \<Rightarrow> bool"
    and f :: "PageProps \<Rightarrow> PageProps"
  assumes needs_iff: "needs b \<longleftrightarrow> nd (props_of b)"
    and change_address: "m_address (change b) = m_address b"
    and change_num_pages: "m_num_pages (change b) = m_num_pages b"
    and change_props: "nd (props_of b) \<Longrightarrow> props_of (change b) = f (props_of b)"
    and skip: "\<not> nd q \<Longrightarrow> f q = q"
begin

text \<open>
  What a walk over the blocks \<open>rest\<close>, which start at \<open>a\<close>, achieves for a range of \<open>n\<close>
  pages from the \<open>j\<close>-th page on.
\<close>

definition walked :: "nat \<Rightarrow> nat \<Rightarrow> nat \<Rightarrow> nat \<Rightarrow> KMemoryBlock list \<Rightarrow> KMemoryBlock list \<Rightarrow> bool"
where
  "walked a e j n rest bs \<longleftrightarrow> chain a bs e \<and> pages bs = map_segment f j n (pages rest) \<and>
     settled_after (a + j * PageSize + n * PageSize) bs"

lemma needs_props: "needs b \<Longrightarrow> props_of c = props_of b \<Longrightarrow> needs c"
  by (simp add: needs_iff)

lemma walked_nothing:
  assumes "chain a rest e" "coalesced rest"
  shows "walked a e 0 0 rest rest"
  using assms coalesced_settled by (simp add: walked_def)

text \<open>The range ends inside the first block.\<close>

lemma walk_short:
  assumes "chain a (b # bs) e" "e < 2 ^ 64" "0 < n" "n < m_num_pages b" "coalesced (b # bs)"
    and "available (Suc k) al"
  shows "\<exists>bs' al'. walk (Suc fuel) needs change a n pre (b # bs) al = Inr (pre @ bs', al') \<and>
    walked a e 0 n (b # bs) bs' \<and> available k al'"
proof -
  from assms(1) have tl: "chain (block_end b) bs e" and b: "m_address b = a" by auto
  have fit: "block_end b < 2 ^ 64" using chain_le [OF tl] assms(2) by simp
  have co: "coalesced bs" using assms(5) by (simp add: coalesced_Cons)
  show ?thesis
  proof (cases "needs b")
    case True
    obtain al' where al': "allocator_Allocate al = Some al'" "available k al'"
      using available_Allocate [OF assms(6)] by blast
    obtain l r where lr: "block_Split b (m_address b + n * PageSize) = (l, r)" by fastforce
    have le: "n \<le> m_num_pages b" using assms(4) by simp
    note sp = block_Split_eq [OF fit le lr]
    have "chain a (change l # r # bs) e"
      using tl sp b assms(3,4)
      by (simp add: change_address change_num_pages diff_mult_distrib)
    moreover have "pages (change l # r # bs) = map_segment f 0 n (pages (b # bs))"
      using sp le True
      by (simp add: change_num_pages change_props needs_iff map_segment_replicate_less)
    moreover have "settled_after (a + n * PageSize) (change l # r # bs)"
      using assms(5) right_like_coalesced [OF block_Split_like(2) [OF lr]] sp b
        coalesced_settled [OF co]
      by (simp add: change_address change_num_pages)
    ultimately have "walked a e 0 n (b # bs) (change l # r # bs)" by (simp add: walked_def)
    with walk_change_short [of needs, OF True assms(3,4) fit al'(1) lr] al'(2) b
    show ?thesis by blast
  next
    case False
    then have "f (props_of b) = props_of b" by (simp add: needs_iff skip)
    then have "map_segment f 0 n (pages (b # bs)) = pages (b # bs)"
      using assms(4) by (simp add: map_segment_replicate_less flip: append_assoc replicate_add)
    then have "walked a e 0 n (b # bs) (b # bs)"
      using assms(1,5) coalesced_settled [OF assms(5)] by (simp add: walked_def)
    moreover have "a + n * PageSize < block_end b" using assms(4) b by simp
    moreover have "available k al" by (rule available_weaken [OF assms(6)]) simp
    ultimately show ?thesis
      using walk_skip_short [of needs, OF False assms(3) _ fit]
      by (intro exI [of _ "b # bs"] exI [of _ al]) blast
  qed
qed

text \<open>The range covers the first block: the rest of the walk does the rest.\<close>

lemma walk_long:
  assumes "m_address b = a" "0 < m_num_pages b" "m_num_pages b \<le> n" "a + n * PageSize < 2 ^ 64"
  shows "\<exists>c. walk (Suc fuel) needs change a n pre (b # bs) al =
      walk fuel needs change (block_end b) (n - m_num_pages b) (pre @ [c]) bs al \<and>
    m_address c = a \<and> m_num_pages c = m_num_pages b \<and> props_of c = f (props_of b)"
proof (cases "needs b")
  case True
  with assms walk_change_long [of needs b n fuel change pre bs al] show ?thesis
    by (intro exI [of _ "change b"])
      (simp add: change_address change_num_pages change_props needs_iff)
next
  case False
  have "m_num_pages b * PageSize \<le> n * PageSize" using assms(3) by simp
  then have "a + n * PageSize = block_end b + (n - m_num_pages b) * PageSize"
    using assms(1) by (simp add: diff_mult_distrib)
  with False assms walk_skip_long [of needs, OF False, of n a _ fuel change pre bs al]
  show ?thesis by (intro exI [of _ b]) (simp add: needs_iff skip)
qed

text \<open>
  A walk that starts at a block boundary: it stops, needs a block from the allocator only when
  the range ends inside a block, and maps \<open>f\<close> over the pages of the range.
\<close>

lemma walk_aligned:
  assumes "chain a rest e" "e < 2 ^ 64" "a + n * PageSize \<le> e" "length rest \<le> fuel"
    and "available (if boundary rest e (a + n * PageSize) then k else Suc k) al"
    and "coalesced rest"
  shows "\<exists>bs al'. walk fuel needs change a n pre rest al = Inr (pre @ bs, al') \<and>
    walked a e 0 n rest bs \<and> available k al'"
  using assms
proof (induction rest arbitrary: a n pre fuel)
  case Nil
  then have "n * PageSize \<le> 0" by simp
  then have "n = 0" by simp
  with Nil.prems show ?case by (simp add: walk_done walked_def boundary_def)
next
  case (Cons b bs)
  from Cons.prems(1) have tl: "chain (block_end b) bs e" and b: "m_address b = a" "0 < m_num_pages b"
    by auto
  have co: "coalesced bs" using Cons.prems(6) by (simp add: coalesced_Cons)
  obtain fuel' where fuel: "fuel = Suc fuel'" "length bs \<le> fuel'"
    using Cons.prems(4) by (cases fuel) auto
  consider "n = 0" | "0 < n" "n < m_num_pages b" | "0 < n" "m_num_pages b \<le> n" by fastforce
  then show ?case
  proof cases
    case 1
    have "available k al" by (rule available_weaken [OF Cons.prems(5)]) simp
    with 1 walked_nothing [OF Cons.prems(1,6)] show ?thesis by (auto simp: walk_done)
  next
    case 2
    then have "n * PageSize < m_num_pages b * PageSize" by simp
    then have "\<not> boundary (b # bs) e (a + n * PageSize)"
      using not_boundary_inside [OF Cons.prems(1)] 2(1) by simp
    with Cons.prems(5) have "available (Suc k) al" by simp
    with walk_short [OF Cons.prems(1,2) 2 Cons.prems(6)] fuel show ?thesis by blast
  next
    case 3
    let ?n = "n - m_num_pages b"
    have "m_num_pages b * PageSize \<le> n * PageSize" using 3(2) by simp
    then have eq: "block_end b + ?n * PageSize = a + n * PageSize"
      using b by (simp add: diff_mult_distrib)
    have av: "available (if boundary bs e (block_end b + ?n * PageSize) then k else Suc k) al"
      using Cons.prems(5) boundary_tail [of b bs e "a + n * PageSize"] b 3(1) unfolding eq
      by (auto elim: available_weaken split: if_splits)
    have "a + n * PageSize < 2 ^ 64" using Cons.prems(2,3) by linarith
    from walk_long [OF b 3(2) this] obtain c where
      c: "walk fuel needs change a n pre (b # bs) al =
          walk fuel' needs change (block_end b) ?n (pre @ [c]) bs al"
        "m_address c = a" "m_num_pages c = m_num_pages b" "props_of c = f (props_of b)"
      unfolding fuel(1) by blast
    obtain bs' al' where IH: "walk fuel' needs change (block_end b) ?n (pre @ [c]) bs al =
          Inr ((pre @ [c]) @ bs', al')" "walked (block_end b) e 0 ?n bs bs'" "available k al'"
      using Cons.IH [OF tl Cons.prems(2) _ fuel(2) av co, of "pre @ [c]"] Cons.prems(3) eq by auto
    have "settled_after (block_end b + ?n * PageSize) bs'"
      using IH(2) by (simp add: walked_def)
    then have "settled_after (a + n * PageSize) (c # bs')"
      unfolding eq using c(2,3) 3(2) by simp
    then have "walked a e 0 n (b # bs) (c # bs')"
      using IH(2) c b 3(2) by (simp add: walked_def map_segment_replicate_ge)
    with c(1) IH(1,3) show ?thesis by simp
  qed
qed

text \<open>
  A walk that starts inside a block. When that block changes it is split first; its part before
  the range stays where it was.
\<close>

lemma walk_inside_needs:
  assumes "chain m (b # post) e" "e < 2 ^ 64" "0 < j" "j < m_num_pages b" "0 < n"
    and "m + j * PageSize + n * PageSize \<le> e" "length (b # post) \<le> fuel" "needs b"
    and "available (if boundary (b # post) e (m + j * PageSize + n * PageSize)
           then Suc k else Suc (Suc k)) al"
    and "coalesced (b # post)"
  shows "\<exists>l bs al'. walk fuel needs change (m + j * PageSize) n pre (b # post) al =
      Inr (pre @ l # bs, al') \<and> walked m e j n (b # post) (l # bs) \<and> available k al' \<and>
    left_like l b \<and> chain m [l] (m + j * PageSize)"
proof -
  let ?x = "m + j * PageSize"
  from assms(1) have tl: "chain (block_end b) post e" and b: "m_address b = m" by auto
  have fit: "block_end b < 2 ^ 64" using chain_le [OF tl] assms(2) by simp
  obtain fuel' where fuel: "fuel = Suc fuel'" using assms(7) by (cases fuel) auto
  have "available (Suc (if boundary (b # post) e (?x + n * PageSize) then k else Suc k)) al"
    using assms(9) by (simp split: if_splits)
  then obtain al1 where al1: "allocator_Allocate al = Some al1"
    and av1: "available (if boundary (b # post) e (?x + n * PageSize) then k else Suc k) al1"
    using available_Allocate by blast
  obtain l r where lr: "block_Split b ?x = (l, r)" by fastforce
  have le: "j \<le> m_num_pages b" using assms(4) by simp
  note sp = block_Split_eq [OF fit le lr [folded b]]
  have chr: "chain ?x (r # post) e"
    using tl sp assms(4) b by (simp add: diff_mult_distrib)
  have "boundary (r # post) e (?x + n * PageSize)"
    if "boundary (b # post) e (?x + n * PageSize)"
    using boundary_tail [OF that] b assms(3) by (auto simp: boundary_def)
  with av1 have av: "available (if boundary (r # post) e (?x + n * PageSize) then k else Suc k) al1"
    by (auto elim: available_weaken split: if_splits)
  have cor: "coalesced (r # post)"
    using assms(10) right_like_coalesced [OF block_Split_like(2) [OF lr]] by simp
  obtain bs al' where W: "walk fuel needs change ?x n (pre @ [l]) (r # post) al1 =
        Inr ((pre @ [l]) @ bs, al')" "walked ?x e 0 n (r # post) bs" "available k al'"
    using walk_aligned [OF chr assms(2) assms(6) _ av cor, of fuel "pre @ [l]"] assms(7) by auto
  have "pages (b # post) = replicate j (props_of b) @ pages (r # post)"
    using sp le by (simp flip: append_assoc replicate_add)
  then have "walked m e j n (b # post) (l # bs)"
    using W(2) sp b assms(3) by (simp add: walked_def map_segment_append del: pages_simps(2))
      (simp add: pages_simps)
  moreover have "walk fuel needs change ?x n pre (b # post) al =
      walk fuel needs change ?x n (pre @ [l]) (r # post) al1"
    unfolding fuel
    by (rule walk_split_before)
      (use assms(3,5,8) needs_props [OF assms(8)] sp b al1 lr in auto)
  ultimately show ?thesis
    using W(1,3) block_Split_like(1) [OF lr] sp(1,2) b assms(3)
    by (intro exI [of _ l] exI [of _ bs] exI [of _ al']) simp
qed

lemma walk_inside_skip:
  assumes "chain m (b # post) e" "e < 2 ^ 64" "j < m_num_pages b" "0 < n"
    and "m + j * PageSize + n * PageSize \<le> e" "length (b # post) \<le> fuel" "\<not> needs b"
    and "available (if boundary (b # post) e (m + j * PageSize + n * PageSize)
           then k else Suc k) al"
    and "coalesced (b # post)"
  shows "\<exists>bs al'. walk fuel needs change (m + j * PageSize) n pre (b # post) al =
      Inr (pre @ b # bs, al') \<and> walked m e j n (b # post) (b # bs) \<and> available k al'"
proof -
  let ?x = "m + j * PageSize" and ?r = "m_num_pages b - j"
  from assms(1) have tl: "chain (block_end b) post e" and b: "m_address b = m" by auto
  have fit: "block_end b < 2 ^ 64" using chain_le [OF tl] assms(2) by simp
  have fb: "f (props_of b) = props_of b" using assms(7) by (simp add: needs_iff skip)
  have co: "coalesced post" using assms(9) by (simp add: coalesced_Cons)
  obtain fuel' where fuel: "fuel = Suc fuel'" "length post \<le> fuel'"
    using assms(6) by (cases fuel) auto
  have sz: "m_num_pages b * PageSize = j * PageSize + ?r * PageSize"
    using assms(3) by (simp flip: add_mult_distrib)
  have "pages (b # post) = replicate j (props_of b) @ replicate ?r (props_of b) @ pages post"
    using assms(3) by (simp flip: append_assoc replicate_add)
  then have seg: "map_segment f j n (pages (b # post)) = replicate j (props_of b) @
      map_segment f 0 n (replicate ?r (props_of b) @ pages post)"
    by (simp only: map_segment_append length_replicate)
  show ?thesis
  proof (cases "n < ?r")
    case True
    then have "n * PageSize < ?r * PageSize" by simp
    then have lt: "?x + n * PageSize < block_end b" using sz b by linarith
    have "map_segment f j n (pages (b # post)) = pages (b # post)"
      using True assms(3) fb unfolding seg
      by (simp add: map_segment_replicate_less flip: append_assoc replicate_add)
    then have "walked m e j n (b # post) (b # post)"
      using assms(1,9) coalesced_settled [OF assms(9)] by (simp add: walked_def)
    moreover have "available k al" by (rule available_weaken [OF assms(8)]) simp
    ultimately show ?thesis
      using walk_skip_short [of needs, OF assms(7,4) lt fit] unfolding fuel(1)
      by (intro exI [of _ post] exI [of _ al]) blast
  next
    case False
    let ?n = "n - ?r"
    have "?r * PageSize \<le> n * PageSize" using False by simp
    moreover have "?n * PageSize = n * PageSize - ?r * PageSize" by (rule diff_mult_distrib)
    ultimately have eq: "?x + n * PageSize = block_end b + ?n * PageSize"
      using sz b by linarith
    have ne: "?x + n * PageSize \<noteq> m_address b" using b assms(4) by simp
    have av: "available (if boundary post e (block_end b + ?n * PageSize) then k else Suc k) al"
      using assms(8) boundary_tail [OF _ ne, of post e] unfolding eq
      by (auto elim: available_weaken split: if_splits)
    obtain bs al' where W: "walk fuel' needs change (block_end b) ?n (pre @ [b]) post al =
          Inr ((pre @ [b]) @ bs, al')" "walked (block_end b) e 0 ?n post bs" "available k al'"
      using walk_aligned [OF tl assms(2) _ fuel(2) av co, of "pre @ [b]"] assms(5) eq by auto
    have "?x + n * PageSize < 2 ^ 64" using assms(2,5) by linarith
    then have "walk fuel needs change ?x n pre (b # post) al = Inr (pre @ b # bs, al')"
      using walk_skip_long [of needs, OF assms(7,4) eq] W(1) fuel by simp
    moreover have "walked m e j n (b # post) (b # bs)"
      using W(2) False assms(1,3) fb b unfolding walked_def seg eq
      by (simp add: map_segment_replicate_ge flip: append_assoc replicate_add)
    ultimately show ?thesis using W(3) by blast
  qed
qed

end

section \<open>The coalescing pass\<close>

lemma coalesce_loop_spec:
  assumes "chain m (prev # rest) e" "e < 2 ^ 64" "coalesced (pre @ [prev])"
    and "settled_after limit rest" "available n al"
  shows "\<exists>bs al'. coalesce_loop limit pre prev rest al = (pre @ bs, al') \<and> chain m bs e \<and>
    pages bs = pages (prev # rest) \<and> coalesced (pre @ bs) \<and> available n al'"
  using assms
proof (induction rest arbitrary: m prev pre al)
  case Nil
  then show ?case by auto
next
  case (Cons b rest)
  let ?lim = "m_address b + m_num_pages b * PageSize"
  from Cons.prems(1) have prev: "m_address prev = m" "0 < m_num_pages prev"
      "m_address b = m + m_num_pages prev * PageSize" "0 < m_num_pages b"
    and tl: "chain ?lim rest e" and chb: "chain (m_address b) (b # rest) e"
    by auto
  have fit: "?lim < 2 ^ 64" using chain_le [OF tl] Cons.prems(2) by simp
  have settled: "settled_after limit rest" using Cons.prems(4) by simp
  show ?case
  proof (cases "CanMergeWith prev b")
    case True
    define c where "c = block_Add prev b"
    have "m_num_pages prev + m_num_pages b \<le> ?lim"
      using prev by (simp add: PageSize_def)
    then have c: "m_address c = m" "m_num_pages c = m_num_pages prev + m_num_pages b"
        "props_of c = props_of prev" "props_of b = props_of prev"
      using fit True prev
      by (simp_all add: c_def block_Add_def arith64 props_of_def CanMergeWith_iff)
    have cend: "m_address c + m_num_pages c * PageSize = ?lim"
      using c prev by (simp add: algebra_simps)
    have chc: "chain m (c # rest) e" using c(1,2) prev(2) tl cend by simp
    have pg: "pages (c # rest) = pages (prev # b # rest)" using c by (simp add: replicate_add)
    note like = block_Add_like [OF True, folded c_def]
    have cc: "coalesced (pre @ [c])"
      using Cons.prems(3) left_like_coalesced [OF like(1)] by simp
    note ar = block_arith(4) [of c]
    show ?thesis
    proof (cases "limit < ?lim")
      case lim: True
      then have "coalesced (c # rest)"
        using Cons.prems(4) right_like_coalesced [OF like(2)] by simp
      then have "coalesced (pre @ c # rest)" using cc by (auto simp: coalesced_append)
      moreover have "coalesce_loop limit pre prev (b # rest) al =
          (pre @ c # rest, allocator_Free al)"
        using True lim ar cend fit by (simp add: c_def Let_def)
      ultimately show ?thesis
        using chc pg available_Free [OF Cons.prems(5)] by blast
    next
      case False
      with True ar cend fit have "coalesce_loop limit pre prev (b # rest) al =
          coalesce_loop limit pre c rest (allocator_Free al)"
        by (simp add: c_def Let_def)
      with Cons.IH [OF chc Cons.prems(2) cc settled available_Free [OF Cons.prems(5)]] pg
      show ?thesis by simp
    qed
  next
    case False
    have cc: "coalesced ((pre @ [prev]) @ [b])"
      using Cons.prems(3) False by (simp add: coalesced_append)
    note ar = block_arith(4) [OF fit]
    show ?thesis
    proof (cases "limit < ?lim")
      case True
      then have "coalesced (b # rest)" using Cons.prems(4) by simp
      then have "coalesced (pre @ prev # b # rest)"
        using cc by (auto simp: coalesced_append)
      with False True ar Cons.prems(1,5) show ?thesis by auto
    next
      case lim: False
      obtain bs al' where IH: "coalesce_loop limit (pre @ [prev]) b rest al =
          ((pre @ [prev]) @ bs, al')" "chain (m_address b) bs e" "pages bs = pages (b # rest)"
          "coalesced ((pre @ [prev]) @ bs)" "available n al'"
        using Cons.IH [OF chb Cons.prems(2) cc settled Cons.prems(5)] by blast
      then show ?thesis
        using False lim ar prev by (intro exI [of _ "prev # bs"] exI [of _ al']) simp
    qed
  qed
qed

section \<open>The invariant and the refinement\<close>

text \<open>
  The manager is well formed when its blocks tile the address space, which ends below
  \<open>2 ^ 64\<close>, and neighbours that could be merged have been.
\<close>

definition manager_ok :: "KMemoryBlockManager \<Rightarrow> bool" where
  "manager_ok m \<longleftrightarrow> m_start_address m < m_end_address m \<and> m_end_address m < 2 ^ 64 \<and>
     chain (m_start_address m) (m_memory_block_tree m) (m_end_address m) \<and>
     coalesced (m_memory_block_tree m)"

definition page_map :: "KMemoryBlockManager \<Rightarrow> PageProps list" where
  "page_map m = pages (m_memory_block_tree m)"

definition in_space :: "KMemoryBlockManager \<Rightarrow> nat \<Rightarrow> nat \<Rightarrow> bool" where
  "in_space m address num_pages \<longleftrightarrow> m_start_address m \<le> address \<and>
     PageSize dvd address - m_start_address m \<and> 0 < num_pages \<and>
     address + num_pages * PageSize \<le> m_end_address m"

definition page_index :: "KMemoryBlockManager \<Rightarrow> nat \<Rightarrow> nat" where
  "page_index m address = (address - m_start_address m) div PageSize"

text \<open>
  The blocks an update of \<open>[address, address + num_pages * PageSize)\<close> may have to create: one
  for each end of the range that is not a block boundary.
\<close>

definition blocks_needed :: "KMemoryBlockManager \<Rightarrow> nat \<Rightarrow> nat \<Rightarrow> nat" where
  "blocks_needed m address num_pages =
     (let bs = m_memory_block_tree m; e = m_end_address m in
      (if boundary bs e address then 0 else 1) +
      (if boundary bs e (address + num_pages * PageSize) then 0 else 1))"

text \<open>
  The case that \<open>CoalesceForUpdate\<close> cannot handle: the range starts inside the first block
  and that block does not change, so that it is not split and there is no block before the
  iterator to step back to.
\<close>

definition stranded :: "(KMemoryBlock \<Rightarrow> bool) \<Rightarrow> KMemoryBlockManager \<Rightarrow> nat \<Rightarrow> bool" where
  "stranded needs m address \<longleftrightarrow>
     (case FindIterator m address of
        ([], b # _) \<Rightarrow> address \<noteq> m_start_address m \<and> \<not> needs b
      | _ \<Rightarrow> False)"

lemma find_iter_at:
  assumes "chain s P x" "chain x (b # R) e" "e < 2 ^ 64" "x \<le> y" "y < block_end b"
  shows "find_iter y (P @ b # R) = (P, b # R)"
  using assms
proof (induction P arbitrary: s)
  case Nil
  then have "block_end b < 2 ^ 64" using chain_le [of "block_end b" R e] by auto
  with Nil show ?case using find_key_compare [of b y] by simp
next
  case (Cons c P)
  then have P: "chain (block_end c) P x" and c: "0 < m_num_pages c" by auto
  have "block_end c < 2 ^ 64" "block_end c \<le> y"
    using chain_le [OF P] chain_le [OF Cons.prems(2)] Cons.prems by linarith+
  with c find_key_compare [of c y] Cons.IH [OF P Cons.prems(2-)] show ?case by simp
qed

text \<open>The coalescing pass after a walk: the iterator is at the head of \<open>b # R\<close>.\<close>

lemma CoalesceForUpdate_spec:
  assumes tree: "m_memory_block_tree m = P @ b # R"
    and P: "chain (m_start_address m) P x" and R: "chain x (b # R) e" and e: "e < 2 ^ 64"
    and at: "x \<le> address" "address < block_end b" "address = m_start_address m \<or> P \<noteq> []"
    and range: "address + n * PageSize \<le> e"
    and co: "coalesced P" "settled_after (address + n * PageSize) (b # R)"
    and al: "available k al"
  shows "\<exists>bs al'. CoalesceForUpdate m al address n = Inr (m\<lparr>m_memory_block_tree := bs\<rparr>, al') \<and>
    chain (m_start_address m) bs e \<and> pages bs = pages (P @ b # R) \<and> coalesced bs \<and>
    available k al'"
proof -
  have find: "FindIterator m address = (P, b # R)"
    unfolding FindIterator_def tree by (rule find_iter_at [OF P R e at(1,2)])
  have fits: "n * PageSize < 2 ^ 64" "address + n * PageSize < 2 ^ 64" using range e by linarith+
  note limit = mul64_eq [OF fits(1)] add64_eq [OF fits(2)]
  show ?thesis
  proof (cases "address = m_start_address m")
    case True
    with P at(1) chain_length [OF P] have "length (pages P) * PageSize = 0" by linarith
    then have "P = []" using P by (cases P) auto
    with P R co(2) coalesce_loop_spec [of x b R e "[]" "address + n * PageSize" k al] e al
    show ?thesis
      using find limit True by (auto simp: CoalesceForUpdate_def Let_def)
  next
    case False
    with at(3) have "P \<noteq> []" by simp
    then obtain Q prev where Q: "P = Q @ [prev]" by (cases P rule: rev_exhaust) auto
    with P obtain y where y: "chain (m_start_address m) Q y" "chain y [prev] x" by auto
    with R have "chain y (prev # b # R) e" by auto
    from coalesce_loop_spec [OF this e _ co(2) al, of Q] co(1) obtain bs al' where
      "coalesce_loop (address + n * PageSize) Q prev (b # R) al = (Q @ bs, al')"
      "chain y bs e" "pages bs = pages (prev # b # R)" "coalesced (Q @ bs)" "available k al'"
      unfolding Q by blast
    with False find limit y(1) Q \<open>P \<noteq> []\<close> show ?thesis
      by (intro exI [of _ "Q @ bs"] exI [of _ al'])
        (auto simp: CoalesceForUpdate_def Let_def simp del: coalesce_loop.simps)
  qed
qed

text \<open>A stranded update runs off the front of the tree.\<close>

lemma CoalesceForUpdate_stranded:
  assumes "FindIterator m address = ([], b # R)" "address \<noteq> m_start_address m"
  shows "CoalesceForUpdate m al address n = Inl EndIterator"
  using assms by (simp add: CoalesceForUpdate_def Let_def)

text \<open>What is known where an update of a well-formed manager begins.\<close>

lemma update_start:
  assumes "manager_ok m" "in_space m address n"
  obtains pre b post x j where "FindIterator m address = (pre, b # post)"
    "m_memory_block_tree m = pre @ b # post" "chain (m_start_address m) pre x"
    "chain x (b # post) (m_end_address m)" "address = x + j * PageSize" "j < m_num_pages b"
    "page_index m address = length (pages pre) + j"
proof -
  have "0 < n * PageSize" using assms(2) by (simp add: in_space_def)
  then have space: "m_start_address m \<le> address" "address < m_end_address m"
    using assms(2) unfolding in_space_def by linarith+
  obtain pre b post x where fi: "FindIterator m address = (pre, b # post)"
      "m_memory_block_tree m = pre @ b # post" "chain (m_start_address m) pre x"
      "chain x (b # post) (m_end_address m)" "x \<le> address" "address < x + m_num_pages b * PageSize"
    using assms(1) find_iter_chain [of _ "m_memory_block_tree m", OF _ space]
    unfolding manager_ok_def FindIterator_def by metis
  note x = chain_length [OF fi(3)]
  obtain i where i: "address - m_start_address m = i * PageSize"
    using assms(2) by (auto simp: in_space_def ac_simps)
  define j where "j = i - length (pages pre)"
  have "length (pages pre) * PageSize \<le> i * PageSize" using i x fi(5) space by linarith
  then have le: "length (pages pre) \<le> i" by simp
  then have ij: "i = length (pages pre) + j" by (simp add: j_def)
  then have "address = x + j * PageSize" using i x space by (simp add: add_mult_distrib)
  moreover from this fi(6) have "j < m_num_pages b" by simp
  moreover have "page_index m address = length (pages pre) + j" by (simp add: page_index_def i ij)
  ultimately show thesis using fi that by blast
qed

text \<open>
  The specification of an update: it returns, keeps the manager well formed and its bounds, leaves
  \<open>k\<close> blocks with the allocator, and maps \<open>f\<close> over the pages of the range.
\<close>

definition updated ::
  "(PageProps \<Rightarrow> PageProps) \<Rightarrow> KMemoryBlockManager \<Rightarrow> nat \<Rightarrow> nat \<Rightarrow> nat
     \<Rightarrow> BlockFault + KMemoryBlockManager \<times> UpdateAllocator \<Rightarrow> bool" where
  "updated f m address n k res \<longleftrightarrow>
     (case res of
        Inl _ \<Rightarrow> False
      | Inr (m', al') \<Rightarrow> manager_ok m' \<and> available k al' \<and>
          m_start_address m' = m_start_address m \<and> m_end_address m' = m_end_address m \<and>
          page_map m' = map_segment f (page_index m address) n (page_map m))"

context block_walk
begin

lemma finish_update:
  assumes ok: "manager_ok m" and sp: "in_space m address n"
    and tree: "m_memory_block_tree m = pre @ rest" "chain (m_start_address m) pre x"
    and ix: "page_index m address = length (pages pre) + j"
    and W: "walked x (m_end_address m) j n rest bs"
    and PR: "pre @ bs = P @ b # R" "chain (m_start_address m) P y" "coalesced P"
      "y \<le> address" "address < block_end b" "address = m_start_address m \<or> P \<noteq> []"
      "settled_after (address + n * PageSize) (b # R)" and al: "available k al"
  shows "updated f m address n k
    (CoalesceForUpdate (m\<lparr>m_memory_block_tree := pre @ bs\<rparr>) al address n)"
proof -
  let ?m = "m\<lparr>m_memory_block_tree := pre @ bs\<rparr>"
  have e: "m_end_address m < 2 ^ 64" "address + n * PageSize \<le> m_end_address m"
    using ok sp by (auto simp: manager_ok_def in_space_def)
  have "chain (m_start_address m) (P @ b # R) (m_end_address m)"
    using tree(2) W PR(1) by (auto simp: walked_def simp flip: PR(1))
  moreover have "z = y" if "chain (m_start_address m) P z" for z
    using chain_length [OF that] chain_length [OF PR(2)] by simp
  ultimately have R: "chain y (b # R) (m_end_address m)" by (auto simp del: chain.simps)
  have "pages (pre @ bs) = map_segment f (page_index m address) n (page_map m)"
    using W tree by (simp add: walked_def ix page_map_def map_segment_append_add)
  moreover obtain bs' al' where
    "CoalesceForUpdate ?m al address n = Inr (?m\<lparr>m_memory_block_tree := bs'\<rparr>, al')"
    "chain (m_start_address m) bs' (m_end_address m)" "pages bs' = pages (pre @ bs)"
    "coalesced bs'" "available k al'"
    using CoalesceForUpdate_spec [of ?m, OF _ _ R e(1) PR(4,5) _ e(2) PR(3,7) al] PR(1,2,6)
    by auto
  ultimately show ?thesis
    using ok by (simp add: updated_def manager_ok_def page_map_def)
qed

theorem update_refines:
  assumes ok: "manager_ok m" and sp: "in_space m address n"
    and al: "available (blocks_needed m address n + k) al" and st: "\<not> stranded needs m address"
  shows "updated f m address n k (walk_and_coalesce needs change m al address n)"
proof -
  let ?e = "m_end_address m" and ?limit = "address + n * PageSize"
  obtain pre b post x j where fi: "FindIterator m address = (pre, b # post)"
      "m_memory_block_tree m = pre @ b # post" "chain (m_start_address m) pre x"
      "chain x (b # post) ?e" "address = x + j * PageSize" "j < m_num_pages b"
      "page_index m address = length (pages pre) + j"
    using update_start [OF ok sp] by metis
  have e: "?e < 2 ^ 64" "0 < n" "?limit \<le> ?e" using ok sp by (auto simp: manager_ok_def in_space_def)
  have co: "coalesced pre" "coalesced (b # post)"
    using ok fi(2) by (auto simp: manager_ok_def coalesced_append)
  have bd: "boundary (m_memory_block_tree m) ?e ?limit \<Longrightarrow> boundary (b # post) ?e ?limit"
    using boundary_append_tail [OF fi(3), of "b # post" ?e ?limit] fi(2,5) by simp
  note fin = finish_update [OF ok sp fi(2,3,7)]
  have addr: "m_address b = x" using fi(4) by simp
  show ?thesis
  proof (cases "j = 0")
    case True
    have "available (if boundary (b # post) ?e ?limit then k else Suc k) al"
      using al bd by (auto simp: blocks_needed_def Let_def elim: available_weaken split: if_splits)
    then obtain bs al' where W: "walk (length (b # post)) needs change address n pre (b # post) al =
        Inr (pre @ bs, al')" "walked x ?e 0 n (b # post) bs" "available k al'"
      using walk_aligned [OF fi(4) e(1) _ order_refl _ co(2)] e(3) True fi(5) by fastforce
    have ch: "chain x bs ?e" using W(2) by (simp add: walked_def)
    with fi(4) obtain c R where c: "bs = c # R" "address < block_end c"
      using True fi(5) chain_length [of x "[]" ?e] by (cases bs) (auto dest: chain_le)
    have "address = m_start_address m \<or> pre \<noteq> []" using fi(3,5) True by auto
    with fin [of bs pre c R x k al'] W c fi(1,3,5) co True show ?thesis
      by (simp add: walked_def walk_and_coalesce_def)
  next
    case False
    then have nb: "\<not> boundary (m_memory_block_tree m) ?e address"
      using boundary_append_tail [OF fi(3), of "b # post" ?e address]
        not_boundary_inside [OF fi(4), of address] fi(2,5,6) by auto
    have lt: "address < block_end b" using fi(5,6) addr by simp
    show ?thesis
    proof (cases "needs b")
      case True
      have "available (if boundary (b # post) ?e ?limit then Suc k else Suc (Suc k)) al"
        using al bd nb
        by (auto simp: blocks_needed_def Let_def elim: available_weaken split: if_splits)
      with walk_inside_needs [OF fi(4) e(1) _ fi(6) e(2) _ order_refl True _ co(2)] False e(3)
      obtain l bs al' where W: "walk (length (b # post)) needs change address n pre (b # post) al =
          Inr (pre @ l # bs, al')" "walked x ?e j n (b # post) (l # bs)" "available k al'"
          "left_like l b" "chain x [l] address"
        unfolding fi(5) by blast
      have ch: "chain address bs ?e" using W(2,5) by (auto simp: walked_def)
      have "address < ?e" using e(2,3) PageSize_pos(1) by (metis add_lessD1 ch chain_le e(3)
            le_neq_implies_less less_add_same_cancel1 nat_0_less_mult_iff not_le)
      with ch obtain c R where c: "bs = c # R" "address < block_end c" by (cases bs) auto
      have "coalesced (pre @ [l])"
        using co left_like_coalesced [OF W(4), of pre] ok fi(2)
        by (auto simp: manager_ok_def coalesced_append)
      moreover have "chain (m_start_address m) (pre @ [l]) address" using fi(3) W(5) by auto
      ultimately show ?thesis
        using fin [of "l # bs" "pre @ [l]" c R address k al'] W c fi(1,5)
        by (simp add: walked_def walk_and_coalesce_def)
    next
      case skip: False
      have "available (if boundary (b # post) ?e ?limit then k else Suc k) al"
        using al bd nb
        by (auto simp: blocks_needed_def Let_def elim: available_weaken split: if_splits)
      with walk_inside_skip [OF fi(4) e(1) fi(6) e(2) _ order_refl skip _ co(2)] e(3)
      obtain bs al' where W: "walk (length (b # post)) needs change address n pre (b # post) al =
          Inr (pre @ b # bs, al')" "walked x ?e j n (b # post) (b # bs)" "available k al'"
        unfolding fi(5) by blast
      have "pre \<noteq> []"
        using st skip fi(1,3,5) False by (cases pre) (auto simp: stranded_def)
      then show ?thesis
        using fin [of "b # bs" pre b bs x k al'] W fi(1,3,5) co lt
        by (simp add: walked_def walk_and_coalesce_def)
    qed
  qed
qed

text \<open>A stranded update faults, whatever the allocator holds beyond the block it may need.\<close>

theorem update_stranded:
  assumes ok: "manager_ok m" and sp: "in_space m address n"
    and al: "available 1 al" and st: "stranded needs m address"
  shows "walk_and_coalesce needs change m al address n = Inl EndIterator"
proof -
  let ?e = "m_end_address m"
  obtain pre b post x j where fi: "FindIterator m address = (pre, b # post)"
      "m_memory_block_tree m = pre @ b # post" "chain (m_start_address m) pre x"
      "chain x (b # post) ?e" "address = x + j * PageSize" "j < m_num_pages b"
    using update_start [OF ok sp] by metis
  from st fi(1) have pre: "pre = []" and ne: "address \<noteq> m_start_address m" and nn: "\<not> needs b"
    by (auto simp: stranded_def split: list.splits)
  have e: "?e < 2 ^ 64" "0 < n" "address + n * PageSize \<le> ?e" and co: "coalesced (b # post)"
    using ok sp fi(2) pre by (auto simp: manager_ok_def in_space_def)
  have "available (if boundary (b # post) ?e (address + n * PageSize) then 0 else Suc 0) al"
    using al by (auto elim: available_weaken)
  with walk_inside_skip [OF fi(4) e(1) fi(6) e(2) _ order_refl nn _ co] e(3)
  obtain bs al' where W: "walk (length (b # post)) needs change address n pre (b # post) al =
      Inr (pre @ b # bs, al')" "walked x ?e j n (b # post) (b # bs)"
    unfolding fi(5) by blast
  have "address < block_end b" using fi(4,5,6) by simp
  with find_iter_at [OF fi(3) _ e(1), of b bs address] W(2) fi(5)
  have "FindIterator (m\<lparr>m_memory_block_tree := b # bs\<rparr>) address = ([], b # bs)"
    by (simp add: FindIterator_def walked_def pre)
  with CoalesceForUpdate_stranded W(1) fi(1) pre ne show ?thesis
    by (simp add: walk_and_coalesce_def)
qed

end

section \<open>Block storage\<close>

text \<open>
  The slab's blocks are neither lost nor duplicated: the slots of an allocator below its index are
  empty and the others full, so the storage an update takes is what it puts into the tree.
\<close>

definition allocator_ok :: "UpdateAllocator \<Rightarrow> bool" where
  "allocator_ok al \<longleftrightarrow> m_index al \<le> MaxBlocks \<and>
     m_blocks al = replicate (m_index al) False @ replicate (MaxBlocks - m_index al) True"

definition storage :: "KMemoryBlock list \<Rightarrow> UpdateAllocator \<Rightarrow> nat" where
  "storage bs al = length bs + destroy_UpdateAllocator al"

lemma allocator_ok_cases:
  assumes "allocator_ok al"
  obtains "m_index al = 0" "m_blocks al = [True, True]"
    | "m_index al = 1" "m_blocks al = [False, True]"
    | "m_index al = 2" "m_blocks al = [False, False]"
  using assms
  by (auto simp: allocator_ok_def MaxBlocks_def le_Suc_eq numeral_2_eq_2)

lemma Allocate_storage:
  assumes "allocator_ok al" "allocator_Allocate al = Some al'"
  shows "allocator_ok al' \<and> Suc (destroy_UpdateAllocator al') = destroy_UpdateAllocator al"
  using assms(1)
  by (cases rule: allocator_ok_cases)
    (use assms(2) in \<open>auto simp: allocator_Allocate_def allocator_ok_def MaxBlocks_def
      destroy_UpdateAllocator_def numeral_2_eq_2\<close>)

lemma Free_storage:
  assumes "allocator_ok al"
  shows "allocator_ok (allocator_Free al) \<and>
    destroy_UpdateAllocator (allocator_Free al) = Suc (destroy_UpdateAllocator al)"
  using assms
  by (cases rule: allocator_ok_cases)
    (auto simp: allocator_Free_def allocator_ok_def MaxBlocks_def
      destroy_UpdateAllocator_def numeral_2_eq_2)

lemma coalesce_loop_storage:
  assumes "allocator_ok al" "coalesce_loop limit pre prev rest al = (bs, al')"
  shows "allocator_ok al' \<and> storage bs al' = storage (pre @ prev # rest) al"
  using assms
proof (induction limit pre prev rest al rule: coalesce_loop.induct)
  case (1 limit pre prev al)
  then show ?case by auto
next
  case (2 limit pre prev b bs al)
  note free = Free_storage [OF 2(3)]
  then show ?case
    using 2 by (auto simp: storage_def Let_def split: if_splits)
qed

lemma split_before_storage:
  assumes "allocator_ok al" "split_before x b al = Inr (before, it, al')"
  shows "allocator_ok al' \<and> storage (before @ [it]) al' = storage [b] al"
  using assms Allocate_storage [OF assms(1)]
  by (auto simp: split_before_def storage_def split: if_splits option.splits prod.splits)

lemma split_after_storage:
  assumes "allocator_ok al" "split_after x r b al = Inr (it, after, al')"
  shows "allocator_ok al' \<and> storage (it # after) al' = storage [b] al"
  using assms Allocate_storage [OF assms(1)]
  by (auto simp: split_after_def storage_def split: if_splits option.splits prod.splits)

lemma walk_storage:
  assumes "allocator_ok al" "walk fuel needs change x n pre rest al = Inr (bs, al')"
  shows "allocator_ok al' \<and> storage bs al' = storage (pre @ rest) al"
  using assms
proof (induction fuel arbitrary: x n pre rest al)
  case 0
  then show ?case by (auto simp: walk.simps [of 0] split: if_splits)
next
  case (Suc fuel)
  show ?case
  proof (cases "n = 0 \<or> rest = []")
    case True
    with Suc.prems show ?thesis by (auto simp: walk.simps [of "Suc fuel"] split: if_splits)
  next
    case False
    then obtain b post where rest: "rest = b # post" by (cases rest) auto
    show ?thesis
    proof (cases "needs b")
      case True
      with Suc.prems(2) False rest obtain before it al1 it' after al2 x' n' where
        before: "split_before x b al = Inr (before, it, al1)" and
        after: "split_after (mi_address (GetMemoryInfo it)) (mul64 n PageSize) it al1 =
          Inr (it', after, al2)" and
        w: "walk fuel needs change x' n' (pre @ before @ [change it']) (after @ post) al2 =
          Inr (bs, al')"
        by (auto simp: walk.simps [of "Suc fuel"] Let_def split: sum.splits)
      note s1 = split_before_storage [OF Suc.prems(1) before]
      then have s2: "allocator_ok al2 \<and> storage (it' # after) al2 = storage [it] al1"
        using split_after_storage [OF _ after] by simp
      then show ?thesis
        using s1 Suc.IH [OF _ w] by (simp add: storage_def rest)
    next
      case skip: False
      with Suc.prems(2) False rest obtain x' n' where
        "walk fuel needs change x' n' (pre @ [b]) post al = Inr (bs, al')"
        by (auto simp: walk.simps [of "Suc fuel"] Let_def split: if_splits)
      from Suc.IH [OF Suc.prems(1) this] show ?thesis by (simp add: rest)
    qed
  qed
qed

lemma find_iter_append: "find_iter x bs = (pre, rest) \<Longrightarrow> bs = pre @ rest"
  by (induction bs arbitrary: pre) (auto split: if_splits prod.splits)

lemma walk_and_coalesce_storage:
  assumes "allocator_ok al" "walk_and_coalesce needs change m al address n = Inr (m', al')"
  shows "allocator_ok al' \<and>
    storage (m_memory_block_tree m') al' = storage (m_memory_block_tree m) al"
proof -
  obtain pre rest where fi: "FindIterator m address = (pre, rest)" by fastforce
  have tree: "m_memory_block_tree m = pre @ rest"
    using find_iter_append fi by (simp add: FindIterator_def)
  from assms(2) fi obtain bs al1 where
    w: "walk (length rest) needs change address n pre rest al = Inr (bs, al1)" and
    c: "CoalesceForUpdate (m\<lparr>m_memory_block_tree := bs\<rparr>) al1 address n = Inr (m', al')"
    by (auto simp: walk_and_coalesce_def split: sum.splits)
  obtain P R where fi': "find_iter address bs = (P, R)" by fastforce
  note PR = find_iter_append [OF fi']
  note ws = walk_storage [OF assms(1) w]
  from c fi' obtain limit Q prev T bs' where
    l: "coalesce_loop limit Q prev T al1 = (bs', al')" "bs = Q @ prev # T"
      "m' = m\<lparr>m_memory_block_tree := bs'\<rparr>"
    by (auto simp: CoalesceForUpdate_def FindIterator_def Let_def PR append_butlast_last_id
        split: list.splits if_splits prod.splits simp del: coalesce_loop.simps)
  with ws coalesce_loop_storage [of al1, OF _ l(1)] tree show ?thesis by simp
qed

end
