(* ===== verification/Memory_Block_Laws.thy ===== *)
theory Memory_Block_Laws
  imports Memory_Block_Refinement
begin

text \<open>
  The block manager's operations against their specifications: the locale \<open>block_walk\<close> is
  interpreted for each of the four update operations, and the results about lookup, the search
  for free areas, initialisation, the allocator and the debug check follow.
\<close>

section \<open>The update operations\<close>

definition update_spec ::
  "KMemoryState \<Rightarrow> KMemoryPermission \<Rightarrow> KMemoryAttribute \<Rightarrow> PageProps \<Rightarrow> PageProps" where
  "update_spec s p a q = (if props_has s p a q then q else props_Update s p a q)"

definition update_if_match_spec ::
  "KMemoryState \<Rightarrow> KMemoryPermission \<Rightarrow> KMemoryAttribute \<Rightarrow> KMemoryState \<Rightarrow> KMemoryPermission
     \<Rightarrow> KMemoryAttribute \<Rightarrow> PageProps \<Rightarrow> PageProps" where
  "update_if_match_spec ts tp ta s p a q =
     (if props_has ts tp ta q \<and> \<not> props_has s p a q then props_Update s p a q else q)"

definition update_attribute_spec ::
  "KMemoryAttribute \<Rightarrow> KMemoryAttribute \<Rightarrow> PageProps \<Rightarrow> PageProps" where
  "update_attribute_spec attr_mask attr q =
     (if pp_attribute q AND attr_mask = attr then q else props_UpdateAttribute attr_mask attr q)"

lemma pp_attribute_props_of [simp]: "pp_attribute (props_of b) = m_attribute b"
  by (simp add: props_of_def)

interpretation upd: block_walk
  "\<lambda>it. \<not> HasProperties it state perm attr"
  "\<lambda>it. block_Update it state perm attr (m_address it = address) set_attr clear_attr"
  "\<lambda>q. \<not> props_has state perm attr q"
  "update_spec state perm attr"
  for state perm attr address set_attr clear_attr
  by unfold_locales (auto simp: HasProperties_iff block_frame update_spec_def)

interpretation upd_match: block_walk
  "\<lambda>it. HasProperties it ts tp ta \<and> \<not> HasProperties it state perm attr"
  "\<lambda>it. block_Update it state perm attr False set_attr clear_attr"
  "\<lambda>q. props_has ts tp ta q \<and> \<not> props_has state perm attr q"
  "update_if_match_spec ts tp ta state perm attr"
  for ts tp ta state perm attr set_attr clear_attr
  by unfold_locales (auto simp: HasProperties_iff block_frame update_if_match_spec_def)

interpretation upd_attr: block_walk
  "\<lambda>it. m_attribute it AND attr_mask \<noteq> attr"
  "\<lambda>it. block_UpdateAttribute it attr_mask attr"
  "\<lambda>q. pp_attribute q AND attr_mask \<noteq> attr"
  "update_attribute_spec attr_mask attr"
  for attr_mask attr
  by unfold_locales (auto simp: block_frame update_attribute_spec_def)

text \<open>
  A lock function changes the page properties the same way for every block and keeps the block's
  extent; the five lock functions the page table passes to \<open>UpdateLock\<close> do.
\<close>

locale lock_function =
  fixes lock_func :: MemoryBlockLockFunction
    and effect :: "KMemoryPermission \<Rightarrow> PageProps \<Rightarrow> PageProps"
  assumes lock_address: "m_address (lock_func p l r b) = m_address b"
    and lock_num_pages: "m_num_pages (lock_func p l r b) = m_num_pages b"
    and lock_props: "props_of (lock_func p l r b) = effect p (props_of b)"
begin

sublocale walk: block_walk
  "\<lambda>it. True"
  "\<lambda>it. let cur_info = GetMemoryInfo it in
        lock_func perm (mi_address cur_info = address) (mi_GetEndAddress cur_info = end_address) it"
  "\<lambda>q. True"
  "effect perm"
  for perm address end_address
  by unfold_locales (simp_all add: Let_def lock_address lock_num_pages lock_props)

lemma never_stranded: "\<not> stranded (\<lambda>it. True) m address"
  by (cases "FindIterator m address") (auto simp: stranded_def split: list.split)

lemma UpdateLock_updated:
  assumes "manager_ok m" "in_space m address n" "available (blocks_needed m address n + k) al"
  shows "updated (effect perm) m address n k
    (manager_UpdateLock m al address n lock_func perm)"
  using walk.update_refines [OF assms never_stranded]
  by (simp add: manager_UpdateLock_def Let_def)

end

interpretation share: lock_function ShareToDevice "\<lambda>_. props_Share"
  by unfold_locales (simp_all add: block_frame)

interpretation unshare: lock_function UnshareToDevice "\<lambda>_. props_Unshare"
  by unfold_locales (simp_all add: block_frame)

interpretation unshare_right: lock_function UnshareToDeviceRight "\<lambda>_. props_Unshare"
  by unfold_locales (simp_all add: block_frame)

interpretation ipc_lock: lock_function LockForIpc props_Lock
  by unfold_locales (simp_all add: block_frame)

interpretation ipc_unlock: lock_function UnlockForIpc "\<lambda>_. props_Unlock"
  by unfold_locales (simp_all add: block_frame)

section \<open>Pages of a range\<close>

lemma nth_map_segment:
  "k < length xs \<Longrightarrow> map_segment f i n xs ! k = (if i \<le> k \<and> k < i + n then f (xs ! k) else xs ! k)"
  by (auto simp: map_segment_def nth_append min_def)

lemma length_map_segment [simp]: "length (map_segment f i n xs) = length xs"
  by (auto simp: map_segment_def)

lemma map_segment_compose:
  "map_segment g i n (map_segment f i n xs) = map_segment (\<lambda>q. g (f q)) i n xs"
  by (rule nth_equalityI) (auto simp: nth_map_segment)

lemma map_segment_id:
  assumes "\<And>k. i \<le> k \<Longrightarrow> k < i + n \<Longrightarrow> k < length xs \<Longrightarrow> f (xs ! k) = xs ! k"
  shows "map_segment f i n xs = xs"
  by (rule nth_equalityI) (auto simp: nth_map_segment assms)

lemma props_has_update_spec: "props_has s p a (update_spec s p a q)"
proof -
  have "(a OR (x AND AttributeIgnoreMask)) OR AttributeIgnoreMask = a OR AttributeIgnoreMask"
    for x :: KMemoryAttribute
    by (rule bit_word_eqI) (auto simp: bit_or_iff bit_and_iff)
  then show ?thesis by (simp add: update_spec_def props_has_def props_Update_def)
qed

lemma blocks_needed_le: "blocks_needed m address n \<le> MaxBlocks"
  by (simp add: blocks_needed_def MaxBlocks_def Let_def)

lemma available_enough: "available MaxBlocks al \<Longrightarrow> available (blocks_needed m address n + 0) al"
  using blocks_needed_le by (auto intro: available_weaken)

lemma updatedE:
  assumes "updated f m address n k res"
  obtains m' al' where "res = Inr (m', al')" "manager_ok m'" "available k al'"
    "m_start_address m' = m_start_address m" "m_end_address m' = m_end_address m"
    "page_map m' = map_segment f (page_index m address) n (page_map m)"
  using assms by (auto simp: updated_def split: sum.splits)

section \<open>Properties of the updates\<close>

text \<open>
  C7. \<open>Update\<close> refines the page-level specification. On a well-formed manager, for a page-aligned
  range of the address space and an allocator that holds a block for each end of the range that
  is not a block boundary, unless the range begins inside the first block and that block already
  has the wanted properties, it returns normally; the manager is well formed again (blocks tile
  the space, no two neighbours can be merged) with the same bounds, and its pages are the old
  ones with exactly those of the range updated.
\<close>

theorem Update_refines:
  assumes "manager_ok m" "in_space m address num_pages"
    and "available (blocks_needed m address num_pages) al"
    and "\<not> stranded (\<lambda>it. \<not> HasProperties it state perm attr) m address"
  shows "\<exists>m' al'. manager_Update m al address num_pages state perm attr set_disable_attr
      clear_disable_attr = Inr (m', al') \<and> manager_ok m' \<and>
    m_start_address m' = m_start_address m \<and> m_end_address m' = m_end_address m \<and>
    page_map m' = map_segment (update_spec state perm attr) (page_index m address) num_pages
      (page_map m)"
  using upd.update_refines [of m address num_pages 0 al state perm attr address set_disable_attr
      clear_disable_attr] assms
  by (auto simp: manager_Update_def elim!: updatedE)

text \<open>A small address space for the concrete instances: three blocks over eight pages.\<close>

definition sample_block :: "nat \<Rightarrow> nat \<Rightarrow> KMemoryStateName \<Rightarrow> KMemoryBlock" where
  "sample_block a n s = new_KMemoryBlock a n (kmemory_state s) PermNone AttrNone"

definition sample_manager :: KMemoryBlockManager where
  "sample_manager =
     \<lparr>m_memory_block_tree =
        [sample_block 32768 2 KMS_Free, sample_block 40960 4 KMS_Normal,
         sample_block 57344 2 KMS_Free],
      m_start_address = 32768, m_end_address = 65536\<rparr>"

definition sample_allocator :: UpdateAllocator where
  "sample_allocator = \<lparr>m_blocks = [True, True], m_index = 0, m_slab_manager = 5\<rparr>"

lemmas sample_defs = sample_manager_def sample_block_def new_KMemoryBlock_def PageSize_def

lemma sample_manager_ok: "manager_ok sample_manager"
  by (simp add: manager_ok_def CanMergeWith_iff sample_defs props_of_def kmemory_state_values
      del: kmemory_state.simps)

lemma sample_in_space: "in_space sample_manager 45056 4"
  by (simp add: in_space_def sample_defs)

lemma sample_available: "available MaxBlocks sample_allocator"
  by (auto simp: available_def sample_allocator_def MaxBlocks_def less_Suc_eq numeral_2_eq_2)

lemma sample_not_stranded: "\<not> stranded needs sample_manager 45056"
  by (simp add: stranded_def FindIterator_def Compare_def find_key_def GetLastAddress_def
      GetEndAddress_def GetSize_def arith64 sample_defs)

theorem Update_refines_witness:
  "\<exists>m' al'. manager_Update sample_manager sample_allocator 45056 4 (kmemory_state KMS_Code)
      UserRead AttrNone DisableMerge_Normal DisableMerge_None = Inr (m', al') \<and> manager_ok m' \<and>
    m_start_address m' = 32768 \<and> m_end_address m' = 65536 \<and>
    page_map m' = map_segment (update_spec (kmemory_state KMS_Code) UserRead AttrNone) 3 4
      (page_map sample_manager)"
  using Update_refines [OF sample_manager_ok sample_in_space
      available_enough [OF sample_available, simplified] sample_not_stranded]
  by (simp add: sample_defs page_index_def)

text \<open>
  C33. The fault of \<open>CoalesceForUpdate\<close>: when the range begins strictly inside the first block of
  the space and that block already has the wanted properties, \<open>Update\<close> always steps back
  past the first block.
\<close>

theorem Update_stranded_faults:
  assumes "manager_ok m" "in_space m address num_pages" "available MaxBlocks al"
    and "stranded (\<lambda>it. \<not> HasProperties it state perm attr) m address"
  shows "manager_Update m al address num_pages state perm attr set_disable_attr
    clear_disable_attr = Inl EndIterator"
proof -
  have "available 1 al" by (rule available_weaken [OF assms(3)]) (simp add: MaxBlocks_def)
  from upd.update_stranded [OF assms(1,2) this assms(4), of address] show ?thesis
    by (simp add: manager_Update_def)
qed

theorem Update_stranded_faults_witness:
  "manager_Update sample_manager sample_allocator 36864 1 (kmemory_state KMS_Free) PermNone
    AttrNone DisableMerge_None DisableMerge_None = Inl EndIterator"
  by (rule Update_stranded_faults [OF sample_manager_ok _ sample_available])
    (simp_all add: in_space_def stranded_def FindIterator_def Compare_def find_key_def
      GetLastAddress_def GetEndAddress_def GetSize_def HasProperties_def arith64 sample_defs)

text \<open>
  \<open>UpdateIfMatch\<close> refines its page-level specification: of the pages of the range exactly
  those with the tested properties take the new ones.
\<close>

theorem UpdateIfMatch_refines:
  assumes "manager_ok m" "in_space m address num_pages"
    and "available (blocks_needed m address num_pages) al"
    and "\<not> stranded (\<lambda>it. HasProperties it test_state test_perm test_attr \<and>
           \<not> HasProperties it state perm attr) m address"
  shows "\<exists>m' al'. manager_UpdateIfMatch m al address num_pages test_state test_perm test_attr
      state perm attr set_disable_attr clear_disable_attr = Inr (m', al') \<and> manager_ok m' \<and>
    m_start_address m' = m_start_address m \<and> m_end_address m' = m_end_address m \<and>
    page_map m' = map_segment (update_if_match_spec test_state test_perm test_attr state perm attr)
      (page_index m address) num_pages (page_map m)"
  using upd_match.update_refines [of m address num_pages 0 al test_state test_perm test_attr state
      perm attr set_disable_attr clear_disable_attr] assms
  by (auto simp: manager_UpdateIfMatch_def elim!: updatedE)

theorem UpdateIfMatch_refines_witness:
  "\<exists>m' al'. manager_UpdateIfMatch sample_manager sample_allocator 45056 4
      (kmemory_state KMS_Normal) PermNone AttrNone (kmemory_state KMS_Code) UserRead AttrNone
      DisableMerge_Normal DisableMerge_None = Inr (m', al') \<and> manager_ok m' \<and>
    m_start_address m' = 32768 \<and> m_end_address m' = 65536 \<and>
    page_map m' = map_segment (update_if_match_spec (kmemory_state KMS_Normal) PermNone AttrNone
      (kmemory_state KMS_Code) UserRead AttrNone) 3 4 (page_map sample_manager)"
  using UpdateIfMatch_refines [OF sample_manager_ok sample_in_space
      available_enough [OF sample_available, simplified] sample_not_stranded]
  by (simp add: sample_defs page_index_def)

text \<open>
  \<open>UpdateAttribute\<close> refines its page-level specification: the masked attribute bits of the
  pages of the range become \<open>attr\<close>, and nothing else changes.
\<close>

theorem UpdateAttribute_refines:
  assumes "manager_ok m" "in_space m address num_pages"
    and "available (blocks_needed m address num_pages) al"
    and "\<not> stranded (\<lambda>it. m_attribute it AND attr_mask \<noteq> attr) m address"
  shows "\<exists>m' al'. manager_UpdateAttribute m al address num_pages attr_mask attr = Inr (m', al') \<and>
    manager_ok m' \<and> m_start_address m' = m_start_address m \<and> m_end_address m' = m_end_address m \<and>
    page_map m' = map_segment (update_attribute_spec attr_mask attr) (page_index m address)
      num_pages (page_map m)"
  using upd_attr.update_refines [of m address num_pages 0 al attr_mask attr] assms
  by (auto simp: manager_UpdateAttribute_def elim!: updatedE)

theorem UpdateAttribute_refines_witness:
  "\<exists>m' al'. manager_UpdateAttribute sample_manager sample_allocator 45056 4 AttrUncached
      AttrUncached = Inr (m', al') \<and> manager_ok m' \<and>
    m_start_address m' = 32768 \<and> m_end_address m' = 65536 \<and>
    page_map m' = map_segment (update_attribute_spec AttrUncached AttrUncached) 3 4
      (page_map sample_manager)"
  using UpdateAttribute_refines [OF sample_manager_ok sample_in_space
      available_enough [OF sample_available, simplified] sample_not_stranded]
  by (simp add: sample_defs page_index_def)

subsection \<open>IPC locks\<close>

text \<open>
  The pages on which locking can be undone: the count does not wrap, the attribute says whether
  there is a lock, and a page without one has no original permission to restore.
\<close>

definition lockable :: "PageProps \<Rightarrow> bool" where
  "lockable q \<longleftrightarrow> pp_ipc_lock_count q + 1 \<noteq> 0 \<and>
     (pp_attribute q AND AttrIpcLocked = 0 \<longleftrightarrow> pp_ipc_lock_count q = 0) \<and>
     (pp_ipc_lock_count q = 0 \<longrightarrow> pp_original_permission q = PermNone)"

lemma ipc_locked_bit: "a AND AttrIpcLocked \<noteq> 0 \<Longrightarrow> a OR AttrIpcLocked = a"
  using or_exp_eq_self [of a 1] by (simp add: AttrIpcLocked_def)

lemma Unlock_Lock: "lockable q \<Longrightarrow> props_Unlock (props_Lock p q) = q"
  by (cases q) (auto simp: lockable_def props_Lock_def props_Unlock_def Let_def or_and_not_cancel
      ipc_locked_bit)

text \<open>
  C25. Locking a range for IPC and unlocking it again restores the permissions, attributes and
  counts of every page of the address space, whatever the layout of the blocks was.
\<close>

theorem LockForIpc_roundtrip:
  assumes ok: "manager_ok m" and sp: "in_space m address num_pages"
    and al: "available MaxBlocks al" "available MaxBlocks al2"
    and pg: "\<forall>k. page_index m address \<le> k \<and> k < page_index m address + num_pages \<longrightarrow>
      lockable (page_map m ! k)"
  shows "\<exists>m1 al1 m2 al3.
    manager_UpdateLock m al address num_pages LockForIpc perm = Inr (m1, al1) \<and>
    manager_UpdateLock m1 al2 address num_pages UnlockForIpc perm' = Inr (m2, al3) \<and>
    manager_ok m2 \<and> page_map m2 = page_map m"
proof -
  obtain m1 al1 where 1: "manager_UpdateLock m al address num_pages LockForIpc perm = Inr (m1, al1)"
      "manager_ok m1" "m_start_address m1 = m_start_address m" "m_end_address m1 = m_end_address m"
      "page_map m1 = map_segment (props_Lock perm) (page_index m address) num_pages (page_map m)"
    using ipc_lock.UpdateLock_updated [OF ok sp available_enough [OF al(1)], of perm]
    by (auto elim!: updatedE)
  from 1(3,4) sp have sp1: "in_space m1 address num_pages"
    and ix: "page_index m1 address = page_index m address"
    by (simp_all add: in_space_def page_index_def)
  obtain m2 al3 where 2: "manager_UpdateLock m1 al2 address num_pages UnlockForIpc perm' = Inr (m2, al3)"
      "manager_ok m2"
      "page_map m2 = map_segment props_Unlock (page_index m address) num_pages (page_map m1)"
    using ipc_unlock.UpdateLock_updated [OF 1(2) sp1 available_enough [OF al(2)], of perm']
    by (auto simp: ix elim!: updatedE)
  have "page_map m2 = page_map m"
    unfolding 2(3) 1(5) map_segment_compose
    by (rule map_segment_id) (use pg Unlock_Lock in blast)
  with 1(1) 2(1,2) show ?thesis by blast
qed

theorem LockForIpc_roundtrip_witness:
  "\<exists>m1 al1 m2 al3.
    manager_UpdateLock sample_manager sample_allocator 45056 4 LockForIpc UserRead = Inr (m1, al1) \<and>
    manager_UpdateLock m1 sample_allocator 45056 4 UnlockForIpc PermNone = Inr (m2, al3) \<and>
    manager_ok m2 \<and> page_map m2 = page_map sample_manager"
proof (rule LockForIpc_roundtrip [OF sample_manager_ok sample_in_space sample_available
      sample_available])
  have "lockable q" if "q \<in> set (page_map sample_manager)" for q
    using that by (auto simp: page_map_def lockable_def sample_defs props_of_def AttrNone_def)
  moreover have "length (page_map sample_manager) = 8"
    by (simp add: page_map_def sample_defs)
  moreover have "page_index sample_manager 45056 = 3"
    by (simp add: page_index_def sample_defs)
  ultimately show "\<forall>k. page_index sample_manager 45056 \<le> k \<and>
      k < page_index sample_manager 45056 + 4 \<longrightarrow> lockable (page_map sample_manager ! k)"
    by auto
qed

subsection \<open>Storage\<close>

text \<open>
  An update neither leaks nor invents block storage: if it returns, the blocks in the tree
  together with those the allocator gives back to the slab are as many as before.
\<close>

theorem Update_storage:
  assumes "allocator_ok al"
    and "manager_Update m al address num_pages state perm attr set_disable_attr
      clear_disable_attr = Inr (m', al')"
  shows "allocator_ok al' \<and>
    length (m_memory_block_tree m') + destroy_UpdateAllocator al' =
    length (m_memory_block_tree m) + destroy_UpdateAllocator al"
  using walk_and_coalesce_storage [OF assms(1)] assms(2)
  by (simp add: manager_Update_def storage_def)

theorem Update_storage_witness:
  "\<exists>m' al'. manager_Update sample_manager sample_allocator 45056 4 (kmemory_state KMS_Code)
      UserRead AttrNone DisableMerge_Normal DisableMerge_None = Inr (m', al') \<and>
    allocator_ok al' \<and> length (m_memory_block_tree m') + destroy_UpdateAllocator al' = 10"
proof -
  have al: "allocator_ok sample_allocator" "destroy_UpdateAllocator sample_allocator = 7"
    by (simp_all add: allocator_ok_def destroy_UpdateAllocator_def sample_allocator_def
        MaxBlocks_def numeral_2_eq_2)
  obtain m' al' where run: "manager_Update sample_manager sample_allocator 45056 4
      (kmemory_state KMS_Code) UserRead AttrNone DisableMerge_Normal DisableMerge_None =
      Inr (m', al')"
    using upd.update_refines [OF sample_manager_ok sample_in_space
        available_enough [OF sample_available] sample_not_stranded, of "kmemory_state KMS_Code"
        UserRead AttrNone 45056 DisableMerge_Normal DisableMerge_None]
    unfolding manager_Update_def by (elim updatedE)
  from Update_storage [OF al(1) run] al(2) run show ?thesis by (simp add: sample_defs)
qed

text \<open>
  The update allocator is created exactly when the slab has the blocks it asks for, then holds
  that many, and whether or not it was, destroying it returns every block it took.
\<close>

theorem new_UpdateAllocator_correct:
  assumes "num_blocks \<le> MaxBlocks" "new_UpdateAllocator sm num_blocks = (res, al)"
  shows "(res = ResultSuccess \<longleftrightarrow> num_blocks \<le> sm) \<and>
    (res = ResultSuccess \<longrightarrow> available num_blocks al \<and> allocator_ok al) \<and>
    destroy_UpdateAllocator al = sm"
proof -
  have "num_blocks = 0 \<or> num_blocks = 1 \<or> num_blocks = 2"
    using assms(1) by (auto simp: MaxBlocks_def)
  then have "(res = ResultSuccess \<longleftrightarrow> num_blocks \<le> sm) \<and>
      (res = ResultSuccess \<longrightarrow> allocator_ok al) \<and> destroy_UpdateAllocator al = sm"
    using assms(2)
    by (elim disjE)
      (auto simp: new_UpdateAllocator_def allocator_Initialize_def allocator_ok_def
        destroy_UpdateAllocator_def MaxBlocks_def numeral_2_eq_2 split: if_splits)
  with available_new [of sm num_blocks al] assms show ?thesis by auto
qed

theorem new_UpdateAllocator_correct_witness:
  "fst (new_UpdateAllocator 1 2) = ResultOutOfResource \<and>
   destroy_UpdateAllocator (snd (new_UpdateAllocator 1 2)) = 1"
  using new_UpdateAllocator_correct [of 2 1 "fst (new_UpdateAllocator 1 2)"
      "snd (new_UpdateAllocator 1 2)"]
  by (simp add: MaxBlocks_def new_UpdateAllocator_def allocator_Initialize_def numeral_2_eq_2)

section \<open>Lookup\<close>

text \<open>
  \<open>FindBlock\<close> answers for every address of the space, with a block that contains the address
  and carries the properties of its page.
\<close>

theorem FindBlock_page:
  assumes "manager_ok m" "in_space m address 1"
  shows "\<exists>b. FindBlock m address = Some b \<and> b \<in> set (m_memory_block_tree m) \<and>
    m_address b \<le> address \<and> address < m_address b + m_num_pages b * PageSize \<and>
    props_of b = page_map m ! page_index m address"
proof -
  obtain pre b post x j where fi: "FindIterator m address = (pre, b # post)"
      "m_memory_block_tree m = pre @ b # post" "chain x (b # post) (m_end_address m)"
      "address = x + j * PageSize" "j < m_num_pages b"
      "page_index m address = length (pages pre) + j"
    using update_start [OF assms] by metis
  then show ?thesis by (simp add: FindBlock_def page_map_def nth_append)
qed

theorem FindBlock_page_witness:
  "\<exists>b. FindBlock sample_manager 45056 = Some b \<and> m_address b \<le> 45056 \<and>
    props_of b = page_map sample_manager ! 3"
  using FindBlock_page [OF sample_manager_ok, of 45056]
  by (auto simp: in_space_def page_index_def sample_defs)

section \<open>The search for a free area\<close>

definition align_up_to :: "nat \<Rightarrow> nat \<Rightarrow> nat \<Rightarrow> nat" where
  "align_up_to x alignment offset =
     (let u = AlignDown x alignment + offset in if x \<le> u then u else u + alignment)"

lemma align_up_to_least:
  assumes "offset < alignment"
  shows "x \<le> align_up_to x alignment offset"
    and "align_up_to x alignment offset mod alignment = offset"
    and "align_up_to x alignment offset \<le> x + alignment"
    and "x \<le> r \<Longrightarrow> r mod alignment = offset \<Longrightarrow> align_up_to x alignment offset \<le> r"
proof -
  define p where "p = x div alignment"
  have x: "x = p * alignment + x mod alignment" by (simp add: p_def)
  have down: "AlignDown x alignment = p * alignment"
    using x by (simp add: AlignDown_def)
  have lt: "x mod alignment < alignment" using assms by simp
  have "x < p * alignment + alignment" "p * alignment \<le> x" using x lt by linarith+
  then show "x \<le> align_up_to x alignment offset"
    "align_up_to x alignment offset mod alignment = offset"
    "align_up_to x alignment offset \<le> x + alignment"
    using assms by (auto simp: align_up_to_def down Let_def)
  assume r: "x \<le> r" "r mod alignment = offset"
  define q where "q = r div alignment"
  have rq: "r = q * alignment + offset"
    using r(2) div_mult_mod_eq [of r alignment] by (simp add: q_def)
  show "align_up_to x alignment offset \<le> r"
  proof (cases "x mod alignment \<le> offset")
    case True
    have "p \<le> q" unfolding p_def q_def using r(1) by (rule div_le_mono)
    with True x show ?thesis by (simp add: align_up_to_def down Let_def rq)
  next
    case False
    have "p < q"
    proof (rule ccontr)
      assume "\<not> p < q"
      then have "q * alignment \<le> p * alignment" by simp
      with False x r(1) rq show False by linarith
    qed
    then have "Suc p * alignment \<le> q * alignment" by (simp del: mult_Suc)
    with False x show ?thesis by (simp add: align_up_to_def down Let_def rq)
  qed
qed

text \<open>
  An area of \<open>num_pages\<close> pages at \<open>r\<close> with its guard pages lies in the free block \<open>b\<close> and
  in the region, at the wanted offset from the alignment.
\<close>

definition area_fits ::
  "nat \<Rightarrow> nat \<Rightarrow> nat \<Rightarrow> nat \<Rightarrow> nat \<Rightarrow> nat \<Rightarrow> KMemoryBlock \<Rightarrow> nat \<Rightarrow> bool" where
  "area_fits region_start region_end num_pages alignment offset guard_pages b r \<longleftrightarrow>
     m_memory_state b = kmemory_state KMS_Free \<and> r mod alignment = offset \<and>
     m_address b + guard_pages * PageSize \<le> r \<and> region_start + guard_pages * PageSize \<le> r \<and>
     r + num_pages * PageSize + guard_pages * PageSize \<le> region_end \<and>
     r + num_pages * PageSize + guard_pages * PageSize \<le> m_address b + m_num_pages b * PageSize"

definition first_fit :: "(KMemoryBlock \<Rightarrow> nat \<Rightarrow> bool) \<Rightarrow> KMemoryBlock list \<Rightarrow> nat \<Rightarrow> bool" where
  "first_fit P bs r \<longleftrightarrow>
     (if \<exists>b\<in>set bs. \<exists>r. P b r
      then (\<exists>b\<in>set bs. P b r) \<and> (\<forall>b\<in>set bs. \<forall>r'. P b r' \<longrightarrow> r \<le> r')
      else r = 0)"

lemma first_fit_skip: "(\<And>r. \<not> P b r) \<Longrightarrow> first_fit P (b # bs) r \<longleftrightarrow> first_fit P bs r"
  by (auto simp: first_fit_def)

lemma first_fit_skip_all:
  "(\<And>b r. b \<in> set pre \<Longrightarrow> \<not> P b r) \<Longrightarrow> first_fit P (pre @ bs) r \<longleftrightarrow> first_fit P bs r"
  by (induction pre) (auto simp: first_fit_skip)

lemma find_free_area_loop_free:
  assumes b: "m_address b \<le> region_end - 1" "m_memory_state b = kmemory_state KMS_Free"
      "block_end b < 2 ^ 64" "0 < m_num_pages b"
    and al: "0 < num_pages" "offset < alignment" "region_start < region_end"
    and wrap: "region_end + alignment + num_pages * PageSize + 2 * guard_pages * PageSize < 2 ^ 64"
  defines "y \<equiv> align_up_to (max region_start (m_address b) + guard_pages * PageSize) alignment offset"
    and "sz \<equiv> num_pages * PageSize + guard_pages * PageSize"
  shows "find_free_area_loop region_start (region_end - 1) num_pages alignment offset guard_pages
      (b # bs) =
    (if y + sz \<le> region_end \<and> y + sz \<le> block_end b then y
     else find_free_area_loop region_start (region_end - 1) num_pages alignment offset
       guard_pages bs)"
proof -
  define x where "x = max region_start (m_address b) + guard_pages * PageSize"
  define u where "u = AlignDown x alignment + offset"
  have y: "y = (if x \<le> u then u else u + alignment)"
    by (simp add: y_def x_def u_def align_up_to_def Let_def)
  have yx: "x \<le> y" "y \<le> x + alignment"
    using align_up_to_least [OF al(2), of x] by (simp_all add: y_def x_def)
  have xe: "x \<le> region_end + guard_pages * PageSize" "m_address b \<le> x"
    using b(1) al(3) by (simp_all add: x_def)
  have pos: "0 < num_pages * PageSize" using al(1) by simp
  have lt: "x < 2 ^ 64" "u < 2 ^ 64" "y < 2 ^ 64" "y + num_pages * PageSize < 2 ^ 64"
      "y + sz < 2 ^ 64" "guard_pages * PageSize < 2 ^ 64" "num_pages * PageSize < 2 ^ 64"
    using wrap xe yx y by (auto simp: sz_def split: if_splits)
  have a0: "(if m_address b \<le> region_start then region_start else m_address b) =
      max region_start (m_address b)"
    by auto
  have a1: "add64 (max region_start (m_address b)) (mul64 guard_pages PageSize) = x"
    using lt by (simp add: mul64_eq add64_eq x_def)
  have a2: "add64 (AlignDown x alignment) offset = u" using lt by (simp add: add64_eq u_def)
  have a3: "(if x \<le> u then u else add64 u alignment) = y"
    using lt(3) by (auto simp: y add64_eq)
  have a4: "add64 (add64 y (mul64 num_pages PageSize)) (mul64 guard_pages PageSize) = y + sz"
    using lt by (simp add: mul64_eq add64_eq sz_def add.assoc)
  have a5: "sub64 (y + sz) 1 = y + sz - 1"
    using lt pos by (simp add: sub64_eq sz_def Suc_leI)
  have last: "mi_GetLastAddress (GetMemoryInfo b) = block_end b - 1"
    using block_arith [OF b(3)] b(3,4) by (simp add: mi_GetLastAddress_def sub64_eq Suc_leI)
  have "1 < sz" using al(1) by (cases num_pages) (simp_all add: sz_def PageSize_def)
  moreover have "0 < block_end b" using b(4) by simp
  moreover have "m_address b \<le> y" using yx xe by simp
  ultimately have cond: "m_address b \<le> y \<and> y < y + sz - 1 \<and> y + sz - 1 \<le> region_end - 1 \<and>
      y + sz - 1 \<le> block_end b - 1 \<longleftrightarrow> y + sz \<le> region_end \<and> y + sz \<le> block_end b"
    using al(3) by linarith
  have st: "mi_state (GetMemoryInfo b) = m_memory_state b" by (simp add: GetMemoryInfo_def)
  have "\<not> region_end - 1 < m_address b" using b(1) by simp
  then show ?thesis
    by (simp only: find_free_area_loop.simps Let_def st b(2) block_arith(6) [OF b(3)] a0 a1 a2 a3 a4
        a5 last cond if_False simp_thms)
qed

lemma find_free_area_loop_first_fit:
  assumes "chain a bs e" "0 < num_pages" "offset < alignment" "0 < region_end" "region_end \<le> e"
    and "region_start < region_end"
    and "e + alignment + num_pages * PageSize + 2 * guard_pages * PageSize < 2 ^ 64"
  shows "first_fit (area_fits region_start region_end num_pages alignment offset guard_pages) bs
    (find_free_area_loop region_start (region_end - 1) num_pages alignment offset guard_pages bs)"
  using assms(1)
proof (induction bs arbitrary: a)
  case Nil
  then show ?case by (simp add: first_fit_def)
next
  case (Cons b bs)
  let ?fits = "area_fits region_start region_end num_pages alignment offset guard_pages"
  let ?g = "guard_pages * PageSize" and ?n = "num_pages * PageSize"
  from Cons.prems have tl: "chain (block_end b) bs e" and b: "m_address b = a" "0 < m_num_pages b"
    by auto
  have fit: "block_end b < 2 ^ 64" using chain_le [OF tl] assms(7) by linarith
  note ar = block_arith [OF fit]
  have later: "block_end b \<le> r" if "c \<in> set bs" "?fits c r" for c r
    using chain_mem [OF tl that(1)] that(2) by (simp add: area_fits_def)
  have pos: "0 < ?n" using assms(2) by simp
  consider "region_end - 1 < a" | "a \<le> region_end - 1" "m_memory_state b \<noteq> kmemory_state KMS_Free"
    | "a \<le> region_end - 1" "m_memory_state b = kmemory_state KMS_Free" by fastforce
  then show ?case
  proof cases
    case 1
    have "\<not> ?fits c r" if "c \<in> set (b # bs)" for c r
    proof
      assume f: "?fits c r"
      then have "a \<le> r" using that later [of c r] b by (auto simp: area_fits_def)
      moreover have "r + ?n + ?g \<le> region_end" using f by (simp add: area_fits_def)
      ultimately show False using 1 pos by linarith
    qed
    then show ?thesis using 1 b ar by (auto simp: first_fit_def)
  next
    case 2
    then have "\<not> ?fits b r" for r by (simp add: area_fits_def)
    with 2 b ar Cons.IH [OF tl] show ?thesis
      by (simp add: first_fit_skip GetMemoryInfo_def Let_def)
  next
    case 3
    define x where "x = max region_start a + ?g"
    define y where "y = align_up_to x alignment offset"
    note least = align_up_to_least [OF assms(3), of x, folded y_def]
    have iff: "?fits b y \<longleftrightarrow> y + (?n + ?g) \<le> region_end \<and> y + (?n + ?g) \<le> block_end b"
      using least(1,2) 3(2) b by (auto simp: area_fits_def x_def)
    have best: "y \<le> r" if "?fits b r" for r
      using that b by (intro least(4)) (auto simp: area_fits_def x_def max_def)
    have "region_end + alignment + ?n + 2 * guard_pages * PageSize < 2 ^ 64"
      using assms(5,7) by linarith
    from find_free_area_loop_free [OF _ 3(2) fit b(2) assms(2,3,6) this, of bs] 3(1)
    have step: "find_free_area_loop region_start (region_end - 1) num_pages alignment offset
        guard_pages (b # bs) = (if ?fits b y then y else find_free_area_loop region_start
          (region_end - 1) num_pages alignment offset guard_pages bs)"
      unfolding iff by (simp add: b y_def x_def del: find_free_area_loop.simps)
    show ?thesis
    proof (cases "?fits b y")
      case True
      then have "y \<le> block_end b" by (simp add: area_fits_def)
      with True step best later show ?thesis
        by (auto simp: first_fit_def simp del: find_free_area_loop.simps dest: order_trans)
    next
      case False
      have "\<not> ?fits b r" for r
      proof
        assume "?fits b r"
        with best [OF this] have "?fits b y" unfolding iff by (simp add: area_fits_def)
        with False show False ..
      qed
      with step False Cons.IH [OF tl] show ?thesis
        by (simp add: first_fit_skip del: find_free_area_loop.simps)
    qed
  qed
qed

text \<open>
  C24. \<open>FindFreeArea\<close> is a first-fit search: if any place in a free block of the region has room
  for the area and its guard pages at the wanted alignment, the answer is the lowest such place,
  and otherwise it is the null address.
\<close>

theorem FindFreeArea_first_fit:
  fixes region_start region_num_pages :: nat
  defines "region_end \<equiv> region_start + region_num_pages * PageSize"
  assumes ok: "manager_ok m" and region: "m_start_address m \<le> region_start"
      "0 < region_num_pages" "region_end \<le> m_end_address m"
    and np: "0 < num_pages" and align: "offset < alignment"
    and wrap: "m_end_address m + alignment + num_pages * PageSize + 2 * guard_pages * PageSize
      < 2 ^ 64"
  shows "first_fit (area_fits region_start region_end num_pages alignment offset guard_pages)
    (m_memory_block_tree m)
    (FindFreeArea m region_start region_num_pages num_pages alignment offset guard_pages)"
proof -
  let ?fits = "area_fits region_start region_end num_pages alignment offset guard_pages"
  have pos: "0 < region_num_pages * PageSize" using region(2) by simp
  then have lt: "region_start < region_end" by (simp add: region_end_def)
  have e: "m_end_address m < 2 ^ 64" using ok by (simp add: manager_ok_def)
  have re: "region_num_pages * PageSize < 2 ^ 64" "region_end < 2 ^ 64"
    using region(3) e by (simp_all add: region_end_def)
  have fits: "sub64 (add64 region_start (mul64 region_num_pages PageSize)) 1 = region_end - 1"
    using re lt by (simp add: mul64_eq add64_eq sub64_eq flip: region_end_def)
  have "region_start < m_end_address m" using lt region(3) by simp
  then obtain pre b post x where fi: "FindIterator m region_start = (pre, b # post)"
      "m_memory_block_tree m = pre @ b # post" "chain (m_start_address m) pre x"
      "chain x (b # post) (m_end_address m)" "x \<le> region_start"
    using find_iter_chain [of _ "m_memory_block_tree m", OF _ region(1)] ok
    unfolding manager_ok_def FindIterator_def by metis
  have "\<not> ?fits c r" if "c \<in> set pre" for c r
  proof
    assume "?fits c r"
    then have "region_start \<le> r" "r + num_pages * PageSize \<le> block_end c"
      by (auto simp: area_fits_def)
    moreover have "block_end c \<le> x" using chain_mem [OF fi(3) that] by simp
    moreover have "0 < num_pages * PageSize" using np by simp
    ultimately show False using fi(5) by linarith
  qed
  then have "first_fit ?fits (m_memory_block_tree m) r \<longleftrightarrow> first_fit ?fits (b # post) r" for r
    unfolding fi(2) by (rule first_fit_skip_all)
  moreover have "FindFreeArea m region_start region_num_pages num_pages alignment offset
      guard_pages = find_free_area_loop region_start (region_end - 1) num_pages alignment offset
        guard_pages (b # post)"
    unfolding FindFreeArea_def Let_def fits fi(1) snd_conv using np by (simp only: if_True)
  ultimately show ?thesis
    using find_free_area_loop_first_fit [OF fi(4) np align _ region(3) lt wrap] lt by simp
qed

theorem FindFreeArea_first_fit_witness:
  "first_fit (area_fits 36864 65536 1 4096 0 0) (m_memory_block_tree sample_manager)
     (FindFreeArea sample_manager 36864 7 1 4096 0 0)"
  using FindFreeArea_first_fit [OF sample_manager_ok, of 36864 7 1 0 4096 0]
  by (simp add: sample_defs)

section \<open>Initialisation and the debug check\<close>

definition free_page :: PageProps where
  "free_page = \<lparr>pp_state = kmemory_state KMS_Free, pp_permission = PermNone,
     pp_original_permission = PermNone, pp_attribute = AttrNone, pp_ipc_lock_count = 0,
     pp_device_use_count = 0\<rparr>"

text \<open>
  \<open>Initialize\<close> needs one block of storage; with it the manager is well formed and every page
  of the space is free, and without it nothing changes.
\<close>

theorem Initialize_establishes:
  assumes "m_memory_block_tree m = []" "st < nd" "nd < 2 ^ 64" "PageSize dvd nd - st"
  shows "if slab_manager = 0
    then manager_Initialize m st nd slab_manager = (ResultOutOfResource, m, 0)
    else \<exists>m'. manager_Initialize m st nd slab_manager = (ResultSuccess, m', slab_manager - 1) \<and>
      manager_ok m' \<and> m_start_address m' = st \<and> m_end_address m' = nd \<and>
      page_map m' = replicate ((nd - st) div PageSize) free_page"
proof -
  have "sub64 nd st = nd - st" using assms(2,3) by (simp add: sub64_eq)
  moreover have "0 < (nd - st) div PageSize" 
    using assms(2,4) by (simp add: div_greater_zero_iff dvd_imp_le)
  ultimately show ?thesis
    using assms
    by (simp add: manager_Initialize_def block_Initialize_def manager_ok_def page_map_def
        props_of_def default_KMemoryBlock_def new_KMemoryBlock_def free_page_def Let_def)
qed

theorem Initialize_establishes_witness:
  "\<exists>m'. manager_Initialize \<lparr>m_memory_block_tree = [], m_start_address = 0, m_end_address = 0\<rparr>
      32768 65536 3 = (ResultSuccess, m', 2) \<and> manager_ok m' \<and>
    page_map m' = replicate 8 free_page"
  using Initialize_establishes [of "\<lparr>m_memory_block_tree = [], m_start_address = 0,
      m_end_address = 0\<rparr>" 32768 65536 3]
  by (auto simp: PageSize_def)

definition no_wrap :: "KMemoryBlock \<Rightarrow> bool" where
  "no_wrap b \<longleftrightarrow> 0 < m_num_pages b \<and> m_address b + m_num_pages b * PageSize < 2 ^ 64"

lemma check_state_loop_iff:
  assumes "\<forall>c\<in>set (b # bs). no_wrap c"
  shows "check_state_loop b bs \<longleftrightarrow>
    (\<exists>e. chain (m_address b) (b # bs) e) \<and> coalesced (b # bs) \<and>
    (if bs = [] then check_counts (GetMemoryInfo b)
     else \<forall>c\<in>set bs. check_counts (GetMemoryInfo c))"
  using assms
proof (induction bs arbitrary: b)
  case Nil
  then show ?case by (simp add: no_wrap_def)
next
  case (Cons c cs)
  then have b: "no_wrap b" and c: "no_wrap c" by auto
  note ar = block_arith(4,6) [of b] block_arith(6) [of c]
  show ?case
    using Cons.IH [of c] Cons.prems b c ar by (cases cs) (auto simp: no_wrap_def)
qed

text \<open>
  \<open>CheckState\<close> decides well-formedness: on blocks of an address space below \<open>2 ^ 64\<close> it
  answers true exactly if they are contiguous and coalesced and every block but the first has
  the counts its attributes require; the first block's counts are only checked when it is the
  only block.
\<close>

theorem CheckState_decides:
  assumes "m_memory_block_tree m = b # bs" "\<forall>c\<in>set (b # bs). no_wrap c"
  shows "CheckState m = Inr True \<longleftrightarrow>
    (\<exists>e. chain (m_address b) (b # bs) e) \<and> coalesced (b # bs) \<and>
    (if bs = [] then check_counts (GetMemoryInfo b)
     else \<forall>c\<in>set bs. check_counts (GetMemoryInfo c))"
  using check_state_loop_iff [OF assms(2)] assms(1) by (simp add: CheckState_def)

theorem CheckState_decides_witness: "CheckState sample_manager = Inr True"
proof -
  have "manager_ok sample_manager" by (rule sample_manager_ok)
  then have "(\<exists>e. chain 32768 (m_memory_block_tree sample_manager) e)"
    "coalesced (m_memory_block_tree sample_manager)"
    by (auto simp: manager_ok_def sample_manager_def)
  then show ?thesis
    using CheckState_decides [of sample_manager "sample_block 32768 2 KMS_Free"
        "[sample_block 40960 4 KMS_Normal, sample_block 57344 2 KMS_Free]"]
    by (simp add: sample_defs no_wrap_def check_counts_def GetMemoryInfo_def attribute_defs
        del: chain.simps coalesced_simps)
qed

end
