(* ===== verification/KAutoObject.thy ===== *)
theory KAutoObject
  imports Nx_Prelude
begin

text \<open>
  Reference-counted kernel objects: \<open>KAutoObject\<close> and \<open>KScopedAutoObject\<close> of
  \<^verbatim>\<open>src/src/core/hle/kernel/k_auto_object.{h,cpp}\<close> and the object registries of
  \<^verbatim>\<open>src/src/core/hle/kernel/kernel.cpp\<close>. A pointer to an object is its number. The
  virtual \<open>Destroy\<close> is recorded as a call; what a derived class does in it is not part of
  this theory. The compare-exchange loops of \<open>Open\<close> and \<open>Close\<close> are the atomic update
  they implement.
\<close>

record KAutoObject =
  m_ref_count :: nat
  m_class_token :: u16

record KernelCore =
  kernel_objects :: "nat \<Rightarrow> KAutoObject"
  registered_objects :: "nat set"
  registered_in_use_objects :: "nat set"
  destroyed :: "nat list"

definition set_ref_count :: "nat \<Rightarrow> nat \<Rightarrow> KernelCore \<Rightarrow> KernelCore" where
  "set_ref_count obj n k =
     k\<lparr>kernel_objects := (kernel_objects k)(obj := (kernel_objects k obj)\<lparr>m_ref_count := n\<rparr>)\<rparr>"

definition ref_count :: "KernelCore \<Rightarrow> nat \<Rightarrow> nat" where
  "ref_count k obj = m_ref_count (kernel_objects k obj)"

definition IsClassTokenDerivedFrom :: "u16 \<Rightarrow> u16 \<Rightarrow> bool" where
  "IsClassTokenDerivedFrom self base \<longleftrightarrow> self OR base = self"

definition DynamicCast :: "KernelCore \<Rightarrow> u16 \<Rightarrow> nat \<Rightarrow> nat option" where
  "DynamicCast k derived obj =
     (if IsClassTokenDerivedFrom (m_class_token (kernel_objects k obj)) derived
      then Some obj else None)"

definition RegisterKernelObject :: "nat \<Rightarrow> KernelCore \<Rightarrow> KernelCore" where
  "RegisterKernelObject obj k = k\<lparr>registered_objects := insert obj (registered_objects k)\<rparr>"

definition UnregisterKernelObject :: "nat \<Rightarrow> KernelCore \<Rightarrow> KernelCore" where
  "UnregisterKernelObject obj k = k\<lparr>registered_objects := registered_objects k - {obj}\<rparr>"

definition RegisterInUseObject :: "nat \<Rightarrow> KernelCore \<Rightarrow> KernelCore" where
  "RegisterInUseObject obj k =
     k\<lparr>registered_in_use_objects := insert obj (registered_in_use_objects k)\<rparr>"

definition UnregisterInUseObject :: "nat \<Rightarrow> KernelCore \<Rightarrow> KernelCore" where
  "UnregisterInUseObject obj k =
     k\<lparr>registered_in_use_objects := registered_in_use_objects k - {obj}\<rparr>"

definition auto_object_Create :: "nat \<Rightarrow> u16 \<Rightarrow> KernelCore \<Rightarrow> KernelCore" where
  "auto_object_Create obj class_token k =
     k\<lparr>kernel_objects := (kernel_objects k)
         (obj := \<lparr>m_ref_count = 1, m_class_token = class_token\<rparr>)\<rparr>"

definition Open :: "nat \<Rightarrow> KernelCore \<Rightarrow> bool \<times> KernelCore" where
  "Open obj k =
     (let cur_ref_count = ref_count k obj in
      if cur_ref_count = 0 then (False, k)
      else (True, set_ref_count obj ((cur_ref_count + 1) mod 2 ^ 32) k))"

definition Close :: "nat \<Rightarrow> KernelCore \<Rightarrow> KernelCore" where
  "Close obj k =
     (let cur_ref_count = ref_count k obj in
      if cur_ref_count = 0 then k
      else
        let k = set_ref_count obj (cur_ref_count - 1) k in
        if cur_ref_count = 1
        then UnregisterKernelObject obj (k\<lparr>destroyed := destroyed k @ [obj]\<rparr>)
        else k)"

text \<open>The constructor of \<open>KScopedAutoObject\<close> opens a reference; a failed \<open>Open\<close> is ignored.\<close>

fun scoped_open :: "nat option \<Rightarrow> KernelCore \<Rightarrow> KernelCore" where
  "scoped_open None k = k"
| "scoped_open (Some obj) k = snd (Open obj k)"

fun scoped_close :: "nat option \<Rightarrow> KernelCore \<Rightarrow> KernelCore" where
  "scoped_close None k = k"
| "scoped_close (Some obj) k = Close obj k"

section \<open>Reference counts\<close>

lemma ref_count_set [simp]:
  "ref_count (set_ref_count obj n k) o' = (if o' = obj then n else ref_count k o')"
  by (simp add: ref_count_def set_ref_count_def)

lemma token_set_ref_count [simp]:
  "m_class_token (kernel_objects (set_ref_count obj n k) o') = m_class_token (kernel_objects k o')"
  by (simp add: set_ref_count_def)

lemma ref_count_frame [simp]:
  "ref_count (UnregisterKernelObject x k) = ref_count k"
  "ref_count (UnregisterInUseObject x k) = ref_count k"
  "ref_count (k\<lparr>destroyed := d\<rparr>) = ref_count k"
  by (simp_all add: fun_eq_iff ref_count_def UnregisterKernelObject_def UnregisterInUseObject_def)

lemma ref_count_Open:
  "ref_count (snd (Open obj k)) o' =
     (if o' = obj \<and> 0 < ref_count k obj then (ref_count k obj + 1) mod 2 ^ 32 else ref_count k o')"
  by (simp add: Open_def Let_def)

lemma ref_count_Close:
  "ref_count (Close obj k) o' = (if o' = obj then ref_count k obj - 1 else ref_count k o')"
  by (simp add: Close_def Let_def)

lemma set_ref_count_same: "n = ref_count k obj \<Longrightarrow> set_ref_count obj n k = k"
  by (simp add: set_ref_count_def ref_count_def)

lemma set_ref_count_twice [simp]:
  "set_ref_count obj n (set_ref_count obj n' k) = set_ref_count obj n k"
  by (simp add: set_ref_count_def)

text \<open>A reference that was taken can be given back without a trace.\<close>

lemma Close_Open:
  assumes "0 < ref_count k obj" "ref_count k obj + 1 < 2 ^ 32"
  shows "Close obj (snd (Open obj k)) = k"
  using assms by (simp add: Open_def Close_def Let_def set_ref_count_same)

lemma DynamicCast_Some: "DynamicCast k T obj = Some o' \<Longrightarrow> o' = obj"
  by (simp add: DynamicCast_def split: if_splits)

lemma DynamicCast_Open [simp]: "DynamicCast (snd (Open obj k)) T o' = DynamicCast k T o'"
  by (simp add: DynamicCast_def Open_def Let_def)

text \<open>Several references at once: \<open>bump f k\<close> has \<open>f obj\<close> more references to \<open>obj\<close>.\<close>

definition bump :: "(nat \<Rightarrow> nat) \<Rightarrow> KernelCore \<Rightarrow> KernelCore" where
  "bump f k =
     k\<lparr>kernel_objects := \<lambda>obj. (kernel_objects k obj)\<lparr>m_ref_count := ref_count k obj + f obj\<rparr>\<rparr>"

lemma bump_zero [simp]: "bump (\<lambda>_. 0) k = k"
  by (simp add: bump_def ref_count_def)

lemma ref_count_bump [simp]: "ref_count (bump f k) obj = ref_count k obj + f obj"
  by (simp add: bump_def ref_count_def)

lemma DynamicCast_bump [simp]: "DynamicCast (bump f k) T obj = DynamicCast k T obj"
  by (simp add: DynamicCast_def bump_def)

lemma set_ref_count_bump:
  "n = ref_count k obj + m \<Longrightarrow> set_ref_count obj n (bump f k) = bump (f(obj := m)) k"
  by (simp add: set_ref_count_def bump_def fun_eq_iff)

lemma Open_bump:
  assumes "0 < ref_count k obj" "ref_count k obj + f obj + 1 < 2 ^ 32"
  shows "Open obj (bump f k) = (True, bump (f(obj := f obj + 1)) k)"
  using assms set_ref_count_bump [of _ k obj "f obj + 1" f] by (simp add: Open_def Let_def)

lemma Close_bump:
  assumes "0 < ref_count k obj" "0 < f obj"
  shows "Close obj (bump f k) = bump (f(obj := f obj - 1)) k"
  using assms set_ref_count_bump [of _ k obj "f obj - 1" f] by (simp add: Close_def Let_def)

lemma fold_Close_bump:
  assumes "\<forall>obj\<in>set objs. 0 < ref_count k obj"
  shows "fold Close objs (bump (\<lambda>obj. f obj + count_list objs obj) k) = bump f k"
  using assms
proof (induction objs)
  case Nil
  then show ?case by simp
next
  case (Cons a objs)
  have "Close a (bump (\<lambda>obj. f obj + count_list (a # objs) obj) k) =
      bump (\<lambda>obj. f obj + count_list objs obj) k"
    using Cons.prems by (subst Close_bump) (auto intro!: arg_cong [of _ _ "\<lambda>g. bump g k"])
  with Cons show ?case by simp
qed

end
