(* ===== verification/KHandleTable.thy ===== *)
theory KHandleTable
  imports KAutoObject
begin

text \<open>
  The handle table of a process:
  \<^verbatim>\<open>src/src/core/hle/kernel/k_handle_table.{h,cpp}\<close> and the pseudo-handles of
  \<^verbatim>\<open>src/src/core/hle/kernel/svc_common.h\<close>. The entry union of a linear id and a
  next-free index is one 16-bit word read in two ways. An operation that would index an array
  outside its bounds is \<open>None\<close>. The dispatch and spin locks every operation takes make it
  atomic, so that the table is a value passed from one operation to the next; \<open>ASSERT\<close>s
  log and go on, as the source's do unless debugging asserts are switched on.
\<close>

section \<open>Handles\<close>

type_synonym Handle = u32

definition CurrentThread :: Handle where
  "CurrentThread = 0xFFFF8000"

definition CurrentProcess :: Handle where
  "CurrentProcess = 0xFFFF8001"

definition IsPseudoHandle :: "Handle \<Rightarrow> bool" where
  "IsPseudoHandle handle \<longleftrightarrow> handle = CurrentProcess \<or> handle = CurrentThread"

definition pack_index :: "Handle \<Rightarrow> nat" where
  "pack_index handle = unat (take_bit 15 handle)"

definition pack_linear_id :: "Handle \<Rightarrow> nat" where
  "pack_linear_id handle = unat (take_bit 15 (drop_bit 15 handle))"

definition pack_reserved :: "Handle \<Rightarrow> nat" where
  "pack_reserved handle = unat (drop_bit 30 handle)"

definition EncodeHandle :: "nat \<Rightarrow> nat \<Rightarrow> Handle" where
  "EncodeHandle index linear_id =
     take_bit 15 (of_nat index) OR push_bit 15 (take_bit 15 (of_nat linear_id))"

section \<open>The table\<close>

definition MaxTableSize :: nat where
  "MaxTableSize = 1024"

definition MinLinearId :: nat where
  "MinLinearId = 1"

definition MaxLinearId :: nat where
  "MaxLinearId = 0x7FFF"

type_synonym EntryInfo = u16

definition GetLinearId :: "EntryInfo \<Rightarrow> nat" where
  "GetLinearId info = unat info"

definition GetNextFreeIndex :: "EntryInfo \<Rightarrow> int" where
  "GetNextFreeIndex info = sint info"

record KHandleTable =
  m_entry_infos :: "EntryInfo list"
  m_objects :: "nat option list"
  m_free_head_index :: int
  m_table_size :: nat
  m_max_count :: nat
  m_next_linear_id :: nat
  m_count :: nat

definition new_KHandleTable :: KHandleTable where
  "new_KHandleTable =
     \<lparr>m_entry_infos = replicate MaxTableSize 0, m_objects = replicate MaxTableSize None,
      m_free_head_index = 0, m_table_size = 0, m_max_count = 0, m_next_linear_id = 0,
      m_count = 0\<rparr>"

text \<open>\<open>Initialize\<close>: \<open>init_entries n i\<close> is the loop for the \<open>n\<close> entries from \<open>i\<close> on.\<close>

fun init_entries :: "nat \<Rightarrow> nat \<Rightarrow> KHandleTable \<Rightarrow> KHandleTable" where
  "init_entries 0 i t = t"
| "init_entries (Suc n) i t =
     init_entries n (Suc i)
       (t\<lparr>m_objects := (m_objects t)[i := None],
          m_entry_infos := (m_entry_infos t)[i := word_of_int (int i - 1)],
          m_free_head_index := int i\<rparr>)"

definition table_Initialize :: "int \<Rightarrow> KHandleTable \<Rightarrow> Result \<times> KHandleTable" where
  "table_Initialize sz t =
     (if int MaxTableSize < sz then (ResultOutOfMemory, t)
      else
        let table_size = (if sz \<le> 0 then MaxTableSize else nat sz);
            t = t\<lparr>m_max_count := 0, m_table_size := table_size, m_next_linear_id := MinLinearId,
                  m_count := 0, m_free_head_index := - 1\<rparr>
        in (ResultSuccess, init_entries table_size 0 t))"

definition AllocateEntry :: "KHandleTable \<Rightarrow> (nat \<times> KHandleTable) option" where
  "AllocateEntry t =
     (let index = m_free_head_index t in
      if 0 \<le> index \<and> index < int MaxTableSize
      then
        let count = (m_count t + 1) mod 2 ^ 16 in
        Some (nat index,
          t\<lparr>m_free_head_index := GetNextFreeIndex (m_entry_infos t ! nat index),
            m_count := count, m_max_count := max (m_max_count t) count\<rparr>)
      else None)"

definition FreeEntry :: "nat \<Rightarrow> KHandleTable \<Rightarrow> KHandleTable" where
  "FreeEntry index t =
     t\<lparr>m_objects := (m_objects t)[index := None],
       m_entry_infos := (m_entry_infos t)[index := word_of_int (m_free_head_index t)],
       m_free_head_index := int index,
       m_count := (m_count t + 2 ^ 16 - 1) mod 2 ^ 16\<rparr>"

definition AllocateLinearId :: "KHandleTable \<Rightarrow> nat \<times> KHandleTable" where
  "AllocateLinearId t =
     (let linear_id = m_next_linear_id t;
          next_id = (m_next_linear_id t + 1) mod 2 ^ 16
      in (linear_id,
          t\<lparr>m_next_linear_id := (if MaxLinearId < next_id then MinLinearId else next_id)\<rparr>))"

definition IsValidHandle :: "KHandleTable \<Rightarrow> Handle \<Rightarrow> bool" where
  "IsValidHandle t handle \<longleftrightarrow>
     (let index = pack_index handle; linear_id = pack_linear_id handle in
      if handle = 0 then False
      else if linear_id = 0 then False
      else if m_table_size t \<le> index then False
      else if m_objects t ! index = None then False
      else if GetLinearId (m_entry_infos t ! index) \<noteq> linear_id then False
      else True)"

definition GetObjectImpl :: "KHandleTable \<Rightarrow> Handle \<Rightarrow> nat option" where
  "GetObjectImpl t handle =
     (if pack_reserved handle \<noteq> 0 then None
      else if IsValidHandle t handle then m_objects t ! pack_index handle
      else None)"

definition GetObjectByIndexImpl :: "KHandleTable \<Rightarrow> nat \<Rightarrow> (Handle \<times> nat) option" where
  "GetObjectByIndexImpl t index =
     (if m_table_size t \<le> index then None
      else case m_objects t ! index of
             Some obj \<Rightarrow>
               Some (EncodeHandle index (GetLinearId (m_entry_infos t ! index)), obj)
           | None \<Rightarrow> None)"

subsection \<open>Lookup operations\<close>

text \<open>
  The template parameter \<open>T\<close> of the lookups: its class token, whether it is \<open>KAutoObject\<close>
  itself, and whether \<open>KProcess\<close> or \<open>KThread\<close> derives from it.
\<close>

record ObjectType =
  type_token :: u16
  is_KAutoObject :: bool
  base_of_KProcess :: bool
  base_of_KThread :: bool

definition GetObjectWithoutPseudoHandle ::
  "ObjectType \<Rightarrow> KHandleTable \<Rightarrow> Handle \<Rightarrow> KernelCore \<Rightarrow> nat option \<times> KernelCore" where
  "GetObjectWithoutPseudoHandle T t handle k =
     (let obj = (if is_KAutoObject T then GetObjectImpl t handle
                 else case GetObjectImpl t handle of
                        Some obj \<Rightarrow> DynamicCast k (type_token T) obj
                      | None \<Rightarrow> None)
      in (obj, scoped_open obj k))"

definition table_GetObject ::
  "ObjectType \<Rightarrow> nat \<Rightarrow> nat \<Rightarrow> KHandleTable \<Rightarrow> Handle \<Rightarrow> KernelCore \<Rightarrow> nat option \<times> KernelCore"
where
  "table_GetObject T cur_process cur_thread t handle k =
     (if base_of_KProcess T
      then if handle = CurrentProcess then (Some cur_process, scoped_open (Some cur_process) k)
           else GetObjectWithoutPseudoHandle T t handle k
      else if base_of_KThread T
      then if handle = CurrentThread then (Some cur_thread, scoped_open (Some cur_thread) k)
           else GetObjectWithoutPseudoHandle T t handle k
      else GetObjectWithoutPseudoHandle T t handle k)"

definition GetObjectForIpcWithoutPseudoHandle ::
  "KHandleTable \<Rightarrow> Handle \<Rightarrow> KernelCore \<Rightarrow> nat option \<times> KernelCore" where
  "GetObjectForIpcWithoutPseudoHandle t handle k =
     (let obj = GetObjectImpl t handle in (obj, scoped_open obj k))"

definition GetObjectForIpc ::
  "nat \<Rightarrow> nat \<Rightarrow> KHandleTable \<Rightarrow> Handle \<Rightarrow> KernelCore \<Rightarrow> nat option \<times> KernelCore" where
  "GetObjectForIpc owner_process cur_thread t handle k =
     (if handle = CurrentProcess then (Some owner_process, scoped_open (Some owner_process) k)
      else if handle = CurrentThread then (Some cur_thread, scoped_open (Some cur_thread) k)
      else GetObjectForIpcWithoutPseudoHandle t handle k)"

definition GetObjectByIndex ::
  "KHandleTable \<Rightarrow> nat \<Rightarrow> KernelCore \<Rightarrow> (Handle \<times> nat) option \<times> KernelCore" where
  "GetObjectByIndex t index k =
     (case GetObjectByIndexImpl t index of
        Some (handle, obj) \<Rightarrow> (Some (handle, obj), scoped_open (Some obj) k)
      | None \<Rightarrow> (None, k))"

text \<open>
  \<open>GetMultipleObjects\<close>: \<open>open_handles\<close> is the loop under the lock; it stops at the first handle
  that has no object or not one of type \<open>T\<close> and returns what it opened.
\<close>

fun open_handles :: "u16 \<Rightarrow> KHandleTable \<Rightarrow> Handle list \<Rightarrow> KernelCore \<Rightarrow> nat list \<times> KernelCore" where
  "open_handles T t [] k = ([], k)"
| "open_handles T t (cur_handle # handles) k =
     (case GetObjectImpl t cur_handle of
        None \<Rightarrow> ([], k)
      | Some cur_object \<Rightarrow>
          (case DynamicCast k T cur_object of
             None \<Rightarrow> ([], k)
           | Some cur_thread \<Rightarrow>
               let (out, k) = open_handles T t handles (snd (Open cur_thread k))
               in (cur_thread # out, k)))"

definition GetMultipleObjects ::
  "u16 \<Rightarrow> KHandleTable \<Rightarrow> Handle list \<Rightarrow> KernelCore \<Rightarrow> nat list option \<times> KernelCore" where
  "GetMultipleObjects T t handles k =
     (let (out, k) = open_handles T t handles k in
      if length out = length handles then (Some out, k)
      else (None, fold Close out k))"

subsection \<open>Operations that change the table\<close>

fun finalize_entries :: "nat option list \<Rightarrow> KernelCore \<Rightarrow> KernelCore" where
  "finalize_entries [] k = k"
| "finalize_entries (entry # entries) k = finalize_entries entries (scoped_close entry k)"

definition table_Finalize :: "KHandleTable \<Rightarrow> KernelCore \<Rightarrow> KHandleTable \<times> KernelCore" where
  "table_Finalize t k =
     (t\<lparr>m_table_size := 0\<rparr>, finalize_entries (take (m_table_size t) (m_objects t)) k)"

definition table_Remove :: "KHandleTable \<Rightarrow> KernelCore \<Rightarrow> Handle \<Rightarrow> bool \<times> KHandleTable \<times> KernelCore"
where
  "table_Remove t k handle =
     (if IsPseudoHandle handle then (False, t, k)
      else if pack_reserved handle \<noteq> 0 then (False, t, k)
      else if IsValidHandle t handle
      then
        let index = pack_index handle; obj = m_objects t ! index in
        (True, FreeEntry index t, scoped_close obj (UnregisterInUseObject (the obj) k))
      else (False, t, k))"

text \<open>\<open>Add\<close> returns the result, the handle written on success, the table and the kernel.\<close>

definition table_Add ::
  "KHandleTable \<Rightarrow> KernelCore \<Rightarrow> nat \<Rightarrow> (Result \<times> Handle option \<times> KHandleTable \<times> KernelCore) option"
where
  "table_Add t k obj =
     (if \<not> m_count t < m_table_size t then Some (ResultOutOfHandles, None, t, k)
      else
        let (linear_id, t) = AllocateLinearId t in
        case AllocateEntry t of
          None \<Rightarrow> None
        | Some (index, t) \<Rightarrow>
            Some (ResultSuccess, Some (EncodeHandle index linear_id),
              t\<lparr>m_entry_infos := (m_entry_infos t)[index := of_nat linear_id],
                m_objects := (m_objects t)[index := Some obj]\<rparr>,
              snd (Open obj k)))"

definition table_Reserve :: "KHandleTable \<Rightarrow> (Result \<times> Handle option \<times> KHandleTable) option" where
  "table_Reserve t =
     (if \<not> m_count t < m_table_size t then Some (ResultOutOfHandles, None, t)
      else case AllocateEntry t of
             None \<Rightarrow> None
           | Some (index, t) \<Rightarrow>
               let (linear_id, t) = AllocateLinearId t
               in Some (ResultSuccess, Some (EncodeHandle index linear_id), t))"

definition table_Unreserve :: "KHandleTable \<Rightarrow> Handle \<Rightarrow> KHandleTable" where
  "table_Unreserve t handle =
     (if pack_index handle < m_table_size t then FreeEntry (pack_index handle) t else t)"

definition table_Register :: "KHandleTable \<Rightarrow> KernelCore \<Rightarrow> Handle \<Rightarrow> nat \<Rightarrow> KHandleTable \<times> KernelCore"
where
  "table_Register t k handle obj =
     (if pack_index handle < m_table_size t
      then (t\<lparr>m_entry_infos := (m_entry_infos t)[pack_index handle := of_nat (pack_linear_id handle)],
              m_objects := (m_objects t)[pack_index handle := Some obj]\<rparr>,
            snd (Open obj k))
      else (t, k))"

end
