(* ===== verification/Handle_Table_Laws.thy ===== *)
theory Handle_Table_Laws
  imports KHandleTable
begin

text \<open>
  The handle table against its specification, a finite map from handles to objects: the free-list
  invariant, the effect of every operation on the map (\<open>GetObjectImpl\<close>), and reference counts.
\<close>

section \<open>Handles as words\<close>

lemma pack_EncodeHandle:
  assumes "i < 2 ^ 15" "l < 2 ^ 15"
  shows "pack_index (EncodeHandle i l) = i" "pack_linear_id (EncodeHandle i l) = l"
    "pack_reserved (EncodeHandle i l) = 0"
proof -
  have "take_bit 15 (EncodeHandle i l) = take_bit 15 (of_nat i)"
    by (rule bit_word_eqI) (auto simp: EncodeHandle_def bit_simps)
  moreover have "unat (take_bit 15 (of_nat i :: u32)) = i"
    using assms(1) by (simp add: unsigned_take_bit_eq unsigned_of_nat take_bit_nat_eq_self)
  ultimately show "pack_index (EncodeHandle i l) = i" by (simp add: pack_index_def)
  have "take_bit 15 (drop_bit 15 (EncodeHandle i l)) = take_bit 15 (of_nat l)"
    by (rule bit_word_eqI) (auto simp: EncodeHandle_def bit_simps)
  moreover have "unat (take_bit 15 (of_nat l :: u32)) = l"
    using assms(2) by (simp add: unsigned_take_bit_eq unsigned_of_nat take_bit_nat_eq_self)
  ultimately show "pack_linear_id (EncodeHandle i l) = l" by (simp add: pack_linear_id_def)
  have "drop_bit 30 (EncodeHandle i l) = 0"
    by (rule bit_word_eqI) (auto simp: EncodeHandle_def bit_simps)
  then show "pack_reserved (EncodeHandle i l) = 0" by (simp add: pack_reserved_def)
qed

lemma EncodeHandle_pack:
  assumes "pack_reserved h = 0"
  shows "EncodeHandle (pack_index h) (pack_linear_id h) = h"
proof -
  have z: "drop_bit 30 h = 0" using assms by (simp add: pack_reserved_def unat_eq_0)
  have hi: "\<not> bit h n" if "30 \<le> n" for n
  proof -
    have "\<not> bit (drop_bit 30 h) (n - 30)" by (simp add: z)
    with that show ?thesis by (simp add: bit_drop_bit_eq)
  qed
  show ?thesis
  proof (rule bit_word_eqI)
    fix n assume "n < LENGTH(32)"
    then show "bit (EncodeHandle (pack_index h) (pack_linear_id h)) n \<longleftrightarrow> bit h n"
      using hi [of n]
      by (cases "30 \<le> n") (auto simp: EncodeHandle_def pack_index_def pack_linear_id_def bit_simps)
  qed
qed

lemma pack_bounds: "pack_index h < 2 ^ 15" "pack_linear_id h < 2 ^ 15"
proof -
  have "unat (take_bit 15 w) < 2 ^ 15" for w :: u32
    using take_bit_nat_less_exp [of 15 "unat w"] by (simp add: unsigned_take_bit_eq)
  from this [of h] this [of "drop_bit 15 h"]
  show "pack_index h < 2 ^ 15" "pack_linear_id h < 2 ^ 15"
    by (simp_all only: pack_index_def pack_linear_id_def)
qed

lemma pseudo_reserved: "IsPseudoHandle h \<Longrightarrow> pack_reserved h \<noteq> 0"
  by (auto simp: IsPseudoHandle_def CurrentProcess_def CurrentThread_def pack_reserved_def)

section \<open>The free list\<close>

text \<open>\<open>linked infos head is\<close>: from \<open>head\<close> the entries chain through exactly the indices \<open>is\<close>.\<close>

fun linked :: "EntryInfo list \<Rightarrow> int \<Rightarrow> nat list \<Rightarrow> bool" where
  "linked infos head [] \<longleftrightarrow> head = - 1"
| "linked infos head (i # is) \<longleftrightarrow> head = int i \<and> i < length infos \<and>
     linked infos (GetNextFreeIndex (infos ! i)) is"

lemma linked_update: "i \<notin> set is \<Longrightarrow> linked (infos[i := w]) head is \<longleftrightarrow> linked infos head is"
  by (induction "is" arbitrary: head) auto

lemma GetNextFreeIndex_word:
  "- (2 ^ 15) \<le> x \<Longrightarrow> x < 2 ^ 15 \<Longrightarrow> GetNextFreeIndex (word_of_int x) = x"
  by (simp add: GetNextFreeIndex_def signed_of_int signed_take_bit_int_eq_self_iff)

lemma linked_head: "linked infos head is \<Longrightarrow> - 1 \<le> head \<and> head < int (length infos)"
  by (cases "is") auto

definition free_list :: "KHandleTable \<Rightarrow> nat list \<Rightarrow> bool" where
  "free_list t is \<longleftrightarrow> linked (m_entry_infos t) (m_free_head_index t) is \<and> distinct is \<and>
     (\<forall>i\<in>set is. i < m_table_size t \<and> m_objects t ! i = None)"

text \<open>
  The invariant: the arrays have their size, the free list holds the entries that are neither in
  use nor reserved, \<open>m_count\<close> counts the others, and the entries in use have a valid linear
  id.
\<close>

definition table_ok :: "KHandleTable \<Rightarrow> bool" where
  "table_ok t \<longleftrightarrow> length (m_entry_infos t) = MaxTableSize \<and> length (m_objects t) = MaxTableSize \<and>
     m_table_size t \<le> MaxTableSize \<and>
     MinLinearId \<le> m_next_linear_id t \<and> m_next_linear_id t \<le> MaxLinearId \<and>
     m_count t \<le> m_max_count t \<and> m_max_count t \<le> m_table_size t \<and>
     (\<exists>is. free_list t is \<and> m_count t + length is = m_table_size t) \<and>
     (\<forall>i<m_table_size t. m_objects t ! i \<noteq> None \<longrightarrow>
        MinLinearId \<le> GetLinearId (m_entry_infos t ! i) \<and>
        GetLinearId (m_entry_infos t ! i) \<le> MaxLinearId)"

lemmas linear_id_defs = MinLinearId_def MaxLinearId_def

lemma table_okE:
  assumes "table_ok t"
  obtains "is" where "length (m_entry_infos t) = MaxTableSize" "length (m_objects t) = MaxTableSize"
    "m_table_size t \<le> MaxTableSize" "free_list t is" "m_count t + length is = m_table_size t"
    "MinLinearId \<le> m_next_linear_id t" "m_next_linear_id t \<le> MaxLinearId"
  using assms by (auto simp: table_ok_def)

text \<open>What a handle denotes, with the bit fields unpacked.\<close>

lemma GetObjectImpl_iff:
  "GetObjectImpl t h = Some obj \<longleftrightarrow> pack_reserved h = 0 \<and> pack_linear_id h \<noteq> 0 \<and>
     pack_index h < m_table_size t \<and> m_objects t ! pack_index h = Some obj \<and>
     GetLinearId (m_entry_infos t ! pack_index h) = pack_linear_id h"
proof -
  have "pack_linear_id h \<noteq> 0 \<Longrightarrow> h \<noteq> 0" by (auto simp: pack_linear_id_def)
  then show ?thesis by (auto simp: GetObjectImpl_def IsValidHandle_def Let_def)
qed

lemma GetObjectImpl_None_iff:
  "GetObjectImpl t h = None \<longleftrightarrow> \<not> (pack_reserved h = 0 \<and> IsValidHandle t h)"
  by (auto simp: GetObjectImpl_def IsValidHandle_def Let_def)

text \<open>The set of handles in use, and how it changes when one entry is set or cleared.\<close>

lemma lookup_set_entry:
  assumes "i < m_table_size t" "i < length (m_objects t)" "i < length (m_entry_infos t)"
    and "i < 2 ^ 15" "0 < l" "l < 2 ^ 15" "m_objects t ! i = None"
  shows "GetObjectImpl (t\<lparr>m_entry_infos := (m_entry_infos t)[i := of_nat l],
      m_objects := (m_objects t)[i := Some obj]\<rparr>) =
    (GetObjectImpl t)(EncodeHandle i l \<mapsto> obj)"
proof
  fix h
  let ?t = "t\<lparr>m_entry_infos := (m_entry_infos t)[i := of_nat l],
      m_objects := (m_objects t)[i := Some obj]\<rparr>"
  have l: "GetLinearId (of_nat l) = l"
    using assms(6) by (simp add: GetLinearId_def unsigned_of_nat take_bit_nat_eq_self)
  have h: "h = EncodeHandle i l \<longleftrightarrow>
      pack_reserved h = 0 \<and> pack_index h = i \<and> pack_linear_id h = l"
    using pack_EncodeHandle [OF assms(4,6)] EncodeHandle_pack [of h] by auto
  have iff: "GetObjectImpl ?t h = Some x \<longleftrightarrow>
      (if h = EncodeHandle i l then x = obj else GetObjectImpl t h = Some x)" for x
  proof (cases "pack_index h = i")
    case True
    then show ?thesis
      unfolding GetObjectImpl_iff h using assms(1,2,3,5,7) l by auto
  next
    case False
    then show ?thesis unfolding GetObjectImpl_iff h by simp
  qed
  show "GetObjectImpl ?t h = ((GetObjectImpl t)(EncodeHandle i l \<mapsto> obj)) h"
  proof (rule option_eqI)
    fix x
    show "GetObjectImpl ?t h = Some x \<longleftrightarrow>
        ((GetObjectImpl t)(EncodeHandle i l \<mapsto> obj)) h = Some x"
      unfolding iff by auto
  qed
qed

lemma lookup_FreeEntry:
  assumes "i < length (m_objects t)"
  shows "GetObjectImpl (FreeEntry i t) h =
    (if pack_index h = i then None else GetObjectImpl t h)"
proof (rule option_eqI)
  fix x
  have same: "m_table_size (FreeEntry i t) = m_table_size t" by (simp add: FreeEntry_def)
  show "GetObjectImpl (FreeEntry i t) h = Some x \<longleftrightarrow>
      (if pack_index h = i then None else GetObjectImpl t h) = Some x"
  proof (cases "pack_index h = i")
    case True
    then show ?thesis using assms unfolding GetObjectImpl_iff by (simp add: FreeEntry_def)
  next
    case False
    then have "m_objects (FreeEntry i t) ! pack_index h = m_objects t ! pack_index h"
      "m_entry_infos (FreeEntry i t) ! pack_index h = m_entry_infos t ! pack_index h"
      by (simp_all add: FreeEntry_def)
    with False show ?thesis by (simp add: GetObjectImpl_iff same)
  qed
qed

lemma handles_of_entry_unique:
  assumes "GetObjectImpl t h = Some x" "GetObjectImpl t h' = Some y" "pack_index h = pack_index h'"
  shows "h = h'"
proof -
  have "pack_reserved h = 0" "pack_reserved h' = 0" "pack_linear_id h = pack_linear_id h'"
    using assms by (simp_all add: GetObjectImpl_iff)
  with assms(3) show ?thesis by (metis EncodeHandle_pack)
qed

section \<open>Entries\<close>

lemma AllocateLinearId_ok:
  assumes "table_ok t" "AllocateLinearId t = (l, t')"
  shows "table_ok t' \<and> MinLinearId \<le> l \<and> l \<le> MaxLinearId \<and> l = m_next_linear_id t \<and>
    t' = t\<lparr>m_next_linear_id := (if l = MaxLinearId then MinLinearId else l + 1)\<rparr>"
proof -
  from assms(1) have l: "MinLinearId \<le> m_next_linear_id t" "m_next_linear_id t \<le> MaxLinearId"
    by (auto simp: table_ok_def)
  then have "t' = t\<lparr>m_next_linear_id := (if l = MaxLinearId then MinLinearId else l + 1)\<rparr>"
    "l = m_next_linear_id t"
    using assms(2) by (auto simp: AllocateLinearId_def Let_def linear_id_defs)
  with l assms(1) show ?thesis
    by (auto simp: table_ok_def free_list_def linear_id_defs)
qed

text \<open>\<open>AllocateEntry\<close> takes the head of the free list; the entry is then reserved.\<close>

lemma AllocateEntry_spec:
  assumes "table_ok t" "m_count t < m_table_size t"
  shows "\<exists>i is t'. AllocateEntry t = Some (i, t') \<and> table_ok t' \<and> free_list t (i # is) \<and>
    free_list t' is \<and> i < m_table_size t \<and> i < MaxTableSize \<and> m_objects t ! i = None \<and>
    m_objects t' = m_objects t \<and> m_entry_infos t' = m_entry_infos t \<and>
    m_table_size t' = m_table_size t \<and> m_count t' = m_count t + 1 \<and>
    m_next_linear_id t' = m_next_linear_id t"
proof -
  obtain js where js: "free_list t js" "m_count t + length js = m_table_size t"
      "m_table_size t \<le> MaxTableSize"
    using assms(1) by (auto simp: table_ok_def)
  with assms(2) obtain i "is" where jeq: "js = i # is" by (cases js) auto
  define t' where "t' = t\<lparr>m_free_head_index := GetNextFreeIndex (m_entry_infos t ! i),
      m_count := m_count t + 1, m_max_count := max (m_max_count t) (m_count t + 1)\<rparr>"
  from js(1) have i: "m_free_head_index t = int i" "i < m_table_size t" "m_objects t ! i = None"
    unfolding jeq by (auto simp: free_list_def)
  have "(m_count t + 1) mod 2 ^ 16 = m_count t + 1"
    using assms(2) js(3) by (simp add: MaxTableSize_def)
  then have "AllocateEntry t = Some (i, t')"
    using i js(3) by (simp add: AllocateEntry_def t'_def Let_def)
  moreover have fl: "free_list t' is"
    using js(1) unfolding jeq by (auto simp: free_list_def t'_def)
  moreover have "table_ok t'"
    using assms fl js(2) jeq unfolding table_ok_def t'_def by auto
  ultimately show ?thesis
    using i js jeq by (auto simp: t'_def)
qed

lemma FreeEntry_frame [simp]:
  "m_table_size (FreeEntry i t) = m_table_size t"
  "m_next_linear_id (FreeEntry i t) = m_next_linear_id t"
  by (simp_all add: FreeEntry_def)

lemma FreeEntry_ok:
  assumes ok: "table_ok t" and i: "i < m_table_size t"
    and nf: "\<forall>is. free_list t is \<longrightarrow> i \<notin> set is"
  shows "table_ok (FreeEntry i t) \<and> m_count (FreeEntry i t) = m_count t - 1 \<and> 0 < m_count t"
proof -
  obtain js where js: "length (m_entry_infos t) = MaxTableSize"
      "length (m_objects t) = MaxTableSize" "m_table_size t \<le> MaxTableSize" "free_list t js"
      "m_count t + length js = m_table_size t"
    using table_okE [OF ok] by metis
  have ij: "i \<notin> set js" using nf js(4) by simp
  have "set js \<subseteq> {..<m_table_size t} - {i}" using js(4) ij by (auto simp: free_list_def)
  then have "card (set js) \<le> card ({..<m_table_size t} - {i})" by (intro card_mono) auto
  moreover have "card (set js) = length js" using js(4) by (simp add: free_list_def distinct_card)
  ultimately have len: "length js < m_table_size t" using i by simp
  then have c: "0 < m_count t" using js(5) by linarith
  have cnt: "(m_count t + 2 ^ 16 - 1) mod 2 ^ 16 = m_count t - 1"
  proof -
    have "m_count t + 2 ^ 16 - 1 = (m_count t - 1) + 2 ^ 16" using c by simp
    moreover have "m_count t - 1 < 2 ^ 16" using js(3,5) by (simp add: MaxTableSize_def)
    ultimately show ?thesis by (simp only: mod_add_self2 mod_less)
  qed
  have lk: "linked (m_entry_infos t) (m_free_head_index t) js" using js(4) by (simp add: free_list_def)
  from linked_head [OF lk] js(1)
  have "GetNextFreeIndex (word_of_int (m_free_head_index t)) = m_free_head_index t"
    by (intro GetNextFreeIndex_word) (auto simp: MaxTableSize_def)
  then have fl: "free_list (FreeEntry i t) (i # js)"
    using js i ij lk
    by (auto simp: free_list_def FreeEntry_def linked_update nth_list_update)
  have "table_ok (FreeEntry i t)"
  proof -
    have "m_count (FreeEntry i t) + length (i # js) = m_table_size (FreeEntry i t)"
      using c cnt js(5) by (simp add: FreeEntry_def)
    with fl have "\<exists>is. free_list (FreeEntry i t) is \<and>
        m_count (FreeEntry i t) + length is = m_table_size (FreeEntry i t)" by blast
    moreover have "MinLinearId \<le> GetLinearId (m_entry_infos (FreeEntry i t) ! n) \<and>
        GetLinearId (m_entry_infos (FreeEntry i t) ! n) \<le> MaxLinearId"
      if "n < m_table_size t" "m_objects (FreeEntry i t) ! n \<noteq> None" for n
    proof (cases "n = i")
      case True
      with that(2) i js(2,3) show ?thesis by (simp add: FreeEntry_def)
    next
      case False
      with that ok show ?thesis by (simp add: FreeEntry_def table_ok_def)
    qed
    ultimately show ?thesis
      using ok js(1-3) cnt c by (auto simp: table_ok_def FreeEntry_def)
  qed
  with c cnt show ?thesis by (simp add: FreeEntry_def)
qed

text \<open>Setting a reserved entry.\<close>

lemma set_entry_ok:
  assumes ok: "table_ok t" and i: "i < m_table_size t"
    and nf: "\<forall>is. free_list t is \<longrightarrow> i \<notin> set is" and l: "MinLinearId \<le> l" "l \<le> MaxLinearId"
  shows "table_ok (t\<lparr>m_entry_infos := (m_entry_infos t)[i := of_nat l],
    m_objects := (m_objects t)[i := Some obj]\<rparr>)"
proof -
  let ?t = "t\<lparr>m_entry_infos := (m_entry_infos t)[i := of_nat l],
    m_objects := (m_objects t)[i := Some obj]\<rparr>"
  obtain js where js: "length (m_entry_infos t) = MaxTableSize"
      "length (m_objects t) = MaxTableSize" "m_table_size t \<le> MaxTableSize" "free_list t js"
      "m_count t + length js = m_table_size t"
    using table_okE [OF ok] by metis
  have ij: "i \<notin> set js" using nf js(4) by simp
  have "free_list ?t js"
    using js(4) ij by (auto simp: free_list_def linked_update) (metis nth_list_update_neq)
  then have "\<exists>is. free_list ?t is \<and> m_count ?t + length is = m_table_size ?t"
    using js(5) by auto
  moreover have "MinLinearId \<le> GetLinearId (m_entry_infos ?t ! n) \<and>
      GetLinearId (m_entry_infos ?t ! n) \<le> MaxLinearId"
    if "n < m_table_size t" "m_objects ?t ! n \<noteq> None" for n
  proof (cases "n = i")
    case True
    with l i js(1,3) show ?thesis
      by (simp add: GetLinearId_def unsigned_of_nat take_bit_nat_eq_self linear_id_defs)
  next
    case False
    with that ok show ?thesis by (simp add: table_ok_def)
  qed
  ultimately show ?thesis
    using ok js(1-3) by (auto simp: table_ok_def)
qed

lemma free_list_unique:
  assumes "free_list t is" "free_list t js"
  shows "is = js"
proof -
  have "linked infos head is \<Longrightarrow> linked infos head js \<Longrightarrow> is = js" for infos head
    by (induction "is" arbitrary: head js) (case_tac js; auto)+
  with assms show ?thesis by (auto simp: free_list_def)
qed

section \<open>The interface\<close>

text \<open>
  What clients rely on: a partial map from handles to objects with insertion under a fresh handle
  and removal. The state carries whatever the operations thread through.
\<close>

locale handle_map =
  fixes ok :: "'s \<Rightarrow> bool" and lookup :: "'s \<Rightarrow> 'h \<Rightarrow> 'o option" and full :: "'s \<Rightarrow> bool"
    and add :: "'s \<Rightarrow> 'o \<Rightarrow> ('h \<times> 's) option" and remove :: "'s \<Rightarrow> 'h \<Rightarrow> bool \<times> 's"
  assumes add_full: "ok s \<Longrightarrow> add s obj = None \<longleftrightarrow> full s"
    and add_ok: "ok s \<Longrightarrow> add s obj = Some (h, s') \<Longrightarrow> ok s'"
    and add_fresh: "ok s \<Longrightarrow> add s obj = Some (h, s') \<Longrightarrow> lookup s h = None"
    and add_lookup: "ok s \<Longrightarrow> add s obj = Some (h, s') \<Longrightarrow> lookup s' = (lookup s)(h \<mapsto> obj)"
    and remove_ok: "ok s \<Longrightarrow> ok (snd (remove s h))"
    and remove_iff: "ok s \<Longrightarrow> fst (remove s h) \<longleftrightarrow> lookup s h \<noteq> None"
    and remove_lookup: "ok s \<Longrightarrow> lookup (snd (remove s h)) = (lookup s)(h := None)"
begin

lemma remove_add:
  assumes "ok s" "add s obj = Some (h, s')"
  shows "fst (remove s' h)" "lookup (snd (remove s' h)) = lookup s"
proof -
  note s' = add_ok [OF assms] add_lookup [OF assms] add_fresh [OF assms]
  then show "fst (remove s' h)" by (simp add: remove_iff)
  show "lookup (snd (remove s' h)) = lookup s"
    using s' by (auto simp: remove_lookup)
qed

text \<open>Handles given out one after the other are different.\<close>

fun adds :: "'s \<Rightarrow> 'o list \<Rightarrow> ('h list \<times> 's) option" where
  "adds s [] = Some ([], s)"
| "adds s (obj # objs) =
     (case add s obj of
        None \<Rightarrow> None
      | Some (h, s) \<Rightarrow> (case adds s objs of None \<Rightarrow> None | Some (hs, s) \<Rightarrow> Some (h # hs, s)))"

lemma adds_lookup:
  assumes "ok s" "adds s objs = Some (hs, s')"
  shows "ok s' \<and> distinct hs \<and> length hs = length objs \<and> (\<forall>h\<in>set hs. lookup s h = None) \<and>
    lookup s' = (lookup s)(hs [\<mapsto>] objs)"
  using assms
proof (induction objs arbitrary: s hs)
  case Nil
  then show ?case by simp
next
  case (Cons obj objs)
  then obtain h s1 hs1 where a: "add s obj = Some (h, s1)" "adds s1 objs = Some (hs1, s')"
      "hs = h # hs1"
    by (auto split: option.splits)
  note s1 = add_ok [OF Cons.prems(1) a(1)] add_lookup [OF Cons.prems(1) a(1)]
    add_fresh [OF Cons.prems(1) a(1)]
  note IH = Cons.IH [OF s1(1) a(2)]
  then have "\<forall>h'\<in>set hs1. h' \<noteq> h \<and> lookup s h' = None"
    unfolding s1(2) by (metis fun_upd_apply option.distinct(1))
  moreover have "lookup s' = (lookup s)(hs [\<mapsto>] obj # objs)"
    using IH by (simp only: s1(2) a(3) map_upds_Cons)
  ultimately show ?case using IH s1(3) a(3) by auto
qed

end

section \<open>Add and Remove\<close>

lemma in_use_not_free:
  "m_objects t ! i = Some x \<Longrightarrow> free_list t is \<Longrightarrow> i \<notin> set is"
  by (auto simp: free_list_def)

lemma table_Add_spec:
  assumes "table_ok t" "m_count t < m_table_size t"
  shows "\<exists>h t'. table_Add t k obj = Some (ResultSuccess, Some h, t', snd (Open obj k)) \<and>
    table_ok t' \<and> GetObjectImpl t h = None \<and> GetObjectImpl t' = (GetObjectImpl t)(h \<mapsto> obj) \<and>
    m_count t' = m_count t + 1 \<and> m_table_size t' = m_table_size t \<and>
    pack_linear_id h = m_next_linear_id t"
proof -
  obtain l t1 where al: "AllocateLinearId t = (l, t1)" by fastforce
  from AllocateLinearId_ok [OF assms(1) al]
  have t1: "table_ok t1" "MinLinearId \<le> l" "l \<le> MaxLinearId" "l = m_next_linear_id t"
    and t1_eq: "t1 = t\<lparr>m_next_linear_id := (if l = MaxLinearId then MinLinearId else l + 1)\<rparr>"
    by auto
  have eqs: "m_objects t1 = m_objects t" "m_entry_infos t1 = m_entry_infos t"
      "m_table_size t1 = m_table_size t" "m_count t1 = m_count t"
    by (simp_all add: t1_eq)
  then have "m_count t1 < m_table_size t1" using assms(2) by simp
  then obtain i "is" t2 where ae: "AllocateEntry t1 = Some (i, t2)" "table_ok t2"
      "free_list t2 is" "free_list t1 (i # is)" "i < m_table_size t1" "i < MaxTableSize"
      "m_objects t1 ! i = None" "m_objects t2 = m_objects t1" "m_entry_infos t2 = m_entry_infos t1"
      "m_table_size t2 = m_table_size t1" "m_count t2 = m_count t1 + 1"
    using AllocateEntry_spec [of t1] t1 by blast
  let ?t = "t2\<lparr>m_entry_infos := (m_entry_infos t2)[i := of_nat l],
    m_objects := (m_objects t2)[i := Some obj]\<rparr>"
  have nf: "\<forall>js. free_list t2 js \<longrightarrow> i \<notin> set js"
    using free_list_unique [OF ae(3)] ae(4) by (auto simp: free_list_def)
  have ok: "table_ok ?t" using set_entry_ok [OF ae(2) _ nf] t1 ae(5,10) by simp
  have same: "GetObjectImpl t2 = GetObjectImpl t"
    by (intro ext) (simp add: GetObjectImpl_def IsValidHandle_def ae(8-10) eqs)
  have b: "i < 2 ^ 15" "0 < l" "l < 2 ^ 15"
    using ae(6) t1 by (auto simp: MaxTableSize_def linear_id_defs)
  have len: "length (m_objects t2) = MaxTableSize" "length (m_entry_infos t2) = MaxTableSize"
    using ae(2) by (auto simp: table_ok_def)
  have lk: "GetObjectImpl ?t = (GetObjectImpl t)(EncodeHandle i l \<mapsto> obj)"
    unfolding same [symmetric] using ae b len by (intro lookup_set_entry) auto
  have "GetObjectImpl t2 (EncodeHandle i l) = None"
    using ae(7,8) pack_EncodeHandle [OF b(1,3)] by (auto simp: GetObjectImpl_def)
  moreover have "table_Add t k obj = Some (ResultSuccess, Some (EncodeHandle i l), ?t, snd (Open obj k))"
    using assms(2) al ae(1) by (simp add: table_Add_def)
  ultimately show ?thesis
    using ok lk t1(4) ae(10,11) eqs pack_EncodeHandle(2) [OF b(1,3)] unfolding same
    by (intro exI [of _ "EncodeHandle i l"] exI [of _ ?t]) simp
qed

lemma table_Remove_spec:
  assumes "table_ok t" "GetObjectImpl t h = Some obj"
  shows "\<exists>t'. table_Remove t k h = (True, t', Close obj (UnregisterInUseObject obj k)) \<and>
    table_ok t' \<and> GetObjectImpl t' = (GetObjectImpl t)(h := None) \<and> m_count t' = m_count t - 1 \<and>
    m_table_size t' = m_table_size t \<and> m_next_linear_id t' = m_next_linear_id t"
proof -
  let ?i = "pack_index h"
  from assms(2) have h: "pack_reserved h = 0" "?i < m_table_size t" "m_objects t ! ?i = Some obj"
    by (simp_all add: GetObjectImpl_iff)
  have v: "IsValidHandle t h" using assms(2) by (auto simp: GetObjectImpl_def split: if_splits)
  have np: "\<not> IsPseudoHandle h" using pseudo_reserved [of h] h(1) by auto
  have len: "?i < length (m_objects t)" using assms(1) h(2) by (auto simp: table_ok_def)
  have nf: "\<forall>is. free_list t is \<longrightarrow> ?i \<notin> set is" using in_use_not_free h(3) by metis
  have "GetObjectImpl (FreeEntry ?i t) = (GetObjectImpl t)(h := None)"
  proof
    fix h'
    have "GetObjectImpl t h' = None" if "pack_index h' = ?i" "h' \<noteq> h"
      using handles_of_entry_unique [OF _ assms(2) that(1)] that(2) by (cases "GetObjectImpl t h'") auto
    then show "GetObjectImpl (FreeEntry ?i t) h' = ((GetObjectImpl t)(h := None)) h'"
      by (auto simp: lookup_FreeEntry [OF len])
  qed
  with FreeEntry_ok [OF assms(1) h(2) nf] h v np show ?thesis
    by (simp add: table_Remove_def Let_def)
qed

lemma table_Remove_invalid:
  "GetObjectImpl t h = None \<Longrightarrow> table_Remove t k h = (False, t, k)"
  by (auto simp: GetObjectImpl_None_iff table_Remove_def)

text \<open>The table implements the interface.\<close>

definition add_handle :: "KHandleTable \<times> KernelCore \<Rightarrow> nat \<Rightarrow> (Handle \<times> KHandleTable \<times> KernelCore) option"
where
  "add_handle s obj =
     (case table_Add (fst s) (snd s) obj of
        Some (ResultSuccess, Some h, t, k) \<Rightarrow> Some (h, t, k)
      | _ \<Rightarrow> None)"

definition remove_handle :: "KHandleTable \<times> KernelCore \<Rightarrow> Handle \<Rightarrow> bool \<times> KHandleTable \<times> KernelCore"
where
  "remove_handle s h = table_Remove (fst s) (snd s) h"

lemma add_handle_cases:
  assumes "table_ok t" "add_handle (t, k) obj = Some (h, s')"
  obtains t' where "s' = (t', snd (Open obj k))" "table_ok t'" "GetObjectImpl t h = None"
    "GetObjectImpl t' = (GetObjectImpl t)(h \<mapsto> obj)"
proof (cases "m_count t < m_table_size t")
  case True
  with table_Add_spec [OF assms(1), of k obj] assms(2) that show ?thesis
    by (auto simp: add_handle_def)
next
  case False
  with assms(2) show ?thesis by (simp add: add_handle_def table_Add_def)
qed

interpretation handles: handle_map
  "\<lambda>s. table_ok (fst s)" "\<lambda>s. GetObjectImpl (fst s)"
  "\<lambda>s. \<not> m_count (fst s) < m_table_size (fst s)" add_handle remove_handle
proof unfold_locales
  fix s :: "KHandleTable \<times> KernelCore" and obj h s'
  obtain t k where s: "s = (t, k)" by fastforce
  assume ok: "table_ok (fst s)"
  then show "add_handle s obj = None \<longleftrightarrow> \<not> m_count (fst s) < m_table_size (fst s)"
    using table_Add_spec [of t k obj] by (auto simp: s add_handle_def table_Add_def)
  show "table_ok (fst (snd (remove_handle s h)))"
    "fst (remove_handle s h) \<longleftrightarrow> GetObjectImpl (fst s) h \<noteq> None"
    "GetObjectImpl (fst (snd (remove_handle s h))) = (GetObjectImpl (fst s))(h := None)"
    using ok table_Remove_spec [of t h _ k] table_Remove_invalid [of t h k]
    by (cases "GetObjectImpl t h"; fastforce simp: s remove_handle_def)+
  assume "add_handle s obj = Some (h, s')"
  with ok show "table_ok (fst s')" "GetObjectImpl (fst s) h = None"
    "GetObjectImpl (fst s') = (GetObjectImpl (fst s))(h \<mapsto> obj)"
    by (auto simp: s elim: add_handle_cases)
qed

text \<open>
  C10. \<open>Add\<close> on a well-formed table never indexes out of bounds. It fails exactly when the table is
  full, changing nothing; otherwise it returns a handle that denoted nothing before, the table
  is well formed, and what handles denote changes only in that the new one denotes the object,
  of which a reference was opened.
\<close>

theorem Add_refines:
  assumes "table_ok t"
  shows "if m_count t < m_table_size t
    then \<exists>h t'. table_Add t k obj = Some (ResultSuccess, Some h, t', snd (Open obj k)) \<and>
      table_ok t' \<and> GetObjectImpl t h = None \<and> GetObjectImpl t' = (GetObjectImpl t)(h \<mapsto> obj)
    else table_Add t k obj = Some (ResultOutOfHandles, None, t, k)"
proof (cases "m_count t < m_table_size t")
  case True
  with table_Add_spec [OF assms True, of k obj] show ?thesis by auto
next
  case False
  then show ?thesis by (simp add: table_Add_def)
qed

text \<open>A table of three entries for the concrete instances; object 7 is in use under entry 2.\<close>

definition sample_kernel :: KernelCore where
  "sample_kernel =
     \<lparr>kernel_objects = \<lambda>_. \<lparr>m_ref_count = 1, m_class_token = 3\<rparr>, registered_objects = {7},
      registered_in_use_objects = {7}, destroyed = []\<rparr>"

definition sample_table :: KHandleTable where
  "sample_table =
     \<lparr>m_entry_infos = [- 1, 0, 1] @ replicate 1021 0,
      m_objects = [None, None, Some 7] @ replicate 1021 None,
      m_free_head_index = 1, m_table_size = 3, m_max_count = 1, m_next_linear_id = 2,
      m_count = 1\<rparr>"

lemma sample_table_ok: "table_ok sample_table"
proof -
  have "free_list sample_table [1, 0]"
    by (simp add: free_list_def sample_table_def GetNextFreeIndex_def)
  then have "\<exists>is. free_list sample_table is \<and> m_count sample_table + length is = m_table_size sample_table"
    by (intro exI [of _ "[1, 0]"]) (simp add: sample_table_def)
  moreover have "\<forall>i<m_table_size sample_table. m_objects sample_table ! i \<noteq> None \<longrightarrow>
      MinLinearId \<le> GetLinearId (m_entry_infos sample_table ! i) \<and>
      GetLinearId (m_entry_infos sample_table ! i) \<le> MaxLinearId"
    by (simp add: sample_table_def linear_id_defs GetLinearId_def numeral_3_eq_3 All_less_Suc)
  ultimately show ?thesis
    by (simp add: table_ok_def) (simp add: sample_table_def MaxTableSize_def linear_id_defs)
qed

theorem Add_refines_witness:
  "\<exists>h t'. table_Add sample_table sample_kernel 9 =
      Some (ResultSuccess, Some h, t', snd (Open 9 sample_kernel)) \<and>
    table_ok t' \<and> GetObjectImpl sample_table h = None \<and>
    GetObjectImpl t' = (GetObjectImpl sample_table)(h \<mapsto> 9)"
  using Add_refines [OF sample_table_ok, of sample_kernel 9] by (simp add: sample_table_def)

text \<open>
  C11. \<open>Remove\<close> succeeds exactly for handles that denote an object, pseudo-handles excluded. Then
  the handle denotes nothing, every other handle denotes what it did, the object has been taken
  off the in-use registry and one reference to it closed; otherwise nothing changes. The table
  stays well formed.
\<close>

theorem Remove_refines:
  assumes "table_ok t" "table_Remove t k h = (success, t', k')"
  shows "(success \<longleftrightarrow> GetObjectImpl t h \<noteq> None) \<and> table_ok t' \<and>
    GetObjectImpl t' = (GetObjectImpl t)(h := None) \<and>
    (case GetObjectImpl t h of
       None \<Rightarrow> t' = t \<and> k' = k
     | Some obj \<Rightarrow> m_count t' = m_count t - 1 \<and> k' = Close obj (UnregisterInUseObject obj k))"
proof (cases "GetObjectImpl t h")
  case None
  with table_Remove_invalid [OF None, of k] assms show ?thesis by auto
next
  case (Some obj)
  with table_Remove_spec [OF assms(1) Some, of k] assms(2) show ?thesis by auto
qed

theorem Remove_refines_witness:
  "fst (table_Remove sample_table sample_kernel 0x8002) \<and>
   GetObjectImpl (fst (snd (table_Remove sample_table sample_kernel 0x8002))) 0x8002 = None"
proof -
  have "GetObjectImpl sample_table 0x8002 = Some 7"
    by (simp add: GetObjectImpl_iff pack_reserved_def pack_linear_id_def pack_index_def
        sample_table_def GetLinearId_def)
  moreover obtain success t' k' where
    "table_Remove sample_table sample_kernel 0x8002 = (success, t', k')"
    by (cases "table_Remove sample_table sample_kernel 0x8002") auto
  ultimately show ?thesis using Remove_refines [OF sample_table_ok] by fastforce
qed

text \<open>
  Handles that \<open>Add\<close> gives out one after the other are pairwise different, were unused before,
  and in the end each denotes the object it was given out for.
\<close>

theorem Add_sequence_distinct:
  assumes "table_ok t" "handles.adds (t, k) objs = Some (hs, t', k')"
  shows "table_ok t' \<and> distinct hs \<and> length hs = length objs \<and>
    (\<forall>h\<in>set hs. GetObjectImpl t h = None) \<and> GetObjectImpl t' = (GetObjectImpl t)(hs [\<mapsto>] objs)"
  using handles.adds_lookup [of "(t, k)" objs hs "(t', k')"] assms by simp

theorem Add_sequence_distinct_witness:
  "\<exists>hs t' k'. handles.adds (sample_table, sample_kernel) [8, 9] = Some (hs, t', k') \<and>
    distinct hs \<and> length hs = 2"
proof -
  obtain h1 t1 where 1: "table_Add sample_table sample_kernel 8 =
      Some (ResultSuccess, Some h1, t1, snd (Open 8 sample_kernel))" "table_ok t1"
      "m_count t1 = 2" "m_table_size t1 = 3"
    using table_Add_spec [OF sample_table_ok, of sample_kernel 8] by (auto simp: sample_table_def)
  obtain h2 t2 where 2: "table_Add t1 (snd (Open 8 sample_kernel)) 9 =
      Some (ResultSuccess, Some h2, t2, snd (Open 9 (snd (Open 8 sample_kernel))))"
    using table_Add_spec [OF 1(2), of "snd (Open 8 sample_kernel)" 9] 1(3,4) by auto
  have "handles.adds (sample_table, sample_kernel) [8, 9] =
      Some ([h1, h2], t2, snd (Open 9 (snd (Open 8 sample_kernel))))"
    using 1(1) 2 by (simp add: add_handle_def)
  with Add_sequence_distinct [OF sample_table_ok this] show ?thesis by auto
qed

section \<open>Initialisation\<close>

lemma init_entries_spec:
  assumes "length (m_entry_infos t) = MaxTableSize" "length (m_objects t) = MaxTableSize"
    and "i + n \<le> MaxTableSize" "m_free_head_index t = int i - 1"
    and "linked (m_entry_infos t) (m_free_head_index t) (rev [0..<i])"
    and "\<forall>j<i. m_objects t ! j = None"
  shows "let t' = init_entries n i t in
    length (m_entry_infos t') = MaxTableSize \<and> length (m_objects t') = MaxTableSize \<and>
    linked (m_entry_infos t') (m_free_head_index t') (rev [0..<i + n]) \<and>
    (\<forall>j<i + n. m_objects t' ! j = None) \<and> m_table_size t' = m_table_size t \<and>
    m_max_count t' = m_max_count t \<and> m_next_linear_id t' = m_next_linear_id t \<and>
    m_count t' = m_count t"
  using assms
proof (induction n arbitrary: i t)
  case 0
  then show ?case by (simp add: Let_def)
next
  case (Suc n)
  let ?t = "t\<lparr>m_objects := (m_objects t)[i := None],
      m_entry_infos := (m_entry_infos t)[i := word_of_int (int i - 1)],
      m_free_head_index := int i\<rparr>"
  have i: "i < MaxTableSize" using Suc.prems(3) by simp
  have "GetNextFreeIndex (word_of_int (int i - 1)) = int i - 1"
    using i by (intro GetNextFreeIndex_word) (auto simp: MaxTableSize_def)
  then have "linked (m_entry_infos ?t) (m_free_head_index ?t) (rev [0..<Suc i])"
    using Suc.prems(1,4,5) i by (simp add: linked_update)
  moreover have "\<forall>j<Suc i. m_objects ?t ! j = None"
    using Suc.prems(2,6) i by (auto simp: less_Suc_eq)
  ultimately show ?case
    using Suc.IH [of ?t "Suc i"] Suc.prems(1-3) by (simp add: Let_def)
qed

text \<open>
  \<open>Initialize\<close> refuses sizes beyond the arrays; otherwise it establishes the invariant with no
  handle in use and the whole table free, and a size of zero or less means the maximum.
\<close>

theorem table_Initialize_establishes:
  assumes "length (m_entry_infos t) = MaxTableSize" "length (m_objects t) = MaxTableSize"
  shows "if sz \<le> int MaxTableSize
    then \<exists>t'. table_Initialize sz t = (ResultSuccess, t') \<and> table_ok t' \<and> m_count t' = 0 \<and>
      m_table_size t' = (if sz \<le> 0 then MaxTableSize else nat sz) \<and>
      GetObjectImpl t' = (\<lambda>_. None)
    else table_Initialize sz t = (ResultOutOfMemory, t)"
proof (cases "sz \<le> int MaxTableSize")
  case True
  define n where "n = (if sz \<le> 0 then MaxTableSize else nat sz)"
  define t0 where "t0 = t\<lparr>m_max_count := 0, m_table_size := n, m_next_linear_id := MinLinearId,
      m_count := 0, m_free_head_index := - 1\<rparr>"
  define t' where "t' = init_entries n 0 t0"
  have n: "n \<le> MaxTableSize" using True by (auto simp: n_def)
  have t': "length (m_entry_infos t') = MaxTableSize" "length (m_objects t') = MaxTableSize"
      "linked (m_entry_infos t') (m_free_head_index t') (rev [0..<n])"
      "\<forall>j<n. m_objects t' ! j = None" "m_table_size t' = n" "m_max_count t' = 0"
      "m_next_linear_id t' = MinLinearId" "m_count t' = 0"
    using init_entries_spec [of t0 0 n] assms n by (simp_all add: t0_def t'_def Let_def)
  then have "free_list t' (rev [0..<n])" by (simp add: free_list_def)
  then have "\<exists>is. free_list t' is \<and> m_count t' + length is = m_table_size t'"
    using t' by (intro exI [of _ "rev [0..<n]"]) simp
  then have "table_ok t'" using t' n by (simp add: table_ok_def linear_id_defs)
  moreover have "GetObjectImpl t' = (\<lambda>_. None)"
    using t'(4,5) by (intro ext) (simp add: GetObjectImpl_def IsValidHandle_def Let_def)
  moreover have "table_Initialize sz t = (ResultSuccess, t')"
    using True by (simp add: table_Initialize_def t'_def t0_def n_def Let_def)
  ultimately show ?thesis using True t' by (simp add: n_def)
next
  case False
  then show ?thesis by (simp add: table_Initialize_def)
qed

theorem table_Initialize_establishes_witness:
  "\<exists>t'. table_Initialize 0 new_KHandleTable = (ResultSuccess, t') \<and> table_ok t' \<and>
    m_table_size t' = 1024 \<and> GetObjectImpl t' = (\<lambda>_. None)"
  using table_Initialize_establishes [of new_KHandleTable 0]
  by (auto simp: new_KHandleTable_def MaxTableSize_def)

section \<open>Reserved handles\<close>

definition reserved_handle :: "KHandleTable \<Rightarrow> Handle \<Rightarrow> bool" where
  "reserved_handle t h \<longleftrightarrow> pack_reserved h = 0 \<and> pack_linear_id h \<noteq> 0 \<and>
     pack_index h < m_table_size t \<and> m_objects t ! pack_index h = None \<and>
     (\<forall>is. free_list t is \<longrightarrow> pack_index h \<notin> set is)"

lemma table_Reserve_spec:
  assumes "table_ok t" "m_count t < m_table_size t"
  shows "\<exists>h t' n c. table_Reserve t = Some (ResultSuccess, Some h, t') \<and> table_ok t' \<and>
    reserved_handle t' h \<and> GetObjectImpl t' = GetObjectImpl t \<and>
    table_Unreserve t' h = t\<lparr>m_next_linear_id := n, m_max_count := c\<rparr>"
proof -
  obtain i "is" t1 where ae: "AllocateEntry t = Some (i, t1)" "table_ok t1" "free_list t1 is"
      "free_list t (i # is)" "i < m_table_size t" "i < MaxTableSize" "m_objects t ! i = None"
      "m_objects t1 = m_objects t" "m_entry_infos t1 = m_entry_infos t"
      "m_table_size t1 = m_table_size t" "m_count t1 = m_count t + 1"
    using AllocateEntry_spec [OF assms] by blast
  obtain l t2 where al: "AllocateLinearId t1 = (l, t2)" by fastforce
  define n where "n = (if l = MaxLinearId then MinLinearId else l + 1)"
  from AllocateLinearId_ok [OF ae(2) al]
  have t2: "table_ok t2" "MinLinearId \<le> l" "l \<le> MaxLinearId" "t2 = t1\<lparr>m_next_linear_id := n\<rparr>"
    by (auto simp: n_def)
  have b: "i < 2 ^ 15" "l < 2 ^ 15" "0 < l"
    using ae(6) t2 by (auto simp: MaxTableSize_def linear_id_defs)
  note pk = pack_EncodeHandle [OF b(1,2)]
  have fl: "free_list t2 is" using ae(3) by (simp add: t2(4) free_list_def)
  have "reserved_handle t2 (EncodeHandle i l)"
    using free_list_unique [OF fl] ae(4,5,7,8,10) b(3)
    by (auto simp: reserved_handle_def pk t2(4) free_list_def)
  moreover have "GetObjectImpl t2 = GetObjectImpl t"
    by (intro ext) (simp add: GetObjectImpl_def IsValidHandle_def t2(4) ae(8-10))
  moreover have "table_Reserve t = Some (ResultSuccess, Some (EncodeHandle i l), t2)"
    using assms(2) ae(1) al by (simp add: table_Reserve_def)
  moreover have "table_Unreserve t2 (EncodeHandle i l) =
      t\<lparr>m_next_linear_id := n, m_max_count := m_max_count t1\<rparr>"
  proof -
    have len: "i < length (m_objects t)" "i < length (m_entry_infos t)"
      using assms(1) ae(6) by (auto simp: table_ok_def)
    have lt: "m_count t < 2 ^ 16" using assms by (auto simp: table_ok_def MaxTableSize_def)
    have head: "m_free_head_index t = int i" using ae(4) by (simp add: free_list_def)
    have t1: "t1 = t\<lparr>m_free_head_index := GetNextFreeIndex (m_entry_infos t ! i),
        m_count := m_count t + 1, m_max_count := m_max_count t1\<rparr>"
      using ae(1,11) head by (auto simp: AllocateEntry_def Let_def split: if_splits)
    have "word_of_int (GetNextFreeIndex (m_entry_infos t ! i)) = m_entry_infos t ! i"
      by (simp add: GetNextFreeIndex_def)
    then have "FreeEntry i t2 = t\<lparr>m_next_linear_id := n, m_max_count := m_max_count t1\<rparr>"
      using ae(7) len lt head unfolding t2(4) by (subst t1) (simp add: FreeEntry_def list_update_same_conv)
    then show ?thesis using pk(1) ae(5,10) by (simp add: table_Unreserve_def t2(4))
  qed
  ultimately show ?thesis using t2(1) by blast
qed

lemma table_Register_spec:
  assumes "table_ok t" "reserved_handle t h"
  shows "\<exists>t'. table_Register t k h obj = (t', snd (Open obj k)) \<and> table_ok t' \<and>
    GetObjectImpl t' = (GetObjectImpl t)(h \<mapsto> obj)"
proof -
  let ?i = "pack_index h" and ?l = "pack_linear_id h"
  from assms(2) have h: "pack_reserved h = 0" "?l \<noteq> 0" "?i < m_table_size t" "m_objects t ! ?i = None"
      "\<forall>is. free_list t is \<longrightarrow> ?i \<notin> set is"
    by (auto simp: reserved_handle_def)
  have l: "MinLinearId \<le> ?l" "?l \<le> MaxLinearId" using h(2) pack_bounds(2) [of h]
    by (auto simp: linear_id_defs)
  have len: "?i < length (m_objects t)" "?i < length (m_entry_infos t)"
    using assms(1) h(3) by (auto simp: table_ok_def)
  have pos: "0 < ?l" using h(2) by simp
  note set_entry_ok [OF assms(1) h(3,5) l, of obj]
  moreover note lookup_set_entry [OF h(3) len pack_bounds(1) pos pack_bounds(2) h(4), of obj]
  ultimately show ?thesis
    using h(1,3) EncodeHandle_pack [OF h(1)] by (simp add: table_Register_def)
qed

text \<open>
  Reserving a handle. \<open>Reserve\<close> gives out a handle that denotes nothing and changes what no
  handle denotes; registering an object under it gives the table \<open>Add\<close> would have given as far
  as handles go; and \<open>Unreserve\<close> restores the table, the free list included, except for the
  next linear id and the high-water mark.
\<close>

theorem Reserve_then_Register_or_Unreserve:
  assumes "table_ok t" "m_count t < m_table_size t"
  shows "\<exists>h t1. table_Reserve t = Some (ResultSuccess, Some h, t1) \<and> table_ok t1 \<and>
    GetObjectImpl t1 = GetObjectImpl t \<and> GetObjectImpl t h = None \<and>
    (\<exists>t2. table_Register t1 k h obj = (t2, snd (Open obj k)) \<and> table_ok t2 \<and>
       GetObjectImpl t2 = (GetObjectImpl t)(h \<mapsto> obj)) \<and>
    (\<exists>n c. table_Unreserve t1 h = t\<lparr>m_next_linear_id := n, m_max_count := c\<rparr>)"
proof -
  obtain h t1 where r: "table_Reserve t = Some (ResultSuccess, Some h, t1)" "table_ok t1"
      "reserved_handle t1 h" "GetObjectImpl t1 = GetObjectImpl t"
      "\<exists>n c. table_Unreserve t1 h = t\<lparr>m_next_linear_id := n, m_max_count := c\<rparr>"
    using table_Reserve_spec [OF assms] by blast
  have "GetObjectImpl t1 h = None"
    using r(3) by (auto simp: reserved_handle_def GetObjectImpl_def)
  with r table_Register_spec [OF r(2,3), of k obj] show ?thesis by (auto simp: r(4))
qed

theorem Reserve_then_Register_or_Unreserve_witness:
  "\<exists>h t1 t2. table_Reserve sample_table = Some (ResultSuccess, Some h, t1) \<and>
    table_Register t1 sample_kernel h 9 = (t2, snd (Open 9 sample_kernel)) \<and>
    GetObjectImpl t2 h = Some 9"
  using Reserve_then_Register_or_Unreserve [OF sample_table_ok, of sample_kernel 9]
  by (fastforce simp: sample_table_def)

section \<open>Opening several handles\<close>

definition openable :: "u16 \<Rightarrow> KHandleTable \<Rightarrow> KernelCore \<Rightarrow> Handle \<Rightarrow> bool" where
  "openable T t k h \<longleftrightarrow> (\<exists>obj. GetObjectImpl t h = Some obj \<and> DynamicCast k T obj = Some obj)"

abbreviation handle_objects :: "KHandleTable \<Rightarrow> Handle list \<Rightarrow> nat list" where
  "handle_objects t hs \<equiv> map (\<lambda>h. the (GetObjectImpl t h)) hs"

lemma open_handles_bump:
  assumes "\<forall>h obj. GetObjectImpl t h = Some obj \<longrightarrow>
      0 < ref_count k obj \<and> ref_count k obj + f obj + length hs < 2 ^ 32"
  shows "open_handles T t hs (bump f k) =
    (let objs = handle_objects t (takeWhile (openable T t k) hs)
     in (objs, bump (\<lambda>obj. f obj + count_list objs obj) k))"
  using assms
proof (induction hs arbitrary: f)
  case Nil
  then show ?case by simp
next
  case (Cons h hs)
  show ?case
  proof (cases "openable T t k h")
    case True
    then obtain obj where o: "GetObjectImpl t h = Some obj" "DynamicCast k T obj = Some obj"
      by (auto simp: openable_def)
    define g where "g = f(obj := f obj + 1)"
    let ?objs = "handle_objects t (takeWhile (openable T t k) hs)"
    have op: "Open obj (bump f k) = (True, bump g k)"
      unfolding g_def using Cons.prems o(1) by (intro Open_bump) (auto dest: add_lessD1)
    have "\<forall>h x. GetObjectImpl t h = Some x \<longrightarrow>
        0 < ref_count k x \<and> ref_count k x + g x + length hs < 2 ^ 32"
    proof (intro allI impI)
      fix h x assume "GetObjectImpl t h = Some x"
      then have "0 < ref_count k x \<and> ref_count k x + f x + length (h # hs) < 2 ^ 32"
        using Cons.prems by simp
      then show "0 < ref_count k x \<and> ref_count k x + g x + length hs < 2 ^ 32"
        by (auto simp: g_def)
    qed
    from Cons.IH [OF this] have run: "open_handles T t hs (bump g k) =
        (?objs, bump (\<lambda>x. g x + count_list ?objs x) k)"
      by (simp only: Let_def)
    have cnt: "(\<lambda>x. g x + count_list ?objs x) = (\<lambda>x. f x + count_list (obj # ?objs) x)"
      by (auto simp: g_def)
    show ?thesis
      using o True op run by (simp add: Let_def cnt)
  next
    case False
    then show ?thesis
      by (auto simp: openable_def Let_def split: option.splits dest: DynamicCast_Some)
  qed
qed

text \<open>
  C27. \<open>GetMultipleObjects\<close> is all or nothing: if every handle denotes an object of the wanted type
  it returns those objects in order with one more reference each per occurrence; if any does
  not, it fails and the kernel state, every reference count included, is the one before.
\<close>

theorem GetMultipleObjects_atomic:
  assumes "\<forall>h obj. GetObjectImpl t h = Some obj \<longrightarrow>
    0 < ref_count k obj \<and> ref_count k obj + length hs < 2 ^ 32"
  shows "GetMultipleObjects T t hs k =
    (if \<forall>h\<in>set hs. openable T t k h
     then (Some (handle_objects t hs), bump (count_list (handle_objects t hs)) k)
     else (None, k))"
proof -
  let ?ok = "openable T t k"
  let ?objs = "handle_objects t (takeWhile ?ok hs)"
  have run: "open_handles T t hs k = (?objs, bump (count_list ?objs) k)"
    using open_handles_bump [of t k "\<lambda>_. 0" hs T] assms by (simp add: Let_def)
  show ?thesis
  proof (cases "\<forall>h\<in>set hs. ?ok h")
    case True
    then have "takeWhile ?ok hs = hs" by (simp add: takeWhile_eq_all_conv)
    with True run show ?thesis by (simp add: GetMultipleObjects_def)
  next
    case False
    then have "takeWhile ?ok hs \<noteq> hs" by (simp add: takeWhile_eq_all_conv)
    moreover have "length (takeWhile ?ok hs) \<le> length hs" by (rule length_takeWhile_le)
    moreover have "takeWhile ?ok hs = hs" if "length (takeWhile ?ok hs) = length hs"
      using that takeWhile_eq_take [of ?ok hs] by simp
    ultimately have lt: "length (takeWhile ?ok hs) \<noteq> length hs" by blast
    have "\<forall>obj\<in>set ?objs. 0 < ref_count k obj"
      using assms by (auto simp: openable_def dest!: set_takeWhileD)
    from fold_Close_bump [OF this, of "\<lambda>_. 0"] lt False run show ?thesis
      by (auto simp: GetMultipleObjects_def)
  qed
qed

theorem GetMultipleObjects_atomic_witness:
  "GetMultipleObjects 1 sample_table [0x8002, 0x8001] sample_kernel = (None, sample_kernel)"
proof -
  have "\<forall>h obj. GetObjectImpl sample_table h = Some obj \<longrightarrow> 0 < ref_count sample_kernel obj \<and>
      ref_count sample_kernel obj + length [0x8002, 0x8001 :: Handle] < 2 ^ 32"
    by (simp add: ref_count_def sample_kernel_def)
  moreover have "\<not> openable 1 sample_table sample_kernel 0x8001"
    by (simp add: openable_def GetObjectImpl_iff pack_index_def sample_table_def)
  ultimately show ?thesis using GetMultipleObjects_atomic [of sample_table sample_kernel] by auto
qed

section \<open>Finalisation\<close>

lemma ref_count_finalize_entries:
  "ref_count (finalize_entries es k) obj = ref_count k obj - count_list es (Some obj)"
proof (induction es arbitrary: k)
  case Nil
  then show ?case by simp
next
  case (Cons e es)
  then show ?case by (cases e) (auto simp: ref_count_Close)
qed

lemma count_list_indices: "count_list xs x = card {i. i < length xs \<and> xs ! i = x}"
proof -
  have "{i. i < length xs \<and> xs ! i = x} = {i. i < length xs \<and> x = xs ! i}" by auto
  then show ?thesis
    using length_filter_conv_card [of "(=) x" xs] by (simp add: count_list_eq_length_filter)
qed

lemma entries_of_object:
  assumes "table_ok t"
  shows "count_list (take (m_table_size t) (m_objects t)) (Some obj) =
    card {h. GetObjectImpl t h = Some obj}"
proof -
  let ?I = "{i. i < m_table_size t \<and> m_objects t ! i = Some obj}"
  have len: "length (m_objects t) = MaxTableSize" "m_table_size t \<le> MaxTableSize"
    using assms by (auto simp: table_ok_def)
  have "bij_betw pack_index {h. GetObjectImpl t h = Some obj} ?I"
  proof (rule bij_betw_imageI)
    show "inj_on pack_index {h. GetObjectImpl t h = Some obj}"
      using handles_of_entry_unique by (auto intro!: inj_onI)
    show "pack_index ` {h. GetObjectImpl t h = Some obj} = ?I"
    proof (intro equalityI subsetI)
      fix i assume "i \<in> ?I"
      then have i: "i < m_table_size t" "m_objects t ! i = Some obj" by auto
      let ?l = "GetLinearId (m_entry_infos t ! i)"
      have b: "i < 2 ^ 15" "?l < 2 ^ 15" "?l \<noteq> 0"
        using assms i len by (auto simp: table_ok_def MaxTableSize_def linear_id_defs)
      have "GetObjectImpl t (EncodeHandle i ?l) = Some obj"
        using pack_EncodeHandle [OF b(1,2)] i b(3) by (simp add: GetObjectImpl_iff)
      with pack_EncodeHandle(1) [OF b(1,2)] show "i \<in> pack_index ` {h. GetObjectImpl t h = Some obj}"
        by force
    qed (auto simp: GetObjectImpl_iff)
  qed
  then have "card {h. GetObjectImpl t h = Some obj} = card ?I" by (rule bij_betw_same_card)
  moreover have "?I = {i. i < length (take (m_table_size t) (m_objects t)) \<and>
      take (m_table_size t) (m_objects t) ! i = Some obj}"
    using len by auto
  ultimately show ?thesis by (simp add: count_list_indices)
qed

text \<open>
  \<open>Finalize\<close> drops exactly the references the table holds: every object loses one reference for
  each handle that denoted it, and no handle denotes anything afterwards.
\<close>

theorem Finalize_releases:
  assumes "table_ok t" "table_Finalize t k = (t', k')"
  shows "GetObjectImpl t' = (\<lambda>_. None) \<and>
    (\<forall>obj. ref_count k' obj = ref_count k obj - card {h. GetObjectImpl t h = Some obj})"
proof -
  have "GetObjectImpl t' = (\<lambda>_. None)"
    using assms(2) by (auto simp: table_Finalize_def GetObjectImpl_def IsValidHandle_def fun_eq_iff Let_def)
  with assms(2) entries_of_object [OF assms(1)] show ?thesis
    by (auto simp: table_Finalize_def ref_count_finalize_entries)
qed

theorem Finalize_releases_witness:
  "GetObjectImpl (fst (table_Finalize sample_table sample_kernel)) = (\<lambda>_. None)"
  using Finalize_releases [OF sample_table_ok surjective_pairing] by blast

section \<open>Stale handles\<close>

text \<open>Sequences of operations on a table; an operation that fails leaves the state alone.\<close>

datatype table_op = OpAdd nat | OpRemove Handle | OpReserve

fun table_step :: "KHandleTable \<times> KernelCore \<Rightarrow> table_op \<Rightarrow> KHandleTable \<times> KernelCore" where
  "table_step (t, k) (OpAdd obj) =
     (case table_Add t k obj of Some (_, _, t, k) \<Rightarrow> (t, k) | None \<Rightarrow> (t, k))"
| "table_step (t, k) (OpRemove h) = snd (table_Remove t k h)"
| "table_step (t, k) OpReserve =
     (case table_Reserve t of Some (_, _, t) \<Rightarrow> (t, k) | None \<Rightarrow> (t, k))"

fun allocates :: "table_op \<Rightarrow> bool" where
  "allocates (OpRemove h) = False"
| "allocates (OpAdd obj) = True"
| "allocates OpReserve = True"

text \<open>How many linear ids are given out before \<open>l\<close> is, when \<open>n\<close> is next.\<close>

definition ids_before :: "nat \<Rightarrow> nat \<Rightarrow> nat" where
  "ids_before l n = (if n \<le> l then l - n else l + MaxLinearId - n)"

lemma ids_before_step:
  assumes "MinLinearId \<le> n" "n \<le> MaxLinearId" "l \<noteq> n" "l \<noteq> 0" "l \<le> MaxLinearId"
  shows "Suc (ids_before l (if n = MaxLinearId then MinLinearId else n + 1)) = ids_before l n"
  using assms by (auto simp: ids_before_def linear_id_defs)

lemma next_linear_id_Add:
  assumes "table_ok t" "m_count t < m_table_size t" "table_Add t k obj = Some (r, h, t', k')"
  shows "m_next_linear_id t' =
    (if m_next_linear_id t = MaxLinearId then MinLinearId else m_next_linear_id t + 1)"
proof -
  obtain l t1 where al: "AllocateLinearId t = (l, t1)" by fastforce
  have "m_next_linear_id t' = m_next_linear_id t1"
    using assms(2,3) al
    by (auto simp: table_Add_def AllocateEntry_def Let_def split: option.splits if_splits)
  with AllocateLinearId_ok [OF assms(1) al] show ?thesis by auto
qed

lemma next_linear_id_Reserve:
  assumes "table_ok t" "m_count t < m_table_size t" "table_Reserve t = Some (r, h, t')"
  shows "m_next_linear_id t' =
    (if m_next_linear_id t = MaxLinearId then MinLinearId else m_next_linear_id t + 1)"
proof -
  obtain i t1 where a: "AllocateEntry t = Some (i, t1)" "table_ok t1"
      "m_next_linear_id t1 = m_next_linear_id t"
    using AllocateEntry_spec [OF assms(1,2)] by blast
  obtain l t2 where al: "AllocateLinearId t1 = (l, t2)" by fastforce
  have "t' = t2" using assms(2,3) a(1) al by (simp add: table_Reserve_def)
  with AllocateLinearId_ok [OF a(2) al] a(3) show ?thesis by auto
qed

lemma stale_step:
  assumes ok: "table_ok t" and h: "GetObjectImpl t h = None" "pack_linear_id h \<noteq> 0"
    and d: "allocates op \<Longrightarrow> 0 < ids_before (pack_linear_id h) (m_next_linear_id t)"
    and st: "table_step (t, k) op = (t', k')"
  shows "table_ok t' \<and> GetObjectImpl t' h = None \<and>
    ids_before (pack_linear_id h) (m_next_linear_id t) \<le>
      ids_before (pack_linear_id h) (m_next_linear_id t') + (if allocates op then 1 else 0)"
proof -
  let ?l = "pack_linear_id h" and ?n = "m_next_linear_id t"
  have n: "MinLinearId \<le> ?n" "?n \<le> MaxLinearId" using ok by (auto simp: table_ok_def)
  have l: "?l \<le> MaxLinearId" using pack_bounds(2) [of h] by (simp add: linear_id_defs)
  have step: "Suc (ids_before ?l (if ?n = MaxLinearId then MinLinearId else ?n + 1)) =
      ids_before ?l ?n" if "?l \<noteq> ?n"
    by (rule ids_before_step [OF n that h(2) l])
  have ne: "?l \<noteq> ?n" if "allocates op" using d [OF that] by (auto simp: ids_before_def)
  show ?thesis
  proof (cases op)
    case (OpAdd obj)
    show ?thesis
    proof (cases "m_count t < m_table_size t")
      case True
      from table_Add_spec [OF ok True, of k obj] obtain h' t2 where
        a: "table_Add t k obj = Some (ResultSuccess, Some h', t2, snd (Open obj k))" "table_ok t2"
          "GetObjectImpl t2 = (GetObjectImpl t)(h' \<mapsto> obj)" "pack_linear_id h' = ?n"
        by blast
      from ne OpAdd a(4) have "h \<noteq> h'" by auto
      with a h st step ne OpAdd next_linear_id_Add [OF ok True a(1)] show ?thesis by auto
    next
      case False
      with st OpAdd ok h show ?thesis by (simp add: table_Add_def)
    qed
  next
    case (OpRemove h')
    then show ?thesis
      using st ok h table_Remove_spec [OF ok, of h' _ k] table_Remove_invalid [of t h' k]
      by (cases "GetObjectImpl t h'") auto
  next
    case OpReserve
    show ?thesis
    proof (cases "m_count t < m_table_size t")
      case True
      from table_Reserve_spec [OF ok True] obtain h' t2 where
        a: "table_Reserve t = Some (ResultSuccess, Some h', t2)" "table_ok t2"
          "GetObjectImpl t2 = GetObjectImpl t"
        by blast
      with h st step ne OpReserve next_linear_id_Reserve [OF ok True a(1)] show ?thesis by auto
    next
      case False
      with st OpReserve ok h show ?thesis by (simp add: table_Reserve_def)
    qed
  qed
qed

text \<open>
  C26. A handle that denotes nothing, for instance because it was removed, stays invalid through any
  sequence of additions, removals and reservations until its linear id comes up again: for a
  handle whose id was just given out that takes 32766 further allocations, whatever entries are
  reused in between.
\<close>

theorem stale_handle_invalid:
  assumes "table_ok t" "GetObjectImpl t h = None" "pack_linear_id h \<noteq> 0"
    and "length (filter allocates ops) \<le> ids_before (pack_linear_id h) (m_next_linear_id t)"
  shows "GetObjectImpl (fst (foldl table_step (t, k) ops)) h = None"
  using assms
proof (induction ops arbitrary: t k)
  case Nil
  then show ?case by simp
next
  case (Cons op ops)
  obtain t' k' where st: "table_step (t, k) op = (t', k')" by fastforce
  from stale_step [OF Cons.prems(1-3) _ st] Cons.prems(4)
  have "table_ok t' \<and> GetObjectImpl t' h = None \<and>
      length (filter allocates ops) \<le> ids_before (pack_linear_id h) (m_next_linear_id t')"
    by (auto split: if_splits)
  with Cons.IH [of t' k'] Cons.prems(3) st show ?case by simp
qed

theorem stale_handle_invalid_witness:
  "GetObjectImpl (fst (foldl table_step (sample_table, sample_kernel)
     [OpAdd 8, OpReserve, OpAdd 9])) 0x8001 = None"
  by (rule stale_handle_invalid [OF sample_table_ok])
    (simp_all add: GetObjectImpl_def IsValidHandle_def pack_index_def pack_linear_id_def
      pack_reserved_def sample_table_def ids_before_def MaxLinearId_def)

end
