(* ===== verification/Cheat_Types.thy ===== *)
theory Cheat_Types
  imports Nx_Prelude
begin

text \<open>
  The data of the cheat virtual machine: \<^verbatim>\<open>src/src/core/memory/dmnt_cheat_types.h\<close> and the
  types of \<^verbatim>\<open>src/src/core/memory/dmnt_cheat_vm.h\<close>. An enumeration that the source
  makes from an unchecked bit field has a constructor for the values without a name. The
  structures of the \<open>std::variant\<close> of instructions are the constructors of \<open>opcode\<close>, with
  the fields in the order of the source.
\<close>

section \<open>Cheats and the process they run against\<close>

record MemoryRegionExtents =
  ext_base :: u64
  ext_size :: u64

record CheatProcessMetadata =
  process_id :: u64
  title_id :: u64
  main_nso_extents :: MemoryRegionExtents
  heap_extents :: MemoryRegionExtents
  alias_extents :: MemoryRegionExtents
  aslr_extents :: MemoryRegionExtents

definition ReadableNameSize :: nat where
  "ReadableNameSize = 0x40"

definition MaxDefinitionOpcodes :: nat where
  "MaxDefinitionOpcodes = 0x100"

record CheatDefinition =
  readable_name :: "char list"
  def_num_opcodes :: nat
  def_opcodes :: "u32 list"

record CheatEntry =
  enabled :: bool
  cheat_id :: nat
  cheat_definition :: CheatDefinition

definition new_CheatEntry :: CheatEntry where
  "new_CheatEntry =
     \<lparr>enabled = False, cheat_id = 0,
      cheat_definition = \<lparr>readable_name = replicate ReadableNameSize CHR 0x00,
        def_num_opcodes = 0, def_opcodes = replicate MaxDefinitionOpcodes 0\<rparr>\<rparr>"

section \<open>Enumerations\<close>

datatype CheatVmOpcodeType = StoreStatic | BeginConditionalBlock | EndConditionalBlock
  | ControlLoop | LoadRegisterStatic | LoadRegisterMemory | StoreStaticToAddress
  | PerformArithmeticStatic | BeginKeypressConditionalBlock | PerformArithmeticRegister
  | StoreRegisterToAddress | Reserved11 | ExtendedWidth | BeginRegisterConditionalBlock
  | SaveRestoreRegister | SaveRestoreRegisterMask | ReadWriteStaticRegister
  | DoubleExtendedWidth | PauseProcess | ResumeProcess | DebugLog | OpcodeType_Other nat

definition opcode_type_of :: "nat \<Rightarrow> CheatVmOpcodeType" where
  "opcode_type_of n =
     (if n = 0 then StoreStatic
      else if n = 1 then BeginConditionalBlock
      else if n = 2 then EndConditionalBlock
      else if n = 3 then ControlLoop
      else if n = 4 then LoadRegisterStatic
      else if n = 5 then LoadRegisterMemory
      else if n = 6 then StoreStaticToAddress
      else if n = 7 then PerformArithmeticStatic
      else if n = 8 then BeginKeypressConditionalBlock
      else if n = 9 then PerformArithmeticRegister
      else if n = 10 then StoreRegisterToAddress
      else if n = 11 then Reserved11
      else if n = 12 then ExtendedWidth
      else if n = 0xC0 then BeginRegisterConditionalBlock
      else if n = 0xC1 then SaveRestoreRegister
      else if n = 0xC2 then SaveRestoreRegisterMask
      else if n = 0xC3 then ReadWriteStaticRegister
      else if n = 0xF0 then DoubleExtendedWidth
      else if n = 0xFF0 then PauseProcess
      else if n = 0xFF1 then ResumeProcess
      else if n = 0xFFF then DebugLog
      else OpcodeType_Other n)"

datatype MemoryAccessType = MainNso | Heap | Alias | Aslr | MemoryAccessType_Other nat

definition MemoryAccessType_of :: "nat \<Rightarrow> MemoryAccessType" where
  "MemoryAccessType_of n =
     (if n = 0 then MainNso else if n = 1 then Heap else if n = 2 then Alias
      else if n = 3 then Aslr else MemoryAccessType_Other n)"

datatype ConditionalComparisonType = GT | GE | LT | LE | EQ | NE
  | ConditionalComparisonType_Other nat

definition ConditionalComparisonType_of :: "nat \<Rightarrow> ConditionalComparisonType" where
  "ConditionalComparisonType_of n =
     (if n = 1 then GT else if n = 2 then GE else if n = 3 then LT else if n = 4 then LE
      else if n = 5 then EQ else if n = 6 then NE else ConditionalComparisonType_Other n)"

datatype RegisterArithmeticType = Addition | Subtraction | Multiplication | LeftShift
  | RightShift | LogicalAnd | LogicalOr | LogicalNot | LogicalXor | ArithNone
  | RegisterArithmeticType_Other nat

definition RegisterArithmeticType_of :: "nat \<Rightarrow> RegisterArithmeticType" where
  "RegisterArithmeticType_of n =
     (if n = 0 then Addition else if n = 1 then Subtraction else if n = 2 then Multiplication
      else if n = 3 then LeftShift else if n = 4 then RightShift else if n = 5 then LogicalAnd
      else if n = 6 then LogicalOr else if n = 7 then LogicalNot else if n = 8 then LogicalXor
      else if n = 9 then ArithNone else RegisterArithmeticType_Other n)"

datatype StoreRegisterOffsetType = OffsetNone | OffsetReg | OffsetImm | OffsetMemReg
  | OffsetMemImm | OffsetMemImmReg | StoreRegisterOffsetType_Other nat

definition StoreRegisterOffsetType_of :: "nat \<Rightarrow> StoreRegisterOffsetType" where
  "StoreRegisterOffsetType_of n =
     (if n = 0 then OffsetNone else if n = 1 then OffsetReg else if n = 2 then OffsetImm
      else if n = 3 then OffsetMemReg else if n = 4 then OffsetMemImm
      else if n = 5 then OffsetMemImmReg else StoreRegisterOffsetType_Other n)"

datatype CompareRegisterValueType = CompMemoryRelAddr | CompMemoryOfsReg
  | CompRegisterRelAddr | CompRegisterOfsReg | CompStaticValue | CompOtherRegister
  | CompareRegisterValueType_Other nat

definition CompareRegisterValueType_of :: "nat \<Rightarrow> CompareRegisterValueType" where
  "CompareRegisterValueType_of n =
     (if n = 0 then CompMemoryRelAddr else if n = 1 then CompMemoryOfsReg
      else if n = 2 then CompRegisterRelAddr else if n = 3 then CompRegisterOfsReg
      else if n = 4 then CompStaticValue else if n = 5 then CompOtherRegister
      else CompareRegisterValueType_Other n)"

datatype SaveRestoreRegisterOpType = Restore | Save | ClearSaved | ClearRegs
  | SaveRestoreRegisterOpType_Other nat

definition SaveRestoreRegisterOpType_of :: "nat \<Rightarrow> SaveRestoreRegisterOpType" where
  "SaveRestoreRegisterOpType_of n =
     (if n = 0 then Restore else if n = 1 then Save else if n = 2 then ClearSaved
      else if n = 3 then ClearRegs else SaveRestoreRegisterOpType_Other n)"

datatype DebugLogValueType = LogMemoryRelAddr | LogMemoryOfsReg | LogRegisterRelAddr
  | LogRegisterOfsReg | LogRegisterValue | DebugLogValueType_Other nat

definition DebugLogValueType_of :: "nat \<Rightarrow> DebugLogValueType" where
  "DebugLogValueType_of n =
     (if n = 0 then LogMemoryRelAddr else if n = 1 then LogMemoryOfsReg
      else if n = 2 then LogRegisterRelAddr else if n = 3 then LogRegisterOfsReg
      else if n = 4 then LogRegisterValue else DebugLogValueType_Other n)"

section \<open>Instructions\<close>

text \<open>The union \<open>VmInt\<close> is its 64-bit member; the others are its low bits.\<close>

type_synonym VmInt = u64

datatype opcode =
    \<comment> \<open>bit_width, mem_type, offset_register, rel_address, value\<close>
    StoreStaticOpcode nat MemoryAccessType nat u64 VmInt
    \<comment> \<open>bit_width, mem_type, cond_type, rel_address, value\<close>
  | BeginConditionalOpcode nat MemoryAccessType ConditionalComparisonType u64 VmInt
    \<comment> \<open>is_else\<close>
  | EndConditionalOpcode bool
    \<comment> \<open>start_loop, reg_index, num_iters\<close>
  | ControlLoopOpcode bool nat u32
    \<comment> \<open>reg_index, value\<close>
  | LoadRegisterStaticOpcode nat u64
    \<comment> \<open>bit_width, mem_type, reg_index, load_from_reg, rel_address\<close>
  | LoadRegisterMemoryOpcode nat MemoryAccessType nat bool u64
    \<comment> \<open>bit_width, reg_index, increment_reg, add_offset_reg, offset_reg_index, value\<close>
  | StoreStaticToAddressOpcode nat nat bool bool nat u64
    \<comment> \<open>bit_width, reg_index, math_type, value\<close>
  | PerformArithmeticStaticOpcode nat nat RegisterArithmeticType u32
    \<comment> \<open>key_mask\<close>
  | BeginKeypressConditionalOpcode u32
    \<comment> \<open>bit_width, math_type, dst_reg_index, src_reg_1_index, src_reg_2_index, has_immediate,
        value\<close>
  | PerformArithmeticRegisterOpcode nat RegisterArithmeticType nat nat nat bool VmInt
    \<comment> \<open>bit_width, str_reg_index, addr_reg_index, increment_reg, ofs_type, mem_type,
        ofs_reg_index, rel_address\<close>
  | StoreRegisterToAddressOpcode nat nat nat bool StoreRegisterOffsetType MemoryAccessType nat u64
    \<comment> \<open>bit_width, cond_type, val_reg_index, comp_type, mem_type, addr_reg_index,
        other_reg_index, ofs_reg_index, rel_address, value\<close>
  | BeginRegisterConditionalOpcode nat ConditionalComparisonType nat CompareRegisterValueType
      MemoryAccessType nat nat nat u64 VmInt
    \<comment> \<open>dst_index, src_index, op_type\<close>
  | SaveRestoreRegisterOpcode nat nat SaveRestoreRegisterOpType
    \<comment> \<open>op_type, should_operate\<close>
  | SaveRestoreRegisterMaskOpcode SaveRestoreRegisterOpType "bool list"
    \<comment> \<open>static_idx, idx\<close>
  | ReadWriteStaticRegisterOpcode nat nat
  | PauseProcessOpcode
  | ResumeProcessOpcode
    \<comment> \<open>bit_width, log_id, val_type, mem_type, addr_reg_index, val_reg_index, ofs_reg_index,
        rel_address\<close>
  | DebugLogOpcode nat nat DebugLogValueType MemoryAccessType nat nat nat u64
  | UnrecognizedInstruction CheatVmOpcodeType

record CheatVmOpcode =
  begin_conditional_block :: bool
  the_opcode :: opcode

section \<open>The machine\<close>

definition MaximumProgramOpcodeCount :: nat where
  "MaximumProgramOpcodeCount = 0x400"

definition NumRegisters :: nat where
  "NumRegisters = 0x10"

definition NumReadableStaticRegisters :: nat where
  "NumReadableStaticRegisters = 0x80"

definition NumWritableStaticRegisters :: nat where
  "NumWritableStaticRegisters = 0x80"

definition NumStaticRegisters :: nat where
  "NumStaticRegisters = NumReadableStaticRegisters + NumWritableStaticRegisters"

record DmntCheatVm =
  num_opcodes :: nat
  instruction_ptr :: nat
  condition_depth :: nat
  decode_success :: bool
  program :: "u32 list"
  registers :: "u64 list"
  saved_values :: "u64 list"
  static_registers :: "u64 list"
  loop_tops :: "nat list"

definition new_DmntCheatVm :: DmntCheatVm where
  "new_DmntCheatVm =
     \<lparr>num_opcodes = 0, instruction_ptr = 0, condition_depth = 0, decode_success = False,
      program = replicate MaximumProgramOpcodeCount 0, registers = replicate NumRegisters 0,
      saved_values = replicate NumRegisters 0, static_registers = replicate NumStaticRegisters 0,
      loop_tops = replicate NumRegisters 0\<rparr>"

text \<open>
  The callback interface \<open>DmntCheatVm::Callbacks\<close> over a world of type \<open>'w\<close>. A read returns the
  bytes it stores through its pointer as the low bytes of a word; \<open>CommandLog\<close> only takes
  diagnostic text and is left out.
\<close>

record 'w Callbacks =
  cb_MemoryReadUnsafe :: "'w \<Rightarrow> u64 \<Rightarrow> nat \<Rightarrow> u64"
  cb_MemoryWriteUnsafe :: "'w \<Rightarrow> u64 \<Rightarrow> u64 \<Rightarrow> nat \<Rightarrow> 'w"
  cb_HidKeysDown :: "'w \<Rightarrow> u64 \<times> 'w"
  cb_PauseProcess :: "'w \<Rightarrow> 'w"
  cb_ResumeProcess :: "'w \<Rightarrow> 'w"
  cb_DebugLog :: "'w \<Rightarrow> u8 \<Rightarrow> u64 \<Rightarrow> 'w"

end
