(* ===== verification/Cheat_Decode.thy ===== *)
theory Cheat_Decode
  imports Cheat_Types
begin

text \<open>
  Instruction decoding of the cheat virtual machine: \<open>DecodeNextOpcode\<close> of
  \<^verbatim>\<open>src/src/core/memory/dmnt_cheat_vm.cpp\<close>, one definition for each case of its switch,
  and \<open>LoadProgram\<close>. While an instruction is decoded the machine's \<open>instruction_ptr\<close> and the
  local \<open>valid\<close> form a cursor. Where the source combines two calls of \<open>GetNextDword\<close> in one
  expression, in an order the language does not fix, the left one is taken first.
\<close>

section \<open>Reading words\<close>

type_synonym cursor = "nat \<times> bool"

definition nybble :: "u32 \<Rightarrow> nat \<Rightarrow> nat" where
  "nybble w n = unat (drop_bit n w AND 0xF)"

definition GetNextDword :: "DmntCheatVm \<Rightarrow> cursor \<Rightarrow> u32 \<times> cursor" where
  "GetNextDword vm c =
     (if num_opcodes vm \<le> fst c then (0, (fst c, False))
      else (program vm ! fst c, (fst c + 1, snd c)))"

definition join_dwords :: "u32 \<Rightarrow> u32 \<Rightarrow> u64" where
  "join_dwords hi lo = push_bit 32 (ucast hi) OR ucast lo"

definition GetNextVmInt :: "DmntCheatVm \<Rightarrow> nat \<Rightarrow> cursor \<Rightarrow> VmInt \<times> cursor" where
  "GetNextVmInt vm bit_width c =
     (let (first_dword, c) = GetNextDword vm c in
      if bit_width = 1 then (ucast (ucast first_dword :: u8), c)
      else if bit_width = 2 then (ucast (ucast first_dword :: u16), c)
      else if bit_width = 4 then (ucast first_dword, c)
      else if bit_width = 8
      then (let (second_dword, c) = GetNextDword vm c in (join_dwords first_dword second_dword, c))
      else (0, c))"

definition GetNextQword :: "DmntCheatVm \<Rightarrow> cursor \<Rightarrow> u64 \<times> cursor" where
  "GetNextQword vm c =
     (let (first_dword, c) = GetNextDword vm c;
          (second_dword, c) = GetNextDword vm c
      in (join_dwords first_dword second_dword, c))"

text \<open>The relative address of several encodings: some low bits of the first word, then a word.\<close>

definition GetRelAddress :: "DmntCheatVm \<Rightarrow> u32 \<Rightarrow> cursor \<Rightarrow> u64 \<times> cursor" where
  "GetRelAddress vm high c =
     (let (second_dword, c) = GetNextDword vm c in (join_dwords high second_dword, c))"

section \<open>The cases\<close>

definition decode_opcode_type :: "u32 \<Rightarrow> nat" where
  "decode_opcode_type first_dword =
     (let t = nybble first_dword 28;
          t = (if 12 \<le> t then t * 16 + nybble first_dword 24 else t);
          t = (if 0xF0 \<le> t then t * 16 + nybble first_dword 20 else t)
      in t)"

definition decode_StoreStatic :: "DmntCheatVm \<Rightarrow> u32 \<Rightarrow> cursor \<Rightarrow> opcode \<times> cursor" where
  "decode_StoreStatic vm first_dword c =
     (let (rel_address, c) = GetRelAddress vm (first_dword AND 0xFF) c;
          bit_width = nybble first_dword 24;
          (value, c) = GetNextVmInt vm bit_width c
      in (StoreStaticOpcode bit_width (MemoryAccessType_of (nybble first_dword 20))
            (nybble first_dword 16) rel_address value, c))"

definition decode_BeginConditional :: "DmntCheatVm \<Rightarrow> u32 \<Rightarrow> cursor \<Rightarrow> opcode \<times> cursor" where
  "decode_BeginConditional vm first_dword c =
     (let (rel_address, c) = GetRelAddress vm (first_dword AND 0xFF) c;
          bit_width = nybble first_dword 24;
          (value, c) = GetNextVmInt vm bit_width c
      in (BeginConditionalOpcode bit_width (MemoryAccessType_of (nybble first_dword 20))
            (ConditionalComparisonType_of (nybble first_dword 16)) rel_address value, c))"

definition decode_EndConditional :: "u32 \<Rightarrow> opcode" where
  "decode_EndConditional first_dword = EndConditionalOpcode (nybble first_dword 24 = 1)"

definition decode_ControlLoop :: "DmntCheatVm \<Rightarrow> u32 \<Rightarrow> cursor \<Rightarrow> opcode \<times> cursor" where
  "decode_ControlLoop vm first_dword c =
     (let start_loop = (nybble first_dword 24 = 0);
          reg_index = nybble first_dword 20
      in if start_loop
         then (let (num_iters, c) = GetNextDword vm c
               in (ControlLoopOpcode start_loop reg_index num_iters, c))
         else (ControlLoopOpcode start_loop reg_index 0, c))"

definition decode_LoadRegisterStatic :: "DmntCheatVm \<Rightarrow> u32 \<Rightarrow> cursor \<Rightarrow> opcode \<times> cursor" where
  "decode_LoadRegisterStatic vm first_dword c =
     (let (value, c) = GetNextQword vm c
      in (LoadRegisterStaticOpcode (nybble first_dword 16) value, c))"

definition decode_LoadRegisterMemory :: "DmntCheatVm \<Rightarrow> u32 \<Rightarrow> cursor \<Rightarrow> opcode \<times> cursor" where
  "decode_LoadRegisterMemory vm first_dword c =
     (let (rel_address, c) = GetRelAddress vm (first_dword AND 0xFF) c
      in (LoadRegisterMemoryOpcode (nybble first_dword 24)
            (MemoryAccessType_of (nybble first_dword 20)) (nybble first_dword 16)
            (nybble first_dword 12 \<noteq> 0) rel_address, c))"

definition decode_StoreStaticToAddress :: "DmntCheatVm \<Rightarrow> u32 \<Rightarrow> cursor \<Rightarrow> opcode \<times> cursor" where
  "decode_StoreStaticToAddress vm first_dword c =
     (let (value, c) = GetNextQword vm c
      in (StoreStaticToAddressOpcode (nybble first_dword 24) (nybble first_dword 16)
            (nybble first_dword 12 \<noteq> 0) (nybble first_dword 8 \<noteq> 0) (nybble first_dword 4)
            value, c))"

definition decode_PerformArithmeticStatic :: "DmntCheatVm \<Rightarrow> u32 \<Rightarrow> cursor \<Rightarrow> opcode \<times> cursor" where
  "decode_PerformArithmeticStatic vm first_dword c =
     (let (value, c) = GetNextDword vm c
      in (PerformArithmeticStaticOpcode (nybble first_dword 24) (nybble first_dword 16)
            (RegisterArithmeticType_of (nybble first_dword 12)) value, c))"

definition decode_BeginKeypressConditional :: "u32 \<Rightarrow> opcode" where
  "decode_BeginKeypressConditional first_dword =
     BeginKeypressConditionalOpcode (first_dword AND 0x0FFFFFFF)"

definition decode_PerformArithmeticRegister :: "DmntCheatVm \<Rightarrow> u32 \<Rightarrow> cursor \<Rightarrow> opcode \<times> cursor" where
  "decode_PerformArithmeticRegister vm first_dword c =
     (let bit_width = nybble first_dword 24;
          math_type = RegisterArithmeticType_of (nybble first_dword 20);
          dst_reg_index = nybble first_dword 16;
          src_reg_1_index = nybble first_dword 12
      in if nybble first_dword 8 \<noteq> 0
         then (let (value, c) = GetNextVmInt vm bit_width c
               in (PerformArithmeticRegisterOpcode bit_width math_type dst_reg_index
                     src_reg_1_index 0 True value, c))
         else (PerformArithmeticRegisterOpcode bit_width math_type dst_reg_index
                 src_reg_1_index (nybble first_dword 4) False 0, c))"

definition decode_StoreRegisterToAddress :: "DmntCheatVm \<Rightarrow> u32 \<Rightarrow> cursor \<Rightarrow> opcode \<times> cursor" where
  "decode_StoreRegisterToAddress vm first_dword c =
     (let make = StoreRegisterToAddressOpcode (nybble first_dword 24) (nybble first_dword 20)
            (nybble first_dword 16) (nybble first_dword 12 \<noteq> 0);
          ofs_type = StoreRegisterOffsetType_of (nybble first_dword 8);
          ofs_reg_index = nybble first_dword 4;
          mem_type = MemoryAccessType_of (nybble first_dword 4)
      in case ofs_type of
           OffsetNone \<Rightarrow> (make ofs_type MainNso ofs_reg_index 0, c)
         | OffsetReg \<Rightarrow> (make ofs_type MainNso ofs_reg_index 0, c)
         | OffsetImm \<Rightarrow>
             (let (rel_address, c) = GetRelAddress vm (first_dword AND 0xF) c
              in (make ofs_type MainNso ofs_reg_index rel_address, c))
         | OffsetMemReg \<Rightarrow> (make ofs_type mem_type ofs_reg_index 0, c)
         | OffsetMemImm \<Rightarrow>
             (let (rel_address, c) = GetRelAddress vm (first_dword AND 0xF) c
              in (make ofs_type mem_type ofs_reg_index rel_address, c))
         | OffsetMemImmReg \<Rightarrow>
             (let (rel_address, c) = GetRelAddress vm (first_dword AND 0xF) c
              in (make ofs_type mem_type ofs_reg_index rel_address, c))
         | StoreRegisterOffsetType_Other _ \<Rightarrow> (make OffsetNone MainNso ofs_reg_index 0, c))"

definition decode_BeginRegisterConditional :: "DmntCheatVm \<Rightarrow> u32 \<Rightarrow> cursor \<Rightarrow> opcode \<times> cursor" where
  "decode_BeginRegisterConditional vm first_dword c =
     (let bit_width = nybble first_dword 20;
          comp_type = CompareRegisterValueType_of (nybble first_dword 8);
          make = BeginRegisterConditionalOpcode bit_width
            (ConditionalComparisonType_of (nybble first_dword 16)) (nybble first_dword 12)
            comp_type;
          mem_type = MemoryAccessType_of (nybble first_dword 4);
          reg_4 = nybble first_dword 4;
          reg_0 = nybble first_dword 0
      in case comp_type of
           CompStaticValue \<Rightarrow>
             (let (value, c) = GetNextVmInt vm bit_width c in (make MainNso 0 0 0 0 value, c))
         | CompOtherRegister \<Rightarrow> (make MainNso 0 reg_4 0 0 0, c)
         | CompMemoryRelAddr \<Rightarrow>
             (let (rel_address, c) = GetRelAddress vm (first_dword AND 0xF) c
              in (make mem_type 0 0 0 rel_address 0, c))
         | CompMemoryOfsReg \<Rightarrow> (make mem_type 0 0 reg_0 0 0, c)
         | CompRegisterRelAddr \<Rightarrow>
             (let (rel_address, c) = GetRelAddress vm (first_dword AND 0xF) c
              in (make MainNso reg_4 0 0 rel_address 0, c))
         | CompRegisterOfsReg \<Rightarrow> (make MainNso reg_4 0 reg_0 0 0, c)
         | CompareRegisterValueType_Other _ \<Rightarrow> (make MainNso 0 0 0 0 0, c))"

definition decode_SaveRestoreRegister :: "u32 \<Rightarrow> opcode" where
  "decode_SaveRestoreRegister first_dword =
     SaveRestoreRegisterOpcode (nybble first_dword 16) (nybble first_dword 8)
       (SaveRestoreRegisterOpType_of (nybble first_dword 4))"

definition decode_SaveRestoreRegisterMask :: "u32 \<Rightarrow> opcode" where
  "decode_SaveRestoreRegisterMask first_dword =
     SaveRestoreRegisterMaskOpcode (SaveRestoreRegisterOpType_of (nybble first_dword 20))
       (map (\<lambda>i. first_dword AND push_bit i 1 \<noteq> 0) [0..<NumRegisters])"

definition decode_ReadWriteStaticRegister :: "u32 \<Rightarrow> opcode" where
  "decode_ReadWriteStaticRegister first_dword =
     ReadWriteStaticRegisterOpcode (unat (drop_bit 4 first_dword AND 0xFF)) (nybble first_dword 0)"

definition decode_DebugLog :: "DmntCheatVm \<Rightarrow> u32 \<Rightarrow> cursor \<Rightarrow> opcode \<times> cursor" where
  "decode_DebugLog vm first_dword c =
     (let val_type = DebugLogValueType_of (nybble first_dword 8);
          make = DebugLogOpcode (nybble first_dword 16) (nybble first_dword 12) val_type;
          mem_type = MemoryAccessType_of (nybble first_dword 4);
          reg_4 = nybble first_dword 4;
          reg_0 = nybble first_dword 0
      in case val_type of
           LogRegisterValue \<Rightarrow> (make MainNso 0 reg_4 0 0, c)
         | LogMemoryRelAddr \<Rightarrow>
             (let (rel_address, c) = GetRelAddress vm (first_dword AND 0xF) c
              in (make mem_type 0 0 0 rel_address, c))
         | LogMemoryOfsReg \<Rightarrow> (make mem_type 0 0 reg_0 0, c)
         | LogRegisterRelAddr \<Rightarrow>
             (let (rel_address, c) = GetRelAddress vm (first_dword AND 0xF) c
              in (make MainNso reg_4 0 0 rel_address, c))
         | LogRegisterOfsReg \<Rightarrow> (make MainNso reg_4 0 reg_0 0, c)
         | DebugLogValueType_Other _ \<Rightarrow> (make MainNso 0 0 0 0, c))"

definition begins_conditional_block :: "CheatVmOpcodeType \<Rightarrow> bool" where
  "begins_conditional_block t \<longleftrightarrow>
     t = BeginConditionalBlock \<or> t = BeginKeypressConditionalBlock \<or>
     t = BeginRegisterConditionalBlock"

definition decode_opcode :: "DmntCheatVm \<Rightarrow> CheatVmOpcodeType \<Rightarrow> u32 \<Rightarrow> cursor \<Rightarrow> opcode \<times> cursor" where
  "decode_opcode vm opcode_type first_dword c =
     (case opcode_type of
        StoreStatic \<Rightarrow> decode_StoreStatic vm first_dword c
      | BeginConditionalBlock \<Rightarrow> decode_BeginConditional vm first_dword c
      | EndConditionalBlock \<Rightarrow> (decode_EndConditional first_dword, c)
      | ControlLoop \<Rightarrow> decode_ControlLoop vm first_dword c
      | LoadRegisterStatic \<Rightarrow> decode_LoadRegisterStatic vm first_dword c
      | LoadRegisterMemory \<Rightarrow> decode_LoadRegisterMemory vm first_dword c
      | StoreStaticToAddress \<Rightarrow> decode_StoreStaticToAddress vm first_dword c
      | PerformArithmeticStatic \<Rightarrow> decode_PerformArithmeticStatic vm first_dword c
      | BeginKeypressConditionalBlock \<Rightarrow> (decode_BeginKeypressConditional first_dword, c)
      | PerformArithmeticRegister \<Rightarrow> decode_PerformArithmeticRegister vm first_dword c
      | StoreRegisterToAddress \<Rightarrow> decode_StoreRegisterToAddress vm first_dword c
      | BeginRegisterConditionalBlock \<Rightarrow> decode_BeginRegisterConditional vm first_dword c
      | SaveRestoreRegister \<Rightarrow> (decode_SaveRestoreRegister first_dword, c)
      | SaveRestoreRegisterMask \<Rightarrow> (decode_SaveRestoreRegisterMask first_dword, c)
      | ReadWriteStaticRegister \<Rightarrow> (decode_ReadWriteStaticRegister first_dword, c)
      | PauseProcess \<Rightarrow> (PauseProcessOpcode, c)
      | ResumeProcess \<Rightarrow> (ResumeProcessOpcode, c)
      | DebugLog \<Rightarrow> decode_DebugLog vm first_dword c
      | _ \<Rightarrow> (UnrecognizedInstruction opcode_type, (fst c, False)))"

text \<open>
  \<open>DecodeNextOpcode\<close>: \<open>None\<close> is the result false, with \<open>decode_success\<close> cleared on the way out;
  the instruction pointer stays where decoding stopped.
\<close>

definition DecodeNextOpcode :: "DmntCheatVm \<Rightarrow> CheatVmOpcode option \<times> DmntCheatVm" where
  "DecodeNextOpcode vm =
     (let (first_dword, c) = GetNextDword vm (instruction_ptr vm, decode_success vm) in
      if \<not> snd c
      then (None, vm\<lparr>instruction_ptr := fst c, decode_success := False\<rparr>)
      else
        let opcode_type = opcode_type_of (decode_opcode_type first_dword);
            (op, c) = decode_opcode vm opcode_type first_dword c;
            vm = vm\<lparr>instruction_ptr := fst c, decode_success := decode_success vm \<and> snd c\<rparr>
        in if snd c
           then (Some \<lparr>begin_conditional_block = begins_conditional_block opcode_type,
                   the_opcode = op\<rparr>, vm)
           else (None, vm))"

section \<open>Loading a program\<close>

text \<open>\<open>LoadProgram\<close>: \<open>copy_opcodes n src i\<close> is the inner loop from its \<open>i\<close>-th word on.\<close>

fun copy_opcodes :: "nat \<Rightarrow> u32 list \<Rightarrow> nat \<Rightarrow> DmntCheatVm \<Rightarrow> DmntCheatVm" where
  "copy_opcodes 0 src i vm = vm"
| "copy_opcodes (Suc n) src i vm =
     copy_opcodes n src (Suc i)
       (vm\<lparr>program := (program vm)[num_opcodes vm := src ! i],
           num_opcodes := num_opcodes vm + 1\<rparr>)"

fun load_entries :: "CheatEntry list \<Rightarrow> DmntCheatVm \<Rightarrow> bool \<times> DmntCheatVm" where
  "load_entries [] vm = (True, vm)"
| "load_entries (entry # entries) vm =
     (if enabled entry
      then
        let n = def_num_opcodes (cheat_definition entry) in
        if MaximumProgramOpcodeCount < n + num_opcodes vm
        then (False, vm\<lparr>num_opcodes := 0\<rparr>)
        else load_entries entries (copy_opcodes n (def_opcodes (cheat_definition entry)) 0 vm)
      else load_entries entries vm)"

definition LoadProgram :: "CheatEntry list \<Rightarrow> DmntCheatVm \<Rightarrow> bool \<times> DmntCheatVm" where
  "LoadProgram entries vm = load_entries entries (vm\<lparr>num_opcodes := 0\<rparr>)"

end
