(* ===== verification/Cheat_VM.thy ===== *)
theory Cheat_VM
  imports Cheat_Decode
begin

text \<open>
  Execution of the cheat virtual machine: the rest of
  \<^verbatim>\<open>src/src/core/memory/dmnt_cheat_vm.cpp\<close>. \<open>Execute\<close> is a loop without a bound in the
  source; \<open>run\<close> is that loop with fuel and says when it ran out. The two ways an instruction
  can leave the defined behaviour of the source, the fatal \<open>UNREACHABLE_MSG\<close> of
  \<open>SkipConditionalBlock\<close> and a shift by 64 or more, are values of \<open>VmFault\<close>.
\<close>

section \<open>Decoding makes progress\<close>

definition advances :: "DmntCheatVm \<Rightarrow> cursor \<Rightarrow> cursor \<Rightarrow> bool" where
  "advances vm c c' \<longleftrightarrow> fst c \<le> fst c' \<and> fst c' \<le> max (fst c) (num_opcodes vm) \<and>
     (snd c' \<longrightarrow> snd c)"

lemma advances_refl [simp]: "advances vm c c"
  by (simp add: advances_def)

lemma advances_trans: "advances vm a b \<Longrightarrow> advances vm b c \<Longrightarrow> advances vm a c"
  by (auto simp: advances_def)

lemma GetNextDword_advances: "GetNextDword vm c = (w, c') \<Longrightarrow> advances vm c c'"
  by (auto simp: GetNextDword_def advances_def split: if_splits)

lemma GetNextVmInt_advances: "GetNextVmInt vm bw c = (w, c') \<Longrightarrow> advances vm c c'"
  by (auto simp: GetNextVmInt_def Let_def split: prod.splits if_splits
      intro: advances_trans dest!: GetNextDword_advances)

lemma GetNextQword_advances: "GetNextQword vm c = (w, c') \<Longrightarrow> advances vm c c'"
  by (auto simp: GetNextQword_def Let_def split: prod.splits
      intro: advances_trans dest!: GetNextDword_advances)

lemma GetRelAddress_advances: "GetRelAddress vm h c = (w, c') \<Longrightarrow> advances vm c c'"
  by (auto simp: GetRelAddress_def Let_def split: prod.splits dest!: GetNextDword_advances)

lemmas decode_defs = decode_StoreStatic_def decode_BeginConditional_def decode_ControlLoop_def
  decode_LoadRegisterStatic_def decode_LoadRegisterMemory_def decode_StoreStaticToAddress_def
  decode_PerformArithmeticStatic_def decode_PerformArithmeticRegister_def
  decode_StoreRegisterToAddress_def decode_BeginRegisterConditional_def decode_DebugLog_def

lemma decode_opcode_advances:
  assumes "decode_opcode vm t w c = (op, c')"
  shows "advances vm c c'"
proof (cases t)
  case StoreStatic
  with assms show ?thesis
    by (auto simp: decode_opcode_def decode_defs Let_def split: prod.splits
        intro: advances_trans dest!: GetRelAddress_advances GetNextVmInt_advances)
next
  case BeginConditionalBlock
  with assms show ?thesis
    by (auto simp: decode_opcode_def decode_defs Let_def split: prod.splits
        intro: advances_trans dest!: GetRelAddress_advances GetNextVmInt_advances)
next
  case ControlLoop
  with assms show ?thesis
    by (auto simp: decode_opcode_def decode_defs Let_def split: prod.splits if_splits
        dest!: GetNextDword_advances)
next
  case StoreRegisterToAddress
  with assms show ?thesis
    by (auto simp: decode_opcode_def decode_defs Let_def split: prod.splits
        StoreRegisterOffsetType.splits dest!: GetRelAddress_advances)
next
  case BeginRegisterConditionalBlock
  with assms show ?thesis
    by (auto simp: decode_opcode_def decode_defs Let_def split: prod.splits
        CompareRegisterValueType.splits dest!: GetRelAddress_advances GetNextVmInt_advances)
next
  case DebugLog
  with assms show ?thesis
    by (auto simp: decode_opcode_def decode_defs Let_def split: prod.splits
        DebugLogValueType.splits dest!: GetRelAddress_advances)
qed (use assms in \<open>auto simp: decode_opcode_def decode_defs Let_def advances_def
    split: prod.splits if_splits dest!: GetNextDword_advances GetNextQword_advances
      GetRelAddress_advances GetNextVmInt_advances\<close>)

text \<open>A decoded instruction lies inside the program and leaves the pointer behind it.\<close>

lemma DecodeNextOpcode_progress:
  assumes "DecodeNextOpcode vm = (Some op, vm')"
  shows "instruction_ptr vm < instruction_ptr vm'" "instruction_ptr vm' \<le> num_opcodes vm"
    "decode_success vm" "vm' = vm\<lparr>instruction_ptr := instruction_ptr vm'\<rparr>"
proof -
  obtain w c where g: "GetNextDword vm (instruction_ptr vm, decode_success vm) = (w, c)"
    by (metis surj_pair)
  with assms have v: "snd c" by (auto simp: DecodeNextOpcode_def split: if_splits)
  with g have c: "c = (instruction_ptr vm + 1, True)" "instruction_ptr vm < num_opcodes vm"
    "decode_success vm"
    by (auto simp: GetNextDword_def split: if_splits)
  obtain o' c' where d: "decode_opcode vm (opcode_type_of (decode_opcode_type w)) w c = (o', c')"
    by (metis surj_pair)
  from assms g v d have vm': "vm' = vm\<lparr>instruction_ptr := fst c', decode_success := decode_success vm\<rparr>"
    by (auto simp: DecodeNextOpcode_def Let_def split: if_splits)
  with decode_opcode_advances [OF d] c
  show "instruction_ptr vm < instruction_ptr vm'" "instruction_ptr vm' \<le> num_opcodes vm"
    "decode_success vm" "vm' = vm\<lparr>instruction_ptr := instruction_ptr vm'\<rparr>"
    by (auto simp: advances_def)
qed

section \<open>Conditional blocks\<close>

datatype VmFault = InvalidConditionDepth | ShiftOutOfRange

text \<open>\<open>std::get_if\<close> for the one instruction the loop looks for.\<close>

definition get_EndConditional :: "opcode \<Rightarrow> bool option" where
  "get_EndConditional op = (case op of EndConditionalOpcode is_else \<Rightarrow> Some is_else | _ \<Rightarrow> None)"

lemma decode_decreases:
  assumes "(Some op, vm') = DecodeNextOpcode vm"
  shows "num_opcodes vm' - instruction_ptr vm' < num_opcodes vm - instruction_ptr vm"
proof -
  note p = DecodeNextOpcode_progress [OF assms [symmetric]]
  have "num_opcodes vm' = num_opcodes vm" by (subst p(4)) simp
  with p(1,2) show ?thesis by linarith
qed

text \<open>
  The loop of \<open>SkipConditionalBlock\<close>. It ends because every round decodes an instruction, which
  moves the pointer towards the end of the program.
\<close>

function skip_loop :: "bool \<Rightarrow> nat \<Rightarrow> DmntCheatVm \<Rightarrow> DmntCheatVm" where
  "skip_loop is_if desired_depth vm =
     (if desired_depth < condition_depth vm
      then
        (case DecodeNextOpcode vm of
           (None, vm) \<Rightarrow> vm
         | (Some skip_opcode, vm) \<Rightarrow>
             if begin_conditional_block skip_opcode
             then skip_loop is_if desired_depth (vm\<lparr>condition_depth := condition_depth vm + 1\<rparr>)
             else
               (case get_EndConditional (the_opcode skip_opcode) of
                  Some is_else \<Rightarrow>
                    if \<not> is_else
                    then skip_loop is_if desired_depth
                           (vm\<lparr>condition_depth := condition_depth vm - 1\<rparr>)
                    else if is_if \<and> condition_depth vm - 1 = desired_depth then vm
                    else skip_loop is_if desired_depth vm
                | None \<Rightarrow> skip_loop is_if desired_depth vm))
      else vm)"
  by pat_completeness auto

termination
  by (relation "measure (\<lambda>(_, _, vm). num_opcodes vm - instruction_ptr vm)")
    (auto dest!: decode_decreases)

declare skip_loop.simps [simp del]

definition SkipConditionalBlock :: "bool \<Rightarrow> DmntCheatVm \<Rightarrow> VmFault + DmntCheatVm" where
  "SkipConditionalBlock is_if vm =
     (if 0 < condition_depth vm then Inr (skip_loop is_if (condition_depth vm - 1) vm)
      else Inl InvalidConditionDepth)"

section \<open>Values and addresses\<close>

definition GetVmInt :: "VmInt \<Rightarrow> nat \<Rightarrow> u64" where
  "GetVmInt value bit_width =
     (if bit_width = 1 then ucast (ucast value :: u8)
      else if bit_width = 2 then ucast (ucast value :: u16)
      else if bit_width = 4 then ucast (ucast value :: u32)
      else if bit_width = 8 then value
      else 0)"

definition GetCheatProcessAddress :: "CheatProcessMetadata \<Rightarrow> MemoryAccessType \<Rightarrow> u64 \<Rightarrow> u64" where
  "GetCheatProcessAddress metadata mem_type rel_address =
     (case mem_type of
        MainNso \<Rightarrow> ext_base (main_nso_extents metadata) + rel_address
      | Heap \<Rightarrow> ext_base (heap_extents metadata) + rel_address
      | Alias \<Rightarrow> ext_base (alias_extents metadata) + rel_address
      | Aslr \<Rightarrow> ext_base (aslr_extents metadata) + rel_address
      | MemoryAccessType_Other _ \<Rightarrow> ext_base (main_nso_extents metadata) + rel_address)"

definition ResetState :: "DmntCheatVm \<Rightarrow> DmntCheatVm" where
  "ResetState vm =
     vm\<lparr>registers := replicate NumRegisters 0, saved_values := replicate NumRegisters 0,
        loop_tops := replicate NumRegisters 0, instruction_ptr := 0, condition_depth := 0,
        decode_success := True\<rparr>"

definition valid_width :: "nat \<Rightarrow> bool" where
  "valid_width bit_width \<longleftrightarrow> bit_width = 1 \<or> bit_width = 2 \<or> bit_width = 4 \<or> bit_width = 8"

text \<open>The truncation of the width switches: a width without a case leaves its argument.\<close>

definition apply_width :: "nat \<Rightarrow> u64 \<Rightarrow> u64" where
  "apply_width bit_width v =
     (if bit_width = 1 then ucast (ucast v :: u8)
      else if bit_width = 2 then ucast (ucast v :: u16)
      else if bit_width = 4 then ucast (ucast v :: u32)
      else v)"

definition register_value :: "nat \<Rightarrow> u64 \<Rightarrow> u64" where
  "register_value bit_width v = (if valid_width bit_width then apply_width bit_width v else 0)"

definition compare_values :: "ConditionalComparisonType \<Rightarrow> u64 \<Rightarrow> u64 \<Rightarrow> bool" where
  "compare_values cond_type src_value cond_value =
     (case cond_type of
        GT \<Rightarrow> cond_value < src_value
      | GE \<Rightarrow> cond_value \<le> src_value
      | LT \<Rightarrow> src_value < cond_value
      | LE \<Rightarrow> src_value \<le> cond_value
      | EQ \<Rightarrow> src_value = cond_value
      | NE \<Rightarrow> src_value \<noteq> cond_value
      | ConditionalComparisonType_Other _ \<Rightarrow> False)"

definition shift_left :: "u64 \<Rightarrow> u64 \<Rightarrow> VmFault + u64" where
  "shift_left a n = (if unat n < 64 then Inr (push_bit (unat n) a) else Inl ShiftOutOfRange)"

definition shift_right :: "u64 \<Rightarrow> u64 \<Rightarrow> VmFault + u64" where
  "shift_right a n = (if unat n < 64 then Inr (drop_bit (unat n) a) else Inl ShiftOutOfRange)"

definition read_value :: "'w Callbacks \<Rightarrow> 'w \<Rightarrow> u64 \<Rightarrow> nat \<Rightarrow> u64" where
  "read_value cb w address bit_width =
     (if valid_width bit_width then cb_MemoryReadUnsafe cb w address bit_width else 0)"

definition write_value :: "'w Callbacks \<Rightarrow> 'w \<Rightarrow> u64 \<Rightarrow> u64 \<Rightarrow> nat \<Rightarrow> 'w" where
  "write_value cb w address value bit_width =
     (if valid_width bit_width then cb_MemoryWriteUnsafe cb w address value bit_width else w)"

definition set_register :: "nat \<Rightarrow> u64 \<Rightarrow> DmntCheatVm \<Rightarrow> DmntCheatVm" where
  "set_register i v vm = vm\<lparr>registers := (registers vm)[i := v]\<rparr>"

section \<open>The instructions\<close>

type_synonym 'w outcome = "VmFault + DmntCheatVm \<times> 'w"

definition skip_unless :: "bool \<Rightarrow> DmntCheatVm \<times> 'w \<Rightarrow> 'w outcome" where
  "skip_unless cond_met s =
     (if cond_met then Inr s
      else case SkipConditionalBlock True (fst s) of
             Inl e \<Rightarrow> Inl e
           | Inr vm \<Rightarrow> Inr (vm, snd s))"

definition exec_StoreStatic ::
  "'w Callbacks \<Rightarrow> CheatProcessMetadata \<Rightarrow> nat \<Rightarrow> MemoryAccessType \<Rightarrow> nat \<Rightarrow> u64 \<Rightarrow> VmInt
     \<Rightarrow> DmntCheatVm \<times> 'w \<Rightarrow> 'w outcome" where
  "exec_StoreStatic cb metadata bit_width mem_type offset_register rel_address value s =
     (let (vm, w) = s;
          dst_address = GetCheatProcessAddress metadata mem_type
            (rel_address + registers vm ! offset_register);
          dst_value = GetVmInt value bit_width
      in Inr (vm, write_value cb w dst_address dst_value bit_width))"

definition exec_BeginConditional ::
  "'w Callbacks \<Rightarrow> CheatProcessMetadata \<Rightarrow> nat \<Rightarrow> MemoryAccessType \<Rightarrow> ConditionalComparisonType
     \<Rightarrow> u64 \<Rightarrow> VmInt \<Rightarrow> DmntCheatVm \<times> 'w \<Rightarrow> 'w outcome" where
  "exec_BeginConditional cb metadata bit_width mem_type cond_type rel_address value s =
     (let src_address = GetCheatProcessAddress metadata mem_type rel_address;
          src_value = read_value cb (snd s) src_address bit_width;
          cond_value = GetVmInt value bit_width
      in skip_unless (compare_values cond_type src_value cond_value) s)"

definition exec_EndConditional :: "bool \<Rightarrow> DmntCheatVm \<times> 'w \<Rightarrow> 'w outcome" where
  "exec_EndConditional is_else s =
     (let (vm, w) = s in
      if is_else
      then (case SkipConditionalBlock False vm of Inl e \<Rightarrow> Inl e | Inr vm \<Rightarrow> Inr (vm, w))
      else if 0 < condition_depth vm
      then Inr (vm\<lparr>condition_depth := condition_depth vm - 1\<rparr>, w)
      else Inr (vm, w))"

definition exec_ControlLoop :: "bool \<Rightarrow> nat \<Rightarrow> u32 \<Rightarrow> DmntCheatVm \<times> 'w \<Rightarrow> 'w outcome" where
  "exec_ControlLoop start_loop reg_index num_iters s =
     (let (vm, w) = s in
      if start_loop
      then Inr ((set_register reg_index (ucast num_iters) vm)
                 \<lparr>loop_tops := (loop_tops vm)[reg_index := instruction_ptr vm]\<rparr>, w)
      else
        let v = registers vm ! reg_index - 1; vm = set_register reg_index v vm in
        if v \<noteq> 0 then Inr (vm\<lparr>instruction_ptr := loop_tops vm ! reg_index\<rparr>, w)
        else Inr (vm, w))"

definition exec_LoadRegisterStatic :: "nat \<Rightarrow> u64 \<Rightarrow> DmntCheatVm \<times> 'w \<Rightarrow> 'w outcome" where
  "exec_LoadRegisterStatic reg_index value s =
     (let (vm, w) = s in Inr (set_register reg_index value vm, w))"

text \<open>A load of fewer than eight bytes only replaces the low bytes of the register.\<close>

definition merge_low :: "nat \<Rightarrow> u64 \<Rightarrow> u64 \<Rightarrow> u64" where
  "merge_low bit_width old v = (old AND NOT (mask (8 * bit_width))) OR v"

definition exec_LoadRegisterMemory ::
  "'w Callbacks \<Rightarrow> CheatProcessMetadata \<Rightarrow> nat \<Rightarrow> MemoryAccessType \<Rightarrow> nat \<Rightarrow> bool \<Rightarrow> u64
     \<Rightarrow> DmntCheatVm \<times> 'w \<Rightarrow> 'w outcome" where
  "exec_LoadRegisterMemory cb metadata bit_width mem_type reg_index load_from_reg rel_address s =
     (let (vm, w) = s;
          src_address = (if load_from_reg then registers vm ! reg_index + rel_address
                         else GetCheatProcessAddress metadata mem_type rel_address)
      in if valid_width bit_width
         then Inr (set_register reg_index
                     (merge_low bit_width (registers vm ! reg_index)
                        (cb_MemoryReadUnsafe cb w src_address bit_width)) vm, w)
         else Inr (vm, w))"

definition exec_StoreStaticToAddress ::
  "'w Callbacks \<Rightarrow> nat \<Rightarrow> nat \<Rightarrow> bool \<Rightarrow> bool \<Rightarrow> nat \<Rightarrow> u64 \<Rightarrow> DmntCheatVm \<times> 'w \<Rightarrow> 'w outcome" where
  "exec_StoreStaticToAddress cb bit_width reg_index increment_reg add_offset_reg offset_reg_index
       value s =
     (let (vm, w) = s;
          dst_address = (if add_offset_reg
            then registers vm ! reg_index + registers vm ! offset_reg_index
            else registers vm ! reg_index);
          w = write_value cb w dst_address value bit_width
      in if increment_reg
         then Inr (set_register reg_index (registers vm ! reg_index + of_nat bit_width) vm, w)
         else Inr (vm, w))"

definition static_arithmetic :: "RegisterArithmeticType \<Rightarrow> u64 \<Rightarrow> u64 \<Rightarrow> VmFault + u64" where
  "static_arithmetic math_type a b =
     (case math_type of
        Addition \<Rightarrow> Inr (a + b)
      | Subtraction \<Rightarrow> Inr (a - b)
      | Multiplication \<Rightarrow> Inr (a * b)
      | LeftShift \<Rightarrow> shift_left a b
      | RightShift \<Rightarrow> shift_right a b
      | _ \<Rightarrow> Inr a)"

definition exec_PerformArithmeticStatic ::
  "nat \<Rightarrow> nat \<Rightarrow> RegisterArithmeticType \<Rightarrow> u32 \<Rightarrow> DmntCheatVm \<times> 'w \<Rightarrow> 'w outcome" where
  "exec_PerformArithmeticStatic bit_width reg_index math_type value s =
     (let (vm, w) = s in
      case static_arithmetic math_type (registers vm ! reg_index) (ucast value) of
        Inl e \<Rightarrow> Inl e
      | Inr v \<Rightarrow> Inr (set_register reg_index (apply_width bit_width v) vm, w))"

definition exec_BeginKeypressConditional :: "u64 \<Rightarrow> u32 \<Rightarrow> DmntCheatVm \<times> 'w \<Rightarrow> 'w outcome" where
  "exec_BeginKeypressConditional kDown key_mask s =
     skip_unless (ucast key_mask AND kDown = ucast key_mask) s"

definition register_arithmetic :: "RegisterArithmeticType \<Rightarrow> u64 \<Rightarrow> u64 \<Rightarrow> VmFault + u64" where
  "register_arithmetic math_type a b =
     (case math_type of
        Addition \<Rightarrow> Inr (a + b)
      | Subtraction \<Rightarrow> Inr (a - b)
      | Multiplication \<Rightarrow> Inr (a * b)
      | LeftShift \<Rightarrow> shift_left a b
      | RightShift \<Rightarrow> shift_right a b
      | LogicalAnd \<Rightarrow> Inr (a AND b)
      | LogicalOr \<Rightarrow> Inr (a OR b)
      | LogicalNot \<Rightarrow> Inr (NOT a)
      | LogicalXor \<Rightarrow> Inr (a XOR b)
      | ArithNone \<Rightarrow> Inr a
      | RegisterArithmeticType_Other _ \<Rightarrow> Inr 0)"

definition exec_PerformArithmeticRegister ::
  "nat \<Rightarrow> RegisterArithmeticType \<Rightarrow> nat \<Rightarrow> nat \<Rightarrow> nat \<Rightarrow> bool \<Rightarrow> VmInt \<Rightarrow> DmntCheatVm \<times> 'w
     \<Rightarrow> 'w outcome" where
  "exec_PerformArithmeticRegister bit_width math_type dst_reg_index src_reg_1_index
       src_reg_2_index has_immediate value s =
     (let (vm, w) = s;
          operand_1_value = registers vm ! src_reg_1_index;
          operand_2_value = (if has_immediate then GetVmInt value bit_width
                             else registers vm ! src_reg_2_index)
      in case register_arithmetic math_type operand_1_value operand_2_value of
           Inl e \<Rightarrow> Inl e
         | Inr res_val \<Rightarrow> Inr (set_register dst_reg_index (apply_width bit_width res_val) vm, w))"

definition exec_StoreRegisterToAddress ::
  "'w Callbacks \<Rightarrow> CheatProcessMetadata \<Rightarrow> nat \<Rightarrow> nat \<Rightarrow> nat \<Rightarrow> bool \<Rightarrow> StoreRegisterOffsetType
     \<Rightarrow> MemoryAccessType \<Rightarrow> nat \<Rightarrow> u64 \<Rightarrow> DmntCheatVm \<times> 'w \<Rightarrow> 'w outcome" where
  "exec_StoreRegisterToAddress cb metadata bit_width str_reg_index addr_reg_index increment_reg
       ofs_type mem_type ofs_reg_index rel_address s =
     (let (vm, w) = s;
          dst_value = registers vm ! str_reg_index;
          addr = registers vm ! addr_reg_index;
          dst_address = (case ofs_type of
              OffsetNone \<Rightarrow> addr
            | OffsetReg \<Rightarrow> addr + registers vm ! ofs_reg_index
            | OffsetImm \<Rightarrow> addr + rel_address
            | OffsetMemReg \<Rightarrow> GetCheatProcessAddress metadata mem_type addr
            | OffsetMemImm \<Rightarrow> GetCheatProcessAddress metadata mem_type rel_address
            | OffsetMemImmReg \<Rightarrow> GetCheatProcessAddress metadata mem_type (addr + rel_address)
            | StoreRegisterOffsetType_Other _ \<Rightarrow> addr);
          w = write_value cb w dst_address dst_value bit_width
      in if increment_reg
         then Inr (set_register addr_reg_index (addr + of_nat bit_width) vm, w)
         else Inr (vm, w))"

definition exec_BeginRegisterConditional ::
  "'w Callbacks \<Rightarrow> CheatProcessMetadata \<Rightarrow> nat \<Rightarrow> ConditionalComparisonType \<Rightarrow> nat
     \<Rightarrow> CompareRegisterValueType \<Rightarrow> MemoryAccessType \<Rightarrow> nat \<Rightarrow> nat \<Rightarrow> nat \<Rightarrow> u64 \<Rightarrow> VmInt
     \<Rightarrow> DmntCheatVm \<times> 'w \<Rightarrow> 'w outcome" where
  "exec_BeginRegisterConditional cb metadata bit_width cond_type val_reg_index comp_type mem_type
       addr_reg_index other_reg_index ofs_reg_index rel_address value s =
     (let (vm, w) = s;
          src_value = register_value bit_width (registers vm ! val_reg_index);
          cond_value = (case comp_type of
              CompStaticValue \<Rightarrow> GetVmInt value bit_width
            | CompOtherRegister \<Rightarrow> register_value bit_width (registers vm ! other_reg_index)
            | CompMemoryRelAddr \<Rightarrow>
                read_value cb w (GetCheatProcessAddress metadata mem_type rel_address) bit_width
            | CompMemoryOfsReg \<Rightarrow>
                read_value cb w
                  (GetCheatProcessAddress metadata mem_type (registers vm ! ofs_reg_index)) bit_width
            | CompRegisterRelAddr \<Rightarrow>
                read_value cb w (registers vm ! addr_reg_index + rel_address) bit_width
            | CompRegisterOfsReg \<Rightarrow>
                read_value cb w (registers vm ! addr_reg_index + registers vm ! ofs_reg_index)
                  bit_width
            | CompareRegisterValueType_Other _ \<Rightarrow> read_value cb w 0 bit_width)
      in skip_unless (compare_values cond_type src_value cond_value) s)"

definition exec_SaveRestoreRegister ::
  "nat \<Rightarrow> nat \<Rightarrow> SaveRestoreRegisterOpType \<Rightarrow> DmntCheatVm \<times> 'w \<Rightarrow> 'w outcome" where
  "exec_SaveRestoreRegister dst_index src_index op_type s =
     (let (vm, w) = s in
      case op_type of
        ClearRegs \<Rightarrow> Inr (set_register dst_index 0 vm, w)
      | ClearSaved \<Rightarrow> Inr (vm\<lparr>saved_values := (saved_values vm)[dst_index := 0]\<rparr>, w)
      | Save \<Rightarrow>
          Inr (vm\<lparr>saved_values := (saved_values vm)[dst_index := registers vm ! src_index]\<rparr>, w)
      | _ \<Rightarrow> Inr (set_register dst_index (saved_values vm ! src_index) vm, w))"

text \<open>The loop over the mask: position by position, clear or copy.\<close>

definition masked :: "bool list \<Rightarrow> u64 list \<Rightarrow> u64 list \<Rightarrow> u64 list" where
  "masked should_operate src dst =
     map (\<lambda>i. if should_operate ! i then src ! i else dst ! i) [0..<NumRegisters]"

definition exec_SaveRestoreRegisterMask ::
  "SaveRestoreRegisterOpType \<Rightarrow> bool list \<Rightarrow> DmntCheatVm \<times> 'w \<Rightarrow> 'w outcome" where
  "exec_SaveRestoreRegisterMask op_type should_operate s =
     (let (vm, w) = s; zero = replicate NumRegisters 0 in
      case op_type of
        ClearSaved \<Rightarrow>
          Inr (vm\<lparr>saved_values := masked should_operate zero (saved_values vm)\<rparr>, w)
      | Save \<Rightarrow>
          Inr (vm\<lparr>saved_values := masked should_operate (registers vm) (saved_values vm)\<rparr>, w)
      | ClearRegs \<Rightarrow> Inr (vm\<lparr>registers := masked should_operate zero (registers vm)\<rparr>, w)
      | _ \<Rightarrow> Inr (vm\<lparr>registers := masked should_operate (saved_values vm) (registers vm)\<rparr>, w))"

definition exec_ReadWriteStaticRegister :: "nat \<Rightarrow> nat \<Rightarrow> DmntCheatVm \<times> 'w \<Rightarrow> 'w outcome" where
  "exec_ReadWriteStaticRegister static_idx idx s =
     (let (vm, w) = s in
      if static_idx < NumReadableStaticRegisters
      then Inr (set_register idx (static_registers vm ! static_idx) vm, w)
      else Inr (vm\<lparr>static_registers := (static_registers vm)[static_idx := registers vm ! idx]\<rparr>, w))"

definition exec_DebugLog ::
  "'w Callbacks \<Rightarrow> CheatProcessMetadata \<Rightarrow> nat \<Rightarrow> nat \<Rightarrow> DebugLogValueType \<Rightarrow> MemoryAccessType
     \<Rightarrow> nat \<Rightarrow> nat \<Rightarrow> nat \<Rightarrow> u64 \<Rightarrow> DmntCheatVm \<times> 'w \<Rightarrow> 'w outcome" where
  "exec_DebugLog cb metadata bit_width log_id val_type mem_type addr_reg_index val_reg_index
       ofs_reg_index rel_address s =
     (let (vm, w) = s;
          log_value = (case val_type of
              LogRegisterValue \<Rightarrow> register_value bit_width (registers vm ! val_reg_index)
            | LogMemoryRelAddr \<Rightarrow>
                read_value cb w (GetCheatProcessAddress metadata mem_type rel_address) bit_width
            | LogMemoryOfsReg \<Rightarrow>
                read_value cb w
                  (GetCheatProcessAddress metadata mem_type (registers vm ! ofs_reg_index)) bit_width
            | LogRegisterRelAddr \<Rightarrow>
                read_value cb w (registers vm ! addr_reg_index + rel_address) bit_width
            | LogRegisterOfsReg \<Rightarrow>
                read_value cb w (registers vm ! addr_reg_index + registers vm ! ofs_reg_index)
                  bit_width
            | DebugLogValueType_Other _ \<Rightarrow> read_value cb w 0 bit_width)
      in Inr (vm, cb_DebugLog cb w (of_nat log_id) log_value))"

definition exec_opcode ::
  "'w Callbacks \<Rightarrow> CheatProcessMetadata \<Rightarrow> u64 \<Rightarrow> opcode \<Rightarrow> DmntCheatVm \<times> 'w \<Rightarrow> 'w outcome" where
  "exec_opcode cb metadata kDown op s =
     (case op of
        StoreStaticOpcode bw mt r a v \<Rightarrow> exec_StoreStatic cb metadata bw mt r a v s
      | BeginConditionalOpcode bw mt ct a v \<Rightarrow> exec_BeginConditional cb metadata bw mt ct a v s
      | EndConditionalOpcode is_else \<Rightarrow> exec_EndConditional is_else s
      | ControlLoopOpcode st r n \<Rightarrow> exec_ControlLoop st r n s
      | LoadRegisterStaticOpcode r v \<Rightarrow> exec_LoadRegisterStatic r v s
      | LoadRegisterMemoryOpcode bw mt r from_reg a \<Rightarrow>
          exec_LoadRegisterMemory cb metadata bw mt r from_reg a s
      | StoreStaticToAddressOpcode bw r inc add ofs v \<Rightarrow>
          exec_StoreStaticToAddress cb bw r inc add ofs v s
      | PerformArithmeticStaticOpcode bw r mt v \<Rightarrow> exec_PerformArithmeticStatic bw r mt v s
      | BeginKeypressConditionalOpcode key_mask \<Rightarrow> exec_BeginKeypressConditional kDown key_mask s
      | PerformArithmeticRegisterOpcode bw mt d s1 s2 imm v \<Rightarrow>
          exec_PerformArithmeticRegister bw mt d s1 s2 imm v s
      | StoreRegisterToAddressOpcode bw sr ar inc ot mt ofs a \<Rightarrow>
          exec_StoreRegisterToAddress cb metadata bw sr ar inc ot mt ofs a s
      | BeginRegisterConditionalOpcode bw ct vr cmp mt ar orr ofs a v \<Rightarrow>
          exec_BeginRegisterConditional cb metadata bw ct vr cmp mt ar orr ofs a v s
      | SaveRestoreRegisterOpcode d sr ot \<Rightarrow> exec_SaveRestoreRegister d sr ot s
      | SaveRestoreRegisterMaskOpcode ot bits \<Rightarrow> exec_SaveRestoreRegisterMask ot bits s
      | ReadWriteStaticRegisterOpcode si i \<Rightarrow> exec_ReadWriteStaticRegister si i s
      | PauseProcessOpcode \<Rightarrow> Inr (fst s, cb_PauseProcess cb (snd s))
      | ResumeProcessOpcode \<Rightarrow> Inr (fst s, cb_ResumeProcess cb (snd s))
      | DebugLogOpcode bw i vt mt ar vr ofs a \<Rightarrow> exec_DebugLog cb metadata bw i vt mt ar vr ofs a s
      | UnrecognizedInstruction _ \<Rightarrow> Inr s)"

section \<open>The execution loop\<close>

datatype 'w run_result = Finished DmntCheatVm 'w | Faulted VmFault | RunOutOfFuel

definition enter_opcode :: "CheatVmOpcode \<Rightarrow> DmntCheatVm \<Rightarrow> DmntCheatVm" where
  "enter_opcode cur_opcode vm =
     (if begin_conditional_block cur_opcode
      then vm\<lparr>condition_depth := condition_depth vm + 1\<rparr> else vm)"

fun run ::
  "nat \<Rightarrow> 'w Callbacks \<Rightarrow> CheatProcessMetadata \<Rightarrow> u64 \<Rightarrow> DmntCheatVm \<times> 'w \<Rightarrow> 'w run_result" where
  "run 0 cb metadata kDown s = RunOutOfFuel"
| "run (Suc fuel) cb metadata kDown s =
     (case DecodeNextOpcode (fst s) of
        (None, vm) \<Rightarrow> Finished vm (snd s)
      | (Some cur_opcode, vm) \<Rightarrow>
          (case exec_opcode cb metadata kDown (the_opcode cur_opcode)
                  (enter_opcode cur_opcode vm, snd s) of
             Inl e \<Rightarrow> Faulted e
           | Inr s \<Rightarrow> run fuel cb metadata kDown s))"

definition Execute ::
  "nat \<Rightarrow> 'w Callbacks \<Rightarrow> CheatProcessMetadata \<Rightarrow> DmntCheatVm \<Rightarrow> 'w \<Rightarrow> 'w run_result" where
  "Execute fuel cb metadata vm w =
     (let (kDown, w) = cb_HidKeysDown cb w in run fuel cb metadata kDown (ResetState vm, w))"

end
