(* ===== verification/Cheat_VM_Laws.thy ===== *)
theory Cheat_VM_Laws
  imports Cheat_VM
begin

text \<open>
  Properties of the cheat machine: its arrays are never indexed out of bounds, what skipping a
  conditional block does, when programs end, and what the loader guarantees to the machine.
\<close>

section \<open>Well-formed machines and instructions\<close>

definition vm_ok :: "DmntCheatVm \<Rightarrow> bool" where
  "vm_ok vm \<longleftrightarrow> length (program vm) = MaximumProgramOpcodeCount \<and>
     num_opcodes vm \<le> MaximumProgramOpcodeCount \<and> instruction_ptr vm \<le> num_opcodes vm \<and>
     length (registers vm) = NumRegisters \<and> length (saved_values vm) = NumRegisters \<and>
     length (static_registers vm) = NumStaticRegisters \<and> length (loop_tops vm) = NumRegisters \<and>
     (\<forall>t\<in>set (loop_tops vm). t \<le> num_opcodes vm)"

text \<open>Every register index of an instruction fits its array.\<close>

fun opcode_ok :: "opcode \<Rightarrow> bool" where
  "opcode_ok (StoreStaticOpcode _ _ r _ _) \<longleftrightarrow> r < NumRegisters"
| "opcode_ok (ControlLoopOpcode _ r _) \<longleftrightarrow> r < NumRegisters"
| "opcode_ok (LoadRegisterStaticOpcode r _) \<longleftrightarrow> r < NumRegisters"
| "opcode_ok (LoadRegisterMemoryOpcode _ _ r _ _) \<longleftrightarrow> r < NumRegisters"
| "opcode_ok (StoreStaticToAddressOpcode _ r _ _ o' _) \<longleftrightarrow> r < NumRegisters \<and> o' < NumRegisters"
| "opcode_ok (PerformArithmeticStaticOpcode _ r _ _) \<longleftrightarrow> r < NumRegisters"
| "opcode_ok (PerformArithmeticRegisterOpcode _ _ d s1 s2 _ _) \<longleftrightarrow>
     d < NumRegisters \<and> s1 < NumRegisters \<and> s2 < NumRegisters"
| "opcode_ok (StoreRegisterToAddressOpcode _ s a _ _ _ o' _) \<longleftrightarrow>
     s < NumRegisters \<and> a < NumRegisters \<and> o' < NumRegisters"
| "opcode_ok (BeginRegisterConditionalOpcode _ _ v _ _ a o' f _ _) \<longleftrightarrow>
     v < NumRegisters \<and> a < NumRegisters \<and> o' < NumRegisters \<and> f < NumRegisters"
| "opcode_ok (SaveRestoreRegisterOpcode d s _) \<longleftrightarrow> d < NumRegisters \<and> s < NumRegisters"
| "opcode_ok (SaveRestoreRegisterMaskOpcode _ bits) \<longleftrightarrow> length bits = NumRegisters"
| "opcode_ok (ReadWriteStaticRegisterOpcode s i) \<longleftrightarrow> s < NumStaticRegisters \<and> i < NumRegisters"
| "opcode_ok (DebugLogOpcode _ _ _ _ a v f _) \<longleftrightarrow>
     a < NumRegisters \<and> v < NumRegisters \<and> f < NumRegisters"
| "opcode_ok _ \<longleftrightarrow> True"

lemma nybble_lt [simp]: "nybble w n < NumRegisters"
proof -
  have "drop_bit n w AND 0xF = take_bit 4 (drop_bit n w)"
    by (simp add: take_bit_eq_mask mask_eq_exp_minus_1)
  moreover have "unat (take_bit 4 (drop_bit n w)) < 2 ^ 4"
    using take_bit_nat_less_exp [of 4 "unat (drop_bit n w)"] by (simp add: unsigned_take_bit_eq)
  ultimately show ?thesis by (simp add: nybble_def NumRegisters_def)
qed

lemma zero_lt_NumRegisters [simp]: "0 < NumRegisters"
  by (simp add: NumRegisters_def)

lemma static_index_lt: "unat (drop_bit 4 w AND 0xFF) < NumStaticRegisters" for w :: u32
proof -
  have "drop_bit 4 w AND 0xFF = take_bit 8 (drop_bit 4 w)"
    by (simp add: take_bit_eq_mask mask_eq_exp_minus_1)
  moreover have "unat (take_bit 8 (drop_bit 4 w)) < 2 ^ 8"
    using take_bit_nat_less_exp [of 8 "unat (drop_bit 4 w)"] by (simp add: unsigned_take_bit_eq)
  ultimately show ?thesis
    by (simp add: NumStaticRegisters_def NumReadableStaticRegisters_def
        NumWritableStaticRegisters_def)
qed

lemma decode_opcode_ok:
  assumes "decode_opcode vm t w c = (op, c')"
  shows "opcode_ok op"
  using assms
  by (cases t)
    (auto simp: decode_opcode_def decode_defs decode_EndConditional_def
      decode_BeginKeypressConditional_def decode_SaveRestoreRegister_def
      decode_SaveRestoreRegisterMask_def decode_ReadWriteStaticRegister_def static_index_lt Let_def
      split: prod.splits if_splits StoreRegisterOffsetType.splits CompareRegisterValueType.splits
        DebugLogValueType.splits)

lemma Decode_cases:
  obtains (fail) p d where "DecodeNextOpcode vm = (None, vm\<lparr>instruction_ptr := p, decode_success := d\<rparr>)"
      "instruction_ptr vm \<le> p" "p \<le> max (instruction_ptr vm) (num_opcodes vm)" "\<not> d"
    | (ok) op p where "DecodeNextOpcode vm = (Some op, vm\<lparr>instruction_ptr := p\<rparr>)"
      "instruction_ptr vm < p" "p \<le> num_opcodes vm" "opcode_ok (the_opcode op)"
proof -
  obtain w c where g: "GetNextDword vm (instruction_ptr vm, decode_success vm) = (w, c)"
    by (metis surj_pair)
  note ga = GetNextDword_advances [OF g]
  obtain o' c' where d: "decode_opcode vm (opcode_type_of (decode_opcode_type w)) w c = (o', c')"
    by (metis surj_pair)
  note da = advances_trans [OF ga decode_opcode_advances [OF d]]
  show thesis
  proof (cases "snd c \<and> snd c'")
    case True
    then have "DecodeNextOpcode vm = (Some \<lparr>begin_conditional_block =
        begins_conditional_block (opcode_type_of (decode_opcode_type w)), the_opcode = o'\<rparr>,
        vm\<lparr>instruction_ptr := fst c', decode_success := decode_success vm\<rparr>)"
      using g d by (simp add: DecodeNextOpcode_def Let_def)
    moreover have "vm\<lparr>instruction_ptr := fst c', decode_success := decode_success vm\<rparr> =
        vm\<lparr>instruction_ptr := fst c'\<rparr>" by simp
    ultimately have run: "DecodeNextOpcode vm = (Some \<lparr>begin_conditional_block =
        begins_conditional_block (opcode_type_of (decode_opcode_type w)), the_opcode = o'\<rparr>,
        vm\<lparr>instruction_ptr := fst c'\<rparr>)" by simp
    with DecodeNextOpcode_progress [OF run] decode_opcode_ok [OF d] show thesis
      by (intro ok) auto
  next
    case False
    show thesis
    proof (cases "snd c")
      case True
      with False g d da show thesis
        by (intro fail [where p = "fst c'" and d = False]) (auto simp: DecodeNextOpcode_def Let_def advances_def)
    next
      case False
      with g ga show thesis
        by (intro fail [where p = "fst c" and d = False]) (auto simp: DecodeNextOpcode_def Let_def advances_def)
    qed
  qed
qed

text \<open>The fields a decoding step or a skipped block can change.\<close>

definition same_machine :: "DmntCheatVm \<Rightarrow> DmntCheatVm \<Rightarrow> bool" where
  "same_machine vm vm' \<longleftrightarrow>
     vm' = vm\<lparr>instruction_ptr := instruction_ptr vm', condition_depth := condition_depth vm',
       decode_success := decode_success vm'\<rparr>"

lemma same_machine_iff:
  "same_machine vm vm' \<longleftrightarrow> num_opcodes vm' = num_opcodes vm \<and> program vm' = program vm \<and>
     registers vm' = registers vm \<and> saved_values vm' = saved_values vm \<and>
     static_registers vm' = static_registers vm \<and> loop_tops vm' = loop_tops vm"
  by (cases vm; cases vm') (auto simp: same_machine_def)

definition skipped :: "bool \<Rightarrow> nat \<Rightarrow> DmntCheatVm \<Rightarrow> DmntCheatVm \<Rightarrow> bool" where
  "skipped is_if d vm vm' \<longleftrightarrow> same_machine vm vm' \<and> instruction_ptr vm \<le> instruction_ptr vm' \<and>
     instruction_ptr vm' \<le> num_opcodes vm \<and>
     (decode_success vm' \<longrightarrow>
        condition_depth vm' = d \<or> is_if \<and> condition_depth vm' = Suc d)"

lemma skipped_trans:
  assumes "skipped is_if d (vm\<lparr>instruction_ptr := p, condition_depth := c\<rparr>) vm'"
    and "instruction_ptr vm < p"
  shows "skipped is_if d vm vm'"
  using assms by (auto simp: skipped_def same_machine_iff)

lemma skip_loop_spec:
  assumes "instruction_ptr vm \<le> num_opcodes vm" "d \<le> condition_depth vm"
  shows "skipped is_if d vm (skip_loop is_if d vm)"
  using assms
proof (induction "num_opcodes vm - instruction_ptr vm" arbitrary: vm rule: less_induct)
  case less
  show ?case
  proof (cases "d < condition_depth vm")
    case False
    then have "skip_loop is_if d vm = vm" by (simp add: skip_loop.simps [of is_if d vm])
    with False less.prems show ?thesis by (simp add: skipped_def same_machine_iff)
  next
    case True
    show ?thesis
    proof (cases vm rule: Decode_cases)
      case (fail p s)
      with True less.prems show ?thesis
        by (simp add: skip_loop.simps [of is_if d vm] skipped_def same_machine_iff)
    next
      case (ok op p)
      have IH: "skipped is_if d vm
          (skip_loop is_if d (vm\<lparr>instruction_ptr := p, condition_depth := c\<rparr>))" if "d \<le> c" for c
      proof (rule skipped_trans [OF _ ok(2)])
        have "num_opcodes vm - p < num_opcodes vm - instruction_ptr vm" using ok(2,3) by linarith
        then show "skipped is_if d (vm\<lparr>instruction_ptr := p, condition_depth := c\<rparr>)
            (skip_loop is_if d (vm\<lparr>instruction_ptr := p, condition_depth := c\<rparr>))"
          using less.hyps [of "vm\<lparr>instruction_ptr := p, condition_depth := c\<rparr>"] that ok(3) by simp
      qed
      have here: "skipped is_if d vm (vm\<lparr>instruction_ptr := p\<rparr>)"
        if "is_if" "condition_depth vm - 1 = d"
        using that True ok(2,3) by (auto simp: skipped_def same_machine_iff)
      from IH [of "condition_depth vm"] True
      have IH0: "skipped is_if d vm (skip_loop is_if d (vm\<lparr>instruction_ptr := p\<rparr>))" by simp
      show ?thesis
        using True ok(1) IH [of "condition_depth vm + 1"] IH [of "condition_depth vm - 1"] IH0 here
        by (auto simp: skip_loop.simps [of is_if d vm] split: option.splits)
    qed
  qed
qed

lemma SkipConditionalBlock_spec:
  assumes "instruction_ptr vm \<le> num_opcodes vm" "SkipConditionalBlock is_if vm = Inr vm'"
  shows "skipped is_if (condition_depth vm - 1) vm vm'"
  using assms skip_loop_spec [of vm "condition_depth vm - 1" is_if]
  by (auto simp: SkipConditionalBlock_def split: if_splits)

section \<open>Every step keeps the machine well formed\<close>

lemma vm_ok_skipped: "vm_ok vm \<Longrightarrow> skipped is_if d vm vm' \<Longrightarrow> vm_ok vm'"
  by (auto simp: vm_ok_def skipped_def same_machine_iff)

lemma vm_ok_set_register [simp]: "vm_ok vm \<Longrightarrow> vm_ok (set_register i v vm)"
  by (simp add: vm_ok_def set_register_def)

lemma vm_ok_skip_unless:
  assumes "vm_ok vm" "skip_unless c (vm, w) = Inr (vm', w')"
  shows "vm_ok vm' \<and> w' = w \<and> program vm' = program vm \<and> num_opcodes vm' = num_opcodes vm"
proof (cases c)
  case True
  with assms show ?thesis by (simp add: skip_unless_def)
next
  case False
  with assms(2) have s: "SkipConditionalBlock True vm = Inr vm'" "w' = w"
    by (auto simp: skip_unless_def split: sum.splits)
  have "skipped True (condition_depth vm - 1) vm vm'"
    using SkipConditionalBlock_spec [OF _ s(1)] assms(1) by (simp add: vm_ok_def)
  with vm_ok_skipped [OF assms(1) this] s(2) show ?thesis
    by (auto simp: skipped_def same_machine_iff)
qed

lemma length_masked [simp]: "length (masked bits src dst) = NumRegisters"
  by (simp add: masked_def)

lemmas exec_defs = exec_StoreStatic_def exec_BeginConditional_def exec_EndConditional_def
  exec_ControlLoop_def exec_LoadRegisterStatic_def exec_LoadRegisterMemory_def
  exec_StoreStaticToAddress_def exec_PerformArithmeticStatic_def
  exec_BeginKeypressConditional_def exec_PerformArithmeticRegister_def
  exec_StoreRegisterToAddress_def exec_BeginRegisterConditional_def
  exec_SaveRestoreRegister_def exec_SaveRestoreRegisterMask_def
  exec_ReadWriteStaticRegister_def exec_DebugLog_def

definition vm_step_ok :: "DmntCheatVm \<Rightarrow> DmntCheatVm \<Rightarrow> bool" where
  "vm_step_ok vm vm' \<longleftrightarrow> vm_ok vm' \<and> program vm' = program vm \<and> num_opcodes vm' = num_opcodes vm"

lemma vm_step_ok_set_register [simp]: "vm_ok vm \<Longrightarrow> vm_step_ok vm (set_register i v vm)"
  by (simp add: vm_step_ok_def) (simp add: set_register_def)

lemma vm_step_ok_refl [simp]: "vm_ok vm \<Longrightarrow> vm_step_ok vm vm"
  by (simp add: vm_step_ok_def)

lemma exec_ControlLoop_ok:
  assumes "vm_ok vm" "r < NumRegisters" "exec_ControlLoop st r n (vm, w) = Inr (vm', w')"
  shows "vm_step_ok vm vm'"
proof -
  have "loop_tops vm ! r \<in> set (loop_tops vm)" using assms(1,2) by (simp add: vm_ok_def)
  then have "loop_tops vm ! r \<le> num_opcodes vm" using assms(1) by (simp add: vm_ok_def)
  moreover have "\<forall>t\<in>set ((loop_tops vm)[r := instruction_ptr vm]). t \<le> num_opcodes vm"
    using set_update_subset_insert [of "loop_tops vm" r "instruction_ptr vm"] assms(1)
    by (auto simp: vm_ok_def)
  ultimately show ?thesis
    using assms
    by (auto simp: exec_ControlLoop_def set_register_def vm_step_ok_def vm_ok_def Let_def
        split: if_splits)
qed

lemma exec_EndConditional_ok:
  assumes "vm_ok vm" "exec_EndConditional e (vm, w) = Inr (vm', w')"
  shows "vm_step_ok vm vm' \<and> w' = w"
proof (cases e)
  case True
  with assms(2) have s: "SkipConditionalBlock False vm = Inr vm'" "w' = w"
    by (auto simp: exec_EndConditional_def split: sum.splits)
  have "skipped False (condition_depth vm - 1) vm vm'"
    using SkipConditionalBlock_spec [OF _ s(1)] assms(1) by (simp add: vm_ok_def)
  with vm_ok_skipped [OF assms(1) this] s(2) show ?thesis
    by (auto simp: skipped_def same_machine_iff vm_step_ok_def)
next
  case False
  with assms show ?thesis
    by (auto simp: exec_EndConditional_def vm_step_ok_def vm_ok_def split: if_splits)
qed

lemma skip_unless_ok:
  "vm_ok vm \<Longrightarrow> skip_unless c (vm, w) = Inr (vm', w') \<Longrightarrow> vm_step_ok vm vm'"
  using vm_ok_skip_unless [of vm c w vm' w'] by (simp add: vm_step_ok_def)

lemma exec_opcode_ok:
  assumes ok: "vm_ok vm" "opcode_ok op"
    and run: "exec_opcode cb metadata kDown op (vm, w) = Inr (vm', w')"
  shows "vm_step_ok vm vm'"
proof (cases op)
  case (BeginConditionalOpcode bw mt ct a v)
  with ok run show ?thesis
    by (auto simp: exec_opcode_def exec_BeginConditional_def Let_def intro: skip_unless_ok)
next
  case (BeginKeypressConditionalOpcode m)
  with ok run show ?thesis
    by (auto simp: exec_opcode_def exec_BeginKeypressConditional_def intro: skip_unless_ok)
next
  case (BeginRegisterConditionalOpcode a b c d e f g h i j)
  with ok run show ?thesis
    by (auto simp: exec_opcode_def exec_BeginRegisterConditional_def Let_def intro: skip_unless_ok)
next
  case (EndConditionalOpcode e)
  with ok run exec_EndConditional_ok [of vm e w vm' w'] show ?thesis by (simp add: exec_opcode_def)
next
  case (ControlLoopOpcode st r n)
  with ok run exec_ControlLoop_ok [of vm r st n w vm' w'] show ?thesis by (simp add: exec_opcode_def)
next
  case (SaveRestoreRegisterOpcode d s t)
  with ok run show ?thesis
    by (auto simp: exec_opcode_def exec_SaveRestoreRegister_def vm_step_ok_def vm_ok_def
        set_register_def split: SaveRestoreRegisterOpType.splits)
next
  case (SaveRestoreRegisterMaskOpcode t bits)
  with ok run show ?thesis
    by (auto simp: exec_opcode_def exec_SaveRestoreRegisterMask_def vm_step_ok_def vm_ok_def Let_def
        split: SaveRestoreRegisterOpType.splits)
next
  case (ReadWriteStaticRegisterOpcode s i)
  with ok run show ?thesis
    by (auto simp: exec_opcode_def exec_ReadWriteStaticRegister_def vm_step_ok_def vm_ok_def
        set_register_def split: if_splits)
qed (use ok run in \<open>auto simp: exec_opcode_def exec_defs Let_def split: if_splits sum.splits\<close>)

lemma vm_ok_Decode:
  assumes "vm_ok vm" "DecodeNextOpcode vm = (r, vm')"
  shows "vm_step_ok vm vm'"
  using assms by (cases vm rule: Decode_cases) (auto simp: vm_step_ok_def vm_ok_def)

lemma enter_opcode_ok [simp]: "vm_step_ok vm (enter_opcode op vm') \<longleftrightarrow> vm_step_ok vm vm'"
  by (simp add: enter_opcode_def vm_step_ok_def vm_ok_def)

lemma vm_step_ok_trans: "vm_step_ok a b \<Longrightarrow> vm_step_ok b c \<Longrightarrow> vm_step_ok a c"
  by (simp add: vm_step_ok_def)

text \<open>One round of the execution loop.\<close>

lemma run_round:
  assumes "vm_ok vm" "DecodeNextOpcode vm = (Some op, vm1)"
    and "exec_opcode cb metadata kDown (the_opcode op) (enter_opcode op vm1, w) = Inr (vm2, w2)"
  shows "vm_step_ok vm vm2"
proof -
  have "opcode_ok (the_opcode op)" using assms(2) by (cases vm rule: Decode_cases) auto
  moreover have "vm_step_ok vm (enter_opcode op vm1)" using vm_ok_Decode [OF assms(1,2)] by simp
  ultimately show ?thesis
    using exec_opcode_ok [OF _ _ assms(3)] by (metis vm_step_ok_def)
qed

lemma run_ok:
  assumes "vm_ok vm" "run fuel cb metadata kDown (vm, w) = Finished vm' w'"
  shows "vm_step_ok vm vm'"
  using assms
proof (induction fuel arbitrary: vm w)
  case 0
  then show ?case by simp
next
  case (Suc fuel)
  show ?case
  proof (cases "DecodeNextOpcode vm")
    case (Pair r vm1)
    show ?thesis
    proof (cases r)
      case None
      with Suc.prems Pair vm_ok_Decode [OF Suc.prems(1) Pair] show ?thesis by simp
    next
      case (Some op)
      with Suc.prems(2) Pair obtain vm2 w2 where
        s: "exec_opcode cb metadata kDown (the_opcode op) (enter_opcode op vm1, w) = Inr (vm2, w2)"
          "run fuel cb metadata kDown (vm2, w2) = Finished vm' w'"
        by (auto split: sum.splits)
      have "vm_step_ok vm vm2" using run_round [OF Suc.prems(1) _ s(1)] Pair Some by simp
      with Suc.IH [OF _ s(2)] vm_step_ok_trans show ?thesis by (metis vm_step_ok_def)
    qed
  qed
qed

section \<open>Executions as a step relation\<close>

inductive vm_step ::
  "'w Callbacks \<Rightarrow> CheatProcessMetadata \<Rightarrow> u64 \<Rightarrow> DmntCheatVm \<times> 'w \<Rightarrow> DmntCheatVm \<times> 'w \<Rightarrow> bool"
  for cb metadata kDown where
  step: "DecodeNextOpcode vm = (Some op, vm1) \<Longrightarrow>
     exec_opcode cb metadata kDown (the_opcode op) (enter_opcode op vm1, w) = Inr s' \<Longrightarrow>
     vm_step cb metadata kDown (vm, w) s'"

inductive_cases vm_stepE: "vm_step cb metadata kDown (vm, w) (vm', w')"

abbreviation vm_steps ::
  "'w Callbacks \<Rightarrow> CheatProcessMetadata \<Rightarrow> u64 \<Rightarrow> DmntCheatVm \<times> 'w \<Rightarrow> DmntCheatVm \<times> 'w \<Rightarrow> bool"
where
  "vm_steps cb metadata kDown \<equiv> (vm_step cb metadata kDown)\<^sup>*\<^sup>*"

lemma vm_steps_ok:
  assumes "vm_steps cb metadata kDown s s'" "vm_ok (fst s)"
  shows "vm_step_ok (fst s) (fst s')"
  using assms
proof (induction rule: rtranclp_induct)
  case base
  then show ?case by simp
next
  case (step y z)
  then have y: "vm_step_ok (fst s) (fst y)" by simp
  from step.hyps(2) have "vm_step_ok (fst y) (fst z)"
  proof cases
    case (step vm op vm1 w)
    then show ?thesis
      using run_round [of vm op vm1 cb metadata kDown w "fst z" "snd z"] y
      by (simp add: vm_step_ok_def)
  qed
  with y show ?case by (rule vm_step_ok_trans)
qed

lemma run_steps:
  assumes "run fuel cb metadata kDown s = Finished vm' w'"
  shows "\<exists>vm1. vm_steps cb metadata kDown s (vm1, w') \<and> DecodeNextOpcode vm1 = (None, vm')"
  using assms
proof (induction fuel arbitrary: s)
  case 0
  then show ?case by simp
next
  case (Suc fuel)
  obtain vm w where s: "s = (vm, w)" by fastforce
  show ?case
  proof (cases "DecodeNextOpcode vm")
    case (Pair r vm1)
    show ?thesis
    proof (cases r)
      case None
      with Suc.prems Pair s show ?thesis by auto
    next
      case (Some op)
      with Suc.prems Pair s obtain s2 where
        e: "exec_opcode cb metadata kDown (the_opcode op) (enter_opcode op vm1, w) = Inr s2"
          "run fuel cb metadata kDown s2 = Finished vm' w'"
        by (auto split: sum.splits)
      have "vm_step cb metadata kDown s s2"
        unfolding s by (rule vm_step.step [OF _ e(1)]) (simp add: Pair Some)
      with Suc.IH [OF e(2)] show ?thesis by (meson converse_rtranclp_into_rtranclp)
    qed
  qed
qed

lemma vm_ok_ResetState:
  assumes "length (program vm) = MaximumProgramOpcodeCount"
    "num_opcodes vm \<le> MaximumProgramOpcodeCount" "length (static_registers vm) = NumStaticRegisters"
  shows "vm_ok (ResetState vm)"
  using assms by (simp add: vm_ok_def ResetState_def)

text \<open>
  C31. Memory safety of the machine itself: however a program runs, in every state it reaches from
  \<open>ResetState\<close> the machine is well formed, the program is the loaded one, and the next
  instruction decoded lies within the program and names only registers, saved values and static
  registers that exist.
\<close>

theorem Execute_in_bounds:
  assumes "length (program vm) = MaximumProgramOpcodeCount"
    and "num_opcodes vm \<le> MaximumProgramOpcodeCount"
    and "length (static_registers vm) = NumStaticRegisters"
    and "vm_steps cb metadata kDown (ResetState vm, w) (vm', w')"
  shows "vm_ok vm' \<and> program vm' = program vm \<and> num_opcodes vm' = num_opcodes vm \<and>
    (\<forall>op vm1. DecodeNextOpcode vm' = (Some op, vm1) \<longrightarrow>
       instruction_ptr vm' < num_opcodes vm \<and> instruction_ptr vm1 \<le> num_opcodes vm \<and>
       opcode_ok (the_opcode op))"
proof -
  note vm' = vm_steps_ok [OF assms(4)] vm_ok_ResetState [OF assms(1-3)]
  then have eq: "vm_ok vm'" "program vm' = program vm" "num_opcodes vm' = num_opcodes vm"
    by (auto simp: vm_step_ok_def ResetState_def)
  moreover have "instruction_ptr vm' < num_opcodes vm \<and> instruction_ptr vm1 \<le> num_opcodes vm \<and>
      opcode_ok (the_opcode op)" if "DecodeNextOpcode vm' = (Some op, vm1)" for op vm1
    using that eq by (cases vm' rule: Decode_cases) auto
  ultimately show ?thesis by blast
qed

text \<open>A program of one instruction, \<open>400R0000 VVVVVVVV VVVVVVVV\<close>, for the concrete instances.\<close>

definition sample_vm :: "u32 list \<Rightarrow> DmntCheatVm" where
  "sample_vm ws = new_DmntCheatVm\<lparr>num_opcodes := length ws,
     program := ws @ replicate (MaximumProgramOpcodeCount - length ws) 0\<rparr>"

definition no_metadata :: CheatProcessMetadata where
  "no_metadata =
     (let e = \<lparr>ext_base = 0, ext_size = 0\<rparr> in
      \<lparr>process_id = 0, title_id = 0, main_nso_extents = e, heap_extents = e, alias_extents = e,
       aslr_extents = e\<rparr>)"

lemma sample_vm_sizes:
  "length ws \<le> MaximumProgramOpcodeCount \<Longrightarrow>
     length (program (sample_vm ws)) = MaximumProgramOpcodeCount"
  "num_opcodes (sample_vm ws) = length ws"
  "length (static_registers (sample_vm ws)) = NumStaticRegisters"
  by (simp_all add: sample_vm_def new_DmntCheatVm_def)

definition no_callbacks :: "unit Callbacks" where
  "no_callbacks =
     \<lparr>cb_MemoryReadUnsafe = \<lambda>_ _ _. 0, cb_MemoryWriteUnsafe = \<lambda>_ _ _ _. (),
      cb_HidKeysDown = \<lambda>_. (0, ()), cb_PauseProcess = \<lambda>_. (), cb_ResumeProcess = \<lambda>_. (),
      cb_DebugLog = \<lambda>_ _ _. ()\<rparr>"

lemmas decode_simps = DecodeNextOpcode_def GetNextDword_def GetNextQword_def GetNextVmInt_def
  GetRelAddress_def decode_opcode_type_def opcode_type_of_def nybble_def decode_opcode_def
  begins_conditional_block_def join_dwords_def decode_EndConditional_def
  decode_ControlLoop_def decode_LoadRegisterStatic_def Let_def

lemma sample_decode:
  "DecodeNextOpcode (ResetState (sample_vm [0x400F0000, 1, 2])) =
     (Some \<lparr>begin_conditional_block = False,
        the_opcode = LoadRegisterStaticOpcode 15 0x100000002\<rparr>,
      (ResetState (sample_vm [0x400F0000, 1, 2]))\<lparr>instruction_ptr := 3\<rparr>)"
  by (simp add: decode_simps ResetState_def sample_vm_def)

theorem Execute_in_bounds_witness:
  "vm_ok (set_register 15 0x100000002
     ((ResetState (sample_vm [0x400F0000, 1, 2]))\<lparr>instruction_ptr := 3\<rparr>))"
proof -
  have "vm_step no_callbacks no_metadata 0 (ResetState (sample_vm [0x400F0000, 1, 2]), ())
      (set_register 15 0x100000002
        ((ResetState (sample_vm [0x400F0000, 1, 2]))\<lparr>instruction_ptr := 3\<rparr>), ())"
    by (rule vm_step.step [OF sample_decode])
      (simp add: exec_opcode_def exec_LoadRegisterStatic_def enter_opcode_def)
  then have "vm_steps no_callbacks no_metadata 0 (ResetState (sample_vm [0x400F0000, 1, 2]), ())
      (set_register 15 0x100000002
        ((ResetState (sample_vm [0x400F0000, 1, 2]))\<lparr>instruction_ptr := 3\<rparr>), ())"
    by (rule r_into_rtranclp)
  from Execute_in_bounds [OF _ _ _ this] show ?thesis
    by (simp add: sample_vm_sizes MaximumProgramOpcodeCount_def)
qed

section \<open>Termination\<close>

definition loop_free :: "DmntCheatVm \<Rightarrow> bool" where
  "loop_free vm \<longleftrightarrow> (\<forall>i<num_opcodes vm. nybble (program vm ! i) 28 \<noteq> 3)"

lemma opcode_type_of_ControlLoop: "opcode_type_of n = ControlLoop \<longleftrightarrow> n = 3"
  by (auto simp: opcode_type_of_def split: if_splits)

lemma decode_opcode_type_3: "decode_opcode_type w = 3 \<Longrightarrow> nybble w 28 = 3"
  by (auto simp: decode_opcode_type_def Let_def split: if_splits)

lemma decode_ControlLoop_only:
  assumes "decode_opcode vm t w c = (ControlLoopOpcode st r n, c')"
  shows "t = ControlLoop"
  using assms
  by (cases t)
    (auto simp: decode_opcode_def decode_defs decode_EndConditional_def
      decode_BeginKeypressConditional_def decode_SaveRestoreRegister_def
      decode_SaveRestoreRegisterMask_def decode_ReadWriteStaticRegister_def Let_def
      split: prod.splits if_splits StoreRegisterOffsetType.splits CompareRegisterValueType.splits
        DebugLogValueType.splits)

lemma loop_free_decode:
  assumes "loop_free vm" "DecodeNextOpcode vm = (Some op, vm1)"
  shows "the_opcode op \<noteq> ControlLoopOpcode st r n"
proof
  assume eq: "the_opcode op = ControlLoopOpcode st r n"
  obtain w c where g: "GetNextDword vm (instruction_ptr vm, decode_success vm) = (w, c)"
    by (metis surj_pair)
  obtain o' c' where d: "decode_opcode vm (opcode_type_of (decode_opcode_type w)) w c = (o', c')"
    by (metis surj_pair)
  have v: "snd c" "o' = the_opcode op"
    using assms(2) g d by (auto simp: DecodeNextOpcode_def Let_def split: if_splits)
  with d eq decode_ControlLoop_only have "opcode_type_of (decode_opcode_type w) = ControlLoop"
    by simp
  then have "nybble w 28 = 3" by (simp add: opcode_type_of_ControlLoop decode_opcode_type_3)
  moreover have "w = program vm ! instruction_ptr vm" "instruction_ptr vm < num_opcodes vm"
    using g v(1) by (auto simp: GetNextDword_def split: if_splits)
  ultimately show False using assms(1) by (simp add: loop_free_def)
qed

lemma skip_unless_forward:
  assumes "instruction_ptr vm \<le> num_opcodes vm" "skip_unless c (vm, w) = Inr (vm', w')"
  shows "instruction_ptr vm \<le> instruction_ptr vm'"
  using assms SkipConditionalBlock_spec [OF assms(1), of True]
  by (auto simp: skip_unless_def skipped_def split: if_splits sum.splits)

lemma set_register_ptr [simp]: "instruction_ptr (set_register i v vm) = instruction_ptr vm"
  by (simp add: set_register_def)

lemma exec_forward:
  assumes "instruction_ptr vm \<le> num_opcodes vm" "\<And>st r n. op \<noteq> ControlLoopOpcode st r n"
    and "exec_opcode cb metadata kDown op (vm, w) = Inr (vm', w')"
  shows "instruction_ptr vm \<le> instruction_ptr vm'"
proof (cases op)
  case (BeginConditionalOpcode bw mt ct a v)
  with assms(1,3) show ?thesis
    by (auto simp: exec_opcode_def exec_BeginConditional_def Let_def intro: skip_unless_forward)
next
  case (BeginKeypressConditionalOpcode m)
  with assms(1,3) show ?thesis
    by (auto simp: exec_opcode_def exec_BeginKeypressConditional_def intro: skip_unless_forward)
next
  case (BeginRegisterConditionalOpcode a b c d e f g h i j)
  with assms(1,3) show ?thesis
    by (auto simp: exec_opcode_def exec_BeginRegisterConditional_def Let_def
        intro: skip_unless_forward)
next
  case (EndConditionalOpcode e)
  with assms(1,3) SkipConditionalBlock_spec [OF assms(1), of False] show ?thesis
    by (auto simp: exec_opcode_def exec_EndConditional_def skipped_def
        split: if_splits sum.splits)
next
  case (ControlLoopOpcode st r n)
  with assms(2) [of st r n] show ?thesis by simp
qed (use assms(3) in \<open>auto simp: exec_opcode_def exec_defs Let_def
    split: if_splits sum.splits SaveRestoreRegisterOpType.splits\<close>)

lemma run_terminates:
  assumes "vm_ok vm" "loop_free vm" "num_opcodes vm - instruction_ptr vm < fuel"
  shows "run fuel cb metadata kDown (vm, w) \<noteq> RunOutOfFuel"
  using assms
proof (induction fuel arbitrary: vm w)
  case 0
  then show ?case by simp
next
  case (Suc fuel)
  show ?case
  proof (cases vm rule: Decode_cases)
    case (fail p d)
    then show ?thesis by simp
  next
    case (ok op p)
    let ?vm1 = "enter_opcode op (vm\<lparr>instruction_ptr := p\<rparr>)"
    show ?thesis
    proof (cases "exec_opcode cb metadata kDown (the_opcode op) (?vm1, w)")
      case (Inl e)
      with ok show ?thesis by simp
    next
      case (Inr s)
      obtain vm2 w2 where s: "s = (vm2, w2)" by fastforce
      have step: "vm_step_ok vm vm2"
        by (rule run_round [OF Suc.prems(1) ok(1)]) (use Inr s in simp)
      have p1: "instruction_ptr ?vm1 = p" "num_opcodes ?vm1 = num_opcodes vm"
        by (simp_all add: enter_opcode_def)
      have "p \<le> instruction_ptr vm2"
        using exec_forward [of ?vm1 "the_opcode op" cb metadata kDown w vm2 w2]
          loop_free_decode [OF Suc.prems(2) ok(1)] Inr s ok(3) p1 by simp
      moreover have "loop_free vm2" using step Suc.prems(2) by (simp add: loop_free_def vm_step_ok_def)
      ultimately have "run fuel cb metadata kDown (vm2, w2) \<noteq> RunOutOfFuel"
        using Suc.IH [of vm2 w2] Suc.prems(3) step ok(2,3) by (simp add: vm_step_ok_def)
      with ok(1) Inr s show ?thesis by simp
    qed
  qed
qed

text \<open>
  A program without loop instructions always ends: \<open>Execute\<close> is done after at most one round
  for each word of the program, whatever the memory holds and whichever blocks are skipped.
\<close>

theorem Execute_terminates:
  assumes "length (program vm) = MaximumProgramOpcodeCount"
    and "num_opcodes vm \<le> MaximumProgramOpcodeCount"
    and "length (static_registers vm) = NumStaticRegisters"
    and "loop_free vm" "num_opcodes vm < fuel"
  shows "Execute fuel cb metadata vm w \<noteq> RunOutOfFuel"
proof -
  have "loop_free (ResetState vm)" using assms(4) by (simp add: loop_free_def ResetState_def)
  moreover have "num_opcodes (ResetState vm) - instruction_ptr (ResetState vm) < fuel"
    using assms(5) by (simp add: ResetState_def)
  ultimately show ?thesis
    using run_terminates [OF vm_ok_ResetState [OF assms(1-3)], of fuel cb metadata]
    by (auto simp: Execute_def split: prod.splits)
qed

theorem Execute_terminates_witness:
  "Execute 4 no_callbacks no_metadata (sample_vm [0x400F0000, 1, 2]) () \<noteq> RunOutOfFuel"
  by (rule Execute_terminates)
    (simp_all add: sample_vm_sizes MaximumProgramOpcodeCount_def loop_free_def sample_vm_def
      new_DmntCheatVm_def nybble_def All_less_Suc numeral_3_eq_3)

text \<open>The loop whose body sets its own counter: start, load the counter with 2, end.\<close>

definition endless_program :: "u32 list" where
  "endless_program = [0x30000000, 2, 0x40000000, 0, 2, 0x31000000]"

definition endless_state :: "nat \<Rightarrow> u64 \<Rightarrow> DmntCheatVm" where
  "endless_state p v =
     (ResetState (sample_vm endless_program))
       \<lparr>instruction_ptr := p, registers := (replicate NumRegisters 0)[0 := v],
        loop_tops := (replicate NumRegisters 0)[0 := 2]\<rparr>"

lemmas endless_defs = endless_state_def endless_program_def sample_vm_def new_DmntCheatVm_def
  ResetState_def NumRegisters_def exec_opcode_def enter_opcode_def exec_ControlLoop_def
  exec_LoadRegisterStatic_def set_register_def

lemma endless_start:
  "run (Suc fuel) cb metadata kDown (ResetState (sample_vm endless_program), w) =
     run fuel cb metadata kDown (endless_state 2 2, w)"
  by (simp add: endless_defs decode_simps) (simp add: numeral_2_eq_2)

lemma endless_load:
  "run (Suc fuel) cb metadata kDown (endless_state 2 v, w) =
     run fuel cb metadata kDown (endless_state 5 2, w)"
  by (simp add: endless_defs decode_simps)

lemma endless_end:
  "run (Suc fuel) cb metadata kDown (endless_state 5 2, w) =
     run fuel cb metadata kDown (endless_state 2 1, w)"
  by (simp add: endless_defs decode_simps)

lemma endless_run: "run fuel cb metadata kDown (endless_state 2 v, w) = RunOutOfFuel"
proof (induction fuel arbitrary: v rule: less_induct)
  case (less fuel)
  consider "fuel = 0" | "fuel = 1" | n where "fuel = Suc (Suc n)"
    by (metis One_nat_def not0_implies_Suc)
  then show ?case
  proof cases
    case 2
    then show ?thesis using endless_load [of 0] by simp
  next
    case 3
    then show ?thesis using less.IH [of n 1] by (simp only: endless_load endless_end)
  qed simp
qed

text \<open>
  C36. There is no bound on execution: a loop that reloads its counter, six words long, never ends,
  whatever the callbacks do.
\<close>

theorem Execute_without_bound:
  "\<exists>vm. num_opcodes vm = 6 \<and> (\<forall>fuel (cb :: 'w Callbacks) metadata w.
     Execute fuel cb metadata vm w = RunOutOfFuel)"
proof (intro exI conjI allI)
  show "num_opcodes (sample_vm endless_program) = 6"
    by (simp add: sample_vm_sizes endless_program_def)
  fix fuel and cb :: "'w Callbacks" and metadata w
  show "Execute fuel cb metadata (sample_vm endless_program) w = RunOutOfFuel"
    by (cases fuel) (simp_all add: Execute_def endless_start endless_run split: prod.split
        del: run.simps(2))
qed

section \<open>Skipping a block\<close>

lemma decode_depth_frame:
  "GetNextDword (vm\<lparr>condition_depth := x\<rparr>) = GetNextDword vm"
  "GetNextVmInt (vm\<lparr>condition_depth := x\<rparr>) = GetNextVmInt vm"
  "GetNextQword (vm\<lparr>condition_depth := x\<rparr>) = GetNextQword vm"
  "GetRelAddress (vm\<lparr>condition_depth := x\<rparr>) = GetRelAddress vm"
proof -
  show g: "GetNextDword (vm\<lparr>condition_depth := x\<rparr>) = GetNextDword vm"
    by (intro ext) (simp add: GetNextDword_def)
  show "GetNextVmInt (vm\<lparr>condition_depth := x\<rparr>) = GetNextVmInt vm"
    "GetNextQword (vm\<lparr>condition_depth := x\<rparr>) = GetNextQword vm"
    "GetRelAddress (vm\<lparr>condition_depth := x\<rparr>) = GetRelAddress vm"
    unfolding fun_eq_iff GetNextVmInt_def GetNextQword_def GetRelAddress_def g by simp_all
qed

lemma decode_opcode_depth: "decode_opcode (vm\<lparr>condition_depth := x\<rparr>) t w c = decode_opcode vm t w c"
  by (cases t) (simp_all add: decode_opcode_def decode_defs decode_depth_frame Let_def
      cong: StoreRegisterOffsetType.case_cong CompareRegisterValueType.case_cong
        DebugLogValueType.case_cong)

lemma DecodeNextOpcode_depth:
  "DecodeNextOpcode vm = (Some op, vm1) \<Longrightarrow>
   DecodeNextOpcode (vm\<lparr>condition_depth := x\<rparr>) = (Some op, vm1\<lparr>condition_depth := x\<rparr>)"
  by (auto simp: DecodeNextOpcode_def decode_depth_frame decode_opcode_depth Let_def
      split: prod.splits if_splits)

text \<open>The instructions decoded one after the other from a state.\<close>

fun decodes :: "DmntCheatVm \<Rightarrow> CheatVmOpcode list \<Rightarrow> DmntCheatVm \<Rightarrow> bool" where
  "decodes vm [] vm' \<longleftrightarrow> vm' = vm"
| "decodes vm (op # ops) vm' \<longleftrightarrow> (\<exists>vm1. DecodeNextOpcode vm = (Some op, vm1) \<and> decodes vm1 ops vm')"

lemma decodes_depth:
  "decodes vm ops vm' \<Longrightarrow> decodes (vm\<lparr>condition_depth := x\<rparr>) ops (vm'\<lparr>condition_depth := x\<rparr>)"
  by (induction ops arbitrary: vm) (auto dest: DecodeNextOpcode_depth)

text \<open>
  \<open>inside is_if k ops\<close>: the instructions \<open>ops\<close>, begun \<open>k\<close> levels inside a block, come back to
  the block's own level without ending it; when looking for an else, none is at that level.
\<close>

fun inside :: "bool \<Rightarrow> nat \<Rightarrow> CheatVmOpcode list \<Rightarrow> bool" where
  "inside is_if k [] \<longleftrightarrow> k = 0"
| "inside is_if k (op # ops) \<longleftrightarrow>
     (if begin_conditional_block op then inside is_if (Suc k) ops
      else case get_EndConditional (the_opcode op) of
             Some False \<Rightarrow> 0 < k \<and> inside is_if (k - 1) ops
           | Some True \<Rightarrow> (0 < k \<or> \<not> is_if) \<and> inside is_if k ops
           | None \<Rightarrow> inside is_if k ops)"

definition is_end :: "bool \<Rightarrow> CheatVmOpcode \<Rightarrow> bool" where
  "is_end e op \<longleftrightarrow> \<not> begin_conditional_block op \<and> get_EndConditional (the_opcode op) = Some e"

lemma skip_loop_round:
  assumes "d < condition_depth vm" "DecodeNextOpcode vm = (Some op, vm1)"
  shows "skip_loop is_if d vm =
    (if begin_conditional_block op
     then skip_loop is_if d (vm1\<lparr>condition_depth := condition_depth vm + 1\<rparr>)
     else case get_EndConditional (the_opcode op) of
            Some False \<Rightarrow> skip_loop is_if d (vm1\<lparr>condition_depth := condition_depth vm - 1\<rparr>)
          | Some True \<Rightarrow> if is_if \<and> condition_depth vm - 1 = d then vm1 else skip_loop is_if d vm1
          | None \<Rightarrow> skip_loop is_if d vm1)"
proof -
  have "condition_depth vm1 = condition_depth vm"
    by (subst DecodeNextOpcode_progress(4) [OF assms(2)]) simp
  with assms show ?thesis
    by (auto simp: skip_loop.simps [of is_if d vm] split: option.splits)
qed

lemma skip_loop_block:
  assumes "decodes vm (ops @ [op]) vm'" "inside is_if k ops" "condition_depth vm = Suc (d + k)"
    and "is_end e op" "e \<Longrightarrow> is_if"
  shows "skip_loop is_if d vm = vm'\<lparr>condition_depth := if e then Suc d else d\<rparr>"
  using assms(1-3)
proof (induction ops arbitrary: vm vm' k)
  case Nil
  then have d: "DecodeNextOpcode vm = (Some op, vm')" and dv: "condition_depth vm = Suc d" by auto
  have dv': "condition_depth vm' = Suc d"
    using dv by (subst DecodeNextOpcode_progress(4) [OF d]) simp
  show ?case
  proof (cases e)
    case True
    with assms(4,5) skip_loop_round [OF _ d, of d is_if] dv have "skip_loop is_if d vm = vm'"
      by (simp add: is_end_def)
    moreover have "vm' = vm'\<lparr>condition_depth := Suc d\<rparr>" using dv' by simp
    ultimately show ?thesis using True by simp
  next
    case False
    with assms(4) skip_loop_round [OF _ d, of d is_if] dv
    have "skip_loop is_if d vm = skip_loop is_if d (vm'\<lparr>condition_depth := d\<rparr>)"
      by (simp add: is_end_def)
    then show ?thesis using False by (simp add: skip_loop.simps [of is_if d "vm'\<lparr>condition_depth := d\<rparr>"])
  qed
next
  case (Cons o1 ops)
  then obtain vm1 where d: "DecodeNextOpcode vm = (Some o1, vm1)" "decodes vm1 (ops @ [op]) vm'"
    by auto
  have dv1: "condition_depth vm1 = Suc (d + k)"
    using Cons.prems(3) by (subst DecodeNextOpcode_progress(4) [OF d(1)]) simp
  have lt: "d < condition_depth vm" using Cons.prems(3) by simp
  have IH: "skip_loop is_if d (vm1\<lparr>condition_depth := Suc (d + j)\<rparr>) =
      vm'\<lparr>condition_depth := if e then Suc d else d\<rparr>" if "inside is_if j ops" for j
    using Cons.IH [OF decodes_depth [OF d(2), of "Suc (d + j)"] that] by simp
  have same: "vm1\<lparr>condition_depth := Suc (d + k)\<rparr> = vm1" using dv1 by simp
  note round = skip_loop_round [OF lt d(1), of is_if]
  show ?case
  proof (cases "begin_conditional_block o1")
    case True
    with round IH [of "Suc k"] Cons.prems(2,3) show ?thesis by simp
  next
    case nb: False
    show ?thesis
    proof (cases "get_EndConditional (the_opcode o1)")
      case None
      with round nb IH [of k] Cons.prems(2) same show ?thesis by simp
    next
      case (Some b)
      show ?thesis
      proof (cases b)
        case True
        with round nb Some IH [of k] Cons.prems(2,3) same show ?thesis by auto
      next
        case False
        with nb Some Cons.prems(2) obtain j where "k = Suc j" "inside is_if j ops"
          by (cases k) auto
        with round nb Some False IH [of j] Cons.prems(3) show ?thesis by simp
      qed
    qed
  qed
qed

text \<open>
  Skipping a conditional block respects nesting and instruction boundaries: when the condition
  of a block is not met, execution continues right behind the block's own end, one level up, or
  right behind its own else, still inside the block; blocks nested in the skipped part are passed
  over whole, and immediates that look like an end are never mistaken for one.
\<close>

theorem SkipConditionalBlock_nested:
  assumes "decodes vm (ops @ [op]) vm'" "inside is_if 0 ops" "is_end e op" "e \<longrightarrow> is_if"
    and "0 < condition_depth vm"
  shows "SkipConditionalBlock is_if vm =
    Inr (vm'\<lparr>condition_depth := if e then condition_depth vm else condition_depth vm - 1\<rparr>)"
  using skip_loop_block [OF assms(1,2) _ assms(3), of "condition_depth vm - 1"] assms(4,5)
  by (simp add: SkipConditionalBlock_def)

text \<open>
  The instance: inside a block, a nested keypress block whose body loads the constant
  \<open>20000000 20000000\<close>, then the end of both blocks.
\<close>

definition nested_program :: "u32 list" where
  "nested_program = [0x80000001, 0x40000000, 0x20000000, 0x20000000, 0x20000000, 0x20000000]"

definition nested_vm :: "nat \<Rightarrow> DmntCheatVm" where
  "nested_vm p =
     (ResetState (sample_vm nested_program))\<lparr>instruction_ptr := p, condition_depth := 1\<rparr>"

lemma nested_decodes:
  "DecodeNextOpcode (nested_vm 0) =
     (Some \<lparr>begin_conditional_block = True, the_opcode = BeginKeypressConditionalOpcode 1\<rparr>, nested_vm 1)"
  "DecodeNextOpcode (nested_vm 1) =
     (Some \<lparr>begin_conditional_block = False,
        the_opcode = LoadRegisterStaticOpcode 0 0x2000000020000000\<rparr>, nested_vm 4)"
  "DecodeNextOpcode (nested_vm 4) =
     (Some \<lparr>begin_conditional_block = False, the_opcode = EndConditionalOpcode False\<rparr>, nested_vm 5)"
  "DecodeNextOpcode (nested_vm 5) =
     (Some \<lparr>begin_conditional_block = False, the_opcode = EndConditionalOpcode False\<rparr>, nested_vm 6)"
  by (simp_all add: decode_simps nested_vm_def nested_program_def ResetState_def sample_vm_def
      decode_BeginKeypressConditional_def)

lemma nested_depth: "condition_depth (nested_vm p) = 1"
  by (simp add: nested_vm_def)

theorem SkipConditionalBlock_nested_witness:
  "SkipConditionalBlock True (nested_vm 0) = Inr ((nested_vm 6)\<lparr>condition_depth := 0\<rparr>)"
  using SkipConditionalBlock_nested [of "nested_vm 0"
      "[\<lparr>begin_conditional_block = True, the_opcode = BeginKeypressConditionalOpcode 1\<rparr>,
        \<lparr>begin_conditional_block = False,
          the_opcode = LoadRegisterStaticOpcode 0 0x2000000020000000\<rparr>,
        \<lparr>begin_conditional_block = False, the_opcode = EndConditionalOpcode False\<rparr>]"
      "\<lparr>begin_conditional_block = False, the_opcode = EndConditionalOpcode False\<rparr>" "nested_vm 6"
      True False]
  by (simp add: nested_decodes [unfolded One_nat_def] nested_depth is_end_def
      get_EndConditional_def)

text \<open>
  The state the source believes impossible is reachable: a program that begins with an else
  instruction drives \<open>SkipConditionalBlock\<close> into its fatal error, with any memory and keys.
\<close>

theorem stray_else_faults:
  "Execute (Suc fuel) cb metadata (sample_vm [0x21000000]) w = Faulted InvalidConditionDepth"
  by (simp add: Execute_def decode_simps ResetState_def sample_vm_def exec_opcode_def
      exec_EndConditional_def enter_opcode_def SkipConditionalBlock_def split: prod.split)

section \<open>Loading\<close>

definition entry_ok :: "CheatEntry \<Rightarrow> bool" where
  "entry_ok entry \<longleftrightarrow> length (def_opcodes (cheat_definition entry)) = MaxDefinitionOpcodes \<and>
     def_num_opcodes (cheat_definition entry) \<le> MaxDefinitionOpcodes"

definition entry_words :: "CheatEntry \<Rightarrow> u32 list" where
  "entry_words entry =
     (if enabled entry
      then take (def_num_opcodes (cheat_definition entry)) (def_opcodes (cheat_definition entry))
      else [])"

definition loaded_words :: "DmntCheatVm \<Rightarrow> u32 list" where
  "loaded_words vm = take (num_opcodes vm) (program vm)"

lemma copy_opcodes_spec:
  assumes "num_opcodes vm + n \<le> length (program vm)" "i + n \<le> length src"
  shows "let vm' = copy_opcodes n src i vm in
    static_registers vm' = static_registers vm \<and>
    length (program vm') = length (program vm) \<and> num_opcodes vm' = num_opcodes vm + n \<and>
    loaded_words vm' = loaded_words vm @ take n (drop i src)"
  using assms
proof (induction n arbitrary: i vm)
  case 0
  then show ?case by (simp add: Let_def)
next
  case (Suc n)
  let ?vm = "vm\<lparr>program := (program vm)[num_opcodes vm := src ! i], num_opcodes := num_opcodes vm + 1\<rparr>"
  have lw: "loaded_words ?vm = loaded_words vm @ [src ! i]"
    using Suc.prems(1) by (simp add: loaded_words_def take_Suc_conv_app_nth)
  have dr: "take (Suc n) (drop i src) = src ! i # take n (drop (Suc i) src)"
    using Suc.prems(2) by (simp add: take_Suc_conv_app_nth Cons_nth_drop_Suc [symmetric])
  define vm' where "vm' = copy_opcodes n src (Suc i) ?vm"
  have "static_registers vm' = static_registers ?vm \<and>
      length (program vm') = length (program ?vm) \<and> num_opcodes vm' = num_opcodes ?vm + n \<and>
      loaded_words vm' = loaded_words ?vm @ take n (drop (Suc i) src)"
    unfolding vm'_def using Suc.IH [of ?vm "Suc i"] Suc.prems by (simp add: Let_def)
  then show ?case using lw dr by (simp add: vm'_def Let_def)
qed

text \<open>The loader's answer for the entries still to come, \<open>n\<close> words being loaded.\<close>

lemma load_entries_spec:
  assumes "\<forall>e\<in>set es. entry_ok e" "length (program vm) = MaximumProgramOpcodeCount"
    and "num_opcodes vm \<le> MaximumProgramOpcodeCount" "load_entries es vm = (r, vm')"
  shows "length (program vm') = MaximumProgramOpcodeCount \<and>
    static_registers vm' = static_registers vm \<and>
    (r \<longleftrightarrow> num_opcodes vm + length (concat (map entry_words es)) \<le> MaximumProgramOpcodeCount) \<and>
    num_opcodes vm' = (if r then num_opcodes vm + length (concat (map entry_words es)) else 0) \<and>
    (r \<longrightarrow> loaded_words vm' = loaded_words vm @ concat (map entry_words es))"
  using assms
proof (induction es arbitrary: vm)
  case Nil
  then show ?case by auto
next
  case (Cons e es)
  have ok: "entry_ok e" using Cons.prems(1) by simp
  show ?case
  proof (cases "enabled e")
    case False
    with Cons.IH [of vm] Cons.prems show ?thesis by (simp add: entry_words_def)
  next
    case True
    let ?n = "def_num_opcodes (cheat_definition e)"
    have len: "length (entry_words e) = ?n" using ok True by (simp add: entry_words_def entry_ok_def)
    show ?thesis
    proof (cases "MaximumProgramOpcodeCount < ?n + num_opcodes vm")
      case over: True
      with True Cons.prems len show ?thesis by auto
    next
      case False
      define vm1 where "vm1 = copy_opcodes ?n (def_opcodes (cheat_definition e)) 0 vm"
      have "static_registers vm1 = static_registers vm \<and>
          length (program vm1) = length (program vm) \<and> num_opcodes vm1 = num_opcodes vm + ?n \<and>
          loaded_words vm1 = loaded_words vm @ entry_words e"
        unfolding vm1_def
        using copy_opcodes_spec [of vm ?n 0 "def_opcodes (cheat_definition e)"] False ok True Cons.prems(2)
        by (simp add: Let_def entry_words_def entry_ok_def)
      then have vm1: "length (program vm1) = MaximumProgramOpcodeCount"
          "num_opcodes vm1 = num_opcodes vm + ?n" "loaded_words vm1 = loaded_words vm @ entry_words e"
          "static_registers vm1 = static_registers vm"
        using Cons.prems(2) by auto
      have "load_entries es vm1 = (r, vm')" using Cons.prems(4) True False by (simp add: vm1_def)
      from Cons.IH [OF _ vm1(1) _ this] Cons.prems(1) vm1 False len show ?thesis by simp
    qed
  qed
qed

text \<open>
  \<open>LoadProgram\<close> loads the words of the enabled cheats in order, or, exactly when they are more
  than fit, refuses and leaves an empty program; the program array is never overrun.
\<close>

theorem LoadProgram_correct:
  assumes "\<forall>e\<in>set entries. entry_ok e" "length (program vm) = MaximumProgramOpcodeCount"
    and "LoadProgram entries vm = (r, vm')"
  shows "(r \<longleftrightarrow> length (concat (map entry_words entries)) \<le> MaximumProgramOpcodeCount) \<and>
    loaded_words vm' = (if r then concat (map entry_words entries) else []) \<and>
    num_opcodes vm' \<le> MaximumProgramOpcodeCount \<and>
    length (program vm') = MaximumProgramOpcodeCount"
  using load_entries_spec [OF assms(1), of "vm\<lparr>num_opcodes := 0\<rparr>" r vm'] assms(2,3)
  by (auto simp: LoadProgram_def loaded_words_def)

theorem LoadProgram_correct_witness:
  "loaded_words (snd (LoadProgram [new_CheatEntry\<lparr>enabled := True,
     cheat_definition := (cheat_definition new_CheatEntry)\<lparr>def_num_opcodes := 1\<rparr>\<rparr>] new_DmntCheatVm)) = [0]"
  using LoadProgram_correct [of "[new_CheatEntry\<lparr>enabled := True,
     cheat_definition := (cheat_definition new_CheatEntry)\<lparr>def_num_opcodes := 1\<rparr>\<rparr>]" new_DmntCheatVm,
     OF _ _ surjective_pairing]
  by (simp add: entry_ok_def entry_words_def new_CheatEntry_def new_DmntCheatVm_def
      MaxDefinitionOpcodes_def MaximumProgramOpcodeCount_def)

end
