(* ===== verification/Cheat_Engine.thy ===== *)
theory Cheat_Engine
  imports Cheat_VM
begin

text \<open>
  The cheat engine: \<^verbatim>\<open>src/src/core/memory/cheat_engine.cpp\<close>. The process a cheat runs against
  is a record of what the callbacks use of it: whether it exists, its memory byte by byte with
  the predicate that says which addresses are mapped, whether it is suspended, the pressed keys
  (\<open>None\<close> while the input service is not up), and logs of the calls that leave the emulated
  machine (instruction cache invalidation, debug log). Block accesses follow
  \<^verbatim>\<open>src/src/core/memory.cpp\<close>: an access that leaves the address space or a byte on an
  unmapped page reads as zero and is not written.
\<close>

section \<open>The standard callbacks\<close>

record CheatWorld =
  w_process :: bool
  w_contains :: "u64 \<Rightarrow> nat \<Rightarrow> bool"
  w_mapped :: "u64 \<Rightarrow> bool"
  w_memory :: "u64 \<Rightarrow> u8"
  w_suspended :: bool
  w_press_state :: "u64 option"
  w_icache :: "(u64 \<times> nat) list"
  w_log :: "(u8 \<times> u64) list"

definition in_extents :: "MemoryRegionExtents \<Rightarrow> u64 \<Rightarrow> bool" where
  "in_extents e a \<longleftrightarrow> \<not> (a < ext_base e \<or> ext_base e + ext_size e \<le> a)"

definition IsAddressInRange :: "CheatProcessMetadata \<Rightarrow> u64 \<Rightarrow> bool" where
  "IsAddressInRange metadata a \<longleftrightarrow>
     in_extents (main_nso_extents metadata) a \<or> in_extents (heap_extents metadata) a \<or>
     in_extents (alias_extents metadata) a \<or> in_extents (aslr_extents metadata) a"

definition ReadBlock :: "CheatWorld \<Rightarrow> u64 \<Rightarrow> nat \<Rightarrow> u8 list" where
  "ReadBlock w a n =
     map (\<lambda>i. if w_contains w a n \<and> w_mapped w (a + of_nat i) then w_memory w (a + of_nat i) else 0)
       [0..<n]"

primrec write_bytes :: "u8 list \<Rightarrow> u64 \<Rightarrow> CheatWorld \<Rightarrow> CheatWorld" where
  "write_bytes [] a w = w"
| "write_bytes (b # bs) a w =
     write_bytes bs (a + 1)
       (if w_mapped w a then w\<lparr>w_memory := (w_memory w)(a := b)\<rparr> else w)"

definition WriteBlock :: "u8 list \<Rightarrow> u64 \<Rightarrow> CheatWorld \<Rightarrow> bool \<times> CheatWorld" where
  "WriteBlock bs a w =
     (if w_contains w a (length bs)
      then (\<forall>i<length bs. w_mapped w (a + of_nat i), write_bytes bs a w)
      else (False, w))"

text \<open>Little-endian bytes of a word.\<close>

definition bytes_of :: "u64 \<Rightarrow> nat \<Rightarrow> u8 list" where
  "bytes_of v n = map (\<lambda>i. ucast (drop_bit (8 * i) v)) [0..<n]"

primrec word_of_bytes :: "u8 list \<Rightarrow> u64" where
  "word_of_bytes [] = 0"
| "word_of_bytes (b # bs) = ucast b OR push_bit 8 (word_of_bytes bs)"

definition accessible :: "CheatProcessMetadata \<Rightarrow> CheatWorld \<Rightarrow> u64 \<Rightarrow> bool" where
  "accessible metadata w a \<longleftrightarrow> \<not> (\<not> w_process w \<or> \<not> IsAddressInRange metadata a \<or> \<not> w_mapped w a)"

definition std_MemoryReadUnsafe :: "CheatProcessMetadata \<Rightarrow> CheatWorld \<Rightarrow> u64 \<Rightarrow> nat \<Rightarrow> u64" where
  "std_MemoryReadUnsafe metadata w a n =
     (if \<not> accessible metadata w a then 0 else word_of_bytes (ReadBlock w a n))"

definition std_MemoryWriteUnsafe ::
  "CheatProcessMetadata \<Rightarrow> CheatWorld \<Rightarrow> u64 \<Rightarrow> u64 \<Rightarrow> nat \<Rightarrow> CheatWorld" where
  "std_MemoryWriteUnsafe metadata w a v n =
     (if \<not> accessible metadata w a then w
      else
        let (ok, w) = WriteBlock (bytes_of v n) a w in
        if ok then w\<lparr>w_icache := w_icache w @ [(a, n)]\<rparr> else w)"

definition NpadButton_All :: u64 where
  "NpadButton_All = 0xFFFFFFFFFFFFFFFF"

definition std_HidKeysDown :: "CheatWorld \<Rightarrow> u64 \<times> CheatWorld" where
  "std_HidKeysDown w =
     (case w_press_state w of
        None \<Rightarrow> (0, w)
      | Some press_state \<Rightarrow> (press_state AND NpadButton_All, w\<lparr>w_press_state := Some 0\<rparr>))"

definition std_PauseProcess :: "CheatWorld \<Rightarrow> CheatWorld" where
  "std_PauseProcess w =
     (if w_process w \<and> \<not> w_suspended w then w\<lparr>w_suspended := True\<rparr> else w)"

definition std_ResumeProcess :: "CheatWorld \<Rightarrow> CheatWorld" where
  "std_ResumeProcess w =
     (if w_process w \<and> w_suspended w then w\<lparr>w_suspended := False\<rparr> else w)"

definition std_DebugLog :: "CheatWorld \<Rightarrow> u8 \<Rightarrow> u64 \<Rightarrow> CheatWorld" where
  "std_DebugLog w log_id value = w\<lparr>w_log := w_log w @ [(log_id, value)]\<rparr>"

definition StandardVmCallbacks :: "CheatProcessMetadata \<Rightarrow> CheatWorld Callbacks" where
  "StandardVmCallbacks metadata =
     \<lparr>cb_MemoryReadUnsafe = std_MemoryReadUnsafe metadata,
      cb_MemoryWriteUnsafe = std_MemoryWriteUnsafe metadata,
      cb_HidKeysDown = std_HidKeysDown,
      cb_PauseProcess = std_PauseProcess,
      cb_ResumeProcess = std_ResumeProcess,
      cb_DebugLog = std_DebugLog\<rparr>"

section \<open>The text parser\<close>

definition is_space :: "char \<Rightarrow> bool" where
  "is_space c \<longleftrightarrow> c = CHR '' '' \<or> (9 \<le> (of_char c :: nat) \<and> (of_char c :: nat) \<le> 13)"

definition hex_digit :: "char \<Rightarrow> nat option" where
  "hex_digit c =
     (let n = (of_char c :: nat) in
      if 48 \<le> n \<and> n \<le> 57 then Some (n - 48)
      else if 65 \<le> n \<and> n \<le> 70 then Some (n - 55)
      else if 97 \<le> n \<and> n \<le> 102 then Some (n - 87)
      else None)"

definition is_xdigit :: "char \<Rightarrow> bool" where
  "is_xdigit c \<longleftrightarrow> hex_digit c \<noteq> None"

text \<open>\<open>strtoul\<close> in base 16 on a string of digits.\<close>

definition hex_value :: "char list \<Rightarrow> nat" where
  "hex_value cs = foldl (\<lambda>n c. n * 16 + the (hex_digit c)) 0 cs"

datatype ParseFault = OutOfBoundsRead

text \<open>
  \<open>ExtractName\<close> returns the size of the name before clamping and the clamped name. Its loop reads
  \<open>data[data.size()]\<close> before it tests the index, which is a fault here; the empty result of the
  test is never reached.
\<close>

fun find_char :: "char \<Rightarrow> char list \<Rightarrow> ParseFault + nat" where
  "find_char match [] = Inl OutOfBoundsRead"
| "find_char match (c # cs) =
     (if c = match then Inr 0
      else case find_char match cs of Inl e \<Rightarrow> Inl e | Inr n \<Rightarrow> Inr (Suc n))"

definition ExtractName :: "char list \<Rightarrow> nat \<Rightarrow> char \<Rightarrow> ParseFault + nat \<times> char list" where
  "ExtractName data start_index match =
     (case find_char match (drop start_index data) of
        Inl e \<Rightarrow> Inl e
      | Inr name_size \<Rightarrow>
          Inr (name_size, take (min name_size ReadableNameSize) (drop start_index data)))"

definition set_name :: "char list \<Rightarrow> CheatEntry \<Rightarrow> CheatEntry" where
  "set_name name entry =
     (let d = cheat_definition entry;
          copied = take (min ReadableNameSize (length name)) name;
          buffer = copied @ drop (length copied) (readable_name d)
      in entry\<lparr>cheat_definition := d\<lparr>readable_name := buffer[ReadableNameSize - 1 := CHR 0x00]\<rparr>\<rparr>)"

definition push_opcode :: "u32 \<Rightarrow> CheatEntry \<Rightarrow> CheatEntry" where
  "push_opcode value entry =
     (let d = cheat_definition entry in
      entry\<lparr>cheat_definition := d\<lparr>def_opcodes := (def_opcodes d)[def_num_opcodes d := value],
                                 def_num_opcodes := def_num_opcodes d + 1\<rparr>\<rparr>)"

abbreviation entry_opcodes :: "CheatEntry list \<Rightarrow> nat \<Rightarrow> nat" where
  "entry_opcodes out i \<equiv> def_num_opcodes (cheat_definition (out ! i))"

text \<open>
  The loop of \<open>Parse\<close>, at index \<open>i\<close>; \<open>None\<close> for the entries is the empty vector that the source
  returns for text it rejects.
\<close>

function parse_loop ::
  "char list \<Rightarrow> nat \<Rightarrow> nat option \<Rightarrow> CheatEntry list \<Rightarrow> ParseFault + CheatEntry list option" where
  "parse_loop data i current_entry out =
     (if length data \<le> i then Inr (Some out)
      else
        let c = data ! i in
        if is_space c then parse_loop data (i + 1) current_entry out
        else if c = CHR ''{''
        then
          (if 0 < entry_opcodes out 0 then Inr None
           else case ExtractName data (i + 1) (CHR ''}'') of
                  Inl e \<Rightarrow> Inl e
                | Inr (name_size, name) \<Rightarrow>
                    if name = [] then Inr None
                    else parse_loop data (i + name_size + 2) (Some 0)
                           (out[0 := set_name name (out ! 0)]))
        else if c = CHR ''[''
        then
          (case ExtractName data (i + 1) (CHR '']'') of
             Inl e \<Rightarrow> Inl e
           | Inr (name_size, name) \<Rightarrow>
               if name = [] then Inr None
               else parse_loop data (i + name_size + 2) (Some (length out))
                      (out @ [set_name name new_CheatEntry]))
        else if is_xdigit c
        then
          (case current_entry of
             None \<Rightarrow> Inr None
           | Some cur \<Rightarrow>
               if MaxDefinitionOpcodes \<le> entry_opcodes out cur then Inr None
               else
                 let hex = take 8 (drop i data) in
                 if \<not> list_all is_xdigit hex then Inr None
                 else parse_loop data (i + 9) current_entry
                        (out[cur := push_opcode (of_nat (hex_value hex)) (out ! cur)]))
        else Inr None)"
  by pat_completeness auto

termination
  by (relation "measure (\<lambda>(data, i, _, _). length data - i)") auto

declare parse_loop.simps [simp del]

definition finish_entries :: "CheatEntry list \<Rightarrow> CheatEntry list" where
  "finish_entries out =
     map (\<lambda>i. (out ! i)\<lparr>enabled := 0 < entry_opcodes out i, cheat_id := i\<rparr>) [0..<length out]"

definition Parse :: "char list \<Rightarrow> ParseFault + CheatEntry list" where
  "Parse data =
     (case parse_loop data 0 None [new_CheatEntry] of
        Inl e \<Rightarrow> Inl e
      | Inr None \<Rightarrow> Inr []
      | Inr (Some out) \<Rightarrow> Inr (finish_entries out))"

section \<open>The engine\<close>

record CheatEngine =
  ce_vm :: DmntCheatVm
  ce_metadata :: CheatProcessMetadata
  ce_cheats :: "CheatEntry list"
  ce_is_pending_reload :: bool

text \<open>
  \<open>Initialize\<close> reads the ids of the process and the regions of its page table; the timer event that
  calls \<open>FrameCallback\<close> is outside the model.
\<close>

definition engine_Initialize ::
  "u64 \<Rightarrow> u64 \<Rightarrow> MemoryRegionExtents \<Rightarrow> MemoryRegionExtents \<Rightarrow> MemoryRegionExtents
     \<Rightarrow> CheatEngine \<Rightarrow> CheatEngine" where
  "engine_Initialize pid tid heap_region alias_code_region alias_region ce =
     ce\<lparr>ce_metadata := (ce_metadata ce)\<lparr>process_id := pid, title_id := tid,
          heap_extents := heap_region, aslr_extents := alias_code_region,
          alias_extents := alias_region\<rparr>,
        ce_is_pending_reload := True\<rparr>"

definition SetMainMemoryParameters :: "u64 \<Rightarrow> u64 \<Rightarrow> CheatEngine \<Rightarrow> CheatEngine" where
  "SetMainMemoryParameters main_region_begin main_region_size ce =
     ce\<lparr>ce_metadata := (ce_metadata ce)
          \<lparr>main_nso_extents := \<lparr>ext_base = main_region_begin, ext_size = main_region_size\<rparr>\<rparr>\<rparr>"

definition Reload :: "CheatEntry list \<Rightarrow> CheatEngine \<Rightarrow> CheatEngine" where
  "Reload reload_cheats ce = ce\<lparr>ce_cheats := reload_cheats, ce_is_pending_reload := True\<rparr>"

definition load_pending :: "CheatEngine \<Rightarrow> CheatEngine" where
  "load_pending ce =
     (if ce_is_pending_reload ce
      then ce\<lparr>ce_vm := snd (LoadProgram (ce_cheats ce) (ce_vm ce)), ce_is_pending_reload := False\<rparr>
      else ce)"

text \<open>
  A frame that does not return has no state afterwards: the result says whether the program ran into
  the fatal error of the machine or used up the fuel.
\<close>

definition FrameCallback ::
  "nat \<Rightarrow> CheatEngine \<Rightarrow> CheatWorld \<Rightarrow> VmFault option + CheatEngine \<times> CheatWorld" where
  "FrameCallback fuel ce w =
     (let ce = load_pending ce in
      if num_opcodes (ce_vm ce) = 0 then Inr (ce, w)
      else
        case Execute fuel (StandardVmCallbacks (ce_metadata ce)) (ce_metadata ce) (ce_vm ce) w of
          Finished vm w \<Rightarrow> Inr (ce\<lparr>ce_vm := vm\<rparr>, w)
        | Faulted e \<Rightarrow> Inl (Some e)
        | RunOutOfFuel \<Rightarrow> Inl None)"

end
