(* ===== verification/Cheat_Engine_Laws.thy ===== *)
theory Cheat_Engine_Laws
  imports Cheat_VM_Laws Cheat_Engine
begin

text \<open>
  What the cheat engine promises: the interface between the machine and the process it runs
  against with its law that an invariant of the callbacks is one of whole executions, its
  interpretation on the standard callbacks, and the properties of the text parser and of the frame
  callback.
\<close>

section \<open>What the machine can do to the process\<close>

text \<open>
  The interface of the machine to the process: an invariant of the world that every callback keeps.
  The client's result is that whole executions keep it.
\<close>

locale vm_callbacks =
  fixes cb :: "'w Callbacks" and inv :: "'w \<Rightarrow> bool"
  assumes inv_write: "inv w \<Longrightarrow> valid_width n \<Longrightarrow> inv (cb_MemoryWriteUnsafe cb w a v n)"
    and inv_keys: "inv w \<Longrightarrow> inv (snd (cb_HidKeysDown cb w))"
    and inv_pause: "inv w \<Longrightarrow> inv (cb_PauseProcess cb w)"
    and inv_resume: "inv w \<Longrightarrow> inv (cb_ResumeProcess cb w)"
    and inv_log: "inv w \<Longrightarrow> inv (cb_DebugLog cb w i v)"
begin

lemma inv_write_value: "inv w \<Longrightarrow> inv (write_value cb w a v n)"
  by (simp add: write_value_def inv_write)

lemma inv_skip_unless: "inv (snd s) \<Longrightarrow> skip_unless c s = Inr s' \<Longrightarrow> inv (snd s')"
  by (auto simp: skip_unless_def split: if_splits sum.splits)

lemma exec_inv:
  assumes "inv w" "exec_opcode cb metadata kDown op (vm, w) = Inr s'"
  shows "inv (snd s')"
  using assms
  by (cases op)
    (auto simp: exec_opcode_def exec_defs Let_def inv_write_value inv_pause inv_resume inv_log
      intro: inv_skip_unless [of "(vm, w)"]
      split: if_splits sum.splits SaveRestoreRegisterOpType.splits)

lemma steps_inv:
  assumes "vm_steps cb metadata kDown s s'" "inv (snd s)"
  shows "inv (snd s')"
  using assms
proof (induction rule: rtranclp_induct)
  case base
  then show ?case by simp
next
  case (step y z)
  have "inv (snd y)" by (rule step.IH [OF step.prems])
  from step.hyps(2) this show ?case
  proof cases
    case (step vm op vm1 w)
    have "inv w" using \<open>inv (snd y)\<close> step(1) by simp
    then show ?thesis by (rule exec_inv [OF _ step(3)])
  qed
qed

lemma Execute_inv:
  assumes "inv w" "cb_HidKeysDown cb w = (kDown, w1)"
  shows "vm_steps cb metadata kDown (ResetState vm, w1) (vm', w') \<Longrightarrow> inv w'"
    "Execute fuel cb metadata vm w = Finished vm' w' \<Longrightarrow> inv w'"
proof -
  have "inv w1" using inv_keys [OF assms(1)] assms(2) by simp
  then have steps: "inv w2" if "vm_steps cb metadata kDown (ResetState vm, w1) (vm2, w2)" for vm2 w2
    using steps_inv [OF that] by simp
  then show "vm_steps cb metadata kDown (ResetState vm, w1) (vm', w') \<Longrightarrow> inv w'" .
  assume "Execute fuel cb metadata vm w = Finished vm' w'"
  then have "run fuel cb metadata kDown (ResetState vm, w1) = Finished vm' w'"
    using assms(2) by (simp add: Execute_def)
  then obtain vm1 where "vm_steps cb metadata kDown (ResetState vm, w1) (vm1, w')"
    using run_steps [of fuel cb metadata kDown "(ResetState vm, w1)" vm' w'] by auto
  then show "inv w'" by (rule steps)
qed

end

text \<open>
  Where a write can land: an access is checked at its first byte only, so it can reach up to seven
  bytes past an address in range.
\<close>

definition writable :: "CheatProcessMetadata \<Rightarrow> CheatWorld \<Rightarrow> u64 \<Rightarrow> bool" where
  "writable metadata w a \<longleftrightarrow>
     w_process w \<and> w_mapped w a \<and> (\<exists>i<8. IsAddressInRange metadata (a - of_nat i))"

definition confined :: "CheatProcessMetadata \<Rightarrow> CheatWorld \<Rightarrow> CheatWorld \<Rightarrow> bool" where
  "confined metadata w0 w \<longleftrightarrow> w_process w = w_process w0 \<and> w_mapped w = w_mapped w0 \<and>
     w_contains w = w_contains w0 \<and>
     (\<forall>a. w_memory w a = w_memory w0 a \<or> writable metadata w0 a)"

lemma write_bytes_frame:
  "w_process (write_bytes bs a w) = w_process w \<and> w_mapped (write_bytes bs a w) = w_mapped w \<and>
   w_contains (write_bytes bs a w) = w_contains w"
  by (induction bs arbitrary: a w) auto

lemma write_bytes_memory:
  "w_memory (write_bytes bs a w) x = w_memory w x \<or>
   w_mapped w x \<and> (\<exists>i<length bs. x = a + of_nat i)"
proof (induction bs arbitrary: a w)
  case Nil
  then show ?case by simp
next
  case (Cons b bs)
  let ?w = "if w_mapped w a then w\<lparr>w_memory := (w_memory w)(a := b)\<rparr> else w"
  have fr: "w_mapped ?w = w_mapped w" by simp
  from Cons.IH [of "a + 1" ?w] consider "w_memory (write_bytes bs (a + 1) ?w) x = w_memory ?w x"
    | i where "w_mapped w x" "i < length bs" "x = a + 1 + of_nat i"
    unfolding fr by blast
  then show ?case
  proof cases
    case 1
    show ?thesis
    proof (cases "x = a \<and> w_mapped w a")
      case True
      then have "w_mapped w x \<and> 0 < length (b # bs) \<and> x = a + of_nat 0" by simp
      then show ?thesis by blast
    next
      case False
      with 1 show ?thesis by auto
    qed
  next
    case 2
    then have "Suc i < length (b # bs) \<and> x = a + of_nat (Suc i)" by simp
    with 2(1) show ?thesis by blast
  qed
qed

lemma std_write_confined:
  assumes "confined metadata w0 w" "valid_width n"
  shows "confined metadata w0 (std_MemoryWriteUnsafe metadata w a v n)"
proof (cases "accessible metadata w a \<and> w_contains w a (length (bytes_of v n))")
  case False
  with assms(1) show ?thesis
    by (auto simp: std_MemoryWriteUnsafe_def WriteBlock_def confined_def)
next
  case True
  let ?w = "write_bytes (bytes_of v n) a w"
  have n: "length (bytes_of v n) \<le> 8" using assms(2) by (auto simp: bytes_of_def valid_width_def)
  have "w_memory ?w x = w_memory w0 x \<or> writable metadata w0 x" for x
  proof -
    consider "w_memory ?w x = w_memory w x"
      | i where "w_mapped w x" "i < length (bytes_of v n)" "x = a + of_nat i"
      using write_bytes_memory [of "bytes_of v n" a w x] by blast
    then show ?thesis
    proof cases
      case 1
      with assms(1) show ?thesis by (simp add: confined_def)
    next
      case 2
      then have "x - of_nat i = a" "i < 8" using n by simp_all
      with 2 True assms(1) have "writable metadata w0 x"
        by (auto simp: writable_def accessible_def confined_def)
      then show ?thesis ..
    qed
  qed
  then have "confined metadata w0 ?w"
    using assms(1) write_bytes_frame [of "bytes_of v n" a w] by (simp add: confined_def)
  moreover have "confined metadata w0 (?w\<lparr>w_icache := c\<rparr>) \<longleftrightarrow> confined metadata w0 ?w" for c
    by (simp add: confined_def)
  ultimately show ?thesis
    using True by (simp add: std_MemoryWriteUnsafe_def WriteBlock_def Let_def)
qed

lemma confined_refl: "confined metadata w w"
  by (simp add: confined_def)

lemma confined_frame:
  "confined metadata w0 w \<Longrightarrow> w_process w' = w_process w \<Longrightarrow> w_mapped w' = w_mapped w \<Longrightarrow>
   w_contains w' = w_contains w \<Longrightarrow> w_memory w' = w_memory w \<Longrightarrow> confined metadata w0 w'"
  by (simp add: confined_def)

interpretation standard: vm_callbacks "StandardVmCallbacks metadata" "confined metadata w0"
  for metadata w0
proof (unfold_locales, goal_cases)
  case (1 w n a v)
  then show ?case by (simp add: StandardVmCallbacks_def std_write_confined)
next
  case (2 w)
  then show ?case
    by (auto simp: StandardVmCallbacks_def std_HidKeysDown_def intro: confined_frame
        split: option.splits)
next
  case (3 w)
  then show ?case
    by (auto simp: StandardVmCallbacks_def std_PauseProcess_def intro: confined_frame)
next
  case (4 w)
  then show ?case
    by (auto simp: StandardVmCallbacks_def std_ResumeProcess_def intro: confined_frame)
next
  case (5 w i v)
  then show ?case
    by (auto simp: StandardVmCallbacks_def std_DebugLog_def intro: confined_frame)
qed

text \<open>
  C9. Confinement of cheats: whatever the program, in every state that its execution with the standard
  callbacks passes through, whether it ends, faults later or never ends, no byte of the process's
  memory has changed except mapped bytes that lie in the regions of the metadata or at most seven
  bytes past an address in them, and the address space itself is untouched. The same holds of the
  state a finished execution leaves.
\<close>

theorem Execute_confined:
  assumes "std_HidKeysDown w = (kDown, w1)"
  shows "(\<forall>vm' w'. vm_steps (StandardVmCallbacks metadata) metadata kDown (ResetState vm, w1) (vm', w') \<or>
        (\<exists>fuel. Execute fuel (StandardVmCallbacks metadata) metadata vm w = Finished vm' w') \<longrightarrow>
      w_mapped w' = w_mapped w \<and> w_process w' = w_process w \<and>
      (\<forall>a. w_memory w' a \<noteq> w_memory w a \<longrightarrow> w_process w \<and> w_mapped w a \<and>
         (\<exists>i<8. IsAddressInRange metadata (a - of_nat i))))"
proof -
  have k: "cb_HidKeysDown (StandardVmCallbacks metadata) w = (kDown, w1)"
    using assms by (simp add: StandardVmCallbacks_def)
  have "confined metadata w w'"
    if "vm_steps (StandardVmCallbacks metadata) metadata kDown (ResetState vm, w1) (vm', w') \<or>
      (\<exists>fuel. Execute fuel (StandardVmCallbacks metadata) metadata vm w = Finished vm' w')" for vm' w'
    using that standard.Execute_inv [OF confined_refl k, where vm = vm and vm' = vm' and w' = w'] by blast
  then show ?thesis by (auto simp: confined_def writable_def)
qed

definition sample_world :: CheatWorld where
  "sample_world =
     \<lparr>w_process = True, w_contains = \<lambda>_ _. True, w_mapped = \<lambda>_. True, w_memory = \<lambda>_. 0,
      w_suspended = False, w_press_state = Some 0, w_icache = [], w_log = []\<rparr>"

definition sample_metadata :: CheatProcessMetadata where
  "sample_metadata = no_metadata\<lparr>main_nso_extents := \<lparr>ext_base = 0x1000, ext_size = 0x100\<rparr>\<rparr>"

text \<open>The instance stores a word just inside the main region, through a single instruction.\<close>

definition store_program :: "u32 list" where
  "store_program = [0x04000000, 0x10, 0xABCD]"

definition store_result :: CheatWorld where
  "store_result =
     std_MemoryWriteUnsafe sample_metadata sample_world 0x1010 0xABCD 4"

abbreviation store_vm :: DmntCheatVm where
  "store_vm \<equiv> ResetState (sample_vm store_program)"

lemma store_decode:
  "DecodeNextOpcode store_vm =
     (Some \<lparr>begin_conditional_block = False,
        the_opcode = StoreStaticOpcode 4 MainNso 0 0x10 0xABCD\<rparr>,
      store_vm\<lparr>instruction_ptr := 3\<rparr>)"
  by (simp add: decode_simps decode_StoreStatic_def MemoryAccessType_of_def ResetState_def
      sample_vm_def store_program_def)

lemma store_decode_end:
  "\<exists>vm'. DecodeNextOpcode (store_vm\<lparr>instruction_ptr := 3\<rparr>) = (None, vm')"
  by (simp add: decode_simps ResetState_def sample_vm_def store_program_def)

lemma store_exec:
  "exec_opcode (StandardVmCallbacks sample_metadata) sample_metadata 0
     (StoreStaticOpcode 4 MainNso 0 0x10 0xABCD) (store_vm\<lparr>instruction_ptr := 3\<rparr>, sample_world) =
   Inr (store_vm\<lparr>instruction_ptr := 3\<rparr>, store_result)"
  by (simp add: exec_opcode_def exec_StoreStatic_def write_value_def valid_width_def GetVmInt_def
      GetCheatProcessAddress_def sample_metadata_def no_metadata_def store_result_def
      StandardVmCallbacks_def ResetState_def NumRegisters_def Let_def)

lemma store_finishes:
  "\<exists>vm'. Execute (Suc (Suc n)) (StandardVmCallbacks sample_metadata) sample_metadata
     (sample_vm store_program) sample_world = Finished vm' store_result"
proof -
  obtain vm' where e: "DecodeNextOpcode (store_vm\<lparr>instruction_ptr := 3\<rparr>) = (None, vm')"
    using store_decode_end ..
  have "cb_HidKeysDown (StandardVmCallbacks sample_metadata) sample_world = (0, sample_world)"
    by (simp add: StandardVmCallbacks_def std_HidKeysDown_def sample_world_def)
  then show ?thesis
    by (simp add: Execute_def store_decode enter_opcode_def store_exec e)
qed

lemma store_bytes: "w_memory store_result 0x1010 = 0xCD"
  by (simp add: store_result_def std_MemoryWriteUnsafe_def accessible_def IsAddressInRange_def
      in_extents_def sample_metadata_def no_metadata_def sample_world_def WriteBlock_def
      bytes_of_def upt_conv_Cons Let_def)

theorem Execute_confined_witness:
  "w_memory store_result 0x1010 = 0xCD \<and> w_memory store_result 0x1200 = 0"
proof -
  obtain vm' where "Execute 2 (StandardVmCallbacks sample_metadata) sample_metadata
     (sample_vm store_program) sample_world = Finished vm' store_result"
    using store_finishes [of 0] unfolding numeral_2_eq_2 by blast
  moreover have "std_HidKeysDown sample_world = (0, sample_world)"
    by (simp add: std_HidKeysDown_def sample_world_def)
  ultimately have "w_memory store_result 0x1200 = w_memory sample_world 0x1200 \<or>
      (\<exists>i<8. IsAddressInRange sample_metadata (0x1200 - of_nat i))"
    using Execute_confined [of sample_world 0 sample_world sample_metadata "sample_vm store_program"] by blast
  moreover have "\<not> IsAddressInRange sample_metadata (0x1200 - of_nat i)" if "i < 8" for i
  proof -
    from that have "i \<in> {0, 1, 2, 3, 4, 5, 6, 7}" by auto
    then show ?thesis
      by (auto simp: IsAddressInRange_def in_extents_def sample_metadata_def no_metadata_def Let_def)
  qed
  ultimately show ?thesis using store_bytes by (auto simp: sample_world_def)
qed

section \<open>The parser\<close>

text \<open>What the loop keeps: entries that fit their arrays and a current entry that exists.\<close>

definition name_ok :: "CheatEntry \<Rightarrow> bool" where
  "name_ok e \<longleftrightarrow> length (readable_name (cheat_definition e)) = ReadableNameSize \<and>
     readable_name (cheat_definition e) ! (ReadableNameSize - 1) = CHR 0x00"

definition parse_state_ok :: "nat option \<Rightarrow> CheatEntry list \<Rightarrow> bool" where
  "parse_state_ok cur out \<longleftrightarrow> out \<noteq> [] \<and> (\<forall>e\<in>set out. entry_ok e \<and> name_ok e) \<and>
     (\<forall>i. cur = Some i \<longrightarrow> i < length out)"

lemma new_CheatEntry_ok [simp]: "entry_ok new_CheatEntry" "name_ok new_CheatEntry"
  by (simp_all add: entry_ok_def name_ok_def new_CheatEntry_def ReadableNameSize_def
      MaxDefinitionOpcodes_def)

lemma set_name_ok [simp]:
  "entry_ok (set_name name e) \<longleftrightarrow> entry_ok e"
  "name_ok e \<Longrightarrow> name_ok (set_name name e)"
  by (auto simp: entry_ok_def name_ok_def set_name_def Let_def ReadableNameSize_def)

lemma push_opcode_ok [simp]:
  "entry_ok e \<Longrightarrow> def_num_opcodes (cheat_definition e) < MaxDefinitionOpcodes \<Longrightarrow>
     entry_ok (push_opcode v e)"
  "name_ok (push_opcode v e) \<longleftrightarrow> name_ok e"
  by (auto simp: entry_ok_def name_ok_def push_opcode_def Let_def)

lemma parse_state_ok_update:
  "parse_state_ok cur out \<Longrightarrow> i < length out \<Longrightarrow> entry_ok e \<Longrightarrow> name_ok e \<Longrightarrow>
   (\<forall>j. cur' = Some j \<longrightarrow> j < length out) \<Longrightarrow> parse_state_ok cur' (out[i := e])"
  using set_update_subset_insert [of out i e] by (auto simp: parse_state_ok_def)

lemma parse_state_ok_nth:
  "parse_state_ok cur out \<Longrightarrow> i < length out \<Longrightarrow> entry_ok (out ! i) \<and> name_ok (out ! i)"
  by (simp add: parse_state_ok_def)

lemma parse_state_ok_snoc:
  "parse_state_ok cur out \<Longrightarrow> entry_ok e \<Longrightarrow> name_ok e \<Longrightarrow>
   parse_state_ok (Some (length out)) (out @ [e])"
  by (auto simp: parse_state_ok_def)

lemma parse_loop_ok:
  assumes "parse_state_ok cur out" "parse_loop data i cur out = Inr (Some res)"
  shows "\<forall>e\<in>set res. entry_ok e \<and> name_ok e"
  using assms
proof (induction "length data - i" arbitrary: i cur out rule: less_induct)
  case less
  note state = less.prems(1)
  have out0: "0 < length out" using state by (simp add: parse_state_ok_def)
  show ?case
  proof (cases "length data \<le> i")
    case True
    with less.prems show ?thesis by (simp add: parse_loop.simps [of data i] parse_state_ok_def)
  next
    case False
    have IH: "\<forall>e\<in>set res. entry_ok e \<and> name_ok e"
      if "parse_loop data (i + Suc n) cur' out' = Inr (Some res)" "parse_state_ok cur' out'"
      for n cur' out'
      using less.hyps [OF _ that(2,1)] False by simp
    have rename: "parse_state_ok (Some 0) (out[0 := set_name name (out ! 0)])" for name
      using parse_state_ok_update [OF state out0, of _ "Some 0"]
        parse_state_ok_nth [OF state out0] out0 by simp
    have add: "parse_state_ok (Some (length out)) (out @ [set_name name new_CheatEntry])" for name
      by (rule parse_state_ok_snoc [OF state]) simp_all
    have push: "parse_state_ok cur (out[k := push_opcode v (out ! k)])"
      if "cur = Some k" "\<not> MaxDefinitionOpcodes \<le> entry_opcodes out k" for k v
    proof -
      have "k < length out" using that(1) state by (simp add: parse_state_ok_def)
      with that parse_state_ok_update [OF state, of k _ cur] parse_state_ok_nth [OF state, of k]
      show ?thesis by simp
    qed
    from less.prems(2) False rename add push IH [of 0 cur out] IH [of 8] IH [of "Suc n" for n] state
    show ?thesis
      by (subst (asm) parse_loop.simps)
        (fastforce simp: Let_def split: if_splits sum.splits option.splits)
  qed
qed

lemma Parse_ok:
  assumes "Parse data = Inr entries"
  shows "\<forall>i<length entries. entry_ok (entries ! i) \<and> name_ok (entries ! i) \<and>
    cheat_id (entries ! i) = i \<and> (enabled (entries ! i) \<longleftrightarrow> 0 < entry_opcodes entries i)"
proof (cases "entries = []")
  case False
  with assms obtain out where p: "parse_loop data 0 None [new_CheatEntry] = Inr (Some out)"
    "entries = finish_entries out"
    by (auto simp: Parse_def split: sum.splits option.splits)
  have "\<forall>e\<in>set out. entry_ok e \<and> name_ok e"
    by (rule parse_loop_ok [OF _ p(1)]) (simp add: parse_state_ok_def)
  with p(2) show ?thesis by (simp add: finish_entries_def entry_ok_def name_ok_def)
qed simp

text \<open>
  C35. Whatever the text, the entries the parser returns are safe to load: each is numbered by its
  position, enabled exactly when it has instructions, keeps its instruction count within its
  array and its name a terminated string of the array's size.
\<close>

theorem Parse_entries_ok:
  assumes "Parse data = Inr entries" "i < length entries"
  shows "entry_ok (entries ! i) \<and> cheat_id (entries ! i) = i \<and>
    (enabled (entries ! i) \<longleftrightarrow> 0 < entry_opcodes entries i) \<and>
    length (readable_name (cheat_definition (entries ! i))) = ReadableNameSize \<and>
    readable_name (cheat_definition (entries ! i)) ! (ReadableNameSize - 1) = CHR 0x00"
  using Parse_ok [OF assms(1)] assms(2) by (simp add: name_ok_def)

section \<open>The text form of cheats\<close>

definition hex_char :: "nat \<Rightarrow> char" where
  "hex_char n = char_of (if n < 10 then 48 + n else 55 + n)"

fun hexits :: "nat \<Rightarrow> nat \<Rightarrow> string" where
  "hexits 0 n = []"
| "hexits (Suc k) n = hexits k (n div 16) @ [hex_char (n mod 16)]"

definition print_word :: "u32 \<Rightarrow> string" where
  "print_word w = hexits 8 (unat w) @ '' ''"

definition print_cheat :: "string \<times> u32 list \<Rightarrow> string" where
  "print_cheat c = ''['' @ fst c @ '']'' @ concat (map print_word (snd c))"

lemma hex_digit_char: "n < 16 \<Longrightarrow> hex_digit (hex_char n) = Some n"
  by (auto simp: hex_digit_def hex_char_def Let_def)

lemma length_hexits [simp]: "length (hexits k n) = k"
  by (induction k arbitrary: n) auto

lemma hexits_digits: "c \<in> set (hexits k n) \<Longrightarrow> is_xdigit c"
  by (induction k arbitrary: n) (auto simp: is_xdigit_def hex_digit_char)

lemma hex_value_hexits: "hex_value (hexits k n) = n mod 16 ^ k"
proof (induction k arbitrary: n)
  case 0
  then show ?case by (simp add: hex_value_def)
next
  case (Suc k)
  have "hex_value (hexits (Suc k) n) = hex_value (hexits k (n div 16)) * 16 + n mod 16"
    by (simp add: hex_value_def hex_digit_char)
  also have "\<dots> = n mod 16 ^ Suc k"
    using Suc.IH by (simp add: mod_mult2_eq)
  finally show ?case .
qed

lemma hex_value_word: "word_of_nat (hex_value (hexits 8 (unat w))) = (w :: u32)"
proof -
  have "unat w < 16 ^ 8" using unsigned_less [of w] by simp
  then show ?thesis by (simp add: hex_value_hexits)
qed

lemma xdigit_no_space: "is_xdigit c \<Longrightarrow> \<not> is_space c \<and> c \<noteq> CHR ''{'' \<and> c \<noteq> CHR ''[''"
  by (auto simp: is_xdigit_def is_space_def hex_digit_def Let_def split: if_splits)

lemma drop_front:
  assumes "drop i data = c # rest"
  shows "i < length data" "data ! i = c" "drop (i + 1) data = rest"
proof -
  show l: "i < length data" using assms by (metis drop_all list.distinct(1) not_le)
  show "data ! i = c" "drop (i + 1) data = rest"
    using assms Cons_nth_drop_Suc [OF l] by simp_all
qed

lemma parse_word:
  assumes "drop i data = print_word w @ rest" "entry_opcodes out k < MaxDefinitionOpcodes"
  shows "parse_loop data i (Some k) out =
      parse_loop data (i + 9) (Some k) (out[k := push_opcode w (out ! k)])"
    and "drop (i + 9) data = rest"
proof -
  have len: "length (print_word w) = 9" by (simp add: print_word_def)
  then obtain c cs where c: "print_word w = c # cs" by (cases "print_word w") auto
  have front: "i < length data" "data ! i = c" using drop_front [of i data c] assms(1) c by auto
  have hex: "take 8 (drop i data) = hexits 8 (unat w)"
    unfolding assms(1) by (simp add: print_word_def)
  have "c = hexits 8 (unat w) ! 0" using c by (metis print_word_def length_hexits nth_append nth_Cons_0 zero_less_numeral)
  then have x: "is_xdigit c" by (metis hexits_digits length_hexits nth_mem zero_less_numeral)
  show "parse_loop data i (Some k) out =
      parse_loop data (i + 9) (Some k) (out[k := push_opcode w (out ! k)])"
    using front x xdigit_no_space [OF x] hex assms(2) hexits_digits [of _ 8 "unat w"]
    by (simp add: parse_loop.simps [of data i] hex_value_word list_all_iff Let_def)
  have "drop (i + 9) data = drop 9 (drop i data)" by (simp add: add.commute)
  also have "\<dots> = rest" using len by (simp add: assms(1))
  finally show "drop (i + 9) data = rest" .
qed

lemma push_opcode_count [simp]:
  "def_num_opcodes (cheat_definition (push_opcode w e)) = Suc (def_num_opcodes (cheat_definition e))"
  by (simp add: push_opcode_def Let_def)

lemma parse_words:
  assumes "drop i data = concat (map print_word ws) @ rest" "k < length out"
    and "entry_opcodes out k + length ws \<le> MaxDefinitionOpcodes"
  shows "\<exists>j. parse_loop data i (Some k) out =
      parse_loop data j (Some k) (out[k := fold push_opcode ws (out ! k)]) \<and> drop j data = rest"
  using assms
proof (induction ws arbitrary: i out)
  case Nil
  then show ?case by (intro exI [where x = i]) simp
next
  case (Cons w ws)
  let ?out = "out[k := push_opcode w (out ! k)]"
  have w: "drop i data = print_word w @ concat (map print_word ws) @ rest"
    "entry_opcodes out k < MaxDefinitionOpcodes" using Cons.prems by simp_all
  note parse_word [OF w]
  with Cons.IH [of "i + 9" ?out] Cons.prems show ?case by simp
qed

lemma find_char_at: "m \<notin> set xs \<Longrightarrow> find_char m (xs @ m # ys) = Inr (length xs)"
  by (induction xs) auto

lemma parse_name:
  assumes "drop i data = ''['' @ name @ '']'' @ rest" "name \<noteq> []" "CHR '']'' \<notin> set name"
  shows "parse_loop data i cur out =
      parse_loop data (i + length name + 2) (Some (length out)) (out @ [set_name name new_CheatEntry])"
    and "drop (i + length name + 2) data = rest"
proof -
  have f: "i < length data" "data ! i = CHR ''[''" "drop (i + 1) data = name @ CHR '']'' # rest"
    using drop_front [of i data "CHR ''[''" "name @ CHR '']'' # rest"] assms(1) by auto
  have n: "ExtractName data (i + 1) (CHR '']'') =
      Inr (length name, take (min (length name) ReadableNameSize) name)"
    unfolding ExtractName_def f(3) by (simp add: find_char_at assms(3))
  have s: "set_name (take (min (length name) ReadableNameSize) name) e = set_name name e" for e
    by (simp add: set_name_def min.commute)
  have ne: "take (min (length name) ReadableNameSize) name \<noteq> []"
    using assms(2) by (simp add: ReadableNameSize_def)
  show "parse_loop data i cur out =
      parse_loop data (i + length name + 2) (Some (length out)) (out @ [set_name name new_CheatEntry])"
    using f(1,2) n s ne by (auto simp: parse_loop.simps [of data i] is_space_def Let_def min_def)
  have "drop (i + length name + 2) data = drop (length name + 1) (drop (i + 1) data)"
    by (simp add: algebra_simps)
  also have "\<dots> = rest" unfolding f(3) by simp
  finally show "drop (i + length name + 2) data = rest" .
qed

definition cheat_of :: "string \<times> u32 list \<Rightarrow> CheatEntry" where
  "cheat_of c = fold push_opcode (snd c) (set_name (fst c) new_CheatEntry)"

definition printable :: "string \<times> u32 list \<Rightarrow> bool" where
  "printable c \<longleftrightarrow> fst c \<noteq> [] \<and> CHR '']'' \<notin> set (fst c) \<and> length (snd c) \<le> MaxDefinitionOpcodes"

lemma parse_cheats:
  assumes "drop i data = concat (map print_cheat cs)" "\<forall>c\<in>set cs. printable c"
  shows "parse_loop data i cur out = Inr (Some (out @ map cheat_of cs))"
  using assms
proof (induction cs arbitrary: i cur out)
  case Nil
  then show ?case by (simp add: parse_loop.simps [of data i])
next
  case (Cons c cs)
  let ?e = "set_name (fst c) new_CheatEntry"
  let ?rest = "concat (map print_cheat cs)"
  have ok: "printable c" using Cons.prems(2) by simp
  have d: "drop i data = ''['' @ fst c @ '']'' @ concat (map print_word (snd c)) @ ?rest"
    using Cons.prems(1) by (simp add: print_cheat_def [of c])
  note name = parse_name [OF d]
  have "entry_opcodes (out @ [?e]) (length out) = 0"
    by (simp add: set_name_def new_CheatEntry_def Let_def)
  then obtain j where j: "parse_loop data (i + length (fst c) + 2) (Some (length out)) (out @ [?e]) =
      parse_loop data j (Some (length out)) (out @ [cheat_of c])" "drop j data = ?rest"
    using parse_words [OF name(2), of "length out" "out @ [?e]"] ok
    by (auto simp: printable_def cheat_of_def)
  with name(1) Cons.IH [OF j(2)] Cons.prems(2) ok show ?case by (simp add: printable_def)
qed

lemma fold_push:
  assumes "def_num_opcodes (cheat_definition e) + length ws \<le> MaxDefinitionOpcodes"
    "length (def_opcodes (cheat_definition e)) = MaxDefinitionOpcodes"
  shows "let d = cheat_definition (fold push_opcode ws e) in
    def_num_opcodes d = def_num_opcodes (cheat_definition e) + length ws \<and>
    length (def_opcodes d) = MaxDefinitionOpcodes \<and>
    take (def_num_opcodes d) (def_opcodes d) =
      take (def_num_opcodes (cheat_definition e)) (def_opcodes (cheat_definition e)) @ ws \<and>
    readable_name d = readable_name (cheat_definition e)"
  using assms
proof (induction ws arbitrary: e)
  case Nil
  then show ?case by (simp add: Let_def)
next
  case (Cons w ws)
  let ?n = "def_num_opcodes (cheat_definition e)" and ?ops = "def_opcodes (cheat_definition e)"
  have d: "cheat_definition (push_opcode w e) =
      (cheat_definition e)\<lparr>def_opcodes := ?ops[?n := w], def_num_opcodes := Suc ?n\<rparr>"
    by (simp add: push_opcode_def Let_def)
  have t: "take (Suc ?n) (?ops[?n := w]) = take ?n ?ops @ [w]"
    using Cons.prems by (simp add: take_Suc_conv_app_nth)
  from Cons.IH [of "push_opcode w e"] Cons.prems show ?case by (auto simp: Let_def d t)
qed

lemma set_name_readable:
  "readable_name (cheat_definition (set_name name new_CheatEntry)) =
     take (ReadableNameSize - 1) (name @ replicate ReadableNameSize CHR 0x00) @ [CHR 0x00]"
  by (rule nth_equalityI)
    (auto simp: set_name_def new_CheatEntry_def Let_def ReadableNameSize_def nth_list_update
      nth_append min_def)

lemma cheat_of_fields:
  assumes "printable c"
  shows "def_num_opcodes (cheat_definition (cheat_of c)) = length (snd c)"
    "take (length (snd c)) (def_opcodes (cheat_definition (cheat_of c))) = snd c"
    "readable_name (cheat_definition (cheat_of c)) =
       take (ReadableNameSize - 1) (fst c @ replicate ReadableNameSize CHR 0x00) @ [CHR 0x00]"
  using fold_push [of "set_name (fst c) new_CheatEntry" "snd c"] assms
    set_name_readable [of "fst c"]
  by (auto simp: cheat_of_def printable_def Let_def set_name_def new_CheatEntry_def)

lemma Parse_printed:
  assumes "\<forall>c\<in>set cs. printable c"
  shows "Parse (concat (map print_cheat cs)) = Inr (finish_entries (new_CheatEntry # map cheat_of cs))"
  using parse_cheats [of 0 "concat (map print_cheat cs)" cs None "[new_CheatEntry]"] assms
  by (simp add: Parse_def)

lemma finish_entries_Cons:
  "entry_words (finish_entries out ! i) =
     take (entry_opcodes out i) (def_opcodes (cheat_definition (out ! i)))"
  "cheat_definition (finish_entries out ! i) = cheat_definition (out ! i)"
  if "i < length out"
  using that by (simp_all add: finish_entries_def entry_words_def)

lemma printed_words:
  assumes "\<forall>c\<in>set cs. printable c"
  shows "map entry_words (finish_entries (new_CheatEntry # map cheat_of cs)) = [] # map snd cs"
proof (rule nth_equalityI)
  let ?out = "new_CheatEntry # map cheat_of cs"
  have len: "length (finish_entries ?out) = length ?out" by (simp add: finish_entries_def)
  then show "length (map entry_words (finish_entries ?out)) = length ([] # map snd cs)" by simp
  fix i assume "i < length (map entry_words (finish_entries ?out))"
  then have i: "i < length ?out" using len by simp
  then show "map entry_words (finish_entries ?out) ! i = ([] # map snd cs) ! i"
    using finish_entries_Cons(1) [OF i] len assms cheat_of_fields [of "cs ! (i - 1)"]
    by (cases i) (simp_all add: new_CheatEntry_def)
qed

text \<open>
  C34. Printing cheats and parsing the text gives them back, behind the entry of the master cheat:
  the instruction words exactly, the names up to the size of their array.
\<close>

theorem Parse_print:
  assumes "\<forall>c\<in>set cs. printable c"
  shows "\<exists>entries. Parse (concat (map print_cheat cs)) = Inr entries \<and>
    map entry_words entries = [] # map snd cs \<and>
    (\<forall>i<length cs. readable_name (cheat_definition (entries ! Suc i)) =
       take (ReadableNameSize - 1) (fst (cs ! i) @ replicate ReadableNameSize CHR 0x00) @ [CHR 0x00])"
proof (intro exI conjI allI impI)
  let ?out = "new_CheatEntry # map cheat_of cs"
  show "Parse (concat (map print_cheat cs)) = Inr (finish_entries ?out)"
    by (rule Parse_printed [OF assms])
  show "map entry_words (finish_entries ?out) = [] # map snd cs" by (rule printed_words [OF assms])
  fix i assume "i < length cs"
  with finish_entries_Cons(2) [of "Suc i" ?out] cheat_of_fields(3) [of "cs ! i"] assms
  show "readable_name (cheat_definition (finish_entries ?out ! Suc i)) =
     take (ReadableNameSize - 1) (fst (cs ! i) @ replicate ReadableNameSize CHR 0x00) @ [CHR 0x00]"
    by simp
qed

definition sample_cheats :: "(string \<times> u32 list) list" where
  "sample_cheats = [(''Inf HP'', [0x04000000, 0x10, 0xABCD]), (''x'', [0x20000000])]"

lemma hexits_numeral:
  "hexits (numeral k) n = hexits (pred_numeral k) (n div 16) @ [hex_char (n mod 16)]"
  by (simp only: numeral_eq_Suc [of k] hexits.simps)

lemma hex_char_table:
  "hex_char 0 = CHR ''0''" "hex_char 1 = CHR ''1''" "hex_char 2 = CHR ''2''"
  "hex_char 4 = CHR ''4''" "hex_char 10 = CHR ''A''" "hex_char 11 = CHR ''B''"
  "hex_char 12 = CHR ''C''" "hex_char 13 = CHR ''D''"
  by code_simp+

theorem Parse_print_witness:
  "concat (map print_cheat sample_cheats) = ''[Inf HP]04000000 00000010 0000ABCD [x]20000000 '' \<and>
   (\<exists>entries. Parse ''[Inf HP]04000000 00000010 0000ABCD [x]20000000 '' = Inr entries \<and>
      map entry_words entries = [[], [0x04000000, 0x10, 0xABCD], [0x20000000]])"
proof -
  have p: "concat (map print_cheat sample_cheats) =
      ''[Inf HP]04000000 00000010 0000ABCD [x]20000000 ''"
    by (simp add: print_cheat_def sample_cheats_def print_word_def hexits_numeral
        hex_char_table [unfolded One_nat_def])
  have "\<forall>c\<in>set sample_cheats. printable c"
    by (simp add: sample_cheats_def printable_def MaxDefinitionOpcodes_def)
  from Parse_print [OF this] p show ?thesis by (auto simp: sample_cheats_def)
qed

theorem Parse_entries_ok_witness:
  "\<exists>entries. Parse (concat (map print_cheat sample_cheats)) = Inr entries \<and>
     cheat_id (entries ! 2) = 2 \<and> entry_ok (entries ! 2)"
proof -
  have "\<forall>c\<in>set sample_cheats. printable c"
    by (simp add: sample_cheats_def printable_def MaxDefinitionOpcodes_def)
  note p = Parse_printed [OF this]
  have "2 < length (finish_entries (new_CheatEntry # map cheat_of sample_cheats))"
    by (simp add: finish_entries_def sample_cheats_def)
  with Parse_entries_ok [OF p] p show ?thesis by blast
qed

section \<open>A frame\<close>

definition engine_ok :: "CheatEngine \<Rightarrow> bool" where
  "engine_ok ce \<longleftrightarrow> length (program (ce_vm ce)) = MaximumProgramOpcodeCount \<and>
     num_opcodes (ce_vm ce) \<le> MaximumProgramOpcodeCount \<and>
     length (static_registers (ce_vm ce)) = NumStaticRegisters \<and>
     (\<forall>e\<in>set (ce_cheats ce). entry_ok e)"

definition cheat_words :: "CheatEntry list \<Rightarrow> u32 list" where
  "cheat_words entries =
     (let ws = concat (map entry_words entries) in
      if length ws \<le> MaximumProgramOpcodeCount then ws else [])"

lemma LoadProgram_result:
  assumes "\<forall>e\<in>set es. entry_ok e" "length (program vm) = MaximumProgramOpcodeCount"
  shows "let vm' = snd (LoadProgram es vm) in
    length (program vm') = MaximumProgramOpcodeCount \<and> num_opcodes vm' \<le> MaximumProgramOpcodeCount \<and>
    static_registers vm' = static_registers vm \<and> loaded_words vm' = cheat_words es"
  using load_entries_spec [OF assms(1), of "vm\<lparr>num_opcodes := 0\<rparr>"] assms(2)
  by (cases "LoadProgram es vm") (auto simp: LoadProgram_def loaded_words_def cheat_words_def Let_def)

lemma load_pending_ok:
  assumes "engine_ok ce"
  shows "engine_ok (load_pending ce)" "\<not> ce_is_pending_reload (load_pending ce)"
    "ce_cheats (load_pending ce) = ce_cheats ce"
    "loaded_words (ce_vm (load_pending ce)) =
       (if ce_is_pending_reload ce then cheat_words (ce_cheats ce) else loaded_words (ce_vm ce))"
  using assms LoadProgram_result [of "ce_cheats ce" "ce_vm ce"]
  by (auto simp: engine_ok_def load_pending_def Let_def)

lemma Execute_keeps:
  assumes "engine_ok ce" "Execute fuel cb metadata (ce_vm ce) w = Finished vm' w'"
  shows "engine_ok (ce\<lparr>ce_vm := vm'\<rparr>)" "loaded_words vm' = loaded_words (ce_vm ce)"
proof -
  have ok: "vm_ok (ResetState (ce_vm ce))"
    using assms(1) by (simp add: vm_ok_ResetState engine_ok_def)
  from assms(2) obtain kDown w1 where
    "run fuel cb metadata kDown (ResetState (ce_vm ce), w1) = Finished vm' w'"
    by (auto simp: Execute_def split: prod.splits)
  from run_ok [OF ok this] have "vm_step_ok (ResetState (ce_vm ce)) vm'" .
  then show "engine_ok (ce\<lparr>ce_vm := vm'\<rparr>)" "loaded_words vm' = loaded_words (ce_vm ce)"
    using assms(1) by (auto simp: engine_ok_def vm_step_ok_def vm_ok_def loaded_words_def ResetState_def)
qed

lemma load_pending_frame: "load_pending ce = ce\<lparr>ce_vm := ce_vm (load_pending ce), ce_is_pending_reload := False\<rparr>"
  by (simp add: load_pending_def)

text \<open>
  What happens between two reloads: frames that return, each in whatever world the program has left by
  then, and changes of the parameters of the main region.
\<close>

inductive engine_step :: "CheatEngine \<Rightarrow> CheatEngine \<Rightarrow> bool" where
  frame: "FrameCallback fuel ce w = Inr (ce', w') \<Longrightarrow> engine_step ce ce'"
| parameters: "engine_step ce (SetMainMemoryParameters a n ce)"

definition carries :: "u32 list \<Rightarrow> CheatEngine \<Rightarrow> bool" where
  "carries ws ce \<longleftrightarrow> engine_ok ce \<and> loaded_words (ce_vm (load_pending ce)) = ws"

lemma carries_settled: "engine_ok ce \<Longrightarrow> \<not> ce_is_pending_reload ce \<Longrightarrow> carries ws ce \<longleftrightarrow> loaded_words (ce_vm ce) = ws"
  by (simp add: carries_def load_pending_def)

lemma engine_step_carries:
  assumes "engine_step ce ce'" "carries ws ce"
  shows "carries ws ce'"
  using assms
proof (cases rule: engine_step.cases)
  case (frame fuel w w')
  define ce1 where "ce1 = load_pending ce"
  have ok: "engine_ok ce1" "\<not> ce_is_pending_reload ce1" "loaded_words (ce_vm ce1) = ws"
    using assms(2) load_pending_ok [of ce] by (simp_all add: carries_def ce1_def)
  note run = frame [unfolded FrameCallback_def Let_def, folded ce1_def]
  show ?thesis
  proof (cases "num_opcodes (ce_vm ce1) = 0")
    case True
    then have "ce' = ce1" using run by simp
    with ok show ?thesis by (simp add: carries_settled)
  next
    case False
    then obtain vm' where vm': "Execute fuel (StandardVmCallbacks (ce_metadata ce1)) (ce_metadata ce1) (ce_vm ce1) w = Finished vm' w'"
      "ce' = ce1\<lparr>ce_vm := vm'\<rparr>"
      using run by (cases "Execute fuel (StandardVmCallbacks (ce_metadata ce1)) (ce_metadata ce1) (ce_vm ce1) w") simp_all
    from Execute_keeps [OF ok(1) vm'(1)] vm'(2) ok show ?thesis by (simp add: carries_settled)
  qed
next
  case (parameters a n)
  with assms(2) show ?thesis
    by (cases "ce_is_pending_reload ce") (simp_all add: carries_def engine_ok_def SetMainMemoryParameters_def load_pending_def)
qed

lemma engine_steps_carry: "engine_step\<^sup>*\<^sup>* ce ce' \<Longrightarrow> carries ws ce \<Longrightarrow> carries ws ce'"
  by (induction rule: rtranclp_induct) (auto intro: engine_step_carries)

text \<open>
  C32. From text to execution: after cheats parsed from any text are handed to \<open>Reload\<close>, every later
  frame, until the next reload, executes a machine that has exactly their words loaded, in order and
  within the program array, under the metadata of the moment; or does nothing when there are no words
  or they do not fit the array. It returns when that execution finishes, and then keeps the machine
  the execution leaves.
\<close>

theorem Reload_then_frames:
  assumes "engine_ok ce" "Parse data = Inr entries" "engine_step\<^sup>*\<^sup>* (Reload entries ce) ce'"
  shows "\<exists>vm. loaded_words vm = cheat_words entries \<and> length (program vm) = MaximumProgramOpcodeCount \<and>
    FrameCallback fuel ce' w =
      (if cheat_words entries = [] then Inr (ce'\<lparr>ce_vm := vm, ce_is_pending_reload := False\<rparr>, w)
       else case Execute fuel (StandardVmCallbacks (ce_metadata ce')) (ce_metadata ce') vm w of
              Finished vm' w' \<Rightarrow> Inr (ce'\<lparr>ce_vm := vm', ce_is_pending_reload := False\<rparr>, w')
            | Faulted e \<Rightarrow> Inl (Some e)
            | RunOutOfFuel \<Rightarrow> Inl None)"
proof -
  have "\<forall>e\<in>set entries. entry_ok e"
    using Parse_ok [OF assms(2)] by (simp add: all_set_conv_all_nth)
  then have r: "engine_ok (Reload entries ce)" using assms(1) by (simp add: engine_ok_def Reload_def)
  then have "carries (cheat_words entries) (Reload entries ce)"
    using load_pending_ok(4) [OF r] by (simp add: carries_def) (simp add: Reload_def)
  from engine_steps_carry [OF assms(3) this] have c: "carries (cheat_words entries) ce'" .
  define vm where "vm = ce_vm (load_pending ce')"
  have l: "load_pending ce' = ce'\<lparr>ce_vm := vm, ce_is_pending_reload := False\<rparr>"
    unfolding vm_def by (rule load_pending_frame)
  have vm: "loaded_words vm = cheat_words entries" "length (program vm) = MaximumProgramOpcodeCount"
    "num_opcodes vm \<le> MaximumProgramOpcodeCount"
    using c load_pending_ok(1) [of ce'] by (simp_all add: carries_def vm_def engine_ok_def)
  have "num_opcodes vm = 0 \<longleftrightarrow> cheat_words entries = []"
    unfolding vm(1) [symmetric] loaded_words_def using vm(2,3) by (auto simp: take_eq_Nil)
  with vm(1,2) show ?thesis
    by (intro exI [of _ vm]) (auto simp: FrameCallback_def l split: run_result.split)
qed

definition sample_engine :: CheatEngine where
  "sample_engine = \<lparr>ce_vm = new_DmntCheatVm, ce_metadata = no_metadata, ce_cheats = [],
     ce_is_pending_reload = False\<rparr>"

text \<open>The instance is the first frame after the cheats of the example are loaded.\<close>

theorem Reload_then_frames_witness:
  "\<exists>entries vm. Parse (concat (map print_cheat sample_cheats)) = Inr entries \<and>
     loaded_words vm = [0x04000000, 0x10, 0xABCD, 0x20000000] \<and>
     (\<forall>vm' w'. Execute 9 (StandardVmCallbacks no_metadata) no_metadata vm sample_world = Finished vm' w' \<longrightarrow>
        FrameCallback 9 (Reload entries sample_engine) sample_world =
          Inr ((Reload entries sample_engine)\<lparr>ce_vm := vm', ce_is_pending_reload := False\<rparr>, w'))"
proof -
  have c: "\<forall>c\<in>set sample_cheats. printable c"
    by (simp add: sample_cheats_def printable_def MaxDefinitionOpcodes_def)
  note p = Parse_printed [OF c]
  have w: "cheat_words (finish_entries (new_CheatEntry # map cheat_of sample_cheats)) = [0x04000000, 0x10, 0xABCD, 0x20000000]"
    unfolding cheat_words_def printed_words [OF c] by (simp add: sample_cheats_def MaximumProgramOpcodeCount_def Let_def)
  have m: "ce_metadata (Reload es sample_engine) = no_metadata" for es by (simp add: Reload_def sample_engine_def)
  have "engine_ok sample_engine"
    by (simp add: engine_ok_def sample_engine_def new_DmntCheatVm_def)
  from Reload_then_frames [OF this p rtranclp.rtrancl_refl, of 9 sample_world] p show ?thesis
    unfolding w m by auto
qed

end
