(* ===== verification/Buffer_Queue_Core.thy ===== *)
theory Buffer_Queue_Core
  imports Nx_Prelude
begin

text \<open>
  The state of the surface buffer queue and the operations producer and consumer share:
  \<^verbatim>\<open>buffer_queue_core.{h,cpp}\<close>, \<^verbatim>\<open>buffer_slot.h\<close>, \<^verbatim>\<open>buffer_item.h\<close>, \<^verbatim>\<open>status.h\<close>,
  \<^verbatim>\<open>window.h\<close> and \<^verbatim>\<open>ui/fence.h\<close> of \<^verbatim>\<open>src/src/core/hle/service/nvnflinger\<close>.

  A \<open>shared_ptr<GraphicBuffer>\<close> is an optional record that carries the address of the object, so
  that the pointer comparisons of the source are comparisons of addresses; objects are never
  changed after they are made, and \<open>next_buffer\<close> is the address of the next one. Listeners are
  known only by their presence; the calls an operation makes to them after it released the lock
  are part of its result. Nothing in the source sets \<open>is_allocating\<close>, so
  \<open>WaitWhileAllocatingLocked\<close> never waits and is left out; \<open>ASSERT\<close> only reports.
  Enumerations that arrive unchecked from the guest are integers of their width; \<open>s32\<close> and
  \<open>s64\<close> values are integers.
\<close>

section \<open>Buffers, fences, slots and items\<close>

record NvGraphicBuffer =
  gb_width :: u32
  gb_height :: u32
  gb_format :: u32
  gb_usage :: u32
  gb_buffer_id :: u32
  gb_handle :: u32

record GraphicBuffer =
  gb_address :: nat
  gb_data :: NvGraphicBuffer

record Fence =
  num_fences :: u32
  fences :: "(int \<times> u32) list"

definition NoFence :: Fence where
  "NoFence = \<lparr>num_fences = 0, fences = replicate 4 (-1, 0)\<rparr>"

datatype BufferState = Free | Dequeued | Queued | Acquired

record BufferSlot =
  graphic_buffer :: "GraphicBuffer option"
  buffer_state :: BufferState
  request_buffer_called :: bool
  frame_number :: u64
  slot_fence :: Fence
  acquire_called :: bool
  needs_cleanup_on_release :: bool
  attached_by_consumer :: bool
  is_preallocated :: bool
  queue_time :: int
  presentation_time :: int

definition zero_Fence :: Fence where
  "zero_Fence = \<lparr>num_fences = 0, fences = replicate 4 (0, 0)\<rparr>"

definition new_BufferSlot :: BufferSlot where
  "new_BufferSlot =
     \<lparr>graphic_buffer = None, buffer_state = Free, request_buffer_called = False, frame_number = 0,
      slot_fence = zero_Fence, acquire_called = False, needs_cleanup_on_release = False,
      attached_by_consumer = False, is_preallocated = False, queue_time = 0, presentation_time = 0\<rparr>"

record Rectangle =
  rect_left :: int
  rect_top :: int
  rect_right :: int
  rect_bottom :: int

definition INVALID_BUFFER_SLOT :: int where
  "INVALID_BUFFER_SLOT = -1"

record BufferItem =
  item_graphic_buffer :: "GraphicBuffer option"
  item_fence :: Fence
  crop :: Rectangle
  transform :: u32
  scaling_mode :: u32
  timestamp :: int
  is_auto_timestamp :: bool
  item_frame_number :: u64
  item_slot :: int
  is_droppable :: bool
  item_acquire_called :: bool
  transform_to_display_inverse :: bool
  swap_interval :: int

section \<open>Status codes and window constants\<close>

text \<open>The flags of \<open>DequeueBuffer\<close> share their values with two error codes, as in the source.\<close>

type_synonym Status = int

abbreviation (input) NoError :: Status where "NoError \<equiv> 0"
abbreviation (input) StaleBufferSlot :: Status where "StaleBufferSlot \<equiv> 1"
abbreviation (input) NoBufferAvailable :: Status where "NoBufferAvailable \<equiv> 2"
abbreviation (input) PresentLater :: Status where "PresentLater \<equiv> 3"
abbreviation (input) WouldBlock :: Status where "WouldBlock \<equiv> -11"
abbreviation (input) NoMemory :: Status where "NoMemory \<equiv> -12"
abbreviation (input) Busy :: Status where "Busy \<equiv> -16"
abbreviation (input) NoInit :: Status where "NoInit \<equiv> -19"
abbreviation (input) BadValue :: Status where "BadValue \<equiv> -22"
abbreviation (input) InvalidOperation :: Status where "InvalidOperation \<equiv> -38"
abbreviation (input) BufferNeedsReallocation :: Status where "BufferNeedsReallocation \<equiv> 1"
abbreviation (input) ReleaseAllBuffers :: Status where "ReleaseAllBuffers \<equiv> 2"

definition NUM_BUFFER_SLOTS :: nat where
  "NUM_BUFFER_SLOTS = 64"

definition NoConnectedApi :: int where
  "NoConnectedApi = 0"

text \<open>\<open>Egl\<close>, \<open>Cpu\<close>, \<open>Media\<close> and \<open>Camera\<close>.\<close>

definition known_api :: "int \<Rightarrow> bool" where
  "known_api api \<longleftrightarrow> api = 1 \<or> api = 2 \<or> api = 3 \<or> api = 4"

definition Transform_InverseDisplay :: u32 where
  "Transform_InverseDisplay = 0x08"

definition PixelFormat_NoFormat :: u32 where
  "PixelFormat_NoFormat = 0"

definition PixelFormat_Rgba8888 :: u32 where
  "PixelFormat_Rgba8888 = 1"

definition UINT32_MAX :: u64 where
  "UINT32_MAX = 0xFFFFFFFF"

section \<open>The queue\<close>

record BufferHistoryInfo =
  hist_frame_number :: u64
  hist_queue_time :: int
  hist_presentation_time :: int
  hist_state :: BufferState

text \<open>
  \<open>BufferQueueCore\<close>; the last three fields are the producer's \<open>sticky_transform\<close>, whether its
  \<open>buffer_wait_event\<close> is signalled, and the address of the next graphic buffer.
\<close>

record BufferQueueCore =
  is_abandoned :: bool
  consumer_controlled_by_app :: bool
  consumer_listener :: bool
  consumer_usage_bit :: u32
  connected_api :: int
  connected_producer_listener :: bool
  slots :: "BufferSlot list"
  queue :: "BufferItem list"
  override_max_buffer_count :: int
  dequeue_possible :: bool
  use_async_buffer :: bool
  dequeue_buffer_cannot_block :: bool
  default_buffer_format :: u32
  default_width :: u32
  default_height :: u32
  default_max_buffer_count :: int
  max_acquired_buffer_count :: int
  buffer_has_been_queued :: bool
  frame_counter :: u64
  buffer_history_map :: "u64 \<rightharpoonup> BufferHistoryInfo"
  buffer_history_order :: "u64 list"
  transform_hint :: u32
  sticky_transform :: u32
  buffer_wait_event :: bool
  next_buffer :: nat

definition new_BufferQueueCore :: BufferQueueCore where
  "new_BufferQueueCore =
     \<lparr>is_abandoned = False, consumer_controlled_by_app = False, consumer_listener = False,
      consumer_usage_bit = 0, connected_api = NoConnectedApi, connected_producer_listener = False,
      slots = replicate NUM_BUFFER_SLOTS new_BufferSlot, queue = [], override_max_buffer_count = 0,
      dequeue_possible = False, use_async_buffer = False, dequeue_buffer_cannot_block = False,
      default_buffer_format = PixelFormat_Rgba8888, default_width = 1, default_height = 1,
      default_max_buffer_count = 2, max_acquired_buffer_count = 0, buffer_has_been_queued = False,
      frame_counter = 0, buffer_history_map = Map.empty, buffer_history_order = [],
      transform_hint = 0, sticky_transform = 0, buffer_wait_event = False, next_buffer = 0\<rparr>"

abbreviation slot_at :: "BufferQueueCore \<Rightarrow> nat \<Rightarrow> BufferSlot" where
  "slot_at core s \<equiv> slots core ! s"

definition update_slot :: "nat \<Rightarrow> (BufferSlot \<Rightarrow> BufferSlot) \<Rightarrow> BufferQueueCore \<Rightarrow> BufferQueueCore" where
  "update_slot s f core = core\<lparr>slots := (slots core)[s := f (slot_at core s)]\<rparr>"

section \<open>History\<close>

definition BUFFER_HISTORY_SIZE :: nat where
  "BUFFER_HISTORY_SIZE = 8"

definition UpdateHistory :: "u64 \<Rightarrow> BufferState \<Rightarrow> BufferQueueCore \<Rightarrow> BufferQueueCore" where
  "UpdateHistory frame state core =
     (case buffer_history_map core frame of
        Some info \<Rightarrow>
          core\<lparr>buffer_history_map := (buffer_history_map core)(frame \<mapsto> info\<lparr>hist_state := state\<rparr>)\<rparr>
      | None \<Rightarrow> core)"

definition PushHistory ::
  "u64 \<Rightarrow> int \<Rightarrow> int \<Rightarrow> BufferState \<Rightarrow> BufferQueueCore \<Rightarrow> BufferQueueCore" where
  "PushHistory frame queued presented state core =
     (case buffer_history_map core frame of
        Some info \<Rightarrow>
          core\<lparr>buffer_history_map := (buffer_history_map core)(frame \<mapsto> info\<lparr>hist_state := state\<rparr>)\<rparr>
      | None \<Rightarrow>
          let info = \<lparr>hist_frame_number = frame, hist_queue_time = queued,
                hist_presentation_time = presented, hist_state = state\<rparr>;
              m = (buffer_history_map core)(frame \<mapsto> info);
              order = buffer_history_order core @ [frame]
          in if BUFFER_HISTORY_SIZE < length order
             then core\<lparr>buffer_history_map := m(hd order := None), buffer_history_order := tl order\<rparr>
             else core\<lparr>buffer_history_map := m, buffer_history_order := order\<rparr>)"

section \<open>Shared operations\<close>

definition SignalDequeueCondition :: "BufferQueueCore \<Rightarrow> BufferQueueCore" where
  "SignalDequeueCondition core = core\<lparr>dequeue_possible := True\<rparr>"

definition GetMinUndequeuedBufferCountLocked :: "bool \<Rightarrow> BufferQueueCore \<Rightarrow> int" where
  "GetMinUndequeuedBufferCountLocked async core =
     (if \<not> use_async_buffer core then 0
      else if dequeue_buffer_cannot_block core \<or> async then max_acquired_buffer_count core + 1
      else max_acquired_buffer_count core)"

definition GetMinMaxBufferCountLocked :: "bool \<Rightarrow> BufferQueueCore \<Rightarrow> int" where
  "GetMinMaxBufferCountLocked async core = GetMinUndequeuedBufferCountLocked async core"

definition GetMaxBufferCountLocked :: "bool \<Rightarrow> BufferQueueCore \<Rightarrow> int" where
  "GetMaxBufferCountLocked async core =
     (let min_buffer_count = GetMinMaxBufferCountLocked async core;
          max_buffer_count = max (default_max_buffer_count core) min_buffer_count
      in if override_max_buffer_count core \<noteq> 0 then override_max_buffer_count core
         else foldl (\<lambda>count s.
                if buffer_state (slot_at core s) = Queued \<or> buffer_state (slot_at core s) = Dequeued
                then int s + 1 else count)
              max_buffer_count [nat max_buffer_count..<NUM_BUFFER_SLOTS])"

definition GetPreallocatedBufferCountLocked :: "BufferQueueCore \<Rightarrow> int" where
  "GetPreallocatedBufferCountLocked core = int (length (filter is_preallocated (slots core)))"

definition free_slot :: "BufferSlot \<Rightarrow> BufferSlot" where
  "free_slot s =
     s\<lparr>graphic_buffer := None,
       needs_cleanup_on_release :=
         (if buffer_state s = Acquired then True else needs_cleanup_on_release s),
       buffer_state := Free, frame_number := UINT32_MAX, acquire_called := False,
       slot_fence := NoFence\<rparr>"

definition FreeBufferLocked :: "nat \<Rightarrow> BufferQueueCore \<Rightarrow> BufferQueueCore" where
  "FreeBufferLocked slot core = update_slot slot free_slot core"

definition FreeAllBuffersLocked :: "BufferQueueCore \<Rightarrow> BufferQueueCore" where
  "FreeAllBuffersLocked core =
     foldl (\<lambda>core s. FreeBufferLocked s core) (core\<lparr>buffer_has_been_queued := False\<rparr>)
       [0..<NUM_BUFFER_SLOTS]"

text \<open>Equality of two shared pointers.\<close>

definition same_buffer :: "GraphicBuffer option \<Rightarrow> GraphicBuffer option \<Rightarrow> bool" where
  "same_buffer a b \<longleftrightarrow> map_option gb_address a = map_option gb_address b"

definition StillTracking :: "BufferItem \<Rightarrow> BufferQueueCore \<Rightarrow> bool" where
  "StillTracking item core \<longleftrightarrow>
     (let slot = slot_at core (nat (item_slot item)) in
      graphic_buffer slot \<noteq> None \<and> same_buffer (item_graphic_buffer item) (graphic_buffer slot))"

text \<open>A new graphic buffer.\<close>

definition make_buffer :: "NvGraphicBuffer \<Rightarrow> BufferQueueCore \<Rightarrow> GraphicBuffer \<times> BufferQueueCore" where
  "make_buffer data core =
     (\<lparr>gb_address = next_buffer core, gb_data = data\<rparr>, core\<lparr>next_buffer := next_buffer core + 1\<rparr>)"

text \<open>Calls an operation makes to the listeners once it has released the lock.\<close>

datatype ListenerCall = OnFrameAvailable BufferItem | OnFrameReplaced BufferItem
  | OnBuffersReleased | OnBufferReleased

end
