(* ===== verification/Buffer_Queue_Producer.thy ===== *)
theory Buffer_Queue_Producer
  imports Buffer_Queue_Core
begin

text \<open>
  The producer's operations: \<^verbatim>\<open>buffer_queue_producer.cpp\<close>. Each returns its status, its output
  values, the calls to listeners and the new state. A wait on the dequeue condition that nobody
  has signalled is the result \<open>Blocked\<close>, with the flags gathered so far: the call goes on, in
  whatever state it then finds, once the condition is signalled. \<open>DequeueBuffer\<close> gives up the lock
  while it makes a new buffer, so it is two steps, \<open>dequeue_slot\<close> and \<open>dequeue_store\<close>, and their
  composition for the case that nobody comes between. Requests come from the guest as slot
  numbers without a check, so slots are integers; parcels and null output pointers are not
  modelled.
\<close>

abbreviation valid_slot :: "int \<Rightarrow> bool" where
  "valid_slot slot \<equiv> \<not> (slot < 0 \<or> slot \<ge> int NUM_BUFFER_SLOTS)"

definition RequestBuffer ::
  "int \<Rightarrow> BufferQueueCore \<Rightarrow> (Status \<times> GraphicBuffer option) \<times> BufferQueueCore" where
  "RequestBuffer slot core =
     (if is_abandoned core then ((NoInit, None), core)
      else if slot < 0 \<or> slot \<ge> int NUM_BUFFER_SLOTS then ((BadValue, None), core)
      else if buffer_state (slot_at core (nat slot)) \<noteq> Dequeued then ((BadValue, None), core)
      else
        let core = update_slot (nat slot) (\<lambda>s. s\<lparr>request_buffer_called := True\<rparr>) core in
        ((NoError, graphic_buffer (slot_at core (nat slot))), core))"

definition SetBufferCount ::
  "int \<Rightarrow> BufferQueueCore \<Rightarrow> (Status \<times> ListenerCall list) \<times> BufferQueueCore" where
  "SetBufferCount buffer_count core =
     (if is_abandoned core then ((NoInit, []), core)
      else if buffer_count > int NUM_BUFFER_SLOTS then ((BadValue, []), core)
      else if \<exists>s<NUM_BUFFER_SLOTS. buffer_state (slot_at core s) = Dequeued
      then ((BadValue, []), core)
      else if buffer_count = 0
      then ((NoError, []), SignalDequeueCondition (core\<lparr>override_max_buffer_count := 0\<rparr>))
      else if buffer_count < GetMinMaxBufferCountLocked False core then ((BadValue, []), core)
      else
        let core = (if GetPreallocatedBufferCountLocked core \<le> 0
                    then FreeAllBuffersLocked core else core);
            core = SignalDequeueCondition (core\<lparr>override_max_buffer_count := buffer_count\<rparr>);
            core = core\<lparr>buffer_wait_event := True\<rparr>
        in ((NoError, if consumer_listener core then [OnBuffersReleased] else []), core))"

section \<open>Waiting for a free slot\<close>

text \<open>The first inner loop: free what lies beyond the maximal count.\<close>

definition release_slot :: "Status \<times> BufferQueueCore \<Rightarrow> nat \<Rightarrow> Status \<times> BufferQueueCore" where
  "release_slot acc s =
     (let (flags, core) = acc in
      if graphic_buffer (slot_at core s) \<noteq> None \<and> buffer_state (slot_at core s) = Free \<and>
         \<not> is_preallocated (slot_at core s)
      then (flags OR ReleaseAllBuffers, FreeBufferLocked s core)
      else (flags, core))"

definition release_beyond ::
  "int \<Rightarrow> Status \<Rightarrow> BufferQueueCore \<Rightarrow> Status \<times> BufferQueueCore" where
  "release_beyond max_buffer_count flags core =
     foldl release_slot (flags, core) [nat max_buffer_count..<NUM_BUFFER_SLOTS]"

text \<open>The second: the oldest free slot, and how many are with the producer and the consumer.\<close>

definition scan_slot :: "BufferSlot list \<Rightarrow> int \<times> int \<times> int \<Rightarrow> nat \<Rightarrow> int \<times> int \<times> int" where
  "scan_slot ss acc s =
     (let (found, dequeued_count, acquired_count) = acc in
      case buffer_state (ss ! s) of
        Dequeued \<Rightarrow> (found, dequeued_count + 1, acquired_count)
      | Acquired \<Rightarrow> (found, dequeued_count, acquired_count + 1)
      | Free \<Rightarrow>
          if found = INVALID_BUFFER_SLOT \<or> frame_number (ss ! s) < frame_number (ss ! nat found)
          then (int s, dequeued_count, acquired_count)
          else acc
      | Queued \<Rightarrow> acc)"

definition scan_slots :: "int \<Rightarrow> BufferSlot list \<Rightarrow> int \<times> int \<times> int" where
  "scan_slots max_buffer_count ss =
     foldl (scan_slot ss) (INVALID_BUFFER_SLOT, 0, 0) [0..<nat max_buffer_count]"

datatype wait_result = Returned Status int Status | Blocked Status

text \<open>
  One round of the loop: \<open>Returned\<close> with the status, the slot and the flags, or \<open>Blocked\<close> when it
  has to wait. \<open>found\<close> is the caller's variable, which some exits leave as it is.
\<close>

definition free_slot_round ::
  "bool \<Rightarrow> int \<Rightarrow> Status \<Rightarrow> BufferQueueCore \<Rightarrow> wait_result \<times> BufferQueueCore" where
  "free_slot_round async found flags core =
     (if is_abandoned core then (Returned NoInit found flags, core)
      else
        let max_buffer_count = GetMaxBufferCountLocked async core in
        if async \<and> override_max_buffer_count core \<noteq> 0 \<and>
           override_max_buffer_count core < max_buffer_count
        then (Returned BadValue INVALID_BUFFER_SLOT flags, core)
        else
          let (flags, core) = release_beyond max_buffer_count flags core;
              (found, dequeued_count, acquired_count) = scan_slots max_buffer_count (slots core)
          in if override_max_buffer_count core = 0 \<and> dequeued_count \<noteq> 0
             then (Returned InvalidOperation found flags, core)
             else if buffer_has_been_queued core \<and>
                max_buffer_count - (dequeued_count + 1) < GetMinUndequeuedBufferCountLocked async core
             then (Returned InvalidOperation found flags, core)
             else if found = INVALID_BUFFER_SLOT \<or> int (length (queue core)) > max_buffer_count
             then
               (if dequeue_buffer_cannot_block core \<and> acquired_count \<le> max_acquired_buffer_count core
                then (Returned WouldBlock found flags, core)
                else (Blocked flags, core))
             else (Returned NoError found flags, core))"

text \<open>
  The loop. A wait with the condition signalled goes on at once and takes the signal with it, so
  the loop goes round at most twice before it returns or has to wait for another thread.
\<close>

definition WaitForFreeSlotThenRelock ::
  "bool \<Rightarrow> Status \<Rightarrow> BufferQueueCore \<Rightarrow> wait_result \<times> BufferQueueCore" where
  "WaitForFreeSlotThenRelock async flags core =
     (case free_slot_round async 0 flags core of
        (Blocked flags, core) \<Rightarrow>
          if dequeue_possible core
          then free_slot_round async INVALID_BUFFER_SLOT flags (core\<lparr>dequeue_possible := False\<rparr>)
          else (Blocked flags, core)
      | r \<Rightarrow> r)"

section \<open>Dequeueing\<close>

record DequeueResult =
  dq_status :: Status
  dq_slot :: int
  dq_fence :: Fence

text \<open>What the first step decides: an answer, a wait, or a buffer that has to be made.\<close>

datatype dequeue_progress =
    DequeueDone DequeueResult
  | DequeueWait Status
  | DequeueAllocate Status bool int Fence NvGraphicBuffer

definition buffer_fits :: "GraphicBuffer option \<Rightarrow> u32 \<Rightarrow> u32 \<Rightarrow> u32 \<Rightarrow> u32 \<Rightarrow> bool" where
  "buffer_fits buffer width height format usage =
     (case buffer of
        None \<Rightarrow> False
      | Some b \<Rightarrow> \<not> (gb_width (gb_data b) \<noteq> width \<or> gb_height (gb_data b) \<noteq> height \<or>
          gb_format (gb_data b) \<noteq> format \<or> gb_usage (gb_data b) AND usage \<noteq> usage))"

definition take_slot ::
  "Status \<Rightarrow> int \<Rightarrow> u32 \<Rightarrow> u32 \<Rightarrow> u32 \<Rightarrow> u32 \<Rightarrow> BufferQueueCore \<Rightarrow> dequeue_progress \<times> BufferQueueCore"
where
  "take_slot flags found width height format usage core =
     (let i = nat found;
          by_consumer = attached_by_consumer (slot_at core i);
          use_default_size = (width = 0 \<and> height = 0);
          width = (if use_default_size then default_width core else width);
          height = (if use_default_size then default_height core else height);
          core = update_slot i (\<lambda>s. s\<lparr>buffer_state := Dequeued\<rparr>) core;
          fits = buffer_fits (graphic_buffer (slot_at core i)) width height format usage;
          core = (if fits then core
                  else update_slot i (\<lambda>s. s\<lparr>acquire_called := False, graphic_buffer := None,
                         request_buffer_called := False, slot_fence := NoFence\<rparr>) core);
          flags = (if fits then flags else flags OR BufferNeedsReallocation);
          out_fence = slot_fence (slot_at core i);
          core = update_slot i (\<lambda>s. s\<lparr>slot_fence := NoFence\<rparr>) core
      in if flags AND BufferNeedsReallocation \<noteq> 0
         then (DequeueAllocate flags by_consumer found out_fence
                 \<lparr>gb_width = width, gb_height = height, gb_format = format, gb_usage = usage,
                  gb_buffer_id = 0, gb_handle = 0\<rparr>, core)
         else (DequeueDone \<lparr>dq_status = (if by_consumer then flags OR BufferNeedsReallocation
                 else flags), dq_slot = found, dq_fence = out_fence\<rparr>, core))"

definition dequeue_continue ::
  "u32 \<Rightarrow> u32 \<Rightarrow> u32 \<Rightarrow> u32 \<Rightarrow> wait_result \<times> BufferQueueCore \<Rightarrow> dequeue_progress \<times> BufferQueueCore"
where
  "dequeue_continue width height format usage r =
     (case r of
        (Blocked flags, core) \<Rightarrow> (DequeueWait flags, core)
      | (Returned status found flags, core) \<Rightarrow>
          if status \<noteq> NoError
          then (DequeueDone \<lparr>dq_status = status, dq_slot = 0, dq_fence = zero_Fence\<rparr>, core)
          else if found = INVALID_BUFFER_SLOT
          then (DequeueDone \<lparr>dq_status = Busy, dq_slot = 0, dq_fence = zero_Fence\<rparr>, core)
          else take_slot flags found width height format usage core)"

definition dequeue_slot ::
  "bool \<Rightarrow> u32 \<Rightarrow> u32 \<Rightarrow> u32 \<Rightarrow> u32 \<Rightarrow> BufferQueueCore \<Rightarrow> dequeue_progress \<times> BufferQueueCore" where
  "dequeue_slot async width height format usage core =
     (if width \<noteq> 0 \<and> height = 0 \<or> width = 0 \<and> height \<noteq> 0
      then (DequeueDone \<lparr>dq_status = BadValue, dq_slot = 0, dq_fence = zero_Fence\<rparr>, core)
      else
        dequeue_continue width height
          (if format = PixelFormat_NoFormat then default_buffer_format core else format)
          (usage OR consumer_usage_bit core)
          (WaitForFreeSlotThenRelock async NoError core))"

text \<open>
  A waiting call that finds the condition signalled: it takes the signal and goes round again,
  with the format and usage it had settled on.
\<close>

definition dequeue_resume ::
  "bool \<Rightarrow> u32 \<Rightarrow> u32 \<Rightarrow> u32 \<Rightarrow> u32 \<Rightarrow> Status \<Rightarrow> BufferQueueCore \<Rightarrow> dequeue_progress \<times> BufferQueueCore"
where
  "dequeue_resume async width height format usage flags core =
     (if dequeue_possible core
      then dequeue_continue width height format usage
             (free_slot_round async INVALID_BUFFER_SLOT flags (core\<lparr>dequeue_possible := False\<rparr>))
      else (DequeueWait flags, core))"

text \<open>The second step: the new buffer goes into the slot, unless the queue was abandoned.\<close>

definition dequeue_store ::
  "Status \<Rightarrow> bool \<Rightarrow> int \<Rightarrow> Fence \<Rightarrow> NvGraphicBuffer \<Rightarrow> BufferQueueCore \<Rightarrow> DequeueResult \<times> BufferQueueCore"
where
  "dequeue_store flags by_consumer found out_fence data core =
     (let (buffer, core) = make_buffer data core in
      if is_abandoned core then (\<lparr>dq_status = NoInit, dq_slot = found, dq_fence = out_fence\<rparr>, core)
      else
        let core = update_slot (nat found)
              (\<lambda>s. s\<lparr>frame_number := UINT32_MAX, graphic_buffer := Some buffer\<rparr>) core
        in (\<lparr>dq_status = (if by_consumer then flags OR BufferNeedsReallocation else flags),
             dq_slot = found, dq_fence = out_fence\<rparr>, core))"

definition DequeueBuffer ::
  "bool \<Rightarrow> u32 \<Rightarrow> u32 \<Rightarrow> u32 \<Rightarrow> u32 \<Rightarrow> BufferQueueCore \<Rightarrow> (Status + DequeueResult) \<times> BufferQueueCore"
where
  "DequeueBuffer async width height format usage core =
     (case dequeue_slot async width height format usage core of
        (DequeueDone r, core) \<Rightarrow> (Inr r, core)
      | (DequeueWait flags, core) \<Rightarrow> (Inl flags, core)
      | (DequeueAllocate flags by_consumer found out_fence data, core) \<Rightarrow>
          let (r, core) = dequeue_store flags by_consumer found out_fence data core in
          (Inr r, core))"

section \<open>Detaching and attaching\<close>

definition DetachBuffer :: "int \<Rightarrow> BufferQueueCore \<Rightarrow> Status \<times> BufferQueueCore" where
  "DetachBuffer slot core =
     (if is_abandoned core then (NoInit, core)
      else if slot < 0 \<or> slot \<ge> int NUM_BUFFER_SLOTS then (BadValue, core)
      else if buffer_state (slot_at core (nat slot)) \<noteq> Dequeued then (BadValue, core)
      else if \<not> request_buffer_called (slot_at core (nat slot)) then (BadValue, core)
      else (NoError, SignalDequeueCondition (FreeBufferLocked (nat slot) core)))"

definition oldest_free :: "BufferSlot list \<Rightarrow> int \<Rightarrow> nat \<Rightarrow> int" where
  "oldest_free ss found s =
     (if buffer_state (ss ! s) = Free \<and> graphic_buffer (ss ! s) \<noteq> None \<and>
         (found = INVALID_BUFFER_SLOT \<or> frame_number (ss ! s) < frame_number (ss ! nat found))
      then int s else found)"

definition DetachNextBuffer ::
  "BufferQueueCore \<Rightarrow> (Status \<times> GraphicBuffer option \<times> Fence) \<times> BufferQueueCore" where
  "DetachNextBuffer core =
     (if is_abandoned core then ((NoInit, None, zero_Fence), core)
      else
        let found = foldl (oldest_free (slots core)) INVALID_BUFFER_SLOT [0..<NUM_BUFFER_SLOTS] in
        if found = INVALID_BUFFER_SLOT then ((NoMemory, None, zero_Fence), core)
        else
          let s = slot_at core (nat found) in
          ((NoError, graphic_buffer s, slot_fence s), FreeBufferLocked (nat found) core))"

definition AttachBuffer ::
  "GraphicBuffer \<Rightarrow> BufferQueueCore \<Rightarrow> (Status + Status \<times> int) \<times> BufferQueueCore" where
  "AttachBuffer buffer core =
     (case WaitForFreeSlotThenRelock False NoError core of
        (Blocked flags, core) \<Rightarrow> (Inl flags, core)
      | (Returned status found flags, core) \<Rightarrow>
          if status \<noteq> NoError then (Inr (status, 0), core)
          else if found = INVALID_BUFFER_SLOT then (Inr (Busy, 0), core)
          else (Inr (flags, found),
            update_slot (nat found) (\<lambda>s. s\<lparr>graphic_buffer := Some buffer, buffer_state := Dequeued,
              slot_fence := NoFence, request_buffer_called := True\<rparr>) core))"

section \<open>Queueing\<close>

record QueueBufferInput =
  in_timestamp :: int
  in_is_auto_timestamp :: bool
  in_crop :: Rectangle
  in_scaling_mode :: int
  in_transform :: u32
  in_sticky_transform :: u32
  in_async :: bool
  in_swap_interval :: int
  in_fence :: Fence

record QueueBufferOutput =
  out_width :: u32
  out_height :: u32
  out_transform_hint :: u32
  out_num_pending_buffers :: nat

definition Inflate :: "BufferQueueCore \<Rightarrow> QueueBufferOutput" where
  "Inflate core =
     \<lparr>out_width = default_width core, out_height = default_height core,
      out_transform_hint = transform_hint core, out_num_pending_buffers = length (queue core)\<rparr>"

definition new_QueueBufferOutput :: QueueBufferOutput where
  "new_QueueBufferOutput =
     \<lparr>out_width = 0, out_height = 0, out_transform_hint = 0, out_num_pending_buffers = 0\<rparr>"

definition make_item :: "int \<Rightarrow> QueueBufferInput \<Rightarrow> BufferQueueCore \<Rightarrow> BufferItem" where
  "make_item slot input core =
     \<lparr>item_graphic_buffer = graphic_buffer (slot_at core (nat slot)), item_fence = in_fence input,
      crop = in_crop input, transform = in_transform input AND NOT Transform_InverseDisplay,
      scaling_mode = word_of_int (in_scaling_mode input), timestamp = in_timestamp input,
      is_auto_timestamp = in_is_auto_timestamp input, item_frame_number = frame_counter core,
      item_slot = slot, is_droppable = dequeue_buffer_cannot_block core \<or> in_async input,
      item_acquire_called = acquire_called (slot_at core (nat slot)),
      transform_to_display_inverse = (in_transform input AND Transform_InverseDisplay \<noteq> 0),
      swap_interval = in_swap_interval input\<rparr>"

text \<open>The item goes to the back of the queue, or in place of a droppable one at its front.\<close>

definition drop_front :: "bool \<Rightarrow> BufferItem \<Rightarrow> BufferQueueCore \<Rightarrow> BufferQueueCore" where
  "drop_front history front core =
     (if is_droppable front \<and> StillTracking front core
      then
        let i = nat (item_slot front);
            core = update_slot i (\<lambda>s. s\<lparr>buffer_state := Free\<rparr>) core;
            core = (if history then UpdateHistory (item_frame_number front) Free core else core)
        in update_slot i (\<lambda>s. s\<lparr>frame_number := 0\<rparr>) core
      else core)"

definition enqueue_item ::
  "bool \<Rightarrow> BufferItem \<Rightarrow> BufferQueueCore \<Rightarrow> bool \<times> BufferQueueCore" where
  "enqueue_item history item core =
     (case queue core of
        [] \<Rightarrow> (False, core\<lparr>queue := [item]\<rparr>)
      | front # rest \<Rightarrow>
          let core = drop_front history front core in
          if is_droppable front then (True, core\<lparr>queue := item # rest\<rparr>)
          else (False, core\<lparr>queue := queue core @ [item]\<rparr>))"

definition QueueBuffer ::
  "bool \<Rightarrow> int \<Rightarrow> int \<Rightarrow> QueueBufferInput \<Rightarrow> BufferQueueCore
     \<Rightarrow> (Status \<times> QueueBufferOutput \<times> ListenerCall list) \<times> BufferQueueCore" where
  "QueueBuffer history now slot input core =
     (let failed = \<lambda>status. ((status, new_QueueBufferOutput, []), core) in
      if \<not> (0 \<le> in_scaling_mode input \<and> in_scaling_mode input \<le> 4) then failed BadValue
      else if is_abandoned core then failed NoInit
      else if slot < 0 \<or> slot \<ge> GetMaxBufferCountLocked (in_async input) core then failed BadValue
      else if buffer_state (slot_at core (nat slot)) \<noteq> Dequeued then failed BadValue
      else if \<not> request_buffer_called (slot_at core (nat slot)) then failed BadValue
      else
        let core = core\<lparr>frame_counter := frame_counter core + 1\<rparr>;
            core = update_slot (nat slot) (\<lambda>s. s\<lparr>buffer_state := Queued,
              frame_number := frame_counter core, queue_time := in_timestamp input,
              presentation_time := now, slot_fence := in_fence input\<rparr>) core;
            item = make_item slot input core;
            core = core\<lparr>sticky_transform := in_sticky_transform input\<rparr>;
            (replaced, core) = enqueue_item history item core;
            core = (if history
                    then PushHistory (frame_counter core) (queue_time (slot_at core (nat slot)))
                           (presentation_time (slot_at core (nat slot))) Queued core
                    else core);
            core = SignalDequeueCondition (core\<lparr>buffer_has_been_queued := True\<rparr>);
            item = item\<lparr>item_graphic_buffer := None, item_slot := INVALID_BUFFER_SLOT\<rparr>;
            calls = (if \<not> consumer_listener core then []
                     else if replaced then [OnFrameReplaced item] else [OnFrameAvailable item])
        in ((NoError, Inflate core, calls), core))"

definition CancelBuffer :: "int \<Rightarrow> Fence \<Rightarrow> BufferQueueCore \<Rightarrow> BufferQueueCore" where
  "CancelBuffer slot fence core =
     (if is_abandoned core then core
      else if slot < 0 \<or> slot \<ge> int NUM_BUFFER_SLOTS then core
      else if buffer_state (slot_at core (nat slot)) \<noteq> Dequeued then core
      else
        let core = update_slot (nat slot)
              (\<lambda>s. s\<lparr>buffer_state := Free, frame_number := 0, slot_fence := fence\<rparr>) core
        in (SignalDequeueCondition core)\<lparr>buffer_wait_event := True\<rparr>)"

section \<open>Queries and connections\<close>

definition Query :: "int \<Rightarrow> BufferQueueCore \<Rightarrow> Status \<times> u32" where
  "Query what core =
     (if is_abandoned core then (NoInit, 0)
      else if what = 0 then (NoError, default_width core)
      else if what = 1 then (NoError, default_height core)
      else if what = 2 then (NoError, default_buffer_format core)
      else if what = 3 then (NoError, word_of_int (GetMinUndequeuedBufferCountLocked False core))
      else if what = 11 then (NoError, sticky_transform core)
      else if what = 9 then (NoError, of_bool (length (queue core) > 1))
      else if what = 10 then (NoError, consumer_usage_bit core)
      else if what = 12 then (NoError, word_of_int (GetMaxBufferCountLocked False core))
      else (BadValue, 0))"

definition producer_Connect ::
  "bool \<Rightarrow> int \<Rightarrow> bool \<Rightarrow> BufferQueueCore \<Rightarrow> (Status \<times> QueueBufferOutput) \<times> BufferQueueCore" where
  "producer_Connect listener api producer_controlled_by_app core =
     (if is_abandoned core then ((NoInit, new_QueueBufferOutput), core)
      else if \<not> consumer_listener core then ((NoInit, new_QueueBufferOutput), core)
      else if connected_api core \<noteq> NoConnectedApi then ((BadValue, new_QueueBufferOutput), core)
      else
        let (r, core) =
              (if known_api api
               then ((NoError, Inflate core),
                     core\<lparr>connected_api := api, connected_producer_listener := listener\<rparr>)
               else ((BadValue, new_QueueBufferOutput), core))
        in (r, core\<lparr>buffer_has_been_queued := False,
                 dequeue_buffer_cannot_block :=
                   consumer_controlled_by_app core \<and> producer_controlled_by_app\<rparr>))"

definition producer_Disconnect ::
  "int \<Rightarrow> BufferQueueCore \<Rightarrow> (Status \<times> ListenerCall list) \<times> BufferQueueCore" where
  "producer_Disconnect api core =
     (if is_abandoned core then ((NoError, []), core)
      else if connected_api core = NoConnectedApi then ((NoInit, []), core)
      else if \<not> known_api api then ((BadValue, []), core)
      else if connected_api core \<noteq> api then ((BadValue, []), core)
      else
        let core = FreeAllBuffersLocked (core\<lparr>queue := []\<rparr>);
            core = core\<lparr>connected_producer_listener := False, connected_api := NoConnectedApi\<rparr>;
            core = (SignalDequeueCondition core)\<lparr>buffer_wait_event := True\<rparr>
        in ((NoError, if consumer_listener core then [OnBuffersReleased] else []), core))"

definition zero_NvGraphicBuffer :: NvGraphicBuffer where
  "zero_NvGraphicBuffer =
     \<lparr>gb_width = 0, gb_height = 0, gb_format = 0, gb_usage = 0, gb_buffer_id = 0, gb_handle = 0\<rparr>"

definition SetPreallocatedBuffer ::
  "int \<Rightarrow> NvGraphicBuffer option \<Rightarrow> BufferQueueCore \<Rightarrow> Status \<times> BufferQueueCore" where
  "SetPreallocatedBuffer slot buffer core =
     (if slot < 0 \<or> slot \<ge> int NUM_BUFFER_SLOTS then (BadValue, core)
      else
        let data = (case buffer of Some b \<Rightarrow> b | None \<Rightarrow> zero_NvGraphicBuffer);
            (b, core) = make_buffer data core;
            core = update_slot (nat slot) (\<lambda>s. new_BufferSlot\<lparr>slot_fence := NoFence,
              graphic_buffer := Some b, frame_number := 0\<rparr>) core;
            core = (case buffer of
                None \<Rightarrow> core
              | Some b \<Rightarrow>
                  let core = update_slot (nat slot) (\<lambda>s. s\<lparr>is_preallocated := True\<rparr>) core in
                  core\<lparr>override_max_buffer_count := GetPreallocatedBufferCountLocked core,
                       default_width := gb_width b, default_height := gb_height b,
                       default_buffer_format := gb_format b\<rparr>)
        in (NoError, (SignalDequeueCondition core)\<lparr>buffer_wait_event := True\<rparr>))"

text \<open>
  The history request of \<open>Transact\<close>: the entries, newest first, cut to the number asked for. Its
  reply is a status of its own and the entries.
\<close>

definition GetBufferHistory :: "int \<Rightarrow> BufferQueueCore \<Rightarrow> Status \<times> BufferHistoryInfo list" where
  "GetBufferHistory request core =
     (if request \<le> 0 then (BadValue, [])
      else
        let snapshot = rev (sort_key hist_frame_number
              (map (\<lambda>f. the (buffer_history_map core f)) (buffer_history_order core)))
        in (NoError, take (nat (min request (int (length snapshot)))) snapshot))"

end
