(* ===== verification/Buffer_Queue_Consumer.thy ===== *)
theory Buffer_Queue_Consumer
  imports Buffer_Queue_Core
begin

text \<open>
  The consumer's side: \<^verbatim>\<open>buffer_queue_consumer.cpp\<close>, and the consumer that keeps the buffers it
  has seen, \<^verbatim>\<open>consumer_base.cpp\<close> with \<^verbatim>\<open>buffer_item_consumer.cpp\<close>. The release fence, which the
  source ignores, is left out; an item without a buffer, which \<open>StillTracking\<close> of the source would
  follow as a null pointer, counts as not tracked.
\<close>

section \<open>Acquiring and releasing\<close>

definition num_acquired :: "BufferQueueCore \<Rightarrow> nat" where
  "num_acquired core = length (filter (\<lambda>s. buffer_state s = Acquired) (slots core))"

definition MAX_REASONABLE_NSEC :: int where
  "MAX_REASONABLE_NSEC = 1000000000"

text \<open>Drop the front of the queue while the item behind it is timely.\<close>

function drop_late :: "int \<Rightarrow> BufferQueueCore \<Rightarrow> BufferQueueCore" where
  "drop_late expected_present core =
     (case queue core of
        front # second # rest \<Rightarrow>
          if \<not> is_auto_timestamp front \<and>
             \<not> (timestamp second < expected_present - MAX_REASONABLE_NSEC \<or>
                timestamp second > expected_present)
          then
            let core = (if StillTracking front core
                        then update_slot (nat (item_slot front)) (\<lambda>s. s\<lparr>buffer_state := Free\<rparr>) core
                        else core)
            in drop_late expected_present (core\<lparr>queue := second # rest\<rparr>)
          else core
      | _ \<Rightarrow> core)"
  by pat_completeness auto

termination
  by (relation "measure (\<lambda>(_, core). length (queue core))") (auto simp: update_slot_def)

declare drop_late.simps [simp del]

definition present_later :: "int \<Rightarrow> BufferItem \<Rightarrow> bool" where
  "present_later expected_present front \<longleftrightarrow>
     timestamp front > expected_present \<and> timestamp front < expected_present + MAX_REASONABLE_NSEC"

definition take_front :: "BufferQueueCore \<Rightarrow> BufferItem \<times> BufferQueueCore" where
  "take_front core =
     (let front = hd (queue core);
          core' = (if StillTracking front core
                   then update_slot (nat (item_slot front)) (\<lambda>s. s\<lparr>acquire_called := True,
                          needs_cleanup_on_release := False, buffer_state := Acquired\<rparr>) core
                   else core);
          out = (if item_acquire_called front then front\<lparr>item_graphic_buffer := None\<rparr> else front)
      in (out, SignalDequeueCondition (core'\<lparr>queue := tl (queue core)\<rparr>)))"

definition AcquireBuffer ::
  "int \<Rightarrow> BufferQueueCore \<Rightarrow> (Status \<times> BufferItem option) \<times> BufferQueueCore" where
  "AcquireBuffer expected_present core =
     (if int (num_acquired core) \<ge> max_acquired_buffer_count core + 1
      then ((InvalidOperation, None), core)
      else if queue core = [] then ((NoBufferAvailable, None), core)
      else
        let core = (if expected_present \<noteq> 0 then drop_late expected_present core else core) in
        if expected_present \<noteq> 0 \<and> present_later expected_present (hd (queue core))
        then ((PresentLater, None), core)
        else let (item, core) = take_front core in ((NoError, Some item), core))"

definition ReleaseBuffer ::
  "int \<Rightarrow> u64 \<Rightarrow> BufferQueueCore \<Rightarrow> (Status \<times> ListenerCall list) \<times> BufferQueueCore" where
  "ReleaseBuffer slot frame core =
     (if slot < 0 \<or> slot \<ge> int NUM_BUFFER_SLOTS then ((BadValue, []), core)
      else
        let i = nat slot in
        if frame \<noteq> frame_number (slot_at core i) then ((StaleBufferSlot, []), core)
        else if list_ex (\<lambda>item. item_slot item = slot) (queue core) then ((BadValue, []), core)
        else if buffer_state (slot_at core i) = Acquired
        then
          let core = update_slot i (\<lambda>s. s\<lparr>buffer_state := Free\<rparr>) core in
          ((NoError, if connected_producer_listener core then [OnBufferReleased] else []),
           SignalDequeueCondition core)
        else if needs_cleanup_on_release (slot_at core i)
        then ((StaleBufferSlot, []), update_slot i (\<lambda>s. s\<lparr>needs_cleanup_on_release := False\<rparr>) core)
        else ((BadValue, []), core))"

section \<open>Connecting\<close>

definition consumer_Connect :: "bool \<Rightarrow> bool \<Rightarrow> BufferQueueCore \<Rightarrow> Status \<times> BufferQueueCore" where
  "consumer_Connect listener controlled_by_app core =
     (if \<not> listener then (BadValue, core)
      else if is_abandoned core then (NoInit, core)
      else (NoError, core\<lparr>consumer_listener := True, consumer_controlled_by_app := controlled_by_app\<rparr>))"

definition consumer_Disconnect :: "BufferQueueCore \<Rightarrow> Status \<times> BufferQueueCore" where
  "consumer_Disconnect core =
     (if \<not> consumer_listener core then (BadValue, core)
      else
        (NoError, SignalDequeueCondition (FreeAllBuffersLocked
           (core\<lparr>is_abandoned := True, consumer_listener := False, queue := []\<rparr>))))"

definition GetReleasedBuffers :: "BufferQueueCore \<Rightarrow> Status \<times> u64" where
  "GetReleasedBuffers core =
     (if is_abandoned core then (NoInit, 0)
      else
        let mask = foldl (\<lambda>m s. if \<not> acquire_called (slot_at core s) then m OR push_bit s 1 else m)
              0 [0..<NUM_BUFFER_SLOTS];
            mask = foldl (\<lambda>m item. if item_acquire_called item
                then m AND NOT (push_bit (nat (item_slot item)) 1) else m) mask (queue core)
        in (NoError, mask))"

section \<open>The consumer that remembers buffers\<close>

record ConsumerSlot =
  cs_graphic_buffer :: "GraphicBuffer option"
  cs_fence :: Fence
  cs_frame_number :: u64

record ConsumerBase =
  cb_slots :: "ConsumerSlot list"
  cb_is_abandoned :: bool

definition new_ConsumerBase :: ConsumerBase where
  "new_ConsumerBase =
     \<lparr>cb_slots = replicate NUM_BUFFER_SLOTS
        \<lparr>cs_graphic_buffer = None, cs_fence = zero_Fence, cs_frame_number = 0\<rparr>,
      cb_is_abandoned = False\<rparr>"

definition cb_Connect :: "bool \<Rightarrow> BufferQueueCore \<Rightarrow> BufferQueueCore" where
  "cb_Connect controlled_by_app core = snd (consumer_Connect True controlled_by_app core)"

definition cb_FreeBufferLocked :: "nat \<Rightarrow> ConsumerBase \<Rightarrow> ConsumerBase" where
  "cb_FreeBufferLocked slot_index cb =
     cb\<lparr>cb_slots := (cb_slots cb)[slot_index :=
       \<lparr>cs_graphic_buffer = None, cs_fence = NoFence, cs_frame_number = 0\<rparr>]\<rparr>"

definition cb_Abandon :: "ConsumerBase \<times> BufferQueueCore \<Rightarrow> ConsumerBase \<times> BufferQueueCore" where
  "cb_Abandon st =
     (let (cb, core) = st in
      if cb_is_abandoned cb then (cb, core)
      else
        let cb = foldl (\<lambda>cb i. cb_FreeBufferLocked i cb) cb [0..<NUM_BUFFER_SLOTS] in
        (cb\<lparr>cb_is_abandoned := True\<rparr>, snd (consumer_Disconnect core)))"

definition cb_OnBuffersReleased :: "BufferQueueCore \<Rightarrow> ConsumerBase \<Rightarrow> ConsumerBase" where
  "cb_OnBuffersReleased core cb =
     (if cb_is_abandoned cb then cb
      else
        let mask = snd (GetReleasedBuffers core) in
        foldl (\<lambda>cb i. if mask AND push_bit i 1 \<noteq> 0 then cb_FreeBufferLocked i cb else cb) cb
          [0..<NUM_BUFFER_SLOTS])"

definition cb_StillTracking :: "int \<Rightarrow> GraphicBuffer option \<Rightarrow> ConsumerBase \<Rightarrow> bool" where
  "cb_StillTracking slot buffer cb =
     (if slot < 0 \<or> slot \<ge> int NUM_BUFFER_SLOTS then False
      else case (cs_graphic_buffer (cb_slots cb ! nat slot), buffer) of
             (Some b, Some g) \<Rightarrow> gb_handle (gb_data b) = gb_handle (gb_data g)
           | _ \<Rightarrow> False)"

definition cb_AcquireBufferLocked ::
  "int \<Rightarrow> ConsumerBase \<times> BufferQueueCore \<Rightarrow> (Status \<times> BufferItem option) \<times> ConsumerBase \<times> BufferQueueCore"
where
  "cb_AcquireBufferLocked present_when st =
     (let (cb, core) = st; ((err, item), core) = AcquireBuffer present_when core in
      case item of
        None \<Rightarrow> ((err, None), cb, core)
      | Some item \<Rightarrow>
          let i = nat (item_slot item);
              s = cb_slots cb ! i;
              s = (if item_graphic_buffer item \<noteq> None
                   then s\<lparr>cs_graphic_buffer := item_graphic_buffer item\<rparr> else s);
              s = s\<lparr>cs_frame_number := item_frame_number item, cs_fence := item_fence item\<rparr>
          in ((NoError, Some item), cb\<lparr>cb_slots := (cb_slots cb)[i := s]\<rparr>, core))"

definition cb_AddReleaseFenceLocked ::
  "int \<Rightarrow> GraphicBuffer option \<Rightarrow> Fence \<Rightarrow> ConsumerBase \<Rightarrow> Status \<times> ConsumerBase" where
  "cb_AddReleaseFenceLocked slot buffer fence cb =
     (if \<not> cb_StillTracking slot buffer cb then (NoError, cb)
      else (NoError, cb\<lparr>cb_slots := (cb_slots cb)[nat slot :=
             (cb_slots cb ! nat slot)\<lparr>cs_fence := fence\<rparr>]\<rparr>))"

definition cb_ReleaseBufferLocked ::
  "int \<Rightarrow> GraphicBuffer option \<Rightarrow> ConsumerBase \<times> BufferQueueCore
     \<Rightarrow> (Status \<times> ListenerCall list) \<times> ConsumerBase \<times> BufferQueueCore" where
  "cb_ReleaseBufferLocked slot buffer st =
     (let (cb, core) = st in
      if \<not> cb_StillTracking slot buffer cb then ((NoError, []), cb, core)
      else
        let ((err, calls), core) = ReleaseBuffer slot (cs_frame_number (cb_slots cb ! nat slot)) core;
            cb = (if err = StaleBufferSlot then cb_FreeBufferLocked (nat slot) cb else cb);
            cb = cb\<lparr>cb_slots := (cb_slots cb)[nat slot :=
                   (cb_slots cb ! nat slot)\<lparr>cs_fence := NoFence\<rparr>]\<rparr>
        in ((err, calls), cb, core))"

definition item_AcquireBuffer ::
  "int \<Rightarrow> ConsumerBase \<times> BufferQueueCore \<Rightarrow> (Status \<times> BufferItem option) \<times> ConsumerBase \<times> BufferQueueCore"
where
  "item_AcquireBuffer present_when st =
     (case cb_AcquireBufferLocked present_when st of
        ((status, Some item), cb, core) \<Rightarrow>
          ((NoError, Some (item\<lparr>item_graphic_buffer :=
              cs_graphic_buffer (cb_slots cb ! nat (item_slot item))\<rparr>)), cb, core)
      | r \<Rightarrow> r)"

definition item_ReleaseBuffer ::
  "BufferItem \<Rightarrow> Fence \<Rightarrow> ConsumerBase \<times> BufferQueueCore
     \<Rightarrow> (Status \<times> ListenerCall list) \<times> ConsumerBase \<times> BufferQueueCore" where
  "item_ReleaseBuffer item release_fence st =
     (let (cb, core) = st;
          cb = snd (cb_AddReleaseFenceLocked (item_slot item) (item_graphic_buffer item)
                 release_fence cb)
      in cb_ReleaseBufferLocked (item_slot item) (item_graphic_buffer item) (cb, core))"

end
