(* ===== verification/Buffer_Queue_Invariant.thy ===== *)
theory Buffer_Queue_Invariant
  imports Buffer_Queue_Producer Buffer_Queue_Consumer
begin

text \<open>
  Who owns a buffer: the invariant that ties the queue's entries to the states of the slots, and
  that every operation of producer and consumer keeps it.
\<close>

section \<open>The invariant\<close>

text \<open>The entries of the queue whose slot still holds their buffer.\<close>

definition live :: "BufferQueueCore \<Rightarrow> BufferItem list" where
  "live core = filter (\<lambda>it. StillTracking it core) (queue core)"

definition shape_ok :: "BufferQueueCore \<Rightarrow> bool" where
  "shape_ok core \<longleftrightarrow> length (slots core) = NUM_BUFFER_SLOTS \<and>
     0 \<le> override_max_buffer_count core \<and> override_max_buffer_count core \<le> int NUM_BUFFER_SLOTS \<and>
     default_max_buffer_count core = 2 \<and> max_acquired_buffer_count core = 0 \<and>
     \<not> use_async_buffer core"

definition item_ok :: "nat \<Rightarrow> BufferItem \<Rightarrow> bool" where
  "item_ok n it \<longleftrightarrow> 0 \<le> item_slot it \<and> item_slot it < int NUM_BUFFER_SLOTS \<and>
     (\<forall>b. item_graphic_buffer it = Some b \<longrightarrow> gb_address b < n)"

definition queued_slots :: "BufferQueueCore \<Rightarrow> int set" where
  "queued_slots core = {int s |s. s < NUM_BUFFER_SLOTS \<and> buffer_state (slot_at core s) = Queued}"

lemma queued_slots_iff:
  "x \<in> queued_slots core \<longleftrightarrow>
     0 \<le> x \<and> nat x < NUM_BUFFER_SLOTS \<and> buffer_state (slot_at core (nat x)) = Queued"
  by (auto simp: queued_slots_def intro: exI [of _ "nat x"])

definition owned_ok :: "BufferQueueCore \<Rightarrow> bool" where
  "owned_ok core \<longleftrightarrow> distinct (map item_slot (live core)) \<and>
     item_slot ` set (live core) = queued_slots core \<and>
     (\<forall>it\<in>set (live core). frame_number (slot_at core (nat (item_slot it))) = item_frame_number it)"

text \<open>Slots the producer holds have a buffer, but for the one whose buffer is being made.\<close>

definition dequeued_ok :: "nat set \<Rightarrow> BufferQueueCore \<Rightarrow> bool" where
  "dequeued_ok P core \<longleftrightarrow> (\<forall>s<NUM_BUFFER_SLOTS. buffer_state (slot_at core s) = Dequeued \<longrightarrow>
     s \<in> P \<or> graphic_buffer (slot_at core s) \<noteq> None)"

definition addresses_ok :: "BufferQueueCore \<Rightarrow> bool" where
  "addresses_ok core \<longleftrightarrow> (\<forall>s<NUM_BUFFER_SLOTS. \<forall>b. graphic_buffer (slot_at core s) = Some b \<longrightarrow>
     gb_address b < next_buffer core)"

definition bq_ok :: "nat set \<Rightarrow> BufferQueueCore \<Rightarrow> bool" where
  "bq_ok P core \<longleftrightarrow> shape_ok core \<and> (\<forall>it\<in>set (queue core). item_ok (next_buffer core) it) \<and>
     owned_ok core \<and> dequeued_ok P core \<and> addresses_ok core \<and> num_acquired core \<le> 1"

lemma bq_okD:
  assumes "bq_ok P core"
  shows "shape_ok core" "owned_ok core" "dequeued_ok P core" "num_acquired core \<le> 1"
    "length (slots core) = NUM_BUFFER_SLOTS" "it \<in> set (queue core) \<Longrightarrow> item_ok (next_buffer core) it"
    "addresses_ok core"
  using assms by (auto simp: bq_ok_def shape_ok_def)

lemma new_BufferQueueCore_ok: "bq_ok {} new_BufferQueueCore"
  by (auto simp: bq_ok_def shape_ok_def owned_ok_def dequeued_ok_def addresses_ok_def live_def
      queued_slots_def num_acquired_def new_BufferQueueCore_def new_BufferSlot_def NUM_BUFFER_SLOTS_def)

section \<open>Changing fields outside the invariant\<close>

definition same_queue :: "BufferQueueCore \<Rightarrow> BufferQueueCore \<Rightarrow> bool" where
  "same_queue core core' \<longleftrightarrow> slots core' = slots core \<and> queue core' = queue core \<and>
     next_buffer core \<le> next_buffer core' \<and>
     default_max_buffer_count core' = default_max_buffer_count core \<and>
     max_acquired_buffer_count core' = max_acquired_buffer_count core \<and>
     use_async_buffer core' = use_async_buffer core"

lemma StillTracking_cong: "slots core' = slots core \<Longrightarrow> StillTracking it core' = StillTracking it core"
  by (simp add: StillTracking_def)

lemma bq_ok_same_queue:
  assumes "bq_ok P core" "same_queue core core'"
    and "0 \<le> override_max_buffer_count core'" "override_max_buffer_count core' \<le> int NUM_BUFFER_SLOTS"
  shows "bq_ok P core'"
proof -
  have "StillTracking it core' = StillTracking it core" for it
    using assms(2) by (intro StillTracking_cong) (simp add: same_queue_def)
  with assms show ?thesis
    by (fastforce simp: bq_ok_def same_queue_def shape_ok_def item_ok_def owned_ok_def live_def
        queued_slots_def dequeued_ok_def addresses_ok_def num_acquired_def)
qed

lemma bq_ok_fields [simp]:
  "bq_ok P (core\<lparr>dequeue_possible := d\<rparr>) \<longleftrightarrow> bq_ok P core"
  "bq_ok P (core\<lparr>buffer_wait_event := e\<rparr>) \<longleftrightarrow> bq_ok P core"
  "bq_ok P (core\<lparr>buffer_has_been_queued := h\<rparr>) \<longleftrightarrow> bq_ok P core"
  "bq_ok P (core\<lparr>sticky_transform := t\<rparr>) \<longleftrightarrow> bq_ok P core"
  "bq_ok P (core\<lparr>frame_counter := f\<rparr>) \<longleftrightarrow> bq_ok P core"
  "bq_ok P (core\<lparr>consumer_listener := l\<rparr>) \<longleftrightarrow> bq_ok P core"
  "bq_ok P (core\<lparr>consumer_controlled_by_app := c\<rparr>) \<longleftrightarrow> bq_ok P core"
  "bq_ok P (core\<lparr>connected_api := a\<rparr>) \<longleftrightarrow> bq_ok P core"
  "bq_ok P (core\<lparr>connected_producer_listener := l\<rparr>) \<longleftrightarrow> bq_ok P core"
  "bq_ok P (core\<lparr>dequeue_buffer_cannot_block := l\<rparr>) \<longleftrightarrow> bq_ok P core"
  "bq_ok P (core\<lparr>default_width := w\<rparr>) \<longleftrightarrow> bq_ok P core"
  "bq_ok P (core\<lparr>default_height := w\<rparr>) \<longleftrightarrow> bq_ok P core"
  "bq_ok P (core\<lparr>default_buffer_format := w\<rparr>) \<longleftrightarrow> bq_ok P core"
  "bq_ok P (core\<lparr>is_abandoned := l\<rparr>) \<longleftrightarrow> bq_ok P core"
  "bq_ok P (core\<lparr>buffer_history_map := m\<rparr>) \<longleftrightarrow> bq_ok P core"
  "bq_ok P (core\<lparr>buffer_history_order := order\<rparr>) \<longleftrightarrow> bq_ok P core"
  by (auto simp: bq_ok_def shape_ok_def owned_ok_def live_def queued_slots_def dequeued_ok_def
      addresses_ok_def num_acquired_def StillTracking_def)

lemma bq_ok_SignalDequeueCondition [simp]: "bq_ok P (SignalDequeueCondition core) \<longleftrightarrow> bq_ok P core"
  by (simp add: SignalDequeueCondition_def)

section \<open>Changing one slot\<close>

lemma update_slot_fields [simp]:
  "queue (update_slot i f core) = queue core"
  "next_buffer (update_slot i f core) = next_buffer core"
  "length (slots (update_slot i f core)) = length (slots core)"
  "is_abandoned (update_slot i f core) = is_abandoned core"
  "frame_counter (update_slot i f core) = frame_counter core"
  "override_max_buffer_count (update_slot i f core) = override_max_buffer_count core"
  "default_max_buffer_count (update_slot i f core) = default_max_buffer_count core"
  "max_acquired_buffer_count (update_slot i f core) = max_acquired_buffer_count core"
  "use_async_buffer (update_slot i f core) = use_async_buffer core"
  "consumer_listener (update_slot i f core) = consumer_listener core"
  by (simp_all add: update_slot_def)

lemma slot_at_update [simp]:
  "i < length (slots core) \<Longrightarrow>
   slot_at (update_slot i f core) s = (if s = i then f (slot_at core i) else slot_at core s)"
  by (auto simp: update_slot_def nth_list_update)

lemma count_update:
  assumes "i < length xs"
  shows "length (filter p (xs[i := x])) + of_bool (p (xs ! i)) =
    length (filter p xs) + of_bool (p x)"
proof -
  have s: "xs = take i xs @ xs ! i # drop (Suc i) xs" using assms by (simp add: id_take_nth_drop)
  have u: "xs[i := x] = take i xs @ x # drop (Suc i) xs" using assms by (simp add: upd_conv_take_nth_drop)
  show ?thesis by (subst u, subst (4) s) simp
qed

lemma num_acquired_update:
  assumes "i < length (slots core)"
  shows "num_acquired (update_slot i f core) + of_bool (buffer_state (slot_at core i) = Acquired) =
    num_acquired core + of_bool (buffer_state (f (slot_at core i)) = Acquired)"
  using count_update [OF assms, of "\<lambda>s. buffer_state s = Acquired" "f (slot_at core i)"]
  by (simp add: num_acquired_def update_slot_def)

text \<open>The buffer a slot may get without an entry of the queue coming to life.\<close>

definition buffer_harmless :: "nat \<Rightarrow> BufferSlot \<Rightarrow> BufferQueueCore \<Rightarrow> bool" where
  "buffer_harmless i s core \<longleftrightarrow> graphic_buffer s = None \<or>
     graphic_buffer s = graphic_buffer (slot_at core i) \<or>
     (\<exists>b. graphic_buffer s = Some b \<and> gb_address b < next_buffer core) \<and>
     (\<forall>it\<in>set (queue core). item_slot it = int i \<longrightarrow>
        \<not> same_buffer (item_graphic_buffer it) (graphic_buffer s))"

lemma live_update:
  assumes "owned_ok core" "i < length (slots core)" "\<forall>it\<in>set (queue core). item_ok n it"
    and "buffer_state (slot_at core i) \<noteq> Queued"
    and "buffer_harmless i (f (slot_at core i)) core"
  shows "live (update_slot i f core) = live core"
proof -
  have "StillTracking it (update_slot i f core) = StillTracking it core" if it: "it \<in> set (queue core)" for it
  proof (cases "item_slot it = int i")
    case False
    moreover have "0 \<le> item_slot it" using it assms(3) by (auto simp: item_ok_def)
    ultimately have "nat (item_slot it) \<noteq> i" by auto
    then show ?thesis using assms(2) by (simp add: StillTracking_def)
  next
    case True
    have "\<not> StillTracking it core"
    proof
      assume "StillTracking it core"
      with it have "it \<in> set (live core)" by (simp add: live_def)
      with assms(1) True have "int i \<in> queued_slots core" by (metis image_eqI owned_ok_def)
      with assms(4) show False by (auto simp: queued_slots_def)
    qed
    moreover have "\<not> StillTracking it (update_slot i f core)"
      using calculation it True assms(2,5)
      by (auto simp: StillTracking_def buffer_harmless_def)
    ultimately show ?thesis by simp
  qed
  then show ?thesis unfolding live_def by (auto intro: filter_cong)
qed

lemma bq_ok_update_slot:
  assumes ok: "bq_ok P core" and i: "i < NUM_BUFFER_SLOTS"
    and before: "buffer_state (slot_at core i) \<noteq> Queued"
    and after: "buffer_state (f (slot_at core i)) \<noteq> Queued"
      "buffer_state (f (slot_at core i)) = Acquired \<Longrightarrow> buffer_state (slot_at core i) = Acquired"
    and buffer: "buffer_harmless i (f (slot_at core i)) core"
    and deq: "buffer_state (f (slot_at core i)) = Dequeued \<Longrightarrow>
      i \<in> P' \<or> graphic_buffer (f (slot_at core i)) \<noteq> None" "P - {i} \<subseteq> P'"
  shows "bq_ok P' (update_slot i f core)"
proof -
  let ?core = "update_slot i f core"
  have len: "i < length (slots core)" using ok i by (simp add: bq_okD(5))
  have items: "\<forall>it\<in>set (queue core). item_ok (next_buffer core) it" using ok by (simp add: bq_ok_def)
  have lv: "live ?core = live core"
    by (rule live_update [where f = f, OF bq_okD(2) [OF ok] len items before buffer])
  have q: "queued_slots ?core = queued_slots core"
    using before after(1) len by (auto simp: queued_slots_def)
  have "nat (item_slot it) \<noteq> i" if "it \<in> set (live core)" for it
  proof -
    have "item_slot it \<in> queued_slots core" using that bq_okD(2) [OF ok] by (auto simp: owned_ok_def)
    with before show ?thesis by (auto simp: queued_slots_def)
  qed
  then have own: "owned_ok ?core" using bq_okD(2) [OF ok] len by (simp add: owned_ok_def lv q)
  have "num_acquired ?core \<le> num_acquired core"
    using num_acquired_update [OF len, of f] after(2) by (auto simp: of_bool_def split: if_splits)
  moreover have "dequeued_ok P' ?core"
    using bq_okD(3) [OF ok] deq len by (auto simp: dequeued_ok_def)
  moreover have "addresses_ok ?core"
    using bq_okD(7) [OF ok] buffer len by (auto simp: addresses_ok_def buffer_harmless_def)
  moreover have "shape_ok ?core" using bq_okD(1) [OF ok] by (simp add: shape_ok_def)
  ultimately show ?thesis using own items bq_okD(4) [OF ok] by (simp add: bq_ok_def)
qed

section \<open>Freeing\<close>

lemma free_slot_fields [simp]:
  "graphic_buffer (free_slot s) = None" "buffer_state (free_slot s) = Free"
  "is_preallocated (free_slot s) = is_preallocated s"
  by (simp_all add: free_slot_def)

lemma FreeBufferLocked_ok:
  assumes "bq_ok P core" "i < NUM_BUFFER_SLOTS" "buffer_state (slot_at core i) \<noteq> Queued"
  shows "bq_ok P (FreeBufferLocked i core)"
  unfolding FreeBufferLocked_def
  by (rule bq_ok_update_slot [OF assms]) (auto simp: buffer_harmless_def)

lemma foldl_FreeBufferLocked:
  "n \<le> length (slots core) \<Longrightarrow>
   foldl (\<lambda>core s. FreeBufferLocked s core) core [0..<n] =
     core\<lparr>slots := map free_slot (take n (slots core)) @ drop n (slots core)\<rparr>"
proof (induction n)
  case 0
  then show ?case by simp
next
  case (Suc n)
  let ?ss = "map free_slot (take n (slots core)) @ drop n (slots core)"
  have "?ss ! n = slots core ! n" using Suc.prems by (simp add: nth_append)
  moreover have "?ss[n := free_slot (slots core ! n)] =
      map free_slot (take (Suc n) (slots core)) @ drop (Suc n) (slots core)"
    using Suc.prems by (simp add: list_update_append take_Suc_conv_app_nth Cons_nth_drop_Suc [symmetric])
  ultimately show ?case using Suc by (simp add: FreeBufferLocked_def update_slot_def)
qed

lemma FreeAllBuffersLocked_eq:
  "length (slots core) = NUM_BUFFER_SLOTS \<Longrightarrow>
   FreeAllBuffersLocked core =
     core\<lparr>buffer_has_been_queued := False, slots := map free_slot (slots core)\<rparr>"
  by (simp add: FreeAllBuffersLocked_def foldl_FreeBufferLocked)

lemma FreeAllBuffersLocked_ok:
  assumes "shape_ok core" "\<forall>it\<in>set (queue core). item_ok (next_buffer core) it"
  shows "bq_ok P (FreeAllBuffersLocked core)"
proof -
  have len: "length (slots core) = NUM_BUFFER_SLOTS" using assms(1) by (simp add: shape_ok_def)
  have "\<not> StillTracking it (FreeAllBuffersLocked core)" if "it \<in> set (queue core)" for it
    using that assms(2) len by (auto simp: FreeAllBuffersLocked_eq StillTracking_def item_ok_def)
  then have "live (FreeAllBuffersLocked core) = []"
    using len by (simp add: live_def FreeAllBuffersLocked_eq)
  moreover have "queued_slots (FreeAllBuffersLocked core) = {}"
    using len by (auto simp: queued_slots_def FreeAllBuffersLocked_eq)
  moreover have "num_acquired (FreeAllBuffersLocked core) = 0"
    using len by (simp add: num_acquired_def FreeAllBuffersLocked_eq filter_map comp_def)
  ultimately show ?thesis
    using assms len
    by (simp add: bq_ok_def owned_ok_def dequeued_ok_def addresses_ok_def shape_ok_def FreeAllBuffersLocked_eq)
qed

section \<open>The producer keeps the invariant\<close>

lemma valid_slot_nat: "valid_slot slot \<Longrightarrow> nat slot < NUM_BUFFER_SLOTS"
  by linarith

lemma RequestBuffer_ok:
  assumes "bq_ok P core"
  shows "bq_ok P (snd (RequestBuffer slot core))"
proof -
  have "bq_ok P (update_slot (nat slot) (\<lambda>s. s\<lparr>request_buffer_called := True\<rparr>) core)"
    if "buffer_state (slot_at core (nat slot)) = Dequeued" "valid_slot slot"
    by (rule bq_ok_update_slot [OF assms])
      (use that valid_slot_nat [OF that(2)] bq_okD(3) [OF assms] in
        \<open>auto simp: buffer_harmless_def dequeued_ok_def\<close>)
  with assms show ?thesis by (auto simp: RequestBuffer_def Let_def)
qed

lemma override_ok:
  "bq_ok P core \<Longrightarrow> 0 \<le> n \<Longrightarrow> n \<le> int NUM_BUFFER_SLOTS \<Longrightarrow>
   bq_ok P (core\<lparr>override_max_buffer_count := n\<rparr>)"
  by (erule bq_ok_same_queue) (simp_all add: same_queue_def)

lemma SetBufferCount_ok:
  assumes "bq_ok P core"
  shows "bq_ok P (snd (SetBufferCount n core))"
proof -
  have "bq_ok P (FreeAllBuffersLocked core)"
    using assms by (intro FreeAllBuffersLocked_ok) (auto simp: bq_ok_def)
  moreover have "GetMinMaxBufferCountLocked False core = 0"
    using assms by (simp add: GetMinMaxBufferCountLocked_def GetMinUndequeuedBufferCountLocked_def
        bq_ok_def shape_ok_def)
  ultimately show ?thesis
    using assms by (auto simp: SetBufferCount_def Let_def intro: override_ok)
qed

text \<open>What freeing the slots beyond the maximal count leaves alone.\<close>

definition released :: "nat set \<Rightarrow> BufferQueueCore \<Rightarrow> BufferQueueCore \<Rightarrow> bool" where
  "released A core core' \<longleftrightarrow> core' = core\<lparr>slots := slots core'\<rparr> \<and>
     length (slots core') = length (slots core) \<and>
     (\<forall>s<length (slots core). slot_at core' s = slot_at core s \<or>
        s \<in> A \<and> buffer_state (slot_at core s) = Free \<and> slot_at core' s = free_slot (slot_at core s))"

lemma free_slot_free: "buffer_state s = Free \<Longrightarrow> free_slot (free_slot s) = free_slot s"
  by (simp add: free_slot_def)

lemma release_slots_released:
  assumes "set xs \<subseteq> A"
  shows "released A core (snd (foldl release_slot (flags, core) xs))"
  using assms
proof (induction xs rule: rev_induct)
  case Nil
  then show ?case by (simp add: released_def)
next
  case (snoc s xs)
  obtain fl c where c: "foldl release_slot (flags, core) xs = (fl, c)" by fastforce
  with snoc have r: "released A core c" by simp
  have "released A core (FreeBufferLocked s c)" if "buffer_state (slot_at c s) = Free"
  proof (cases "s < length (slots c)")
    case True
    from r obtain ss where ss: "c = core\<lparr>slots := ss\<rparr>" by (auto simp: released_def)
    have "slot_at c s = slot_at core s \<or>
        buffer_state (slot_at core s) = Free \<and> slot_at c s = free_slot (slot_at core s)"
      using r True by (auto simp: released_def)
    then have "free_slot (slot_at c s) = free_slot (slot_at core s) \<and> buffer_state (slot_at core s) = Free"
      using that free_slot_free by metis
    with r True snoc.prems show ?thesis
      by (auto simp: ss released_def FreeBufferLocked_def update_slot_def nth_list_update)
  next
    case False
    then have "FreeBufferLocked s c = c"
      by (simp add: FreeBufferLocked_def update_slot_def list_update_beyond not_less)
    with r show ?thesis by simp
  qed
  with r show ?case by (simp add: c) (simp add: release_slot_def)
qed

lemma release_beyond_released:
  "release_beyond m flags core = (fl, c) \<Longrightarrow> released {nat m..<NUM_BUFFER_SLOTS} core c"
  using release_slots_released [of "[nat m..<NUM_BUFFER_SLOTS]" "{nat m..<NUM_BUFFER_SLOTS}" core flags]
  by (simp add: release_beyond_def)

lemma release_beyond_ok:
  assumes "bq_ok P core"
  shows "bq_ok P (snd (release_beyond m flags core))"
proof -
  have "bq_ok P (snd (foldl release_slot (flags, core) xs))" if "set xs \<subseteq> {0..<NUM_BUFFER_SLOTS}" for xs
    using that assms
  proof (induction xs arbitrary: flags core)
    case (Cons s xs)
    have "bq_ok P (snd (release_slot (flags, core) s))"
      using Cons.prems by (auto simp: release_slot_def intro: FreeBufferLocked_ok)
    with Cons show ?case by (cases "release_slot (flags, core) s") simp
  qed simp
  then show ?thesis by (simp add: release_beyond_def)
qed

lemma free_slot_round_ok:
  assumes "bq_ok P core"
  shows "bq_ok P (snd (free_slot_round async found flags core))"
proof -
  obtain fl c where r: "release_beyond (GetMaxBufferCountLocked async core) flags core = (fl, c)"
    by fastforce
  with release_beyond_ok [OF assms] have "bq_ok P c" by (metis snd_conv)
  with assms r show ?thesis
    by (auto simp: free_slot_round_def Let_def split: prod.splits)
qed

section \<open>The search for a free slot\<close>

definition free_at :: "BufferSlot list \<Rightarrow> nat \<Rightarrow> bool" where
  "free_at ss s \<longleftrightarrow> buffer_state (ss ! s) = Free"

text \<open>The oldest of the free slots below \<open>n\<close>, the first of equally old ones.\<close>

definition oldest :: "nat \<Rightarrow> BufferSlot list \<Rightarrow> int \<Rightarrow> bool" where
  "oldest n ss found \<longleftrightarrow>
     (if found = INVALID_BUFFER_SLOT then \<forall>s<n. \<not> free_at ss s
      else 0 \<le> found \<and> found < int n \<and> free_at ss (nat found) \<and>
        (\<forall>s<n. free_at ss s \<longrightarrow> frame_number (ss ! nat found) \<le> frame_number (ss ! s)) \<and>
        (\<forall>s<nat found. free_at ss s \<longrightarrow> frame_number (ss ! nat found) < frame_number (ss ! s)))"

lemma oldest_Suc:
  assumes "oldest n ss found"
  shows "free_at ss n \<Longrightarrow> found = INVALID_BUFFER_SLOT \<Longrightarrow> oldest (Suc n) ss (int n)"
    and "free_at ss n \<Longrightarrow> frame_number (ss ! n) < frame_number (ss ! nat found) \<Longrightarrow>
      oldest (Suc n) ss (int n)"
    and "free_at ss n \<Longrightarrow> found \<noteq> INVALID_BUFFER_SLOT \<Longrightarrow>
      \<not> frame_number (ss ! n) < frame_number (ss ! nat found) \<Longrightarrow> oldest (Suc n) ss found"
    and "\<not> free_at ss n \<Longrightarrow> oldest (Suc n) ss found"
  using assms
  by (auto simp: oldest_def less_Suc_eq INVALID_BUFFER_SLOT_def split: if_splits)

lemma scan_slots_spec:
  assumes "scan_slots m ss = (found, d, a)"
  shows "oldest (nat m) ss found"
    "d = int (card {s. s < nat m \<and> buffer_state (ss ! s) = Dequeued})"
    "a = int (card {s. s < nat m \<and> buffer_state (ss ! s) = Acquired})"
proof -
  have "let (found, d, a) = foldl (scan_slot ss) (INVALID_BUFFER_SLOT, 0, 0) [0..<n] in
      oldest n ss found \<and> d = int (card {s. s < n \<and> buffer_state (ss ! s) = Dequeued}) \<and>
      a = int (card {s. s < n \<and> buffer_state (ss ! s) = Acquired})" for n
  proof (induction n)
    case 0
    then show ?case by (simp add: oldest_def)
  next
    case (Suc n)
    have ins: "{s. s < Suc n \<and> P s} = (if P n then insert n {s. s < n \<and> P s} else {s. s < n \<and> P s})" for P
      by (auto simp: less_Suc_eq)
    from Suc show ?case
      using oldest_Suc [of n ss]
      by (auto simp: scan_slot_def Let_def ins free_at_def split: prod.splits BufferState.splits if_splits)
  qed
  from this [of "nat m"] assms show "oldest (nat m) ss found"
    "d = int (card {s. s < nat m \<and> buffer_state (ss ! s) = Dequeued})"
    "a = int (card {s. s < nat m \<and> buffer_state (ss ! s) = Acquired})"
    by (simp_all add: scan_slots_def)
qed

lemma GetMaxBufferCountLocked_bounds:
  assumes "shape_ok core"
  shows "0 \<le> GetMaxBufferCountLocked async core"
    "GetMaxBufferCountLocked async core \<le> int NUM_BUFFER_SLOTS"
proof -
  have f: "foldl (\<lambda>count s. if p s then int s + 1 else count) c xs \<in> {0..int NUM_BUFFER_SLOTS}"
    if "c \<in> {0..int NUM_BUFFER_SLOTS}" "set xs \<subseteq> {0..<NUM_BUFFER_SLOTS}" for p c xs
    using that by (induction xs arbitrary: c) auto
  have "GetMaxBufferCountLocked async core \<in> {0..int NUM_BUFFER_SLOTS}"
    using assms
    by (auto simp: GetMaxBufferCountLocked_def Let_def shape_ok_def GetMinMaxBufferCountLocked_def
        GetMinUndequeuedBufferCountLocked_def NUM_BUFFER_SLOTS_def
        intro!: f [unfolded NUM_BUFFER_SLOTS_def, simplified])
  then show "0 \<le> GetMaxBufferCountLocked async core"
    "GetMaxBufferCountLocked async core \<le> int NUM_BUFFER_SLOTS" by auto
qed

text \<open>What a successful search says of the slot it found.\<close>

lemma free_slot_round_found:
  assumes "free_slot_round async found0 flags core = (Returned NoError found fl, c)"
  shows "found \<noteq> INVALID_BUFFER_SLOT" "oldest (nat (GetMaxBufferCountLocked async core)) (slots c) found"
    "released {nat (GetMaxBufferCountLocked async core)..<NUM_BUFFER_SLOTS} core c"
    "\<not> is_abandoned core"
proof -
  let ?m = "GetMaxBufferCountLocked async core"
  obtain fl1 c1 where r: "release_beyond ?m flags core = (fl1, c1)" by fastforce
  obtain f1 d1 a1 where sc: "scan_slots ?m (slots c1) = (f1, d1, a1)" using prod_cases3 by blast
  from assms r sc have e: "c = c1" "found = f1" "f1 \<noteq> INVALID_BUFFER_SLOT" "\<not> is_abandoned core"
    by (auto simp: free_slot_round_def Let_def split: if_splits)
  then show "found \<noteq> INVALID_BUFFER_SLOT" "oldest (nat ?m) (slots c) found"
    "released {nat ?m..<NUM_BUFFER_SLOTS} core c" "\<not> is_abandoned core"
    using scan_slots_spec(1) [OF sc] release_beyond_released [OF r] by simp_all
qed

lemma oldest_slot:
  assumes "oldest (nat m) ss found" "found \<noteq> INVALID_BUFFER_SLOT" "m \<le> int NUM_BUFFER_SLOTS"
  shows "nat found < NUM_BUFFER_SLOTS" "buffer_state (ss ! nat found) = Free" "valid_slot found"
  using assms by (auto simp: oldest_def free_at_def split: if_splits)

text \<open>A slot that a search returned: free and in range.\<close>

definition found_ok :: "wait_result \<times> BufferQueueCore \<Rightarrow> bool" where
  "found_ok r \<longleftrightarrow> (\<forall>found flags. fst r = Returned NoError found flags \<longrightarrow>
     nat found < NUM_BUFFER_SLOTS \<and> valid_slot found \<and>
     buffer_state (slot_at (snd r) (nat found)) = Free \<and> \<not> is_abandoned (snd r))"

lemma free_slot_round_found_ok:
  assumes "bq_ok P core"
  shows "found_ok (free_slot_round async found0 flags core)"
  unfolding found_ok_def
proof (intro allI impI)
  fix found fl
  assume r: "fst (free_slot_round async found0 flags core) = Returned NoError found fl"
  obtain c where c: "free_slot_round async found0 flags core = (Returned NoError found fl, c)"
    using r by (metis prod.collapse)
  note f = free_slot_round_found [OF c]
  note b = GetMaxBufferCountLocked_bounds [OF bq_okD(1) [OF assms], of async]
  from f(3) have "is_abandoned c = is_abandoned core"
    unfolding released_def by (metis BufferQueueCore.select_convs(1) BufferQueueCore.surjective
        BufferQueueCore.update_convs(7))
  with oldest_slot [OF f(2,1) b(2)] f(4) c
  show "nat found < NUM_BUFFER_SLOTS \<and> valid_slot found \<and>
     buffer_state (slot_at (snd (free_slot_round async found0 flags core)) (nat found)) = Free \<and>
     \<not> is_abandoned (snd (free_slot_round async found0 flags core))" by simp
qed

lemma WaitForFreeSlotThenRelock_ok:
  assumes "bq_ok P core"
  shows "bq_ok P (snd (WaitForFreeSlotThenRelock async flags core))"
    "found_ok (WaitForFreeSlotThenRelock async flags core)"
proof -
  obtain r c where r: "free_slot_round async 0 flags core = (r, c)" by fastforce
  have c: "bq_ok P c" using free_slot_round_ok [OF assms, of async 0 flags] r by simp
  then have "bq_ok P (c\<lparr>dequeue_possible := False\<rparr>)" by simp
  note c' = free_slot_round_ok [OF this] free_slot_round_found_ok [OF this]
  show "bq_ok P (snd (WaitForFreeSlotThenRelock async flags core))"
    using r c c'(1) by (auto simp: WaitForFreeSlotThenRelock_def split: wait_result.splits)
  show "found_ok (WaitForFreeSlotThenRelock async flags core)"
    using r c'(2) free_slot_round_found_ok [OF assms, of async 0 flags]
    by (auto simp: WaitForFreeSlotThenRelock_def found_ok_def split: wait_result.splits)
qed

lemma take_slot_fits:
  "buffer_fits None w h f u = False"
  by (simp add: buffer_fits_def)

definition progress_ok :: "nat set \<Rightarrow> dequeue_progress \<times> BufferQueueCore \<Rightarrow> bool" where
  "progress_ok P r \<longleftrightarrow> (case r of
      (DequeueAllocate flags by_consumer found fence data, core) \<Rightarrow>
        nat found < NUM_BUFFER_SLOTS \<and> bq_ok (insert (nat found) P) core \<and>
        buffer_state (slot_at core (nat found)) = Dequeued \<and> \<not> is_abandoned core
    | (DequeueWait flags, core) \<Rightarrow> bq_ok P core \<and> (flags = 0 \<or> flags = 2)
    | (DequeueDone _, core) \<Rightarrow> bq_ok P core)"

lemma take_slot_ok:
  assumes ok: "bq_ok P core" and i: "nat found < NUM_BUFFER_SLOTS"
    and free: "buffer_state (slot_at core (nat found)) = Free" and fl: "flags AND 1 = 0"
    and live: "\<not> is_abandoned core"
  shows "progress_ok P (take_slot flags found w h f u core)"
proof -
  have len: "nat found < length (slots core)" using i ok by (simp add: bq_okD(5))
  let ?w = "if w = 0 \<and> h = 0 then default_width core else w"
  let ?h = "if w = 0 \<and> h = 0 then default_height core else h"
  let ?fits = "buffer_fits (graphic_buffer (slot_at core (nat found))) ?w ?h f u"
  let ?take = "\<lambda>s :: BufferSlot. (if ?fits then s\<lparr>buffer_state := Dequeued\<rparr>
      else s\<lparr>buffer_state := Dequeued, acquire_called := False, graphic_buffer := None,
             request_buffer_called := False\<rparr>)\<lparr>slot_fence := NoFence\<rparr>"
  have twice: "update_slot i g (update_slot i h c) = update_slot i (\<lambda>s. g (h s)) c"
    if "i < length (slots c)" for i g h and c :: BufferQueueCore
    using that by (simp add: update_slot_def)
  have core': "snd (take_slot flags found w h f u core) = update_slot (nat found) ?take core"
    using len by (simp add: take_slot_def Let_def twice update_slot_def)
  show ?thesis
  proof (cases ?fits)
    case True
    then have "graphic_buffer (slot_at core (nat found)) \<noteq> None"
      by (auto simp: buffer_fits_def split: option.splits)
    then have "bq_ok P (update_slot (nat found) ?take core)"
      by (intro bq_ok_update_slot [OF ok i]) (use True free in \<open>auto simp: buffer_harmless_def\<close>)
    moreover have "\<exists>r. fst (take_slot flags found w h f u core) = DequeueDone r"
      using True len fl by (simp add: take_slot_def Let_def)
    ultimately show ?thesis using core' by (auto simp: progress_ok_def split: prod.splits)
  next
    case False
    have "bq_ok (insert (nat found) P) (update_slot (nat found) ?take core)"
      by (intro bq_ok_update_slot [OF ok i]) (use False free in \<open>auto simp: buffer_harmless_def\<close>)
    moreover have "\<exists>fl bc fe d. fst (take_slot flags found w h f u core) = DequeueAllocate fl bc found fe d"
      using False len fl by (simp add: take_slot_def Let_def bit.conj_disj_distrib2)
    moreover have "buffer_state (slot_at (update_slot (nat found) ?take core) (nat found)) = Dequeued"
      using len by simp
    ultimately show ?thesis using core' i live by (auto simp: progress_ok_def split: prod.splits)
  qed
qed

text \<open>The flags a search gathers are none or \<open>ReleaseAllBuffers\<close>.\<close>

definition flags_ok :: "wait_result \<Rightarrow> bool" where
  "flags_ok r \<longleftrightarrow> (case r of Returned status found flags \<Rightarrow> flags = 0 \<or> flags = 2
     | Blocked flags \<Rightarrow> flags = 0 \<or> flags = 2)"

lemma release_slots_flags:
  "flags = 0 \<or> flags = 2 \<Longrightarrow> fst (foldl release_slot (flags, core) xs) = 0 \<or>
     fst (foldl release_slot (flags, core) xs) = 2"
proof (induction xs arbitrary: flags core)
  case (Cons s xs)
  obtain fl c where r: "release_slot (flags, core) s = (fl, c)" by fastforce
  then have "fl = 0 \<or> fl = 2" using Cons.prems by (auto simp: release_slot_def split: if_splits)
  from Cons.IH [OF this] show ?case by (simp add: r)
qed simp

lemma free_slot_round_flags:
  assumes "flags = 0 \<or> flags = 2"
  shows "flags_ok (fst (free_slot_round async found flags core))"
proof -
  let ?m = "GetMaxBufferCountLocked async core"
  obtain fl c where r: "release_beyond ?m flags core = (fl, c)" by fastforce
  then have "fl = 0 \<or> fl = 2"
    using release_slots_flags [OF assms, of core "[nat ?m..<NUM_BUFFER_SLOTS]"]
    by (simp add: release_beyond_def)
  with r assms show ?thesis
    by (auto simp: free_slot_round_def flags_ok_def Let_def split: prod.splits)
qed

lemma WaitForFreeSlotThenRelock_flags: "flags_ok (fst (WaitForFreeSlotThenRelock async 0 core))"
proof -
  obtain r c where r: "free_slot_round async 0 0 core = (r, c)" by fastforce
  have f: "flags_ok r" using free_slot_round_flags [of 0 async 0 core] r by simp
  show ?thesis
  proof (cases r)
    case (Returned status found fl)
    with r f show ?thesis by (simp add: WaitForFreeSlotThenRelock_def)
  next
    case (Blocked fl)
    with f have "fl = 0 \<or> fl = 2" by (simp add: flags_ok_def)
    from free_slot_round_flags [OF this] r f Blocked show ?thesis
      by (simp add: WaitForFreeSlotThenRelock_def)
  qed
qed

lemma dequeue_continue_ok:
  assumes "bq_ok P (snd r)" "found_ok r" "flags_ok (fst r)"
  shows "progress_ok P (dequeue_continue w h f u r)"
proof -
  obtain x core where r: "r = (x, core)" by fastforce
  show ?thesis
  proof (cases x)
    case (Blocked flags)
    with assms r show ?thesis by (simp add: dequeue_continue_def progress_ok_def flags_ok_def)
  next
    case (Returned status found flags)
    show ?thesis
    proof (cases "status = NoError \<and> found \<noteq> INVALID_BUFFER_SLOT")
      case True
      then have "progress_ok P (take_slot flags found w h f u core)"
        using assms Returned r by (intro take_slot_ok) (auto simp: found_ok_def flags_ok_def)
      with True Returned r show ?thesis by (simp add: dequeue_continue_def)
    next
      case False
      with assms(1) Returned r show ?thesis by (auto simp: dequeue_continue_def progress_ok_def)
    qed
  qed
qed

lemma dequeue_slot_ok: "bq_ok P core \<Longrightarrow> progress_ok P (dequeue_slot async w h f u core)"
  unfolding dequeue_slot_def
  using dequeue_continue_ok [OF WaitForFreeSlotThenRelock_ok WaitForFreeSlotThenRelock_flags]
  by (auto simp: progress_ok_def)

lemma dequeue_resume_ok:
  assumes "bq_ok P core" "flags = 0 \<or> flags = 2"
  shows "progress_ok P (dequeue_resume async w h f u flags core)"
proof -
  have c: "bq_ok P (core\<lparr>dequeue_possible := False\<rparr>)" using assms(1) by simp
  show ?thesis
    using dequeue_continue_ok [OF free_slot_round_ok [OF c] free_slot_round_found_ok [OF c]
        free_slot_round_flags [OF assms(2)]] assms
    by (auto simp: dequeue_resume_def progress_ok_def)
qed

lemma fresh_not_queued:
  "bq_ok P core \<Longrightarrow> it \<in> set (queue core) \<Longrightarrow>
   \<not> same_buffer (item_graphic_buffer it) (Some \<lparr>gb_address = next_buffer core, gb_data = d\<rparr>)"
  by (drule (1) bq_okD(6)) (auto simp: same_buffer_def item_ok_def)

lemma next_buffer_ok: "bq_ok P core \<Longrightarrow> bq_ok P (core\<lparr>next_buffer := next_buffer core + 1\<rparr>)"
  by (rule bq_ok_same_queue) (auto simp: same_queue_def bq_ok_def shape_ok_def)

lemma dequeue_store_ok:
  assumes ok: "bq_ok (insert i P) core" and i: "i < NUM_BUFFER_SLOTS" "nat found = i"
    and st: "\<not> is_abandoned core" "buffer_state (slot_at core i) = Dequeued" "i \<notin> P"
  shows "bq_ok P (snd (dequeue_store flags by_consumer found fence data core))"
proof -
  let ?c = "core\<lparr>next_buffer := next_buffer core + 1\<rparr>"
  have "bq_ok P (update_slot i (\<lambda>s. s\<lparr>frame_number := UINT32_MAX,
      graphic_buffer := Some \<lparr>gb_address = next_buffer core, gb_data = data\<rparr>\<rparr>) ?c)"
    by (rule bq_ok_update_slot [OF next_buffer_ok [OF ok] i(1)])
      (use st fresh_not_queued [OF ok, of _ data] in \<open>auto simp: buffer_harmless_def\<close>)
  then show ?thesis using st(1) i(2) by (simp add: dequeue_store_def make_buffer_def)
qed

lemma DetachBuffer_ok: "bq_ok P core \<Longrightarrow> bq_ok P (snd (DetachBuffer slot core))"
  by (auto simp: DetachBuffer_def intro!: FreeBufferLocked_ok)

lemma oldest_free_range:
  "foldl (oldest_free ss) found xs \<noteq> INVALID_BUFFER_SLOT \<Longrightarrow> set xs \<subseteq> {0..<n} \<Longrightarrow>
   found = INVALID_BUFFER_SLOT \<or> nat found < n \<and> buffer_state (ss ! nat found) = Free \<Longrightarrow>
   nat (foldl (oldest_free ss) found xs) < n \<and>
   buffer_state (ss ! nat (foldl (oldest_free ss) found xs)) = Free"
  by (induction xs arbitrary: found) (auto simp: oldest_free_def split: if_splits)

lemma DetachNextBuffer_ok:
  assumes "bq_ok P core"
  shows "bq_ok P (snd (DetachNextBuffer core))"
  using assms oldest_free_range [of "slots core" INVALID_BUFFER_SLOT "[0..<NUM_BUFFER_SLOTS]" NUM_BUFFER_SLOTS]
  by (auto simp: DetachNextBuffer_def Let_def intro!: FreeBufferLocked_ok)

lemma free_slot_round_frame:
  "\<exists>A. released A core (snd (free_slot_round async found flags core))"
proof -
  let ?m = "GetMaxBufferCountLocked async core"
  obtain fl c where r: "release_beyond ?m flags core = (fl, c)" by fastforce
  have "released {} core core" by (simp add: released_def)
  with r release_beyond_released [OF r] show ?thesis
    by (auto simp: free_slot_round_def Let_def split: prod.splits)
qed

lemma released_frame:
  assumes "released A core c"
  shows "queue c = queue core" "next_buffer c = next_buffer core" "is_abandoned c = is_abandoned core"
proof -
  from assms obtain ss where "c = core\<lparr>slots := ss\<rparr>" by (auto simp: released_def)
  then show "queue c = queue core" "next_buffer c = next_buffer core" "is_abandoned c = is_abandoned core"
    by simp_all
qed

lemma WaitForFreeSlotThenRelock_frame:
  assumes "WaitForFreeSlotThenRelock async flags core = (r, c)"
  shows "queue c = queue core" "next_buffer c = next_buffer core"
proof -
  obtain r1 c1 where 1: "free_slot_round async 0 flags core = (r1, c1)" by fastforce
  have q1: "queue c1 = queue core \<and> next_buffer c1 = next_buffer core"
    using free_slot_round_frame [of core async 0 flags] 1 by (auto dest: released_frame)
  have q2: "queue (snd (free_slot_round async f g (c1\<lparr>dequeue_possible := False\<rparr>))) = queue c1 \<and>
      next_buffer (snd (free_slot_round async f g (c1\<lparr>dequeue_possible := False\<rparr>))) = next_buffer c1"
    for f g
    using free_slot_round_frame [of "c1\<lparr>dequeue_possible := False\<rparr>" async f g]
    by (auto dest: released_frame)
  from assms 1 consider "c = c1"
    | f g where "free_slot_round async f g (c1\<lparr>dequeue_possible := False\<rparr>) = (r, c)"
    by (auto simp: WaitForFreeSlotThenRelock_def split: wait_result.splits if_splits)
  then have "queue c = queue core \<and> next_buffer c = next_buffer core"
  proof cases
    case 1
    with q1 show ?thesis by simp
  next
    case (2 f g)
    with q1 q2 [of f g] show ?thesis by simp
  qed
  then show "queue c = queue core" "next_buffer c = next_buffer core" by simp_all
qed

text \<open>A buffer brought from outside must not be one that still waits in the queue.\<close>

lemma AttachBuffer_ok:
  assumes ok: "bq_ok P core" and b: "gb_address buffer < next_buffer core"
    and q: "\<forall>it\<in>set (queue core). \<not> same_buffer (item_graphic_buffer it) (Some buffer)"
  shows "bq_ok P (snd (AttachBuffer buffer core))"
proof -
  obtain r c where w: "WaitForFreeSlotThenRelock False NoError core = (r, c)" by fastforce
  note fr = WaitForFreeSlotThenRelock_frame [OF w]
  have c: "bq_ok P c" "found_ok (r, c)"
    using WaitForFreeSlotThenRelock_ok [OF ok, of False NoError] w by simp_all
  have "bq_ok P (update_slot (nat found) (\<lambda>s. s\<lparr>graphic_buffer := Some buffer,
      buffer_state := Dequeued, slot_fence := NoFence, request_buffer_called := True\<rparr>) c)"
    if "r = Returned NoError found flags" for found flags
  proof -
    have f: "nat found < NUM_BUFFER_SLOTS" "buffer_state (slot_at c (nat found)) = Free"
      using c(2) that by (auto simp: found_ok_def)
    show ?thesis
      by (rule bq_ok_update_slot [OF c(1) f(1)])
        (use f(2) b q fr in \<open>auto simp: buffer_harmless_def\<close>)
  qed
  with c(1) w show ?thesis by (auto simp: AttachBuffer_def split: wait_result.splits)
qed

lemma CancelBuffer_ok:
  assumes "bq_ok P core"
  shows "bq_ok P (CancelBuffer slot fence core)"
proof -
  have "bq_ok P (update_slot (nat slot)
      (\<lambda>s. s\<lparr>buffer_state := Free, frame_number := 0, slot_fence := fence\<rparr>) core)"
    if "buffer_state (slot_at core (nat slot)) = Dequeued" "valid_slot slot"
    by (rule bq_ok_update_slot [OF assms])
      (use that valid_slot_nat [OF that(2)] in \<open>auto simp: buffer_harmless_def\<close>)
  with assms show ?thesis by (auto simp: CancelBuffer_def Let_def)
qed

lemma producer_Connect_ok: "bq_ok P core \<Longrightarrow> bq_ok P (snd (producer_Connect l api c core))"
  by (simp add: producer_Connect_def Let_def)

lemma producer_Disconnect_ok:
  assumes "bq_ok P core"
  shows "bq_ok P (snd (producer_Disconnect api core))"
proof -
  have "bq_ok P (FreeAllBuffersLocked (core\<lparr>queue := []\<rparr>))"
    using bq_okD(1) [OF assms] by (intro FreeAllBuffersLocked_ok) (simp_all add: shape_ok_def)
  with assms show ?thesis by (simp add: producer_Disconnect_def Let_def)
qed

lemma prealloc_count: "length (slots core) = NUM_BUFFER_SLOTS \<Longrightarrow>
  0 \<le> GetPreallocatedBufferCountLocked core \<and> GetPreallocatedBufferCountLocked core \<le> int NUM_BUFFER_SLOTS"
  using length_filter_le [of is_preallocated "slots core"]
  by (simp add: GetPreallocatedBufferCountLocked_def)

text \<open>Putting a new buffer into a slot, whatever it held, leaves only the other entries alive.\<close>

lemma bq_ok_reset_slot:
  assumes ok: "bq_ok P core" and i: "i < NUM_BUFFER_SLOTS"
    and f: "\<And>s. f s = t" "buffer_state t = Free"
    and t: "graphic_buffer t = Some b" "gb_address b < next_buffer core"
      "\<forall>it\<in>set (queue core). \<not> same_buffer (item_graphic_buffer it) (Some b)"
  shows "bq_ok P (update_slot i f core)"
proof -
  let ?core = "update_slot i f core"
  have len: "i < length (slots core)" using ok i by (simp add: bq_okD(5))
  have own: "owned_ok core" using bq_okD(2) [OF ok] .
  have track: "StillTracking it ?core \<longleftrightarrow> StillTracking it core \<and> item_slot it \<noteq> int i"
    if "it \<in> set (queue core)" for it
    using that bq_okD(6) [OF ok that] t(1,3) len f(1) by (auto simp: StillTracking_def item_ok_def)
  have lv: "live ?core = filter (\<lambda>it. item_slot it \<noteq> int i) (live core)"
    using track unfolding live_def by (simp add: conj_commute cong: filter_cong)
  have q: "queued_slots ?core = queued_slots core - {int i}"
    using f len by (auto simp: queued_slots_def)
  have nth: "slot_at ?core (nat (item_slot it)) = slot_at core (nat (item_slot it))"
    if "it \<in> set (live core)" "item_slot it \<noteq> int i" for it
  proof -
    have "0 \<le> item_slot it" using that(1) bq_okD(6) [OF ok, of it] by (simp add: live_def item_ok_def)
    with that(2) len show ?thesis by (simp add: nat_eq_iff)
  qed
  have "owned_ok ?core"
    unfolding owned_ok_def lv q
  proof (intro conjI)
    show "distinct (map item_slot (filter (\<lambda>it. item_slot it \<noteq> int i) (live core)))"
      using own by (simp add: owned_ok_def distinct_map_filter)
    show "item_slot ` set (filter (\<lambda>it. item_slot it \<noteq> int i) (live core)) = queued_slots core - {int i}"
      using own by (auto simp: owned_ok_def)
    show "\<forall>it\<in>set (filter (\<lambda>it. item_slot it \<noteq> int i) (live core)).
        frame_number (slot_at ?core (nat (item_slot it))) = item_frame_number it"
      using own nth by (auto simp: owned_ok_def)
  qed
  moreover have "num_acquired ?core \<le> num_acquired core"
    using num_acquired_update [OF len, of f] f by (auto simp: of_bool_def split: if_splits)
  moreover have "dequeued_ok P ?core" "addresses_ok ?core" "shape_ok ?core"
    using bq_okD(1,3,7) [OF ok] f t len by (auto simp: dequeued_ok_def addresses_ok_def shape_ok_def)
  ultimately show ?thesis using ok by (simp add: bq_ok_def)
qed

lemma SetPreallocatedBuffer_ok:
  assumes "bq_ok P core"
  shows "bq_ok P (snd (SetPreallocatedBuffer slot buffer core))"
proof (cases "valid_slot slot")
  case False
  with assms show ?thesis by (simp add: SetPreallocatedBuffer_def)
next
  case True
  note i = valid_slot_nat [OF True]
  let ?d = "case buffer of Some b \<Rightarrow> b | None \<Rightarrow> zero_NvGraphicBuffer"
  let ?b = "\<lparr>gb_address = next_buffer core, gb_data = ?d\<rparr>"
  define c1 where "c1 = update_slot (nat slot) (\<lambda>s. new_BufferSlot\<lparr>slot_fence := NoFence,
      graphic_buffer := Some ?b, frame_number := 0\<rparr>) (core\<lparr>next_buffer := next_buffer core + 1\<rparr>)"
  have c1: "bq_ok P c1"
    unfolding c1_def
    by (rule bq_ok_reset_slot [OF next_buffer_ok [OF assms] i refl])
      (use fresh_not_queued [OF assms] in \<open>auto simp: new_BufferSlot_def\<close>)
  have free: "buffer_state (slot_at c1 (nat slot)) = Free"
    using i bq_okD(5) [OF assms] by (simp add: c1_def new_BufferSlot_def)
  define c2 where "c2 = update_slot (nat slot) (\<lambda>s. s\<lparr>is_preallocated := True\<rparr>) c1"
  have c2: "bq_ok P c2"
    unfolding c2_def by (rule bq_ok_update_slot [OF c1 i]) (use free in \<open>auto simp: buffer_harmless_def\<close>)
  have "bq_ok P (c2\<lparr>override_max_buffer_count := GetPreallocatedBufferCountLocked c2\<rparr>)"
    using override_ok [OF c2] prealloc_count [OF bq_okD(5) [OF c2]] by simp
  with c1 True show ?thesis
    by (auto simp: SetPreallocatedBuffer_def make_buffer_def Let_def c1_def c2_def split: option.splits)
qed

end
