(* ===== verification/Buffer_Queue_Steps.thy ===== *)
theory Buffer_Queue_Steps
  imports Buffer_Queue_Invariant
begin

text \<open>
  Queueing, acquiring and releasing keep the ownership invariant, and the system of one producer
  and the consumer threads as a step relation over the locked sections of the operations.
\<close>

section \<open>Taking an entry off the queue\<close>

lemma live_Cons:
  assumes "queue core = it # rest"
  shows "live core = (if StillTracking it core then [it] else []) @ live (core\<lparr>queue := rest\<rparr>)"
  using assms by (simp add: live_def StillTracking_def)

lemma skip_front_ok:
  assumes ok: "bq_ok P core" and q: "queue core = it # rest" "\<not> StillTracking it core"
  shows "bq_ok P (core\<lparr>queue := rest\<rparr>)"
proof -
  have "live (core\<lparr>queue := rest\<rparr>) = live core" using live_Cons [OF q(1)] q(2) by simp
  with ok q(1) show ?thesis
    by (auto simp: bq_ok_def owned_ok_def shape_ok_def dequeued_ok_def addresses_ok_def
        num_acquired_def queued_slots_def)
qed

lemma front_slot:
  assumes ok: "bq_ok P core" and q: "queue core = it # rest" "StillTracking it core"
  shows "nat (item_slot it) < NUM_BUFFER_SLOTS" "int (nat (item_slot it)) = item_slot it"
    "buffer_state (slot_at core (nat (item_slot it))) = Queued"
    "frame_number (slot_at core (nat (item_slot it))) = item_frame_number it"
    "it' \<in> set (live (core\<lparr>queue := rest\<rparr>)) \<Longrightarrow> item_slot it' \<noteq> item_slot it"
proof -
  have i: "item_ok (next_buffer core) it" using bq_okD(6) [OF ok] q(1) by simp
  then show "nat (item_slot it) < NUM_BUFFER_SLOTS" "int (nat (item_slot it)) = item_slot it"
    by (auto simp: item_ok_def)
  have own: "owned_ok core" "it \<in> set (live core)"
    using bq_okD(2) [OF ok] q by (auto simp: live_def)
  then have "item_slot it \<in> queued_slots core" by (auto simp: owned_ok_def)
  then show "buffer_state (slot_at core (nat (item_slot it))) = Queued"
    by (auto simp: queued_slots_def)
  show "frame_number (slot_at core (nat (item_slot it))) = item_frame_number it"
    using own by (auto simp: owned_ok_def)
  show "it' \<in> set (live (core\<lparr>queue := rest\<rparr>)) \<Longrightarrow> item_slot it' \<noteq> item_slot it"
    using own(1) live_Cons [OF q(1)] q(2) by (auto simp: owned_ok_def image_iff)
qed

lemma live_same_buffers:
  assumes "\<And>it. it \<in> set (queue core) \<Longrightarrow>
      graphic_buffer (slot_at core' (nat (item_slot it))) = graphic_buffer (slot_at core (nat (item_slot it)))"
    and "queue core' = queue core"
  shows "live core' = live core"
  using assms by (simp add: live_def StillTracking_def Let_def cong: filter_cong)

lemma take_front_slot_ok:
  assumes ok: "bq_ok P core" and q: "queue core = it # rest" "StillTracking it core"
    and f: "\<And>s. graphic_buffer (f s) = graphic_buffer s"
      "buffer_state (f (slot_at core (nat (item_slot it)))) \<in> {Free, Acquired}"
      "buffer_state (f (slot_at core (nat (item_slot it)))) = Acquired \<Longrightarrow> num_acquired core = 0"
  shows "bq_ok P (update_slot (nat (item_slot it)) f core\<lparr>queue := rest\<rparr>)"
proof -
  let ?i = "nat (item_slot it)" and ?rest = "core\<lparr>queue := rest\<rparr>"
  let ?core = "update_slot ?i f core\<lparr>queue := rest\<rparr>"
  note fr = front_slot [OF ok q]
  have len: "?i < length (slots core)" using fr(1) ok by (simp add: bq_okD(5))
  have at: "slot_at ?core s = (if s = ?i then f (slot_at core ?i) else slot_at core s)" for s
    using len by (simp add: update_slot_def nth_list_update)
  note at = this len
  have lv: "live ?core = live ?rest"
    by (rule live_same_buffers) (auto simp: at f(1))
  have own: "owned_ok core" using bq_okD(2) [OF ok] .
  have qs: "queued_slots ?core = queued_slots core - {item_slot it}"
    using f(2) fr(2) by (intro set_eqI) (auto simp: queued_slots_iff at split: if_splits)
  have "owned_ok ?core"
    unfolding owned_ok_def lv qs
  proof (intro conjI ballI)
    show "distinct (map item_slot (live ?rest))"
      using own live_Cons [OF q(1)] q(2) by (simp add: owned_ok_def)
    show "item_slot ` set (live ?rest) = queued_slots core - {item_slot it}"
      using own live_Cons [OF q(1)] q(2) fr(5) by (auto simp: owned_ok_def image_iff)
    fix it' assume it': "it' \<in> set (live ?rest)"
    then have "it' \<in> set (live core)" using live_Cons [OF q(1)] by auto
    moreover have "nat (item_slot it') \<noteq> ?i"
    proof -
      have "0 \<le> item_slot it'"
        using it' bq_okD(6) [OF ok, of it'] q(1) by (simp add: live_def item_ok_def)
      with fr(5) [OF it'] fr(2) show ?thesis by (auto split: if_splits)
    qed
    ultimately show "frame_number (slot_at ?core (nat (item_slot it'))) = item_frame_number it'"
      using own by (simp add: owned_ok_def at)
  qed
  moreover have "num_acquired ?core \<le> 1"
    using num_acquired_update [OF len, of f] f(3) bq_okD(4) [OF ok] fr(3)
    by (auto simp: num_acquired_def of_bool_def split: if_splits)
  moreover have "dequeued_ok P ?core" "addresses_ok ?core" "shape_ok ?core"
    using bq_okD(1,3,7) [OF ok] f fr(1)
    by (auto simp: dequeued_ok_def addresses_ok_def shape_ok_def at)
  moreover have "\<forall>it\<in>set rest. item_ok (next_buffer core) it"
    using bq_okD(6) [OF ok] q(1) by simp
  ultimately show ?thesis by (simp add: bq_ok_def)
qed

section \<open>Putting an entry on the queue\<close>

lemma insert_item_ok:
  assumes ok: "bq_ok P core" and i: "i < NUM_BUFFER_SLOTS" "i \<notin> P"
    and st: "buffer_state (slot_at core i) = Dequeued" and q: "queue core = xs @ ys"
    and f: "graphic_buffer (f (slot_at core i)) = graphic_buffer (slot_at core i)"
      "buffer_state (f (slot_at core i)) = Queued"
      "frame_number (f (slot_at core i)) = item_frame_number it"
    and it: "item_slot it = int i" "item_graphic_buffer it = graphic_buffer (slot_at core i)"
  shows "bq_ok P (update_slot i f core\<lparr>queue := xs @ it # ys\<rparr>)"
proof -
  let ?core = "update_slot i f core\<lparr>queue := xs @ it # ys\<rparr>"
  have len: "i < length (slots core)" using i ok by (simp add: bq_okD(5))
  have at: "slot_at ?core s = (if s = i then f (slot_at core i) else slot_at core s)" for s
    using len by (simp add: update_slot_def nth_list_update)
  note at = this len
  obtain b where b: "graphic_buffer (slot_at core i) = Some b" "gb_address b < next_buffer core"
    using bq_okD(3,7) [OF ok] st i by (auto simp: dequeued_ok_def addresses_ok_def)
  have own: "owned_ok core" using bq_okD(2) [OF ok] .
  have track: "StillTracking x ?core = StillTracking x core" for x
    by (auto simp: StillTracking_def at f(1) Let_def)
  have "StillTracking it ?core" using it b f(1) by (simp add: StillTracking_def at same_buffer_def)
  then have lv: "live ?core = filter (\<lambda>x. StillTracking x core) xs @ it #
      filter (\<lambda>x. StillTracking x core) ys"
    using track by (simp add: live_def)
  have lv0: "live core = filter (\<lambda>x. StillTracking x core) xs @ filter (\<lambda>x. StillTracking x core) ys"
    by (simp add: live_def q)
  have new: "int i \<notin> item_slot ` set (live core)"
  proof
    assume "int i \<in> item_slot ` set (live core)"
    with own have "int i \<in> queued_slots core" by (simp add: owned_ok_def)
    with st show False by (auto simp: queued_slots_def)
  qed
  have qs: "queued_slots ?core = insert (int i) (queued_slots core)"
    using f(2) i(1) by (intro set_eqI) (auto simp: queued_slots_iff at split: if_splits)
  have "owned_ok ?core"
    unfolding owned_ok_def lv qs
  proof (intro conjI ballI)
    show "distinct (map item_slot (filter (\<lambda>x. StillTracking x core) xs @ it #
        filter (\<lambda>x. StillTracking x core) ys))"
      using own new it(1) unfolding owned_ok_def lv0 by auto
    show "item_slot ` set (filter (\<lambda>x. StillTracking x core) xs @ it #
        filter (\<lambda>x. StillTracking x core) ys) = insert (int i) (queued_slots core)"
      using own it(1) unfolding owned_ok_def lv0 by auto
    fix x assume x: "x \<in> set (filter (\<lambda>x. StillTracking x core) xs @ it #
        filter (\<lambda>x. StillTracking x core) ys)"
    show "frame_number (slot_at ?core (nat (item_slot x))) = item_frame_number x"
    proof (cases "x = it")
      case True
      with it f show ?thesis by (simp add: at)
    next
      case False
      with x have l: "x \<in> set (live core)" unfolding lv0 by auto
      then have "item_slot x \<in> queued_slots core" using own by (auto simp: owned_ok_def)
      with st have "nat (item_slot x) \<noteq> i" by (auto simp: queued_slots_def)
      with l own show ?thesis by (simp add: owned_ok_def at)
    qed
  qed
  moreover have "num_acquired ?core \<le> 1"
    using num_acquired_update [OF len, of f] f(2) st bq_okD(4) [OF ok] by (simp add: num_acquired_def)
  moreover have "dequeued_ok P ?core" "addresses_ok ?core" "shape_ok ?core"
    using bq_okD(1,3,7) [OF ok] f i(1)
    by (auto simp: dequeued_ok_def addresses_ok_def shape_ok_def at)
  moreover have "\<forall>x\<in>set (xs @ it # ys). item_ok (next_buffer core) x"
    using bq_okD(6) [OF ok] q it b i(1) by (auto simp: item_ok_def)
  ultimately show ?thesis by (simp add: bq_ok_def)
qed

section \<open>Queueing a buffer\<close>

lemma update_slot_commute:
  "i \<noteq> j \<Longrightarrow> update_slot i f (update_slot j g core) = update_slot j g (update_slot i f core)"
  by (simp add: update_slot_def list_update_swap)

lemma UpdateHistory_update_slot:
  "UpdateHistory n st (update_slot i f core) = update_slot i f (UpdateHistory n st core)"
  by (simp add: UpdateHistory_def update_slot_def split: option.split)

lemma bq_ok_UpdateHistory [simp]: "bq_ok P (UpdateHistory n st core) \<longleftrightarrow> bq_ok P core"
  by (simp add: UpdateHistory_def split: option.split)

lemma bq_ok_PushHistory [simp]: "bq_ok P (PushHistory n t u st core) \<longleftrightarrow> bq_ok P core"
  by (auto simp: PushHistory_def Let_def split: option.split)

lemma UpdateHistory_fields [simp]:
  "queue (UpdateHistory n st core) = queue core" "slots (UpdateHistory n st core) = slots core"
  "frame_counter (UpdateHistory n st core) = frame_counter core"
  by (simp_all add: UpdateHistory_def split: option.split)

lemma UpdateHistory_queue:
  "UpdateHistory n st (core\<lparr>queue := q\<rparr>) = UpdateHistory n st core\<lparr>queue := q\<rparr>"
  by (simp add: UpdateHistory_def split: option.split)

lemma drop_front_fields [simp]:
  "queue (drop_front h front core) = queue core"
  "length (slots (drop_front h front core)) = length (slots core)"
  by (simp_all add: drop_front_def Let_def)

text \<open>Dropping the front entry, as one change of its slot.\<close>

lemma drop_front_eq:
  "drop_front h front core =
     (if is_droppable front \<and> StillTracking front core
      then update_slot (nat (item_slot front)) (\<lambda>s. s\<lparr>buffer_state := Free, frame_number := 0\<rparr>)
             (if h then UpdateHistory (item_frame_number front) Free core else core)
      else core)"
proof -
  have twice: "update_slot i g (update_slot i f c) = update_slot i (\<lambda>s. g (f s)) c"
    for i g f and c :: BufferQueueCore
    by (cases "i < length (slots c)") (simp_all add: update_slot_def list_update_beyond)
  show ?thesis by (simp add: drop_front_def Let_def UpdateHistory_update_slot twice)
qed

lemma drop_front_ok:
  assumes "bq_ok P core" "queue core = front # rest" "is_droppable front"
  shows "bq_ok P (drop_front h front core\<lparr>queue := rest\<rparr>)"
proof (cases "StillTracking front core")
  case True
  let ?u = "\<lambda>core. update_slot (nat (item_slot front))
      (\<lambda>s. s\<lparr>buffer_state := Free, frame_number := 0\<rparr>) core\<lparr>queue := rest\<rparr>"
  have "bq_ok P (?u core)" by (rule take_front_slot_ok [OF assms(1,2) True]) auto
  then have "bq_ok P (UpdateHistory (item_frame_number front) Free (?u core))" by simp
  moreover have "UpdateHistory (item_frame_number front) Free (?u core) =
      ?u (UpdateHistory (item_frame_number front) Free core)"
    by (simp add: UpdateHistory_queue UpdateHistory_update_slot)
  ultimately show ?thesis using \<open>bq_ok P (?u core)\<close> True assms(3) by (simp add: drop_front_eq)
next
  case False
  with skip_front_ok [OF assms(1,2)] show ?thesis by (simp add: drop_front_eq)
qed

text \<open>The front entry is not of a slot the producer holds, so dropping it leaves that slot alone.\<close>

lemma drop_front_other_slot:
  assumes ok: "bq_ok P core" and q: "queue core = front # rest"
    and i: "i < NUM_BUFFER_SLOTS" "buffer_state (slot_at core i) = Dequeued"
    and f: "graphic_buffer (f (slot_at core i)) = graphic_buffer (slot_at core i)"
  shows "drop_front h front (update_slot i f core) = update_slot i f (drop_front h front core)"
    and "slot_at (drop_front h front core) i = slot_at core i"
proof -
  have len: "i < length (slots core)" using i ok by (simp add: bq_okD(5))
  have t: "StillTracking front (update_slot i f core) = StillTracking front core"
    using len f by (simp add: StillTracking_def Let_def)
  have ne: "nat (item_slot front) \<noteq> i" if "StillTracking front core"
    using front_slot(3) [OF ok q that] i(2) by auto
  show "drop_front h front (update_slot i f core) = update_slot i f (drop_front h front core)"
    using ne by (auto simp: drop_front_eq t UpdateHistory_update_slot update_slot_commute)
  show "slot_at (drop_front h front core) i = slot_at core i"
    using ne by (auto simp: drop_front_eq update_slot_def)
qed

lemma enqueue_item_ok:
  assumes ok: "bq_ok P core" and i: "i < NUM_BUFFER_SLOTS" "i \<notin> P"
    and st: "buffer_state (slot_at core i) = Dequeued"
    and f: "graphic_buffer (f (slot_at core i)) = graphic_buffer (slot_at core i)"
      "buffer_state (f (slot_at core i)) = Queued"
      "frame_number (f (slot_at core i)) = item_frame_number it"
    and it: "item_slot it = int i" "item_graphic_buffer it = graphic_buffer (slot_at core i)"
  shows "bq_ok P (snd (enqueue_item h it (update_slot i f core)))"
proof (cases "queue core")
  case Nil
  with insert_item_ok [where f = f, OF ok i st _ f it, of "[]" "[]"] show ?thesis by (simp add: enqueue_item_def)
next
  case (Cons front rest)
  show ?thesis
  proof (cases "is_droppable front")
    case False
    with Cons insert_item_ok [where f = f, OF ok i st _ f it, of "queue core" "[]"] show ?thesis
      by (simp add: enqueue_item_def drop_front_eq)
  next
    case True
    note d = drop_front_other_slot [where f = f, OF ok Cons i(1) st f(1), of h]
    let ?c = "drop_front h front core\<lparr>queue := rest\<rparr>"
    have "slot_at ?c i = slot_at core i" using d(2) by simp
    then have "bq_ok P (update_slot i f ?c\<lparr>queue := it # rest\<rparr>)"
      using insert_item_ok [OF drop_front_ok [OF ok Cons True, of h] i, of "[]" rest f it] st f it
      by simp
    then show ?thesis using Cons True d(1) by (simp add: enqueue_item_def update_slot_def)
  qed
qed

text \<open>A call that passes the checks, with the state it hands to the queue.\<close>

definition queue_slot :: "int \<Rightarrow> QueueBufferInput \<Rightarrow> u64 \<Rightarrow> BufferSlot \<Rightarrow> BufferSlot" where
  "queue_slot now input n s =
     s\<lparr>buffer_state := Queued, frame_number := n, queue_time := in_timestamp input,
       presentation_time := now, slot_fence := in_fence input\<rparr>"

definition queue_ready :: "int \<Rightarrow> QueueBufferInput \<Rightarrow> BufferQueueCore \<Rightarrow> bool" where
  "queue_ready slot input core \<longleftrightarrow> 0 \<le> in_scaling_mode input \<and> in_scaling_mode input \<le> 4 \<and>
     \<not> is_abandoned core \<and> 0 \<le> slot \<and> slot < GetMaxBufferCountLocked (in_async input) core \<and>
     buffer_state (slot_at core (nat slot)) = Dequeued \<and>
     request_buffer_called (slot_at core (nat slot))"

definition counted :: "QueueBufferInput \<Rightarrow> BufferQueueCore \<Rightarrow> BufferQueueCore" where
  "counted input core =
     core\<lparr>frame_counter := frame_counter core + 1, sticky_transform := in_sticky_transform input\<rparr>"

definition queued_item :: "int \<Rightarrow> int \<Rightarrow> QueueBufferInput \<Rightarrow> BufferQueueCore \<Rightarrow> BufferItem" where
  "queued_item now slot input core =
     make_item slot input (update_slot (nat slot) (queue_slot now input (frame_counter core + 1))
       (counted input core))"

lemma QueueBuffer_core:
  "snd (QueueBuffer h now slot input core) =
     (if queue_ready slot input core
      then
        let c = snd (enqueue_item h (queued_item now slot input core)
              (update_slot (nat slot) (queue_slot now input (frame_counter core + 1)) (counted input core)));
            c = (if h then PushHistory (frame_counter c) (queue_time (slot_at c (nat slot)))
                   (presentation_time (slot_at c (nat slot))) Queued c else c)
        in SignalDequeueCondition (c\<lparr>buffer_has_been_queued := True\<rparr>)
      else core)"
proof -
  have sticky: "update_slot i f c\<lparr>sticky_transform := x\<rparr> = update_slot i f (c\<lparr>sticky_transform := x\<rparr>)"
    for i f x and c :: BufferQueueCore
    by (cases c) (simp add: update_slot_def)
  let ?f = "queue_slot now input (frame_counter core + 1)"
  have f: "(\<lambda>s. s\<lparr>buffer_state := Queued, frame_number := frame_counter core + 1,
      queue_time := in_timestamp input, presentation_time := now, slot_fence := in_fence input\<rparr>) = ?f"
    by (simp add: queue_slot_def fun_eq_iff)
  have "make_item slot input (update_slot (nat slot) ?f (core\<lparr>frame_counter := frame_counter core + 1\<rparr>)) =
      queued_item now slot input core"
    by (simp add: queued_item_def counted_def make_item_def update_slot_def)
  then show ?thesis
    by (auto simp: QueueBuffer_def queue_ready_def Let_def f sticky counted_def
        split: prod.splits)
qed

lemma QueueBuffer_ok:
  assumes ok: "bq_ok P core" and P: "nat slot \<notin> P"
  shows "bq_ok P (snd (QueueBuffer h now slot input core))"
proof (cases "queue_ready slot input core")
  case True
  have i: "nat slot < NUM_BUFFER_SLOTS" "int (nat slot) = slot"
    using True GetMaxBufferCountLocked_bounds(2) [OF bq_okD(1) [OF ok], of "in_async input"]
    by (auto simp: queue_ready_def)
  have len: "nat slot < length (slots core)" using i(1) ok by (simp add: bq_okD(5))
  have c: "bq_ok P (counted input core)" using ok by (simp add: counted_def)
  have "bq_ok P (snd (enqueue_item h (queued_item now slot input core)
      (update_slot (nat slot) (queue_slot now input (frame_counter core + 1)) (counted input core))))"
    by (rule enqueue_item_ok [OF c i(1) P])
      (use True len i(2) in \<open>auto simp: queue_ready_def counted_def queue_slot_def queued_item_def
        make_item_def\<close>)
  with True show ?thesis by (cases h) (simp_all add: QueueBuffer_core Let_def)
next
  case False
  with ok show ?thesis by (simp add: QueueBuffer_core)
qed

section \<open>The consumer keeps the invariant\<close>

lemma drop_late_ok:
  assumes "bq_ok P core"
  shows "bq_ok P (drop_late t core)"
  using assms
proof (induction t core rule: drop_late.induct)
  case (1 t core)
  show ?case
  proof (cases "queue core")
    case Nil
    with 1 show ?thesis by (simp add: drop_late.simps [of t core])
  next
    case (Cons front rest)
    then show ?thesis
      using 1 take_front_slot_ok [OF 1(2) Cons, of "\<lambda>s. s\<lparr>buffer_state := Free\<rparr>"]
        skip_front_ok [OF 1(2) Cons]
      by (cases rest) (auto simp: drop_late.simps [of t core] Let_def)
  qed
qed

text \<open>What dropping late entries does to the slots: queued ones become free.\<close>

lemma drop_late_slots:
  assumes "bq_ok P core"
  shows "num_acquired (drop_late t core) = num_acquired core \<and>
    is_abandoned (drop_late t core) = is_abandoned core \<and>
    (queue core \<noteq> [] \<longrightarrow> queue (drop_late t core) \<noteq> []) \<and>
    (\<forall>i. buffer_state (slot_at core i) \<noteq> Queued \<longrightarrow> slot_at (drop_late t core) i = slot_at core i)"
  using assms
proof (induction t core rule: drop_late.induct)
  case (1 t core)
  show ?case
  proof (cases "\<exists>front second rest. queue core = front # second # rest \<and> \<not> is_auto_timestamp front \<and>
      \<not> (timestamp second < t - MAX_REASONABLE_NSEC \<or> timestamp second > t)")
    case False
    then have "drop_late t core = core"
      by (auto simp: drop_late.simps [of t core] split: list.splits)
    then show ?thesis by simp
  next
    case True
    then obtain front second rest where q: "queue core = front # second # rest"
      "\<not> is_auto_timestamp front" "\<not> (timestamp second < t - MAX_REASONABLE_NSEC \<or> timestamp second > t)"
      by blast
    let ?c = "if StillTracking front core
      then update_slot (nat (item_slot front)) (\<lambda>s. s\<lparr>buffer_state := Free\<rparr>) core else core"
    let ?c' = "?c\<lparr>queue := second # rest\<rparr>"
    have step: "drop_late t core = drop_late t ?c'"
      using q by (simp add: drop_late.simps [of t core] Let_def)
    have ok: "bq_ok P ?c'"
      using take_front_slot_ok [OF 1(2) q(1), of "\<lambda>s. s\<lparr>buffer_state := Free\<rparr>"]
        skip_front_ok [OF 1(2) q(1)] by auto
    have IH: "num_acquired (drop_late t ?c') = num_acquired ?c' \<and>
        is_abandoned (drop_late t ?c') = is_abandoned ?c' \<and>
        (queue ?c' \<noteq> [] \<longrightarrow> queue (drop_late t ?c') \<noteq> []) \<and>
        (\<forall>i. buffer_state (slot_at ?c' i) \<noteq> Queued \<longrightarrow> slot_at (drop_late t ?c') i = slot_at ?c' i)"
      using 1(1) [OF q(1) refl] q(2,3) ok by simp
    show ?thesis
    proof (cases "StillTracking front core")
      case False
      with IH step show ?thesis by (simp add: num_acquired_def)
    next
      case True
      note fr = front_slot [OF 1(2) q(1) True]
      have len: "nat (item_slot front) < length (slots core)" using fr(1) bq_okD(5) [OF 1(2)] by simp
      have "num_acquired ?c' = num_acquired core"
        using num_acquired_update [OF len, of "\<lambda>s. s\<lparr>buffer_state := Free\<rparr>"] fr(3) True
        by (simp add: num_acquired_def)
      with IH step True len fr(3) show ?thesis by auto
    qed
  qed
qed

lemma take_front_ok:
  assumes ok: "bq_ok P core" and q: "queue core \<noteq> []" and n: "num_acquired core = 0"
  shows "bq_ok P (snd (take_front core))"
    "is_abandoned (snd (take_front core)) = is_abandoned core"
    "buffer_state (slot_at core i) = Dequeued \<Longrightarrow> slot_at (snd (take_front core)) i = slot_at core i"
proof -
  obtain front rest where fr: "queue core = front # rest" using q by (cases "queue core") auto
  show "bq_ok P (snd (take_front core))"
  proof (cases "StillTracking front core")
    case True
    have "bq_ok P (update_slot (nat (item_slot front)) (\<lambda>s. s\<lparr>acquire_called := True,
        needs_cleanup_on_release := False, buffer_state := Acquired\<rparr>) core\<lparr>queue := rest\<rparr>)"
      by (rule take_front_slot_ok [OF ok fr True]) (use n in auto)
    with True fr show ?thesis by (simp add: take_front_def Let_def)
  next
    case False
    with skip_front_ok [OF ok fr] fr show ?thesis by (simp add: take_front_def Let_def)
  qed
  show "is_abandoned (snd (take_front core)) = is_abandoned core"
    by (simp add: take_front_def Let_def SignalDequeueCondition_def)
  show "slot_at (snd (take_front core)) i = slot_at core i" if "buffer_state (slot_at core i) = Dequeued"
  proof -
    have "nat (item_slot front) \<noteq> i" if "StillTracking front core"
      using front_slot(3) [OF ok fr that] \<open>buffer_state (slot_at core i) = Dequeued\<close> by auto
    then show ?thesis using fr by (auto simp: take_front_def Let_def SignalDequeueCondition_def update_slot_def)
  qed
qed

lemma AcquireBuffer_ok:
  assumes ok: "bq_ok P core"
  shows "bq_ok P (snd (AcquireBuffer t core))"
    "is_abandoned (snd (AcquireBuffer t core)) = is_abandoned core"
    "buffer_state (slot_at core i) = Dequeued \<Longrightarrow>
      slot_at (snd (AcquireBuffer t core)) i = slot_at core i"
proof -
  let ?c = "if t \<noteq> 0 then drop_late t core else core"
  have c: "bq_ok P ?c" "num_acquired ?c = num_acquired core" "is_abandoned ?c = is_abandoned core"
    "queue core \<noteq> [] \<Longrightarrow> queue ?c \<noteq> []"
    "buffer_state (slot_at core i) = Dequeued \<Longrightarrow> slot_at ?c i = slot_at core i"
    using ok drop_late_ok [OF ok, of t] drop_late_slots [OF ok, of t] by auto
  have m: "max_acquired_buffer_count core = 0" using ok by (simp add: bq_ok_def shape_ok_def)
  have t: "queue core \<noteq> [] \<Longrightarrow> num_acquired core = 0 \<Longrightarrow> bq_ok P (snd (take_front ?c)) \<and>
      is_abandoned (snd (take_front ?c)) = is_abandoned core \<and>
      (buffer_state (slot_at core i) = Dequeued \<longrightarrow> slot_at (snd (take_front ?c)) i = slot_at core i)"
    using take_front_ok [OF c(1)] c by auto
  have res: "snd (AcquireBuffer t core) = core \<or> snd (AcquireBuffer t core) = ?c \<or>
      snd (AcquireBuffer t core) = snd (take_front ?c) \<and> queue core \<noteq> [] \<and> num_acquired core = 0"
    using m by (auto simp: AcquireBuffer_def Let_def split: prod.splits)
  then show "bq_ok P (snd (AcquireBuffer t core))"
    "is_abandoned (snd (AcquireBuffer t core)) = is_abandoned core"
    "buffer_state (slot_at core i) = Dequeued \<Longrightarrow>
      slot_at (snd (AcquireBuffer t core)) i = slot_at core i"
    using ok c t by auto
qed

lemma ReleaseBuffer_ok:
  assumes ok: "bq_ok P core"
  shows "bq_ok P (snd (ReleaseBuffer slot frame core))"
    "is_abandoned (snd (ReleaseBuffer slot frame core)) = is_abandoned core"
    "buffer_state (slot_at core i) = Dequeued \<Longrightarrow>
      buffer_state (slot_at (snd (ReleaseBuffer slot frame core)) i) = Dequeued"
proof -
  have rel: "bq_ok P (update_slot (nat slot) (\<lambda>s. s\<lparr>buffer_state := Free\<rparr>) core)"
    if "buffer_state (slot_at core (nat slot)) = Acquired" "valid_slot slot"
    by (rule bq_ok_update_slot [OF ok valid_slot_nat [OF that(2)]])
      (use that in \<open>auto simp: buffer_harmless_def\<close>)
  have clean: "bq_ok P (update_slot (nat slot) (\<lambda>s. s\<lparr>needs_cleanup_on_release := False\<rparr>) core)"
    if "valid_slot slot"
  proof -
    let ?f = "\<lambda>s. s\<lparr>needs_cleanup_on_release := False\<rparr> :: BufferSlot"
    let ?core = "update_slot (nat slot) ?f core"
    have len: "nat slot < length (slots core)" using valid_slot_nat [OF that] bq_okD(5) [OF ok] by simp
    have at: "buffer_state (slot_at ?core s) = buffer_state (slot_at core s)"
      "graphic_buffer (slot_at ?core s) = graphic_buffer (slot_at core s)"
      "frame_number (slot_at ?core s) = frame_number (slot_at core s)" for s
      using len by simp_all
    have "live ?core = live core" by (rule live_same_buffers) (simp_all only: at update_slot_fields)
    moreover have "num_acquired ?core = num_acquired core"
      using num_acquired_update [OF len, of ?f] by simp
    ultimately show ?thesis
      using ok by (simp add: bq_ok_def owned_ok_def queued_slots_def dequeued_ok_def addresses_ok_def
          shape_ok_def at)
  qed
  from rel clean ok show "bq_ok P (snd (ReleaseBuffer slot frame core))"
    by (auto simp: ReleaseBuffer_def Let_def)
  show "is_abandoned (snd (ReleaseBuffer slot frame core)) = is_abandoned core"
    by (simp add: ReleaseBuffer_def Let_def SignalDequeueCondition_def)
  show "buffer_state (slot_at (snd (ReleaseBuffer slot frame core)) i) = Dequeued"
    if "buffer_state (slot_at core i) = Dequeued"
  proof (cases "valid_slot slot")
    case True
    then have "nat slot < length (slots core)" using valid_slot_nat [OF True] bq_okD(5) [OF ok] by simp
    with that show ?thesis by (auto simp: ReleaseBuffer_def Let_def SignalDequeueCondition_def)
  next
    case False
    with that show ?thesis by (simp add: ReleaseBuffer_def)
  qed
qed

lemma consumer_Connect_ok:
  "bq_ok P core \<Longrightarrow> bq_ok P (snd (consumer_Connect l c core))"
  "slots (snd (consumer_Connect l c core)) = slots core"
  "is_abandoned (snd (consumer_Connect l c core)) = is_abandoned core"
  by (simp_all add: consumer_Connect_def)

lemma consumer_Disconnect_ok:
  assumes "bq_ok P core"
  shows "snd (consumer_Disconnect core) = core \<or>
    is_abandoned (snd (consumer_Disconnect core)) \<and> bq_ok Q (snd (consumer_Disconnect core))"
proof -
  let ?c = "core\<lparr>is_abandoned := True, consumer_listener := False, queue := []\<rparr>"
  have "bq_ok Q (FreeAllBuffersLocked ?c)"
    using bq_okD(1) [OF assms] by (intro FreeAllBuffersLocked_ok) (simp_all add: shape_ok_def)
  moreover have "is_abandoned (FreeAllBuffersLocked ?c)"
    using bq_okD(5) [OF assms] by (simp add: FreeAllBuffersLocked_eq)
  ultimately show ?thesis by (simp add: consumer_Disconnect_def SignalDequeueCondition_def)
qed

section \<open>The system\<close>

text \<open>
  The producer thread is idle, waits for a free slot, or makes a buffer without holding the lock.
  Requests of the producer come one at a time; the consumer's operations can come at any time.
\<close>

datatype producer_state =
    Idle
  | Waiting bool u32 u32 u32 u32 Status
  | Allocating Status bool int Fence NvGraphicBuffer

definition after_dequeue ::
  "bool \<Rightarrow> u32 \<Rightarrow> u32 \<Rightarrow> u32 \<Rightarrow> u32 \<Rightarrow> dequeue_progress \<Rightarrow> producer_state" where
  "after_dequeue async width height format usage r =
     (case r of
        DequeueDone _ \<Rightarrow> Idle
      | DequeueWait flags \<Rightarrow> Waiting async width height format usage flags
      | DequeueAllocate flags by_consumer found fence data \<Rightarrow>
          Allocating flags by_consumer found fence data)"

inductive bq_step ::
  "bool \<Rightarrow> producer_state \<times> BufferQueueCore \<Rightarrow> producer_state \<times> BufferQueueCore \<Rightarrow> bool" for history where
  request: "bq_step history (Idle, core) (Idle, snd (RequestBuffer slot core))"
| set_count: "bq_step history (Idle, core) (Idle, snd (SetBufferCount n core))"
| dequeue: "dequeue_slot async w h f u core = (r, core') \<Longrightarrow>
    bq_step history (Idle, core)
      (after_dequeue async w h (if f = PixelFormat_NoFormat then default_buffer_format core else f)
         (u OR consumer_usage_bit core) r, core')"
| resume: "dequeue_resume async w h f u flags core = (r, core') \<Longrightarrow>
    bq_step history (Waiting async w h f u flags, core) (after_dequeue async w h f u r, core')"
| store: "bq_step history (Allocating flags by_consumer found fence data, core)
    (Idle, snd (dequeue_store flags by_consumer found fence data core))"
| detach: "bq_step history (Idle, core) (Idle, snd (DetachBuffer slot core))"
| detach_next: "bq_step history (Idle, core) (Idle, snd (DetachNextBuffer core))"
| queue: "bq_step history (Idle, core) (Idle, snd (QueueBuffer history now slot input core))"
| cancel: "bq_step history (Idle, core) (Idle, CancelBuffer slot fence core)"
| connect: "bq_step history (Idle, core) (Idle, snd (producer_Connect l api c core))"
| disconnect: "bq_step history (Idle, core) (Idle, snd (producer_Disconnect api core))"
| preallocate: "bq_step history (Idle, core) (Idle, snd (SetPreallocatedBuffer slot buffer core))"
| acquire: "bq_step history (p, core) (p, snd (AcquireBuffer t core))"
| release: "bq_step history (p, core) (p, snd (ReleaseBuffer slot frame core))"
| consumer_connect: "bq_step history (p, core) (p, snd (consumer_Connect l c core))"
| consumer_disconnect: "bq_step history (p, core) (p, snd (consumer_Disconnect core))"

definition system_ok :: "producer_state \<times> BufferQueueCore \<Rightarrow> bool" where
  "system_ok s \<longleftrightarrow> (let core = snd s in
     case fst s of
       Idle \<Rightarrow> bq_ok {} core
     | Waiting async w h f u flags \<Rightarrow> bq_ok {} core \<and> (flags = 0 \<or> flags = 2)
     | Allocating flags by_consumer found fence data \<Rightarrow>
         if is_abandoned core then bq_ok {} core
         else bq_ok {nat found} core \<and> nat found < NUM_BUFFER_SLOTS \<and>
           buffer_state (slot_at core (nat found)) = Dequeued)"

lemma system_ok_dequeue:
  "progress_ok {} (r, core') \<Longrightarrow> system_ok (after_dequeue async w h f u r, core')"
  by (auto simp: progress_ok_def system_ok_def after_dequeue_def split: dequeue_progress.splits)

text \<open>
  What the system relies on from an operation of the consumer, which may come while the producer is
  anywhere in \<open>DequeueBuffer\<close>: it keeps the ownership invariant, takes no slot from the producer and
  does not abandon the queue.
\<close>

locale consumer_operation =
  fixes op :: "BufferQueueCore \<Rightarrow> BufferQueueCore"
  assumes op_ok: "bq_ok P core \<Longrightarrow> bq_ok P (op core)"
    and op_abandoned: "bq_ok P core \<Longrightarrow> is_abandoned (op core) = is_abandoned core"
    and op_dequeued: "bq_ok P core \<Longrightarrow> buffer_state (slot_at core i) = Dequeued \<Longrightarrow>
      buffer_state (slot_at (op core) i) = Dequeued"
begin

lemma keeps_system: "system_ok (p, core) \<Longrightarrow> system_ok (p, op core)"
  using op_ok op_abandoned op_dequeued
  by (cases p) (auto simp: system_ok_def split: if_splits)

end

interpretation acquire: consumer_operation "\<lambda>core. snd (AcquireBuffer t core)" for t
  by unfold_locales (simp_all add: AcquireBuffer_ok)

interpretation release: consumer_operation "\<lambda>core. snd (ReleaseBuffer slot frame core)" for slot frame
  by unfold_locales (simp_all add: ReleaseBuffer_ok)

interpretation consumer_connect: consumer_operation "\<lambda>core. snd (consumer_Connect l c core)" for l c
  by unfold_locales (simp_all add: consumer_Connect_ok)

lemma system_ok_bq:
  assumes "system_ok (p, core)"
  obtains P where "bq_ok P core"
  using assms by (cases p) (auto simp: system_ok_def split: if_splits)

lemma system_ok_abandoned:
  assumes "system_ok (p, core)" "is_abandoned core'" "\<And>Q. bq_ok Q core'"
  shows "system_ok (p, core')"
  using assms by (cases p) (auto simp: system_ok_def)

lemma dequeue_store_abandoned:
  "is_abandoned core \<Longrightarrow> bq_ok P core \<Longrightarrow> bq_ok P (snd (dequeue_store fl bc found fe d core))"
  using next_buffer_ok by (simp add: dequeue_store_def make_buffer_def)

lemma bq_step_ok:
  assumes "bq_step history s s'" "system_ok s"
  shows "system_ok s'"
  using assms
proof cases
  case (dequeue async w h f u core r core')
  then have "bq_ok {} core" using assms(2) by (simp add: system_ok_def)
  from dequeue_slot_ok [OF this, of async w h f u] dequeue show ?thesis
    by (simp add: system_ok_dequeue)
next
  case (resume async w h f u flags core r core')
  then have "bq_ok {} core" "flags = 0 \<or> flags = 2" using assms(2) by (simp_all add: system_ok_def)
  from dequeue_resume_ok [OF this, of async w h f u] resume show ?thesis
    by (simp add: system_ok_dequeue)
next
  case (store flags bc found fence data core)
  show ?thesis
  proof (cases "is_abandoned core")
    case True
    with store assms(2) dequeue_store_abandoned show ?thesis by (simp add: system_ok_def)
  next
    case False
    with store assms(2) dequeue_store_ok [of "nat found" "{}" core found]
    show ?thesis by (simp add: system_ok_def)
  qed
next
  case (acquire p core t)
  with assms(2) show ?thesis by (simp add: acquire.keeps_system)
next
  case (release p core slot frame)
  with assms(2) show ?thesis by (simp add: release.keeps_system)
next
  case (consumer_connect p core l c)
  with assms(2) show ?thesis by (simp add: consumer_connect.keeps_system)
next
  case (consumer_disconnect p core)
  obtain P where "bq_ok P core" using system_ok_bq consumer_disconnect(1) assms(2) by metis
  note d = consumer_Disconnect_ok [OF this]
  show ?thesis
    using d consumer_disconnect assms(2) system_ok_abandoned [of p core] by metis
qed (auto simp: system_ok_def RequestBuffer_ok SetBufferCount_ok DetachBuffer_ok
    DetachNextBuffer_ok QueueBuffer_ok CancelBuffer_ok producer_Connect_ok producer_Disconnect_ok
    SetPreallocatedBuffer_ok)

abbreviation bq_steps ::
  "bool \<Rightarrow> producer_state \<times> BufferQueueCore \<Rightarrow> producer_state \<times> BufferQueueCore \<Rightarrow> bool" where
  "bq_steps history \<equiv> (bq_step history)\<^sup>*\<^sup>*"

lemma bq_steps_ok:
  assumes "bq_steps history (Idle, new_BufferQueueCore) s"
  shows "system_ok s"
  using assms
proof (induction rule: rtranclp_induct)
  case base
  then show ?case by (simp add: system_ok_def new_BufferQueueCore_ok)
next
  case (step y z)
  then show ?case by (blast intro: bq_step_ok)
qed

end
