(* ===== verification/Buffer_Queue_Laws.thy ===== *)
theory Buffer_Queue_Laws
  imports Buffer_Queue_Steps
begin

text \<open>
  What the buffer queue promises: ownership of buffers in every reachable state, which slot is
  dequeued, acquiring and releasing, the order of frames, the released-buffer mask and the history.
\<close>

section \<open>Ownership\<close>

text \<open>
  C8. In every state that one producer and any number of consumer threads can reach from a new
  queue: the queue's live entries (those whose slot still holds their buffer) name each slot in
  state \<open>Queued\<close> exactly once and no other slot, with the frame number of the slot; at most one
  buffer is acquired; and the slot table and the buffer count stay within bounds.
\<close>

theorem bq_ownership:
  assumes "bq_steps history (Idle, new_BufferQueueCore) (p, core)"
  shows "distinct (map item_slot (live core)) \<and>
    item_slot ` set (live core) =
      {int s |s. s < NUM_BUFFER_SLOTS \<and> buffer_state (slot_at core s) = Queued} \<and>
    (\<forall>it\<in>set (live core). frame_number (slot_at core (nat (item_slot it))) = item_frame_number it) \<and>
    num_acquired core \<le> 1 \<and> length (slots core) = NUM_BUFFER_SLOTS \<and>
    0 \<le> override_max_buffer_count core \<and> override_max_buffer_count core \<le> int NUM_BUFFER_SLOTS"
proof -
  obtain P where "bq_ok P core" using bq_steps_ok [OF assms] system_ok_bq by metis
  then show ?thesis by (simp add: bq_ok_def owned_ok_def shape_ok_def queued_slots_def)
qed

section \<open>Dequeueing\<close>

lemma released_GetMaxBufferCountLocked:
  assumes "released A core c" "length (slots core) = NUM_BUFFER_SLOTS"
  shows "GetMaxBufferCountLocked async (c\<lparr>dequeue_possible := d\<rparr>) = GetMaxBufferCountLocked async core"
proof -
  obtain ss where c: "c = core\<lparr>slots := ss\<rparr>" using assms(1) by (auto simp: released_def)
  have st: "buffer_state (ss ! s) = buffer_state (slots core ! s)" if "s < NUM_BUFFER_SLOTS" for s
    using assms that by (auto simp: released_def c)
  have "foldl (\<lambda>count s. if buffer_state (ss ! s) = Queued \<or> buffer_state (ss ! s) = Dequeued
        then int s + 1 else count) x [n..<NUM_BUFFER_SLOTS] =
      foldl (\<lambda>count s. if buffer_state (slots core ! s) = Queued \<or> buffer_state (slots core ! s) = Dequeued
        then int s + 1 else count) x [n..<NUM_BUFFER_SLOTS]" for x n
    by (rule foldl_cong) (simp_all add: st)
  then show ?thesis
    by (simp add: c GetMaxBufferCountLocked_def GetMinMaxBufferCountLocked_def
        GetMinUndequeuedBufferCountLocked_def Let_def)
qed

text \<open>Like \<open>released\<close>, when the signal may have been taken on the way.\<close>

definition released_wait :: "nat set \<Rightarrow> BufferQueueCore \<Rightarrow> BufferQueueCore \<Rightarrow> bool" where
  "released_wait A core c \<longleftrightarrow> c = core\<lparr>dequeue_possible := dequeue_possible c, slots := slots c\<rparr> \<and>
     length (slots c) = length (slots core) \<and>
     (\<forall>s<length (slots core). slot_at c s = slot_at core s \<or>
        s \<in> A \<and> buffer_state (slot_at core s) = Free \<and> slot_at c s = free_slot (slot_at core s))"

lemma released_wait_intro: "released A core c \<Longrightarrow> released_wait A core c"
  by (cases core; cases c) (auto simp: released_def released_wait_def)

lemma released_wait_trans:
  assumes "released A core c" "released A (c\<lparr>dequeue_possible := d\<rparr>) c'"
  shows "released_wait A core c'"
proof -
  obtain ss where c: "c = core\<lparr>slots := ss\<rparr>" using assms(1) by (auto simp: released_def)
  obtain ss' where c': "c' = core\<lparr>dequeue_possible := d, slots := ss'\<rparr>"
    using assms(2) by (auto simp: released_def c)
  have "ss' ! s = slots core ! s \<or> s \<in> A \<and> buffer_state (slots core ! s) = Free \<and>
      ss' ! s = free_slot (slots core ! s)" if "s < length (slots core)" for s
    using assms that free_slot_free [of "slots core ! s"] by (fastforce simp: released_def c c')
  with assms c c' show ?thesis by (auto simp: released_def released_wait_def)
qed

lemma released_waitD:
  assumes "released_wait A core c" "s < length (slots core)"
  shows "slot_at c s = slot_at core s \<or>
    s \<in> A \<and> buffer_state (slot_at core s) = Free \<and> slot_at c s = free_slot (slot_at core s)"
    "buffer_state (slot_at c s) = buffer_state (slot_at core s)"
  using assms unfolding released_wait_def by (blast, metis free_slot_fields(2))

lemma released_wait_fields:
  assumes "released_wait A core c"
  shows "default_width c = default_width core" "default_height c = default_height core"
    "length (slots c) = length (slots core)" "is_abandoned c = is_abandoned core"
proof -
  obtain d ss where "c = core\<lparr>dequeue_possible := d, slots := ss\<rparr>" "length (slots c) = length (slots core)"
    using assms unfolding released_wait_def by blast
  then show "default_width c = default_width core" "default_height c = default_height core"
    "length (slots c) = length (slots core)" "is_abandoned c = is_abandoned core" by simp_all
qed

lemma oldest_cong:
  "oldest n ss found \<Longrightarrow> (\<And>s. s < n \<Longrightarrow> ss ! s = ss' ! s) \<Longrightarrow> oldest n ss' found"
  by (auto simp: oldest_def free_at_def split: if_splits)

lemma oldest_nat: "oldest n ss found \<Longrightarrow> found \<noteq> INVALID_BUFFER_SLOT \<Longrightarrow> nat found < n"
  by (auto simp: oldest_def)

lemma oldest_pick:
  assumes "oldest n ss found" "found \<noteq> INVALID_BUFFER_SLOT"
  shows "\<forall>s<n. buffer_state (ss ! s) = Free \<longrightarrow>
       frame_number (ss ! nat found) < frame_number (ss ! s) \<or>
       frame_number (ss ! nat found) = frame_number (ss ! s) \<and> nat found \<le> s"
    "buffer_state (ss ! nat found) = Free"
proof -
  have le: "frame_number (ss ! nat found) \<le> frame_number (ss ! s)"
    if "s < n" "buffer_state (ss ! s) = Free" for s
    using assms that by (simp add: oldest_def free_at_def)
  have lt: "frame_number (ss ! nat found) < frame_number (ss ! s)"
    if "s < nat found" "buffer_state (ss ! s) = Free" for s
    using assms that by (simp add: oldest_def free_at_def)
  show "\<forall>s<n. buffer_state (ss ! s) = Free \<longrightarrow>
       frame_number (ss ! nat found) < frame_number (ss ! s) \<or>
       frame_number (ss ! nat found) = frame_number (ss ! s) \<and> nat found \<le> s"
    using le lt by (meson leI order_le_less)
  show "buffer_state (ss ! nat found) = Free" using assms by (simp add: oldest_def free_at_def)
qed

lemma Wait_found:
  assumes ok: "bq_ok P core"
    and w: "WaitForFreeSlotThenRelock async flags core = (Returned NoError found fl, c)"
  shows "found \<noteq> INVALID_BUFFER_SLOT"
    "oldest (nat (GetMaxBufferCountLocked async core)) (slots core) found"
    "released_wait {nat (GetMaxBufferCountLocked async core)..<NUM_BUFFER_SLOTS} core c"
proof -
  let ?m = "GetMaxBufferCountLocked async core"
  have len: "length (slots core) = NUM_BUFFER_SLOTS" using bq_okD(5) [OF ok] .
  have m: "nat ?m \<le> NUM_BUFFER_SLOTS"
    using GetMaxBufferCountLocked_bounds(2) [OF bq_okD(1) [OF ok], of async] by linarith
  obtain r1 c1 where 1: "free_slot_round async 0 flags core = (r1, c1)" by fastforce
  have main: "found \<noteq> INVALID_BUFFER_SLOT \<and> oldest (nat ?m) (slots c) found \<and>
      released_wait {nat ?m..<NUM_BUFFER_SLOTS} core c"
  proof (cases r1)
    case (Returned st f g)
    with 1 w have "free_slot_round async 0 flags core = (Returned NoError found fl, c)"
      by (simp add: WaitForFreeSlotThenRelock_def)
    from free_slot_round_found [OF this] released_wait_intro show ?thesis by blast
  next
    case (Blocked g)
    with 1 w have r2: "free_slot_round async INVALID_BUFFER_SLOT g (c1\<lparr>dequeue_possible := False\<rparr>) =
        (Returned NoError found fl, c)"
      by (auto simp: WaitForFreeSlotThenRelock_def split: if_splits)
    obtain fl1 c0 where rb: "release_beyond ?m flags core = (fl1, c0)" by fastforce
    with 1 Blocked have "c1 = c0"
      by (auto simp: free_slot_round_def Let_def split: prod.splits if_splits)
    with release_beyond_released [OF rb] have rel: "released {nat ?m..<NUM_BUFFER_SLOTS} core c1" by simp
    note f = free_slot_round_found [OF r2] released_GetMaxBufferCountLocked [OF rel len]
    from f released_wait_trans [OF rel] show ?thesis by simp
  qed
  then show "found \<noteq> INVALID_BUFFER_SLOT" and rel: "released_wait {nat ?m..<NUM_BUFFER_SLOTS} core c"
    by simp_all
  show "oldest (nat ?m) (slots core) found"
  proof (rule oldest_cong)
    show "oldest (nat ?m) (slots c) found" using main by simp
    fix s assume "s < nat ?m"
    with released_waitD(1) [OF rel, of s] m len show "slots c ! s = slots core ! s" by auto
  qed
qed

lemma take_slot_effect:
  assumes len: "nat found < length (slots core)" and fl: "flags = 0 \<or> flags = 2"
    and r: "take_slot flags found w h f u core = (r, c)"
  defines "w' \<equiv> if w = 0 \<and> h = 0 then default_width core else w"
    and "h' \<equiv> if w = 0 \<and> h = 0 then default_height core else h"
  shows "buffer_state (slot_at c (nat found)) = Dequeued" "is_abandoned c = is_abandoned core"
    "length (slots c) = length (slots core)"
    "s \<noteq> nat found \<Longrightarrow> slot_at c s = slot_at core s"
    "(\<exists>st fe. r = DequeueDone \<lparr>dq_status = st, dq_slot = found, dq_fence = fe\<rparr> \<and> 0 \<le> st \<and>
        buffer_fits (graphic_buffer (slot_at c (nat found))) w' h' f u) \<or>
     (\<exists>fe. r = DequeueAllocate (flags OR 1) (attached_by_consumer (slot_at core (nat found))) found fe
        \<lparr>gb_width = w', gb_height = h', gb_format = f, gb_usage = u, gb_buffer_id = 0, gb_handle = 0\<rparr>)"
proof -
  have c: "c = snd (take_slot flags found w h f u core)" using r by simp
  show "buffer_state (slot_at c (nat found)) = Dequeued" "is_abandoned c = is_abandoned core"
    "length (slots c) = length (slots core)" "s \<noteq> nat found \<Longrightarrow> slot_at c s = slot_at core s"
    using len unfolding c by (simp_all add: take_slot_def Let_def)
  show "(\<exists>st fe. r = DequeueDone \<lparr>dq_status = st, dq_slot = found, dq_fence = fe\<rparr> \<and> 0 \<le> st \<and>
        buffer_fits (graphic_buffer (slot_at c (nat found))) w' h' f u) \<or>
     (\<exists>fe. r = DequeueAllocate (flags OR 1) (attached_by_consumer (slot_at core (nat found))) found fe
        \<lparr>gb_width = w', gb_height = h', gb_format = f, gb_usage = u, gb_buffer_id = 0, gb_handle = 0\<rparr>)"
  proof (cases "buffer_fits (graphic_buffer (slot_at core (nat found))) w' h' f u")
    case True
    with r len fl show ?thesis by (auto simp: take_slot_def Let_def w'_def h'_def)
  next
    case False
    with r len fl show ?thesis by (auto simp: take_slot_def Let_def w'_def h'_def)
  qed
qed

lemma Wait_status:
  assumes "WaitForFreeSlotThenRelock async flags core = (Returned st found fl, c)"
  shows "st \<le> 0"
proof -
  have r: "st \<le> 0" if "free_slot_round async f g core' = (Returned st found fl, c)" for f g core'
    using that by (auto simp: free_slot_round_def Let_def split: prod.splits if_splits)
  show ?thesis
    using assms by (auto simp: WaitForFreeSlotThenRelock_def split: prod.splits wait_result.splits
        if_splits intro: r)
qed

text \<open>A dequeue that succeeds has found a slot and taken it, perhaps with a new buffer.\<close>

lemma DequeueBuffer_success:
  assumes r: "DequeueBuffer async w h f u core = (Inr r, core')" "0 \<le> dq_status r"
  obtains found flags c pr c1 where
    "WaitForFreeSlotThenRelock async NoError core = (Returned NoError found flags, c)"
    "take_slot flags found w h (if f = PixelFormat_NoFormat then default_buffer_format core else f)
       (u OR consumer_usage_bit core) c = (pr, c1)"
    "pr = DequeueDone r \<and> core' = c1 \<or> (\<exists>fl bc fd fe d. pr = DequeueAllocate fl bc fd fe d \<and>
       dequeue_store fl bc fd fe d c1 = (r, core'))"
proof -
  obtain x c where w: "WaitForFreeSlotThenRelock async NoError core = (x, c)" by fastforce
  obtain pr c1 where d: "dequeue_slot async w h f u core = (pr, c1)" by fastforce
  from r(1) d consider (answer) "pr = DequeueDone r" "core' = c1"
    | (alloc) fl bc fd fe d where "pr = DequeueAllocate fl bc fd fe d" "dequeue_store fl bc fd fe d c1 = (r, core')"
    by (auto simp: DequeueBuffer_def split: dequeue_progress.splits prod.splits)
  note pr = this
  then have not_bad: "pr \<noteq> DequeueDone \<lparr>dq_status = BadValue, dq_slot = 0, dq_fence = zero_Fence\<rparr>"
    using r(2) by cases auto
  have cont: "dequeue_continue w h (if f = PixelFormat_NoFormat then default_buffer_format core else f)
      (u OR consumer_usage_bit core) (x, c) = (pr, c1)"
    using d w not_bad unfolding dequeue_slot_def by (auto split: if_splits)
  from pr have "pr \<noteq> DequeueWait g" for g by cases auto
  with cont obtain st found flags where x: "x = Returned st found flags"
    by (cases x) (auto simp: dequeue_continue_def)
  have neg: "pr \<noteq> DequeueDone \<lparr>dq_status = st', dq_slot = 0, dq_fence = zero_Fence\<rparr>" if "st' < 0" for st'
    using pr r(2) that by cases auto
  have "st = NoError" "found \<noteq> INVALID_BUFFER_SLOT"
    using cont x neg [of st] neg [of Busy] Wait_status [OF w [unfolded x]]
    by (auto simp: dequeue_continue_def split: if_splits)
  with cont x w pr show thesis
    by (intro that [of found flags c pr c1]) (auto simp: dequeue_continue_def)
qed

text \<open>
  C37. A dequeue that succeeds hands out the oldest of the free slots below the buffer count (the
  first of equally old ones) with a buffer of the requested size, format and usage; the other
  slots stay as they are, or, beyond the buffer count, lose the buffer of a free slot.
\<close>

theorem DequeueBuffer_oldest_free:
  assumes ok: "bq_ok {} core"
    and r: "DequeueBuffer async w h f u core = (Inr r, core')" "0 \<le> dq_status r"
  shows "let i = nat (dq_slot r); m = nat (GetMaxBufferCountLocked async core) in
    i < m \<and> buffer_state (slot_at core i) = Free \<and>
    (\<forall>s<m. buffer_state (slot_at core s) = Free \<longrightarrow>
       frame_number (slot_at core i) < frame_number (slot_at core s) \<or>
       frame_number (slot_at core i) = frame_number (slot_at core s) \<and> i \<le> s) \<and>
    buffer_state (slot_at core' i) = Dequeued \<and>
    buffer_fits (graphic_buffer (slot_at core' i))
      (if w = 0 \<and> h = 0 then default_width core else w)
      (if w = 0 \<and> h = 0 then default_height core else h)
      (if f = PixelFormat_NoFormat then default_buffer_format core else f)
      (u OR consumer_usage_bit core) \<and>
    (\<forall>s<NUM_BUFFER_SLOTS. s \<noteq> i \<longrightarrow> slot_at core' s = slot_at core s \<or>
       m \<le> s \<and> buffer_state (slot_at core s) = Free \<and> slot_at core' s = free_slot (slot_at core s))"
proof -
  let ?m = "nat (GetMaxBufferCountLocked async core)"
  obtain found flags c pr c1 where
    w: "WaitForFreeSlotThenRelock async NoError core = (Returned NoError found flags, c)" and
    t: "take_slot flags found w h (if f = PixelFormat_NoFormat then default_buffer_format core else f)
       (u OR consumer_usage_bit core) c = (pr, c1)" and
    pr: "pr = DequeueDone r \<and> core' = c1 \<or> (\<exists>fl bc fd fe d. pr = DequeueAllocate fl bc fd fe d \<and>
       dequeue_store fl bc fd fe d c1 = (r, core'))"
    using DequeueBuffer_success [OF r] by metis
  note found = Wait_found [OF ok w]
  note c = released_wait_fields [OF found(3)]
  have m: "?m \<le> NUM_BUFFER_SLOTS"
    using GetMaxBufferCountLocked_bounds(2) [OF bq_okD(1) [OF ok], of async] by linarith
  have i: "nat found < ?m" "nat found < length (slots c)"
    using oldest_nat [OF found(2,1)] m c(3) bq_okD(5) [OF ok] by auto
  have fl: "flags = 0 \<or> flags = 2"
    using WaitForFreeSlotThenRelock_flags [of async core] w by (simp add: flags_ok_def)
  note e = take_slot_effect [OF i(2) fl t]
  have ab: "\<not> is_abandoned c1"
    using WaitForFreeSlotThenRelock_ok(2) [OF ok, of async NoError] w e(2) by (simp add: found_ok_def)
  have res: "dq_slot r = found \<and> buffer_state (slot_at core' (nat found)) = Dequeued \<and>
      (\<forall>s. s \<noteq> nat found \<longrightarrow> slot_at core' s = slot_at c s) \<and>
      buffer_fits (graphic_buffer (slot_at core' (nat found)))
        (if w = 0 \<and> h = 0 then default_width core else w)
        (if w = 0 \<and> h = 0 then default_height core else h)
        (if f = PixelFormat_NoFormat then default_buffer_format core else f)
        (u OR consumer_usage_bit core)"
    using pr
  proof
    assume "pr = DequeueDone r \<and> core' = c1"
    with e c show ?thesis by auto
  next
    assume "\<exists>fl bc fd fe d. pr = DequeueAllocate fl bc fd fe d \<and> dequeue_store fl bc fd fe d c1 = (r, core')"
    with e c ab i(2) show ?thesis
      by (auto simp: dequeue_store_def make_buffer_def buffer_fits_def)
  qed
  note o = oldest_pick [OF found(2,1)]
  have rest: "slot_at core' s = slot_at core s \<or>
       ?m \<le> s \<and> buffer_state (slot_at core s) = Free \<and> slot_at core' s = free_slot (slot_at core s)"
    if "s < NUM_BUFFER_SLOTS" "s \<noteq> nat found" for s
    using released_waitD(1) [OF found(3), of s] that res bq_okD(5) [OF ok] by auto
  show ?thesis unfolding Let_def using res i(1) o rest by blast
qed

text \<open>The instance: a queue with one preallocated buffer, whose slot is then dequeued.\<close>

definition sample_buffer :: NvGraphicBuffer where
  "sample_buffer =
     \<lparr>gb_width = 1280, gb_height = 720, gb_format = 1, gb_usage = 0xB00, gb_buffer_id = 3, gb_handle = 3\<rparr>"

definition sample_queue :: BufferQueueCore where
  "sample_queue = snd (SetPreallocatedBuffer 0 (Some sample_buffer) new_BufferQueueCore)"

lemma sample_queue_ok: "bq_ok {} sample_queue"
  unfolding sample_queue_def by (rule SetPreallocatedBuffer_ok [OF new_BufferQueueCore_ok])

definition sample_slot :: BufferSlot where
  "sample_slot = new_BufferSlot\<lparr>slot_fence := NoFence,
     graphic_buffer := Some \<lparr>gb_address = 0, gb_data = sample_buffer\<rparr>, is_preallocated := True\<rparr>"

lemma sample_queue_slots:
  "slots sample_queue = (replicate NUM_BUFFER_SLOTS new_BufferSlot)[0 := sample_slot]"
  by (simp add: sample_queue_def SetPreallocatedBuffer_def new_BufferQueueCore_def make_buffer_def
      update_slot_def Let_def sample_slot_def new_BufferSlot_def NUM_BUFFER_SLOTS_def
      SignalDequeueCondition_def)

lemma one_preallocated:
  "\<not> is_preallocated x \<Longrightarrow> is_preallocated y \<Longrightarrow> 0 < n \<Longrightarrow>
   filter is_preallocated ((replicate n x)[0 := y]) = [y]"
  by (cases n) simp_all

lemma sample_queue_fields:
  "override_max_buffer_count sample_queue = 1" "\<not> is_abandoned sample_queue"
  "queue sample_queue = []" "\<not> buffer_has_been_queued sample_queue" "\<not> use_async_buffer sample_queue"
  "default_width sample_queue = 1280" "default_height sample_queue = 720"
  "default_buffer_format sample_queue = 1" "consumer_usage_bit sample_queue = 0"
  by (simp_all add: sample_queue_def SetPreallocatedBuffer_def new_BufferQueueCore_def make_buffer_def
      update_slot_def Let_def sample_buffer_def SignalDequeueCondition_def
      GetPreallocatedBufferCountLocked_def one_preallocated new_BufferSlot_def NUM_BUFFER_SLOTS_def
      list_update_overwrite)

theorem bq_ownership_witness:
  "num_acquired sample_queue \<le> 1 \<and> override_max_buffer_count sample_queue = 1"
proof -
  have "bq_step False (Idle, new_BufferQueueCore) (Idle, sample_queue)"
    unfolding sample_queue_def by (rule bq_step.preallocate)
  then have "bq_steps False (Idle, new_BufferQueueCore) (Idle, sample_queue)" by (rule r_into_rtranclp)
  from bq_ownership [OF this] sample_queue_fields(1) show ?thesis by simp
qed

lemma release_slots_none:
  "(\<And>s. s \<in> set xs \<Longrightarrow> graphic_buffer (slot_at core s) = None) \<Longrightarrow>
   foldl release_slot (flags, core) xs = (flags, core)"
  by (induction xs) (auto simp: release_slot_def)

lemma sample_slot_at: "s < NUM_BUFFER_SLOTS \<Longrightarrow>
  slot_at sample_queue s = (if s = 0 then sample_slot else new_BufferSlot)"
  by (simp add: sample_queue_slots nth_list_update)

lemma sample_wait:
  "WaitForFreeSlotThenRelock False 0 sample_queue = (Returned NoError 0 0, sample_queue)"
proof -
  have m: "GetMaxBufferCountLocked False sample_queue = 1"
    by (simp add: GetMaxBufferCountLocked_def sample_queue_fields Let_def)
  have "release_beyond 1 0 sample_queue = (0, sample_queue)"
    unfolding release_beyond_def
    by (rule release_slots_none) (simp add: sample_slot_at new_BufferSlot_def)
  moreover have "scan_slots 1 (slots sample_queue) = (0, 0, 0)"
    by (simp add: scan_slots_def scan_slot_def sample_slot_at NUM_BUFFER_SLOTS_def sample_slot_def
        new_BufferSlot_def)
  ultimately show ?thesis
    by (simp add: WaitForFreeSlotThenRelock_def free_slot_round_def m sample_queue_fields
        INVALID_BUFFER_SLOT_def)
qed

lemma sample_dequeue:
  "\<exists>r core'. DequeueBuffer False 0 0 0 0x100 sample_queue = (Inr r, core') \<and>
     dq_status r = 0 \<and> dq_slot r = 0"
proof -
  have len: "length (slots sample_queue) = NUM_BUFFER_SLOTS" by (simp add: sample_queue_slots)
  show ?thesis
    by (simp add: DequeueBuffer_def dequeue_slot_def sample_wait dequeue_continue_def
        INVALID_BUFFER_SLOT_def take_slot_def Let_def len sample_slot_at NUM_BUFFER_SLOTS_def
        sample_slot_def new_BufferSlot_def buffer_fits_def sample_buffer_def sample_queue_fields
        PixelFormat_NoFormat_def)
qed

theorem DequeueBuffer_oldest_free_witness:
  "\<exists>r core'. DequeueBuffer False 0 0 0 0x100 sample_queue = (Inr r, core') \<and> dq_slot r = 0 \<and>
     buffer_state (slot_at core' 0) = Dequeued"
proof -
  obtain r core' where r: "DequeueBuffer False 0 0 0 0x100 sample_queue = (Inr r, core')"
    "dq_status r = 0" "dq_slot r = 0" using sample_dequeue by blast
  with DequeueBuffer_oldest_free [OF sample_queue_ok r(1)] show ?thesis by (simp add: Let_def)
qed

section \<open>Queueing\<close>

lemma enqueue_item_queue:
  "queue (snd (enqueue_item h item core)) =
     (case queue core of [] \<Rightarrow> [item]
      | front # rest \<Rightarrow> if is_droppable front then item # rest else queue core @ [item])"
  by (auto simp: enqueue_item_def Let_def split: list.split)

lemma PushHistory_fields [simp]:
  "queue (PushHistory n t u st core) = queue core" "slots (PushHistory n t u st core) = slots core"
  "frame_counter (PushHistory n t u st core) = frame_counter core"
  by (simp_all add: PushHistory_def Let_def split: option.split)

lemma SignalDequeueCondition_fields [simp]:
  "queue (SignalDequeueCondition core) = queue core" "slots (SignalDequeueCondition core) = slots core"
  "frame_counter (SignalDequeueCondition core) = frame_counter core"
  by (simp_all add: SignalDequeueCondition_def)

lemma drop_front_frame [simp]: "frame_counter (drop_front h front core) = frame_counter core"
  by (simp add: drop_front_eq)

lemma enqueue_item_frame_counter [simp]:
  "frame_counter (snd (enqueue_item h item core)) = frame_counter core"
  by (auto simp: enqueue_item_def Let_def split: list.split)

lemma enqueue_item_slots:
  "slots (snd (enqueue_item h item core)) =
     (case queue core of [] \<Rightarrow> slots core | front # rest \<Rightarrow> slots (drop_front h front core))"
  by (auto simp: enqueue_item_def Let_def drop_front_eq split: list.split)

lemma QueueBuffer_status:
  "fst (fst (QueueBuffer h now slot input core)) = NoError \<longleftrightarrow> queue_ready slot input core"
  by (auto simp: QueueBuffer_def queue_ready_def Let_def split: prod.splits)

lemma queued_item_fields [simp]:
  "item_slot (queued_item now slot input core) = slot"
  "item_frame_number (queued_item now slot input core) = frame_counter core + 1"
  "is_droppable (queued_item now slot input core) = (dequeue_buffer_cannot_block core \<or> in_async input)"
  by (simp_all add: queued_item_def make_item_def counted_def update_slot_def)

text \<open>
  C38. What queueing does, on every branch: a refused call changes nothing; an accepted one gives
  the slot the next frame number and puts its entry at the back of the queue, except that an entry
  at the front that may be dropped is replaced, whatever is queued behind it, and its slot is
  freed when it still held that entry's buffer.
\<close>

theorem QueueBuffer_effect:
  assumes ok: "bq_ok {} core"
    and r: "QueueBuffer h now slot input core = ((status, out, calls), core')"
  shows "(status \<noteq> NoError \<longrightarrow> core' = core) \<and>
    (status = NoError \<longrightarrow>
       buffer_state (slot_at core (nat slot)) = Dequeued \<and>
       buffer_state (slot_at core' (nat slot)) = Queued \<and>
       frame_number (slot_at core' (nat slot)) = frame_counter core + 1 \<and>
       frame_counter core' = frame_counter core + 1 \<and>
       (\<exists>item. item_slot item = slot \<and> item_frame_number item = frame_counter core + 1 \<and>
          queue core' = (if queue core \<noteq> [] \<and> is_droppable (hd (queue core))
            then item # tl (queue core) else queue core @ [item])) \<and>
       (\<forall>s. s \<noteq> nat slot \<longrightarrow> slot_at core' s =
          (if queue core \<noteq> [] \<and> is_droppable (hd (queue core)) \<and>
              StillTracking (hd (queue core)) core \<and> nat (item_slot (hd (queue core))) = s
           then (slot_at core s)\<lparr>buffer_state := Free, frame_number := 0\<rparr> else slot_at core s)))"
proof (cases "queue_ready slot input core")
  case False
  with r QueueBuffer_core [of h now slot input core] QueueBuffer_status [of h now slot input core]
  show ?thesis by simp
next
  case True
  let ?f = "queue_slot now input (frame_counter core + 1)"
  let ?c = "counted input core" and ?item = "queued_item now slot input core"
  have st: "status = NoError" using r QueueBuffer_status [of h now slot input core] True by simp
  have i: "nat slot < NUM_BUFFER_SLOTS" "buffer_state (slot_at core (nat slot)) = Dequeued"
    using True GetMaxBufferCountLocked_bounds(2) [OF bq_okD(1) [OF ok], of "in_async input"]
    by (auto simp: queue_ready_def)
  have len: "nat slot < length (slots core)" using i ok by (simp add: bq_okD(5))
  have okc: "bq_ok {} ?c" using ok by (simp add: counted_def)
  have c: "slots ?c = slots core" "queue ?c = queue core" "frame_counter ?c = frame_counter core + 1"
    "StillTracking it ?c = StillTracking it core" for it
    by (simp_all add: counted_def StillTracking_def)
  have core': "slots core' = slots (snd (enqueue_item h ?item (update_slot (nat slot) ?f ?c)))"
    "queue core' = queue (snd (enqueue_item h ?item (update_slot (nat slot) ?f ?c)))"
    "frame_counter core' = frame_counter core + 1"
    using r QueueBuffer_core [of h now slot input core] True c(3) by (auto simp: Let_def)
  have q: "queue core' = (if queue core \<noteq> [] \<and> is_droppable (hd (queue core))
            then ?item # tl (queue core) else queue core @ [?item])"
    unfolding core' enqueue_item_queue by (simp add: c split: list.split)
  have f: "graphic_buffer (?f (slot_at ?c (nat slot))) = graphic_buffer (slot_at ?c (nat slot))"
    by (simp add: queue_slot_def)
  have slots: "slot_at core' s = (if s = nat slot then ?f (slot_at core s)
      else if queue core \<noteq> [] \<and> is_droppable (hd (queue core)) \<and>
              StillTracking (hd (queue core)) core \<and> nat (item_slot (hd (queue core))) = s
           then (slot_at core s)\<lparr>buffer_state := Free, frame_number := 0\<rparr> else slot_at core s)" for s
  proof (cases "queue core")
    case Nil
    then show ?thesis using len c by (simp add: core' enqueue_item_slots)
  next
    case (Cons front rest)
    note d = drop_front_other_slot [where f = ?f, OF okc _ i(1) _ f, of front rest h]
    have lenf: "StillTracking front core \<Longrightarrow> nat (item_slot front) < length (slots core)"
      using front_slot(1) [OF ok Cons] bq_okD(5) [OF ok] by simp
    have "slots core' = slots (update_slot (nat slot) ?f (drop_front h front ?c))"
      using d(1) Cons i(2) c by (simp add: core' enqueue_item_slots)
    moreover have "slot_at (drop_front h front ?c) (nat slot) = slot_at core (nat slot)"
      using d(2) Cons i(2) c by simp
    ultimately show ?thesis
      using Cons len lenf c by (auto simp: drop_front_eq update_slot_def nth_list_update)
  qed
  show ?thesis
    using st i(2) core'(3) q slots [of "nat slot"] slots by (auto simp: queue_slot_def)
qed

text \<open>The instance goes on: the slot is requested and queued.\<close>

definition sample_requested :: BufferQueueCore where
  "sample_requested =
     update_slot 0 (\<lambda>s. s\<lparr>buffer_state := Dequeued, request_buffer_called := True\<rparr>) sample_queue"

lemma sample_requested_reached:
  "snd (RequestBuffer 0 (snd (DequeueBuffer False 0 0 0 0x100 sample_queue))) = sample_requested"
proof -
  have len: "length (slots sample_queue) = NUM_BUFFER_SLOTS" by (simp add: sample_queue_slots)
  show ?thesis
    by (simp add: DequeueBuffer_def dequeue_slot_def sample_wait dequeue_continue_def
        INVALID_BUFFER_SLOT_def take_slot_def Let_def len sample_slot_at NUM_BUFFER_SLOTS_def
        sample_slot_def new_BufferSlot_def buffer_fits_def sample_buffer_def sample_queue_fields
        PixelFormat_NoFormat_def RequestBuffer_def sample_requested_def update_slot_def)
qed

lemma DequeueBuffer_ok:
  assumes "bq_ok {} core" shows "bq_ok {} (snd (DequeueBuffer async w h f u core))"
proof -
  obtain pr c where d: "dequeue_slot async w h f u core = (pr, c)" by fastforce
  with dequeue_slot_ok [OF assms, of async w h f u] have p: "progress_ok {} (pr, c)" by simp
  show ?thesis
  proof (cases pr)
    case (DequeueAllocate fl bc fd fe dt)
    with p dequeue_store_ok [of "nat fd" "{}" c fd fl bc fe dt] d show ?thesis
      by (simp add: DequeueBuffer_def progress_ok_def case_prod_unfold Let_def)
  qed (use p d in \<open>simp_all add: DequeueBuffer_def progress_ok_def\<close>)
qed

lemma sample_requested_ok: "bq_ok {} sample_requested"
  unfolding sample_requested_reached [symmetric]
  by (intro RequestBuffer_ok DequeueBuffer_ok sample_queue_ok)

definition sample_input :: QueueBufferInput where
  "sample_input =
     \<lparr>in_timestamp = 5, in_is_auto_timestamp = False,
      in_crop = \<lparr>rect_left = 0, rect_top = 0, rect_right = 1280, rect_bottom = 720\<rparr>,
      in_scaling_mode = 1, in_transform = 0, in_sticky_transform = 0, in_async = False,
      in_swap_interval = 1, in_fence = NoFence\<rparr>"

lemma sample_queue_counter: "frame_counter sample_queue = 0"
  by (simp add: sample_queue_def SetPreallocatedBuffer_def new_BufferQueueCore_def make_buffer_def
      update_slot_def Let_def SignalDequeueCondition_def)

lemma sample_requested_fields:
  "override_max_buffer_count sample_requested = 1" "\<not> is_abandoned sample_requested"
  "queue sample_requested = []" "frame_counter sample_requested = 0"
  "slot_at sample_requested 0 = sample_slot\<lparr>buffer_state := Dequeued, request_buffer_called := True\<rparr>"
  by (simp_all add: sample_requested_def sample_queue_fields sample_queue_slots sample_slot_at
      NUM_BUFFER_SLOTS_def sample_queue_counter)

lemma sample_ready: "queue_ready 0 sample_input sample_requested"
  by (simp add: queue_ready_def sample_input_def GetMaxBufferCountLocked_def Let_def
      sample_requested_fields)

theorem QueueBuffer_effect_witness:
  "\<exists>item. item_frame_number item = 1 \<and>
     queue (snd (QueueBuffer True 7 0 sample_input sample_requested)) = [item]"
proof -
  obtain status out calls core' where
    q: "QueueBuffer True 7 0 sample_input sample_requested = ((status, out, calls), core')"
    by (metis surj_pair)
  then have "status = NoError"
    using QueueBuffer_status [of True 7 0 sample_input sample_requested] sample_ready by simp
  with QueueBuffer_effect [OF sample_requested_ok q] q sample_requested_fields show ?thesis by auto
qed

section \<open>Acquiring and releasing\<close>

text \<open>Whether the entry at \<open>k\<close> is late for the time \<open>t\<close>: the one behind it is timely.\<close>

definition late :: "int \<Rightarrow> BufferItem list \<Rightarrow> nat \<Rightarrow> bool" where
  "late t q k \<longleftrightarrow> Suc k < length q \<and> \<not> is_auto_timestamp (q ! k) \<and>
     t - MAX_REASONABLE_NSEC \<le> timestamp (q ! Suc k) \<and> timestamp (q ! Suc k) \<le> t"

lemma late_Cons: "late t (x # q) (Suc k) \<longleftrightarrow> late t q k"
  by (simp add: late_def)

text \<open>The number of late entries at the front of the queue.\<close>

definition late_run :: "int \<Rightarrow> BufferItem list \<Rightarrow> nat \<Rightarrow> bool" where
  "late_run t q n \<longleftrightarrow> (\<forall>k<n. late t q k) \<and> \<not> late t q n"

lemma late_run_Cons: "late t (x # q) 0 \<Longrightarrow> late_run t q n \<Longrightarrow> late_run t (x # q) (Suc n)"
  by (auto simp: late_run_def late_Cons less_Suc_eq_0_disj)

lemma late_run_less: "late_run t q n \<Longrightarrow> q \<noteq> [] \<Longrightarrow> n < length q"
  by (cases n) (auto simp: late_run_def late_def)

text \<open>One round of the dropping loop.\<close>

definition drop_one :: "BufferQueueCore \<Rightarrow> BufferQueueCore" where
  "drop_one core = (let front = hd (queue core) in
     (if StillTracking front core
      then update_slot (nat (item_slot front)) (\<lambda>s. s\<lparr>buffer_state := Free\<rparr>) core
      else core)\<lparr>queue := tl (queue core)\<rparr>)"

lemma drop_late_step:
  "drop_late t core = (if late t (queue core) 0 then drop_late t (drop_one core) else core)"
  by (auto simp: drop_late.simps [of t core] late_def drop_one_def Let_def split: list.split)

lemma drop_late_induct [case_names drop_late]:
  assumes "\<And>core. (late t (queue core) 0 \<Longrightarrow> R (drop_one core)) \<Longrightarrow> R core"
  shows "R core"
proof (induction "length (queue core)" arbitrary: core)
  case 0
  then show ?case using assms [of core] by (simp add: late_def)
next
  case (Suc n)
  then show ?case using assms [of core] by (simp add: drop_one_def Let_def)
qed

lemma drop_late_queue:
  "\<exists>n. late_run t (queue core) n \<and> queue (drop_late t core) = drop n (queue core)"
proof (induction core rule: drop_late_induct [of t])
  case (drop_late core)
  show ?case
  proof (cases "late t (queue core) 0")
    case False
    then show ?thesis by (intro exI [of _ 0]) (simp add: late_run_def drop_late_step [of t core])
  next
    case True
    then obtain front rest where q: "queue core = front # rest"
      by (cases "queue core") (auto simp: late_def)
    then have "queue (drop_one core) = rest" by (simp add: drop_one_def Let_def)
    with drop_late [OF True] True q show ?thesis
      by (metis drop_late_step drop_Suc_Cons late_run_Cons)
  qed
qed

text \<open>Dropping late entries touches nothing but the state of slots.\<close>

lemma drop_one_frame:
  "graphic_buffer (slot_at (drop_one core) i) = graphic_buffer (slot_at core i)"
  "frame_number (slot_at (drop_one core) i) = frame_number (slot_at core i)"
proof -
  have upd: "graphic_buffer (slots (update_slot j (\<lambda>s. s\<lparr>buffer_state := Free\<rparr>) core) ! i) =
      graphic_buffer (slot_at core i)"
    "frame_number (slots (update_slot j (\<lambda>s. s\<lparr>buffer_state := Free\<rparr>) core) ! i) =
      frame_number (slot_at core i)" for j
    by (cases "j < length (slots core)";
        simp add: update_slot_def nth_list_update list_update_beyond)+
  show "graphic_buffer (slot_at (drop_one core) i) = graphic_buffer (slot_at core i)"
    "frame_number (slot_at (drop_one core) i) = frame_number (slot_at core i)"
    using upd by (simp_all add: drop_one_def Let_def)
qed

lemma drop_late_frame:
  "graphic_buffer (slot_at (drop_late t core) i) = graphic_buffer (slot_at core i) \<and>
   frame_number (slot_at (drop_late t core) i) = frame_number (slot_at core i)"
proof (induction core rule: drop_late_induct [of t])
  case (drop_late core)
  then show ?case using drop_late_step [of t core] drop_one_frame [of core] by simp
qed

lemma drop_late_StillTracking: "StillTracking it (drop_late t core) = StillTracking it core"
  by (simp add: StillTracking_def drop_late_frame Let_def)

lemma take_front_effect:
  assumes "queue core = front # rest"
  shows "queue (snd (take_front core)) = rest"
    "item_slot (fst (take_front core)) = item_slot front"
    "item_frame_number (fst (take_front core)) = item_frame_number front"
    "StillTracking front core \<Longrightarrow> nat (item_slot front) < length (slots core) \<Longrightarrow>
       slot_at (snd (take_front core)) (nat (item_slot front)) =
       (slot_at core (nat (item_slot front)))\<lparr>acquire_called := True,
          needs_cleanup_on_release := False, buffer_state := Acquired\<rparr>"
  using assms by (simp_all add: take_front_def Let_def)

text \<open>
  What acquiring does, on every branch: with a buffer acquired already, or nothing queued, it
  answers with the error and changes nothing. Otherwise it drops the late entries at the front of
  the queue, as many as there are when a presentation time is given and none otherwise; then it
  reports that the next entry is for later, or takes this entry off the queue, whose slot becomes
  the acquired one if it still holds the entry's buffer. Later entries keep their order.
\<close>

theorem AcquireBuffer_effect:
  assumes ok: "bq_ok P core" and r: "AcquireBuffer t core = ((status, item), core')"
  shows "(num_acquired core = 1 \<longrightarrow> status = InvalidOperation \<and> item = None \<and> core' = core) \<and>
    (num_acquired core = 0 \<and> queue core = [] \<longrightarrow>
       status = NoBufferAvailable \<and> item = None \<and> core' = core) \<and>
    (num_acquired core = 0 \<and> queue core \<noteq> [] \<longrightarrow>
      (\<exists>n<length (queue core). (if t = 0 then n = 0 else late_run t (queue core) n) \<and>
        (let front = queue core ! n in
         if t \<noteq> 0 \<and> present_later t front
         then status = PresentLater \<and> item = None \<and> queue core' = drop n (queue core) \<and>
              num_acquired core' = 0
         else status = NoError \<and> queue core' = drop (Suc n) (queue core) \<and>
              (\<exists>out. item = Some out \<and> item_slot out = item_slot front \<and>
                 item_frame_number out = item_frame_number front) \<and>
              (StillTracking front core \<longrightarrow>
                 buffer_state (slot_at core' (nat (item_slot front))) = Acquired))))"
proof -
  let ?c = "if t \<noteq> 0 then drop_late t core else core"
  have m: "max_acquired_buffer_count core = 0" using ok by (simp add: bq_ok_def shape_ok_def)
  obtain n where n: "if t = 0 then n = 0 else late_run t (queue core) n" "queue ?c = drop n (queue core)"
    using drop_late_queue [of t core] by (cases "t = 0") auto
  have tr: "StillTracking it ?c = StillTracking it core" for it by (simp add: drop_late_StillTracking)
  have okc: "bq_ok P ?c" using ok drop_late_ok [OF ok, of t] by simp
  have main: "\<exists>n<length (queue core). (if t = 0 then n = 0 else late_run t (queue core) n) \<and>
        (let front = queue core ! n in
         if t \<noteq> 0 \<and> present_later t front
         then status = PresentLater \<and> item = None \<and> queue core' = drop n (queue core) \<and>
              num_acquired core' = 0
         else status = NoError \<and> queue core' = drop (Suc n) (queue core) \<and>
              (\<exists>out. item = Some out \<and> item_slot out = item_slot front \<and>
                 item_frame_number out = item_frame_number front) \<and>
              (StillTracking front core \<longrightarrow>
                 buffer_state (slot_at core' (nat (item_slot front))) = Acquired))"
    if a: "num_acquired core = 0" "queue core \<noteq> []"
  proof -
    have less: "n < length (queue core)" using n(1) a(2) late_run_less by (auto split: if_splits)
    let ?front = "queue core ! n"
    have c: "queue ?c = ?front # drop (Suc n) (queue core)"
      using n(2) less by (simp add: Cons_nth_drop_Suc)
    have na: "num_acquired ?c = 0" using a(1) drop_late_slots [OF ok, of t] by simp
    have run: "AcquireBuffer t core =
        (if t \<noteq> 0 \<and> present_later t ?front then ((PresentLater, None), ?c)
         else ((NoError, Some (fst (take_front ?c))), snd (take_front ?c)))"
      using a m c by (simp add: AcquireBuffer_def Let_def case_prod_unfold)
    have slot: "nat (item_slot ?front) < length (slots ?c)" if "StillTracking ?front core"
      using front_slot(1) [OF okc c] that tr bq_okD(5) [OF okc] by simp
    note e = take_front_effect [OF c]
    show ?thesis
    proof (cases "t \<noteq> 0 \<and> present_later t ?front")
      case True
      with run r have "status = PresentLater" "item = None" "core' = ?c" by auto
      with True less n na show ?thesis by (intro exI [of _ n]) (simp add: Let_def)
    next
      case False
      with run r have "status = NoError" "item = Some (fst (take_front ?c))" "core' = snd (take_front ?c)"
        by auto
      with False less n(1) e slot tr show ?thesis by (intro exI [of _ n]) (simp add: Let_def)
    qed
  qed
  show ?thesis using r m main by (auto simp: AcquireBuffer_def)
qed

lemma AcquireBuffer_taken:
  assumes ok: "bq_ok P core" and r: "AcquireBuffer t core = ((NoError, Some item), core')"
  obtains c front rest where "bq_ok P c" "num_acquired c = 0" "queue c = front # rest"
    "take_front c = (item, core')"
proof -
  let ?c = "if t \<noteq> 0 then drop_late t core else core"
  have m: "max_acquired_buffer_count core = 0" using ok by (simp add: bq_ok_def shape_ok_def)
  have c: "bq_ok P ?c" "num_acquired ?c = num_acquired core" "queue core \<noteq> [] \<Longrightarrow> queue ?c \<noteq> []"
    using ok drop_late_ok [OF ok, of t] drop_late_slots [OF ok, of t] by auto
  have "num_acquired core = 0 \<and> queue core \<noteq> [] \<and> take_front ?c = (item, core')"
    using r m by (auto simp: AcquireBuffer_def Let_def split: if_splits prod.splits)
  with c that show thesis by (metis list.exhaust)
qed

lemma num_acquired_0: "num_acquired core = 0 \<Longrightarrow> i < length (slots core) \<Longrightarrow>
  buffer_state (slot_at core i) \<noteq> Acquired"
  by (auto simp: num_acquired_def filter_empty_conv)

text \<open>
  A buffer the consumer has acquired can be given back with the slot and frame number of its
  entry, as long as no other entry of that slot waits in the queue: then no buffer is acquired,
  the slot is free again, and nothing else of the slots and the queue has changed. Giving it
  back a second time is refused.
\<close>

theorem Acquire_then_Release:
  assumes ok: "bq_ok P core" and r: "AcquireBuffer t core = ((NoError, Some item), core')"
    and a: "buffer_state (slot_at core' (nat (item_slot item))) = Acquired" "valid_slot (item_slot item)"
    and q: "\<forall>it\<in>set (queue core'). item_slot it \<noteq> item_slot item"
  shows "\<exists>calls core''.
    ReleaseBuffer (item_slot item) (item_frame_number item) core' = ((NoError, calls), core'') \<and>
    num_acquired core' = 1 \<and> num_acquired core'' = 0 \<and> queue core'' = queue core' \<and>
    slots core'' = (slots core')[nat (item_slot item) :=
      (slot_at core' (nat (item_slot item)))\<lparr>buffer_state := Free\<rparr>] \<and>
    ReleaseBuffer (item_slot item) (item_frame_number item) core'' = ((BadValue, []), core'')"
proof -
  obtain c front rest where c: "bq_ok P c" "num_acquired c = 0" "queue c = front # rest"
    "take_front c = (item, core')"
    using AcquireBuffer_taken [OF ok r] by metis
  let ?i = "nat (item_slot item)"
  have i: "?i < length (slots c)" using valid_slot_nat [OF a(2)] bq_okD(5) [OF c(1)] by simp
  note e = take_front_effect [OF c(3), unfolded c(4), simplified]
  have tr: "StillTracking front c"
  proof (rule ccontr)
    assume "\<not> StillTracking front c"
    then have "slots core' = slots c" using c(3,4) by (auto simp: take_front_def Let_def)
    with a(1) num_acquired_0 [OF c(2) i] show False by simp
  qed
  note fr = front_slot [OF c(1,3) tr]
  let ?f = "\<lambda>s. s\<lparr>acquire_called := True, needs_cleanup_on_release := False, buffer_state := Acquired\<rparr>"
  let ?g = "\<lambda>s. s\<lparr>buffer_state := Free\<rparr> :: BufferSlot"
  have core': "slots core' = slots (update_slot ?i ?f c)"
    using c(3,4) tr e(2) by (auto simp: take_front_def Let_def)
  have len: "?i < length (slots core')" using i by (simp add: core')
  have n: "num_acquired core' = 1"
    using num_acquired_update [OF i, of ?f] c(2) core' num_acquired_0 [OF c(2) i]
    by (simp add: num_acquired_def)
  let ?c = "SignalDequeueCondition (update_slot ?i ?g core')"
  have slot: "frame_number (slot_at core' ?i) = item_frame_number item"
    "\<not> needs_cleanup_on_release (slot_at core' ?i)"
    using fr e i by (simp_all add: core')
  have "num_acquired ?c = 0"
    using num_acquired_update [OF len, of ?g] a(1) n by (simp add: num_acquired_def)
  moreover have "ReleaseBuffer (item_slot item) (item_frame_number item) core' =
      ((NoError, if connected_producer_listener (update_slot ?i ?g core') then [OnBufferReleased] else []), ?c)"
    using a q slot by (auto simp: ReleaseBuffer_def list_ex_iff Let_def)
  moreover have "ReleaseBuffer (item_slot item) (item_frame_number item) ?c = ((BadValue, []), ?c)"
    using a(2) slot len by (auto simp: ReleaseBuffer_def Let_def)
  ultimately show ?thesis using n by (auto simp: update_slot_def)
qed

text \<open>The instance goes on: the queued buffer is acquired and released.\<close>

definition sample_queued :: BufferQueueCore where
  "sample_queued = snd (QueueBuffer True 7 0 sample_input sample_requested)"

lemma sample_queued_ok: "bq_ok {} sample_queued"
  unfolding sample_queued_def by (rule QueueBuffer_ok [OF sample_requested_ok]) simp

definition sample_item :: BufferItem where
  "sample_item = queued_item 7 0 sample_input sample_requested"

lemma sample_queued_fields:
  "queue sample_queued = [sample_item]"
  "slots sample_queued =
     (slots sample_requested)[0 := queue_slot 7 sample_input 1 (slot_at sample_requested 0)]"
  using sample_ready
  by (simp_all add: sample_queued_def QueueBuffer_core Let_def enqueue_item_def sample_requested_fields
      sample_item_def counted_def update_slot_def)

lemma num_acquired_single:
  "0 < n \<Longrightarrow> slots core = (replicate n new_BufferSlot)[0 := x] \<Longrightarrow>
   num_acquired core = of_bool (buffer_state x = Acquired)"
  by (cases n) (simp_all add: num_acquired_def new_BufferSlot_def)

lemma sample_requested_slots:
  "slots sample_requested = (replicate NUM_BUFFER_SLOTS new_BufferSlot)[0 :=
     sample_slot\<lparr>buffer_state := Dequeued, request_buffer_called := True\<rparr>]"
  by (simp add: sample_requested_def update_slot_def sample_queue_slots NUM_BUFFER_SLOTS_def)

lemma sample_queued_none_acquired: "num_acquired sample_queued = 0"
  using num_acquired_single [of NUM_BUFFER_SLOTS sample_queued
      "queue_slot 7 sample_input 1 (slot_at sample_requested 0)"]
  by (simp add: sample_queued_fields sample_requested_slots NUM_BUFFER_SLOTS_def queue_slot_def)

lemma sample_item_fields: "item_slot sample_item = 0" "item_frame_number sample_item = 1"
  "StillTracking sample_item sample_queued"
  by (simp_all add: sample_item_def StillTracking_def sample_requested_fields Let_def
      sample_queued_fields queued_item_def make_item_def counted_def update_slot_def queue_slot_def
      sample_slot_def same_buffer_def sample_requested_slots NUM_BUFFER_SLOTS_def)

lemma sample_acquire:
  "\<exists>out core'. AcquireBuffer 0 sample_queued = ((NoError, Some out), core') \<and> item_slot out = 0 \<and>
     item_frame_number out = 1 \<and> queue core' = [] \<and> buffer_state (slot_at core' 0) = Acquired"
proof -
  have m: "max_acquired_buffer_count sample_queued = 0"
    using sample_queued_ok by (simp add: bq_ok_def shape_ok_def)
  have len: "0 < length (slots sample_queued)"
    by (simp add: sample_queued_fields sample_requested_slots NUM_BUFFER_SLOTS_def)
  note e = take_front_effect [OF sample_queued_fields(1), unfolded sample_item_fields]
  show ?thesis
    using e(1-3) e(4) sample_item_fields(3) len
    by (simp add: AcquireBuffer_def m sample_queued_none_acquired sample_queued_fields(1)
        case_prod_unfold Let_def)
qed

theorem AcquireBuffer_effect_witness:
  "fst (fst (AcquireBuffer 0 sample_queued)) = NoError \<and>
   buffer_state (slot_at (snd (AcquireBuffer 0 sample_queued)) 0) = Acquired"
proof -
  obtain status item core' where r: "AcquireBuffer 0 sample_queued = ((status, item), core')"
    by (metis surj_pair)
  from AcquireBuffer_effect [OF sample_queued_ok r] r show ?thesis
    by (simp add: sample_queued_none_acquired sample_queued_fields(1) sample_item_fields)
qed

theorem Acquire_then_Release_witness:
  "\<exists>item core'. AcquireBuffer 0 sample_queued = ((NoError, Some item), core') \<and>
     fst (fst (ReleaseBuffer 0 1 core')) = NoError \<and> num_acquired (snd (ReleaseBuffer 0 1 core')) = 0"
proof -
  obtain out core' where a: "AcquireBuffer 0 sample_queued = ((NoError, Some out), core')"
    "item_slot out = 0" "item_frame_number out = 1" "queue core' = []"
    "buffer_state (slot_at core' 0) = Acquired"
    using sample_acquire by blast
  have "valid_slot (item_slot out)" using a(2) by (simp add: NUM_BUFFER_SLOTS_def)
  from Acquire_then_Release [OF sample_queued_ok a(1) _ this] a show ?thesis by auto
qed

end
