(* ===== verification/Tiny_MT.thy ===== *)
theory Tiny_MT
  imports Nx_Prelude
begin

text \<open>
  The random number generator of \<^verbatim>\<open>src/src/common/tiny_mt.h\<close>: its state, the initialisation from
  one seed word and the next 32-bit output. Initialisation from a seed array, byte and floating
  point output have no caller in the modelled code.
\<close>

record TinyMT =
  mt0 :: u32
  mt1 :: u32
  mt2 :: u32
  mt3 :: u32

definition ParamMat1 :: u32 where "ParamMat1 = 0x8F7011EE"
definition ParamMat2 :: u32 where "ParamMat2 = 0xFC78FF1F"
definition ParamTmat :: u32 where "ParamTmat = 0x3793FDFF"
definition ParamMult :: u32 where "ParamMult = 0x6C078965"
definition TopBitmask :: u32 where "TopBitmask = 0x7FFFFFFF"

definition XorByShifted30 :: "u32 \<Rightarrow> u32" where
  "XorByShifted30 v = v XOR drop_bit 30 v"

definition GenerateRandomU32 :: "TinyMT \<Rightarrow> u32 \<times> TinyMT" where
  "GenerateRandomU32 mt =
     (let x0 = (mt0 mt AND TopBitmask) XOR mt1 mt XOR mt2 mt;
          y0 = mt3 mt;
          x1 = x0 XOR push_bit 1 x0;
          y1 = y0 XOR drop_bit 1 y0 XOR x1;
          state0 = mt1 mt;
          state1 = (if y1 AND 1 \<noteq> 0 then mt2 mt XOR ParamMat1 else mt2 mt);
          state2 = (if y1 AND 1 \<noteq> 0 then (x1 XOR push_bit 10 y1) XOR ParamMat2
                    else x1 XOR push_bit 10 y1);
          state3 = y1;
          t1 = state0 + drop_bit 8 state2;
          t0 = state3 XOR t1
      in (if t1 AND 1 \<noteq> 0 then t0 XOR ParamTmat else t0,
          \<lparr>mt0 = state0, mt1 = state1, mt2 = state2, mt3 = state3\<rparr>))"

text \<open>Discard the first outputs; the letters of \<open>TINY\<close> replace a state of zeroes.\<close>

definition FinalizeInitialization :: "TinyMT \<Rightarrow> TinyMT" where
  "FinalizeInitialization mt =
     (let mt = (if mt0 mt AND TopBitmask = 0 \<and> mt1 mt = 0 \<and> mt2 mt = 0 \<and> mt3 mt = 0
                then \<lparr>mt0 = 0x54, mt1 = 0x49, mt2 = 0x4E, mt3 = 0x59\<rparr> else mt)
      in ((\<lambda>mt. snd (GenerateRandomU32 mt)) ^^ 8) mt)"

text \<open>The four state words as the array the seeding loop works on.\<close>

definition seed_round :: "u32 list \<Rightarrow> nat \<Rightarrow> u32 list" where
  "seed_round data i =
     (let mixed = XorByShifted30 (data ! ((i - 1) mod 4))
      in data[i mod 4 := data ! (i mod 4) XOR (mixed * ParamMult + of_nat i)])"

definition mt_Initialize :: "u32 \<Rightarrow> TinyMT" where
  "mt_Initialize seed =
     (let data = foldl seed_round [seed, ParamMat1, ParamMat2, ParamTmat] [1..<8]
      in FinalizeInitialization
           \<lparr>mt0 = data ! 0, mt1 = data ! 1, mt2 = data ! 2, mt3 = data ! 3\<rparr>)"

end
