(* ===== verification/KPageBitmap.thy ===== *)
theory KPageBitmap
  imports Tiny_MT
begin

text \<open>
  The multi-level bitmap of free pages, \<^verbatim>\<open>src/src/core/hle/kernel/k_page_bitmap.h\<close>. A bitmap owns
  no storage: it has pointers into an array of words it shares with other bitmaps. Here a pointer is
  an index into that array, and every operation takes the array and returns it changed. The levels
  are numbered as in the source: level 0 is the coarsest, a bit of a level stands for a word of
  the next one, and the bits of the last level are the free pages.

  The seed of the generator is the host's and so an argument. \<open>ASSERT\<close> only reports. Where the source
  would divide by zero or shift a word by its whole width, which C++ leaves undefined, the model has
  no value (\<open>None\<close>).
\<close>

section \<open>Random bits\<close>

record RandomBitGenerator =
  m_rng :: TinyMT
  m_entropy :: u32
  m_bits_available :: nat

definition new_RandomBitGenerator :: "u32 \<Rightarrow> RandomBitGenerator" where
  "new_RandomBitGenerator seed = \<lparr>m_rng = mt_Initialize seed, m_entropy = 0, m_bits_available = 0\<rparr>"

definition RefreshEntropy :: "RandomBitGenerator \<Rightarrow> RandomBitGenerator" where
  "RefreshEntropy g =
     (let (entropy, mt) = GenerateRandomU32 (m_rng g)
      in \<lparr>m_rng = mt, m_entropy = entropy, m_bits_available = 32\<rparr>)"

definition GenerateRandomBit :: "RandomBitGenerator \<Rightarrow> bool \<times> RandomBitGenerator" where
  "GenerateRandomBit g =
     (let g = (if m_bits_available g = 0 then RefreshEntropy g else g)
      in (m_entropy g AND 1 \<noteq> 0,
          g\<lparr>m_entropy := drop_bit 1 (m_entropy g), m_bits_available := m_bits_available g - 1\<rparr>))"

lemma RefreshEntropy_bits [simp]: "m_bits_available (RefreshEntropy g) = 32"
  by (simp add: RefreshEntropy_def split: prod.split)

function random_bits :: "nat \<Rightarrow> u64 \<Rightarrow> RandomBitGenerator \<Rightarrow> u64 \<times> RandomBitGenerator" where
  "random_bits num_bits result g =
     (if num_bits = 0 then (result, g)
      else
        let g = (if m_bits_available g = 0 then RefreshEntropy g else g);
            cur_bits = min num_bits (m_bits_available g);
            mask = push_bit cur_bits 1 - 1;
            result = push_bit cur_bits result OR (ucast (m_entropy g) AND mask);
            g = g\<lparr>m_entropy := drop_bit cur_bits (m_entropy g),
                  m_bits_available := m_bits_available g - cur_bits\<rparr>
        in random_bits (num_bits - cur_bits) result g)"
  by pat_completeness auto

termination
  by (relation "measure (\<lambda>(n, _, _). n)") (auto split: if_splits)

declare random_bits.simps [simp del]

definition GenerateRandomBits :: "nat \<Rightarrow> RandomBitGenerator \<Rightarrow> u64 \<times> RandomBitGenerator" where
  "GenerateRandomBits num_bits g = random_bits num_bits 0 g"

definition GenerateRandom :: "u64 \<Rightarrow> RandomBitGenerator \<Rightarrow> u64 \<times> RandomBitGenerator" where
  "GenerateRandom mx g =
     (let bits_needed = 1 + (64 - countl_zero mx);
          (rnd, g) = GenerateRandomBits bits_needed g
      in (rnd - (rnd div mx) * mx, g))"

text \<open>Halve the word again and again, and keep a half that has a bit set.\<close>

fun select_loop ::
  "nat \<Rightarrow> u64 \<Rightarrow> nat \<Rightarrow> RandomBitGenerator \<Rightarrow> nat \<times> RandomBitGenerator" where
  "select_loop cur_num_bits bitmap selected g =
     (if cur_num_bits = 0 then (selected, g)
      else
        let high = drop_bit cur_num_bits bitmap;
            low = bitmap AND NOT (push_bit cur_num_bits 0xFFFFFFFFFFFFFFFF);
            (choose_high, g) =
              (if high = 0 then (False, g) else if low = 0 then (True, g) else GenerateRandomBit g)
        in if choose_high
           then select_loop (cur_num_bits div 2) high (selected + cur_num_bits) g
           else select_loop (cur_num_bits div 2) low selected g)"

declare select_loop.simps [simp del]

definition SelectRandomBit :: "u64 \<Rightarrow> RandomBitGenerator \<Rightarrow> nat \<times> RandomBitGenerator" where
  "SelectRandomBit bitmap g = select_loop (64 div 2) bitmap 0 g"

section \<open>The bitmap\<close>

definition MaxDepth :: nat where
  "MaxDepth = 4"

record KPageBitmap =
  m_bit_storages :: "nat list"
  m_end_storages :: "nat list"
  bm_rng :: RandomBitGenerator
  m_num_bits :: nat
  m_used_depths :: nat

definition new_KPageBitmap :: "u32 \<Rightarrow> KPageBitmap" where
  "new_KPageBitmap seed =
     \<lparr>m_bit_storages = replicate MaxDepth 0, m_end_storages = replicate MaxDepth 0,
      bm_rng = new_RandomBitGenerator seed, m_num_bits = 0, m_used_depths = 0\<rparr>"

fun GetRequiredDepth :: "nat \<Rightarrow> nat" where
  "GetRequiredDepth region_size =
     (if region_size div 64 = 0 then 1 else 1 + GetRequiredDepth (region_size div 64))"

declare GetRequiredDepth.simps [simp del]

text \<open>The loops over depths run from a depth down to 0; the argument is the depth plus one.\<close>

fun init_storages :: "nat \<Rightarrow> nat \<Rightarrow> nat \<Rightarrow> KPageBitmap \<Rightarrow> KPageBitmap \<times> nat" where
  "init_storages 0 storage sz b = (b, storage)"
| "init_storages (Suc depth) storage sz b =
     (let sz' = AlignUp sz 64 div 64;
          b = b\<lparr>m_bit_storages := (m_bit_storages b)[depth := storage]\<rparr>;
          storage' = storage + sz';
          b = b\<lparr>m_end_storages := (m_end_storages b)[depth := storage']\<rparr>
      in init_storages depth storage' sz' b)"

definition bitmap_Initialize :: "nat \<Rightarrow> nat \<Rightarrow> KPageBitmap \<Rightarrow> KPageBitmap \<times> nat" where
  "bitmap_Initialize storage sz b =
     (let b = b\<lparr>m_num_bits := 0, m_used_depths := GetRequiredDepth sz\<rparr>
      in init_storages (m_used_depths b) storage sz b)"

fun overhead_bits :: "nat \<Rightarrow> nat \<Rightarrow> nat" where
  "overhead_bits 0 region_size = 0"
| "overhead_bits (Suc depth) region_size =
     (let region_size = AlignUp region_size 64 div 64
      in region_size + overhead_bits depth region_size)"

definition bitmap_CalculateManagementOverheadSize :: "nat \<Rightarrow> nat" where
  "bitmap_CalculateManagementOverheadSize region_size =
     overhead_bits (GetRequiredDepth region_size) region_size * 8"

type_synonym storage = "u64 list"

abbreviation word_at :: "KPageBitmap \<Rightarrow> storage \<Rightarrow> nat \<Rightarrow> nat \<Rightarrow> u64" where
  "word_at b mem depth ind \<equiv> mem ! (m_bit_storages b ! depth + ind)"

abbreviation put_word :: "KPageBitmap \<Rightarrow> nat \<Rightarrow> nat \<Rightarrow> u64 \<Rightarrow> storage \<Rightarrow> storage" where
  "put_word b depth ind v mem \<equiv> mem[m_bit_storages b ! depth + ind := v]"

fun set_loop :: "KPageBitmap \<Rightarrow> nat \<Rightarrow> nat \<Rightarrow> storage \<Rightarrow> storage" where
  "set_loop b 0 offset mem = mem"
| "set_loop b (Suc depth) offset mem =
     (let ind = offset div 64;
          which = offset mod 64;
          mask = push_bit which 1;
          v = word_at b mem depth ind;
          mem = put_word b depth ind (v OR mask) mem
      in if v \<noteq> 0 then mem else set_loop b depth ind mem)"

fun clear_loop :: "KPageBitmap \<Rightarrow> nat \<Rightarrow> nat \<Rightarrow> storage \<Rightarrow> storage" where
  "clear_loop b 0 offset mem = mem"
| "clear_loop b (Suc depth) offset mem =
     (let ind = offset div 64;
          which = offset mod 64;
          mask = push_bit which 1;
          v = word_at b mem depth ind AND NOT mask;
          mem = put_word b depth ind v mem
      in if v \<noteq> 0 then mem else clear_loop b depth ind mem)"

definition SetBit :: "nat \<Rightarrow> KPageBitmap \<times> storage \<Rightarrow> KPageBitmap \<times> storage" where
  "SetBit offset st =
     (let (b, mem) = st;
          mem = set_loop b (m_used_depths b) offset mem
      in (b\<lparr>m_num_bits := add64 (m_num_bits b) 1\<rparr>, mem))"

definition ClearBit :: "nat \<Rightarrow> KPageBitmap \<times> storage \<Rightarrow> KPageBitmap \<times> storage" where
  "ClearBit offset st =
     (let (b, mem) = st;
          mem = clear_loop b (m_used_depths b) offset mem
      in (b\<lparr>m_num_bits := sub64 (m_num_bits b) 1\<rparr>, mem))"

section \<open>Searching\<close>

text \<open>
  The two loops of \<open>FindFreeBlock\<close> differ only in how they choose a bit of a word, the parameter
  \<open>select\<close>. The first argument counts the levels still to go.
\<close>

fun find_loop :: "(u64 \<Rightarrow> RandomBitGenerator \<Rightarrow> nat \<times> RandomBitGenerator) \<Rightarrow> KPageBitmap \<Rightarrow> storage
    \<Rightarrow> nat \<Rightarrow> nat \<Rightarrow> RandomBitGenerator \<Rightarrow> int \<times> RandomBitGenerator" where
  "find_loop select b mem 0 offset g = (int offset, g)"
| "find_loop select b mem (Suc left) offset g =
     (let depth = m_used_depths b - Suc left;
          v = word_at b mem depth offset
      in if v = 0 then (-1, g)
         else let (i, g) = select v g in find_loop select b mem left (offset * 64 + i) g)"

definition lowest_bit :: "u64 \<Rightarrow> RandomBitGenerator \<Rightarrow> nat \<times> RandomBitGenerator" where
  "lowest_bit v g = (countr_zero v, g)"

definition FindFreeBlock :: "bool \<Rightarrow> KPageBitmap \<times> storage \<Rightarrow> int \<times> KPageBitmap" where
  "FindFreeBlock random st =
     (let (b, mem) = st;
          (offset, g) = find_loop (if random then SelectRandomBit else lowest_bit) b mem
            (m_used_depths b) 0 (bm_rng b)
      in (offset, b\<lparr>bm_rng := g\<rparr>))"

text \<open>
  \<open>FindFreeRange\<close>: all places for \<open>count\<close> bits in the words of the last level, of which the K-th
  valid one replaces the choice with probability 1/K.
\<close>

definition range_option ::
  "nat \<Rightarrow> u64 \<Rightarrow> nat \<Rightarrow> u64 \<times> nat \<times> int \<times> RandomBitGenerator \<Rightarrow> nat
     \<Rightarrow> u64 \<times> nat \<times> int \<times> RandomBitGenerator" where
  "range_option count free_mask storage_index acc opt =
     (let (storage, num_valid_options, chosen_offset, g) = acc;
          (num_valid_options, chosen_offset, g) =
            (if storage AND free_mask = free_mask
             then
               let n = num_valid_options + 1;
                   (take, g) = (if n = 1 then (True, g)
                     else let (r, g) = GenerateRandom (of_nat n) g in (r = 0, g))
               in (n, if take then int (storage_index * 64 + opt * count) else chosen_offset, g)
             else (num_valid_options, chosen_offset, g))
      in (drop_bit count storage, num_valid_options, chosen_offset, g))"

definition range_storage ::
  "nat \<Rightarrow> u64 \<Rightarrow> nat \<Rightarrow> (nat \<Rightarrow> u64) \<Rightarrow> nat \<times> int \<times> RandomBitGenerator \<Rightarrow> nat
     \<Rightarrow> nat \<times> int \<times> RandomBitGenerator" where
  "range_storage count free_mask options_per_storage words acc storage_index =
     (let (n, chosen, g) = acc;
          (_, n, chosen, g) = foldl (range_option count free_mask storage_index)
            (words storage_index, n, chosen, g) [0..<options_per_storage]
      in (n, chosen, g))"

definition FindFreeRange :: "nat \<Rightarrow> KPageBitmap \<times> storage \<Rightarrow> (int \<times> KPageBitmap) option" where
  "FindFreeRange count st =
     (let (b, mem) = st;
          storage_start = m_bit_storages b ! (m_used_depths b - 1);
          storage_end = m_end_storages b ! (m_used_depths b - 1)
      in if \<not> (storage_start < storage_end \<and> count \<le> 64) then Some (-1, b)
         else if count = 0 \<or> count = 64 then None
         else
           let options_per_storage = max (64 div count) 1;
               num_entries = max (storage_end - storage_start) 1;
               free_mask = push_bit count 1 - 1;
               (_, chosen_offset, g) = foldl
                 (range_storage count free_mask options_per_storage (\<lambda>i. mem ! (storage_start + i)))
                 (0, -1, bm_rng b) [0..<num_entries]
           in Some (chosen_offset, b\<lparr>bm_rng := g\<rparr>))"

section \<open>Clearing a range\<close>

fun clear_words :: "KPageBitmap \<Rightarrow> nat \<Rightarrow> nat \<Rightarrow> nat \<Rightarrow> storage \<Rightarrow> storage" where
  "clear_words b depth ind 0 mem = mem"
| "clear_words b depth ind (Suc n) mem =
     clear_words b depth (ind + 1) n (clear_loop b depth ind (put_word b depth ind 0 mem))"

definition ClearRange :: "nat \<Rightarrow> nat \<Rightarrow> KPageBitmap \<times> storage \<Rightarrow> bool \<times> KPageBitmap \<times> storage" where
  "ClearRange offset count st =
     (let (b, mem) = st;
          depth = m_used_depths b - 1;
          bit_ind = offset div 64;
          finish = (\<lambda>mem. (True, b\<lparr>m_num_bits := sub64 (m_num_bits b) count\<rparr>, mem))
      in if count < 64
         then
           let shift = offset mod 64;
               mask = push_bit shift (push_bit count 1 - 1);
               v = word_at b mem depth bit_ind
           in if v AND mask \<noteq> mask then (False, b, mem)
              else
                let v = v AND NOT mask;
                    mem = put_word b depth bit_ind v mem
                in finish (if v = 0 then clear_loop b depth bit_ind mem else mem)
         else if list_ex (\<lambda>i. word_at b mem depth (bit_ind + i) \<noteq> 0xFFFFFFFFFFFFFFFF)
                [0..<count div 64]
         then (False, b, mem)
         else finish (clear_words b depth bit_ind (count div 64) mem))"

end
