(* ===== verification/KPageHeap.thy ===== *)
theory KPageHeap
  imports KPageBitmap
begin

text \<open>
  The buddy allocator of physical pages: \<^verbatim>\<open>src/src/core/hle/kernel/k_page_heap.{h,cpp}\<close>. Each
  block size has a bitmap of its free blocks; the bitmaps of all sizes share the management data.

  Physical addresses and sizes are natural numbers whose sums are not reduced: a heap ends far below
  \<open>2 ^ 64\<close>, which the invariant of the heap states. A difference the code could take below zero is
  \<open>sub64\<close>. The null address is 0, as in the source. Indices of block sizes are natural numbers;
  loops that count down to 0 take the index plus one. The loop of \<open>FreeBlock\<close> would leave the array
  after the last size; the model stops there (the last size never coalesces, so it is not reached).
\<close>

section \<open>Blocks of one size\<close>

record Block =
  m_bitmap :: KPageBitmap
  blk_heap_address :: nat
  m_end_offset :: nat
  m_block_shift :: nat
  m_next_block_shift :: nat

definition blk_GetSize :: "Block \<Rightarrow> nat" where
  "blk_GetSize blk = 2 ^ m_block_shift blk"

definition blk_GetNumPages :: "Block \<Rightarrow> nat" where
  "blk_GetNumPages blk = blk_GetSize blk div PageSize"

definition GetNumFreeBlocks :: "Block \<Rightarrow> nat" where
  "GetNumFreeBlocks blk = m_num_bits (m_bitmap blk)"

definition blk_GetNumFreePages :: "Block \<Rightarrow> nat" where
  "blk_GetNumFreePages blk = GetNumFreeBlocks blk * blk_GetNumPages blk"

definition blk_Initialize :: "nat \<Rightarrow> nat \<Rightarrow> nat \<Rightarrow> nat \<Rightarrow> nat \<Rightarrow> Block \<Rightarrow> Block \<times> nat" where
  "blk_Initialize addr sz bs nbs bit_storage blk =
     (let heap_end = addr + sz;
          align = (if nbs \<noteq> 0 then 2 ^ nbs else 2 ^ bs);
          addr = AlignDown addr align;
          heap_end = AlignUp heap_end align;
          end_offset = (heap_end - addr) div 2 ^ bs;
          (bitmap, storage) = bitmap_Initialize bit_storage end_offset (m_bitmap blk)
      in (\<lparr>m_bitmap = bitmap, blk_heap_address = addr, m_end_offset = end_offset,
           m_block_shift = bs, m_next_block_shift = nbs\<rparr>, storage))"

definition PushBlock :: "nat \<Rightarrow> Block \<times> storage \<Rightarrow> nat \<times> Block \<times> storage" where
  "PushBlock address st =
     (let (blk, mem) = st;
          offset = sub64 address (blk_heap_address blk) div 2 ^ m_block_shift blk;
          (bitmap, mem) = SetBit offset (m_bitmap blk, mem)
      in if m_next_block_shift blk \<noteq> 0
         then
           let diff = 2 ^ (m_next_block_shift blk - m_block_shift blk);
               offset = AlignDown offset diff;
               (cleared, bitmap, mem) = ClearRange offset diff (bitmap, mem)
           in (if cleared then blk_heap_address blk + offset * 2 ^ m_block_shift blk else 0,
               blk\<lparr>m_bitmap := bitmap\<rparr>, mem)
         else (0, blk\<lparr>m_bitmap := bitmap\<rparr>, mem))"

definition PopBlock :: "bool \<Rightarrow> Block \<times> storage \<Rightarrow> nat \<times> Block \<times> storage" where
  "PopBlock random st =
     (let (blk, mem) = st;
          (soffset, bitmap) = FindFreeBlock random (m_bitmap blk, mem)
      in if soffset < 0 then (0, blk\<lparr>m_bitmap := bitmap\<rparr>, mem)
         else
           let offset = nat soffset;
               (bitmap, mem) = ClearBit offset (bitmap, mem)
           in (blk_heap_address blk + offset * 2 ^ m_block_shift blk, blk\<lparr>m_bitmap := bitmap\<rparr>, mem))"

definition blk_CalculateManagementOverheadSize :: "nat \<Rightarrow> nat \<Rightarrow> nat \<Rightarrow> nat" where
  "blk_CalculateManagementOverheadSize region_size cur_block_shift next_block_shift =
     (let cur_block_size = 2 ^ cur_block_shift;
          next_block_size = 2 ^ next_block_shift;
          align = (if next_block_shift \<noteq> 0 then next_block_size else cur_block_size)
      in bitmap_CalculateManagementOverheadSize
           ((align * 2 + AlignUp region_size align) div cur_block_size))"

section \<open>The heap\<close>

definition MemoryBlockPageShifts :: "nat list" where
  "MemoryBlockPageShifts = [0xC, 0x10, 0x15, 0x16, 0x19, 0x1D, 0x1E]"

definition NumMemoryBlockPageShifts :: nat where
  "NumMemoryBlockPageShifts = 7"

record KPageHeap =
  m_heap_address :: nat
  m_heap_size :: nat
  m_initial_used_size :: nat
  m_num_blocks :: nat
  m_blocks :: "Block list"
  h_rng :: RandomBitGenerator
  m_management_data :: storage

definition new_KPageHeap :: "u32 \<Rightarrow> KPageHeap" where
  "new_KPageHeap seed =
     \<lparr>m_heap_address = 0, m_heap_size = 0, m_initial_used_size = 0, m_num_blocks = 0,
      m_blocks = replicate NumMemoryBlockPageShifts
        \<lparr>m_bitmap = new_KPageBitmap seed, blk_heap_address = 0, m_end_offset = 0,
         m_block_shift = 0, m_next_block_shift = 0\<rparr>,
      h_rng = new_RandomBitGenerator seed, m_management_data = []\<rparr>"

definition init_block :: "nat list \<Rightarrow> nat \<Rightarrow> KPageHeap \<times> nat \<Rightarrow> nat \<Rightarrow> KPageHeap \<times> nat" where
  "init_block block_shifts num_block_shifts acc i =
     (let (h, storage) = acc;
          cur_block_shift = block_shifts ! i;
          next_block_shift = (if i \<noteq> num_block_shifts - 1 then block_shifts ! (i + 1) else 0);
          (blk, storage) = blk_Initialize (m_heap_address h) (m_heap_size h) cur_block_shift
            next_block_shift storage (m_blocks h ! i)
      in (h\<lparr>m_blocks := (m_blocks h)[i := blk]\<rparr>, storage))"

text \<open>\<open>resize\<close> keeps the words there are and adds zeroes, or cuts.\<close>

definition heap_Initialize :: "nat \<Rightarrow> nat \<Rightarrow> nat \<Rightarrow> KPageHeap \<Rightarrow> KPageHeap" where
  "heap_Initialize address sz management_size h =
     (let words = management_size div 8;
          data = m_management_data h;
          h = h\<lparr>m_heap_address := address, m_heap_size := sz,
                m_num_blocks := NumMemoryBlockPageShifts,
                m_management_data := take words data @ replicate (words - length data) 0\<rparr>
      in fst (foldl (init_block MemoryBlockPageShifts NumMemoryBlockPageShifts) (h, 0)
           [0..<NumMemoryBlockPageShifts]))"

definition heap_CalculateManagementOverheadSize :: "nat \<Rightarrow> nat" where
  "heap_CalculateManagementOverheadSize region_size =
     AlignUp (foldl (\<lambda>overhead_size i.
        overhead_size + blk_CalculateManagementOverheadSize region_size (MemoryBlockPageShifts ! i)
          (if i \<noteq> NumMemoryBlockPageShifts - 1 then MemoryBlockPageShifts ! (i + 1) else 0))
        0 [0..<NumMemoryBlockPageShifts]) PageSize"

definition GetNumFreePages :: "KPageHeap \<Rightarrow> nat" where
  "GetNumFreePages h =
     foldl (\<lambda>num_free i. num_free + blk_GetNumFreePages (m_blocks h ! i)) 0 [0..<m_num_blocks h]"

definition GetFreeSize :: "KPageHeap \<Rightarrow> nat" where
  "GetFreeSize h = GetNumFreePages h * PageSize"

definition SetInitialUsedSize :: "nat \<Rightarrow> KPageHeap \<Rightarrow> KPageHeap" where
  "SetInitialUsedSize reserved_size h =
     (let free_size = GetNumFreePages h * PageSize
      in h\<lparr>m_initial_used_size := sub64 (sub64 (m_heap_size h) free_size) reserved_size\<rparr>)"

definition GetAlignedBlockIndex :: "nat \<Rightarrow> nat \<Rightarrow> int" where
  "GetAlignedBlockIndex num_pages align_pages =
     (let target_pages = max num_pages align_pages
      in case find (\<lambda>i. target_pages \<le> 2 ^ (MemoryBlockPageShifts ! i) div PageSize)
             [0..<NumMemoryBlockPageShifts] of
           Some i \<Rightarrow> int i
         | None \<Rightarrow> -1)"

definition GetBlockIndex :: "nat \<Rightarrow> int" where
  "GetBlockIndex num_pages =
     (case find (\<lambda>i. 2 ^ (MemoryBlockPageShifts ! i) div PageSize \<le> num_pages)
             (rev [0..<NumMemoryBlockPageShifts]) of
        Some i \<Rightarrow> int i
      | None \<Rightarrow> -1)"

section \<open>Freeing\<close>

definition heap_Push :: "nat \<Rightarrow> nat \<Rightarrow> KPageHeap \<Rightarrow> nat \<times> KPageHeap" where
  "heap_Push block index h =
     (let (next, blk, mem) = PushBlock block (m_blocks h ! index, m_management_data h)
      in (next, h\<lparr>m_blocks := (m_blocks h)[index := blk], m_management_data := mem\<rparr>))"

lemma heap_Push_length [simp]: "length (m_blocks (snd (heap_Push block index h))) = length (m_blocks h)"
  by (simp add: heap_Push_def split: prod.split)

function FreeBlock :: "nat \<Rightarrow> nat \<Rightarrow> KPageHeap \<Rightarrow> KPageHeap" where
  "FreeBlock block index h =
     (if index < length (m_blocks h)
      then
        let r = heap_Push block index h
        in if fst r \<noteq> 0 then FreeBlock (fst r) (index + 1) (snd r) else snd r
      else h)"
  by pat_completeness auto

termination
  by (relation "measure (\<lambda>(_, index, h). length (m_blocks h) - index)") auto

declare FreeBlock.simps [simp del]

fun find_big :: "nat \<Rightarrow> nat \<Rightarrow> nat \<Rightarrow> KPageHeap \<Rightarrow> (nat \<times> nat \<times> nat) option" where
  "find_big 0 start end_addr h = None"
| "find_big (Suc i) start end_addr h =
     (let block_size = blk_GetSize (m_blocks h ! i);
          big_start = AlignUp start block_size;
          big_end = AlignDown end_addr block_size
      in if big_start < big_end then Some (i, big_start, big_end) else find_big i start end_addr h)"

function free_forward :: "nat \<Rightarrow> nat \<Rightarrow> nat \<Rightarrow> nat \<Rightarrow> KPageHeap \<Rightarrow> KPageHeap" where
  "free_forward block_size i block big_end h =
     (if block < big_end \<and> 0 < block_size
      then free_forward block_size i (block + block_size) big_end (FreeBlock block i h)
      else h)"
  by pat_completeness auto

termination
  by (relation "measure (\<lambda>(_, _, block, big_end, _). big_end - block)") auto

declare free_forward.simps [simp del]

function free_before_level :: "nat \<Rightarrow> nat \<Rightarrow> nat \<Rightarrow> nat \<Rightarrow> KPageHeap \<Rightarrow> nat \<times> KPageHeap" where
  "free_before_level block_size i before_start before_end h =
     (if before_start + block_size \<le> before_end \<and> 0 < block_size
      then free_before_level block_size i before_start (before_end - block_size)
             (FreeBlock (before_end - block_size) i h)
      else (before_end, h))"
  by pat_completeness auto

termination
  by (relation "measure (\<lambda>(_, _, _, before_end, _). before_end)") auto

declare free_before_level.simps [simp del]

function free_after_level :: "nat \<Rightarrow> nat \<Rightarrow> nat \<Rightarrow> nat \<Rightarrow> KPageHeap \<Rightarrow> nat \<times> KPageHeap" where
  "free_after_level block_size i after_start after_end h =
     (if after_start + block_size \<le> after_end \<and> 0 < block_size
      then free_after_level block_size i (after_start + block_size) after_end
             (FreeBlock after_start i h)
      else (after_start, h))"
  by pat_completeness auto

termination
  by (relation "measure (\<lambda>(_, _, after_start, after_end, _). after_end - after_start)") auto

declare free_after_level.simps [simp del]

fun free_before :: "nat \<Rightarrow> nat \<Rightarrow> nat \<Rightarrow> KPageHeap \<Rightarrow> KPageHeap" where
  "free_before 0 before_start before_end h = h"
| "free_before (Suc i) before_start before_end h =
     (let (before_end, h) = free_before_level (blk_GetSize (m_blocks h ! i)) i before_start before_end h
      in free_before i before_start before_end h)"

fun free_after :: "nat \<Rightarrow> nat \<Rightarrow> nat \<Rightarrow> KPageHeap \<Rightarrow> KPageHeap" where
  "free_after 0 after_start after_end h = h"
| "free_after (Suc i) after_start after_end h =
     (let (after_start, h) = free_after_level (blk_GetSize (m_blocks h ! i)) i after_start after_end h
      in free_after i after_start after_end h)"

definition heap_Free :: "nat \<Rightarrow> nat \<Rightarrow> KPageHeap \<Rightarrow> KPageHeap" where
  "heap_Free addr num_pages h =
     (if num_pages = 0 then h
      else
        let start = addr;
            end_addr = addr + num_pages * PageSize
        in case find_big (m_num_blocks h) start end_addr h of
             None \<Rightarrow> h
           | Some (big_index, big_start, big_end) \<Rightarrow>
               let h = free_forward (blk_GetSize (m_blocks h ! big_index)) big_index big_start big_end h;
                   h = free_before big_index start big_start h
               in free_after big_index big_end end_addr h)"

section \<open>Allocating\<close>

definition heap_Pop :: "bool \<Rightarrow> nat \<Rightarrow> KPageHeap \<Rightarrow> nat \<times> KPageHeap" where
  "heap_Pop random i h =
     (let (addr, blk, mem) = PopBlock random (m_blocks h ! i, m_management_data h)
      in (addr, h\<lparr>m_blocks := (m_blocks h)[i := blk], m_management_data := mem\<rparr>))"

fun linear_search :: "nat \<Rightarrow> nat list \<Rightarrow> KPageHeap \<Rightarrow> nat \<times> KPageHeap" where
  "linear_search needed_size [] h = (0, h)"
| "linear_search needed_size (i # is) h =
     (let (addr, h) = heap_Pop False i h
      in if addr \<noteq> 0
         then
           let allocated_size = blk_GetSize (m_blocks h ! i)
           in (addr, if allocated_size > needed_size
                     then heap_Free (addr + needed_size) ((allocated_size - needed_size) div PageSize) h
                     else h)
         else linear_search needed_size is h)"

definition AllocateByLinearSearch :: "nat \<Rightarrow> KPageHeap \<Rightarrow> nat \<times> KPageHeap" where
  "AllocateByLinearSearch index h =
     linear_search (blk_GetSize (m_blocks h ! index)) [index..<m_num_blocks h] h"

definition alignments :: "nat \<Rightarrow> nat \<Rightarrow> KPageHeap \<Rightarrow> nat \<Rightarrow> nat" where
  "alignments needed_size align_shift h i =
     mul64 (add64 1 (sub64 (blk_GetSize (m_blocks h ! i)) needed_size div 2 ^ align_shift))
       (GetNumFreeBlocks (m_blocks h ! i))"

text \<open>The first loop: the possible alignments, and behind which size it is no use to look.\<close>

fun count_alignments :: "nat \<Rightarrow> nat \<Rightarrow> KPageHeap \<Rightarrow> nat list \<Rightarrow> nat \<Rightarrow> nat \<times> nat" where
  "count_alignments needed_size align_shift h [] possible = (possible, m_num_blocks h)"
| "count_alignments needed_size align_shift h (i # is) possible =
     (let possible = add64 possible (alignments needed_size align_shift h i)
      in if 4 \<le> possible then (possible, i + 1)
         else count_alignments needed_size align_shift h is possible)"

text \<open>The second: the size the random choice falls on.\<close>

fun pick_index :: "nat \<Rightarrow> nat \<Rightarrow> KPageHeap \<Rightarrow> nat \<Rightarrow> nat list \<Rightarrow> nat \<Rightarrow> nat \<Rightarrow> nat" where
  "pick_index needed_size align_shift h rnd [] possible index = index"
| "pick_index needed_size align_shift h rnd (i # is) possible index =
     (let possible = add64 possible (alignments needed_size align_shift h i)
      in if rnd < possible then i else pick_index needed_size align_shift h rnd is possible index)"

definition heap_random :: "nat \<Rightarrow> KPageHeap \<Rightarrow> nat \<times> KPageHeap" where
  "heap_random mx h = (let (r, g) = GenerateRandom (of_nat mx) (h_rng h) in (unat r, h\<lparr>h_rng := g\<rparr>))"

definition choose_index :: "nat \<Rightarrow> nat \<Rightarrow> nat \<Rightarrow> KPageHeap \<Rightarrow> nat \<times> KPageHeap" where
  "choose_index needed_size align_shift index h =
     (let (possible, max_blocks) =
            count_alignments needed_size align_shift h [index..<m_num_blocks h] 0
      in if 0 < possible \<and> index + 1 < max_blocks
         then
           let (rnd, h) = heap_random possible h
           in (pick_index needed_size align_shift h rnd [index..<max_blocks] 0 index, h)
         else (index, h))"

definition AllocateByRandom :: "nat \<Rightarrow> nat \<Rightarrow> nat \<Rightarrow> KPageHeap \<Rightarrow> nat \<times> KPageHeap" where
  "AllocateByRandom index num_pages align_pages h =
     (let needed_size = num_pages * PageSize;
          align_size = align_pages * PageSize;
          align_shift = countr_zero (of_nat align_size);
          (index, h) = choose_index needed_size align_shift index h;
          (addr, h) = heap_Pop True index h
      in if addr \<noteq> 0
         then
           let leftover_size = sub64 (blk_GetSize (m_blocks h ! index)) needed_size
           in if leftover_size > 0
              then
                let possible_alignments = 1 + leftover_size div 2 ^ align_shift;
                    (rnd, h) = heap_random possible_alignments h;
                    random_offset = rnd * 2 ^ align_shift;
                    h = (if random_offset \<noteq> 0 then heap_Free addr (random_offset div PageSize) h else h);
                    addr = addr + random_offset;
                    h = (if random_offset \<noteq> leftover_size
                         then heap_Free (addr + needed_size) ((leftover_size - random_offset) div PageSize) h
                         else h)
                in (addr, h)
              else (addr, h)
         else (0, h))"

definition AllocateBlock :: "nat \<Rightarrow> bool \<Rightarrow> KPageHeap \<Rightarrow> nat \<times> KPageHeap" where
  "AllocateBlock index random h =
     (if random
      then
        let block_pages = blk_GetNumPages (m_blocks h ! index)
        in AllocateByRandom index block_pages block_pages h
      else AllocateByLinearSearch index h)"

definition AllocateAligned :: "nat \<Rightarrow> nat \<Rightarrow> nat \<Rightarrow> KPageHeap \<Rightarrow> nat \<times> KPageHeap" where
  "AllocateAligned index num_pages align_pages h = AllocateByRandom index num_pages align_pages h"

end
