(* ===== verification/Page_Bitmap_Levels.thy ===== *)
theory Page_Bitmap_Levels
  imports KPageBitmap
begin

text \<open>
  The levels of a page bitmap in the shared storage, the invariant that a bit of a level tells
  whether the word below it is empty, and what setting and clearing do to the set of offsets the
  last level stands for.
\<close>

section \<open>Words and bits\<close>

lemma bit_or_single: "k < 64 \<Longrightarrow> bit (v OR push_bit k 1) j \<longleftrightarrow> bit v j \<or> j = k" for v :: u64
  by (auto simp: bit_simps)

lemma bit_and_not_single: "bit (v AND NOT (push_bit k 1)) j \<longleftrightarrow> bit v j \<and> j \<noteq> k" for v :: u64
  using bit_imp_le_length [of v j] by (auto simp: bit_simps)

lemma or_single_nonzero: "k < 64 \<Longrightarrow> v OR push_bit k 1 \<noteq> (0 :: u64)"
  using bit_or_single [of k v k] by auto

text \<open>The mask of \<open>count\<close> bits from \<open>shift\<close> on.\<close>

lemma bit_range_mask:
  "shift + count \<le> 64 \<Longrightarrow> bit (push_bit shift (push_bit count 1 - 1) :: u64) j \<longleftrightarrow>
     shift \<le> j \<and> j < shift + count"
  by (auto simp: bit_simps mask_eq_exp_minus_1 [symmetric] push_bit_eq_mult [of count]
      simp flip: mask_eq_exp_minus_1)

lemma and_mask_eq_iff: "(v AND m = m) \<longleftrightarrow> (\<forall>j. bit m j \<longrightarrow> bit v j)" for v m :: "'a::len word"
  using bit_imp_le_length [of m] by (auto simp: bit_eq_iff bit_simps)

section \<open>Layout\<close>

definition nwords :: "KPageBitmap \<Rightarrow> nat \<Rightarrow> nat" where
  "nwords b d = m_end_storages b ! d - m_bit_storages b ! d"

text \<open>The levels lie in the storage one behind the other, the last level first.\<close>

definition layout :: "KPageBitmap \<Rightarrow> nat \<Rightarrow> bool" where
  "layout b len \<longleftrightarrow> 0 < m_used_depths b \<and> nwords b 0 = 1 \<and>
     (\<forall>d<m_used_depths b. m_bit_storages b ! d \<le> m_end_storages b ! d \<and> m_end_storages b ! d \<le> len) \<and>
     (\<forall>d. Suc d < m_used_depths b \<longrightarrow> nwords b (Suc d) \<le> 64 * nwords b d) \<and>
     (\<forall>d' d. d' < m_used_depths b \<and> d < d' \<longrightarrow> m_end_storages b ! d' \<le> m_bit_storages b ! d)"

definition region :: "KPageBitmap \<Rightarrow> nat set" where
  "region b = {k. \<exists>d<m_used_depths b. m_bit_storages b ! d \<le> k \<and> k < m_end_storages b ! d}"

definition changes_only :: "KPageBitmap \<Rightarrow> storage \<Rightarrow> storage \<Rightarrow> bool" where
  "changes_only b mem mem' \<longleftrightarrow> length mem' = length mem \<and> (\<forall>k. k \<notin> region b \<longrightarrow> mem' ! k = mem ! k)"

lemma changes_only_refl [simp]: "changes_only b mem mem"
  by (simp add: changes_only_def)

lemma changes_only_trans:
  "changes_only b mem mem' \<Longrightarrow> changes_only b mem' mem'' \<Longrightarrow> changes_only b mem mem''"
  by (simp add: changes_only_def)

lemma word_index:
  assumes "layout b len" "d < m_used_depths b" "i < nwords b d"
  shows "m_bit_storages b ! d + i < len" "m_bit_storages b ! d + i \<in> region b"
    "m_bit_storages b ! d + i < m_end_storages b ! d"
proof -
  show e: "m_bit_storages b ! d + i < m_end_storages b ! d" using assms(3) by (simp add: nwords_def)
  then show "m_bit_storages b ! d + i < len" using assms by (fastforce simp: layout_def)
  show "m_bit_storages b ! d + i \<in> region b" using assms(2) e by (auto simp: region_def)
qed

lemma word_index_inj:
  assumes l: "layout b len" and d: "d < m_used_depths b" "i < nwords b d"
    and d': "d' < m_used_depths b" "i' < nwords b d'"
  shows "m_bit_storages b ! d + i = m_bit_storages b ! d' + i' \<longleftrightarrow> d = d' \<and> i = i'"
proof (cases d d' rule: linorder_cases)
  case less
  then have "m_end_storages b ! d' \<le> m_bit_storages b ! d" using l d' by (simp add: layout_def)
  with word_index(3) [OF l d'] less show ?thesis by simp
next
  case greater
  then have "m_end_storages b ! d \<le> m_bit_storages b ! d'" using l d by (simp add: layout_def)
  with word_index(3) [OF l d] greater show ?thesis by simp
qed simp

lemma word_at_put:
  assumes "layout b (length mem)" "d < m_used_depths b" "i < nwords b d"
    "d' < m_used_depths b" "i' < nwords b d'"
  shows "word_at b (put_word b d i v mem) d' i' = (if d' = d \<and> i' = i then v else word_at b mem d' i')"
  using word_index(1) [OF assms(1-3)] word_index_inj [OF assms] by (auto simp: nth_list_update)

lemma changes_only_put:
  assumes "layout b (length mem)" "d < m_used_depths b" "i < nwords b d"
  shows "changes_only b mem (put_word b d i v mem)"
proof -
  have "put_word b d i v mem ! k = mem ! k" if "k \<notin> region b" for k
    using word_index(2) [OF assms] that by (intro nth_list_update_neq) auto
  then show ?thesis by (simp add: changes_only_def)
qed

section \<open>The set of a level\<close>

definition bits :: "KPageBitmap \<Rightarrow> storage \<Rightarrow> nat \<Rightarrow> nat set" where
  "bits b mem d = {k. k < 64 * nwords b d \<and> bit (word_at b mem d (k div 64)) (k mod 64)}"

lemma bits_cong:
  "(\<And>i. i < nwords b d \<Longrightarrow> word_at b mem' d i = word_at b mem d i) \<Longrightarrow> bits b mem' d = bits b mem d"
  by (auto simp: bits_def less_mult_imp_div_less mult.commute)

lemma div64_less: "k < 64 * n \<Longrightarrow> k div 64 < n" for k n :: nat
  by (simp add: less_mult_imp_div_less mult.commute)

text \<open>A bit of a level is set exactly when its word of the next level is not empty.\<close>

definition linked :: "KPageBitmap \<Rightarrow> storage \<Rightarrow> nat \<Rightarrow> bool" where
  "linked b mem d \<longleftrightarrow> bits b mem d = {i. i < nwords b (Suc d) \<and> word_at b mem (Suc d) i \<noteq> 0}"

lemma linked_cong:
  "(\<And>i. i < nwords b d \<Longrightarrow> word_at b mem' d i = word_at b mem d i) \<Longrightarrow>
   (\<And>i. i < nwords b (Suc d) \<Longrightarrow> word_at b mem' (Suc d) i = word_at b mem (Suc d) i) \<Longrightarrow>
   linked b mem' d \<longleftrightarrow> linked b mem d"
  using bits_cong [of b d mem' mem] by (auto simp: linked_def)

text \<open>Two storages agree on the levels from \<open>c\<close> on.\<close>

definition agree_from :: "KPageBitmap \<Rightarrow> nat \<Rightarrow> storage \<Rightarrow> storage \<Rightarrow> bool" where
  "agree_from b c mem mem' \<longleftrightarrow>
     (\<forall>d i. c \<le> d \<and> d < m_used_depths b \<and> i < nwords b d \<longrightarrow> word_at b mem' d i = word_at b mem d i)"

lemma agree_from_put:
  assumes "layout b (length mem)" "d < c" "d < m_used_depths b" "i < nwords b d"
  shows "agree_from b c mem (put_word b d i v mem)"
  using assms word_at_put [OF assms(1,3,4)] by (simp add: agree_from_def)

lemma agree_from_trans:
  "agree_from b c mem mem' \<Longrightarrow> agree_from b c' mem' mem'' \<Longrightarrow> c' \<le> c \<Longrightarrow> agree_from b c mem mem''"
  by (simp add: agree_from_def)

lemma linked_put_other:
  assumes "layout b (length mem)" "d < m_used_depths b" "i < nwords b d" "Suc e < d"
  shows "linked b (put_word b d i v mem) e \<longleftrightarrow> linked b mem e"
  using assms by (intro linked_cong) (auto simp: word_at_put)

text \<open>Writing a word keeps the level above it right as long as it does not change whether it is empty.\<close>

lemma linked_put_same:
  assumes l: "layout b (length mem)" "Suc e < m_used_depths b" "i < nwords b (Suc e)"
    and z: "v = 0 \<longleftrightarrow> word_at b mem (Suc e) i = 0" and k: "linked b mem e"
  shows "linked b (put_word b (Suc e) i v mem) e"
proof -
  have "bits b (put_word b (Suc e) i v mem) e = bits b mem e"
    using l by (intro bits_cong) (simp add: word_at_put)
  moreover have "(word_at b (put_word b (Suc e) i v mem) (Suc e) j \<noteq> 0) = (word_at b mem (Suc e) j \<noteq> 0)"
    if "j < nwords b (Suc e)" for j
    using that l z by (simp add: word_at_put)
  ultimately show ?thesis using k by (auto simp: linked_def)
qed

lemma bits_set_word:
  assumes l: "layout b (length mem)" "d < m_used_depths b" and k: "k < 64 * nwords b d"
  shows "bits b (put_word b d (k div 64) (word_at b mem d (k div 64) OR push_bit (k mod 64) 1) mem) d =
    insert k (bits b mem d)" (is ?set)
    and "bits b (put_word b d (k div 64) (word_at b mem d (k div 64) AND NOT (push_bit (k mod 64) 1)) mem) d =
    bits b mem d - {k}" (is ?clear)
proof -
  let ?i = "k div 64"
  have eq: "j = k \<longleftrightarrow> j div 64 = ?i \<and> j mod 64 = k mod 64" for j
    by (metis div_mult_mod_eq)
  have w: "word_at b (put_word b d ?i v mem) d (j div 64) =
      (if j div 64 = ?i then v else word_at b mem d (j div 64))" if "j < 64 * nwords b d" for j v
    using word_at_put [OF l div64_less [OF k] l(2) div64_less [OF that]] by simp
  have or: "bit (v OR push_bit (k mod 64) 1) n \<longleftrightarrow> bit v n \<or> n = k mod 64" for v :: u64 and n
    by (rule bit_or_single) simp
  show ?set
  proof (rule set_eqI)
    fix j
    show "(j \<in> bits b (put_word b d ?i (word_at b mem d ?i OR push_bit (k mod 64) 1) mem) d) =
        (j \<in> insert k (bits b mem d))"
      unfolding bits_def insert_iff mem_Collect_eq using w [of j] or eq [of j] k
      by (cases "j div 64 = ?i") auto
  qed
  show ?clear
  proof (rule set_eqI)
    fix j
    show "(j \<in> bits b (put_word b d ?i (word_at b mem d ?i AND NOT (push_bit (k mod 64) 1)) mem) d) =
        (j \<in> bits b mem d - {k})"
      unfolding bits_def Diff_iff singleton_iff mem_Collect_eq
      using w [of j] bit_and_not_single eq [of j] by (cases "j div 64 = ?i") auto
  qed
qed

section \<open>Setting and clearing\<close>

text \<open>
  What a loop that starts at level \<open>c - 1\<close> promises: that level gets the set \<open>S\<close>, the levels below
  it are left alone, those above it fit again, and nothing outside the bitmap changes.
\<close>

definition level_done :: "KPageBitmap \<Rightarrow> nat \<Rightarrow> nat set \<Rightarrow> storage \<Rightarrow> storage \<Rightarrow> bool" where
  "level_done b d S mem mem' \<longleftrightarrow> bits b mem' d = S \<and> agree_from b (Suc d) mem mem' \<and>
     (\<forall>e<d. linked b mem' e) \<and> changes_only b mem mem'"

lemma level_done_put:
  assumes l: "layout b (length mem)" "d < m_used_depths b" "i < nwords b d"
    and z: "v = 0 \<longleftrightarrow> word_at b mem d i = 0" and k: "\<forall>e<d. linked b mem e"
    and S: "bits b (put_word b d i v mem) d = S"
  shows "level_done b d S mem (put_word b d i v mem)"
proof -
  have "linked b (put_word b d i v mem) e" if "e < d" for e
  proof (cases "Suc e = d")
    case True
    with linked_put_same [of b mem e i v] l z k that show ?thesis by auto
  next
    case False
    with linked_put_other [OF l, of e v] k that show ?thesis by auto
  qed
  then show ?thesis
    using S l by (simp add: level_done_def agree_from_put changes_only_put)
qed

text \<open>When the word became empty or ceased to be empty, the level above is adjusted first.\<close>

lemma level_done_step:
  assumes l: "layout b (length mem)" "Suc d < m_used_depths b" "i < nwords b (Suc d)"
    and k: "linked b mem d"
    and up: "level_done b d (if v = 0 then bits b mem d - {i} else insert i (bits b mem d))
      (put_word b (Suc d) i v mem) mem'"
    and S: "bits b (put_word b (Suc d) i v mem) (Suc d) = S"
  shows "level_done b (Suc d) S mem mem'"
proof -
  let ?m = "put_word b (Suc d) i v mem"
  have ag: "agree_from b (Suc d) ?m mem'" using up by (simp add: level_done_def)
  have w: "word_at b mem' (Suc d) j = (if j = i then v else word_at b mem (Suc d) j)"
    if "j < nwords b (Suc d)" for j
    using ag that l by (simp add: agree_from_def word_at_put)
  have "bits b mem' (Suc d) = bits b ?m (Suc d)"
    using ag l(2) by (intro bits_cong) (simp add: agree_from_def)
  moreover have "linked b mem' d"
    using up k w l(3) by (auto simp: level_done_def linked_def split: if_splits)
  moreover have "agree_from b (Suc (Suc d)) mem mem'"
    using agree_from_put [OF l(1) _ l(2,3), of "Suc (Suc d)" v] ag
    by (auto intro: agree_from_trans)
  moreover have "changes_only b mem mem'"
    using changes_only_put [OF l, of v] up by (auto simp: level_done_def intro: changes_only_trans)
  ultimately show ?thesis
    using up S by (auto simp: level_done_def less_Suc_eq)
qed

lemma set_loop_done:
  assumes "layout b (length mem)" "d < m_used_depths b" "k < 64 * nwords b d" "\<forall>e<d. linked b mem e"
  shows "level_done b d (insert k (bits b mem d)) mem (set_loop b (Suc d) k mem)"
  using assms
proof (induction d arbitrary: k mem)
  case 0
  let ?m = "put_word b 0 (k div 64) (word_at b mem 0 (k div 64) OR push_bit (k mod 64) 1) mem"
  have "set_loop b (Suc 0) k mem = ?m" by (simp only: set_loop.simps Let_def if_cancel)
  moreover have "bits b ?m 0 = insert k (bits b mem 0)" by (rule bits_set_word(1) [OF 0(1-3)])
  moreover have "agree_from b (Suc 0) mem ?m" "changes_only b mem ?m"
    by (rule agree_from_put changes_only_put, use 0 div64_less in simp_all)+
  ultimately show ?case by (simp only: level_done_def) simp
next
  case (Suc d)
  let ?i = "k div 64" and ?w = "word_at b mem (Suc d) (k div 64)"
  let ?v = "?w OR push_bit (k mod 64) 1"
  let ?m = "put_word b (Suc d) ?i ?v mem"
  note S = bits_set_word(1) [OF Suc.prems(1-3)] and i = div64_less [OF Suc.prems(3)]
  have v: "?v \<noteq> 0" using or_single_nonzero [of "k mod 64" ?w] by simp
  show ?case
  proof (cases "?w = 0")
    case False
    with v S i Suc.prems show ?thesis
      using level_done_put [of b mem "Suc d" ?i ?v] by (simp add: Let_def)
  next
    case True
    have up: "level_done b d (insert ?i (bits b ?m d)) ?m (set_loop b (Suc d) ?i ?m)"
    proof (rule Suc.IH)
      show "?i < 64 * nwords b d" using i Suc.prems(1,2) by (fastforce simp: layout_def)
      show "\<forall>e<d. linked b ?m e"
        using Suc.prems linked_put_other [OF Suc.prems(1,2) i] by simp
    qed (use Suc.prems in auto)
    have "bits b ?m d = bits b mem d"
      using Suc.prems i by (intro bits_cong) (simp add: word_at_put)
    with up v have up': "level_done b d (if ?v = 0 then bits b mem d - {?i} else insert ?i (bits b mem d))
        ?m (set_loop b (Suc d) ?i ?m)" by simp
    have "level_done b (Suc d) (insert k (bits b mem (Suc d))) mem (set_loop b (Suc d) ?i ?m)"
      by (rule level_done_step [OF Suc.prems(1,2) i _ up' S]) (use Suc.prems in simp)
    moreover have "set_loop b (Suc (Suc d)) k mem = set_loop b (Suc d) ?i ?m"
      by (subst set_loop.simps(2)) (simp only: Let_def True, simp)
    ultimately show ?thesis by simp
  qed
qed

lemma clear_loop_done:
  assumes "layout b (length mem)" "d < m_used_depths b" "k < 64 * nwords b d" "\<forall>e<d. linked b mem e"
  shows "level_done b d (bits b mem d - {k}) mem (clear_loop b (Suc d) k mem)"
  using assms
proof (induction d arbitrary: k mem)
  case 0
  let ?m = "put_word b 0 (k div 64) (word_at b mem 0 (k div 64) AND NOT (push_bit (k mod 64) 1)) mem"
  have "clear_loop b (Suc 0) k mem = ?m" by (simp only: clear_loop.simps Let_def if_cancel)
  moreover have "bits b ?m 0 = bits b mem 0 - {k}" by (rule bits_set_word(2) [OF 0(1-3)])
  moreover have "agree_from b (Suc 0) mem ?m" "changes_only b mem ?m"
    by (rule agree_from_put changes_only_put, use 0 div64_less in simp_all)+
  ultimately show ?case by (simp only: level_done_def) simp
next
  case (Suc d)
  let ?i = "k div 64" and ?w = "word_at b mem (Suc d) (k div 64)"
  let ?v = "?w AND NOT (push_bit (k mod 64) 1)"
  let ?m = "put_word b (Suc d) ?i ?v mem"
  note S = bits_set_word(2) [OF Suc.prems(1-3)] and i = div64_less [OF Suc.prems(3)]
  show ?case
  proof (cases "?v = 0")
    case False
    then have "?w \<noteq> 0" by auto
    with False S i Suc.prems show ?thesis
      using level_done_put [of b mem "Suc d" ?i ?v] by (simp add: Let_def)
  next
    case True
    have up: "level_done b d (bits b ?m d - {?i}) ?m (clear_loop b (Suc d) ?i ?m)"
    proof (rule Suc.IH)
      show "?i < 64 * nwords b d" using i Suc.prems(1,2) by (fastforce simp: layout_def)
      show "\<forall>e<d. linked b ?m e"
        using Suc.prems linked_put_other [OF Suc.prems(1,2) i] by simp
    qed (use Suc.prems in auto)
    have "bits b ?m d = bits b mem d"
      using Suc.prems i by (intro bits_cong) (simp add: word_at_put)
    with up True have up': "level_done b d (if ?v = 0 then bits b mem d - {?i} else insert ?i (bits b mem d))
        ?m (clear_loop b (Suc d) ?i ?m)" by simp
    have "level_done b (Suc d) (bits b mem (Suc d) - {k}) mem (clear_loop b (Suc d) ?i ?m)"
      by (rule level_done_step [OF Suc.prems(1,2) i _ up' S]) (use Suc.prems in simp)
    moreover have "clear_loop b (Suc (Suc d)) k mem = clear_loop b (Suc d) ?i ?m"
      by (subst clear_loop.simps(2)) (simp only: Let_def True, simp)
    ultimately show ?thesis by simp
  qed
qed

section \<open>The bitmap as a set\<close>

definition free_set :: "KPageBitmap \<Rightarrow> storage \<Rightarrow> nat set" where
  "free_set b mem = bits b mem (m_used_depths b - 1)"

text \<open>The invariant of a bitmap for offsets below \<open>n\<close>.\<close>

definition bitmap_ok :: "nat \<Rightarrow> KPageBitmap \<Rightarrow> storage \<Rightarrow> bool" where
  "bitmap_ok n b mem \<longleftrightarrow> layout b (length mem) \<and> (\<forall>d<m_used_depths b - 1. linked b mem d) \<and>
     n \<le> 64 * nwords b (m_used_depths b - 1) \<and> n < 2 ^ 64 \<and> free_set b mem \<subseteq> {..<n} \<and>
     m_num_bits b = card (free_set b mem)"

lemma bitmap_fields [simp]:
  "nwords (b\<lparr>m_num_bits := c\<rparr>) = nwords b" "nwords (b\<lparr>bm_rng := g\<rparr>) = nwords b"
  "layout (b\<lparr>m_num_bits := c\<rparr>) = layout b" "layout (b\<lparr>bm_rng := g\<rparr>) = layout b"
  "region (b\<lparr>m_num_bits := c\<rparr>) = region b" "region (b\<lparr>bm_rng := g\<rparr>) = region b"
  "bits (b\<lparr>m_num_bits := c\<rparr>) = bits b" "bits (b\<lparr>bm_rng := g\<rparr>) = bits b"
  "linked (b\<lparr>m_num_bits := c\<rparr>) = linked b" "linked (b\<lparr>bm_rng := g\<rparr>) = linked b"
  "free_set (b\<lparr>m_num_bits := c\<rparr>) = free_set b" "free_set (b\<lparr>bm_rng := g\<rparr>) = free_set b"
  "bitmap_ok n (b\<lparr>bm_rng := g\<rparr>) = bitmap_ok n b"
  by (simp_all add: fun_eq_iff nwords_def layout_def region_def bits_def linked_def free_set_def
      bitmap_ok_def)

lemma bitmap_okD:
  assumes "bitmap_ok n b mem"
  shows "layout b (length mem)" "m_used_depths b - 1 < m_used_depths b"
    "\<forall>d<m_used_depths b - 1. linked b mem d" "free_set b mem \<subseteq> {..<n}" "finite (free_set b mem)"
    "m_num_bits b = card (free_set b mem)" "m_num_bits b \<le> n" "n < 2 ^ 64"
    "k < n \<Longrightarrow> k < 64 * nwords b (m_used_depths b - 1)"
proof -
  show fin: "finite (free_set b mem)" using assms finite_subset by (auto simp: bitmap_ok_def)
  have "card (free_set b mem) \<le> card {..<n}"
    using assms by (intro card_mono) (auto simp: bitmap_ok_def)
  with assms show "m_num_bits b \<le> n" by (simp add: bitmap_ok_def)
qed (use assms in \<open>auto simp: bitmap_ok_def layout_def\<close>)

lemma bitmap_ok_done:
  assumes ok: "bitmap_ok n b mem" and l: "level_done b (m_used_depths b - 1) S mem mem'"
    and S: "S \<subseteq> {..<n}" "c = card S"
  shows "bitmap_ok n (b\<lparr>m_num_bits := c\<rparr>) mem'" "free_set (b\<lparr>m_num_bits := c\<rparr>) mem' = S"
    "changes_only b mem mem'"
proof -
  show f: "free_set (b\<lparr>m_num_bits := c\<rparr>) mem' = S" using l by (simp add: level_done_def free_set_def)
  show ch: "changes_only b mem mem'" using l by (simp add: level_done_def)
  have "length mem' = length mem" using ch by (simp add: changes_only_def)
  with ok l S f show "bitmap_ok n (b\<lparr>m_num_bits := c\<rparr>) mem'"
    by (simp add: bitmap_ok_def level_done_def)
qed

lemma used_depths_Suc: "bitmap_ok n b mem \<Longrightarrow> Suc (m_used_depths b - 1) = m_used_depths b"
  by (simp add: bitmap_ok_def layout_def)

lemma SetBit_set:
  assumes ok: "bitmap_ok n b mem" and k: "k < n" "k \<notin> free_set b mem"
    and r: "SetBit k (b, mem) = (b', mem')"
  shows "bitmap_ok n b' mem'" "free_set b' mem' = insert k (free_set b mem)" "changes_only b mem mem'"
    "\<exists>c. b' = b\<lparr>m_num_bits := c\<rparr>"
proof -
  have lt: "card (insert k (free_set b mem)) \<le> n"
    using bitmap_okD(4) [OF ok] k card_mono [of "{..<n}" "insert k (free_set b mem)"] by auto
  have c: "add64 (m_num_bits b) 1 = card (insert k (free_set b mem))"
    using lt bitmap_okD [OF ok] k by (simp add: add64_eq)
  have "level_done b (m_used_depths b - 1) (insert k (free_set b mem)) mem
      (set_loop b (m_used_depths b) k mem)"
    using set_loop_done [of b mem "m_used_depths b - 1" k] bitmap_okD [OF ok] k(1)
      used_depths_Suc [OF ok] by (simp add: free_set_def)
  note fin = bitmap_ok_done [OF ok this _ c]
  have "b' = b\<lparr>m_num_bits := add64 (m_num_bits b) 1\<rparr>" "mem' = set_loop b (m_used_depths b) k mem"
    using r by (auto simp: SetBit_def)
  with fin bitmap_okD(4) [OF ok] k(1) show "bitmap_ok n b' mem'"
    "free_set b' mem' = insert k (free_set b mem)" "changes_only b mem mem'"
    "\<exists>c. b' = b\<lparr>m_num_bits := c\<rparr>" by auto
qed

lemma ClearBit_set:
  assumes ok: "bitmap_ok n b mem" and k: "k \<in> free_set b mem"
    and r: "ClearBit k (b, mem) = (b', mem')"
  shows "bitmap_ok n b' mem'" "free_set b' mem' = free_set b mem - {k}" "changes_only b mem mem'"
    "\<exists>c. b' = b\<lparr>m_num_bits := c\<rparr>"
proof -
  have pos: "0 < card (free_set b mem)" using k bitmap_okD(5) [OF ok] by (auto simp: card_gt_0_iff)
  have c: "sub64 (m_num_bits b) 1 = card (free_set b mem - {k})"
    using pos bitmap_okD(5-8) [OF ok] k by (simp add: sub64_eq)
  have "k < n" using k bitmap_okD(4) [OF ok] by auto
  then have "level_done b (m_used_depths b - 1) (free_set b mem - {k}) mem
      (clear_loop b (m_used_depths b) k mem)"
    using clear_loop_done [of b mem "m_used_depths b - 1" k] bitmap_okD [OF ok]
      used_depths_Suc [OF ok] by (simp add: free_set_def)
  note fin = bitmap_ok_done [OF ok this _ c]
  have "b' = b\<lparr>m_num_bits := sub64 (m_num_bits b) 1\<rparr>" "mem' = clear_loop b (m_used_depths b) k mem"
    using r by (auto simp: ClearBit_def)
  with fin bitmap_okD(4) [OF ok] show "bitmap_ok n b' mem'"
    "free_set b' mem' = free_set b mem - {k}" "changes_only b mem mem'"
    "\<exists>c. b' = b\<lparr>m_num_bits := c\<rparr>" by auto
qed

section \<open>Clearing a range\<close>

lemma clear_word_done:
  assumes l: "layout b (length mem)" "d < m_used_depths b" "i < nwords b d" "\<forall>e<d. linked b mem e"
    and v: "v \<noteq> 0 \<Longrightarrow> word_at b mem d i \<noteq> 0"
  shows "level_done b d (bits b (put_word b d i v mem) d) mem
    (if v = 0 then clear_loop b d i (put_word b d i v mem) else put_word b d i v mem)"
proof (cases "v = 0")
  case False
  with v level_done_put [OF l(1-3) _ l(4) refl, of v] show ?thesis by simp
next
  case True
  let ?m = "put_word b d i 0 mem"
  show ?thesis
  proof (cases d)
    case 0
    with True l show ?thesis by (simp add: level_done_def agree_from_put changes_only_put)
  next
    case (Suc e)
    have "bits b ?m e = bits b mem e"
      using l Suc by (intro bits_cong) (simp add: word_at_put)
    moreover have "level_done b e (bits b ?m e - {i}) ?m (clear_loop b (Suc e) i ?m)"
    proof (rule clear_loop_done)
      show "i < 64 * nwords b e" using l Suc by (fastforce simp: layout_def)
      show "\<forall>e'<e. linked b ?m e'" using l Suc linked_put_other [OF l(1-3)] by simp
    qed (use l Suc in auto)
    ultimately have up: "level_done b e (if (0::u64) = 0 then bits b mem e - {i} else insert i (bits b mem e))
        (put_word b (Suc e) i 0 mem) (clear_loop b (Suc e) i ?m)"
      using Suc by simp
    from level_done_step [OF _ _ _ _ this refl] l True Suc show ?thesis by simp
  qed
qed

lemma bits_put:
  assumes "layout b (length mem)" "d < m_used_depths b" "i < nwords b d"
  shows "k \<in> bits b (put_word b d i v mem) d \<longleftrightarrow>
    (if k div 64 = i then bit v (k mod 64) else k \<in> bits b mem d)"
proof (cases "k < 64 * nwords b d")
  case True
  with word_at_put [OF assms assms(2) div64_less [OF True], of v] show ?thesis by (simp add: bits_def)
next
  case False
  have "k < 64 * nwords b d" if "k div 64 = i"
    using assms(3) that by (metis less_mult_imp_div_less mult.commute div_less_iff_less_mult zero_less_numeral)
  with False show ?thesis by (auto simp: bits_def)
qed

lemma clear_words_done:
  assumes "layout b (length mem)" "d < m_used_depths b" "i + n \<le> nwords b d" "\<forall>e<d. linked b mem e"
  shows "level_done b d (bits b mem d - {64 * i..<64 * (i + n)}) mem (clear_words b d i n mem)"
  using assms
proof (induction n arbitrary: i mem)
  case 0
  then show ?case by (simp add: level_done_def agree_from_def)
next
  case (Suc n)
  let ?m = "put_word b d i 0 mem" and ?m' = "clear_loop b d i (put_word b d i 0 mem)"
  have i: "i < nwords b d" using Suc.prems by simp
  have 1: "level_done b d (bits b ?m d) mem ?m'"
    using clear_word_done [OF Suc.prems(1,2) i Suc.prems(4), of 0] by simp
  then have len: "length ?m' = length mem" by (simp add: level_done_def changes_only_def)
  have 2: "level_done b d (bits b ?m' d - {64 * (i + 1)..<64 * (i + 1 + n)}) ?m'
      (clear_words b d (i + 1) n ?m')"
    by (rule Suc.IH) (use Suc.prems 1 len in \<open>auto simp: level_done_def\<close>)
  have S: "bits b ?m d - {64 * (i + 1)..<64 * (i + 1 + n)} = bits b mem d - {64 * i..<64 * (i + Suc n)}"
  proof (rule set_eqI)
    fix k
    have "k div 64 = i \<longleftrightarrow> 64 * i \<le> k \<and> k < 64 * (i + 1)" by auto
    then show "(k \<in> bits b ?m d - {64 * (i + 1)..<64 * (i + 1 + n)}) =
        (k \<in> bits b mem d - {64 * i..<64 * (i + Suc n)})"
      using bits_put [OF Suc.prems(1,2) i, of k 0] by auto
  qed
  have "agree_from b (Suc d) mem (clear_words b d (i + 1) n ?m')"
    using 1 2 by (auto simp: level_done_def intro: agree_from_trans)
  moreover have "changes_only b mem (clear_words b d (i + 1) n ?m')"
    using 1 2 by (auto simp: level_done_def intro: changes_only_trans)
  ultimately show ?case using 1 2 S by (simp add: level_done_def)
qed

text \<open>The ranges the source allows: inside one word, or whole words.\<close>

definition good_range :: "nat \<Rightarrow> nat \<Rightarrow> bool" where
  "good_range offset count \<longleftrightarrow> 0 < count \<and>
     (if count < 64 then offset mod 64 + count \<le> 64 else offset mod 64 = 0 \<and> count mod 64 = 0)"

lemma range_div:
  fixes k :: nat
  assumes "offset mod 64 + count \<le> 64"
  shows "k \<in> {offset..<offset + count} \<longleftrightarrow>
    k div 64 = offset div 64 \<and> offset mod 64 \<le> k mod 64 \<and> k mod 64 < offset mod 64 + count"
proof -
  define a s where as: "a = offset div 64" "s = offset mod 64"
  define x y where xy: "x = k div 64" "y = k mod 64"
  have o: "offset = 64 * a + s" and k: "k = 64 * x + y" and y: "y < 64" by (simp_all add: as xy)
  have "s + count \<le> 64" using assms as by simp
  then show ?thesis
    unfolding as [symmetric] xy [symmetric] unfolding o k using y
    by (cases x a rule: linorder_cases) auto
qed

lemma div64_add: "j < 64 \<Longrightarrow> (64 * x + j) div 64 = x" for x j :: nat
  by simp

lemma mod64_add: "j < 64 \<Longrightarrow> (64 * x + j) mod 64 = j" for x j :: nat
  by simp

lemma all_ones_iff: "v = 0xFFFFFFFFFFFFFFFF \<longleftrightarrow> (\<forall>j<64. bit v j)" for v :: u64
proof -
  have "(0xFFFFFFFFFFFFFFFF :: u64) = - 1" by simp
  then show ?thesis by (simp only: bit_eq_iff bit_minus_1_iff) (auto simp: bit_imp_le_length)
qed

lemma range_full_words:
  assumes "offset mod 64 = 0" "count mod 64 = 0" "offset + count \<le> 64 * nwords b d"
  shows "(\<forall>i<count div 64. word_at b mem d (offset div 64 + i) = 0xFFFFFFFFFFFFFFFF) \<longleftrightarrow>
    {offset..<offset + count} \<subseteq> bits b mem d"
proof -
  obtain a c where o: "offset = 64 * a" "count = 64 * c"
    using assms(1,2) by (metis mod_0_imp_dvd dvdE)
  have "(\<forall>i<c. \<forall>j<64. bit (word_at b mem d (a + i)) j) \<longleftrightarrow>
      (\<forall>k\<in>{64 * a..<64 * a + 64 * c}. bit (word_at b mem d (k div 64)) (k mod 64))" (is "?l \<longleftrightarrow> ?r")
  proof
    assume l: ?l
    show ?r
    proof
      fix k assume k: "k \<in> {64 * a..<64 * a + 64 * c}"
      then have "k div 64 - a < c" "a \<le> k div 64" by (auto simp: div_less_iff_less_mult)
      with l [rule_format, of "k div 64 - a" "k mod 64"]
      show "bit (word_at b mem d (k div 64)) (k mod 64)" by simp
    qed
  next
    assume r: ?r
    show ?l
    proof (intro allI impI)
      fix i j :: nat assume ij: "i < c" "j < 64"
      then have "64 * (a + i) + j \<in> {64 * a..<64 * a + 64 * c}" by auto
      with r have "bit (word_at b mem d ((64 * (a + i) + j) div 64)) ((64 * (a + i) + j) mod 64)"
        by (rule bspec)
      moreover have "(64 * (a + i) + j) div 64 = a + i" "(64 * (a + i) + j) mod 64 = j"
        using ij(2) by (simp_all only: div64_add mod64_add)
      ultimately show "bit (word_at b mem d (a + i)) j" by (simp only:)
    qed
  qed
  then show ?thesis using assms(3) by (auto simp: all_ones_iff bits_def o)
qed

lemma ClearRange_done:
  assumes ok: "bitmap_ok n b mem" and k: "offset + count \<le> n" "good_range offset count"
    and r: "ClearRange offset count (b, mem) = (cleared, b', mem')"
  defines "R \<equiv> {offset..<offset + count}"
  shows "cleared = (R \<subseteq> free_set b mem) \<and> (\<not> cleared \<longrightarrow> b' = b \<and> mem' = mem) \<and>
    (cleared \<longrightarrow> b' = b\<lparr>m_num_bits := sub64 (m_num_bits b) count\<rparr> \<and>
       level_done b (m_used_depths b - 1) (free_set b mem - R) mem mem')"
proof -
  let ?d = "m_used_depths b - 1" and ?i = "offset div 64"
  note okD = bitmap_okD [OF ok]
  have fits: "offset + count \<le> 64 * nwords b ?d" using k(1) ok by (simp add: bitmap_ok_def)
  have i: "?i < nwords b ?d" using fits k(2) by (intro div64_less) (simp add: good_range_def)
  show ?thesis
  proof (cases "count < 64")
    case True
    let ?mask = "push_bit (offset mod 64) (push_bit count 1 - 1) :: u64"
    let ?w = "word_at b mem ?d ?i"
    let ?v = "?w AND NOT ?mask"
    let ?m = "put_word b ?d ?i ?v mem"
    have sc: "offset mod 64 + count \<le> 64" using k(2) True by (simp add: good_range_def)
    note mask = bit_range_mask [OF sc] and R = range_div [OF sc, folded R_def]
    have all: "?w AND ?mask = ?mask \<longleftrightarrow> R \<subseteq> free_set b mem"
    proof -
      have "?w AND ?mask = ?mask \<longleftrightarrow> (\<forall>j<64. offset mod 64 \<le> j \<and> j < offset mod 64 + count \<longrightarrow> bit ?w j)"
        unfolding and_mask_eq_iff mask using sc by auto
      also have "\<dots> \<longleftrightarrow> R \<subseteq> free_set b mem"
      proof
        assume l: "\<forall>j<64. offset mod 64 \<le> j \<and> j < offset mod 64 + count \<longrightarrow> bit ?w j"
        show "R \<subseteq> free_set b mem"
        proof
          fix x assume x: "x \<in> R"
          with l R [of x] have "bit (word_at b mem ?d (x div 64)) (x mod 64)" by simp
          with x fits show "x \<in> free_set b mem" by (simp add: free_set_def bits_def R_def)
        qed
      next
        assume sub: "R \<subseteq> free_set b mem"
        show "\<forall>j<64. offset mod 64 \<le> j \<and> j < offset mod 64 + count \<longrightarrow> bit ?w j"
        proof (intro allI impI)
          fix j :: nat assume j: "j < 64" "offset mod 64 \<le> j \<and> j < offset mod 64 + count"
          have "64 * ?i + j \<in> R" using R [of "64 * ?i + j"] j by simp
          with sub have "64 * ?i + j \<in> bits b mem ?d" by (auto simp: free_set_def)
          with j(1) show "bit ?w j" by (simp add: bits_def)
        qed
      qed
      finally show ?thesis .
    qed
    have S: "bits b ?m ?d = free_set b mem - R"
    proof (rule set_eqI)
      fix x
      have "bit ?v j \<longleftrightarrow> bit ?w j \<and> \<not> (offset mod 64 \<le> j \<and> j < offset mod 64 + count)" if "j < 64" for j
        using that mask [of j] by (simp add: bit_and_iff bit_not_iff)
      from this [of "x mod 64"] show "x \<in> bits b ?m ?d \<longleftrightarrow> x \<in> free_set b mem - R"
        using bits_put [OF okD(1,2) i, of x ?v] R [of x] i
        by (auto simp: free_set_def bits_def div_less_iff_less_mult mult.commute)
    qed
    have nz: "?v \<noteq> 0 \<Longrightarrow> ?w \<noteq> 0" by auto
    note fin = clear_word_done [OF okD(1,2) i okD(3), of ?v, OF nz, unfolded S]
    have run: "ClearRange offset count (b, mem) = (if ?w AND ?mask \<noteq> ?mask then (False, b, mem)
        else (True, b\<lparr>m_num_bits := sub64 (m_num_bits b) count\<rparr>,
          if ?v = 0 then clear_loop b ?d ?i ?m else ?m))"
      using True by (simp only: ClearRange_def Let_def prod.case if_True)
    show ?thesis
    proof (cases "?w AND ?mask = ?mask")
      case eq: True
      with run r have "cleared" "b' = b\<lparr>m_num_bits := sub64 (m_num_bits b) count\<rparr>"
        "mem' = (if ?v = 0 then clear_loop b ?d ?i ?m else ?m)" by simp_all
      with fin all eq show ?thesis by (simp only: simp_thms)
    next
      case False
      with run r all show ?thesis by simp
    qed
  next
    case False
    then have o: "offset mod 64 = 0" "count mod 64 = 0" using k(2) by (auto simp: good_range_def)
    have "level_done b ?d (bits b mem ?d - {64 * ?i..<64 * (?i + count div 64)}) mem
        (clear_words b ?d ?i (count div 64) mem)"
      using okD o fits by (intro clear_words_done) auto
    moreover have "{64 * ?i..<64 * (?i + count div 64)} = R" using o by (auto simp: R_def algebra_simps)
    ultimately show ?thesis
      using False r range_full_words [OF o fits, of mem]
      by (auto simp: ClearRange_def Let_def list_ex_iff free_set_def R_def split: if_splits)
  qed
qed

lemma ClearRange_set:
  assumes ok: "bitmap_ok n b mem" and k: "offset + count \<le> n" "good_range offset count"
    and r: "ClearRange offset count (b, mem) = (cleared, b', mem')"
  shows "cleared \<longleftrightarrow> {offset..<offset + count} \<subseteq> free_set b mem"
    and "\<not> cleared \<Longrightarrow> b' = b \<and> mem' = mem"
    and "cleared \<Longrightarrow> bitmap_ok n b' mem' \<and> free_set b' mem' = free_set b mem - {offset..<offset + count} \<and>
      changes_only b mem mem' \<and> (\<exists>c. b' = b\<lparr>m_num_bits := c\<rparr>)"
proof -
  let ?R = "{offset..<offset + count}"
  note fin = ClearRange_done [OF ok k r]
  then show c: "cleared \<longleftrightarrow> ?R \<subseteq> free_set b mem" "\<not> cleared \<Longrightarrow> b' = b \<and> mem' = mem" by blast+
  assume cl: cleared
  then have sub: "?R \<subseteq> free_set b mem" using c by simp
  have "count \<le> card (free_set b mem)" using card_mono [OF bitmap_okD(5) [OF ok] sub] by simp
  then have n: "sub64 (m_num_bits b) count = card (free_set b mem - ?R)"
    using card_Diff_subset [OF _ sub] bitmap_okD(5-8) [OF ok] by (simp add: sub64_eq)
  have "free_set b mem - ?R \<subseteq> {..<n}" using bitmap_okD(4) [OF ok] by auto
  moreover have "level_done b (m_used_depths b - 1) (free_set b mem - ?R) mem mem'"
    and b': "b' = b\<lparr>m_num_bits := sub64 (m_num_bits b) count\<rparr>" using fin cl by simp_all
  ultimately show "bitmap_ok n b' mem' \<and> free_set b' mem' = free_set b mem - ?R \<and>
      changes_only b mem mem' \<and> (\<exists>c. b' = b\<lparr>m_num_bits := c\<rparr>)"
    unfolding b' using bitmap_ok_done [OF ok _ _ n] by blast
qed

end
