(* ===== verification/Page_Bitmap_Laws.thy ===== *)
theory Page_Bitmap_Laws
  imports Page_Bitmap_Levels
begin

text \<open>
  The page bitmap implements a set of offsets: searching, linearly and at random, initialisation,
  and the summary of what each operation promises.
\<close>

section \<open>Choosing a bit\<close>

text \<open>The halving loop ends at a bit that is set, whatever the generator says.\<close>

lemma select_loop_halve:
  assumes IH: "\<And>w sel g. w \<noteq> 0 \<Longrightarrow> (\<And>j. bit w j \<Longrightarrow> j < n) \<Longrightarrow>
      \<exists>i. fst (select_loop (n div 2) w sel g) = sel + i \<and> bit w i"
    and n: "0 < n" and w: "w \<noteq> 0" "\<And>j. bit w j \<Longrightarrow> j < 2 * n"
  shows "\<exists>i. fst (select_loop n w sel g) = sel + i \<and> bit w i"
proof -
  let ?high = "drop_bit n w" and ?low = "w AND NOT (push_bit n 0xFFFFFFFFFFFFFFFF)"
  have ones: "(0xFFFFFFFFFFFFFFFF :: u64) = -1" by simp
  have low: "bit ?low j \<longleftrightarrow> bit w j \<and> j < n" for j
    unfolding ones using bit_imp_le_length [of w j] by (auto simp: bit_simps)
  have high: "bit ?high j \<longleftrightarrow> bit w (n + j)" for j by (simp add: bit_drop_bit_eq)
  obtain c g' where c: "(if ?high = 0 then (False, g) else if ?low = 0 then (True, g)
      else GenerateRandomBit g) = (c, g')" by fastforce
  have run: "select_loop n w sel g = (if c then select_loop (n div 2) ?high (sel + n) g'
      else select_loop (n div 2) ?low sel g')"
    using n c by (subst select_loop.simps) (simp only: Let_def prod.case if_False simp_thms, simp)
  show ?thesis
  proof (cases c)
    case True
    then have "?high \<noteq> 0" using c by (auto split: if_splits)
    moreover have "j < n" if "bit ?high j" for j using w(2) [of "n + j"] that high by simp
    ultimately obtain i where "fst (select_loop (n div 2) ?high (sel + n) g') = sel + n + i" "bit ?high i"
      using IH [of ?high "sel + n" g'] by blast
    with run True high show ?thesis by (intro exI [of _ "n + i"]) simp
  next
    case False
    have "?low \<noteq> 0"
    proof (cases "?high = 0")
      case True
      obtain j where "bit w j" using word_nonzero_bit [OF w(1)] by blast
      moreover have "\<not> n \<le> j" using True high [of "j - n"] \<open>bit w j\<close> by auto
      ultimately show ?thesis using low [of j] by auto
    next
      case high: False
      with c False show ?thesis by (auto split: if_splits)
    qed
    moreover have "j < n" if "bit ?low j" for j using low that by simp
    ultimately obtain i where "fst (select_loop (n div 2) ?low sel g') = sel + i" "bit ?low i"
      using IH [of ?low sel g'] by blast
    with run False low show ?thesis by (intro exI [of _ i]) simp
  qed
qed

lemma select_loop_bit:
  assumes "w \<noteq> 0" "\<And>j. bit w j \<Longrightarrow> j < 2 * 2 ^ m"
  shows "\<exists>i. fst (select_loop (2 ^ m) w sel g) = sel + i \<and> bit w i"
  using assms
proof (induction m arbitrary: w sel g)
  case 0
  show ?case
  proof (rule select_loop_halve)
    fix w :: u64 and sel g assume w: "w \<noteq> 0" "\<And>j. bit w j \<Longrightarrow> j < 2 ^ 0"
    obtain j where "bit w j" using word_nonzero_bit [OF w(1)] by blast
    with w(2) [of j] show "\<exists>i. fst (select_loop (2 ^ 0 div 2) w sel g) = sel + i \<and> bit w i"
      by (simp add: select_loop.simps)
  qed (use 0 in auto)
next
  case (Suc m)
  show ?case by (rule select_loop_halve) (use Suc in auto)
qed

lemma SelectRandomBit_bit: "v \<noteq> 0 \<Longrightarrow> bit v (fst (SelectRandomBit v g))"
  using select_loop_bit [of v 5 0 g] bit_imp_le_length [of v] by (auto simp: SelectRandomBit_def)

section \<open>Finding a free offset\<close>

lemma free_set_ancestor:
  assumes "bitmap_ok n b mem" "x \<in> free_set b mem" "j < m_used_depths b"
  shows "x div 64 ^ j \<in> bits b mem (m_used_depths b - Suc j)"
  using assms(3)
proof (induction j)
  case 0
  then show ?case using assms(2) by (simp add: free_set_def)
next
  case (Suc j)
  let ?d = "m_used_depths b - Suc (Suc j)"
  have d: "Suc ?d = m_used_depths b - Suc j" using Suc.prems by simp
  have "x div 64 ^ j \<in> bits b mem (Suc ?d)" using Suc d by simp
  then have "x div 64 ^ j div 64 < nwords b (Suc ?d)" "word_at b mem (Suc ?d) (x div 64 ^ j div 64) \<noteq> 0"
    using div64_less by (auto simp: bits_def)
  moreover have "linked b mem ?d" using bitmap_okD(3) [OF assms(1)] Suc.prems by simp
  moreover have "x div 64 ^ j div 64 = x div 64 ^ Suc j"
    by (metis div_mult2_eq mult.commute power_Suc)
  ultimately show ?case by (auto simp: linked_def)
qed

lemma top_word_zero_iff:
  assumes ok: "bitmap_ok n b mem"
  shows "word_at b mem 0 0 = 0 \<longleftrightarrow> free_set b mem = {}"
proof -
  let ?D = "m_used_depths b"
  have D: "0 < ?D" "nwords b 0 = 1" using bitmap_okD(1) [OF ok] by (auto simp: layout_def)
  have top: "bits b mem 0 = {} \<longleftrightarrow> word_at b mem 0 0 = 0"
    using word_nonzero_bit [of "word_at b mem 0 0"] D(2) by (fastforce simp: bits_def)
  have step: "bits b mem d = {} \<longleftrightarrow> bits b mem (Suc d) = {}" if "Suc d < ?D" for d
  proof
    assume e: "bits b mem d = {}"
    have "linked b mem d" using bitmap_okD(3) [OF ok] that by simp
    with e have "word_at b mem (Suc d) i = 0" if "i < nwords b (Suc d)" for i
      using that by (auto simp: linked_def)
    then show "bits b mem (Suc d) = {}" by (auto simp: bits_def dest!: div64_less)
  next
    assume e: "bits b mem (Suc d) = {}"
    have "word_at b mem (Suc d) i = 0" if "i < nwords b (Suc d)" for i
    proof (rule ccontr)
      assume "word_at b mem (Suc d) i \<noteq> 0"
      then obtain j where "j < 64" "bit (word_at b mem (Suc d) i) j" using word_nonzero_bit by blast
      with that have "64 * i + j \<in> bits b mem (Suc d)" by (simp add: bits_def)
      with e show False by simp
    qed
    moreover have "linked b mem d" using bitmap_okD(3) [OF ok] that by simp
    ultimately show "bits b mem d = {}" by (auto simp: linked_def)
  qed
  have "bits b mem d = {} \<longleftrightarrow> bits b mem 0 = {}" if "d < ?D" for d
    using that by (induction d) (auto simp: step)
  from this [of "?D - 1"] top D(1) show ?thesis by (simp add: free_set_def)
qed

text \<open>
  The two variants of \<open>FindFreeBlock\<close> rely on one promise of whatever chooses a bit: it
  chooses one that is set. The linear variant's promises in addition that it is the lowest.
\<close>

locale bit_chooser =
  fixes select :: "u64 \<Rightarrow> RandomBitGenerator \<Rightarrow> nat \<times> RandomBitGenerator"
  assumes select_bit: "v \<noteq> 0 \<Longrightarrow> bit v (fst (select v g))"
begin

lemma select_step:
  assumes ok: "bitmap_ok n b mem" and l: "Suc left \<le> m_used_depths b"
    and off: "off < nwords b (m_used_depths b - Suc left)"
    and v: "word_at b mem (m_used_depths b - Suc left) off \<noteq> 0"
    and s: "select (word_at b mem (m_used_depths b - Suc left) off) g = (i, g')"
  shows "off * 64 + i \<in> bits b mem (m_used_depths b - Suc left)" "i < 64"
    "left \<noteq> 0 \<Longrightarrow> off * 64 + i < nwords b (m_used_depths b - left) \<and>
       word_at b mem (m_used_depths b - left) (off * 64 + i) \<noteq> 0"
proof -
  let ?d = "m_used_depths b - Suc left"
  have i: "bit (word_at b mem ?d off) i" using select_bit [OF v, of g] s by simp
  then show i64: "i < 64" using bit_imp_le_length [of _ i] by fastforce
  show in_bits: "off * 64 + i \<in> bits b mem ?d" using i i64 off by (simp add: bits_def)
  assume "left \<noteq> 0"
  with l have "Suc ?d = m_used_depths b - left" "linked b mem ?d"
    using bitmap_okD(3) [OF ok] by auto
  with in_bits show "off * 64 + i < nwords b (m_used_depths b - left) \<and>
      word_at b mem (m_used_depths b - left) (off * 64 + i) \<noteq> 0" by (auto simp: linked_def)
qed

lemma find_loop_found:
  assumes ok: "bitmap_ok n b mem" and "0 < left" "left \<le> m_used_depths b"
    "off < nwords b (m_used_depths b - left)" "word_at b mem (m_used_depths b - left) off \<noteq> 0"
  shows "\<exists>k g'. find_loop select b mem left off g = (int k, g') \<and> k \<in> free_set b mem \<and>
    k div 64 ^ left = off"
  using assms(2-)
proof (induction left arbitrary: off g)
  case (Suc left)
  let ?v = "word_at b mem (m_used_depths b - Suc left) off"
  obtain i g1 where s: "select ?v g = (i, g1)" by fastforce
  note st = select_step [OF ok Suc.prems(2,3,4) s]
  have run: "find_loop select b mem (Suc left) off g = find_loop select b mem left (off * 64 + i) g1"
    using Suc.prems(4) s by simp
  show ?case
  proof (cases "left = 0")
    case True
    with run st(1,2) show ?thesis
      by (intro exI [of _ "off * 64 + i"] exI [of _ g1]) (simp add: free_set_def)
  next
    case False
    with Suc.IH [of "off * 64 + i" g1] st(3) Suc.prems(2) obtain k g' where
      k: "find_loop select b mem left (off * 64 + i) g1 = (int k, g')" "k \<in> free_set b mem"
        "k div 64 ^ left = off * 64 + i" by auto
    have "k div 64 ^ Suc left = k div 64 ^ left div 64"
      by (metis div_mult2_eq mult.commute power_Suc)
    with k st(2) run show ?thesis by simp
  qed
qed simp

lemma find_free:
  assumes ok: "bitmap_ok n b mem"
    and r: "find_loop select b mem (m_used_depths b) 0 g = (k, g')"
  shows "if free_set b mem = {} then k = -1 else 0 \<le> k \<and> nat k \<in> free_set b mem"
proof -
  obtain D where D: "m_used_depths b = Suc D" "nwords b 0 = 1"
    using bitmap_okD(1) [OF ok] by (cases "m_used_depths b") (auto simp: layout_def)
  show ?thesis
  proof (cases "word_at b mem 0 0 = 0")
    case True
    with r D top_word_zero_iff [OF ok] show ?thesis by simp
  next
    case False
    with find_loop_found [OF ok, of "m_used_depths b" 0 g] D r top_word_zero_iff [OF ok]
    show ?thesis by auto
  qed
qed

end

locale lowest_bit_chooser = bit_chooser +
  assumes select_least: "v \<noteq> 0 \<Longrightarrow> bit v j \<Longrightarrow> fst (select v g) \<le> j"
begin

lemma find_loop_least:
  assumes ok: "bitmap_ok n b mem" and "0 < left" "left \<le> m_used_depths b"
    "off < nwords b (m_used_depths b - left)" "word_at b mem (m_used_depths b - left) off \<noteq> 0"
    and "x \<in> free_set b mem" "x div 64 ^ left = off"
  shows "fst (find_loop select b mem left off g) \<le> int x"
  using assms(2-)
proof (induction left arbitrary: off g)
  case (Suc left)
  let ?d = "m_used_depths b - Suc left"
  let ?v = "word_at b mem ?d off"
  obtain i g1 where s: "select ?v g = (i, g1)" by fastforce
  note st = select_step [OF ok Suc.prems(2,3,4) s]
  have run: "find_loop select b mem (Suc left) off g = find_loop select b mem left (off * 64 + i) g1"
    using Suc.prems(4) s by simp
  let ?y = "x div 64 ^ left"
  have "?y \<in> bits b mem ?d" using free_set_ancestor [OF ok Suc.prems(5), of left] Suc.prems(2) by simp
  moreover have off: "?y div 64 = off"
    using Suc.prems(6) by (metis div_mult2_eq mult.commute power_Suc)
  ultimately have "bit ?v (?y mod 64)" by (simp add: bits_def)
  then have "i \<le> ?y mod 64" using select_least [OF Suc.prems(4), of "?y mod 64" g] s by simp
  then have y: "off * 64 + i \<le> ?y" using off div_mult_mod_eq [of ?y 64] by linarith
  show ?case
  proof (cases "left = 0")
    case True
    with run y show ?thesis by simp
  next
    case False
    with find_loop_found [OF ok _ _ _ _, of left "off * 64 + i" g1] st(3) Suc.prems(2) obtain k g' where
      k: "find_loop select b mem left (off * 64 + i) g1 = (int k, g')" "k div 64 ^ left = off * 64 + i"
      by auto
    show ?thesis
    proof (cases "?y = off * 64 + i")
      case True
      with Suc.IH [of "off * 64 + i" g1] False st(3) Suc.prems run show ?thesis by simp
    next
      case False
      with y k(2) have "k div 64 ^ left < x div 64 ^ left" by simp
      then have "k < x" by (meson div_le_mono leD leI)
      with run k(1) show ?thesis by simp
    qed
  qed
qed simp

lemma find_least:
  assumes ok: "bitmap_ok n b mem" and ne: "free_set b mem \<noteq> {}"
  shows "fst (find_loop select b mem (m_used_depths b) 0 g) = int (Min (free_set b mem))"
proof -
  obtain k g' where r: "find_loop select b mem (m_used_depths b) 0 g = (k, g')" by fastforce
  have k: "0 \<le> k" "nat k \<in> free_set b mem" using find_free [OF ok r] ne by auto
  have D: "0 < m_used_depths b" "nwords b 0 = 1" "word_at b mem 0 0 \<noteq> 0"
    using bitmap_okD(1) [OF ok] top_word_zero_iff [OF ok] ne by (auto simp: layout_def)
  have "k \<le> int x" if x: "x \<in> free_set b mem" for x
  proof -
    obtain D' where D': "m_used_depths b = Suc D'" using D(1) by (cases "m_used_depths b") auto
    have "x div 64 ^ D' < 64"
      using free_set_ancestor [OF ok x, of D'] D(2) D' by (auto simp: bits_def)
    then have "x div 64 ^ m_used_depths b = 0" unfolding D'
      by (metis div_less div_mult2_eq mult.commute power_Suc)
    with find_loop_least [OF ok D(1) _ _ _ x, of 0 g] D r show ?thesis by simp
  qed
  then have "\<forall>x\<in>free_set b mem. nat k \<le> x" using k(1) by fastforce
  then have "Min (free_set b mem) = nat k" using k(2) bitmap_okD(5) [OF ok] by (auto intro: Min_eqI)
  with k(1) r show ?thesis by simp
qed

end

interpretation random_bit: bit_chooser SelectRandomBit
  by unfold_locales (rule SelectRandomBit_bit)

interpretation lowest: lowest_bit_chooser lowest_bit
  by unfold_locales (simp_all add: lowest_bit_def countr_zero_bit)

lemma FindFreeBlock_free:
  assumes ok: "bitmap_ok n b mem" and r: "FindFreeBlock random (b, mem) = (k, b')"
  shows "if free_set b mem = {} then k = -1 else 0 \<le> k \<and> nat k \<in> free_set b mem"
    "\<exists>g. b' = b\<lparr>bm_rng := g\<rparr>" "\<not> random \<Longrightarrow> free_set b mem \<noteq> {} \<Longrightarrow> k = int (Min (free_set b mem))"
proof -
  obtain k' g where l: "find_loop (if random then SelectRandomBit else lowest_bit) b mem
      (m_used_depths b) 0 (bm_rng b) = (k', g)" by fastforce
  with r have k: "k' = k" "b' = b\<lparr>bm_rng := g\<rparr>" by (auto simp: FindFreeBlock_def)
  show "if free_set b mem = {} then k = -1 else 0 \<le> k \<and> nat k \<in> free_set b mem"
    using l random_bit.find_free [OF ok] lowest.find_free [OF ok] by (cases random) (simp_all add: k)
  show "\<exists>g. b' = b\<lparr>bm_rng := g\<rparr>" using k by blast
  show "k = int (Min (free_set b mem))" if "\<not> random" "free_set b mem \<noteq> {}"
    using lowest.find_least [OF ok that(2), of "bm_rng b"] l that(1) k by simp
qed

section \<open>Random numbers and free ranges\<close>

lemma GenerateRandom_less: "mx \<noteq> 0 \<Longrightarrow> fst (GenerateRandom mx g) < mx"
  by (simp add: GenerateRandom_def minus_div_mult_eq_mod word_less_nat_alt unat_mod unat_gt_0
      split: prod.split)

text \<open>
  What the search has found among the valid places \<open>V\<close> seen so far, and how many it counted.
\<close>

definition chosen_from :: "nat set \<Rightarrow> nat \<times> int \<times> RandomBitGenerator \<Rightarrow> bool" where
  "chosen_from V acc \<longleftrightarrow> (case acc of (n, chosen, g) \<Rightarrow>
     if V = {} then n = 0 \<and> chosen = -1 else 0 < n \<and> 0 \<le> chosen \<and> nat chosen \<in> V)"

text \<open>The place \<open>opt\<close> of a word holds \<open>count\<close> set bits.\<close>

definition place_free :: "nat \<Rightarrow> u64 \<Rightarrow> nat \<Rightarrow> bool" where
  "place_free count w opt \<longleftrightarrow> (\<forall>j<count. bit w (opt * count + j))"

lemma range_option_step:
  assumes c: "0 < count" "count < 64" and V: "chosen_from V (n, chosen, g)"
  shows "\<exists>n' chosen' g'. range_option count (push_bit count 1 - 1) idx
      (drop_bit (opt * count) w, n, chosen, g) opt =
      (drop_bit (Suc opt * count) w, n', chosen', g') \<and>
    chosen_from (if place_free count w opt then insert (idx * 64 + opt * count) V else V)
      (n', chosen', g')"
proof -
  let ?mask = "push_bit count 1 - 1 :: u64"
  have "bit ?mask j \<longleftrightarrow> j < count" for j
    using bit_range_mask [of 0 count j] c by simp
  then have free: "drop_bit (opt * count) w AND ?mask = ?mask \<longleftrightarrow> place_free count w opt"
    unfolding and_mask_eq_iff place_free_def by (simp add: bit_drop_bit_eq)
  have shift: "drop_bit count (drop_bit (opt * count) w) = drop_bit (Suc opt * count) w"
    by (simp add: drop_bit_drop_bit add.commute)
  show ?thesis
  proof (cases "place_free count w opt")
    case False
    with free V show ?thesis by (simp add: range_option_def Let_def shift)
  next
    case True
    obtain take g' where t: "(if n + 1 = 1 then (True, g)
        else let (r, g) = GenerateRandom (of_nat (n + 1)) g in (r = 0, g)) = (take, g')" by fastforce
    have first: "V = {} \<Longrightarrow> take" using t V by (auto simp: chosen_from_def)
    have "range_option count ?mask idx (drop_bit (opt * count) w, n, chosen, g) opt =
        (drop_bit (Suc opt * count) w, n + 1,
         if take then int (idx * 64 + opt * count) else chosen, g')"
      using True free t unfolding range_option_def Let_def by (simp add: drop_bit_drop_bit)
    moreover have "nat (int (idx * 64 + opt * count)) = idx * 64 + opt * count" by (rule nat_int)
    ultimately show ?thesis
      using True first V by (cases take) (auto simp: chosen_from_def simp del: of_nat_add of_nat_mult split: if_splits)
  qed
qed

lemma range_options:
  assumes c: "0 < count" "count < 64" and V: "chosen_from V (n, chosen, g)"
  shows "\<exists>n' chosen' g'. foldl (range_option count (push_bit count 1 - 1) idx) (w, n, chosen, g) [0..<m] =
      (drop_bit (m * count) w, n', chosen', g') \<and>
    chosen_from (V \<union> {idx * 64 + opt * count |opt. opt < m \<and> place_free count w opt}) (n', chosen', g')"
proof (induction m)
  case 0
  with V show ?case by simp
next
  case (Suc m)
  then obtain n' chosen' g' where
    f: "foldl (range_option count (push_bit count 1 - 1) idx) (w, n, chosen, g) [0..<m] =
      (drop_bit (m * count) w, n', chosen', g')" and
    V': "chosen_from (V \<union> {idx * 64 + opt * count |opt. opt < m \<and> place_free count w opt}) (n', chosen', g')"
    by blast
  have "{idx * 64 + opt * count |opt. opt < Suc m \<and> place_free count w opt} =
      (if place_free count w m
       then insert (idx * 64 + m * count) {idx * 64 + opt * count |opt. opt < m \<and> place_free count w opt}
       else {idx * 64 + opt * count |opt. opt < m \<and> place_free count w opt})"
    by (auto simp: less_Suc_eq)
  with range_option_step [OF c V', of idx m w] f show ?case
    by (cases "place_free count w m") simp_all
qed

definition free_places :: "nat \<Rightarrow> (nat \<Rightarrow> u64) \<Rightarrow> nat \<Rightarrow> nat set" where
  "free_places count words m =
     {idx * 64 + opt * count |idx opt. idx < m \<and> opt < 64 div count \<and> place_free count (words idx) opt}"

lemma range_storages:
  assumes c: "0 < count" "count < 64" and V: "chosen_from {} acc"
  shows "chosen_from (free_places count words m)
    (foldl (range_storage count (push_bit count 1 - 1) (64 div count) words) acc [0..<m])"
proof (induction m)
  case 0
  with V show ?case by (simp add: free_places_def)
next
  case (Suc m)
  obtain n chosen g where
    f: "foldl (range_storage count (push_bit count 1 - 1) (64 div count) words) acc [0..<m] = (n, chosen, g)"
    by (metis surj_pair)
  have eq: "free_places count words (Suc m) = free_places count words m \<union>
      {m * 64 + opt * count |opt. opt < 64 div count \<and> place_free count (words m) opt}"
    by (auto simp: free_places_def less_Suc_eq)
  from Suc f have "chosen_from (free_places count words m) (n, chosen, g)" by simp
  from range_options [OF c this, of m "words m" "64 div count"] obtain n' chosen' g' where
    o: "foldl (range_option count (push_bit count 1 - 1) m) (words m, n, chosen, g) [0..<64 div count] =
      (drop_bit (64 div count * count) (words m), n', chosen', g')" and
    V': "chosen_from (free_places count words (Suc m)) (n', chosen', g')"
    unfolding eq by blast
  have "foldl (range_storage count (push_bit count 1 - 1) (64 div count) words) acc [0..<Suc m] =
      (n', chosen', g')"
    unfolding upt_Suc_append [OF le0] foldl_append f by (simp only: foldl.simps range_storage_def Let_def prod.case o)
  with V' show ?case by (simp only:)
qed

lemma free_places_range:
  assumes c: "0 < count" "count < 64" and n: "m = nwords b d"
  shows "x \<in> free_places count (\<lambda>i. word_at b mem d i) m \<longleftrightarrow>
    x mod 64 mod count = 0 \<and> x mod 64 + count \<le> 64 \<and> {x..<x + count} \<subseteq> bits b mem d"
proof
  assume "x \<in> free_places count (\<lambda>i. word_at b mem d i) m"
  then obtain idx opt where x: "x = idx * 64 + opt * count" "idx < m" "opt < 64 div count"
    "place_free count (word_at b mem d idx) opt" by (auto simp: free_places_def)
  have "Suc opt * count \<le> 64 div count * count" using x(3) by (intro mult_le_mono1) simp
  also have "\<dots> \<le> 64" by simp
  finally have le: "opt * count + count \<le> 64" by simp
  have "y \<in> bits b mem d" if y: "y \<in> {x..<x + count}" for y
  proof -
    define j where "j = y - x"
    have "y = 64 * idx + (opt * count + j)" "j < count" using y x(1) by (auto simp: j_def)
    moreover have "opt * count + j < 64" using le \<open>j < count\<close> by simp
    ultimately have "y div 64 = idx" "y mod 64 = opt * count + j" by simp_all
    with x(2,4) n \<open>j < count\<close> show ?thesis
      by (auto simp: bits_def place_free_def div_less_iff_less_mult mult.commute)
  qed
  moreover have "x mod 64 = opt * count" using le c x(1) by simp
  ultimately show "x mod 64 mod count = 0 \<and> x mod 64 + count \<le> 64 \<and> {x..<x + count} \<subseteq> bits b mem d"
    using le by auto
next
  assume r: "x mod 64 mod count = 0 \<and> x mod 64 + count \<le> 64 \<and> {x..<x + count} \<subseteq> bits b mem d"
  define opt where "opt = x mod 64 div count"
  have opt: "x mod 64 = opt * count" using r by (metis add.right_neutral div_mult_mod_eq opt_def)
  have "Suc opt * count \<le> 64" using r opt by simp
  then have "Suc opt \<le> 64 div count" using c(1) by (simp add: less_eq_div_iff_mult_less_eq)
  moreover have "place_free count (word_at b mem d (x div 64)) opt"
    unfolding place_free_def
  proof (intro allI impI)
    fix j assume j: "j < count"
    then have "x + j \<in> bits b mem d" using r by auto
    moreover have "(x + j) div 64 = x div 64" "(x + j) mod 64 = opt * count + j"
    proof -
      have xj: "x + j = 64 * (x div 64) + (opt * count + j)"
        using mult_div_mod_eq [of 64 x] opt by linarith
      moreover have "opt * count + j < 64" using r opt j by simp
      ultimately show "(x + j) div 64 = x div 64" "(x + j) mod 64 = opt * count + j"
        by (metis div64_add) (metis xj mod64_add \<open>opt * count + j < 64\<close>)
    qed
    ultimately show "bit (word_at b mem d (x div 64)) (opt * count + j)" by (simp add: bits_def)
  qed
  moreover have "x \<in> bits b mem d" using r c(1) by auto
  then have "x div 64 < m" unfolding n by (intro div64_less) (simp add: bits_def)
  moreover have "x = x div 64 * 64 + opt * count" using div_mult_mod_eq [of x 64] opt by linarith
  ultimately show "x \<in> free_places count (\<lambda>i. word_at b mem d i) m"
    unfolding free_places_def by (auto simp: less_eq_Suc_le)
qed

lemma FindFreeRange_free:
  assumes ok: "bitmap_ok n b mem" and c: "0 < count" "count < 64"
    and ne: "0 < nwords b (m_used_depths b - 1)"
  shows "\<exists>k g. FindFreeRange count (b, mem) = Some (k, b\<lparr>bm_rng := g\<rparr>) \<and>
    (if \<exists>x. x mod 64 mod count = 0 \<and> x mod 64 + count \<le> 64 \<and> {x..<x + count} \<subseteq> free_set b mem
     then 0 \<le> k \<and> nat k mod 64 + count \<le> 64 \<and> {nat k..<nat k + count} \<subseteq> free_set b mem
     else k = -1)"
proof -
  let ?d = "m_used_depths b - 1"
  let ?words = "\<lambda>i. mem ! (m_bit_storages b ! ?d + i)"
  have m: "max (m_end_storages b ! ?d - m_bit_storages b ! ?d) 1 = nwords b ?d"
    "m_bit_storages b ! ?d < m_end_storages b ! ?d" using ne by (simp_all add: nwords_def)
  have opts: "max (64 div count) 1 = 64 div count" using c by (simp add: Suc_le_eq div_greater_zero_iff)
  obtain n' chosen g where f: "foldl (range_storage count (push_bit count 1 - 1) (64 div count) ?words)
      (0, -1, bm_rng b) [0..<nwords b ?d] = (n', chosen, g)" by (metis surj_pair)
  have "chosen_from (free_places count ?words (nwords b ?d)) (n', chosen, g)"
    using range_storages [OF c, of "(0, -1, bm_rng b)" ?words "nwords b ?d"] f
    by (simp add: chosen_from_def)
  moreover have "FindFreeRange count (b, mem) = Some (chosen, b\<lparr>bm_rng := g\<rparr>)"
    using m c opts f by (simp add: FindFreeRange_def Let_def)
  moreover note free_places_range [OF c refl, of _ mem b ?d]
  ultimately show ?thesis by (auto simp: chosen_from_def free_set_def split: if_splits)
qed

section \<open>Initialisation\<close>

abbreviation ceil64 :: "nat \<Rightarrow> nat" where
  "ceil64 n \<equiv> AlignUp n 64 div 64"

lemma ceil64_eq: "n + 64 < 2 ^ 64 \<Longrightarrow> ceil64 n = (n + 63) div 64"
proof -
  assume n: "n + 64 < 2 ^ 64"
  define a r where ar: "a = n div 64" "r = n mod 64"
  have na: "n = 64 * a + r" "r < 64" by (simp_all add: ar)
  show "ceil64 n = (n + 63) div 64"
  proof (cases "r = 0")
    case True
    then show ?thesis by (simp add: AlignUp_def na)
  next
    case False
    have "n - n mod 64 = 64 * a" by (simp add: ar minus_mod_eq_mult_div)
    moreover have "add64 (64 * a) 64 = 64 * a + 64" using n na by (intro add64_eq) simp
    ultimately have "ceil64 n = a + 1" using False ar by (simp add: AlignUp_def)
    moreover have "n + 63 = 64 * (a + 1) + (r - 1)" using False na by simp
    ultimately show ?thesis using na(2) by simp
  qed
qed

lemma ceil64_bounds:
  assumes "n + 64 < 2 ^ 64"
  shows "n \<le> 64 * ceil64 n" "0 < n \<Longrightarrow> 0 < ceil64 n" "n \<le> s + 1 \<Longrightarrow> ceil64 n \<le> s div 64 + 1"
    "ceil64 n \<le> n"
proof -
  note eq = ceil64_eq [OF assms]
  have d: "(n + 63) div 64 * 64 + (n + 63) mod 64 = n + 63" "(n + 63) mod 64 < 64" by simp_all
  show "n \<le> 64 * ceil64 n" unfolding eq using d by linarith
  show "0 < n \<Longrightarrow> 0 < ceil64 n" unfolding eq using d by linarith
  show "ceil64 n \<le> n" unfolding eq using d by linarith
  show "n \<le> s + 1 \<Longrightarrow> ceil64 n \<le> s div 64 + 1"
    unfolding eq using div_le_mono [of "n + 63" "s + 64" 64] by simp
qed

lemma required_depth_top:
  "0 < x \<Longrightarrow> x \<le> s + 1 \<Longrightarrow> x + 64 < 2 ^ 64 \<Longrightarrow> (ceil64 ^^ GetRequiredDepth s) x = 1"
proof (induction s arbitrary: x rule: GetRequiredDepth.induct)
  case (1 s)
  note b = ceil64_bounds [OF 1(4)]
  have x': "0 < ceil64 x" "ceil64 x \<le> s div 64 + 1" "ceil64 x + 64 < 2 ^ 64"
    using b(2) [OF 1(2)] b(3) [OF 1(3)] b(4) 1(4) by linarith+
  show ?case
  proof (cases "s div 64 = 0")
    case True
    with x' show ?thesis by (simp add: GetRequiredDepth.simps [of s])
  next
    case False
    with 1(1) x' show ?thesis by (simp add: GetRequiredDepth.simps [of s] funpow_Suc_right del: funpow.simps)
  qed
qed

lemma overhead_bits_Suc: "overhead_bits (Suc j) s = overhead_bits j s + (ceil64 ^^ Suc j) s"
proof (induction j arbitrary: s)
  case 0
  then show ?case by (simp add: Let_def)
next
  case (Suc j)
  have "overhead_bits (Suc (Suc j)) s = ceil64 s + overhead_bits (Suc j) (ceil64 s)"
    by (simp only: overhead_bits.simps(2) [of "Suc j"] Let_def)
  also have "\<dots> = ceil64 s + overhead_bits j (ceil64 s) + (ceil64 ^^ Suc j) (ceil64 s)"
    by (simp only: Suc add.assoc)
  also have "ceil64 s + overhead_bits j (ceil64 s) = overhead_bits (Suc j) s"
    by (simp only: overhead_bits.simps Let_def)
  finally show ?case by (simp only: funpow_Suc_right [of "Suc j"] comp_apply)
qed

lemma overhead_bits_mono: "i \<le> j \<Longrightarrow> overhead_bits i s \<le> overhead_bits j s"
  by (induction j) (auto simp: le_Suc_eq overhead_bits_Suc simp del: overhead_bits.simps(2))

lemma init_storages_layout:
  assumes "init_storages c st s b = (b', st')" "c \<le> length (m_bit_storages b)"
    "c \<le> length (m_end_storages b)"
  shows "st' = st + overhead_bits c s \<and> (\<exists>ss es. b' = b\<lparr>m_bit_storages := ss, m_end_storages := es\<rparr>) \<and>
    (\<forall>d<c. m_bit_storages b' ! d = st + overhead_bits (c - Suc d) s \<and>
       m_end_storages b' ! d = st + overhead_bits (c - d) s) \<and>
    (\<forall>d\<ge>c. m_bit_storages b' ! d = m_bit_storages b ! d \<and> m_end_storages b' ! d = m_end_storages b ! d)"
  using assms
proof (induction c arbitrary: st s b)
  case 0
  then show ?case by (cases b) auto
next
  case (Suc c)
  let ?b = "b\<lparr>m_bit_storages := (m_bit_storages b)[c := st],
      m_end_storages := (m_end_storages b)[c := st + ceil64 s]\<rparr>"
  have ob: "overhead_bits (Suc j) s = ceil64 s + overhead_bits j (ceil64 s)" for j
    by (simp add: Let_def)
  have "init_storages c (st + ceil64 s) (ceil64 s) ?b = (b', st')"
    using Suc.prems(1) by (simp add: Let_def)
  note IH = Suc.IH [OF this]
  have len: "c < length (m_bit_storages b)" "c < length (m_end_storages b)" using Suc.prems by auto
  with IH have st': "st' = st + overhead_bits (Suc c) s"
    and b': "\<exists>ss es. b' = ?b\<lparr>m_bit_storages := ss, m_end_storages := es\<rparr>"
    and low: "\<And>d. d < c \<Longrightarrow> m_bit_storages b' ! d = st + ceil64 s + overhead_bits (c - Suc d) (ceil64 s) \<and>
       m_end_storages b' ! d = st + ceil64 s + overhead_bits (c - d) (ceil64 s)"
    and high: "\<And>d. c \<le> d \<Longrightarrow> m_bit_storages b' ! d = m_bit_storages ?b ! d \<and>
       m_end_storages b' ! d = m_end_storages ?b ! d"
    using ob by auto
  have "m_bit_storages b' ! d = st + overhead_bits (Suc c - Suc d) s \<and>
      m_end_storages b' ! d = st + overhead_bits (Suc c - d) s" if "d < Suc c" for d
  proof (cases "d = c")
    case True
    with high [of c] len show ?thesis by (simp add: Let_def)
  next
    case False
    with that have "d < c" "Suc (c - Suc d) = c - d" "Suc (c - d) = Suc c - d" by auto
    with low [of d] ob [of "c - Suc d"] ob [of "c - d"] show ?thesis by simp
  qed
  moreover have "m_bit_storages b' ! d = m_bit_storages b ! d \<and> m_end_storages b' ! d = m_end_storages b ! d"
    if "Suc c \<le> d" for d
    using high [of d] that by simp
  ultimately show ?case using st' b' by auto
qed

text \<open>
  Over storage that is zero, initialisation gives an empty set. The bitmap takes the words from
  \<open>st\<close> on, as many as \<open>overhead_bits\<close> says.
\<close>

lemma bitmap_Initialize_ok:
  assumes n: "0 < n" "n + 64 < 2 ^ 64" "GetRequiredDepth n \<le> MaxDepth"
    and b: "length (m_bit_storages b) = MaxDepth" "length (m_end_storages b) = MaxDepth"
    and r: "bitmap_Initialize st n b = (b', st')"
    and mem: "st' \<le> length mem" "\<And>k. st \<le> k \<Longrightarrow> k < st' \<Longrightarrow> mem ! k = 0"
  shows "bitmap_ok n b' mem" "free_set b' mem = {}" "region b' \<subseteq> {st..<st'}"
    "st' = st + overhead_bits (GetRequiredDepth n) n"
proof -
  let ?D = "GetRequiredDepth n"
  have "init_storages ?D st n (b\<lparr>m_num_bits := 0, m_used_depths := ?D\<rparr>) = (b', st')"
    using r by (simp add: bitmap_Initialize_def)
  from init_storages_layout [OF this] n(3) b
  have st': "st' = st + overhead_bits ?D n" and D: "m_used_depths b' = ?D" "m_num_bits b' = 0"
    and at: "\<And>d. d < ?D \<Longrightarrow> m_bit_storages b' ! d = st + overhead_bits (?D - Suc d) n \<and>
       m_end_storages b' ! d = st + overhead_bits (?D - d) n"
    by auto
  show "st' = st + overhead_bits ?D n" by (rule st')
  have D0: "0 < ?D" by (simp add: GetRequiredDepth.simps [of n])
  have nw: "nwords b' d = (ceil64 ^^ (?D - d)) n" if "d < ?D" for d
  proof -
    have "?D - d = Suc (?D - Suc d)" using that by simp
    then show ?thesis using at [OF that] overhead_bits_Suc [of "?D - Suc d" n] by (simp add: nwords_def)
  qed
  have small: "(ceil64 ^^ j) n \<le> n" for j
  proof (induction j)
    case (Suc j)
    then show ?case using ceil64_bounds(4) [of "(ceil64 ^^ j) n"] n(2) by simp
  qed simp
  have le: "nwords b' (Suc d) \<le> 64 * nwords b' d" if "Suc d < ?D" for d
  proof -
    have "?D - d = Suc (?D - Suc d)" using that by simp
    then have "nwords b' d = ceil64 (nwords b' (Suc d))" using nw [of d] nw [of "Suc d"] that by simp
    moreover have "nwords b' (Suc d) + 64 < 2 ^ 64"
      using small [of "?D - Suc d"] nw [OF that] n(2) by linarith
    ultimately show ?thesis using ceil64_bounds(1) by metis
  qed
  have in_range: "st \<le> m_bit_storages b' ! d" "m_bit_storages b' ! d \<le> m_end_storages b' ! d"
    "m_end_storages b' ! d \<le> st'" if "d < ?D" for d
    using at [OF that] overhead_bits_mono [of "?D - Suc d" "?D - d" n] overhead_bits_mono [of "?D - d" ?D n] st'
    by auto
  have disj: "m_end_storages b' ! d' \<le> m_bit_storages b' ! d" if "d' < ?D" "d < d'" for d d'
  proof -
    have "?D - d' \<le> ?D - Suc d" using that by simp
    then show ?thesis using at [OF that(1)] at [of d] that overhead_bits_mono [of "?D - d'" "?D - Suc d" n] by simp
  qed
  have top: "nwords b' 0 = 1" using nw [OF D0] required_depth_top [of n n] n by simp
  have lay: "layout b' (length mem)"
    unfolding layout_def D using D0 top le in_range disj mem(1) by fastforce
  have zero: "bits b' mem d = {}" "\<And>i. i < nwords b' d \<Longrightarrow> word_at b' mem d i = 0" if "d < ?D" for d
  proof -
    show z: "word_at b' mem d i = 0" if "i < nwords b' d" for i
      using mem(2) in_range [OF \<open>d < ?D\<close>] that by (simp add: nwords_def)
    show "bits b' mem d = {}" using z by (auto simp: bits_def dest!: div64_less)
  qed
  show fs: "free_set b' mem = {}" using zero(1) [of "?D - 1"] D0 by (simp add: free_set_def D)
  have "linked b' mem d" if "d < ?D - 1" for d using zero [of d] zero [of "Suc d"] that by (auto simp: linked_def)
  moreover have "n \<le> 64 * nwords b' (?D - 1)" using nw [of "?D - 1"] D0 ceil64_bounds(1) [OF n(2)] by simp
  ultimately show "bitmap_ok n b' mem"
    using lay fs n D by (simp add: bitmap_ok_def)
  show "region b' \<subseteq> {st..<st'}" using in_range by (fastforce simp: region_def D)
qed

section \<open>What the bitmap promises\<close>

text \<open>
  C23. On a bitmap that satisfies its invariant, setting a bit that is clear, clearing one that is
  set and clearing a range act on the set of free offsets as their names say, keep the invariant
  (with the bit count) and leave the storage outside the bitmap's own levels alone. Clearing a
  range succeeds exactly when the whole range is free and otherwise changes nothing.
\<close>

theorem bitmap_updates_refine:
  assumes ok: "bitmap_ok n b mem"
  shows "(\<forall>k<n. k \<notin> free_set b mem \<longrightarrow> (case SetBit k (b, mem) of (b', mem') \<Rightarrow>
      bitmap_ok n b' mem' \<and> free_set b' mem' = insert k (free_set b mem) \<and> changes_only b mem mem')) \<and>
    (\<forall>k\<in>free_set b mem. case ClearBit k (b, mem) of (b', mem') \<Rightarrow>
      bitmap_ok n b' mem' \<and> free_set b' mem' = free_set b mem - {k} \<and> changes_only b mem mem') \<and>
    (\<forall>k c. k + c \<le> n \<and> good_range k c \<longrightarrow> (case ClearRange k c (b, mem) of (cleared, b', mem') \<Rightarrow>
      if {k..<k + c} \<subseteq> free_set b mem
      then cleared \<and> bitmap_ok n b' mem' \<and> free_set b' mem' = free_set b mem - {k..<k + c} \<and>
        changes_only b mem mem'
      else \<not> cleared \<and> b' = b \<and> mem' = mem))"
proof (intro conjI allI impI ballI)
  fix k assume k: "k < n" "k \<notin> free_set b mem"
  show "case SetBit k (b, mem) of (b', mem') \<Rightarrow> bitmap_ok n b' mem' \<and>
      free_set b' mem' = insert k (free_set b mem) \<and> changes_only b mem mem'"
    using SetBit_set [OF ok k] by (auto split: prod.split)
next
  fix k assume k: "k \<in> free_set b mem"
  show "case ClearBit k (b, mem) of (b', mem') \<Rightarrow> bitmap_ok n b' mem' \<and>
      free_set b' mem' = free_set b mem - {k} \<and> changes_only b mem mem'"
    using ClearBit_set [OF ok k] by (auto split: prod.split)
next
  fix k c assume k: "k + c \<le> n \<and> good_range k c"
  obtain cl b' mem' where r: "ClearRange k c (b, mem) = (cl, b', mem')" by (metis surj_pair)
  show "case ClearRange k c (b, mem) of (cleared, b', mem') \<Rightarrow>
      if {k..<k + c} \<subseteq> free_set b mem
      then cleared \<and> bitmap_ok n b' mem' \<and> free_set b' mem' = free_set b mem - {k..<k + c} \<and>
        changes_only b mem mem'
      else \<not> cleared \<and> b' = b \<and> mem' = mem"
    using ClearRange_set [OF ok _ _ r] k r by auto
qed

text \<open>
  The search finds a free offset exactly when there is one: the lowest one when it is linear,
  whatever random bits the generator delivers otherwise. The search for a range of less than a
  word finds one that lies inside a word at a multiple of its length exactly when there is one.
\<close>

theorem bitmap_search_correct:
  assumes ok: "bitmap_ok n b mem" and n: "0 < n"
  shows "(case FindFreeBlock random (b, mem) of (k, b') \<Rightarrow> bitmap_ok n b' mem \<and>
      free_set b' mem = free_set b mem \<and>
      (if free_set b mem = {} then k = -1
       else if random then 0 \<le> k \<and> nat k \<in> free_set b mem else k = int (Min (free_set b mem)))) \<and>
    (\<forall>count. 0 < count \<and> count < 64 \<longrightarrow>
      (\<exists>k g. FindFreeRange count (b, mem) = Some (k, b\<lparr>bm_rng := g\<rparr>) \<and>
        (if \<exists>x. x mod 64 mod count = 0 \<and> x mod 64 + count \<le> 64 \<and> {x..<x + count} \<subseteq> free_set b mem
         then 0 \<le> k \<and> nat k mod 64 + count \<le> 64 \<and> {nat k..<nat k + count} \<subseteq> free_set b mem
         else k = -1)))"
proof -
  obtain k b' where r: "FindFreeBlock random (b, mem) = (k, b')" by fastforce
  obtain g where b': "b' = b\<lparr>bm_rng := g\<rparr>" using FindFreeBlock_free(2) [OF ok r] by blast
  have ne: "0 < nwords b (m_used_depths b - 1)" using n ok by (auto simp: bitmap_ok_def intro!: Nat.gr0I)
  have "bitmap_ok n b' mem \<and> free_set b' mem = free_set b mem \<and>
      (if free_set b mem = {} then k = -1
       else if random then 0 \<le> k \<and> nat k \<in> free_set b mem else k = int (Min (free_set b mem)))"
    using FindFreeBlock_free(1,3) [OF ok r] ok by (simp add: b')
  then show ?thesis using FindFreeRange_free [OF ok _ _ ne] r by simp
qed

text \<open>The instance: a bitmap for 100 offsets, on two levels and three words.\<close>

definition sample_bitmap :: KPageBitmap where
  "sample_bitmap = fst (bitmap_Initialize 0 100 (new_KPageBitmap 0))"

lemma sample_bitmap_ok:
  "bitmap_ok 100 sample_bitmap (replicate 3 0)" "free_set sample_bitmap (replicate 3 0) = {}"
proof -
  have depth: "GetRequiredDepth 100 = Suc (Suc 0)" by (simp add: GetRequiredDepth.simps)
  obtain b' st' where r: "bitmap_Initialize 0 100 (new_KPageBitmap 0) = (b', st')" by fastforce
  have "st' = 3"
    using r depth by (simp add: bitmap_Initialize_def AlignUp_def add64_def Let_def)
  with bitmap_Initialize_ok [OF _ _ _ _ _ r, of "replicate 3 0"] depth r
  show "bitmap_ok 100 sample_bitmap (replicate 3 0)" "free_set sample_bitmap (replicate 3 0) = {}"
    by (simp_all add: sample_bitmap_def new_KPageBitmap_def MaxDepth_def)
qed

theorem bitmap_updates_refine_witness:
  "free_set (fst (SetBit 70 (sample_bitmap, replicate 3 0))) (snd (SetBit 70 (sample_bitmap, replicate 3 0))) = {70}"
  using bitmap_updates_refine [OF sample_bitmap_ok(1)] sample_bitmap_ok(2)
  by (auto simp: case_prod_unfold)

theorem bitmap_search_correct_witness:
  "fst (FindFreeBlock True (sample_bitmap, replicate 3 0)) = -1"
  using bitmap_search_correct [OF sample_bitmap_ok(1), of True] sample_bitmap_ok(2)
  by (auto simp: case_prod_unfold)

end
