(* ===== verification/Buddy_Blocks.thy ===== *)
theory Buddy_Blocks
  imports Nx_Prelude
begin

text \<open>
  The geometry of a buddy allocator, free of bitmaps: block \<open>a\<close> of size number \<open>i\<close> consists of the
  pages \<open>p\<close> with \<open>p div 2 ^ s i = a\<close>, where \<open>s\<close> gives the logarithm of the block sizes. A state \<open>F\<close>
  gives the free blocks of each size. It is in order when no page is free twice and no group of
  blocks that would make a bigger block is free altogether.
\<close>

definition block_pages :: "(nat \<Rightarrow> nat) \<Rightarrow> nat \<Rightarrow> nat \<Rightarrow> nat set" where
  "block_pages s i a = {p. p div 2 ^ s i = a}"

definition free_in :: "(nat \<Rightarrow> nat) \<Rightarrow> nat \<Rightarrow> (nat \<Rightarrow> nat set) \<Rightarrow> nat set" where
  "free_in s n F = {p. \<exists>i<n. p div 2 ^ s i \<in> F i}"

definition buddies :: "(nat \<Rightarrow> nat) \<Rightarrow> nat \<Rightarrow> nat \<Rightarrow> nat set" where
  "buddies s i g = {a. a div 2 ^ (s (Suc i) - s i) = g}"

definition buddy_ok :: "(nat \<Rightarrow> nat) \<Rightarrow> nat \<Rightarrow> (nat \<Rightarrow> nat set) \<Rightarrow> bool" where
  "buddy_ok s n F \<longleftrightarrow>
     (\<forall>i j p. i < n \<and> j < n \<and> p div 2 ^ s i \<in> F i \<and> p div 2 ^ s j \<in> F j \<longrightarrow> i = j) \<and>
     (\<forall>i g. Suc i < n \<longrightarrow> \<not> buddies s i g \<subseteq> F i)"

lemma block_pages_interval: "block_pages s i a = {a * 2 ^ s i..<(a + 1) * 2 ^ s i}"
proof (rule set_eqI)
  fix p
  let ?m = "2 ^ s i :: nat"
  have "p div ?m * ?m \<le> p" "p < (p div ?m + 1) * ?m"
    using dividend_less_div_times [of ?m p] by simp_all
  moreover have "p div ?m = a" if "a * ?m \<le> p" "p < (a + 1) * ?m"
    using that by (intro div_nat_eqI) (simp_all add: mult.commute)
  ultimately show "p \<in> block_pages s i a \<longleftrightarrow> p \<in> {a * ?m..<(a + 1) * ?m}"
    by (auto simp: block_pages_def)
qed

lemma buddy_ok_subset: "buddy_ok s n F \<Longrightarrow> (\<And>j. F' j \<subseteq> F j) \<Longrightarrow> buddy_ok s n F'"
  unfolding buddy_ok_def by (meson subset_iff)

locale block_sizes =
  fixes s :: "nat \<Rightarrow> nat" and n :: nat
  assumes mono: "i < j \<Longrightarrow> j < n \<Longrightarrow> s i < s j" and smallest: "s 0 = 0" and some: "0 < n"
begin

lemma mono_le: "i \<le> j \<Longrightarrow> j < n \<Longrightarrow> s i \<le> s j"
  using mono [of i j] by (cases "i = j") auto

lemma div_bigger:
  fixes p :: nat
  assumes "i \<le> j" "j < n"
  shows "p div 2 ^ s j = p div 2 ^ s i div 2 ^ (s j - s i)"
proof -
  have "(2 :: nat) ^ s j = 2 ^ s i * 2 ^ (s j - s i)"
    using mono_le [OF assms] by (simp flip: power_add)
  then show ?thesis by (simp add: div_mult2_eq)
qed

lemma pages_subset_bigger:
  "i \<le> j \<Longrightarrow> j < n \<Longrightarrow> block_pages s i a \<subseteq> block_pages s j (a div 2 ^ (s j - s i))"
  by (auto simp: block_pages_def div_bigger)

lemma group_pages:
  "Suc i < n \<Longrightarrow> block_pages s (Suc i) g = {p. p div 2 ^ s i \<in> buddies s i g}"
  by (auto simp: block_pages_def buddies_def div_bigger [of i "Suc i"])

lemma remove_block:
  assumes "buddy_ok s n F" "i < n" "a \<in> F i"
  shows "buddy_ok s n (F(i := F i - {a}))" "free_in s n (F(i := F i - {a})) = free_in s n F - block_pages s i a"
    "block_pages s i a \<subseteq> free_in s n F"
proof -
  show "buddy_ok s n (F(i := F i - {a}))"
    by (rule buddy_ok_subset [OF assms(1)]) auto
  show "block_pages s i a \<subseteq> free_in s n F" using assms by (auto simp: free_in_def block_pages_def)
  have uniq: "j = i" if "j < n" "p div 2 ^ s j \<in> F j" "p div 2 ^ s i = a" for p j
    using assms that by (auto simp: buddy_ok_def)
  show "free_in s n (F(i := F i - {a})) = free_in s n F - block_pages s i a"
    using uniq assms(2) by (fastforce simp: free_in_def block_pages_def split: if_splits)
qed

text \<open>A block that makes no group complete is added.\<close>

lemma add_block:
  assumes ok: "buddy_ok s n F" and i: "i < n" and a: "block_pages s i a \<inter> free_in s n F = {}"
    and g: "Suc i < n \<Longrightarrow> \<not> buddies s i (a div 2 ^ (s (Suc i) - s i)) \<subseteq> insert a (F i)"
  shows "buddy_ok s n (F(i := insert a (F i)))"
    "free_in s n (F(i := insert a (F i))) = free_in s n F \<union> block_pages s i a"
proof -
  let ?F = "F(i := insert a (F i))"
  have new: "\<not> p div 2 ^ s j \<in> F j" if "p div 2 ^ s i = a" "j < n" for p j
    using a that by (auto simp: free_in_def block_pages_def)
  have "j = k" if "j < n" "k < n" "p div 2 ^ s j \<in> ?F j" "p div 2 ^ s k \<in> ?F k" for j k p
    using that new [of p] ok unfolding buddy_ok_def by (metis fun_upd_apply insert_iff)
  moreover have "\<not> buddies s j g' \<subseteq> ?F j" if j: "Suc j < n" for j g'
  proof (cases "j = i")
    case True
    show ?thesis
    proof (cases "g' = a div 2 ^ (s (Suc i) - s i)")
      case True
      with g j \<open>j = i\<close> show ?thesis by simp
    next
      case False
      then have "a \<notin> buddies s i g'" by (auto simp: buddies_def)
      moreover have "\<not> buddies s i g' \<subseteq> F i" using ok j True by (simp add: buddy_ok_def)
      ultimately show ?thesis using True by (simp add: subset_insert)
    qed
  next
    case False
    with ok j show ?thesis by (simp add: buddy_ok_def)
  qed
  ultimately show "buddy_ok s n ?F" unfolding buddy_ok_def by blast
  show "free_in s n ?F = free_in s n F \<union> block_pages s i a"
    using i by (auto simp: free_in_def block_pages_def split: if_splits)
qed

text \<open>A block that makes a group complete: the group is taken out, to become a bigger block.\<close>

lemma complete_group:
  assumes ok: "buddy_ok s n F" and i: "Suc i < n" and a: "block_pages s i a \<inter> free_in s n F = {}"
  defines "g \<equiv> a div 2 ^ (s (Suc i) - s i)"
  assumes g: "buddies s i g \<subseteq> insert a (F i)"
  shows "buddy_ok s n (F(i := insert a (F i) - buddies s i g))"
    "block_pages s (Suc i) g \<inter> free_in s n (F(i := insert a (F i) - buddies s i g)) = {}"
    "free_in s n (F(i := insert a (F i) - buddies s i g)) \<union> block_pages s (Suc i) g =
       free_in s n F \<union> block_pages s i a"
    "block_pages s (Suc i) g \<subseteq> free_in s n F \<union> block_pages s i a"
proof -
  let ?F = "F(i := insert a (F i) - buddies s i g)"
  have ag: "a \<in> buddies s i g" by (simp add: buddies_def g_def)
  have sub: "?F j \<subseteq> F j" for j using ag by auto
  have pg: "p \<in> block_pages s (Suc i) g \<longleftrightarrow> p div 2 ^ s i \<in> buddies s i g" for p
    using group_pages [OF i] by simp
  show ok': "buddy_ok s n ?F"
    by (rule buddy_ok_subset [OF ok sub])
  have in_group: "p div 2 ^ s i \<in> insert a (F i)" if "p \<in> block_pages s (Suc i) g" for p
    using that pg g by auto
  have uniq: "j = i" if "p \<in> block_pages s (Suc i) g" "j < n" "p div 2 ^ s j \<in> F j" for p j
  proof (cases "p div 2 ^ s i = a")
    case True
    then have "p \<in> block_pages s i a" by (simp add: block_pages_def)
    with a that show ?thesis by (auto simp: free_in_def)
  next
    case False
    with in_group [OF that(1)] have "p div 2 ^ s i \<in> F i" by simp
    with ok that i show ?thesis unfolding buddy_ok_def by (meson Suc_lessD)
  qed
  show disj: "block_pages s (Suc i) g \<inter> free_in s n ?F = {}"
  proof (rule ccontr)
    assume "block_pages s (Suc i) g \<inter> free_in s n ?F \<noteq> {}"
    then obtain p j where p: "p \<in> block_pages s (Suc i) g" "j < n" "p div 2 ^ s j \<in> ?F j"
      by (auto simp: free_in_def)
    with sub uniq [OF p(1,2)] have "j = i" by blast
    with p pg show False by simp
  qed
  show part: "block_pages s (Suc i) g \<subseteq> free_in s n F \<union> block_pages s i a"
  proof
    fix p assume "p \<in> block_pages s (Suc i) g"
    from in_group [OF this] i show "p \<in> free_in s n F \<union> block_pages s i a"
      by (auto simp: free_in_def block_pages_def intro!: exI [of _ i])
  qed
  have "p \<in> free_in s n ?F \<or> p \<in> block_pages s (Suc i) g" if "p \<in> free_in s n F \<union> block_pages s i a" for p
    using that pg ag by (fastforce simp: free_in_def block_pages_def)
  moreover have "free_in s n ?F \<subseteq> free_in s n F" using sub by (fastforce simp: free_in_def)
  ultimately show "free_in s n ?F \<union> block_pages s (Suc i) g = free_in s n F \<union> block_pages s i a"
    using part by blast
qed

text \<open>A block whose pages are all free lies in a free block of its size or a bigger one.\<close>

lemma free_block_covered:
  assumes ok: "buddy_ok s n F" and "i < n" "block_pages s i a \<subseteq> free_in s n F"
  shows "\<exists>j<n. i \<le> j \<and> a div 2 ^ (s j - s i) \<in> F j"
  using assms(2,3)
proof (induction i arbitrary: a)
  case 0
  have "a \<in> block_pages s 0 a" using smallest by (simp add: block_pages_def)
  with 0 smallest show ?case by (auto simp: free_in_def)
next
  case (Suc i)
  let ?G = "buddies s i a"
  have cover: "\<exists>j<n. i \<le> j \<and> c div 2 ^ (s j - s i) \<in> F j" if c: "c \<in> ?G" for c
  proof (rule Suc.IH)
    have "block_pages s i c \<subseteq> block_pages s (Suc i) a"
      using pages_subset_bigger [of i "Suc i" c] c Suc.prems(1) by (simp add: buddies_def)
    with Suc.prems(2) show "block_pages s i c \<subseteq> free_in s n F" by blast
  qed (use Suc.prems in simp)
  have "\<not> ?G \<subseteq> F i" using ok Suc.prems(1) by (simp add: buddy_ok_def)
  then obtain c where c: "c \<in> ?G" "c \<notin> F i" by blast
  with cover [OF c(1)] obtain j where j: "j < n" "i \<le> j" "c div 2 ^ (s j - s i) \<in> F j" by blast
  with c(2) have "Suc i \<le> j" by (cases "j = i") auto
  moreover have "c div 2 ^ (s j - s i) = a div 2 ^ (s j - s (Suc i))"
  proof -
    have "s j - s i = (s (Suc i) - s i) + (s j - s (Suc i))"
      using mono_le [of i "Suc i"] mono_le [OF \<open>Suc i \<le> j\<close> j(1)] Suc.prems(1) by simp
    then have "c div 2 ^ (s j - s i) = c div 2 ^ (s (Suc i) - s i) div 2 ^ (s j - s (Suc i))"
      by (simp add: power_add div_mult2_eq)
    with c(1) show ?thesis by (simp add: buddies_def)
  qed
  ultimately show ?case using j by (intro exI [of _ j]) simp
qed

end

end
