(* ===== verification/Page_Heap_Levels.thy ===== *)
theory Page_Heap_Levels
  imports KPageHeap Page_Bitmap_Laws Buddy_Blocks
begin

text \<open>
  The invariant of the page heap and its link to the buddy geometry: the free blocks of a size are
  the set of its bitmap, shifted by where the bitmap begins. Pushing and popping blocks and the
  coalescing loop \<open>FreeBlock\<close>, in terms of sets of free pages.
\<close>

section \<open>Block sizes\<close>

abbreviation block_shift :: "nat \<Rightarrow> nat" where
  "block_shift i \<equiv> MemoryBlockPageShifts ! i"

definition page_shift :: "nat \<Rightarrow> nat" where
  "page_shift i = block_shift i - 12"

lemma less_7: "i < 7 \<longleftrightarrow> i = 0 \<or> i = 1 \<or> i = 2 \<or> i = 3 \<or> i = 4 \<or> i = 5 \<or> i = (6::nat)"
  by auto

lemma page_shift_table:
  "page_shift 0 = 0" "page_shift 1 = 4" "page_shift 2 = 9" "page_shift 3 = 10" "page_shift 4 = 13"
  "page_shift 5 = 17" "page_shift 6 = 18" "page_shift (Suc 0) = 4"
  "page_shift (Suc (Suc 0)) = 9"
  by (simp_all add: page_shift_def MemoryBlockPageShifts_def)

lemma block_shift_table:
  "block_shift 0 = 12" "block_shift 1 = 16" "block_shift 2 = 21" "block_shift 3 = 22"
  "block_shift 4 = 25" "block_shift 5 = 29" "block_shift 6 = 30" "block_shift (Suc 0) = 16"
  "block_shift (Suc (Suc 0)) = 21"
  by (simp_all add: MemoryBlockPageShifts_def)

lemma page_shift_mono: "i < j \<Longrightarrow> j < 7 \<Longrightarrow> page_shift i < page_shift j"
proof -
  assume ij: "i < j" "j < 7"
  then have "i < 7" by simp
  with ij show ?thesis unfolding less_7 by (elim disjE) (simp_all add: page_shift_table)
qed

interpretation sizes: block_sizes page_shift 7
  by unfold_locales (simp_all add: page_shift_mono page_shift_table)

lemma block_shift_page: "i < 7 \<Longrightarrow> block_shift i = page_shift i + 12"
  by (auto simp: less_7 page_shift_table block_shift_table)

lemma block_size_pages: "i < 7 \<Longrightarrow> 2 ^ block_shift i = 2 ^ page_shift i * PageSize"
  by (simp add: block_shift_page power_add PageSize_def)

text \<open>How many blocks make a bigger one: a proper divisor of the bits of a word.\<close>

definition fan :: "nat \<Rightarrow> nat" where
  "fan i = 2 ^ (page_shift (Suc i) - page_shift i)"

lemma fan_table:
  "fan 0 = 16" "fan (Suc 0) = 32" "fan 2 = 2" "fan 3 = 8" "fan 4 = 16" "fan 5 = 2"
  by (simp_all add: fan_def page_shift_table)

lemma less_6: "i < 6 \<longleftrightarrow> i = 0 \<or> i = Suc 0 \<or> i = 2 \<or> i = 3 \<or> i = 4 \<or> i = (5::nat)"
  by auto

lemma fan_bounds:
  assumes "i < 6"
  shows "fan i < 64" "0 < fan i" "64 mod fan i = 0" "2 ^ block_shift (Suc i) = fan i * 2 ^ block_shift i"
    "block_shift (Suc i) - block_shift i = page_shift (Suc i) - page_shift i"
proof -
  note cases = assms [unfolded less_6]
  show "fan i < 64" using cases by (elim disjE) (simp_all add: fan_table)
  show "0 < fan i" by (simp add: fan_def)
  show "64 mod fan i = 0" using cases by (elim disjE) (simp_all add: fan_table)
  show "2 ^ block_shift (Suc i) = fan i * 2 ^ block_shift i"
    using cases by (elim disjE) (simp_all add: fan_table block_shift_table)
  show "block_shift (Suc i) - block_shift i = page_shift (Suc i) - page_shift i"
    using cases by (elim disjE) (simp_all add: page_shift_table block_shift_table)
qed

lemma aligned_in_word:
  assumes "i < 6" "k mod fan i = 0"
  shows "k mod 64 + fan i \<le> 64"
proof -
  have "fan i dvd 64" using fan_bounds(3) [OF assms(1)] by (rule mod_0_imp_dvd)
  then obtain c where c: "64 = fan i * c" by (rule dvdE)
  have "k mod 64 mod fan i = k mod fan i" using \<open>fan i dvd 64\<close> by (rule mod_mod_cancel)
  with assms(2) have "fan i dvd k mod 64" by (simp add: mod_eq_0_iff_dvd)
  then obtain d where d: "k mod 64 = fan i * d" by (rule dvdE)
  have "fan i * d < fan i * c" unfolding c [symmetric] d [symmetric] by simp
  then have "d < c" by simp
  then have "fan i * (d + 1) \<le> fan i * c" by (intro mult_le_mono2) simp
  then have "fan i * d + fan i \<le> fan i * c" by simp
  then show ?thesis unfolding c [symmetric] d [symmetric] .
qed

section \<open>Levels of a heap\<close>

definition base :: "KPageHeap \<Rightarrow> nat \<Rightarrow> nat" where
  "base h i = blk_heap_address (m_blocks h ! i) div 2 ^ block_shift i"

abbreviation bitmap_of :: "KPageHeap \<Rightarrow> nat \<Rightarrow> KPageBitmap" where
  "bitmap_of h i \<equiv> m_bitmap (m_blocks h ! i)"

definition free_blocks :: "KPageHeap \<Rightarrow> nat \<Rightarrow> nat set" where
  "free_blocks h i =
     (if i < 7 then (\<lambda>k. base h i + k) ` free_set (bitmap_of h i) (m_management_data h) else {})"

definition free_pages :: "KPageHeap \<Rightarrow> nat set" where
  "free_pages h = free_in page_shift 7 (free_blocks h)"

definition heap_pages :: "KPageHeap \<Rightarrow> nat set" where
  "heap_pages h = {m_heap_address h div PageSize..<(m_heap_address h + m_heap_size h) div PageSize}"

text \<open>The parameters of a level, without its bitmap.\<close>

definition level_shape :: "KPageHeap \<Rightarrow> nat \<Rightarrow> bool" where
  "level_shape h i \<longleftrightarrow> (let blk = m_blocks h ! i in
     m_block_shift blk = block_shift i \<and>
     m_next_block_shift blk = (if i < 6 then block_shift (Suc i) else 0) \<and>
     blk_heap_address blk = base h i * 2 ^ block_shift i \<and> 0 < base h i \<and>
     base h i * 2 ^ block_shift i \<le> m_heap_address h \<and>
     m_heap_address h + m_heap_size h \<le> (base h i + m_end_offset blk) * 2 ^ block_shift i \<and>
     (base h i + m_end_offset blk) * 2 ^ block_shift i < 2 ^ 64 \<and>
     (i < 6 \<longrightarrow> base h i mod fan i = 0 \<and> m_end_offset blk mod fan i = 0))"

definition heap_shape :: "KPageHeap \<Rightarrow> bool" where
  "heap_shape h \<longleftrightarrow> length (m_blocks h) = 7 \<and> m_num_blocks h = 7 \<and>
     m_heap_address h mod PageSize = 0 \<and> m_heap_size h mod PageSize = 0 \<and>
     m_heap_address h + m_heap_size h + 2 ^ 31 < 2 ^ 64 \<and>
     (\<forall>i<7. level_shape h i) \<and>
     (\<forall>i<7. bitmap_ok (m_end_offset (m_blocks h ! i)) (bitmap_of h i) (m_management_data h)) \<and>
     (\<forall>i<7. \<forall>j<7. i \<noteq> j \<longrightarrow> region (bitmap_of h i) \<inter> region (bitmap_of h j) = {})"

definition heap_ok :: "KPageHeap \<Rightarrow> bool" where
  "heap_ok h \<longleftrightarrow> heap_shape h \<and> buddy_ok page_shift 7 (free_blocks h) \<and> free_pages h \<subseteq> heap_pages h"

text \<open>A bitmap does not notice changes outside its region.\<close>

lemma bitmap_frame:
  assumes ok: "bitmap_ok n b mem" and len: "length mem' = length mem"
    and same: "\<And>k. k \<in> region b \<Longrightarrow> mem' ! k = mem ! k"
  shows "bitmap_ok n b mem'" "free_set b mem' = free_set b mem"
proof -
  have w: "word_at b mem' d i = word_at b mem d i" if "d < m_used_depths b" "i < nwords b d" for d i
    using same word_index(2) [OF bitmap_okD(1) [OF ok] that] by simp
  show fs: "free_set b mem' = free_set b mem"
    unfolding free_set_def using w bitmap_okD(2) [OF ok] by (intro bits_cong) simp
  have "linked b mem' d \<longleftrightarrow> linked b mem d" if "d < m_used_depths b - 1" for d
    using w that by (intro linked_cong) simp_all
  with ok fs len show "bitmap_ok n b mem'" by (simp add: bitmap_ok_def)
qed

definition same_layout :: "KPageBitmap \<Rightarrow> KPageBitmap \<Rightarrow> bool" where
  "same_layout b b' \<longleftrightarrow> m_bit_storages b' = m_bit_storages b \<and> m_end_storages b' = m_end_storages b \<and>
     m_used_depths b' = m_used_depths b"

lemma same_layout_fields [simp]:
  "same_layout b (b\<lparr>m_num_bits := c\<rparr>)" "same_layout b (b\<lparr>bm_rng := g\<rparr>)" "same_layout b b"
  by (simp_all add: same_layout_def)

lemma same_layout_trans: "same_layout b b' \<Longrightarrow> same_layout b' b'' \<Longrightarrow> same_layout b b''"
  by (simp add: same_layout_def)

lemma same_layout_region: "same_layout b b' \<Longrightarrow> region b' = region b"
  by (simp add: same_layout_def region_def)

text \<open>Replacing the bitmap of one level.\<close>

definition put_bitmap :: "nat \<Rightarrow> KPageBitmap \<Rightarrow> storage \<Rightarrow> KPageHeap \<Rightarrow> KPageHeap" where
  "put_bitmap i b mem h =
     h\<lparr>m_blocks := (m_blocks h)[i := (m_blocks h ! i)\<lparr>m_bitmap := b\<rparr>], m_management_data := mem\<rparr>"

lemma put_bitmap_fields [simp]:
  "m_heap_address (put_bitmap i b mem h) = m_heap_address h"
  "m_heap_size (put_bitmap i b mem h) = m_heap_size h"
  "m_num_blocks (put_bitmap i b mem h) = m_num_blocks h"
  "length (m_blocks (put_bitmap i b mem h)) = length (m_blocks h)"
  "m_management_data (put_bitmap i b mem h) = mem"
  by (simp_all add: put_bitmap_def)

lemma put_bitmap_block:
  "i < length (m_blocks h) \<Longrightarrow> m_blocks (put_bitmap i b mem h) ! j =
     (if j = i then (m_blocks h ! i)\<lparr>m_bitmap := b\<rparr> else m_blocks h ! j)"
  by (simp add: put_bitmap_def)

lemma put_bitmap_shape:
  assumes h: "heap_shape h" and i: "i < 7"
    and b: "same_layout (bitmap_of h i) b" "bitmap_ok (m_end_offset (m_blocks h ! i)) b mem"
    "changes_only (bitmap_of h i) (m_management_data h) mem"
  shows "heap_shape (put_bitmap i b mem h)"
    "free_blocks (put_bitmap i b mem h) = (free_blocks h)(i := (\<lambda>k. base h i + k) ` free_set b mem)"
    "heap_pages (put_bitmap i b mem h) = heap_pages h"
proof -
  let ?h = "put_bitmap i b mem h"
  have len: "i < length (m_blocks h)" using h i by (simp add: heap_shape_def)
  note at = put_bitmap_block [OF len, of b mem]
  have base: "base ?h j = base h j" for j by (simp add: base_def at)
  have other: "bitmap_ok (m_end_offset (m_blocks h ! j)) (bitmap_of h j) mem \<and>
      free_set (bitmap_of h j) mem = free_set (bitmap_of h j) (m_management_data h)"
    if "j < 7" "j \<noteq> i" for j
  proof -
    have ok: "bitmap_ok (m_end_offset (m_blocks h ! j)) (bitmap_of h j) (m_management_data h)"
      using h that by (simp add: heap_shape_def)
    have "k \<notin> region (bitmap_of h i)" if "k \<in> region (bitmap_of h j)" for k
      using h that i \<open>j < 7\<close> \<open>j \<noteq> i\<close> unfolding heap_shape_def by (metis disjoint_iff)
    with b(3) bitmap_frame [OF ok, of mem] show ?thesis by (auto simp: changes_only_def)
  qed
  have "level_shape ?h j" if "j < 7" for j
    using h that by (auto simp: heap_shape_def level_shape_def at base Let_def)
  moreover have "bitmap_ok (m_end_offset (m_blocks ?h ! j)) (bitmap_of ?h j) mem" if "j < 7" for j
    using other [OF that] b(2) by (auto simp: at)
  moreover have "region (bitmap_of ?h j) = region (bitmap_of h j)" for j
    using same_layout_region [OF b(1)] by (simp add: at)
  ultimately show "heap_shape ?h" using h by (simp add: heap_shape_def)
  show "heap_pages ?h = heap_pages h" by (simp add: heap_pages_def)
  show "free_blocks ?h = (free_blocks h)(i := (\<lambda>k. base h i + k) ` free_set b mem)"
  proof
    fix j
    show "free_blocks ?h j = ((free_blocks h)(i := (\<lambda>k. base h i + k) ` free_set b mem)) j"
      using other [of j] i by (simp add: free_blocks_def at base)
  qed
qed

section \<open>Pushing\<close>

lemma heap_levelD:
  assumes "heap_shape h" "i < 7"
  shows "m_block_shift (m_blocks h ! i) = block_shift i"
    "m_next_block_shift (m_blocks h ! i) = (if i < 6 then block_shift (Suc i) else 0)"
    "blk_heap_address (m_blocks h ! i) = base h i * 2 ^ block_shift i" "0 < base h i"
    "base h i * 2 ^ block_shift i \<le> m_heap_address h"
    "m_heap_address h + m_heap_size h \<le> (base h i + m_end_offset (m_blocks h ! i)) * 2 ^ block_shift i"
    "(base h i + m_end_offset (m_blocks h ! i)) * 2 ^ block_shift i < 2 ^ 64"
    "i < 6 \<Longrightarrow> base h i mod fan i = 0" "i < 6 \<Longrightarrow> m_end_offset (m_blocks h ! i) mod fan i = 0"
    "bitmap_ok (m_end_offset (m_blocks h ! i)) (bitmap_of h i) (m_management_data h)"
    "i < length (m_blocks h)"
  using assms by (auto simp: heap_shape_def level_shape_def Let_def)

lemma buddies_interval: "buddies page_shift i g = {g * fan i..<(g + 1) * fan i}"
  using block_pages_interval [of "\<lambda>_. page_shift (Suc i) - page_shift i" 0 g]
  by (simp add: buddies_def block_pages_def fan_def)

lemma AlignDown_eq: "AlignDown v sz = v div sz * sz"
  by (simp add: AlignDown_def minus_mod_eq_div_mult)

text \<open>The offsets of a group of buddies in the bitmap.\<close>

lemma group_offsets:
  assumes h: "heap_shape h" "i < 6" and a: "base h i \<le> a" "a < base h i + m_end_offset (m_blocks h ! i)"
  defines "k \<equiv> AlignDown (a - base h i) (fan i)" and "g \<equiv> a div fan i"
  shows "base h i + k = g * fan i" "k mod fan i = 0" "k + fan i \<le> m_end_offset (m_blocks h ! i)"
    "(\<lambda>j. base h i + j) ` {k..<k + fan i} = buddies page_shift i g"
    "base h i * 2 ^ block_shift i + k * 2 ^ block_shift i = g * 2 ^ block_shift (Suc i)"
proof -
  have i: "i < 7" using h(2) by simp
  let ?f = "fan i"
  obtain c where c: "base h i = ?f * c" using heap_levelD(8) [OF h(1) i h(2)] by (auto elim!: dvdE)
  obtain e where e: "m_end_offset (m_blocks h ! i) = ?f * e"
    using heap_levelD(9) [OF h(1) i h(2)] by (auto elim!: dvdE)
  have f0: "0 < ?f" by (rule fan_bounds(2) [OF h(2)])
  define x where "x = a - base h i"
  have ax: "a = ?f * c + x" "x < ?f * e" using a c e by (auto simp: x_def)
  have "g = c + x div ?f" using f0 ax by (simp add: g_def div_add1_eq [of "?f * c"])
  moreover have k: "k = x div ?f * ?f" by (simp add: k_def x_def AlignDown_eq)
  ultimately show b: "base h i + k = g * ?f" using c by (simp add: algebra_simps)
  show "k mod ?f = 0" by (simp add: k)
  have "x div ?f < e" using ax(2) f0 by (simp add: div_less_iff_less_mult mult.commute)
  then have "(x div ?f + 1) * ?f \<le> e * ?f" by (intro mult_le_mono1) simp
  then show "k + ?f \<le> m_end_offset (m_blocks h ! i)" by (simp add: k e mult.commute)
  have "(\<lambda>j. base h i + j) ` {k..<k + ?f} = {base h i + k..<base h i + (k + ?f)}"
    by (simp add: add.commute)
  moreover have "base h i + (k + ?f) = (g + 1) * ?f" using b by (simp add: algebra_simps)
  ultimately show "(\<lambda>j. base h i + j) ` {k..<k + ?f} = buddies page_shift i g"
    by (simp only: b buddies_interval)
  have "base h i * 2 ^ block_shift i + k * 2 ^ block_shift i = g * ?f * 2 ^ block_shift i"
    unfolding b [symmetric] by (simp add: algebra_simps)
  then show "base h i * 2 ^ block_shift i + k * 2 ^ block_shift i = g * 2 ^ block_shift (Suc i)"
    using fan_bounds(4) [OF h(2)] by simp
qed

lemma offset_of_address:
  assumes h: "heap_shape h" "i < 7" and a: "base h i \<le> a" "a < base h i + m_end_offset (m_blocks h ! i)"
  shows "sub64 (a * 2 ^ block_shift i) (base h i * 2 ^ block_shift i) div 2 ^ block_shift i = a - base h i"
proof -
  have "a * 2 ^ block_shift i \<le> (base h i + m_end_offset (m_blocks h ! i)) * 2 ^ block_shift i"
    using a(2) by (intro mult_le_mono1) simp
  also have "\<dots> < 2 ^ 64" by (rule heap_levelD(7) [OF h])
  finally have "sub64 (a * 2 ^ block_shift i) (base h i * 2 ^ block_shift i) =
      (a - base h i) * 2 ^ block_shift i"
    using a(1) by (simp add: sub64_eq diff_mult_distrib)
  then show ?thesis by simp
qed

lemma image_base_Diff: "(\<lambda>j. c + j) ` (A - B) = (\<lambda>j. c + j) ` A - (\<lambda>j. c + j) ` B" for c :: nat
  by (rule image_set_diff) simp

lemma image_base_subset: "(\<lambda>j. c + j) ` A \<subseteq> (\<lambda>j. c + j) ` B \<longleftrightarrow> A \<subseteq> B" for c :: nat
  by (rule inj_image_subset_iff) simp

lemma heap_Push_block:
  assumes h: "heap_shape h" "i < 7" and a: "base h i \<le> a" "a < base h i + m_end_offset (m_blocks h ! i)"
    and new: "a \<notin> free_blocks h i"
    and r: "heap_Push (a * 2 ^ block_shift i) i h = (next, h')"
  defines "g \<equiv> a div fan i" and "F \<equiv> free_blocks h"
  shows "heap_shape h'" "heap_pages h' = heap_pages h"
    and "if i < 6 \<and> buddies page_shift i g \<subseteq> insert a (F i)
      then next = g * 2 ^ block_shift (Suc i) \<and> next \<noteq> 0 \<and>
           free_blocks h' = F(i := insert a (F i) - buddies page_shift i g)
      else next = 0 \<and> free_blocks h' = F(i := insert a (F i))"
proof -
  let ?b = "bitmap_of h i" and ?mem = "m_management_data h" and ?n = "m_end_offset (m_blocks h ! i)"
  let ?add = "\<lambda>j. base h i + j"
  note lev = heap_levelD [OF h]
  let ?k = "a - base h i"
  have k: "?k < ?n" "?add ?k = a" using a by auto
  have Fi: "F i = ?add ` free_set ?b ?mem" using h(2) by (simp add: F_def free_blocks_def)
  have "?k \<notin> free_set ?b ?mem" using new k(2) Fi by (force simp: F_def)
  note s = SetBit_set [OF lev(10) k(1) this]
  obtain b1 m1 where s1: "SetBit ?k (?b, ?mem) = (b1, m1)" by fastforce
  note s = s [OF s1]
  have lay1: "same_layout ?b b1" using s(4) by auto
  have ins: "?add ` free_set b1 m1 = insert a (F i)" using s(2) k(2) Fi by simp
  have off: "sub64 (a * 2 ^ block_shift i) (blk_heap_address (m_blocks h ! i)) div 2 ^ block_shift i = ?k"
    using offset_of_address [OF h a] lev(3) by simp
  show "heap_shape h'" "heap_pages h' = heap_pages h"
    and "if i < 6 \<and> buddies page_shift i g \<subseteq> insert a (F i)
      then next = g * 2 ^ block_shift (Suc i) \<and> next \<noteq> 0 \<and>
           free_blocks h' = F(i := insert a (F i) - buddies page_shift i g)
      else next = 0 \<and> free_blocks h' = F(i := insert a (F i))"
  proof -
    have "heap_shape h' \<and> heap_pages h' = heap_pages h \<and>
     (if i < 6 \<and> buddies page_shift i g \<subseteq> insert a (F i)
      then next = g * 2 ^ block_shift (Suc i) \<and> next \<noteq> 0 \<and>
           free_blocks h' = F(i := insert a (F i) - buddies page_shift i g)
      else next = 0 \<and> free_blocks h' = F(i := insert a (F i)))"
    proof (cases "i < 6")
      case False
      then have "next = 0" "h' = put_bitmap i b1 m1 h"
        using r s1 off lev(1,2) by (auto simp: heap_Push_def PushBlock_def put_bitmap_def)
      with put_bitmap_shape [OF h lay1 s(1,3)] ins False show ?thesis by (simp add: F_def)
    next
      case True
      note gr = group_offsets [OF h(1) True a, folded g_def]
      let ?o = "AlignDown ?k (fan i)"
      obtain cl b2 m2 where c: "ClearRange ?o (fan i) (b1, m1) = (cl, b2, m2)" by (metis surj_pair)
      have good: "good_range ?o (fan i)"
        using aligned_in_word [OF True gr(2)] fan_bounds(1,2) [OF True] by (simp add: good_range_def)
      note cr = ClearRange_set [OF s(1) gr(3) good c]
      have diff: "2 ^ (block_shift (Suc i) - block_shift i) = fan i"
        using fan_bounds(5) [OF True] by (simp add: fan_def)
      have run: "next = (if cl then g * 2 ^ block_shift (Suc i) else 0)" "h' = put_bitmap i b2 m2 h"
        using r s1 c off lev(1-3) True diff gr(5)
        by (auto simp: heap_Push_def PushBlock_def put_bitmap_def block_shift_page Let_def)
      have full: "cl \<longleftrightarrow> buddies page_shift i g \<subseteq> insert a (F i)"
        unfolding cr(1) ins [symmetric] gr(4) [symmetric] image_base_subset ..
      show ?thesis
      proof (cases cl)
        case False
        with cr(2) have "b2 = b1" "m2 = m1" by auto
        with run False full put_bitmap_shape [OF h lay1 s(1,3)] ins show ?thesis by (simp add: F_def)
      next
        case cl: True
        note c3 = cr(3) [OF cl]
        have lay2: "same_layout ?b b2" using c3 lay1 same_layout_trans by auto
        have ch: "changes_only ?b ?mem m2"
          using s(3) c3 same_layout_region [OF lay1] by (auto simp: changes_only_def)
        have set: "?add ` free_set b2 m2 = insert a (F i) - buddies page_shift i g"
          using c3 by (simp only: image_base_Diff ins gr(4))
        have "g * 2 ^ block_shift (Suc i) \<noteq> 0" using gr(5) lev(4) by (metis add_gr_0 nat_0_less_mult_iff not_less_zero zero_less_power zero_less_numeral bot_nat_0.not_eq_extremum)
        with run cl full put_bitmap_shape [OF h lay2 _ ch] c3 set True show ?thesis by (simp add: F_def)
      qed
    qed
    then show "heap_shape h'" "heap_pages h' = heap_pages h"
      and "if i < 6 \<and> buddies page_shift i g \<subseteq> insert a (F i)
      then next = g * 2 ^ block_shift (Suc i) \<and> next \<noteq> 0 \<and>
           free_blocks h' = F(i := insert a (F i) - buddies page_shift i g)
      else next = 0 \<and> free_blocks h' = F(i := insert a (F i))" by blast+
  qed
qed

lemma heap_page_address:
  assumes h: "heap_shape h" and p: "p \<in> heap_pages h"
  shows "m_heap_address h \<le> p * PageSize" "p * PageSize < m_heap_address h + m_heap_size h"
proof -
  have al: "m_heap_address h = m_heap_address h div PageSize * PageSize"
    using h by (auto simp: heap_shape_def)
  have "m_heap_address h div PageSize * PageSize \<le> p * PageSize"
    using p by (intro mult_le_mono1) (simp add: heap_pages_def)
  with al show "m_heap_address h \<le> p * PageSize" by simp
  have "(p + 1) * PageSize \<le> (m_heap_address h + m_heap_size h) div PageSize * PageSize"
    using p by (intro mult_le_mono1) (simp add: heap_pages_def)
  also have "\<dots> \<le> m_heap_address h + m_heap_size h" by simp
  finally show "p * PageSize < m_heap_address h + m_heap_size h" by (simp add: PageSize_def)
qed

lemma block_in_bitmap:
  assumes h: "heap_shape h" "i < 7" and a: "block_pages page_shift i a \<subseteq> heap_pages h"
  shows "base h i \<le> a" "a < base h i + m_end_offset (m_blocks h ! i)"
proof -
  have "a * 2 ^ page_shift i \<in> block_pages page_shift i a" by (simp add: block_pages_def)
  with a have "a * 2 ^ page_shift i \<in> heap_pages h" by blast
  note p = heap_page_address [OF h(1) this]
  have e: "a * 2 ^ page_shift i * PageSize = a * 2 ^ block_shift i"
    using block_size_pages [OF h(2)] by simp
  have "base h i * 2 ^ block_shift i \<le> a * 2 ^ block_shift i"
    using p(1) heap_levelD(5) [OF h] unfolding e by linarith
  then show "base h i \<le> a" by simp
  have "a * 2 ^ block_shift i < (base h i + m_end_offset (m_blocks h ! i)) * 2 ^ block_shift i"
    using p(2) heap_levelD(6) [OF h] unfolding e by linarith
  then show "a < base h i + m_end_offset (m_blocks h ! i)" by simp
qed

text \<open>\<open>FreeBlock\<close> adds the pages of the block, whatever it coalesces on the way.\<close>

lemma FreeBlock_adds:
  assumes "heap_ok h" "i < 7" "block_pages page_shift i a \<subseteq> heap_pages h"
    "block_pages page_shift i a \<inter> free_pages h = {}"
  shows "heap_ok (FreeBlock (a * 2 ^ block_shift i) i h) \<and>
    free_pages (FreeBlock (a * 2 ^ block_shift i) i h) = free_pages h \<union> block_pages page_shift i a \<and>
    heap_pages (FreeBlock (a * 2 ^ block_shift i) i h) = heap_pages h"
  using assms
proof (induction "7 - i" arbitrary: i a h)
  case 0
  then show ?case by simp
next
  case (Suc m)
  let ?F = "free_blocks h" and ?g = "a div fan i" and ?P = "block_pages page_shift i a"
  have h: "heap_shape h" and bud: "buddy_ok page_shift 7 ?F" using Suc.prems(1) by (auto simp: heap_ok_def)
  note a = block_in_bitmap [OF h Suc.prems(2,3)]
  have disj: "?P \<inter> free_in page_shift 7 ?F = {}" using Suc.prems(4) by (simp add: free_pages_def)
  have new: "a \<notin> ?F i"
  proof
    assume "a \<in> ?F i"
    then have "a * 2 ^ page_shift i \<in> free_in page_shift 7 ?F"
      using Suc.prems(2) by (auto simp: free_in_def intro!: exI [of _ i])
    moreover have "a * 2 ^ page_shift i \<in> ?P" by (simp add: block_pages_def)
    ultimately show False using disj by blast
  qed
  obtain nxt h' where r: "heap_Push (a * 2 ^ block_shift i) i h = (nxt, h')" by fastforce
  note push = heap_Push_block [OF h Suc.prems(2) a new r]
  have run: "FreeBlock (a * 2 ^ block_shift i) i h = (if nxt \<noteq> 0 then FreeBlock nxt (Suc i) h' else h')"
    using r heap_levelD(11) [OF h Suc.prems(2)] by (simp add: FreeBlock.simps [of "a * 2 ^ block_shift i"])
  show ?case
  proof (cases "i < 6 \<and> buddies page_shift i ?g \<subseteq> insert a (?F i)")
    case True
    then have i: "Suc i < 7" by simp
    note cg = sizes.complete_group [OF bud i disj, folded fan_def, OF conjunct2 [OF True]]
    have F': "free_blocks h' = ?F(i := insert a (?F i) - buddies page_shift i ?g)"
      and n: "nxt = ?g * 2 ^ block_shift (Suc i)" "nxt \<noteq> 0" using push(3) True by auto
    have heap': "block_pages page_shift (Suc i) ?g \<subseteq> heap_pages h'"
      using cg(4) Suc.prems(1,3) push(2) by (auto simp: heap_ok_def free_pages_def)
    have ok': "heap_ok h'"
      using push(1,2) cg(1,3) Suc.prems(1,3) unfolding heap_ok_def free_pages_def F' by blast
    have "heap_ok (FreeBlock (?g * 2 ^ block_shift (Suc i)) (Suc i) h') \<and>
      free_pages (FreeBlock (?g * 2 ^ block_shift (Suc i)) (Suc i) h') =
        free_pages h' \<union> block_pages page_shift (Suc i) ?g \<and>
      heap_pages (FreeBlock (?g * 2 ^ block_shift (Suc i)) (Suc i) h') = heap_pages h'"
      by (rule Suc.hyps(1)) (use Suc.hyps(2) ok' heap' cg(2) i F' in \<open>auto simp: free_pages_def\<close>)
    moreover have "free_pages h' \<union> block_pages page_shift (Suc i) ?g = free_pages h \<union> ?P"
      using cg(3) by (simp add: free_pages_def F')
    ultimately show ?thesis using run n push(2) by simp
  next
    case False
    then have F': "free_blocks h' = ?F(i := insert a (?F i))" and n: "nxt = 0"
      using push(3) by (auto split: if_splits)
    have "\<not> buddies page_shift i (a div 2 ^ (page_shift (Suc i) - page_shift i)) \<subseteq> insert a (?F i)"
      if "Suc i < 7"
      using False that by (simp add: fan_def)
    note ab = sizes.add_block [OF bud Suc.prems(2) disj this]
    have "free_pages h' = free_pages h \<union> ?P" using ab(2) by (simp add: free_pages_def F')
    with ab(1) push(1,2) Suc.prems(1,3) run n show ?thesis
      by (auto simp: heap_ok_def F')
  qed
qed

section \<open>Popping\<close>

lemma free_pages_mono_block: "i < 7 \<Longrightarrow> a \<in> free_blocks h i \<Longrightarrow> block_pages page_shift i a \<subseteq> free_pages h"
  by (auto simp: free_pages_def free_in_def block_pages_def)

lemma heap_Pop_block:
  assumes h: "heap_ok h" and i: "i < 7" and r: "heap_Pop random i h = (addr, h')"
  shows "if free_blocks h i = {} then addr = 0 \<and> free_pages h' = free_pages h
      else \<exists>a. addr = a * 2 ^ block_shift i \<and> addr \<noteq> 0 \<and> a \<in> free_blocks h i \<and>
        (random \<or> a = Min (free_blocks h i)) \<and>
        block_pages page_shift i a \<subseteq> free_pages h \<and>
        free_pages h' = free_pages h - block_pages page_shift i a"
    "heap_ok h'" "heap_pages h' = heap_pages h" "free_blocks h i = {} \<Longrightarrow> free_blocks h' = free_blocks h"
    "h_rng h' = h_rng h"
proof -
  let ?b = "bitmap_of h i" and ?mem = "m_management_data h" and ?n = "m_end_offset (m_blocks h ! i)"
  have shape: "heap_shape h" and bud: "buddy_ok page_shift 7 (free_blocks h)"
    using h by (auto simp: heap_ok_def)
  note lev = heap_levelD [OF shape i]
  have Fi: "free_blocks h i = (\<lambda>k. base h i + k) ` free_set ?b ?mem" using i by (simp add: free_blocks_def)
  obtain k b1 where f: "FindFreeBlock random (?b, ?mem) = (k, b1)" by fastforce
  note ff = FindFreeBlock_free [OF lev(10) f]
  obtain g where b1: "b1 = ?b\<lparr>bm_rng := g\<rparr>" using ff(2) by blast
  have "(if free_blocks h i = {} then addr = 0 \<and> free_pages h' = free_pages h
      else \<exists>a. addr = a * 2 ^ block_shift i \<and> addr \<noteq> 0 \<and> a \<in> free_blocks h i \<and>
        (random \<or> a = Min (free_blocks h i)) \<and> block_pages page_shift i a \<subseteq> free_pages h \<and>
        free_pages h' = free_pages h - block_pages page_shift i a) \<and> heap_ok h' \<and>
        heap_pages h' = heap_pages h \<and> (free_blocks h i = {} \<longrightarrow> free_blocks h' = free_blocks h) \<and>
        h_rng h' = h_rng h"
  proof (cases "free_set ?b ?mem = {}")
    case True
    then have k: "k = -1" using ff(1) by simp
    then have r': "addr = 0" "h' = put_bitmap i b1 ?mem h"
      using r f by (auto simp: heap_Pop_def PopBlock_def put_bitmap_def)
    have "bitmap_ok ?n b1 ?mem" "same_layout ?b b1" using lev(10) by (simp_all add: b1)
    note put = put_bitmap_shape [OF shape i this(2,1), simplified]
    have "free_blocks h' = free_blocks h" using put(2) Fi by (simp add: r' b1 fun_upd_idem)
    with put(1,3) h True Fi r' show ?thesis
      by (simp add: heap_ok_def free_pages_def) (simp add: put_bitmap_def)
  next
    case False
    then have k: "0 \<le> k" "nat k \<in> free_set ?b ?mem" using ff(1) by auto
    have ok1: "bitmap_ok ?n b1 ?mem" "free_set b1 ?mem = free_set ?b ?mem" using lev(10) by (simp_all add: b1)
    obtain b2 m2 where c: "ClearBit (nat k) (b1, ?mem) = (b2, m2)" by fastforce
    note cb = ClearBit_set [OF ok1(1) _ c, unfolded ok1(2), OF k(2)]
    let ?a = "base h i + nat k"
    have r': "addr = ?a * 2 ^ block_shift i" "h' = put_bitmap i b2 m2 h"
      using r f c k(1) lev(1,3)
      by (auto simp: heap_Pop_def PopBlock_def put_bitmap_def algebra_simps)
    have lay: "same_layout ?b b2" using cb(4) by (auto simp: b1 same_layout_def)
    have ch: "changes_only ?b ?mem m2" using cb(3) by (simp add: b1 changes_only_def)
    have aF: "?a \<in> free_blocks h i" using k(2) Fi by simp
    have "free_blocks h' = (free_blocks h)(i := free_blocks h i - {?a})"
      using put_bitmap_shape(2) [OF shape i lay cb(1) ch] cb(2) image_base_Diff [of "base h i" _ "{nat k}"]
      by (simp add: r' Fi)
    moreover note rb = sizes.remove_block [OF bud i aF]
    ultimately have fp: "free_pages h' = free_pages h - block_pages page_shift i ?a" "heap_ok h'"
      using put_bitmap_shape(1,3) [OF shape i lay cb(1) ch] h
      by (auto simp: heap_ok_def free_pages_def r')
    have "?a = Min (free_blocks h i)" if "\<not> random"
    proof -
      have "k = int (Min (free_set ?b ?mem))" using ff(3) that False by simp
      then have "nat k = Min (free_set ?b ?mem)" by simp
      moreover have "Min ((\<lambda>k. base h i + k) ` free_set ?b ?mem) = base h i + Min (free_set ?b ?mem)"
        using bitmap_okD(5) [OF lev(10)] False by (intro mono_Min_commute [symmetric]) (auto simp: mono_def)
      ultimately show ?thesis by (simp add: Fi)
    qed
    moreover have "addr \<noteq> 0" using r'(1) lev(4) by simp
    moreover have "heap_pages h' = heap_pages h" by (simp add: r' heap_pages_def)
    moreover have "h_rng h' = h_rng h" by (simp add: r' put_bitmap_def)
    ultimately show ?thesis
      using fp aF free_pages_mono_block [OF i aF] r'(1) by (auto intro!: exI [of _ ?a])
  qed
  then show "if free_blocks h i = {} then addr = 0 \<and> free_pages h' = free_pages h
      else \<exists>a. addr = a * 2 ^ block_shift i \<and> addr \<noteq> 0 \<and> a \<in> free_blocks h i \<and>
        (random \<or> a = Min (free_blocks h i)) \<and>
        block_pages page_shift i a \<subseteq> free_pages h \<and>
        free_pages h' = free_pages h - block_pages page_shift i a"
    "heap_ok h'" "heap_pages h' = heap_pages h" "free_blocks h i = {} \<Longrightarrow> free_blocks h' = free_blocks h"
    "h_rng h' = h_rng h" by blast+
qed

section \<open>Freeing a range\<close>

text \<open>The heap has become \<open>h'\<close> by adding the pages \<open>R\<close> to the free ones.\<close>

definition adds :: "nat set \<Rightarrow> KPageHeap \<Rightarrow> KPageHeap \<Rightarrow> bool" where
  "adds R h h' \<longleftrightarrow> heap_ok h' \<and> free_pages h' = free_pages h \<union> R \<and> heap_pages h' = heap_pages h"

lemma adds_trans: "adds R h h' \<Longrightarrow> adds R' h' h'' \<Longrightarrow> adds (R \<union> R') h h''"
  by (auto simp: adds_def)

lemma adds_none: "heap_ok h \<Longrightarrow> adds {} h h"
  by (simp add: adds_def)

text \<open>Pages that can be freed: in the heap, and not free.\<close>

definition freeable :: "nat set \<Rightarrow> KPageHeap \<Rightarrow> bool" where
  "freeable R h \<longleftrightarrow> heap_ok h \<and> R \<subseteq> heap_pages h \<and> R \<inter> free_pages h = {}"

lemma freeable_adds: "adds R h h' \<Longrightarrow> freeable (R \<union> R') h \<Longrightarrow> R \<inter> R' = {} \<Longrightarrow> freeable R' h'"
  by (auto simp: adds_def freeable_def)

lemma freeable_subset: "freeable R h \<Longrightarrow> R' \<subseteq> R \<Longrightarrow> freeable R' h"
  by (auto simp: freeable_def)

lemma FreeBlock_page:
  assumes "freeable (block_pages page_shift i a) h" "i < 7"
  shows "adds (block_pages page_shift i a) h (FreeBlock (a * 2 ^ block_shift i) i h)"
  using FreeBlock_adds [of h i a] assms by (simp add: freeable_def adds_def)

lemma block_size: "heap_ok h \<Longrightarrow> i < 7 \<Longrightarrow> blk_GetSize (m_blocks h ! i) = 2 ^ block_shift i"
  using heap_levelD(1) [of h i] by (simp add: blk_GetSize_def heap_ok_def)

lemma page_size_cancel: "a * PageSize \<le> c * PageSize \<longleftrightarrow> a \<le> c"
  by (simp add: PageSize_def)

lemma interval_join:
  fixes a b c :: nat
  assumes "a \<le> b" "b \<le> c"
  shows "{a..<b} \<union> {b..<c} = {a..<c}" "{b..<c} \<union> {a..<b} = {a..<c}"
  using assms by auto

lemma free_forward_adds:
  assumes "x \<le> y" "i < 7" "freeable {x * 2 ^ page_shift i..<y * 2 ^ page_shift i} h"
  shows "adds {x * 2 ^ page_shift i..<y * 2 ^ page_shift i} h
    (free_forward (2 ^ block_shift i) i (x * 2 ^ block_shift i) (y * 2 ^ block_shift i) h)"
  using assms
proof (induction "y - x" arbitrary: x h)
  case 0
  then show ?case by (simp add: free_forward.simps adds_none freeable_def)
next
  case (Suc m)
  let ?p = "2 ^ page_shift i :: nat" and ?b = "2 ^ block_shift i :: nat"
  let ?h = "FreeBlock (x * ?b) i h"
  have less: "x < y" using Suc.hyps(2) by simp
  have le: "(x + 1) * ?p \<le> y * ?p" using less by (intro mult_le_mono1) simp
  have split: "{x * ?p..<y * ?p} = block_pages page_shift i x \<union> {(x + 1) * ?p..<y * ?p}"
    "block_pages page_shift i x \<inter> {(x + 1) * ?p..<y * ?p} = {}"
    using le by (auto simp: block_pages_interval)
  have 1: "adds (block_pages page_shift i x) h ?h"
    using Suc.prems(2,3) split(1) by (intro FreeBlock_page) (auto intro: freeable_subset)
  have "freeable {(x + 1) * ?p..<y * ?p} ?h"
    using freeable_adds [OF 1 _ split(2)] Suc.prems(3) split(1) by simp
  then have 2: "adds {(x + 1) * ?p..<y * ?p} ?h (free_forward ?b i ((x + 1) * ?b) (y * ?b) ?h)"
    using Suc.hyps(1) [of "x + 1" ?h] Suc.hyps(2) Suc.prems(2) less by simp
  have "free_forward ?b i (x * ?b) (y * ?b) h = free_forward ?b i ((x + 1) * ?b) (y * ?b) ?h"
    using less by (subst free_forward.simps) (simp add: add.commute)
  with adds_trans [OF 1 2] show ?case unfolding split(1) by simp
qed

lemma free_before_level_adds:
  assumes "i < 7" "s \<le> x * 2 ^ page_shift i" "freeable {s..<x * 2 ^ page_shift i} h"
  shows "\<exists>x' h'. free_before_level (2 ^ block_shift i) i (s * PageSize) (x * 2 ^ block_shift i) h =
      (x' * 2 ^ block_shift i, h') \<and> s \<le> x' * 2 ^ page_shift i \<and> x' * 2 ^ page_shift i < s + 2 ^ page_shift i \<and>
      x' \<le> x \<and> adds {x' * 2 ^ page_shift i..<x * 2 ^ page_shift i} h h'"
  using assms
proof (induction x arbitrary: h)
  case 0
  have "0 < PageSize" by (simp add: PageSize_def)
  with 0 show ?case
    by (intro exI [of _ 0] exI [of _ h])
      (simp add: free_before_level.simps adds_none freeable_def)
next
  case (Suc x)
  let ?p = "2 ^ page_shift i :: nat" and ?b = "2 ^ block_shift i :: nat"
  have b: "?b = ?p * PageSize" by (rule block_size_pages [OF Suc.prems(1)])
  have cond: "s * PageSize + ?b \<le> Suc x * ?b \<longleftrightarrow> s \<le> x * ?p"
  proof -
    have "s * PageSize + ?b \<le> Suc x * ?b \<longleftrightarrow> s * PageSize \<le> x * ?p * PageSize"
      unfolding b by (simp add: mult.assoc)
    also have "\<dots> \<longleftrightarrow> s \<le> x * ?p" by (rule page_size_cancel)
    finally show ?thesis .
  qed
  show ?case
  proof (cases "s \<le> x * ?p")
    case False
    then have "free_before_level ?b i (s * PageSize) (Suc x * ?b) h = (Suc x * ?b, h)"
      using cond by (subst free_before_level.simps) simp
    with False Suc.prems show ?thesis
      by (intro exI [of _ "Suc x"] exI [of _ h]) (simp add: adds_none freeable_def)
  next
    case True
    let ?h = "FreeBlock (x * ?b) i h"
    have split: "{s..<Suc x * ?p} = block_pages page_shift i x \<union> {s..<x * ?p}"
      "block_pages page_shift i x \<inter> {s..<x * ?p} = {}"
      using True by (auto simp: block_pages_interval)
    have 1: "adds (block_pages page_shift i x) h ?h"
      using Suc.prems(1,3) split(1) by (intro FreeBlock_page) (auto intro: freeable_subset)
    have "freeable {s..<x * ?p} ?h"
      using freeable_adds [OF 1 _ split(2)] Suc.prems(3) split(1) by simp
    from Suc.IH [OF Suc.prems(1) True this] obtain x' h' where
      IH: "free_before_level ?b i (s * PageSize) (x * ?b) ?h = (x' * ?b, h')" "s \<le> x' * ?p"
        "x' * ?p < s + ?p" "x' \<le> x" "adds {x' * ?p..<x * ?p} ?h h'" by blast
    have "free_before_level ?b i (s * PageSize) (Suc x * ?b) h =
        free_before_level ?b i (s * PageSize) (x * ?b) ?h"
      using cond True by (subst free_before_level.simps) simp
    moreover have "x' * ?p \<le> x * ?p" using IH(4) by (rule mult_le_mono1)
    then have "block_pages page_shift i x \<union> {x' * ?p..<x * ?p} = {x' * ?p..<Suc x * ?p}"
      using interval_join(2) [of "x' * ?p" "x * ?p" "Suc x * ?p"] by (simp add: block_pages_interval)
    ultimately show ?thesis using IH adds_trans [OF 1 IH(5)] by (intro exI [of _ x'] exI [of _ h']) simp
  qed
qed

lemma free_after_level_adds:
  assumes "i < 7" "x * 2 ^ page_shift i \<le> e" "freeable {x * 2 ^ page_shift i..<e} h"
  shows "\<exists>x' h'. free_after_level (2 ^ block_shift i) i (x * 2 ^ block_shift i) (e * PageSize) h =
      (x' * 2 ^ block_shift i, h') \<and> x' * 2 ^ page_shift i \<le> e \<and> e < x' * 2 ^ page_shift i + 2 ^ page_shift i \<and>
      x \<le> x' \<and> adds {x * 2 ^ page_shift i..<x' * 2 ^ page_shift i} h h'"
  using assms
proof (induction "e - x * 2 ^ page_shift i" arbitrary: x h rule: less_induct)
  case less
  let ?p = "2 ^ page_shift i :: nat" and ?b = "2 ^ block_shift i :: nat"
  have b: "?b = ?p * PageSize" by (rule block_size_pages [OF less.prems(1)])
  have cond: "x * ?b + ?b \<le> e * PageSize \<longleftrightarrow> (x + 1) * ?p \<le> e"
  proof -
    have "x * ?b + ?b \<le> e * PageSize \<longleftrightarrow> (x + 1) * ?p * PageSize \<le> e * PageSize"
      unfolding b by (simp add: algebra_simps)
    also have "\<dots> \<longleftrightarrow> (x + 1) * ?p \<le> e" by (rule page_size_cancel)
    finally show ?thesis .
  qed
  show ?case
  proof (cases "(x + 1) * ?p \<le> e")
    case False
    then have "free_after_level ?b i (x * ?b) (e * PageSize) h = (x * ?b, h)"
      using cond by (subst free_after_level.simps) simp
    with False less.prems show ?thesis
      by (intro exI [of _ x] exI [of _ h]) (simp add: adds_none freeable_def)
  next
    case True
    let ?h = "FreeBlock (x * ?b) i h"
    have split: "{x * ?p..<e} = block_pages page_shift i x \<union> {(x + 1) * ?p..<e}"
      "block_pages page_shift i x \<inter> {(x + 1) * ?p..<e} = {}"
      using True by (auto simp: block_pages_interval)
    have 1: "adds (block_pages page_shift i x) h ?h"
      using less.prems(1,3) split(1) by (intro FreeBlock_page) (auto intro: freeable_subset)
    have fr: "freeable {(x + 1) * ?p..<e} ?h"
      using freeable_adds [OF 1 _ split(2)] less.prems(3) split(1) by simp
    have "x * ?p < (x + 1) * ?p" by simp
    then have "e - (x + 1) * ?p < e - x * ?p" using True by (intro diff_less_mono2) linarith+
    from less.hyps [OF this less.prems(1) True fr] obtain x' h' where
      IH: "free_after_level ?b i ((x + 1) * ?b) (e * PageSize) ?h = (x' * ?b, h')" "x' * ?p \<le> e"
        "e < x' * ?p + ?p" "x + 1 \<le> x'" "adds {(x + 1) * ?p..<x' * ?p} ?h h'" by blast
    have "free_after_level ?b i (x * ?b) (e * PageSize) h =
        free_after_level ?b i ((x + 1) * ?b) (e * PageSize) ?h"
      using cond True by (subst free_after_level.simps) (simp add: add.commute)
    moreover have "(x + 1) * ?p \<le> x' * ?p" using IH(4) by (intro mult_le_mono1)
    then have "block_pages page_shift i x \<union> {(x + 1) * ?p..<x' * ?p} = {x * ?p..<x' * ?p}"
      using interval_join(1) [of "x * ?p" "(x + 1) * ?p" "x' * ?p"] by (simp add: block_pages_interval)
    ultimately show ?thesis using IH adds_trans [OF 1 IH(5)] by (intro exI [of _ x'] exI [of _ h']) simp
  qed
qed

lemma level_dvd:
  assumes "i \<le> j" "j < 7" "2 ^ page_shift j dvd (t::nat)"
  shows "2 ^ page_shift i dvd t"
  using sizes.mono_le [OF assms(1,2)] assms(3) by (meson dvd_trans le_imp_power_dvd)

lemma free_before_adds:
  assumes "c \<le> 7" "s \<le> t" "c = 0 \<Longrightarrow> t = s" "0 < c \<Longrightarrow> 2 ^ page_shift (c - 1) dvd t" "freeable {s..<t} h"
  shows "adds {s..<t} h (free_before c (s * PageSize) (t * PageSize) h)"
  using assms
proof (induction c arbitrary: t h)
  case 0
  then show ?case by (simp add: adds_none freeable_def)
next
  case (Suc i)
  let ?p = "2 ^ page_shift i :: nat" and ?b = "2 ^ block_shift i :: nat"
  have i: "i < 7" using Suc.prems(1) by simp
  have b: "?b = ?p * PageSize" by (rule block_size_pages [OF i])
  obtain x where x: "t = x * ?p" using Suc.prems(4) by (auto elim!: dvdE)
  obtain x' h' where l: "free_before_level ?b i (s * PageSize) (x * ?b) h = (x' * ?b, h')"
    "s \<le> x' * ?p" "x' * ?p < s + ?p" "x' \<le> x" "adds {x' * ?p..<x * ?p} h h'"
    using free_before_level_adds [OF i, of s x h] Suc.prems(2,5) unfolding x by blast
  have le: "x' * ?p \<le> x * ?p" using l(4) by (rule mult_le_mono1)
  have split: "{x' * ?p..<t} \<union> {s..<x' * ?p} = {s..<t}" "{x' * ?p..<t} \<inter> {s..<x' * ?p} = {}"
    using l(2) le x interval_join(2) [of s "x' * ?p" t] by auto
  have fr: "freeable {s..<x' * ?p} h'"
    using freeable_adds [OF l(5) _ split(2) [unfolded x]] Suc.prems(5) split(1) x by simp
  have "adds {s..<x' * ?p} h' (free_before i (s * PageSize) (x' * ?p * PageSize) h')"
  proof (rule Suc.IH [OF _ l(2) _ _ fr])
    show "x' * ?p = s" if "i = 0" using l(2,3) that by (simp add: page_shift_table)
    show "2 ^ page_shift (i - 1) dvd x' * ?p" if "0 < i"
      by (rule level_dvd [of "i - 1" i]) (use i in simp_all)
  qed (use i in simp)
  from adds_trans [OF l(5)] this split(1) x have "adds {s..<t} h (free_before i (s * PageSize) (x' * ?p * PageSize) h')"
    by metis
  moreover have "free_before (Suc i) (s * PageSize) (t * PageSize) h =
      free_before i (s * PageSize) (x' * ?p * PageSize) h'"
    using l(1) block_size [OF _ i, of h] Suc.prems(5) b by (simp add: x freeable_def mult.assoc)
  ultimately show ?case by simp
qed

lemma free_after_adds:
  assumes "c \<le> 7" "t \<le> e" "c = 0 \<Longrightarrow> t = e" "0 < c \<Longrightarrow> 2 ^ page_shift (c - 1) dvd t" "freeable {t..<e} h"
  shows "adds {t..<e} h (free_after c (t * PageSize) (e * PageSize) h)"
  using assms
proof (induction c arbitrary: t h)
  case 0
  then show ?case by (simp add: adds_none freeable_def)
next
  case (Suc i)
  let ?p = "2 ^ page_shift i :: nat" and ?b = "2 ^ block_shift i :: nat"
  have i: "i < 7" using Suc.prems(1) by simp
  have b: "?b = ?p * PageSize" by (rule block_size_pages [OF i])
  obtain x where x: "t = x * ?p" using Suc.prems(4) by (auto elim!: dvdE)
  obtain x' h' where l: "free_after_level ?b i (x * ?b) (e * PageSize) h = (x' * ?b, h')"
    "x' * ?p \<le> e" "e < x' * ?p + ?p" "x \<le> x'" "adds {x * ?p..<x' * ?p} h h'"
    using free_after_level_adds [OF i, of x e h] Suc.prems(2,5) unfolding x by blast
  have le: "x * ?p \<le> x' * ?p" using l(4) by (rule mult_le_mono1)
  have split: "{t..<x' * ?p} \<union> {x' * ?p..<e} = {t..<e}" "{t..<x' * ?p} \<inter> {x' * ?p..<e} = {}"
    using l(2) le x interval_join(1) [of t "x' * ?p" e] by auto
  have fr: "freeable {x' * ?p..<e} h'"
    using freeable_adds [OF l(5) _ split(2) [unfolded x]] Suc.prems(5) split(1) x by simp
  have "adds {x' * ?p..<e} h' (free_after i (x' * ?p * PageSize) (e * PageSize) h')"
  proof (rule Suc.IH [OF _ l(2) _ _ fr])
    show "x' * ?p = e" if "i = 0" using l(2,3) that by (simp add: page_shift_table)
    show "2 ^ page_shift (i - 1) dvd x' * ?p" if "0 < i"
      by (rule level_dvd [of "i - 1" i]) (use i in simp_all)
  qed (use i in simp)
  from adds_trans [OF l(5)] this split(1) x have "adds {t..<e} h (free_after i (x' * ?p * PageSize) (e * PageSize) h')"
    by metis
  moreover have "free_after (Suc i) (t * PageSize) (e * PageSize) h =
      free_after i (x' * ?p * PageSize) (e * PageSize) h'"
    using l(1) block_size [OF _ i, of h] Suc.prems(5) b by (simp add: x freeable_def mult.assoc)
  ultimately show ?case by simp
qed

lemma AlignUp_bounds:
  assumes "0 < m" "v + m < 2 ^ 64"
  shows "v \<le> AlignUp v m" "m dvd AlignUp v m" "AlignUp v m < v + m"
proof -
  have d: "v div m * m + v mod m = v" "v mod m < m" using assms(1) by simp_all
  have "add64 (v div m * m) m = v div m * m + m" using d assms(2) by (intro add64_eq) linarith
  then have "AlignUp v m = (if v mod m = 0 then v else v div m * m + m)"
    by (simp add: AlignUp_def minus_mod_eq_div_mult)
  note eq = this
  show "m dvd AlignUp v m" unfolding eq by (simp add: dvd_eq_mod_eq_0)
  have lt: "v mod m \<noteq> 0 \<longrightarrow> v div m * m < v" using d(1) by linarith
  have "v \<le> v div m * m + m" using d by linarith
  then show "v \<le> AlignUp v m" unfolding eq by simp
  show "AlignUp v m < v + m" unfolding eq using lt assms(1) by simp
qed

lemma find_big_spec:
  assumes h: "heap_ok h" and c: "c \<le> 7" and se: "s < e" "e * PageSize + 2 ^ 30 < 2 ^ 64"
  shows "case find_big c (s * PageSize) (e * PageSize) h of
      None \<Rightarrow> c = 0
    | Some (i, u, v) \<Rightarrow> i < c \<and> (\<exists>x y. u = x * 2 ^ block_shift i \<and> v = y * 2 ^ block_shift i \<and> x < y \<and>
        s \<le> x * 2 ^ page_shift i \<and> y * 2 ^ page_shift i \<le> e \<and>
        (i = 0 \<longrightarrow> s = x * 2 ^ page_shift i \<and> e = y * 2 ^ page_shift i))"
  using c
proof (induction c)
  case 0
  then show ?case by simp
next
  case (Suc i)
  let ?p = "2 ^ page_shift i :: nat" and ?b = "2 ^ block_shift i :: nat"
  have i: "i < 7" using Suc.prems by simp
  have b: "?b = ?p * PageSize" by (rule block_size_pages [OF i])
  have ps: "page_shift i \<le> 18" using sizes.mono_le [of i 6] i by (simp add: page_shift_table)
  have "(2::nat) ^ block_shift i \<le> 2 ^ 30" using ps block_shift_page [OF i] by (intro power_increasing) simp_all
  moreover have "s * PageSize \<le> e * PageSize" using se(1) by simp
  ultimately have fit: "s * PageSize + ?b < 2 ^ 64" using se(2) by linarith
  note up = AlignUp_bounds [OF _ fit, simplified]
  obtain x where x: "AlignUp (s * PageSize) ?b = x * ?b" using up(2) by (auto elim!: dvdE)
  define y where "y = e * PageSize div ?b"
  have y: "AlignDown (e * PageSize) ?b = y * ?b" by (simp add: AlignDown_eq y_def)
  have "s * PageSize \<le> x * ?p * PageSize" using up(1) x b by (simp add: mult.assoc)
  then have sx: "s \<le> x * ?p" by (simp only: page_size_cancel)
  have "y * ?p * PageSize \<le> e * PageSize" by (simp add: y_def b [symmetric] mult.assoc)
  then have ye: "y * ?p \<le> e" by (simp only: page_size_cancel)
  have zero: "s = x * ?p \<and> e = y * ?p" if "i = 0"
  proof -
    have "?b = PageSize" "?p = 1" using that b by (simp_all add: page_shift_table)
    moreover have "AlignUp (s * PageSize) PageSize = s * PageSize" by (simp add: AlignUp_def)
    ultimately have "x * PageSize = s * PageSize" using x by metis
    then have "x = s" by (simp add: PageSize_def)
    moreover have "y = e" using y_def \<open>?b = PageSize\<close> by (simp add: PageSize_def)
    ultimately show ?thesis using \<open>?p = 1\<close> by simp
  qed
  have run: "find_big (Suc i) (s * PageSize) (e * PageSize) h =
      (if x * ?b < y * ?b then Some (i, x * ?b, y * ?b) else find_big i (s * PageSize) (e * PageSize) h)"
    using block_size [OF h i] x y by (simp add: Let_def)
  show ?case
  proof (cases "x < y")
    case True
    with sx ye zero show ?thesis unfolding run by auto
  next
    case False
    have "i \<noteq> 0"
    proof
      assume "i = 0"
      then have "s = x" "e = y" using zero by (simp_all add: page_shift_table)
      with False se(1) show False by simp
    qed
    with Suc.IH Suc.prems False show ?thesis
      unfolding run by (auto split: option.splits intro: less_SucI)
  qed
qed

text \<open>\<open>Free\<close> gives back exactly the pages of the range.\<close>

lemma heap_Free_adds:
  assumes fr: "freeable {s..<s + n} h"
  shows "adds {s..<s + n} h (heap_Free (s * PageSize) n h)"
proof (cases "n = 0")
  case True
  with fr show ?thesis by (simp add: heap_Free_def adds_none freeable_def)
next
  case False
  let ?e = "s + n"
  have h: "heap_ok h" and sub: "{s..<?e} \<subseteq> heap_pages h" using fr by (auto simp: freeable_def)
  have shape: "heap_shape h" using h by (simp add: heap_ok_def)
  have "?e - 1 \<in> heap_pages h" using sub False by auto
  then have "?e \<le> (m_heap_address h + m_heap_size h) div PageSize" using False by (auto simp: heap_pages_def)
  then have "?e * PageSize \<le> (m_heap_address h + m_heap_size h) div PageSize * PageSize"
    by (rule mult_le_mono1)
  also have "\<dots> \<le> m_heap_address h + m_heap_size h" by simp
  finally have fit: "?e * PageSize + 2 ^ 30 < 2 ^ 64" using shape by (simp add: heap_shape_def)
  have n7: "m_num_blocks h = 7" using shape by (simp add: heap_shape_def)
  obtain i x y where big: "find_big 7 (s * PageSize) (?e * PageSize) h =
      Some (i, x * 2 ^ block_shift i, y * 2 ^ block_shift i)" "i < 7" "x < y"
      "s \<le> x * 2 ^ page_shift i" "y * 2 ^ page_shift i \<le> ?e"
      "i = 0 \<Longrightarrow> s = x * 2 ^ page_shift i \<and> ?e = y * 2 ^ page_shift i"
    using find_big_spec [OF h, of 7 s ?e] False fit by (auto split: option.splits)
  let ?p = "2 ^ page_shift i :: nat" and ?b = "2 ^ block_shift i :: nat"
  have b: "z * ?b = z * ?p * PageSize" for z using block_size_pages [OF big(2)] by simp
  have xy: "x * ?p \<le> y * ?p" using big(3) by (intro mult_le_mono1) simp
  let ?h1 = "free_forward ?b i (x * ?b) (y * ?b) h"
  have 1: "adds {x * ?p..<y * ?p} h ?h1"
    using big(2-5) by (intro free_forward_adds) (auto intro!: freeable_subset [OF fr])
  have xe: "x * ?p \<le> ?e" "s \<le> y * ?p" using xy big(4,5) by linarith+
  have fr1: "freeable {s..<x * ?p} ?h1"
    by (rule freeable_adds [OF 1], rule freeable_subset [OF fr]) (use big(4,5) xe in auto)
  have dvd: "2 ^ page_shift (i - 1) dvd z * ?p" for z
    using level_dvd [of "i - 1" i "z * ?p"] big(2) by simp
  let ?h2 = "free_before i (s * PageSize) (x * ?p * PageSize) ?h1"
  have 2: "adds {s..<x * ?p} ?h1 ?h2"
    using big(2,4,6) dvd by (intro free_before_adds fr1) auto
  have 12: "adds {s..<y * ?p} h ?h2"
    using adds_trans [OF 1 2] interval_join(2) [OF big(4) xy] by simp
  have fr2: "freeable {y * ?p..<?e} ?h2"
    by (rule freeable_adds [OF 12], rule freeable_subset [OF fr]) (use big(4,5) xe in auto)
  have 3: "adds {y * ?p..<?e} ?h2 (free_after i (y * ?p * PageSize) (?e * PageSize) ?h2)"
    using big(2,5,6) dvd by (intro free_after_adds fr2) auto
  from adds_trans [OF 12 3] interval_join(1) [OF xe(2) big(5)]
  have "adds {s..<?e} h (free_after i (y * ?p * PageSize) (?e * PageSize) ?h2)" by simp
  moreover have "heap_Free (s * PageSize) n h = free_after i (y * ?p * PageSize) (?e * PageSize) ?h2"
    using False big(1) block_size [OF h big(2)]
    by (simp add: heap_Free_def n7 b [symmetric] add_mult_distrib [symmetric])
  ultimately show ?thesis by simp
qed

end
