(* ===== verification/Page_Heap_Alloc.thy ===== *)
theory Page_Heap_Alloc
  imports Page_Heap_Levels
begin

text \<open>
  Allocation from the page heap, in terms of the set of free pages: the count of free pages, the
  search for the first size with a free block, and the random choice of a size and of a position in
  a block.
\<close>

section \<open>Counting\<close>

lemma GetNumFreePages_card:
  assumes h: "heap_ok h"
  shows "GetNumFreePages h = card (free_pages h)"
proof -
  have shape: "heap_shape h" and bud: "buddy_ok page_shift 7 (free_blocks h)" using h by (auto simp: heap_ok_def)
  let ?P = "\<lambda>i. {p. p div 2 ^ page_shift i \<in> free_blocks h i}"
  have lev: "card (?P i) = blk_GetNumFreePages (m_blocks h ! i) \<and> finite (?P i)" if i: "i < 7" for i
  proof -
    note l = heap_levelD [OF shape i]
    let ?S = "free_set (bitmap_of h i) (m_management_data h)"
    have F: "free_blocks h i = (\<lambda>k. base h i + k) ` ?S" using i by (simp add: free_blocks_def)
    have fin: "finite (free_blocks h i)" using bitmap_okD(5) [OF l(10)] F by simp
    have "card (free_blocks h i) = card ?S" unfolding F by (intro card_image) (simp add: inj_on_def)
    then have c: "card (free_blocks h i) = GetNumFreeBlocks (m_blocks h ! i)"
      using bitmap_okD(6) [OF l(10)] by (simp add: GetNumFreeBlocks_def)
    have U: "?P i = (\<Union>a\<in>free_blocks h i. block_pages page_shift i a)" by (auto simp: block_pages_def)
    have blk: "finite (block_pages page_shift i a) \<and> card (block_pages page_shift i a) = 2 ^ page_shift i" for a
      by (simp add: block_pages_interval)
    have "card (?P i) = (\<Sum>a\<in>free_blocks h i. card (block_pages page_shift i a))"
      unfolding U by (rule card_UN_disjoint) (use fin blk in \<open>auto simp: block_pages_def\<close>)
    also have "\<dots> = GetNumFreeBlocks (m_blocks h ! i) * 2 ^ page_shift i" using blk c by simp
    finally have "card (?P i) = GetNumFreeBlocks (m_blocks h ! i) * 2 ^ page_shift i" .
    moreover have "blk_GetNumPages (m_blocks h ! i) = 2 ^ page_shift i"
      using l(1) block_size_pages [OF i] by (simp add: blk_GetNumPages_def blk_GetSize_def PageSize_def)
    moreover have "finite (?P i)" unfolding U using fin blk by simp
    ultimately show ?thesis by (simp add: blk_GetNumFreePages_def)
  qed
  have U: "free_pages h = (\<Union>i\<in>{..<7}. ?P i)" by (auto simp: free_pages_def free_in_def)
  have "card (free_pages h) = (\<Sum>i<7. card (?P i))"
    unfolding U
  proof (rule card_UN_disjoint)
    show "\<forall>i\<in>{..<7}. \<forall>j\<in>{..<7}. i \<noteq> j \<longrightarrow> ?P i \<inter> ?P j = {}"
      using bud unfolding buddy_ok_def by blast
  qed (use lev in auto)
  also have "\<dots> = (\<Sum>i<7. blk_GetNumFreePages (m_blocks h ! i))" using lev by simp
  also have "\<dots> = GetNumFreePages h"
  proof -
    have "foldl (\<lambda>n i. n + f i) c [0..<m] = c + (\<Sum>i<m. f i)" for f :: "nat \<Rightarrow> nat" and c m
      by (induction m) (auto simp: add.assoc)
    then show ?thesis using shape by (simp add: GetNumFreePages_def heap_shape_def)
  qed
  finally show ?thesis by simp
qed

section \<open>Linear search\<close>

text \<open>Of a block that was taken, the pages of \<open>R\<close> are given back.\<close>

lemma carve:
  assumes h: "heap_ok h" "B \<subseteq> free_pages h"
    and h1: "heap_ok h1" "free_pages h1 = free_pages h - B" "heap_pages h1 = heap_pages h"
    and R: "R \<subseteq> B"
  shows "freeable R h1"
    and "adds R h1 h' \<Longrightarrow> heap_ok h' \<and> heap_pages h' = heap_pages h \<and> free_pages h' = free_pages h - (B - R)"
proof -
  show "freeable R h1" using assms by (auto simp: freeable_def heap_ok_def)
  show "adds R h1 h' \<Longrightarrow> heap_ok h' \<and> heap_pages h' = heap_pages h \<and> free_pages h' = free_pages h - (B - R)"
    using assms by (auto simp: adds_def)
qed

lemma smaller_size: "j \<le> i \<Longrightarrow> i < 7 \<Longrightarrow> (2 :: nat) ^ page_shift j \<le> 2 ^ page_shift i"
  by (rule power_increasing [OF sizes.mono_le]) simp_all

lemma smaller_block:
  assumes "j \<le> i" "i < 7"
  shows "a * 2 ^ page_shift i = a * 2 ^ (page_shift i - page_shift j) * 2 ^ page_shift j"
    "a * 2 ^ block_shift i = a * 2 ^ (page_shift i - page_shift j) * 2 ^ block_shift j"
    "block_pages page_shift j (a * 2 ^ (page_shift i - page_shift j)) =
       {a * 2 ^ page_shift i..<a * 2 ^ page_shift i + 2 ^ page_shift j}"
proof -
  have j: "j < 7" using assms by simp
  have le: "page_shift j \<le> page_shift i" by (rule sizes.mono_le [OF assms])
  show p: "a * 2 ^ page_shift i = a * 2 ^ (page_shift i - page_shift j) * 2 ^ page_shift j"
    using le by (simp add: mult.assoc power_add [symmetric])
  show "a * 2 ^ block_shift i = a * 2 ^ (page_shift i - page_shift j) * 2 ^ block_shift j"
    using le by (simp add: mult.assoc power_add [symmetric] block_shift_page [OF j] block_shift_page [OF assms(2)])
  show "block_pages page_shift j (a * 2 ^ (page_shift i - page_shift j)) =
       {a * 2 ^ page_shift i..<a * 2 ^ page_shift i + 2 ^ page_shift j}"
    unfolding block_pages_interval p by (simp add: add.commute)
qed

lemma linear_search_spec:
  assumes "heap_ok h" "index \<le> i" "i \<le> 7" "index < 7"
    "linear_search (2 ^ block_shift index) [i..<7] h = (addr, h')"
  shows "heap_ok h' \<and> heap_pages h' = heap_pages h \<and>
    (if \<forall>j<7. i \<le> j \<longrightarrow> free_blocks h j = {}
     then addr = 0 \<and> free_pages h' = free_pages h
     else \<exists>a. addr = a * 2 ^ block_shift index \<and> addr \<noteq> 0 \<and>
       block_pages page_shift index a \<subseteq> free_pages h \<and>
       free_pages h' = free_pages h - block_pages page_shift index a)"
  using assms
proof (induction "7 - i" arbitrary: i h)
  case 0
  then show ?case by simp
next
  case (Suc m)
  let ?q = "2 ^ page_shift index :: nat" and ?N = "2 ^ page_shift i :: nat"
  have i: "i < 7" using Suc.hyps(2) by simp
  then have upt: "[i..<7] = i # [Suc i..<7]" by (rule upt_conv_Cons)
  obtain addr1 h1 where p: "heap_Pop False i h = (addr1, h1)" by fastforce
  note pop = heap_Pop_block [OF Suc.prems(1) i p]
  show ?case
  proof (cases "free_blocks h i = {}")
    case True
    then have z: "addr1 = 0" and fp: "free_pages h1 = free_pages h" using pop(1) by auto
    have fb: "free_blocks h1 = free_blocks h" by (rule pop(4) [OF True])
    have cond: "(\<forall>j<7. i \<le> j \<longrightarrow> free_blocks h j = {}) \<longleftrightarrow> (\<forall>j<7. Suc i \<le> j \<longrightarrow> free_blocks h j = {})"
      using True by (metis Suc_leI Suc_leD le_neq_implies_less)
    have lin: "linear_search (2 ^ block_shift index) [Suc i..<7] h1 = (addr, h')"
      using Suc.prems(5) p z by (simp add: upt)
    have m: "m = 7 - Suc i" "index \<le> Suc i" "Suc i \<le> 7" using Suc.hyps(2) Suc.prems(2) i by simp_all
    note IH = Suc.hyps(1) [OF m(1) pop(2) m(2,3) Suc.prems(4) lin]
    from IH [unfolded fp fb pop(3)] show ?thesis unfolding cond .
  next
    case False
    then obtain a where a: "addr1 = a * 2 ^ block_shift i" "addr1 \<noteq> 0" "a \<in> free_blocks h i"
      "block_pages page_shift i a \<subseteq> free_pages h" "free_pages h1 = free_pages h - block_pages page_shift i a"
      using pop(1) by auto
    let ?A = "a * ?N"
    note sb = smaller_block [OF Suc.prems(2) i, of a] and le = smaller_size [OF Suc.prems(2) i]
    have B: "block_pages page_shift i a = {?A..<?A + ?N}" by (simp add: block_pages_interval add.commute)
    let ?h' = "if 2 ^ block_shift index < (2::nat) ^ block_shift i
      then heap_Free (addr1 + 2 ^ block_shift index)
             ((2 ^ block_shift i - 2 ^ block_shift index) div PageSize) h1 else h1"
    have size1: "blk_GetSize (m_blocks h1 ! i) = 2 ^ block_shift i" by (rule block_size [OF pop(2) i])
    have res: "addr = addr1" "h' = ?h'"
      using Suc.prems(5) p a(2) size1 by (auto simp: upt Let_def)
    let ?R = "{?A + ?q..<?A + ?q + (?N - ?q)}"
    have R: "?R \<subseteq> block_pages page_shift i a" using le unfolding B by (auto simp del: power_increasing_iff)
    note cv = carve [OF Suc.prems(1) a(4) pop(2) a(5) pop(3) R]
    have "adds ?R h1 (heap_Free ((?A + ?q) * PageSize) (?N - ?q) h1)"
      by (rule heap_Free_adds [OF cv(1)])
    moreover have "heap_Free ((?A + ?q) * PageSize) (?N - ?q) h1 = ?h'"
    proof -
      have "addr1 + 2 ^ block_shift index = (?A + ?q) * PageSize"
        using a(1) block_size_pages [OF i] block_size_pages [OF Suc.prems(4)] by (simp add: algebra_simps)
      moreover have "(2 ^ block_shift i - 2 ^ block_shift index) div PageSize = ?N - ?q"
        using block_size_pages [OF i] block_size_pages [OF Suc.prems(4)]
        by (simp add: diff_mult_distrib [symmetric] PageSize_def)
      moreover have "\<not> 2 ^ block_shift index < (2::nat) ^ block_shift i \<Longrightarrow> ?N - ?q = 0"
        using block_size_pages [OF i] block_size_pages [OF Suc.prems(4)] by (simp add: PageSize_def)
      ultimately show ?thesis by (auto simp: heap_Free_def)
    qed
    ultimately have "heap_ok h' \<and> heap_pages h' = heap_pages h \<and>
        free_pages h' = free_pages h - (block_pages page_shift i a - ?R)"
      using cv(2) res(2) by simp
    moreover have "block_pages page_shift i a - ?R =
        block_pages page_shift index (a * 2 ^ (page_shift i - page_shift index))"
      unfolding B sb(3) using le by (auto simp del: power_increasing_iff)
    moreover have "block_pages page_shift index (a * 2 ^ (page_shift i - page_shift index)) \<subseteq> free_pages h"
      using a(4) le unfolding B sb(3) by (auto simp del: power_increasing_iff)
    moreover have nn: "\<not> (\<forall>j<7. i \<le> j \<longrightarrow> free_blocks h j = {})" using False i by blast
    moreover have "addr = a * 2 ^ (page_shift i - page_shift index) * 2 ^ block_shift index"
      using res(1) a(1) sb(2) by (simp only:)
    ultimately show ?thesis using a(2) res(1) unfolding if_not_P [OF nn] by auto
  qed
qed

lemma no_free_block:
  assumes h: "heap_ok h" "i < 7"
  shows "(\<forall>j<7. i \<le> j \<longrightarrow> free_blocks h j = {}) \<longleftrightarrow> \<not> (\<exists>a. block_pages page_shift i a \<subseteq> free_pages h)"
proof
  assume e: "\<forall>j<7. i \<le> j \<longrightarrow> free_blocks h j = {}"
  show "\<not> (\<exists>a. block_pages page_shift i a \<subseteq> free_pages h)"
  proof
    assume "\<exists>a. block_pages page_shift i a \<subseteq> free_pages h"
    then obtain a where "block_pages page_shift i a \<subseteq> free_in page_shift 7 (free_blocks h)"
      by (auto simp: free_pages_def)
    with sizes.free_block_covered [OF _ h(2) this] h(1) e show False by (auto simp: heap_ok_def)
  qed
next
  assume n: "\<not> (\<exists>a. block_pages page_shift i a \<subseteq> free_pages h)"
  show "\<forall>j<7. i \<le> j \<longrightarrow> free_blocks h j = {}"
  proof (intro allI impI, rule ccontr)
    fix j assume j: "j < 7" "i \<le> j" "free_blocks h j \<noteq> {}"
    then obtain a where a: "a \<in> free_blocks h j" by blast
    note sb = smaller_block [OF j(2,1), of a] and le = smaller_size [OF j(2,1)]
    have "block_pages page_shift i (a * 2 ^ (page_shift j - page_shift i)) \<subseteq> block_pages page_shift j a"
      unfolding sb(3) using le by (auto simp: block_pages_interval simp del: power_increasing_iff)
    with free_pages_mono_block [OF j(1) a] n show False by blast
  qed
qed

section \<open>Random allocation\<close>

lemma heap_rng_fields [simp]:
  "free_blocks (h\<lparr>h_rng := g\<rparr>) = free_blocks h" "free_pages (h\<lparr>h_rng := g\<rparr>) = free_pages h"
  "heap_pages (h\<lparr>h_rng := g\<rparr>) = heap_pages h" "heap_ok (h\<lparr>h_rng := g\<rparr>) = heap_ok h"
proof -
  have b: "base (h\<lparr>h_rng := g\<rparr>) = base h" by (simp add: fun_eq_iff base_def)
  show f: "free_blocks (h\<lparr>h_rng := g\<rparr>) = free_blocks h" by (simp add: fun_eq_iff free_blocks_def b)
  show p: "free_pages (h\<lparr>h_rng := g\<rparr>) = free_pages h" by (simp add: free_pages_def f)
  show q: "heap_pages (h\<lparr>h_rng := g\<rparr>) = heap_pages h" by (simp add: heap_pages_def)
  show "heap_ok (h\<lparr>h_rng := g\<rparr>) = heap_ok h"
    by (simp add: heap_ok_def heap_shape_def level_shape_def b f p q)
qed

lemma heap_random_less:
  assumes "heap_random mx h = (r, h')" "0 < mx" "mx < 2 ^ 64"
  shows "r < mx" "\<exists>g. h' = h\<lparr>h_rng := g\<rparr>"
proof -
  have u: "unat (of_nat mx :: u64) = mx" using assms(3) by (simp add: unat_of_nat take_bit_eq_mod)
  then have "(of_nat mx :: u64) \<noteq> 0" using assms(2) by (metis unat_0 less_numeral_extra(3))
  then have "fst (GenerateRandom (of_nat mx) (h_rng h)) < of_nat mx" by (rule GenerateRandom_less)
  with u have "unat (fst (GenerateRandom (of_nat mx) (h_rng h))) < mx" by (simp add: word_less_nat_alt)
  with assms(1) show "r < mx" by (auto simp: heap_random_def split: prod.splits)
  show "\<exists>g. h' = h\<lparr>h_rng := g\<rparr>" using assms(1) by (auto simp: heap_random_def split: prod.splits)
qed

lemma countr_zero_exp: "m < 64 \<Longrightarrow> countr_zero (2 ^ m) = m"
proof -
  assume m: "m < 64"
  then have b: "bit (2 ^ m :: u64) j \<longleftrightarrow> j = m" for j by (auto simp: bit_simps)
  have "(2 ^ m :: u64) \<noteq> 0" using b by (metis bit_0_eq bot_apply bot_bool_def)
  from countr_zero_bit(1) [OF this] b show ?thesis by blast
qed

text \<open>The alignments counted for a size: none exactly when it has no free block; and few.\<close>

lemma alignments_bounds:
  assumes h: "heap_ok h" and i: "i < 7" and n: "0 < n" "n \<le> 2 ^ page_shift i" and sh: "12 \<le> sh"
  shows "alignments (n * PageSize) sh h i = 0 \<longleftrightarrow> free_blocks h i = {}"
    "alignments (n * PageSize) sh h i < 2 ^ 52"
proof -
  have shape: "heap_shape h" using h by (simp add: heap_ok_def)
  note l = heap_levelD [OF shape i]
  let ?N = "2 ^ page_shift i :: nat" and ?c = "GetNumFreeBlocks (m_blocks h ! i)"
  have size: "blk_GetSize (m_blocks h ! i) = ?N * PageSize"
    using block_size [OF h i] block_size_pages [OF i] by simp
  have ps: "page_shift i \<le> 18" using sizes.mono_le [of i 6] i by (simp add: page_shift_table)
  have N: "?N \<le> 2 ^ 18" using ps by (intro power_increasing) simp_all
  then have N64: "?N * PageSize < 2 ^ 64" by (simp add: PageSize_def)
  have le: "n * PageSize \<le> ?N * PageSize" using n(2) by (rule mult_le_mono1)
  have sub: "sub64 (?N * PageSize) (n * PageSize) = (?N - n) * PageSize"
    using sub64_eq [OF le N64] by (simp add: diff_mult_distrib)
  define q where "q = (?N - n) * PageSize div 2 ^ sh"
  have "(2::nat) ^ sh = PageSize * 2 ^ (sh - 12)" using sh power_add [of "2::nat" 12 "sh - 12"] by (simp add: PageSize_def)
  then have "q = (?N - n) div 2 ^ (sh - 12)" by (simp add: q_def div_mult2_eq PageSize_def)
  then have q: "q \<le> ?N - n" by simp
  have c: "?c = card (free_set (bitmap_of h i) (m_management_data h))"
    using bitmap_okD(6) [OF l(10)] by (simp add: GetNumFreeBlocks_def)
  have "?c \<le> m_end_offset (m_blocks h ! i)" using bitmap_okD(7) [OF l(10)] by (simp add: GetNumFreeBlocks_def)
  moreover have "m_end_offset (m_blocks h ! i) * (?N * PageSize) < 2 ^ 64"
    using l(7) block_size_pages [OF i] by (simp add: add_mult_distrib)
  ultimately have "?c * (?N * PageSize) < 2 ^ 64" by (meson le_less_trans mult_le_mono1)
  then have cN: "?c * ?N < 2 ^ 52" by (simp add: PageSize_def)
  have "1 + q \<le> ?N" using q n by linarith
  then have "(1 + q) * ?c \<le> ?N * ?c" by (rule mult_le_mono1)
  then have prod: "(1 + q) * ?c < 2 ^ 52" using cN by (simp add: mult.commute)
  have "add64 1 q = 1 + q" using \<open>1 + q \<le> ?N\<close> N by (intro add64_eq) simp
  then have al: "alignments (n * PageSize) sh h i = (1 + q) * ?c"
    using prod by (simp add: alignments_def size sub q_def [symmetric] mul64_eq)
  show "alignments (n * PageSize) sh h i < 2 ^ 52" using prod al by simp
  show "alignments (n * PageSize) sh h i = 0 \<longleftrightarrow> free_blocks h i = {}"
    using al c i bitmap_okD(5) [OF l(10)] by (auto simp: free_blocks_def)
qed

lemma count_alignments_spec:
  assumes al: "\<And>j. j \<in> {i..<7} \<Longrightarrow> alignments sz sh h j < 2 ^ 52"
    and "m_num_blocks h = 7" "i \<le> 7" "p + (7 - i) * 2 ^ 52 < 2 ^ 64" "p < 4"
    "count_alignments sz sh h [i..<7] p = (tot, mx)"
  shows "i \<le> mx \<and> mx \<le> 7 \<and> tot = p + sum (alignments sz sh h) {i..<mx} \<and> tot < 2 ^ 64 \<and>
    (mx < 7 \<longrightarrow> 4 \<le> tot) \<and> (i < 7 \<longrightarrow> i < mx)"
  using assms
proof (induction "7 - i" arbitrary: i p)
  case 0
  then show ?case by simp
next
  case (Suc m)
  have i: "i < 7" using Suc.hyps(2) by simp
  then have upt: "[i..<7] = i # [Suc i..<7]" by (rule upt_conv_Cons)
  let ?a = "alignments sz sh h i"
  have a: "?a < 2 ^ 52" using Suc.prems(1) i by simp
  have seven: "7 - i = Suc (7 - Suc i)" using i by simp
  have fit: "p + ?a + (7 - Suc i) * 2 ^ 52 < 2 ^ 64" using Suc.prems(4) a unfolding seven by simp
  then have add: "add64 p ?a = p + ?a" by (intro add64_eq) linarith
  show ?case
  proof (cases "4 \<le> p + ?a")
    case True
    then have "tot = p + ?a" "mx = Suc i" using Suc.prems(6) add by (auto simp: upt)
    with True i fit show ?thesis by simp
  next
    case False
    then have r: "count_alignments sz sh h [Suc i..<7] (p + ?a) = (tot, mx)"
      using Suc.prems(6) add by (simp add: upt)
    have IH: "Suc i \<le> mx \<and> mx \<le> 7 \<and> tot = p + ?a + sum (alignments sz sh h) {Suc i..<mx} \<and>
        tot < 2 ^ 64 \<and> (mx < 7 \<longrightarrow> 4 \<le> tot) \<and> (Suc i < 7 \<longrightarrow> Suc i < mx)"
      by (rule Suc.hyps(1) [OF _ _ Suc.prems(2) _ fit _ r])
        (use Suc.hyps(2) Suc.prems(1) i False in auto)
    moreover have "sum (alignments sz sh h) {i..<mx} = ?a + sum (alignments sz sh h) {Suc i..<mx}"
      using IH by (intro sum.atLeast_Suc_lessThan) simp
    ultimately show ?thesis by auto
  qed
qed

lemma pick_index_spec:
  assumes "i \<le> mx" "p + sum (alignments sz sh h) {i..<mx} < 2 ^ 64" "p \<le> rnd"
    "rnd < p + sum (alignments sz sh h) {i..<mx}"
  shows "\<exists>j\<in>{i..<mx}. pick_index sz sh h rnd [i..<mx] p d = j \<and> alignments sz sh h j \<noteq> 0"
  using assms
proof (induction "mx - i" arbitrary: i p)
  case 0
  then show ?case by simp
next
  case (Suc m)
  have i: "i < mx" using Suc.hyps(2) by simp
  then have upt: "[i..<mx] = i # [Suc i..<mx]" by (rule upt_conv_Cons)
  let ?a = "alignments sz sh h i"
  have s: "sum (alignments sz sh h) {i..<mx} = ?a + sum (alignments sz sh h) {Suc i..<mx}"
    by (rule sum.atLeast_Suc_lessThan [OF i])
  have add: "add64 p ?a = p + ?a" using Suc.prems(2) s by (intro add64_eq) linarith
  show ?case
  proof (cases "rnd < p + ?a")
    case True
    then have "?a \<noteq> 0" using Suc.prems(3) by simp
    with True add i show ?thesis by (simp add: upt)
  next
    case False
    have "\<exists>j\<in>{Suc i..<mx}. pick_index sz sh h rnd [Suc i..<mx] (p + ?a) d = j \<and> alignments sz sh h j \<noteq> 0"
      by (rule Suc.hyps(1)) (use Suc.hyps(2) Suc.prems s False i in auto)
    with False add show ?thesis by (fastforce simp: upt)
  qed
qed

lemma choose_index_spec:
  assumes h: "heap_ok h" and ix: "index < 7" and n: "0 < n" "n \<le> 2 ^ page_shift index" and sh: "12 \<le> sh"
    and r: "choose_index (n * PageSize) sh index h = (i, h')"
  shows "index \<le> i" "i < 7" "\<exists>g. h' = h\<lparr>h_rng := g\<rparr>"
    "(\<exists>j<7. index \<le> j \<and> free_blocks h j \<noteq> {}) \<Longrightarrow> free_blocks h i \<noteq> {}"
proof -
  let ?al = "alignments (n * PageSize) sh h"
  have al: "?al j = 0 \<longleftrightarrow> free_blocks h j = {}" "?al j < 2 ^ 52" if "j \<in> {index..<7}" for j
  proof -
    have j: "j < 7" "n \<le> 2 ^ page_shift j" using that n(2) smaller_size [of index j] by (auto intro: order_trans)
    show "?al j = 0 \<longleftrightarrow> free_blocks h j = {}" "?al j < 2 ^ 52"
      by (rule alignments_bounds [OF h j(1) n(1) j(2) sh])+
  qed
  have n7: "m_num_blocks h = 7" using h by (simp add: heap_ok_def heap_shape_def)
  obtain tot mx where c: "count_alignments (n * PageSize) sh h [index..<7] 0 = (tot, mx)" by fastforce
  have fit: "0 + (7 - index) * 2 ^ 52 < (2::nat) ^ 64"
  proof -
    have "(7 - index) * 2 ^ 52 \<le> 7 * (2::nat) ^ 52" by (intro mult_le_mono1) simp
    then show ?thesis by simp
  qed
  from count_alignments_spec [OF al(2) n7 _ fit _ c] ix
  have t: "index < mx" "mx \<le> 7" "tot = sum ?al {index..<mx}" "tot < 2 ^ 64" "mx < 7 \<longrightarrow> 4 \<le> tot"
    by auto
  have "index \<le> i \<and> i < 7 \<and> (\<exists>g. h' = h\<lparr>h_rng := g\<rparr>) \<and>
    ((\<exists>j<7. index \<le> j \<and> free_blocks h j \<noteq> {}) \<longrightarrow> free_blocks h i \<noteq> {})"
  proof (cases "0 < tot \<and> index + 1 < mx")
    case True
    obtain rnd h1 where rr: "heap_random tot h = (rnd, h1)" by fastforce
    from heap_random_less [OF rr] True t(4) obtain g where g: "rnd < tot" "h1 = h\<lparr>h_rng := g\<rparr>" by auto
    have same: "alignments (n * PageSize) sh h1 = ?al" by (simp add: g fun_eq_iff alignments_def)
    have "\<exists>j\<in>{index..<mx}. pick_index (n * PageSize) sh h1 rnd [index..<mx] 0 index = j \<and> ?al j \<noteq> 0"
      using pick_index_spec [of index mx 0 "n * PageSize" sh h1 rnd index] t g(1) same by simp
    moreover have "i = pick_index (n * PageSize) sh h1 rnd [index..<mx] 0 index" "h' = h1"
      using r True c rr n7 by (auto simp: choose_index_def)
    ultimately show ?thesis using al(1) t(2) g(2) by fastforce
  next
    case False
    then have i: "i = index" "h' = h" using r c n7 by (auto simp: choose_index_def)
    have "free_blocks h index \<noteq> {}" if ex: "\<exists>j<7. index \<le> j \<and> free_blocks h j \<noteq> {}"
    proof (cases "tot = 0")
      case True
      then have "mx = 7" using t by auto
      with True t(3) have "\<forall>j\<in>{index..<7}. ?al j = 0" by simp
      with al(1) ex show ?thesis by auto
    next
      case nz: False
      with False t(1) have "mx = Suc index" by simp
      with nz t(3) have "?al index \<noteq> 0" by simp
      with al(1) [of index] ix show ?thesis by simp
    qed
    moreover have "h = h\<lparr>h_rng := h_rng h\<rparr>" by simp
    ultimately show ?thesis using i ix by blast
  qed
  then show "index \<le> i" "i < 7" "\<exists>g. h' = h\<lparr>h_rng := g\<rparr>"
    "(\<exists>j<7. index \<le> j \<and> free_blocks h j \<noteq> {}) \<Longrightarrow> free_blocks h i \<noteq> {}" by blast+
qed

text \<open>A block that was taken is cut down to \<open>n\<close> pages, with what lies before and behind given back.\<close>

lemma cut_block:
  assumes h: "heap_ok h" "{A..<A + N} \<subseteq> free_pages h"
    and h1: "heap_ok h1" "free_pages h1 = free_pages h - {A..<A + N}" "heap_pages h1 = heap_pages h"
    and o: "o' + n \<le> N"
  defines "h' \<equiv> heap_Free ((A + o' + n) * PageSize) (N - n - o') (heap_Free (A * PageSize) o' h1)"
  shows "heap_ok h' \<and> heap_pages h' = heap_pages h \<and> free_pages h' = free_pages h - {A + o'..<A + o' + n} \<and>
    {A + o'..<A + o' + n} \<subseteq> free_pages h"
proof -
  let ?h = "heap_Free (A * PageSize) o' h1"
  let ?R = "{A..<A + o'}" and ?R' = "{A + o' + n..<A + o' + n + (N - n - o')}"
  have R: "?R \<union> ?R' \<subseteq> {A..<A + N}" "?R \<inter> ?R' = {}" using o by auto
  note cv = carve [OF h h1 R(1)]
  have 1: "adds ?R h1 ?h" by (rule heap_Free_adds) (rule freeable_subset [OF cv(1)], simp)
  have 2: "adds ?R' ?h h'" unfolding h'_def
    by (rule heap_Free_adds) (rule freeable_adds [OF 1 cv(1) R(2)])
  have "{A..<A + N} - (?R \<union> ?R') = {A + o'..<A + o' + n}" using o by auto
  with cv(2) [OF adds_trans [OF 1 2]] h(2) o show ?thesis by auto
qed

lemma AllocateByRandom_spec:
  assumes h: "heap_ok h" and ix: "index < 7" and n: "0 < n" "n \<le> 2 ^ page_shift index"
    and k: "k \<le> page_shift index" and r: "AllocateByRandom index n (2 ^ k) h = (addr, h')"
  shows "heap_ok h' \<and> heap_pages h' = heap_pages h \<and>
    (if \<exists>a. block_pages page_shift index a \<subseteq> free_pages h
     then \<exists>s. addr = s * PageSize \<and> addr \<noteq> 0 \<and> 2 ^ k dvd s \<and> {s..<s + n} \<subseteq> free_pages h \<and>
       free_pages h' = free_pages h - {s..<s + n}
     else addr = 0 \<and> free_pages h' = free_pages h)"
proof -
  have ps: "page_shift index \<le> 18" using sizes.mono_le [of index 6] ix by (simp add: page_shift_table)
  have sh: "countr_zero (of_nat (2 ^ k * PageSize)) = k + 12"
    using countr_zero_exp [of "k + 12"] k ps by (simp add: PageSize_def power_add)
  obtain i h0 where c: "choose_index (n * PageSize) (k + 12) index h = (i, h0)" by fastforce
  note ch = choose_index_spec [OF h ix n _ c, simplified]
  obtain g where h0: "h0 = h\<lparr>h_rng := g\<rparr>" using ch(3) by blast
  have ok0: "heap_ok h0" using h by (simp add: h0)
  obtain addr1 h1 where p: "heap_Pop True i h0 = (addr1, h1)" by fastforce
  note pop = heap_Pop_block [OF ok0 ch(2) p]
  have none: "(\<exists>a. block_pages page_shift index a \<subseteq> free_pages h) \<longleftrightarrow> free_blocks h i \<noteq> {}"
    using no_free_block [OF h ix] ch(1,2,4) by blast
  show ?thesis
  proof (cases "free_blocks h i = {}")
    case True
    then have "addr1 = 0" "free_pages h1 = free_pages h" using pop(1) by (auto simp: h0)
    moreover from this have "addr = 0" "h' = h1" using r sh c p by (auto simp: AllocateByRandom_def)
    ultimately show ?thesis using none True pop(2,3) by (simp add: h0)
  next
    case False
    let ?N = "2 ^ page_shift i :: nat"
    obtain a where a: "addr1 = a * 2 ^ block_shift i" "addr1 \<noteq> 0"
      "block_pages page_shift i a \<subseteq> free_pages h" "free_pages h1 = free_pages h - block_pages page_shift i a"
      using pop(1) False by (auto simp: h0)
    let ?A = "a * ?N"
    have A: "addr1 = ?A * PageSize" using a(1) block_size_pages [OF ch(2)] by simp
    have B: "block_pages page_shift i a = {?A..<?A + ?N}" by (simp add: block_pages_interval add.commute)
    have nN: "n \<le> ?N" using n(2) smaller_size [OF ch(1,2)] by (rule order_trans)
    have psi: "page_shift i \<le> 18" using sizes.mono_le [of i 6] ch(2) by (simp add: page_shift_table)
    have N: "?N \<le> 2 ^ 18" using psi by (intro power_increasing) simp_all
    have size1: "blk_GetSize (m_blocks h1 ! i) = ?N * PageSize"
      using block_size [OF pop(2) ch(2)] block_size_pages [OF ch(2)] by simp
    have left: "sub64 (?N * PageSize) (n * PageSize) = (?N - n) * PageSize"
      using sub64_eq [of "n * PageSize" "?N * PageSize"] nN N by (simp add: diff_mult_distrib PageSize_def)
    obtain o' h2 where o': "2 ^ k dvd o'" "o' + n \<le> ?N" "\<exists>g. h2 = h1\<lparr>h_rng := g\<rparr>"
      "addr = (?A + o') * PageSize"
      "h' = heap_Free ((?A + o' + n) * PageSize) (?N - n - o') (heap_Free (?A * PageSize) o' h2)"
    proof (cases "?N = n")
      case True
      then have "addr = addr1" "h' = h1"
        using r sh c p a(2) size1 left by (auto simp: AllocateByRandom_def Let_def)
      moreover have "\<exists>g. h1 = h1\<lparr>h_rng := g\<rparr>" by (rule exI [of _ "h_rng h1"]) simp
      ultimately show thesis using that [of 0 h1] True A by (simp add: heap_Free_def)
    next
      case nn: False
      let ?possible = "1 + (?N - n) * PageSize div 2 ^ (k + 12)"
      have pos: "?possible = 1 + (?N - n) div 2 ^ k"
        by (simp add: power_add PageSize_def div_mult2_eq [symmetric] mult.commute)
      obtain rnd h2 where rr: "heap_random ?possible h1 = (rnd, h2)" by fastforce
      have "(?N - n) div 2 ^ k \<le> ?N" by (meson diff_le_self div_le_dividend order_trans)
      then have "?possible < 2 ^ 64" using N unfolding pos by simp
      from heap_random_less [OF rr _ this] have rnd: "rnd \<le> (?N - n) div 2 ^ k" "\<exists>g. h2 = h1\<lparr>h_rng := g\<rparr>"
        unfolding pos by auto
      let ?o = "rnd * 2 ^ k"
      have "?o \<le> (?N - n) div 2 ^ k * 2 ^ k" using rnd(1) by (rule mult_le_mono1)
      also have "\<dots> \<le> ?N - n" by simp
      finally have on: "?o + n \<le> ?N" using nN by linarith
      have off: "rnd * 2 ^ (k + 12) = ?o * PageSize" by (simp add: power_add PageSize_def)
      have P0: "0 < PageSize" by (simp add: PageSize_def)
      have d: "(c * PageSize) div PageSize = c" for c using P0 by simp
      have lp: "0 < (?N - n) * PageSize" using nn nN P0 by simp
      have "h' = heap_Free ((?A + ?o + n) * PageSize) (?N - n - ?o) (heap_Free (?A * PageSize) ?o h2) \<and>
          addr = (?A + ?o) * PageSize"
      proof -
        have eq: "?o * PageSize = (?N - n) * PageSize \<longleftrightarrow> ?N - n - ?o = 0"
          using on P0 by auto
        have sub: "(?N - n) * PageSize - ?o * PageSize = (?N - n - ?o) * PageSize"
          by (simp only: diff_mult_distrib)
        have z: "heap_Free x 0 y = y" for x y by (simp add: heap_Free_def)
        have run: "AllocateByRandom index n (2 ^ k) h =
            (let h3 = (if ?o * PageSize \<noteq> 0 then heap_Free addr1 (?o * PageSize div PageSize) h2 else h2)
             in (addr1 + ?o * PageSize,
                 if ?o * PageSize \<noteq> (?N - n) * PageSize
                 then heap_Free (addr1 + ?o * PageSize + n * PageSize)
                        (((?N - n) * PageSize - ?o * PageSize) div PageSize) h3 else h3))"
          by (simp only: AllocateByRandom_def Let_def sh c prod.case p a(2) size1 left lp rr off if_True
              not_False_eq_True simp_thms)
        have one: "(if ?o * PageSize \<noteq> 0 then heap_Free addr1 (?o * PageSize div PageSize) h2 else h2) =
            heap_Free (?A * PageSize) ?o h2"
          using P0 z unfolding A d by auto
        have at: "addr1 + ?o * PageSize + n * PageSize = (?A + ?o + n) * PageSize"
          "addr1 + ?o * PageSize = (?A + ?o) * PageSize"
          unfolding A by (simp_all only: add_mult_distrib)
        let ?H = "heap_Free (?A * PageSize) ?o h2"
        have run2: "AllocateByRandom index n (2 ^ k) h = ((?A + ?o) * PageSize,
            if ?o * PageSize \<noteq> (?N - n) * PageSize
            then heap_Free ((?A + ?o + n) * PageSize) (?N - n - ?o) ?H else ?H)"
          unfolding run Let_def unfolding one sub at(1) unfolding at(2) d ..
        have sel: "(if ?o * PageSize \<noteq> (?N - n) * PageSize
            then heap_Free ((?A + ?o + n) * PageSize) (?N - n - ?o) ?H else ?H) =
            heap_Free ((?A + ?o + n) * PageSize) (?N - n - ?o) ?H"
          unfolding eq using z by (simp split: if_split)
        from r [unfolded run2 sel, unfolded prod.inject] show ?thesis by (blast intro: sym)
      qed
      with that [of ?o h2] on rnd(2) show thesis by simp
    qed
    then obtain g' where h2: "h2 = h1\<lparr>h_rng := g'\<rparr>" by blast
    have "heap_ok h2" "free_pages h2 = free_pages h - {?A..<?A + ?N}" "heap_pages h2 = heap_pages h"
      using pop(2,3) a(4) by (simp_all add: h2 h0 B)
    from cut_block [OF h _ this o'(2)] a(3) o'(5)
    have cut: "heap_ok h' \<and> heap_pages h' = heap_pages h \<and>
        free_pages h' = free_pages h - {?A + o'..<?A + o' + n} \<and> {?A + o'..<?A + o' + n} \<subseteq> free_pages h"
      by (simp add: B)
    have "k \<le> page_shift i" using k sizes.mono_le [OF ch(1,2)] by simp
    then have "2 ^ k dvd ?A" by (simp add: le_imp_power_dvd)
    then have "2 ^ k dvd ?A + o'" using o'(1) by simp
    moreover have "addr \<noteq> 0" using o'(4) a(2) A by simp
    ultimately show ?thesis using cut none False o'(4) by auto
  qed
qed

lemma card_block_pages: "card (block_pages s i a) = 2 ^ s i"
  by (simp add: block_pages_interval)

lemma finite_free_pages: "heap_ok h \<Longrightarrow> finite (free_pages h)"
  by (auto simp: heap_ok_def heap_pages_def dest: finite_subset)

lemma card_taken:
  assumes "heap_ok h" "B \<subseteq> free_pages h"
  shows "card (free_pages h - B) + card B = card (free_pages h)"
  using finite_free_pages [OF assms(1)] assms(2)
  by (simp add: card_Diff_subset finite_subset card_mono)

text \<open>The pages of a block that \<open>AllocateBlock\<close> hands out, for either way of searching.\<close>

lemma AllocateBlock_spec:
  assumes h: "heap_ok h" and i: "index < 7" and r: "AllocateBlock index random h = (addr, h')"
  shows "heap_ok h' \<and> heap_pages h' = heap_pages h \<and>
    (if \<exists>a. block_pages page_shift index a \<subseteq> free_pages h
     then \<exists>a. addr = a * 2 ^ block_shift index \<and> addr \<noteq> 0 \<and>
       block_pages page_shift index a \<subseteq> free_pages h \<and>
       free_pages h' = free_pages h - block_pages page_shift index a
     else addr = 0 \<and> free_pages h' = free_pages h)"
proof (cases random)
  case False
  have "linear_search (2 ^ block_shift index) [index..<7] h = (addr, h')"
    using r False block_size [OF h i] h by (simp add: AllocateBlock_def AllocateByLinearSearch_def heap_ok_def heap_shape_def)
  note S = linear_search_spec [OF h order_refl less_imp_le [OF i] i this, unfolded no_free_block [OF h i]]
  show ?thesis
    using S by (cases "\<exists>a. block_pages page_shift index a \<subseteq> free_pages h") (simp_all only: simp_thms if_True if_False)
next
  case True
  let ?n = "2 ^ page_shift index :: nat"
  have "blk_GetNumPages (m_blocks h ! index) = ?n"
    using block_size [OF h i] i by (simp add: blk_GetNumPages_def block_size_pages PageSize_def)
  then have "AllocateByRandom index ?n ?n h = (addr, h')" using r True by (simp add: AllocateBlock_def Let_def)
  have R: "heap_ok h' \<and> heap_pages h' = heap_pages h \<and>
    (if \<exists>a. block_pages page_shift index a \<subseteq> free_pages h
     then \<exists>s. addr = s * PageSize \<and> addr \<noteq> 0 \<and> ?n dvd s \<and> {s..<s + ?n} \<subseteq> free_pages h \<and>
       free_pages h' = free_pages h - {s..<s + ?n}
     else addr = 0 \<and> free_pages h' = free_pages h)"
    by (rule AllocateByRandom_spec [OF h i _ order_refl order_refl \<open>AllocateByRandom index ?n ?n h = (addr, h')\<close>]) simp
  have "\<exists>a. addr = a * 2 ^ block_shift index \<and> addr \<noteq> 0 \<and>
       block_pages page_shift index a \<subseteq> free_pages h \<and>
       free_pages h' = free_pages h - block_pages page_shift index a"
    if s: "addr = s * PageSize" "addr \<noteq> 0" "?n dvd s" "{s..<s + ?n} \<subseteq> free_pages h"
      "free_pages h' = free_pages h - {s..<s + ?n}" for s
  proof -
    obtain a where a: "s = a * ?n" using s(3) by (metis dvd_def mult.commute)
    show ?thesis using s i by (intro exI [of _ a]) (simp add: a block_size_pages block_pages_interval algebra_simps)
  qed
  with R show ?thesis by (auto split: if_splits)
qed

end
