(* ===== verification/Page_Heap_Init.thy ===== *)
theory Page_Heap_Init
  imports Page_Heap_Levels
begin

text \<open>
  Initialisation of the page heap: where the levels of a fresh heap begin, how much of the management
  area each takes, and that the size the heap computes for that area is enough for all of them.
\<close>

section \<open>Initialisation\<close>

text \<open>The alignment of a level, and the number of its offsets for a heap of \<open>sz\<close> bytes at \<open>address\<close>.\<close>

definition level_align :: "nat \<Rightarrow> nat" where
  "level_align i = (if i < 6 then block_shift (Suc i) else block_shift 6)"

definition level_offsets :: "nat \<Rightarrow> nat \<Rightarrow> nat \<Rightarrow> nat" where
  "level_offsets address sz i =
     (AlignUp (address + sz) (2 ^ level_align i) - AlignDown address (2 ^ level_align i)) div 2 ^ block_shift i"

definition level_words :: "nat \<Rightarrow> nat" where
  "level_words n = overhead_bits (GetRequiredDepth n) n"

definition good_extent :: "nat \<Rightarrow> nat \<Rightarrow> bool" where
  "good_extent address sz \<longleftrightarrow> address mod PageSize = 0 \<and> sz mod PageSize = 0 \<and> 0 < sz \<and> sz \<le> 2 ^ 35 \<and>
     2 ^ 30 \<le> address \<and> address + sz + 2 ^ 31 < 2 ^ 64"

lemma level_align_size:
  assumes "i < 7"
  shows "level_align i \<le> 30" "block_shift i \<le> level_align i" "12 \<le> block_shift i"
    "(2::nat) ^ level_align i = (if i < 6 then fan i else 1) * 2 ^ block_shift i"
proof -
  show "level_align i \<le> 30" using assms unfolding less_7
    by (elim disjE) (simp_all add: level_align_def block_shift_table)
  show "block_shift i \<le> level_align i" using assms unfolding less_7
    by (elim disjE) (simp_all add: level_align_def block_shift_table)
  show "12 \<le> block_shift i" using block_shift_page [OF assms] by simp
  show "(2::nat) ^ level_align i = (if i < 6 then fan i else 1) * 2 ^ block_shift i"
  proof (cases "i < 6")
    case True
    then show ?thesis using fan_bounds(4) by (simp add: level_align_def)
  next
    case False
    then have "i = 6" using assms by simp
    then show ?thesis by (simp add: level_align_def)
  qed
qed

lemma few_blocks:
  fixes w z :: nat
  assumes "w * z < 2 ^ 35 + 256 * z" "4096 \<le> z"
  shows "w < 2 ^ 24"
proof (rule ccontr)
  assume "\<not> w < 2 ^ 24"
  then have "16777216 * z \<le> w * z" by (intro mult_le_mono1) simp
  moreover have "w * z < 34359738368 + 256 * z" using assms(1) by simp
  ultimately show False using assms(2) by linarith
qed

text \<open>The extent of a level in units of its block size.\<close>

lemma level_extent:
  assumes e: "good_extent address sz" and i: "i < 7"
  shows "\<exists>b. AlignDown address (2 ^ level_align i) = b * 2 ^ block_shift i \<and> 0 < b \<and>
    b * 2 ^ block_shift i \<le> address \<and>
    address + sz \<le> (b + level_offsets address sz i) * 2 ^ block_shift i \<and>
    (b + level_offsets address sz i) * 2 ^ block_shift i < 2 ^ 64 \<and>
    (i < 6 \<longrightarrow> b mod fan i = 0 \<and> level_offsets address sz i mod fan i = 0) \<and>
    0 < level_offsets address sz i \<and> level_offsets address sz i < 2 ^ 24 \<and>
    level_offsets address sz i \<le>
      (2 ^ level_align i * 2 + AlignUp sz (2 ^ level_align i)) div 2 ^ block_shift i"
proof -
  let ?al = "2 ^ level_align i :: nat" and ?s = "2 ^ block_shift i :: nat"
  define f where "f = (if i < 6 then fan i else 1)"
  note la = level_align_size [OF i]
  have al: "?al = f * ?s" using la(4) by (simp add: f_def)
  have al30: "?al \<le> 2 ^ 30" using la(1) by (intro power_increasing) simp_all
  have f0: "0 < f" using fan_bounds(2) [of i] by (simp add: f_def)
  have f64: "f \<le> 64" using fan_bounds(1) [of i] by (auto simp: f_def intro: less_imp_le)
  define c where "c = address div ?al"
  have down: "AlignDown address ?al = c * f * ?s" by (simp add: AlignDown_eq c_def al mult.assoc)
  have end_fit: "address + sz + ?al < 2 ^ 64" using e al30 by (simp add: good_extent_def)
  note up = AlignUp_bounds [OF _ end_fit, simplified]
  obtain d where "AlignUp (address + sz) ?al = d * ?al" using up(2) by (auto elim!: dvdE)
  then have updf: "AlignUp (address + sz) ?al = d * f * ?s" by (simp add: al mult.assoc)
  have c1: "c * ?al \<le> address" by (simp add: c_def)
  have c2: "address < c * ?al + ?al" using dividend_less_div_times [of ?al address] by (simp add: c_def)
  have cpos: "0 < c" using e al30 by (simp add: c_def good_extent_def div_greater_zero_iff)
  have c1': "c * f * ?s \<le> address" using c1 unfolding al by (simp only: mult.assoc)
  have u1: "address + sz \<le> d * f * ?s" using up(1) unfolding updf .
  have lt: "c * f * ?s < d * f * ?s" using c1' u1 e unfolding good_extent_def by linarith
  then have cd: "c < d" using f0 by simp
  have off: "level_offsets address sz i = (d - c) * f"
  proof -
    have "level_offsets address sz i = (d * f * ?s - c * f * ?s) div ?s"
      by (simp only: level_offsets_def updf down)
    also have "d * f * ?s - c * f * ?s = (d - c) * f * ?s" by (simp only: diff_mult_distrib)
    finally show ?thesis by simp
  qed
  have sum: "c * f + (d - c) * f = d * f" using cd by (simp add: add_mult_distrib [symmetric])
  have len: "(d - c) * f * ?s < sz + 2 * ?al"
  proof -
    have "(d - c) * f * ?s = d * f * ?s - c * f * ?s" by (simp only: diff_mult_distrib)
    moreover have "d * f * ?s < address + sz + ?al" using up(3) unfolding updf .
    moreover have "address < c * f * ?s + ?al" using c2 unfolding al by (simp only: mult.assoc)
    ultimately show ?thesis using lt by arith
  qed
  have s12: "4096 \<le> ?s" using power_increasing [OF la(3), of "2::nat"] by simp
  have small: "(d - c) * f < 2 ^ 24"
  proof -
    have "(d - c) * f * ?s < 2 ^ 35 + 256 * ?s"
      using len e mult_le_mono1 [OF f64, of ?s] unfolding al good_extent_def by linarith
    then show ?thesis using s12 by (rule few_blocks)
  qed
  have szfit: "sz + ?al < 2 ^ 64" using end_fit by simp
  have "(d - c) * f * ?s \<le> ?al * 2 + AlignUp sz ?al"
    using len AlignUp_bounds(1) [OF _ szfit] by simp
  then have "(d - c) * f \<le> (?al * 2 + AlignUp sz ?al) div ?s" by (simp add: less_eq_div_iff_mult_less_eq)
  moreover have "d * f * ?s < 2 ^ 64" using up(3) end_fit unfolding updf by linarith
  moreover have "i < 6 \<longrightarrow> c * f mod fan i = 0 \<and> (d - c) * f mod fan i = 0" by (simp add: f_def)
  ultimately show ?thesis
    using down cpos f0 c1' u1 small cd unfolding off sum
    by (intro exI [of _ "c * f"]) (simp add: sum)
qed

text \<open>How much storage the bitmaps of the first \<open>i\<close> levels take.\<close>

definition words_before :: "nat \<Rightarrow> nat \<Rightarrow> nat \<Rightarrow> nat" where
  "words_before address sz i = (\<Sum>j<i. level_words (level_offsets address sz j))"

lemma depth_bound: "n < 64 ^ d \<Longrightarrow> 0 < d \<Longrightarrow> GetRequiredDepth n \<le> d"
proof (induction d arbitrary: n)
  case (Suc d)
  show ?case
  proof (cases "n div 64 = 0")
    case False
    then have "0 < d" using Suc.prems(1) by (cases d) auto
    moreover have "n div 64 < 64 ^ d" using Suc.prems(1) by (simp add: div_less_iff_less_mult mult.commute)
    ultimately show ?thesis using Suc.IH [of "n div 64"] False by (simp add: GetRequiredDepth.simps [of n])
  qed (simp add: GetRequiredDepth.simps [of n])
qed simp

lemma init_block_step:
  assumes "i < 7" "length (m_blocks h) = 7"
  shows "init_block MemoryBlockPageShifts NumMemoryBlockPageShifts (h, st) i =
    (let (blk, st') = blk_Initialize (m_heap_address h) (m_heap_size h) (block_shift i)
           (if i < 6 then block_shift (Suc i) else 0) st (m_blocks h ! i)
     in (h\<lparr>m_blocks := (m_blocks h)[i := blk]\<rparr>, st'))"
proof -
  have "(i \<noteq> 7 - 1) = (i < 6)" using assms(1) by auto
  then show ?thesis by (simp add: init_block_def NumMemoryBlockPageShifts_def)
qed

text \<open>The blocks after the first \<open>i\<close> of them are set up.\<close>

lemma init_blocks:
  assumes "length (m_blocks h) = 7" "i \<le> 7"
    and bm: "\<forall>j<7. length (m_bit_storages (bitmap_of h j)) = MaxDepth \<and>
      length (m_end_storages (bitmap_of h j)) = MaxDepth"
    and e: "good_extent (m_heap_address h) (m_heap_size h)"
    and mem: "words_before (m_heap_address h) (m_heap_size h) i \<le> length mem" "\<forall>w\<in>set mem. w = 0"
  defines "A \<equiv> m_heap_address h" and "Z \<equiv> m_heap_size h"
  shows "\<exists>bs. foldl (init_block MemoryBlockPageShifts NumMemoryBlockPageShifts) (h, 0) [0..<i] =
      (h\<lparr>m_blocks := bs\<rparr>, words_before A Z i) \<and> length bs = 7 \<and> (\<forall>j\<in>{i..<7}. bs ! j = m_blocks h ! j) \<and>
    (\<forall>j<i. m_block_shift (bs ! j) = block_shift j \<and>
       m_next_block_shift (bs ! j) = (if j < 6 then block_shift (Suc j) else 0) \<and>
       blk_heap_address (bs ! j) = AlignDown A (2 ^ level_align j) \<and>
       m_end_offset (bs ! j) = level_offsets A Z j \<and>
       bitmap_ok (level_offsets A Z j) (m_bitmap (bs ! j)) mem \<and> free_set (m_bitmap (bs ! j)) mem = {} \<and>
       region (m_bitmap (bs ! j)) \<subseteq> {words_before A Z j..<words_before A Z (Suc j)})"
  using assms(2) mem(1)
proof (induction i)
  case 0
  then show ?case using assms(1) by (intro exI [of _ "m_blocks h"]) (simp add: words_before_def)
next
  case (Suc i)
  have i: "i < 7" using Suc.prems by simp
  let ?st = "words_before A Z i" and ?n = "level_offsets A Z i"
  have next_st: "words_before A Z (Suc i) = ?st + level_words ?n" by (simp add: words_before_def)
  from Suc.IH Suc.prems next_st obtain bs where
    f: "foldl (init_block MemoryBlockPageShifts NumMemoryBlockPageShifts) (h, 0) [0..<i] =
      (h\<lparr>m_blocks := bs\<rparr>, ?st)" and len: "length bs = 7" and keep: "\<forall>j\<in>{i..<7}. bs ! j = m_blocks h ! j" and
    old: "\<forall>j<i. m_block_shift (bs ! j) = block_shift j \<and>
       m_next_block_shift (bs ! j) = (if j < 6 then block_shift (Suc j) else 0) \<and>
       blk_heap_address (bs ! j) = AlignDown A (2 ^ level_align j) \<and>
       m_end_offset (bs ! j) = level_offsets A Z j \<and>
       bitmap_ok (level_offsets A Z j) (m_bitmap (bs ! j)) mem \<and> free_set (m_bitmap (bs ! j)) mem = {} \<and>
       region (m_bitmap (bs ! j)) \<subseteq> {words_before A Z j..<words_before A Z (Suc j)}"
    unfolding A_def Z_def by auto
  have bi: "bs ! i = m_blocks h ! i" using keep i by simp
  from level_extent [OF e i] have n: "0 < ?n" "?n < 2 ^ 24" unfolding A_def Z_def by auto
  have depth: "GetRequiredDepth ?n \<le> MaxDepth" using depth_bound [of ?n 4] n(2) by (simp add: MaxDepth_def)
  obtain bm' st' where I: "bitmap_Initialize ?st ?n (bitmap_of h i) = (bm', st')" by fastforce
  have zero: "mem ! k = 0" if "k < length mem" for k using mem(2) that by simp
  have st': "st' = ?st + level_words ?n"
    using I bitmap_Initialize_ok(4) [OF n(1) _ depth _ _ I, of "replicate st' 0"] n(2) bm i
    by (simp add: level_words_def)
  note ok = bitmap_Initialize_ok [OF n(1) _ depth _ _ I, of mem]
  have ok: "bitmap_ok ?n bm' mem" "free_set bm' mem = {}" "region bm' \<subseteq> {?st..<st'}"
    using ok n(2) bm i zero Suc.prems(2) st' next_st unfolding A_def Z_def by auto
  define blk where "blk = \<lparr>m_bitmap = bm', blk_heap_address = AlignDown A (2 ^ level_align i),
    m_end_offset = ?n, m_block_shift = block_shift i,
    m_next_block_shift = (if i < 6 then block_shift (Suc i) else 0)\<rparr>"
  have al: "(if (if i < 6 then block_shift (Suc i) else 0) \<noteq> 0
      then 2 ^ (if i < 6 then block_shift (Suc i) else 0) else 2 ^ block_shift i) = (2::nat) ^ level_align i"
  proof (cases "i < 6")
    case True
    then show ?thesis using level_align_size(3) [of "Suc i"] by (simp add: level_align_def)
  next
    case False
    then have "i = 6" using i by simp
    then show ?thesis by (simp add: level_align_def)
  qed
  have "blk_Initialize A Z (block_shift i) (if i < 6 then block_shift (Suc i) else 0) ?st (m_blocks h ! i) =
      (blk, st')"
    unfolding blk_Initialize_def Let_def al
    using I by (simp only: level_offsets_def [symmetric] prod.case blk_def)
  then have step: "init_block MemoryBlockPageShifts NumMemoryBlockPageShifts (h\<lparr>m_blocks := bs\<rparr>, ?st) i =
      (h\<lparr>m_blocks := bs[i := blk]\<rparr>, st')"
    using init_block_step [OF i, of "h\<lparr>m_blocks := bs\<rparr>" ?st] len bi by (simp add: A_def Z_def)
  have "foldl (init_block MemoryBlockPageShifts NumMemoryBlockPageShifts) (h, 0) [0..<Suc i] =
      (h\<lparr>m_blocks := bs[i := blk]\<rparr>, words_before A Z (Suc i))"
    using f step st' next_st by simp
  moreover have "bs[i := blk] ! j = (if j = i then blk else bs ! j)" for j using len i by simp
  ultimately show ?case
    using len keep old ok st' next_st
    by (intro exI [of _ "bs[i := blk]"]) (auto simp: less_Suc_eq blk_def)
qed

section \<open>The management area is big enough\<close>

lemma GetRequiredDepth_mono: "n \<le> m \<Longrightarrow> GetRequiredDepth n \<le> GetRequiredDepth m"
proof (induction n arbitrary: m rule: GetRequiredDepth.induct)
  case (1 n)
  show ?case
  proof (cases "n div 64 = 0")
    case True
    then show ?thesis by (simp add: GetRequiredDepth.simps [of n] GetRequiredDepth.simps [of m])
  next
    case False
    have le: "n div 64 \<le> m div 64" using 1(2) by (rule div_le_mono)
    with False have "m div 64 \<noteq> 0" by linarith
    with False 1(1) [OF False le] show ?thesis
      by (simp add: GetRequiredDepth.simps [of n] GetRequiredDepth.simps [of m])
  qed
qed

lemma overhead_bits_size: "s \<le> t \<Longrightarrow> t + 64 < 2 ^ 64 \<Longrightarrow> overhead_bits j s \<le> overhead_bits j t"
proof (induction j arbitrary: s t)
  case (Suc j)
  have "s + 64 < 2 ^ 64" using Suc.prems by linarith
  then have "ceil64 s \<le> ceil64 t"
    using Suc.prems ceil64_eq [of s] ceil64_eq [of t] by (simp add: div_le_mono)
  moreover have "ceil64 t + 64 < 2 ^ 64" using ceil64_bounds(4) [OF Suc.prems(2)] Suc.prems(2) by linarith
  ultimately show ?case using Suc.IH [of "ceil64 s" "ceil64 t"] by (simp add: Let_def)
qed simp

lemma overhead_bits_bound: "t + 64 < 2 ^ 64 \<Longrightarrow> overhead_bits j t \<le> j * t"
proof (induction j arbitrary: t)
  case (Suc j)
  have le: "ceil64 t \<le> t" by (rule ceil64_bounds(4) [OF Suc.prems])
  then have "overhead_bits j (ceil64 t) \<le> j * ceil64 t" using Suc.prems by (intro Suc.IH) linarith
  also have "\<dots> \<le> j * t" using le by (rule mult_le_mono2)
  finally show ?case using le by (simp add: Let_def)
qed simp

lemma level_words_mono: "n \<le> m \<Longrightarrow> m + 64 < 2 ^ 64 \<Longrightarrow> level_words n \<le> level_words m"
  unfolding level_words_def
  using overhead_bits_mono [OF GetRequiredDepth_mono, of n m n] overhead_bits_size [of n m "GetRequiredDepth m"]
  by (meson order_trans)

text \<open>The offsets the size calculation allows for at a level.\<close>

definition planned_offsets :: "nat \<Rightarrow> nat \<Rightarrow> nat" where
  "planned_offsets sz i = (2 ^ level_align i * 2 + AlignUp sz (2 ^ level_align i)) div 2 ^ block_shift i"

lemma planned_small:
  assumes "sz \<le> 2 ^ 35" "i < 7"
  shows "planned_offsets sz i < 2 ^ 24" "level_words (planned_offsets sz i) \<le> 2 ^ 26"
proof -
  let ?al = "2 ^ level_align i :: nat" and ?s = "2 ^ block_shift i :: nat"
  note la = level_align_size [OF assms(2)]
  have al30: "?al \<le> 2 ^ 30" using la(1) by (intro power_increasing) simp_all
  have al: "?al \<le> 64 * ?s"
    using la(4) fan_bounds(1) [of i] by (auto intro!: mult_le_mono1 less_imp_le)
  have s12: "4096 \<le> ?s" using power_increasing [OF la(3), of "2::nat"] by simp
  have "AlignUp sz ?al < sz + ?al" using assms(1) al30 by (intro AlignUp_bounds(3)) simp_all
  then have "?al * 2 + AlignUp sz ?al < 2 ^ 35 + 256 * ?s" using assms(1) al by linarith
  moreover have "planned_offsets sz i * ?s \<le> ?al * 2 + AlignUp sz ?al" by (simp add: planned_offsets_def)
  ultimately have "planned_offsets sz i * ?s < 2 ^ 35 + 256 * ?s" by linarith
  then show small: "planned_offsets sz i < 2 ^ 24" using s12 by (rule few_blocks)
  have "level_words (planned_offsets sz i) \<le> GetRequiredDepth (planned_offsets sz i) * planned_offsets sz i"
    unfolding level_words_def using small by (intro overhead_bits_bound) simp
  also have "\<dots> \<le> 4 * planned_offsets sz i"
    using depth_bound [of "planned_offsets sz i" 4] small by (intro mult_le_mono1) simp
  finally show "level_words (planned_offsets sz i) \<le> 2 ^ 26" using small by simp
qed

lemma management_size_enough:
  assumes e: "good_extent address sz"
  shows "words_before address sz 7 * 8 \<le> heap_CalculateManagementOverheadSize sz"
proof -
  let ?w = "\<lambda>i. level_words (planned_offsets sz i)"
  have sz: "sz \<le> 2 ^ 35" using e by (simp add: good_extent_def)
  have calc: "blk_CalculateManagementOverheadSize sz (block_shift i)
      (if i \<noteq> NumMemoryBlockPageShifts - 1 then MemoryBlockPageShifts ! (i + 1) else 0) = ?w i * 8"
    if i: "i < 7" for i
  proof (cases "i < 6")
    case True
    then have "0 < block_shift (Suc i)" using level_align_size(3) [of "Suc i"] by simp
    with True show ?thesis
      by (simp add: blk_CalculateManagementOverheadSize_def NumMemoryBlockPageShifts_def Let_def
          bitmap_CalculateManagementOverheadSize_def level_words_def planned_offsets_def level_align_def)
  next
    case False
    then have "i = 6" using i by simp
    then show ?thesis
      by (simp add: blk_CalculateManagementOverheadSize_def NumMemoryBlockPageShifts_def Let_def
          bitmap_CalculateManagementOverheadSize_def level_words_def planned_offsets_def level_align_def)
  qed
  have fold: "foldl (\<lambda>n i. n + f i) c [0..<m] = c + (\<Sum>i<m. f i)" for f :: "nat \<Rightarrow> nat" and c m
    by (induction m) (auto simp: add.assoc)
  let ?S = "(\<Sum>i<7. ?w i * 8)"
  have total: "heap_CalculateManagementOverheadSize sz = AlignUp ?S PageSize"
    unfolding heap_CalculateManagementOverheadSize_def fold
    using calc by (simp add: NumMemoryBlockPageShifts_def)
  have "?S \<le> (\<Sum>i<(7::nat). 2 ^ 26 * 8)"
    using planned_small(2) [OF sz] by (intro sum_mono mult_le_mono1) simp
  then have "?S + PageSize < 2 ^ 64" by (simp add: PageSize_def)
  then have "?S \<le> heap_CalculateManagementOverheadSize sz"
    unfolding total by (intro AlignUp_bounds(1)) (simp add: PageSize_def)
  moreover have "words_before address sz 7 * 8 \<le> ?S"
    unfolding words_before_def sum_distrib_right
  proof (intro sum_mono mult_le_mono1)
    fix i :: nat assume "i \<in> {..<7}"
    then have i: "i < 7" by simp
    from level_extent [OF e i] have "level_offsets address sz i \<le> planned_offsets sz i"
      by (auto simp: planned_offsets_def)
    then show "level_words (level_offsets address sz i) \<le> ?w i"
      using planned_small(1) [OF sz i] by (intro level_words_mono) simp_all
  qed
  ultimately show ?thesis by linarith
qed

lemma buddies_nonempty: "i < 6 \<Longrightarrow> buddies page_shift i g \<noteq> {}"
  using fan_bounds(2) [of i] by (simp add: buddies_interval)

lemma words_before_mono: "i \<le> j \<Longrightarrow> words_before address sz i \<le> words_before address sz j"
  unfolding words_before_def by (rule sum_mono2) auto

lemma heap_Initialize_spec:
  assumes e: "good_extent address sz" and m: "heap_CalculateManagementOverheadSize sz \<le> msize"
    and h_def: "h = heap_Initialize address sz msize (new_KPageHeap seed)"
  shows "heap_ok h" "free_pages h = {}" "m_heap_address h = address" "m_heap_size h = sz"
    "length (m_management_data h) = msize div 8" "i < 7 \<Longrightarrow> region (bitmap_of h i) \<subseteq> {..<msize div 8}"
proof -
  let ?mem = "replicate (msize div 8) 0 :: storage"
  define h0 where "h0 = (new_KPageHeap seed)\<lparr>m_heap_address := address, m_heap_size := sz,
    m_num_blocks := NumMemoryBlockPageShifts, m_management_data := ?mem\<rparr>"
  have len0: "length (m_blocks h0) = 7" by (simp add: h0_def new_KPageHeap_def NumMemoryBlockPageShifts_def)
  have bm0: "\<forall>j<7. length (m_bit_storages (bitmap_of h0 j)) = MaxDepth \<and>
      length (m_end_storages (bitmap_of h0 j)) = MaxDepth"
    by (simp add: h0_def new_KPageHeap_def NumMemoryBlockPageShifts_def new_KPageBitmap_def)
  have f0: "m_heap_address h0 = address" "m_heap_size h0 = sz" by (simp_all add: h0_def)
  have "words_before address sz 7 * 8 \<le> msize" using management_size_enough [OF e] m by linarith
  then have fit: "words_before address sz 7 \<le> msize div 8" by (simp add: less_eq_div_iff_mult_less_eq)
  from init_blocks [OF len0 _ bm0, of 7 ?mem] e fit f0 obtain bs where
    r: "foldl (init_block MemoryBlockPageShifts NumMemoryBlockPageShifts) (h0, 0) [0..<7] =
      (h0\<lparr>m_blocks := bs\<rparr>, words_before address sz 7)" and len: "length bs = 7" and
    all: "\<And>j. j < 7 \<Longrightarrow> m_block_shift (bs ! j) = block_shift j \<and>
       m_next_block_shift (bs ! j) = (if j < 6 then block_shift (Suc j) else 0) \<and>
       blk_heap_address (bs ! j) = AlignDown address (2 ^ level_align j) \<and>
       m_end_offset (bs ! j) = level_offsets address sz j \<and>
       bitmap_ok (level_offsets address sz j) (m_bitmap (bs ! j)) ?mem \<and>
       free_set (m_bitmap (bs ! j)) ?mem = {} \<and>
       region (m_bitmap (bs ! j)) \<subseteq> {words_before address sz j..<words_before address sz (Suc j)}"
    by (auto simp: in_set_replicate)
  have h: "h = h0\<lparr>m_blocks := bs\<rparr>"
    using r by (simp add: h_def heap_Initialize_def h0_def new_KPageHeap_def NumMemoryBlockPageShifts_def Let_def)
  show flds: "m_heap_address h = address" "m_heap_size h = sz" by (simp_all add: h h0_def)
  show "length (m_management_data h) = msize div 8" by (simp add: h h0_def)
  have mem: "m_management_data h = ?mem" by (simp add: h h0_def)
  have lev: "level_shape h j" if j: "j < 7" for j
  proof -
    obtain b where B: "AlignDown address (2 ^ level_align j) = b * 2 ^ block_shift j \<and> 0 < b \<and>
      b * 2 ^ block_shift j \<le> address \<and>
      address + sz \<le> (b + level_offsets address sz j) * 2 ^ block_shift j \<and>
      (b + level_offsets address sz j) * 2 ^ block_shift j < 2 ^ 64 \<and>
      (j < 6 \<longrightarrow> b mod fan j = 0 \<and> level_offsets address sz j mod fan j = 0) \<and>
      0 < level_offsets address sz j \<and> level_offsets address sz j < 2 ^ 24 \<and>
      level_offsets address sz j \<le>
        (2 ^ level_align j * 2 + AlignUp sz (2 ^ level_align j)) div 2 ^ block_shift j"
      using level_extent [OF e j] by (rule exE)
    note b = B [THEN conjunct1] B [THEN conjunct2]
    have "base h j = b" using all [OF j] b(1) by (simp add: base_def h)
    with all [OF j] b flds show ?thesis by (simp add: level_shape_def h Let_def)
  qed
  have reg: "region (bitmap_of h j) \<subseteq> {words_before address sz j..<words_before address sz (Suc j)}" if "j < 7" for j
    using all [OF that] by (simp add: h)
  have disj: "region (bitmap_of h j) \<inter> region (bitmap_of h k) = {}" if "j < k" "k < 7" for j k
    using reg [of j] reg [of k] words_before_mono [of "Suc j" k address sz] that by fastforce
  have disj2: "region (bitmap_of h j) \<inter> region (bitmap_of h k) = {}" if "j < 7" "k < 7" "j \<noteq> k" for j k
    using disj [of j k] disj [of k j] that by (cases "j < k") auto
  have shape: "heap_shape h"
    unfolding heap_shape_def
    using e lev disj2 all len flds by (simp add: h h0_def good_extent_def NumMemoryBlockPageShifts_def mem)
  have F: "free_blocks h = (\<lambda>_. {})" using all by (auto simp: fun_eq_iff free_blocks_def h h0_def)
  show fp: "free_pages h = {}" by (simp add: free_pages_def free_in_def F)
  have "buddy_ok page_shift 7 (free_blocks h)" using buddies_nonempty by (auto simp: buddy_ok_def F)
  with shape fp show "heap_ok h" by (simp add: heap_ok_def)
  show "region (bitmap_of h i) \<subseteq> {..<msize div 8}" if "i < 7"
    using reg [OF that] words_before_mono [of "Suc i" 7 address sz] fit that by auto
qed

end
