(* ===== verification/Page_Heap_Laws.thy ===== *)
theory Page_Heap_Laws
  imports Page_Heap_Alloc Page_Heap_Init
begin

text \<open>
  The properties of the page heap: initialisation stays inside its management area, freeing adds
  exactly the pages it is given, and both ways of allocating take exactly the pages they return and
  fail only when no block of the size is free.
\<close>

section \<open>The size for a request\<close>

lemma find_upt_Some:
  "find P [a..<b] = Some i \<Longrightarrow> P i \<and> a \<le> i \<and> i < b \<and> (\<forall>j. a \<le> j \<longrightarrow> j < i \<longrightarrow> \<not> P j)"
proof (induction "b - a" arbitrary: a)
  case (Suc n)
  then have "[a..<b] = a # [Suc a..<b]" by (simp add: upt_conv_Cons)
  with Suc.prems Suc.hyps(2) have "P a \<and> i = a \<or> \<not> P a \<and> find P [Suc a..<b] = Some i" "a < b"
    by (auto split: if_splits)
  then show ?case
  proof (elim disjE conjE)
    assume "\<not> P a" "find P [Suc a..<b] = Some i"
    with Suc.hyps(1) [of "Suc a"] Suc.hyps(2)
    have R: "P i" "Suc a \<le> i" "i < b" "\<And>j. Suc a \<le> j \<Longrightarrow> j < i \<Longrightarrow> \<not> P j" by auto
    have "\<not> P j" if "a \<le> j" "j < i" for j using R(4) [of j] \<open>\<not> P a\<close> that by (cases "j = a") auto
    with R show ?thesis by auto
  qed auto
qed simp

lemma GetAlignedBlockIndex_spec:
  assumes "GetAlignedBlockIndex n m = int i"
  shows "i < 7" "n \<le> 2 ^ page_shift i" "m \<le> 2 ^ page_shift i"
proof -
  have "find (\<lambda>i. max n m \<le> 2 ^ block_shift i div PageSize) [0..<7] = Some i"
    using assms by (auto simp: GetAlignedBlockIndex_def NumMemoryBlockPageShifts_def split: option.splits)
  from find_upt_Some [OF this] have i: "i < 7" and le: "max n m \<le> 2 ^ block_shift i div PageSize" by auto
  show "i < 7" by (fact i)
  have "2 ^ block_shift i div PageSize = 2 ^ page_shift i"
    using block_size_pages [OF i] by (simp add: PageSize_def)
  with le show "n \<le> 2 ^ page_shift i" "m \<le> 2 ^ page_shift i" by auto
qed

section \<open>Properties\<close>

text \<open>
  A heap initialised on a page-aligned extent, with at least the management area that
  \<open>CalculateManagementOverheadSize\<close> asks for, satisfies its invariant, has no free page, and no
  bitmap of any block size reaches outside the area or into the words of another size.\<close>

theorem heap_Initialize_in_bounds:
  assumes "good_extent address sz" "heap_CalculateManagementOverheadSize sz \<le> msize"
    and "h = heap_Initialize address sz msize (new_KPageHeap seed)"
  shows "heap_ok h \<and> free_pages h = {} \<and> GetNumFreePages h = 0 \<and>
    heap_pages h = {address div PageSize..<(address + sz) div PageSize} \<and>
    (\<forall>i<7. region (bitmap_of h i) \<subseteq> {..<length (m_management_data h)}) \<and>
    (\<forall>i<7. \<forall>j<7. i \<noteq> j \<longrightarrow> region (bitmap_of h i) \<inter> region (bitmap_of h j) = {})"
proof -
  note I = heap_Initialize_spec [OF assms]
  have "GetNumFreePages h = 0" using GetNumFreePages_card [OF I(1)] I(2) by simp
  moreover have "\<forall>i<7. \<forall>j<7. i \<noteq> j \<longrightarrow> region (bitmap_of h i) \<inter> region (bitmap_of h j) = {}"
    using I(1) by (simp add: heap_ok_def heap_shape_def)
  ultimately show ?thesis using I by (simp add: heap_pages_def)
qed

definition sample_heap :: KPageHeap where
  "sample_heap = heap_Initialize 0x80000000 0x40000 (heap_CalculateManagementOverheadSize 0x40000) (new_KPageHeap 7)"

definition filled_heap :: KPageHeap where
  "filled_heap = heap_Free 0x80000000 0x40 sample_heap"

lemma sample_extent: "good_extent 0x80000000 0x40000"
  by (simp add: good_extent_def PageSize_def)

lemma sample_heap_spec:
  "heap_ok sample_heap" "free_pages sample_heap = {}" "heap_pages sample_heap = {0x80000..<0x80040}"
  using heap_Initialize_spec [OF sample_extent order_refl refl, of 7]
  by (simp_all add: sample_heap_def heap_pages_def PageSize_def)

lemma sample_freeable: "freeable {0x80000..<0x80000 + 0x40} sample_heap"
  using sample_heap_spec by (simp add: freeable_def)

lemma filled_heap_spec: "heap_ok filled_heap" "free_pages filled_heap = {0x80000..<0x80040}"
  using heap_Free_adds [OF sample_freeable] sample_heap_spec(2) by (simp_all add: adds_def filled_heap_def PageSize_def)

theorem heap_Initialize_in_bounds_witness:
  "heap_ok sample_heap \<and> GetNumFreePages sample_heap = 0 \<and> heap_pages sample_heap = {0x80000..<0x80040} \<and>
   region (bitmap_of sample_heap 3) \<subseteq> {..<length (m_management_data sample_heap)}"
  using heap_Initialize_in_bounds [OF sample_extent order_refl refl, of 7]
  by (simp add: sample_heap_def [symmetric] PageSize_def)

text \<open>
  C21. Freeing pages of the heap that are not free adds exactly them to the free pages, whatever
  blocks they coalesce into; the count of free pages grows by their number and the invariant is
  kept.\<close>

theorem heap_Free_exact:
  assumes "freeable {s..<s + n} h" "h' = heap_Free (s * PageSize) n h"
  shows "heap_ok h' \<and> free_pages h' = free_pages h \<union> {s..<s + n} \<and> heap_pages h' = heap_pages h \<and>
    GetNumFreePages h' = GetNumFreePages h + n"
proof -
  have a: "adds {s..<s + n} h h'" using heap_Free_adds [OF assms(1)] assms(2) by simp
  have fin: "finite (free_pages h)" and disj: "free_pages h \<inter> {s..<s + n} = {}" and ok: "heap_ok h"
    using assms(1) by (auto simp: freeable_def heap_ok_def heap_pages_def dest: finite_subset)
  have "card (free_pages h \<union> {s..<s + n}) = card (free_pages h) + n"
    using card_Un_disjoint [OF fin _ disj] by simp
  with a GetNumFreePages_card [of h'] GetNumFreePages_card [OF ok] show ?thesis by (simp add: adds_def)
qed

theorem heap_Free_exact_witness:
  "heap_ok filled_heap \<and> free_pages filled_heap = {0x80000..<0x80040} \<and> GetNumFreePages filled_heap = 0x40"
  using heap_Free_exact [OF sample_freeable refl] sample_heap_spec(2) GetNumFreePages_card [OF sample_heap_spec(1)]
  by (simp add: filled_heap_def PageSize_def)

text \<open>
  C22. \<open>AllocateBlock\<close>, linear or random, succeeds exactly when some aligned block of the asked
  size consists of free pages, even when those pages are only part of bigger blocks or of
  neighbouring smaller ones that coalesced. It returns the address of such a block and takes exactly
  the pages of that block; otherwise it returns 0 and no page changes.\<close>

theorem AllocateBlock_exact:
  assumes "heap_ok h" "index < 7" "AllocateBlock index random h = (addr, h')"
  shows "heap_ok h' \<and> heap_pages h' = heap_pages h \<and>
    (if \<exists>a. block_pages page_shift index a \<subseteq> free_pages h
     then \<exists>a. addr = a * 2 ^ block_shift index \<and> addr \<noteq> 0 \<and>
       block_pages page_shift index a \<subseteq> free_pages h \<and>
       free_pages h' = free_pages h - block_pages page_shift index a \<and>
       GetNumFreePages h' + 2 ^ page_shift index = GetNumFreePages h
     else addr = 0 \<and> free_pages h' = free_pages h)"
proof -
  note S = AllocateBlock_spec [OF assms]
  have "GetNumFreePages h' + 2 ^ page_shift index = GetNumFreePages h"
    if "block_pages page_shift index a \<subseteq> free_pages h"
      "free_pages h' = free_pages h - block_pages page_shift index a" for a
    using that S GetNumFreePages_card [OF assms(1)] GetNumFreePages_card [of h']
      card_taken [OF assms(1) that(1)] by (simp add: card_block_pages)
  with S show ?thesis by (auto split: if_splits)
qed

theorem AllocateBlock_exact_witness:
  "case AllocateBlock 1 True filled_heap of (addr, h') \<Rightarrow> heap_ok h' \<and> addr \<noteq> 0 \<and> GetNumFreePages h' = 0x30"
proof -
  obtain addr h' where r: "AllocateBlock 1 True filled_heap = (addr, h')" by fastforce
  have "block_pages page_shift 1 0x8000 \<subseteq> free_pages filled_heap"
    by (auto simp: block_pages_interval filled_heap_spec page_shift_def MemoryBlockPageShifts_def)
  then have "\<exists>a. block_pages page_shift 1 a \<subseteq> free_pages filled_heap" by blast
  with AllocateBlock_exact [OF filled_heap_spec(1) _ r]
  have "heap_ok h'" "addr \<noteq> 0" "GetNumFreePages h' + 2 ^ page_shift 1 = GetNumFreePages filled_heap" by auto
  with GetNumFreePages_card [OF filled_heap_spec(1)] r show ?thesis
    by (simp add: filled_heap_spec(2) page_shift_def MemoryBlockPageShifts_def)
qed

text \<open>
  \<open>AllocateAligned\<close> at the size \<open>GetAlignedBlockIndex\<close> chooses for a request of \<open>n\<close> pages
  aligned to \<open>2 ^ k\<close> pages: when some block of that size consists of free pages it returns a start
  with the alignment and takes exactly \<open>n\<close> free pages from there, the rest of the block it cut going
  back to the heap; otherwise it returns 0 and no page changes.\<close>

theorem AllocateAligned_exact:
  assumes "heap_ok h" "0 < n" "GetAlignedBlockIndex n (2 ^ k) = int index"
    "AllocateAligned index n (2 ^ k) h = (addr, h')"
  shows "heap_ok h' \<and> heap_pages h' = heap_pages h \<and>
    (if \<exists>a. block_pages page_shift index a \<subseteq> free_pages h
     then \<exists>s. addr = s * PageSize \<and> addr \<noteq> 0 \<and> 2 ^ k dvd s \<and> {s..<s + n} \<subseteq> free_pages h \<and>
       free_pages h' = free_pages h - {s..<s + n} \<and> GetNumFreePages h' + n = GetNumFreePages h
     else addr = 0 \<and> free_pages h' = free_pages h)"
proof -
  note ix = GetAlignedBlockIndex_spec [OF assms(3)]
  have k: "k \<le> page_shift index" using ix(3) by (simp add: power_le_imp_le_exp)
  note S = AllocateByRandom_spec [OF assms(1) ix(1) assms(2) ix(2) k assms(4) [unfolded AllocateAligned_def]]
  have "GetNumFreePages h' + n = GetNumFreePages h"
    if "{s..<s + n} \<subseteq> free_pages h" "free_pages h' = free_pages h - {s..<s + n}" for s
    using that S GetNumFreePages_card [OF assms(1)] GetNumFreePages_card [of h']
      card_taken [OF assms(1) that(1)] by simp
  with S show ?thesis by (auto split: if_splits)
qed

theorem AllocateAligned_exact_witness:
  "case AllocateAligned 1 5 4 filled_heap of (addr, h') \<Rightarrow> heap_ok h' \<and> addr \<noteq> 0 \<and> GetNumFreePages h' = 0x3B"
proof -
  obtain addr h' where r: "AllocateAligned 1 5 (2 ^ 2) filled_heap = (addr, h')" by fastforce
  have ix: "GetAlignedBlockIndex 5 (2 ^ 2) = int 1"
    by (simp add: GetAlignedBlockIndex_def MemoryBlockPageShifts_def NumMemoryBlockPageShifts_def PageSize_def
        upt_rec)
  have "block_pages page_shift 1 0x8000 \<subseteq> free_pages filled_heap"
    by (auto simp: block_pages_interval filled_heap_spec page_shift_def MemoryBlockPageShifts_def)
  then have "\<exists>a. block_pages page_shift 1 a \<subseteq> free_pages filled_heap" by blast
  with AllocateAligned_exact [OF filled_heap_spec(1) _ ix r]
  have "heap_ok h'" "addr \<noteq> 0" "GetNumFreePages h' + 5 = GetNumFreePages filled_heap" by (simp_all split: if_splits) (elim exE conjE, simp)+
  with GetNumFreePages_card [OF filled_heap_spec(1)] r show ?thesis
    by (simp add: filled_heap_spec(2))
qed

end
