(* ===== verification/KMemoryRegion.thy ===== *)
theory KMemoryRegion
  imports Nx_Prelude
begin

text \<open>
  Memory regions and their tree: \<^verbatim>\<open>src/src/core/hle/kernel/k_memory_region.h\<close> and the
  operations of the tree in \<^verbatim>\<open>src/src/core/hle/kernel/k_memory_layout.cpp\<close>, with the region
  types of \<^verbatim>\<open>src/src/core/hle/kernel/k_memory_region_type.h\<close> that name the page pools.

  A tree is the list of its regions in the order of its nodes, which the comparison makes the order
  of their addresses. \<open>None\<close> is the use of a null pointer. That a layout has at most 200 regions is
  an assertion of the allocator of the nodes, which is not modelled.
\<close>

section \<open>Regions\<close>

record KMemoryRegion =
  r_address :: nat
  r_last_address :: nat
  r_pair_address :: nat
  r_attributes :: nat
  r_type_id :: u32

definition region_GetEndAddress :: "KMemoryRegion \<Rightarrow> nat" where
  "region_GetEndAddress r = add64 (r_last_address r) 1"

definition region_GetSize :: "KMemoryRegion \<Rightarrow> nat" where
  "region_GetSize r = sub64 (region_GetEndAddress r) (r_address r)"

definition region_Contains :: "KMemoryRegion \<Rightarrow> nat \<Rightarrow> bool" where
  "region_Contains r addr \<longleftrightarrow> r_address r \<le> addr \<and> addr \<le> r_last_address r"

definition IsDerivedFrom :: "KMemoryRegion \<Rightarrow> u32 \<Rightarrow> bool" where
  "IsDerivedFrom r type \<longleftrightarrow> r_type_id r OR type = r_type_id r"

definition HasTypeAttribute :: "KMemoryRegion \<Rightarrow> u32 \<Rightarrow> bool" where
  "HasTypeAttribute r attr \<longleftrightarrow> r_type_id r OR attr = r_type_id r"

definition CanDerive :: "KMemoryRegion \<Rightarrow> u32 \<Rightarrow> bool" where
  "CanDerive r type \<longleftrightarrow> r_type_id r OR type = type"

definition region_SetType :: "u32 \<Rightarrow> KMemoryRegion \<Rightarrow> KMemoryRegion" where
  "region_SetType type r = r\<lparr>r_type_id := type\<rparr>"

definition region_SetPairAddress :: "nat \<Rightarrow> KMemoryRegion \<Rightarrow> KMemoryRegion" where
  "region_SetPairAddress a r = r\<lparr>r_pair_address := a\<rparr>"

definition region_SetTypeAttribute :: "u32 \<Rightarrow> KMemoryRegion \<Rightarrow> KMemoryRegion" where
  "region_SetTypeAttribute attr r = r\<lparr>r_type_id := r_type_id r OR attr\<rparr>"

text \<open>The comparison of the tree: a region against the node it is sought at.\<close>

definition region_Compare :: "KMemoryRegion \<Rightarrow> KMemoryRegion \<Rightarrow> int" where
  "region_Compare lhs rhs =
     (if r_address lhs < r_address rhs then -1
      else if r_address lhs \<le> r_last_address rhs then 0
      else 1)"

section \<open>Region types\<close>

definition KMemoryRegionAttr_CarveoutProtected :: u32 where
  "KMemoryRegionAttr_CarveoutProtected = 0x02000000"

definition KMemoryRegionAttr_NoUserMap :: u32 where
  "KMemoryRegionAttr_NoUserMap = 0x40000000"

definition KMemoryRegionAttr_LinearMapped :: u32 where
  "KMemoryRegionAttr_LinearMapped = 0x80000000"

definition KMemoryRegionType_DramUserPool :: u32 where
  "KMemoryRegionType_DramUserPool = 0x266 OR KMemoryRegionAttr_LinearMapped OR KMemoryRegionAttr_NoUserMap"

definition KMemoryRegionType_DramApplicationPool :: u32 where
  "KMemoryRegionType_DramApplicationPool =
     0xE66 OR KMemoryRegionAttr_LinearMapped OR KMemoryRegionAttr_NoUserMap"

definition KMemoryRegionType_DramAppletPool :: u32 where
  "KMemoryRegionType_DramAppletPool =
     0x1666 OR KMemoryRegionAttr_LinearMapped OR KMemoryRegionAttr_NoUserMap"

definition KMemoryRegionType_DramSystemNonSecurePool :: u32 where
  "KMemoryRegionType_DramSystemNonSecurePool =
     0x1A66 OR KMemoryRegionAttr_LinearMapped OR KMemoryRegionAttr_NoUserMap"

definition KMemoryRegionType_DramSystemPool :: u32 where
  "KMemoryRegionType_DramSystemPool =
     0x2666 OR KMemoryRegionAttr_LinearMapped OR KMemoryRegionAttr_NoUserMap OR
       KMemoryRegionAttr_CarveoutProtected"

section \<open>The tree\<close>

type_synonym region_tree = "KMemoryRegion list"

text \<open>A sought address stands for the region of that one byte.\<close>

definition probe :: "nat \<Rightarrow> KMemoryRegion" where
  "probe address =
     \<lparr>r_address = address, r_last_address = address, r_pair_address = 2 ^ 64 - 1, r_attributes = 0,
      r_type_id = 0\<rparr>"

definition region_Find :: "nat \<Rightarrow> region_tree \<Rightarrow> KMemoryRegion option" where
  "region_Find address tree = find (\<lambda>r. region_Compare (probe address) r = 0) tree"

definition FindByType :: "u32 \<Rightarrow> region_tree \<Rightarrow> KMemoryRegion option" where
  "FindByType type_id tree = find (\<lambda>r. r_type_id r = type_id) tree"

definition FindByTypeAndAttribute :: "u32 \<Rightarrow> nat \<Rightarrow> region_tree \<Rightarrow> KMemoryRegion option" where
  "FindByTypeAndAttribute type_id attr tree =
     find (\<lambda>r. r_type_id r = type_id \<and> r_attributes r = attr) tree"

definition FindFirstDerived :: "u32 \<Rightarrow> region_tree \<Rightarrow> KMemoryRegion option" where
  "FindFirstDerived type_id tree = find (\<lambda>r. IsDerivedFrom r type_id) tree"

definition FindLastDerived :: "u32 \<Rightarrow> region_tree \<Rightarrow> KMemoryRegion option" where
  "FindLastDerived type_id tree =
     foldl (\<lambda>region r. if IsDerivedFrom r type_id then Some r else region) None tree"

text \<open>The first and the last region of a type; there being none is an assertion.\<close>

definition GetDerivedRegionExtents :: "u32 \<Rightarrow> region_tree \<Rightarrow> (KMemoryRegion \<times> KMemoryRegion) option" where
  "GetDerivedRegionExtents type_id tree =
     (case (FindFirstDerived type_id tree, FindLastDerived type_id tree) of
        (Some f, Some l) \<Rightarrow> Some (f, l)
      | _ \<Rightarrow> None)"

text \<open>
  A random aligned place in a region of a type. The loop draws candidates until one fits; the draws are
  a list, and \<open>None\<close> is that it ends before one does.
\<close>

fun draw_region :: "nat \<Rightarrow> nat \<Rightarrow> u32 \<Rightarrow> nat \<Rightarrow> nat list \<Rightarrow> region_tree \<Rightarrow> nat option" where
  "draw_region sz alignment type_id last_address [] tree = None"
| "draw_region sz alignment type_id last_address (draw # draws) tree =
     (let candidate = mul64 draw alignment;
          candidate_last = sub64 (add64 candidate sz) 1
      in if \<not> candidate < add64 candidate sz then draw_region sz alignment type_id last_address draws tree
         else if candidate_last > last_address then draw_region sz alignment type_id last_address draws tree
         else
           case region_Find candidate tree of
             None \<Rightarrow> None
           | Some candidate_region \<Rightarrow>
               if \<not> (candidate_last \<le> r_last_address candidate_region \<and> r_type_id candidate_region = type_id)
               then draw_region sz alignment type_id last_address draws tree
               else Some candidate)"

text \<open>The draws come from the random range between the two indices, which is a parameter.\<close>

definition GetRandomAlignedRegion ::
  "(nat \<Rightarrow> nat \<Rightarrow> nat list) \<Rightarrow> nat \<Rightarrow> nat \<Rightarrow> u32 \<Rightarrow> region_tree \<Rightarrow> nat option" where
  "GetRandomAlignedRegion GenerateRandomRange sz alignment type_id tree =
     (case GetDerivedRegionExtents type_id tree of
        None \<Rightarrow> None
      | Some (f, l) \<Rightarrow>
          let first_address = r_address f;
              last_address = r_last_address l;
              first_index = first_address div alignment;
              last_index = last_address div alignment
          in draw_region sz alignment type_id last_address (GenerateRandomRange first_index last_index) tree)"

definition GetRandomAlignedRegionWithGuard ::
  "(nat \<Rightarrow> nat \<Rightarrow> nat list) \<Rightarrow> nat \<Rightarrow> nat \<Rightarrow> u32 \<Rightarrow> nat \<Rightarrow> region_tree \<Rightarrow> nat option" where
  "GetRandomAlignedRegionWithGuard GenerateRandomRange sz alignment type_id guard_size tree =
     map_option (\<lambda>a. add64 a guard_size)
       (GetRandomAlignedRegion GenerateRandomRange (add64 sz (mul64 2 guard_size)) alignment type_id tree)"

text \<open>A node that compares equal to one of the tree is not inserted.\<close>

fun tree_insert :: "KMemoryRegion \<Rightarrow> region_tree \<Rightarrow> region_tree" where
  "tree_insert r [] = [r]"
| "tree_insert r (n # tree) =
     (if region_Compare r n < 0 then r # n # tree
      else if region_Compare r n = 0 then n # tree
      else n # tree_insert r tree)"

definition InsertDirectly :: "nat \<Rightarrow> nat \<Rightarrow> nat \<Rightarrow> u32 \<Rightarrow> region_tree \<Rightarrow> region_tree" where
  "InsertDirectly address last_address attr type_id tree =
     tree_insert \<lparr>r_address = address, r_last_address = last_address, r_pair_address = 2 ^ 64 - 1,
       r_attributes = attr, r_type_id = type_id\<rparr> tree"

definition shift_pair :: "nat \<Rightarrow> nat \<Rightarrow> nat" where
  "shift_pair old_pair offset = (if old_pair \<noteq> 2 ^ 64 - 1 then add64 old_pair offset else old_pair)"

definition region_Insert ::
  "nat \<Rightarrow> nat \<Rightarrow> u32 \<Rightarrow> nat \<Rightarrow> nat \<Rightarrow> region_tree \<Rightarrow> (bool \<times> region_tree) option" where
  "region_Insert address sz type_id new_attr old_attr tree =
     (case region_Find address tree of
        None \<Rightarrow> None
      | Some found \<Rightarrow>
          let inserted_region_end = add64 address sz;
              inserted_region_last = sub64 inserted_region_end 1
          in Some (
            if r_attributes found \<noteq> old_attr then (False, tree)
            else if r_last_address found < inserted_region_last then (False, tree)
            else if \<not> CanDerive found type_id then (False, tree)
            else
              let old_address = r_address found;
                  old_last = r_last_address found;
                  old_pair = r_pair_address found;
                  old_type = r_type_id found;
                  tree = remove1 found tree;
                  tree =
                    (if old_address = address
                     then tree_insert \<lparr>r_address = address, r_last_address = inserted_region_last,
                            r_pair_address = old_pair, r_attributes = new_attr, r_type_id = type_id\<rparr> tree
                     else
                       tree_insert \<lparr>r_address = address, r_last_address = inserted_region_last,
                         r_pair_address = shift_pair old_pair (sub64 address old_address),
                         r_attributes = new_attr, r_type_id = type_id\<rparr>
                         (tree_insert \<lparr>r_address = old_address, r_last_address = sub64 address 1,
                            r_pair_address = old_pair, r_attributes = old_attr, r_type_id = old_type\<rparr> tree));
                  tree =
                    (if old_last \<noteq> inserted_region_last
                     then tree_insert \<lparr>r_address = inserted_region_end, r_last_address = old_last,
                            r_pair_address = shift_pair old_pair (sub64 inserted_region_end old_address),
                            r_attributes = old_attr, r_type_id = old_type\<rparr> tree
                     else tree)
              in (True, tree)))"

definition InitializeLinearMemoryRegionTree :: "region_tree \<Rightarrow> region_tree" where
  "InitializeLinearMemoryRegionTree physical_tree =
     foldl (\<lambda>linear r.
        if HasTypeAttribute r KMemoryRegionAttr_LinearMapped
        then InsertDirectly (r_address r) (r_last_address r) (r_attributes r) (r_type_id r) linear
        else linear) [] physical_tree"

end
