(* ===== verification/Memory_Region_Laws.thy ===== *)
theory Memory_Region_Laws
  imports KMemoryRegion
begin

text \<open>
  The tree of memory regions as a map from addresses: insertion cuts the region it falls into, gives the
  inserted range its type and attributes, and leaves every other address as it was.
\<close>

section \<open>Trees in order\<close>

definition tree_ok :: "region_tree \<Rightarrow> bool" where
  "tree_ok tree \<longleftrightarrow> sorted_wrt (\<lambda>a b. r_last_address a < r_address b) tree \<and>
     (\<forall>r\<in>set tree. r_address r \<le> r_last_address r \<and> r_last_address r + 1 < 2 ^ 64 \<and>
        (r_pair_address r = 2 ^ 64 - 1 \<or> r_pair_address r + (r_last_address r - r_address r) < 2 ^ 64 - 1))"

text \<open>What a tree says of an address: attributes, type, and where it is mapped.\<close>

definition region_view :: "KMemoryRegion \<Rightarrow> nat \<Rightarrow> nat \<times> u32 \<times> nat option" where
  "region_view r a = (r_attributes r, r_type_id r,
     if r_pair_address r = 2 ^ 64 - 1 then None else Some (r_pair_address r + (a - r_address r)))"

definition tree_view :: "region_tree \<Rightarrow> nat \<Rightarrow> (nat \<times> u32 \<times> nat option) option" where
  "tree_view tree a = map_option (\<lambda>r. region_view r a) (region_Find a tree)"

lemma Compare_probe: "region_Compare (probe a) r = 0 \<longleftrightarrow> r_address r \<le> a \<and> a \<le> r_last_address r"
  by (auto simp: region_Compare_def probe_def)

lemma find_append: "find P (xs @ ys) = (case find P xs of None \<Rightarrow> find P ys | Some x \<Rightarrow> Some x)"
  by (induction xs) simp_all

lemma tree_view_simps [simp]:
  "tree_view [] a = None"
  "tree_view (r # tree) a = (if r_address r \<le> a \<and> a \<le> r_last_address r then Some (region_view r a) else tree_view tree a)"
  "tree_view (xs @ ys) a = (case tree_view xs a of None \<Rightarrow> tree_view ys a | Some v \<Rightarrow> Some v)"
  by (auto simp: tree_view_def region_Find_def Compare_probe find_append split: option.splits)

lemma tree_insert_between:
  assumes "\<forall>n\<in>set xs. r_address n \<le> r_last_address n \<and> r_last_address n < r_address r" "\<forall>n\<in>set ys. r_address r < r_address n"
  shows "tree_insert r (xs @ ys) = xs @ r # ys"
  using assms
proof (induction xs)
  case Nil
  then show ?case by (cases ys) (auto simp: region_Compare_def)
qed (auto simp: region_Compare_def)

lemma remove1_middle: "found \<notin> set xs \<Longrightarrow> remove1 found (xs @ found # ys) = xs @ ys"
  by (simp add: remove1_append)

lemma found_split:
  assumes ok: "tree_ok tree" and f: "region_Find a tree = Some found"
  obtains xs ys where "tree = xs @ found # ys" "found \<notin> set xs" "r_address found \<le> a" "a \<le> r_last_address found"
    "\<forall>n\<in>set xs. r_address n \<le> r_last_address n \<and> r_last_address n < r_address found"
    "\<forall>n\<in>set ys. r_last_address found < r_address n"
proof -
  have c: "r_address found \<le> a" "a \<le> r_last_address found" "found \<in> set tree"
    using f by (auto simp: region_Find_def find_Some_iff Compare_probe)
  obtain xs ys where t: "tree = xs @ found # ys" "found \<notin> set xs" using split_list_first [OF c(3)] by blast
  with ok c that show ?thesis by (auto simp: tree_ok_def sorted_wrt_append)
qed

section \<open>Insertion\<close>

text \<open>The pieces a region is cut into.\<close>

definition pieces :: "nat \<Rightarrow> nat \<Rightarrow> u32 \<Rightarrow> nat \<Rightarrow> KMemoryRegion \<Rightarrow> region_tree" where
  "pieces address sz type_id new_attr found =
     (if r_address found = address then [] else [found\<lparr>r_last_address := address - 1\<rparr>]) @
     [\<lparr>r_address = address, r_last_address = address + sz - 1,
       r_pair_address = (if r_address found = address then r_pair_address found
         else shift_pair (r_pair_address found) (address - r_address found)),
       r_attributes = new_attr, r_type_id = type_id\<rparr>] @
     (if r_last_address found = address + sz - 1 then []
      else [found\<lparr>r_address := address + sz, r_pair_address := shift_pair (r_pair_address found) (address + sz - r_address found)\<rparr>])"

lemma Insert_pieces:
  assumes ok: "tree_ok tree" and f: "region_Find address tree = Some found" and t: "tree = xs @ found # ys" "found \<notin> set xs"
    and b: "r_address found \<le> address" "address + sz - 1 \<le> r_last_address found" "0 < sz"
    and o: "\<forall>n\<in>set xs. r_address n \<le> r_last_address n \<and> r_last_address n < r_address found" "\<forall>n\<in>set ys. r_last_address found < r_address n"
    and c: "r_attributes found = old_attr" "CanDerive found type_id"
  shows "region_Insert address sz type_id new_attr old_attr tree = Some (True, xs @ pieces address sz type_id new_attr found @ ys)"
proof -
  have l: "r_last_address found + 1 < 2 ^ 64" using ok t by (simp add: tree_ok_def)
  have e: "add64 address sz = address + sz" "sub64 (address + sz) 1 = address + sz - 1" "sub64 address (r_address found) = address - r_address found"
    "sub64 (address + sz) (r_address found) = address + sz - r_address found"
    using l b by (auto intro!: add64_eq sub64_eq)
  have s: "sub64 address 1 = address - 1" if "r_address found \<noteq> address" using that b l by (intro sub64_eq) auto
  let ?left = "found\<lparr>r_last_address := address - 1\<rparr>"
  let ?mid = "\<lambda>p. \<lparr>r_address = address, r_last_address = address + sz - 1, r_pair_address = p, r_attributes = new_attr, r_type_id = type_id\<rparr>"
  let ?right = "found\<lparr>r_address := address + sz, r_pair_address := shift_pair (r_pair_address found) (address + sz - r_address found)\<rparr>"
  have rec: "\<lparr>r_address = r_address found, r_last_address = x, r_pair_address = r_pair_address found, r_attributes = r_attributes found,
      r_type_id = r_type_id found\<rparr> = found\<lparr>r_last_address := x\<rparr>"
    "\<lparr>r_address = x, r_last_address = r_last_address found, r_pair_address = y, r_attributes = r_attributes found,
      r_type_id = r_type_id found\<rparr> = found\<lparr>r_address := x, r_pair_address := y\<rparr>" for x y
    by (cases found; simp)+
  have far: "\<forall>n\<in>set xs. r_address n \<le> r_last_address n \<and> r_last_address n < address" "\<forall>n\<in>set ys. address < r_address n \<and> address + sz < r_address n + 1"
    using o b by fastforce+
  have left: "tree_insert ?left (xs @ ys) = xs @ ?left # ys"
    using o b by (intro tree_insert_between) auto
  have mid: "tree_insert (?mid p) (xs @ zs @ ys) = xs @ zs @ ?mid p # ys"
    if "\<forall>n\<in>set zs. r_address n \<le> r_last_address n \<and> r_last_address n < address" for p zs
    using tree_insert_between [of "xs @ zs" "?mid p" ys] far that by auto
  have right: "tree_insert ?right (xs @ zs @ ?mid p # ys) = xs @ zs @ ?mid p # ?right # ys"
    if "\<forall>n\<in>set zs. r_address n \<le> r_last_address n \<and> r_last_address n < address" "r_last_address found \<noteq> address + sz - 1" for p zs
    using tree_insert_between [of "xs @ zs @ [?mid p]" ?right ys] far o b that by fastforce
  show ?thesis
  proof (cases "r_address found = address")
    case True
    then show ?thesis
      using f b c e mid [of "[]"] right [of "[]"] remove1_middle [OF t(2)]
      by (auto simp: region_Insert_def t(1) pieces_def Let_def rec)
  next
    case False
    have lt: "\<forall>n\<in>set [?left]. r_address n \<le> r_last_address n \<and> r_last_address n < address" using False b by auto
    show ?thesis
      using False f b c e s [OF False] left mid [OF lt] right [OF lt] remove1_middle [OF t(2)]
      by (auto simp: region_Insert_def t(1) pieces_def Let_def rec)
  qed
qed

lemma shift_pair_eq:
  "p = 2 ^ 64 - 1 \<or> p + d < 2 ^ 64 - 1 \<Longrightarrow> shift_pair p d = (if p = 2 ^ 64 - 1 then p else p + d)"
  by (auto simp: shift_pair_def intro!: add64_eq)

lemma shift_pair_none [simp]: "shift_pair 18446744073709551615 d = 18446744073709551615"
  by (simp add: shift_pair_def)

lemma pieces_ok:
  assumes ok: "tree_ok (xs @ found # ys)" and b: "r_address found \<le> address" "address + sz - 1 \<le> r_last_address found" "0 < sz"
  shows "tree_ok (xs @ pieces address sz type_id new_attr found @ ys)"
proof -
  have pr: "r_pair_address found = 2 ^ 64 - 1 \<or> r_pair_address found + (r_last_address found - r_address found) < 2 ^ 64 - 1"
    and l: "r_last_address found + 1 < 2 ^ 64" using ok by (auto simp: tree_ok_def)
  have sh: "shift_pair (r_pair_address found) d = (if r_pair_address found = 2 ^ 64 - 1 then 2 ^ 64 - 1 else r_pair_address found + d)"
    if "d \<le> r_last_address found - r_address found" for d using pr that by (subst shift_pair_eq) auto
  have sorted: "sorted_wrt (\<lambda>a b. r_last_address a < r_address b) (pieces address sz type_id new_attr found)"
    using b by (auto simp: pieces_def)
  have inside: "r_address found \<le> r_address r \<and> r_address r \<le> r_last_address r \<and> r_last_address r \<le> r_last_address found \<and>
      (r_pair_address r = 2 ^ 64 - 1 \<or> r_pair_address r + (r_last_address r - r_address r) < 2 ^ 64 - 1)"
    if "r \<in> set (pieces address sz type_id new_attr found)" for r
  proof -
    have "address - r_address found \<le> r_last_address found - r_address found" using b by simp
    moreover have "address + sz - r_address found \<le> r_last_address found - r_address found" if "r_last_address found \<noteq> address + sz - 1"
      using b that by simp
    ultimately show ?thesis using that b pr by (auto simp: pieces_def sh split: if_splits)
  qed
  have "\<forall>n\<in>set xs. r_last_address n < r_address found" "\<forall>n\<in>set ys. r_last_address found < r_address n"
    "\<forall>n\<in>set xs. \<forall>m\<in>set ys. r_last_address n < r_address m"
    using ok by (auto simp: tree_ok_def sorted_wrt_append)
  with ok sorted l show ?thesis by (fastforce simp: tree_ok_def sorted_wrt_append dest!: inside)
qed

lemma shifted_view:
  assumes "r_pair_address r = 2 ^ 64 - 1 \<or> r_pair_address r + (r_last_address r - r_address r) < 2 ^ 64 - 1"
    "r_address r \<le> s" "s \<le> a" "s \<le> r_last_address r"
  shows "region_view \<lparr>r_address = s, r_last_address = e, r_pair_address = shift_pair (r_pair_address r) (s - r_address r),
      r_attributes = k, r_type_id = t\<rparr> a = (k, t, snd (snd (region_view r a)))"
proof (cases "r_pair_address r = 2 ^ 64 - 1")
  case False
  then have "r_pair_address r + (s - r_address r) < 2 ^ 64 - 1" using assms by linarith
  with False assms(2,3) show ?thesis by (simp add: region_view_def shift_pair_eq)
qed (simp add: region_view_def)

lemma pieces_view:
  assumes b: "r_address found \<le> address" "address + sz - 1 \<le> r_last_address found" "0 < sz"
    and pr: "r_pair_address found = 2 ^ 64 - 1 \<or> r_pair_address found + (r_last_address found - r_address found) < 2 ^ 64 - 1"
  shows "tree_view (pieces address sz type_id new_attr found) a =
    (if r_address found \<le> a \<and> a \<le> r_last_address found
     then Some (if address \<le> a \<and> a < address + sz then (new_attr, type_id, snd (snd (region_view found a))) else region_view found a)
     else None)"
proof -
  define mid where "mid = \<lparr>r_address = address, r_last_address = address + sz - 1,
       r_pair_address = shift_pair (r_pair_address found) (address - r_address found), r_attributes = new_attr, r_type_id = type_id\<rparr>"
  define right where "right = \<lparr>r_address = address + sz, r_last_address = r_last_address found,
       r_pair_address = shift_pair (r_pair_address found) (address + sz - r_address found),
       r_attributes = r_attributes found, r_type_id = r_type_id found\<rparr>"
  have zero: "shift_pair (r_pair_address found) 0 = r_pair_address found" using pr by (subst shift_pair_eq) auto
  have r: "found\<lparr>r_address := address + sz, r_pair_address := shift_pair (r_pair_address found) (address + sz - r_address found)\<rparr> = right"
    by (simp add: right_def)
  have p: "pieces address sz type_id new_attr found =
      (if r_address found = address then [] else [found\<lparr>r_last_address := address - 1\<rparr>]) @ [mid] @
      (if r_last_address found = address + sz - 1 then [] else [right])"
    unfolding pieces_def r using zero by (simp add: mid_def)
  have f: "r_address mid = address" "r_last_address mid = address + sz - 1" "r_address right = address + sz" "r_last_address right = r_last_address found"
    by (simp_all add: mid_def right_def)
  have vm: "region_view mid a = (new_attr, type_id, snd (snd (region_view found a)))" if "address \<le> a"
    unfolding mid_def using b that by (intro shifted_view [OF pr]) auto
  have vr: "region_view right a = region_view found a" if "address + sz \<le> a" "a \<le> r_last_address found"
  proof -
    have "region_view right a = (r_attributes found, r_type_id found, snd (snd (region_view found a)))"
      unfolding right_def using b that by (intro shifted_view [OF pr]) auto
    then show ?thesis by (simp add: region_view_def)
  qed
  have vl: "region_view (found\<lparr>r_last_address := address - 1\<rparr>) a = region_view found a" by (simp add: region_view_def)
  consider "a < address" | "address \<le> a" "a < address + sz" | "address + sz \<le> a" by linarith
  then show ?thesis
  proof cases
    case 1
    then show ?thesis using b f vl unfolding p by auto
  next
    case 2
    then show ?thesis using b f vm unfolding p by auto
  next
    case 3
    then show ?thesis using b f vr unfolding p by auto
  qed
qed

text \<open>
  C39. Inserting a range into the tree succeeds exactly when the region at its address has the expected
  attributes, reaches to its end and may become the new type. The tree then says the new attributes
  and type of every address of the range and the same as before of every other one, mappings of
  addresses included; otherwise the tree is unchanged.\<close>

theorem region_Insert_refines:
  assumes ok: "tree_ok tree" and f: "region_Find address tree = Some found" and sz: "0 < sz" "address + sz < 2 ^ 64"
  shows "if r_attributes found = old_attr \<and> address + sz - 1 \<le> r_last_address found \<and> CanDerive found type_id
    then \<exists>tree'. region_Insert address sz type_id new_attr old_attr tree = Some (True, tree') \<and> tree_ok tree' \<and>
      (\<forall>a. tree_view tree' a =
         (if address \<le> a \<and> a < address + sz then Some (new_attr, type_id, snd (snd (the (tree_view tree a)))) else tree_view tree a))
    else region_Insert address sz type_id new_attr old_attr tree = Some (False, tree)"
proof (cases "r_attributes found = old_attr \<and> address + sz - 1 \<le> r_last_address found \<and> CanDerive found type_id")
  case False
  have "add64 address sz = address + sz" "sub64 (address + sz) 1 = address + sz - 1" using sz by (auto intro: add64_eq sub64_eq)
  with False f show ?thesis by (auto simp: region_Insert_def Let_def)
next
  case True
  obtain xs ys where t: "tree = xs @ found # ys" "found \<notin> set xs" "r_address found \<le> address" "address \<le> r_last_address found"
    and o: "\<forall>n\<in>set xs. r_address n \<le> r_last_address n \<and> r_last_address n < r_address found" "\<forall>n\<in>set ys. r_last_address found < r_address n"
    by (rule found_split [OF ok f])
  let ?p = "pieces address sz type_id new_attr found"
  have pr: "r_pair_address found = 2 ^ 64 - 1 \<or> r_pair_address found + (r_last_address found - r_address found) < 2 ^ 64 - 1"
    using ok t(1) unfolding tree_ok_def by auto
  have xs: "tree_view xs a = None" if "r_address found \<le> a" for a
    using o(1) that by (induction xs) auto
  have "tree_view (xs @ ?p @ ys) a =
      (if address \<le> a \<and> a < address + sz then Some (new_attr, type_id, snd (snd (the (tree_view tree a)))) else tree_view tree a)" for a
    using pieces_view [OF t(3) _ sz(1) pr, of type_id new_attr a] True xs [of a] sz(1) t(3)
    by (auto simp: t(1) split: option.splits)
  moreover have "region_Insert address sz type_id new_attr old_attr tree = Some (True, xs @ ?p @ ys)"
    by (rule Insert_pieces [OF ok f t(1-3) _ sz(1) o]) (use True in auto)
  moreover have "tree_ok (xs @ ?p @ ys)" by (rule pieces_ok) (use ok t True sz in auto)
  ultimately show ?thesis using True by auto
qed

definition dram_region :: KMemoryRegion where
  "dram_region = \<lparr>r_address = 0x80000000, r_last_address = 0x17FFFFFFF, r_pair_address = 0xFFFFFE0000000000, r_attributes = 0, r_type_id = 0x2\<rparr>"

theorem region_Insert_refines_witness:
  "tree_ok [dram_region] \<and> (\<exists>tree'. region_Insert 0x80001000 0x2000 0x66 3 0 [dram_region] = Some (True, tree') \<and>
     tree_view tree' 0x80002000 = Some (3, 0x66, Some 0xFFFFFE0000002000) \<and> tree_view tree' 0x80003000 = Some (0, 0x2, Some 0xFFFFFE0000003000))"
proof -
  have ok: "tree_ok [dram_region]" by (simp add: tree_ok_def dram_region_def)
  have f: "region_Find 0x80001000 [dram_region] = Some dram_region" by (simp add: region_Find_def Compare_probe dram_region_def)
  have z: "0 < (0x2000 :: nat)" "0x80001000 + 0x2000 < (2 ^ 64 :: nat)" by simp_all
  have v: "tree_view [dram_region] 0x80002000 = Some (0, 0x2, Some 0xFFFFFE0000002000)" "tree_view [dram_region] 0x80003000 = Some (0, 0x2, Some 0xFFFFFE0000003000)"
    by (simp_all add: region_view_def dram_region_def)
  have c: "r_attributes dram_region = 0 \<and> 0x80001000 + 0x2000 - 1 \<le> r_last_address dram_region \<and> CanDerive dram_region 0x66"
    by (simp add: dram_region_def CanDerive_def)
  from region_Insert_refines [OF ok f z, of 0 "0x66" 3, unfolded if_P [OF c]] ok v show ?thesis by auto
qed

section \<open>Random places\<close>

lemma draw_region_fits:
  assumes ok: "tree_ok tree" and last: "last_address < 2 ^ 64" and sz: "sz < 2 ^ 64"
    and d: "\<forall>d\<in>set draws. d * alignment \<le> last_address"
    and r: "draw_region sz alignment type_id last_address draws tree = Some c"
  shows "alignment dvd c \<and> 0 < sz \<and> (\<exists>r\<in>set tree. r_type_id r = type_id \<and> r_address r \<le> c \<and> c + sz - 1 \<le> r_last_address r)"
  using d r
proof (induction draws)
  case (Cons d draws)
  let ?c = "d * alignment"
  have c: "mul64 d alignment = ?c" using Cons.prems(1) last by (intro mul64_eq) simp
  show ?case
  proof (cases "draw_region sz alignment type_id last_address draws tree = Some c")
    case True
    then show ?thesis using Cons by simp
  next
    case False
    with Cons.prems(2) have lt: "?c < add64 ?c sz" and f: "\<exists>r. region_Find ?c tree = Some r \<and>
        sub64 (add64 ?c sz) 1 \<le> r_last_address r \<and> r_type_id r = type_id \<and> c = ?c"
      by (auto simp: c Let_def split: if_splits option.splits)
    have "?c + sz < 2 ^ 64"
    proof (rule ccontr)
      assume n: "\<not> ?c + sz < 2 ^ 64"
      have "?c \<le> last_address" using Cons.prems(1) by simp
      then have "?c + sz - 2 ^ 64 < 2 ^ 64" using last sz by linarith
      with n have "add64 ?c sz = ?c + sz - 2 ^ 64" by (simp add: add64_def le_mod_geq)
      with lt sz show False by simp
    qed
    then have e: "add64 ?c sz = ?c + sz" by (rule add64_eq)
    with lt have s: "0 < sz" "sub64 (?c + sz) 1 = ?c + sz - 1" using \<open>?c + sz < 2 ^ 64\<close> by (auto intro!: sub64_eq)
    obtain r where "region_Find ?c tree = Some r" "?c + sz - 1 \<le> r_last_address r" "r_type_id r = type_id" "c = ?c"
      using f e s(2) by auto
    with s(1) show ?thesis by (auto simp: region_Find_def find_Some_iff Compare_probe intro!: bexI [of _ r])
  qed
qed simp

text \<open>
  A random place in the regions of a type, when the loop finds one, is aligned and lies with its
  whole size in one region that has exactly this type, whatever the draws of the generator are.\<close>

theorem GetRandomAlignedRegion_fits:
  assumes ok: "tree_ok tree" and sz: "sz < 2 ^ 64"
    and rng: "\<And>lo hi. \<forall>d\<in>set (GenerateRandomRange lo hi). lo \<le> d \<and> d \<le> hi"
    and r: "GetRandomAlignedRegion GenerateRandomRange sz alignment type_id tree = Some c"
  shows "alignment dvd c \<and> 0 < sz \<and> (\<exists>r\<in>set tree. r_type_id r = type_id \<and> r_address r \<le> c \<and> c + sz - 1 \<le> r_last_address r)"
proof -
  obtain f l where fl: "GetDerivedRegionExtents type_id tree = Some (f, l)"
    and dr: "draw_region sz alignment type_id (r_last_address l) (GenerateRandomRange (r_address f div alignment) (r_last_address l div alignment)) tree = Some c"
    using r by (auto simp: GetRandomAlignedRegion_def Let_def split: option.splits)
  have "l \<in> set tree"
  proof -
    have "FindLastDerived type_id tree = Some l" using fl by (auto simp: GetDerivedRegionExtents_def split: option.splits)
    moreover have "x = Some l \<longrightarrow> l \<in> set tree" if "x = FindLastDerived type_id tree" for x
      unfolding that FindLastDerived_def by (induction tree rule: rev_induct) auto
    ultimately show ?thesis by blast
  qed
  then have l: "r_last_address l < 2 ^ 64" using ok by (auto simp: tree_ok_def)
  have "\<forall>d\<in>set (GenerateRandomRange (r_address f div alignment) (r_last_address l div alignment)). d * alignment \<le> r_last_address l"
  proof
    fix d assume "d \<in> set (GenerateRandomRange (r_address f div alignment) (r_last_address l div alignment))"
    then have "d \<le> r_last_address l div alignment" using rng by blast
    then have "d * alignment \<le> r_last_address l div alignment * alignment" by (rule mult_le_mono1)
    then show "d * alignment \<le> r_last_address l" using div_times_less_eq_dividend order_trans by blast
  qed
  from draw_region_fits [OF ok l sz this dr] show ?thesis .
qed

definition middle_draw :: "nat \<Rightarrow> nat \<Rightarrow> nat list" where
  "middle_draw lo hi = (if lo \<le> hi then [hi, lo + (hi - lo) div 2] else [])"

theorem GetRandomAlignedRegion_fits_witness:
  "tree_ok [dram_region] \<and> GetRandomAlignedRegion middle_draw 0x400000 0x200000 0x2 [dram_region] = Some 0xFFE00000 \<and>
   (\<forall>lo hi. \<forall>d\<in>set (middle_draw lo hi). lo \<le> d \<and> d \<le> hi) \<and>
   (\<exists>r\<in>set [dram_region]. r_address r \<le> 0xFFE00000 \<and> 0xFFE00000 + 0x400000 - 1 \<le> r_last_address r)"
proof -
  have ok: "tree_ok [dram_region]" by (simp add: tree_ok_def dram_region_def)
  have rng: "\<And>lo hi. \<forall>d\<in>set (middle_draw lo hi). lo \<le> d \<and> d \<le> hi" by (auto simp: middle_draw_def)
  have r: "GetRandomAlignedRegion middle_draw 0x400000 0x200000 0x2 [dram_region] = Some 0xFFE00000"
    by (simp add: GetRandomAlignedRegion_def GetDerivedRegionExtents_def FindFirstDerived_def FindLastDerived_def IsDerivedFrom_def
      dram_region_def middle_draw_def region_Find_def Compare_probe mul64_def add64_def sub64_def)
  have sz: "0x400000 < (2 ^ 64 :: nat)" by simp
  from GetRandomAlignedRegion_fits [OF ok sz rng r] ok rng r show ?thesis by blast
qed

end
