(* ===== verification/KPageGroup.thy ===== *)
theory KPageGroup
  imports Nx_Prelude
begin

text \<open>
  Page groups: \<^verbatim>\<open>src/src/core/hle/kernel/k_page_group.{h,cpp}\<close>. The linked list of a group is the
  list of its nodes. A group takes its nodes from a manager it shares with other groups, which is the
  number of nodes that manager can still hand out; the operations pass it along. Operations that call
  the memory manager are in the theory of that component.
\<close>

section \<open>Nodes\<close>

record KBlockInfo =
  bi_page_index :: u32
  bi_num_pages :: u32

definition bi_Initialize :: "nat \<Rightarrow> nat \<Rightarrow> KBlockInfo" where
  "bi_Initialize addr np =
     \<lparr>bi_page_index = of_nat (addr div PageSize), bi_num_pages = of_nat np\<rparr>"

definition bi_GetAddress :: "KBlockInfo \<Rightarrow> nat" where
  "bi_GetAddress b = unat (bi_page_index b) * PageSize"

definition bi_GetNumPages :: "KBlockInfo \<Rightarrow> nat" where
  "bi_GetNumPages b = unat (bi_num_pages b)"

definition bi_GetSize :: "KBlockInfo \<Rightarrow> nat" where
  "bi_GetSize b = bi_GetNumPages b * PageSize"

text \<open>The sum of the two fields is a 32-bit sum.\<close>

definition bi_GetEndAddress :: "KBlockInfo \<Rightarrow> nat" where
  "bi_GetEndAddress b = unat (bi_page_index b + bi_num_pages b) * PageSize"

definition bi_GetLastAddress :: "KBlockInfo \<Rightarrow> nat" where
  "bi_GetLastAddress b = sub64 (bi_GetEndAddress b) 1"

definition bi_IsEquivalentTo :: "KBlockInfo \<Rightarrow> KBlockInfo \<Rightarrow> bool" where
  "bi_IsEquivalentTo b rhs \<longleftrightarrow>
     bi_page_index b = bi_page_index rhs \<and> bi_num_pages b = bi_num_pages rhs"

definition IsStrictlyBefore :: "KBlockInfo \<Rightarrow> nat \<Rightarrow> bool" where
  "IsStrictlyBefore b addr \<longleftrightarrow>
     (let e = bi_GetEndAddress b
      in if bi_page_index b \<noteq> 0 \<and> e = 0 then False else e < addr)"

definition TryConcatenate :: "nat \<Rightarrow> nat \<Rightarrow> KBlockInfo \<Rightarrow> bool \<times> KBlockInfo" where
  "TryConcatenate addr np b =
     (if addr \<noteq> 0 \<and> addr = bi_GetEndAddress b
      then (True, b\<lparr>bi_num_pages := bi_num_pages b + of_nat np\<rparr>)
      else (False, b))"

section \<open>Groups\<close>

type_synonym KPageGroup = "KBlockInfo list"

definition pg_Finalize :: "KPageGroup \<Rightarrow> nat \<Rightarrow> KPageGroup \<times> nat" where
  "pg_Finalize pg manager = ([], manager + length pg)"

definition pg_GetNumPages :: "KPageGroup \<Rightarrow> nat" where
  "pg_GetNumPages pg = foldl (\<lambda>num_pages it. num_pages + bi_GetNumPages it) 0 pg"

text \<open>What \<open>AddBlock\<close> does when the last node does not take the pages.\<close>

definition new_node :: "nat \<Rightarrow> nat \<Rightarrow> KPageGroup \<Rightarrow> nat \<Rightarrow> Result \<times> KPageGroup \<times> nat" where
  "new_node addr num_pages pg manager =
     (if manager = 0 then (ResultOutOfResource, pg, manager)
      else (ResultSuccess, pg @ [bi_Initialize addr num_pages], manager - 1))"

definition AddBlock :: "nat \<Rightarrow> nat \<Rightarrow> KPageGroup \<Rightarrow> nat \<Rightarrow> Result \<times> KPageGroup \<times> nat" where
  "AddBlock addr num_pages pg manager =
     (if num_pages = 0 then (ResultSuccess, pg, manager)
      else if pg \<noteq> []
      then
        let (appended, b) = TryConcatenate addr num_pages (last pg)
        in if appended then (ResultSuccess, butlast pg @ [b], manager)
           else new_node addr num_pages pg manager
      else new_node addr num_pages pg manager)"

fun pg_IsEquivalentTo :: "KPageGroup \<Rightarrow> KPageGroup \<Rightarrow> bool" where
  "pg_IsEquivalentTo (l # lit) (r # rit) =
     (if \<not> bi_IsEquivalentTo l r then False else pg_IsEquivalentTo lit rit)"
| "pg_IsEquivalentTo lit rit \<longleftrightarrow> lit = [] \<and> rit = []"

end
