(* ===== verification/KMemoryManager.thy ===== *)
theory KMemoryManager
  imports KPageHeap KMemoryRegion KPageGroup "HOL-Library.Monad_Syntax"
begin

text \<open>
  The manager of physical pages: \<^verbatim>\<open>src/src/core/hle/kernel/k_memory_manager.{h,cpp}\<close> and the
  operations of \<^verbatim>\<open>src/src/core/hle/kernel/k_page_group.cpp\<close> that call it. Every pool of pages has
  a list of managers; a manager has a page heap and counts the references to each of its pages.

  Pointers to managers are indices into their array. The map of optimised pages of a manager lies in
  device memory at its management region; it is a field of the manager, since those regions are
  disjoint from each other and from all pages. Device memory is a function from physical addresses,
  and is zero at the start. \<open>None\<close> is a null pointer, an index outside an array, or a loop that does
  not end. Locks are taken around whole operations, which is how the operations are modelled. The
  size of memory and the place of the initial process binary come from the board and are
  parameters. Assertions are not part of the model; what they claim is proved where it matters.
\<close>

section \<open>One manager\<close>

record Impl =
  im_heap :: KPageHeap
  im_page_reference_counts :: "u16 list"
  im_management_region :: nat
  im_pool :: nat
  im_next :: "nat option"
  im_prev :: "nat option"
  im_optimize_map :: "u64 list"

definition new_Impl :: "u32 \<Rightarrow> Impl" where
  "new_Impl seed =
     \<lparr>im_heap = new_KPageHeap seed, im_page_reference_counts = [], im_management_region = 0,
      im_pool = 0, im_next = None, im_prev = None, im_optimize_map = []\<rparr>"

definition heap_GetEndAddress :: "KPageHeap \<Rightarrow> nat" where
  "heap_GetEndAddress h = m_heap_address h + m_heap_size h"

definition heap_GetPageOffset :: "nat \<Rightarrow> KPageHeap \<Rightarrow> nat" where
  "heap_GetPageOffset block h = sub64 block (m_heap_address h) div PageSize"

definition heap_GetPageOffsetToEnd :: "nat \<Rightarrow> KPageHeap \<Rightarrow> nat" where
  "heap_GetPageOffsetToEnd block h = sub64 (heap_GetEndAddress h) block div PageSize"

definition GetBlockNumPages :: "nat \<Rightarrow> nat" where
  "GetBlockNumPages index = 2 ^ (MemoryBlockPageShifts ! index) div PageSize"

definition CalculateOptimizedProcessOverheadSize :: "nat \<Rightarrow> nat" where
  "CalculateOptimizedProcessOverheadSize region_size = AlignUp (region_size div PageSize) 64 div 64 * 8"

definition im_CalculateManagementOverheadSize :: "nat \<Rightarrow> nat" where
  "im_CalculateManagementOverheadSize region_size =
     (let ref_count_size = region_size div PageSize * 2;
          optimize_map_size = AlignUp (region_size div PageSize) 64 div 64 * 8;
          manager_meta_size = AlignUp (optimize_map_size + ref_count_size) PageSize;
          page_heap_size = heap_CalculateManagementOverheadSize region_size
      in manager_meta_size + page_heap_size)"

definition im_Initialize :: "nat \<Rightarrow> nat \<Rightarrow> nat \<Rightarrow> nat \<Rightarrow> nat \<Rightarrow> Impl \<Rightarrow> nat \<times> Impl" where
  "im_Initialize intended_size address sz management p im =
     (let ref_count_size = sz div PageSize * 2;
          optimize_map_size = CalculateOptimizedProcessOverheadSize sz;
          manager_size = AlignUp (optimize_map_size + ref_count_size) PageSize;
          page_heap_size = heap_CalculateManagementOverheadSize sz;
          total_management_size = manager_size + page_heap_size;
          num_counts = intended_size div PageSize;
          counts = im_page_reference_counts im
      in (total_management_size,
          im\<lparr>im_pool := p, im_management_region := management,
             im_page_reference_counts := take num_counts counts @ replicate (num_counts - length counts) 0,
             im_heap := heap_Initialize address sz page_heap_size (im_heap im),
             im_optimize_map := replicate (optimize_map_size div 8) 0\<rparr>))"

definition im_AllocateBlock :: "nat \<Rightarrow> bool \<Rightarrow> Impl \<Rightarrow> nat \<times> Impl" where
  "im_AllocateBlock index random im =
     (let (addr, h) = AllocateBlock index random (im_heap im) in (addr, im\<lparr>im_heap := h\<rparr>))"

definition im_AllocateAligned :: "nat \<Rightarrow> nat \<Rightarrow> nat \<Rightarrow> Impl \<Rightarrow> nat \<times> Impl" where
  "im_AllocateAligned index num_pages align_pages im =
     (let (addr, h) = AllocateAligned index num_pages align_pages (im_heap im) in (addr, im\<lparr>im_heap := h\<rparr>))"

definition im_Free :: "nat \<Rightarrow> nat \<Rightarrow> Impl \<Rightarrow> Impl" where
  "im_Free addr num_pages im = im\<lparr>im_heap := heap_Free addr num_pages (im_heap im)\<rparr>"

definition SetInitialUsedHeapSize :: "nat \<Rightarrow> Impl \<Rightarrow> Impl" where
  "SetInitialUsedHeapSize reserved_size im = im\<lparr>im_heap := SetInitialUsedSize reserved_size (im_heap im)\<rparr>"

definition im_InitializeOptimizedMemory :: "Impl \<Rightarrow> Impl" where
  "im_InitializeOptimizedMemory im =
     im\<lparr>im_optimize_map := replicate (CalculateOptimizedProcessOverheadSize (m_heap_size (im_heap im)) div 8) 0\<rparr>"

subsection \<open>The map of optimised pages\<close>

text \<open>
  The loops run from an offset to \<open>offset + num_pages - 1\<close> inclusively. Every caller passes a positive
  number of pages, so that bound does not wrap.
\<close>

definition TrackUnoptimizedAllocation :: "nat \<Rightarrow> nat \<Rightarrow> Impl \<Rightarrow> Impl" where
  "TrackUnoptimizedAllocation block num_pages im =
     (let offset = heap_GetPageOffset block (im_heap im)
      in im\<lparr>im_optimize_map :=
           fold (\<lambda>o' m. m[o' div 64 := m ! (o' div 64) AND NOT (push_bit (o' mod 64) 1)])
             [offset..<offset + num_pages] (im_optimize_map im)\<rparr>)"

definition TrackOptimizedAllocation :: "nat \<Rightarrow> nat \<Rightarrow> Impl \<Rightarrow> Impl" where
  "TrackOptimizedAllocation block num_pages im =
     (let offset = heap_GetPageOffset block (im_heap im)
      in im\<lparr>im_optimize_map :=
           fold (\<lambda>o' m. m[o' div 64 := m ! (o' div 64) OR push_bit (o' mod 64) 1])
             [offset..<offset + num_pages] (im_optimize_map im)\<rparr>)"

type_synonym dram = "nat \<Rightarrow> u8"

definition fill_memory :: "nat \<Rightarrow> nat \<Rightarrow> u8 \<Rightarrow> dram \<Rightarrow> dram" where
  "fill_memory address sz v mem = (\<lambda>a. if address \<le> a \<and> a < address + sz then v else mem a)"

definition ProcessOptimizedAllocation :: "nat \<Rightarrow> nat \<Rightarrow> u8 \<Rightarrow> Impl \<Rightarrow> dram \<Rightarrow> bool \<times> dram" where
  "ProcessOptimizedAllocation block num_pages fill_pattern im mem =
     (let offset = heap_GetPageOffset block (im_heap im)
      in fold (\<lambda>o' (any_new, mem).
             if im_optimize_map im ! (o' div 64) AND push_bit (o' mod 64) 1 = 0
             then (True, fill_memory (m_heap_address (im_heap im) + o' * PageSize) PageSize fill_pattern mem)
             else (any_new, mem))
           [offset..<offset + num_pages] (False, mem))"

subsection \<open>References\<close>

text \<open>\<open>OpenFirst\<close> and \<open>Open\<close> differ in what they assert of the new counts.\<close>

definition im_OpenFirst :: "nat \<Rightarrow> nat \<Rightarrow> Impl \<Rightarrow> Impl" where
  "im_OpenFirst address num_pages im =
     (let index = heap_GetPageOffset address (im_heap im)
      in im\<lparr>im_page_reference_counts :=
           fold (\<lambda>i counts. counts[i := counts ! i + 1]) [index..<index + num_pages]
             (im_page_reference_counts im)\<rparr>)"

definition im_Open :: "nat \<Rightarrow> nat \<Rightarrow> Impl \<Rightarrow> Impl" where
  "im_Open address num_pages im =
     (let index = heap_GetPageOffset address (im_heap im)
      in im\<lparr>im_page_reference_counts :=
           fold (\<lambda>i counts. counts[i := counts ! i + 1]) [index..<index + num_pages]
             (im_page_reference_counts im)\<rparr>)"

text \<open>Pages that follow one another and lose their last reference are freed together.\<close>

definition free_run :: "nat \<Rightarrow> nat \<Rightarrow> Impl \<Rightarrow> Impl" where
  "free_run free_start free_count im =
     (if free_count > 0
      then im_Free (m_heap_address (im_heap im) + free_start * PageSize) free_count im
      else im)"

fun close_loop :: "nat list \<Rightarrow> nat \<Rightarrow> nat \<Rightarrow> Impl \<Rightarrow> Impl" where
  "close_loop [] free_start free_count im = free_run free_start free_count im"
| "close_loop (index # rest) free_start free_count im =
     (let ref_count = im_page_reference_counts im ! index - 1;
          im = im\<lparr>im_page_reference_counts := (im_page_reference_counts im)[index := ref_count]\<rparr>
      in if ref_count = 0
         then
           if free_count > 0 then close_loop rest free_start (free_count + 1) im
           else close_loop rest index 1 im
         else
           if free_count > 0 then close_loop rest free_start 0 (free_run free_start free_count im)
           else close_loop rest free_start free_count im)"

definition im_Close :: "nat \<Rightarrow> nat \<Rightarrow> Impl \<Rightarrow> Impl" where
  "im_Close address num_pages im =
     (let index = heap_GetPageOffset address (im_heap im)
      in close_loop [index..<index + num_pages] 0 0 im)"

section \<open>The manager of all pools\<close>

record KMemoryManager =
  mm_pool_managers_head :: "nat option list"
  mm_pool_managers_tail :: "nat option list"
  mm_managers :: "Impl list"
  mm_num_managers :: nat
  mm_optimized_process_ids :: "u64 list"
  mm_has_optimized_process :: "bool list"
  mm_physical_tree :: region_tree
  mm_linear_tree :: region_tree
  mm_dram :: dram

definition PoolCount :: nat where
  "PoolCount = 4"

definition MaxManagerCount :: nat where
  "MaxManagerCount = 10"

definition new_KMemoryManager :: "u32 \<Rightarrow> region_tree \<Rightarrow> region_tree \<Rightarrow> KMemoryManager" where
  "new_KMemoryManager seed physical_tree linear_tree =
     \<lparr>mm_pool_managers_head = replicate MaxManagerCount None,
      mm_pool_managers_tail = replicate MaxManagerCount None,
      mm_managers = replicate MaxManagerCount (new_Impl seed), mm_num_managers = 0,
      mm_optimized_process_ids = replicate PoolCount 0, mm_has_optimized_process = replicate PoolCount False,
      mm_physical_tree = physical_tree, mm_linear_tree = linear_tree, mm_dram = (\<lambda>_. 0)\<rparr>"

text \<open>The pools, by their numbers, and the options that name a pool and a direction.\<close>

definition GetPoolFromMemoryRegionType :: "u32 \<Rightarrow> nat option" where
  "GetPoolFromMemoryRegionType type =
     (if type OR KMemoryRegionType_DramApplicationPool = type then Some 0
      else if type OR KMemoryRegionType_DramAppletPool = type then Some 1
      else if type OR KMemoryRegionType_DramSystemPool = type then Some 2
      else if type OR KMemoryRegionType_DramSystemNonSecurePool = type then Some 3
      else None)"

definition EncodeOption :: "nat \<Rightarrow> nat \<Rightarrow> u32" where
  "EncodeOption pool dir = push_bit 4 (of_nat pool) OR push_bit 0 (of_nat dir)"

definition DecodeOption :: "u32 \<Rightarrow> nat \<times> nat" where
  "DecodeOption option = (unat (drop_bit 4 (option AND 0xF0)), unat (drop_bit 0 (option AND 0xF)))"

definition FromBack :: nat where
  "FromBack = 1"

definition GetFirstManager :: "nat \<Rightarrow> nat \<Rightarrow> KMemoryManager \<Rightarrow> nat option" where
  "GetFirstManager pool dir mm =
     (if dir = FromBack then mm_pool_managers_tail mm ! pool else mm_pool_managers_head mm ! pool)"

definition GetNextManager :: "nat \<Rightarrow> nat \<Rightarrow> KMemoryManager \<Rightarrow> nat option" where
  "GetNextManager cur dir mm =
     (if dir = FromBack then im_prev (mm_managers mm ! cur) else im_next (mm_managers mm ! cur))"

text \<open>
  The managers a loop over a pool visits. There are at most \<open>MaxManagerCount\<close> of them, since a loop
  that came back to a manager would never end.
\<close>

fun walk_managers :: "nat \<Rightarrow> nat option \<Rightarrow> nat \<Rightarrow> KMemoryManager \<Rightarrow> nat list option" where
  "walk_managers fuel None dir mm = Some []"
| "walk_managers 0 (Some m) dir mm = None"
| "walk_managers (Suc fuel) (Some m) dir mm =
     (case walk_managers fuel (GetNextManager m dir mm) dir mm of
        None \<Rightarrow> None
      | Some ms \<Rightarrow> Some (m # ms))"

definition pool_managers :: "nat \<Rightarrow> nat \<Rightarrow> KMemoryManager \<Rightarrow> nat list option" where
  "pool_managers pool dir mm = walk_managers MaxManagerCount (GetFirstManager pool dir mm) dir mm"

definition GetManager :: "nat \<Rightarrow> KMemoryManager \<Rightarrow> nat option" where
  "GetManager address mm =
     (case region_Find address (mm_linear_tree mm) of
        None \<Rightarrow> None
      | Some r \<Rightarrow> if r_attributes r < length (mm_managers mm) then Some (r_attributes r) else None)"

definition upd_manager :: "nat \<Rightarrow> (Impl \<Rightarrow> Impl) \<Rightarrow> KMemoryManager \<Rightarrow> KMemoryManager" where
  "upd_manager m f mm = mm\<lparr>mm_managers := (mm_managers mm)[m := f (mm_managers mm ! m)]\<rparr>"

text \<open>
  The loop that applies an operation of one manager to pages that may belong to several, which
  \<open>Open\<close>, \<open>OpenFirst\<close> and \<open>Close\<close> have in common.
\<close>

partial_function (option) each_part ::
  "(nat \<Rightarrow> nat \<Rightarrow> Impl \<Rightarrow> Impl) \<Rightarrow> nat \<Rightarrow> nat \<Rightarrow> KMemoryManager \<Rightarrow> KMemoryManager option" where
  "each_part f address num_pages mm =
     (if num_pages = 0 then Some mm
      else
        Option.bind (GetManager address mm) (\<lambda>m.
          let cur_pages = min num_pages (heap_GetPageOffsetToEnd address (im_heap (mm_managers mm ! m)))
          in each_part f (address + cur_pages * PageSize) (num_pages - cur_pages)
               (upd_manager m (f address cur_pages) mm)))"

declare each_part.simps [code]

definition mm_Open :: "nat \<Rightarrow> nat \<Rightarrow> KMemoryManager \<Rightarrow> KMemoryManager option" where
  "mm_Open address num_pages mm = each_part im_Open address num_pages mm"

definition mm_OpenFirst :: "nat \<Rightarrow> nat \<Rightarrow> KMemoryManager \<Rightarrow> KMemoryManager option" where
  "mm_OpenFirst address num_pages mm = each_part im_OpenFirst address num_pages mm"

definition mm_Close :: "nat \<Rightarrow> nat \<Rightarrow> KMemoryManager \<Rightarrow> KMemoryManager option" where
  "mm_Close address num_pages mm = each_part im_Close address num_pages mm"

definition mm_GetPool :: "nat \<Rightarrow> KMemoryManager \<Rightarrow> nat option" where
  "mm_GetPool address mm = map_option (\<lambda>m. im_pool (mm_managers mm ! m)) (GetManager address mm)"

definition mm_GetSize :: "KMemoryManager \<Rightarrow> nat" where
  "mm_GetSize mm =
     foldl (\<lambda>t i. t + m_heap_size (im_heap (mm_managers mm ! i))) 0 [0..<mm_num_managers mm]"

definition mm_GetFreeSize :: "KMemoryManager \<Rightarrow> nat" where
  "mm_GetFreeSize mm =
     foldl (\<lambda>t i. t + GetFreeSize (im_heap (mm_managers mm ! i))) 0 [0..<mm_num_managers mm]"

definition mm_GetSize_pool :: "nat \<Rightarrow> KMemoryManager \<Rightarrow> nat option" where
  "mm_GetSize_pool pool mm =
     (if pool < MaxManagerCount
      then map_option (foldl (\<lambda>t m. t + m_heap_size (im_heap (mm_managers mm ! m))) 0) (pool_managers pool 0 mm)
      else None)"

definition mm_GetFreeSize_pool :: "nat \<Rightarrow> KMemoryManager \<Rightarrow> nat option" where
  "mm_GetFreeSize_pool pool mm =
     (if pool < PoolCount
      then map_option (foldl (\<lambda>t m. t + GetFreeSize (im_heap (mm_managers mm ! m))) 0) (pool_managers pool 0 mm)
      else None)"

section \<open>Initialisation\<close>

text \<open>The extent and the pool of the regions of one manager.\<close>

fun find_extent :: "nat \<Rightarrow> region_tree \<Rightarrow> nat \<times> nat \<times> nat \<Rightarrow> (nat \<times> nat \<times> nat) option" where
  "find_extent k [] acc = Some acc"
| "find_extent k (it # tree) (region_address, region_size, region_pool) =
     (if \<not> IsDerivedFrom it KMemoryRegionType_DramUserPool \<or> r_attributes it \<noteq> k
      then find_extent k tree (region_address, region_size, region_pool)
      else if region_address = 0
      then
        case GetPoolFromMemoryRegionType (r_type_id it) of
          None \<Rightarrow> None
        | Some pool \<Rightarrow> find_extent k tree (r_address it, region_GetSize it, pool)
      else find_extent k tree (region_address, sub64 (region_GetEndAddress it) region_address, region_pool))"

definition append_manager :: "nat \<Rightarrow> nat \<Rightarrow> KMemoryManager \<Rightarrow> KMemoryManager" where
  "append_manager pool m mm =
     (let mm =
        (case mm_pool_managers_tail mm ! pool of
           None \<Rightarrow> mm\<lparr>mm_pool_managers_head := (mm_pool_managers_head mm)[pool := Some m]\<rparr>
         | Some t \<Rightarrow> upd_manager m (im_prev_update (\<lambda>_. Some t)) (upd_manager t (im_next_update (\<lambda>_. Some m)) mm))
      in mm\<lparr>mm_pool_managers_tail := (mm_pool_managers_tail mm)[pool := Some m]\<rparr>)"

text \<open>The loop runs at most \<open>MaxManagerCount\<close> times, the first argument being what is left of that.\<close>

fun init_managers :: "nat \<Rightarrow> nat \<Rightarrow> nat \<Rightarrow> KMemoryManager \<Rightarrow> KMemoryManager option" where
  "init_managers 0 intended_size management_region mm = Some mm"
| "init_managers (Suc n) intended_size management_region mm =
     (case find_extent (mm_num_managers mm) (mm_physical_tree mm) (0, 0, PoolCount) of
        None \<Rightarrow> None
      | Some (region_address, region_size, region_pool) \<Rightarrow>
          if region_size = 0 then Some mm
          else
            let m = mm_num_managers mm;
                (cur_size, im) = im_Initialize intended_size region_address region_size management_region
                  region_pool (mm_managers mm ! m);
                mm = mm\<lparr>mm_num_managers := m + 1, mm_managers := (mm_managers mm)[m := im]\<rparr>
            in init_managers n intended_size (management_region + cur_size) (append_manager region_pool m mm))"

text \<open>The pages of a region go to its heap, but for those of the initial process binary.\<close>

definition free_region ::
  "nat \<Rightarrow> nat \<Rightarrow> KMemoryManager \<times> nat list \<Rightarrow> KMemoryRegion \<Rightarrow> KMemoryManager \<times> nat list" where
  "free_region ini_start ini_size acc it =
     (let (mm, reserved_sizes) = acc;
          ini_end = ini_start + ini_size;
          ini_last = ini_end - 1;
          k = r_attributes it;
          cur_start = r_address it;
          cur_last = r_last_address it;
          cur_end = region_GetEndAddress it
      in if \<not> IsDerivedFrom it KMemoryRegionType_DramUserPool then (mm, reserved_sizes)
         else if cur_start \<le> ini_start \<and> ini_last \<le> cur_last
         then
           let mm = (if cur_start \<noteq> ini_start
                     then upd_manager k (im_Free cur_start ((ini_start - cur_start) div PageSize)) mm else mm);
               mm = upd_manager k (im_OpenFirst ini_start (ini_size div PageSize)) mm;
               reserved_sizes = reserved_sizes[k := reserved_sizes ! k + ini_size];
               mm = (if ini_last \<noteq> cur_last
                     then upd_manager k (im_Free ini_end ((cur_end - ini_end) div PageSize)) mm else mm)
           in (mm, reserved_sizes)
         else (upd_manager k (im_Free cur_start (region_GetSize it div PageSize)) mm, reserved_sizes))"

fun free_regions ::
  "nat \<Rightarrow> nat \<Rightarrow> region_tree \<Rightarrow> KMemoryManager \<times> nat list \<Rightarrow> (KMemoryManager \<times> nat list) option" where
  "free_regions ini_start ini_size [] acc = Some acc"
| "free_regions ini_start ini_size (it # tree) acc =
     (if IsDerivedFrom it KMemoryRegionType_DramUserPool \<and> \<not> r_attributes it < MaxManagerCount then None
      else free_regions ini_start ini_size tree (free_region ini_start ini_size acc it))"

definition mm_Initialize ::
  "nat \<Rightarrow> nat \<Rightarrow> nat \<Rightarrow> nat \<Rightarrow> KMemoryManager \<Rightarrow> KMemoryManager option" where
  "mm_Initialize intended_size ini_start ini_size management_region mm =
     (case init_managers MaxManagerCount intended_size management_region (mm\<lparr>mm_num_managers := 0\<rparr>) of
        None \<Rightarrow> None
      | Some mm \<Rightarrow>
          case free_regions ini_start ini_size (mm_physical_tree mm) (mm, replicate MaxManagerCount 0) of
            None \<Rightarrow> None
          | Some (mm, reserved_sizes) \<Rightarrow>
              Some (foldl (\<lambda>mm i. upd_manager i (SetInitialUsedHeapSize (reserved_sizes ! i)) mm) mm
                [0..<mm_num_managers mm]))"

definition mm_InitializeOptimizedMemory ::
  "u64 \<Rightarrow> nat \<Rightarrow> KMemoryManager \<Rightarrow> (Result \<times> KMemoryManager) option" where
  "mm_InitializeOptimizedMemory process_id pool mm =
     (if \<not> pool < PoolCount then None
      else if mm_has_optimized_process mm ! pool then Some (ResultBusy, mm)
      else
        let mm = mm\<lparr>mm_optimized_process_ids := (mm_optimized_process_ids mm)[pool := process_id],
                    mm_has_optimized_process := (mm_has_optimized_process mm)[pool := True]\<rparr>
        in case pool_managers pool 0 mm of
             None \<Rightarrow> None
           | Some ms \<Rightarrow> Some (ResultSuccess, fold (\<lambda>m. upd_manager m im_InitializeOptimizedMemory) ms mm))"

definition mm_FinalizeOptimizedMemory :: "u64 \<Rightarrow> nat \<Rightarrow> KMemoryManager \<Rightarrow> KMemoryManager option" where
  "mm_FinalizeOptimizedMemory process_id pool mm =
     (if \<not> pool < PoolCount then None
      else if mm_has_optimized_process mm ! pool \<and> mm_optimized_process_ids mm ! pool = process_id
      then Some (mm\<lparr>mm_has_optimized_process := (mm_has_optimized_process mm)[pool := False]\<rparr>)
      else Some mm)"

section \<open>Contiguous pages\<close>

fun try_managers :: "nat \<Rightarrow> nat \<Rightarrow> nat \<Rightarrow> nat list \<Rightarrow> KMemoryManager \<Rightarrow> (nat \<times> nat) option \<times> KMemoryManager" where
  "try_managers index num_pages align_pages [] mm = (None, mm)"
| "try_managers index num_pages align_pages (m # ms) mm =
     (let (allocated_block, im) = im_AllocateAligned index num_pages align_pages (mm_managers mm ! m);
          mm = mm\<lparr>mm_managers := (mm_managers mm)[m := im]\<rparr>
      in if allocated_block \<noteq> 0 then (Some (m, allocated_block), mm)
         else try_managers index num_pages align_pages ms mm)"

text \<open>
  No block size is large enough for some requests; the index is then negative, and the first manager
  reads in front of its array of block sizes.
\<close>

definition AllocateAndOpenContinuous ::
  "nat \<Rightarrow> nat \<Rightarrow> u32 \<Rightarrow> KMemoryManager \<Rightarrow> (nat \<times> KMemoryManager) option" where
  "AllocateAndOpenContinuous num_pages align_pages option mm =
     (if num_pages = 0 then Some (0, mm)
      else
        let (pool, dir) = DecodeOption option;
            heap_index = GetAlignedBlockIndex num_pages align_pages
        in if \<not> pool < PoolCount then None
           else
             case pool_managers pool dir mm of
               None \<Rightarrow> None
             | Some ms \<Rightarrow>
                 if heap_index < 0 \<and> ms \<noteq> [] then None
                 else
                   case try_managers (nat heap_index) num_pages align_pages ms mm of
                     (None, mm) \<Rightarrow> Some (0, mm)
                   | (Some (m, allocated_block), mm) \<Rightarrow>
                       let mm = (if mm_has_optimized_process mm ! pool
                                 then upd_manager m (TrackUnoptimizedAllocation allocated_block num_pages) mm
                                 else mm);
                           mm = upd_manager m (im_OpenFirst allocated_block num_pages) mm
                       in Some (allocated_block, mm))"

section \<open>Groups of pages\<close>

text \<open>What an allocation of a group works on: the managers, the group, the nodes left, and the pages to go.\<close>

record group_state =
  gs_mm :: KMemoryManager
  gs_out :: KPageGroup
  gs_nodes :: nat
  gs_num_pages :: nat

text \<open>
  The innermost loop: blocks of one size from one manager. The result is whether a node could not be
  had; the block at hand has then been given back.
\<close>

function take_blocks :: "nat \<Rightarrow> nat \<Rightarrow> bool \<Rightarrow> bool \<Rightarrow> nat \<Rightarrow> group_state \<Rightarrow> Result \<times> group_state" where
  "take_blocks index pages_per_alloc unoptimized random m st =
     (if pages_per_alloc \<le> gs_num_pages st \<and> 0 < pages_per_alloc
      then
        let (allocated_block, im) = im_AllocateBlock index random (mm_managers (gs_mm st) ! m);
            mm = (gs_mm st)\<lparr>mm_managers := (mm_managers (gs_mm st))[m := im]\<rparr>
        in if allocated_block = 0 then (ResultSuccess, st\<lparr>gs_mm := mm\<rparr>)
           else
             let (result, out, nodes) = AddBlock allocated_block pages_per_alloc (gs_out st) (gs_nodes st)
             in if result \<noteq> ResultSuccess
                then (result, st\<lparr>gs_mm := upd_manager m (im_Free allocated_block pages_per_alloc) mm,
                                 gs_out := out, gs_nodes := nodes\<rparr>)
                else
                  let mm = (if unoptimized
                            then upd_manager m (TrackUnoptimizedAllocation allocated_block pages_per_alloc) mm
                            else mm)
                  in take_blocks index pages_per_alloc unoptimized random m
                       \<lparr>gs_mm = mm, gs_out = out, gs_nodes = nodes,
                        gs_num_pages = gs_num_pages st - pages_per_alloc\<rparr>
      else (ResultSuccess, st))"
  by pat_completeness auto

termination
  by (relation "measure (\<lambda>(_, _, _, _, _, st). gs_num_pages st)") auto

declare take_blocks.simps [simp del]

fun take_from_managers :: "nat \<Rightarrow> bool \<Rightarrow> bool \<Rightarrow> nat list \<Rightarrow> group_state \<Rightarrow> Result \<times> group_state" where
  "take_from_managers index unoptimized random [] st = (ResultSuccess, st)"
| "take_from_managers index unoptimized random (m # ms) st =
     (let (result, st) = take_blocks index (GetBlockNumPages index) unoptimized random m st
      in if result \<noteq> ResultSuccess then (result, st) else take_from_managers index unoptimized random ms st)"

text \<open>The sizes are tried in descending order; the first argument is the index plus one.\<close>

fun take_sizes :: "nat \<Rightarrow> bool \<Rightarrow> bool \<Rightarrow> nat list \<Rightarrow> group_state \<Rightarrow> Result \<times> group_state" where
  "take_sizes 0 unoptimized random ms st = (ResultSuccess, st)"
| "take_sizes (Suc index) unoptimized random ms st =
     (if gs_num_pages st > 0
      then
        let (result, st) = take_from_managers index unoptimized random ms st
        in if result \<noteq> ResultSuccess then (result, st) else take_sizes index unoptimized random ms st
      else (ResultSuccess, st))"

text \<open>What a failed allocation gives back: of each node the part that lies in the manager of its address.\<close>

fun give_back :: "KPageGroup \<Rightarrow> KMemoryManager \<Rightarrow> KMemoryManager option" where
  "give_back [] mm = Some mm"
| "give_back (it # out) mm =
     (case GetManager (bi_GetAddress it) mm of
        None \<Rightarrow> None
      | Some m \<Rightarrow>
          let node_num_pages = min (bi_GetNumPages it)
                (sub64 (heap_GetEndAddress (im_heap (mm_managers mm ! m))) (bi_GetAddress it) div PageSize)
          in give_back out (upd_manager m (im_Free (bi_GetAddress it) node_num_pages) mm))"

definition AllocatePageGroupImpl ::
  "nat \<Rightarrow> nat \<Rightarrow> nat \<Rightarrow> bool \<Rightarrow> bool \<Rightarrow> KPageGroup \<times> nat \<times> KMemoryManager
     \<Rightarrow> (Result \<times> KPageGroup \<times> nat \<times> KMemoryManager) option" where
  "AllocatePageGroupImpl num_pages pool dir unoptimized random args =
     (let (out, nodes, mm) = args;
          heap_index = GetBlockIndex num_pages
      in if heap_index < 0 then Some (ResultOutOfMemory, out, nodes, mm)
         else
           case pool_managers pool dir mm of
             None \<Rightarrow> None
           | Some ms \<Rightarrow>
               let (result, st) = take_sizes (nat heap_index + 1) unoptimized random ms
                     \<lparr>gs_mm = mm, gs_out = out, gs_nodes = nodes, gs_num_pages = num_pages\<rparr>;
                   result = (if result = ResultSuccess \<and> gs_num_pages st \<noteq> 0 then ResultOutOfMemory else result)
               in if result = ResultSuccess then Some (result, gs_out st, gs_nodes st, gs_mm st)
                  else
                    case give_back (gs_out st) (gs_mm st) of
                      None \<Rightarrow> None
                    | Some mm \<Rightarrow>
                        let (out, nodes) = pg_Finalize (gs_out st) (gs_nodes st)
                        in Some (result, out, nodes, mm))"

definition pg_OpenFirst :: "KPageGroup \<Rightarrow> KMemoryManager \<Rightarrow> KMemoryManager option" where
  "pg_OpenFirst pg mm =
     foldl (\<lambda>r it. Option.bind r (mm_OpenFirst (bi_GetAddress it) (bi_GetNumPages it))) (Some mm) pg"

definition pg_Open :: "KPageGroup \<Rightarrow> KMemoryManager \<Rightarrow> KMemoryManager option" where
  "pg_Open pg mm =
     foldl (\<lambda>r it. Option.bind r (mm_Open (bi_GetAddress it) (bi_GetNumPages it))) (Some mm) pg"

definition pg_Close :: "KPageGroup \<Rightarrow> KMemoryManager \<Rightarrow> KMemoryManager option" where
  "pg_Close pg mm =
     foldl (\<lambda>r it. Option.bind r (mm_Close (bi_GetAddress it) (bi_GetNumPages it))) (Some mm) pg"

definition CloseAndReset :: "KPageGroup \<Rightarrow> nat \<Rightarrow> KMemoryManager \<Rightarrow> (KPageGroup \<times> nat \<times> KMemoryManager) option" where
  "CloseAndReset pg nodes mm = map_option (\<lambda>mm. ([], nodes + length pg, mm)) (pg_Close pg mm)"

definition AllocateAndOpen ::
  "nat \<Rightarrow> u32 \<Rightarrow> KPageGroup \<times> nat \<times> KMemoryManager \<Rightarrow> (Result \<times> KPageGroup \<times> nat \<times> KMemoryManager) option" where
  "AllocateAndOpen num_pages option args =
     (let (out, nodes, mm) = args
      in if num_pages = 0 then Some (ResultSuccess, out, nodes, mm)
         else
           let (pool, dir) = DecodeOption option
           in if \<not> pool < PoolCount then None
              else
                case AllocatePageGroupImpl num_pages pool dir (mm_has_optimized_process mm ! pool) True
                       (out, nodes, mm) of
                  None \<Rightarrow> None
                | Some (result, out, nodes, mm) \<Rightarrow>
                    if result \<noteq> ResultSuccess then Some (result, out, nodes, mm)
                    else map_option (\<lambda>mm. (ResultSuccess, out, nodes, mm)) (pg_OpenFirst out mm))"

subsection \<open>Pages for a process\<close>

text \<open>The two loops over the parts of a node that belong to different managers.\<close>

partial_function (option) process_parts ::
  "u8 \<Rightarrow> bool \<Rightarrow> nat \<Rightarrow> nat \<Rightarrow> KMemoryManager \<Rightarrow> (bool \<times> KMemoryManager) option" where
  "process_parts fill_pattern any_new address num_pages mm =
     (if num_pages = 0 then Some (any_new, mm)
      else
        Option.bind (GetManager address mm) (\<lambda>m.
          let im = mm_managers mm ! m;
              cur_pages = min num_pages (heap_GetPageOffsetToEnd address (im_heap im));
              (any_new, mem) = ProcessOptimizedAllocation address cur_pages fill_pattern im (mm_dram mm)
          in process_parts fill_pattern any_new (address + cur_pages * PageSize) (num_pages - cur_pages)
               (mm\<lparr>mm_dram := mem\<rparr>)))"

declare process_parts.simps [code]

definition optimize_node :: "u8 \<Rightarrow> KBlockInfo \<Rightarrow> KMemoryManager \<Rightarrow> KMemoryManager option" where
  "optimize_node fill_pattern it mm =
     (if bi_GetNumPages it = 0 then Some mm
      else
        Option.bind (process_parts fill_pattern False (bi_GetAddress it) (bi_GetNumPages it) mm) (\<lambda>(any_new, mm).
          if any_new then each_part TrackOptimizedAllocation (bi_GetAddress it) (bi_GetNumPages it) mm
          else Some mm))"

definition AllocateForProcess ::
  "nat \<Rightarrow> u32 \<Rightarrow> u64 \<Rightarrow> u8 \<Rightarrow> KPageGroup \<times> nat \<times> KMemoryManager
     \<Rightarrow> (Result \<times> KPageGroup \<times> nat \<times> KMemoryManager) option" where
  "AllocateForProcess num_pages option process_id fill_pattern args =
     (let (out, nodes, mm) = args;
          (pool, dir) = DecodeOption option
      in if \<not> pool < PoolCount then None
         else
           let has_optimized = mm_has_optimized_process mm ! pool;
               is_optimized = (mm_optimized_process_ids mm ! pool = process_id)
           in case AllocatePageGroupImpl num_pages pool dir (has_optimized \<and> \<not> is_optimized) False
                     (out, nodes, mm) of
                None \<Rightarrow> None
              | Some (result, out, nodes, mm) \<Rightarrow>
                  if result \<noteq> ResultSuccess then Some (result, out, nodes, mm)
                  else if has_optimized \<and> is_optimized
                  then map_option (\<lambda>mm. (ResultSuccess, out, nodes, mm))
                         (foldl (\<lambda>r it. Option.bind r (optimize_node fill_pattern it)) (Some mm) out)
                  else Some (ResultSuccess, out, nodes,
                         mm\<lparr>mm_dram := fold (\<lambda>it. fill_memory (bi_GetAddress it) (bi_GetSize it) fill_pattern) out
                                        (mm_dram mm)\<rparr>))"

end
