(* ===== verification/Memory_Manager_Pages.thy ===== *)
theory Memory_Manager_Pages
  imports KMemoryManager Page_Heap_Laws
begin

text \<open>
  The memory manager page by page. What a manager knows of a page is its view; the operations of a
  manager change the views of the pages they are given and of no others, which is the contract
  \<open>page_operation\<close> of their common loop over managers. The contract is met by opening, closing,
  freeing and tracking pages.
\<close>
section \<open>Pages of one manager\<close>

text \<open>What a manager knows of a page: whether it is free, its references, and its bit in the map.\<close>

record page_view =
  pv_free :: bool
  pv_refs :: nat
  pv_tracked :: bool

definition base_page :: "Impl \<Rightarrow> nat" where
  "base_page im = m_heap_address (im_heap im) div PageSize"

definition im_pages :: "Impl \<Rightarrow> nat set" where
  "im_pages im = heap_pages (im_heap im)"

definition tracked_bit :: "u64 list \<Rightarrow> nat \<Rightarrow> bool" where
  "tracked_bit m q \<longleftrightarrow> bit (m ! (q div 64)) (q mod 64)"

definition im_view :: "Impl \<Rightarrow> nat \<Rightarrow> page_view" where
  "im_view im p =
     \<lparr>pv_free = p \<in> free_pages (im_heap im),
      pv_refs = unat (im_page_reference_counts im ! (p - base_page im)),
      pv_tracked = tracked_bit (im_optimize_map im) (p - base_page im)\<rparr>"

text \<open>
  A manager in order: its heap is, its arrays cover the heap, and a free page has no references. The
  pages have numbers of 32 bits, since a group keeps them in such numbers.
\<close>

definition impl_ok :: "Impl \<Rightarrow> bool" where
  "impl_ok im \<longleftrightarrow> heap_ok (im_heap im) \<and> 0 < m_heap_size (im_heap im) \<and>
     heap_GetEndAddress (im_heap im) < 2 ^ 44 \<and>
     m_heap_size (im_heap im) div PageSize \<le> length (im_page_reference_counts im) \<and>
     m_heap_size (im_heap im) div PageSize \<le> 64 * length (im_optimize_map im) \<and>
     (\<forall>p\<in>im_pages im. pv_free (im_view im p) \<longrightarrow> pv_refs (im_view im p) = 0)"

text \<open>What no operation on pages changes of a manager.\<close>

definition same_frame :: "Impl \<Rightarrow> Impl \<Rightarrow> bool" where
  "same_frame im im' \<longleftrightarrow> im_pool im' = im_pool im \<and> im_next im' = im_next im \<and> im_prev im' = im_prev im \<and>
     im_management_region im' = im_management_region im \<and>
     m_heap_address (im_heap im') = m_heap_address (im_heap im) \<and>
     m_heap_size (im_heap im') = m_heap_size (im_heap im)"

lemma same_frame_refl [simp]: "same_frame im im"
  by (simp add: same_frame_def)

lemma same_frame_trans: "same_frame a b \<Longrightarrow> same_frame b c \<Longrightarrow> same_frame a c"
  by (simp add: same_frame_def)

lemma same_frameD:
  "same_frame im im' \<Longrightarrow> base_page im' = base_page im"
  "same_frame im im' \<Longrightarrow> im_pages im' = im_pages im"
  "same_frame im im' \<Longrightarrow> heap_GetPageOffsetToEnd a (im_heap im') = heap_GetPageOffsetToEnd a (im_heap im)"
  by (simp_all add: same_frame_def base_page_def im_pages_def heap_pages_def heap_GetPageOffsetToEnd_def
      heap_GetEndAddress_def)

subsection \<open>Numbers of pages\<close>

lemma impl_okD:
  assumes "impl_ok im"
  shows "heap_ok (im_heap im)" "heap_shape (im_heap im)" "m_heap_address (im_heap im) = base_page im * PageSize"
    "m_heap_size (im_heap im) = m_heap_size (im_heap im) div PageSize * PageSize"
    "im_pages im = {base_page im..<base_page im + m_heap_size (im_heap im) div PageSize}"
    "0 < m_heap_size (im_heap im) div PageSize" "0 < base_page im"
    "base_page im + m_heap_size (im_heap im) div PageSize < 2 ^ 32"
proof -
  show h: "heap_ok (im_heap im)" and s: "heap_shape (im_heap im)" using assms by (auto simp: impl_ok_def heap_ok_def)
  show a: "m_heap_address (im_heap im) = base_page im * PageSize"
    using s by (auto simp: base_page_def heap_shape_def)
  show z: "m_heap_size (im_heap im) = m_heap_size (im_heap im) div PageSize * PageSize"
    using s by (auto simp: heap_shape_def)
  let ?n = "m_heap_size (im_heap im) div PageSize"
  have e: "m_heap_address (im_heap im) + m_heap_size (im_heap im) = (base_page im + ?n) * PageSize"
    using a z by (simp add: add_mult_distrib)
  show "im_pages im = {base_page im..<base_page im + ?n}"
    unfolding im_pages_def heap_pages_def e by (simp add: base_page_def)
  show "0 < ?n" using assms z by (metis impl_ok_def mult_0 gr0I less_irrefl)
  have "level_shape (im_heap im) 0" using s by (simp add: heap_shape_def)
  then have "0 < m_heap_address (im_heap im)"
    by (auto simp: level_shape_def Let_def intro: gr0I)
  with a show "0 < base_page im" by (metis gr0I less_irrefl mult_0)
  have "(base_page im + ?n) * PageSize < 2 ^ 44"
    using assms e by (simp add: impl_ok_def heap_GetEndAddress_def)
  then show "base_page im + ?n < 2 ^ 32" by (simp add: PageSize_def)
qed

lemma page_offset:
  assumes "impl_ok im" "p \<in> im_pages im"
  shows "heap_GetPageOffset (p * PageSize) (im_heap im) = p - base_page im"
    "p - base_page im < length (im_page_reference_counts im)"
    "(p - base_page im) div 64 < length (im_optimize_map im)"
    "base_page im + (p - base_page im) = p"
proof -
  note D = impl_okD [OF assms(1)]
  let ?n = "m_heap_size (im_heap im) div PageSize"
  have p: "base_page im \<le> p" "p < base_page im + ?n" using assms(2) D(5) by auto
  have "p * PageSize < 2 ^ 64" using p(2) D(8) by (simp add: PageSize_def)
  then have "sub64 (p * PageSize) (m_heap_address (im_heap im)) = p * PageSize - base_page im * PageSize"
    unfolding D(3) using p(1) by (intro sub64_eq) simp_all
  then show "heap_GetPageOffset (p * PageSize) (im_heap im) = p - base_page im"
    by (simp add: heap_GetPageOffset_def diff_mult_distrib [symmetric])
  have q: "p - base_page im < ?n" using p by linarith
  show "p - base_page im < length (im_page_reference_counts im)"
    using q assms(1) unfolding impl_ok_def by (elim conjE) (rule less_le_trans)
  have "p - base_page im < 64 * length (im_optimize_map im)"
    using q assms(1) unfolding impl_ok_def by (elim conjE) (rule less_le_trans)
  then show "(p - base_page im) div 64 < length (im_optimize_map im)" by (simp add: less_mult_imp_div_less mult.commute)
  show "base_page im + (p - base_page im) = p" using p by simp
qed

lemma page_to_end:
  assumes "impl_ok im" "p \<in> im_pages im"
  shows "heap_GetPageOffsetToEnd (p * PageSize) (im_heap im) = base_page im + m_heap_size (im_heap im) div PageSize - p"
proof -
  note D = impl_okD [OF assms(1)]
  let ?n = "m_heap_size (im_heap im) div PageSize"
  have e: "heap_GetEndAddress (im_heap im) = (base_page im + ?n) * PageSize"
    unfolding heap_GetEndAddress_def using D(3,4) by (simp add: add_mult_distrib)
  have "(base_page im + ?n) * PageSize < 2 ^ 64" using D(8) by (simp add: PageSize_def)
  moreover have "p * PageSize \<le> (base_page im + ?n) * PageSize" using assms(2) D(5) by (intro mult_le_mono1) auto
  ultimately have "sub64 (heap_GetEndAddress (im_heap im)) (p * PageSize) = (base_page im + ?n) * PageSize - p * PageSize"
    unfolding e by (intro sub64_eq)
  then show ?thesis by (simp add: heap_GetPageOffsetToEnd_def diff_mult_distrib [symmetric])
qed

text \<open>The pages of a heap in order determine where it lies.\<close>

lemma heap_pages_frame:
  assumes im: "impl_ok im" and h: "heap_ok h" and p: "heap_pages h = heap_pages (im_heap im)"
  shows "m_heap_address h = m_heap_address (im_heap im)" "m_heap_size h = m_heap_size (im_heap im)"
proof -
  note D = impl_okD [OF im]
  let ?n = "m_heap_size (im_heap im) div PageSize"
  have s: "m_heap_address h = m_heap_address h div PageSize * PageSize"
    "m_heap_size h = m_heap_size h div PageSize * PageSize"
    using h by (auto simp: heap_ok_def heap_shape_def)
  define a n where "a = m_heap_address h div PageSize" and "n = m_heap_size h div PageSize"
  have ext: "m_heap_address h + m_heap_size h = (a + n) * PageSize"
    using s by (simp only: a_def n_def add_mult_distrib)
  have eq: "{a..<a + n} = {base_page im..<base_page im + ?n}"
    using p D(5) unfolding heap_pages_def im_pages_def ext by (simp add: a_def)
  then have n: "n = ?n" by (metis card_atLeastLessThan add_diff_cancel_left')
  with eq D(6) have "a = base_page im" by (simp add: atLeastLessThan_eq_iff)
  note \<open>a = base_page im\<close> n
  then show "m_heap_address h = m_heap_address (im_heap im)" "m_heap_size h = m_heap_size (im_heap im)"
    using s D(3,4) by (simp_all only: a_def n_def)
qed

subsection \<open>Operations that act page by page\<close>

text \<open>A manager changes by \<open>g\<close> on the pages of \<open>S\<close> and not elsewhere.\<close>

definition acts :: "nat set \<Rightarrow> (page_view \<Rightarrow> page_view) \<Rightarrow> Impl \<Rightarrow> Impl \<Rightarrow> bool" where
  "acts S g im im' \<longleftrightarrow> impl_ok im' \<and> same_frame im im' \<and>
     (\<forall>p\<in>im_pages im. im_view im' p = (if p \<in> S then g (im_view im p) else im_view im p))"

lemma fold_update_length [simp]: "length (fold (\<lambda>i c. c[h i := f i c]) is c) = length c"
  by (induction "is" arbitrary: c) simp_all

lemma fold_update_nth:
  "j < length c \<Longrightarrow> fold (\<lambda>i c. c[i := f (c ! i)]) [a..<b] c ! j = (if a \<le> j \<and> j < b then f (c ! j) else c ! j)"
proof (induction b)
  case (Suc b)
  then show ?case by (cases "a \<le> b") (auto simp: nth_list_update not_le less_Suc_eq dest: le_neq_implies_less)
qed simp

lemma fold_track:
  assumes step: "\<And>w i j. i < 64 \<Longrightarrow> j < 64 \<Longrightarrow> bit (f i w) j = (if i = j then v else bit (w :: u64) j)"
    and q: "q div 64 < length m"
  shows "tracked_bit (fold (\<lambda>o' m. m[o' div 64 := f (o' mod 64) (m ! (o' div 64))]) [a..<b] m) q =
    (if a \<le> q \<and> q < b then v else tracked_bit m q)"
proof (induction b)
  case (Suc b)
  show ?case
  proof (cases "a \<le> b")
    case True
    let ?m = "fold (\<lambda>o' m. m[o' div 64 := f (o' mod 64) (m ! (o' div 64))]) [a..<b] m"
    have "tracked_bit (?m[b div 64 := f (b mod 64) (?m ! (b div 64))]) q = (if q = b then v else tracked_bit ?m q)"
    proof (cases "q div 64 = b div 64")
      case True
      then have "q = b \<longleftrightarrow> q mod 64 = b mod 64" by (metis div_mult_mod_eq)
      then show ?thesis using True q step [of "b mod 64" "q mod 64"] by (simp add: tracked_bit_def)
    qed (auto simp: tracked_bit_def)
    with Suc.IH True show ?thesis by (auto simp: less_Suc_eq)
  qed (use Suc.IH in auto)
qed simp

lemma interval_offsets:
  assumes "impl_ok im" "{s..<s + n} \<subseteq> im_pages im" "0 < n"
  shows "heap_GetPageOffset (s * PageSize) (im_heap im) = s - base_page im"
    "p \<in> im_pages im \<Longrightarrow> (s - base_page im \<le> p - base_page im \<and> p - base_page im < s - base_page im + n) = (p \<in> {s..<s + n})"
proof -
  have s: "s \<in> im_pages im" using assms by auto
  show "heap_GetPageOffset (s * PageSize) (im_heap im) = s - base_page im" by (rule page_offset(1) [OF assms(1) s])
  assume "p \<in> im_pages im"
  with s impl_okD(5) [OF assms(1)]
  show "(s - base_page im \<le> p - base_page im \<and> p - base_page im < s - base_page im + n) = (p \<in> {s..<s + n})" by auto
qed

locale page_operation =
  fixes f :: "nat \<Rightarrow> nat \<Rightarrow> Impl \<Rightarrow> Impl" and okv :: "page_view \<Rightarrow> bool" and g :: "page_view \<Rightarrow> page_view"
  assumes op: "impl_ok im \<Longrightarrow> {s..<s + n} \<subseteq> im_pages im \<Longrightarrow> 0 < n \<Longrightarrow>
    (\<And>p. p \<in> {s..<s + n} \<Longrightarrow> okv (im_view im p)) \<Longrightarrow> acts {s..<s + n} g im (f (s * PageSize) n im)"

text \<open>Changes of the counts alone, or of the map alone.\<close>

lemma acts_counts:
  assumes ok: "impl_ok im" and len: "length c = length (im_page_reference_counts im)"
    and v: "\<And>p. p \<in> im_pages im \<Longrightarrow> unat (c ! (p - base_page im)) =
      (if p \<in> S then r (pv_refs (im_view im p)) else pv_refs (im_view im p))"
    and nf: "\<And>p. p \<in> S \<Longrightarrow> p \<in> im_pages im \<Longrightarrow> \<not> pv_free (im_view im p)"
  shows "acts S (pv_refs_update r) im (im\<lparr>im_page_reference_counts := c\<rparr>)"
proof -
  let ?im = "im\<lparr>im_page_reference_counts := c\<rparr>"
  have b: "base_page ?im = base_page im" "im_pages ?im = im_pages im" by (simp_all add: base_page_def im_pages_def)
  have view: "im_view ?im p = (if p \<in> S then pv_refs_update r (im_view im p) else im_view im p)" if "p \<in> im_pages im" for p
    using v [OF that] by (simp add: im_view_def b)
  moreover have "impl_ok ?im"
    using ok view nf len by (auto simp: impl_ok_def b split: if_splits)
  ultimately show ?thesis by (simp add: acts_def same_frame_def)
qed

lemma acts_map:
  assumes ok: "impl_ok im" and len: "length m = length (im_optimize_map im)"
    and v: "\<And>p. p \<in> im_pages im \<Longrightarrow> tracked_bit m (p - base_page im) =
      (if p \<in> S then b else pv_tracked (im_view im p))"
  shows "acts S (pv_tracked_update (\<lambda>_. b)) im (im\<lparr>im_optimize_map := m\<rparr>)"
proof -
  let ?im = "im\<lparr>im_optimize_map := m\<rparr>"
  have b: "base_page ?im = base_page im" "im_pages ?im = im_pages im" by (simp_all add: base_page_def im_pages_def)
  have view: "im_view ?im p = (if p \<in> S then pv_tracked_update (\<lambda>_. b) (im_view im p) else im_view im p)"
    if "p \<in> im_pages im" for p
    using v [OF that] by (simp add: im_view_def b)
  moreover have "impl_ok ?im" using ok view len by (auto simp: impl_ok_def b split: if_splits)
  ultimately show ?thesis by (simp add: acts_def same_frame_def)
qed

subsection \<open>Opening\<close>

abbreviation openable :: "page_view \<Rightarrow> bool" where
  "openable v \<equiv> \<not> pv_free v \<and> pv_refs v < 2 ^ 16 - 1"

lemma open_acts:
  assumes ok: "impl_ok im" and S: "{s..<s + n} \<subseteq> im_pages im" "0 < n"
    and v: "\<And>p. p \<in> {s..<s + n} \<Longrightarrow> openable (im_view im p)"
  shows "acts {s..<s + n} (pv_refs_update Suc) im (im_OpenFirst (s * PageSize) n im)"
proof -
  note i = interval_offsets [OF ok S]
  let ?c = "im_page_reference_counts im"
  let ?b = "s - base_page im"
  let ?c' = "fold (\<lambda>i counts. counts[i := counts ! i + 1]) [?b..<?b + n] ?c"
  have "acts {s..<s + n} (pv_refs_update Suc) im (im\<lparr>im_page_reference_counts := ?c'\<rparr>)"
  proof (rule acts_counts [OF ok])
    fix p assume p: "p \<in> im_pages im"
    have "unat (?c ! (p - base_page im) + 1) = Suc (unat (?c ! (p - base_page im)))" if "p \<in> {s..<s + n}"
      using v [OF that] by (simp add: im_view_def unat_word_ariths)
    then show "unat (?c' ! (p - base_page im)) =
        (if p \<in> {s..<s + n} then Suc (pv_refs (im_view im p)) else pv_refs (im_view im p))"
      using fold_update_nth [OF page_offset(2) [OF ok p], of "\<lambda>x. x + 1" ?b "?b + n"] i(2) [OF p]
      by (simp add: im_view_def)
  qed (use v in simp_all)
  then show ?thesis by (simp add: im_OpenFirst_def i(1) Let_def)
qed

interpretation open_first: page_operation im_OpenFirst openable "pv_refs_update Suc"
  by unfold_locales (rule open_acts)

interpretation opened: page_operation im_Open openable "pv_refs_update Suc"
  by unfold_locales (use open_acts in \<open>simp add: im_OpenFirst_def im_Open_def\<close>)

subsection \<open>Tracking\<close>

lemma bit_set: "i < 64 \<Longrightarrow> j < 64 \<Longrightarrow> bit (w OR push_bit i 1) j = (if i = j then True else bit (w :: u64) j)"
  by (auto simp: bit_simps)

lemma bit_clear: "i < 64 \<Longrightarrow> j < 64 \<Longrightarrow> bit (w AND NOT (push_bit i 1)) j = (if i = j then False else bit (w :: u64) j)"
  by (auto simp: bit_simps)

lemma track_acts:
  assumes ok: "impl_ok im" and S: "{s..<s + n} \<subseteq> im_pages im" "0 < n"
    and step: "\<And>w i j. i < 64 \<Longrightarrow> j < 64 \<Longrightarrow> bit (f i w) j = (if i = j then b else bit (w :: u64) j)"
    and m: "m = fold (\<lambda>o' m. m[o' div 64 := f (o' mod 64) (m ! (o' div 64))])
      [s - base_page im..<s - base_page im + n] (im_optimize_map im)"
  shows "acts {s..<s + n} (pv_tracked_update (\<lambda>_. b)) im (im\<lparr>im_optimize_map := m\<rparr>)"
proof (rule acts_map [OF ok])
  show "length m = length (im_optimize_map im)" by (simp add: m)
  fix p assume p: "p \<in> im_pages im"
  show "tracked_bit m (p - base_page im) = (if p \<in> {s..<s + n} then b else pv_tracked (im_view im p))"
  proof -
    have "tracked_bit m (p - base_page im) =
        (if s - base_page im \<le> p - base_page im \<and> p - base_page im < s - base_page im + n then b
         else tracked_bit (im_optimize_map im) (p - base_page im))"
      unfolding m by (rule fold_track) (use step page_offset(3) [OF ok p] in simp_all)
    then show ?thesis unfolding interval_offsets(2) [OF ok S p] by (simp add: im_view_def)
  qed
qed

interpretation track_optimized: page_operation TrackOptimizedAllocation "\<lambda>_. True" "pv_tracked_update (\<lambda>_. True)"
  by unfold_locales
    (use track_acts [OF _ _ _ bit_set refl] interval_offsets(1) in \<open>simp add: TrackOptimizedAllocation_def Let_def\<close>)

interpretation track_unoptimized: page_operation TrackUnoptimizedAllocation "\<lambda>_. True" "pv_tracked_update (\<lambda>_. False)"
  by unfold_locales
    (use track_acts [OF _ _ _ bit_clear refl] interval_offsets(1) in \<open>simp add: TrackUnoptimizedAllocation_def Let_def\<close>)

subsection \<open>Changes of the heap\<close>

lemma with_heap:
  assumes ok: "impl_ok im" and h: "heap_ok h" "heap_pages h = heap_pages (im_heap im)"
  shows "same_frame im (im\<lparr>im_heap := h\<rparr>)"
    "im_view (im\<lparr>im_heap := h\<rparr>) p = (im_view im p)\<lparr>pv_free := p \<in> free_pages h\<rparr>"
    "(\<And>p. p \<in> free_pages h \<Longrightarrow> pv_refs (im_view im p) = 0) \<Longrightarrow> impl_ok (im\<lparr>im_heap := h\<rparr>)"
proof -
  let ?im = "im\<lparr>im_heap := h\<rparr>"
  note f = heap_pages_frame [OF ok h]
  show fr: "same_frame im ?im" using f by (simp add: same_frame_def)
  show v: "im_view ?im p = (im_view im p)\<lparr>pv_free := p \<in> free_pages h\<rparr>" for p
    using same_frameD(1) [OF fr] by (simp add: im_view_def)
  assume z: "\<And>p. p \<in> free_pages h \<Longrightarrow> pv_refs (im_view im p) = 0"
  have "pv_free (im_view ?im p) \<longrightarrow> pv_refs (im_view ?im p) = 0" for p using z unfolding v by simp
  then show "impl_ok ?im" using ok h f by (simp add: impl_ok_def heap_GetEndAddress_def)
qed

lemma impl_free_refs: "impl_ok im \<Longrightarrow> p \<in> free_pages (im_heap im) \<Longrightarrow> p \<in> im_pages im \<and> pv_refs (im_view im p) = 0"
  by (auto simp: impl_ok_def im_pages_def heap_ok_def im_view_def)

abbreviation unused :: "page_view \<Rightarrow> bool" where
  "unused v \<equiv> \<not> pv_free v \<and> pv_refs v = 0"

lemma free_acts:
  assumes ok: "impl_ok im" and S: "{s..<s + n} \<subseteq> im_pages im"
    and v: "\<And>p. p \<in> {s..<s + n} \<Longrightarrow> unused (im_view im p)"
  shows "acts {s..<s + n} (pv_free_update (\<lambda>_. True)) im (im_Free (s * PageSize) n im)"
proof -
  have fr: "freeable {s..<s + n} (im_heap im)"
    using S v impl_okD(1) [OF ok] by (force simp: freeable_def im_pages_def im_view_def)
  let ?h = "heap_Free (s * PageSize) n (im_heap im)"
  have a: "heap_ok ?h" "free_pages ?h = free_pages (im_heap im) \<union> {s..<s + n}" "heap_pages ?h = heap_pages (im_heap im)"
    using heap_Free_adds [OF fr] by (simp_all add: adds_def)
  note w = with_heap [OF ok a(1,3)]
  have "impl_ok (im\<lparr>im_heap := ?h\<rparr>)"
    using impl_free_refs [OF ok] v by (intro w(3)) (auto simp: a(2))
  moreover have "im_view (im\<lparr>im_heap := ?h\<rparr>) p =
      (if p \<in> {s..<s + n} then pv_free_update (\<lambda>_. True) (im_view im p) else im_view im p)" for p
    unfolding w(2) a(2) by (auto simp: im_view_def)
  ultimately show ?thesis using w(1) by (simp add: acts_def im_Free_def)
qed

interpretation release: page_operation im_Free unused "pv_free_update (\<lambda>_. True)"
  by unfold_locales (rule free_acts)

lemma taken_acts:
  assumes ok: "impl_ok im" and h: "heap_ok h" "heap_pages h = heap_pages (im_heap im)"
    and R: "R \<subseteq> free_pages (im_heap im)" "free_pages h = free_pages (im_heap im) - R"
  shows "acts R (pv_free_update (\<lambda>_. False)) im (im\<lparr>im_heap := h\<rparr>)" "R \<subseteq> im_pages im"
    "\<forall>p\<in>R. pv_free (im_view im p)"
proof -
  note w = with_heap [OF ok h]
  have "impl_ok (im\<lparr>im_heap := h\<rparr>)" using impl_free_refs [OF ok] R by (intro w(3)) auto
  moreover have "im_view (im\<lparr>im_heap := h\<rparr>) p = (if p \<in> R then pv_free_update (\<lambda>_. False) (im_view im p) else im_view im p)" for p
    unfolding w(2) R(2) by (auto simp: im_view_def)
  ultimately show "acts R (pv_free_update (\<lambda>_. False)) im (im\<lparr>im_heap := h\<rparr>)" using w(1) by (simp add: acts_def)
  show "R \<subseteq> im_pages im" using R(1) impl_free_refs [OF ok] by auto
  show "\<forall>p\<in>R. pv_free (im_view im p)" using R(1) by (auto simp: im_view_def)
qed

lemma AllocateBlock_acts:
  assumes ok: "impl_ok im" and i: "index < 7" and r: "im_AllocateBlock index random im = (addr, im')"
  shows "if addr = 0 then acts {} (pv_free_update (\<lambda>_. False)) im im' \<and>
      \<not> (\<exists>a. block_pages page_shift index a \<subseteq> free_pages (im_heap im))
    else \<exists>s. addr = s * PageSize \<and> {s..<s + 2 ^ page_shift index} \<subseteq> im_pages im \<and>
      (\<forall>p\<in>{s..<s + 2 ^ page_shift index}. pv_free (im_view im p)) \<and>
      acts {s..<s + 2 ^ page_shift index} (pv_free_update (\<lambda>_. False)) im im'"
proof -
  obtain h where h: "AllocateBlock index random (im_heap im) = (addr, h)" and im': "im' = im\<lparr>im_heap := h\<rparr>"
    using r by (auto simp: im_AllocateBlock_def split: prod.splits)
  note S = AllocateBlock_spec [OF impl_okD(1) [OF ok] i h]
  have hok: "heap_ok h" "heap_pages h = heap_pages (im_heap im)" using S by blast+
  show ?thesis
  proof (cases "\<exists>a. block_pages page_shift index a \<subseteq> free_pages (im_heap im)")
    case False
    with S taken_acts [OF ok hok, of "{}"] show ?thesis by (simp add: im')
  next
    case True
    with S obtain a where a: "addr = a * 2 ^ block_shift index" "addr \<noteq> 0"
      "block_pages page_shift index a \<subseteq> free_pages (im_heap im)"
      "free_pages h = free_pages (im_heap im) - block_pages page_shift index a" by auto
    let ?s = "a * 2 ^ page_shift index"
    have B: "block_pages page_shift index a = {?s..<?s + 2 ^ page_shift index}"
      by (simp add: block_pages_interval algebra_simps)
    have "addr = ?s * PageSize" using a(1) block_size_pages [OF i] by simp
    with taken_acts [OF ok hok a(3,4)] a(2) show ?thesis unfolding B im' by auto
  qed
qed

lemma AllocateAligned_acts:
  assumes ok: "impl_ok im" and n: "0 < n" and i: "GetAlignedBlockIndex n (2 ^ k) = int index"
    and r: "im_AllocateAligned index n (2 ^ k) im = (addr, im')"
  shows "if \<not> (\<exists>a. block_pages page_shift index a \<subseteq> free_pages (im_heap im))
    then addr = 0 \<and> acts {} (pv_free_update (\<lambda>_. False)) im im'
    else addr \<noteq> 0 \<and> (\<exists>s. addr = s * PageSize \<and> 2 ^ k dvd s \<and> {s..<s + n} \<subseteq> im_pages im \<and>
      (\<forall>p\<in>{s..<s + n}. pv_free (im_view im p)) \<and>
      acts {s..<s + n} (pv_free_update (\<lambda>_. False)) im im')"
proof -
  note ix = GetAlignedBlockIndex_spec [OF i]
  have k: "k \<le> page_shift index" using ix(3) by (simp add: power_le_imp_le_exp)
  obtain h where h: "AllocateByRandom index n (2 ^ k) (im_heap im) = (addr, h)" and im': "im' = im\<lparr>im_heap := h\<rparr>"
    using r by (auto simp: im_AllocateAligned_def AllocateAligned_def split: prod.splits)
  note S = AllocateByRandom_spec [OF impl_okD(1) [OF ok] ix(1) n ix(2) k h]
  have hok: "heap_ok h" "heap_pages h = heap_pages (im_heap im)" using S by blast+
  show ?thesis
  proof (cases "\<exists>a. block_pages page_shift index a \<subseteq> free_pages (im_heap im)")
    case False
    with S taken_acts [OF ok hok, of "{}"] show ?thesis by (simp add: im')
  next
    case True
    with S have "\<exists>s. addr = s * PageSize \<and> addr \<noteq> 0 \<and> 2 ^ k dvd s \<and> {s..<s + n} \<subseteq> free_pages (im_heap im) \<and>
      free_pages h = free_pages (im_heap im) - {s..<s + n}" by (simp only: if_True)
    then obtain s where s: "addr = s * PageSize" "addr \<noteq> 0" "2 ^ k dvd s" "{s..<s + n} \<subseteq> free_pages (im_heap im)"
      "free_pages h = free_pages (im_heap im) - {s..<s + n}" by (elim exE conjE) (rule that)
    with taken_acts [OF ok hok s(4,5)] True show ?thesis unfolding im' by auto
  qed
qed

subsection \<open>Closing\<close>

definition acts_by :: "(nat \<Rightarrow> page_view \<Rightarrow> page_view) \<Rightarrow> Impl \<Rightarrow> Impl \<Rightarrow> bool" where
  "acts_by G im im' \<longleftrightarrow> impl_ok im' \<and> same_frame im im' \<and> (\<forall>p\<in>im_pages im. im_view im' p = G p (im_view im p))"

lemma acts_acts_by: "acts S g = acts_by (\<lambda>p v. if p \<in> S then g v else v)"
  by (simp add: acts_def acts_by_def fun_eq_iff)

lemma acts_by_trans: "acts_by G im im' \<Longrightarrow> acts_by H im' im'' \<Longrightarrow> acts_by (\<lambda>p v. H p (G p v)) im im''"
  by (auto simp: acts_by_def same_frameD intro: same_frame_trans)

lemma acts_by_cong:
  "acts_by G im im' \<Longrightarrow> (\<And>p. p \<in> im_pages im \<Longrightarrow> G p (im_view im p) = H p (im_view im p)) \<Longrightarrow> acts_by H im im'"
  by (simp add: acts_by_def)

definition closed_view :: "page_view \<Rightarrow> page_view" where
  "closed_view v = v\<lparr>pv_free := pv_free v \<or> pv_refs v = 1, pv_refs := pv_refs v - 1\<rparr>"

lemma closed_view_keep: "pv_refs v \<noteq> 1 \<Longrightarrow> closed_view v = pv_refs_update (\<lambda>r. r - 1) v"
  by (cases v) (simp add: closed_view_def)

definition drop_ref :: "nat \<Rightarrow> Impl \<Rightarrow> Impl" where
  "drop_ref i im = im\<lparr>im_page_reference_counts := (im_page_reference_counts im)[i := im_page_reference_counts im ! i - 1]\<rparr>"

lemma drop_ref_acts:
  assumes ok: "impl_ok im" and p: "base_page im + i \<in> im_pages im" and r: "0 < pv_refs (im_view im (base_page im + i))"
  shows "acts {base_page im + i} (pv_refs_update (\<lambda>r. r - 1)) im (drop_ref i im)"
    "im_page_reference_counts im ! i - 1 = 0 \<longleftrightarrow> pv_refs (im_view im (base_page im + i)) = 1"
proof -
  let ?w = "im_page_reference_counts im ! i"
  have w: "0 < unat ?w" using r by (simp add: im_view_def)
  then have u: "unat (?w - 1) = unat ?w - 1" by (metis unat_minus_one unat_gt_0)
  show "?w - 1 = 0 \<longleftrightarrow> pv_refs (im_view im (base_page im + i)) = 1"
    using u w by (simp add: im_view_def unat_eq_zero [symmetric] del: unat_eq_zero) linarith
  note len = page_offset(2) [OF ok p, simplified]
  show "acts {base_page im + i} (pv_refs_update (\<lambda>r. r - 1)) im (drop_ref i im)"
    unfolding drop_ref_def
  proof (rule acts_counts [OF ok])
    fix q assume q: "q \<in> im_pages im"
    have "base_page im + (q - base_page im) = q" by (rule page_offset(4) [OF ok q])
    then show "unat ((im_page_reference_counts im)[i := ?w - 1] ! (q - base_page im)) =
        (if q \<in> {base_page im + i} then pv_refs (im_view im q) - 1 else pv_refs (im_view im q))"
      using u len by (auto simp: im_view_def nth_list_update)
  next
    fix q assume "q \<in> {base_page im + i}" "q \<in> im_pages im"
    with ok r show "\<not> pv_free (im_view im q)" by (auto simp: impl_ok_def)
  qed simp
qed

lemma free_run_acts:
  assumes ok: "impl_ok im" and P: "{base_page im + fs..<base_page im + fs + fc} \<subseteq> im_pages im"
    "\<And>p. p \<in> {base_page im + fs..<base_page im + fs + fc} \<Longrightarrow> unused (im_view im p)"
  shows "acts {base_page im + fs..<base_page im + fs + fc} (pv_free_update (\<lambda>_. True)) im (free_run fs fc im)"
proof (cases "fc = 0")
  case True
  with ok show ?thesis by (simp add: acts_def free_run_def)
next
  case False
  have "m_heap_address (im_heap im) + fs * PageSize = (base_page im + fs) * PageSize"
    using impl_okD(3) [OF ok] by (simp add: add_mult_distrib)
  with free_acts [OF ok P] False show ?thesis by (simp add: free_run_def)
qed

text \<open>
  The loop of \<open>Close\<close> from page \<open>i\<close> on, with a run of pages at \<open>fs\<close> that have lost their last
  reference and are still to be freed. Pages are counted from the first of the manager.
\<close>

lemma close_loop_acts:
  assumes "impl_ok im" "{base_page im + i..<base_page im + e} \<subseteq> im_pages im"
    "{base_page im + fs..<base_page im + fs + fc} \<subseteq> im_pages im" "fc > 0 \<longrightarrow> fs + fc = i"
    "\<And>p. p \<in> {base_page im + fs..<base_page im + fs + fc} \<Longrightarrow> unused (im_view im p)"
    "\<And>p. p \<in> {base_page im + i..<base_page im + e} \<Longrightarrow> 0 < pv_refs (im_view im p)"
  shows "acts_by (\<lambda>p v. if p \<in> {base_page im + fs..<base_page im + fs + fc} then v\<lparr>pv_free := True\<rparr>
       else if p \<in> {base_page im + i..<base_page im + e} then closed_view v else v) im
     (close_loop [i..<e] fs fc im)"
  using assms
proof (induction "e - i" arbitrary: i fs fc im)
  case 0
  then have e: "[i..<e] = []" "{base_page im + i..<base_page im + e} = {}" by auto
  show ?case using free_run_acts [OF 0(2,4,6)]
    unfolding e acts_acts_by by (simp only: close_loop.simps empty_iff if_False)
next
  case (Suc n)
  let ?b = "base_page im" and ?im = "drop_ref i im"
  have i: "i < e" using Suc.hyps(2) by simp
  then have up: "[i..<e] = i # [Suc i..<e]" by (rule upt_conv_Cons)
  have pi: "?b + i \<in> im_pages im" using Suc.prems(2) i by auto
  have ri: "0 < pv_refs (im_view im (?b + i))" using Suc.prems(6) i by simp
  note d = drop_ref_acts [OF Suc.prems(1) pi ri]
  have ok1: "impl_ok ?im" and fr1: "same_frame im ?im" and
    v1: "\<And>p. p \<in> im_pages im \<Longrightarrow> im_view ?im p =
      (if p = ?b + i then pv_refs_update (\<lambda>r. r - 1) (im_view im p) else im_view im p)"
    using d(1) by (auto simp: acts_def)
  note f1 = same_frameD(1,2) [OF fr1]
  have nf: "\<not> pv_free (im_view im (?b + i))" using Suc.prems(1) pi ri by (auto simp: impl_ok_def)
  let ?z = "pv_refs (im_view im (?b + i)) = 1"
  have lp: "close_loop [i..<e] fs fc im =
      (if ?z then if fc > 0 then close_loop [Suc i..<e] fs (fc + 1) ?im else close_loop [Suc i..<e] i 1 ?im
       else if fc > 0 then close_loop [Suc i..<e] fs 0 (free_run fs fc ?im) else close_loop [Suc i..<e] fs fc ?im)"
    unfolding up using d(2) by (simp add: drop_ref_def Let_def)
  note IH = Suc.hyps(1) [of "Suc i"]
  have SS: "{?b + i..<?b + e} = insert (?b + i) {?b + Suc i..<?b + e}" using i by auto
  have n: "n = e - Suc i" using Suc.hyps(2) by simp
  have S1: "{?b + Suc i..<?b + e} \<subseteq> im_pages im" using Suc.prems(2) by auto
  have r1: "0 < pv_refs (im_view ?im p)" if "p \<in> {?b + Suc i..<?b + e}" for p
    using that v1 [of p] S1 Suc.prems(6) [of p] by auto
  have u1: "unused (im_view ?im p)" if "p \<in> {?b + fs..<?b + fs + fc}" for p
    using that v1 [of p] Suc.prems(3,4) Suc.prems(5) [OF that] by (auto split: if_splits)
  have by1: "acts_by (\<lambda>p v. if p \<in> {?b + i} then pv_refs_update (\<lambda>r. r - 1) v else v) im ?im"
    using d(1) unfolding acts_acts_by .
  show ?case
  proof (cases ?z)
    case True
    define fs' fc' where "fs' = (if fc > 0 then fs else i)" and "fc' = (if fc > 0 then fc + 1 else 1)"
    have P: "{?b + fs'..<?b + fs' + fc'} = insert (?b + i) {?b + fs..<?b + fs + fc}"
      using Suc.prems(4) by (auto simp: fs'_def fc'_def)
    have "acts_by (\<lambda>p v. if p \<in> {?b + fs'..<?b + fs' + fc'} then v\<lparr>pv_free := True\<rparr>
        else if p \<in> {?b + Suc i..<?b + e} then closed_view v else v) ?im (close_loop [Suc i..<e] fs' fc' ?im)"
    proof (rule Suc.hyps(1) [where i = "Suc i" and im = ?im and fs = fs' and fc = fc', unfolded f1])
      show "{?b + fs'..<?b + fs' + fc'} \<subseteq> im_pages im" using P Suc.prems(3) pi by simp
      show "fc' > 0 \<longrightarrow> fs' + fc' = Suc i" using Suc.prems(4) by (auto simp: fs'_def fc'_def)
      show "unused (im_view ?im p)" if "p \<in> {?b + fs'..<?b + fs' + fc'}" for p
        using that u1 [of p] v1 [of p] True nf pi unfolding P by auto
    qed (use n ok1 S1 r1 in auto)
    from acts_by_trans [OF by1 this] have "acts_by (\<lambda>p v. if p \<in> {?b + fs..<?b + fs + fc} then v\<lparr>pv_free := True\<rparr>
       else if p \<in> {?b + i..<?b + e} then closed_view v else v) im (close_loop [Suc i..<e] fs' fc' ?im)"
      by (rule acts_by_cong) (use P True i Suc.prems(4) in \<open>auto simp: closed_view_def\<close>)
    moreover have "close_loop [i..<e] fs fc im = close_loop [Suc i..<e] fs' fc' ?im"
      unfolding lp using True by (simp add: fs'_def fc'_def)
    ultimately show ?thesis by simp
  next
    case False
    define im2 where "im2 = free_run fs fc ?im"
    have by2: "acts_by (\<lambda>p v. if p \<in> {?b + fs..<?b + fs + fc} then pv_free_update (\<lambda>_. True) v else v) ?im im2"
      using free_run_acts [OF ok1, of fs fc, unfolded f1, OF Suc.prems(3) u1] by (simp add: acts_acts_by im2_def)
    then have ok2: "impl_ok im2" and fr2: "same_frame ?im im2" and
      v2: "\<And>p. p \<in> im_pages im \<Longrightarrow> im_view im2 p =
        (if p \<in> {?b + fs..<?b + fs + fc} then pv_free_update (\<lambda>_. True) (im_view ?im p) else im_view ?im p)"
      unfolding acts_by_def f1 by auto
    note f2 = same_frameD(1,2) [OF fr2, unfolded f1]
    have "acts_by (\<lambda>p v. if p \<in> {?b + fs..<?b + fs + 0} then v\<lparr>pv_free := True\<rparr>
        else if p \<in> {?b + Suc i..<?b + e} then closed_view v else v) im2 (close_loop [Suc i..<e] fs 0 im2)"
    proof (rule Suc.hyps(1) [where i = "Suc i" and im = im2 and fs = fs and fc = 0, unfolded f2])
      show "0 < pv_refs (im_view im2 p)" if "p \<in> {?b + Suc i..<?b + e}" for p
        using that v2 [of p] r1 [OF that] S1 by auto
    qed (use n ok2 S1 in auto)
    from acts_by_trans [OF acts_by_trans [OF by1 by2] this]
    have "acts_by (\<lambda>p v. if p \<in> {?b + fs..<?b + fs + fc} then v\<lparr>pv_free := True\<rparr>
       else if p \<in> {?b + i..<?b + e} then closed_view v else v) im (close_loop [Suc i..<e] fs 0 im2)"
      unfolding SS by (rule acts_by_cong)
        (use closed_view_keep [OF False] i Suc.prems(4) in \<open>auto simp del: One_nat_def\<close>)
    moreover have "close_loop [i..<e] fs fc im = close_loop [Suc i..<e] fs 0 im2"
      unfolding lp im2_def using False by (simp add: free_run_def)
    ultimately show ?thesis by simp
  qed
qed

lemma close_acts:
  assumes ok: "impl_ok im" and S: "{s..<s + n} \<subseteq> im_pages im" "0 < n"
    and r: "\<And>p. p \<in> {s..<s + n} \<Longrightarrow> 0 < pv_refs (im_view im p)"
  shows "acts {s..<s + n} closed_view im (im_Close (s * PageSize) n im)"
proof -
  let ?i = "s - base_page im"
  have "s \<in> im_pages im" using S by auto
  note o = page_offset [OF ok this]
  have "base_page im + (?i + n) = s + n" using o(4) by simp
  then have "acts_by (\<lambda>p v. if p \<in> {base_page im + 0..<base_page im + 0 + 0} then v\<lparr>pv_free := True\<rparr>
       else if p \<in> {s..<s + n} then closed_view v else v) im (close_loop [?i..<?i + n] 0 0 im)"
    using close_loop_acts [OF ok, of ?i "?i + n" 0 0, unfolded o(4)] S r by simp
  then show ?thesis by (simp add: acts_acts_by im_Close_def o(1) Let_def)
qed

interpretation closing: page_operation im_Close "\<lambda>v. 0 < pv_refs v" closed_view
  by unfold_locales (rule close_acts)

section \<open>Pages of all managers\<close>

definition mm_pages :: "KMemoryManager \<Rightarrow> nat set" where
  "mm_pages mm = (\<Union>m<mm_num_managers mm. im_pages (mm_managers mm ! m))"

definition mm_view :: "KMemoryManager \<Rightarrow> nat \<Rightarrow> page_view" where
  "mm_view mm p =
     (case GetManager (p * PageSize) mm of
        Some m \<Rightarrow> im_view (mm_managers mm ! m) p
      | None \<Rightarrow> \<lparr>pv_free = False, pv_refs = 0, pv_tracked = False\<rparr>)"

text \<open>
  The managers in order: each is, the layout finds the manager of every page, and the lists of a pool
  name exactly the managers of the pool, in both directions.
\<close>

definition mm_ok :: "KMemoryManager \<Rightarrow> bool" where
  "mm_ok mm \<longleftrightarrow> length (mm_managers mm) = MaxManagerCount \<and> mm_num_managers mm \<le> MaxManagerCount \<and>
     length (mm_has_optimized_process mm) = PoolCount \<and> length (mm_optimized_process_ids mm) = PoolCount \<and>
     (\<forall>m<mm_num_managers mm. impl_ok (mm_managers mm ! m)) \<and>
     (\<forall>m<mm_num_managers mm. \<forall>p\<in>im_pages (mm_managers mm ! m). GetManager (p * PageSize) mm = Some m) \<and>
     (\<forall>pool<PoolCount. \<forall>dir. \<exists>ms. pool_managers pool dir mm = Some ms \<and> distinct ms \<and>
        set ms = {m. m < mm_num_managers mm \<and> im_pool (mm_managers mm ! m) = pool})"

text \<open>What operations on pages leave alone.\<close>

definition mm_frame :: "KMemoryManager \<Rightarrow> KMemoryManager \<Rightarrow> bool" where
  "mm_frame mm mm' \<longleftrightarrow> mm_pool_managers_head mm' = mm_pool_managers_head mm \<and>
     mm_pool_managers_tail mm' = mm_pool_managers_tail mm \<and> mm_num_managers mm' = mm_num_managers mm \<and>
     mm_optimized_process_ids mm' = mm_optimized_process_ids mm \<and>
     mm_has_optimized_process mm' = mm_has_optimized_process mm \<and>
     mm_physical_tree mm' = mm_physical_tree mm \<and> mm_linear_tree mm' = mm_linear_tree mm \<and>
     length (mm_managers mm') = length (mm_managers mm) \<and>
     (\<forall>m. same_frame (mm_managers mm ! m) (mm_managers mm' ! m))"

lemma mm_frame_refl [simp]: "mm_frame mm mm"
  by (simp add: mm_frame_def)

lemma mm_frame_trans: "mm_frame a b \<Longrightarrow> mm_frame b c \<Longrightarrow> mm_frame a c"
  unfolding mm_frame_def by (auto intro: same_frame_trans)

lemma mm_frame_update:
  "same_frame (mm_managers mm ! m) im \<Longrightarrow> mm_frame mm (mm\<lparr>mm_managers := (mm_managers mm)[m := im]\<rparr>)"
proof -
  assume f: "same_frame (mm_managers mm ! m) im"
  have "same_frame (mm_managers mm ! k) ((mm_managers mm)[m := im] ! k)" for k
    using f by (cases "k = m"; cases "m < length (mm_managers mm)") (simp_all add: list_update_beyond)
  then show ?thesis by (simp add: mm_frame_def)
qed

lemma walk_frame:
  assumes "mm_frame mm mm'"
  shows "walk_managers fuel c dir mm' = walk_managers fuel c dir mm"
proof -
  have "GetNextManager m dir mm' = GetNextManager m dir mm" for m
    using assms by (simp add: mm_frame_def same_frame_def GetNextManager_def)
  then show ?thesis by (induction fuel c dir mm rule: walk_managers.induct) simp_all
qed

lemma mm_frameD:
  assumes "mm_frame mm mm'"
  shows "GetManager a mm' = GetManager a mm" "pool_managers pool dir mm' = pool_managers pool dir mm"
    "im_pages (mm_managers mm' ! m) = im_pages (mm_managers mm ! m)"
    "im_pool (mm_managers mm' ! m) = im_pool (mm_managers mm ! m)"
    "mm_num_managers mm' = mm_num_managers mm" "mm_pages mm' = mm_pages mm"
    "mm_has_optimized_process mm' = mm_has_optimized_process mm"
proof -
  have f: "same_frame (mm_managers mm ! m) (mm_managers mm' ! m)" for m using assms by (simp add: mm_frame_def)
  show "GetManager a mm' = GetManager a mm" using assms by (simp add: mm_frame_def GetManager_def split: option.split)
  show "pool_managers pool dir mm' = pool_managers pool dir mm"
    using walk_frame [OF assms] assms by (simp add: pool_managers_def GetFirstManager_def mm_frame_def)
  show "im_pages (mm_managers mm' ! m) = im_pages (mm_managers mm ! m)" for m by (rule same_frameD(2) [OF f])
  then show "mm_pages mm' = mm_pages mm" using assms by (simp add: mm_pages_def mm_frame_def)
  show "im_pool (mm_managers mm' ! m) = im_pool (mm_managers mm ! m)" using f by (simp add: same_frame_def)
  show "mm_num_managers mm' = mm_num_managers mm" "mm_has_optimized_process mm' = mm_has_optimized_process mm"
    using assms by (simp_all add: mm_frame_def)
qed

lemma mm_ok_frame:
  assumes "mm_ok mm" "mm_frame mm mm'" "\<And>m. m < mm_num_managers mm \<Longrightarrow> impl_ok (mm_managers mm' ! m)"
  shows "mm_ok mm'"
  using assms(1,3) mm_frameD [OF assms(2)] assms(2) by (simp add: mm_ok_def mm_frame_def)

lemma mm_okD:
  assumes "mm_ok mm"
  shows "m < mm_num_managers mm \<Longrightarrow> impl_ok (mm_managers mm ! m)"
    "m < mm_num_managers mm \<Longrightarrow> p \<in> im_pages (mm_managers mm ! m) \<Longrightarrow> GetManager (p * PageSize) mm = Some m"
    "m < mm_num_managers mm \<Longrightarrow> m < length (mm_managers mm)"
  using assms by (auto simp: mm_ok_def)

lemma mm_view_in:
  "mm_ok mm \<Longrightarrow> m < mm_num_managers mm \<Longrightarrow> p \<in> im_pages (mm_managers mm ! m) \<Longrightarrow>
   mm_view mm p = im_view (mm_managers mm ! m) p"
  by (simp add: mm_view_def mm_okD(2))

lemma mm_pagesE:
  assumes "p \<in> mm_pages mm"
  obtains m where "m < mm_num_managers mm" "p \<in> im_pages (mm_managers mm ! m)"
  using assms by (auto simp: mm_pages_def)

lemma pages_disjoint:
  "mm_ok mm \<Longrightarrow> m < mm_num_managers mm \<Longrightarrow> k < mm_num_managers mm \<Longrightarrow> p \<in> im_pages (mm_managers mm ! m) \<Longrightarrow>
   p \<in> im_pages (mm_managers mm ! k) \<Longrightarrow> m = k"
  using mm_okD(2) [of mm m p] mm_okD(2) [of mm k p] by simp

subsection \<open>Acting on pages\<close>

definition mm_acts :: "(nat \<Rightarrow> page_view \<Rightarrow> page_view) \<Rightarrow> KMemoryManager \<Rightarrow> KMemoryManager \<Rightarrow> bool" where
  "mm_acts G mm mm' \<longleftrightarrow> mm_ok mm' \<and> mm_frame mm mm' \<and> mm_dram mm' = mm_dram mm \<and>
     (\<forall>p\<in>mm_pages mm. mm_view mm' p = G p (mm_view mm p))"

abbreviation on_pages :: "nat set \<Rightarrow> (page_view \<Rightarrow> page_view) \<Rightarrow> nat \<Rightarrow> page_view \<Rightarrow> page_view" where
  "on_pages S g \<equiv> \<lambda>p v. if p \<in> S then g v else v"

lemma mm_acts_trans: "mm_acts G mm mm' \<Longrightarrow> mm_acts H mm' mm'' \<Longrightarrow> mm_acts (\<lambda>p v. H p (G p v)) mm mm''"
  by (auto simp: mm_acts_def mm_frameD(6) intro: mm_frame_trans)

lemma mm_acts_cong:
  "mm_acts G mm mm' \<Longrightarrow> (\<And>p. p \<in> mm_pages mm \<Longrightarrow> G p (mm_view mm p) = H p (mm_view mm p)) \<Longrightarrow> mm_acts H mm mm'"
  by (simp add: mm_acts_def)

lemma mm_acts_none: "mm_ok mm \<Longrightarrow> mm_acts (\<lambda>p v. v) mm mm"
  by (simp add: mm_acts_def)

lemma mm_actsD:
  assumes "mm_acts G mm mm'"
  shows "mm_ok mm'" "mm_frame mm mm'" "mm_dram mm' = mm_dram mm"
    "p \<in> mm_pages mm \<Longrightarrow> mm_view mm' p = G p (mm_view mm p)" "mm_pages mm' = mm_pages mm"
  using assms mm_frameD(6) by (auto simp: mm_acts_def)

text \<open>One manager acts.\<close>

lemma manager_acts:
  assumes ok: "mm_ok mm" and m: "m < mm_num_managers mm" and a: "acts S g (mm_managers mm ! m) im'"
    and S: "S \<subseteq> im_pages (mm_managers mm ! m)"
  shows "mm_acts (on_pages S g) mm (mm\<lparr>mm_managers := (mm_managers mm)[m := im']\<rparr>)"
proof -
  let ?mm = "mm\<lparr>mm_managers := (mm_managers mm)[m := im']\<rparr>"
  have im': "impl_ok im'" "same_frame (mm_managers mm ! m) im'" using a by (auto simp: acts_def)
  have fr: "mm_frame mm ?mm" by (rule mm_frame_update [OF im'(2)])
  have len: "m < length (mm_managers mm)" by (rule mm_okD(3) [OF ok m])
  have ok': "mm_ok ?mm" using mm_okD(1) [OF ok] im'(1) len by (intro mm_ok_frame [OF ok fr]) (simp add: nth_list_update)
  have "mm_view ?mm p = on_pages S g p (mm_view mm p)" if "p \<in> mm_pages mm" for p
  proof -
    obtain k where k: "k < mm_num_managers mm" "p \<in> im_pages (mm_managers mm ! k)"
      using \<open>p \<in> mm_pages mm\<close> by (rule mm_pagesE)
    have "mm_view ?mm p = im_view (mm_managers ?mm ! k) p"
      by (rule mm_view_in [OF ok']) (use k mm_frameD(3) [OF fr] in simp_all)
    moreover have "p \<notin> S" if "k \<noteq> m" using S k pages_disjoint [OF ok m k(1) _ k(2)] that by auto
    ultimately show ?thesis using a k len mm_view_in [OF ok k] by (cases "k = m") (auto simp: acts_def)
  qed
  with ok' fr show ?thesis by (simp add: mm_acts_def)
qed

context page_operation
begin

lemma upd_acts:
  assumes "mm_ok mm" "m < mm_num_managers mm" "{s..<s + n} \<subseteq> im_pages (mm_managers mm ! m)" "0 < n"
    and v: "\<And>p. p \<in> {s..<s + n} \<Longrightarrow> okv (mm_view mm p)"
  shows "mm_acts (on_pages {s..<s + n} g) mm (upd_manager m (f (s * PageSize) n) mm)"
  unfolding upd_manager_def
proof (rule manager_acts [OF assms(1,2) _ assms(3)])
  show "acts {s..<s + n} g (mm_managers mm ! m) (f (s * PageSize) n (mm_managers mm ! m))"
    by (rule op [OF mm_okD(1) [OF assms(1,2)] assms(3,4)])
      (use v mm_view_in [OF assms(1,2)] assms(3) in \<open>simp add: subset_iff\<close>)
qed

text \<open>Pages of several managers.\<close>

lemma each_part_acts:
  assumes "mm_ok mm" "{s..<s + n} \<subseteq> mm_pages mm" "\<And>p. p \<in> {s..<s + n} \<Longrightarrow> okv (mm_view mm p)"
  shows "\<exists>mm'. each_part f (s * PageSize) n mm = Some mm' \<and> mm_acts (on_pages {s..<s + n} g) mm mm'"
  using assms
proof (induction n arbitrary: s mm rule: less_induct)
  case (less n)
  show ?case
  proof (cases "n = 0")
    case True
    with less.prems(1) mm_acts_none show ?thesis by (subst each_part.simps) simp
  next
    case False
    then have "s \<in> mm_pages mm" using less.prems(2) by auto
    then obtain m where m: "m < mm_num_managers mm" "s \<in> im_pages (mm_managers mm ! m)" by (rule mm_pagesE)
    let ?im = "mm_managers mm ! m"
    note im = mm_okD(1) [OF less.prems(1) m(1)]
    define e where "e = base_page ?im + m_heap_size (im_heap ?im) div PageSize"
    define c where "c = min n (e - s)"
    have pg: "im_pages ?im = {base_page ?im..<e}" using impl_okD(5) [OF im] by (simp add: e_def)
    have c: "0 < c" "c \<le> n" "{s..<s + c} \<subseteq> im_pages ?im" using False m(2) by (auto simp: c_def pg)
    have cur: "min n (heap_GetPageOffsetToEnd (s * PageSize) (im_heap ?im)) = c"
      using page_to_end [OF im m(2)] by (simp add: c_def e_def)
    let ?mm = "upd_manager m (f (s * PageSize) c) mm"
    have a: "mm_acts (on_pages {s..<s + c} g) mm ?mm"
      by (rule upd_acts [OF less.prems(1) m(1) c(3,1)]) (use less.prems(3) c(2) in auto)
    note A = mm_actsD [OF a]
    have "\<exists>mm'. each_part f ((s + c) * PageSize) (n - c) ?mm = Some mm' \<and>
        mm_acts (on_pages {s + c..<s + c + (n - c)} g) ?mm mm'"
    proof (rule less.IH)
      show "n - c < n" using False c by simp
      show "{s + c..<s + c + (n - c)} \<subseteq> mm_pages ?mm" using less.prems(2) c A(5) by auto
      show "okv (mm_view ?mm p)" if "p \<in> {s + c..<s + c + (n - c)}" for p
        using that less.prems(3) [of p] A(4) [of p] subsetD [OF less.prems(2), of p] c by auto
    qed (rule A(1))
    then obtain mm' where r: "each_part f ((s + c) * PageSize) (n - c) ?mm = Some mm'"
      "mm_acts (on_pages {s + c..<s + c + (n - c)} g) ?mm mm'" by blast
    have "mm_acts (on_pages {s..<s + n} g) mm mm'"
      by (rule mm_acts_cong [OF mm_acts_trans [OF a r(2)]]) (use c in auto)
    moreover have "each_part f (s * PageSize) n mm = Some mm'"
      using False r(1) mm_okD(2) [OF less.prems(1) m] cur by (subst each_part.simps) (simp add: add_mult_distrib)
    ultimately show ?thesis by blast
  qed
qed

end

end
