(* ===== verification/Memory_Manager_Groups.thy ===== *)
theory Memory_Manager_Groups
  imports Memory_Manager_Pages
begin

text \<open>
  Groups of pages: the nodes of a group as sets of pages, what an allocation of a group does to the
  views of the pages at each of its loops, what a failed allocation gives back, and operations on all
  pages of a group.
\<close>
section \<open>Page groups\<close>

definition node_pages :: "KBlockInfo \<Rightarrow> nat set" where
  "node_pages it = {unat (bi_page_index it)..<unat (bi_page_index it) + unat (bi_num_pages it)}"

definition group_pages :: "KPageGroup \<Rightarrow> nat set" where
  "group_pages pg = (\<Union>it\<in>set pg. node_pages it)"

definition node_ok :: "KBlockInfo \<Rightarrow> bool" where
  "node_ok it \<longleftrightarrow> 0 < unat (bi_page_index it) \<and> 0 < unat (bi_num_pages it) \<and>
     unat (bi_page_index it) + unat (bi_num_pages it) < 2 ^ 32"

definition pg_ok :: "KPageGroup \<Rightarrow> bool" where
  "pg_ok pg \<longleftrightarrow> (\<forall>it\<in>set pg. node_ok it) \<and> sorted_wrt (\<lambda>a b. node_pages a \<inter> node_pages b = {}) pg"

lemma group_pages_simps [simp]:
  "group_pages [] = {}" "group_pages (it # pg) = node_pages it \<union> group_pages pg"
  "group_pages (pg @ pg') = group_pages pg \<union> group_pages pg'"
  by (auto simp: group_pages_def)

lemma pg_ok_simps [simp]:
  "pg_ok []"
  "pg_ok (it # pg) \<longleftrightarrow> node_ok it \<and> node_pages it \<inter> group_pages pg = {} \<and> pg_ok pg"
  "pg_ok (pg @ [it]) \<longleftrightarrow> pg_ok pg \<and> node_ok it \<and> node_pages it \<inter> group_pages pg = {}"
  by (auto simp: pg_ok_def group_pages_def sorted_wrt_append)

lemma finite_group_pages [simp]: "finite (group_pages pg)"
  by (simp add: group_pages_def node_pages_def)

lemma pg_GetNumPages_card: "pg_ok pg \<Longrightarrow> pg_GetNumPages pg = card (group_pages pg)"
proof (induction pg rule: rev_induct)
  case (snoc it pg)
  then have "card (group_pages pg \<union> node_pages it) = card (group_pages pg) + card (node_pages it)"
    by (intro card_Un_disjoint) (auto simp: node_pages_def)
  with snoc show ?case by (simp add: pg_GetNumPages_def bi_GetNumPages_def node_pages_def)
qed (simp add: pg_GetNumPages_def)

lemma unat_of_nat32: "n < 2 ^ 32 \<Longrightarrow> unat (of_nat n :: u32) = n"
  by (simp add: unsigned_of_nat take_bit_nat_eq_self)

text \<open>Adding a block either lengthens the last node or appends one.\<close>

lemma new_node_ok:
  assumes "0 < s" "0 < n" "s + n < 2 ^ 32"
  shows "node_pages (bi_Initialize (s * PageSize) n) = {s..<s + n}" "node_ok (bi_Initialize (s * PageSize) n)"
proof -
  have "unat (of_nat s :: u32) = s" "unat (of_nat n :: u32) = n"
    using assms by (simp_all add: unat_of_nat32)
  then show "node_pages (bi_Initialize (s * PageSize) n) = {s..<s + n}" "node_ok (bi_Initialize (s * PageSize) n)"
    using assms by (simp_all add: node_pages_def node_ok_def bi_Initialize_def)
qed

lemma TryConcatenate_ok:
  assumes it: "node_ok it" and s: "0 < s" "0 < n" "s + n < 2 ^ 32" and r: "TryConcatenate (s * PageSize) n it = (b, it')"
  shows "b \<longleftrightarrow> unat (bi_page_index it) + unat (bi_num_pages it) = s"
    "\<not> b \<Longrightarrow> it' = it" "b \<Longrightarrow> node_pages it' = node_pages it \<union> {s..<s + n}" "b \<Longrightarrow> node_ok it'"
proof -
  let ?i = "unat (bi_page_index it)" and ?n = "unat (bi_num_pages it)"
  have e: "bi_GetEndAddress it = (?i + ?n) * PageSize"
    using it by (simp add: bi_GetEndAddress_def node_ok_def unat_word_ariths)
  show b: "b \<longleftrightarrow> ?i + ?n = s" using r s(1) e by (auto simp: TryConcatenate_def split: if_splits)
  show "\<not> b \<Longrightarrow> it' = it" using r by (auto simp: TryConcatenate_def split: if_splits)
  assume "b"
  then have it': "it' = it\<lparr>bi_num_pages := bi_num_pages it + of_nat n\<rparr>" and i: "?i + ?n = s"
    using r b by (auto simp: TryConcatenate_def split: if_splits)
  have "unat (bi_num_pages it + of_nat n) = ?n + n"
    using i s by (simp add: unat_word_ariths unat_of_nat32)
  then show "node_pages it' = node_pages it \<union> {s..<s + n}" "node_ok it'"
    using i s it by (auto simp: it' node_pages_def node_ok_def)
qed

lemma AddBlock_ok:
  assumes pg: "pg_ok pg" and s: "0 < s" "0 < n" "s + n < 2 ^ 32" and d: "{s..<s + n} \<inter> group_pages pg = {}"
    and r: "AddBlock (s * PageSize) n pg nodes = (r, pg', nodes')"
  shows "if r = ResultSuccess
    then pg_ok pg' \<and> group_pages pg' = group_pages pg \<union> {s..<s + n} \<and> nodes' + length pg' = nodes + length pg \<and>
      (\<forall>it\<in>set pg'. it \<in> set pg \<or> node_pages it = {s..<s + n} \<or>
        (\<exists>l\<in>set pg. node_pages it = node_pages l \<union> {s..<s + n} \<and> unat (bi_page_index l) + unat (bi_num_pages l) = s))
    else r = ResultOutOfResource \<and> pg' = pg \<and> nodes' = nodes \<and> nodes = 0"
proof (cases "pg \<noteq> [] \<and> fst (TryConcatenate (s * PageSize) n (last pg))")
  case True
  then obtain ini l where pgl: "pg = ini @ [l]" by (metis rev_exhaust)
  obtain l' where t: "TryConcatenate (s * PageSize) n l = (True, l')" using True pgl by (metis last_snoc prod.collapse)
  have l: "node_ok l" using pg pgl by simp
  note T = TryConcatenate_ok [OF l s t]
  have "r = ResultSuccess" "pg' = ini @ [l']" "nodes' = nodes" using r t s(2) by (auto simp: AddBlock_def pgl)
  with T pg d show ?thesis unfolding pgl by auto
next
  case False
  then have "AddBlock (s * PageSize) n pg nodes = new_node (s * PageSize) n pg nodes"
    using s(2) by (auto simp: AddBlock_def split: prod.splits)
  with r have "(r, pg', nodes') = (if nodes = 0 then (ResultOutOfResource, pg, nodes)
      else (ResultSuccess, pg @ [bi_Initialize (s * PageSize) n], nodes - 1))" by (simp add: new_node_def)
  with new_node_ok [OF s] pg d show ?thesis by (auto split: if_splits)
qed

section \<open>Allocating a group\<close>

definition taken :: "bool \<Rightarrow> page_view \<Rightarrow> page_view" where
  "taken unoptimized v = v\<lparr>pv_free := False, pv_tracked := pv_tracked v \<and> \<not> unoptimized\<rparr>"

lemma taken_fields [simp]:
  "pv_free (taken u v) = False" "pv_refs (taken u v) = pv_refs v"
  by (simp_all add: taken_def)

text \<open>The state of an allocation that began with the managers \<open>mm\<close> and asked for \<open>N\<close> pages.\<close>

definition group_inv :: "bool \<Rightarrow> nat list \<Rightarrow> KMemoryManager \<Rightarrow> nat \<Rightarrow> nat \<Rightarrow> group_state \<Rightarrow> bool" where
  "group_inv unoptimized ms mm N K st \<longleftrightarrow> pg_ok (gs_out st) \<and>
     (\<forall>p\<in>group_pages (gs_out st). pv_free (mm_view mm p) \<and> (\<exists>m\<in>set ms. p \<in> im_pages (mm_managers mm ! m))) \<and>
     mm_acts (on_pages (group_pages (gs_out st)) (taken unoptimized)) mm (gs_mm st) \<and>
     card (group_pages (gs_out st)) + gs_num_pages st = N \<and> gs_nodes st + length (gs_out st) = K"

text \<open>Nodes that lie in one manager each, and managers none of which begins where another ends.\<close>

definition unsplit :: "KMemoryManager \<Rightarrow> KPageGroup \<Rightarrow> bool" where
  "unsplit mm pg \<longleftrightarrow> (\<forall>it\<in>set pg. \<exists>m<mm_num_managers mm. node_pages it \<subseteq> im_pages (mm_managers mm ! m))"

definition no_seams :: "nat list \<Rightarrow> KMemoryManager \<Rightarrow> bool" where
  "no_seams ms mm \<longleftrightarrow> (\<forall>m\<in>set ms. \<forall>k\<in>set ms. heap_GetEndAddress (im_heap (mm_managers mm ! m)) \<noteq>
     m_heap_address (im_heap (mm_managers mm ! k)))"

text \<open>What one round of an allocation may do to its state.\<close>

definition group_step :: "bool \<Rightarrow> nat list \<Rightarrow> KMemoryManager \<Rightarrow> nat \<Rightarrow> nat \<Rightarrow> group_state \<Rightarrow> group_state \<Rightarrow> bool" where
  "group_step unoptimized ms mm N K st st' \<longleftrightarrow> group_inv unoptimized ms mm N K st' \<and>
     group_pages (gs_out st) \<subseteq> group_pages (gs_out st') \<and>
     (no_seams ms mm \<longrightarrow> unsplit mm (gs_out st) \<longrightarrow> unsplit mm (gs_out st'))"

lemma group_step_refl: "group_inv u ms mm N K st \<Longrightarrow> group_step u ms mm N K st st"
  by (simp add: group_step_def)

lemma group_step_trans: "group_step u ms mm N K a b \<Longrightarrow> group_step u ms mm N K b c \<Longrightarrow> group_step u ms mm N K a c"
  by (auto simp: group_step_def)

lemma group_invD:
  assumes "group_inv u ms mm N K st"
  shows "pg_ok (gs_out st)" "mm_ok (gs_mm st)" "mm_frame mm (gs_mm st)" "mm_pages (gs_mm st) = mm_pages mm"
    "mm_num_managers (gs_mm st) = mm_num_managers mm"
    "p \<in> mm_pages mm \<Longrightarrow> mm_view (gs_mm st) p = on_pages (group_pages (gs_out st)) (taken u) p (mm_view mm p)"
proof -
  have a: "mm_acts (on_pages (group_pages (gs_out st)) (taken u)) mm (gs_mm st)" and pg: "pg_ok (gs_out st)"
    using assms by (auto simp: group_inv_def)
  show "pg_ok (gs_out st)" by (fact pg)
  show "mm_ok (gs_mm st)" "mm_frame mm (gs_mm st)" "mm_pages (gs_mm st) = mm_pages mm" using mm_actsD [OF a] by simp_all
  show "mm_num_managers (gs_mm st) = mm_num_managers mm" using mm_frameD(5) [OF mm_actsD(2) [OF a]] .
  show "p \<in> mm_pages mm \<Longrightarrow> mm_view (gs_mm st) p = on_pages (group_pages (gs_out st)) (taken u) p (mm_view mm p)"
    by (rule mm_actsD(4) [OF a])
qed

text \<open>A node that grows over the end of a manager meets a seam.\<close>

lemma unsplit_AddBlock:
  assumes ok: "mm_ok mm" and ns: "no_seams ms mm" and ms: "set ms \<subseteq> {..<mm_num_managers mm}" and m: "m \<in> set ms"
    and u: "unsplit mm pg" and s: "{s..<s + n} \<subseteq> im_pages (mm_managers mm ! m)" "0 < n"
    and pool: "\<forall>p\<in>group_pages pg. \<exists>m\<in>set ms. p \<in> im_pages (mm_managers mm ! m)" and pg: "pg_ok pg"
    and pg': "\<forall>it\<in>set pg'. it \<in> set pg \<or> node_pages it = {s..<s + n} \<or>
        (\<exists>l\<in>set pg. node_pages it = node_pages l \<union> {s..<s + n} \<and> unat (bi_page_index l) + unat (bi_num_pages l) = s)"
  shows "unsplit mm pg'"
  unfolding unsplit_def
proof
  fix it assume "it \<in> set pg'"
  have m': "m < mm_num_managers mm" using ms m by auto
  note D = impl_okD [OF mm_okD(1) [OF ok m']]
  from pg' \<open>it \<in> set pg'\<close> consider "it \<in> set pg" | "node_pages it = {s..<s + n}" |
    l where "l \<in> set pg" "node_pages it = node_pages l \<union> {s..<s + n}" "unat (bi_page_index l) + unat (bi_num_pages l) = s"
    by blast
  then show "\<exists>k<mm_num_managers mm. node_pages it \<subseteq> im_pages (mm_managers mm ! k)"
  proof cases
    case 1
    then show ?thesis using u by (auto simp: unsplit_def)
  next
    case 2
    then show ?thesis using s m' by auto
  next
    case (3 l)
    obtain k where k: "k < mm_num_managers mm" "node_pages l \<subseteq> im_pages (mm_managers mm ! k)"
      using u 3(1) by (auto simp: unsplit_def)
    have "node_ok l" using pg 3(1) by (simp add: pg_ok_def)
    then have last: "s - 1 \<in> node_pages l" using 3(3) by (auto simp: node_ok_def node_pages_def)
    then obtain k' where "k' \<in> set ms" "s - 1 \<in> im_pages (mm_managers mm ! k')"
      using pool 3(1) by (auto simp: group_pages_def)
    then have kms: "k \<in> set ms" using pages_disjoint [OF ok, of k k' "s - 1"] k last ms by auto
    note E = impl_okD [OF mm_okD(1) [OF ok k(1)]]
    have spos: "0 < s" using 3(3) \<open>node_ok l\<close> by (simp add: node_ok_def)
    have sm: "s \<in> im_pages (mm_managers mm ! m)" using s by auto
    have lk: "s - 1 \<in> im_pages (mm_managers mm ! k)" using k(2) last by auto
    have "k = m"
    proof (rule ccontr)
      assume "k \<noteq> m"
      then have "s \<notin> im_pages (mm_managers mm ! k)" "s - 1 \<notin> im_pages (mm_managers mm ! m)"
        using pages_disjoint [OF ok k(1) m'] sm lk by auto
      then have "base_page (mm_managers mm ! m) = s"
        "base_page (mm_managers mm ! k) + m_heap_size (im_heap (mm_managers mm ! k)) div PageSize = s"
        using sm lk spos unfolding D(5) E(5) by auto
      then have "heap_GetEndAddress (im_heap (mm_managers mm ! k)) = m_heap_address (im_heap (mm_managers mm ! m))"
        unfolding heap_GetEndAddress_def using D(3) E(3,4) by (metis add_mult_distrib)
      with ns kms m show False by (auto simp: no_seams_def)
    qed
    with 3(2) k s(1) show ?thesis by auto
  qed
qed

text \<open>A block taken from a manager and added to the group.\<close>

lemma block_added:
  assumes ok: "mm_ok mm" and ms: "set ms \<subseteq> {..<mm_num_managers mm}" and m: "m \<in> set ms"
    and inv: "group_inv u ms mm N K st" and n: "0 < n" "n \<le> gs_num_pages st"
    and s: "{s..<s + n} \<subseteq> im_pages (mm_managers (gs_mm st) ! m)" "\<forall>p\<in>{s..<s + n}. pv_free (mm_view (gs_mm st) p)"
    and add: "AddBlock (s * PageSize) n (gs_out st) (gs_nodes st) = (ResultSuccess, out, nodes)"
    and mm': "mm_acts (on_pages {s..<s + n} (taken u)) (gs_mm st) mm'"
  shows "group_step u ms mm N K st
    \<lparr>gs_mm = mm', gs_out = out, gs_nodes = nodes, gs_num_pages = gs_num_pages st - n\<rparr>"
proof -
  note I = group_invD [OF inv]
  have m': "m < mm_num_managers mm" using ms m by auto
  have s0: "{s..<s + n} \<subseteq> im_pages (mm_managers mm ! m)" using s(1) mm_frameD(3) [OF I(3)] by simp
  note D = impl_okD [OF mm_okD(1) [OF ok m']]
  have sin: "s \<in> im_pages (mm_managers mm ! m)" "s + n - 1 \<in> im_pages (mm_managers mm ! m)" using s0 n by auto
  have sb: "0 < s" "s + n < 2 ^ 32" using sin D(5,7,8) n by auto
  have mp: "p \<in> mm_pages mm" if "p \<in> {s..<s + n}" for p using that s0 m' by (auto simp: mm_pages_def)
  have fresh: "p \<notin> group_pages (gs_out st) \<and> pv_free (mm_view mm p)" if "p \<in> {s..<s + n}" for p
    using bspec [OF s(2) that] I(6) [OF mp [OF that]] by (auto split: if_splits)
  then have d: "{s..<s + n} \<inter> group_pages (gs_out st) = {}" by auto
  note A = AddBlock_ok [OF I(1) sb(1) n(1) sb(2) d add, simplified]
  have act: "mm_acts (on_pages (group_pages out) (taken u)) mm mm'"
  proof (rule mm_acts_cong [OF mm_acts_trans])
    show "mm_acts (on_pages (group_pages (gs_out st)) (taken u)) mm (gs_mm st)" using inv by (simp add: group_inv_def)
    show "mm_acts (on_pages {s..<s + n} (taken u)) (gs_mm st) mm'" by (rule mm')
  qed (use A d in auto)
  have "card (group_pages out) = card (group_pages (gs_out st)) + n"
    using A d by (simp add: card_Un_disjoint Int_commute)
  moreover have "\<forall>p\<in>group_pages out. pv_free (mm_view mm p) \<and> (\<exists>m\<in>set ms. p \<in> im_pages (mm_managers mm ! m))"
    using A fresh s0 m inv by (auto simp: group_inv_def)
  ultimately have "group_inv u ms mm N K \<lparr>gs_mm = mm', gs_out = out, gs_nodes = nodes, gs_num_pages = gs_num_pages st - n\<rparr>"
    using A act inv n(2) by (simp add: group_inv_def)
  moreover have "unsplit mm out" if "no_seams ms mm" "unsplit mm (gs_out st)"
    by (rule unsplit_AddBlock [OF ok that(1) ms m that(2) s0 n(1) _ I(1)]) (use A inv in \<open>auto simp: group_inv_def\<close>)
  ultimately show ?thesis using A by (auto simp: group_step_def)
qed

lemma mm_free_refs: "mm_ok mm \<Longrightarrow> p \<in> mm_pages mm \<Longrightarrow> pv_free (mm_view mm p) \<Longrightarrow> pv_refs (mm_view mm p) = 0"
proof -
  assume ok: "mm_ok mm" and p: "p \<in> mm_pages mm" and f: "pv_free (mm_view mm p)"
  obtain m where m: "m < mm_num_managers mm" "p \<in> im_pages (mm_managers mm ! m)" using p by (rule mm_pagesE)
  with f mm_okD(1) [OF ok m(1)] show "pv_refs (mm_view mm p) = 0" by (simp add: mm_view_in [OF ok m] impl_ok_def)
qed

lemma free_pages_view: "impl_ok im \<Longrightarrow> free_pages (im_heap im) = {p \<in> im_pages im. pv_free (im_view im p)}"
  using impl_free_refs [of im] by (auto simp: im_view_def)

lemma GetBlockNumPages_pages: "index < 7 \<Longrightarrow> GetBlockNumPages index = 2 ^ page_shift index"
  by (simp add: GetBlockNumPages_def block_size_pages)

text \<open>Replacing the managers of a state by ones with the same views.\<close>

lemma group_inv_same:
  assumes "group_inv u ms mm N K st" "mm_acts G (gs_mm st) mm'"
    "\<And>p. p \<in> mm_pages mm \<Longrightarrow> G p (mm_view (gs_mm st) p) = mm_view (gs_mm st) p"
  shows "group_inv u ms mm N K (st\<lparr>gs_mm := mm'\<rparr>)"
proof -
  let ?H = "on_pages (group_pages (gs_out st)) (taken u)"
  have a: "mm_acts ?H mm (gs_mm st)" using assms(1) by (simp add: group_inv_def)
  have "mm_acts ?H mm mm'"
    by (rule mm_acts_cong [OF mm_acts_trans [OF a assms(2)]]) (metis assms(3) mm_actsD(4) [OF a])
  with assms(1) show ?thesis by (simp add: group_inv_def)
qed

lemma take_blocks_step:
  assumes ok: "mm_ok mm" and ms: "set ms \<subseteq> {..<mm_num_managers mm}" "m \<in> set ms" and i: "index < 7"
    and inv: "group_inv u ms mm N K st" and r: "take_blocks index (2 ^ page_shift index) u random m st = (res, st')"
  shows "group_step u ms mm N K st st' \<and>
    (res = ResultSuccess \<and> (gs_num_pages st' < 2 ^ page_shift index \<or>
       \<not> (\<exists>a. block_pages page_shift index a \<subseteq> free_pages (im_heap (mm_managers (gs_mm st') ! m)))) \<or>
     res = ResultOutOfResource \<and> gs_nodes st' = 0 \<and> 0 < gs_num_pages st')"
  using inv r
proof (induction "gs_num_pages st" arbitrary: st rule: less_induct)
  case less
  let ?n = "2 ^ page_shift index :: nat"
  let ?im = "mm_managers (gs_mm st) ! m"
  note I = group_invD [OF less.prems(1)]
  have m: "m < mm_num_managers (gs_mm st)" using ms I(5) by auto
  have im: "impl_ok ?im" by (rule mm_okD(1) [OF I(2) m])
  show ?case
  proof (cases "?n \<le> gs_num_pages st")
    case False
    then have "res = ResultSuccess" "st' = st" using less.prems(2) by (auto simp: take_blocks.simps)
    with False group_step_refl [OF less.prems(1)] show ?thesis by simp
  next
    case num: True
    obtain addr im' where al: "im_AllocateBlock index random ?im = (addr, im')" by fastforce
    define mm1 where "mm1 = (gs_mm st)\<lparr>mm_managers := (mm_managers (gs_mm st))[m := im']\<rparr>"
    note A = AllocateBlock_acts [OF im i al]
    show ?thesis
    proof (cases "addr = 0")
      case True
      with A have a: "acts {} (pv_free_update (\<lambda>_. False)) ?im im'"
        and nb: "\<not> (\<exists>a. block_pages page_shift index a \<subseteq> free_pages (im_heap ?im))" by simp_all
      have b: "mm_acts (on_pages {} (pv_free_update (\<lambda>_. False))) (gs_mm st) mm1"
        unfolding mm1_def by (rule manager_acts [OF I(2) m a]) simp
      have st': "res = ResultSuccess" "st' = st\<lparr>gs_mm := mm1\<rparr>"
        using less.prems(2) num al True by (auto simp: take_blocks.simps mm1_def)
      have "group_inv u ms mm N K st'" unfolding st' by (rule group_inv_same [OF less.prems(1) b]) simp
      moreover have "free_pages (im_heap im') = free_pages (im_heap ?im)"
        using a im by (auto simp: acts_def free_pages_view same_frameD(2))
      moreover have "mm_managers mm1 ! m = im'" using mm_okD(3) [OF I(2) m] by (simp add: mm1_def)
      ultimately show ?thesis using nb st' by (simp add: group_step_def)
    next
      case False
      with A obtain s where s: "addr = s * PageSize" "{s..<s + ?n} \<subseteq> im_pages ?im"
        "\<forall>p\<in>{s..<s + ?n}. pv_free (im_view ?im p)" "acts {s..<s + ?n} (pv_free_update (\<lambda>_. False)) ?im im'" by auto
      have b: "mm_acts (on_pages {s..<s + ?n} (pv_free_update (\<lambda>_. False))) (gs_mm st) mm1"
        unfolding mm1_def by (rule manager_acts [OF I(2) m s(4,2)])
      note B = mm_actsD [OF b]
      have fr: "\<forall>p\<in>{s..<s + ?n}. pv_free (mm_view (gs_mm st) p)"
        using s(2,3) mm_view_in [OF I(2) m] by (auto simp: subset_iff)
      have sp: "{s..<s + ?n} \<subseteq> mm_pages (gs_mm st)" using s(2) m by (auto simp: mm_pages_def)
      have m1: "m < mm_num_managers mm1" "{s..<s + ?n} \<subseteq> im_pages (mm_managers mm1 ! m)"
        using m s(2) mm_frameD(3,5) [OF B(2)] by simp_all
      obtain res1 out nodes where add: "AddBlock addr ?n (gs_out st) (gs_nodes st) = (res1, out, nodes)"
        by (metis prod_cases3)
      have sb: "0 < s" using False s(1) by (metis gr0I mult_0)
      note D = impl_okD [OF im]
      have np: "1 \<le> ?n" by simp
      then have "s + ?n - 1 \<in> {s..<s + ?n}" unfolding atLeastLessThan_iff by linarith
      then have "s + ?n - 1 \<in> im_pages ?im" by (rule subsetD [OF s(2)])
      then have sb2: "s + ?n < 2 ^ 32" using D(5,8) by auto
      have d: "{s..<s + ?n} \<inter> group_pages (gs_out st) = {}"
      proof (rule Int_emptyI)
        fix p assume p: "p \<in> {s..<s + ?n}" "p \<in> group_pages (gs_out st)"
        then show False using bspec [OF fr p(1)] I(6) [of p] subsetD [OF sp p(1)] I(4) by simp
      qed
      note AB = AddBlock_ok [OF I(1) sb _ sb2 d, of "gs_nodes st" res1 out nodes, simplified] add s(1)
      show ?thesis
      proof (cases "res1 = ResultSuccess")
        case no: False
        with AB have e: "res1 = ResultOutOfResource" "out = gs_out st" "nodes = gs_nodes st" "gs_nodes st = 0" by auto
        let ?mm2 = "upd_manager m (im_Free addr ?n) mm1"
        have c: "mm_acts (on_pages {s..<s + ?n} (pv_free_update (\<lambda>_. True))) mm1 ?mm2"
          unfolding s(1)
        proof (rule release.upd_acts [OF B(1) m1])
          fix p assume p: "p \<in> {s..<s + ?n}"
          then have "pv_refs (mm_view (gs_mm st) p) = 0" using fr sp mm_free_refs [OF I(2)] by auto
          then show "unused (mm_view mm1 p)" using B(4) [of p] p sp by auto
        qed simp
        have st': "res = res1" "st' = st\<lparr>gs_mm := ?mm2\<rparr>"
          using less.prems(2) num al False add no e by (auto simp: take_blocks.simps mm1_def)
        have "group_inv u ms mm N K st'"
          unfolding st'(2)
        proof (rule group_inv_same [OF less.prems(1) mm_acts_trans [OF b c]])
          fix p assume "p \<in> mm_pages mm"
          then show "on_pages {s..<s + ?n} (pv_free_update (\<lambda>_. True)) p
              (on_pages {s..<s + ?n} (pv_free_update (\<lambda>_. False)) p (mm_view (gs_mm st) p)) = mm_view (gs_mm st) p"
            using bspec [OF fr, of p] by (cases "mm_view (gs_mm st) p") auto
        qed
        moreover have "0 < gs_num_pages st" using np num by linarith
        ultimately show ?thesis using st' e by (simp add: group_step_def)
      next
        case yes: True
        define mm2 where "mm2 = (if u then upd_manager m (TrackUnoptimizedAllocation addr ?n) mm1 else mm1)"
        have "mm_acts (on_pages {s..<s + ?n} (taken u)) (gs_mm st) mm2"
        proof (cases u)
          case True
          have "mm_acts (on_pages {s..<s + ?n} (pv_tracked_update (\<lambda>_. False))) mm1 mm2"
            using track_unoptimized.upd_acts [OF B(1) m1] True by (simp add: mm2_def s(1))
          from mm_acts_trans [OF b this] show ?thesis
            by (rule mm_acts_cong) (auto simp: taken_def True)
        next
          case False
          have e: "pv_free_update (\<lambda>_. False) v = taken u v" for v using False by (cases v) (simp add: taken_def)
          have "mm2 = mm1" using False by (simp add: mm2_def)
          then show ?thesis using b unfolding e by simp
        qed
        note st2 = block_added [OF ok ms less.prems(1) _ num s(2) fr _ this, of out nodes]
        let ?st2 = "\<lparr>gs_mm = mm2, gs_out = out, gs_nodes = nodes, gs_num_pages = gs_num_pages st - ?n\<rparr>"
        have g: "group_step u ms mm N K st ?st2" by (rule st2) (use add yes s(1) in simp_all)
        have "take_blocks index ?n u random m ?st2 = (res, st')"
          using less.prems(2) num al False add yes
          by (cases u) (simp_all add: take_blocks.simps [of _ _ _ _ _ st] mm1_def mm2_def Let_def)
        have dec: "gs_num_pages ?st2 < gs_num_pages st" using np num by (simp only: group_state.simps)
        have inv2: "group_inv u ms mm N K ?st2" using g by (simp add: group_step_def)
        note IH = less.hyps [OF dec inv2 \<open>take_blocks index ?n u random m ?st2 = (res, st')\<close>]
        show ?thesis using IH group_step_trans [OF g] by blast
      qed
    qed
  qed
qed

text \<open>All managers of a pool are asked for blocks of one size; with the smallest size, they end up empty.\<close>

lemma step_free_mono:
  assumes "mm_ok mm" "group_inv u ms mm N K st" "group_step u ms mm N K st st'" "m < mm_num_managers mm"
    "free_pages (im_heap (mm_managers (gs_mm st) ! m)) = {}"
  shows "free_pages (im_heap (mm_managers (gs_mm st') ! m)) = {}"
proof -
  have inv': "group_inv u ms mm N K st'" and sub: "group_pages (gs_out st) \<subseteq> group_pages (gs_out st')"
    using assms(3) by (auto simp: group_step_def)
  note I = group_invD [OF assms(2)] and J = group_invD [OF inv']
  have m: "m < mm_num_managers (gs_mm st)" "m < mm_num_managers (gs_mm st')" using assms(4) I(5) J(5) by simp_all
  show ?thesis
  proof (rule equals0I)
    fix p assume "p \<in> free_pages (im_heap (mm_managers (gs_mm st') ! m))"
    then have p: "p \<in> im_pages (mm_managers (gs_mm st') ! m)" "pv_free (im_view (mm_managers (gs_mm st') ! m) p)"
      using free_pages_view [OF mm_okD(1) [OF J(2) m(2)]] by auto
    have p0: "p \<in> im_pages (mm_managers mm ! m)" "p \<in> im_pages (mm_managers (gs_mm st) ! m)"
      using p(1) mm_frameD(3) [OF I(3)] mm_frameD(3) [OF J(3)] by simp_all
    then have pm: "p \<in> mm_pages mm" using assms(4) by (auto simp: mm_pages_def)
    have "pv_free (mm_view (gs_mm st') p)" using p mm_view_in [OF J(2) m(2) p(1)] by simp
    then have "pv_free (mm_view (gs_mm st) p)" using I(6) [OF pm] J(6) [OF pm] sub by (auto split: if_splits)
    then have "pv_free (im_view (mm_managers (gs_mm st) ! m) p)" using mm_view_in [OF I(2) m(1) p0(2)] by simp
    then have "p \<in> free_pages (im_heap (mm_managers (gs_mm st) ! m))"
      using free_pages_view [OF mm_okD(1) [OF I(2) m(1)]] p0(2) by simp
    with assms(5) show False by simp
  qed
qed

lemma take_from_managers_step:
  assumes ok: "mm_ok mm" and ms: "set ms \<subseteq> {..<mm_num_managers mm}" "set ks \<subseteq> set ms" and i: "index < 7"
    and inv: "group_inv u ms mm N K st" and r: "take_from_managers index u random ks st = (res, st')"
  shows "group_step u ms mm N K st st' \<and>
    (res = ResultSuccess \<and> (index = 0 \<longrightarrow> gs_num_pages st' = 0 \<or>
       (\<forall>m\<in>set ks. free_pages (im_heap (mm_managers (gs_mm st') ! m)) = {})) \<or>
     res = ResultOutOfResource \<and> gs_nodes st' = 0 \<and> 0 < gs_num_pages st')"
  using ms(2) inv r
proof (induction ks arbitrary: st)
  case Nil
  then show ?case by (simp add: group_step_refl)
next
  case (Cons k ks)
  obtain res1 st1 where t: "take_blocks index (2 ^ page_shift index) u random k st = (res1, st1)" by fastforce
  have k: "k \<in> set ms" "k < mm_num_managers mm" using Cons.prems(1) ms by auto
  note T = take_blocks_step [OF ok ms(1) k(1) i Cons.prems(2) t]
  have inv1: "group_inv u ms mm N K st1" using T by (simp add: group_step_def)
  show ?case
  proof (cases "res1 = ResultSuccess")
    case False
    then have "res = res1" "st' = st1" using Cons.prems(3) t by (simp_all add: GetBlockNumPages_pages [OF i])
    with False T show ?thesis by auto
  next
    case True
    then have rest: "take_from_managers index u random ks st1 = (res, st')"
      using Cons.prems(3) t by (simp add: GetBlockNumPages_pages [OF i])
    note IH = Cons.IH [OF _ inv1 rest]
    have R: "group_step u ms mm N K st1 st'" using IH Cons.prems(1) by auto
    have step: "group_step u ms mm N K st st'" using T R group_step_trans by blast
    have empty: "gs_num_pages st' = 0 \<or> free_pages (im_heap (mm_managers (gs_mm st') ! k)) = {}"
      if "index = 0" "res = ResultSuccess"
    proof (cases "gs_num_pages st1 = 0")
      case True
      have "card (group_pages (gs_out st')) + gs_num_pages st' = N" "card (group_pages (gs_out st1)) + gs_num_pages st1 = N"
        "group_pages (gs_out st1) \<subseteq> group_pages (gs_out st')"
        using R inv1 by (auto simp: group_step_def group_inv_def)
      with True card_mono [OF finite_group_pages, of "group_pages (gs_out st1)" "gs_out st'"] show ?thesis by linarith
    next
      case False
      then have nb: "\<not> (\<exists>a. block_pages page_shift 0 a \<subseteq> free_pages (im_heap (mm_managers (gs_mm st1) ! k)))"
        using T True that(1) by (simp add: page_shift_def MemoryBlockPageShifts_def)
      have "block_pages page_shift 0 p = {p}" for p
        by (auto simp: block_pages_def page_shift_def MemoryBlockPageShifts_def)
      then have "free_pages (im_heap (mm_managers (gs_mm st1) ! k)) = {}" using nb by auto
      with step_free_mono [OF ok inv1 R k(2)] show ?thesis by blast
    qed
    from IH step empty Cons.prems(1) show ?thesis by auto
  qed
qed

lemma take_sizes_step:
  assumes ok: "mm_ok mm" and ms: "set ms \<subseteq> {..<mm_num_managers mm}" and i: "c \<le> 7" "0 < c"
    and inv: "group_inv u ms mm N K st" and r: "take_sizes c u random ms st = (res, st')"
  shows "group_step u ms mm N K st st' \<and>
    (res = ResultSuccess \<and> (gs_num_pages st' = 0 \<or>
       (\<forall>m\<in>set ms. free_pages (im_heap (mm_managers (gs_mm st') ! m)) = {})) \<or>
     res = ResultOutOfResource \<and> gs_nodes st' = 0 \<and> 0 < gs_num_pages st')"
  using i inv r
proof (induction c arbitrary: st)
  case (Suc c)
  show ?case
  proof (cases "gs_num_pages st = 0")
    case True
    then show ?thesis using Suc.prems(3,4) by (simp add: group_step_refl)
  next
    case False
    obtain res1 st1 where t: "take_from_managers c u random ms st = (res1, st1)" by fastforce
    have c7: "c < 7" using Suc.prems(1) by simp
    note T = take_from_managers_step [OF ok ms order_refl c7 Suc.prems(3) t]
    have inv1: "group_inv u ms mm N K st1" using T by (simp add: group_step_def)
    show ?thesis
    proof (cases "res1 = ResultSuccess \<and> c \<noteq> 0")
      case True
      then have "take_sizes c u random ms st1 = (res, st')" using Suc.prems(4) t False by simp
      with Suc.IH [OF _ _ inv1 this] True c7 T group_step_trans show ?thesis by auto
    next
      case no: False
      then have "res = res1" "st' = st1" using Suc.prems(4) t False by (auto split: if_splits)
      with T no show ?thesis by auto
    qed
  qed
qed simp

section \<open>Giving a group back\<close>

text \<open>The part of a node that lies in the manager of its first page.\<close>

definition first_part :: "KMemoryManager \<Rightarrow> KBlockInfo \<Rightarrow> nat set" where
  "first_part mm it =
     (case GetManager (bi_GetAddress it) mm of
        Some m \<Rightarrow> node_pages it \<inter> im_pages (mm_managers mm ! m)
      | None \<Rightarrow> {})"

lemma first_part_frame: "mm_frame mm mm' \<Longrightarrow> first_part mm' it = first_part mm it"
  by (simp add: first_part_def mm_frameD split: option.split)

lemma first_part_subset: "first_part mm it \<subseteq> node_pages it"
  by (auto simp: first_part_def split: option.split)

lemma unsplit_first_part:
  assumes ok: "mm_ok mm" and u: "unsplit mm pg" and pg: "pg_ok pg"
  shows "(\<Union>it\<in>set pg. first_part mm it) = group_pages pg"
proof -
  have "first_part mm it = node_pages it" if "it \<in> set pg" for it
  proof -
    obtain m where m: "m < mm_num_managers mm" "node_pages it \<subseteq> im_pages (mm_managers mm ! m)"
      using u \<open>it \<in> set pg\<close> by (auto simp: unsplit_def)
    have "unat (bi_page_index it) \<in> node_pages it" using pg that by (auto simp: pg_ok_def node_ok_def node_pages_def)
    then have "GetManager (bi_GetAddress it) mm = Some m" using mm_okD(2) [OF ok m(1)] m(2) by (auto simp: bi_GetAddress_def)
    with m(2) show ?thesis by (auto simp: first_part_def)
  qed
  then show ?thesis by (simp add: group_pages_def)
qed

lemma give_back_acts:
  assumes "mm_ok mm" "pg_ok pg" "group_pages pg \<subseteq> mm_pages mm"
    "\<And>p. p \<in> group_pages pg \<Longrightarrow> unused (mm_view mm p)"
  shows "\<exists>mm'. give_back pg mm = Some mm' \<and>
    mm_acts (on_pages (\<Union>it\<in>set pg. first_part mm it) (pv_free_update (\<lambda>_. True))) mm mm'"
  using assms
proof (induction pg arbitrary: mm)
  case Nil
  then show ?case using mm_acts_none by simp
next
  case (Cons it pg)
  let ?i = "unat (bi_page_index it)" and ?n = "unat (bi_num_pages it)"
  have it: "node_ok it" "pg_ok pg" "node_pages it \<inter> group_pages pg = {}" using Cons.prems(2) by simp_all
  have "?i \<in> node_pages it" using it(1) by (simp add: node_ok_def node_pages_def)
  then have "?i \<in> mm_pages mm" using Cons.prems(3) by auto
  then obtain m where m: "m < mm_num_managers mm" "?i \<in> im_pages (mm_managers mm ! m)" by (rule mm_pagesE)
  let ?im = "mm_managers mm ! m"
  note im = mm_okD(1) [OF Cons.prems(1) m(1)]
  define e where "e = base_page ?im + m_heap_size (im_heap ?im) div PageSize"
  define c where "c = min ?n (e - ?i)"
  have pg: "im_pages ?im = {base_page ?im..<e}" using impl_okD(5) [OF im] by (simp add: e_def)
  have gm: "GetManager (bi_GetAddress it) mm = Some m" using mm_okD(2) [OF Cons.prems(1) m] by (simp add: bi_GetAddress_def)
  have fp: "first_part mm it = {?i..<?i + c}"
    using m(2) it(1) unfolding pg by (auto simp: first_part_def gm pg node_pages_def c_def)
  have c: "0 < c" "{?i..<?i + c} \<subseteq> im_pages ?im" using m(2) it(1) unfolding pg by (auto simp: c_def node_ok_def)
  have cur: "min (bi_GetNumPages it) (sub64 (heap_GetEndAddress (im_heap ?im)) (bi_GetAddress it) div PageSize) = c"
    using page_to_end [OF im m(2)] by (simp add: c_def e_def heap_GetPageOffsetToEnd_def bi_GetAddress_def bi_GetNumPages_def)
  let ?mm = "upd_manager m (im_Free (bi_GetAddress it) c) mm"
  have sub: "{?i..<?i + c} \<subseteq> node_pages it" using fp first_part_subset by blast
  have a: "mm_acts (on_pages {?i..<?i + c} (pv_free_update (\<lambda>_. True))) mm ?mm"
    unfolding bi_GetAddress_def
    by (rule release.upd_acts [OF Cons.prems(1) m(1) c(2,1)]) (use sub Cons.prems(4) in auto)
  note A = mm_actsD [OF a]
  have "\<exists>mm'. give_back pg ?mm = Some mm' \<and>
      mm_acts (on_pages (\<Union>it\<in>set pg. first_part ?mm it) (pv_free_update (\<lambda>_. True))) ?mm mm'"
  proof (rule Cons.IH [OF A(1) it(2)])
    show "group_pages pg \<subseteq> mm_pages ?mm" using Cons.prems(3) A(5) by auto
    fix p assume p: "p \<in> group_pages pg"
    then have "p \<in> mm_pages mm" "p \<notin> {?i..<?i + c}" using Cons.prems(3) it(3) sub by auto
    then show "unused (mm_view ?mm p)" using A(4) [of p] Cons.prems(4) [of p] p by auto
  qed
  then obtain mm' where r: "give_back pg ?mm = Some mm'"
    "mm_acts (on_pages (\<Union>it\<in>set pg. first_part mm it) (pv_free_update (\<lambda>_. True))) ?mm mm'"
    by (auto simp: first_part_frame [OF A(2)])
  have "mm_acts (on_pages (\<Union>it\<in>set (it # pg). first_part mm it) (pv_free_update (\<lambda>_. True))) mm mm'"
    by (rule mm_acts_cong [OF mm_acts_trans [OF a r(2)]]) (simp add: fp)
  moreover have "give_back (it # pg) mm = Some mm'" using r(1) gm cur by simp
  ultimately show ?case by blast
qed

section \<open>Operations on a whole group\<close>

context page_operation
begin

lemma each_node_acts:
  assumes "mm_ok mm" "pg_ok pg" "group_pages pg \<subseteq> mm_pages mm" "\<And>p. p \<in> group_pages pg \<Longrightarrow> okv (mm_view mm p)"
  shows "\<exists>mm'. foldl (\<lambda>r it. Option.bind r (each_part f (bi_GetAddress it) (bi_GetNumPages it))) (Some mm) pg = Some mm' \<and>
    mm_acts (on_pages (group_pages pg) g) mm mm'"
  using assms
proof (induction pg rule: rev_induct)
  case Nil
  then show ?case using mm_acts_none by simp
next
  case (snoc it pg)
  let ?i = "unat (bi_page_index it)" and ?n = "unat (bi_num_pages it)"
  have it: "node_ok it" "pg_ok pg" "node_pages it \<inter> group_pages pg = {}" using snoc.prems(2) by simp_all
  obtain mm1 where r: "foldl (\<lambda>r it. Option.bind r (each_part f (bi_GetAddress it) (bi_GetNumPages it))) (Some mm) pg = Some mm1"
    "mm_acts (on_pages (group_pages pg) g) mm mm1"
    using snoc.IH [OF snoc.prems(1) it(2)] snoc.prems(3,4) by auto
  note A = mm_actsD [OF r(2)]
  have "\<exists>mm'. each_part f (?i * PageSize) ?n mm1 = Some mm' \<and> mm_acts (on_pages {?i..<?i + ?n} g) mm1 mm'"
  proof (rule each_part_acts [OF A(1)])
    show "{?i..<?i + ?n} \<subseteq> mm_pages mm1" using snoc.prems(3) A(5) by (auto simp: node_pages_def)
    fix p assume p: "p \<in> {?i..<?i + ?n}"
    then have "p \<in> mm_pages mm" "p \<notin> group_pages pg" using snoc.prems(3) it(3) by (auto simp: node_pages_def)
    then show "okv (mm_view mm1 p)" using A(4) [of p] snoc.prems(4) [of p] p by (auto simp: node_pages_def)
  qed
  then obtain mm' where e: "each_part f (bi_GetAddress it) (bi_GetNumPages it) mm1 = Some mm'"
    "mm_acts (on_pages (node_pages it) g) mm1 mm'" by (auto simp: bi_GetAddress_def bi_GetNumPages_def node_pages_def)
  have "mm_acts (on_pages (group_pages (pg @ [it])) g) mm mm'"
    by (rule mm_acts_cong [OF mm_acts_trans [OF r(2) e(2)]]) (use it(3) in auto)
  with r(1) e(1) show ?case by auto
qed

end

end
