(* ===== verification/Memory_Manager_Alloc.thy ===== *)
theory Memory_Manager_Alloc
  imports Memory_Manager_Groups
begin

text \<open>
  Allocation from a pool: what the allocation of a group comes to, with the pages a failed one may
  lose, the operations that open what they allocate, contiguous pages, and the contents of the pages
  handed to a process.
\<close>
section \<open>The allocation of a group as a whole\<close>

definition pool_pages :: "nat \<Rightarrow> KMemoryManager \<Rightarrow> nat set" where
  "pool_pages pool mm =
     (\<Union>m\<in>{m. m < mm_num_managers mm \<and> im_pool (mm_managers mm ! m) = pool}. im_pages (mm_managers mm ! m))"

definition pool_free :: "nat \<Rightarrow> KMemoryManager \<Rightarrow> nat set" where
  "pool_free pool mm = {p \<in> pool_pages pool mm. pv_free (mm_view mm p)}"

definition pool_seamless :: "nat \<Rightarrow> KMemoryManager \<Rightarrow> bool" where
  "pool_seamless pool mm \<longleftrightarrow>
     (\<forall>m<mm_num_managers mm. \<forall>k<mm_num_managers mm. im_pool (mm_managers mm ! m) = pool \<longrightarrow>
        im_pool (mm_managers mm ! k) = pool \<longrightarrow>
        heap_GetEndAddress (im_heap (mm_managers mm ! m)) \<noteq> m_heap_address (im_heap (mm_managers mm ! k)))"

lemma pool_pages_subset: "pool_pages pool mm \<subseteq> mm_pages mm"
  by (auto simp: pool_pages_def mm_pages_def)

lemma finite_pool_free [simp]: "finite (pool_free pool mm)"
  by (auto simp: pool_free_def pool_pages_def im_pages_def heap_pages_def intro: finite_subset)

lemma mm_poolD:
  assumes "mm_ok mm" "pool < PoolCount"
  obtains ms where "pool_managers pool dir mm = Some ms" "distinct ms"
    "set ms = {m. m < mm_num_managers mm \<and> im_pool (mm_managers mm ! m) = pool}"
proof -
  have "\<forall>dir. \<exists>ms. pool_managers pool dir mm = Some ms \<and> distinct ms \<and>
      set ms = {m. m < mm_num_managers mm \<and> im_pool (mm_managers mm ! m) = pool}"
    using assms by (simp add: mm_ok_def)
  then show ?thesis using that by blast
qed

lemma GetBlockIndex_pos:
  assumes "0 < n"
  obtains i where "GetBlockIndex n = int i" "i < 7"
proof -
  let ?P = "\<lambda>i. 2 ^ (MemoryBlockPageShifts ! i) div PageSize \<le> n"
  have "?P 0" using assms by (simp add: MemoryBlockPageShifts_def PageSize_def)
  then have "\<exists>i\<in>set (rev [0..<NumMemoryBlockPageShifts]). ?P i" by (auto simp: NumMemoryBlockPageShifts_def)
  then obtain i where i: "find ?P (rev [0..<NumMemoryBlockPageShifts]) = Some i"
    by (metis (no_types, lifting) find_None_iff option.exhaust)
  then have "i < 7" by (auto simp: find_Some_iff NumMemoryBlockPageShifts_def rev_nth)
  with i show ?thesis using that by (auto simp: GetBlockIndex_def)
qed

lemma group_start: "mm_ok mm \<Longrightarrow> group_inv u ms mm N K \<lparr>gs_mm = mm, gs_out = [], gs_nodes = K, gs_num_pages = N\<rparr>"
  using mm_acts_none by (simp add: group_inv_def)

text \<open>The pages a failed allocation loses: parts of nodes that lie in another manager than their beginning.\<close>

definition lost_pages :: "KMemoryManager \<Rightarrow> KPageGroup \<Rightarrow> nat set" where
  "lost_pages mm pg = group_pages pg - (\<Union>it\<in>set pg. first_part mm it)"

definition untracked :: "bool \<Rightarrow> page_view \<Rightarrow> page_view" where
  "untracked unoptimized v = v\<lparr>pv_tracked := pv_tracked v \<and> \<not> unoptimized\<rparr>"

lemma group_freed:
  assumes ok: "mm_ok mm" and inv: "group_inv u ms mm N K st" and ms: "set ms \<subseteq> {..<mm_num_managers mm}"
  shows "\<exists>mm'. give_back (gs_out st) (gs_mm st) = Some mm' \<and>
    mm_acts (\<lambda>p v. if p \<in> lost_pages mm (gs_out st) then taken u v
      else if p \<in> group_pages (gs_out st) then untracked u v else v) mm mm'"
proof -
  note I = group_invD [OF inv]
  let ?T = "group_pages (gs_out st)"
  let ?F = "\<Union>it\<in>set (gs_out st). first_part mm it"
  have a: "mm_acts (on_pages ?T (taken u)) mm (gs_mm st)" and
    T: "\<And>p. p \<in> ?T \<Longrightarrow> pv_free (mm_view mm p) \<and> (\<exists>m\<in>set ms. p \<in> im_pages (mm_managers mm ! m))"
    using inv by (auto simp: group_inv_def)
  have Tp: "?T \<subseteq> mm_pages mm" using T ms by (fastforce simp: mm_pages_def)
  have "\<exists>mm'. give_back (gs_out st) (gs_mm st) = Some mm' \<and>
      mm_acts (on_pages (\<Union>it\<in>set (gs_out st). first_part (gs_mm st) it) (pv_free_update (\<lambda>_. True))) (gs_mm st) mm'"
  proof (rule give_back_acts [OF I(2,1)])
    show "?T \<subseteq> mm_pages (gs_mm st)" using Tp I(4) by simp
    fix p assume p: "p \<in> ?T"
    then show "unused (mm_view (gs_mm st) p)"
      using I(6) [of p] T [OF p] Tp mm_free_refs [OF ok] by auto
  qed
  then obtain mm' where r: "give_back (gs_out st) (gs_mm st) = Some mm'"
    "mm_acts (on_pages ?F (pv_free_update (\<lambda>_. True))) (gs_mm st) mm'"
    by (auto simp: first_part_frame [OF I(3)])
  have F: "?F \<subseteq> ?T" using first_part_subset by (fastforce simp: group_pages_def)
  have "mm_acts (\<lambda>p v. if p \<in> lost_pages mm (gs_out st) then taken u v
      else if p \<in> ?T then untracked u v else v) mm mm'"
  proof (rule mm_acts_cong [OF mm_acts_trans [OF a r(2)]])
    fix p
    show "on_pages ?F (pv_free_update (\<lambda>_. True)) p (on_pages ?T (taken u) p (mm_view mm p)) =
        (if p \<in> lost_pages mm (gs_out st) then taken u (mm_view mm p)
         else if p \<in> ?T then untracked u (mm_view mm p) else mm_view mm p)"
      using F T [of p] by (cases "mm_view mm p") (auto simp: lost_pages_def taken_def untracked_def)
  qed
  with r(1) show ?thesis by blast
qed

lemma pool_exhausted:
  assumes ok: "mm_ok mm" and inv: "group_inv u ms mm N K st"
    and ms: "set ms = {m. m < mm_num_managers mm \<and> im_pool (mm_managers mm ! m) = pool}"
    and empty: "\<forall>m\<in>set ms. free_pages (im_heap (mm_managers (gs_mm st) ! m)) = {}"
  shows "pool_free pool mm \<subseteq> group_pages (gs_out st)"
proof
  fix p assume "p \<in> pool_free pool mm"
  then obtain m where m: "m < mm_num_managers mm" "m \<in> set ms" "p \<in> im_pages (mm_managers mm ! m)"
    and f: "pv_free (mm_view mm p)" unfolding ms by (auto simp: pool_free_def pool_pages_def)
  note I = group_invD [OF inv]
  have m': "m < mm_num_managers (gs_mm st)" "p \<in> im_pages (mm_managers (gs_mm st) ! m)"
    using m I(5) mm_frameD(3) [OF I(3)] by simp_all
  have "\<not> pv_free (im_view (mm_managers (gs_mm st) ! m) p)"
    using free_pages_view [OF mm_okD(1) [OF I(2) m'(1)]] m'(2) bspec [OF empty m(2)] by auto
  then have "\<not> pv_free (mm_view (gs_mm st) p)" using mm_view_in [OF I(2) m'] by simp
  moreover have "p \<in> mm_pages mm" using m by (auto simp: mm_pages_def)
  ultimately show "p \<in> group_pages (gs_out st)" using I(6) f by (auto split: if_splits)
qed

lemma nodes_le_pages: "pg_ok pg \<Longrightarrow> length pg \<le> card (group_pages pg)"
proof (induction pg)
  case (Cons it pg)
  then have "card (node_pages it \<union> group_pages pg) = card (node_pages it) + card (group_pages pg)"
    by (intro card_Un_disjoint) (auto simp: node_pages_def)
  with Cons show ?case by (simp add: node_pages_def node_ok_def)
qed simp

text \<open>What an allocation of a group from a pool comes to.\<close>

definition group_taken :: "bool \<Rightarrow> nat \<Rightarrow> nat \<Rightarrow> nat \<Rightarrow> KMemoryManager \<Rightarrow> KPageGroup \<Rightarrow> nat \<Rightarrow> KMemoryManager \<Rightarrow> bool" where
  "group_taken u N pool nodes mm out nodes' mm' \<longleftrightarrow> pg_ok out \<and> card (group_pages out) = N \<and>
     group_pages out \<subseteq> pool_free pool mm \<and> nodes' + length out = nodes \<and>
     mm_acts (on_pages (group_pages out) (taken u)) mm mm' \<and> (pool_seamless pool mm \<longrightarrow> unsplit mm out)"

definition group_refused :: "bool \<Rightarrow> nat \<Rightarrow> nat \<Rightarrow> nat \<Rightarrow> Result \<Rightarrow> KMemoryManager \<Rightarrow> KMemoryManager \<Rightarrow> bool" where
  "group_refused u N pool nodes r mm mm' \<longleftrightarrow>
     (r = ResultOutOfMemory \<and> card (pool_free pool mm) < N \<or> r = ResultOutOfResource \<and> nodes < N) \<and>
     (\<exists>T L. L \<subseteq> T \<and> T \<subseteq> pool_free pool mm \<and> (pool_seamless pool mm \<longrightarrow> L = {}) \<and>
       mm_acts (\<lambda>p v. if p \<in> L then taken u v else if p \<in> T then untracked u v else v) mm mm')"

lemma AllocatePageGroupImpl_spec:
  assumes ok: "mm_ok mm" and pool: "pool < PoolCount" and N: "0 < N"
  obtains r out nodes' mm' where
    "AllocatePageGroupImpl N pool dir u random ([], nodes, mm) = Some (r, out, nodes', mm')"
    "r = ResultSuccess \<and> group_taken u N pool nodes mm out nodes' mm' \<or>
     out = [] \<and> nodes' = nodes \<and> group_refused u N pool nodes r mm mm'"
proof -
  obtain ms where ms: "pool_managers pool dir mm = Some ms"
    "set ms = {m. m < mm_num_managers mm \<and> im_pool (mm_managers mm ! m) = pool}"
    using mm_poolD [OF ok pool] by blast
  have msn: "set ms \<subseteq> {..<mm_num_managers mm}" using ms(2) by auto
  obtain i where i: "GetBlockIndex N = int i" "i < 7" using N by (rule GetBlockIndex_pos)
  let ?st = "\<lparr>gs_mm = mm, gs_out = [], gs_nodes = nodes, gs_num_pages = N\<rparr>"
  obtain res st where t: "take_sizes (i + 1) u random ms ?st = (res, st)" by fastforce
  have S: "group_step u ms mm N nodes ?st st"
    "res = ResultSuccess \<and> (gs_num_pages st = 0 \<or>
       (\<forall>m\<in>set ms. free_pages (im_heap (mm_managers (gs_mm st) ! m)) = {})) \<or>
     res = ResultOutOfResource \<and> gs_nodes st = 0 \<and> 0 < gs_num_pages st"
    using take_sizes_step [OF ok msn _ _ group_start [OF ok] t] i(2) by auto
  have inv: "group_inv u ms mm N nodes st" using S(1) by (simp add: group_step_def)
  note I = group_invD [OF inv]
  let ?T = "group_pages (gs_out st)"
  have T: "?T \<subseteq> pool_free pool mm" and cnt: "card ?T + gs_num_pages st = N" "gs_nodes st + length (gs_out st) = nodes"
    using inv unfolding group_inv_def pool_free_def pool_pages_def ms(2) by auto
  have uns: "unsplit mm (gs_out st)" if "pool_seamless pool mm"
  proof -
    have "no_seams ms mm" using that unfolding no_seams_def pool_seamless_def ms(2) by blast
    then show ?thesis using S(1) by (simp add: group_step_def unsplit_def)
  qed
  let ?r = "if res = ResultSuccess \<and> gs_num_pages st \<noteq> 0 then ResultOutOfMemory else res"
  have eq: "AllocatePageGroupImpl N pool dir u random ([], nodes, mm) =
     (if ?r = ResultSuccess then Some (?r, gs_out st, gs_nodes st, gs_mm st)
      else case give_back (gs_out st) (gs_mm st) of None \<Rightarrow> None
        | Some mm' \<Rightarrow> Some (?r, [], gs_nodes st + length (gs_out st), mm'))"
    using i t ms(1) by (simp add: AllocatePageGroupImpl_def pg_Finalize_def Let_def split: option.split)
  show ?thesis
  proof (cases "?r = ResultSuccess")
    case True
    then have "gs_num_pages st = 0" by (auto split: if_splits)
    with inv T cnt uns have "group_taken u N pool nodes mm (gs_out st) (gs_nodes st) (gs_mm st)"
      by (simp add: group_taken_def group_inv_def)
    with True eq show ?thesis by (intro that [of ?r]) auto
  next
    case False
    obtain mm' where g: "give_back (gs_out st) (gs_mm st) = Some mm'"
      "mm_acts (\<lambda>p v. if p \<in> lost_pages mm (gs_out st) then taken u v else if p \<in> ?T then untracked u v else v) mm mm'"
      using group_freed [OF ok inv msn] by blast
    have "lost_pages mm (gs_out st) = {}" if "pool_seamless pool mm"
      using unsplit_first_part [OF ok uns [OF that] I(1)] by (simp add: lost_pages_def)
    moreover have "?r = ResultOutOfMemory \<and> card (pool_free pool mm) < N \<or> ?r = ResultOutOfResource \<and> nodes < N"
    proof (cases "res = ResultSuccess")
      case True
      then have num: "gs_num_pages st \<noteq> 0" and r: "?r = ResultOutOfMemory" using False by (auto split: if_splits)
      then have empty: "\<forall>m\<in>set ms. free_pages (im_heap (mm_managers (gs_mm st) ! m)) = {}" using S(2) True by simp
      have "pool_free pool mm \<subseteq> ?T" by (rule pool_exhausted [OF ok inv ms(2) empty])
      with T have "card (pool_free pool mm) = card ?T" by (simp add: subset_antisym)
      with cnt(1) num r show ?thesis by simp
    next
      case no: False
      then have "length (gs_out st) = nodes" "card ?T < N" using S(2) cnt by auto
      moreover have "length (gs_out st) \<le> card ?T" by (rule nodes_le_pages [OF I(1)])
      ultimately show ?thesis using no S(2) by auto
    qed
    moreover have "lost_pages mm (gs_out st) \<subseteq> ?T" by (auto simp: lost_pages_def)
    ultimately have "group_refused u N pool nodes ?r mm mm'"
      unfolding group_refused_def using T g(2)
      by (intro conjI exI [of _ ?T] exI [of _ "lost_pages mm (gs_out st)"]) auto
    with False eq g(1) cnt(2) show ?thesis by (intro that [of ?r "[]" nodes mm']) auto
  qed
qed

section \<open>Pages that are taken and opened\<close>

definition first_opened :: "bool \<Rightarrow> page_view \<Rightarrow> page_view" where
  "first_opened u v = v\<lparr>pv_free := False, pv_refs := 1, pv_tracked := pv_tracked v \<and> \<not> u\<rparr>"

lemma pool_free_pages: "pool_free pool mm \<subseteq> mm_pages mm"
  using pool_pages_subset by (auto simp: pool_free_def)

lemma open_taken:
  assumes ok: "mm_ok mm" and T: "T \<subseteq> mm_pages mm" "\<And>p. p \<in> T \<Longrightarrow> pv_free (mm_view mm p)"
    and a: "mm_acts (on_pages T (taken u)) mm mm1" and b: "mm_acts (on_pages T (pv_refs_update Suc)) mm1 mm2"
  shows "mm_acts (on_pages T (first_opened u)) mm mm2"
proof (rule mm_acts_cong [OF mm_acts_trans [OF a b]])
  fix p assume p: "p \<in> mm_pages mm"
  show "on_pages T (pv_refs_update Suc) p (on_pages T (taken u) p (mm_view mm p)) =
      on_pages T (first_opened u) p (mm_view mm p)"
    using T(2) [of p] mm_free_refs [OF ok p] by (auto simp: taken_def first_opened_def)
qed

lemma openable_taken:
  assumes ok: "mm_ok mm" and T: "T \<subseteq> mm_pages mm" "\<And>p. p \<in> T \<Longrightarrow> pv_free (mm_view mm p)"
    and a: "mm_acts (on_pages T (taken u)) mm mm1" and p: "p \<in> T"
  shows "openable (mm_view mm1 p)"
  using mm_actsD(4) [OF a, of p] T(2) [OF p] subsetD [OF T(1) p] mm_free_refs [OF ok, of p] p by auto

lemma AllocateAndOpen_spec:
  assumes ok: "mm_ok mm" and opt: "DecodeOption option = (pool, dir)" "pool < PoolCount" and N: "0 < N"
    and u: "u = mm_has_optimized_process mm ! pool"
  obtains r out nodes' mm' where
    "AllocateAndOpen N option ([], nodes, mm) = Some (r, out, nodes', mm')"
    "r = ResultSuccess \<and> pg_ok out \<and> card (group_pages out) = N \<and> group_pages out \<subseteq> pool_free pool mm \<and>
       nodes' + length out = nodes \<and> mm_acts (on_pages (group_pages out) (first_opened u)) mm mm' \<or>
     r \<noteq> ResultSuccess \<and> out = [] \<and> nodes' = nodes \<and> group_refused u N pool nodes r mm mm'"
proof -
  obtain r out nodes' mm1 where R: "AllocatePageGroupImpl N pool dir u True ([], nodes, mm) = Some (r, out, nodes', mm1)"
    "r = ResultSuccess \<and> group_taken u N pool nodes mm out nodes' mm1 \<or>
     out = [] \<and> nodes' = nodes \<and> group_refused u N pool nodes r mm mm1"
    using AllocatePageGroupImpl_spec [OF ok opt(2) N] by blast
  have al: "AllocateAndOpen N option ([], nodes, mm) =
      (if r \<noteq> ResultSuccess then Some (r, out, nodes', mm1)
       else map_option (\<lambda>mm. (ResultSuccess, out, nodes', mm)) (pg_OpenFirst out mm1))"
    using R(1) N opt by (simp add: AllocateAndOpen_def u)
  show ?thesis
  proof (cases "r = ResultSuccess")
    case False
    with al R(2) show ?thesis by (intro that) auto
  next
    case True
    then have G: "group_taken u N pool nodes mm out nodes' mm1" using R(2) by (auto simp: group_refused_def)
    then have pg: "pg_ok out" and a: "mm_acts (on_pages (group_pages out) (taken u)) mm mm1"
      and T: "group_pages out \<subseteq> mm_pages mm" "\<And>p. p \<in> group_pages out \<Longrightarrow> pv_free (mm_view mm p)"
      using pool_free_pages by (auto simp: group_taken_def pool_free_def)
    obtain mm2 where o: "pg_OpenFirst out mm1 = Some mm2" "mm_acts (on_pages (group_pages out) (pv_refs_update Suc)) mm1 mm2"
      using open_first.each_node_acts [OF mm_actsD(1) [OF a] pg] T openable_taken [OF ok T a] mm_actsD(5) [OF a]
      unfolding pg_OpenFirst_def mm_OpenFirst_def by auto
    from open_taken [OF ok T a o(2)] True al o(1) G show ?thesis
      by (intro that [of ResultSuccess out nodes' mm2]) (auto simp: group_taken_def)
  qed
qed

text \<open>The search for contiguous pages.\<close>

lemma try_managers_spec:
  assumes "mm_ok mm" "set ms \<subseteq> {..<mm_num_managers mm}" "0 < n" "GetAlignedBlockIndex n (2 ^ k) = int index"
    "try_managers index n (2 ^ k) ms mm = (res, mm')"
  shows "case res of
     None \<Rightarrow> mm_acts (\<lambda>p v. v) mm mm' \<and>
       (\<forall>m\<in>set ms. \<not> (\<exists>a. block_pages page_shift index a \<subseteq> free_pages (im_heap (mm_managers mm ! m))))
   | Some (m, addr) \<Rightarrow> m \<in> set ms \<and>
       (\<exists>a. block_pages page_shift index a \<subseteq> free_pages (im_heap (mm_managers mm ! m))) \<and> (\<exists>s. addr = s * PageSize \<and> addr \<noteq> 0 \<and> 2 ^ k dvd s \<and>
       {s..<s + n} \<subseteq> im_pages (mm_managers mm ! m) \<and> (\<forall>p\<in>{s..<s + n}. pv_free (mm_view mm p)) \<and>
       mm_acts (on_pages {s..<s + n} (pv_free_update (\<lambda>_. False))) mm mm')"
  using assms(1,2,5)
proof (induction ms arbitrary: mm)
  case Nil
  then show ?case using mm_acts_none by auto
next
  case (Cons m ms)
  have m: "m < mm_num_managers mm" using Cons.prems(2) by simp
  let ?im = "mm_managers mm ! m"
  note im = mm_okD(1) [OF Cons.prems(1) m]
  obtain addr im' where al: "im_AllocateAligned index n (2 ^ k) ?im = (addr, im')" by fastforce
  let ?mm = "mm\<lparr>mm_managers := (mm_managers mm)[m := im']\<rparr>"
  note A = AllocateAligned_acts [OF im assms(3,4) al]
  show ?case
  proof (cases "addr = 0")
    case False
    with A have ex: "\<exists>a. block_pages page_shift index a \<subseteq> free_pages (im_heap ?im)" by (auto split: if_splits)
    with A obtain s where s: "addr = s * PageSize" "2 ^ k dvd s" "{s..<s + n} \<subseteq> im_pages ?im"
      "\<forall>p\<in>{s..<s + n}. pv_free (im_view ?im p)" "acts {s..<s + n} (pv_free_update (\<lambda>_. False)) ?im im'" by auto
    have "res = Some (m, addr)" "mm' = ?mm" using Cons.prems(3) al False by auto
    moreover have "mm_acts (on_pages {s..<s + n} (pv_free_update (\<lambda>_. False))) mm ?mm"
      by (rule manager_acts [OF Cons.prems(1) m s(5,3)])
    moreover have "\<forall>p\<in>{s..<s + n}. pv_free (mm_view mm p)"
      using s(3,4) mm_view_in [OF Cons.prems(1) m] by (auto simp: subset_iff)
    ultimately show ?thesis using s False ex by auto
  next
    case True
    with A have a: "acts {} (pv_free_update (\<lambda>_. False)) ?im im'"
      and nb: "\<not> (\<exists>a. block_pages page_shift index a \<subseteq> free_pages (im_heap ?im))" by (auto split: if_splits)
    have b: "mm_acts (\<lambda>p v. v) mm ?mm" using manager_acts [OF Cons.prems(1) m a] by simp
    note B = mm_actsD [OF b]
    have rest: "try_managers index n (2 ^ k) ms ?mm = (res, mm')" using Cons.prems(3) al True by simp
    have "set ms \<subseteq> {..<mm_num_managers ?mm}" using Cons.prems(2) by auto
    note IH = Cons.IH [OF B(1) this rest]
    have pages: "im_pages (mm_managers ?mm ! j) = im_pages (mm_managers mm ! j)" for j by (rule mm_frameD(3) [OF B(2)])
    have free: "free_pages (im_heap (mm_managers ?mm ! j)) = free_pages (im_heap (mm_managers mm ! j))"
      if "j < mm_num_managers mm" for j
      using a im mm_okD(3) [OF Cons.prems(1) m] by (auto simp: nth_list_update acts_def free_pages_view same_frameD(2))
    show ?thesis
    proof (cases res)
      case None
      with IH have "mm_acts (\<lambda>p v. v) ?mm mm'"
        "\<forall>j\<in>set ms. \<not> (\<exists>a. block_pages page_shift index a \<subseteq> free_pages (im_heap (mm_managers ?mm ! j)))" by auto
      moreover have "free_pages (im_heap (mm_managers ?mm ! j)) = free_pages (im_heap (mm_managers mm ! j))"
        if "j \<in> set ms" for j using free [of j] that Cons.prems(2) by auto
      ultimately show ?thesis using mm_acts_trans [OF b] nb None by auto
    next
      case (Some x)
      obtain m' addr' where x: "x = (m', addr')" by fastforce
      with IH Some have ex: "m' \<in> set ms" "\<exists>a. block_pages page_shift index a \<subseteq> free_pages (im_heap (mm_managers ?mm ! m'))"
        by auto
      have "m' < mm_num_managers mm" using ex(1) Cons.prems(2) by auto
      then have ex': "\<exists>a. block_pages page_shift index a \<subseteq> free_pages (im_heap (mm_managers mm ! m'))"
        using ex(2) free by simp
      from IH Some x obtain s where s: "m' \<in> set ms" "addr' = s * PageSize" "addr' \<noteq> 0" "2 ^ k dvd s"
        "{s..<s + n} \<subseteq> im_pages (mm_managers mm ! m')" "\<forall>p\<in>{s..<s + n}. pv_free (mm_view ?mm p)"
        "mm_acts (on_pages {s..<s + n} (pv_free_update (\<lambda>_. False))) ?mm mm'" unfolding pages by auto
      have "{s..<s + n} \<subseteq> mm_pages mm" using s(1,5) Cons.prems(2) by (auto simp: mm_pages_def)
      then have "\<forall>p\<in>{s..<s + n}. pv_free (mm_view mm p)" using s(6) B(4) by (metis subsetD)
      with s mm_acts_trans [OF b s(7)] Some x ex' show ?thesis by auto
    qed
  qed
qed

lemma AllocateAndOpenContinuous_spec:
  assumes ok: "mm_ok mm" and opt: "DecodeOption option = (pool, dir)" "pool < PoolCount" and n: "0 < n"
    and i: "GetAlignedBlockIndex n (2 ^ k) = int index" and u: "u = mm_has_optimized_process mm ! pool"
  obtains addr mm' where
    "AllocateAndOpenContinuous n (2 ^ k) option mm = Some (addr, mm')"
    "if \<exists>m<mm_num_managers mm. im_pool (mm_managers mm ! m) = pool \<and>
        (\<exists>a. block_pages page_shift index a \<subseteq> free_pages (im_heap (mm_managers mm ! m)))
     then \<exists>s. addr = s * PageSize \<and> addr \<noteq> 0 \<and> 2 ^ k dvd s \<and> {s..<s + n} \<subseteq> pool_free pool mm \<and>
       mm_acts (on_pages {s..<s + n} (first_opened u)) mm mm'
     else addr = 0 \<and> mm_acts (\<lambda>p v. v) mm mm'"
proof -
  obtain ms where ms: "pool_managers pool dir mm = Some ms"
    "set ms = {m. m < mm_num_managers mm \<and> im_pool (mm_managers mm ! m) = pool}"
    using mm_poolD [OF ok opt(2)] by blast
  have msn: "set ms \<subseteq> {..<mm_num_managers mm}" using ms(2) by auto
  obtain res mm1 where t: "try_managers index n (2 ^ k) ms mm = (res, mm1)" by fastforce
  note T = try_managers_spec [OF ok msn n i t]
  have al: "AllocateAndOpenContinuous n (2 ^ k) option mm =
      (case res of None \<Rightarrow> Some (0, mm1)
       | Some (m, addr) \<Rightarrow> Some (addr, upd_manager m (im_OpenFirst addr n)
           (if mm_has_optimized_process mm1 ! pool then upd_manager m (TrackUnoptimizedAllocation addr n) mm1 else mm1)))"
    using n opt ms(1) i t by (simp add: AllocateAndOpenContinuous_def Let_def split: option.split)
  show ?thesis
  proof (cases res)
    case None
    with T have "mm_acts (\<lambda>p v. v) mm mm1"
      "\<not> (\<exists>m<mm_num_managers mm. im_pool (mm_managers mm ! m) = pool \<and>
        (\<exists>a. block_pages page_shift index a \<subseteq> free_pages (im_heap (mm_managers mm ! m))))" by (auto simp: ms(2))
    with al None show ?thesis by (intro that [of 0 mm1]) auto
  next
    case (Some x)
    obtain m addr where x: "x = (m, addr)" by fastforce
    with T Some obtain s where s: "m \<in> set ms" "addr = s * PageSize" "addr \<noteq> 0" "2 ^ k dvd s"
      "{s..<s + n} \<subseteq> im_pages (mm_managers mm ! m)" "\<forall>p\<in>{s..<s + n}. pv_free (mm_view mm p)"
      "mm_acts (on_pages {s..<s + n} (pv_free_update (\<lambda>_. False))) mm mm1" by auto
    have m: "m < mm_num_managers mm" using s(1) msn by auto
    have T2: "{s..<s + n} \<subseteq> mm_pages mm" using s(5) m by (auto simp: mm_pages_def)
    note A = mm_actsD [OF s(7)]
    have in1: "m < mm_num_managers mm1" "{s..<s + n} \<subseteq> im_pages (mm_managers mm1 ! m)"
      using m s(5) mm_frameD(3,5) [OF A(2)] by simp_all
    have u1: "mm_has_optimized_process mm1 ! pool = u" using mm_frameD(7) [OF A(2)] u by simp
    define mm2 where "mm2 = (if u then upd_manager m (TrackUnoptimizedAllocation addr n) mm1 else mm1)"
    have a: "mm_acts (on_pages {s..<s + n} (taken u)) mm mm2"
    proof (cases u)
      case True
      then have "mm_acts (on_pages {s..<s + n} (pv_tracked_update (\<lambda>_. False))) mm1 mm2"
        using track_unoptimized.upd_acts [OF A(1) in1 n] by (simp add: mm2_def s(2))
      from mm_acts_trans [OF s(7) this] show ?thesis by (rule mm_acts_cong) (auto simp: taken_def True)
    next
      case False
      have e: "pv_free_update (\<lambda>_. False) v = taken u v" for v using False by (cases v) (simp add: taken_def)
      have "mm2 = mm1" using False by (simp add: mm2_def)
      then show ?thesis using s(7) unfolding e by simp
    qed
    note B = mm_actsD [OF a]
    have in2: "m < mm_num_managers mm2" "{s..<s + n} \<subseteq> im_pages (mm_managers mm2 ! m)"
      using m s(5) mm_frameD(3,5) [OF B(2)] by simp_all
    have "mm_acts (on_pages {s..<s + n} (pv_refs_update Suc)) mm2 (upd_manager m (im_OpenFirst addr n) mm2)"
      unfolding s(2) by (rule open_first.upd_acts [OF B(1) in2 n]) (rule openable_taken [OF ok T2 _ a], use s(6) in auto)
    from open_taken [OF ok T2 _ a this] s(6)
    have c: "mm_acts (on_pages {s..<s + n} (first_opened u)) mm (upd_manager m (im_OpenFirst addr n) mm2)" by blast
    have "{s..<s + n} \<subseteq> pool_free pool mm" using s(1,5,6) unfolding pool_free_def pool_pages_def ms(2) by auto
    moreover have ex: "\<exists>m<mm_num_managers mm. im_pool (mm_managers mm ! m) = pool \<and>
        (\<exists>a. block_pages page_shift index a \<subseteq> free_pages (im_heap (mm_managers mm ! m)))"
      using T Some x unfolding ms(2) by auto
    ultimately show ?thesis
      using al Some x u1 c s(2-4) by (intro that [of addr]) (auto simp: mm2_def)
  qed
qed

section \<open>Contents of pages\<close>

definition fill_pages :: "nat set \<Rightarrow> u8 \<Rightarrow> dram \<Rightarrow> dram" where
  "fill_pages S v mem = (\<lambda>a. if a div PageSize \<in> S then v else mem a)"

lemma fill_pages_simps [simp]:
  "fill_pages {} v mem = mem" "fill_pages S v (fill_pages T v mem) = fill_pages (S \<union> T) v mem"
  by (auto simp: fill_pages_def)

lemma fill_memory_pages: "fill_memory (s * PageSize) (n * PageSize) v mem = fill_pages {s..<s + n} v mem"
proof -
  have "s * PageSize \<le> a \<and> a < s * PageSize + n * PageSize \<longleftrightarrow> a div PageSize \<in> {s..<s + n}" for a
    by (simp add: div_less_iff_less_mult less_eq_div_iff_mult_less_eq add_mult_distrib)
  then show ?thesis by (simp add: fill_memory_def fill_pages_def)
qed

lemma fill_nodes:
  "fold (\<lambda>it. fill_memory (bi_GetAddress it) (bi_GetSize it) v) pg mem = fill_pages (group_pages pg) v mem"
proof (induction pg arbitrary: mem)
  case (Cons it pg)
  have "fill_memory (bi_GetAddress it) (bi_GetSize it) v mem = fill_pages (node_pages it) v mem" for mem
    by (simp add: bi_GetAddress_def bi_GetSize_def bi_GetNumPages_def node_pages_def fill_memory_pages)
  with Cons.IH show ?case by (simp add: Un_commute)
qed simp

abbreviation new_pages :: "Impl \<Rightarrow> nat set \<Rightarrow> nat set" where
  "new_pages im S \<equiv> {p \<in> S. \<not> pv_tracked (im_view im p)}"

lemma ProcessOptimizedAllocation_spec:
  assumes ok: "impl_ok im" and S: "{s..<s + n} \<subseteq> im_pages im" "0 < n"
  shows "ProcessOptimizedAllocation (s * PageSize) n v im mem =
    (new_pages im {s..<s + n} \<noteq> {}, fill_pages (new_pages im {s..<s + n}) v mem)"
proof -
  let ?o = "s - base_page im"
  have s: "s \<in> im_pages im" using S by auto
  note O = page_offset [OF ok s]
  have base: "base_page im \<le> s" using s impl_okD(5) [OF ok] by simp
  let ?f = "\<lambda>o' (any_new, mem).
     if im_optimize_map im ! (o' div 64) AND push_bit (o' mod 64) 1 = 0
     then (True, fill_memory (m_heap_address (im_heap im) + o' * PageSize) PageSize v mem) else (any_new, mem)"
  have step: "?f (?o + j) (a, mem) =
      (if pv_tracked (im_view im (s + j)) then (a, mem) else (True, fill_pages {s + j} v mem))" for a mem j
  proof -
    have "s + j - base_page im = ?o + j" using base by simp
    moreover have "w AND push_bit i 1 = 0 \<longleftrightarrow> \<not> bit w i" for w :: u64 and i
      by (simp add: push_bit_eq_mult and_exp_eq_0_iff_not_bit)
    moreover have "m_heap_address (im_heap im) + (?o + j) * PageSize = (s + j) * PageSize"
      using impl_okD(3) [OF ok] base by (simp add: add_mult_distrib [symmetric])
    moreover have "fill_memory ((s + j) * PageSize) PageSize v mem = fill_pages {s + j} v mem"
      using fill_memory_pages [of "s + j" 1] by simp
    ultimately show ?thesis by (simp add: im_view_def tracked_bit_def)
  qed
  have "fold ?f [?o..<?o + j] (False, mem) =
      (new_pages im {s..<s + j} \<noteq> {}, fill_pages (new_pages im {s..<s + j}) v mem)" for j
  proof (induction j)
    case (Suc j)
    have N: "new_pages im {s..<s + Suc j} =
        (if pv_tracked (im_view im (s + j)) then new_pages im {s..<s + j} else insert (s + j) (new_pages im {s..<s + j}))"
      by (auto simp: less_Suc_eq)
    have "fold ?f [?o..<?o + Suc j] (False, mem) = ?f (?o + j) (fold ?f [?o..<?o + j] (False, mem))" by simp
    then show ?case unfolding Suc.IH step N by simp
  qed simp
  then show ?thesis by (simp add: ProcessOptimizedAllocation_def O(1) Let_def)
qed

text \<open>Device memory has no part in the order of the managers.\<close>

lemma with_dram_frame: "mm_frame mm (mm\<lparr>mm_dram := d\<rparr>)"
  by (simp add: mm_frame_def)

lemma with_dram [simp]:
  "GetManager a (mm\<lparr>mm_dram := d\<rparr>) = GetManager a mm" "mm_view (mm\<lparr>mm_dram := d\<rparr>) p = mm_view mm p"
  "mm_pages (mm\<lparr>mm_dram := d\<rparr>) = mm_pages mm"
  using mm_frameD(1,6) [OF with_dram_frame] by (simp_all add: mm_view_def split: option.split)

lemma with_dram_ok [simp]: "mm_ok (mm\<lparr>mm_dram := d\<rparr>) \<longleftrightarrow> mm_ok mm"
  using mm_frameD(1,2) [OF with_dram_frame] by (simp add: mm_ok_def)

abbreviation mm_new_pages :: "KMemoryManager \<Rightarrow> nat set \<Rightarrow> nat set" where
  "mm_new_pages mm S \<equiv> {p \<in> S. \<not> pv_tracked (mm_view mm p)}"

lemma process_parts_spec:
  assumes "mm_ok mm" "{s..<s + n} \<subseteq> mm_pages mm"
  shows "\<exists>b. process_parts v a (s * PageSize) n mm =
      Some (b, mm\<lparr>mm_dram := fill_pages (mm_new_pages mm {s..<s + n}) v (mm_dram mm)\<rparr>) \<and>
    ((\<exists>m<mm_num_managers mm. {s..<s + n} \<subseteq> im_pages (mm_managers mm ! m)) \<longrightarrow> 0 < n \<longrightarrow>
      b = (mm_new_pages mm {s..<s + n} \<noteq> {}))"
  using assms
proof (induction n arbitrary: s mm a rule: less_induct)
  case (less n)
  show ?case
  proof (cases "n = 0")
    case True
    then show ?thesis by (subst process_parts.simps) simp
  next
    case False
    then have "s \<in> mm_pages mm" using less.prems(2) by auto
    then obtain m where m: "m < mm_num_managers mm" "s \<in> im_pages (mm_managers mm ! m)" by (rule mm_pagesE)
    let ?im = "mm_managers mm ! m"
    note im = mm_okD(1) [OF less.prems(1) m(1)]
    define e where "e = base_page ?im + m_heap_size (im_heap ?im) div PageSize"
    define c where "c = min n (e - s)"
    have pg: "im_pages ?im = {base_page ?im..<e}" using impl_okD(5) [OF im] by (simp add: e_def)
    have c: "0 < c" "c \<le> n" "{s..<s + c} \<subseteq> im_pages ?im" using False m(2) by (auto simp: c_def pg)
    have cur: "min n (heap_GetPageOffsetToEnd (s * PageSize) (im_heap ?im)) = c"
      using page_to_end [OF im m(2)] by (simp add: c_def e_def)
    have np: "new_pages ?im {s..<s + c} = mm_new_pages mm {s..<s + c}"
      using mm_view_in [OF less.prems(1) m(1)] c(3) by (auto simp: subset_iff)
    let ?mm = "mm\<lparr>mm_dram := fill_pages (mm_new_pages mm {s..<s + c}) v (mm_dram mm)\<rparr>"
    let ?b = "mm_new_pages mm {s..<s + c} \<noteq> {}"
    have "\<exists>b. process_parts v ?b ((s + c) * PageSize) (n - c) ?mm =
        Some (b, ?mm\<lparr>mm_dram := fill_pages (mm_new_pages ?mm {s + c..<s + c + (n - c)}) v (mm_dram ?mm)\<rparr>)"
    proof -
      have "n - c < n" "mm_ok ?mm" using less.prems(1) c False by simp_all
      moreover have "{s + c..<s + c + (n - c)} \<subseteq> mm_pages ?mm" using less.prems(2) c(2) by (auto simp: subset_iff)
      ultimately show ?thesis using less.IH [of "n - c" ?mm "s + c" ?b] by blast
    qed
    then obtain b where b: "process_parts v ?b ((s + c) * PageSize) (n - c) ?mm =
        Some (b, ?mm\<lparr>mm_dram := fill_pages (mm_new_pages ?mm {s + c..<s + c + (n - c)}) v (mm_dram ?mm)\<rparr>)" by blast
    have un: "mm_new_pages mm {s + c..<s + c + (n - c)} \<union> mm_new_pages mm {s..<s + c} = mm_new_pages mm {s..<s + n}"
      using c(2) by auto
    have P: "ProcessOptimizedAllocation (s * PageSize) c v ?im (mm_dram mm) =
        (?b, fill_pages (mm_new_pages mm {s..<s + c}) v (mm_dram mm))"
      unfolding ProcessOptimizedAllocation_spec [OF im c(3,1)] np ..
    have unf: "process_parts v a (s * PageSize) n mm = process_parts v ?b ((s + c) * PageSize) (n - c) ?mm"
      using False mm_okD(2) [OF less.prems(1) m] cur P
      by (subst process_parts.simps) (simp add: add_mult_distrib)
    have "b = (mm_new_pages mm {s..<s + n} \<noteq> {})"
      if "k < mm_num_managers mm" "{s..<s + n} \<subseteq> im_pages (mm_managers mm ! k)" for k
    proof -
      have "k = m" using pages_disjoint [OF less.prems(1) that(1) m(1) _ m(2)] that(2) False by (simp add: subset_iff)
      moreover have "s + n - 1 \<in> im_pages (mm_managers mm ! k)" using that(2) False by (auto simp: subset_iff)
      ultimately have "s + n - 1 < e" using pg by simp
      then have "n = c" by (simp add: c_def)
      with b show ?thesis by (subst (asm) process_parts.simps) simp
    qed
    with b un unf show ?thesis by auto
  qed
qed

text \<open>Pages of an optimised process: those it had not before are filled, and all of a node are tracked then.\<close>

definition optimized :: "nat set \<Rightarrow> u8 \<Rightarrow> KMemoryManager \<Rightarrow> KMemoryManager \<Rightarrow> bool" where
  "optimized T v mm mm' \<longleftrightarrow> mm_dram mm' = fill_pages (mm_new_pages mm T) v (mm_dram mm) \<and>
     (\<exists>U\<subseteq>T. mm_acts (on_pages U (pv_tracked_update (\<lambda>_. True))) mm (mm'\<lparr>mm_dram := mm_dram mm\<rparr>))"

definition all_tracked :: "nat set \<Rightarrow> KMemoryManager \<Rightarrow> bool" where
  "all_tracked T mm \<longleftrightarrow> (\<forall>p\<in>T. pv_tracked (mm_view mm p))"

lemma mm_acts_dram: "mm_acts G mm mm' \<Longrightarrow> mm_acts G (mm\<lparr>mm_dram := d\<rparr>) (mm'\<lparr>mm_dram := d\<rparr>)"
  by (simp add: mm_acts_def) (simp add: mm_frame_def)

lemma optimize_node_spec:
  assumes ok: "mm_ok mm" and it: "node_ok it" and T: "node_pages it \<subseteq> mm_pages mm"
  shows "\<exists>mm'. optimize_node v it mm = Some mm' \<and> optimized (node_pages it) v mm mm' \<and>
    ((\<exists>m<mm_num_managers mm. node_pages it \<subseteq> im_pages (mm_managers mm ! m)) \<longrightarrow> all_tracked (node_pages it) mm')"
proof -
  let ?i = "unat (bi_page_index it)" and ?n = "unat (bi_num_pages it)"
  have np: "{?i..<?i + ?n} = node_pages it" by (simp add: node_pages_def)
  have n0: "0 < ?n" using it by (simp add: node_ok_def)
  let ?d = "fill_pages (mm_new_pages mm (node_pages it)) v (mm_dram mm)"
  let ?mm = "mm\<lparr>mm_dram := ?d\<rparr>"
  obtain b where b: "process_parts v False (?i * PageSize) ?n mm = Some (b, ?mm)"
    "(\<exists>m<mm_num_managers mm. node_pages it \<subseteq> im_pages (mm_managers mm ! m)) \<longrightarrow> b = (mm_new_pages mm (node_pages it) \<noteq> {})"
    using process_parts_spec [OF ok, of ?i ?n v False] T n0 unfolding np by auto
  have unf: "optimize_node v it mm =
      (if b then each_part TrackOptimizedAllocation (?i * PageSize) ?n ?mm else Some ?mm)"
    using b(1) n0 by (simp add: optimize_node_def bi_GetAddress_def bi_GetNumPages_def)
  show ?thesis
  proof (cases b)
    case False
    have "optimized (node_pages it) v mm ?mm"
      unfolding optimized_def using mm_acts_none [OF ok] by (intro conjI exI [of _ "{}"]) simp_all
    moreover have "all_tracked (node_pages it) ?mm"
      if "\<exists>m<mm_num_managers mm. node_pages it \<subseteq> im_pages (mm_managers mm ! m)"
      using b(2) False that by (auto simp: all_tracked_def)
    ultimately show ?thesis using unf False by auto
  next
    case True
    have "mm_ok ?mm" using ok by simp
    then obtain mm' where e: "each_part TrackOptimizedAllocation (?i * PageSize) ?n ?mm = Some mm'"
      "mm_acts (on_pages (node_pages it) (pv_tracked_update (\<lambda>_. True))) ?mm mm'"
      using track_optimized.each_part_acts [of ?mm ?i ?n] T unfolding np by auto
    have "mm_acts (on_pages (node_pages it) (pv_tracked_update (\<lambda>_. True))) mm (mm'\<lparr>mm_dram := mm_dram mm\<rparr>)"
      using mm_acts_dram [OF e(2), of "mm_dram mm"] by simp
    then have "optimized (node_pages it) v mm mm'"
      unfolding optimized_def using mm_actsD(3) [OF e(2)] by (intro conjI exI [of _ "node_pages it"]) simp_all
    moreover have "all_tracked (node_pages it) mm'"
      using mm_actsD(4) [OF e(2)] T by (auto simp: all_tracked_def subset_iff)
    ultimately show ?thesis using unf True e(1) by auto
  qed
qed

lemma optimized_views:
  assumes "optimized T v mm mm'"
  shows "mm_frame mm mm'" "mm_pages mm' = mm_pages mm" "mm_ok mm'" "p \<in> mm_pages mm \<Longrightarrow>
    pv_free (mm_view mm' p) = pv_free (mm_view mm p) \<and> pv_refs (mm_view mm' p) = pv_refs (mm_view mm p) \<and>
    (pv_tracked (mm_view mm p) \<longrightarrow> pv_tracked (mm_view mm' p)) \<and> (p \<notin> T \<longrightarrow> mm_view mm' p = mm_view mm p)"
proof -
  obtain U where U: "U \<subseteq> T" and a: "mm_acts (on_pages U (pv_tracked_update (\<lambda>_. True))) mm (mm'\<lparr>mm_dram := mm_dram mm\<rparr>)"
    using assms by (auto simp: optimized_def)
  note A = mm_actsD [OF a]
  show "mm_frame mm mm'" using A(2) by (simp add: mm_frame_def)
  show "mm_pages mm' = mm_pages mm" "mm_ok mm'" using A(1,5) by simp_all
  show "p \<in> mm_pages mm \<Longrightarrow> pv_free (mm_view mm' p) = pv_free (mm_view mm p) \<and>
      pv_refs (mm_view mm' p) = pv_refs (mm_view mm p) \<and> (pv_tracked (mm_view mm p) \<longrightarrow> pv_tracked (mm_view mm' p)) \<and>
      (p \<notin> T \<longrightarrow> mm_view mm' p = mm_view mm p)"
    using A(4) [of p] U by auto
qed

lemma optimized_trans:
  assumes a: "optimized S v mm mm'" and b: "optimized T v mm' mm''" and d: "S \<inter> T = {}" and p: "T \<subseteq> mm_pages mm"
  shows "optimized (S \<union> T) v mm mm''"
proof -
  note A = optimized_views [OF a]
  have "mm_view mm' q = mm_view mm q" if "q \<in> T" for q using A(4) [of q] d p that by auto
  then have "mm_new_pages mm' T = mm_new_pages mm T" by auto
  then have "mm_dram mm'' = fill_pages (mm_new_pages mm T \<union> mm_new_pages mm S) v (mm_dram mm)"
    using a b by (simp add: optimized_def)
  moreover have "mm_new_pages mm T \<union> mm_new_pages mm S = mm_new_pages mm (S \<union> T)" by auto
  moreover obtain U V where U: "U \<subseteq> S" "mm_acts (on_pages U (pv_tracked_update (\<lambda>_. True))) mm (mm'\<lparr>mm_dram := mm_dram mm\<rparr>)"
    and V: "V \<subseteq> T" "mm_acts (on_pages V (pv_tracked_update (\<lambda>_. True))) mm' (mm''\<lparr>mm_dram := mm_dram mm'\<rparr>)"
    using a b by (auto simp: optimized_def)
  have "mm_acts (on_pages V (pv_tracked_update (\<lambda>_. True))) (mm'\<lparr>mm_dram := mm_dram mm\<rparr>) (mm''\<lparr>mm_dram := mm_dram mm\<rparr>)"
    using mm_acts_dram [OF V(2), of "mm_dram mm"] by simp
  from mm_acts_trans [OF U(2) this]
  have "mm_acts (on_pages (U \<union> V) (pv_tracked_update (\<lambda>_. True))) mm (mm''\<lparr>mm_dram := mm_dram mm\<rparr>)"
    by (rule mm_acts_cong) auto
  ultimately show ?thesis unfolding optimized_def using U(1) V(1) by (intro conjI exI [of _ "U \<union> V"]) auto
qed

lemma optimize_nodes_spec:
  assumes "mm_ok mm" "pg_ok pg" "group_pages pg \<subseteq> mm_pages mm"
  shows "\<exists>mm'. foldl (\<lambda>r it. Option.bind r (optimize_node v it)) (Some mm) pg = Some mm' \<and>
    optimized (group_pages pg) v mm mm' \<and> (unsplit mm pg \<longrightarrow> all_tracked (group_pages pg) mm')"
  using assms
proof (induction pg rule: rev_induct)
  case Nil
  then show ?case using mm_acts_none by (auto simp: optimized_def all_tracked_def)
next
  case (snoc it pg)
  have it: "node_ok it" "pg_ok pg" "node_pages it \<inter> group_pages pg = {}" using snoc.prems(2) by simp_all
  obtain mm1 where r: "foldl (\<lambda>r it. Option.bind r (optimize_node v it)) (Some mm) pg = Some mm1"
    "optimized (group_pages pg) v mm mm1" "unsplit mm pg \<longrightarrow> all_tracked (group_pages pg) mm1"
    using snoc.IH [OF snoc.prems(1) it(2)] snoc.prems(3) by auto
  note A = optimized_views [OF r(2)]
  have sub: "node_pages it \<subseteq> mm_pages mm1" "group_pages pg \<subseteq> mm_pages mm1" using snoc.prems(3) A(2) by auto
  obtain mm' where e: "optimize_node v it mm1 = Some mm'" "optimized (node_pages it) v mm1 mm'"
    "(\<exists>m<mm_num_managers mm1. node_pages it \<subseteq> im_pages (mm_managers mm1 ! m)) \<longrightarrow> all_tracked (node_pages it) mm'"
    using optimize_node_spec [OF A(3) it(1) sub(1)] by blast
  have "optimized (group_pages (pg @ [it])) v mm mm'"
    using optimized_trans [OF r(2) e(2)] it(3) snoc.prems(3) by (auto simp: Int_commute)
  moreover have "all_tracked (group_pages (pg @ [it])) mm'" if u: "unsplit mm (pg @ [it])"
  proof -
    have "\<exists>m<mm_num_managers mm1. node_pages it \<subseteq> im_pages (mm_managers mm1 ! m)"
      using u mm_frameD(3,5) [OF A(1)] by (simp add: unsplit_def)
    then have "all_tracked (node_pages it) mm'" using e(3) by simp
    moreover have "all_tracked (group_pages pg) mm1" using r(3) u by (simp add: unsplit_def)
    ultimately show ?thesis using optimized_views(4) [OF e(2)] sub(2) by (auto simp: all_tracked_def subset_iff)
  qed
  ultimately show ?case using r(1) e(1) by auto
qed

lemma pool_seamless_frame: "mm_frame mm mm' \<Longrightarrow> pool_seamless pool mm' = pool_seamless pool mm"
  by (simp add: pool_seamless_def mm_frame_def same_frame_def heap_GetEndAddress_def)

lemma unsplit_frame: "mm_frame mm mm' \<Longrightarrow> unsplit mm' pg = unsplit mm pg"
  by (simp add: unsplit_def mm_frameD)

lemma AllocateForProcess_spec:
  assumes ok: "mm_ok mm" and opt: "DecodeOption option = (pool, dir)" "pool < PoolCount" and N: "0 < N"
    and h: "h = mm_has_optimized_process mm ! pool" and i: "i = (mm_optimized_process_ids mm ! pool = process_id)"
  obtains r out nodes' mm' where
    "AllocateForProcess N option process_id v ([], nodes, mm) = Some (r, out, nodes', mm')"
    "r = ResultSuccess \<and> pg_ok out \<and> card (group_pages out) = N \<and> group_pages out \<subseteq> pool_free pool mm \<and>
       nodes' + length out = nodes \<and> mm_ok mm' \<and> mm_frame mm mm' \<and>
       (\<forall>p\<in>mm_pages mm. pv_free (mm_view mm' p) = (pv_free (mm_view mm p) \<and> p \<notin> group_pages out) \<and>
          pv_refs (mm_view mm' p) = pv_refs (mm_view mm p)) \<and>
       mm_dram mm' = fill_pages (if h \<and> i then mm_new_pages mm (group_pages out) else group_pages out) v (mm_dram mm) \<and>
       (h \<and> i \<and> pool_seamless pool mm \<longrightarrow> all_tracked (group_pages out) mm') \<or>
     r \<noteq> ResultSuccess \<and> out = [] \<and> nodes' = nodes \<and> group_refused (h \<and> \<not> i) N pool nodes r mm mm'"
proof -
  let ?u = "h \<and> \<not> i"
  obtain r out nodes' mm1 where R: "AllocatePageGroupImpl N pool dir ?u False ([], nodes, mm) = Some (r, out, nodes', mm1)"
    "r = ResultSuccess \<and> group_taken ?u N pool nodes mm out nodes' mm1 \<or>
     out = [] \<and> nodes' = nodes \<and> group_refused ?u N pool nodes r mm mm1"
    using AllocatePageGroupImpl_spec [OF ok opt(2) N] by blast
  have al: "AllocateForProcess N option process_id v ([], nodes, mm) =
      (if r \<noteq> ResultSuccess then Some (r, out, nodes', mm1)
       else if h \<and> i
       then map_option (\<lambda>mm. (ResultSuccess, out, nodes', mm))
              (foldl (\<lambda>r it. Option.bind r (optimize_node v it)) (Some mm1) out)
       else Some (ResultSuccess, out, nodes',
              mm1\<lparr>mm_dram := fold (\<lambda>it. fill_memory (bi_GetAddress it) (bi_GetSize it) v) out (mm_dram mm1)\<rparr>))"
    using R(1) opt by (simp add: AllocateForProcess_def h i)
  show ?thesis
  proof (cases "r = ResultSuccess")
    case False
    with al R(2) show ?thesis by (intro that) auto
  next
    case True
    then have G: "group_taken ?u N pool nodes mm out nodes' mm1" using R(2) by (auto simp: group_refused_def)
    then have pg: "pg_ok out" and a: "mm_acts (on_pages (group_pages out) (taken ?u)) mm mm1"
      and T: "group_pages out \<subseteq> mm_pages mm" and fr: "\<And>p. p \<in> group_pages out \<Longrightarrow> pv_free (mm_view mm p)"
      using pool_free_pages by (auto simp: group_taken_def pool_free_def)
    note A = mm_actsD [OF a]
    have base: "card (group_pages out) = N \<and> group_pages out \<subseteq> pool_free pool mm \<and> nodes' + length out = nodes"
      using G by (simp add: group_taken_def)
    have v1: "pv_free (mm_view mm1 p) = (pv_free (mm_view mm p) \<and> p \<notin> group_pages out) \<and>
        pv_refs (mm_view mm1 p) = pv_refs (mm_view mm p)" if "p \<in> mm_pages mm" for p
      using A(4) [OF that] by auto
    show ?thesis
    proof (cases "h \<and> i")
      case no: False
      let ?mm = "mm1\<lparr>mm_dram := fill_pages (group_pages out) v (mm_dram mm1)\<rparr>"
      have "mm_frame mm ?mm" by (rule mm_frame_trans [OF A(2) with_dram_frame])
      with al True no pg base v1 A(1,3) show ?thesis
        by (intro that [of ResultSuccess out nodes' ?mm]) (auto simp: fill_nodes)
    next
      case yes: True
      obtain mm2 where o: "foldl (\<lambda>r it. Option.bind r (optimize_node v it)) (Some mm1) out = Some mm2"
        "optimized (group_pages out) v mm1 mm2" "unsplit mm1 out \<longrightarrow> all_tracked (group_pages out) mm2"
        using optimize_nodes_spec [OF A(1) pg, of v] T unfolding A(5) by blast
      note O = optimized_views [OF o(2)]
      have "pv_tracked (mm_view mm1 p) = pv_tracked (mm_view mm p)" if "p \<in> group_pages out" for p
        using A(4) [of p] T that yes by (auto simp: taken_def)
      then have "mm_new_pages mm1 (group_pages out) = mm_new_pages mm (group_pages out)" by auto
      then have dr: "mm_dram mm2 = fill_pages (mm_new_pages mm (group_pages out)) v (mm_dram mm)"
        using o(2) A(3) by (simp add: optimized_def)
      have vw: "\<forall>p\<in>mm_pages mm. pv_free (mm_view mm2 p) = (pv_free (mm_view mm p) \<and> p \<notin> group_pages out) \<and>
          pv_refs (mm_view mm2 p) = pv_refs (mm_view mm p)"
        using O(4) v1 A(5) by simp
      have "all_tracked (group_pages out) mm2" if "pool_seamless pool mm"
        using o(3) G that unsplit_frame [OF A(2)] by (simp add: group_taken_def)
      with al True yes pg base vw dr O(1,3) mm_frame_trans [OF A(2)] o(1) show ?thesis
        by (intro that [of ResultSuccess out nodes' mm2]) auto
    qed
  qed
qed

end
