(* ===== verification/Memory_Manager_Init.thy ===== *)
theory Memory_Manager_Init
  imports Memory_Manager_Pages Page_Heap_Init
begin

text \<open>
  Initialisation of the memory manager from a layout of regions. The first loop of
  \<^verbatim>\<open>KMemoryManager::Initialize\<close> makes one manager for each number that regions of the user
  pools carry, and links it into the list of its pool; the second gives the pages of the regions to
  the heaps, but for those of the initial process binary, which it opens. A manager that comes out of
  it is in order, has all pages of its regions, and every page is either free or open once.
\<close>


section \<open>Layouts\<close>

definition user_region :: "KMemoryRegion \<Rightarrow> bool" where
  "user_region r \<longleftrightarrow> IsDerivedFrom r KMemoryRegionType_DramUserPool"

definition regions_of :: "nat \<Rightarrow> region_tree \<Rightarrow> region_tree" where
  "regions_of k tree = filter (\<lambda>r. user_region r \<and> r_attributes r = k) tree"

text \<open>Regions that follow one another from an address on, and where they end.\<close>

fun chained :: "nat \<Rightarrow> region_tree \<Rightarrow> bool" where
  "chained a [] = True"
| "chained a (r # rs) \<longleftrightarrow> r_address r = a \<and> chained (r_last_address r + 1) rs"

definition chain_end :: "nat \<Rightarrow> region_tree \<Rightarrow> nat" where
  "chain_end a rs = (if rs = [] then a else r_last_address (last rs) + 1)"

definition region_ok :: "KMemoryRegion \<Rightarrow> bool" where
  "region_ok r \<longleftrightarrow> 2 ^ 30 \<le> r_address r \<and> r_address r \<le> r_last_address r \<and> r_last_address r + 1 < 2 ^ 44 \<and>
     r_address r mod PageSize = 0 \<and> (r_last_address r + 1) mod PageSize = 0"

text \<open>
  A layout the manager can be initialised with: the regions are ordered and disjoint, and those of
  the user pools are numbered below \<open>n\<close> without gaps, the regions of one number following one another
  and belonging to one pool.
\<close>

definition layout_ok :: "nat \<Rightarrow> region_tree \<Rightarrow> bool" where
  "layout_ok n tree \<longleftrightarrow> n \<le> MaxManagerCount \<and> sorted_wrt (\<lambda>a b. r_last_address a < r_address b) tree \<and>
     (\<forall>r\<in>set tree. r_address r \<le> r_last_address r) \<and>
     (\<forall>r\<in>set tree. user_region r \<longrightarrow> r_attributes r < n \<and> region_ok r) \<and>
     (\<forall>k<n. regions_of k tree \<noteq> [] \<and> chained (r_address (hd (regions_of k tree))) (regions_of k tree) \<and>
        r_last_address (last (regions_of k tree)) < r_address (hd (regions_of k tree)) + 2 ^ 35 \<and>
        GetPoolFromMemoryRegionType (r_type_id (hd (regions_of k tree))) \<noteq> None)"

definition extent_start :: "region_tree \<Rightarrow> nat \<Rightarrow> nat" where
  "extent_start tree k = r_address (hd (regions_of k tree))"

definition extent_end :: "region_tree \<Rightarrow> nat \<Rightarrow> nat" where
  "extent_end tree k = r_last_address (last (regions_of k tree)) + 1"

definition extent_pool :: "region_tree \<Rightarrow> nat \<Rightarrow> nat" where
  "extent_pool tree k = the (GetPoolFromMemoryRegionType (r_type_id (hd (regions_of k tree))))"

lemma pool_bound: "GetPoolFromMemoryRegionType t = Some p \<Longrightarrow> p < PoolCount"
  by (auto simp: GetPoolFromMemoryRegionType_def PoolCount_def split: if_splits)

lemma region_arith:
  assumes "region_ok r"
  shows "region_GetEndAddress r = r_last_address r + 1" "region_GetSize r = r_last_address r + 1 - r_address r"
proof -
  show e: "region_GetEndAddress r = r_last_address r + 1"
    using assms by (simp add: region_GetEndAddress_def region_ok_def add64_eq)
  show "region_GetSize r = r_last_address r + 1 - r_address r"
    unfolding region_GetSize_def e using assms by (intro sub64_eq) (auto simp: region_ok_def)
qed

lemma find_extent_more:
  assumes "a \<noteq> 0" "a < 2 ^ 44" "\<forall>r\<in>set (regions_of k tree). region_ok r \<and> a \<le> r_last_address r"
  shows "find_extent k tree (a, sz, p) =
    Some (a, (if regions_of k tree = [] then sz else chain_end a (regions_of k tree) - a), p)"
  using assms(3)
proof (induction tree arbitrary: sz)
  case (Cons r tree)
  show ?case
  proof (cases "user_region r \<and> r_attributes r = k")
    case True
    then have rs: "regions_of k (r # tree) = r # regions_of k tree" by (simp add: regions_of_def)
    then have r: "region_ok r" "a \<le> r_last_address r" using Cons.prems by auto
    have "sub64 (region_GetEndAddress r) a = r_last_address r + 1 - a"
      unfolding region_arith(1) [OF r(1)] using r by (intro sub64_eq) (auto simp: region_ok_def)
    with True assms(1) Cons.IH Cons.prems rs show ?thesis
      by (simp add: user_region_def chain_end_def)
  next
    case False
    then have "regions_of k (r # tree) = regions_of k tree" by (auto simp: regions_of_def)
    with False Cons.IH Cons.prems show ?thesis by (simp add: user_region_def)
  qed
qed (simp add: regions_of_def)

lemma find_extent_none: "regions_of k tree = [] \<Longrightarrow> find_extent k tree acc = Some acc"
proof (induction tree arbitrary: acc)
  case (Cons r tree)
  then have "\<not> (user_region r \<and> r_attributes r = k)" "regions_of k tree = []"
    by (auto simp: regions_of_def split: if_splits)
  with Cons.IH show ?case by (cases acc) (auto simp: user_region_def)
qed simp

lemma chained_last: "chained a rs \<Longrightarrow> \<forall>r\<in>set rs. r_address r \<le> r_last_address r \<Longrightarrow> r \<in> set rs \<Longrightarrow> a \<le> r_address r"
proof (induction rs arbitrary: a)
  case (Cons x rs)
  then show ?case using Cons.IH [of "r_last_address x + 1"] by fastforce
qed simp

lemma find_extent_found:
  assumes rs: "regions_of k tree \<noteq> []" "chained (extent_start tree k) (regions_of k tree)"
    and ok: "\<forall>r\<in>set (regions_of k tree). region_ok r" and pool: "GetPoolFromMemoryRegionType (r_type_id (hd (regions_of k tree))) = Some p"
  shows "find_extent k tree (0, 0, q) = Some (extent_start tree k, extent_end tree k - extent_start tree k, p)"
  using assms
proof (induction tree)
  case (Cons r tree)
  show ?case
  proof (cases "user_region r \<and> r_attributes r = k")
    case True
    then have rs: "regions_of k (r # tree) = r # regions_of k tree" by (simp add: regions_of_def)
    have s: "extent_start (r # tree) k = r_address r" by (simp add: extent_start_def rs)
    have r: "region_ok r" using Cons.prems(3) rs by simp
    have le: "\<forall>x\<in>set (regions_of k tree). region_ok x \<and> r_address r \<le> r_last_address x"
    proof
      fix x assume x: "x \<in> set (regions_of k tree)"
      have ok: "\<forall>x\<in>set (regions_of k tree). r_address x \<le> r_last_address x"
        using Cons.prems(3) rs by (auto simp: region_ok_def)
      have "chained (r_last_address r + 1) (regions_of k tree)" using Cons.prems(2) rs s by simp
      from chained_last [OF this ok x] show "region_ok x \<and> r_address r \<le> r_last_address x"
        using Cons.prems(3) rs x r bspec [OF ok x] by (auto simp: region_ok_def)
    qed
    have ra: "r_address r \<noteq> 0" "r_address r < 2 ^ 44" using r by (auto simp: region_ok_def)
    have "find_extent k (r # tree) (0, 0, q) = find_extent k tree (r_address r, region_GetSize r, p)"
      using True Cons.prems(4) rs by (simp add: user_region_def)
    also have "\<dots> = Some (r_address r, (if regions_of k tree = [] then region_GetSize r
        else chain_end (r_address r) (regions_of k tree) - r_address r), p)"
      by (rule find_extent_more [OF ra le])
    finally show ?thesis
      unfolding s region_arith(2) [OF r] by (simp add: extent_end_def rs chain_end_def)
  next
    case False
    then have e: "regions_of k (r # tree) = regions_of k tree" by (auto simp: regions_of_def)
    have "find_extent k (r # tree) (0, 0, q) = find_extent k tree (0, 0, q)" using False by (auto simp: user_region_def)
    with Cons.IH Cons.prems show ?thesis unfolding extent_start_def extent_end_def e by simp
  qed
qed (simp add: regions_of_def)

subsection \<open>Finding the manager of an address\<close>

lemma chained_covers:
  assumes "chained a rs" "rs \<noteq> []" "a \<le> x" "x < chain_end a rs"
  shows "\<exists>r\<in>set rs. r_address r \<le> x \<and> x \<le> r_last_address r"
  using assms
proof (induction rs arbitrary: a)
  case (Cons r rs)
  show ?case
  proof (cases "x \<le> r_last_address r")
    case True
    with Cons.prems show ?thesis by auto
  next
    case False
    then have "rs \<noteq> []" using Cons.prems(4) by (auto simp: chain_end_def)
    moreover have "x < chain_end (r_last_address r + 1) rs" using Cons.prems(4) \<open>rs \<noteq> []\<close> by (simp add: chain_end_def)
    ultimately show ?thesis using Cons.IH [of "r_last_address r + 1"] Cons.prems False by auto
  qed
qed simp

abbreviation ordered :: "region_tree \<Rightarrow> bool" where
  "ordered \<equiv> sorted_wrt (\<lambda>a b. r_last_address a < r_address b)"

lemma tree_insert_last:
  "\<forall>n\<in>set tree. r_address n \<le> r_last_address n \<and> r_last_address n < r_address r \<Longrightarrow> tree_insert r tree = tree @ [r]"
  by (induction tree) (auto simp: region_Compare_def)

lemma linear_tree:
  assumes "ordered tree" "\<forall>r\<in>set tree. r_address r \<le> r_last_address r"
  shows "InitializeLinearMemoryRegionTree tree =
    map (r_pair_address_update (\<lambda>_. 2 ^ 64 - 1)) (filter (\<lambda>r. HasTypeAttribute r KMemoryRegionAttr_LinearMapped) tree)"
  using assms
proof (induction tree rule: rev_induct)
  case (snoc r tree)
  let ?L = "map (r_pair_address_update (\<lambda>_. 2 ^ 64 - 1)) (filter (\<lambda>r. HasTypeAttribute r KMemoryRegionAttr_LinearMapped) tree)"
  have IH: "InitializeLinearMemoryRegionTree tree = ?L" using snoc by (simp add: sorted_wrt_append)
  have lt: "\<forall>n\<in>set ?L. r_address n \<le> r_last_address n \<and> r_last_address n < r_address r"
    using snoc.prems by (auto simp: sorted_wrt_append)
  have r: "\<lparr>r_address = r_address r, r_last_address = r_last_address r, r_pair_address = 2 ^ 64 - 1,
      r_attributes = r_attributes r, r_type_id = r_type_id r\<rparr> = r_pair_address_update (\<lambda>_. 2 ^ 64 - 1) r"
    by (cases r) simp
  have ins: "InsertDirectly (r_address r) (r_last_address r) (r_attributes r) (r_type_id r) ?L =
      ?L @ [r_pair_address_update (\<lambda>_. 2 ^ 64 - 1) r]"
    unfolding InsertDirectly_def r using lt by (intro tree_insert_last) simp
  have "InitializeLinearMemoryRegionTree (tree @ [r]) =
      (if HasTypeAttribute r KMemoryRegionAttr_LinearMapped
       then InsertDirectly (r_address r) (r_last_address r) (r_attributes r) (r_type_id r) (InitializeLinearMemoryRegionTree tree)
       else InitializeLinearMemoryRegionTree tree)"
    by (simp add: InitializeLinearMemoryRegionTree_def)
  then show ?case unfolding IH ins by simp
qed (simp add: InitializeLinearMemoryRegionTree_def)

lemma region_Find_unique:
  assumes "ordered tree" "r \<in> set tree" "r_address r \<le> a" "a \<le> r_last_address r"
    "\<forall>r\<in>set tree. r_address r \<le> r_last_address r"
  shows "region_Find a tree = Some r"
  using assms
proof (induction tree)
  case (Cons x tree)
  show ?case
  proof (cases "r = x")
    case True
    with Cons.prems show ?thesis by (simp add: region_Find_def region_Compare_def probe_def)
  next
    case False
    with Cons.prems have "r_last_address x < a" by auto
    with False Cons show ?thesis by (simp add: region_Find_def region_Compare_def probe_def)
  qed
qed simp

lemma user_region_linear: "user_region r \<Longrightarrow> HasTypeAttribute r KMemoryRegionAttr_LinearMapped"
proof -
  have U: "KMemoryRegionType_DramUserPool OR KMemoryRegionAttr_LinearMapped = KMemoryRegionType_DramUserPool"
    by (simp add: KMemoryRegionType_DramUserPool_def KMemoryRegionAttr_LinearMapped_def KMemoryRegionAttr_NoUserMap_def)
  assume "user_region r"
  then have "r_type_id r OR KMemoryRegionType_DramUserPool = r_type_id r" by (simp add: user_region_def IsDerivedFrom_def)
  then show ?thesis unfolding HasTypeAttribute_def by (metis U or.assoc)
qed

lemma layoutD:
  assumes "layout_ok n tree"
  shows "n \<le> MaxManagerCount" "ordered tree" "\<And>r. r \<in> set tree \<Longrightarrow> r_address r \<le> r_last_address r"
    "\<And>r. r \<in> set tree \<Longrightarrow> user_region r \<Longrightarrow> r_attributes r < n \<and> region_ok r"
    "\<And>k. k < n \<Longrightarrow> regions_of k tree \<noteq> []" "\<And>k. k < n \<Longrightarrow> chained (extent_start tree k) (regions_of k tree)"
    "\<And>k. k < n \<Longrightarrow> extent_end tree k \<le> extent_start tree k + 2 ^ 35"
    "\<And>k. k < n \<Longrightarrow> GetPoolFromMemoryRegionType (r_type_id (hd (regions_of k tree))) = Some (extent_pool tree k)"
  using assms by (auto simp: layout_ok_def extent_start_def extent_end_def extent_pool_def)

lemma regions_of_ok: "layout_ok n tree \<Longrightarrow> r \<in> set (regions_of k tree) \<Longrightarrow> region_ok r \<and> r \<in> set tree \<and> user_region r \<and> r_attributes r = k"
  using layoutD(4) by (auto simp: regions_of_def)

lemma find_manager:
  assumes l: "layout_ok n tree" and k: "k < n" and a: "extent_start tree k \<le> a" "a < extent_end tree k"
    and mm: "mm_linear_tree mm = InitializeLinearMemoryRegionTree tree" "length (mm_managers mm) = MaxManagerCount"
  shows "GetManager a mm = Some k"
proof -
  have "a < chain_end (extent_start tree k) (regions_of k tree)"
    using a(2) layoutD(5) [OF l k] by (simp add: extent_end_def chain_end_def)
  then obtain r where r: "r \<in> set (regions_of k tree)" "r_address r \<le> a" "a \<le> r_last_address r"
    using chained_covers [OF layoutD(6,5) [OF l k] a(1)] by blast
  note R = regions_of_ok [OF l r(1)]
  let ?f = "r_pair_address_update (\<lambda>_. 2 ^ 64 - 1)"
  let ?L = "map ?f (filter (\<lambda>r. HasTypeAttribute r KMemoryRegionAttr_LinearMapped) tree)"
  have L: "mm_linear_tree mm = ?L" using linear_tree [OF layoutD(2) [OF l]] layoutD(3) [OF l] mm(1) by simp
  have "region_Find a ?L = Some (?f r)"
  proof (rule region_Find_unique)
    show "ordered ?L" using layoutD(2) [OF l] by (simp add: sorted_wrt_map sorted_wrt_filter)
    show "?f r \<in> set ?L" using R user_region_linear by auto
    show "\<forall>r\<in>set ?L. r_address r \<le> r_last_address r" using layoutD(3) [OF l] by auto
  qed (use r in simp_all)
  with L R mm(2) k layoutD(1) [OF l] show ?thesis by (simp add: GetManager_def)
qed

section \<open>The lists of managers\<close>

primrec list_at :: "(nat \<Rightarrow> nat option) \<Rightarrow> nat option \<Rightarrow> nat list \<Rightarrow> bool" where
  "list_at f c [] \<longleftrightarrow> c = None"
| "list_at f c (m # ms) \<longleftrightarrow> c = Some m \<and> list_at f (f m) ms"

lemma walk_list_at:
  "list_at (\<lambda>m. GetNextManager m dir mm) c ms \<Longrightarrow> length ms \<le> fuel \<Longrightarrow> walk_managers fuel c dir mm = Some ms"
proof (induction ms arbitrary: fuel c)
  case (Cons m ms)
  then obtain n where "fuel = Suc n" by (cases fuel) auto
  with Cons show ?case by auto
qed simp

lemma list_at_cong: "(\<And>m. m \<in> set ms \<Longrightarrow> f m = g m) \<Longrightarrow> list_at f c ms = list_at g c ms"
  by (induction ms arbitrary: c) simp_all

lemma list_at_snoc:
  assumes "list_at f c (ms @ [t])" "distinct (ms @ [t])" "\<And>m. m \<in> set ms \<Longrightarrow> g m = f m" "g t = Some k" "g k = None"
  shows "list_at g c (ms @ [t, k])"
  using assms by (induction ms arbitrary: c) auto

text \<open>The managers of a pool among the first \<open>k\<close>.\<close>

definition pool_list :: "region_tree \<Rightarrow> nat \<Rightarrow> nat \<Rightarrow> nat list" where
  "pool_list tree pool k = filter (\<lambda>j. extent_pool tree j = pool) [0..<k]"

lemma pool_list_Suc: "pool_list tree pool (Suc k) = pool_list tree pool k @ (if extent_pool tree k = pool then [k] else [])"
  by (simp add: pool_list_def)

lemma pool_list_props: "distinct (pool_list tree pool k)" "set (pool_list tree pool k) = {j. j < k \<and> extent_pool tree j = pool}"
  "length (pool_list tree pool k) \<le> k"
  by (auto simp: pool_list_def intro: order_trans [OF length_filter_le])

definition links_ok :: "region_tree \<Rightarrow> nat \<Rightarrow> KMemoryManager \<Rightarrow> bool" where
  "links_ok tree k mm \<longleftrightarrow> length (mm_pool_managers_head mm) = MaxManagerCount \<and>
     length (mm_pool_managers_tail mm) = MaxManagerCount \<and> length (mm_managers mm) = MaxManagerCount \<and>
     (\<forall>j. k \<le> j \<longrightarrow> j < MaxManagerCount \<longrightarrow> im_next (mm_managers mm ! j) = None \<and> im_prev (mm_managers mm ! j) = None) \<and>
     (\<forall>pool<PoolCount.
        list_at (\<lambda>m. im_next (mm_managers mm ! m)) (mm_pool_managers_head mm ! pool) (pool_list tree pool k) \<and>
        list_at (\<lambda>m. im_prev (mm_managers mm ! m)) (mm_pool_managers_tail mm ! pool) (rev (pool_list tree pool k)))"

lemma append_manager_links:
  assumes ok: "links_ok tree k mm" and k: "k < MaxManagerCount" and pool: "pool = extent_pool tree k" "pool < PoolCount"
  shows "links_ok tree (Suc k) (append_manager pool k mm)"
proof -
  let ?mm = "append_manager pool k mm"
  let ?L = "pool_list tree pool k"
  note L = pool_list_props [of tree _ k]
  have len: "length (mm_pool_managers_head mm) = MaxManagerCount" "length (mm_pool_managers_tail mm) = MaxManagerCount"
    "length (mm_managers mm) = MaxManagerCount" using ok by (simp_all add: links_ok_def)
  have p10: "pool < MaxManagerCount" using pool(2) by (simp add: PoolCount_def MaxManagerCount_def)
  have fresh: "\<And>j. k \<le> j \<Longrightarrow> j < MaxManagerCount \<Longrightarrow> im_next (mm_managers mm ! j) = None \<and> im_prev (mm_managers mm ! j) = None"
    using ok by (simp add: links_ok_def)
  have lk: "\<And>q. q < PoolCount \<Longrightarrow> list_at (\<lambda>m. im_next (mm_managers mm ! m)) (mm_pool_managers_head mm ! q) (pool_list tree q k)"
    "\<And>q. q < PoolCount \<Longrightarrow> list_at (\<lambda>m. im_prev (mm_managers mm ! m)) (mm_pool_managers_tail mm ! q) (rev (pool_list tree q k))"
    using ok by (simp_all add: links_ok_def)
  show ?thesis
  proof (cases "rev ?L")
    case Nil
    then have e: "?L = []" by simp
    then have t: "mm_pool_managers_tail mm ! pool = None" using lk(2) [OF pool(2)] by simp
    then have mm': "?mm = mm\<lparr>mm_pool_managers_head := (mm_pool_managers_head mm)[pool := Some k],
        mm_pool_managers_tail := (mm_pool_managers_tail mm)[pool := Some k]\<rparr>" by (simp add: append_manager_def)
    have "list_at (\<lambda>m. im_next (mm_managers ?mm ! m)) (mm_pool_managers_head ?mm ! q) (pool_list tree q (Suc k)) \<and>
        list_at (\<lambda>m. im_prev (mm_managers ?mm ! m)) (mm_pool_managers_tail ?mm ! q) (rev (pool_list tree q (Suc k)))"
      if "q < PoolCount" for q
      unfolding mm' using lk [OF that] e fresh [OF order_refl k] pool(1) len p10
      by (cases "q = pool") (auto simp: pool_list_Suc)
    then show ?thesis using len fresh by (simp add: links_ok_def mm')
  next
    case (Cons t ts)
    then have e: "?L = rev ts @ [t]" by (metis rev.simps(2) rev_rev_ident)
    have tk: "t < k" "extent_pool tree t = pool" using L(2) [of pool] e by auto
    then have t10: "t < MaxManagerCount" using k by simp
    have t: "mm_pool_managers_tail mm ! pool = Some t" using lk(2) [OF pool(2)] Cons by simp
    define ms where "ms = (mm_managers mm)[t := (mm_managers mm ! t)\<lparr>im_next := Some k\<rparr>,
      k := (mm_managers mm ! k)\<lparr>im_prev := Some t\<rparr>]"
    have mm': "?mm = mm\<lparr>mm_managers := ms, mm_pool_managers_tail := (mm_pool_managers_tail mm)[pool := Some k]\<rparr>"
      using t tk by (simp add: append_manager_def upd_manager_def ms_def)
    have nx: "im_next (ms ! j) = (if j = t then Some k else im_next (mm_managers mm ! j))"
      "im_prev (ms ! j) = (if j = k then Some t else im_prev (mm_managers mm ! j))" if "j < MaxManagerCount" for j
      using len k t10 tk(1) that by (auto simp: ms_def nth_list_update)
    have main: "list_at (\<lambda>m. im_next (ms ! m)) (mm_pool_managers_head mm ! pool) (?L @ [k])"
      unfolding e append_assoc append_Cons append_Nil
    proof (rule list_at_snoc [OF lk(1) [OF pool(2), unfolded e]])
      show "distinct (rev ts @ [t])" using L(1) [of pool] unfolding e .
      show "im_next (ms ! m) = im_next (mm_managers mm ! m)" if "m \<in> set (rev ts)" for m
      proof -
        have "m \<in> set ?L" "m \<noteq> t" using that L(1) [of pool] unfolding e by auto
        then show ?thesis using nx(1) [of m] L(2) [of pool] k by simp
      qed
    qed (use nx(1) [OF t10] nx(1) [OF k] fresh [OF order_refl k] tk in simp_all)
    have same: "list_at (\<lambda>m. im_prev (ms ! m)) c (rev (pool_list tree q k)) = list_at (\<lambda>m. im_prev (mm_managers mm ! m)) c (rev (pool_list tree q k))" for c q
      by (rule list_at_cong) (use nx(2) L(2) [of q] k in auto)
    have other: "list_at (\<lambda>m. im_next (ms ! m)) c (pool_list tree q k) = list_at (\<lambda>m. im_next (mm_managers mm ! m)) c (pool_list tree q k)"
      if "q \<noteq> pool" for c q
      by (rule list_at_cong) (use nx(1) L(2) [of q] k tk(2) that in auto)
    have "list_at (\<lambda>m. im_next (mm_managers ?mm ! m)) (mm_pool_managers_head ?mm ! q) (pool_list tree q (Suc k)) \<and>
        list_at (\<lambda>m. im_prev (mm_managers ?mm ! m)) (mm_pool_managers_tail ?mm ! q) (rev (pool_list tree q (Suc k)))"
      if q: "q < PoolCount" for q
    proof (cases "q = pool")
      case True
      have "list_at (\<lambda>m. im_prev (ms ! m)) (Some t) (rev ?L)" unfolding same using lk(2) [OF pool(2)] t by simp
      with True main pool(1) nx(2) [OF k] len p10 show ?thesis unfolding mm' by (simp add: pool_list_Suc)
    next
      case False
      then show ?thesis unfolding mm' using lk [OF q] same other [OF False] pool(1) by (simp add: pool_list_Suc)
    qed
    moreover have "length ms = MaxManagerCount" using len by (simp add: ms_def)
    ultimately show ?thesis using len fresh nx tk(1) unfolding links_ok_def by (simp add: mm')
  qed
qed

lemma links_pool_managers:
  assumes ok: "links_ok tree n mm" and n: "n \<le> MaxManagerCount" and pool: "pool < PoolCount"
  shows "pool_managers pool dir mm = Some (if dir = FromBack then rev (pool_list tree pool n) else pool_list tree pool n)"
proof -
  have "length (pool_list tree pool n) \<le> MaxManagerCount" using pool_list_props(3) [of tree pool n] n by simp
  then show ?thesis
    unfolding pool_managers_def using ok pool
    by (intro walk_list_at) (auto simp: links_ok_def GetFirstManager_def GetNextManager_def)
qed

section \<open>The managers after the first loop\<close>

definition extent_size :: "region_tree \<Rightarrow> nat \<Rightarrow> nat" where
  "extent_size tree k = extent_end tree k - extent_start tree k"

lemma extentD:
  assumes l: "layout_ok n tree" and k: "k < n"
  shows "extent_start tree k < extent_end tree k" "good_extent (extent_start tree k) (extent_size tree k)"
    "extent_end tree k < 2 ^ 44" "extent_end tree k mod PageSize = 0" "extent_pool tree k < PoolCount"
    "extent_start tree k + extent_size tree k = extent_end tree k"
    "find_extent k tree (0, 0, q) = Some (extent_start tree k, extent_size tree k, extent_pool tree k)"
proof -
  let ?rs = "regions_of k tree"
  note D = layoutD(5-8) [OF l k]
  have ok: "\<forall>r\<in>set ?rs. region_ok r" using regions_of_ok [OF l] by blast
  have h: "hd ?rs \<in> set ?rs" "last ?rs \<in> set ?rs" using D(1) by simp_all
  have "extent_start tree k \<le> r_address (last ?rs)"
    using chained_last [OF D(2) _ h(2)] ok by (auto simp: region_ok_def)
  then show lt: "extent_start tree k < extent_end tree k"
    using ok h(2) by (auto simp: extent_end_def region_ok_def)
  show e44: "extent_end tree k < 2 ^ 44" and em: "extent_end tree k mod PageSize = 0"
    using ok h(2) by (auto simp: extent_end_def region_ok_def)
  have s: "extent_start tree k mod PageSize = 0" "2 ^ 30 \<le> extent_start tree k"
    using ok h(1) by (auto simp: extent_start_def region_ok_def)
  show "extent_start tree k + extent_size tree k = extent_end tree k" using lt by (simp add: extent_size_def)
  have "extent_size tree k mod PageSize = 0"
    unfolding extent_size_def using s(1) em by (simp add: mod_eq_0_iff_dvd dvd_diff_nat)
  then show "good_extent (extent_start tree k) (extent_size tree k)"
    using s lt D(3) e44 by (simp add: good_extent_def extent_size_def)
  show "extent_pool tree k < PoolCount" by (rule pool_bound [OF D(4)])
  show "find_extent k tree (0, 0, q) = Some (extent_start tree k, extent_size tree k, extent_pool tree k)"
    unfolding extent_size_def by (rule find_extent_found [OF D(1,2) ok D(4)])
qed

definition fresh_impl :: "region_tree \<Rightarrow> nat \<Rightarrow> u32 \<Rightarrow> nat \<Rightarrow> Impl \<Rightarrow> bool" where
  "fresh_impl tree intended seed j im \<longleftrightarrow>
     im_heap im = heap_Initialize (extent_start tree j) (extent_size tree j)
       (heap_CalculateManagementOverheadSize (extent_size tree j)) (new_KPageHeap seed) \<and>
     im_page_reference_counts im = replicate (intended div PageSize) 0 \<and> im_pool im = extent_pool tree j \<and>
     im_optimize_map im = replicate (CalculateOptimizedProcessOverheadSize (extent_size tree j) div 8) 0"

lemma fresh_impl_view:
  assumes l: "layout_ok n tree" and j: "j < n" and sz: "extent_size tree j \<le> intended" and f: "fresh_impl tree intended seed j im"
  shows "impl_ok im" "im_pages im = {extent_start tree j div PageSize..<extent_end tree j div PageSize}"
    "\<And>p. p \<in> im_pages im \<Longrightarrow> im_view im p = \<lparr>pv_free = False, pv_refs = 0, pv_tracked = False\<rparr>"
proof -
  note E = extentD [OF l j]
  let ?n = "extent_size tree j div PageSize"
  have h: "im_heap im = heap_Initialize (extent_start tree j) (extent_size tree j)
      (heap_CalculateManagementOverheadSize (extent_size tree j)) (new_KPageHeap seed)"
    and c: "im_page_reference_counts im = replicate (intended div PageSize) 0"
    and m: "im_optimize_map im = replicate (CalculateOptimizedProcessOverheadSize (extent_size tree j) div 8) 0"
    using f by (simp_all add: fresh_impl_def)
  note H = heap_Initialize_spec [OF E(2) order_refl h]
  have a: "m_heap_address (im_heap im) = extent_start tree j" "m_heap_size (im_heap im) = extent_size tree j"
    using H(3,4) by simp_all
  show pg: "im_pages im = {extent_start tree j div PageSize..<extent_end tree j div PageSize}"
    using a E(6) by (simp add: im_pages_def heap_pages_def)
  have nc: "?n \<le> intended div PageSize" using sz by (rule div_le_mono)
  have "?n + 64 < 2 ^ 64" using E(3) by (simp add: extent_size_def PageSize_def)
  then have nm: "?n \<le> 64 * (CalculateOptimizedProcessOverheadSize (extent_size tree j) div 8)"
    using AlignUp_bounds [of 64 ?n] by (auto simp: CalculateOptimizedProcessOverheadSize_def)
  have b: "base_page im = extent_start tree j div PageSize" using a by (simp add: base_page_def)
  have off: "p - base_page im < ?n" if "p \<in> im_pages im" for p
  proof -
    have "extent_end tree j = extent_size tree j + extent_start tree j div PageSize * PageSize"
      using E(2,6) by (auto simp: good_extent_def)
    then have "extent_end tree j div PageSize = ?n + extent_start tree j div PageSize" by simp
    then show ?thesis using that unfolding pg b by auto
  qed
  have view: "im_view im p = \<lparr>pv_free = False, pv_refs = 0, pv_tracked = False\<rparr>" if "p \<in> im_pages im" for p
  proof -
    have o: "p - base_page im < intended div PageSize"
      "(p - base_page im) div 64 < CalculateOptimizedProcessOverheadSize (extent_size tree j) div 8"
      using off [OF that] nc nm by (auto intro: less_mult_imp_div_less simp: mult.commute)
    with H(2) show ?thesis by (simp add: im_view_def c m tracked_bit_def)
  qed
  then show "\<And>p. p \<in> im_pages im \<Longrightarrow> im_view im p = \<lparr>pv_free = False, pv_refs = 0, pv_tracked = False\<rparr>" .
  show "impl_ok im"
    unfolding impl_ok_def a heap_GetEndAddress_def c m E(6)
    using H(1) E(2,3) nc nm view by (simp add: good_extent_def)
qed

definition init_inv :: "region_tree \<Rightarrow> nat \<Rightarrow> u32 \<Rightarrow> nat \<Rightarrow> KMemoryManager \<Rightarrow> bool" where
  "init_inv tree intended seed k mm \<longleftrightarrow> links_ok tree k mm \<and> mm_num_managers mm = k \<and> mm_physical_tree mm = tree \<and>
     mm_linear_tree mm = InitializeLinearMemoryRegionTree tree \<and>
     mm_has_optimized_process mm = replicate PoolCount False \<and> mm_optimized_process_ids mm = replicate PoolCount 0 \<and>
     mm_dram mm = (\<lambda>_. 0) \<and> (\<forall>j<k. fresh_impl tree intended seed j (mm_managers mm ! j)) \<and>
     (\<forall>j. k \<le> j \<longrightarrow> j < MaxManagerCount \<longrightarrow> mm_managers mm ! j = new_Impl seed)"

lemma init_step:
  assumes l: "layout_ok n tree" and k: "k < n" and inv: "init_inv tree intended seed k mm"
    and im: "im_Initialize intended (extent_start tree k) (extent_size tree k) mgmt (extent_pool tree k) (mm_managers mm ! k) = (sz, im)"
    and mm1: "mm1 = mm\<lparr>mm_num_managers := k + 1, mm_managers := (mm_managers mm)[k := im]\<rparr>"
  shows "init_inv tree intended seed (Suc k) (append_manager (extent_pool tree k) k mm1)"
proof -
  have k10: "k < MaxManagerCount" using k layoutD(1) [OF l] by simp
  have lk: "links_ok tree k mm" and num: "mm_num_managers mm = k" and fr: "\<forall>j<k. fresh_impl tree intended seed j (mm_managers mm ! j)"
    and nw: "\<And>j. k \<le> j \<Longrightarrow> j < MaxManagerCount \<Longrightarrow> mm_managers mm ! j = new_Impl seed"
    using inv by (simp_all add: init_inv_def)
  have len: "length (mm_managers mm) = MaxManagerCount" using lk by (simp add: links_ok_def)
  have imk: "fresh_impl tree intended seed k im" "im_next im = None" "im_prev im = None"
    using im nw [OF order_refl k10] by (auto simp: im_Initialize_def new_Impl_def fresh_impl_def Let_def)
  have nxt: "im_next (mm_managers mm1 ! j) = im_next (mm_managers mm ! j)" "im_prev (mm_managers mm1 ! j) = im_prev (mm_managers mm ! j)" for j
    using imk(2,3) nw [OF order_refl k10] len k10 by (cases "j = k"; simp add: mm1 new_Impl_def)+
  have lk1: "links_ok tree k mm1" using lk nxt by (simp add: links_ok_def mm1)
  let ?mm = "append_manager (extent_pool tree k) k mm1"
  have links: "links_ok tree (Suc k) ?mm" by (rule append_manager_links [OF lk1 k10 refl extentD(5) [OF l k]])
  have t: "t < k" if "mm_pool_managers_tail mm1 ! extent_pool tree k = Some t" for t
    using lk1 extentD(5) [OF l k] that pool_list_props(2) [of tree "extent_pool tree k" k]
    by (cases "rev (pool_list tree (extent_pool tree k) k)") (fastforce simp: links_ok_def)+
  have keep: "fresh_impl tree intended seed i (mm_managers ?mm ! j) = fresh_impl tree intended seed i (mm_managers mm1 ! j) \<and>
      (k < j \<longrightarrow> mm_managers ?mm ! j = mm_managers mm1 ! j)" if "j < MaxManagerCount" for i j
  proof (cases "mm_pool_managers_tail mm1 ! extent_pool tree k")
    case None
    then show ?thesis by (simp add: append_manager_def)
  next
    case (Some u)
    let ?ms = "mm_managers mm1"
    have u: "u < k" by (rule t [OF Some])
    have "mm_managers ?mm = ?ms[u := (?ms ! u)\<lparr>im_next := Some k\<rparr>, k := (?ms ! k)\<lparr>im_prev := Some u\<rparr>]"
      using Some u by (simp add: append_manager_def upd_manager_def)
    moreover have "length ?ms = MaxManagerCount" using len by (simp add: mm1)
    ultimately have "mm_managers ?mm ! j =
        (if j = k then (?ms ! k)\<lparr>im_prev := Some u\<rparr> else if j = u then (?ms ! u)\<lparr>im_next := Some k\<rparr> else ?ms ! j)"
      using that by (simp add: nth_list_update)
    then show ?thesis using u by (simp add: fresh_impl_def)
  qed
  have "fresh_impl tree intended seed j (mm_managers ?mm ! j)" if "j < Suc k" for j
    using keep [of j j] that k10 fr imk(1) len by (auto simp: mm1 nth_list_update less_Suc_eq)
  moreover have "mm_managers ?mm ! j = new_Impl seed" if "Suc k \<le> j" "j < MaxManagerCount" for j
    using keep [of j] that nw [of j] by (auto simp: mm1)
  moreover have "mm_num_managers ?mm = Suc k" "mm_physical_tree ?mm = mm_physical_tree mm" "mm_linear_tree ?mm = mm_linear_tree mm"
    "mm_has_optimized_process ?mm = mm_has_optimized_process mm" "mm_optimized_process_ids ?mm = mm_optimized_process_ids mm"
    "mm_dram ?mm = mm_dram mm"
    by (simp_all add: append_manager_def upd_manager_def mm1 split: option.split)
  ultimately show ?thesis using links inv by (simp add: init_inv_def)
qed

lemma init_managers_spec:
  assumes l: "layout_ok n tree"
  shows "init_inv tree intended seed k mm \<Longrightarrow> k \<le> n \<Longrightarrow> fuel + k = MaxManagerCount \<Longrightarrow>
    \<exists>mm'. init_managers fuel intended mgmt mm = Some mm' \<and> init_inv tree intended seed n mm'"
proof (induction fuel arbitrary: k mm mgmt)
  case 0
  then show ?case using layoutD(1) [OF l] by auto
next
  case (Suc fuel)
  have num: "mm_num_managers mm = k" "mm_physical_tree mm = tree" using Suc.prems(1) by (simp_all add: init_inv_def)
  show ?case
  proof (cases "k < n")
    case False
    then have k: "k = n" using Suc.prems(2) by simp
    have "regions_of n tree = []" using layoutD(4) [OF l] by (auto simp: regions_of_def filter_empty_conv)
    from find_extent_none [OF this] have "init_managers (Suc fuel) intended mgmt mm = Some mm" by (simp add: num k)
    with Suc.prems(1) k show ?thesis by blast
  next
    case True
    obtain sz im where im: "im_Initialize intended (extent_start tree k) (extent_size tree k) mgmt (extent_pool tree k) (mm_managers mm ! k) = (sz, im)"
      by fastforce
    note step = init_step [OF l True Suc.prems(1) im refl]
    have "extent_size tree k \<noteq> 0" using extentD(1) [OF l True] by (simp add: extent_size_def)
    then have "init_managers (Suc fuel) intended mgmt mm = init_managers fuel intended (mgmt + sz)
        (append_manager (extent_pool tree k) k (mm\<lparr>mm_num_managers := k + 1, mm_managers := (mm_managers mm)[k := im]\<rparr>))"
      by (simp add: num extentD(7) [OF l True] im)
    with Suc.IH [OF step] True Suc.prems(3) show ?thesis by simp
  qed
qed

lemma init_start:
  "init_inv tree intended seed 0
     ((new_KMemoryManager seed tree (InitializeLinearMemoryRegionTree tree))\<lparr>mm_num_managers := 0\<rparr>)"
  by (auto simp: init_inv_def new_KMemoryManager_def links_ok_def pool_list_def new_Impl_def PoolCount_def MaxManagerCount_def)

abbreviation no_view :: page_view where
  "no_view \<equiv> \<lparr>pv_free = False, pv_refs = 0, pv_tracked = False\<rparr>"

definition extent_pages :: "region_tree \<Rightarrow> nat \<Rightarrow> nat set" where
  "extent_pages tree k = {extent_start tree k div PageSize..<extent_end tree k div PageSize}"

lemma init_done:
  assumes l: "layout_ok n tree" and sz: "\<forall>k<n. extent_size tree k \<le> intended" and inv: "init_inv tree intended seed n mm"
  shows "mm_ok mm" "\<And>k. k < n \<Longrightarrow> im_pages (mm_managers mm ! k) = extent_pages tree k"
    "\<And>p. p \<in> mm_pages mm \<Longrightarrow> mm_view mm p = no_view"
proof -
  have I: "links_ok tree n mm" "mm_num_managers mm = n" "mm_linear_tree mm = InitializeLinearMemoryRegionTree tree"
    "\<And>j. j < n \<Longrightarrow> fresh_impl tree intended seed j (mm_managers mm ! j)" using inv by (simp_all add: init_inv_def)
  have len: "length (mm_managers mm) = MaxManagerCount" using I(1) by (simp add: links_ok_def)
  note F = fresh_impl_view [OF l _ sz [rule_format] I(4)]
  show pg: "im_pages (mm_managers mm ! k) = extent_pages tree k" if "k < n" for k
    using F(2) that by (simp add: extent_pages_def)
  have find: "GetManager (p * PageSize) mm = Some k" if "k < n" "p \<in> im_pages (mm_managers mm ! k)" for k p
  proof (rule find_manager [OF l that(1) _ _ I(3) len])
    note E = extentD [OF l that(1)]
    have p: "extent_start tree k div PageSize \<le> p" "p < extent_end tree k div PageSize"
      using that(2) unfolding pg [OF that(1)] extent_pages_def by auto
    have "extent_start tree k = extent_start tree k div PageSize * PageSize" "extent_end tree k = extent_end tree k div PageSize * PageSize"
      using E(2,4) by (auto simp: good_extent_def)
    then show "extent_start tree k \<le> p * PageSize" "p * PageSize < extent_end tree k"
      using p by (metis mult_le_mono1, metis mult_less_mono1 PageSize_pos(1))
  qed
  have pool: "im_pool (mm_managers mm ! k) = extent_pool tree k" if "k < n" for k using I(4) [OF that] by (simp add: fresh_impl_def)
  show ok: "mm_ok mm"
    unfolding mm_ok_def I(2)
  proof (intro conjI allI impI ballI)
    fix q dir assume "q < PoolCount"
    from links_pool_managers [OF I(1) layoutD(1) [OF l] this, of dir] pool_list_props [of tree q n] pool
    show "\<exists>ms. pool_managers q dir mm = Some ms \<and> distinct ms \<and> set ms = {m. m < n \<and> im_pool (mm_managers mm ! m) = q}"
      by auto
  qed (use inv len F(1) find layoutD(1) [OF l] in \<open>simp_all add: init_inv_def\<close>)
  show "mm_view mm p = no_view" if "p \<in> mm_pages mm" for p
    using that F(3) mm_view_in [OF ok] by (auto elim!: mm_pagesE simp: I(2))
qed

section \<open>Giving the pages to the heaps\<close>

definition region_pages :: "KMemoryRegion \<Rightarrow> nat set" where
  "region_pages r = {r_address r div PageSize..<(r_last_address r + 1) div PageSize}"

definition user_pages :: "region_tree \<Rightarrow> nat set" where
  "user_pages tree = (\<Union>r\<in>{r\<in>set tree. user_region r}. region_pages r)"

text \<open>The binary lies in one region or outside all of them.\<close>

definition binary_ok :: "nat \<Rightarrow> nat \<Rightarrow> region_tree \<Rightarrow> bool" where
  "binary_ok ini_start ini_size tree \<longleftrightarrow> 0 < ini_size \<and> ini_start mod PageSize = 0 \<and> ini_size mod PageSize = 0 \<and>
     (\<forall>r\<in>set tree. user_region r \<longrightarrow>
        r_address r \<le> ini_start \<and> ini_start + ini_size - 1 \<le> r_last_address r \<or>
        ini_start + ini_size \<le> r_address r \<or> r_last_address r < ini_start)"

definition binary_pages :: "nat \<Rightarrow> nat \<Rightarrow> nat set" where
  "binary_pages ini_start ini_size = {ini_start div PageSize..<(ini_start + ini_size) div PageSize}"

definition given :: "nat \<Rightarrow> nat \<Rightarrow> nat \<Rightarrow> page_view \<Rightarrow> page_view" where
  "given ini_start ini_size p v =
     (if p \<in> binary_pages ini_start ini_size then v\<lparr>pv_refs := Suc (pv_refs v)\<rparr> else v\<lparr>pv_free := True\<rparr>)"

lemma free_pages_between:
  assumes ok: "mm_ok mm" and m: "m < mm_num_managers mm" and S: "{s..<e} \<subseteq> im_pages (mm_managers mm ! m)" "s \<le> e"
    and v: "\<And>p. p \<in> {s..<e} \<Longrightarrow> unused (mm_view mm p)"
  shows "mm_acts (on_pages {s..<e} (pv_free_update (\<lambda>_. True))) mm
    (if s \<noteq> e then upd_manager m (im_Free (s * PageSize) (e - s)) mm else mm)"
proof (cases "s = e")
  case True
  with mm_acts_none [OF ok] show ?thesis by (auto simp: mm_acts_def)
next
  case False
  then show ?thesis using release.upd_acts [OF ok m, of s "e - s"] S v by simp
qed

lemma free_region_acts:
  assumes ok: "mm_ok mm" and r: "region_ok r" "user_region r" "r_attributes r < mm_num_managers mm"
    and S: "region_pages r \<subseteq> im_pages (mm_managers mm ! r_attributes r)" and ini: "binary_ok ia iz [r]"
    and v: "\<And>p. p \<in> region_pages r \<Longrightarrow> unused (mm_view mm p)"
  shows "\<exists>mm' rs'. free_region ia iz (mm, rs) r = (mm', rs') \<and>
    mm_acts (\<lambda>p v. if p \<in> region_pages r then given ia iz p v else v) mm mm'"
proof -
  define a b s e where "a = r_address r div PageSize" and "b = (r_last_address r + 1) div PageSize"
    and "s = ia div PageSize" and "e = (ia + iz) div PageSize"
  let ?k = "r_attributes r" let ?free = "pv_free_update (\<lambda>_. True)"
  have ini': "0 < iz" "ia mod PageSize = 0" "iz mod PageSize = 0" using ini by (auto simp: binary_ok_def)
  have al: "r_address r = a * PageSize" "r_last_address r + 1 = b * PageSize" "ia = s * PageSize" "ia + iz = e * PageSize"
    using r(1) ini' dvd_add [of PageSize ia iz] by (auto simp: region_ok_def a_def b_def s_def e_def mod_eq_0_iff_dvd simp del: div_add)
  have le: "x * PageSize \<le> y * PageSize \<longleftrightarrow> x \<le> y" "x * PageSize < y * PageSize \<longleftrightarrow> x < y" for x y by simp_all
  have "a * PageSize < b * PageSize" "s * PageSize < e * PageSize" using r(1) [unfolded region_ok_def] ini'(1) al by linarith+
  then have ab: "a < b" and se: "s < e" by simp_all
  have dv: "(x * PageSize - y * PageSize) div PageSize = x - y" for x y by (simp add: diff_mult_distrib [symmetric])
  have pg: "region_pages r = {a..<b}" "binary_pages ia iz = {s..<e}"
    by (simp_all add: region_pages_def binary_pages_def a_def b_def s_def e_def)
  have ends: "region_GetEndAddress r = b * PageSize" "region_GetSize r div PageSize = b - a"
    using region_arith [OF r(1)] al by (simp_all add: dv)
  show ?thesis
  proof (cases "a \<le> s \<and> e \<le> b")
    case True
    have inside: "r_address r \<le> ia \<and> ia + iz - 1 \<le> r_last_address r" using True al le(1) [of e b] le(1) [of a s] by linarith
    have eqs: "r_address r \<noteq> ia \<longleftrightarrow> a \<noteq> s" "ia + iz - 1 \<noteq> r_last_address r \<longleftrightarrow> e \<noteq> b"
      using al ini'(1) by (simp, metis Suc_eq_plus1 Suc_pred' add_gr_0 mult_right_cancel PageSize_pos(2) diff_add_inverse2 One_nat_def)
    define mm1 where "mm1 = (if a \<noteq> s then upd_manager ?k (im_Free (a * PageSize) (s - a)) mm else mm)"
    define mm2 where "mm2 = upd_manager ?k (im_OpenFirst (s * PageSize) (e - s)) mm1"
    define mm3 where "mm3 = (if e \<noteq> b then upd_manager ?k (im_Free (e * PageSize) (b - e)) mm2 else mm2)"
    have sub: "{a..<s} \<subseteq> {a..<b}" "{s..<e} \<subseteq> {a..<b}" "{e..<b} \<subseteq> {a..<b}" using True se by auto
    note S' = S [unfolded pg]
    have in_mm: "p \<in> mm_pages mm" if "p \<in> {a..<b}" for p using S' that r(3) by (auto simp: mm_pages_def)
    have a1: "mm_acts (on_pages {a..<s} ?free) mm mm1"
      unfolding mm1_def by (rule free_pages_between [OF ok r(3)]) (use True S' sub(1) v [unfolded pg] in auto)
    note A1 = mm_actsD [OF a1] mm_frameD [OF mm_actsD(2) [OF a1]]
    have a2: "mm_acts (on_pages {s..<e} (pv_refs_update Suc)) mm1 mm2"
      unfolding mm2_def using open_first.upd_acts [of mm1 ?k s "e - s"] A1 S' sub(2) se r(3) v [unfolded pg] in_mm
      by (auto simp: subset_iff)
    note A2 = mm_actsD [OF a2] mm_frameD [OF mm_actsD(2) [OF a2]]
    have a3: "mm_acts (on_pages {e..<b} ?free) mm2 mm3"
      unfolding mm3_def
    proof (rule free_pages_between [OF A2(1)])
      show "unused (mm_view mm2 p)" if "p \<in> {e..<b}" for p
        using that sub(3) v [unfolded pg, of p] in_mm [of p] A1(4) [of p] A1(5) A2(4) [of p] True se by auto
    qed (use True S' sub(3) A1 A2 r(3) in auto)
    have "mm_acts (\<lambda>p v. if p \<in> {a..<b} then given ia iz p v else v) mm mm3"
      by (rule mm_acts_cong [OF mm_acts_trans [OF mm_acts_trans [OF a1 a2] a3]])
        (use True se in \<open>auto simp: given_def pg\<close>)
    moreover have "iz div PageSize = e - s" "(ia - r_address r) div PageSize = s - a" "(b * PageSize - (ia + iz)) div PageSize = b - e"
      using dv al by (metis diff_add_inverse)+
    then have "fst (free_region ia iz (mm, rs) r) = mm3"
      using r(2) [unfolded user_region_def] inside unfolding mm3_def mm2_def mm1_def al(1) [symmetric] al(3) [symmetric] al(4) [symmetric]
      by (simp only: free_region_def Let_def prod.case eqs ends(1) simp_thms if_True if_False fst_conv)
    ultimately show ?thesis unfolding pg by (cases "free_region ia iz (mm, rs) r") simp
  next
    case False
    moreover have "r_address r \<le> ia \<and> ia + iz - 1 \<le> r_last_address r \<or> ia + iz \<le> r_address r \<or> r_last_address r < ia"
      using ini r(2) by (simp add: binary_ok_def)
    ultimately have out: "e \<le> a \<or> b \<le> s"
      using al ini'(1) le(1) [of a s] le(1) [of e b] le(1) [of e a] le(1) [of b s] by linarith
    have inside: "\<not> (r_address r \<le> ia \<and> ia + iz - 1 \<le> r_last_address r)" using False al le(1) [of e b] le(1) [of a s] ini'(1) by linarith
    have "mm_acts (on_pages {a..<b} ?free) mm (upd_manager ?k (im_Free (a * PageSize) (b - a)) mm)"
      using free_pages_between [OF ok r(3), of a b] S v pg ab by simp
    then have "mm_acts (\<lambda>p v. if p \<in> {a..<b} then given ia iz p v else v) mm (upd_manager ?k (im_Free (a * PageSize) (b - a)) mm)"
      by (rule mm_acts_cong) (use out in \<open>auto simp: given_def pg\<close>)
    moreover have "free_region ia iz (mm, rs) r = (upd_manager ?k (im_Free (a * PageSize) (b - a)) mm, rs)"
      using r(2) [unfolded user_region_def] inside unfolding al(1) [symmetric]
      by (simp only: free_region_def Let_def prod.case ends(2) simp_thms if_False)
    ultimately show ?thesis unfolding pg by blast
  qed
qed

lemma region_pages_disjoint:
  assumes "r_last_address r < r_address r'" "p \<in> region_pages r" "p \<in> region_pages r'"
  shows False
proof -
  have "(r_last_address r + 1) div PageSize \<le> r_address r' div PageSize" using assms(1) by (intro div_le_mono) simp
  with assms(2,3) show False by (simp add: region_pages_def)
qed

lemma user_pages_Cons [simp]:
  "user_pages (r # tree) = (if user_region r then region_pages r \<union> user_pages tree else user_pages tree)"
  by (auto simp: user_pages_def)

lemma free_regions_acts:
  assumes "mm_ok mm" "\<And>r. r \<in> set tree \<Longrightarrow> user_region r \<Longrightarrow> region_ok r \<and> r_attributes r < mm_num_managers mm \<and>
      region_pages r \<subseteq> im_pages (mm_managers mm ! r_attributes r)"
    and "ordered tree" "binary_ok ia iz tree" "\<And>p. p \<in> user_pages tree \<Longrightarrow> unused (mm_view mm p)"
  shows "\<exists>mm' rs'. free_regions ia iz tree (mm, rs) = Some (mm', rs') \<and>
    mm_acts (\<lambda>p v. if p \<in> user_pages tree then given ia iz p v else v) mm mm'"
  using assms
proof (induction tree arbitrary: mm rs)
  case Nil
  then show ?case using mm_acts_none by (simp add: user_pages_def)
next
  case (Cons r tree)
  have ini: "binary_ok ia iz tree" "binary_ok ia iz [r]" using Cons.prems(4) by (auto simp: binary_ok_def)
  show ?case
  proof (cases "user_region r")
    case False
    then have "free_regions ia iz (r # tree) (mm, rs) = free_regions ia iz tree (mm, rs)"
      by (simp add: user_region_def free_region_def Let_def)
    with False Cons.IH [OF Cons.prems(1,2) _ ini(1)] Cons.prems(3,5) show ?thesis by simp
  next
    case True
    have r: "region_ok r" "r_attributes r < mm_num_managers mm" "region_pages r \<subseteq> im_pages (mm_managers mm ! r_attributes r)"
      using Cons.prems(2) [of r] True by auto
    obtain mm1 rs1 where 1: "free_region ia iz (mm, rs) r = (mm1, rs1)"
      and a1: "mm_acts (\<lambda>p v. if p \<in> region_pages r then given ia iz p v else v) mm mm1"
      using free_region_acts [OF Cons.prems(1) r(1) True r(2,3) ini(2)] Cons.prems(5) True by fastforce
    note A = mm_actsD [OF a1] and F = mm_frameD [OF mm_actsD(2) [OF a1]]
    have rest: "p \<in> mm_pages mm \<and> p \<notin> region_pages r" if p: "p \<in> user_pages tree" for p
    proof -
      obtain r' where r': "r' \<in> set tree" "user_region r'" "p \<in> region_pages r'" using p by (auto simp: user_pages_def)
      then show ?thesis
        using Cons.prems(2) [of r'] Cons.prems(3) region_pages_disjoint [of r r' p] by (auto simp: mm_pages_def)
    qed
    have "\<exists>mm' rs'. free_regions ia iz tree (mm1, rs1) = Some (mm', rs') \<and>
        mm_acts (\<lambda>p v. if p \<in> user_pages tree then given ia iz p v else v) mm1 mm'"
    proof (rule Cons.IH [OF A(1) _ _ ini(1)])
      show "unused (mm_view mm1 p)" if "p \<in> user_pages tree" for p
        using rest [OF that] A(4) [of p] Cons.prems(5) [of p] that True by simp
    qed (use Cons.prems(2,3) F in auto)
    then obtain mm' rs' where 2: "free_regions ia iz tree (mm1, rs1) = Some (mm', rs')"
      and a2: "mm_acts (\<lambda>p v. if p \<in> user_pages tree then given ia iz p v else v) mm1 mm'" by blast
    have "mm_acts (\<lambda>p v. if p \<in> user_pages (r # tree) then given ia iz p v else v) mm mm'"
      by (rule mm_acts_cong [OF mm_acts_trans [OF a1 a2]]) (use rest True in auto)
    moreover have "r_attributes r < MaxManagerCount" using r(2) Cons.prems(1) by (simp add: mm_ok_def)
    ultimately show ?thesis using 1 2 by simp
  qed
qed

lemma SetInitialUsedHeapSize_acts:
  assumes "impl_ok im"
  shows "acts {} (\<lambda>v. v) im (SetInitialUsedHeapSize z im)"
proof -
  let ?im = "SetInitialUsedHeapSize z im" and ?h = "im_heap (SetInitialUsedHeapSize z im)"
  have h: "m_heap_address ?h = m_heap_address (im_heap im)" "m_heap_size ?h = m_heap_size (im_heap im)"
    "m_blocks ?h = m_blocks (im_heap im)" "m_num_blocks ?h = m_num_blocks (im_heap im)"
    "m_management_data ?h = m_management_data (im_heap im)"
    by (simp_all add: SetInitialUsedHeapSize_def SetInitialUsedSize_def Let_def)
  have b: "free_blocks ?h = free_blocks (im_heap im)" "base ?h = base (im_heap im)"
    by (auto simp: fun_eq_iff h free_blocks_def base_def)
  then have f: "free_pages ?h = free_pages (im_heap im)" "heap_pages ?h = heap_pages (im_heap im)"
    by (simp_all add: free_pages_def heap_pages_def h)
  have ok: "heap_ok ?h = heap_ok (im_heap im)"
    by (simp add: heap_ok_def heap_shape_def level_shape_def f b h)
  have "im_page_reference_counts ?im = im_page_reference_counts im" "im_optimize_map ?im = im_optimize_map im"
    "im_pool ?im = im_pool im" "im_next ?im = im_next im" "im_prev ?im = im_prev im"
    "im_management_region ?im = im_management_region im"
    by (simp_all add: SetInitialUsedHeapSize_def)
  with assms h f ok show ?thesis
    by (simp add: acts_def impl_ok_def same_frame_def im_view_def im_pages_def base_page_def heap_GetEndAddress_def)
qed

lemma SetInitialUsedHeapSize_all:
  assumes "mm_ok mm" "set is \<subseteq> {0..<mm_num_managers mm}"
  shows "mm_acts (\<lambda>p v. v) mm (foldl (\<lambda>mm i. upd_manager i (SetInitialUsedHeapSize (rs ! i)) mm) mm is)"
  using assms
proof (induction "is" arbitrary: mm)
  case (Cons i "is")
  have i: "i < mm_num_managers mm" using Cons.prems(2) by simp
  have a: "mm_acts (\<lambda>p v. v) mm (upd_manager i (SetInitialUsedHeapSize (rs ! i)) mm)"
    unfolding upd_manager_def
    using manager_acts [OF Cons.prems(1) i SetInitialUsedHeapSize_acts [OF mm_okD(1) [OF Cons.prems(1) i]]] by simp
  note A = mm_actsD [OF a] mm_frameD [OF mm_actsD(2) [OF a]]
  from Cons.IH [OF A(1)] Cons.prems(2) A
  show ?case using mm_acts_trans [OF a] by (simp add: mm_acts_def)
qed (simp add: mm_acts_none)

text \<open>The regions of a layout make up the extents of its managers.\<close>

lemma region_in_extent:
  assumes l: "layout_ok n tree" and r: "r \<in> set tree" "user_region r"
  shows "region_pages r \<subseteq> extent_pages tree (r_attributes r)"
proof -
  let ?k = "r_attributes r" and ?rs = "regions_of (r_attributes r) tree"
  have k: "?k < n" using layoutD(4) [OF l r] by simp
  have m: "r \<in> set ?rs" using r by (simp add: regions_of_def)
  have le: "\<forall>r\<in>set ?rs. r_address r \<le> r_last_address r" using regions_of_ok [OF l] layoutD(3) [OF l] by blast
  have "extent_start tree ?k div PageSize \<le> r_address r div PageSize"
    by (rule div_le_mono, rule chained_last [OF layoutD(6) [OF l k] le m])
  moreover have "r_last_address r + 1 \<le> extent_end tree ?k"
  proof -
    have "sorted_wrt (\<lambda>a b. r_last_address a < r_address b) ?rs" unfolding regions_of_def by (rule sorted_wrt_filter [OF layoutD(2) [OF l]])
    with m le have "r_last_address r \<le> r_last_address (last ?rs)"
      by (cases ?rs rule: rev_cases) (auto simp: sorted_wrt_append intro: less_imp_le less_le_trans)
    then show ?thesis by (simp add: extent_end_def)
  qed
  then have "(r_last_address r + 1) div PageSize \<le> extent_end tree ?k div PageSize" by (rule div_le_mono)
  ultimately show ?thesis by (auto simp: region_pages_def extent_pages_def)
qed

lemma extent_in_regions:
  assumes l: "layout_ok n tree" and k: "k < n"
  shows "extent_pages tree k \<subseteq> user_pages tree"
proof
  fix p assume p: "p \<in> extent_pages tree k"
  note E = extentD [OF l k]
  have al: "extent_start tree k = extent_start tree k div PageSize * PageSize" "extent_end tree k = extent_end tree k div PageSize * PageSize"
    using E(2,4) by (auto simp: good_extent_def)
  have "extent_start tree k \<le> p * PageSize" "p * PageSize < extent_end tree k"
    using p by (subst al, simp add: extent_pages_def)+
  moreover have "extent_end tree k = chain_end (extent_start tree k) (regions_of k tree)"
    using layoutD(5) [OF l k] by (simp add: extent_end_def chain_end_def)
  ultimately obtain r where r: "r \<in> set (regions_of k tree)" "r_address r \<le> p * PageSize" "p * PageSize \<le> r_last_address r"
    using chained_covers [OF layoutD(6,5) [OF l k]] by metis
  note R = regions_of_ok [OF l r(1)]
  have "r_address r = r_address r div PageSize * PageSize" "r_last_address r + 1 = (r_last_address r + 1) div PageSize * PageSize"
    using R by (auto simp: region_ok_def)
  then have "r_address r div PageSize * PageSize \<le> p * PageSize" "p * PageSize < (r_last_address r + 1) div PageSize * PageSize"
    using r(2,3) by linarith+
  then have "p \<in> region_pages r" by (simp add: region_pages_def)
  with R show "p \<in> user_pages tree" by (auto simp: user_pages_def)
qed

lemma mm_Initialize_spec:
  assumes l: "layout_ok n tree" and sz: "\<forall>k<n. extent_size tree k \<le> intended" and ini: "binary_ok ia iz tree"
  shows "\<exists>mm. mm_Initialize intended ia iz mgmt (new_KMemoryManager seed tree (InitializeLinearMemoryRegionTree tree)) = Some mm \<and>
    mm_ok mm \<and> mm_num_managers mm = n \<and> mm_pages mm = user_pages tree \<and> mm_has_optimized_process mm = replicate PoolCount False \<and>
    (\<forall>k<n. im_pages (mm_managers mm ! k) = extent_pages tree k \<and> im_pool (mm_managers mm ! k) = extent_pool tree k) \<and>
    (\<forall>pool<PoolCount. \<forall>dir. pool_managers pool dir mm = Some (if dir = FromBack then rev (pool_list tree pool n) else pool_list tree pool n)) \<and>
    (\<forall>p\<in>user_pages tree. mm_view mm p = (if p \<in> binary_pages ia iz then no_view\<lparr>pv_refs := 1\<rparr> else no_view\<lparr>pv_free := True\<rparr>))"
proof -
  let ?mm = "(new_KMemoryManager seed tree (InitializeLinearMemoryRegionTree tree))\<lparr>mm_num_managers := 0\<rparr>"
  obtain mm1 where 1: "init_managers MaxManagerCount intended mgmt ?mm = Some mm1" and inv: "init_inv tree intended seed n mm1"
    using init_managers_spec [OF l init_start [of tree intended seed], of MaxManagerCount mgmt] by auto
  note D = init_done [OF l sz inv]
  have I: "mm_num_managers mm1 = n" "mm_physical_tree mm1 = tree" "mm_has_optimized_process mm1 = replicate PoolCount False"
    "\<And>k. k < n \<Longrightarrow> im_pool (mm_managers mm1 ! k) = extent_pool tree k"
    "links_ok tree n mm1" using inv by (simp_all add: init_inv_def fresh_impl_def)
  note L = links_pool_managers [OF I(5) layoutD(1) [OF l]]
  have pg: "mm_pages mm1 = user_pages tree"
  proof
    show "mm_pages mm1 \<subseteq> user_pages tree" using D(2) I(1) extent_in_regions [OF l] by (auto simp: mm_pages_def)
    show "user_pages tree \<subseteq> mm_pages mm1"
      using D(2) I(1) region_in_extent [OF l] layoutD(4) [OF l] by (fastforce simp: mm_pages_def user_pages_def)
  qed
  have "\<exists>mm' rs'. free_regions ia iz tree (mm1, replicate MaxManagerCount 0) = Some (mm', rs') \<and>
      mm_acts (\<lambda>p v. if p \<in> user_pages tree then given ia iz p v else v) mm1 mm'"
  proof (rule free_regions_acts [OF D(1) _ layoutD(2) [OF l] ini])
    show "region_ok r \<and> r_attributes r < mm_num_managers mm1 \<and> region_pages r \<subseteq> im_pages (mm_managers mm1 ! r_attributes r)"
      if "r \<in> set tree" "user_region r" for r
      using layoutD(4) [OF l that] region_in_extent [OF l that] D(2) I(1) by simp
  qed (use D(3) pg in simp)
  then obtain mm2 rs where 2: "free_regions ia iz tree (mm1, replicate MaxManagerCount 0) = Some (mm2, rs)"
    and a2: "mm_acts (\<lambda>p v. if p \<in> user_pages tree then given ia iz p v else v) mm1 mm2" by blast
  define mm where "mm = foldl (\<lambda>mm i. upd_manager i (SetInitialUsedHeapSize (rs ! i)) mm) mm2 [0..<mm_num_managers mm2]"
  have "mm_acts (\<lambda>p v. v) mm2 mm" unfolding mm_def by (rule SetInitialUsedHeapSize_all [OF mm_actsD(1) [OF a2]]) simp
  from mm_acts_trans [OF a2 this] have a: "mm_acts (\<lambda>p v. if p \<in> user_pages tree then given ia iz p v else v) mm1 mm" .
  note A = mm_actsD [OF a] mm_frameD [OF mm_actsD(2) [OF a]]
  have "mm_view mm p = (if p \<in> binary_pages ia iz then no_view\<lparr>pv_refs := 1\<rparr> else no_view\<lparr>pv_free := True\<rparr>)"
    if "p \<in> user_pages tree" for p using that A(4) [of p] D(3) [of p] pg by (simp add: given_def)
  moreover have "mm_Initialize intended ia iz mgmt (new_KMemoryManager seed tree (InitializeLinearMemoryRegionTree tree)) = Some mm"
    unfolding mm_Initialize_def 1 by (simp add: I(2) 2 mm_def)
  ultimately show ?thesis using A I D(2) pg L by simp
qed

end
