(* ===== verification/Memory_Manager_Steps.thy ===== *)
theory Memory_Manager_Steps
  imports Memory_Manager_Alloc Memory_Manager_Init
begin

text \<open>
  The memory manager as a state machine: allocation, opening, closing and the switching of optimised
  memory as steps, an account of references as the specification, and the simulation between them.
\<close>

section \<open>Accounts of pages\<close>

text \<open>
  The specification: an account says how many references each page has and which pages are lost. Pages
  with no reference may be taken unless they are lost, and have one then; pages with references may be
  shared or dropped; pages without references may be lost.
\<close>

type_synonym account = "nat \<Rightarrow> nat"

inductive account_step :: "nat set \<Rightarrow> account \<times> nat set \<Rightarrow> account \<times> nat set \<Rightarrow> bool" for P where
  take: "T \<subseteq> P - L \<Longrightarrow> \<forall>p\<in>T. a p = 0 \<Longrightarrow> account_step P (a, L) (\<lambda>p. if p \<in> T then 1 else a p, L)"
| share: "T \<subseteq> P \<Longrightarrow> \<forall>p\<in>T. 0 < a p \<Longrightarrow> account_step P (a, L) (\<lambda>p. if p \<in> T then a p + 1 else a p, L)"
| drop: "T \<subseteq> P \<Longrightarrow> \<forall>p\<in>T. 0 < a p \<Longrightarrow> account_step P (a, L) (\<lambda>p. if p \<in> T then a p - 1 else a p, L)"
| lose: "T \<subseteq> P \<Longrightarrow> \<forall>p\<in>T. a p = 0 \<Longrightarrow> account_step P (a, L) (a, L \<union> T)"

definition account_of :: "KMemoryManager \<Rightarrow> account" where
  "account_of mm p = (if p \<in> mm_pages mm then pv_refs (mm_view mm p) else 0)"

lemma account_in [simp]: "p \<in> mm_pages mm \<Longrightarrow> account_of mm p = pv_refs (mm_view mm p)"
  by (simp add: account_of_def)

text \<open>The pages that are lost: no heap has them as free, and nobody has a reference to them.\<close>

definition lost_of :: "KMemoryManager \<Rightarrow> nat set" where
  "lost_of mm = {p \<in> mm_pages mm. \<not> pv_free (mm_view mm p) \<and> pv_refs (mm_view mm p) = 0}"

abbreviation books :: "KMemoryManager \<Rightarrow> account \<times> nat set" where
  "books mm \<equiv> (account_of mm, lost_of mm)"

text \<open>What no operation changes: where the managers lie and which pool each belongs to.\<close>

definition same_places :: "KMemoryManager \<Rightarrow> KMemoryManager \<Rightarrow> bool" where
  "same_places mm mm' \<longleftrightarrow> mm_num_managers mm' = mm_num_managers mm \<and>
     (\<forall>m. same_frame (mm_managers mm ! m) (mm_managers mm' ! m))"

lemma same_places_refl [simp]: "same_places mm mm"
  by (simp add: same_places_def)

lemma same_places_trans: "same_places a b \<Longrightarrow> same_places b c \<Longrightarrow> same_places a c"
  unfolding same_places_def using same_frame_trans by metis

lemma frame_layout: "mm_frame mm mm' \<Longrightarrow> same_places mm mm'"
  by (simp add: mm_frame_def same_places_def)

lemma same_placesD:
  assumes "same_places mm mm'"
  shows "mm_num_managers mm' = mm_num_managers mm" "mm_pages mm' = mm_pages mm" "pool_pages pool mm' = pool_pages pool mm"
    "pool_seamless pool mm' = pool_seamless pool mm"
proof -
  have f: "same_frame (mm_managers mm ! m) (mm_managers mm' ! m)" for m using assms by (simp add: same_places_def)
  have p: "im_pool (mm_managers mm' ! m) = im_pool (mm_managers mm ! m)" for m using f by (simp add: same_frame_def)
  show n: "mm_num_managers mm' = mm_num_managers mm" using assms by (simp add: same_places_def)
  then show "mm_pages mm' = mm_pages mm" "pool_pages pool mm' = pool_pages pool mm"
    using same_frameD(2) [OF f] p by (simp_all add: mm_pages_def pool_pages_def)
  show "pool_seamless pool mm' = pool_seamless pool mm"
    using f n p by (simp add: pool_seamless_def heap_GetEndAddress_def same_frame_def)
qed

text \<open>The pages an operation may lose: those of pools with adjacent managers.\<close>

definition seam_pages :: "KMemoryManager \<Rightarrow> nat set" where
  "seam_pages mm = \<Union> {pool_pages pool mm |pool. \<not> pool_seamless pool mm}"

lemma same_places_seams: "same_places mm mm' \<Longrightarrow> seam_pages mm' = seam_pages mm"
  by (simp add: seam_pages_def same_placesD)

text \<open>One operation meets one step of the specification.\<close>

definition meets :: "account \<times> nat set \<Rightarrow> KMemoryManager \<Rightarrow> KMemoryManager \<Rightarrow> bool" where
  "meets b mm mm' \<longleftrightarrow> account_step (mm_pages mm) (books mm) b \<and> mm_ok mm' \<and> same_places mm mm' \<and>
     snd b \<subseteq> lost_of mm \<union> (seam_pages mm \<inter> mm_pages mm) \<and>
     (\<forall>p\<in>mm_pages mm. pv_refs (mm_view mm' p) = fst b p \<and> (pv_free (mm_view mm' p) \<longleftrightarrow> fst b p = 0 \<and> p \<notin> snd b))"

lemma account_outside: "account_step P a b \<Longrightarrow> p \<notin> P \<Longrightarrow> fst b p = fst a p"
  by (auto elim!: account_step.cases)

lemma account_lost: "account_step P a b \<Longrightarrow> \<forall>p\<in>snd a. p \<in> P \<and> fst a p = 0 \<Longrightarrow> \<forall>p\<in>snd b. p \<in> P \<and> fst b p = 0"
  by (fastforce elim!: account_step.cases)

lemma meetsD:
  assumes "meets b mm mm'"
  shows "account_step (mm_pages mm) (books mm) (books mm')" "mm_ok mm'" "lost_of mm' \<subseteq> lost_of mm \<union> seam_pages mm" "same_places mm mm'"
proof -
  have step: "account_step (mm_pages mm) (books mm) b" using assms by (simp add: meets_def)
  have P: "mm_pages mm' = mm_pages mm" using assms same_placesD(2) by (simp add: meets_def)
  have "account_of mm' = fst b"
    using assms account_outside [OF step] P by (fastforce simp: account_of_def meets_def)
  moreover have "lost_of mm' = snd b"
    using account_lost [OF step] assms P by (auto simp: lost_of_def account_of_def meets_def)
  ultimately have b: "b = books mm'" by (simp add: prod_eq_iff)
  show "account_step (mm_pages mm) (books mm) (books mm')" "mm_ok mm'" "lost_of mm' \<subseteq> lost_of mm \<union> seam_pages mm" "same_places mm mm'"
    using assms unfolding b by (auto simp: meets_def)
qed

text \<open>The ways in which operations change the views of pages.\<close>

lemma free_unlost: "mm_ok mm \<Longrightarrow> p \<in> mm_pages mm \<Longrightarrow> pv_free (mm_view mm p) \<longleftrightarrow> pv_refs (mm_view mm p) = 0 \<and> p \<notin> lost_of mm"
  using mm_free_refs [of mm p] by (auto simp: lost_of_def)

lemma meets_take:
  assumes ok: "mm_ok mm'" "same_places mm mm'" "mm_ok mm" and T: "T \<subseteq> mm_pages mm" "\<forall>p\<in>T. pv_free (mm_view mm p)"
    and v: "\<forall>p\<in>mm_pages mm. pv_refs (mm_view mm' p) = (if p \<in> T then 1 else pv_refs (mm_view mm p)) \<and>
      pv_free (mm_view mm' p) = (pv_free (mm_view mm p) \<and> p \<notin> T)"
  shows "meets (\<lambda>p. if p \<in> T then 1 else account_of mm p, lost_of mm) mm mm'"
proof -
  have "T \<subseteq> mm_pages mm - lost_of mm" "\<forall>p\<in>T. account_of mm p = 0"
    using T free_unlost [OF ok(3)] by (auto simp: account_of_def)
  then have "account_step (mm_pages mm) (books mm) (\<lambda>p. if p \<in> T then 1 else account_of mm p, lost_of mm)" by (rule account_step.take)
  with ok v free_unlost [OF ok(3)] show ?thesis by (auto simp: meets_def)
qed

lemma meets_none:
  assumes "mm_ok mm'" "same_places mm mm'" "mm_ok mm"
    "\<forall>p\<in>mm_pages mm. pv_refs (mm_view mm' p) = pv_refs (mm_view mm p) \<and> pv_free (mm_view mm' p) = pv_free (mm_view mm p)"
  shows "meets (books mm) mm mm'"
  using meets_take [OF assms(1-3), of "{}"] assms(4) by simp

lemma meets_lose:
  assumes ok: "mm_ok mm'" "same_places mm mm'" "mm_ok mm" and T: "T \<subseteq> mm_pages mm \<inter> seam_pages mm" "\<forall>p\<in>T. pv_free (mm_view mm p)"
    and v: "\<forall>p\<in>mm_pages mm. pv_refs (mm_view mm' p) = pv_refs (mm_view mm p) \<and> pv_free (mm_view mm' p) = (pv_free (mm_view mm p) \<and> p \<notin> T)"
  shows "meets (account_of mm, lost_of mm \<union> T) mm mm'"
proof -
  have "T \<subseteq> mm_pages mm" "\<forall>p\<in>T. account_of mm p = 0" using T free_unlost [OF ok(3)] by (auto simp: account_of_def)
  then have "account_step (mm_pages mm) (books mm) (account_of mm, lost_of mm \<union> T)" by (rule account_step.lose)
  with ok v T free_unlost [OF ok(3)] show ?thesis by (auto simp: meets_def)
qed

lemma meets_share:
  assumes ok: "mm_ok mm" and a: "mm_acts (on_pages T (pv_refs_update Suc)) mm mm'" and T: "T \<subseteq> mm_pages mm"
    and v: "\<forall>p\<in>T. 0 < pv_refs (mm_view mm p)"
  shows "meets (\<lambda>p. if p \<in> T then account_of mm p + 1 else account_of mm p, lost_of mm) mm mm'"
proof -
  have "\<forall>p\<in>T. 0 < account_of mm p" using T v by (auto simp: account_of_def)
  from account_step.share [OF T this] mm_actsD [OF a] free_unlost [OF ok] v show ?thesis
    by (auto simp: meets_def intro: frame_layout)
qed

lemma meets_drop:
  assumes ok: "mm_ok mm" and a: "mm_acts (on_pages T closed_view) mm mm'" and T: "T \<subseteq> mm_pages mm"
    and v: "\<forall>p\<in>T. 0 < pv_refs (mm_view mm p)"
  shows "meets (\<lambda>p. if p \<in> T then account_of mm p - 1 else account_of mm p, lost_of mm) mm mm'"
proof -
  have "\<forall>p\<in>T. 0 < account_of mm p" using T v by (auto simp: account_of_def)
  moreover have "p \<notin> lost_of mm" if "p \<in> T" for p using that v by (auto simp: lost_of_def)
  ultimately show ?thesis using account_step.drop [OF T, of "account_of mm" "lost_of mm"] mm_actsD [OF a] free_unlost [OF ok] v
    by (auto simp: meets_def closed_view_def intro: frame_layout)
qed

section \<open>Optimised memory\<close>

lemma fresh_map_acts:
  assumes ok: "impl_ok im"
  shows "acts (im_pages im) (pv_tracked_update (\<lambda>_. False)) im (im_InitializeOptimizedMemory im)"
proof -
  let ?n = "m_heap_size (im_heap im) div PageSize"
  let ?k = "CalculateOptimizedProcessOverheadSize (m_heap_size (im_heap im)) div 8"
  let ?im = "im_InitializeOptimizedMemory im"
  have "m_heap_size (im_heap im) < 2 ^ 44" using ok by (simp add: impl_ok_def heap_GetEndAddress_def)
  then have "?n + 64 < 2 ^ 64" by (simp add: PageSize_def)
  then have k: "?n \<le> 64 * ?k" using AlignUp_bounds [of 64 ?n] by (auto simp: CalculateOptimizedProcessOverheadSize_def)
  have f: "im_heap ?im = im_heap im" "im_page_reference_counts ?im = im_page_reference_counts im" "im_optimize_map ?im = replicate ?k 0"
    "base_page ?im = base_page im" "im_pages ?im = im_pages im"
    by (simp_all add: im_InitializeOptimizedMemory_def base_page_def im_pages_def)
  have view: "im_view ?im p = pv_tracked_update (\<lambda>_. False) (im_view im p)" if "p \<in> im_pages im" for p
  proof -
    have "p - base_page im < 64 * ?k" using that impl_okD(5) [OF ok] k by auto
    then have "(p - base_page im) div 64 < ?k" by (simp add: less_mult_imp_div_less mult.commute)
    then show ?thesis by (simp add: im_view_def f tracked_bit_def)
  qed
  have "impl_ok ?im" using ok k view unfolding impl_ok_def f by (simp add: heap_GetEndAddress_def)
  moreover have "same_frame im ?im" by (simp add: same_frame_def im_InitializeOptimizedMemory_def)
  ultimately show ?thesis using view by (simp add: acts_def)
qed

lemma fresh_maps_acts:
  assumes "mm_ok mm" "set ms \<subseteq> {..<mm_num_managers mm}"
  shows "\<exists>T. mm_acts (on_pages T (pv_tracked_update (\<lambda>_. False))) mm (fold (\<lambda>m. upd_manager m im_InitializeOptimizedMemory) ms mm) \<and>
    T = (\<Union>m\<in>set ms. im_pages (mm_managers mm ! m))"
  using assms
proof (induction ms arbitrary: mm)
  case Nil
  then show ?case using mm_acts_none by simp
next
  case (Cons m ms)
  have m: "m < mm_num_managers mm" using Cons.prems(2) by simp
  let ?mm = "upd_manager m im_InitializeOptimizedMemory mm"
  have a: "mm_acts (on_pages (im_pages (mm_managers mm ! m)) (pv_tracked_update (\<lambda>_. False))) mm ?mm"
    unfolding upd_manager_def by (rule manager_acts [OF Cons.prems(1) m fresh_map_acts [OF mm_okD(1) [OF Cons.prems(1) m]]]) simp
  note A = mm_actsD [OF a] mm_frameD [OF mm_actsD(2) [OF a]]
  obtain T where T: "mm_acts (on_pages T (pv_tracked_update (\<lambda>_. False))) ?mm (fold (\<lambda>m. upd_manager m im_InitializeOptimizedMemory) ms ?mm)"
    "T = (\<Union>m\<in>set ms. im_pages (mm_managers ?mm ! m))"
    using Cons.IH [OF A(1)] Cons.prems(2) A by auto
  have "mm_acts (on_pages (im_pages (mm_managers mm ! m) \<union> T) (pv_tracked_update (\<lambda>_. False))) mm
      (fold (\<lambda>m. upd_manager m im_InitializeOptimizedMemory) (m # ms) mm)"
    by (simp only: fold.simps o_apply, rule mm_acts_cong [OF mm_acts_trans [OF a T(1)]]) auto
  with T(2) A(8) show ?case by auto
qed

lemma with_optimized_ok:
  assumes "mm_ok mm" "length ids = PoolCount" "length has = PoolCount"
    and mm': "mm' = mm\<lparr>mm_optimized_process_ids := ids, mm_has_optimized_process := has\<rparr>"
  shows "mm_ok mm'" "same_places mm mm'" "mm_view mm' = mm_view mm" "pool_managers pool dir mm' = pool_managers pool dir mm"
proof -
  have w: "walk_managers fuel c dir mm' = walk_managers fuel c dir mm" for fuel c dir
  proof (induction fuel arbitrary: c)
    case 0
    show ?case by (cases c) simp_all
  next
    case (Suc fuel)
    then show ?case by (cases c) (simp_all add: mm' GetNextManager_def)
  qed
  then show p: "pool_managers pool dir mm' = pool_managers pool dir mm" for pool dir
    by (simp add: pool_managers_def GetFirstManager_def mm')
  have g: "GetManager a mm' = GetManager a mm" for a by (simp add: GetManager_def mm' split: option.split)
  show "mm_ok mm'" using assms(1-3) unfolding mm_ok_def g p by (simp add: mm')
  show "same_places mm mm'" by (simp add: same_places_def mm')
  show "mm_view mm' = mm_view mm" by (simp add: fun_eq_iff mm_view_def g, simp add: mm' split: option.split)
qed

lemma InitializeOptimizedMemory_spec:
  assumes ok: "mm_ok mm" and pool: "pool < PoolCount"
  obtains r mm' where "mm_InitializeOptimizedMemory pid pool mm = Some (r, mm')" "mm_ok mm'" "same_places mm mm'"
    "r = (if mm_has_optimized_process mm ! pool then ResultBusy else ResultSuccess)"
    "\<forall>p\<in>mm_pages mm. mm_view mm' p =
      (if r = ResultSuccess \<and> p \<in> pool_pages pool mm then (mm_view mm p)\<lparr>pv_tracked := False\<rparr> else mm_view mm p)"
proof (cases "mm_has_optimized_process mm ! pool")
  case True
  with pool ok that show ?thesis by (simp add: mm_InitializeOptimizedMemory_def)
next
  case False
  define mm1 where "mm1 = mm\<lparr>mm_optimized_process_ids := (mm_optimized_process_ids mm)[pool := pid],
    mm_has_optimized_process := (mm_has_optimized_process mm)[pool := True]\<rparr>"
  have W: "mm_ok mm1" "same_places mm mm1" "mm_view mm1 = mm_view mm" "\<And>pool dir. pool_managers pool dir mm1 = pool_managers pool dir mm"
    using with_optimized_ok [OF ok _ _ mm1_def] ok by (simp_all add: mm_ok_def)
  obtain ms where ms: "pool_managers pool 0 mm = Some ms"
    "set ms = {m. m < mm_num_managers mm \<and> im_pool (mm_managers mm ! m) = pool}"
    using mm_poolD [OF ok pool] by blast
  have m1: "mm_num_managers mm1 = mm_num_managers mm" "mm_managers mm1 = mm_managers mm" by (simp_all add: mm1_def)
  define mm2 where "mm2 = fold (\<lambda>m. upd_manager m im_InitializeOptimizedMemory) ms mm1"
  have a: "mm_acts (on_pages (pool_pages pool mm) (pv_tracked_update (\<lambda>_. False))) mm1 mm2"
    using fresh_maps_acts [OF W(1), of ms] ms(2) m1 by (auto simp: mm2_def pool_pages_def)
  note A = mm_actsD [OF a]
  have "mm_InitializeOptimizedMemory pid pool mm = Some (ResultSuccess, mm2)"
    using pool False W(4) [of pool 0] ms(1)
    by (simp add: mm_InitializeOptimizedMemory_def mm2_def mm1_def [symmetric] Let_def)
  moreover have "same_places mm mm2" by (rule same_places_trans [OF W(2) frame_layout [OF A(2)]])
  moreover have "mm_pages mm1 = mm_pages mm" by (rule same_placesD(2) [OF W(2)])
  ultimately show ?thesis using False A(1,4) W(3) by (intro that) auto
qed

section \<open>The manager as a state machine\<close>

text \<open>
  The operations a kernel performs on its managers. Callers open and close only pages they have
  references to, and a page has at most \<open>65535\<close> of them. The pages allocated for a process have no
  references yet; their first ones are opened before anything else happens to the group.
\<close>

definition may_open :: "nat set \<Rightarrow> KMemoryManager \<Rightarrow> bool" where
  "may_open S mm \<longleftrightarrow> S \<subseteq> mm_pages mm \<and> (\<forall>p\<in>S. 0 < pv_refs (mm_view mm p) \<and> pv_refs (mm_view mm p) < 2 ^ 16 - 1)"

definition may_close :: "nat set \<Rightarrow> KMemoryManager \<Rightarrow> bool" where
  "may_close S mm \<longleftrightarrow> S \<subseteq> mm_pages mm \<and> (\<forall>p\<in>S. 0 < pv_refs (mm_view mm p))"

inductive mm_step :: "KMemoryManager \<Rightarrow> KMemoryManager \<Rightarrow> bool" where
  allocate: "0 < N \<Longrightarrow> fst (DecodeOption opt) < PoolCount \<Longrightarrow>
    AllocateAndOpen N opt ([], nodes, mm) = Some (r, out, nodes', mm') \<Longrightarrow> mm_step mm mm'"
| contiguous: "0 < N \<Longrightarrow> fst (DecodeOption opt) < PoolCount \<Longrightarrow> 0 \<le> GetAlignedBlockIndex N (2 ^ k) \<Longrightarrow>
    AllocateAndOpenContinuous N (2 ^ k) opt mm = Some (addr, mm') \<Longrightarrow> mm_step mm mm'"
| process: "0 < N \<Longrightarrow> fst (DecodeOption opt) < PoolCount \<Longrightarrow>
    AllocateForProcess N opt process_id v ([], nodes, mm) = Some (ResultSuccess, out, nodes', mm1) \<Longrightarrow>
    pg_OpenFirst out mm1 = Some mm' \<Longrightarrow> mm_step mm mm'"
| process_refused: "0 < N \<Longrightarrow> fst (DecodeOption opt) < PoolCount \<Longrightarrow>
    AllocateForProcess N opt process_id v ([], nodes, mm) = Some (r, out, nodes', mm') \<Longrightarrow> r \<noteq> ResultSuccess \<Longrightarrow>
    mm_step mm mm'"
| open_pages: "may_open {s..<s + n} mm \<Longrightarrow> mm_Open (s * PageSize) n mm = Some mm' \<Longrightarrow> mm_step mm mm'"
| close_pages: "may_close {s..<s + n} mm \<Longrightarrow> mm_Close (s * PageSize) n mm = Some mm' \<Longrightarrow> mm_step mm mm'"
| open_group: "pg_ok pg \<Longrightarrow> may_open (group_pages pg) mm \<Longrightarrow> pg_Open pg mm = Some mm' \<Longrightarrow> mm_step mm mm'"
| close_group: "pg_ok pg \<Longrightarrow> may_close (group_pages pg) mm \<Longrightarrow> CloseAndReset pg nodes mm = Some (pg', nodes', mm') \<Longrightarrow> mm_step mm mm'"
| optimize: "pool < PoolCount \<Longrightarrow> mm_InitializeOptimizedMemory process_id pool mm = Some (r, mm') \<Longrightarrow> mm_step mm mm'"
| unoptimize: "pool < PoolCount \<Longrightarrow> mm_FinalizeOptimizedMemory process_id pool mm = Some mm' \<Longrightarrow> mm_step mm mm'"

text \<open>Groups are opened and closed node by node with the loop over managers.\<close>

lemma group_loops:
  "pg_OpenFirst pg mm = foldl (\<lambda>r it. Option.bind r (each_part im_OpenFirst (bi_GetAddress it) (bi_GetNumPages it))) (Some mm) pg"
  "pg_Open pg mm = foldl (\<lambda>r it. Option.bind r (each_part im_Open (bi_GetAddress it) (bi_GetNumPages it))) (Some mm) pg"
  "pg_Close pg mm = foldl (\<lambda>r it. Option.bind r (each_part im_Close (bi_GetAddress it) (bi_GetNumPages it))) (Some mm) pg"
  by (simp_all add: pg_OpenFirst_def pg_Open_def pg_Close_def mm_OpenFirst_def [abs_def] mm_Open_def [abs_def] mm_Close_def [abs_def])

text \<open>A refused request loses no pages but those of a pool with adjacent managers.\<close>

lemma refused_meets:
  assumes ok: "mm_ok mm" and r: "group_refused u N pool nodes r mm mm'"
  shows "\<exists>b. meets b mm mm'"
proof -
  obtain T L where a: "mm_acts (\<lambda>p v. if p \<in> L then taken u v else if p \<in> T then untracked u v else v) mm mm'"
    and L: "L \<subseteq> pool_free pool mm" "pool_seamless pool mm \<longrightarrow> L = {}"
    using r unfolding group_refused_def by blast
  note A = mm_actsD [OF a]
  have "L \<subseteq> mm_pages mm \<inter> seam_pages mm" using L pool_free_pages [of pool mm] by (auto simp: seam_pages_def pool_free_def)
  then have "meets (account_of mm, lost_of mm \<union> L) mm mm'"
    by (rule meets_lose [OF A(1) frame_layout [OF A(2)] ok]) (use L(1) in \<open>auto simp: A(4) untracked_def taken_def pool_free_def\<close>)
  then show ?thesis by blast
qed

lemma first_opened_meets:
  assumes "mm_ok mm" "T \<subseteq> pool_free pool mm" and a: "mm_acts (on_pages T (first_opened u)) mm mm'"
  shows "meets (\<lambda>p. if p \<in> T then 1 else account_of mm p, lost_of mm) mm mm'"
proof -
  note A = mm_actsD [OF a]
  show ?thesis
    by (rule meets_take [OF A(1) frame_layout [OF A(2)] assms(1)])
      (use assms(2) pool_free_pages in \<open>auto simp: A(4) first_opened_def pool_free_def\<close>)
qed

lemma allocate_meets:
  assumes ok: "mm_ok mm" and N: "0 < N" and p: "fst (DecodeOption opt) < PoolCount"
    and al: "AllocateAndOpen N opt ([], nodes, mm) = Some (r, out, nodes', mm')"
  shows "\<exists>a. meets a mm mm'"
proof -
  obtain pool dir where d: "DecodeOption opt = (pool, dir)" by fastforce
  let ?u = "mm_has_optimized_process mm ! pool"
  have "group_pages out \<subseteq> pool_free pool mm \<and> mm_acts (on_pages (group_pages out) (first_opened ?u)) mm mm' \<or>
      r \<noteq> ResultSuccess \<and> group_refused ?u N pool nodes r mm mm'"
    by (rule AllocateAndOpen_spec [OF ok d _ N refl, of nodes]) (use al p d in auto)
  then show ?thesis
  proof
    assume "group_pages out \<subseteq> pool_free pool mm \<and> mm_acts (on_pages (group_pages out) (first_opened ?u)) mm mm'"
    then show ?thesis using first_opened_meets [OF ok] by blast
  next
    assume "r \<noteq> ResultSuccess \<and> group_refused ?u N pool nodes r mm mm'"
    then show ?thesis using refused_meets [OF ok] by blast
  qed
qed

lemma contiguous_meets:
  assumes ok: "mm_ok mm" and N: "0 < N" and p: "fst (DecodeOption opt) < PoolCount"
    and i: "0 \<le> GetAlignedBlockIndex N (2 ^ k)" and al: "AllocateAndOpenContinuous N (2 ^ k) opt mm = Some (addr, mm')"
  shows "\<exists>a. meets a mm mm'"
proof -
  obtain pool dir where d: "DecodeOption opt = (pool, dir)" by fastforce
  let ?u = "mm_has_optimized_process mm ! pool"
  obtain j where j: "GetAlignedBlockIndex N (2 ^ k) = int j" using i nonneg_int_cases by blast
  have "(\<exists>s. {s..<s + N} \<subseteq> pool_free pool mm \<and> mm_acts (on_pages {s..<s + N} (first_opened ?u)) mm mm') \<or> mm_acts (\<lambda>p v. v) mm mm'"
    by (rule AllocateAndOpenContinuous_spec [OF ok d _ N j refl]) (use al p d in \<open>auto split: if_splits\<close>)
  then show ?thesis
  proof
    assume "\<exists>s. {s..<s + N} \<subseteq> pool_free pool mm \<and> mm_acts (on_pages {s..<s + N} (first_opened ?u)) mm mm'"
    then show ?thesis using first_opened_meets [OF ok] by blast
  next
    assume "mm_acts (\<lambda>p v. v) mm mm'"
    note A = mm_actsD [OF this]
    show ?thesis using meets_none [OF A(1) frame_layout [OF A(2)] ok] A(4) by auto
  qed
qed

lemma process_meets:
  assumes ok: "mm_ok mm" and N: "0 < N" and p: "fst (DecodeOption opt) < PoolCount"
    and al: "AllocateForProcess N opt process_id v ([], nodes, mm) = Some (ResultSuccess, out, nodes', mm1)"
    and op: "pg_OpenFirst out mm1 = Some mm'"
  shows "\<exists>a. meets a mm mm'"
proof -
  obtain pool dir where d: "DecodeOption opt = (pool, dir)" by fastforce
  have P: "pg_ok out" "group_pages out \<subseteq> pool_free pool mm" "mm_ok mm1" "mm_frame mm mm1"
    "\<forall>p\<in>mm_pages mm. pv_free (mm_view mm1 p) = (pv_free (mm_view mm p) \<and> p \<notin> group_pages out) \<and>
       pv_refs (mm_view mm1 p) = pv_refs (mm_view mm p)"
    by (rule AllocateForProcess_spec [OF ok d _ N refl refl, of process_id v nodes]; use al p d in simp)+
  have sub: "group_pages out \<subseteq> mm_pages mm" and f: "\<forall>p\<in>group_pages out. pv_free (mm_view mm p)"
    using P(2) pool_free_pages by (auto simp: pool_free_def)
  have pg1: "mm_pages mm1 = mm_pages mm" using mm_frameD(6) [OF P(4)] .
  have "openable (mm_view mm1 p)" if "p \<in> group_pages out" for p
    using that P(5) sub f mm_free_refs [OF ok, of p] by auto
  then have a: "mm_acts (on_pages (group_pages out) (pv_refs_update Suc)) mm1 mm'"
    using open_first.each_node_acts [OF P(3,1)] sub pg1 op by (auto simp: group_loops)
  note A = mm_actsD [OF a]
  have "meets (\<lambda>p. if p \<in> group_pages out then 1 else account_of mm p, lost_of mm) mm mm'"
  proof (rule meets_take [OF A(1) _ ok sub f])
    show "same_places mm mm'" by (rule same_places_trans [OF frame_layout [OF P(4)] frame_layout [OF A(2)]])
  qed (use A(4) P(5) f mm_free_refs [OF ok] pg1 in auto)
  then show ?thesis by blast
qed

lemma process_refused_meets:
  assumes ok: "mm_ok mm" and N: "0 < N" and p: "fst (DecodeOption opt) < PoolCount"
    and al: "AllocateForProcess N opt process_id v ([], nodes, mm) = Some (r, out, nodes', mm')" "r \<noteq> ResultSuccess"
  shows "\<exists>a. meets a mm mm'"
proof -
  obtain pool dir where d: "DecodeOption opt = (pool, dir)" by fastforce
  have "\<exists>u. group_refused u N pool nodes r mm mm'"
    by (rule AllocateForProcess_spec [OF ok d _ N refl refl, of process_id v nodes]) (use al p d in auto)
  then show ?thesis using refused_meets [OF ok] by blast
qed

lemma open_meets:
  assumes ok: "mm_ok mm" and m: "may_open S mm" and a: "\<exists>mm1. r = Some mm1 \<and> mm_acts (on_pages S (pv_refs_update Suc)) mm mm1"
    and r: "r = Some mm'"
  shows "\<exists>a. meets a mm mm'"
  using meets_share [OF ok, of S mm'] m a r by (auto simp: may_open_def)

lemma close_meets:
  assumes ok: "mm_ok mm" and m: "may_close S mm" and a: "\<exists>mm1. r = Some mm1 \<and> mm_acts (on_pages S closed_view) mm mm1"
    and r: "r = Some mm'"
  shows "\<exists>a. meets a mm mm'"
  using meets_drop [OF ok, of S mm'] m a r by (auto simp: may_close_def)

lemma may_open_openable: "mm_ok mm \<Longrightarrow> may_open S mm \<Longrightarrow> p \<in> S \<Longrightarrow> openable (mm_view mm p)"
  unfolding may_open_def using mm_free_refs [of mm p] subsetD [of S "mm_pages mm" p] by auto

lemma optimize_meets:
  assumes ok: "mm_ok mm" and p: "pool < PoolCount"
    and al: "mm_InitializeOptimizedMemory process_id pool mm = Some (r, mm')"
  shows "\<exists>a. meets a mm mm'"
proof -
  have M: "mm_ok mm'" "same_places mm mm'" "\<forall>p\<in>mm_pages mm. pv_refs (mm_view mm' p) = pv_refs (mm_view mm p) \<and>
      pv_free (mm_view mm' p) = pv_free (mm_view mm p)"
    by (rule InitializeOptimizedMemory_spec [OF ok p, of process_id]; use al in force)+
  show ?thesis using meets_none [OF M(1,2) ok M(3)] by blast
qed

lemma unoptimize_meets:
  assumes ok: "mm_ok mm" and al: "mm_FinalizeOptimizedMemory process_id pool mm = Some mm'"
  shows "\<exists>a. meets a mm mm'"
proof -
  have "mm' = mm \<or> mm' = mm\<lparr>mm_optimized_process_ids := mm_optimized_process_ids mm,
      mm_has_optimized_process := (mm_has_optimized_process mm)[pool := False]\<rparr>"
    using al by (auto simp: mm_FinalizeOptimizedMemory_def split: if_splits)
  then have "mm_ok mm' \<and> same_places mm mm' \<and> mm_view mm' = mm_view mm"
    using with_optimized_ok(1-3) [OF ok, of "mm_optimized_process_ids mm"] ok by (auto simp: mm_ok_def)
  then show ?thesis using meets_none [of mm' mm] ok by auto
qed

text \<open>Every step meets one of the specification.\<close>

lemma step_meets:
  assumes ok: "mm_ok mm" and step: "mm_step mm mm'"
  shows "\<exists>a. meets a mm mm'"
  using step
proof (cases rule: mm_step.cases)
  case (open_pages s n)
  show ?thesis
    by (rule open_meets [OF ok open_pages(1) _ open_pages(2)], unfold mm_Open_def, rule opened.each_part_acts [OF ok])
      (use open_pages(1) may_open_openable [OF ok] in \<open>auto simp: may_open_def\<close>)
next
  case (close_pages s n)
  show ?thesis
    by (rule close_meets [OF ok close_pages(1) _ close_pages(2)], unfold mm_Close_def, rule closing.each_part_acts [OF ok])
      (use close_pages(1) in \<open>auto simp: may_close_def\<close>)
next
  case (open_group pg)
  show ?thesis
    by (rule open_meets [OF ok open_group(2) _ open_group(3)], unfold group_loops, rule opened.each_node_acts [OF ok open_group(1)])
      (use open_group(2) may_open_openable [OF ok] in \<open>auto simp: may_open_def\<close>)
next
  case (close_group pg nodes pg' nodes')
  have r: "pg_Close pg mm = Some mm'" using close_group(3) by (auto simp: CloseAndReset_def)
  show ?thesis
    by (rule close_meets [OF ok close_group(2) _ r], unfold group_loops, rule closing.each_node_acts [OF ok close_group(1)])
      (use close_group(2) in \<open>auto simp: may_close_def\<close>)
next
  case allocate
  then show ?thesis by (rule allocate_meets [OF ok])
next
  case contiguous
  then show ?thesis by (rule contiguous_meets [OF ok])
next
  case process
  then show ?thesis by (rule process_meets [OF ok])
next
  case process_refused
  then show ?thesis by (rule process_refused_meets [OF ok])
next
  case optimize
  then show ?thesis by (rule optimize_meets [OF ok])
next
  case (unoptimize pool pid)
  from unoptimize(2) show ?thesis by (rule unoptimize_meets [OF ok])
qed

abbreviation mm_reachable :: "KMemoryManager \<Rightarrow> KMemoryManager \<Rightarrow> bool" where
  "mm_reachable \<equiv> mm_step\<^sup>*\<^sup>*"

lemma reachable_accounts:
  assumes "mm_reachable mm mm'" "mm_ok mm"
  shows "mm_ok mm' \<and> lost_of mm' \<subseteq> lost_of mm \<union> seam_pages mm \<and> same_places mm mm' \<and>
    (account_step (mm_pages mm))\<^sup>*\<^sup>* (books mm) (books mm')"
  using assms
proof (induction rule: rtranclp_induct)
  case base
  then show ?case by simp
next
  case (step y z)
  then have y: "mm_ok y" "lost_of y \<subseteq> lost_of mm \<union> seam_pages mm" "same_places mm y" "(account_step (mm_pages mm))\<^sup>*\<^sup>* (books mm) (books y)" by simp_all
  obtain a where "meets a y z" using step_meets [OF y(1) step.hyps(2)] by blast
  note M = meetsD [OF this]
  have "account_step (mm_pages mm) (books y) (books z)" using M(1) same_placesD(2) [OF y(3)] by simp
  with M y same_places_trans [OF y(3) M(4)] same_places_seams [OF y(3)] show ?case by (auto intro: rtranclp.rtrancl_into_rtrancl)
qed

end
