(* ===== verification/Memory_Manager_Laws.thy ===== *)
theory Memory_Manager_Laws
  imports Memory_Manager_Steps
begin

text \<open>
  The properties of the memory manager: initialisation, allocation of groups and of contiguous pages,
  references, the account of pages over all sequences of operations, and what a refused request of a
  pool with adjacent managers loses.
\<close>

section \<open>Pages lost by a refused request\<close>

lemma page_shift_0: "2 ^ page_shift 0 = (1 :: nat)"
  by (simp add: page_shift_table)

lemma allocate_single:
  assumes ok: "mm_ok mm" and m: "m < mm_num_managers mm" and s: "im_pages (mm_managers mm ! m) = {s}"
    and al: "im_AllocateBlock 0 random (mm_managers mm ! m) = (addr, im')" and mm': "mm' = mm\<lparr>mm_managers := (mm_managers mm)[m := im']\<rparr>"
  shows "addr = (if pv_free (mm_view mm s) then s * PageSize else 0)" "0 < s"
    "mm_acts (on_pages {s} (pv_free_update (\<lambda>_. False))) mm mm'"
proof -
  let ?im = "mm_managers mm ! m"
  note im = mm_okD(1) [OF ok m]
  have sv: "mm_view mm s = im_view ?im s" by (rule mm_view_in [OF ok m]) (simp add: s)
  have fp: "free_pages (im_heap ?im) = (if pv_free (mm_view mm s) then {s} else {})" using free_pages_view [OF im] s sv by auto
  have one: "block_pages page_shift 0 a = {a}" for a using page_shift_0 by (auto simp: block_pages_def)
  note A = AllocateBlock_acts [OF im _ al, unfolded one page_shift_0]
  show s0: "0 < s" using impl_okD(5,7) [OF im] s by auto
  have "addr = (if pv_free (mm_view mm s) then s * PageSize else 0) \<and> acts {s} (pv_free_update (\<lambda>_. False)) ?im im'"
  proof (cases "pv_free (mm_view mm s)")
    case True
    then have "addr \<noteq> 0" using A fp by (auto split: if_splits)
    with A s obtain t where "addr = t * PageSize" "{t..<t + 1} \<subseteq> {s}" "acts {t..<t + 1} (pv_free_update (\<lambda>_. False)) ?im im'" by auto
    moreover from this have "t = s" by auto
    ultimately show ?thesis using True by simp
  next
    case False
    then have "addr = 0" using A s sv by (auto split: if_splits)
    with A have "acts {} (pv_free_update (\<lambda>_. False)) ?im im'" by simp
    then have "acts {s} (pv_free_update (\<lambda>_. False)) ?im im'" using False sv by (auto simp: acts_def)
    with False \<open>addr = 0\<close> show ?thesis by simp
  qed
  then show "addr = (if pv_free (mm_view mm s) then s * PageSize else 0)"
    "mm_acts (on_pages {s} (pv_free_update (\<lambda>_. False))) mm mm'"
    using manager_acts [OF ok m, of "{s}"] s by (auto simp: mm')
qed

lemma take_single:
  assumes ok: "mm_ok (gs_mm st)" and m: "m < mm_num_managers (gs_mm st)" and s: "im_pages (mm_managers (gs_mm st) ! m) = {s}"
    and f: "pv_free (mm_view (gs_mm st) s)" and n: "0 < gs_num_pages st"
    and add: "AddBlock (s * PageSize) 1 (gs_out st) (gs_nodes st) = (ResultSuccess, out, nodes)"
  shows "\<exists>mm'. take_blocks 0 1 False random m st =
      (ResultSuccess, \<lparr>gs_mm = mm', gs_out = out, gs_nodes = nodes, gs_num_pages = gs_num_pages st - 1\<rparr>) \<and>
    mm_acts (on_pages {s} (taken False)) (gs_mm st) mm'"
proof -
  have tk: "pv_free_update (\<lambda>_. False) = taken False" by (auto simp: taken_def fun_eq_iff)
  obtain addr im1 where a1: "im_AllocateBlock 0 random (mm_managers (gs_mm st) ! m) = (addr, im1)" by fastforce
  define mm1 where "mm1 = (gs_mm st)\<lparr>mm_managers := (mm_managers (gs_mm st))[m := im1]\<rparr>"
  note A = allocate_single [OF ok m s a1 mm1_def]
  let ?st = "\<lparr>gs_mm = mm1, gs_out = out, gs_nodes = nodes, gs_num_pages = gs_num_pages st - 1\<rparr>"
  have "take_blocks 0 1 False random m st = take_blocks 0 1 False random m ?st"
    using A(1,2) f n a1 add by (subst take_blocks.simps) (simp add: mm1_def Let_def)
  moreover have "\<exists>mm'. take_blocks 0 1 False random m ?st = (ResultSuccess, ?st\<lparr>gs_mm := mm'\<rparr>) \<and>
      mm_acts (on_pages {s} (pv_free_update (\<lambda>_. False))) (gs_mm st) mm'"
  proof (cases "1 \<le> gs_num_pages ?st")
    case False
    then have "take_blocks 0 1 False random m ?st = (ResultSuccess, ?st)" by (subst take_blocks.simps) simp
    with A(3) show ?thesis by auto
  next
    case True
    obtain addr2 im2 where a2: "im_AllocateBlock 0 random (mm_managers mm1 ! m) = (addr2, im2)" by fastforce
    define mm2 where "mm2 = mm1\<lparr>mm_managers := (mm_managers mm1)[m := im2]\<rparr>"
    note M = mm_actsD [OF A(3)] mm_frameD [OF mm_actsD(2) [OF A(3)]]
    have "s \<in> mm_pages (gs_mm st)" using m s by (auto simp: mm_pages_def)
    then have "\<not> pv_free (mm_view mm1 s)" using M(4) by simp
    moreover note B = allocate_single [OF M(1) _ _ a2 mm2_def, of s, unfolded M(8,10)]
    ultimately have "take_blocks 0 1 False random m ?st = (ResultSuccess, ?st\<lparr>gs_mm := mm2\<rparr>)"
      using a2 True m s by (subst take_blocks.simps) (simp add: mm2_def)
    moreover have "mm_acts (on_pages {s} (pv_free_update (\<lambda>_. False))) (gs_mm st) mm2"
      by (rule mm_acts_cong [OF mm_acts_trans [OF A(3) B(3)]]) (use m s in auto)
    ultimately show ?thesis by blast
  qed
  ultimately show ?thesis unfolding tk [symmetric] by auto
qed

lemma GetBlockIndex_small:
  assumes "0 < N" "N < 16"
  shows "GetBlockIndex N = 0"
proof -
  have l: "rev [0..<NumMemoryBlockPageShifts] = [6, 5, 4, 3, 2, 1, 0]" by (simp add: NumMemoryBlockPageShifts_def upt_conv_Cons)
  show ?thesis unfolding GetBlockIndex_def l using assms by (simp add: MemoryBlockPageShifts_def PageSize_def)
qed

lemma bi_pages [simp]:
  assumes "s + 1 < 2 ^ 32"
  shows "unat (of_nat s :: u32) = s" "unat (of_nat s + 1 :: u32) = s + 1"
proof -
  show s: "unat (of_nat s :: u32) = s" using assms by (intro unat_of_nat32) simp
  have "of_nat s + 1 = (of_nat (s + 1) :: u32)" by simp
  then show "unat (of_nat s + 1 :: u32) = s + 1" using assms unat_of_nat32 by metis
qed

text \<open>Two pages that follow one another make one node, whichever managers they come from.\<close>

lemma two_pages_one_node:
  assumes s: "0 < s" "s + 2 < 2 ^ 32" and it: "it = \<lparr>bi_page_index = of_nat s, bi_num_pages = 2\<rparr>" and n: "0 < nodes"
  shows "AddBlock (s * PageSize) 1 [] nodes = (ResultSuccess, [bi_Initialize (s * PageSize) 1], nodes - 1)"
    "AddBlock ((s + 1) * PageSize) 1 [bi_Initialize (s * PageSize) 1] (nodes - 1) = (ResultSuccess, [it], nodes - 1)"
    "pg_ok [it]" "node_pages it = {s, s + 1}" "bi_GetAddress it = s * PageSize"
proof -
  have s1: "s + 1 < 2 ^ 32" using s(2) by simp
  show "AddBlock (s * PageSize) 1 [] nodes = (ResultSuccess, [bi_Initialize (s * PageSize) 1], nodes - 1)"
    using n by (simp add: AddBlock_def new_node_def)
  have "bi_GetEndAddress (bi_Initialize (s * PageSize) 1) = (s + 1) * PageSize"
    using bi_pages [OF s1] by (simp add: bi_GetEndAddress_def bi_Initialize_def)
  then show "AddBlock ((s + 1) * PageSize) 1 [bi_Initialize (s * PageSize) 1] (nodes - 1) = (ResultSuccess, [it], nodes - 1)"
    by (simp add: AddBlock_def TryConcatenate_def it bi_Initialize_def)
  show "node_pages it = {s, s + 1}" "bi_GetAddress it = s * PageSize"
    using bi_pages [OF s1] by (auto simp: node_pages_def it bi_GetAddress_def)
  show "pg_ok [it]" using s bi_pages [OF s1] by (simp add: node_ok_def it)
qed

lemma single_page:
  assumes "impl_ok im" "im_pages im = {s}"
  shows "0 < s \<and> s + 1 < 2 ^ 32"
proof -
  note D = impl_okD [OF assms(1)]
  have "base_page im \<in> im_pages im" unfolding D(5) using D(6) by simp
  then have "base_page im = s" using assms(2) by simp
  with D(6-8) show ?thesis by linarith
qed

lemma refused_request_leaks:
  assumes ok: "mm_ok mm" and opt: "DecodeOption opt = (pool, dir)" "pool < PoolCount" and ms: "pool_managers pool dir mm = Some [a, b]"
    and pg: "im_pages (mm_managers mm ! a) = {s}" "im_pages (mm_managers mm ! b) = {s + 1}"
    and f: "pv_free (mm_view mm s)" "pv_free (mm_view mm (s + 1))" and u: "\<not> mm_has_optimized_process mm ! pool"
    and N: "2 < N" "N < 16" "0 < nodes"
  obtains mm' where "AllocateAndOpen N opt ([], nodes, mm) = Some (ResultOutOfMemory, [], nodes, mm')"
    "mm_acts (on_pages {s + 1} (taken False)) mm mm'" "{s, s + 1} \<subseteq> mm_pages mm"
proof -
  obtain ms' where "pool_managers pool dir mm = Some ms'" "set ms' = {m. m < mm_num_managers mm \<and> im_pool (mm_managers mm ! m) = pool}"
    using mm_poolD [OF ok opt(2)] by blast
  then have "set [a, b] = {m. m < mm_num_managers mm \<and> im_pool (mm_managers mm ! m) = pool}" using ms by simp
  from equalityD1 [OF this] have ab: "a < mm_num_managers mm" "b < mm_num_managers mm" by simp_all
  have in_mm: "s \<in> mm_pages mm" "s + 1 \<in> mm_pages mm" using ab pg by (auto simp: mm_pages_def)
  have s: "0 < s" "s + 2 < 2 ^ 32"
    using single_page [OF mm_okD(1) [OF ok ab(1)] pg(1)] single_page [OF mm_okD(1) [OF ok ab(2)] pg(2)] by simp_all
  define it where "it = \<lparr>bi_page_index = of_nat s :: u32, bi_num_pages = 2 :: u32\<rparr>"
  note two = two_pages_one_node [OF s it_def N(3)]
  let ?st = "\<lparr>gs_mm = mm, gs_out = [], gs_nodes = nodes, gs_num_pages = N\<rparr>"
  obtain mm1 where t1: "take_blocks 0 1 False True a ?st = (ResultSuccess,
      \<lparr>gs_mm = mm1, gs_out = [bi_Initialize (s * PageSize) 1], gs_nodes = nodes - 1, gs_num_pages = N - 1\<rparr>)"
    and a1: "mm_acts (on_pages {s} (taken False)) mm mm1"
    using take_single [of ?st a s _ _ True] ok ab(1) pg(1) f(1) N two(1) by auto
  note A1 = mm_actsD [OF a1] mm_frameD [OF mm_actsD(2) [OF a1]]
  let ?st1 = "\<lparr>gs_mm = mm1, gs_out = [bi_Initialize (s * PageSize) 1], gs_nodes = nodes - 1, gs_num_pages = N - 1\<rparr>"
  obtain mm2 where t2: "take_blocks 0 1 False True b ?st1 = (ResultSuccess,
      \<lparr>gs_mm = mm2, gs_out = [it], gs_nodes = nodes - 1, gs_num_pages = N - 2\<rparr>)"
    and a2: "mm_acts (on_pages {s + 1} (taken False)) mm1 mm2"
    using take_single [of ?st1 b "s + 1" "[it]" "nodes - 1" True] A1 ab(2) pg(2) f(2) N two(2) in_mm by (auto simp: numeral_2_eq_2)
  have a12: "mm_acts (on_pages {s, s + 1} (taken False)) mm mm2" by (rule mm_acts_cong [OF mm_acts_trans [OF a1 a2]]) auto
  note A2 = mm_actsD [OF a12] mm_frameD [OF mm_actsD(2) [OF a12]]
  have fp: "first_part mm2 it = {s}"
    using mm_okD(2) [OF ok ab(1), of s] pg(1) two(4,5) A2 by (auto simp: first_part_def)
  have "\<exists>mm3. give_back [it] mm2 = Some mm3 \<and> mm_acts (on_pages (\<Union>it\<in>set [it]. first_part mm2 it) (pv_free_update (\<lambda>_. True))) mm2 mm3"
    by (rule give_back_acts [OF A2(1) two(3)]) (use two(4) in_mm A2 f mm_free_refs [OF ok] in auto)
  then obtain mm3 where g: "give_back [it] mm2 = Some mm3" and a3: "mm_acts (on_pages {s} (pv_free_update (\<lambda>_. True))) mm2 mm3"
    by (auto simp: fp)
  have tk: "(taken False v)\<lparr>pv_free := True\<rparr> = v" if "pv_free v" for v using that by (cases v) (simp add: taken_def)
  have "mm_acts (on_pages {s + 1} (taken False)) mm mm3"
    by (rule mm_acts_cong [OF mm_acts_trans [OF a12 a3]]) (use f(1) tk in auto)
  moreover have "AllocateAndOpen N opt ([], nodes, mm) = Some (ResultOutOfMemory, [], nodes, mm3)"
  proof -
    have "take_sizes (nat 0 + 1) False True [a, b] ?st = (ResultSuccess, \<lparr>gs_mm = mm2, gs_out = [it], gs_nodes = nodes - 1, gs_num_pages = N - 2\<rparr>)"
      using t1 t2 N GetBlockNumPages_pages [of 0] page_shift_0 by simp
    then have "AllocatePageGroupImpl N pool dir False True ([], nodes, mm) = Some (ResultOutOfMemory, [], nodes, mm3)"
      using GetBlockIndex_small [of N] N ms g by (simp add: AllocatePageGroupImpl_def pg_Finalize_def)
    then show ?thesis using opt u N by (simp add: AllocateAndOpen_def)
  qed
  ultimately show ?thesis using that in_mm by blast
qed

section \<open>Example layouts\<close>

definition pool_region :: "nat \<Rightarrow> nat \<Rightarrow> nat \<Rightarrow> u32 \<Rightarrow> KMemoryRegion" where
  "pool_region a b attr type =
     \<lparr>r_address = a, r_last_address = b, r_pair_address = 2 ^ 64 - 1, r_attributes = attr, r_type_id = type\<rparr>"

text \<open>Two pools, apart from each other; and one pool whose two managers are adjacent and have one page each.\<close>

definition sample_tree :: region_tree where
  "sample_tree = [pool_region 0x80000000 0x8000FFFF 0 KMemoryRegionType_DramApplicationPool,
     pool_region 0x80020000 0x8002FFFF 1 KMemoryRegionType_DramSystemPool]"

definition seam_tree :: region_tree where
  "seam_tree = [pool_region 0x80000000 0x80000FFF 0 KMemoryRegionType_DramApplicationPool,
     pool_region 0x80001000 0x80001FFF 1 KMemoryRegionType_DramApplicationPool]"

lemmas type_values = KMemoryRegionType_DramUserPool_def KMemoryRegionType_DramApplicationPool_def
  KMemoryRegionType_DramAppletPool_def KMemoryRegionType_DramSystemPool_def KMemoryRegionType_DramSystemNonSecurePool_def
  KMemoryRegionAttr_LinearMapped_def KMemoryRegionAttr_NoUserMap_def KMemoryRegionAttr_CarveoutProtected_def

lemma user_pool_region [simp]:
  "user_region (pool_region a b k KMemoryRegionType_DramApplicationPool)"
  "user_region (pool_region a b k KMemoryRegionType_DramSystemPool)"
  by (simp_all add: user_region_def pool_region_def IsDerivedFrom_def type_values)

lemma pool_of_region [simp]:
  "GetPoolFromMemoryRegionType KMemoryRegionType_DramApplicationPool = Some 0"
  "GetPoolFromMemoryRegionType KMemoryRegionType_DramSystemPool = Some 2"
  by (simp_all add: GetPoolFromMemoryRegionType_def type_values)

lemma pool_region_fields [simp]:
  "r_address (pool_region a b k t) = a" "r_last_address (pool_region a b k t) = b" "r_attributes (pool_region a b k t) = k"
  "r_type_id (pool_region a b k t) = t"
  by (simp_all add: pool_region_def)

lemma sample_regions [simp]:
  "regions_of 0 sample_tree = [pool_region 0x80000000 0x8000FFFF 0 KMemoryRegionType_DramApplicationPool]"
  "regions_of (Suc 0) sample_tree = [pool_region 0x80020000 0x8002FFFF 1 KMemoryRegionType_DramSystemPool]"
  "regions_of 0 seam_tree = [pool_region 0x80000000 0x80000FFF 0 KMemoryRegionType_DramApplicationPool]"
  "regions_of (Suc 0) seam_tree = [pool_region 0x80001000 0x80001FFF 1 KMemoryRegionType_DramApplicationPool]"
  by (simp_all add: regions_of_def sample_tree_def seam_tree_def)

lemma less_2_cases: "(\<forall>k<(2::nat). P k) \<longleftrightarrow> P 0 \<and> P (Suc 0)"
  by (auto simp: less_2_cases_iff)

lemma sample_layouts: "layout_ok 2 sample_tree" "layout_ok 2 seam_tree"
  unfolding layout_ok_def less_2_cases sample_regions
  by (simp_all add: sample_tree_def seam_tree_def MaxManagerCount_def region_ok_def PageSize_def)

lemma sample_extents:
  "extent_pages sample_tree 0 = {0x80000..<0x80010}" "extent_pages sample_tree 1 = {0x80020..<0x80030}"
  "extent_pages seam_tree 0 = {0x80000}" "extent_pages seam_tree 1 = {0x80001}"
  "extent_pool sample_tree 0 = 0" "extent_pool sample_tree 1 = 2" "extent_pool seam_tree 0 = 0" "extent_pool seam_tree 1 = 0"
  by (auto simp: extent_pages_def extent_start_def extent_end_def extent_pool_def PageSize_def)

definition sample_mm :: KMemoryManager where
  "sample_mm = the (mm_Initialize 0x100000 0x80004000 0x2000 0xA0000000
     (new_KMemoryManager 1 sample_tree (InitializeLinearMemoryRegionTree sample_tree)))"

definition seam_mm :: KMemoryManager where
  "seam_mm = the (mm_Initialize 0x100000 0x90000000 0x1000 0xA0000000
     (new_KMemoryManager 1 seam_tree (InitializeLinearMemoryRegionTree seam_tree)))"

lemma sample_hyps:
  "\<forall>k<2. extent_size sample_tree k \<le> 0x100000" "binary_ok 0x80004000 0x2000 sample_tree"
  "\<forall>k<2. extent_size seam_tree k \<le> 0x100000" "binary_ok 0x90000000 0x1000 seam_tree"
  unfolding less_2_cases extent_size_def extent_start_def extent_end_def sample_regions
  by (simp_all add: binary_ok_def sample_tree_def seam_tree_def PageSize_def)

lemma the_someI: "\<exists>x. e = Some x \<and> P x \<Longrightarrow> e = Some (the e) \<and> P (the e)"
  by auto

lemma sample_start:
  "mm_Initialize 0x100000 0x80004000 0x2000 0xA0000000
     (new_KMemoryManager 1 sample_tree (InitializeLinearMemoryRegionTree sample_tree)) = Some sample_mm"
  "mm_ok sample_mm" "mm_num_managers sample_mm = 2" "mm_pages sample_mm = {0x80000..<0x80010} \<union> {0x80020..<0x80030}"
  "mm_has_optimized_process sample_mm = replicate PoolCount False"
  "im_pages (mm_managers sample_mm ! 0) = {0x80000..<0x80010}" "im_pages (mm_managers sample_mm ! 1) = {0x80020..<0x80030}"
  "im_pool (mm_managers sample_mm ! 0) = 0" "im_pool (mm_managers sample_mm ! 1) = 2"
  "\<And>p. p \<in> mm_pages sample_mm \<Longrightarrow> mm_view sample_mm p =
     (if p \<in> {0x80004, 0x80005} then no_view\<lparr>pv_refs := 1\<rparr> else no_view\<lparr>pv_free := True\<rparr>)"
proof -
  have b: "binary_pages 0x80004000 0x2000 = {0x80004, 0x80005}" by (auto simp: binary_pages_def PageSize_def)
  have u: "user_pages sample_tree = {0x80000..<0x80010} \<union> {0x80020..<0x80030}"
    by (simp add: sample_tree_def region_pages_def PageSize_def) (simp add: user_pages_def)
  note S = the_someI [OF mm_Initialize_spec [OF sample_layouts(1) sample_hyps(1,2), where mgmt = "0xA0000000" and seed = 1],
    folded sample_mm_def, unfolded b u less_2_cases]
  then show "mm_Initialize 0x100000 0x80004000 0x2000 0xA0000000
     (new_KMemoryManager 1 sample_tree (InitializeLinearMemoryRegionTree sample_tree)) = Some sample_mm" by blast
  from S show "mm_ok sample_mm" "mm_num_managers sample_mm = 2" "mm_pages sample_mm = {0x80000..<0x80010} \<union> {0x80020..<0x80030}"
    "mm_has_optimized_process sample_mm = replicate PoolCount False" by blast+
  from S sample_extents show "im_pages (mm_managers sample_mm ! 0) = {0x80000..<0x80010}" "im_pages (mm_managers sample_mm ! 1) = {0x80020..<0x80030}"
    "im_pool (mm_managers sample_mm ! 0) = 0" "im_pool (mm_managers sample_mm ! 1) = 2" by (metis One_nat_def)+
  from S show "mm_view sample_mm p = (if p \<in> {0x80004, 0x80005} then no_view\<lparr>pv_refs := 1\<rparr> else no_view\<lparr>pv_free := True\<rparr>)"
    if "p \<in> mm_pages sample_mm" for p using that by metis
qed

lemma seam_start:
  "mm_ok seam_mm" "pool_managers 0 0 seam_mm = Some [0, 1]" "mm_has_optimized_process seam_mm = replicate PoolCount False"
  "im_pages (mm_managers seam_mm ! 0) = {0x80000}" "im_pages (mm_managers seam_mm ! 1) = {0x80001}"
  "\<And>p. p \<in> {0x80000, 0x80001} \<Longrightarrow> mm_view seam_mm p = no_view\<lparr>pv_free := True\<rparr>"
proof -
  have b: "binary_pages 0x90000000 0x1000 = {0x90000}" by (auto simp: binary_pages_def PageSize_def)
  have u: "user_pages seam_tree = {0x80000, 0x80001}"
    by (simp add: seam_tree_def region_pages_def PageSize_def) (auto simp: user_pages_def)
  have l: "pool_list seam_tree 0 2 = [0, 1]"
    using sample_extents by (simp add: pool_list_def upt_rec numeral_2_eq_2)
  note S = the_someI [OF mm_Initialize_spec [OF sample_layouts(2) sample_hyps(3,4), where mgmt = "0xA0000000" and seed = 1],
    folded seam_mm_def, unfolded b u less_2_cases]
  from S show "mm_ok seam_mm" "mm_has_optimized_process seam_mm = replicate PoolCount False" by blast+
  from S sample_extents show "im_pages (mm_managers seam_mm ! 0) = {0x80000}" "im_pages (mm_managers seam_mm ! 1) = {0x80001}"
    by (metis One_nat_def)+
  from S l show "pool_managers 0 0 seam_mm = Some [0, 1]" by (auto simp: PoolCount_def FromBack_def)
  from S show "mm_view seam_mm p = no_view\<lparr>pv_free := True\<rparr>" if "p \<in> {0x80000, 0x80001}" for p using that by auto
qed

lemma sample_views:
  "\<And>p. p \<in> {0x80000..<0x80010} \<Longrightarrow> mm_view sample_mm p =
     (if p \<in> {0x80004, 0x80005} then no_view\<lparr>pv_refs := 1\<rparr> else no_view\<lparr>pv_free := True\<rparr>)"
  "lost_of sample_mm = {}" "pool_free 0 sample_mm = {0x80000..<0x80010} - {0x80004, 0x80005}" "card (pool_free 0 sample_mm) = 14"
  "pool_seamless 0 sample_mm" "fst (DecodeOption 0) = 0" "DecodeOption 0 = (0, 0)" "0 < PoolCount" "\<not> mm_has_optimized_process sample_mm ! 0"
proof -
  show v: "\<And>p. p \<in> {0x80000..<0x80010} \<Longrightarrow> mm_view sample_mm p =
     (if p \<in> {0x80004, 0x80005} then no_view\<lparr>pv_refs := 1\<rparr> else no_view\<lparr>pv_free := True\<rparr>)"
    using sample_start(4,10) by auto
  show "lost_of sample_mm = {}" using sample_start(10) by (auto simp: lost_of_def)
  have m: "{m. m < mm_num_managers sample_mm \<and> im_pool (mm_managers sample_mm ! m) = 0} = {0}"
    using sample_start(3,8,9) by (auto simp: less_2_cases_iff)
  then have "pool_pages 0 sample_mm = {0x80000..<0x80010}" unfolding pool_pages_def m using sample_start(6) by simp
  then show pf: "pool_free 0 sample_mm = {0x80000..<0x80010} - {0x80004, 0x80005}" using v by (auto simp: pool_free_def split: if_splits)
  show "card (pool_free 0 sample_mm) = 14" unfolding pf by (subst card_Diff_subset) auto
  have one: "k = 0" if "k < mm_num_managers sample_mm" "im_pool (mm_managers sample_mm ! k) = 0" for k using m that by blast
  have "0 < m_heap_size (im_heap (mm_managers sample_mm ! 0))" using mm_okD(1) [OF sample_start(2), of 0] sample_start(3) by (simp add: impl_ok_def)
  then show "pool_seamless 0 sample_mm" unfolding pool_seamless_def by (auto dest!: one simp: heap_GetEndAddress_def)
  show "fst (DecodeOption 0) = 0" "DecodeOption 0 = (0, 0)" "0 < PoolCount" by (simp_all add: DecodeOption_def PoolCount_def)
  show "\<not> mm_has_optimized_process sample_mm ! 0" by (simp add: sample_start(5) PoolCount_def)
qed

section \<open>Initialisation\<close>

text \<open>
  Initialisation with any layout whose user pools are numbered without gaps succeeds: it makes one
  manager per number, gives them exactly the pages of the user pools, opens the pages of the initial
  process binary once and leaves every other page free.\<close>

theorem mm_Initialize_accounts:
  assumes "layout_ok n tree" "\<forall>k<n. extent_size tree k \<le> intended_size" "binary_ok ini_start ini_size tree"
  shows "\<exists>mm. mm_Initialize intended_size ini_start ini_size management_region
      (new_KMemoryManager seed tree (InitializeLinearMemoryRegionTree tree)) = Some mm \<and>
    mm_ok mm \<and> mm_num_managers mm = n \<and> mm_pages mm = user_pages tree \<and> lost_of mm = {} \<and>
    (\<forall>k<n. im_pages (mm_managers mm ! k) = extent_pages tree k \<and> im_pool (mm_managers mm ! k) = extent_pool tree k) \<and>
    (\<forall>p\<in>user_pages tree. account_of mm p = (if p \<in> binary_pages ini_start ini_size then 1 else 0))"
proof -
  obtain mm where mm: "mm_Initialize intended_size ini_start ini_size management_region
      (new_KMemoryManager seed tree (InitializeLinearMemoryRegionTree tree)) = Some mm"
    "mm_ok mm" "mm_num_managers mm = n" "mm_pages mm = user_pages tree"
    "\<forall>k<n. im_pages (mm_managers mm ! k) = extent_pages tree k \<and> im_pool (mm_managers mm ! k) = extent_pool tree k"
    "\<forall>p\<in>user_pages tree. mm_view mm p =
      (if p \<in> binary_pages ini_start ini_size then no_view\<lparr>pv_refs := 1\<rparr> else no_view\<lparr>pv_free := True\<rparr>)"
    using mm_Initialize_spec [OF assms] by blast
  then have "lost_of mm = {}" "\<forall>p\<in>user_pages tree. account_of mm p = (if p \<in> binary_pages ini_start ini_size then 1 else 0)"
    by (auto simp: lost_of_def)
  with mm show ?thesis by blast
qed

theorem mm_Initialize_accounts_witness:
  "layout_ok 2 sample_tree \<and> extent_size sample_tree 0 \<le> 0x100000 \<and> extent_size sample_tree 1 \<le> 0x100000 \<and> binary_ok 0x80004000 0x2000 sample_tree \<and>
   (\<exists>mm. mm_Initialize 0x100000 0x80004000 0x2000 0xA0000000
      (new_KMemoryManager 1 sample_tree (InitializeLinearMemoryRegionTree sample_tree)) = Some mm \<and> lost_of mm = {})"
  using mm_Initialize_accounts [OF sample_layouts(1) sample_hyps(1,2), where management_region = "0xA0000000" and seed = 1] sample_layouts(1) sample_hyps(1,2) by auto

section \<open>Allocation of groups\<close>

text \<open>
  C19. A request for pages of a pool that has them succeeds when there are nodes enough: the group has
  exactly the requested number of pages, all of them were free pages of the pool, they are now open
  once, and no other page changes.\<close>

theorem AllocateAndOpen_exact:
  assumes ok: "mm_ok mm" and opt: "DecodeOption opt = (pool, dir)" "pool < PoolCount" and N: "0 < N"
    and enough: "N \<le> card (pool_free pool mm)" "N \<le> nodes"
  shows "\<exists>out nodes' mm'. AllocateAndOpen N opt ([], nodes, mm) = Some (ResultSuccess, out, nodes', mm') \<and>
    pg_ok out \<and> pg_GetNumPages out = N \<and> group_pages out \<subseteq> pool_free pool mm \<and> nodes' + length out = nodes \<and> mm_ok mm' \<and>
    (\<forall>p\<in>mm_pages mm. mm_view mm' p =
       (if p \<in> group_pages out then first_opened (mm_has_optimized_process mm ! pool) (mm_view mm p) else mm_view mm p))"
proof -
  have "\<exists>r out nodes' mm'. AllocateAndOpen N opt ([], nodes, mm) = Some (r, out, nodes', mm') \<and> r = ResultSuccess \<and> pg_ok out \<and>
      card (group_pages out) = N \<and> group_pages out \<subseteq> pool_free pool mm \<and> nodes' + length out = nodes \<and>
      mm_acts (on_pages (group_pages out) (first_opened (mm_has_optimized_process mm ! pool))) mm mm'"
    by (rule AllocateAndOpen_spec [OF ok opt N refl, of nodes]) (use enough in \<open>auto simp: group_refused_def\<close>)
  then obtain out nodes' mm' where R: "AllocateAndOpen N opt ([], nodes, mm) = Some (ResultSuccess, out, nodes', mm')" "pg_ok out"
      "card (group_pages out) = N" "group_pages out \<subseteq> pool_free pool mm" "nodes' + length out = nodes"
    and a: "mm_acts (on_pages (group_pages out) (first_opened (mm_has_optimized_process mm ! pool))) mm mm'" by blast
  have "\<forall>p\<in>mm_pages mm. mm_view mm' p =
      (if p \<in> group_pages out then first_opened (mm_has_optimized_process mm ! pool) (mm_view mm p) else mm_view mm p)"
    using mm_actsD(4) [OF a] by auto
  with R pg_GetNumPages_card [OF R(2)] mm_actsD(1) [OF a] show ?thesis by metis
qed

theorem AllocateAndOpen_exact_witness:
  "mm_ok sample_mm \<and> 10 \<le> card (pool_free 0 sample_mm) \<and>
   (\<exists>out nodes' mm'. AllocateAndOpen 10 0 ([], 20, sample_mm) = Some (ResultSuccess, out, nodes', mm') \<and> pg_GetNumPages out = 10)"
  using AllocateAndOpen_exact [OF sample_start(2) sample_views(7,8), of 10 20] sample_start(2) sample_views(4) by auto

text \<open>
  C28. A request fails only for want of pages or of nodes, and says which; the group stays empty and the
  nodes are returned. Unless the pool has managers that are adjacent, every page is as free and has as
  many references as before.\<close>

theorem AllocateAndOpen_refused:
  assumes ok: "mm_ok mm" and opt: "DecodeOption opt = (pool, dir)" "pool < PoolCount" and N: "0 < N"
    and r: "AllocateAndOpen N opt ([], nodes, mm) = Some (r, out, nodes', mm')" "r \<noteq> ResultSuccess"
  shows "(r = ResultOutOfMemory \<and> card (pool_free pool mm) < N \<or> r = ResultOutOfResource \<and> nodes < N) \<and>
    out = [] \<and> nodes' = nodes \<and> mm_ok mm' \<and>
    (pool_seamless pool mm \<longrightarrow> pool_free pool mm' = pool_free pool mm \<and> account_of mm' = account_of mm)"
proof -
  let ?u = "mm_has_optimized_process mm ! pool"
  have R: "out = [] \<and> nodes' = nodes \<and> group_refused ?u N pool nodes r mm mm'"
    by (rule AllocateAndOpen_spec [OF ok opt N refl, of nodes]) (use r in auto)
  then obtain T L where a: "mm_acts (\<lambda>p v. if p \<in> L then taken ?u v else if p \<in> T then untracked ?u v else v) mm mm'"
    and L: "pool_seamless pool mm \<longrightarrow> L = {}" by (auto simp: group_refused_def)
  note A = mm_actsD [OF a] and SL = same_placesD [OF frame_layout [OF mm_actsD(2) [OF a]]]
  have "pool_free pool mm' = pool_free pool mm \<and> account_of mm' = account_of mm" if "L = {}"
  proof -
    have v: "pv_free (mm_view mm' p) = pv_free (mm_view mm p)" "pv_refs (mm_view mm' p) = pv_refs (mm_view mm p)" if "p \<in> mm_pages mm" for p
      using A(4) [OF that] \<open>L = {}\<close> by (simp_all add: untracked_def)
    then show ?thesis using A(5) SL(3) [of pool] subsetD [OF pool_pages_subset [of pool mm]]
      by (auto simp: pool_free_def account_of_def fun_eq_iff)
  qed
  with R A(1) L show ?thesis by (auto simp: group_refused_def)
qed

theorem AllocateAndOpen_refused_witness:
  "mm_ok sample_mm \<and> (\<exists>mm'. AllocateAndOpen 15 0 ([], 20, sample_mm) = Some (ResultOutOfMemory, [], 20, mm') \<and>
     account_of mm' = account_of sample_mm)"
proof -
  have N: "0 < (15 :: nat)" by simp
  obtain r out nodes' mm' where r: "AllocateAndOpen 15 0 ([], 20, sample_mm) = Some (r, out, nodes', mm')"
    "r = ResultSuccess \<longrightarrow> card (group_pages out) = 15 \<and> group_pages out \<subseteq> pool_free 0 sample_mm"
    by (rule AllocateAndOpen_spec [OF sample_start(2) sample_views(7,8) N refl, of 20]) blast
  have "r \<noteq> ResultSuccess" using r(2) card_mono [of "pool_free 0 sample_mm" "group_pages out"] sample_views(4) by fastforce
  note r = r(1) this
  from AllocateAndOpen_refused [OF sample_start(2) sample_views(7,8) N r] r sample_start(2) sample_views(5) show ?thesis by auto
qed

text \<open>
  C29. An instance of the loss of pages by a refused request. The pool has two adjacent managers of one
  page each, both free, and is asked for more than two pages (and fewer than the next size of blocks).
  The two pages make one node, since they follow one another, and only the part of it in the manager
  of its first page is given back: the request fails and the second page is lost, neither free nor
  referenced.\<close>

theorem refused_allocation_leaks:
  assumes ok: "mm_ok mm" and opt: "DecodeOption opt = (pool, dir)" "pool < PoolCount" and ms: "pool_managers pool dir mm = Some [a, b]"
    and pg: "im_pages (mm_managers mm ! a) = {s}" "im_pages (mm_managers mm ! b) = {s + 1}"
    and f: "pv_free (mm_view mm s)" "pv_free (mm_view mm (s + 1))" and u: "\<not> mm_has_optimized_process mm ! pool"
    and N: "2 < N" "N < 16" "0 < nodes"
  shows "\<exists>mm'. AllocateAndOpen N opt ([], nodes, mm) = Some (ResultOutOfMemory, [], nodes, mm') \<and> pv_free (mm_view mm' s) \<and>
    \<not> pv_free (mm_view mm' (s + 1)) \<and> pv_refs (mm_view mm' (s + 1)) = 0 \<and> lost_of mm' = insert (s + 1) (lost_of mm)"
proof -
  obtain mm' where mm': "AllocateAndOpen N opt ([], nodes, mm) = Some (ResultOutOfMemory, [], nodes, mm')"
    "mm_acts (on_pages {s + 1} (taken False)) mm mm'" "{s, s + 1} \<subseteq> mm_pages mm" by (rule refused_request_leaks [OF assms])
  have v: "mm_view mm' p = (if p = s + 1 then taken False (mm_view mm p) else mm_view mm p)" if "p \<in> mm_pages mm" for p
    using mm_actsD(4) [OF mm'(2) that] by simp
  have 0: "pv_refs (mm_view mm (s + 1)) = 0" using mm_free_refs [OF ok, of "s + 1"] mm'(3) f(2) by simp
  have "lost_of mm' = insert (s + 1) (lost_of mm)"
    unfolding lost_of_def mm_actsD(5) [OF mm'(2)] using v 0 mm'(3) by (auto simp: taken_def split: if_splits)
  then show ?thesis using mm'(1,3) v [of s] v [of "s + 1"] f(1) 0 by (auto simp: taken_def)
qed

theorem refused_allocation_leaks_witness:
  "mm_ok seam_mm \<and> (\<exists>mm'. AllocateAndOpen 3 0 ([], 5, seam_mm) = Some (ResultOutOfMemory, [], 5, mm') \<and>
     \<not> pv_free (mm_view mm' 0x80001) \<and> pv_refs (mm_view mm' 0x80001) = 0)"
proof -
  have "\<not> mm_has_optimized_process seam_mm ! 0" by (simp add: seam_start(3) PoolCount_def)
  from refused_allocation_leaks [OF seam_start(1) sample_views(7,8) seam_start(2,4) _ _ _ this, of 3 5] seam_start(5) seam_start(6)
  show ?thesis using seam_start(1) by auto
qed

text \<open>
  A request for contiguous pages with an alignment succeeds exactly when one manager of the pool has
  a free block of the size the request is rounded up to. It then returns the address of an aligned
  run of free pages, which are open once afterwards, and changes no other page; otherwise it returns 0
  and changes none.\<close>

theorem AllocateAndOpenContinuous_exact:
  assumes "mm_ok mm" "DecodeOption opt = (pool, dir)" "pool < PoolCount" "0 < num_pages"
    "GetAlignedBlockIndex num_pages (2 ^ k) = int index"
  shows "\<exists>addr mm'. AllocateAndOpenContinuous num_pages (2 ^ k) opt mm = Some (addr, mm') \<and> mm_ok mm' \<and>
    (if \<exists>m<mm_num_managers mm. im_pool (mm_managers mm ! m) = pool \<and>
          (\<exists>a. block_pages page_shift index a \<subseteq> free_pages (im_heap (mm_managers mm ! m)))
     then \<exists>s. addr = s * PageSize \<and> addr \<noteq> 0 \<and> 2 ^ k dvd s \<and> {s..<s + num_pages} \<subseteq> pool_free pool mm \<and>
       (\<forall>p\<in>mm_pages mm. mm_view mm' p =
          (if p \<in> {s..<s + num_pages} then first_opened (mm_has_optimized_process mm ! pool) (mm_view mm p) else mm_view mm p))
     else addr = 0 \<and> (\<forall>p\<in>mm_pages mm. mm_view mm' p = mm_view mm p))"
proof -
  obtain addr mm' where r: "AllocateAndOpenContinuous num_pages (2 ^ k) opt mm = Some (addr, mm')"
    "if \<exists>m<mm_num_managers mm. im_pool (mm_managers mm ! m) = pool \<and>
        (\<exists>a. block_pages page_shift index a \<subseteq> free_pages (im_heap (mm_managers mm ! m)))
     then \<exists>s. addr = s * PageSize \<and> addr \<noteq> 0 \<and> 2 ^ k dvd s \<and> {s..<s + num_pages} \<subseteq> pool_free pool mm \<and>
       mm_acts (on_pages {s..<s + num_pages} (first_opened (mm_has_optimized_process mm ! pool))) mm mm'
     else addr = 0 \<and> mm_acts (\<lambda>p v. v) mm mm'"
    by (rule AllocateAndOpenContinuous_spec [OF assms refl])
  moreover from r(2) have "mm_ok mm'" by (auto simp: mm_acts_def split: if_splits)
  ultimately show ?thesis by (intro exI [of _ addr] exI [of _ mm']) (fastforce simp: mm_acts_def split: if_splits)
qed

theorem AllocateAndOpenContinuous_exact_witness:
  "mm_ok sample_mm \<and> GetAlignedBlockIndex 1 (2 ^ 0) = int 0 \<and>
   (\<exists>s mm'. AllocateAndOpenContinuous 1 (2 ^ 0) 0 sample_mm = Some (s * PageSize, mm') \<and> s \<in> pool_free 0 sample_mm \<and>
     mm_view mm' s = no_view\<lparr>pv_refs := 1\<rparr>)"
proof -
  have i: "GetAlignedBlockIndex 1 (2 ^ 0) = int 0"
    by (simp add: GetAlignedBlockIndex_def NumMemoryBlockPageShifts_def upt_conv_Cons MemoryBlockPageShifts_def PageSize_def)
  have 1: "0 < (1 :: nat)" by simp
  have "im_pages (mm_managers sample_mm ! 0) = {0x80000..<0x80010}" "0 < mm_num_managers sample_mm"
    using sample_start(3,6) by simp_all
  then have "0x80000 \<in> free_pages (im_heap (mm_managers sample_mm ! 0))"
    using free_pages_view [OF mm_okD(1) [OF sample_start(2), of 0]] mm_view_in [OF sample_start(2), of 0 "0x80000", symmetric] sample_views(1) [of "0x80000"] by simp
  then have b: "\<exists>m<mm_num_managers sample_mm. im_pool (mm_managers sample_mm ! m) = 0 \<and>
      (\<exists>a. block_pages page_shift 0 a \<subseteq> free_pages (im_heap (mm_managers sample_mm ! m)))"
    using sample_start(3,8) by (intro exI [of _ 0] conjI exI [of _ "0x80000"]) (auto simp: block_pages_def page_shift_table)
  from AllocateAndOpenContinuous_exact [OF sample_start(2) sample_views(7,8) 1 i, unfolded if_P [OF b]]
  obtain s mm' where s: "AllocateAndOpenContinuous 1 (2 ^ 0) 0 sample_mm = Some (s * PageSize, mm')" "{s..<s + 1} \<subseteq> pool_free 0 sample_mm"
    "\<forall>p\<in>mm_pages sample_mm. mm_view mm' p =
       (if p \<in> {s..<s + 1} then first_opened (mm_has_optimized_process sample_mm ! 0) (mm_view sample_mm p) else mm_view sample_mm p)" by blast
  then have sp: "s \<in> pool_free 0 sample_mm" by auto
  then have "mm_view sample_mm s = no_view\<lparr>pv_free := True\<rparr>" "s \<in> mm_pages sample_mm"
    using sample_views(1,3) sample_start(4) by auto
  then have "mm_view mm' s = no_view\<lparr>pv_refs := 1\<rparr>" using s(3) by (simp add: first_opened_def)
  with s(1) sp i sample_start(2) show ?thesis by blast
qed

section \<open>References\<close>

text \<open>
  C20. Closing a run of pages that may belong to several managers takes one reference from each of them
  and frees exactly those that had one, however the runs of pages that are freed together and the
  ends of the managers lie; no other page changes. Closing a group and resetting it does the same for
  all pages of the group and returns its nodes.\<close>

theorem Close_exact:
  assumes ok: "mm_ok mm" and n: "may_close {s..<s + num_pages} mm" and pg: "pg_ok pg" "may_close (group_pages pg) mm"
  shows "(\<exists>mm'. mm_Close (s * PageSize) num_pages mm = Some mm' \<and> mm_ok mm' \<and>
      (\<forall>p\<in>mm_pages mm. mm_view mm' p = (if p \<in> {s..<s + num_pages} then closed_view (mm_view mm p) else mm_view mm p))) \<and>
    (\<exists>mm'. CloseAndReset pg nodes mm = Some ([], nodes + length pg, mm') \<and> mm_ok mm' \<and>
      (\<forall>p\<in>mm_pages mm. mm_view mm' p = (if p \<in> group_pages pg then closed_view (mm_view mm p) else mm_view mm p)))"
proof -
  have "\<exists>mm'. mm_Close (s * PageSize) num_pages mm = Some mm' \<and> mm_acts (on_pages {s..<s + num_pages} closed_view) mm mm'"
    unfolding mm_Close_def by (rule closing.each_part_acts [OF ok]) (use n in \<open>auto simp: may_close_def\<close>)
  moreover have "\<exists>mm'. pg_Close pg mm = Some mm' \<and> mm_acts (on_pages (group_pages pg) closed_view) mm mm'"
    unfolding group_loops by (rule closing.each_node_acts [OF ok pg(1)]) (use pg(2) in \<open>auto simp: may_close_def\<close>)
  ultimately show ?thesis unfolding mm_acts_def CloseAndReset_def by auto
qed

definition binary_node :: KBlockInfo where
  "binary_node = \<lparr>bi_page_index = 0x80004, bi_num_pages = 2\<rparr>"

lemma sample_binary:
  "pg_ok [binary_node]" "group_pages [binary_node] = {0x80004, 0x80005}"
  "may_close {0x80004..<0x80004 + 2} sample_mm" "may_close (group_pages [binary_node]) sample_mm" "may_open (group_pages [binary_node]) sample_mm"
proof -
  show g: "group_pages [binary_node] = {0x80004, 0x80005}" by (auto simp: node_pages_def binary_node_def)
  show "pg_ok [binary_node]" by (simp add: node_ok_def binary_node_def)
  have e: "{0x80004..<0x80004 + 2} = {0x80004, 0x80005 :: nat}" by auto
  have "\<forall>p\<in>{0x80004, 0x80005}. p \<in> mm_pages sample_mm \<and> mm_view sample_mm p = no_view\<lparr>pv_refs := 1\<rparr>"
    using sample_start(4) sample_views(1) by simp
  then show "may_close {0x80004..<0x80004 + 2} sample_mm" "may_close (group_pages [binary_node]) sample_mm" "may_open (group_pages [binary_node]) sample_mm"
    unfolding g e by (auto simp: may_close_def may_open_def)
qed

theorem Close_exact_witness:
  "mm_ok sample_mm \<and> may_close {0x80004..<0x80004 + 2} sample_mm \<and>
   (\<exists>mm'. CloseAndReset [binary_node] 7 sample_mm = Some ([], 8, mm') \<and> pv_free (mm_view mm' 0x80004))"
  using Close_exact [OF sample_start(2) sample_binary(3,1,4), where nodes = 7] sample_start(2,4) sample_binary(2,3) sample_views(1) [of "0x80004"]
  by (auto simp: closed_view_def)

text \<open>
  Opening the pages of a group and closing them again restores every page: the references, the free
  pages and the marks of optimised memory are what they were.\<close>

theorem Open_then_Close:
  assumes ok: "mm_ok mm" and pg: "pg_ok pg" "may_open (group_pages pg) mm"
  shows "\<exists>mm1 mm2. pg_Open pg mm = Some mm1 \<and> pg_Close pg mm1 = Some mm2 \<and> mm_ok mm2 \<and>
    (\<forall>p\<in>mm_pages mm. mm_view mm2 p = mm_view mm p \<and>
       (p \<in> group_pages pg \<longrightarrow> pv_refs (mm_view mm1 p) = Suc (pv_refs (mm_view mm p))))"
proof -
  have "\<exists>mm1. pg_Open pg mm = Some mm1 \<and> mm_acts (on_pages (group_pages pg) (pv_refs_update Suc)) mm mm1"
    unfolding group_loops by (rule opened.each_node_acts [OF ok pg(1)])
      (use pg(2) may_open_openable [OF ok pg(2)] in \<open>auto simp: may_open_def\<close>)
  then obtain mm1 where 1: "pg_Open pg mm = Some mm1" and a1: "mm_acts (on_pages (group_pages pg) (pv_refs_update Suc)) mm mm1" by blast
  note A1 = mm_actsD [OF a1]
  have "\<exists>mm2. pg_Close pg mm1 = Some mm2 \<and> mm_acts (on_pages (group_pages pg) closed_view) mm1 mm2"
    unfolding group_loops by (rule closing.each_node_acts [OF A1(1) pg(1)])
      (use pg(2) A1(4,5) in \<open>auto simp: may_open_def subset_iff\<close>)
  then obtain mm2 where 2: "pg_Close pg mm1 = Some mm2" and a2: "mm_acts (on_pages (group_pages pg) closed_view) mm1 mm2" by blast
  have "closed_view (pv_refs_update Suc v) = v" if "0 < pv_refs v" for v using that by (cases v) (simp add: closed_view_def)
  then have "mm_acts (\<lambda>p v. v) mm mm2"
    using pg(2) by (intro mm_acts_cong [OF mm_acts_trans [OF a1 a2]]) (auto simp: may_open_def)
  with 1 2 A1(4) show ?thesis by (auto simp: mm_acts_def)
qed

theorem Open_then_Close_witness:
  "mm_ok sample_mm \<and> may_open (group_pages [binary_node]) sample_mm \<and>
   (\<exists>mm1 mm2. pg_Open [binary_node] sample_mm = Some mm1 \<and> pg_Close [binary_node] mm1 = Some mm2 \<and>
     mm_view mm2 0x80004 = mm_view sample_mm 0x80004)"
  using Open_then_Close [OF sample_start(2) sample_binary(1,5)] sample_start(2,4) sample_binary(5) by auto

section \<open>The account of pages\<close>






text \<open>
  Pages allocated for a process come from the free pages of the pool, as many as asked for, and all
  of them are filled with the pattern, but for those that the optimised process of the pool already
  owned, which keep their contents; no other byte of memory changes. In a pool without adjacent managers
  the pages of an optimised process are all marked as its own.\<close>

theorem AllocateForProcess_fills:
  assumes ok: "mm_ok mm" and opt: "DecodeOption opt = (pool, dir)" "pool < PoolCount" and N: "0 < N"
    and enough: "N \<le> card (pool_free pool mm)" "N \<le> nodes"
    and own: "own = (mm_has_optimized_process mm ! pool \<and> mm_optimized_process_ids mm ! pool = process_id)"
  shows "\<exists>out nodes' mm'. AllocateForProcess N opt process_id v ([], nodes, mm) = Some (ResultSuccess, out, nodes', mm') \<and>
    card (group_pages out) = N \<and> group_pages out \<subseteq> pool_free pool mm \<and> mm_ok mm' \<and>
    (\<forall>p\<in>mm_pages mm. pv_free (mm_view mm' p) = (pv_free (mm_view mm p) \<and> p \<notin> group_pages out) \<and>
       pv_refs (mm_view mm' p) = pv_refs (mm_view mm p)) \<and>
    (\<forall>a. mm_dram mm' a =
       (if a div PageSize \<in> group_pages out \<and> \<not> (own \<and> pv_tracked (mm_view mm (a div PageSize))) then v else mm_dram mm a)) \<and>
    (own \<and> pool_seamless pool mm \<longrightarrow> (\<forall>p\<in>group_pages out. pv_tracked (mm_view mm' p)))"
proof -
  have "\<exists>out nodes' mm'. AllocateForProcess N opt process_id v ([], nodes, mm) = Some (ResultSuccess, out, nodes', mm') \<and>
      card (group_pages out) = N \<and> group_pages out \<subseteq> pool_free pool mm \<and> mm_ok mm' \<and>
      (\<forall>p\<in>mm_pages mm. pv_free (mm_view mm' p) = (pv_free (mm_view mm p) \<and> p \<notin> group_pages out) \<and>
         pv_refs (mm_view mm' p) = pv_refs (mm_view mm p)) \<and>
      mm_dram mm' = fill_pages (if own then mm_new_pages mm (group_pages out) else group_pages out) v (mm_dram mm) \<and>
      (own \<and> pool_seamless pool mm \<longrightarrow> all_tracked (group_pages out) mm')"
    unfolding own
    by (rule AllocateForProcess_spec [OF ok opt N refl refl, of process_id v nodes])
      (use enough in \<open>auto simp: group_refused_def\<close>)
  then show ?thesis unfolding all_tracked_def by (elim exE conjE) (intro exI conjI; (assumption | simp add: fill_pages_def))
qed

theorem AllocateForProcess_fills_witness:
  "mm_ok sample_mm \<and> 5 \<le> card (pool_free 0 sample_mm) \<and>
   (\<exists>out nodes' mm'. AllocateForProcess 5 0 42 0xFF ([], 20, sample_mm) = Some (ResultSuccess, out, nodes', mm') \<and>
     (\<forall>a. mm_dram mm' a = (if a div PageSize \<in> group_pages out then 0xFF else mm_dram sample_mm a)))"
  using AllocateForProcess_fills [OF sample_start(2) sample_views(7,8), of 5 20 False 42 "0xFF"] sample_start(2) sample_views(4,9) by auto

section \<open>Sizes and options\<close>

lemma foldl_sum: "foldl (\<lambda>t m. t + f m) (c :: nat) ms = c + sum_list (map f ms)"
  by (induction ms arbitrary: c) simp_all

lemma free_size_managers:
  assumes ok: "mm_ok mm" and ms: "distinct ms" "set ms \<subseteq> {..<mm_num_managers mm}"
  shows "foldl (\<lambda>t m. t + GetFreeSize (im_heap (mm_managers mm ! m))) 0 ms =
    PageSize * card {p. \<exists>m\<in>set ms. p \<in> im_pages (mm_managers mm ! m) \<and> pv_free (mm_view mm p)}"
proof -
  let ?F = "\<lambda>m. {p \<in> im_pages (mm_managers mm ! m). pv_free (mm_view mm p)}"
  have F: "GetFreeSize (im_heap (mm_managers mm ! m)) = PageSize * card (?F m)" if "m \<in> set ms" for m
  proof -
    have m: "m < mm_num_managers mm" using ms(2) that by auto
    note im = mm_okD(1) [OF ok m]
    have "free_pages (im_heap (mm_managers mm ! m)) = ?F m"
      using free_pages_view [OF im] mm_view_in [OF ok m] by auto
    then show ?thesis using GetNumFreePages_card [OF impl_okD(1) [OF im]] by (simp add: GetFreeSize_def)
  qed
  have fin: "finite (?F m)" for m by (simp add: im_pages_def heap_pages_def)
  have "card (\<Union>m\<in>set ms. ?F m) = (\<Sum>m\<in>set ms. card (?F m))"
  proof (rule card_UN_disjoint)
    show "\<forall>i\<in>set ms. \<forall>j\<in>set ms. i \<noteq> j \<longrightarrow> ?F i \<inter> ?F j = {}"
      using pages_disjoint [OF ok] ms(2) by blast
  qed (use fin in auto)
  moreover have "(\<Union>m\<in>set ms. ?F m) = {p. \<exists>m\<in>set ms. p \<in> im_pages (mm_managers mm ! m) \<and> pv_free (mm_view mm p)}" by auto
  ultimately show ?thesis
    using F ms(1) by (simp add: foldl_sum sum_list_distinct_conv_sum_set sum_distrib_left cong: map_cong)
qed

text \<open>
  The free sizes that the manager reports are exact: that of a pool is the number of its free pages
  times the page size, and that of all managers likewise.\<close>

theorem GetFreeSize_exact:
  assumes ok: "mm_ok mm" and pool: "pool < PoolCount"
  shows "mm_GetFreeSize_pool pool mm = Some (PageSize * card (pool_free pool mm)) \<and>
    mm_GetFreeSize mm = PageSize * card {p \<in> mm_pages mm. pv_free (mm_view mm p)}"
proof -
  obtain ms where ms: "pool_managers pool 0 mm = Some ms" "distinct ms" "set ms = {m. m < mm_num_managers mm \<and> im_pool (mm_managers mm ! m) = pool}"
    using mm_poolD [OF ok pool] by blast
  have s: "set ms \<subseteq> {..<mm_num_managers mm}" using ms(3) by auto
  have "{p. \<exists>m\<in>set ms. p \<in> im_pages (mm_managers mm ! m) \<and> pv_free (mm_view mm p)} = pool_free pool mm"
    using ms(3) by (auto simp: pool_free_def pool_pages_def)
  then have "mm_GetFreeSize_pool pool mm = Some (PageSize * card (pool_free pool mm))"
    using free_size_managers [OF ok ms(2) s] pool ms(1) by (simp add: mm_GetFreeSize_pool_def)
  moreover have "{p. \<exists>m\<in>set [0..<mm_num_managers mm]. p \<in> im_pages (mm_managers mm ! m) \<and> pv_free (mm_view mm p)} =
      {p \<in> mm_pages mm. pv_free (mm_view mm p)}"
    by (auto simp: mm_pages_def)
  moreover have "set [0..<mm_num_managers mm] \<subseteq> {..<mm_num_managers mm}" by auto
  ultimately show ?thesis using free_size_managers [OF ok distinct_upt] by (simp add: mm_GetFreeSize_def)
qed

theorem GetFreeSize_exact_witness: "mm_ok sample_mm \<and> mm_GetFreeSize_pool 0 sample_mm = Some 0xE000"
  using GetFreeSize_exact [OF sample_start(2) sample_views(8)] sample_start(2) sample_views(4) by (simp add: PageSize_def)

lemma option_table: "\<forall>pool\<in>set [0..<16]. \<forall>dir\<in>set [0..<16]. DecodeOption (EncodeOption pool dir) = (pool, dir)"
  by (simp add: DecodeOption_def EncodeOption_def upt_conv_Cons)

text \<open>
  An option decodes to the pool and the direction it was made of.\<close>

theorem DecodeOption_EncodeOption:
  assumes "pool < 16" "dir < 16"
  shows "DecodeOption (EncodeOption pool dir) = (pool, dir)"
  using option_table assms by simp

theorem DecodeOption_EncodeOption_witness: "(3 :: nat) < 16 \<and> (1 :: nat) < 16 \<and> DecodeOption (EncodeOption 3 1) = (3, 1)"
  using DecodeOption_EncodeOption [of 3 1] by simp

end
