(* ===== verification/KThread.thy ===== *)
theory KThread
  imports Nx_Prelude
begin

text \<open>
  What the scheduler knows of a thread: the fields of \<^verbatim>\<open>src/src/core/hle/kernel/k_thread.h\<close> it reads
  and writes, the entries by which threads are linked into its queues, and the affinity masks of
  \<^verbatim>\<open>k_affinity_mask.h\<close>.

  Threads and processes are numbers, and a null pointer is \<open>None\<close>. Priorities are naturals and the
  numbers of cores integers, since the active core of a thread may be negative. Ticks and the counts
  of schedules are integers. The state of a thread and the flags of its suspension are words, as the
  code combines them bitwise. Locks and the trees of condition variables are numbers as well, like
  every object the code keeps pointers to.
\<close>

section \<open>States\<close>

datatype ThreadType = MainThread | KernelThread | HighPriority | UserThread | Dummy

abbreviation Initialized :: u16 where "Initialized \<equiv> 0"
abbreviation Waiting_State :: u16 where "Waiting_State \<equiv> 1"
abbreviation Runnable :: u16 where "Runnable \<equiv> 2"
abbreviation Terminated :: u16 where "Terminated \<equiv> 3"

definition SuspendShift :: nat where
  "SuspendShift = 4"

definition State_Mask :: u16 where
  "State_Mask = push_bit SuspendShift 1 - 1"

datatype SuspendType = Suspend_Process | Suspend_Thread | Suspend_Debug | Suspend_Backtrace | Suspend_Init | Suspend_System

primrec suspend_number :: "SuspendType \<Rightarrow> nat" where
  "suspend_number Suspend_Process = 0"
| "suspend_number Suspend_Thread = 1"
| "suspend_number Suspend_Debug = 2"
| "suspend_number Suspend_Backtrace = 3"
| "suspend_number Suspend_Init = 4"
| "suspend_number Suspend_System = 5"

section \<open>Affinity masks\<close>

definition NumCores :: nat where
  "NumCores = 4"

definition GetCoreBit :: "nat \<Rightarrow> u64" where
  "GetCoreBit core = push_bit core 1"

definition AllowedAffinityMask :: u64 where
  "AllowedAffinityMask = push_bit NumCores 1 - 1"

definition GetAffinity :: "nat \<Rightarrow> u64 \<Rightarrow> bool" where
  "GetAffinity core m \<longleftrightarrow> m AND GetCoreBit core \<noteq> 0"

definition SetAffinity :: "nat \<Rightarrow> bool \<Rightarrow> u64 \<Rightarrow> u64" where
  "SetAffinity core on m = (if on then m OR GetCoreBit core else m AND NOT (GetCoreBit core))"

lemma GetAffinity_bit: "GetAffinity core m \<longleftrightarrow> bit m core"
  by (simp add: GetAffinity_def GetCoreBit_def bit_iff_and_push_bit_not_eq_0)

section \<open>Threads\<close>

record QueueEntry =
  qe_prev :: "nat option"
  qe_next :: "nat option"

definition entry_Initialize :: QueueEntry where
  "entry_Initialize = \<lparr>qe_prev = None, qe_next = None\<rparr>"

text \<open>
  A lock that threads wait for, and which raises the priority of its owner
  (\<open>LockWithPriorityInheritanceInfo\<close>). The tree of the waiters is the sequence of its nodes.
\<close>

record LockInfo =
  li_tree :: "nat list"
  li_address_key :: u64
  li_owner :: "nat option"
  li_waiter_count :: nat
  li_is_kernel_address_key :: bool

record KThread =
  th_thread_type :: ThreadType
  th_priority :: nat
  th_base_priority :: nat
  th_core_id :: int
  th_current_core_id :: int
  th_virtual_ideal_core_id :: int
  th_virtual_affinity_mask :: u64
  th_physical_ideal_core_id :: int
  th_physical_affinity_mask :: u64
  th_original_physical_ideal_core_id :: int
  th_original_physical_affinity_mask :: u64
  th_num_core_migration_disables :: int
  th_is_pinned :: bool
  th_thread_state :: u16
  th_suspend_request_flags :: u32
  th_suspend_allowed_flags :: u32
  th_termination_requested :: bool
  th_num_kernel_waiters :: int
  th_last_scheduled_tick :: int
  th_schedule_count :: int
  th_cpu_time :: int
  th_parent :: "nat option"
  th_dummy_thread_runnable :: bool
  th_disable_count :: int
  th_pinned_waiter_list :: "nat list"
  th_held_lock_info_list :: "nat list"
  th_waiting_lock_info :: "nat option"
  th_address_key :: u64
  th_address_key_value :: u32
  th_is_kernel_address_key :: bool
  th_condvar_tree :: "nat option"
  th_condvar_key :: u64
  th_wait_result :: Result

definition IsDummyThread :: "KThread \<Rightarrow> bool" where
  "IsDummyThread th \<longleftrightarrow> th_thread_type th = Dummy"

definition GetState :: "KThread \<Rightarrow> u16" where
  "GetState th = th_thread_state th AND State_Mask"

definition GetSuspendFlags :: "KThread \<Rightarrow> u32" where
  "GetSuspendFlags th = th_suspend_allowed_flags th AND th_suspend_request_flags th"

definition IsSuspended :: "KThread \<Rightarrow> bool" where
  "IsSuspended th \<longleftrightarrow> GetSuspendFlags th \<noteq> 0"

definition IsSuspendRequested_of :: "SuspendType \<Rightarrow> KThread \<Rightarrow> bool" where
  "IsSuspendRequested_of type th \<longleftrightarrow>
     th_suspend_request_flags th AND push_bit (SuspendShift + suspend_number type) 1 \<noteq> 0"

definition IsSuspendRequested :: "KThread \<Rightarrow> bool" where
  "IsSuspendRequested th \<longleftrightarrow> th_suspend_request_flags th \<noteq> 0"

definition IsTerminationRequested :: "KThread \<Rightarrow> bool" where
  "IsTerminationRequested th \<longleftrightarrow> th_termination_requested th \<or> th_thread_state th = Terminated"

end
