(* ===== verification/KPriorityQueue.thy ===== *)
theory KPriorityQueue
  imports KThread
begin

text \<open>
  The queue of runnable threads: \<^verbatim>\<open>src/src/core/hle/kernel/k_priority_queue.h\<close>. A thread is queued once
  for every core it may run on: in the scheduled queue of its active core and in the suggested queues
  of the others. The queues are doubly linked lists through entries in the threads, one per core,
  which scheduled and suggested queues share.

  The entries of the threads are a store of their own; the root of a list is an entry as well, and
  stands for the missing neighbour of the first and the last thread. That cores are below four and
  priorities below 65 are assertions.
\<close>

type_synonym entries = "nat \<Rightarrow> nat \<Rightarrow> QueueEntry"

definition LowestPriority :: nat where
  "LowestPriority = 63"

definition HighestPriority :: nat where
  "HighestPriority = 0"

definition NumPriority :: nat where
  "NumPriority = LowestPriority - HighestPriority + 1"

section \<open>One list per core\<close>

type_synonym KPerCoreQueue = "QueueEntry list"

definition new_KPerCoreQueue :: KPerCoreQueue where
  "new_KPerCoreQueue = replicate NumCores entry_Initialize"

text \<open>The entry of a thread, or the root where there is none.\<close>

definition SetNext :: "nat \<Rightarrow> nat option \<Rightarrow> nat option \<Rightarrow> KPerCoreQueue \<times> entries \<Rightarrow> KPerCoreQueue \<times> entries" where
  "SetNext core at v st =
     (let (root, E) = st
      in case at of
           None \<Rightarrow> (root[core := (root ! core)\<lparr>qe_next := v\<rparr>], E)
         | Some t \<Rightarrow> (root, E(t := (E t)(core := (E t core)\<lparr>qe_next := v\<rparr>))))"

definition SetPrev :: "nat \<Rightarrow> nat option \<Rightarrow> nat option \<Rightarrow> KPerCoreQueue \<times> entries \<Rightarrow> KPerCoreQueue \<times> entries" where
  "SetPrev core at v st =
     (let (root, E) = st
      in case at of
           None \<Rightarrow> (root[core := (root ! core)\<lparr>qe_prev := v\<rparr>], E)
         | Some t \<Rightarrow> (root, E(t := (E t)(core := (E t core)\<lparr>qe_prev := v\<rparr>))))"

definition core_GetFront :: "nat \<Rightarrow> KPerCoreQueue \<Rightarrow> nat option" where
  "core_GetFront core root = qe_next (root ! core)"

definition core_PushBack :: "nat \<Rightarrow> nat \<Rightarrow> KPerCoreQueue \<times> entries \<Rightarrow> bool \<times> KPerCoreQueue \<times> entries" where
  "core_PushBack core member st =
     (let tail = qe_prev (fst st ! core);
          st = SetPrev core (Some member) tail st;
          st = SetNext core (Some member) None st;
          st = SetNext core tail (Some member) st;
          st = SetPrev core None (Some member) st
      in (tail = None, st))"

definition core_PushFront :: "nat \<Rightarrow> nat \<Rightarrow> KPerCoreQueue \<times> entries \<Rightarrow> bool \<times> KPerCoreQueue \<times> entries" where
  "core_PushFront core member st =
     (let head = qe_next (fst st ! core);
          st = SetPrev core (Some member) None st;
          st = SetNext core (Some member) head st;
          st = SetPrev core head (Some member) st;
          st = SetNext core None (Some member) st
      in (head = None, st))"

definition core_Remove :: "nat \<Rightarrow> nat \<Rightarrow> KPerCoreQueue \<times> entries \<Rightarrow> bool \<times> KPerCoreQueue \<times> entries" where
  "core_Remove core member st =
     (let prev = qe_prev (snd st member core);
          nxt = qe_next (snd st member core);
          st = SetNext core prev nxt st;
          st = SetPrev core nxt prev st
      in (core_GetFront core (fst st) = None, st))"

section \<open>One list per priority\<close>

record KPriorityQueueImpl =
  m_queues :: "KPerCoreQueue list"
  m_available_priorities :: "bool list list"

definition new_KPriorityQueueImpl :: KPriorityQueueImpl where
  "new_KPriorityQueueImpl =
     \<lparr>m_queues = replicate NumPriority new_KPerCoreQueue,
      m_available_priorities = replicate NumCores (replicate NumPriority False)\<rparr>"

definition set_available :: "nat \<Rightarrow> nat \<Rightarrow> bool \<Rightarrow> KPriorityQueueImpl \<Rightarrow> KPriorityQueueImpl" where
  "set_available core priority v q =
     q\<lparr>m_available_priorities :=
         (m_available_priorities q)[core := (m_available_priorities q ! core)[priority := v]]\<rparr>"

definition impl_PushBack :: "nat \<Rightarrow> nat \<Rightarrow> nat \<Rightarrow> KPriorityQueueImpl \<times> entries \<Rightarrow> KPriorityQueueImpl \<times> entries" where
  "impl_PushBack priority core member st =
     (let (q, E) = st
      in if priority > LowestPriority then (q, E)
         else
           let (was_empty, l, E) = core_PushBack core member (m_queues q ! priority, E);
               q = q\<lparr>m_queues := (m_queues q)[priority := l]\<rparr>
           in (if was_empty then set_available core priority True q else q, E))"

definition impl_PushFront :: "nat \<Rightarrow> nat \<Rightarrow> nat \<Rightarrow> KPriorityQueueImpl \<times> entries \<Rightarrow> KPriorityQueueImpl \<times> entries" where
  "impl_PushFront priority core member st =
     (let (q, E) = st
      in if priority > LowestPriority then (q, E)
         else
           let (was_empty, l, E) = core_PushFront core member (m_queues q ! priority, E);
               q = q\<lparr>m_queues := (m_queues q)[priority := l]\<rparr>
           in (if was_empty then set_available core priority True q else q, E))"

definition impl_Remove :: "nat \<Rightarrow> nat \<Rightarrow> nat \<Rightarrow> KPriorityQueueImpl \<times> entries \<Rightarrow> KPriorityQueueImpl \<times> entries" where
  "impl_Remove priority core member st =
     (let (q, E) = st
      in if priority > LowestPriority then (q, E)
         else
           let (is_empty, l, E) = core_Remove core member (m_queues q ! priority, E);
               q = q\<lparr>m_queues := (m_queues q)[priority := l]\<rparr>
           in (if is_empty then set_available core priority False q else q, E))"

text \<open>The first bit of a bitset from an index on, or its size.\<close>

definition first_set :: "bool list \<Rightarrow> nat \<Rightarrow> nat" where
  "first_set bits n = (case find (\<lambda>i. bits ! i) [n..<length bits] of Some i \<Rightarrow> i | None \<Rightarrow> length bits)"

definition GetNextSet :: "bool list \<Rightarrow> nat \<Rightarrow> nat" where
  "GetNextSet bits n = first_set bits (n + 1)"

definition impl_GetFront_at :: "nat \<Rightarrow> nat \<Rightarrow> KPriorityQueueImpl \<Rightarrow> nat option" where
  "impl_GetFront_at priority core q =
     (if priority \<le> LowestPriority then core_GetFront core (m_queues q ! priority) else None)"

definition impl_GetFront :: "nat \<Rightarrow> KPriorityQueueImpl \<Rightarrow> nat option" where
  "impl_GetFront core q = impl_GetFront_at (first_set (m_available_priorities q ! core) 0) core q"

definition impl_GetNext :: "(nat \<Rightarrow> KThread) \<Rightarrow> nat \<Rightarrow> nat \<Rightarrow> KPriorityQueueImpl \<times> entries \<Rightarrow> nat option" where
  "impl_GetNext threads core member st =
     (let (q, E) = st
      in case qe_next (E member core) of
           Some t \<Rightarrow> Some t
         | None \<Rightarrow>
             let priority = GetNextSet (m_available_priorities q ! core) (th_priority (threads member))
             in if priority \<le> LowestPriority then core_GetFront core (m_queues q ! priority) else None)"

definition impl_MoveToFront :: "nat \<Rightarrow> nat \<Rightarrow> nat \<Rightarrow> KPriorityQueueImpl \<times> entries \<Rightarrow> KPriorityQueueImpl \<times> entries" where
  "impl_MoveToFront priority core member st =
     (let (q, E) = st
      in if priority \<le> LowestPriority
         then
           let (_, l) = core_Remove core member (m_queues q ! priority, E);
               (_, l, E) = core_PushFront core member l
           in (q\<lparr>m_queues := (m_queues q)[priority := l]\<rparr>, E)
         else (q, E))"

definition impl_MoveToBack :: "nat \<Rightarrow> nat \<Rightarrow> nat \<Rightarrow> KPriorityQueueImpl \<times> entries
    \<Rightarrow> nat option \<times> KPriorityQueueImpl \<times> entries" where
  "impl_MoveToBack priority core member st =
     (let (q, E) = st
      in if priority \<le> LowestPriority
         then
           let (_, l) = core_Remove core member (m_queues q ! priority, E);
               (_, l, E) = core_PushBack core member l
           in (core_GetFront core l, q\<lparr>m_queues := (m_queues q)[priority := l]\<rparr>, E)
         else (None, q, E))"

section \<open>The queue of the scheduler\<close>

record KPriorityQueue =
  m_scheduled_queue :: KPriorityQueueImpl
  m_suggested_queue :: KPriorityQueueImpl
  pq_entries :: entries

definition new_KPriorityQueue :: KPriorityQueue where
  "new_KPriorityQueue =
     \<lparr>m_scheduled_queue = new_KPriorityQueueImpl, m_suggested_queue = new_KPriorityQueueImpl,
      pq_entries = (\<lambda>_ _. entry_Initialize)\<rparr>"

definition on_scheduled ::
  "(KPriorityQueueImpl \<times> entries \<Rightarrow> KPriorityQueueImpl \<times> entries) \<Rightarrow> KPriorityQueue \<Rightarrow> KPriorityQueue" where
  "on_scheduled f pq =
     (let (q, E) = f (m_scheduled_queue pq, pq_entries pq) in pq\<lparr>m_scheduled_queue := q, pq_entries := E\<rparr>)"

definition on_suggested ::
  "(KPriorityQueueImpl \<times> entries \<Rightarrow> KPriorityQueueImpl \<times> entries) \<Rightarrow> KPriorityQueue \<Rightarrow> KPriorityQueue" where
  "on_suggested f pq =
     (let (q, E) = f (m_suggested_queue pq, pq_entries pq) in pq\<lparr>m_suggested_queue := q, pq_entries := E\<rparr>)"

definition ClearAffinityBit :: "u64 \<Rightarrow> nat \<Rightarrow> u64" where
  "ClearAffinityBit affinity core = affinity AND NOT (push_bit core 1)"

definition GetNextCore :: "u64 \<Rightarrow> nat \<times> u64" where
  "GetNextCore affinity = (let core = countr_zero affinity in (core, ClearAffinityBit affinity core))"

text \<open>The loop over the cores that are left in a mask.\<close>

lemma bit_ClearAffinityBit: "bit (ClearAffinityBit affinity core) c \<longleftrightarrow> bit affinity c \<and> c \<noteq> core"
  using bit_imp_le_length [of affinity c] by (auto simp: ClearAffinityBit_def bit_simps)

lemma ClearAffinityBit_less:
  "affinity \<noteq> 0 \<Longrightarrow> unat (ClearAffinityBit affinity (countr_zero affinity)) < unat affinity"
proof -
  let ?a = "ClearAffinityBit affinity (countr_zero affinity)"
  assume "affinity \<noteq> 0"
  then have "bit affinity (countr_zero affinity)" by (rule countr_zero_bit(1))
  then have "?a \<noteq> affinity" using bit_ClearAffinityBit [of affinity] by metis
  moreover have "?a \<le> affinity" unfolding ClearAffinityBit_def by (rule word_and_le2)
  ultimately show ?thesis by (simp add: order_le_less word_less_nat_alt)
qed

function each_core :: "(nat \<Rightarrow> KPriorityQueue \<Rightarrow> KPriorityQueue) \<Rightarrow> u64 \<Rightarrow> KPriorityQueue \<Rightarrow> KPriorityQueue" where
  "each_core f affinity pq =
     (if affinity = 0 then pq
      else let (core, affinity) = GetNextCore affinity in each_core f affinity (f core pq))"
  by pat_completeness auto

termination
  by (relation "measure (\<lambda>(_, a, _). unat a)") (auto simp: GetNextCore_def Let_def ClearAffinityBit_less)

declare each_core.simps [simp del]

text \<open>
  The private operations, which all do the same to the two kinds of queue: something to the scheduled
  queue of the active core, if there is one, and something to the suggested queues of the other cores.
\<close>

definition PushBack_at :: "nat \<Rightarrow> KThread \<Rightarrow> nat \<Rightarrow> KPriorityQueue \<Rightarrow> KPriorityQueue" where
  "PushBack_at priority th member pq =
     (let affinity = th_physical_affinity_mask th;
          core = th_core_id th;
          (pq, affinity) =
            (if core \<ge> 0
             then (on_scheduled (impl_PushBack priority (nat core) member) pq, ClearAffinityBit affinity (nat core))
             else (pq, affinity))
      in each_core (\<lambda>c. on_suggested (impl_PushBack priority c member)) affinity pq)"

definition PushFront_at :: "nat \<Rightarrow> KThread \<Rightarrow> nat \<Rightarrow> KPriorityQueue \<Rightarrow> KPriorityQueue" where
  "PushFront_at priority th member pq =
     (let affinity = th_physical_affinity_mask th;
          core = th_core_id th;
          (pq, affinity) =
            (if core \<ge> 0
             then (on_scheduled (impl_PushFront priority (nat core) member) pq, ClearAffinityBit affinity (nat core))
             else (pq, affinity))
      in each_core (\<lambda>c. on_suggested (impl_PushBack priority c member)) affinity pq)"

definition Remove_at :: "nat \<Rightarrow> KThread \<Rightarrow> nat \<Rightarrow> KPriorityQueue \<Rightarrow> KPriorityQueue" where
  "Remove_at priority th member pq =
     (let affinity = th_physical_affinity_mask th;
          core = th_core_id th;
          (pq, affinity) =
            (if core \<ge> 0
             then (on_scheduled (impl_Remove priority (nat core) member) pq, ClearAffinityBit affinity (nat core))
             else (pq, affinity))
      in each_core (\<lambda>c. on_suggested (impl_Remove priority c member)) affinity pq)"

subsection \<open>Reading\<close>

definition GetScheduledFront :: "nat \<Rightarrow> KPriorityQueue \<Rightarrow> nat option" where
  "GetScheduledFront core pq = impl_GetFront core (m_scheduled_queue pq)"

definition GetScheduledFront_at :: "nat \<Rightarrow> nat \<Rightarrow> KPriorityQueue \<Rightarrow> nat option" where
  "GetScheduledFront_at core priority pq = impl_GetFront_at priority core (m_scheduled_queue pq)"

definition GetSuggestedFront :: "nat \<Rightarrow> KPriorityQueue \<Rightarrow> nat option" where
  "GetSuggestedFront core pq = impl_GetFront core (m_suggested_queue pq)"

definition GetSuggestedFront_at :: "nat \<Rightarrow> nat \<Rightarrow> KPriorityQueue \<Rightarrow> nat option" where
  "GetSuggestedFront_at core priority pq = impl_GetFront_at priority core (m_suggested_queue pq)"

definition GetScheduledNext :: "(nat \<Rightarrow> KThread) \<Rightarrow> nat \<Rightarrow> nat \<Rightarrow> KPriorityQueue \<Rightarrow> nat option" where
  "GetScheduledNext threads core member pq = impl_GetNext threads core member (m_scheduled_queue pq, pq_entries pq)"

definition GetSuggestedNext :: "(nat \<Rightarrow> KThread) \<Rightarrow> nat \<Rightarrow> nat \<Rightarrow> KPriorityQueue \<Rightarrow> nat option" where
  "GetSuggestedNext threads core member pq = impl_GetNext threads core member (m_suggested_queue pq, pq_entries pq)"

definition GetSamePriorityNext :: "nat \<Rightarrow> nat \<Rightarrow> KPriorityQueue \<Rightarrow> nat option" where
  "GetSamePriorityNext core member pq = qe_next (pq_entries pq member core)"

subsection \<open>Changing\<close>

definition pq_PushBack :: "KThread \<Rightarrow> nat \<Rightarrow> KPriorityQueue \<Rightarrow> KPriorityQueue" where
  "pq_PushBack th member pq = (if IsDummyThread th then pq else PushBack_at (th_priority th) th member pq)"

definition pq_Remove :: "KThread \<Rightarrow> nat \<Rightarrow> KPriorityQueue \<Rightarrow> KPriorityQueue" where
  "pq_Remove th member pq = (if IsDummyThread th then pq else Remove_at (th_priority th) th member pq)"

definition MoveToScheduledFront :: "KThread \<Rightarrow> nat \<Rightarrow> KPriorityQueue \<Rightarrow> KPriorityQueue" where
  "MoveToScheduledFront th member pq =
     (if IsDummyThread th then pq
      else on_scheduled (impl_MoveToFront (th_priority th) (nat (th_core_id th)) member) pq)"

definition MoveToScheduledBack :: "KThread \<Rightarrow> nat \<Rightarrow> KPriorityQueue \<Rightarrow> nat option \<times> KPriorityQueue" where
  "MoveToScheduledBack th member pq =
     (if IsDummyThread th then (None, pq)
      else
        let (r, q, E) = impl_MoveToBack (th_priority th) (nat (th_core_id th)) member (m_scheduled_queue pq, pq_entries pq)
        in (r, pq\<lparr>m_scheduled_queue := q, pq_entries := E\<rparr>))"

definition ChangePriority :: "nat \<Rightarrow> bool \<Rightarrow> KThread \<Rightarrow> nat \<Rightarrow> KPriorityQueue \<Rightarrow> KPriorityQueue" where
  "ChangePriority prev_priority is_running th member pq =
     (if IsDummyThread th then pq
      else
        let new_priority = th_priority th;
            pq = Remove_at prev_priority th member pq
        in if is_running then PushFront_at new_priority th member pq else PushBack_at new_priority th member pq)"

definition ChangeAffinityMask :: "int \<Rightarrow> u64 \<Rightarrow> KThread \<Rightarrow> nat \<Rightarrow> KPriorityQueue \<Rightarrow> KPriorityQueue" where
  "ChangeAffinityMask prev_core prev_affinity th member pq =
     (if IsDummyThread th then pq
      else
        let priority = th_priority th;
            new_affinity = th_physical_affinity_mask th;
            new_core = th_core_id th;
            pq = fold (\<lambda>core pq.
                   if GetAffinity core prev_affinity
                   then
                     if int core = prev_core then on_scheduled (impl_Remove priority core member) pq
                     else on_suggested (impl_Remove priority core member) pq
                   else pq) [0..<NumCores] pq
        in fold (\<lambda>core pq.
             if GetAffinity core new_affinity
             then
               if int core = new_core then on_scheduled (impl_PushBack priority core member) pq
               else on_suggested (impl_PushBack priority core member) pq
             else pq) [0..<NumCores] pq)"

definition ChangeCore :: "int \<Rightarrow> KThread \<Rightarrow> nat \<Rightarrow> bool \<Rightarrow> KPriorityQueue \<Rightarrow> KPriorityQueue" where
  "ChangeCore prev_core th member to_front pq =
     (if IsDummyThread th then pq
      else
        let new_core = th_core_id th;
            priority = th_priority th
        in if prev_core = new_core then pq
           else
             let pq = (if prev_core \<ge> 0 then on_scheduled (impl_Remove priority (nat prev_core) member) pq else pq);
                 pq = (if new_core \<ge> 0
                       then
                         let pq = on_suggested (impl_Remove priority (nat new_core) member) pq
                         in if to_front then on_scheduled (impl_PushFront priority (nat new_core) member) pq
                            else on_scheduled (impl_PushBack priority (nat new_core) member) pq
                       else pq)
             in if prev_core \<ge> 0 then on_suggested (impl_PushBack priority (nat prev_core) member) pq else pq)"

end
