(* ===== verification/KScheduler.thy ===== *)
theory KScheduler
  imports KPriorityQueue "HOL-Library.Monad_Syntax"
begin

text \<open>
  The scheduler: \<^verbatim>\<open>src/src/core/hle/kernel/k_scheduler.cpp\<close>, its lock in \<^verbatim>\<open>k_scheduler_lock.h\<close>, the
  context all cores share in \<^verbatim>\<open>global_scheduler_context.cpp\<close>, and the fields of \<^verbatim>\<open>k_process.h\<close> it
  uses. The state holds the threads, the processes and the schedulers of the cores, each by number.

  The thread that runs the code and the number of clock ticks are arguments. Locks and atomic
  accesses have no effect of their own in the model: every operation runs while the lock of the
  scheduler is held. Operations that walk along the threads of a queue return an option, where
  \<open>None\<close> stands for a walk that does not end.
\<close>

section \<open>State\<close>

record KProcess =
  pr_schedule_count :: int
  pr_cpu_time :: int
  pr_pinned_threads :: "nat \<Rightarrow> nat option"
  pr_running_threads :: "nat \<Rightarrow> nat option"
  pr_running_thread_idle_counts :: "nat \<Rightarrow> nat"
  pr_running_thread_switch_counts :: "nat \<Rightarrow> nat"

record KScheduler =
  sc_needs_scheduling :: bool
  sc_interrupt_task_runnable :: bool
  sc_should_count_idle :: bool
  sc_idle_count :: nat
  sc_highest_priority_thread :: "nat option"
  sc_prev_thread :: "nat option"
  sc_core_id :: nat
  sc_last_context_switch_time :: int
  sc_idle_thread :: nat
  sc_current_thread :: nat

record kernel =
  ks_threads :: "nat \<Rightarrow> KThread"
  ks_processes :: "nat \<Rightarrow> KProcess"
  ks_schedulers :: "nat \<Rightarrow> KScheduler"
  ks_priority_queue :: KPriorityQueue
  ks_scheduler_update_needed :: bool
  ks_woken_dummy_threads :: "nat list"
  ks_thread_list :: "nat list"
  ks_lock_count :: int
  ks_owner_thread :: "nat option"
  ks_lock_infos :: "nat \<Rightarrow> LockInfo"
  ks_free_lock_infos :: "nat list"
  ks_trees :: "nat \<Rightarrow> nat list"
  ks_user_memory :: "nat \<Rightarrow> u64 \<Rightarrow> u32"

definition upd_thread :: "nat \<Rightarrow> (KThread \<Rightarrow> KThread) \<Rightarrow> kernel \<Rightarrow> kernel" where
  "upd_thread t f ks = ks\<lparr>ks_threads := (ks_threads ks)(t := f (ks_threads ks t))\<rparr>"

definition upd_process :: "nat \<Rightarrow> (KProcess \<Rightarrow> KProcess) \<Rightarrow> kernel \<Rightarrow> kernel" where
  "upd_process p f ks = ks\<lparr>ks_processes := (ks_processes ks)(p := f (ks_processes ks p))\<rparr>"

definition upd_scheduler :: "nat \<Rightarrow> (KScheduler \<Rightarrow> KScheduler) \<Rightarrow> kernel \<Rightarrow> kernel" where
  "upd_scheduler c f ks = ks\<lparr>ks_schedulers := (ks_schedulers ks)(c := f (ks_schedulers ks c))\<rparr>"

definition SetSchedulerUpdateNeeded :: "kernel \<Rightarrow> kernel" where
  "SetSchedulerUpdateNeeded ks = ks\<lparr>ks_scheduler_update_needed := True\<rparr>"

definition ClearSchedulerUpdateNeeded :: "kernel \<Rightarrow> kernel" where
  "ClearSchedulerUpdateNeeded ks = ks\<lparr>ks_scheduler_update_needed := False\<rparr>"

definition HighestCoreMigrationAllowedPriority :: nat where
  "HighestCoreMigrationAllowedPriority = 2"

definition IncrementScheduledCount :: "nat \<Rightarrow> kernel \<Rightarrow> kernel" where
  "IncrementScheduledCount t ks =
     (case th_parent (ks_threads ks t) of
        None \<Rightarrow> ks
      | Some p \<Rightarrow> upd_process p (\<lambda>pr. pr\<lparr>pr_schedule_count := pr_schedule_count pr + 1\<rparr>) ks)"

definition SetRunningThread :: "nat \<Rightarrow> nat \<Rightarrow> nat \<Rightarrow> nat \<Rightarrow> KProcess \<Rightarrow> KProcess" where
  "SetRunningThread core thread idle_count switch_count pr =
     pr\<lparr>pr_running_threads := (pr_running_threads pr)(core := Some thread),
        pr_running_thread_idle_counts := (pr_running_thread_idle_counts pr)(core := idle_count),
        pr_running_thread_switch_counts := (pr_running_thread_switch_counts pr)(core := switch_count)\<rparr>"

definition ClearRunningThread :: "nat \<Rightarrow> KProcess \<Rightarrow> KProcess" where
  "ClearRunningThread thread pr =
     pr\<lparr>pr_running_threads :=
         (\<lambda>i. if i < NumCores \<and> pr_running_threads pr i = Some thread then None else pr_running_threads pr i)\<rparr>"

section \<open>The shared context\<close>

definition AddThread :: "nat \<Rightarrow> kernel \<Rightarrow> kernel" where
  "AddThread thread ks = ks\<lparr>ks_thread_list := ks_thread_list ks @ [thread]\<rparr>"

text \<open>Erasing a thread that is not in the list is undefined.\<close>

definition RemoveThread :: "nat \<Rightarrow> kernel \<Rightarrow> kernel option" where
  "RemoveThread thread ks =
     (if thread \<in> set (ks_thread_list ks) then Some (ks\<lparr>ks_thread_list := remove1 thread (ks_thread_list ks)\<rparr>) else None)"

definition RegisterDummyThreadForWakeup :: "nat \<Rightarrow> kernel \<Rightarrow> kernel" where
  "RegisterDummyThreadForWakeup thread ks = ks\<lparr>ks_woken_dummy_threads := ks_woken_dummy_threads ks @ [thread]\<rparr>"

definition UnregisterDummyThreadForWakeup :: "nat \<Rightarrow> kernel \<Rightarrow> kernel" where
  "UnregisterDummyThreadForWakeup thread ks =
     (let ts = ks_woken_dummy_threads ks; i = length (takeWhile (\<lambda>t. t \<noteq> thread) ts)
      in if i < length ts then ks\<lparr>ks_woken_dummy_threads := butlast (ts[i := last ts])\<rparr> else ks)"

definition DummyThreadEndWait :: "nat \<Rightarrow> kernel \<Rightarrow> kernel" where
  "DummyThreadEndWait t = upd_thread t (\<lambda>th. th\<lparr>th_dummy_thread_runnable := True\<rparr>)"

definition RequestDummyThreadWait :: "nat \<Rightarrow> kernel \<Rightarrow> kernel" where
  "RequestDummyThreadWait t = upd_thread t (\<lambda>th. th\<lparr>th_dummy_thread_runnable := False\<rparr>)"

definition WakeupWaitingDummyThreads :: "kernel \<Rightarrow> kernel" where
  "WakeupWaitingDummyThreads ks =
     (if length (ks_woken_dummy_threads ks) > 0
      then (fold DummyThreadEndWait (ks_woken_dummy_threads ks) ks)\<lparr>ks_woken_dummy_threads := []\<rparr>
      else ks)"

section \<open>Changes of threads\<close>

definition OnThreadStateChanged :: "nat \<Rightarrow> u16 \<Rightarrow> kernel \<Rightarrow> kernel" where
  "OnThreadStateChanged t old_state ks =
     (let th = ks_threads ks t; cur_state = th_thread_state th
      in if cur_state \<noteq> old_state
         then
           if old_state = Runnable
           then
             let ks = ks\<lparr>ks_priority_queue := pq_Remove th t (ks_priority_queue ks)\<rparr>;
                 ks = SetSchedulerUpdateNeeded (IncrementScheduledCount t ks)
             in if IsDummyThread th then UnregisterDummyThreadForWakeup t ks else ks
           else if cur_state = Runnable
           then
             let ks = ks\<lparr>ks_priority_queue := pq_PushBack th t (ks_priority_queue ks)\<rparr>;
                 ks = SetSchedulerUpdateNeeded (IncrementScheduledCount t ks)
             in if IsDummyThread th then RegisterDummyThreadForWakeup t ks else ks
           else ks
         else ks)"

definition OnThreadPriorityChanged :: "nat \<Rightarrow> nat \<Rightarrow> nat \<Rightarrow> kernel \<Rightarrow> kernel" where
  "OnThreadPriorityChanged cur t old_priority ks =
     (let th = ks_threads ks t
      in if th_thread_state th = Runnable
         then
           let ks = ks\<lparr>ks_priority_queue := ChangePriority old_priority (t = cur) th t (ks_priority_queue ks)\<rparr>
           in SetSchedulerUpdateNeeded (IncrementScheduledCount t ks)
         else ks)"

definition OnThreadAffinityMaskChanged :: "nat \<Rightarrow> u64 \<Rightarrow> int \<Rightarrow> kernel \<Rightarrow> kernel" where
  "OnThreadAffinityMaskChanged t old_affinity old_core ks =
     (let th = ks_threads ks t
      in if th_thread_state th = Runnable
         then
           let ks = ks\<lparr>ks_priority_queue := ChangeAffinityMask old_core old_affinity th t (ks_priority_queue ks)\<rparr>
           in SetSchedulerUpdateNeeded (IncrementScheduledCount t ks)
         else ks)"

text \<open>\<open>SetActiveCore\<close> followed by \<open>ChangeCore\<close>, as every migration does it.\<close>

definition migrate :: "nat \<Rightarrow> int \<Rightarrow> bool \<Rightarrow> kernel \<Rightarrow> kernel" where
  "migrate t core to_front ks =
     (let prev_core = th_core_id (ks_threads ks t);
          ks = upd_thread t (\<lambda>th. th\<lparr>th_core_id := core\<rparr>) ks
      in ks\<lparr>ks_priority_queue := ChangeCore prev_core (ks_threads ks t) t to_front (ks_priority_queue ks)\<rparr>)"

definition ClearPreviousThread :: "nat \<Rightarrow> kernel \<Rightarrow> kernel" where
  "ClearPreviousThread thread ks =
     fold (\<lambda>i. upd_scheduler i (\<lambda>s. if sc_prev_thread s = Some thread then s\<lparr>sc_prev_thread := None\<rparr> else s)) [0..<NumCores] ks"

section \<open>Walking along a queue\<close>

text \<open>
  The loops over the suggested threads: \<open>visit\<close> is the body, which goes on with a new value of the
  variables of the loop, or leaves the loop with a result.
\<close>

partial_function (option) queue_walk ::
  "(nat \<Rightarrow> nat option) \<Rightarrow> (nat \<Rightarrow> 's \<Rightarrow> 's + 'r) \<Rightarrow> nat option \<Rightarrow> 's \<Rightarrow> ('s + 'r) option" where
  "queue_walk nxt visit cur s =
     (case cur of
        None \<Rightarrow> Some (Inl s)
      | Some t \<Rightarrow> (case visit t s of Inl s' \<Rightarrow> queue_walk nxt visit (nxt t) s' | Inr r \<Rightarrow> Some (Inr r)))"

declare queue_walk.simps [code]

text \<open>The thread at the front of the scheduled queue of the active core of a thread.\<close>

definition top_on_core_of :: "nat \<Rightarrow> kernel \<Rightarrow> nat option" where
  "top_on_core_of t ks =
     (let core = th_core_id (ks_threads ks t)
      in if core \<ge> 0 then GetScheduledFront (nat core) (ks_priority_queue ks) else None)"

definition priority_of :: "kernel \<Rightarrow> nat \<Rightarrow> nat" where
  "priority_of ks t = th_priority (ks_threads ks t)"

text \<open>Whether the thread at the top of the other core lets a migration happen.\<close>

definition migration_allowed :: "kernel \<Rightarrow> nat option \<Rightarrow> bool" where
  "migration_allowed ks other =
     (case other of None \<Rightarrow> True | Some t \<Rightarrow> priority_of ks t \<ge> HighestCoreMigrationAllowedPriority)"

section \<open>Choosing the threads to run\<close>

definition UpdateHighestPriorityThread :: "int \<Rightarrow> nat \<Rightarrow> nat option \<Rightarrow> kernel \<Rightarrow> u64 \<times> kernel" where
  "UpdateHighestPriorityThread now core highest_thread ks =
     (let s = ks_schedulers ks core; prev_highest_thread = sc_highest_priority_thread s
      in if prev_highest_thread \<noteq> highest_thread
         then
           let ks = (case prev_highest_thread of
                       None \<Rightarrow> ks
                     | Some t \<Rightarrow> upd_thread t (\<lambda>th. th\<lparr>th_last_scheduled_tick := now\<rparr>) (IncrementScheduledCount t ks));
               ks = (if sc_should_count_idle s
                     then
                       case highest_thread of
                         Some t \<Rightarrow>
                           (case th_parent (ks_threads ks t) of
                              None \<Rightarrow> ks
                            | Some p \<Rightarrow> upd_process p (SetRunningThread (sc_core_id s) t (sc_idle_count s) 0) ks)
                       | None \<Rightarrow> upd_scheduler core (\<lambda>s. s\<lparr>sc_idle_count := sc_idle_count s + 1\<rparr>) ks
                     else ks);
               ks = upd_scheduler core
                      (\<lambda>s. s\<lparr>sc_highest_priority_thread := highest_thread, sc_needs_scheduling := True\<rparr>) ks
           in (push_bit (sc_core_id s) 1, ks)
         else (0, ks))"

text \<open>The variables of \<open>UpdateHighestPriorityThreadsImpl\<close>.\<close>

record choice =
  ch_top_threads :: "nat \<Rightarrow> nat option"
  ch_cores_needing_scheduling :: u64
  ch_idle_cores :: u64
  ch_kernel :: kernel

definition set_top :: "int \<Rightarrow> nat \<Rightarrow> nat option \<Rightarrow> choice \<Rightarrow> choice" where
  "set_top now core t ch =
     (let (needed, ks) = UpdateHighestPriorityThread now core t (ch_kernel ch)
      in ch\<lparr>ch_top_threads := (ch_top_threads ch)(core := t),
             ch_cores_needing_scheduling := ch_cores_needing_scheduling ch OR needed,
             ch_kernel := ks\<rparr>)"

text \<open>The thread to run on a core, when its process has pinned another thread there.\<close>

definition prefer_pinned :: "nat \<Rightarrow> nat \<Rightarrow> kernel \<Rightarrow> nat option" where
  "prefer_pinned core top_thread ks =
     (case th_parent (ks_threads ks top_thread) of
        None \<Rightarrow> Some top_thread
      | Some parent \<Rightarrow>
          (case pr_pinned_threads (ks_processes ks parent) core of
             None \<Rightarrow> Some top_thread
           | Some pinned \<Rightarrow>
               if pinned \<noteq> top_thread \<and> th_num_kernel_waiters (ks_threads ks top_thread) = 0
               then (if th_thread_state (ks_threads ks pinned) = Runnable then Some pinned else None)
               else Some top_thread))"

definition choose_top :: "int \<Rightarrow> nat \<Rightarrow> choice \<Rightarrow> choice" where
  "choose_top now core ch =
     (case GetScheduledFront core (ks_priority_queue (ch_kernel ch)) of
        Some top_thread \<Rightarrow> set_top now core (prefer_pinned core top_thread (ch_kernel ch)) ch
      | None \<Rightarrow> set_top now core None (ch\<lparr>ch_idle_cores := ch_idle_cores ch OR push_bit core 1\<rparr>))"

text \<open>
  The walk over the threads suggested for an idle core. A thread that does not run on its own core is
  migrated, unless the thread that runs there has too high a priority; the walk ends there either
  way. The cores of the others are noted as candidates.
\<close>

definition visit_suggested :: "choice \<Rightarrow> nat \<Rightarrow> nat list \<Rightarrow> nat list + nat option" where
  "visit_suggested ch suggested migration_candidates =
     (let ks = ch_kernel ch; suggested_core = th_core_id (ks_threads ks suggested);
          top_thread = (if suggested_core \<ge> 0 then ch_top_threads ch (nat suggested_core) else None)
      in if top_thread \<noteq> Some suggested
         then
           Inr (case top_thread of
                  Some t \<Rightarrow> if priority_of ks t < HighestCoreMigrationAllowedPriority then None else Some suggested
                | None \<Rightarrow> Some suggested)
         else Inl (migration_candidates @ [nat suggested_core]))"

text \<open>
  The candidates: the first core with another thread to run gives up the thread it runs. A candidate
  always has one, which the walk has just seen there.
\<close>

fun try_candidates :: "int \<Rightarrow> nat \<Rightarrow> nat list \<Rightarrow> choice \<Rightarrow> choice" where
  "try_candidates now core [] ch = ch"
| "try_candidates now core (candidate_core # candidates) ch =
     (case ch_top_threads ch candidate_core of
        None \<Rightarrow> try_candidates now core candidates ch
      | Some suggested \<Rightarrow>
          (let ks = ch_kernel ch
           in case GetScheduledNext (ks_threads ks) candidate_core suggested (ks_priority_queue ks) of
                Some next_on_candidate_core \<Rightarrow>
                  let ch = set_top now candidate_core (Some next_on_candidate_core) ch;
                      ch = ch\<lparr>ch_kernel := migrate suggested (int core) False (ch_kernel ch)\<rparr>
                  in set_top now core (Some suggested) ch
              | None \<Rightarrow> try_candidates now core candidates ch))"

definition fill_core :: "int \<Rightarrow> nat \<Rightarrow> choice \<Rightarrow> choice option" where
  "fill_core now core ch =
     (let ks = ch_kernel ch
      in case GetSuggestedFront core (ks_priority_queue ks) of
           None \<Rightarrow> Some ch
         | Some suggested \<Rightarrow>
             do {
               r \<leftarrow> queue_walk (\<lambda>t. GetSuggestedNext (ks_threads ks) core t (ks_priority_queue ks)) (visit_suggested ch)
                      (Some suggested) [];
               Some (case r of
                       Inl migration_candidates \<Rightarrow> try_candidates now core migration_candidates ch
                     | Inr None \<Rightarrow> ch
                     | Inr (Some suggested) \<Rightarrow>
                         set_top now core (Some suggested) (ch\<lparr>ch_kernel := migrate suggested (int core) False ks\<rparr>))
             })"

function fill_idle_cores :: "int \<Rightarrow> u64 \<Rightarrow> choice \<Rightarrow> choice option" where
  "fill_idle_cores now idle_cores ch =
     (if idle_cores = 0 then Some ch
      else
        let core = countr_zero idle_cores
        in do {
             ch \<leftarrow> fill_core now core ch;
             fill_idle_cores now (ClearAffinityBit idle_cores core) ch
           })"
  by pat_completeness auto

termination
  by (relation "measure (\<lambda>(_, a, _). unat a)") (auto simp: ClearAffinityBit_less)

declare fill_idle_cores.simps [simp del]

definition UpdateHighestPriorityThreadsImpl :: "int \<Rightarrow> nat \<Rightarrow> kernel \<Rightarrow> (u64 \<times> kernel) option" where
  "UpdateHighestPriorityThreadsImpl now cur ks =
     (let ks = ClearSchedulerUpdateNeeded ks;
          ch = fold (choose_top now) [0..<NumCores]
                 \<lparr>ch_top_threads = (\<lambda>_. None), ch_cores_needing_scheduling = 0, ch_idle_cores = 0, ch_kernel = ks\<rparr>
      in do {
           ch \<leftarrow> fill_idle_cores now (ch_idle_cores ch) ch;
           let ks = WakeupWaitingDummyThreads (ch_kernel ch);
           let ks = (if IsDummyThread (ks_threads ks cur) \<and> GetState (ks_threads ks cur) \<noteq> Runnable
                     then RequestDummyThreadWait cur ks else ks);
           Some (ch_cores_needing_scheduling ch, ks)
         })"

definition UpdateHighestPriorityThreads :: "int \<Rightarrow> nat \<Rightarrow> kernel \<Rightarrow> (u64 \<times> kernel) option" where
  "UpdateHighestPriorityThreads now cur ks =
     (if ks_scheduler_update_needed ks then UpdateHighestPriorityThreadsImpl now cur ks else Some (0, ks))"

section \<open>Rotation\<close>

text \<open>
  The walk over the threads suggested at the rotated priority. It ends with a thread to migrate, or,
  when the thread that is next on the core has waited longer, with none.
\<close>

definition visit_rotation :: "kernel \<Rightarrow> nat option \<Rightarrow> nat option \<Rightarrow> nat \<Rightarrow> unit \<Rightarrow> unit + nat option" where
  "visit_rotation ks top_thread next_thread suggested u =
     (let top_on_suggested_core = top_on_core_of suggested ks
      in if top_on_suggested_core \<noteq> Some suggested
         then
           if top_thread \<noteq> next_thread \<and>
             (case next_thread of
                None \<Rightarrow> False
              | Some n \<Rightarrow> th_last_scheduled_tick (ks_threads ks n) < th_last_scheduled_tick (ks_threads ks suggested))
           then Inr None
           else if migration_allowed ks top_on_suggested_core then Inr (Some suggested)
           else Inl u
         else Inl u)"

text \<open>The walk over the suggested threads of a higher priority than the best one.\<close>

definition visit_better :: "kernel \<Rightarrow> nat \<Rightarrow> nat \<Rightarrow> unit \<Rightarrow> unit + nat option" where
  "visit_better ks best_thread suggested u =
     (if priority_of ks suggested \<ge> priority_of ks best_thread then Inr None
      else
        let top_on_suggested_core = top_on_core_of suggested ks
        in if top_on_suggested_core \<noteq> Some suggested \<and> migration_allowed ks top_on_suggested_core
           then Inr (Some suggested)
           else Inl u)"

definition migrate_found :: "nat \<Rightarrow> unit + nat option \<Rightarrow> kernel \<Rightarrow> kernel" where
  "migrate_found core r ks =
     (case r of
        Inr (Some suggested) \<Rightarrow> IncrementScheduledCount suggested (migrate suggested (int core) True ks)
      | _ \<Rightarrow> ks)"

definition rotate_front :: "nat \<Rightarrow> nat \<Rightarrow> kernel \<Rightarrow> nat option \<times> nat option \<times> kernel" where
  "rotate_front core priority ks =
     (case GetScheduledFront_at core priority (ks_priority_queue ks) of
        None \<Rightarrow> (None, None, ks)
      | Some top_thread \<Rightarrow>
          let (next_thread, pq) = MoveToScheduledBack (ks_threads ks top_thread) top_thread (ks_priority_queue ks);
              ks = ks\<lparr>ks_priority_queue := pq\<rparr>;
              ks = (case next_thread of
                      None \<Rightarrow> ks
                    | Some n \<Rightarrow>
                        if n \<noteq> top_thread then IncrementScheduledCount n (IncrementScheduledCount top_thread ks) else ks)
          in (Some top_thread, next_thread, ks))"

definition RotateScheduledQueue :: "nat \<Rightarrow> nat \<Rightarrow> nat \<Rightarrow> kernel \<Rightarrow> kernel option" where
  "RotateScheduledQueue cur core priority ks =
     (let (top_thread, next_thread, ks) = rotate_front core priority ks
      in do {
           r \<leftarrow> queue_walk (\<lambda>t. GetSamePriorityNext core t (ks_priority_queue ks)) (visit_rotation ks top_thread next_thread)
                  (GetSuggestedFront_at core priority (ks_priority_queue ks)) ();
           let ks = migrate_found core r ks;
           let pq = ks_priority_queue ks;
           let best_thread = (case GetScheduledFront core pq of
                                None \<Rightarrow> None
                              | Some t \<Rightarrow> if t = cur then GetScheduledNext (ks_threads ks) core t pq else Some t);
           ks \<leftarrow> (case best_thread of
                    None \<Rightarrow> Some ks
                  | Some best \<Rightarrow>
                      if priority_of ks best \<ge> priority
                      then do {
                        r \<leftarrow> queue_walk (\<lambda>t. GetSuggestedNext (ks_threads ks) core t pq) (visit_better ks best)
                               (GetSuggestedFront core pq) ();
                        Some (migrate_found core r ks)
                      }
                      else Some ks);
           Some (SetSchedulerUpdateNeeded ks)
         })"

definition preemption_priorities :: "nat list" where
  "preemption_priorities = [59, 59, 59, 63]"

fun preempt_cores :: "nat \<Rightarrow> nat \<Rightarrow> nat list \<Rightarrow> kernel \<Rightarrow> kernel option" where
  "preempt_cores cur core_id [] ks = Some ks"
| "preempt_cores cur core_id (priority # ps) ks =
     do { ks \<leftarrow> RotateScheduledQueue cur core_id priority ks; preempt_cores cur (core_id + 1) ps ks }"

definition PreemptThreads :: "nat \<Rightarrow> kernel \<Rightarrow> kernel option" where
  "PreemptThreads cur ks = preempt_cores cur 0 preemption_priorities ks"

section \<open>Yielding\<close>

text \<open>
  The three ways to yield. Each does nothing when the process has not been scheduled since the last
  time a yield found nothing to do. The current thread belongs to a process, which is asserted.
\<close>

definition scheduled_count :: "kernel \<Rightarrow> nat \<Rightarrow> int" where
  "scheduled_count ks t =
     (case th_parent (ks_threads ks t) of None \<Rightarrow> 0 | Some p \<Rightarrow> pr_schedule_count (ks_processes ks p))"

definition SetYieldScheduleCount :: "nat \<Rightarrow> kernel \<Rightarrow> kernel" where
  "SetYieldScheduleCount t ks = upd_thread t (\<lambda>th. th\<lparr>th_schedule_count := scheduled_count ks t\<rparr>) ks"

definition yield_back :: "nat \<Rightarrow> kernel \<Rightarrow> nat option \<times> kernel" where
  "yield_back cur ks =
     (let (next_thread, pq) = MoveToScheduledBack (ks_threads ks cur) cur (ks_priority_queue ks)
      in (next_thread, IncrementScheduledCount cur (ks\<lparr>ks_priority_queue := pq\<rparr>)))"

definition YieldWithoutCoreMigration :: "nat \<Rightarrow> kernel \<Rightarrow> kernel" where
  "YieldWithoutCoreMigration cur ks =
     (let th = ks_threads ks cur
      in if th_schedule_count th = scheduled_count ks cur then ks
         else if th_thread_state th = Runnable
         then
           let (next_thread, ks) = yield_back cur ks
           in if next_thread \<noteq> Some cur then SetSchedulerUpdateNeeded ks else SetYieldScheduleCount cur ks
         else ks)"

text \<open>The variable of the loop tells whether a later yield should look again.\<close>

definition visit_yield :: "kernel \<Rightarrow> nat \<Rightarrow> nat option \<Rightarrow> nat \<Rightarrow> bool \<Rightarrow> bool + nat option \<times> bool" where
  "visit_yield ks cur next_thread suggested recheck =
     (let suggested_core = th_core_id (ks_threads ks suggested);
          running_on_suggested_core =
            (if suggested_core \<ge> 0 then sc_highest_priority_thread (ks_schedulers ks (nat suggested_core)) else None)
      in if running_on_suggested_core \<noteq> Some suggested
         then
           if priority_of ks suggested > priority_of ks cur \<or>
             (priority_of ks suggested = priority_of ks cur \<and> next_thread \<noteq> Some cur \<and>
              (case next_thread of
                 None \<Rightarrow> False
               | Some n \<Rightarrow> th_last_scheduled_tick (ks_threads ks n) < th_last_scheduled_tick (ks_threads ks suggested)))
           then Inr (None, recheck)
           else if migration_allowed ks running_on_suggested_core then Inr (Some suggested, recheck)
           else Inl True
         else Inl recheck)"

definition YieldWithCoreMigration :: "nat \<Rightarrow> kernel \<Rightarrow> kernel option" where
  "YieldWithCoreMigration cur ks =
     (let th = ks_threads ks cur
      in if th_schedule_count th = scheduled_count ks cur then Some ks
         else if th_thread_state th = Runnable
         then
           let core = nat (th_core_id th);
               (next_thread, ks) = yield_back cur ks
           in do {
                r \<leftarrow> queue_walk (\<lambda>t. GetSuggestedNext (ks_threads ks) core t (ks_priority_queue ks)) (visit_yield ks cur next_thread)
                       (GetSuggestedFront core (ks_priority_queue ks)) False;
                let (suggested, recheck) = (case r of Inl recheck \<Rightarrow> (None, recheck) | Inr res \<Rightarrow> res);
                let ks = (case suggested of
                            None \<Rightarrow> ks
                          | Some t \<Rightarrow> IncrementScheduledCount t (migrate t (int core) True ks));
                Some (if suggested \<noteq> None \<or> next_thread \<noteq> Some cur then SetSchedulerUpdateNeeded ks
                      else if \<not> recheck then SetYieldScheduleCount cur ks
                      else ks)
              }
         else Some ks)"

text \<open>The walk of \<open>YieldToAnyThread\<close> ends at the first thread that does not run on its core.\<close>

definition visit_any :: "kernel \<Rightarrow> nat \<Rightarrow> unit \<Rightarrow> unit + nat \<times> bool" where
  "visit_any ks suggested u =
     (let top_on_suggested_core = top_on_core_of suggested ks
      in if top_on_suggested_core \<noteq> Some suggested
         then Inr (suggested, migration_allowed ks top_on_suggested_core)
         else Inl u)"

definition YieldToAnyThread :: "nat \<Rightarrow> kernel \<Rightarrow> kernel option" where
  "YieldToAnyThread cur ks =
     (let th = ks_threads ks cur
      in if th_schedule_count th = scheduled_count ks cur then Some ks
         else if th_thread_state th = Runnable
         then
           let core = nat (th_core_id th);
               ks = IncrementScheduledCount cur (migrate cur (- 1) False ks)
           in if GetScheduledFront core (ks_priority_queue ks) = None
              then do {
                r \<leftarrow> queue_walk (\<lambda>t. GetSuggestedNext (ks_threads ks) core t (ks_priority_queue ks)) (visit_any ks)
                       (GetSuggestedFront core (ks_priority_queue ks)) ();
                let ks = (case r of
                            Inr (t, True) \<Rightarrow> IncrementScheduledCount t (migrate t (int core) False ks)
                          | _ \<Rightarrow> ks);
                Some (if (case r of Inr (t, _) \<Rightarrow> t \<noteq> cur | Inl _ \<Rightarrow> True) then SetSchedulerUpdateNeeded ks
                      else SetYieldScheduleCount cur ks)
              }
              else Some (SetSchedulerUpdateNeeded ks)
         else Some ks)"

section \<open>Switching\<close>

text \<open>The thread that the core runs from now on; without a thread to run it is the idle thread.\<close>

definition SwitchThread :: "int \<Rightarrow> nat \<Rightarrow> nat \<Rightarrow> nat option \<Rightarrow> kernel \<Rightarrow> kernel" where
  "SwitchThread now core cur next_thread ks =
     (let s = ks_schedulers ks core;
          cur_process = th_parent (ks_threads ks cur);
          nxt = (case next_thread of None \<Rightarrow> sc_idle_thread s | Some t \<Rightarrow> t);
          ks = (if th_current_core_id (ks_threads ks nxt) \<noteq> int (sc_core_id s)
                then upd_thread nxt (\<lambda>th. th\<lparr>th_current_core_id := int (sc_core_id s)\<rparr>) ks else ks)
      in if nxt = cur then ks
         else
           let tick_diff = now - sc_last_context_switch_time s;
               ks = upd_thread cur (\<lambda>th. th\<lparr>th_cpu_time := th_cpu_time th + tick_diff\<rparr>) ks;
               ks = (case cur_process of
                       None \<Rightarrow> ks
                     | Some p \<Rightarrow> upd_process p (\<lambda>pr. pr\<lparr>pr_cpu_time := pr_cpu_time pr + tick_diff\<rparr>) ks);
               ks = upd_scheduler core (\<lambda>s. s\<lparr>sc_last_context_switch_time := now\<rparr>) ks;
               ks = (case cur_process of
                       None \<Rightarrow> ks
                     | Some p \<Rightarrow>
                         let th = ks_threads ks cur
                         in upd_scheduler core
                              (\<lambda>s. s\<lparr>sc_prev_thread :=
                                     (if \<not> IsTerminationRequested th \<and> th_core_id th = int (sc_core_id s) then Some cur else None)\<rparr>)
                              ks)
           in upd_scheduler core (\<lambda>s. s\<lparr>sc_current_thread := nxt\<rparr>) ks)"

text \<open>What \<open>ScheduleImpl\<close> decides: whether to switch, and to which thread.\<close>

definition ScheduleImpl :: "nat \<Rightarrow> nat \<Rightarrow> kernel \<Rightarrow> nat option option \<times> kernel" where
  "ScheduleImpl core cur ks =
     (let ks = upd_scheduler core (\<lambda>s. s\<lparr>sc_needs_scheduling := False\<rparr>) ks;
          s = ks_schedulers ks core;
          highest_priority_thread =
            (if sc_interrupt_task_runnable s then None else sc_highest_priority_thread s)
      in (if highest_priority_thread = Some cur then None else Some highest_priority_thread, ks))"

definition RescheduleOtherCores :: "nat \<Rightarrow> u64 \<Rightarrow> nat list" where
  "RescheduleOtherCores core cores_needing_scheduling =
     (let core_mask = cores_needing_scheduling AND NOT (push_bit core 1)
      in if core_mask \<noteq> 0 then filter (\<lambda>i. core_mask AND push_bit i 1 \<noteq> 0) [0..<NumCores] else [])"

section \<open>The lock\<close>

definition Scheduler_Lock :: "nat \<Rightarrow> kernel \<Rightarrow> kernel" where
  "Scheduler_Lock cur ks =
     (let ks = (if ks_owner_thread ks = Some cur then ks
                else (upd_thread cur (\<lambda>th. th\<lparr>th_disable_count := th_disable_count th + 1\<rparr>) ks)\<lparr>ks_owner_thread := Some cur\<rparr>)
      in ks\<lparr>ks_lock_count := ks_lock_count ks + 1\<rparr>)"

text \<open>Releasing the lock; the result holds the cores to reschedule, when it was the last release.\<close>

definition Scheduler_Unlock :: "int \<Rightarrow> nat \<Rightarrow> kernel \<Rightarrow> (u64 option \<times> kernel) option" where
  "Scheduler_Unlock now cur ks =
     (let ks = ks\<lparr>ks_lock_count := ks_lock_count ks - 1\<rparr>
      in if ks_lock_count ks = 0
         then do {
           (cores_needing_scheduling, ks) \<leftarrow> UpdateHighestPriorityThreads now cur ks;
           Some (Some cores_needing_scheduling, ks\<lparr>ks_owner_thread := None\<rparr>)
         }
         else Some (None, ks))"

end
