(* ===== verification/KThread_Ops.thy ===== *)
theory KThread_Ops
  imports KScheduler
begin

text \<open>
  The operations of \<^verbatim>\<open>src/src/core/hle/kernel/k_thread.cpp\<close> and \<^verbatim>\<open>k_process.cpp\<close> that change what the
  scheduler knows of a thread: its state and its suspension, the core it is pinned to, and its core
  mask. Each notifies the scheduler of the change. They run while the lock of the scheduler is held;
  the lock of the thread's activity and the waiting until a thread has left its core are not part of
  the model.
\<close>

section \<open>Creation\<close>

definition VirtualToPhysicalCoreMap :: "nat list" where
  "VirtualToPhysicalCoreMap = [0, 1, 2, 3] @ replicate 59 0 @ [3]"

definition SuspendFlagMask :: u16 where
  "SuspendFlagMask = push_bit SuspendShift (push_bit 6 1 - 1)"

text \<open>
  \<open>KThread::Initialize\<close> of a new object, on the fields of the model. The thread local region, the
  register context, the registration with the process and the suspension of a thread whose process is
  suspended are left out, and so is the disable count that \<open>InitializeDummyThread\<close> clears afterwards.
\<close>

definition thread_Initialize :: "ThreadType \<Rightarrow> nat \<Rightarrow> nat \<Rightarrow> nat option \<Rightarrow> KThread \<Rightarrow> KThread" where
  "thread_Initialize type prio virt_core owner th =
     (let phys_core = VirtualToPhysicalCoreMap ! virt_core
      in th\<lparr>th_thread_type := type,
            th_virtual_ideal_core_id := int virt_core, th_physical_ideal_core_id := int phys_core,
            th_virtual_affinity_mask := push_bit virt_core 1,
            th_physical_affinity_mask := SetAffinity phys_core True (th_physical_affinity_mask th),
            th_thread_state := (if type = MainThread \<or> type = Dummy then Runnable else Initialized),
            th_condvar_tree := None, th_termination_requested := False,
            th_core_id := int phys_core, th_wait_result := ResultNoSynchronizationObject,
            th_priority := prio, th_base_priority := prio,
            th_suspend_request_flags := 0, th_suspend_allowed_flags := ucast SuspendFlagMask,
            th_schedule_count := - 1, th_last_scheduled_tick := 0,
            th_waiting_lock_info := None, th_num_core_migration_disables := 0, th_num_kernel_waiters := 0,
            th_current_core_id := int phys_core, th_cpu_time := 0,
            th_is_pinned := False, th_disable_count := 1, th_parent := owner\<rparr>)"

section \<open>State and suspension\<close>

definition SetState :: "nat \<Rightarrow> u16 \<Rightarrow> kernel \<Rightarrow> kernel" where
  "SetState t state ks =
     (let old_state = th_thread_state (ks_threads ks t);
          new_state = (old_state AND NOT State_Mask) OR (state AND State_Mask);
          ks = upd_thread t (\<lambda>th. th\<lparr>th_thread_state := new_state\<rparr>) ks
      in if new_state \<noteq> old_state then OnThreadStateChanged t old_state ks else ks)"

definition UpdateState :: "nat \<Rightarrow> kernel \<Rightarrow> kernel" where
  "UpdateState t ks =
     (let th = ks_threads ks t;
          old_state = th_thread_state th;
          new_state = ucast (GetSuspendFlags th) OR (old_state AND State_Mask);
          ks = upd_thread t (\<lambda>th. th\<lparr>th_thread_state := new_state\<rparr>) ks
      in if new_state \<noteq> old_state then OnThreadStateChanged t old_state ks else ks)"

definition Continue_thread :: "nat \<Rightarrow> kernel \<Rightarrow> kernel" where
  "Continue_thread t ks =
     (let old_state = th_thread_state (ks_threads ks t);
          ks = upd_thread t (\<lambda>th. th\<lparr>th_thread_state := old_state AND State_Mask\<rparr>) ks
      in OnThreadStateChanged t old_state ks)"

definition TrySuspend :: "nat \<Rightarrow> kernel \<Rightarrow> kernel" where
  "TrySuspend t ks = (if th_num_kernel_waiters (ks_threads ks t) > 0 then ks else UpdateState t ks)"

definition suspend_bit :: "SuspendType \<Rightarrow> u32" where
  "suspend_bit type = push_bit (SuspendShift + suspend_number type) 1"

definition RequestSuspend :: "SuspendType \<Rightarrow> nat \<Rightarrow> kernel \<Rightarrow> kernel" where
  "RequestSuspend type t ks =
     TrySuspend t (upd_thread t (\<lambda>th. th\<lparr>th_suspend_request_flags := th_suspend_request_flags th OR suspend_bit type\<rparr>) ks)"

definition Resume :: "SuspendType \<Rightarrow> nat \<Rightarrow> kernel \<Rightarrow> kernel" where
  "Resume type t ks =
     UpdateState t (upd_thread t (\<lambda>th. th\<lparr>th_suspend_request_flags := th_suspend_request_flags th AND NOT (suspend_bit type)\<rparr>) ks)"

text \<open>The part of \<open>SetActivity\<close> that changes the thread; \<open>paused\<close> is the requested activity.\<close>

definition SetActivity :: "bool \<Rightarrow> nat \<Rightarrow> kernel \<Rightarrow> Result \<times> kernel" where
  "SetActivity paused t ks =
     (let th = ks_threads ks t; cur_state = GetState th
      in if \<not> (cur_state = Waiting_State \<or> cur_state = Runnable) then (ResultInvalidState, ks)
         else if paused
         then
           if IsSuspendRequested_of Suspend_Thread th then (ResultInvalidState, ks)
           else (ResultSuccess, RequestSuspend Suspend_Thread t ks)
         else
           if \<not> IsSuspendRequested_of Suspend_Thread th then (ResultInvalidState, ks)
           else (ResultSuccess, Resume Suspend_Thread t ks))"

definition BeginWait :: "nat \<Rightarrow> kernel \<Rightarrow> kernel" where
  "BeginWait t = SetState t Waiting_State"

text \<open>
  The queues a thread waits on share one way to end a wait. A thread that waits always has a queue,
  which the code asserts.
\<close>

definition wake :: "Result \<Rightarrow> nat \<Rightarrow> kernel \<Rightarrow> kernel" where
  "wake result t ks = SetState t Runnable (upd_thread t (\<lambda>th. th\<lparr>th_wait_result := result\<rparr>) ks)"

definition EndWait :: "Result \<Rightarrow> nat \<Rightarrow> kernel \<Rightarrow> kernel" where
  "EndWait result t ks = (if GetState (ks_threads ks t) = Waiting_State then wake result t ks else ks)"

section \<open>Pinning\<close>

definition Pin :: "nat \<Rightarrow> nat \<Rightarrow> kernel \<Rightarrow> kernel" where
  "Pin t current_core ks =
     (let th = ks_threads ks t;
          active_core = th_core_id th;
          original = th_physical_affinity_mask th;
          ks = upd_thread t (\<lambda>th. th\<lparr>th_is_pinned := True,
                 th_num_core_migration_disables := th_num_core_migration_disables th + 1,
                 th_original_physical_ideal_core_id := th_physical_ideal_core_id th,
                 th_original_physical_affinity_mask := original,
                 th_core_id := int current_core,
                 th_physical_ideal_core_id := int current_core,
                 th_physical_affinity_mask := GetCoreBit current_core\<rparr>) ks;
          ks = (if active_core \<noteq> int current_core \<or> GetCoreBit current_core \<noteq> original
                then OnThreadAffinityMaskChanged t original active_core ks else ks);
          ks = upd_thread t (\<lambda>th. th\<lparr>th_suspend_allowed_flags :=
                 th_suspend_allowed_flags th AND NOT (suspend_bit Suspend_Thread)\<rparr>) ks
      in UpdateState t ks)"

text \<open>
  The core for a thread whose active core is not in its new mask: the ideal core, or the highest one
  of the mask.
\<close>

definition core_for_mask :: "int \<Rightarrow> u64 \<Rightarrow> int" where
  "core_for_mask ideal m = (if ideal \<ge> 0 then ideal else 64 - 1 - int (countl_zero m))"

text \<open>The active core of a pinned thread is not negative, as \<open>GetAffinity\<close> asserts.\<close>

definition Unpin :: "nat \<Rightarrow> kernel \<Rightarrow> kernel" where
  "Unpin t ks =
     (let th = ks_threads ks t;
          old_mask = th_physical_affinity_mask th;
          new_mask = th_original_physical_affinity_mask th;
          active_core = th_core_id th;
          ks = upd_thread t (\<lambda>th. th\<lparr>th_is_pinned := False,
                 th_num_core_migration_disables := th_num_core_migration_disables th - 1,
                 th_physical_ideal_core_id := th_original_physical_ideal_core_id th,
                 th_physical_affinity_mask := new_mask\<rparr>) ks;
          ks = (if new_mask \<noteq> old_mask
                then
                  let ks = (if \<not> GetAffinity (nat active_core) new_mask
                            then upd_thread t (\<lambda>th. th\<lparr>th_core_id := core_for_mask (th_physical_ideal_core_id th) new_mask\<rparr>) ks
                            else ks)
                  in OnThreadAffinityMaskChanged t old_mask active_core ks
                else ks);
          ks = (if \<not> IsTerminationRequested (ks_threads ks t)
                then UpdateState t (upd_thread t (\<lambda>th. th\<lparr>th_suspend_allowed_flags :=
                       th_suspend_allowed_flags th OR suspend_bit Suspend_Thread\<rparr>) ks)
                else ks);
          waiters = th_pinned_waiter_list (ks_threads ks t)
      in upd_thread t (\<lambda>th. th\<lparr>th_pinned_waiter_list := []\<rparr>) (fold (EndWait ResultSuccess) waiters ks))"

definition PinCurrentThread :: "nat \<Rightarrow> nat \<Rightarrow> kernel \<Rightarrow> kernel" where
  "PinCurrentThread p cur ks =
     (let core_id = nat (th_current_core_id (ks_threads ks cur))
      in if \<not> IsTerminationRequested (ks_threads ks cur)
         then
           let ks = upd_process p (\<lambda>pr. pr\<lparr>pr_pinned_threads := (pr_pinned_threads pr)(core_id := Some cur)\<rparr>) ks
           in SetSchedulerUpdateNeeded (Pin cur core_id ks)
         else ks)"

definition UnpinCurrentThread :: "nat \<Rightarrow> nat \<Rightarrow> kernel \<Rightarrow> kernel" where
  "UnpinCurrentThread p cur ks =
     (let core_id = nat (th_current_core_id (ks_threads ks cur));
          ks = Unpin cur ks;
          ks = upd_process p (\<lambda>pr. pr\<lparr>pr_pinned_threads := (pr_pinned_threads pr)(core_id := None)\<rparr>) ks
      in SetSchedulerUpdateNeeded ks)"

definition UnpinThread :: "nat \<Rightarrow> nat \<Rightarrow> kernel \<Rightarrow> kernel" where
  "UnpinThread p t ks =
     (let core_id = nat (th_core_id (ks_threads ks t));
          ks = upd_process p (\<lambda>pr. pr\<lparr>pr_pinned_threads := (pr_pinned_threads pr)(core_id := None)\<rparr>) ks
      in SetSchedulerUpdateNeeded (Unpin t ks))"

section \<open>Core masks\<close>

definition IdealCoreNoUpdate :: int where
  "IdealCoreNoUpdate = - 3"

function ConvertVirtualCoreMaskToPhysical :: "u64 \<Rightarrow> u64 \<Rightarrow> u64" where
  "ConvertVirtualCoreMaskToPhysical v p =
     (if v = 0 then p
      else
        let nxt = countr_zero v
        in ConvertVirtualCoreMaskToPhysical (ClearAffinityBit v nxt) (p OR push_bit (VirtualToPhysicalCoreMap ! nxt) 1))"
  by pat_completeness auto

termination
  by (relation "measure (\<lambda>(v, _). unat v)") (auto simp: ClearAffinityBit_less)

declare ConvertVirtualCoreMaskToPhysical.simps [simp del]

text \<open>
  The part of \<open>SetCoreMask\<close> that changes the thread. Without an update the ideal core is the one the
  thread has; when that is negative the code shifts by a negative amount, which is undefined and is
  \<open>None\<close> here.
\<close>

definition SetCoreMask :: "int \<Rightarrow> u64 \<Rightarrow> nat \<Rightarrow> kernel \<Rightarrow> (Result \<times> kernel) option" where
  "SetCoreMask core_id v_affinity_mask t ks =
     (let th = ks_threads ks t;
          core = (if core_id \<noteq> IdealCoreNoUpdate then core_id else th_virtual_ideal_core_id th)
      in if core_id = IdealCoreNoUpdate \<and> core < 0 then None
         else if core_id = IdealCoreNoUpdate \<and> push_bit (nat core) 1 AND v_affinity_mask = 0
         then Some (ResultInvalidCombination, ks)
         else
           let ks = upd_thread t (\<lambda>th. th\<lparr>th_virtual_ideal_core_id := core, th_virtual_affinity_mask := v_affinity_mask\<rparr>) ks;
               core = (if core \<ge> 0 then int (VirtualToPhysicalCoreMap ! nat core) else core);
               p_affinity_mask = ConvertVirtualCoreMaskToPhysical v_affinity_mask 0
           in if th_num_core_migration_disables th = 0
              then
                let old_mask = th_physical_affinity_mask th;
                    active_core = th_core_id th;
                    ks = upd_thread t (\<lambda>th. th\<lparr>th_physical_ideal_core_id := core, th_physical_affinity_mask := p_affinity_mask\<rparr>) ks
                in if p_affinity_mask \<noteq> old_mask
                   then
                     let ks = (if active_core \<ge> 0 \<and> \<not> GetAffinity (nat active_core) p_affinity_mask
                               then upd_thread t (\<lambda>th. th\<lparr>th_core_id := core_for_mask core p_affinity_mask\<rparr>) ks
                               else ks)
                     in Some (ResultSuccess, OnThreadAffinityMaskChanged t old_mask active_core ks)
                   else Some (ResultSuccess, ks)
              else
                Some (ResultSuccess,
                  upd_thread t (\<lambda>th. th\<lparr>th_original_physical_ideal_core_id := core,
                    th_original_physical_affinity_mask := p_affinity_mask\<rparr>) ks))"

end
