(* ===== verification/KThread_Locks.thy ===== *)
theory KThread_Locks
  imports KThread_Ops
begin

text \<open>
  Locks with priority inheritance: the part of \<^verbatim>\<open>src/src/core/hle/kernel/k_thread.cpp\<close> by which a thread
  that holds a lock runs at the priority of the most urgent thread that waits for it. Every address
  a thread is waited for at has a lock object in the list of its owner; the objects come from a slab
  heap, whose list of free objects is part of the state.

  The tree of the waiters and the trees of condition variables are ordered when their comparison
  only sees threads of the tree; insertion puts a thread behind those that are not greater. A null
  pointer that is followed, which the code asserts away, is \<open>None\<close>.
\<close>

section \<open>Ordered trees\<close>

text \<open>\<open>Compare\<close> of the two kinds of tree, and insertion into each.\<close>

definition lock_before :: "(nat \<Rightarrow> KThread) \<Rightarrow> nat \<Rightarrow> nat \<Rightarrow> bool" where
  "lock_before threads lhs rhs \<longleftrightarrow> th_priority (threads lhs) < th_priority (threads rhs)"

definition condvar_before :: "(nat \<Rightarrow> KThread) \<Rightarrow> nat \<Rightarrow> nat \<Rightarrow> bool" where
  "condvar_before threads lhs rhs \<longleftrightarrow>
     (let l_key = th_condvar_key (threads lhs); r_key = th_condvar_key (threads rhs)
      in l_key < r_key \<or> l_key = r_key \<and> th_priority (threads lhs) < th_priority (threads rhs))"

definition tree_insert_by :: "(nat \<Rightarrow> nat \<Rightarrow> bool) \<Rightarrow> nat \<Rightarrow> nat list \<Rightarrow> nat list" where
  "tree_insert_by before t ts = takeWhile (\<lambda>u. \<not> before t u) ts @ t # dropWhile (\<lambda>u. \<not> before t u) ts"

section \<open>Lock objects\<close>

definition upd_lock :: "nat \<Rightarrow> (LockInfo \<Rightarrow> LockInfo) \<Rightarrow> kernel \<Rightarrow> kernel" where
  "upd_lock l f ks = ks\<lparr>ks_lock_infos := (ks_lock_infos ks)(l := f (ks_lock_infos ks l))\<rparr>"

definition lock_Create :: "u64 \<Rightarrow> bool \<Rightarrow> kernel \<Rightarrow> (nat \<times> kernel) option" where
  "lock_Create address_key is_kernel_address_key ks =
     (case ks_free_lock_infos ks of
        [] \<Rightarrow> None
      | l # ls \<Rightarrow>
          Some (l, (ks\<lparr>ks_free_lock_infos := ls\<rparr>)\<lparr>ks_lock_infos := (ks_lock_infos ks)
            (l := \<lparr>li_tree = [], li_address_key = address_key, li_owner = None, li_waiter_count = 0,
                    li_is_kernel_address_key = is_kernel_address_key\<rparr>)\<rparr>))"

definition lock_Free :: "nat \<Rightarrow> kernel \<Rightarrow> kernel" where
  "lock_Free l ks = ks\<lparr>ks_free_lock_infos := l # ks_free_lock_infos ks\<rparr>"

definition lock_AddWaiter :: "nat \<Rightarrow> nat \<Rightarrow> kernel \<Rightarrow> kernel" where
  "lock_AddWaiter l waiter ks =
     (let ks = upd_lock l (\<lambda>li. li\<lparr>li_tree := tree_insert_by (lock_before (ks_threads ks)) waiter (li_tree li),
                 li_waiter_count := li_waiter_count li + 1\<rparr>) ks
      in upd_thread waiter (\<lambda>th. th\<lparr>th_waiting_lock_info := Some l\<rparr>) ks)"

definition lock_RemoveWaiter :: "nat \<Rightarrow> nat \<Rightarrow> kernel \<Rightarrow> bool \<times> kernel" where
  "lock_RemoveWaiter l waiter ks =
     (let ks = upd_lock l (\<lambda>li. li\<lparr>li_tree := remove1 waiter (li_tree li)\<rparr>) ks;
          ks = upd_thread waiter (\<lambda>th. th\<lparr>th_waiting_lock_info := None\<rparr>) ks;
          ks = upd_lock l (\<lambda>li. li\<lparr>li_waiter_count := li_waiter_count li - 1\<rparr>) ks
      in (li_waiter_count (ks_lock_infos ks l) = 0, ks))"

definition GetHighestPriorityWaiter :: "nat \<Rightarrow> kernel \<Rightarrow> nat option" where
  "GetHighestPriorityWaiter l ks = (case li_tree (ks_lock_infos ks l) of [] \<Rightarrow> None | w # _ \<Rightarrow> Some w)"

section \<open>Held locks\<close>

definition AddHeldLock :: "nat \<Rightarrow> nat \<Rightarrow> kernel \<Rightarrow> kernel" where
  "AddHeldLock t l ks =
     upd_thread t (\<lambda>th. th\<lparr>th_held_lock_info_list := l # th_held_lock_info_list th\<rparr>)
       (upd_lock l (\<lambda>li. li\<lparr>li_owner := Some t\<rparr>) ks)"

definition drop_held :: "nat \<Rightarrow> nat \<Rightarrow> kernel \<Rightarrow> kernel" where
  "drop_held t l = upd_thread t (\<lambda>th. th\<lparr>th_held_lock_info_list := remove1 l (th_held_lock_info_list th)\<rparr>)"

definition FindHeldLock :: "nat \<Rightarrow> u64 \<Rightarrow> bool \<Rightarrow> kernel \<Rightarrow> nat option" where
  "FindHeldLock t address_key is_kernel_address_key ks =
     find (\<lambda>l. li_address_key (ks_lock_infos ks l) = address_key \<and>
               li_is_kernel_address_key (ks_lock_infos ks l) = is_kernel_address_key)
       (th_held_lock_info_list (ks_threads ks t))"

definition GetLockOwner :: "nat \<Rightarrow> kernel \<Rightarrow> nat option" where
  "GetLockOwner t ks =
     (case th_waiting_lock_info (ks_threads ks t) of None \<Rightarrow> None | Some l \<Rightarrow> li_owner (ks_lock_infos ks l))"

definition add_kernel_waiters :: "nat \<Rightarrow> int \<Rightarrow> kernel \<Rightarrow> kernel" where
  "add_kernel_waiters t n = upd_thread t (\<lambda>th. th\<lparr>th_num_kernel_waiters := th_num_kernel_waiters th + n\<rparr>)"

definition AddWaiterImpl :: "nat \<Rightarrow> nat \<Rightarrow> kernel \<Rightarrow> kernel option" where
  "AddWaiterImpl t thread ks =
     (let address_key = th_address_key (ks_threads ks thread);
          is_kernel_address_key = th_is_kernel_address_key (ks_threads ks thread);
          ks = (if is_kernel_address_key then SetSchedulerUpdateNeeded (add_kernel_waiters t 1 ks) else ks)
      in do {
           (l, ks) \<leftarrow> (case FindHeldLock t address_key is_kernel_address_key ks of
                Some l \<Rightarrow> Some (l, ks)
              | None \<Rightarrow> do {
                  (l, ks) \<leftarrow> lock_Create address_key is_kernel_address_key ks;
                  Some (l, AddHeldLock t l ks)
                });
           Some (lock_AddWaiter l thread ks)
         })"

definition RemoveWaiterImpl :: "nat \<Rightarrow> nat \<Rightarrow> kernel \<Rightarrow> kernel option" where
  "RemoveWaiterImpl t thread ks =
     (let ks = (if th_is_kernel_address_key (ks_threads ks thread)
                then SetSchedulerUpdateNeeded (add_kernel_waiters t (- 1) ks) else ks)
      in case th_waiting_lock_info (ks_threads ks thread) of
           None \<Rightarrow> None
         | Some l \<Rightarrow>
             let (is_empty, ks) = lock_RemoveWaiter l thread ks
             in Some (if is_empty then lock_Free l (drop_held t l ks) else ks))"

section \<open>Inheritance\<close>

definition inherited_priority :: "nat \<Rightarrow> kernel \<Rightarrow> nat" where
  "inherited_priority t ks =
     fold (\<lambda>l p. case GetHighestPriorityWaiter l ks of None \<Rightarrow> p | Some w \<Rightarrow> min p (th_priority (ks_threads ks w)))
       (th_held_lock_info_list (ks_threads ks t)) (th_base_priority (ks_threads ks t))"

definition condvar_erase :: "nat \<Rightarrow> kernel \<Rightarrow> kernel" where
  "condvar_erase t ks =
     (case th_condvar_tree (ks_threads ks t) of
        None \<Rightarrow> ks
      | Some tr \<Rightarrow> ks\<lparr>ks_trees := (ks_trees ks)(tr := remove1 t (ks_trees ks tr))\<rparr>)"

definition condvar_insert :: "nat \<Rightarrow> kernel \<Rightarrow> kernel" where
  "condvar_insert t ks =
     (case th_condvar_tree (ks_threads ks t) of
        None \<Rightarrow> ks
      | Some tr \<Rightarrow> ks\<lparr>ks_trees := (ks_trees ks)(tr := tree_insert_by (condvar_before (ks_threads ks)) t (ks_trees ks tr))\<rparr>)"

text \<open>One round of \<open>RestorePriority\<close>: the thread gets its new priority in every tree it is in.\<close>

definition restore_one :: "nat \<Rightarrow> nat \<Rightarrow> nat \<Rightarrow> kernel \<Rightarrow> kernel option" where
  "restore_one cur t new_priority ks =
     (let lock_owner = GetLockOwner t ks
      in do {
           ks \<leftarrow> (case lock_owner of None \<Rightarrow> Some ks | Some owner \<Rightarrow> RemoveWaiterImpl owner t ks);
           let ks = condvar_erase t ks;
           let old_priority = th_priority (ks_threads ks t);
           let ks = upd_thread t (\<lambda>th. th\<lparr>th_priority := new_priority\<rparr>) ks;
           let ks = condvar_insert t ks;
           ks \<leftarrow> (case lock_owner of None \<Rightarrow> Some ks | Some owner \<Rightarrow> AddWaiterImpl owner t ks);
           Some (OnThreadPriorityChanged cur t old_priority ks)
         })"

partial_function (option) RestorePriority :: "nat \<Rightarrow> nat option \<Rightarrow> kernel \<Rightarrow> kernel option" where
  "RestorePriority cur thread ks =
     (case thread of
        None \<Rightarrow> Some ks
      | Some t \<Rightarrow>
          let new_priority = inherited_priority t ks
          in if new_priority = th_priority (ks_threads ks t) then Some ks
             else
               let lock_owner = GetLockOwner t ks
               in do {
                    ks \<leftarrow> restore_one cur t new_priority ks;
                    RestorePriority cur lock_owner ks
                  })"

declare RestorePriority.simps [code]

definition AddWaiter :: "nat \<Rightarrow> nat \<Rightarrow> nat \<Rightarrow> kernel \<Rightarrow> kernel option" where
  "AddWaiter cur t thread ks =
     do {
       ks \<leftarrow> AddWaiterImpl t thread ks;
       if th_priority (ks_threads ks thread) < th_priority (ks_threads ks t) then RestorePriority cur (Some t) ks
       else Some ks
     }"

definition RemoveWaiter :: "nat \<Rightarrow> nat \<Rightarrow> nat \<Rightarrow> kernel \<Rightarrow> kernel option" where
  "RemoveWaiter cur t thread ks =
     do {
       ks \<leftarrow> RemoveWaiterImpl t thread ks;
       let th = ks_threads ks t;
       if th_priority th = th_priority (ks_threads ks thread) \<and> th_priority th < th_base_priority th
       then RestorePriority cur (Some t) ks
       else Some ks
     }"

text \<open>The result holds the next owner, if there is one, and whether others still wait.\<close>

definition RemoveWaiterByKey :: "nat \<Rightarrow> nat \<Rightarrow> u64 \<Rightarrow> bool \<Rightarrow> kernel \<Rightarrow> (nat option \<times> bool \<times> kernel) option" where
  "RemoveWaiterByKey cur t key is_kernel_address_key ks =
     (case FindHeldLock t key is_kernel_address_key ks of
        None \<Rightarrow> Some (None, False, ks)
      | Some l \<Rightarrow>
          let ks = drop_held t l ks;
              is_kernel = li_is_kernel_address_key (ks_lock_infos ks l);
              ks = (if is_kernel
                    then SetSchedulerUpdateNeeded (add_kernel_waiters t (- int (li_waiter_count (ks_lock_infos ks l))) ks)
                    else ks)
          in do {
               next_lock_owner \<leftarrow> GetHighestPriorityWaiter l ks;
               let (only_waiter, ks) = lock_RemoveWaiter l next_lock_owner ks;
               let ks = (if only_waiter then lock_Free l ks
                         else
                           let ks = AddHeldLock next_lock_owner l ks
                           in if is_kernel
                              then add_kernel_waiters next_lock_owner (int (li_waiter_count (ks_lock_infos ks l))) ks
                              else ks);
               let th = ks_threads ks t;
               ks \<leftarrow> (if th_priority th = th_priority (ks_threads ks next_lock_owner) \<and> th_priority th < th_base_priority th
                      then RestorePriority cur (Some t) ks
                      else Some ks);
               Some (Some next_lock_owner, \<not> only_waiter, ks)
             })"

definition SetBasePriority :: "nat \<Rightarrow> nat \<Rightarrow> nat \<Rightarrow> kernel \<Rightarrow> kernel option" where
  "SetBasePriority cur t v ks = RestorePriority cur (Some t) (upd_thread t (\<lambda>th. th\<lparr>th_base_priority := v\<rparr>) ks)"

definition IncreaseBasePriority :: "nat \<Rightarrow> nat \<Rightarrow> nat \<Rightarrow> kernel \<Rightarrow> kernel option" where
  "IncreaseBasePriority cur t priority ks =
     (if th_base_priority (ks_threads ks t) > priority
      then RestorePriority cur (Some t) (upd_thread t (\<lambda>th. th\<lparr>th_base_priority := priority\<rparr>) ks)
      else Some ks)"

end
