(* ===== verification/Lock_Trees.thy ===== *)
theory Lock_Trees
  imports KThread_Locks
begin

text \<open>
  The lock objects as lists: insertion keeps a tree ordered, for every comparison that is a weak order,
  and the changes a lock object goes through keep the invariant of the lists of held locks, the waiting
  threads and the free objects.
\<close>

section \<open>Ordered insertion\<close>

lemma set_tree_insert_by [simp]: "set (tree_insert_by before t ts) = insert t (set ts)"
  by (metis (no_types, lifting) Un_insert_right list.simps(15) set_append takeWhile_dropWhile_id tree_insert_by_def)

lemma length_tree_insert_by [simp]: "length (tree_insert_by before t ts) = Suc (length ts)"
  by (metis add_Suc_right length_Cons length_append takeWhile_dropWhile_id tree_insert_by_def)

lemma distinct_tree_insert_by [simp]: "distinct (tree_insert_by before t ts) \<longleftrightarrow> t \<notin> set ts \<and> distinct ts"
proof -
  obtain a b where "tree_insert_by before t ts = a @ t # b" "ts = a @ b"
    unfolding tree_insert_by_def by (metis takeWhile_dropWhile_id)
  then show ?thesis by auto
qed

text \<open>
  A tree is ordered when no thread comes before an earlier one. Insertion keeps that whenever \<open>before\<close>
  is a strict weak order.
\<close>

definition ordered :: "(nat \<Rightarrow> nat \<Rightarrow> bool) \<Rightarrow> nat list \<Rightarrow> bool" where
  "ordered before = sorted_wrt (\<lambda>u v. \<not> before v u)"

locale weak_order =
  fixes before :: "nat \<Rightarrow> nat \<Rightarrow> bool"
  assumes asym: "before u v \<Longrightarrow> \<not> before v u"
    and negative_trans: "\<not> before u v \<Longrightarrow> \<not> before v w \<Longrightarrow> \<not> before u w"
begin

lemma before_trans: "before u v \<Longrightarrow> \<not> before w v \<Longrightarrow> before u w"
  using negative_trans by blast

lemma ordered_insert: "ordered before ts \<Longrightarrow> ordered before (tree_insert_by before t ts)"
proof (induction ts)
  case (Cons u us)
  show ?case
  proof (cases "before t u")
    case True
    then have "before t v" if "v \<in> set us" for v
      using Cons.prems that before_trans [OF True] by (auto simp: ordered_def)
    then show ?thesis using True Cons.prems asym by (auto simp: ordered_def tree_insert_by_def)
  next
    case False
    have "set (tree_insert_by before t us) = insert t (set us)" by simp
    then show ?thesis using False Cons by (auto simp: ordered_def tree_insert_by_def)
  qed
qed (simp add: ordered_def tree_insert_by_def)

lemma ordered_front: "ordered before (w # ts) \<Longrightarrow> u \<in> set (w # ts) \<Longrightarrow> \<not> before u w"
  using asym by (auto simp: ordered_def)

end

lemma ordered_remove: "ordered before ts \<Longrightarrow> ordered before (remove1 t ts)"
  by (induction ts) (auto simp: ordered_def dest: notin_set_remove1)

lemma ordered_cong: "(\<And>u v. u \<in> set ts \<Longrightarrow> v \<in> set ts \<Longrightarrow> b' u v = b u v) \<Longrightarrow> ordered b' ts = ordered b ts"
  unfolding ordered_def by (induction ts) auto

interpretation lock_order: weak_order "lock_before threads" for threads
  by unfold_locales (auto simp: lock_before_def)

interpretation condvar_order: weak_order "condvar_before threads" for threads
  by unfold_locales (auto simp: condvar_before_def Let_def)

section \<open>The lock objects\<close>

text \<open>
  What the code keeps true of the lists of held locks \<open>H\<close>, the locks the threads wait for \<open>W\<close>, the lock
  objects \<open>I\<close> and the free ones \<open>F\<close>, for threads with the priorities \<open>P\<close> and the address keys \<open>K\<close>: a held
  lock names its holder, and its tree holds exactly the threads that wait for it, in the order of their
  priorities.
\<close>

abbreviation by_urgency :: "(nat \<Rightarrow> nat) \<Rightarrow> nat \<Rightarrow> nat \<Rightarrow> bool" where
  "by_urgency P u v \<equiv> P u < P v"

definition held_lock_ok :: "(nat \<Rightarrow> nat option) \<Rightarrow> (nat \<Rightarrow> nat) \<Rightarrow> nat \<Rightarrow> nat \<Rightarrow> LockInfo \<Rightarrow> bool" where
  "held_lock_ok W P t l li \<longleftrightarrow>
     li_owner li = Some t \<and> li_tree li \<noteq> [] \<and> distinct (li_tree li) \<and> ordered (by_urgency P) (li_tree li) \<and>
     li_waiter_count li = length (li_tree li) \<and> set (li_tree li) = {u. W u = Some l}"

definition lock_inv ::
  "(nat \<Rightarrow> nat list) \<Rightarrow> (nat \<Rightarrow> nat option) \<Rightarrow> (nat \<Rightarrow> LockInfo) \<Rightarrow> nat list \<Rightarrow> (nat \<Rightarrow> nat) \<Rightarrow> (nat \<Rightarrow> u64 \<times> bool) \<Rightarrow> bool" where
  "lock_inv H W I F P K \<longleftrightarrow>
     distinct F \<and> (\<forall>t. distinct (H t)) \<and> (\<forall>t l. l \<in> set (H t) \<longrightarrow> l \<notin> set F \<and> held_lock_ok W P t l (I l)) \<and>
     (\<forall>u l. W u = Some l \<longrightarrow> (\<exists>t. l \<in> set (H t)) \<and> K u = (li_address_key (I l), li_is_kernel_address_key (I l)))"

interpretation urgency: weak_order "by_urgency P" for P
  by unfold_locales auto

lemma lock_inv_held:
  assumes "lock_inv H W I F P K" "l \<in> set (H t)"
  shows "li_owner (I l) = Some t" "l \<notin> set F" "li_tree (I l) \<noteq> []" "distinct (li_tree (I l))" "ordered (by_urgency P) (li_tree (I l))"
    "li_waiter_count (I l) = length (li_tree (I l))" "set (li_tree (I l)) = {u. W u = Some l}"
  using assms unfolding lock_inv_def held_lock_ok_def by blast+

lemma lock_inv_waiting:
  assumes "lock_inv H W I F P K" "W u = Some l"
  obtains t where "l \<in> set (H t)" "li_owner (I l) = Some t" "u \<in> set (li_tree (I l))"
    "K u = (li_address_key (I l), li_is_kernel_address_key (I l))"
  using assms unfolding lock_inv_def held_lock_ok_def by blast

lemma lock_inv_ok: "lock_inv H W I F P K \<Longrightarrow> l \<in> set (H t) \<Longrightarrow> held_lock_ok W P t l (I l)"
  by (simp add: lock_inv_def)

lemma held_lock_ok_cong:
  assumes "\<And>u. W u = Some l \<Longrightarrow> P' u = P u" "\<And>u. W' u = Some l \<longleftrightarrow> W u = Some l" "held_lock_ok W P t l li"
  shows "held_lock_ok W' P' t l li"
proof -
  have "P' u = P u" if "u \<in> set (li_tree li)" for u using assms that by (simp add: held_lock_ok_def)
  then have "ordered (by_urgency P') (li_tree li) = ordered (by_urgency P) (li_tree li)" by (intro ordered_cong) simp
  then show ?thesis using assms by (simp add: held_lock_ok_def)
qed

lemma held_lock_ok_upd: "held_lock_ok W P t l li \<Longrightarrow> W u \<noteq> Some l \<Longrightarrow> x \<noteq> Some l \<Longrightarrow> held_lock_ok (W(u := x)) P t l li"
  by (erule held_lock_ok_cong [rotated 2]) auto

lemma lock_inv_priority:
  assumes inv: "lock_inv H W I F P K" and P: "\<And>u. W u \<noteq> None \<Longrightarrow> P' u = P u" and K: "\<And>u. W u \<noteq> None \<Longrightarrow> K' u = K u"
  shows "lock_inv H W I F P' K'"
proof -
  have "held_lock_ok W P' t l (I l)" if "l \<in> set (H t)" for t l
    using inv that P by (intro held_lock_ok_cong [of W l P' P]) (auto simp: lock_inv_def)
  then show ?thesis using inv K unfolding lock_inv_def by (metis option.distinct(1))
qed

text \<open>The five changes: joining a lock, the first to wait at an address, leaving, the last to leave, and handing over.\<close>

lemma lock_inv_join:
  assumes inv: "lock_inv H W I F P K" and l: "l \<in> set (H t)"
    and u: "W u = None" "K u = (li_address_key (I l), li_is_kernel_address_key (I l))"
    and li: "li = (I l)\<lparr>li_tree := tree_insert_by (by_urgency P) u (li_tree (I l)), li_waiter_count := li_waiter_count (I l) + 1\<rparr>"
  shows "lock_inv H (W(u := Some l)) (I(l := li)) F P K"
proof -
  note held = lock_inv_held [OF inv]
  have "u \<notin> set (li_tree (I l))" using held(7) [OF l] u(1) by simp
  moreover have "tree_insert_by b v x \<noteq> []" for b v x by (simp add: tree_insert_by_def)
  ultimately have new: "held_lock_ok (W(u := Some l)) P t l li"
    using held [OF l] urgency.ordered_insert [of P "li_tree (I l)" u] by (auto simp: held_lock_ok_def li)
  have "held_lock_ok (W(u := Some l)) P v l' ((I(l := li)) l')" if "l' \<in> set (H v)" for v l'
  proof (cases "l' = l")
    case True
    then have "v = t" using held(1) [OF that] held(1) [OF l] by simp
    then show ?thesis using True new by simp
  next
    case False
    then show ?thesis using held_lock_ok_upd [OF lock_inv_ok [OF inv that]] u(1) by simp
  qed
  then show ?thesis using inv l u unfolding lock_inv_def li by auto
qed

lemma lock_inv_first:
  assumes inv: "lock_inv H W I (l # F) P K" and u: "W u = None" "K u = (k, b)"
    and li: "li = \<lparr>li_tree = [u], li_address_key = k, li_owner = Some t, li_waiter_count = 1, li_is_kernel_address_key = b\<rparr>"
  shows "lock_inv (H(t := l # H t)) (W(u := Some l)) (I(l := li)) F P K"
proof -
  have new: "l \<notin> set (H v)" for v using lock_inv_held(2) [OF inv] by auto
  then have w: "W v \<noteq> Some l" for v using lock_inv_waiting [OF inv] by metis
  then have ok: "held_lock_ok (W(u := Some l)) P t l li" by (auto simp: held_lock_ok_def li ordered_def)
  have other: "held_lock_ok (W(u := Some l)) P v l' ((I(l := li)) l')" if "l' \<in> set (H v)" for v l'
  proof -
    have "l' \<noteq> l" using new that by auto
    then show ?thesis using held_lock_ok_upd [OF lock_inv_ok [OF inv that]] u(1) by simp
  qed
  have "(\<exists>v. l' \<in> set ((H(t := l # H t)) v)) \<and> K v = (li_address_key ((I(l := li)) l'), li_is_kernel_address_key ((I(l := li)) l'))"
    if "(W(u := Some l)) v = Some l'" for v l'
  proof (cases "v = u")
    case True
    then show ?thesis using that u by (auto simp: li)
  next
    case False
    then have "W v = Some l'" using that by simp
    from lock_inv_waiting [OF inv this] obtain x where "l' \<in> set (H x)" "K v = (li_address_key (I l'), li_is_kernel_address_key (I l'))" .
    then show ?thesis using new by (cases "x = t") (auto intro!: exI [of _ x])
  qed
  moreover have "distinct ((H(t := l # H t)) v)" for v using inv new by (simp add: lock_inv_def)
  moreover have "l' \<notin> set F \<and> held_lock_ok (W(u := Some l)) P v l' ((I(l := li)) l')" if "l' \<in> set ((H(t := l # H t)) v)" for v l'
  proof (cases "l' \<in> set (H v)")
    case True
    then show ?thesis using other lock_inv_held(2) [OF inv] by force
  next
    case False
    then have "v = t" "l' = l" using that by (auto split: if_splits)
    then show ?thesis using ok inv by (simp add: lock_inv_def)
  qed
  moreover have "distinct F" using inv by (simp add: lock_inv_def)
  ultimately show ?thesis unfolding lock_inv_def by blast
qed

lemma lock_inv_leave:
  assumes inv: "lock_inv H W I F P K" and l: "l \<in> set (H t)" and u: "W u = Some l" "li_tree (I l) \<noteq> [u]"
    and li: "li = (I l)\<lparr>li_tree := remove1 u (li_tree (I l)), li_waiter_count := li_waiter_count (I l) - 1\<rparr>"
  shows "lock_inv H (W(u := None)) (I(l := li)) F P K"
proof -
  note held = lock_inv_held [OF inv]
  have m: "u \<in> set (li_tree (I l))" using held(7) [OF l] u(1) by simp
  then have "remove1 u (li_tree (I l)) \<noteq> []" using u(2) by (cases "li_tree (I l)") auto
  then have new: "held_lock_ok (W(u := None)) P t l li"
    using held [OF l] m by (auto simp: held_lock_ok_def li ordered_remove length_remove1)
  have "held_lock_ok (W(u := None)) P v l' ((I(l := li)) l')" if "l' \<in> set (H v)" for v l'
  proof (cases "l' = l")
    case True
    then have "v = t" using held(1) [OF that] held(1) [OF l] by simp
    then show ?thesis using True new by simp
  next
    case False
    then show ?thesis using held_lock_ok_upd [OF lock_inv_ok [OF inv that]] u(1) by simp
  qed
  then show ?thesis using inv l u unfolding lock_inv_def li by auto
qed

lemma lock_inv_last:
  assumes inv: "lock_inv H W I F P K" and l: "l \<in> set (H t)" and u: "li_tree (I l) = [u]"
  shows "lock_inv (H(t := remove1 l (H t))) (W(u := None)) (I(l := li)) (l # F) P K"
proof -
  note held = lock_inv_held [OF inv]
  have W: "W v = Some l \<longleftrightarrow> v = u" for v using held(7) [OF l] u by auto
  have d: "distinct (H v)" for v using inv by (simp add: lock_inv_def)
  have H: "l' \<in> set ((H(t := remove1 l (H t))) v) \<longleftrightarrow> l' \<in> set (H v) \<and> l' \<noteq> l" for l' v
    using held(1) [OF l] held(1) [of l v] d [of t] by auto
  have "held_lock_ok (W(u := None)) P v l' ((I(l := li)) l')" if "l' \<in> set (H v)" "l' \<noteq> l" for v l'
    using held_lock_ok_upd [OF lock_inv_ok [OF inv that(1)], of u None] that(2) W [of u] by simp
  moreover have "\<exists>v. l' \<in> set ((H(t := remove1 l (H t))) v)" if "(W(u := None)) x = Some l'" for x l'
  proof -
    have "x \<noteq> u" "W x = Some l'" using that by (auto split: if_splits)
    then have "l' \<noteq> l" using W by auto
    with lock_inv_waiting [OF inv \<open>W x = Some l'\<close>] show ?thesis unfolding H by metis
  qed
  moreover have "K x = (li_address_key ((I(l := li)) l'), li_is_kernel_address_key ((I(l := li)) l'))" if "(W(u := None)) x = Some l'" for x l'
    using that inv W by (auto simp: lock_inv_def split: if_splits)
  moreover have "distinct (l # F)" using held(2) [OF l] inv by (simp add: lock_inv_def)
  moreover have "distinct ((H(t := remove1 l (H t))) v)" for v using d by simp
  ultimately show ?thesis using held(2) unfolding lock_inv_def H by auto
qed

lemma lock_inv_hand_over:
  assumes inv: "lock_inv H W I F P K" and l: "l \<in> set (H t)" and n: "li_tree (I l) = n # ns" "ns \<noteq> []"
    and li: "li = (I l)\<lparr>li_tree := ns, li_owner := Some n, li_waiter_count := li_waiter_count (I l) - 1\<rparr>"
    and H': "H' = (let H1 = H(t := remove1 l (H t)) in H1(n := l # H1 n))"
  shows "lock_inv H' (W(n := None)) (I(l := li)) F P K"
proof -
  note held = lock_inv_held [OF inv]
  have d: "distinct (H v)" for v using inv by (simp add: lock_inv_def)
  have Wn: "W n = Some l" using held(7) [OF l] n by auto
  have in_H: "l' \<in> set (H' v) \<longleftrightarrow> (if l' = l then v = n else l' \<in> set (H v))" for l' v
  proof (cases "l' = l")
    case True
    have "l \<in> set (H v) \<Longrightarrow> v = t" using held(1) [OF l] held(1) [of l v] by simp
    then show ?thesis using d [of t] True by (auto simp: H' Let_def)
  next
    case False
    then show ?thesis by (auto simp: H' Let_def)
  qed
  have "distinct (H' v)" for v using d held(1) [OF l] held(1) [of l n] by (auto simp: H' Let_def)
  moreover have "held_lock_ok (W(n := None)) P n l li"
    using held [OF l] n by (auto simp: held_lock_ok_def li ordered_def)
  moreover have "held_lock_ok (W(n := None)) P v l' (I l')" if "l' \<in> set (H v)" "l' \<noteq> l" for v l'
    using held_lock_ok_upd [OF lock_inv_ok [OF inv that(1)]] that(2) Wn by simp
  moreover have "(\<exists>v. l' \<in> set (H' v)) \<and> K x = (li_address_key ((I(l := li)) l'), li_is_kernel_address_key ((I(l := li)) l'))"
    if "(W(n := None)) x = Some l'" for x l'
  proof -
    have "W x = Some l'" using that by (simp split: if_splits)
    from lock_inv_waiting [OF inv this] obtain v where "l' \<in> set (H v)" "K x = (li_address_key (I l'), li_is_kernel_address_key (I l'))" .
    then show ?thesis using in_H [of l n] in_H [of l' v] by (cases "l' = l") (auto simp: li)
  qed
  moreover have "distinct F" using inv by (simp add: lock_inv_def)
  moreover have "l' \<notin> set F" if "l' \<in> set (H' v)" for l' v
    using that in_H [of l' v] held(2) [of l' v] held(2) [OF l] by (auto split: if_splits)
  moreover have "(I(l := li)) l' = (if l' = l then li else I l')" for l' by simp
  ultimately show ?thesis using in_H unfolding lock_inv_def by metis
qed

end
