(* ===== verification/Priority_Queue_Lists.thy ===== *)
theory Priority_Queue_Lists
  imports KPriorityQueue
begin

text \<open>
  The linked lists of the priority queue as lists of threads: the invariant of the links, what
  pushing, removing and moving a thread does to a list, that the bits of the available priorities
  tell which lists are empty, and that the front of a queue and the successor of a thread are read
  off the lists in the order of priority.
\<close>

section \<open>Linked lists\<close>

text \<open>The first and the last member of a list, or what stands there when it is empty.\<close>

definition front_or :: "nat list \<Rightarrow> nat option \<Rightarrow> nat option" where
  "front_or xs d = (case xs of [] \<Rightarrow> d | x # _ \<Rightarrow> Some x)"

definition back_or :: "nat list \<Rightarrow> nat option \<Rightarrow> nat option" where
  "back_or xs d = (if xs = [] then d else Some (last xs))"

lemma front_or_simps [simp]: "front_or [] d = d" "front_or (x # xs) d = Some x"
  by (simp_all add: front_or_def)

lemma back_or_simps [simp]: "back_or [] d = d" "back_or (xs @ [x]) d = Some x"
  by (simp_all add: back_or_def)

lemma back_or_Cons [simp]: "back_or (x # xs) d = back_or xs (Some x)"
  by (simp add: back_or_def)

lemma front_or_append [simp]: "front_or (xs @ ys) d = front_or xs (front_or ys d)"
  by (cases xs) simp_all

lemma back_or_append [simp]: "back_or (xs @ ys) d = back_or ys (back_or xs d)"
  by (induction xs arbitrary: d) simp_all

lemma front_or_None [simp]: "front_or xs d = None \<longleftrightarrow> xs = [] \<and> d = None"
  by (cases xs) simp_all

lemma back_or_None [simp]: "back_or xs d = None \<longleftrightarrow> xs = [] \<and> d = None"
  by (simp add: back_or_def)

lemma front_or_Some_in: "front_or xs None = Some t \<Longrightarrow> t \<in> set xs"
  by (cases xs) simp_all

text \<open>The entries along a list, from what stands before it to what stands behind it.\<close>

fun chain :: "(nat \<Rightarrow> QueueEntry) \<Rightarrow> nat option \<Rightarrow> nat list \<Rightarrow> nat option \<Rightarrow> bool" where
  "chain e p [] n \<longleftrightarrow> True"
| "chain e p (x # xs) n \<longleftrightarrow>
     e x = \<lparr>qe_prev = p, qe_next = front_or xs n\<rparr> \<and> chain e (Some x) xs n"

lemma queue_chain_append:
  "chain e p (xs @ ys) n \<longleftrightarrow> chain e p xs (front_or ys n) \<and> chain e (back_or xs p) ys n"
  by (induction xs arbitrary: p) (auto simp: front_or_def split: list.splits)

lemma chain_cong: "(\<And>x. x \<in> set xs \<Longrightarrow> e' x = e x) \<Longrightarrow> chain e' p xs n \<longleftrightarrow> chain e p xs n"
  by (induction xs arbitrary: p) auto

definition linked :: "QueueEntry \<Rightarrow> (nat \<Rightarrow> QueueEntry) \<Rightarrow> nat list \<Rightarrow> bool" where
  "linked r e xs \<longleftrightarrow>
     distinct xs \<and> r = \<lparr>qe_prev = back_or xs None, qe_next = front_or xs None\<rparr> \<and> chain e None xs None"

lemma queue_linked_cong: "(\<And>x. x \<in> set xs \<Longrightarrow> e' x = e x) \<Longrightarrow> linked r e' xs \<longleftrightarrow> linked r e xs"
  unfolding linked_def using chain_cong [of xs e' e] by simp

lemma linked_Nil: "linked r e [] \<longleftrightarrow> r = entry_Initialize"
  by (simp add: linked_def entry_Initialize_def)

lemma linked_front: "linked r e xs \<Longrightarrow> qe_next r = front_or xs None"
  by (simp add: linked_def)

lemma linked_next: "linked r e (xs @ t # ys) \<Longrightarrow> qe_next (e t) = front_or ys None"
  by (simp add: linked_def queue_chain_append)

text \<open>
  What an operation on the list of a core may touch: the root of the core, and the entries for this
  core of the threads in a set.
\<close>

definition touches :: "nat \<Rightarrow> nat set \<Rightarrow> KPerCoreQueue \<times> entries \<Rightarrow> KPerCoreQueue \<times> entries \<Rightarrow> bool" where
  "touches c A st st' \<longleftrightarrow>
     length (fst st') = length (fst st) \<and> (\<forall>d. d \<noteq> c \<longrightarrow> fst st' ! d = fst st ! d) \<and>
     (\<forall>t d. d \<noteq> c \<or> t \<notin> A \<longrightarrow> snd st' t d = snd st t d)"

definition core_linked :: "nat \<Rightarrow> KPerCoreQueue \<times> entries \<Rightarrow> nat list \<Rightarrow> bool" where
  "core_linked c st xs \<longleftrightarrow> c < length (fst st) \<and> linked (fst st ! c) (\<lambda>t. snd st t c) xs"

lemma touches_trans: "touches c A s t \<Longrightarrow> touches c A t u \<Longrightarrow> touches c A s u"
  by (simp add: touches_def)

lemma core_PushBack_linked:
  assumes "core_linked c st xs" "m \<notin> set xs"
  shows "fst (core_PushBack c m st) = (xs = [])"
    "core_linked c (snd (core_PushBack c m st)) (xs @ [m])"
    "touches c (insert m (set xs)) st (snd (core_PushBack c m st))"
proof -
  obtain root E where st: "st = (root, E)" by (cases st)
  have c: "c < length root" and l: "linked (root ! c) (\<lambda>t. E t c) xs"
    using assms(1) by (simp_all add: core_linked_def st)
  show "fst (core_PushBack c m st) = (xs = [])"
    using l by (simp add: core_PushBack_def Let_def st linked_def)
  show "core_linked c (snd (core_PushBack c m st)) (xs @ [m])"
  proof (cases xs rule: rev_cases)
    case Nil
    then show ?thesis using l c
      by (simp add: core_PushBack_def Let_def st core_linked_def SetNext_def SetPrev_def linked_def)
  next
    case (snoc ys y)
    have "chain (\<lambda>t. snd (snd (core_PushBack c m st)) t c) None ys (Some y) \<longleftrightarrow> chain (\<lambda>t. E t c) None ys (Some y)"
      using assms(2) l snoc
      by (intro chain_cong) (auto simp: core_PushBack_def Let_def st SetNext_def SetPrev_def linked_def)
    then show ?thesis using l c assms(2) snoc
      by (simp add: core_PushBack_def Let_def st core_linked_def SetNext_def SetPrev_def linked_def queue_chain_append)
  qed
  show "touches c (insert m (set xs)) st (snd (core_PushBack c m st))"
    using l by (auto simp: core_PushBack_def Let_def st SetNext_def SetPrev_def linked_def touches_def back_or_def)
qed

lemma core_PushFront_linked:
  assumes "core_linked c st xs" "m \<notin> set xs"
  shows "fst (core_PushFront c m st) = (xs = [])"
    "core_linked c (snd (core_PushFront c m st)) (m # xs)"
    "touches c (insert m (set xs)) st (snd (core_PushFront c m st))"
proof -
  obtain root E where st: "st = (root, E)" by (cases st)
  have c: "c < length root" and l: "linked (root ! c) (\<lambda>t. E t c) xs"
    using assms(1) by (simp_all add: core_linked_def st)
  show "fst (core_PushFront c m st) = (xs = [])"
    using l by (simp add: core_PushFront_def Let_def st linked_def)
  show "core_linked c (snd (core_PushFront c m st)) (m # xs)"
  proof (cases xs)
    case Nil
    then show ?thesis using l c
      by (simp add: core_PushFront_def Let_def st core_linked_def SetNext_def SetPrev_def linked_def)
  next
    case (Cons y ys)
    have "chain (\<lambda>t. snd (snd (core_PushFront c m st)) t c) (Some y) ys None \<longleftrightarrow> chain (\<lambda>t. E t c) (Some y) ys None"
      using assms(2) l Cons
      by (intro chain_cong) (auto simp: core_PushFront_def Let_def st SetNext_def SetPrev_def linked_def)
    then show ?thesis using l c assms(2) Cons
      by (simp add: core_PushFront_def Let_def st core_linked_def SetNext_def SetPrev_def linked_def back_or_def)
  qed
  show "touches c (insert m (set xs)) st (snd (core_PushFront c m st))"
    using l by (auto simp: core_PushFront_def Let_def st SetNext_def SetPrev_def linked_def touches_def front_or_def
        split: list.splits)
qed

lemma core_Remove_linked:
  assumes "core_linked c st (xs @ m # ys)"
  shows "fst (core_Remove c m st) = (xs @ ys = [])"
    "core_linked c (snd (core_Remove c m st)) (xs @ ys)"
    "touches c (set (xs @ ys)) st (snd (core_Remove c m st))"
proof -
  obtain root E where st: "st = (root, E)" by (cases st)
  let ?st' = "snd (core_Remove c m st)"
  have c: "c < length root" and l: "linked (root ! c) (\<lambda>t. E t c) (xs @ m # ys)"
    using assms(1) by (simp_all add: core_linked_def st)
  have m: "E m c = \<lparr>qe_prev = back_or xs None, qe_next = front_or ys None\<rparr>" and d: "distinct (xs @ m # ys)"
    using l by (simp_all add: linked_def queue_chain_append)
  have r: "root ! c = \<lparr>qe_prev = back_or ys (Some m), qe_next = front_or xs (Some m)\<rparr>"
    using l by (simp add: linked_def)
  have "fst ?st' ! c = \<lparr>qe_prev = back_or (xs @ ys) None, qe_next = front_or (xs @ ys) None\<rparr>"
    using c r m by (cases xs rule: rev_cases; cases ys)
      (simp_all add: core_Remove_def Let_def st SetNext_def SetPrev_def)
  moreover have "chain (\<lambda>t. snd ?st' t c) None xs (front_or ys None)"
  proof (cases xs rule: rev_cases)
    case (snoc ws w)
    have w: "snd ?st' w c = (E w c)\<lparr>qe_next := front_or ys None\<rparr>"
      using d m snoc by (cases ys) (simp_all add: core_Remove_def Let_def st SetNext_def SetPrev_def)
    have "chain (\<lambda>t. snd ?st' t c) None ws (Some w) \<longleftrightarrow> chain (\<lambda>t. E t c) None ws (Some w)"
      using d m snoc
      by (intro chain_cong) (auto simp: core_Remove_def Let_def st SetNext_def SetPrev_def front_or_def split: list.splits)
    then show ?thesis using l snoc w by (simp add: linked_def queue_chain_append)
  qed simp
  moreover have "chain (\<lambda>t. snd ?st' t c) (back_or xs None) ys None"
  proof (cases ys)
    case (Cons z zs)
    have z: "snd ?st' z c = (E z c)\<lparr>qe_prev := back_or xs None\<rparr>"
      using d m Cons by (cases xs rule: rev_cases) (simp_all add: core_Remove_def Let_def st SetNext_def SetPrev_def)
    have "xs = [] \<or> last xs \<notin> set zs" using d Cons by (cases xs rule: rev_cases) auto
    then have "chain (\<lambda>t. snd ?st' t c) (Some z) zs None \<longleftrightarrow> chain (\<lambda>t. E t c) (Some z) zs None"
      using d m Cons
      by (intro chain_cong) (auto simp: core_Remove_def Let_def st SetNext_def SetPrev_def back_or_def)
    then show ?thesis using l Cons z by (simp add: linked_def queue_chain_append)
  qed simp
  moreover have "touches c (set (xs @ ys)) st ?st'"
    using m by (auto simp: core_Remove_def Let_def st SetNext_def SetPrev_def touches_def back_or_def front_or_def
        split: list.splits)
  ultimately have "linked (fst ?st' ! c) (\<lambda>t. snd ?st' t c) (xs @ ys)" "touches c (set (xs @ ys)) st ?st'"
    using d by (simp_all add: linked_def queue_chain_append)
  then show "core_linked c ?st' (xs @ ys)" "touches c (set (xs @ ys)) st ?st'"
    using c by (simp_all add: core_linked_def touches_def st)
  then show "fst (core_Remove c m st) = (xs @ ys = [])"
    by (simp add: core_Remove_def Let_def core_GetFront_def core_linked_def linked_def)
qed

lemma core_linked_remove1:
  assumes "core_linked c st xs" "m \<in> set xs"
  shows "fst (core_Remove c m st) = (remove1 m xs = [])"
    "core_linked c (snd (core_Remove c m st)) (remove1 m xs)"
    "touches c (set xs) st (snd (core_Remove c m st))"
proof -
  obtain ys zs where s: "xs = ys @ m # zs" "m \<notin> set ys"
    using split_list_first [OF assms(2)] by blast
  then have "remove1 m xs = ys @ zs" by (simp add: remove1_append)
  with s core_Remove_linked [of c st ys m zs] assms(1)
  show "fst (core_Remove c m st) = (remove1 m xs = [])"
    "core_linked c (snd (core_Remove c m st)) (remove1 m xs)"
    "touches c (set xs) st (snd (core_Remove c m st))"
    by (simp_all add: touches_def)
qed

section \<open>The queues as lists\<close>

text \<open>
  The abstract view: for every kind of queue (scheduled or suggested), priority and core a list of
  threads. No thread is twice in the lists of one core, since the lists share the entry for the core.
\<close>

type_synonym queues = "bool \<Rightarrow> nat \<Rightarrow> nat \<Rightarrow> nat list"

definition queue_of :: "bool \<Rightarrow> KPriorityQueue \<Rightarrow> KPriorityQueueImpl" where
  "queue_of k pq = (if k then m_scheduled_queue pq else m_suggested_queue pq)"

definition on_queue ::
  "bool \<Rightarrow> (KPriorityQueueImpl \<times> entries \<Rightarrow> KPriorityQueueImpl \<times> entries) \<Rightarrow> KPriorityQueue \<Rightarrow> KPriorityQueue" where
  "on_queue k = (if k then on_scheduled else on_suggested)"

definition impl_shape :: "KPriorityQueueImpl \<Rightarrow> bool" where
  "impl_shape q \<longleftrightarrow>
     length (m_queues q) = NumPriority \<and> (\<forall>l\<in>set (m_queues q). length l = NumCores) \<and>
     length (m_available_priorities q) = NumCores \<and>
     (\<forall>l\<in>set (m_available_priorities q). length l = NumPriority)"

definition impl_lists :: "KPriorityQueueImpl \<Rightarrow> entries \<Rightarrow> (nat \<Rightarrow> nat \<Rightarrow> nat list) \<Rightarrow> bool" where
  "impl_lists q E L \<longleftrightarrow>
     (\<forall>p<NumPriority. \<forall>c<NumCores.
        core_linked c (m_queues q ! p, E) (L p c) \<and> (m_available_priorities q ! c ! p \<longleftrightarrow> L p c \<noteq> []))"

definition disjoint_queues :: "queues \<Rightarrow> bool" where
  "disjoint_queues Q \<longleftrightarrow>
     (\<forall>k p k' p' c t. t \<in> set (Q k p c) \<longrightarrow> t \<in> set (Q k' p' c) \<longrightarrow> k' = k \<and> p' = p) \<and>
     (\<forall>k p c. NumPriority \<le> p \<or> NumCores \<le> c \<longrightarrow> Q k p c = [])"

definition pq_ok :: "queues \<Rightarrow> KPriorityQueue \<Rightarrow> bool" where
  "pq_ok Q pq \<longleftrightarrow>
     disjoint_queues Q \<and>
     (\<forall>k. impl_shape (queue_of k pq) \<and> impl_lists (queue_of k pq) (pq_entries pq) (Q k))"

definition set_list :: "bool \<Rightarrow> nat \<Rightarrow> nat \<Rightarrow> nat list \<Rightarrow> queues \<Rightarrow> queues" where
  "set_list k p c xs Q = (\<lambda>k' p' c'. if k' = k \<and> p' = p \<and> c' = c then xs else Q k' p' c')"

definition on_core :: "queues \<Rightarrow> nat \<Rightarrow> nat set" where
  "on_core Q c = (\<Union>k p. set (Q k p c))"

lemma in_on_core [simp]: "t \<in> on_core Q c \<longleftrightarrow> (\<exists>k p. t \<in> set (Q k p c))"
  by (auto simp: on_core_def)

text \<open>
  One list replaced by another. What the operations do to the implementation is the same: a new
  list for one priority and core, with the entries that belong to it and the bit that tells whether
  it is empty.
\<close>

definition impl_update :: "nat \<Rightarrow> nat \<Rightarrow> KPerCoreQueue \<Rightarrow> bool \<Rightarrow> KPriorityQueueImpl \<Rightarrow> KPriorityQueueImpl" where
  "impl_update p c l v q = set_available c p v (q\<lparr>m_queues := (m_queues q)[p := l]\<rparr>)"

lemma impl_shape_update:
  "impl_shape q \<Longrightarrow> p < NumPriority \<Longrightarrow> c < NumCores \<Longrightarrow> length l = NumCores \<Longrightarrow> impl_shape (impl_update p c l v q)"
  by (auto simp: impl_shape_def impl_update_def set_available_def all_set_conv_all_nth nth_list_update)

lemma impl_lists_update:
  assumes sh: "impl_shape q" and pc: "p < NumPriority" "c < NumCores"
    and old: "impl_lists q E L" and new: "core_linked c st' xs" "v = (xs \<noteq> [])"
    and t: "touches c A (m_queues q ! p, E) st'"
    and A: "\<And>p'. p' \<noteq> p \<Longrightarrow> set (L p' c) \<inter> A = {}"
  shows "impl_lists (impl_update p c (fst st') v q) (snd st') (\<lambda>p' c'. if p' = p \<and> c' = c then xs else L p' c')"
  unfolding impl_lists_def
proof (intro allI impI)
  fix p' c' assume b: "p' < NumPriority" "c' < NumCores"
  have len: "length (m_queues q) = NumPriority" "length (m_available_priorities q) = NumCores"
    "length (m_available_priorities q ! c') = NumPriority" "length (m_available_priorities q ! c) = NumPriority"
    using sh b pc by (auto simp: impl_shape_def)
  have o: "core_linked c' (m_queues q ! p', E) (L p' c')" "m_available_priorities q ! c' ! p' \<longleftrightarrow> L p' c' \<noteq> []"
    using old b by (auto simp: impl_lists_def)
  let ?q = "impl_update p c (fst st') v q"
  have av: "m_available_priorities ?q ! c' ! p' = (if p' = p \<and> c' = c then v else m_available_priorities q ! c' ! p')"
    using len pc by (auto simp: impl_update_def set_available_def nth_list_update)
  have mq: "m_queues ?q ! p' = (if p' = p then fst st' else m_queues q ! p')"
    using len pc by (auto simp: impl_update_def set_available_def nth_list_update)
  show "core_linked c' (m_queues ?q ! p', snd st') (if p' = p \<and> c' = c then xs else L p' c') \<and>
        (m_available_priorities ?q ! c' ! p' \<longleftrightarrow> (if p' = p \<and> c' = c then xs else L p' c') \<noteq> [])"
  proof (cases "p' = p \<and> c' = c")
    case True
    then show ?thesis using new av mq by simp
  next
    case False
    have "snd st' x c' = E x c'" if "x \<in> set (L p' c')" for x
      using t A [of p'] that False by (cases "c' = c") (auto simp: touches_def)
    then have "linked r (\<lambda>x. snd st' x c') (L p' c') \<longleftrightarrow> linked r (\<lambda>x. E x c') (L p' c')" for r
      by (intro queue_linked_cong)
    then show ?thesis using False o av mq t by (auto simp: core_linked_def touches_def)
  qed
qed

lemma impl_lists_frame:
  assumes "impl_lists q E L" "\<And>x p c. x \<in> set (L p c) \<Longrightarrow> E' x c = E x c"
  shows "impl_lists q E' L"
proof -
  have "linked r (\<lambda>x. E' x c) (L p c) \<longleftrightarrow> linked r (\<lambda>x. E x c) (L p c)" for r c p
    using assms(2) by (intro queue_linked_cong)
  then show ?thesis using assms(1) by (simp add: impl_lists_def core_linked_def)
qed

lemma pq_ok_update:
  assumes ok: "pq_ok Q pq" and pc: "p < NumPriority" "c < NumCores"
    and new: "core_linked c st' xs" and t: "touches c A (m_queues (queue_of k pq) ! p, pq_entries pq) st'"
    and sub: "set xs \<subseteq> A" and A: "\<And>k' p'. (k', p') \<noteq> (k, p) \<Longrightarrow> set (Q k' p' c) \<inter> A = {}"
    and f: "f (queue_of k pq, pq_entries pq) = (impl_update p c (fst st') (xs \<noteq> []) (queue_of k pq), snd st')"
  shows "pq_ok (set_list k p c xs Q) (on_queue k f pq)"
proof -
  let ?pq = "on_queue k f pq"
  have sh: "impl_shape (queue_of k' pq)" and li: "impl_lists (queue_of k' pq) (pq_entries pq) (Q k')" for k'
    using ok by (simp_all add: pq_ok_def)
  have q: "queue_of k' ?pq = (if k' = k then impl_update p c (fst st') (xs \<noteq> []) (queue_of k pq) else queue_of k' pq)"
    and e: "pq_entries ?pq = snd st'" for k'
    using f by (auto simp: on_queue_def on_scheduled_def on_suggested_def queue_of_def Let_def)
  have "length (m_queues (queue_of k pq) ! p) = NumCores" using sh [of k] pc by (auto simp: impl_shape_def)
  then have len: "length (fst st') = NumCores" using t by (simp add: touches_def)
  have d: "disjoint_queues (set_list k p c xs Q)"
    using ok A sub pc unfolding pq_ok_def disjoint_queues_def set_list_def
    by (intro conjI allI impI) (auto split: if_splits dest: subsetD)
  have "impl_shape (queue_of k' ?pq)" for k'
    unfolding q using sh [of k'] impl_shape_update [OF sh [of k] pc len] by (cases "k' = k") auto
  moreover have "impl_lists (queue_of k' ?pq) (pq_entries ?pq) (set_list k p c xs Q k')" for k'
  proof (cases "k' = k")
    case True
    have "set (Q k p' c) \<inter> A = {}" if "p' \<noteq> p" for p' using A [of k p'] that by auto
    from impl_lists_update [OF sh pc li new refl t this] True show ?thesis
      by (simp add: q e set_list_def)
  next
    case False
    have "snd st' x c' = pq_entries pq x c'" if "x \<in> set (Q k' p' c')" for x p' c'
      using t A [of k' p'] False that by (cases "c' = c") (auto simp: touches_def)
    from impl_lists_frame [OF li this] False show ?thesis by (simp add: q e set_list_def)
  qed
  ultimately show ?thesis using d by (simp add: pq_ok_def)
qed

lemma impl_update_True:
  assumes "impl_shape q" "p < NumPriority" "c < NumCores" "m_available_priorities q ! c ! p \<longleftrightarrow> b"
  shows "(if \<not> b then set_available c p True (q\<lparr>m_queues := (m_queues q)[p := l]\<rparr>) else q\<lparr>m_queues := (m_queues q)[p := l]\<rparr>)
    = impl_update p c l True q"
proof -
  have "length (m_available_priorities q ! c) = NumPriority" using assms by (auto simp: impl_shape_def)
  then have "b \<Longrightarrow> (m_available_priorities q)[c := (m_available_priorities q ! c)[p := True]] = m_available_priorities q"
    using assms by (metis list_update_id)
  then show ?thesis by (simp add: impl_update_def set_available_def)
qed

lemma impl_update_False:
  assumes "impl_shape q" "p < NumPriority" "c < NumCores" "m_available_priorities q ! c ! p"
  shows "(if \<not> b then set_available c p False (q\<lparr>m_queues := (m_queues q)[p := l]\<rparr>) else q\<lparr>m_queues := (m_queues q)[p := l]\<rparr>)
    = impl_update p c l b q"
proof -
  have "(m_available_priorities q)[c := (m_available_priorities q ! c)[p := True]] = m_available_priorities q"
    using assms by (metis list_update_id)
  then show ?thesis by (simp add: impl_update_def set_available_def)
qed

lemma pq_ok_parts:
  assumes "pq_ok Q pq" "p < NumPriority" "c < NumCores"
  shows "impl_shape (queue_of k pq)" "core_linked c (m_queues (queue_of k pq) ! p, pq_entries pq) (Q k p c)"
    "m_available_priorities (queue_of k pq) ! c ! p \<longleftrightarrow> Q k p c \<noteq> []" "distinct (Q k p c)"
  using assms by (auto simp: pq_ok_def impl_lists_def core_linked_def linked_def)

lemma pq_ok_disjoint: "pq_ok Q pq \<Longrightarrow> (k', p') \<noteq> (k, p) \<Longrightarrow> set (Q k' p' c) \<inter> set (Q k p c) = {}"
  unfolding pq_ok_def disjoint_queues_def by blast

lemma NumPriority_le: "p < NumPriority \<longleftrightarrow> p \<le> LowestPriority"
  by (auto simp: NumPriority_def LowestPriority_def HighestPriority_def)

text \<open>The operations on one list, as operations on the abstract lists.\<close>

lemma on_queue_beyond: "f (queue_of k pq, pq_entries pq) = (queue_of k pq, pq_entries pq) \<Longrightarrow> on_queue k f pq = pq"
  by (auto simp: on_queue_def on_scheduled_def on_suggested_def queue_of_def split: if_splits)

lemma pq_ok_push:
  fixes r :: "bool \<times> KPerCoreQueue \<times> entries"
  assumes ok: "pq_ok Q pq" and p: "p < NumPriority" and c: "c < NumCores" and m: "m \<notin> on_core Q c"
    and r: "fst r = (Q k p c = [])" "core_linked c (snd r) xs"
      "touches c (insert m (set (Q k p c))) (m_queues (queue_of k pq) ! p, pq_entries pq) (snd r)"
    and xs: "set xs = insert m (set (Q k p c))"
    and f: "f (queue_of k pq, pq_entries pq) =
      (let q = queue_of k pq; q' = q\<lparr>m_queues := (m_queues q)[p := fst (snd r)]\<rparr>
       in (if fst r then set_available c p True q' else q', snd (snd r)))"
  shows "pq_ok (set_list k p c xs Q) (on_queue k f pq)"
proof (rule pq_ok_update [OF ok p c r(2,3)])
  note parts = pq_ok_parts [OF ok p c, of k]
  show "set xs \<subseteq> insert m (set (Q k p c))" using xs by simp
  show "set (Q k' p' c) \<inter> insert m (set (Q k p c)) = {}" if "(k', p') \<noteq> (k, p)" for k' p'
    using pq_ok_disjoint [OF ok that, of c] m by auto
  have "xs \<noteq> []" using xs by auto
  then show "f (queue_of k pq, pq_entries pq) = (impl_update p c (fst (snd r)) (xs \<noteq> []) (queue_of k pq), snd (snd r))"
    using f r(1) impl_update_True [OF parts(1) p c parts(3), of "fst (snd r)"] by (auto simp: Let_def)
qed

theorem PushBack_lists:
  assumes ok: "pq_ok Q pq" and c: "c < NumCores" and m: "m \<notin> on_core Q c"
  shows "pq_ok (if p \<le> LowestPriority then set_list k p c (Q k p c @ [m]) Q else Q) (on_queue k (impl_PushBack p c m) pq)"
proof (cases "p \<le> LowestPriority")
  case True
  then have p: "p < NumPriority" by (simp add: NumPriority_le)
  have "m \<notin> set (Q k p c)" using m by auto
  note l = core_PushBack_linked [OF pq_ok_parts(2) [OF ok p c, of k] this]
  from True pq_ok_push [OF ok p c m l] show ?thesis by (simp add: impl_PushBack_def Let_def split_beta)
next
  case False
  then show ?thesis using ok by (simp add: on_queue_beyond impl_PushBack_def)
qed

theorem PushFront_lists:
  assumes ok: "pq_ok Q pq" and c: "c < NumCores" and m: "m \<notin> on_core Q c"
  shows "pq_ok (if p \<le> LowestPriority then set_list k p c (m # Q k p c) Q else Q) (on_queue k (impl_PushFront p c m) pq)"
proof (cases "p \<le> LowestPriority")
  case True
  then have p: "p < NumPriority" by (simp add: NumPriority_le)
  have "m \<notin> set (Q k p c)" using m by auto
  note l = core_PushFront_linked [OF pq_ok_parts(2) [OF ok p c, of k] this]
  from True pq_ok_push [OF ok p c m l] show ?thesis by (simp add: impl_PushFront_def Let_def split_beta)
next
  case False
  then show ?thesis using ok by (simp add: on_queue_beyond impl_PushFront_def)
qed

theorem Remove_lists:
  assumes ok: "pq_ok Q pq" and c: "c < NumCores" and m: "p \<le> LowestPriority \<Longrightarrow> m \<in> set (Q k p c)"
  shows "pq_ok (if p \<le> LowestPriority then set_list k p c (remove1 m (Q k p c)) Q else Q) (on_queue k (impl_Remove p c m) pq)"
proof (cases "p \<le> LowestPriority")
  case True
  then have p: "p < NumPriority" by (simp add: NumPriority_le)
  note parts = pq_ok_parts [OF ok p c, of k]
  note l = core_linked_remove1 [OF parts(2) m [OF True]]
  have "pq_ok (set_list k p c (remove1 m (Q k p c)) Q) (on_queue k (impl_Remove p c m) pq)"
  proof (rule pq_ok_update [OF ok p c l(2,3) set_remove1_subset])
    show "set (Q k' p' c) \<inter> set (Q k p c) = {}" if "(k', p') \<noteq> (k, p)" for k' p'
      by (rule pq_ok_disjoint [OF ok that])
    have "m_available_priorities (queue_of k pq) ! c ! p" using parts(3) m [OF True] by auto
    from True l(1) impl_update_False [OF parts(1) p c this, of "remove1 m (Q k p c) \<noteq> []"]
    show "impl_Remove p c m (queue_of k pq, pq_entries pq) =
      (impl_update p c (fst (snd (core_Remove c m (m_queues (queue_of k pq) ! p, pq_entries pq)))) (remove1 m (Q k p c) \<noteq> [])
        (queue_of k pq), snd (snd (core_Remove c m (m_queues (queue_of k pq) ! p, pq_entries pq))))"
      by (auto simp: impl_Remove_def Let_def split_beta)
  qed
  then show ?thesis using True by simp
next
  case False
  then show ?thesis using ok by (simp add: on_queue_beyond impl_Remove_def)
qed

lemma touches_mono: "touches c A s t \<Longrightarrow> A \<subseteq> B \<Longrightarrow> touches c B s t"
  by (auto simp: touches_def)

text \<open>Moving within a list.\<close>

lemma pq_ok_move:
  assumes ok: "pq_ok Q pq" and p: "p < NumPriority" and c: "c < NumCores" and ne: "Q k p c \<noteq> []"
    and l: "core_linked c st' xs" "touches c (set (Q k p c)) (m_queues (queue_of k pq) ! p, pq_entries pq) st'"
    and xs: "set xs = set (Q k p c)"
    and f: "f (queue_of k pq, pq_entries pq) =
      ((queue_of k pq)\<lparr>m_queues := (m_queues (queue_of k pq))[p := fst st']\<rparr>, snd st')"
  shows "pq_ok (set_list k p c xs Q) (on_queue k f pq)"
proof (rule pq_ok_update [OF ok p c l])
  note parts = pq_ok_parts [OF ok p c, of k]
  show "set xs \<subseteq> set (Q k p c)" using xs by simp
  show "set (Q k' p' c) \<inter> set (Q k p c) = {}" if "(k', p') \<noteq> (k, p)" for k' p'
    by (rule pq_ok_disjoint [OF ok that])
  have "xs \<noteq> []" using xs ne by auto
  then show "f (queue_of k pq, pq_entries pq) = (impl_update p c (fst st') (xs \<noteq> []) (queue_of k pq), snd st')"
    using f ne impl_update_True [OF parts(1) p c parts(3), of "fst st'"] by simp
qed

theorem MoveToFront_lists:
  assumes ok: "pq_ok Q pq" and c: "c < NumCores" and m: "p \<le> LowestPriority \<Longrightarrow> m \<in> set (Q k p c)"
  shows "pq_ok (if p \<le> LowestPriority then set_list k p c (m # remove1 m (Q k p c)) Q else Q)
    (on_queue k (impl_MoveToFront p c m) pq)"
proof (cases "p \<le> LowestPriority")
  case True
  then have p: "p < NumPriority" by (simp add: NumPriority_le)
  note parts = pq_ok_parts [OF ok p c, of k]
  note rm = core_linked_remove1 [OF parts(2) m [OF True]]
  have "m \<notin> set (remove1 m (Q k p c))" using parts(4) by (simp add: set_remove1_eq)
  note pf = core_PushFront_linked [OF rm(2) this]
  have "insert m (set (remove1 m (Q k p c))) = set (Q k p c)" using parts(4) m [OF True] by (auto simp: set_remove1_eq)
  then have "pq_ok (set_list k p c (m # remove1 m (Q k p c)) Q) (on_queue k (impl_MoveToFront p c m) pq)"
    using True m [OF True] rm(3) pf
    by (intro pq_ok_move [OF ok p c _ pf(2)])
       (auto simp: impl_MoveToFront_def Let_def split_beta intro: touches_trans)
  then show ?thesis using True by simp
next
  case False
  then show ?thesis using ok by (simp add: on_queue_beyond impl_MoveToFront_def)
qed

theorem MoveToBack_lists:
  assumes ok: "pq_ok Q pq" and c: "c < NumCores" and m: "p \<le> LowestPriority \<Longrightarrow> m \<in> set (Q k p c)"
  shows "pq_ok (if p \<le> LowestPriority then set_list k p c (remove1 m (Q k p c) @ [m]) Q else Q)
      (on_queue k (\<lambda>st. snd (impl_MoveToBack p c m st)) pq)"
    "fst (impl_MoveToBack p c m (queue_of k pq, pq_entries pq)) =
       (if p \<le> LowestPriority then front_or (remove1 m (Q k p c) @ [m]) None else None)"
proof -
  let ?g = "\<lambda>st. snd (impl_MoveToBack p c m st)" and ?xs = "remove1 m (Q k p c) @ [m]"
  have "pq_ok (set_list k p c ?xs Q) (on_queue k ?g pq) \<and>
    fst (impl_MoveToBack p c m (queue_of k pq, pq_entries pq)) = front_or ?xs None" if True: "p \<le> LowestPriority"
  proof
    from that have p: "p < NumPriority" by (simp add: NumPriority_le)
    note parts = pq_ok_parts [OF ok p c, of k]
    note rm = core_linked_remove1 [OF parts(2) m [OF True]]
    have "m \<notin> set (remove1 m (Q k p c))" using parts(4) by (simp add: set_remove1_eq)
    note pf = core_PushBack_linked [OF rm(2) this]
    have "insert m (set (remove1 m (Q k p c))) = set (Q k p c)" using parts(4) m [OF True] by (auto simp: set_remove1_eq)
    then show "pq_ok (set_list k p c ?xs Q) (on_queue k ?g pq)"
      using True m [OF True] rm(3) pf
      by (intro pq_ok_move [OF ok p c _ pf(2)])
         (auto simp: impl_MoveToBack_def Let_def split_beta intro: touches_trans)
    show "fst (impl_MoveToBack p c m (queue_of k pq, pq_entries pq)) = front_or ?xs None"
      using True pf(2) by (simp add: impl_MoveToBack_def Let_def split_beta core_GetFront_def core_linked_def linked_def)
  qed
  then show "pq_ok (if p \<le> LowestPriority then set_list k p c ?xs Q else Q) (on_queue k ?g pq)"
    "fst (impl_MoveToBack p c m (queue_of k pq, pq_entries pq)) = (if p \<le> LowestPriority then front_or ?xs None else None)"
    using ok by (auto simp: on_queue_beyond impl_MoveToBack_def)
qed

section \<open>Reading\<close>

text \<open>The threads of a core in the order in which they are chosen.\<close>

definition by_priority :: "queues \<Rightarrow> bool \<Rightarrow> nat \<Rightarrow> nat list" where
  "by_priority Q k c = concat (map (\<lambda>p. Q k p c) [0..<NumPriority])"

lemma first_set_front:
  assumes "length bits = N" "\<And>i. i < N \<Longrightarrow> bits ! i \<longleftrightarrow> L i \<noteq> []" "n \<le> N"
  shows "front_or (concat (map L [n..<N])) None = (if first_set bits n < N then front_or (L (first_set bits n)) None else None)"
  using assms(3)
proof (induction "N - n" arbitrary: n)
  case 0
  then show ?case using assms(1) by (simp add: first_set_def)
next
  case (Suc d)
  then have n: "n < N" and up: "[n..<N] = n # [Suc n..<N]" by (simp_all add: upt_conv_Cons)
  show ?case
  proof (cases "L n = []")
    case True
    then have "first_set bits n = first_set bits (Suc n)" using assms(1,2) n up by (simp add: first_set_def)
    then show ?thesis using True up Suc(1) [of "Suc n"] Suc(2) n by simp
  next
    case False
    then have "first_set bits n = n" using assms(1,2) n up by (simp add: first_set_def)
    with False n up show ?thesis by (cases "L n") simp_all
  qed
qed

lemma impl_first:
  assumes ok: "pq_ok Q pq" and c: "c < NumCores" and n: "n \<le> NumPriority"
  shows "impl_GetFront_at (first_set (m_available_priorities (queue_of k pq) ! c) n) c (queue_of k pq) =
    front_or (concat (map (\<lambda>p. Q k p c) [n..<NumPriority])) None"
proof -
  let ?b = "m_available_priorities (queue_of k pq) ! c"
  have sh: "impl_shape (queue_of k pq)" and li: "impl_lists (queue_of k pq) (pq_entries pq) (Q k)"
    using ok by (simp_all add: pq_ok_def)
  have len: "length ?b = NumPriority" using sh c by (auto simp: impl_shape_def)
  have av: "?b ! p \<longleftrightarrow> Q k p c \<noteq> []" if "p < NumPriority" for p using li that c by (simp add: impl_lists_def)
  have "qe_next (m_queues (queue_of k pq) ! p ! c) = front_or (Q k p c) None" if "p < NumPriority" for p
    using li that c by (auto simp: impl_lists_def core_linked_def linked_def)
  then show ?thesis
    using first_set_front [OF len av n]
    by (simp add: impl_GetFront_at_def core_GetFront_def NumPriority_le)
qed

theorem GetFront_lists:
  assumes "pq_ok Q pq" "c < NumCores"
  shows "impl_GetFront c (queue_of k pq) = front_or (by_priority Q k c) None"
  using impl_first [OF assms, of 0] by (simp add: impl_GetFront_def by_priority_def)

theorem GetFront_at_lists:
  assumes "pq_ok Q pq" "c < NumCores"
  shows "impl_GetFront_at p c (queue_of k pq) = front_or (Q k p c) None"
proof (cases "p < NumPriority")
  case True
  then show ?thesis using pq_ok_parts(2) [OF assms(1) True assms(2), of k]
    by (simp add: impl_GetFront_at_def core_GetFront_def NumPriority_le core_linked_def linked_def)
next
  case False
  then show ?thesis using assms(1)
    by (simp add: impl_GetFront_at_def pq_ok_def disjoint_queues_def NumPriority_le [symmetric])
qed

lemma pq_ok_in:
  assumes "pq_ok Q pq" "t \<in> set (Q k p c)"
  shows "p < NumPriority" "c < NumCores" "\<And>k' p'. t \<in> set (Q k' p' c) \<longleftrightarrow> k' = k \<and> p' = p"
proof -
  show "p < NumPriority" "c < NumCores"
    using assms by (auto simp: pq_ok_def disjoint_queues_def not_le [symmetric])
  show "t \<in> set (Q k' p' c) \<longleftrightarrow> k' = k \<and> p' = p" for k' p'
    using assms unfolding pq_ok_def disjoint_queues_def by blast
qed

lemma pq_ok_distinct: "pq_ok Q pq \<Longrightarrow> distinct (Q k p c)"
  using pq_ok_parts(4) [of Q pq p c k] by (cases "p < NumPriority \<and> c < NumCores")
    (auto simp: pq_ok_def disjoint_queues_def not_less)

lemma set_by_priority: "pq_ok Q pq \<Longrightarrow> set (by_priority Q k c) = (\<Union>p. set (Q k p c))"
  using pq_ok_in(1) [of Q pq _ k _ c] by (fastforce simp: by_priority_def)

lemma distinct_by_priority:
  assumes "pq_ok Q pq"
  shows "distinct (by_priority Q k c)"
proof -
  have "distinct (concat (map (\<lambda>p. Q k p c) [n..<m]))" for n m
  proof (induction m)
    case (Suc m)
    have "set (concat (map (\<lambda>p. Q k p c) [n..<m])) \<inter> set (Q k m c) = {}"
      using pq_ok_in(3) [OF assms] by fastforce
    then show ?case using Suc pq_ok_distinct [OF assms, of k m c] by simp
  qed simp
  then show ?thesis by (simp add: by_priority_def)
qed

lemma by_priority_split:
  assumes "p < NumPriority"
  shows "by_priority Q k c = concat (map (\<lambda>p. Q k p c) [0..<p]) @ Q k p c @ concat (map (\<lambda>p. Q k p c) [Suc p..<NumPriority])"
proof -
  have "[0..<NumPriority] = [0..<p] @ [p..<NumPriority]"
    using upt_add_eq_append [of 0 p "NumPriority - p"] assms by simp
  moreover have "[p..<NumPriority] = p # [Suc p..<NumPriority]" using assms by (rule upt_conv_Cons)
  ultimately show ?thesis by (simp add: by_priority_def)
qed

theorem GetNext_lists:
  assumes ok: "pq_ok Q pq" and t: "t \<in> set (Q k p c)" "th_priority (threads t) = p"
    and s: "by_priority Q k c = us @ t # vs"
  shows "impl_GetNext threads c t (queue_of k pq, pq_entries pq) = front_or vs None"
proof -
  note b = pq_ok_in(1,2) [OF ok t(1)]
  obtain xs ys where q: "Q k p c = xs @ t # ys" using split_list [OF t(1)] by blast
  have "distinct (us @ t # vs)" using distinct_by_priority [OF ok, of k c] s by simp
  then have vs: "vs = ys @ concat (map (\<lambda>p. Q k p c) [Suc p..<NumPriority])"
    using s by_priority_split [OF b(1), of Q k c] q
    by (metis append.assoc append_Cons append_Cons_eq_iff distinct.simps(2) distinct_append not_distinct_conv_prefix)
  have "qe_next (pq_entries pq t c) = front_or ys None"
    using pq_ok_parts(2) [OF ok b, of k] linked_next q by (fastforce simp: core_linked_def)
  moreover have "impl_GetFront_at (first_set (m_available_priorities (queue_of k pq) ! c) (Suc p)) c (queue_of k pq) =
    front_or (concat (map (\<lambda>p. Q k p c) [Suc p..<NumPriority])) None"
    using b by (intro impl_first [OF ok]) auto
  ultimately show ?thesis using t(2) vs
    by (cases ys) (simp_all add: impl_GetNext_def GetNextSet_def impl_GetFront_at_def Let_def)
qed

theorem GetSamePriorityNext_lists:
  assumes ok: "pq_ok Q pq" and q: "Q k p c = us @ t # vs"
  shows "GetSamePriorityNext c t pq = front_or vs None"
proof -
  have "t \<in> set (Q k p c)" using q by simp
  note b = pq_ok_in(1,2) [OF ok this]
  show ?thesis using pq_ok_parts(2) [OF ok b, of k] linked_next q
    by (fastforce simp: core_linked_def GetSamePriorityNext_def)
qed

theorem new_KPriorityQueue_ok: "pq_ok (\<lambda>_ _ _. []) new_KPriorityQueue"
  by (auto simp: pq_ok_def disjoint_queues_def queue_of_def new_KPriorityQueue_def new_KPriorityQueueImpl_def
      impl_shape_def impl_lists_def core_linked_def linked_Nil new_KPerCoreQueue_def)

end
