(* ===== verification/Priority_Queue_Laws.thy ===== *)
theory Priority_Queue_Laws
  imports Priority_Queue_Lists
begin

text \<open>
  The operations of the priority queue on all the queues of a thread, and the invariant of the
  scheduler: the queues hold exactly the runnable threads, each in the scheduled queue of its active
  core and in the suggested queues of the other cores of its mask, at its priority. Every operation
  that follows a change of a thread restores the invariant for the changed thread.
\<close>

section \<open>All the queues of a thread\<close>

text \<open>
  A thread with an active core and an affinity mask is in the queues of its spots: in the scheduled
  queue of the active core, and in the suggested queues of the other cores of the mask.
\<close>

definition spots :: "int \<Rightarrow> u64 \<Rightarrow> nat set" where
  "spots core m = {c. int c = core \<or> bit m c}"

definition at_spots :: "nat \<Rightarrow> (bool \<Rightarrow> nat list \<Rightarrow> nat list) \<Rightarrow> int \<Rightarrow> nat set \<Rightarrow> queues \<Rightarrow> queues" where
  "at_spots p g core S Q =
     (\<lambda>k p' c. if p' = p \<and> p \<le> LowestPriority \<and> c \<in> S \<and> k = (int c = core) then g k (Q k p' c) else Q k p' c)"

lemma fold_spots:
  fixes f :: "nat \<Rightarrow> KPriorityQueue \<Rightarrow> KPriorityQueue"
  assumes ok: "pq_ok Q pq" and cs: "distinct cs"
    and P: "\<And>c. c \<in> set cs \<Longrightarrow> P c (\<lambda>k p. Q k p c)"
    and step: "\<And>Q pq c. pq_ok Q pq \<Longrightarrow> c \<in> set cs \<Longrightarrow> P c (\<lambda>k p. Q k p c) \<Longrightarrow>
      pq_ok (if p \<le> LowestPriority then set_list (int c = core) p c (g (int c = core) (Q (int c = core) p c)) Q else Q) (f c pq)"
  shows "pq_ok (at_spots p g core (set cs) Q) (fold f cs pq)"
  using assms
proof (induction cs arbitrary: Q pq)
  case Nil
  then show ?case by (simp add: at_spots_def)
next
  case (Cons c cs)
  let ?Q = "if p \<le> LowestPriority then set_list (int c = core) p c (g (int c = core) (Q (int c = core) p c)) Q else Q"
  have "pq_ok ?Q (f c pq)" using Cons.prems(1,3) by (intro Cons.prems(4)) auto
  moreover have "P d (\<lambda>k p. ?Q k p d)" if d: "d \<in> set cs" for d
  proof -
    have "(\<lambda>k p. ?Q k p d) = (\<lambda>k p. Q k p d)" using Cons.prems(2) d by (intro ext) (auto simp: set_list_def)
    then show ?thesis using Cons.prems(3) [of d] d by simp
  qed
  moreover have "distinct cs" using Cons.prems(2) by simp
  ultimately have "pq_ok (at_spots p g core (set cs) ?Q) (fold f cs (f c pq))"
    using Cons.prems(4) by (intro Cons.IH) auto
  moreover have "at_spots p g core (set cs) ?Q = at_spots p g core (set (c # cs)) Q"
    using Cons.prems(2) by (intro ext) (auto simp: at_spots_def set_list_def)
  ultimately show ?case by simp
qed

lemma clear_countr_zero:
  assumes "a \<noteq> 0"
  shows "filter (bit a) [0..<64] = countr_zero a # filter (bit (ClearAffinityBit a (countr_zero a))) [0..<64]"
proof -
  let ?c = "countr_zero a"
  have c: "bit a ?c" "\<And>j. bit a j \<Longrightarrow> ?c \<le> j" using countr_zero_bit [OF assms] by auto
  have "?c < 64" using bit_imp_le_length [OF c(1)] by simp
  then have up: "[0..<64] = [0..<?c] @ ?c # [Suc ?c..<64]"
    using upt_add_eq_append [of 0 ?c "64 - ?c"] by (simp add: upt_conv_Cons)
  have "filter (bit a) [0..<?c] = []" using c(2) by (auto simp: filter_empty_conv not_le [symmetric])
  moreover have "filter (bit (ClearAffinityBit a ?c)) [Suc ?c..<64] = filter (bit a) [Suc ?c..<64]"
    "filter (bit (ClearAffinityBit a ?c)) [0..<?c] = []"
    using c(2) by (auto simp: bit_ClearAffinityBit filter_empty_conv not_le [symmetric] intro!: filter_cong)
  ultimately show ?thesis using c(1) unfolding up by (simp add: bit_ClearAffinityBit)
qed

lemma each_core_fold: "each_core f a pq = fold f (filter (bit a) [0..<64]) pq"
proof (induction f a pq rule: each_core.induct)
  case (1 f a pq)
  show ?case
  proof (cases "a = 0")
    case True
    then show ?thesis by (simp add: each_core.simps)
  next
    case False
    have "each_core f a pq = each_core f (ClearAffinityBit a (countr_zero a)) (f (countr_zero a) pq)"
      using False by (subst each_core.simps) (simp add: GetNextCore_def Let_def)
    also have "\<dots> = fold f (filter (bit (ClearAffinityBit a (countr_zero a))) [0..<64]) (f (countr_zero a) pq)"
      by (rule 1 [OF False]) (auto simp: GetNextCore_def Let_def)
    also have "\<dots> = fold f (filter (bit a) [0..<64]) pq"
      using clear_countr_zero [OF False] by simp
    finally show ?thesis .
  qed
qed

text \<open>The cores of a thread, the active one first.\<close>

definition spot_list :: "int \<Rightarrow> u64 \<Rightarrow> nat list" where
  "spot_list core m =
     (if core \<ge> 0 then nat core # filter (bit (ClearAffinityBit m (nat core))) [0..<64] else filter (bit m) [0..<64])"

lemma spot_list: "distinct (spot_list core m)" "set (spot_list core m) = spots core m"
  using bit_imp_le_length [of m] by (auto simp: spot_list_def spots_def bit_ClearAffinityBit)

lemma fold_cong_set: "(\<And>x y. x \<in> set xs \<Longrightarrow> f x y = g x y) \<Longrightarrow> fold f xs y = fold g xs y"
  by (rule fold_cong) auto

lemma place_all_fold:
  "(let (pq, m) = (if core \<ge> 0 then (on_scheduled (a (nat core)) pq, ClearAffinityBit m (nat core)) else (pq, m))
    in each_core (\<lambda>c. on_suggested (b c)) m pq) =
    fold (\<lambda>c. on_queue (int c = core) (if int c = core then a c else b c)) (spot_list core m) pq"
proof (cases "core \<ge> 0")
  case True
  then have "fold (\<lambda>c. on_queue (int c = core) (if int c = core then a c else b c)) (filter (bit (ClearAffinityBit m (nat core))) [0..<64]) y
    = fold (\<lambda>c. on_suggested (b c)) (filter (bit (ClearAffinityBit m (nat core))) [0..<64]) y" for y
    by (intro fold_cong_set) (auto simp: on_queue_def bit_ClearAffinityBit)
  with True show ?thesis by (simp add: each_core_fold spot_list_def on_queue_def)
next
  case False
  then have "fold (\<lambda>c. on_queue (int c = core) (if int c = core then a c else b c)) (filter (bit m) [0..<64]) y
    = fold (\<lambda>c. on_suggested (b c)) (filter (bit m) [0..<64]) y" for y
    by (intro fold_cong_set) (auto simp: on_queue_def)
  with False show ?thesis by (simp add: each_core_fold spot_list_def)
qed

definition spots_ok :: "int \<Rightarrow> u64 \<Rightarrow> bool" where
  "spots_ok core m \<longleftrightarrow> spots core m \<subseteq> {..<NumCores}"

lemma PushBack_at_lists:
  assumes ok: "pq_ok Q pq" and sp: "spots_ok (th_core_id th) (th_physical_affinity_mask th)"
    and m: "\<And>c. c \<in> spots (th_core_id th) (th_physical_affinity_mask th) \<Longrightarrow> m \<notin> on_core Q c"
  shows "pq_ok (at_spots p (\<lambda>_ xs. xs @ [m]) (th_core_id th) (spots (th_core_id th) (th_physical_affinity_mask th)) Q)
    (PushBack_at p th m pq)"
proof -
  let ?core = "th_core_id th" and ?m = "th_physical_affinity_mask th"
  have "PushBack_at p th m pq = fold (\<lambda>c. on_queue (int c = ?core) (impl_PushBack p c m)) (spot_list ?core ?m) pq"
    using place_all_fold [of ?core "\<lambda>c. impl_PushBack p c m" pq ?m "\<lambda>c. impl_PushBack p c m"]
    by (simp add: PushBack_at_def Let_def cong: if_cong)
  also have "pq_ok (at_spots p (\<lambda>_ xs. xs @ [m]) ?core (set (spot_list ?core ?m)) Q) \<dots>"
  proof (rule fold_spots [OF ok spot_list(1), where P = "\<lambda>c q. m \<notin> (\<Union>k p. set (q k p))"])
    show "m \<notin> (\<Union>k p. set (Q k p c))" if "c \<in> set (spot_list ?core ?m)" for c
      using m [of c] that by (simp add: spot_list on_core_def)
    fix Q pq c assume "pq_ok Q pq" "c \<in> set (spot_list ?core ?m)" "m \<notin> (\<Union>k p. set (Q k p c))"
    then show "pq_ok (if p \<le> LowestPriority then set_list (int c = ?core) p c (Q (int c = ?core) p c @ [m]) Q else Q)
      (on_queue (int c = ?core) (impl_PushBack p c m) pq)"
      using sp by (intro PushBack_lists) (auto simp: spot_list spots_ok_def on_core_def)
  qed
  finally show ?thesis by (simp add: spot_list)
qed

lemma PushFront_at_lists:
  assumes ok: "pq_ok Q pq" and sp: "spots_ok (th_core_id th) (th_physical_affinity_mask th)"
    and m: "\<And>c. c \<in> spots (th_core_id th) (th_physical_affinity_mask th) \<Longrightarrow> m \<notin> on_core Q c"
  shows "pq_ok (at_spots p (\<lambda>k xs. if k then m # xs else xs @ [m]) (th_core_id th)
      (spots (th_core_id th) (th_physical_affinity_mask th)) Q) (PushFront_at p th m pq)"
proof -
  let ?core = "th_core_id th" and ?m = "th_physical_affinity_mask th"
  let ?f = "\<lambda>c. on_queue (int c = ?core) (if int c = ?core then impl_PushFront p c m else impl_PushBack p c m)"
  have "PushFront_at p th m pq = fold ?f (spot_list ?core ?m) pq"
    using place_all_fold [of ?core "\<lambda>c. impl_PushFront p c m" pq ?m "\<lambda>c. impl_PushBack p c m"]
    by (simp add: PushFront_at_def Let_def cong: if_cong)
  also have "pq_ok (at_spots p (\<lambda>k xs. if k then m # xs else xs @ [m]) ?core (set (spot_list ?core ?m)) Q) \<dots>"
  proof (rule fold_spots [OF ok spot_list(1), where P = "\<lambda>c q. m \<notin> (\<Union>k p. set (q k p))"])
    show "m \<notin> (\<Union>k p. set (Q k p c))" if "c \<in> set (spot_list ?core ?m)" for c
      using m [of c] that by (simp add: spot_list on_core_def)
    fix Q pq c assume q: "pq_ok Q pq" "c \<in> set (spot_list ?core ?m)" "m \<notin> (\<Union>k p. set (Q k p c))"
    then have "c < NumCores" "m \<notin> on_core Q c" using sp by (auto simp: spot_list spots_ok_def)
    from PushFront_lists [OF q(1) this, of p True] PushBack_lists [OF q(1) this, of p False]
    show "pq_ok (if p \<le> LowestPriority
        then set_list (int c = ?core) p c (if int c = ?core then m # Q (int c = ?core) p c else Q (int c = ?core) p c @ [m]) Q
        else Q) (?f c pq)"
      by (auto split: if_splits)
  qed
  finally show ?thesis by (simp add: spot_list)
qed

lemma Remove_at_lists:
  assumes ok: "pq_ok Q pq" and sp: "spots_ok (th_core_id th) (th_physical_affinity_mask th)"
    and m: "\<And>c. p \<le> LowestPriority \<Longrightarrow> c \<in> spots (th_core_id th) (th_physical_affinity_mask th) \<Longrightarrow>
      m \<in> set (Q (int c = th_core_id th) p c)"
  shows "pq_ok (at_spots p (\<lambda>_. remove1 m) (th_core_id th) (spots (th_core_id th) (th_physical_affinity_mask th)) Q)
    (Remove_at p th m pq)"
proof -
  let ?core = "th_core_id th" and ?m = "th_physical_affinity_mask th"
  have "Remove_at p th m pq = fold (\<lambda>c. on_queue (int c = ?core) (impl_Remove p c m)) (spot_list ?core ?m) pq"
    using place_all_fold [of ?core "\<lambda>c. impl_Remove p c m" pq ?m "\<lambda>c. impl_Remove p c m"]
    by (simp add: Remove_at_def Let_def cong: if_cong)
  also have "pq_ok (at_spots p (\<lambda>_. remove1 m) ?core (set (spot_list ?core ?m)) Q) \<dots>"
  proof (rule fold_spots [OF ok spot_list(1), where P = "\<lambda>c q. p \<le> LowestPriority \<longrightarrow> m \<in> set (q (int c = ?core) p)"])
    show "p \<le> LowestPriority \<longrightarrow> m \<in> set (Q (int c = ?core) p c)" if "c \<in> set (spot_list ?core ?m)" for c
      using m [of c] that by (simp add: spot_list)
    fix Q pq c assume "pq_ok Q pq" "c \<in> set (spot_list ?core ?m)" "p \<le> LowestPriority \<longrightarrow> m \<in> set (Q (int c = ?core) p c)"
    then show "pq_ok (if p \<le> LowestPriority then set_list (int c = ?core) p c (remove1 m (Q (int c = ?core) p c)) Q else Q)
      (on_queue (int c = ?core) (impl_Remove p c m) pq)"
      using sp by (intro Remove_lists) (auto simp: spot_list spots_ok_def)
  qed
  finally show ?thesis by (simp add: spot_list)
qed

text \<open>The loops over all cores of \<open>ChangeAffinityMask\<close>.\<close>

lemma fold_if: "fold (\<lambda>x s. if P x then f x s else s) xs s = fold f (filter P xs) s"
  by (induction xs arbitrary: s) simp_all

lemma affinity_cores:
  assumes "spots_ok core m" "core \<ge> 0 \<Longrightarrow> bit m (nat core)"
  shows "set (filter (\<lambda>c. GetAffinity c m) [0..<NumCores]) = spots core m"
  using assms by (auto simp: spots_ok_def spots_def GetAffinity_bit)

lemma ChangeAffinityMask_fold:
  "\<not> IsDummyThread th \<Longrightarrow> ChangeAffinityMask prev_core prev_affinity th m pq =
     fold (\<lambda>c. on_queue (int c = th_core_id th) (impl_PushBack (th_priority th) c m))
       (filter (\<lambda>c. GetAffinity c (th_physical_affinity_mask th)) [0..<NumCores])
       (fold (\<lambda>c. on_queue (int c = prev_core) (impl_Remove (th_priority th) c m))
         (filter (\<lambda>c. GetAffinity c prev_affinity) [0..<NumCores]) pq)"
  by (simp add: ChangeAffinityMask_def Let_def fold_if [symmetric] on_queue_def if_distribR cong: if_cong)

section \<open>Where the threads are\<close>

definition thread_ok :: "KThread \<Rightarrow> bool" where
  "thread_ok th \<longleftrightarrow>
     spots_ok (th_core_id th) (th_physical_affinity_mask th) \<and>
     (th_core_id th \<ge> 0 \<longrightarrow> bit (th_physical_affinity_mask th) (nat (th_core_id th)))"

definition belongs :: "KThread \<Rightarrow> bool \<Rightarrow> nat \<Rightarrow> nat \<Rightarrow> bool" where
  "belongs th k p c \<longleftrightarrow>
     th_thread_state th = Runnable \<and> \<not> IsDummyThread th \<and> p = th_priority th \<and> p \<le> LowestPriority \<and>
     c \<in> spots (th_core_id th) (th_physical_affinity_mask th) \<and> k = (int c = th_core_id th)"

text \<open>
  The queues hold exactly the runnable threads, each where its priority, its active core and its
  affinity mask say.
\<close>

definition sched_ok :: "(nat \<Rightarrow> KThread) \<Rightarrow> queues \<Rightarrow> KPriorityQueue \<Rightarrow> bool" where
  "sched_ok threads Q pq \<longleftrightarrow>
     pq_ok Q pq \<and> (\<forall>t. thread_ok (threads t)) \<and> (\<forall>t k p c. t \<in> set (Q k p c) \<longleftrightarrow> belongs (threads t) k p c)"

lemma sched_ok_absent:
  "sched_ok threads Q pq \<Longrightarrow> th_thread_state (threads t) \<noteq> Runnable \<or> IsDummyThread (threads t) \<Longrightarrow> t \<notin> on_core Q c"
  by (auto simp: sched_ok_def belongs_def)

lemma in_at_spots_push:
  assumes "\<And>k xs. set (g k xs) = insert m (set xs)"
  shows "t \<in> set (at_spots p g core S Q k p' c) \<longleftrightarrow>
    t \<in> set (Q k p' c) \<or> (t = m \<and> p' = p \<and> p \<le> LowestPriority \<and> c \<in> S \<and> k = (int c = core))"
  using assms by (auto simp: at_spots_def)

lemma in_at_spots_remove:
  assumes "pq_ok Q pq"
  shows "t \<in> set (at_spots p (\<lambda>_. remove1 m) core S Q k p' c) \<longleftrightarrow>
    t \<in> set (Q k p' c) \<and> \<not> (t = m \<and> p' = p \<and> p \<le> LowestPriority \<and> c \<in> S \<and> k = (int c = core))"
  using pq_ok_distinct [OF assms] by (auto simp: at_spots_def set_remove1_eq)

theorem pq_PushBack_ok:
  assumes ok: "sched_ok threads Q pq" and old: "th_thread_state (threads t) \<noteq> Runnable"
    and th: "thread_ok th" "th_thread_state th = Runnable"
  shows "sched_ok (threads(t := th))
    (if IsDummyThread th then Q
     else at_spots (th_priority th) (\<lambda>_ xs. xs @ [t]) (th_core_id th) (spots (th_core_id th) (th_physical_affinity_mask th)) Q)
    (pq_PushBack th t pq)"
proof (cases "IsDummyThread th")
  case True
  then show ?thesis using ok th old by (auto simp: sched_ok_def belongs_def pq_PushBack_def)
next
  case False
  have "pq_ok (at_spots (th_priority th) (\<lambda>_ xs. xs @ [t]) (th_core_id th)
      (spots (th_core_id th) (th_physical_affinity_mask th)) Q) (PushBack_at (th_priority th) th t pq)"
    using ok th old sched_ok_absent [OF ok, of t]
    by (intro PushBack_at_lists) (auto simp: sched_ok_def thread_ok_def)
  then show ?thesis using ok th old False
    by (auto simp: sched_ok_def belongs_def pq_PushBack_def in_at_spots_push)
qed

theorem pq_Remove_ok:
  assumes ok: "sched_ok threads Q pq" and old: "th_thread_state (threads t) = Runnable"
    and th: "thread_ok th" "th_thread_state th \<noteq> Runnable" "IsDummyThread th = IsDummyThread (threads t)"
      "th_priority th = th_priority (threads t)" "th_core_id th = th_core_id (threads t)"
      "th_physical_affinity_mask th = th_physical_affinity_mask (threads t)"
  shows "sched_ok (threads(t := th))
    (if IsDummyThread th then Q
     else at_spots (th_priority th) (\<lambda>_. remove1 t) (th_core_id th) (spots (th_core_id th) (th_physical_affinity_mask th)) Q)
    (pq_Remove th t pq)"
proof (cases "IsDummyThread th")
  case True
  then show ?thesis using ok th old by (auto simp: sched_ok_def belongs_def pq_Remove_def)
next
  case False
  have "pq_ok (at_spots (th_priority th) (\<lambda>_. remove1 t) (th_core_id th)
      (spots (th_core_id th) (th_physical_affinity_mask th)) Q) (Remove_at (th_priority th) th t pq)"
    using ok th old False
    by (intro Remove_at_lists) (auto simp: sched_ok_def thread_ok_def belongs_def)
  moreover have "pq_ok Q pq" using ok by (simp add: sched_ok_def)
  ultimately show ?thesis using ok th old False
    by (auto simp: sched_ok_def belongs_def pq_Remove_def in_at_spots_remove)
qed

theorem ChangePriority_ok:
  assumes ok: "sched_ok threads Q pq" and old: "th_thread_state (threads t) = Runnable"
    and th: "th = (threads t)\<lparr>th_priority := p\<rparr>"
  shows "sched_ok (threads(t := th))
    (if IsDummyThread th then Q
     else at_spots p (\<lambda>k xs. if run \<and> k then t # xs else xs @ [t]) (th_core_id th)
       (spots (th_core_id th) (th_physical_affinity_mask th))
       (at_spots (th_priority (threads t)) (\<lambda>_. remove1 t) (th_core_id th)
         (spots (th_core_id th) (th_physical_affinity_mask th)) Q))
    (ChangePriority (th_priority (threads t)) run th t pq)"
proof (cases "IsDummyThread th")
  case True
  then show ?thesis using ok th old
    by (auto simp: sched_ok_def belongs_def ChangePriority_def IsDummyThread_def thread_ok_def)
next
  case False
  let ?S = "spots (th_core_id th) (th_physical_affinity_mask th)" and ?pq = "Remove_at (th_priority (threads t)) th t pq"
  let ?Q = "at_spots (th_priority (threads t)) (\<lambda>_. remove1 t) (th_core_id th) ?S Q"
  let ?g = "\<lambda>k xs. if run \<and> k then t # xs else xs @ [t]"
  have pq: "pq_ok Q pq" and tk: "thread_ok (threads t)" using ok by (simp_all add: sched_ok_def)
  then have sp: "spots_ok (th_core_id th) (th_physical_affinity_mask th)" using th by (simp add: thread_ok_def)
  have rm: "pq_ok ?Q ?pq"
    using ok th old False sp by (intro Remove_at_lists) (auto simp: sched_ok_def belongs_def IsDummyThread_def)
  have gone: "t \<notin> on_core ?Q c" for c
    using ok th by (auto simp: in_at_spots_remove [OF pq] sched_ok_def belongs_def)
  have "pq_ok (at_spots p ?g (th_core_id th) ?S ?Q) (ChangePriority (th_priority (threads t)) run th t pq)"
    using PushFront_at_lists [OF rm sp gone, of p] PushBack_at_lists [OF rm sp gone, of p] False th
    by (cases run) (simp_all add: ChangePriority_def Let_def)
  moreover have "x \<in> set (at_spots p ?g (th_core_id th) ?S ?Q k q c) \<longleftrightarrow> belongs ((threads(t := th)) x) k q c" for x k q c
    using ok th old False
    by (subst in_at_spots_push [where m = t])
       (auto simp: in_at_spots_remove [OF pq] sched_ok_def belongs_def IsDummyThread_def)
  moreover have "thread_ok th" using tk th by (simp add: thread_ok_def)
  ultimately show ?thesis using ok False by (simp add: sched_ok_def)
qed

theorem ChangeAffinityMask_ok:
  assumes ok: "sched_ok threads Q pq" and old: "th_thread_state (threads t) = Runnable"
    and th: "thread_ok th" "th_thread_state th = Runnable" "IsDummyThread th = IsDummyThread (threads t)"
      "th_priority th = th_priority (threads t)"
  shows "sched_ok (threads(t := th))
    (if IsDummyThread th then Q
     else at_spots (th_priority th) (\<lambda>_ xs. xs @ [t]) (th_core_id th) (spots (th_core_id th) (th_physical_affinity_mask th))
       (at_spots (th_priority th) (\<lambda>_. remove1 t) (th_core_id (threads t))
         (spots (th_core_id (threads t)) (th_physical_affinity_mask (threads t))) Q))
    (ChangeAffinityMask (th_core_id (threads t)) (th_physical_affinity_mask (threads t)) th t pq)"
proof (cases "IsDummyThread th")
  case True
  then show ?thesis using ok th old by (auto simp: sched_ok_def belongs_def ChangeAffinityMask_def)
next
  case False
  let ?core = "th_core_id (threads t)" and ?m = "th_physical_affinity_mask (threads t)" and ?p = "th_priority th"
  let ?cs = "filter (\<lambda>c. GetAffinity c ?m) [0..<NumCores]"
    and ?ds = "filter (\<lambda>c. GetAffinity c (th_physical_affinity_mask th)) [0..<NumCores]"
  let ?Q = "at_spots ?p (\<lambda>_. remove1 t) ?core (spots ?core ?m) Q"
  let ?R = "at_spots ?p (\<lambda>_ xs. xs @ [t]) (th_core_id th) (spots (th_core_id th) (th_physical_affinity_mask th)) ?Q"
  let ?pq = "fold (\<lambda>c. on_queue (int c = ?core) (impl_Remove ?p c t)) ?cs pq"
  have pq: "pq_ok Q pq" and tk: "thread_ok (threads t)" using ok by (simp_all add: sched_ok_def)
  have cs: "set ?cs = spots ?core ?m" and ds: "set ?ds = spots (th_core_id th) (th_physical_affinity_mask th)"
    using tk th(1) affinity_cores by (auto simp: thread_ok_def)
  have "pq_ok (at_spots ?p (\<lambda>_. remove1 t) ?core (set ?cs) Q) ?pq"
  proof (rule fold_spots [OF pq, where P = "\<lambda>c q. ?p \<le> LowestPriority \<longrightarrow> t \<in> set (q (int c = ?core) ?p)"])
    show "?p \<le> LowestPriority \<longrightarrow> t \<in> set (Q (int c = ?core) ?p c)" if "c \<in> set ?cs" for c
      using that ok old th False unfolding cs by (auto simp: sched_ok_def belongs_def)
    fix Q pq c assume "pq_ok Q pq" "c \<in> set ?cs" "?p \<le> LowestPriority \<longrightarrow> t \<in> set (Q (int c = ?core) ?p c)"
    then show "pq_ok (if ?p \<le> LowestPriority then set_list (int c = ?core) ?p c (remove1 t (Q (int c = ?core) ?p c)) Q else Q)
      (on_queue (int c = ?core) (impl_Remove ?p c t) pq)"
      by (intro Remove_lists) auto
  qed simp
  then have rm: "pq_ok ?Q ?pq" unfolding cs .
  have gone: "t \<notin> on_core ?Q c" for c
    using ok th by (auto simp: in_at_spots_remove [OF pq] sched_ok_def belongs_def)
  have "pq_ok (at_spots ?p (\<lambda>_ xs. xs @ [t]) (th_core_id th) (set ?ds) ?Q)
    (fold (\<lambda>c. on_queue (int c = th_core_id th) (impl_PushBack ?p c t)) ?ds ?pq)"
  proof (rule fold_spots [OF rm, where P = "\<lambda>c q. t \<notin> (\<Union>k p. set (q k p))"])
    show "t \<notin> (\<Union>k p. set (?Q k p c))" for c using gone [of c] unfolding on_core_def .
    fix Q pq c assume "pq_ok Q pq" "c \<in> set ?ds" "t \<notin> (\<Union>k p. set (Q k p c))"
    then show "pq_ok (if ?p \<le> LowestPriority
        then set_list (int c = th_core_id th) ?p c (Q (int c = th_core_id th) ?p c @ [t]) Q else Q)
      (on_queue (int c = th_core_id th) (impl_PushBack ?p c t) pq)"
      by (intro PushBack_lists) (auto simp: on_core_def)
  qed simp
  then have "pq_ok ?R (ChangeAffinityMask ?core ?m th t pq)"
    unfolding ds ChangeAffinityMask_fold [OF False] .
  moreover have "x \<in> set (?R k q c) \<longleftrightarrow> belongs ((threads(t := th)) x) k q c" for x k q c
    using ok th old False
    by (subst in_at_spots_push [where m = t]) (auto simp: in_at_spots_remove [OF pq] sched_ok_def belongs_def)
  ultimately show ?thesis using ok False th(1) by (simp add: sched_ok_def)
qed

definition moved :: "nat \<Rightarrow> nat \<Rightarrow> int \<Rightarrow> int \<Rightarrow> bool \<Rightarrow> queues \<Rightarrow> queues" where
  "moved p t prev new to_front Q =
     (\<lambda>k p' c.
        if p' = p \<and> p \<le> LowestPriority \<and> prev \<noteq> new
        then
          if int c = prev then (if k then remove1 t (Q k p' c) else Q k p' c @ [t])
          else if int c = new
            then (if k then (if to_front then t # Q k p' c else Q k p' c @ [t]) else remove1 t (Q k p' c))
          else Q k p' c
        else Q k p' c)"

lemma moved_same: "prev = new \<Longrightarrow> moved p t prev new to_front Q = Q"
  by (intro ext) (simp add: moved_def)

lemma ChangeCore_lists:
  assumes ok: "pq_ok Q pq" and dummy: "\<not> IsDummyThread th" and p: "p = th_priority th" and ne: "prev \<noteq> th_core_id th"
    and b: "prev < int NumCores" "th_core_id th < int NumCores"
    and t: "p \<le> LowestPriority \<Longrightarrow> prev \<ge> 0 \<Longrightarrow> t \<in> set (Q True p (nat prev))"
      "p \<le> LowestPriority \<Longrightarrow> th_core_id th \<ge> 0 \<Longrightarrow> t \<in> set (Q False p (nat (th_core_id th)))"
  shows "pq_ok (moved p t prev (th_core_id th) to_front Q) (ChangeCore prev th t to_front pq)"
proof -
  let ?new = "th_core_id th" and ?L = "p \<le> LowestPriority"
  let ?pc = "nat prev" and ?nc = "nat ?new"
  define Q1 where "Q1 = (if prev \<ge> 0 \<and> ?L then set_list True p ?pc (remove1 t (Q True p ?pc)) Q else Q)"
  define pq1 where "pq1 = (if prev \<ge> 0 then on_queue True (impl_Remove p ?pc t) pq else pq)"
  have 1: "pq_ok Q1 pq1"
    using ok b t(1) Remove_lists [OF ok, of ?pc p t True] by (auto simp: Q1_def pq1_def)
  define Q2 where "Q2 = (if ?new \<ge> 0 \<and> ?L then set_list False p ?nc (remove1 t (Q1 False p ?nc)) Q1 else Q1)"
  define pq2 where "pq2 = (if ?new \<ge> 0 then on_queue False (impl_Remove p ?nc t) pq1 else pq1)"
  have same1: "Q1 k p' ?nc = Q k p' ?nc" if "?new \<ge> 0" for k p'
    using ne that by (auto simp: Q1_def set_list_def)
  have 2: "pq_ok Q2 pq2"
    using 1 b t(2) same1 Remove_lists [OF 1, of ?nc p t False] by (auto simp: Q2_def pq2_def)
  have gone2: "t \<notin> on_core Q2 ?nc" if "?new \<ge> 0" "?L"
    using pq_ok_in(3) [OF ok t(2) [OF that(2,1)]] pq_ok_distinct [OF ok, of False p ?nc] that same1
    by (auto simp: Q2_def set_list_def set_remove1_eq)
  define Q3 where "Q3 = (if ?new \<ge> 0 \<and> ?L
    then set_list True p ?nc (if to_front then t # Q2 True p ?nc else Q2 True p ?nc @ [t]) Q2 else Q2)"
  define pq3 where "pq3 = (if ?new \<ge> 0 then on_queue True (if to_front then impl_PushFront p ?nc t else impl_PushBack p ?nc t) pq2 else pq2)"
  have 3: "pq_ok Q3 pq3"
  proof (cases "?new \<ge> 0 \<and> ?L")
    case True
    then have "?nc < NumCores" using b by linarith
    from PushFront_lists [OF 2 this, of t p True] PushBack_lists [OF 2 this, of t p True] gone2 True show ?thesis
      by (auto simp: Q3_def pq3_def)
  next
    case False
    then show ?thesis using 2 by (auto simp: Q3_def pq3_def on_queue_beyond impl_PushFront_def impl_PushBack_def)
  qed
  have gone3: "t \<notin> on_core Q3 ?pc" if "prev \<ge> 0" "?L"
    using pq_ok_in(3) [OF ok t(1) [OF that(2,1)]] pq_ok_distinct [OF ok, of True p ?pc] that ne
    by (auto simp: Q3_def Q2_def Q1_def set_list_def set_remove1_eq)
  have "pq_ok (if prev \<ge> 0 \<and> ?L then set_list False p ?pc (Q3 False p ?pc @ [t]) Q3 else Q3)
    (if prev \<ge> 0 then on_queue False (impl_PushBack p ?pc t) pq3 else pq3)"
  proof (cases "prev \<ge> 0 \<and> ?L")
    case True
    then have "?pc < NumCores" using b by linarith
    from PushBack_lists [OF 3 this, of t p False] gone3 True show ?thesis by auto
  next
    case False
    then show ?thesis using 3 by (auto simp: on_queue_beyond impl_PushBack_def)
  qed
  moreover have "(if prev \<ge> 0 \<and> ?L then set_list False p ?pc (Q3 False p ?pc @ [t]) Q3 else Q3) = moved p t prev ?new to_front Q"
    using ne by (intro ext, auto simp: moved_def Q3_def Q2_def Q1_def set_list_def nat_eq_iff2, (metis nat_int)+)
  moreover have "ChangeCore prev th t to_front pq = (if prev \<ge> 0 then on_queue False (impl_PushBack p ?pc t) pq3 else pq3)"
    using dummy ne p by (simp add: ChangeCore_def Let_def pq3_def pq2_def pq1_def on_queue_def)
  ultimately show ?thesis by simp
qed

lemma in_moved:
  assumes "pq_ok Q pq"
  shows "x \<in> set (moved p t prev new to_front Q k p' c) \<longleftrightarrow>
    (if p' = p \<and> p \<le> LowestPriority \<and> prev \<noteq> new \<and> x = t
     then if int c = prev then \<not> k else if int c = new then k else x \<in> set (Q k p' c)
     else x \<in> set (Q k p' c))"
  using pq_ok_distinct [OF assms] by (auto simp: moved_def set_remove1_eq)

theorem ChangeCore_ok:
  assumes ok: "sched_ok threads Q pq" and old: "th_thread_state (threads t) = Runnable" "\<not> IsDummyThread (threads t)"
    and th: "th = (threads t)\<lparr>th_core_id := core\<rparr>" and new: "core \<ge> 0 \<Longrightarrow> bit (th_physical_affinity_mask th) (nat core)"
  shows "sched_ok (threads(t := th)) (moved (th_priority th) t (th_core_id (threads t)) core to_front Q)
    (ChangeCore (th_core_id (threads t)) th t to_front pq)"
proof -
  let ?prev = "th_core_id (threads t)" and ?m = "th_physical_affinity_mask th"
  have pq: "pq_ok Q pq" and tk: "thread_ok (threads t)" using ok by (simp_all add: sched_ok_def)
  have m: "\<And>c. bit ?m c \<Longrightarrow> c < NumCores" using tk th by (auto simp: thread_ok_def spots_ok_def spots_def)
  have tk': "thread_ok th" using m new th by (auto simp: thread_ok_def spots_ok_def spots_def)
  have prev: "?prev \<ge> 0 \<Longrightarrow> bit ?m (nat ?prev)" using tk th by (simp add: thread_ok_def)
  have prev': "int c = ?prev \<Longrightarrow> bit ?m c" for c using prev by (metis nat_int of_nat_0_le_iff)
  show ?thesis
  proof (cases "?prev = core")
    case True
    then have "threads(t := th) = threads" using th by auto
    then show ?thesis using True ok th by (simp add: moved_same ChangeCore_def)
  next
    case False
    have at: "x \<in> set (Q k p c) \<longleftrightarrow> belongs (threads x) k p c" for x k p c using ok by (simp add: sched_ok_def)
    have "pq_ok (moved (th_priority th) t ?prev (th_core_id th) to_front Q) (ChangeCore ?prev th t to_front pq)"
    proof (rule ChangeCore_lists [OF pq])
      show "?prev < int NumCores" "th_core_id th < int NumCores" using m prev new th by (force simp: not_le)+
    qed (use False old th prev new in \<open>auto simp: at belongs_def IsDummyThread_def spots_def\<close>)
    moreover have "x \<in> set (moved (th_priority th) t ?prev core to_front Q k p c) \<longleftrightarrow> belongs ((threads(t := th)) x) k p c" for x k p c
      using False old th prev' new
      by (auto simp: in_moved [OF pq] at belongs_def IsDummyThread_def spots_def)
    ultimately show ?thesis using ok th tk' by (simp add: sched_ok_def)
  qed
qed

theorem MoveToScheduledBack_ok:
  assumes ok: "sched_ok threads Q pq" and t: "th_thread_state (threads t) = Runnable" "\<not> IsDummyThread (threads t)"
    and c: "th_core_id (threads t) = int c" and p: "p = th_priority (threads t)"
  shows "sched_ok threads (if p \<le> LowestPriority then set_list True p c (remove1 t (Q True p c) @ [t]) Q else Q)
      (snd (MoveToScheduledBack (threads t) t pq))"
    "fst (MoveToScheduledBack (threads t) t pq) =
       (if p \<le> LowestPriority then front_or (remove1 t (Q True p c) @ [t]) None else None)"
proof -
  have pq: "pq_ok Q pq" and tk: "thread_ok (threads t)" using ok by (simp_all add: sched_ok_def)
  have at: "x \<in> set (Q k p c) \<longleftrightarrow> belongs (threads x) k p c" for x k p c using ok by (simp add: sched_ok_def)
  have cn: "c < NumCores" using tk c by (auto simp: thread_ok_def spots_ok_def spots_def)
  have tin: "p \<le> LowestPriority \<Longrightarrow> t \<in> set (Q True p c)" using t c p by (simp add: at belongs_def spots_def)
  note mv = MoveToBack_lists [of Q pq c p t True, OF pq cn tin]
  have eq: "MoveToScheduledBack (threads t) t pq =
    (fst (impl_MoveToBack p c t (queue_of True pq, pq_entries pq)), on_queue True (\<lambda>st. snd (impl_MoveToBack p c t st)) pq)"
    using t c p by (simp add: MoveToScheduledBack_def on_queue_def on_scheduled_def queue_of_def split_beta Let_def)
  have "x \<in> set (set_list True p c (remove1 t (Q True p c) @ [t]) Q k' p' c') \<longleftrightarrow> x \<in> set (Q k' p' c')"
    if "p \<le> LowestPriority" for x k' p' c'
    using tin [OF that] pq_ok_distinct [OF pq, of True p c] by (auto simp: set_list_def set_remove1_eq)
  then show "sched_ok threads (if p \<le> LowestPriority then set_list True p c (remove1 t (Q True p c) @ [t]) Q else Q)
      (snd (MoveToScheduledBack (threads t) t pq))"
    using mv(1) ok by (simp add: eq sched_ok_def)
  show "fst (MoveToScheduledBack (threads t) t pq) =
       (if p \<le> LowestPriority then front_or (remove1 t (Q True p c) @ [t]) None else None)"
    using mv(2) by (simp add: eq)
qed

theorem MoveToScheduledFront_ok:
  assumes ok: "sched_ok threads Q pq" and t: "th_thread_state (threads t) = Runnable" "\<not> IsDummyThread (threads t)"
    and c: "th_core_id (threads t) = int c" and p: "p = th_priority (threads t)"
  shows "sched_ok threads (if p \<le> LowestPriority then set_list True p c (t # remove1 t (Q True p c)) Q else Q)
      (MoveToScheduledFront (threads t) t pq)"
proof -
  have pq: "pq_ok Q pq" and tk: "thread_ok (threads t)" using ok by (simp_all add: sched_ok_def)
  have at: "x \<in> set (Q k p c) \<longleftrightarrow> belongs (threads x) k p c" for x k p c using ok by (simp add: sched_ok_def)
  have cn: "c < NumCores" using tk c by (auto simp: thread_ok_def spots_ok_def spots_def)
  have tin: "p \<le> LowestPriority \<Longrightarrow> t \<in> set (Q True p c)" using t c p by (simp add: at belongs_def spots_def)
  note mv = MoveToFront_lists [of Q pq c p t True, OF pq cn tin]
  have eq: "MoveToScheduledFront (threads t) t pq = on_queue True (impl_MoveToFront p c t) pq"
    using t c p by (simp add: MoveToScheduledFront_def on_queue_def)
  have "x \<in> set (set_list True p c (t # remove1 t (Q True p c)) Q k' p' c') \<longleftrightarrow> x \<in> set (Q k' p' c')"
    if "p \<le> LowestPriority" for x k' p' c'
    using tin [OF that] pq_ok_distinct [OF pq, of True p c] by (auto simp: set_list_def set_remove1_eq)
  then show ?thesis using mv ok by (simp add: eq sched_ok_def)
qed

text \<open>What the scheduler reads.\<close>

lemmas sched_reads = GetFront_lists GetFront_at_lists GetNext_lists GetSamePriorityNext_lists

lemma sched_front:
  assumes "sched_ok threads Q pq" "c < NumCores"
  shows "GetScheduledFront c pq = front_or (by_priority Q True c) None"
    "GetSuggestedFront c pq = front_or (by_priority Q False c) None"
    "GetScheduledFront_at c p pq = front_or (Q True p c) None"
    "GetSuggestedFront_at c p pq = front_or (Q False p c) None"
  using assms GetFront_lists [of Q pq c True] GetFront_lists [of Q pq c False]
    GetFront_at_lists [of Q pq c p True] GetFront_at_lists [of Q pq c p False]
  by (simp_all add: sched_ok_def GetScheduledFront_def GetSuggestedFront_def GetScheduledFront_at_def
      GetSuggestedFront_at_def queue_of_def)

lemma sched_next:
  assumes ok: "sched_ok threads Q pq" and s: "by_priority Q k c = us @ t # vs"
  shows "(if k then GetScheduledNext threads c t pq else GetSuggestedNext threads c t pq) = front_or vs None"
proof -
  have pq: "pq_ok Q pq" using ok by (simp add: sched_ok_def)
  have "t \<in> set (by_priority Q k c)" using s by simp
  then obtain p where p: "t \<in> set (Q k p c)" using set_by_priority [OF pq] by auto
  moreover have "th_priority (threads t) = p" using ok p by (simp add: sched_ok_def belongs_def)
  ultimately show ?thesis using GetNext_lists [OF pq _ _ s, of p threads]
    by (cases k) (simp_all add: GetScheduledNext_def GetSuggestedNext_def queue_of_def)
qed

lemma sched_in:
  assumes "sched_ok threads Q pq"
  shows "t \<in> set (by_priority Q k c) \<longleftrightarrow> belongs (threads t) k (th_priority (threads t)) c"
proof -
  have pq: "pq_ok Q pq" using assms by (simp add: sched_ok_def)
  show ?thesis using assms unfolding set_by_priority [OF pq] by (auto simp: sched_ok_def belongs_def)
qed

lemma sorted_map_const: "(\<And>x. x \<in> set xs \<Longrightarrow> f x = n) \<Longrightarrow> sorted (map f xs)" for n :: nat
  by (induction xs) auto

lemma sorted_by_priority:
  assumes "sched_ok threads Q pq"
  shows "sorted (map (\<lambda>t. th_priority (threads t)) (by_priority Q k c))"
proof -
  have at: "th_priority (threads x) = p" if "x \<in> set (Q k p c)" for x p
    using assms that by (simp add: sched_ok_def belongs_def)
  have "sorted (map (\<lambda>t. th_priority (threads t)) (concat (map (\<lambda>p. Q k p c) [0..<n])))" for n
  proof (induction n)
    case (Suc n)
    have "sorted (map (\<lambda>t. th_priority (threads t)) (Q k n c))"
      using at by (intro sorted_map_const [of _ _ n])
    then show ?case using Suc at by (auto simp: sorted_append) 
  qed simp
  then show ?thesis by (simp add: by_priority_def)
qed

end
