(* ===== verification/Scheduler_Laws.thy ===== *)
theory Scheduler_Laws
  imports Priority_Queue_Laws KScheduler
begin

text \<open>
  The operations of the scheduler that change the queues: they end, and keep the invariant that the
  queues hold the runnable threads where their priority, active core and affinity mask say. The loops
  over queues are instances of one locale, by which a walk follows a list.
\<close>

section \<open>Walks\<close>

fun visit_all :: "(nat \<Rightarrow> 's \<Rightarrow> 's + 'r) \<Rightarrow> nat list \<Rightarrow> 's \<Rightarrow> 's + 'r" where
  "visit_all visit [] s = Inl s"
| "visit_all visit (t # ts) s = (case visit t s of Inl s' \<Rightarrow> visit_all visit ts s' | Inr r \<Rightarrow> Inr r)"

text \<open>
  What the loops of the scheduler rely on: the first thread and the successor of a thread follow a
  list. A walk then ends, and visits the list in order.
\<close>

locale thread_walk =
  fixes ok :: "'a \<Rightarrow> bool" and first :: "'a \<Rightarrow> nat option" and succ :: "'a \<Rightarrow> nat \<Rightarrow> nat option"
    and order :: "'a \<Rightarrow> nat list"
  assumes first: "ok a \<Longrightarrow> first a = front_or (order a) None"
    and succ: "ok a \<Longrightarrow> order a = us @ t # vs \<Longrightarrow> succ a t = front_or vs None"
begin

lemma walk_from: "ok a \<Longrightarrow> order a = us @ ts \<Longrightarrow> queue_walk (succ a) visit (front_or ts None) s = Some (visit_all visit ts s)"
proof (induction ts arbitrary: us s)
  case Nil
  then show ?case by (simp add: queue_walk.simps)
next
  case (Cons t ts)
  show ?case
  proof (cases "visit t s")
    case (Inl s')
    moreover have "succ a t = front_or ts None" using succ [OF Cons.prems] .
    moreover have "queue_walk (succ a) visit (front_or ts None) s' = Some (visit_all visit ts s')"
      using Cons.IH [OF Cons.prems(1), of "us @ [t]"] Cons.prems(2) by simp
    ultimately show ?thesis by (subst queue_walk.simps) simp
  next
    case (Inr r)
    then show ?thesis by (subst queue_walk.simps) simp
  qed
qed

lemma walk_order: "ok a \<Longrightarrow> queue_walk (succ a) visit (first a) s = Some (visit_all visit (order a) s)"
  using walk_from [of a "[]" "order a"] first by simp

end

text \<open>The three walks of the scheduler: over a core, a table of threads, and the queues.\<close>

type_synonym queue_state = "nat \<times> (nat \<Rightarrow> KThread) \<times> queues \<times> KPriorityQueue"

definition walk_ok :: "queue_state \<Rightarrow> bool" where
  "walk_ok = (\<lambda>(c, threads, Q, pq). sched_ok threads Q pq \<and> c < NumCores)"

interpretation suggested: thread_walk walk_ok
  "\<lambda>(c, threads, Q, pq). GetSuggestedFront c pq"
  "\<lambda>(c, threads, Q, pq) t. GetSuggestedNext threads c t pq"
  "\<lambda>(c, threads, Q, pq). by_priority Q False c"
  using sched_next [where k = False] by unfold_locales (auto simp: walk_ok_def sched_front)

interpretation scheduled: thread_walk walk_ok
  "\<lambda>(c, threads, Q, pq). GetScheduledFront c pq"
  "\<lambda>(c, threads, Q, pq) t. GetScheduledNext threads c t pq"
  "\<lambda>(c, threads, Q, pq). by_priority Q True c"
  using sched_next [where k = True] by unfold_locales (auto simp: walk_ok_def sched_front)

interpretation same_priority: thread_walk "\<lambda>(p, a). walk_ok a"
  "\<lambda>(p, c, threads, Q, pq). GetSuggestedFront_at c p pq"
  "\<lambda>(p, c, threads, Q, pq) t. GetSamePriorityNext c t pq"
  "\<lambda>(p, c, threads, Q, pq). Q False p c"
  by unfold_locales (auto simp: walk_ok_def sched_front sched_ok_def intro: GetSamePriorityNext_lists)

lemma walk_suggested:
  assumes "sched_ok threads Q pq" "c < NumCores"
  shows "queue_walk (\<lambda>t. GetSuggestedNext threads c t pq) visit (GetSuggestedFront c pq) s = Some (visit_all visit (by_priority Q False c) s)"
  using suggested.walk_order [of "(c, threads, Q, pq)" visit s] assms by (simp add: walk_ok_def)

lemma walk_same_priority:
  assumes "sched_ok threads Q pq" "c < NumCores"
  shows "queue_walk (\<lambda>t. GetSamePriorityNext c t pq) visit (GetSuggestedFront_at c p pq) s = Some (visit_all visit (Q False p c) s)"
  using same_priority.walk_order [of "(p, c, threads, Q, pq)" visit s] assms by (simp add: walk_ok_def)

lemma visit_all_Inr: "visit_all visit ts s = Inr r \<Longrightarrow> \<exists>t\<in>set ts. \<exists>s'. visit t s' = Inr r"
  by (induction ts arbitrary: s) (auto split: sum.splits)

section \<open>The invariant\<close>

lemma spots_mask:
  assumes "thread_ok th"
  shows "spots (th_core_id th) (th_physical_affinity_mask th) = {c. bit (th_physical_affinity_mask th) c}"
proof -
  have "bit (th_physical_affinity_mask th) c" if "int c = th_core_id th" for c
    using assms that by (metis nat_int of_nat_0_le_iff thread_ok_def)
  then show ?thesis by (auto simp: spots_def)
qed

lemma mask_bound: "thread_ok th \<Longrightarrow> bit (th_physical_affinity_mask th) c \<Longrightarrow> c < NumCores"
  by (auto simp: thread_ok_def spots_ok_def spots_def)

text \<open>What the scheduler's queues depend on in a thread.\<close>

definition sched_view :: "KThread \<Rightarrow> bool \<times> nat \<times> int \<times> u64 \<times> u16" where
  "sched_view th = (IsDummyThread th, th_priority th, th_core_id th, th_physical_affinity_mask th, th_thread_state th)"

lemma sched_view_eq:
  "sched_view th' = sched_view th \<Longrightarrow> thread_ok th' = thread_ok th \<and> belongs th' k p c = belongs th k p c"
  by (auto simp: sched_view_def thread_ok_def belongs_def)

text \<open>
  The masks of a thread: the one it has, and the one it gets back when it is unpinned. Masks are not
  empty, hold only cores that exist, and hold the ideal core if there is one.
\<close>

definition mask_wf :: "int \<Rightarrow> u64 \<Rightarrow> bool" where
  "mask_wf ideal m \<longleftrightarrow> m \<noteq> 0 \<and> (\<forall>c. bit m c \<longrightarrow> c < NumCores) \<and> (ideal \<ge> 0 \<longrightarrow> bit m (nat ideal))"

definition pin_view :: "KThread \<Rightarrow> nat option \<times> int \<times> u64 \<times> int \<times> u64 \<times> int" where
  "pin_view th =
     (th_parent th, th_physical_ideal_core_id th, th_physical_affinity_mask th, th_original_physical_ideal_core_id th,
      th_original_physical_affinity_mask th, th_num_core_migration_disables th)"

definition masks_ok :: "nat option \<times> int \<times> u64 \<times> int \<times> u64 \<times> int \<Rightarrow> bool" where
  "masks_ok = (\<lambda>(_, ideal, m, original_ideal, original_m, disables).
     mask_wf ideal m \<and> (disables \<noteq> 0 \<longrightarrow> mask_wf original_ideal original_m))"

text \<open>A pinned thread belongs to the process, is bound to its core, and its migration is disabled.\<close>

definition pinned_ok :: "kernel \<Rightarrow> bool" where
  "pinned_ok ks \<longleftrightarrow>
     (\<forall>t. masks_ok (pin_view (ks_threads ks t))) \<and>
     (\<forall>p c t. c < NumCores \<longrightarrow> pr_pinned_threads (ks_processes ks p) c = Some t \<longrightarrow>
        th_parent (ks_threads ks t) = Some p \<and>
        th_physical_affinity_mask (ks_threads ks t) = GetCoreBit c \<and> th_num_core_migration_disables (ks_threads ks t) \<noteq> 0)"

definition queues_ok :: "queues \<Rightarrow> kernel \<Rightarrow> bool" where
  "queues_ok Q ks \<longleftrightarrow>
     sched_ok (ks_threads ks) Q (ks_priority_queue ks) \<and> (\<forall>c<NumCores. sc_core_id (ks_schedulers ks c) = c)"

definition kernel_ok :: "queues \<Rightarrow> kernel \<Rightarrow> bool" where
  "kernel_ok Q ks \<longleftrightarrow> queues_ok Q ks \<and> pinned_ok ks"

lemmas kernel_defs = kernel_ok_def queues_ok_def

text \<open>Two states that differ in nothing the choice of threads depends on.\<close>

definition same_view :: "kernel \<Rightarrow> kernel \<Rightarrow> bool" where
  "same_view ks ks' \<longleftrightarrow>
     (\<forall>t. sched_view (ks_threads ks' t) = sched_view (ks_threads ks t) \<and>
        pin_view (ks_threads ks' t) = pin_view (ks_threads ks t) \<and>
        th_num_kernel_waiters (ks_threads ks' t) = th_num_kernel_waiters (ks_threads ks t)) \<and>
     ks_priority_queue ks' = ks_priority_queue ks \<and>
     (\<forall>c. sc_core_id (ks_schedulers ks' c) = sc_core_id (ks_schedulers ks c)) \<and>
     (\<forall>p. pr_pinned_threads (ks_processes ks' p) = pr_pinned_threads (ks_processes ks p))"

lemma same_view_refl [simp]: "same_view ks ks"
  by (simp add: same_view_def)

lemma same_view_trans: "same_view a b \<Longrightarrow> same_view b c \<Longrightarrow> same_view a c"
  by (simp add: same_view_def)

lemma same_view_sched:
  assumes "same_view ks ks'"
  shows "sched_ok (ks_threads ks') Q (ks_priority_queue ks') \<longleftrightarrow> sched_ok (ks_threads ks) Q (ks_priority_queue ks)"
proof -
  have "sched_view (ks_threads ks' t) = sched_view (ks_threads ks t)" for t using assms by (simp add: same_view_def)
  note v = sched_view_eq [OF this]
  have "thread_ok (ks_threads ks' t) = thread_ok (ks_threads ks t)"
    "belongs (ks_threads ks' t) k p c = belongs (ks_threads ks t) k p c" for t k p c
    using v by blast+
  then show ?thesis using assms by (simp add: same_view_def sched_ok_def)
qed

lemma same_view_queues: "same_view ks ks' \<Longrightarrow> queues_ok Q ks' \<longleftrightarrow> queues_ok Q ks"
  using same_view_sched [of ks ks' Q] by (simp add: queues_ok_def same_view_def)

lemma same_view_ok: "same_view ks ks' \<Longrightarrow> kernel_ok Q ks' \<longleftrightarrow> kernel_ok Q ks"
  using same_view_queues [of ks ks' Q] by (simp add: kernel_ok_def same_view_def pinned_ok_def pin_view_def)

definition highest :: "kernel \<Rightarrow> nat \<Rightarrow> nat option" where
  "highest ks c = sc_highest_priority_thread (ks_schedulers ks c)"

lemma same_view_simple [simp]:
  "same_view ks (SetSchedulerUpdateNeeded ks') \<longleftrightarrow> same_view ks ks'"
  "same_view ks (ClearSchedulerUpdateNeeded ks') \<longleftrightarrow> same_view ks ks'"
  "same_view ks (IncrementScheduledCount t ks') \<longleftrightarrow> same_view ks ks'"
  "same_view ks (SetYieldScheduleCount t ks') \<longleftrightarrow> same_view ks ks'"
  "same_view ks (RegisterDummyThreadForWakeup t ks') \<longleftrightarrow> same_view ks ks'"
  "same_view ks (UnregisterDummyThreadForWakeup t ks') \<longleftrightarrow> same_view ks ks'"
  "same_view ks (RequestDummyThreadWait t ks') \<longleftrightarrow> same_view ks ks'"
  "same_view ks (DummyThreadEndWait t ks') \<longleftrightarrow> same_view ks ks'"
  by (auto simp: same_view_def sched_view_def pin_view_def IsDummyThread_def SetSchedulerUpdateNeeded_def ClearSchedulerUpdateNeeded_def
      IncrementScheduledCount_def SetYieldScheduleCount_def RegisterDummyThreadForWakeup_def Let_def
      UnregisterDummyThreadForWakeup_def RequestDummyThreadWait_def DummyThreadEndWait_def upd_thread_def upd_process_def
      split: option.split)

lemma highest_simple [simp]:
  "highest (SetSchedulerUpdateNeeded ks) = highest ks" "highest (ClearSchedulerUpdateNeeded ks) = highest ks"
  "highest (IncrementScheduledCount t ks) = highest ks" "highest (RequestDummyThreadWait t ks) = highest ks"
  "highest (DummyThreadEndWait t ks) = highest ks"
  by (simp_all add: fun_eq_iff highest_def SetSchedulerUpdateNeeded_def ClearSchedulerUpdateNeeded_def IncrementScheduledCount_def
      RequestDummyThreadWait_def DummyThreadEndWait_def upd_thread_def upd_process_def split: option.split)

section \<open>Changes of threads\<close>

lemma UpdateHighestPriorityThread_effect:
  "same_view ks (snd (UpdateHighestPriorityThread now c t ks))"
  "highest (snd (UpdateHighestPriorityThread now c t ks)) = (highest ks)(c := t)"
  "fst (UpdateHighestPriorityThread now c t ks) = (if highest ks c \<noteq> t then push_bit (sc_core_id (ks_schedulers ks c)) 1 else 0)"
  by (auto simp: UpdateHighestPriorityThread_def Let_def same_view_def sched_view_def pin_view_def IsDummyThread_def highest_def fun_eq_iff
      upd_scheduler_def upd_thread_def upd_process_def IncrementScheduledCount_def SetRunningThread_def split: option.split)

lemma queues_ok_changed:
  "queues_ok Q ks \<Longrightarrow> sched_ok ((ks_threads ks)(t := th)) Q' pq \<Longrightarrow>
    queues_ok Q' (ks\<lparr>ks_threads := (ks_threads ks)(t := th), ks_priority_queue := pq\<rparr>)"
  by (simp add: queues_ok_def)

lemma kernel_ok_changed:
  assumes "kernel_ok Q ks" "sched_ok ((ks_threads ks)(t := th)) Q' pq"
    "pin_view th = pin_view (ks_threads ks t)"
  shows "kernel_ok Q' (ks\<lparr>ks_threads := (ks_threads ks)(t := th), ks_priority_queue := pq\<rparr>)"
  using assms by (auto simp: kernel_defs pinned_ok_def pin_view_def)

lemma migrate_ok:
  assumes ok: "kernel_ok Q ks" and t: "th_thread_state (ks_threads ks t) = Runnable" "\<not> IsDummyThread (ks_threads ks t)"
    and core: "core \<ge> 0 \<Longrightarrow> bit (th_physical_affinity_mask (ks_threads ks t)) (nat core)"
  shows "kernel_ok (moved (priority_of ks t) t (th_core_id (ks_threads ks t)) core to_front Q) (migrate t core to_front ks)"
proof -
  have "sched_ok (ks_threads ks) Q (ks_priority_queue ks)" using ok by (simp add: kernel_defs)
  from ChangeCore_ok [OF this t refl, of core to_front] core
  have "sched_ok ((ks_threads ks)(t := (ks_threads ks t)\<lparr>th_core_id := core\<rparr>))
      (moved (priority_of ks t) t (th_core_id (ks_threads ks t)) core to_front Q)
      (ChangeCore (th_core_id (ks_threads ks t)) ((ks_threads ks t)\<lparr>th_core_id := core\<rparr>) t to_front (ks_priority_queue ks))"
    by (simp add: priority_of_def)
  from kernel_ok_changed [OF ok this] show ?thesis by (simp add: migrate_def Let_def upd_thread_def pin_view_def)
qed

lemma migrate_frame [simp]:
  "highest (migrate t core to_front ks) = highest ks"
  "th_core_id (ks_threads (migrate t core to_front ks) u) = (if u = t then core else th_core_id (ks_threads ks u))"
  "th_physical_affinity_mask (ks_threads (migrate t core to_front ks) u) = th_physical_affinity_mask (ks_threads ks u)"
  "th_priority (ks_threads (migrate t core to_front ks) u) = th_priority (ks_threads ks u)"
  "th_thread_state (ks_threads (migrate t core to_front ks) u) = th_thread_state (ks_threads ks u)"
  "IsDummyThread (ks_threads (migrate t core to_front ks) u) = IsDummyThread (ks_threads ks u)"
  "ks_processes (migrate t core to_front ks) = ks_processes ks"
  "priority_of (migrate t core to_front ks) = priority_of ks"
  by (simp_all add: fun_eq_iff migrate_def Let_def upd_thread_def highest_def IsDummyThread_def priority_of_def)

lemma queued_facts:
  assumes "kernel_ok Q ks" "t \<in> set (by_priority Q k c)"
  shows "th_thread_state (ks_threads ks t) = Runnable" "\<not> IsDummyThread (ks_threads ks t)"
    "bit (th_physical_affinity_mask (ks_threads ks t)) c" "k = (int c = th_core_id (ks_threads ks t))"
    "c < NumCores" "priority_of ks t \<le> LowestPriority"
proof -
  have s: "sched_ok (ks_threads ks) Q (ks_priority_queue ks)" using assms(1) by (simp add: kernel_defs)
  then have tk: "thread_ok (ks_threads ks t)" and b: "belongs (ks_threads ks t) k (th_priority (ks_threads ks t)) c"
    using sched_in [OF s] assms(2) by (simp_all add: sched_ok_def)
  from b show "th_thread_state (ks_threads ks t) = Runnable" "\<not> IsDummyThread (ks_threads ks t)"
    "k = (int c = th_core_id (ks_threads ks t))" "priority_of ks t \<le> LowestPriority"
    by (simp_all add: belongs_def priority_of_def)
  from b tk show "bit (th_physical_affinity_mask (ks_threads ks t)) c" "c < NumCores"
    using spots_mask [OF tk] mask_bound [OF tk] by (auto simp: belongs_def)
qed

lemma queued_iff:
  assumes "kernel_ok Q ks"
  shows "t \<in> set (by_priority Q k c) \<longleftrightarrow>
    th_thread_state (ks_threads ks t) = Runnable \<and> \<not> IsDummyThread (ks_threads ks t) \<and> priority_of ks t \<le> LowestPriority \<and>
    bit (th_physical_affinity_mask (ks_threads ks t)) c \<and> k = (int c = th_core_id (ks_threads ks t))"
proof -
  have s: "sched_ok (ks_threads ks) Q (ks_priority_queue ks)" using assms by (simp add: kernel_defs)
  then have "thread_ok (ks_threads ks t)" by (simp add: sched_ok_def)
  from spots_mask [OF this] show ?thesis using sched_in [OF s, of t k c] by (simp add: belongs_def priority_of_def)
qed

lemma OnThreadStateChanged_queues:
  assumes ok: "queues_ok Q ks" and ks': "ks' = upd_thread t (\<lambda>th. th\<lparr>th_thread_state := s\<rparr>) ks"
  obtains Q' where "queues_ok Q' (OnThreadStateChanged t (th_thread_state (ks_threads ks t)) ks')"
proof -
  let ?old = "th_thread_state (ks_threads ks t)" and ?th = "(ks_threads ks t)\<lparr>th_thread_state := s\<rparr>"
  have so: "sched_ok (ks_threads ks) Q (ks_priority_queue ks)" and tk: "thread_ok ?th"
    using ok by (auto simp: kernel_defs sched_ok_def thread_ok_def)
  have th: "ks_threads ks' t = ?th" "ks_threads ks' = (ks_threads ks)(t := ?th)" "ks_priority_queue ks' = ks_priority_queue ks"
    using ks' by (simp_all add: upd_thread_def)
  note pin = queues_ok_changed [OF ok, of t ?th]
  have d: "IsDummyThread ?th = IsDummyThread (ks_threads ks t)" by (simp add: IsDummyThread_def)
  consider "s = ?old" | "s \<noteq> ?old" "?old = Runnable" | "s \<noteq> ?old" "?old \<noteq> Runnable" "s = Runnable"
    | "s \<noteq> ?old" "?old \<noteq> Runnable" "s \<noteq> Runnable" by blast
  then show thesis
  proof cases
    case 1
    then have "ks_threads ks' = ks_threads ks" using th by auto
    then have "ks' = ks" using ks' by (simp add: upd_thread_def)
    then show thesis using 1 ok that by (simp add: OnThreadStateChanged_def)
  next
    case 2
    from pq_Remove_ok [OF so 2(2) tk] 2 d obtain Q' where
      "sched_ok ((ks_threads ks)(t := ?th)) Q' (pq_Remove ?th t (ks_priority_queue ks))" by fastforce
    from pin [OF this] ks' have k: "queues_ok Q' (ks'\<lparr>ks_priority_queue := pq_Remove ?th t (ks_priority_queue ks)\<rparr>)"
      by (simp add: upd_thread_def)
    have "same_view (ks'\<lparr>ks_priority_queue := pq_Remove ?th t (ks_priority_queue ks)\<rparr>) (OnThreadStateChanged t ?old ks')"
      using 2 by (simp add: OnThreadStateChanged_def th Let_def)
    from same_view_queues [OF this] k that show thesis by blast
  next
    case 3
    from pq_PushBack_ok [OF so 3(2) tk] 3 obtain Q' where
      "sched_ok ((ks_threads ks)(t := ?th)) Q' (pq_PushBack ?th t (ks_priority_queue ks))" by fastforce
    from pin [OF this] ks' have k: "queues_ok Q' (ks'\<lparr>ks_priority_queue := pq_PushBack ?th t (ks_priority_queue ks)\<rparr>)"
      by (simp add: upd_thread_def)
    have "same_view (ks'\<lparr>ks_priority_queue := pq_PushBack ?th t (ks_priority_queue ks)\<rparr>) (OnThreadStateChanged t ?old ks')"
      using 3 by (simp add: OnThreadStateChanged_def th Let_def)
    from same_view_queues [OF this] k that show thesis by blast
  next
    case 4
    then have "sched_ok ((ks_threads ks)(t := ?th)) Q (ks_priority_queue ks)"
      using so tk by (auto simp: sched_ok_def belongs_def)
    from pin [OF this] ks' have "queues_ok Q ks'" by (simp add: upd_thread_def)
    then show thesis using 4 that by (auto simp: OnThreadStateChanged_def th Let_def)
  qed
qed

lemma OnThreadPriorityChanged_queues:
  assumes ok: "queues_ok Q ks" and ks': "ks' = upd_thread t (\<lambda>th. th\<lparr>th_priority := p\<rparr>) ks"
  obtains Q' where "queues_ok Q' (OnThreadPriorityChanged cur t (th_priority (ks_threads ks t)) ks')"
proof -
  let ?old = "th_priority (ks_threads ks t)" and ?th = "(ks_threads ks t)\<lparr>th_priority := p\<rparr>"
  have so: "sched_ok (ks_threads ks) Q (ks_priority_queue ks)" and tk: "thread_ok ?th"
    using ok by (auto simp: kernel_defs sched_ok_def thread_ok_def)
  have th: "ks_threads ks' t = ?th" "ks_priority_queue ks' = ks_priority_queue ks"
    using ks' by (simp_all add: upd_thread_def)
  note pin = queues_ok_changed [OF ok, of t ?th]
  show thesis
  proof (cases "th_thread_state (ks_threads ks t) = Runnable")
    case True
    let ?pq = "ChangePriority ?old (t = cur) ?th t (ks_priority_queue ks)"
    from ChangePriority_ok [OF so True refl] obtain Q' where "sched_ok ((ks_threads ks)(t := ?th)) Q' ?pq" by blast
    from pin [OF this] ks' have k: "queues_ok Q' (ks'\<lparr>ks_priority_queue := ?pq\<rparr>)" by (simp add: upd_thread_def)
    have "same_view (ks'\<lparr>ks_priority_queue := ?pq\<rparr>) (OnThreadPriorityChanged cur t ?old ks')"
      using True by (simp add: OnThreadPriorityChanged_def th Let_def)
    from same_view_queues [OF this] k that show thesis by blast
  next
    case False
    then have "sched_ok ((ks_threads ks)(t := ?th)) Q (ks_priority_queue ks)"
      using so tk by (auto simp: sched_ok_def belongs_def)
    from pin [OF this] ks' have "queues_ok Q ks'" by (simp add: upd_thread_def)
    then show thesis using False that by (auto simp: OnThreadPriorityChanged_def th Let_def)
  qed
qed

lemma OnThreadAffinityMaskChanged_queues:
  assumes ok: "queues_ok Q ks" and ks': "ks' = upd_thread t f ks" and tk: "thread_ok (f (ks_threads ks t))"
    and f: "th_thread_state (f (ks_threads ks t)) = th_thread_state (ks_threads ks t)"
      "IsDummyThread (f (ks_threads ks t)) = IsDummyThread (ks_threads ks t)"
      "th_priority (f (ks_threads ks t)) = th_priority (ks_threads ks t)"
  obtains Q' where "queues_ok Q' (OnThreadAffinityMaskChanged t (th_physical_affinity_mask (ks_threads ks t))
    (th_core_id (ks_threads ks t)) ks')"
proof -
  let ?th = "f (ks_threads ks t)" and ?m = "th_physical_affinity_mask (ks_threads ks t)" and ?c = "th_core_id (ks_threads ks t)"
  have so: "sched_ok (ks_threads ks) Q (ks_priority_queue ks)" using ok by (simp add: kernel_defs)
  have th: "ks_threads ks' t = ?th" "ks_priority_queue ks' = ks_priority_queue ks" "ks_schedulers ks' = ks_schedulers ks"
    "ks_threads ks' = (ks_threads ks)(t := ?th)"
    using ks' by (simp_all add: upd_thread_def)
  show thesis
  proof (cases "th_thread_state (ks_threads ks t) = Runnable")
    case True
    let ?pq = "ChangeAffinityMask ?c ?m ?th t (ks_priority_queue ks)"
    from ChangeAffinityMask_ok [OF so True tk _ f(2,3)] True f obtain Q' where
      "sched_ok ((ks_threads ks)(t := ?th)) Q' ?pq" by fastforce
    with ok have k: "queues_ok Q' (ks'\<lparr>ks_priority_queue := ?pq\<rparr>)" by (simp add: kernel_defs pinned_ok_def th)
    have "same_view (ks'\<lparr>ks_priority_queue := ?pq\<rparr>) (OnThreadAffinityMaskChanged t ?m ?c ks')"
      using True f by (simp add: OnThreadAffinityMaskChanged_def th Let_def)
    from same_view_queues [OF this] k that show thesis by blast
  next
    case False
    then have "sched_ok ((ks_threads ks)(t := ?th)) Q (ks_priority_queue ks)"
      using so tk f by (auto simp: sched_ok_def belongs_def)
    with ok have "queues_ok Q ks'" by (simp add: kernel_defs th)
    then show thesis using False f that by (auto simp: OnThreadAffinityMaskChanged_def th Let_def)
  qed
qed

text \<open>These operations leave the pinned threads and the affinity masks alone.\<close>

lemma pinned_ok_changed:
  "pinned_ok (OnThreadStateChanged t s ks) \<longleftrightarrow> pinned_ok ks"
  "pinned_ok (OnThreadPriorityChanged cur t p ks) \<longleftrightarrow> pinned_ok ks"
  "pinned_ok (OnThreadAffinityMaskChanged t m c ks) \<longleftrightarrow> pinned_ok ks"
  by (auto simp: pinned_ok_def OnThreadStateChanged_def OnThreadPriorityChanged_def OnThreadAffinityMaskChanged_def Let_def
      SetSchedulerUpdateNeeded_def IncrementScheduledCount_def RegisterDummyThreadForWakeup_def UnregisterDummyThreadForWakeup_def
      upd_process_def split: option.splits if_splits)

section \<open>Rotation and yielding\<close>

lemma visit_rotation_found: "visit_rotation ks a b t u = Inr (Some s) \<Longrightarrow> s = t"
  by (auto simp: visit_rotation_def Let_def split: if_splits)

lemma visit_better_found: "visit_better ks b t u = Inr (Some s) \<Longrightarrow> s = t"
  by (auto simp: visit_better_def Let_def split: if_splits)

lemma migrate_suggested_ok:
  assumes "kernel_ok Q ks" "t \<in> set (by_priority Q False c)"
  shows "kernel_ok (moved (priority_of ks t) t (th_core_id (ks_threads ks t)) (int c) to_front Q) (migrate t (int c) to_front ks)"
  using migrate_ok [OF assms(1), of t "int c"] queued_facts [OF assms] by simp

lemma migrate_found_ok:
  assumes ok: "kernel_ok Q ks" and r: "\<And>t. r = Inr (Some t) \<Longrightarrow> t \<in> set (by_priority Q False c)"
  shows "\<exists>Q'. kernel_ok Q' (migrate_found c r ks)"
proof (cases "\<exists>t. r = Inr (Some t)")
  case True
  then obtain t where t: "r = Inr (Some t)" by blast
  from migrate_suggested_ok [OF ok r [OF t], of True] t same_view_ok [OF same_view_simple(3) [THEN iffD2, OF same_view_refl]]
  show ?thesis by (auto simp: migrate_found_def)
next
  case False
  then have "migrate_found c r ks = ks" by (auto simp: migrate_found_def split: sum.split option.split)
  then show ?thesis using ok by auto
qed

lemma MoveToScheduledBack_kernel_ok:
  assumes ok: "kernel_ok Q ks" and t: "th_thread_state (ks_threads ks t) = Runnable" "\<not> IsDummyThread (ks_threads ks t)"
    and c: "th_core_id (ks_threads ks t) = int c"
  obtains Q' where "kernel_ok Q' (ks\<lparr>ks_priority_queue := snd (MoveToScheduledBack (ks_threads ks t) t (ks_priority_queue ks))\<rparr>)"
proof -
  have "sched_ok (ks_threads ks) Q (ks_priority_queue ks)" using ok by (simp add: kernel_defs)
  from MoveToScheduledBack_ok(1) [OF this t c refl] ok show thesis
    by (intro that) (simp add: kernel_defs pinned_ok_def)
qed

lemma in_by_priority: "pq_ok Q pq \<Longrightarrow> t \<in> set (Q k p c) \<Longrightarrow> t \<in> set (by_priority Q k c)"
  by (auto simp: set_by_priority)

lemma rotate_front_ok:
  assumes ok: "kernel_ok Q ks" and c: "c < NumCores"
  obtains Q' where "kernel_ok Q' (snd (snd (rotate_front c p ks)))"
proof (cases "GetScheduledFront_at c p (ks_priority_queue ks)")
  case None
  then show thesis using ok that by (simp add: rotate_front_def)
next
  case (Some t)
  have so: "sched_ok (ks_threads ks) Q (ks_priority_queue ks)" using ok by (simp add: kernel_defs)
  have "t \<in> set (Q True p c)" using Some sched_front(3) [OF so c] front_or_Some_in by metis
  then have "t \<in> set (by_priority Q True c)" using so by (auto simp: sched_ok_def intro: in_by_priority)
  note t = queued_facts [OF ok this]
  obtain Q' where k: "kernel_ok Q' (ks\<lparr>ks_priority_queue := snd (MoveToScheduledBack (ks_threads ks t) t (ks_priority_queue ks))\<rparr>)"
    using MoveToScheduledBack_kernel_ok [OF ok t(1,2), of c] t(4) by auto
  have "same_view (ks\<lparr>ks_priority_queue := snd (MoveToScheduledBack (ks_threads ks t) t (ks_priority_queue ks))\<rparr>)
    (snd (snd (rotate_front c p ks)))"
    using Some by (auto simp: rotate_front_def Let_def split_beta split: option.split)
  from same_view_ok [OF this] k that show thesis by blast
qed

theorem RotateScheduledQueue_ok:
  assumes ok: "kernel_ok Q ks" and c: "c < NumCores"
  obtains ks' Q' where "RotateScheduledQueue cur c p ks = Some ks'" "kernel_ok Q' ks'"
proof -
  obtain a b ks1 where r: "rotate_front c p ks = (a, b, ks1)" by (cases "rotate_front c p ks")
  obtain Q1 where k1: "kernel_ok Q1 ks1" using rotate_front_ok [OF ok c, of p] r by auto
  have so1: "sched_ok (ks_threads ks1) Q1 (ks_priority_queue ks1)" using k1 by (simp add: kernel_defs)
  then have pq1: "pq_ok Q1 (ks_priority_queue ks1)" by (simp add: sched_ok_def)
  let ?r1 = "visit_all (visit_rotation ks1 a b) (Q1 False p c) ()"
  have f1: "t \<in> set (by_priority Q1 False c)" if "?r1 = Inr (Some t)" for t
    using visit_all_Inr [OF that] visit_rotation_found in_by_priority [OF pq1] by blast
  define ks2 where "ks2 = migrate_found c ?r1 ks1"
  obtain Q2 where k2: "kernel_ok Q2 ks2" using migrate_found_ok [OF k1 f1] by (auto simp: ks2_def)
  have so2: "sched_ok (ks_threads ks2) Q2 (ks_priority_queue ks2)" using k2 by (simp add: kernel_defs)
  let ?best = "case GetScheduledFront c (ks_priority_queue ks2) of None \<Rightarrow> None
    | Some t \<Rightarrow> if t = cur then GetScheduledNext (ks_threads ks2) c t (ks_priority_queue ks2) else Some t"
  define ks3 where "ks3 = (case ?best of None \<Rightarrow> ks2
    | Some best \<Rightarrow> if priority_of ks2 best \<ge> p
        then migrate_found c (visit_all (visit_better ks2 best) (by_priority Q2 False c) ()) ks2 else ks2)"
  have f2: "t \<in> set (by_priority Q2 False c)" if "visit_all (visit_better ks2 best) (by_priority Q2 False c) () = Inr (Some t)" for t best
    using visit_all_Inr [OF that] visit_better_found by auto
  have "\<exists>Q3. kernel_ok Q3 ks3"
  proof -
    have "\<exists>Q3. kernel_ok Q3 (migrate_found c (visit_all (visit_better ks2 best) (by_priority Q2 False c) ()) ks2)" for best
      by (rule migrate_found_ok [OF k2 f2])
    with k2 show ?thesis by (auto simp: ks3_def split: option.split)
  qed
  then obtain Q3 where k3: "kernel_ok Q3 (SetSchedulerUpdateNeeded ks3)"
    using same_view_ok [OF same_view_simple(1) [THEN iffD2, OF same_view_refl]] by blast
  have "RotateScheduledQueue cur c p ks = Some (SetSchedulerUpdateNeeded ks3)"
    by (simp add: RotateScheduledQueue_def r walk_same_priority [OF so1 c] walk_suggested [OF so2 c] ks2_def [symmetric] Let_def
        ks3_def split: option.split)
  with k3 that show thesis by blast
qed

theorem PreemptThreads_ok:
  assumes ok: "kernel_ok Q ks"
  obtains ks' Q' where "PreemptThreads cur ks = Some ks'" "kernel_ok Q' ks'"
proof -
  have "\<exists>ks' Q'. preempt_cores cur c ps ks = Some ks' \<and> kernel_ok Q' ks'" if "kernel_ok Q ks" "c + length ps \<le> NumCores" for c ps Q ks
    using that
  proof (induction ps arbitrary: c Q ks)
    case (Cons p ps)
    have "c < NumCores" using Cons.prems by simp
    from RotateScheduledQueue_ok [OF Cons.prems(1) this] obtain ks1 Q1 where
      "RotateScheduledQueue cur c p ks = Some ks1" "kernel_ok Q1 ks1" by metis
    with Cons.IH [of Q1 ks1 "c + 1"] Cons.prems(2) show ?case by simp
  qed auto
  from this [OF ok, of 0 preemption_priorities] that show thesis
    by (auto simp: PreemptThreads_def preemption_priorities_def NumCores_def)
qed

lemma yield_back_ok:
  assumes ok: "kernel_ok Q ks" and t: "th_thread_state (ks_threads ks t) = Runnable" "\<not> IsDummyThread (ks_threads ks t)"
    and c: "th_core_id (ks_threads ks t) \<ge> 0"
  obtains Q' where "kernel_ok Q' (snd (yield_back t ks))"
proof -
  let ?ks = "ks\<lparr>ks_priority_queue := snd (MoveToScheduledBack (ks_threads ks t) t (ks_priority_queue ks))\<rparr>"
  obtain Q' where k: "kernel_ok Q' ?ks"
    using MoveToScheduledBack_kernel_ok [OF ok t, of "nat (th_core_id (ks_threads ks t))"] c by auto
  have "same_view ?ks (snd (yield_back t ks))" by (simp add: yield_back_def split_beta)
  from same_view_ok [OF this] k that show thesis by blast
qed

theorem YieldWithoutCoreMigration_ok:
  assumes ok: "kernel_ok Q ks" and t: "\<not> IsDummyThread (ks_threads ks cur)" "th_core_id (ks_threads ks cur) \<ge> 0"
  obtains Q' where "kernel_ok Q' (YieldWithoutCoreMigration cur ks)"
proof (cases "th_thread_state (ks_threads ks cur) = Runnable")
  case True
  obtain Q' where k: "kernel_ok Q' (snd (yield_back cur ks))" using yield_back_ok [OF ok True t] .
  have "same_view ks (YieldWithoutCoreMigration cur ks) \<or> same_view (snd (yield_back cur ks)) (YieldWithoutCoreMigration cur ks)"
    using True by (simp add: YieldWithoutCoreMigration_def Let_def split_beta)
  then show thesis using same_view_ok k ok that by blast
next
  case False
  then show thesis using ok that by (simp add: YieldWithoutCoreMigration_def Let_def)
qed

lemma visit_yield_found: "visit_yield ks cur n t b = Inr (Some s, b') \<Longrightarrow> s = t"
  by (auto simp: visit_yield_def Let_def split: if_splits)

theorem YieldWithCoreMigration_ok:
  assumes ok: "kernel_ok Q ks" and t: "\<not> IsDummyThread (ks_threads ks cur)" "th_core_id (ks_threads ks cur) \<ge> 0"
  obtains ks' Q' where "YieldWithCoreMigration cur ks = Some ks'" "kernel_ok Q' ks'"
proof (cases "th_thread_state (ks_threads ks cur) = Runnable \<and> th_schedule_count (ks_threads ks cur) \<noteq> scheduled_count ks cur")
  case True
  let ?c = "nat (th_core_id (ks_threads ks cur))"
  obtain n ks1 where y: "yield_back cur ks = (n, ks1)" by fastforce
  obtain Q1 where k1: "kernel_ok Q1 ks1" using yield_back_ok [OF ok _ t] True y by auto
  have so1: "sched_ok (ks_threads ks1) Q1 (ks_priority_queue ks1)" using k1 by (simp add: kernel_defs)
  have "thread_ok (ks_threads ks cur)" using ok by (simp add: kernel_defs sched_ok_def)
  then have c: "?c < NumCores" using t(2) mask_bound by (auto simp: thread_ok_def)
  define v where "v = visit_all (visit_yield ks1 cur n) (by_priority Q1 False ?c) False"
  have w: "queue_walk (\<lambda>t. GetSuggestedNext (ks_threads ks1) ?c t (ks_priority_queue ks1)) (visit_yield ks1 cur n)
    (GetSuggestedFront ?c (ks_priority_queue ks1)) False = Some v"
    unfolding v_def by (rule walk_suggested [OF so1 c])
  define r where "r = (case v of Inl b \<Rightarrow> (None, b) | Inr x \<Rightarrow> x)"
  define ks2 where "ks2 = (case fst r of None \<Rightarrow> ks1 | Some s \<Rightarrow> IncrementScheduledCount s (migrate s (int ?c) True ks1))"
  have "\<exists>Q2. kernel_ok Q2 ks2"
  proof (cases "fst r")
    case None
    then show ?thesis using k1 ks2_def by auto
  next
    case (Some s)
    then have "visit_all (visit_yield ks1 cur n) (by_priority Q1 False ?c) False = Inr (Some s, snd r)"
      by (cases r) (auto simp: r_def v_def split: sum.splits)
    from visit_all_Inr [OF this] visit_yield_found have "s \<in> set (by_priority Q1 False ?c)" by blast
    from migrate_suggested_ok [OF k1 this] Some show ?thesis
      using same_view_ok [OF same_view_simple(3) [THEN iffD2, OF same_view_refl]] by (fastforce simp: ks2_def)
  qed
  then obtain Q2 where k2: "kernel_ok Q2 ks2" ..
  let ?ks3 = "if fst r \<noteq> None \<or> n \<noteq> Some cur then SetSchedulerUpdateNeeded ks2
    else if \<not> snd r then SetYieldScheduleCount cur ks2 else ks2"
  have "YieldWithCoreMigration cur ks = Some ?ks3"
    using True by (simp add: YieldWithCoreMigration_def Let_def y w r_def [symmetric] ks2_def split_beta)
  moreover have "same_view ks2 ?ks3" by simp
  ultimately show thesis using same_view_ok k2 that by blast
next
  case False
  then show thesis using ok that by (auto simp: YieldWithCoreMigration_def Let_def)
qed

lemma visit_any_found: "visit_any ks t u = Inr (s, b) \<Longrightarrow> s = t"
  by (auto simp: visit_any_def Let_def split: if_splits)

theorem YieldToAnyThread_ok:
  assumes ok: "kernel_ok Q ks" and t: "\<not> IsDummyThread (ks_threads ks cur)" "th_core_id (ks_threads ks cur) \<ge> 0"
  obtains ks' Q' where "YieldToAnyThread cur ks = Some ks'" "kernel_ok Q' ks'"
proof (cases "th_thread_state (ks_threads ks cur) = Runnable \<and> th_schedule_count (ks_threads ks cur) \<noteq> scheduled_count ks cur")
  case True
  let ?c = "nat (th_core_id (ks_threads ks cur))"
  define ks1 where "ks1 = IncrementScheduledCount cur (migrate cur (- 1) False ks)"
  obtain Q1 where k1: "kernel_ok Q1 ks1"
    using migrate_ok [OF ok _ t(1), of "- 1" False] True same_view_ok [OF same_view_simple(3) [THEN iffD2, OF same_view_refl]]
    by (auto simp: ks1_def)
  have so1: "sched_ok (ks_threads ks1) Q1 (ks_priority_queue ks1)" using k1 by (simp add: kernel_defs)
  have "thread_ok (ks_threads ks cur)" using ok by (simp add: kernel_defs sched_ok_def)
  then have c: "?c < NumCores" using t(2) mask_bound by (auto simp: thread_ok_def)
  show thesis
  proof (cases "GetScheduledFront ?c (ks_priority_queue ks1) = None")
    case None: True
    define r where "r = visit_all (visit_any ks1) (by_priority Q1 False ?c) ()"
    define ks2 where "ks2 = (case r of Inr (s, True) \<Rightarrow> IncrementScheduledCount s (migrate s (int ?c) False ks1) | _ \<Rightarrow> ks1)"
    have "\<exists>Q2. kernel_ok Q2 ks2"
    proof (cases "\<exists>s. r = Inr (s, True)")
      case True
      then obtain s where s: "r = Inr (s, True)" by blast
      then have "s \<in> set (by_priority Q1 False ?c)" using visit_all_Inr [of "visit_any ks1"] visit_any_found unfolding r_def by blast
      from migrate_suggested_ok [OF k1 this] s show ?thesis
        using same_view_ok [OF same_view_simple(3) [THEN iffD2, OF same_view_refl]] by (fastforce simp: ks2_def)
    next
      case False
      then have "ks2 = ks1" by (auto simp: ks2_def split: sum.split bool.split)
      then show ?thesis using k1 by auto
    qed
    then obtain Q2 where k2: "kernel_ok Q2 ks2" ..
    let ?ks3 = "if (case r of Inr (s, _) \<Rightarrow> s \<noteq> cur | Inl _ \<Rightarrow> True) then SetSchedulerUpdateNeeded ks2 else SetYieldScheduleCount cur ks2"
    have "YieldToAnyThread cur ks = Some ?ks3"
      using True None by (simp add: YieldToAnyThread_def Let_def ks1_def [symmetric] walk_suggested [OF so1 c] r_def [symmetric] ks2_def)
    moreover have "same_view ks2 ?ks3" by simp
    ultimately show thesis using same_view_ok k2 that by blast
  next
    case False
    then obtain y where "GetScheduledFront ?c (ks_priority_queue ks1) = Some y" by blast
    with True have "YieldToAnyThread cur ks = Some (SetSchedulerUpdateNeeded ks1)"
      by (simp add: YieldToAnyThread_def Let_def ks1_def [symmetric])
    moreover have "same_view ks1 (SetSchedulerUpdateNeeded ks1)" by simp
    ultimately show thesis using same_view_ok k1 that by blast
  qed
next
  case False
  then show thesis using ok that by (auto simp: YieldToAnyThread_def Let_def)
qed

end
