(* ===== verification/Scheduler_Choice.thy ===== *)
theory Scheduler_Choice
  imports Scheduler_Laws
begin

text \<open>
  The choice of the threads to run: both loops of \<open>UpdateHighestPriorityThreadsImpl\<close>. It ends, no
  thread is given to two cores, every core whose thread changes is noted, and, without pinned
  threads, each core is given the front of its queue and no core is left idle while a thread waits
  that could run on it.
\<close>

section \<open>The threads that are chosen\<close>

lemma set_top_effect:
  "same_view (ch_kernel ch) (ch_kernel (set_top now c t ch))"
  "highest (ch_kernel (set_top now c t ch)) = (highest (ch_kernel ch))(c := t)"
  "ch_top_threads (set_top now c t ch) = (ch_top_threads ch)(c := t)"
  "ch_idle_cores (set_top now c t ch) = ch_idle_cores ch"
  using UpdateHighestPriorityThread_effect(1,2) [where ks = "ch_kernel ch" and now = now and c = c and t = t]
  by (simp_all add: set_top_def split_beta)

text \<open>The thread for a core, before any migration.\<close>

definition pick :: "kernel \<Rightarrow> nat \<Rightarrow> nat option" where
  "pick ks c = (case GetScheduledFront c (ks_priority_queue ks) of None \<Rightarrow> None | Some t \<Rightarrow> prefer_pinned c t ks)"

lemma pick_same_view: "same_view ks ks' \<Longrightarrow> pick ks' c = pick ks c"
  by (auto simp: pick_def prefer_pinned_def same_view_def sched_view_def pin_view_def split: option.split)

lemma choose_top_effect:
  "same_view (ch_kernel ch) (ch_kernel (choose_top now c ch))"
  "highest (ch_kernel (choose_top now c ch)) = (highest (ch_kernel ch))(c := pick (ch_kernel ch) c)"
  "ch_top_threads (choose_top now c ch) = (ch_top_threads ch)(c := pick (ch_kernel ch) c)"
  "ch_idle_cores (choose_top now c ch) =
     (if GetScheduledFront c (ks_priority_queue (ch_kernel ch)) = None then ch_idle_cores ch OR push_bit c 1 else ch_idle_cores ch)"
  using set_top_effect(1) [of "ch\<lparr>ch_idle_cores := ch_idle_cores ch OR push_bit c 1\<rparr>" now c None]
  by (auto simp: choose_top_def pick_def set_top_effect split: option.split)

lemma choose_tops_effect:
  assumes "n \<le> NumCores" "ch_idle_cores ch = 0"
  shows "same_view (ch_kernel ch) (ch_kernel (fold (choose_top now) [0..<n] ch)) \<and>
    (\<forall>c<n. highest (ch_kernel (fold (choose_top now) [0..<n] ch)) c = pick (ch_kernel ch) c) \<and>
    (\<forall>c<n. ch_top_threads (fold (choose_top now) [0..<n] ch) c = pick (ch_kernel ch) c) \<and>
    (\<forall>c. bit (ch_idle_cores (fold (choose_top now) [0..<n] ch)) c \<longleftrightarrow>
       c < n \<and> GetScheduledFront c (ks_priority_queue (ch_kernel ch)) = None)"
  using assms(1)
proof (induction n)
  case 0
  then show ?case using assms(2) by simp
next
  case (Suc n)
  let ?ch = "fold (choose_top now) [0..<n] ch"
  have IH: "same_view (ch_kernel ch) (ch_kernel ?ch)"
    "\<And>c. c < n \<Longrightarrow> highest (ch_kernel ?ch) c = pick (ch_kernel ch) c"
    "\<And>c. c < n \<Longrightarrow> ch_top_threads ?ch c = pick (ch_kernel ch) c"
    "\<And>c. bit (ch_idle_cores ?ch) c \<longleftrightarrow> c < n \<and> GetScheduledFront c (ks_priority_queue (ch_kernel ch)) = None"
    using Suc by simp_all
  have n: "n < 64" using Suc.prems by (simp add: NumCores_def)
  have pq: "ks_priority_queue (ch_kernel ?ch) = ks_priority_queue (ch_kernel ch)" using IH(1) by (simp add: same_view_def)
  have b: "bit (push_bit n (1 :: u64)) c \<longleftrightarrow> c = n" for c using n by (auto simp: bit_simps)
  have "same_view (ch_kernel ch) (ch_kernel (choose_top now n ?ch))"
    by (rule same_view_trans [OF IH(1) choose_top_effect(1)])
  then show ?case using IH(2,3,4) pick_same_view [OF IH(1), of n] b
    by (auto simp: choose_top_effect(2,3,4) pq less_Suc_eq bit_or_iff)
qed

text \<open>What the first loop leaves and the second keeps.\<close>

definition assigned :: "choice \<Rightarrow> bool" where
  "assigned ch \<longleftrightarrow>
     (\<forall>c<NumCores. highest (ch_kernel ch) c = ch_top_threads ch c) \<and>
     (\<forall>c t. c < NumCores \<longrightarrow> ch_top_threads ch c = Some t \<longrightarrow>
        th_thread_state (ks_threads (ch_kernel ch) t) = Runnable \<and>
        (th_core_id (ks_threads (ch_kernel ch) t) = int c \<or>
         th_physical_affinity_mask (ks_threads (ch_kernel ch) t) = GetCoreBit c))"

definition idle_ok :: "queues \<Rightarrow> u64 \<Rightarrow> choice \<Rightarrow> bool" where
  "idle_ok Q idle ch \<longleftrightarrow> (\<forall>c. bit idle c \<longrightarrow> c < NumCores \<and> ch_top_threads ch c = None \<and> by_priority Q True c = [])"

lemma pick_assigned:
  assumes ok: "kernel_ok Q ks" and c: "c < NumCores" and p: "pick ks c = Some t"
  shows "th_thread_state (ks_threads ks t) = Runnable"
    "th_core_id (ks_threads ks t) = int c \<or> th_physical_affinity_mask (ks_threads ks t) = GetCoreBit c"
proof -
  have so: "sched_ok (ks_threads ks) Q (ks_priority_queue ks)" and pin: "pinned_ok ks" using ok by (simp_all add: kernel_defs)
  obtain f where f: "GetScheduledFront c (ks_priority_queue ks) = Some f" using p by (auto simp: pick_def split: option.splits)
  then have "f \<in> set (by_priority Q True c)" using sched_front(1) [OF so c] front_or_Some_in by metis
  from queued_facts [OF ok this] have ff: "th_thread_state (ks_threads ks f) = Runnable" "th_core_id (ks_threads ks f) = int c" by auto
  have "t = f \<or> (\<exists>pr. pr_pinned_threads (ks_processes ks pr) c = Some t \<and> th_thread_state (ks_threads ks t) = Runnable)"
    using p f by (auto simp: pick_def prefer_pinned_def split: option.splits if_splits)
  then show "th_thread_state (ks_threads ks t) = Runnable"
    "th_core_id (ks_threads ks t) = int c \<or> th_physical_affinity_mask (ks_threads ks t) = GetCoreBit c"
    using ff pin c by (auto simp: pinned_ok_def)
qed

section \<open>Filling an idle core\<close>

text \<open>What one round of the second loop can do.\<close>

definition move_thread :: "int \<Rightarrow> nat \<Rightarrow> nat \<Rightarrow> choice \<Rightarrow> choice" where
  "move_thread now c t ch = set_top now c (Some t) (ch\<lparr>ch_kernel := migrate t (int c) False (ch_kernel ch)\<rparr>)"

definition swap_thread :: "int \<Rightarrow> nat \<Rightarrow> nat \<Rightarrow> nat \<Rightarrow> nat \<Rightarrow> choice \<Rightarrow> choice" where
  "swap_thread now c e n t ch = move_thread now c t (set_top now e (Some n) ch)"

text \<open>The thread that runs on the active core of a thread.\<close>

definition top_for :: "choice \<Rightarrow> nat \<Rightarrow> nat option" where
  "top_for ch t =
     (let core = th_core_id (ks_threads (ch_kernel ch) t) in if core \<ge> 0 then ch_top_threads ch (nat core) else None)"

definition too_high :: "choice \<Rightarrow> bool" where
  "too_high ch \<longleftrightarrow> (\<exists>t u. top_for ch t = Some u \<and> priority_of (ch_kernel ch) u < HighestCoreMigrationAllowedPriority)"

lemma visit_suggested_goes_on:
  "visit_suggested ch t cs = Inl cs' \<longleftrightarrow>
     top_for ch t = Some t \<and> cs' = cs @ [nat (th_core_id (ks_threads (ch_kernel ch) t))]"
  by (auto simp: visit_suggested_def Let_def top_for_def)

lemma visit_suggested_Inl:
  "visit_all (visit_suggested ch) ts cs = Inl cs' \<Longrightarrow>
     cs' = cs @ map (\<lambda>t. nat (th_core_id (ks_threads (ch_kernel ch) t))) ts \<and> (\<forall>t\<in>set ts. top_for ch t = Some t)"
proof (induction ts arbitrary: cs)
  case (Cons t ts)
  from Cons.prems obtain cs1 where "visit_suggested ch t cs = Inl cs1" "visit_all (visit_suggested ch) ts cs1 = Inl cs'"
    by (auto split: sum.splits)
  with Cons.IH [of cs1] visit_suggested_goes_on [of ch t cs cs1] show ?case by simp
qed simp

lemma visit_suggested_Inr:
  "visit_suggested ch t cs = Inr r \<Longrightarrow> top_for ch t \<noteq> Some t \<and> (r = Some t \<or> r = None \<and> too_high ch)"
  by (fastforce simp: visit_suggested_def Let_def top_for_def too_high_def split: if_splits option.splits)

lemma try_candidates_cases:
  "try_candidates now c cs ch = ch \<and>
     (\<forall>e s. e \<in> set cs \<longrightarrow> ch_top_threads ch e = Some s \<longrightarrow>
        GetScheduledNext (ks_threads (ch_kernel ch)) e s (ks_priority_queue (ch_kernel ch)) = None) \<or>
   (\<exists>e s n. e \<in> set cs \<and> ch_top_threads ch e = Some s \<and>
      GetScheduledNext (ks_threads (ch_kernel ch)) e s (ks_priority_queue (ch_kernel ch)) = Some n \<and>
      try_candidates now c cs ch = swap_thread now c e n s ch)"
proof (induction cs)
  case (Cons e cs)
  show ?case
  proof (cases "ch_top_threads ch e")
    case None
    then show ?thesis using Cons by auto
  next
    case (Some s)
    show ?thesis
    proof (cases "GetScheduledNext (ks_threads (ch_kernel ch)) e s (ks_priority_queue (ch_kernel ch))")
      case None
      then show ?thesis using Some Cons by auto
    next
      case n: (Some n)
      have "try_candidates now c (e # cs) ch = swap_thread now c e n s ch"
        using Some n by (simp add: swap_thread_def move_thread_def Let_def)
      then show ?thesis using Some n by auto
    qed
  qed
qed simp

lemma fill_core_cases:
  assumes ok: "kernel_ok Q (ch_kernel ch)" and c: "c < NumCores"
  obtains (skip) "fill_core now c ch = Some ch"
      "\<forall>t\<in>set (by_priority Q False c). too_high ch \<or> top_for ch t = Some t \<and>
         (\<exists>us. by_priority Q True (nat (th_core_id (ks_threads (ch_kernel ch) t))) = us @ [t])"
  | (move) t where "fill_core now c ch = Some (move_thread now c t ch)" "t \<in> set (by_priority Q False c)" "top_for ch t \<noteq> Some t"
  | (swap) t e us n vs where "fill_core now c ch = Some (swap_thread now c e n t ch)" "t \<in> set (by_priority Q False c)"
      "th_core_id (ks_threads (ch_kernel ch) t) = int e" "ch_top_threads ch e = Some t" "by_priority Q True e = us @ t # n # vs"
proof -
  let ?ks = "ch_kernel ch"
  have so: "sched_ok (ks_threads ?ks) Q (ks_priority_queue ?ks)" using ok by (simp add: kernel_defs)
  have home: "th_core_id (ks_threads ?ks t) = int (nat (th_core_id (ks_threads ?ks t)))"
      "t \<in> set (by_priority Q True (nat (th_core_id (ks_threads ?ks t))))"
      "nat (th_core_id (ks_threads ?ks t)) < NumCores"
    if "t \<in> set (by_priority Q False c)" "top_for ch t = Some t" for t
  proof -
    show core: "th_core_id (ks_threads ?ks t) = int (nat (th_core_id (ks_threads ?ks t)))"
      using that(2) by (auto simp: top_for_def Let_def split: if_splits)
    have "thread_ok (ks_threads ?ks t)" using so by (simp add: sched_ok_def)
    then have "bit (th_physical_affinity_mask (ks_threads ?ks t)) (nat (th_core_id (ks_threads ?ks t)))"
      using core by (simp add: thread_ok_def)
    then show "t \<in> set (by_priority Q True (nat (th_core_id (ks_threads ?ks t))))"
      using queued_facts [OF ok that(1)] core by (simp add: queued_iff [OF ok])
    from queued_facts(5) [OF ok this] show "nat (th_core_id (ks_threads ?ks t)) < NumCores" .
  qed
  show thesis
  proof (cases "GetSuggestedFront c (ks_priority_queue ?ks)")
    case None
    then have "by_priority Q False c = []" using sched_front(2) [OF so c] by simp
    then show thesis using None by (intro skip) (simp_all add: fill_core_def)
  next
    case (Some f)
    let ?v = "visit_all (visit_suggested ch) (by_priority Q False c) []"
    have fc: "fill_core now c ch = Some (case ?v of Inl cs \<Rightarrow> try_candidates now c cs ch
        | Inr None \<Rightarrow> ch | Inr (Some t) \<Rightarrow> move_thread now c t ch)"
      using walk_suggested [OF so c, of "visit_suggested ch" "[]"] Some
      by (simp add: fill_core_def Let_def move_thread_def split: sum.split option.split)
    show thesis
    proof (cases ?v)
      case (Inr r)
      from visit_all_Inr [OF Inr] visit_suggested_Inr obtain t where
        t: "t \<in> set (by_priority Q False c)" "top_for ch t \<noteq> Some t" "r = Some t \<or> r = None \<and> too_high ch" by metis
      show thesis
      proof (cases r)
        case None
        then show thesis using fc Inr t(3) by (intro skip) auto
      next
        case (Some x)
        then show thesis using fc Inr t by (intro move [of t]) auto
      qed
    next
      case (Inl cs)
      note cs = visit_suggested_Inl [OF Inl]
      from try_candidates_cases [of now c cs ch] show thesis
      proof (elim disjE exE conjE)
        assume stay: "try_candidates now c cs ch = ch"
          and none: "\<forall>e s. e \<in> set cs \<longrightarrow> ch_top_threads ch e = Some s \<longrightarrow>
            GetScheduledNext (ks_threads ?ks) e s (ks_priority_queue ?ks) = None"
        have "\<exists>us. by_priority Q True (nat (th_core_id (ks_threads ?ks t))) = us @ [t]"
          if t: "t \<in> set (by_priority Q False c)" for t
        proof -
          let ?e = "nat (th_core_id (ks_threads ?ks t))"
          have top: "top_for ch t = Some t" using cs t by simp
          note h = home [OF t top]
          obtain us vs where s: "by_priority Q True ?e = us @ t # vs" using split_list [OF h(2)] by blast
          have "?e \<in> set cs" using cs t by auto
          moreover have "ch_top_threads ch ?e = Some t" using top h(1) by (simp add: top_for_def Let_def split: if_splits)
          ultimately have "front_or vs None = None" using none sched_next [OF so s] by auto
          then have "vs = []" by simp
          then show ?thesis using s by simp
        qed
        then show thesis using fc Inl stay cs by (intro skip) auto
      next
        fix e s n assume e: "e \<in> set cs" "ch_top_threads ch e = Some s"
          "GetScheduledNext (ks_threads ?ks) e s (ks_priority_queue ?ks) = Some n" "try_candidates now c cs ch = swap_thread now c e n s ch"
        obtain t where t: "t \<in> set (by_priority Q False c)" "e = nat (th_core_id (ks_threads ?ks t))" using cs e(1) by auto
        have top: "top_for ch t = Some t" using cs t by simp
        note h = home [OF t(1) top]
        have "s = t" using top h(1) t(2) e(2) by (simp add: top_for_def Let_def split: if_splits)
        obtain us ws where s: "by_priority Q True e = us @ t # ws" using h(2) t(2) split_list by metis
        then have "front_or ws None = Some n" using sched_next [OF so s] e(3) \<open>s = t\<close> by simp
        then obtain vs where "ws = n # vs" by (cases ws) simp_all
        then show thesis using fc Inl e \<open>s = t\<close> t h s by (intro swap [of e n t us vs]) auto
      qed
    qed
  qed
qed

lemma by_priority_moved_other:
  "int d \<noteq> prev \<Longrightarrow> int d \<noteq> new \<Longrightarrow> by_priority (moved p t prev new f Q) k d = by_priority Q k d"
proof -
  assume "int d \<noteq> prev" "int d \<noteq> new"
  then have "moved p t prev new f Q k q d = Q k q d" for q by (simp add: moved_def)
  then show ?thesis by (simp add: by_priority_def)
qed

lemma by_priority_moved_from:
  assumes pq: "pq_ok Q pq" and t: "t \<in> set (Q True p d)" and d: "int d = prev" "prev \<noteq> new"
  shows "by_priority (moved p t prev new f Q) True d = remove1 t (by_priority Q True d)"
proof -
  let ?Q = "moved p t prev new f Q"
  have p: "p < NumPriority" using pq_ok_in(1) [OF pq t] .
  have same: "?Q True q d = Q True q d" if "q \<noteq> p" for q using that by (simp add: moved_def)
  have at: "?Q True p d = remove1 t (Q True p d)" using d p by (simp add: moved_def NumPriority_le)
  have "t \<notin> set (concat (map (\<lambda>q. Q True q d) [0..<p]))"
    using pq_ok_in(3) [OF pq t] by auto
  moreover have "concat (map (\<lambda>q. ?Q True q d) [0..<p]) = concat (map (\<lambda>q. Q True q d) [0..<p])"
    "concat (map (\<lambda>q. ?Q True q d) [Suc p..<NumPriority]) = concat (map (\<lambda>q. Q True q d) [Suc p..<NumPriority])"
    using same by (auto intro!: arg_cong [of _ _ concat] map_cong)
  ultimately show ?thesis using t at by (simp add: by_priority_split [OF p] remove1_append)
qed

lemma by_priority_moved_to:
  assumes p: "p \<le> LowestPriority" and e: "by_priority Q True c = []" and ne: "prev \<noteq> int c"
  shows "by_priority (moved p t prev (int c) f Q) True c = [t]"
proof -
  have p': "p < NumPriority" using p by (simp add: NumPriority_le)
  have "Q True q c = []" if "q < NumPriority" for q using e that by (simp add: by_priority_def)
  then have "moved p t prev (int c) f Q True q c = (if q = p then [t] else [])" if "q < NumPriority" for q
    using that p ne by (auto simp: moved_def)
  then have "by_priority (moved p t prev (int c) f Q) True c = concat (map (\<lambda>q. if q = p then [t] else []) [0..<NumPriority])"
    unfolding by_priority_def by (intro arg_cong [of _ _ concat] map_cong) simp_all
  moreover have "concat (map (\<lambda>q. if q = p then [t] else []) [0..<n]) = (if p < n then [t] else [])" for n
    by (induction n) auto
  ultimately show ?thesis using p' by simp
qed

text \<open>The state of the second loop after a round that moves a thread.\<close>

lemma move_thread_effect:
  "ch_top_threads (move_thread now c t ch) = (ch_top_threads ch)(c := Some t)"
  "highest (ch_kernel (move_thread now c t ch)) = (highest (ch_kernel ch))(c := Some t)"
  "same_view (migrate t (int c) False (ch_kernel ch)) (ch_kernel (move_thread now c t ch))"
  using set_top_effect(1) [of "ch\<lparr>ch_kernel := migrate t (int c) False (ch_kernel ch)\<rparr>" now c "Some t"]
  by (simp_all add: move_thread_def set_top_effect)

lemma same_view_fields:
  assumes "same_view ks ks'"
  shows "th_core_id (ks_threads ks' t) = th_core_id (ks_threads ks t)"
    "th_physical_affinity_mask (ks_threads ks' t) = th_physical_affinity_mask (ks_threads ks t)"
    "th_thread_state (ks_threads ks' t) = th_thread_state (ks_threads ks t)"
    "IsDummyThread (ks_threads ks' t) = IsDummyThread (ks_threads ks t)"
    "priority_of ks' t = priority_of ks t" "ks_priority_queue ks' = ks_priority_queue ks"
    "pr_pinned_threads (ks_processes ks' p) = pr_pinned_threads (ks_processes ks p)"
  using assms by (simp_all add: same_view_def sched_view_def priority_of_def)

lemma move_thread_fields:
  "th_core_id (ks_threads (ch_kernel (move_thread now c t ch)) u) = (if u = t then int c else th_core_id (ks_threads (ch_kernel ch) u))"
  "th_physical_affinity_mask (ks_threads (ch_kernel (move_thread now c t ch)) u) = th_physical_affinity_mask (ks_threads (ch_kernel ch) u)"
  "th_thread_state (ks_threads (ch_kernel (move_thread now c t ch)) u) = th_thread_state (ks_threads (ch_kernel ch) u)"
  "IsDummyThread (ks_threads (ch_kernel (move_thread now c t ch)) u) = IsDummyThread (ks_threads (ch_kernel ch) u)"
  "priority_of (ch_kernel (move_thread now c t ch)) u = priority_of (ch_kernel ch) u"
  "pr_pinned_threads (ks_processes (ch_kernel (move_thread now c t ch)) p) = pr_pinned_threads (ks_processes (ch_kernel ch) p)"
  using same_view_fields [OF move_thread_effect(3) [where now = now and c = c and t = t and ch = ch]] by simp_all

lemma GetCoreBit_bit: "c < NumCores \<Longrightarrow> bit (GetCoreBit c) d \<longleftrightarrow> d = c"
  by (auto simp: GetCoreBit_def bit_simps NumCores_def)

text \<open>Moving a thread that no core has been given.\<close>

lemma move_thread_assigned:
  assumes ok: "kernel_ok Q (ch_kernel ch)" and as: "assigned ch" and c: "c < NumCores"
    and t: "t \<in> set (by_priority Q False c)" and top: "top_for ch t \<noteq> Some t"
  shows "assigned (move_thread now c t ch)"
proof -
  let ?ch = "move_thread now c t ch" and ?core = "th_core_id (ks_threads (ch_kernel ch) t)"
  note tf = queued_facts [OF ok t]
  have free: "ch_top_threads ch d \<noteq> Some t" if d: "d < NumCores" "d \<noteq> c" for d
  proof
    assume a: "ch_top_threads ch d = Some t"
    then consider "?core = int d" | "th_physical_affinity_mask (ks_threads (ch_kernel ch) t) = GetCoreBit d"
      using as d by (auto simp: assigned_def)
    then show False
    proof cases
      case 1
      then show False using a top by (simp add: top_for_def)
    next
      case 2
      then show False using tf(3) GetCoreBit_bit [OF d(1), of c] d(2) by simp
    qed
  qed
  have "highest (ch_kernel ?ch) d = ch_top_threads ?ch d" if "d < NumCores" for d
    using as that by (simp add: assigned_def move_thread_effect)
  moreover have "th_thread_state (ks_threads (ch_kernel ?ch) u) = Runnable \<and> (th_core_id (ks_threads (ch_kernel ?ch) u) = int d \<or>
      th_physical_affinity_mask (ks_threads (ch_kernel ?ch) u) = GetCoreBit d)"
    if d: "d < NumCores" "ch_top_threads ?ch d = Some u" for d u
  proof (cases "d = c")
    case True
    then show ?thesis using d tf by (simp add: move_thread_effect move_thread_fields)
  next
    case False
    then have u: "ch_top_threads ch d = Some u" using d(2) by (simp add: move_thread_effect)
    then have "u \<noteq> t" using free [OF d(1) False] by auto
    then show ?thesis using as d(1) u by (simp add: assigned_def move_thread_fields)
  qed
  ultimately show ?thesis by (simp add: assigned_def)
qed

lemma move_thread_ok:
  assumes ok: "kernel_ok Q (ch_kernel ch)" and t: "t \<in> set (by_priority Q False c)"
  shows "kernel_ok (moved (priority_of (ch_kernel ch) t) t (th_core_id (ks_threads (ch_kernel ch) t)) (int c) False Q)
    (ch_kernel (move_thread now c t ch))"
  using migrate_suggested_ok [OF assms] same_view_ok [OF move_thread_effect(3)] by blast

section \<open>The second loop\<close>

text \<open>
  Without pinned threads, the thread of every core is the front of its queue. When no thread that
  runs has too high a priority, a core that stays idle is one whose suggested threads all run alone
  on another core.
\<close>

definition exact :: "queues \<Rightarrow> choice \<Rightarrow> bool" where
  "exact Q ch \<longleftrightarrow> (\<forall>c<NumCores. ch_top_threads ch c = front_or (by_priority Q True c) None)"

definition busy :: "queues \<Rightarrow> u64 \<Rightarrow> choice \<Rightarrow> bool" where
  "busy Q idle ch \<longleftrightarrow>
     (\<forall>c u. c < NumCores \<longrightarrow> ch_top_threads ch c = None \<longrightarrow> \<not> bit idle c \<longrightarrow> u \<in> set (by_priority Q False c) \<longrightarrow>
        (\<exists>d<NumCores. by_priority Q True d = [u]))"

lemma moved_lists:
  assumes ok: "kernel_ok Q ks" and t: "t \<in> set (by_priority Q False c)" and e: "by_priority Q True c = []"
  defines "Q' \<equiv> moved (priority_of ks t) t (th_core_id (ks_threads ks t)) (int c) False Q"
  shows "by_priority Q' True d =
    (if d = c then [t] else if int d = th_core_id (ks_threads ks t) then remove1 t (by_priority Q True d) else by_priority Q True d)"
proof -
  have so: "sched_ok (ks_threads ks) Q (ks_priority_queue ks)" using ok by (simp add: kernel_defs)
  then have pq: "pq_ok Q (ks_priority_queue ks)" and tk: "thread_ok (ks_threads ks t)" by (simp_all add: sched_ok_def)
  note tf = queued_facts [OF ok t]
  have ne: "th_core_id (ks_threads ks t) \<noteq> int c" using tf(4) by auto
  have "by_priority Q' True d = remove1 t (by_priority Q True d)" if d: "int d = th_core_id (ks_threads ks t)"
  proof -
    have "belongs (ks_threads ks t) True (priority_of ks t) d"
      using tf d by (simp add: belongs_def priority_of_def spots_def)
    then have "t \<in> set (Q True (priority_of ks t) d)" using so by (simp add: sched_ok_def)
    from by_priority_moved_from [OF pq this d ne] show ?thesis by (simp add: Q'_def)
  qed
  moreover have "by_priority Q' True c = [t]"
    unfolding Q'_def by (rule by_priority_moved_to [OF tf(6) e ne])
  moreover have "by_priority Q' True d = by_priority Q True d" if "d \<noteq> c" "int d \<noteq> th_core_id (ks_threads ks t)"
    unfolding Q'_def using that by (intro by_priority_moved_other) auto
  ultimately show ?thesis by simp
qed

lemma at_home:
  assumes ok: "kernel_ok Q ks" and t: "t \<in> set (by_priority Q k c)" and d: "int d = th_core_id (ks_threads ks t)"
  shows "t \<in> set (by_priority Q True d)"
proof -
  have tk: "thread_ok (ks_threads ks t)" using ok by (simp add: kernel_defs sched_ok_def)
  have "bit (th_physical_affinity_mask (ks_threads ks t)) d" using tk d by (metis nat_int of_nat_0_le_iff thread_ok_def)
  then show ?thesis using queued_facts [OF ok t] d by (simp add: queued_iff [OF ok])
qed

text \<open>One round, when it moves a thread; a swap first gives the other core its next thread.\<close>

lemma move_thread_lists:
  assumes ok: "kernel_ok Q (ch_kernel ch)" and idle: "idle_ok Q idle ch" "bit idle c"
    and t: "t \<in> set (by_priority Q False c)"
  defines "Q' \<equiv> moved (priority_of (ch_kernel ch) t) t (th_core_id (ks_threads (ch_kernel ch) t)) (int c) False Q"
  shows "idle_ok Q' (ClearAffinityBit idle c) (move_thread now c t ch)"
    "busy Q idle ch \<Longrightarrow> busy Q' (ClearAffinityBit idle c) (move_thread now c t ch)"
proof -
  let ?core = "th_core_id (ks_threads (ch_kernel ch) t)" and ?ch = "move_thread now c t ch"
  have e: "by_priority Q True c = []" and c: "c < NumCores" using idle by (simp_all add: idle_ok_def)
  note lists = moved_lists [OF ok t e, folded Q'_def]
  have ok': "kernel_ok Q' (ch_kernel ?ch)" unfolding Q'_def by (rule move_thread_ok [OF ok t])
  have home: "by_priority Q True d \<noteq> []" if "int d = ?core" for d using at_home [OF ok t that] by auto
  show "idle_ok Q' (ClearAffinityBit idle c) ?ch"
    using idle home by (auto simp: idle_ok_def lists bit_ClearAffinityBit move_thread_effect)
  assume b: "busy Q idle ch"
  have "\<exists>x<NumCores. by_priority Q' True x = [u]"
    if d: "d < NumCores" "ch_top_threads ?ch d = None" "\<not> bit (ClearAffinityBit idle c) d" "u \<in> set (by_priority Q' False d)" for d u
  proof (cases "u = t")
    case True
    then show ?thesis using c lists [of c] by auto
  next
    case False
    have dc: "d \<noteq> c" "ch_top_threads ch d = None" "\<not> bit idle d"
      using d by (auto simp: move_thread_effect bit_ClearAffinityBit split: if_splits)
    have "u \<in> set (by_priority Q False d)"
      using d(4) False by (simp add: queued_iff [OF ok] queued_iff [OF ok'] move_thread_fields)
    with b d(1) dc obtain x where x: "x < NumCores" "by_priority Q True x = [u]" by (auto simp: busy_def)
    have "x \<noteq> c" using x e by auto
    moreover have "int x \<noteq> ?core" using at_home [OF ok t, of x] x False by auto
    ultimately show ?thesis using x lists by auto
  qed
  then show "busy Q' (ClearAffinityBit idle c) ?ch" by (simp add: busy_def)
qed

lemma swap_prepare:
  fixes now :: int
  assumes ok: "kernel_ok Q (ch_kernel ch)" and as: "assigned ch" and idle: "idle_ok Q idle ch" "bit idle c"
    and t: "t \<in> set (by_priority Q False c)" "th_core_id (ks_threads (ch_kernel ch) t) = int e" "ch_top_threads ch e = Some t"
    and l: "by_priority Q True e = us @ t # n # vs"
  defines "ch1 \<equiv> set_top now e (Some n) ch"
  shows "kernel_ok Q (ch_kernel ch1)" "assigned ch1" "idle_ok Q idle ch1" "top_for ch1 t \<noteq> Some t" "busy Q idle ch \<Longrightarrow> busy Q idle ch1"
    "priority_of (ch_kernel ch1) t = priority_of (ch_kernel ch) t"
    "th_core_id (ks_threads (ch_kernel ch1) t) = th_core_id (ks_threads (ch_kernel ch) t)"
proof -
  note v = set_top_effect [where now = now and c = e and t = "Some n" and ch = ch, folded ch1_def]
  note vf = same_view_fields [OF v(1)]
  show ok1: "kernel_ok Q (ch_kernel ch1)" using same_view_ok [OF v(1)] ok by blast
  have "n \<in> set (by_priority Q True e)" using l by simp
  note nf = queued_facts [OF ok this]
  show "assigned ch1" using as nf by (auto simp: assigned_def v(2,3) vf)
  show "idle_ok Q idle ch1" using idle t(3) by (auto simp: idle_ok_def v(3))
  have "distinct (us @ t # n # vs)"
    using distinct_by_priority [of Q "ks_priority_queue (ch_kernel ch)" True e] ok l by (simp add: kernel_defs sched_ok_def)
  then show "top_for ch1 t \<noteq> Some t" using t(2) by (simp add: top_for_def v(3) vf Let_def)
  show "busy Q idle ch \<Longrightarrow> busy Q idle ch1" by (auto simp: busy_def v(3) split: if_splits)
  show "priority_of (ch_kernel ch1) t = priority_of (ch_kernel ch) t"
    "th_core_id (ks_threads (ch_kernel ch1) t) = th_core_id (ks_threads (ch_kernel ch) t)" by (rule vf)+
qed

definition low :: "kernel \<Rightarrow> bool" where
  "low ks \<longleftrightarrow> (\<forall>t. th_thread_state (ks_threads ks t) = Runnable \<longrightarrow> priority_of ks t \<ge> HighestCoreMigrationAllowedPriority)"

lemma low_same_view: "same_view ks ks' \<Longrightarrow> low ks' \<longleftrightarrow> low ks"
  by (simp add: low_def same_view_fields)

lemma low_migrate: "low (migrate t c f ks) \<longleftrightarrow> low ks"
  by (simp add: low_def)

lemma low_not_too_high:
  assumes ok: "kernel_ok Q (ch_kernel ch)" and as: "assigned ch" and low: "low (ch_kernel ch)"
  shows "\<not> too_high ch"
proof
  assume "too_high ch"
  then obtain t u where u: "top_for ch t = Some u" "priority_of (ch_kernel ch) u < HighestCoreMigrationAllowedPriority"
    by (auto simp: too_high_def)
  let ?c = "nat (th_core_id (ks_threads (ch_kernel ch) t))"
  have "th_core_id (ks_threads (ch_kernel ch) t) \<ge> 0" "ch_top_threads ch ?c = Some u"
    using u(1) by (auto simp: top_for_def Let_def split: if_splits)
  moreover have tk: "thread_ok (ks_threads (ch_kernel ch) t)" using ok by (simp add: kernel_defs sched_ok_def)
  ultimately have "?c < NumCores" using mask_bound [OF tk] by (simp add: thread_ok_def)
  then have "th_thread_state (ks_threads (ch_kernel ch) u) = Runnable"
    using as \<open>ch_top_threads ch ?c = Some u\<close> by (simp add: assigned_def)
  then show False using u(2) low by (auto simp: low_def)
qed

lemma front_remove1: "front_or xs None \<noteq> Some t \<Longrightarrow> front_or (remove1 t xs) None = front_or xs None"
  by (cases xs) auto

lemma exact_move:
  assumes ok: "kernel_ok Q (ch_kernel ch)" and idle: "idle_ok Q idle ch" "bit idle c"
    and t: "t \<in> set (by_priority Q False c)" "top_for ch t \<noteq> Some t" and ex: "exact Q ch"
  shows "exact (moved (priority_of (ch_kernel ch) t) t (th_core_id (ks_threads (ch_kernel ch) t)) (int c) False Q) (move_thread now c t ch)"
proof -
  have e: "by_priority Q True c = []" using idle by (simp add: idle_ok_def)
  have "front_or (remove1 t (by_priority Q True d)) None = ch_top_threads ch d"
    if "d < NumCores" "int d = th_core_id (ks_threads (ch_kernel ch) t)" for d
  proof -
    have "nat (th_core_id (ks_threads (ch_kernel ch) t)) = d" "th_core_id (ks_threads (ch_kernel ch) t) \<ge> 0"
      unfolding that(2) [symmetric] by simp_all
    then have "ch_top_threads ch d \<noteq> Some t" using t(2) by (simp add: top_for_def)
    then show ?thesis using ex that(1) front_remove1 [of "by_priority Q True d" t] by (simp add: exact_def)
  qed
  then show ?thesis using ex by (auto simp: exact_def moved_lists [OF ok t(1) e] move_thread_effect)
qed

lemma exact_swap:
  assumes ok: "kernel_ok Q (ch_kernel ch)" and idle: "idle_ok Q idle ch" "bit idle c"
    and t: "t \<in> set (by_priority Q False c)" "th_core_id (ks_threads (ch_kernel ch) t) = int e" "ch_top_threads ch e = Some t"
    and l: "by_priority Q True e = us @ t # n # vs" and ex: "exact Q ch" and en: "e < NumCores"
  shows "exact (moved (priority_of (ch_kernel ch) t) t (th_core_id (ks_threads (ch_kernel ch) t)) (int c) False Q) (swap_thread now c e n t ch)"
proof -
  have e: "by_priority Q True c = []" using idle by (simp add: idle_ok_def)
  have "distinct (us @ t # n # vs)"
    using distinct_by_priority [of Q "ks_priority_queue (ch_kernel ch)" True e] ok l by (simp add: kernel_defs sched_ok_def)
  moreover have "front_or (us @ t # n # vs) None = Some t" using ex t(3) l en by (simp add: exact_def)
  ultimately have "us = []" by (cases us) auto
  then show ?thesis using ex l e unfolding t(2)
    by (auto simp: exact_def moved_lists [OF ok t(1) e, unfolded t(2)] swap_thread_def move_thread_effect set_top_effect)
qed

text \<open>Every core whose thread has changed is to be rescheduled.\<close>

definition noted :: "kernel \<Rightarrow> choice \<Rightarrow> bool" where
  "noted ks0 ch \<longleftrightarrow>
     (\<forall>c<NumCores. highest (ch_kernel ch) c \<noteq> highest ks0 c \<longrightarrow>
        bit (ch_cores_needing_scheduling ch) c \<and> sc_needs_scheduling (ks_schedulers (ch_kernel ch) c))"

definition core_ids :: "kernel \<Rightarrow> bool" where
  "core_ids ks \<longleftrightarrow> (\<forall>c<NumCores. sc_core_id (ks_schedulers ks c) = c)"

lemma needs_scheduling_update:
  "sc_needs_scheduling (ks_schedulers (snd (UpdateHighestPriorityThread now c t ks)) d) =
     (sc_needs_scheduling (ks_schedulers ks d) \<or> d = c \<and> highest ks c \<noteq> t)"
  by (auto simp: UpdateHighestPriorityThread_def Let_def highest_def upd_scheduler_def upd_thread_def upd_process_def
      IncrementScheduledCount_def split: option.split)

lemma noted_set_top:
  assumes "core_ids (ch_kernel ch)" "noted ks0 ch" "c < NumCores"
  shows "noted ks0 (set_top now c t ch)" "core_ids (ch_kernel (set_top now c t ch))"
proof -
  have b: "bit (2 ^ c :: u64) d \<longleftrightarrow> d = c" for d using assms(3) by (auto simp: bit_simps NumCores_def)
  have m: "ch_cores_needing_scheduling (set_top now c t ch) =
      ch_cores_needing_scheduling ch OR (if highest (ch_kernel ch) c \<noteq> t then push_bit c 1 else 0)"
    using assms(1,3) by (simp add: set_top_def split_beta UpdateHighestPriorityThread_effect(3) core_ids_def)
  have n: "sc_needs_scheduling (ks_schedulers (ch_kernel (set_top now c t ch)) d) =
      (sc_needs_scheduling (ks_schedulers (ch_kernel ch) d) \<or> d = c \<and> highest (ch_kernel ch) c \<noteq> t)" for d
    by (simp add: set_top_def split_beta needs_scheduling_update)
  show "noted ks0 (set_top now c t ch)"
    using assms(2) by (auto simp: noted_def set_top_effect(2) m n b bit_or_iff)
  show "core_ids (ch_kernel (set_top now c t ch))"
    using assms(1) set_top_effect(1) [of ch now c t] by (simp add: core_ids_def same_view_def)
qed

lemma noted_migrate: "noted ks0 (ch\<lparr>ch_kernel := migrate t c f (ch_kernel ch)\<rparr>) \<longleftrightarrow> noted ks0 ch"
  by (simp add: noted_def) (simp add: migrate_def Let_def upd_thread_def)

lemma core_ids_migrate: "core_ids (migrate t c f ks) \<longleftrightarrow> core_ids ks"
  by (simp add: core_ids_def migrate_def Let_def upd_thread_def)

lemma noted_move:
  assumes "core_ids (ch_kernel ch)" "noted ks0 ch" "c < NumCores"
  shows "noted ks0 (move_thread now c t ch)"
  using assms unfolding move_thread_def by (intro noted_set_top(1)) (simp_all add: noted_migrate core_ids_migrate)

definition loop_ok :: "queues \<Rightarrow> u64 \<Rightarrow> choice \<Rightarrow> bool" where
  "loop_ok Q idle ch \<longleftrightarrow> kernel_ok Q (ch_kernel ch) \<and> assigned ch \<and> idle_ok Q idle ch"

definition best_ok :: "queues \<Rightarrow> u64 \<Rightarrow> choice \<Rightarrow> bool" where
  "best_ok Q idle ch \<longleftrightarrow> exact Q ch \<and> (low (ch_kernel ch) \<longrightarrow> busy Q idle ch)"

lemma busy_skip:
  assumes as: "kernel_ok Q (ch_kernel ch)" "assigned ch" "idle_ok Q idle ch" "bit idle c" and ex: "exact Q ch"
    and low: "low (ch_kernel ch)" and b: "busy Q idle ch"
    and s: "\<forall>t\<in>set (by_priority Q False c). too_high ch \<or> top_for ch t = Some t \<and>
         (\<exists>us. by_priority Q True (nat (th_core_id (ks_threads (ch_kernel ch) t))) = us @ [t])"
  shows "busy Q (ClearAffinityBit idle c) ch"
proof -
  have "\<exists>d<NumCores. by_priority Q True d = [u]" if u: "u \<in> set (by_priority Q False c)" for u
  proof -
    let ?e = "nat (th_core_id (ks_threads (ch_kernel ch) u))"
    obtain us where us: "top_for ch u = Some u" "by_priority Q True ?e = us @ [u]"
      using s u low_not_too_high [OF as(1,2) low] by auto
    then have "u \<in> set (by_priority Q True ?e)" by simp
    from queued_facts(5) [OF as(1) this] have e: "?e < NumCores" .
    have "front_or (us @ [u]) None = Some u"
      using ex us e by (auto simp: exact_def top_for_def Let_def split: if_splits)
    moreover have "distinct (us @ [u])"
      using distinct_by_priority [of Q "ks_priority_queue (ch_kernel ch)" True ?e] as(1) us by (simp add: kernel_defs sched_ok_def)
    ultimately have "us = []" by (cases us) auto
    then show ?thesis using us e by auto
  qed
  then show ?thesis using b unfolding busy_def bit_ClearAffinityBit by blast
qed

lemma fill_core_step:
  assumes lo: "loop_ok Q idle ch" and c: "bit idle c"
  obtains ch' Q' where "fill_core now c ch = Some ch'" "loop_ok Q' (ClearAffinityBit idle c) ch'"
    "low (ch_kernel ch') = low (ch_kernel ch)"
    "best_ok Q idle ch \<longrightarrow> best_ok Q' (ClearAffinityBit idle c) ch'" "noted ks0 ch \<longrightarrow> noted ks0 ch'"
proof -
  have ok: "kernel_ok Q (ch_kernel ch)" and as: "assigned ch" and idle: "idle_ok Q idle ch"
    using lo by (simp_all add: loop_ok_def)
  have cn: "c < NumCores" using idle c by (simp add: idle_ok_def)
  have ids: "core_ids (ch_kernel ch)" using ok by (simp add: kernel_defs core_ids_def)
  have low_move: "low (ch_kernel (move_thread now c t x)) = low (ch_kernel x)" for t x
    using low_same_view [OF move_thread_effect(3)] by (simp add: low_migrate)
  have low_top: "low (ch_kernel (set_top now d t x)) = low (ch_kernel x)" for d t x
    by (rule low_same_view [OF set_top_effect(1)])
  show thesis
  proof (cases rule: fill_core_cases [OF ok cn, where now = now, case_names skip move swap])
    case skip
    have "idle_ok Q (ClearAffinityBit idle c) ch" using idle by (auto simp: idle_ok_def bit_ClearAffinityBit)
    then show thesis using skip ok as busy_skip [OF ok as idle c]
      by (intro that [of ch Q]) (auto simp: loop_ok_def best_ok_def)
  next
    case (move t)
    note ml = move_thread_lists [OF ok idle c move(2), where now = now]
    show thesis
      using move_thread_ok [OF ok move(2)] move_thread_assigned [OF ok as cn move(2,3)] ml exact_move [OF ok idle c move(2,3)] low_move
        noted_move [OF ids _ cn]
      by (intro that [OF move(1)]) (auto simp: loop_ok_def best_ok_def)
  next
    case (swap t e us n vs)
    note pr = swap_prepare [OF ok as idle c swap(2,3,4,5), of now]
    have en: "e < NumCores" using swap(5) queued_facts(5) [OF ok, of t True e] by simp
    note ml = move_thread_lists [OF pr(1,3) c swap(2), where now = now]
    show thesis
      using move_thread_ok [OF pr(1) swap(2)] move_thread_assigned [OF pr(1,2) cn swap(2) pr(4)] ml pr(5,6,7)
        exact_swap [OF ok idle c swap(2,3,4,5) _ en] low_move low_top
        noted_move [OF noted_set_top(2) [OF ids _ en] noted_set_top(1) [OF ids _ en] cn]
      by (intro that [OF swap(1)]) (auto simp: loop_ok_def best_ok_def swap_thread_def)
  qed
qed

lemma fill_idle_cores_ok:
  assumes "loop_ok Q idle ch"
  obtains ch' Q' where "fill_idle_cores now idle ch = Some ch'" "loop_ok Q' 0 ch'" "low (ch_kernel ch') = low (ch_kernel ch)"
    "best_ok Q idle ch \<longrightarrow> best_ok Q' 0 ch'" "noted ks0 ch \<longrightarrow> noted ks0 ch'"
proof -
  have "\<exists>ch' Q'. fill_idle_cores now idle ch = Some ch' \<and> loop_ok Q' 0 ch' \<and> low (ch_kernel ch') = low (ch_kernel ch) \<and>
      (best_ok Q idle ch \<longrightarrow> best_ok Q' 0 ch') \<and> (noted ks0 ch \<longrightarrow> noted ks0 ch')"
    using assms
  proof (induction now idle ch arbitrary: Q rule: fill_idle_cores.induct)
    case (1 now idle ch)
    show ?case
    proof (cases "idle = 0")
      case True
      then show ?thesis using 1(2) by (subst fill_idle_cores.simps) auto
    next
      case False
      let ?c = "countr_zero idle"
      have c: "bit idle ?c" using False by (rule countr_zero_bit(1))
      obtain ch1 Q1 where r: "fill_core now ?c ch = Some ch1" "loop_ok Q1 (ClearAffinityBit idle ?c) ch1"
        "low (ch_kernel ch1) = low (ch_kernel ch)" "best_ok Q idle ch \<longrightarrow> best_ok Q1 (ClearAffinityBit idle ?c) ch1"
        "noted ks0 ch \<longrightarrow> noted ks0 ch1"
        by (rule fill_core_step [OF 1(2) c, where now = now and ?ks0.0 = ks0])
      from 1(1) [OF False refl r(1,2)] r show ?thesis
        by (subst fill_idle_cores.simps) (auto simp: False Let_def)
    qed
  qed
  then show thesis using that by blast
qed

section \<open>Choosing the threads of all cores\<close>

lemma same_view_wakeup: "same_view ks (WakeupWaitingDummyThreads ks)" "highest (WakeupWaitingDummyThreads ks) = highest ks"
  "ks_schedulers (WakeupWaitingDummyThreads ks) = ks_schedulers ks"
proof -
  have "same_view ks (fold DummyThreadEndWait ts ks) \<and> highest (fold DummyThreadEndWait ts ks) = highest ks \<and>
      ks_schedulers (fold DummyThreadEndWait ts ks) = ks_schedulers ks" for ts ks
  proof (induction ts arbitrary: ks)
    case (Cons t ts)
    have "same_view ks (DummyThreadEndWait t ks)" by simp
    note v = same_view_trans [OF this]
    have "ks_schedulers (DummyThreadEndWait t ks) = ks_schedulers ks" by (simp add: DummyThreadEndWait_def upd_thread_def)
    then show ?case using Cons [of "DummyThreadEndWait t ks"] v by auto
  qed simp
  then show "same_view ks (WakeupWaitingDummyThreads ks)" "highest (WakeupWaitingDummyThreads ks) = highest ks"
    "ks_schedulers (WakeupWaitingDummyThreads ks) = ks_schedulers ks"
    by (simp_all add: WakeupWaitingDummyThreads_def same_view_def highest_def fun_eq_iff)
qed

definition no_pins :: "kernel \<Rightarrow> bool" where
  "no_pins ks \<longleftrightarrow> (\<forall>p c. pr_pinned_threads (ks_processes ks p) c = None)"

lemma pick_no_pins: "no_pins ks \<Longrightarrow> pick ks c = GetScheduledFront c (ks_priority_queue ks)"
  by (auto simp: pick_def prefer_pinned_def no_pins_def split: option.split)

text \<open>What holds of a state after the threads have been chosen, in terms of the one before.\<close>

definition chosen :: "kernel \<Rightarrow> queues \<Rightarrow> u64 \<Rightarrow> kernel \<Rightarrow> bool" where
  "chosen ks Q m ks' \<longleftrightarrow>
     kernel_ok Q ks' \<and>
     (\<forall>c t. c < NumCores \<longrightarrow> highest ks' c = Some t \<longrightarrow>
        th_thread_state (ks_threads ks' t) = Runnable \<and>
        (th_core_id (ks_threads ks' t) = int c \<or> th_physical_affinity_mask (ks_threads ks' t) = GetCoreBit c)) \<and>
     (\<forall>c<NumCores. highest ks' c \<noteq> highest ks c \<longrightarrow> bit m c \<and> sc_needs_scheduling (ks_schedulers ks' c)) \<and>
     (no_pins ks \<longrightarrow> (\<forall>c<NumCores. highest ks' c = front_or (by_priority Q True c) None)) \<and>
     (no_pins ks \<longrightarrow> low ks \<longrightarrow>
        (\<forall>c u. c < NumCores \<longrightarrow> highest ks' c = None \<longrightarrow> u \<in> set (by_priority Q False c) \<longrightarrow>
           (\<exists>d<NumCores. by_priority Q True d = [u])))"

lemma chosen_same_view:
  assumes "chosen ks Q m ks'" "same_view ks' ks''" "highest ks'' = highest ks'"
    "\<And>c. sc_needs_scheduling (ks_schedulers ks'' c) = sc_needs_scheduling (ks_schedulers ks' c)"
  shows "chosen ks Q m ks''"
  using assms(1) same_view_ok [OF assms(2), of Q] unfolding chosen_def assms(3,4) same_view_fields [OF assms(2)] by blast

lemma noted_choose_top:
  assumes "core_ids (ch_kernel ch)" "noted ks0 ch" "c < NumCores"
  shows "core_ids (ch_kernel (choose_top now c ch))" "noted ks0 (choose_top now c ch)"
proof -
  have "noted ks0 (ch\<lparr>ch_idle_cores := i\<rparr>)" for i using assms(2) by (simp add: noted_def)
  note i = noted_set_top [of "ch\<lparr>ch_idle_cores := _\<rparr>", simplified, OF assms(1) this assms(3)]
  show "core_ids (ch_kernel (choose_top now c ch))" "noted ks0 (choose_top now c ch)"
    using noted_set_top [OF assms] i by (simp_all add: choose_top_def split: option.split)
qed

lemma first_loop_ok:
  fixes now :: int
  assumes ok: "kernel_ok Q ks" and s: "ks1 = ClearSchedulerUpdateNeeded ks"
  defines "ch \<equiv> fold (choose_top now) [0..<NumCores]
    \<lparr>ch_top_threads = (\<lambda>_. None), ch_cores_needing_scheduling = 0, ch_idle_cores = 0, ch_kernel = ks1\<rparr>"
  shows "loop_ok Q (ch_idle_cores ch) ch" "noted ks ch" "no_pins ks \<Longrightarrow> best_ok Q (ch_idle_cores ch) ch" "low (ch_kernel ch) = low ks"
proof -
  let ?ch0 = "\<lparr>ch_top_threads = (\<lambda>_. None), ch_cores_needing_scheduling = 0, ch_idle_cores = 0, ch_kernel = ks1\<rparr>"
  have v1: "same_view ks ks1" using s by simp
  have ok1: "kernel_ok Q ks1" using same_view_ok [OF v1] ok by blast
  have so1: "sched_ok (ks_threads ks1) Q (ks_priority_queue ks1)" using ok1 by (simp add: kernel_defs)
  have e: "same_view ks1 (ch_kernel ch)" "\<And>c. c < NumCores \<Longrightarrow> highest (ch_kernel ch) c = pick ks1 c"
    "\<And>c. c < NumCores \<Longrightarrow> ch_top_threads ch c = pick ks1 c"
    "\<And>c. bit (ch_idle_cores ch) c \<longleftrightarrow> c < NumCores \<and> GetScheduledFront c (ks_priority_queue ks1) = None"
    using choose_tops_effect [of NumCores ?ch0 now] by (simp_all add: ch_def)
  have okc: "kernel_ok Q (ch_kernel ch)" using same_view_ok [OF e(1)] ok1 by blast
  have "assigned ch" using pick_assigned [OF ok1] by (simp add: assigned_def e same_view_fields [OF e(1)])
  moreover have "idle_ok Q (ch_idle_cores ch) ch" using sched_front(1) [OF so1] by (auto simp: idle_ok_def e pick_def)
  ultimately show "loop_ok Q (ch_idle_cores ch) ch" using okc by (simp add: loop_ok_def)
  show "low (ch_kernel ch) = low ks" using low_same_view [OF e(1)] low_same_view [OF v1] by simp
  have "core_ids (ch_kernel (fold (choose_top now) cs ?ch0)) \<and> noted ks (fold (choose_top now) cs ?ch0)" if "set cs \<subseteq> {..<NumCores}" for cs
    using that
  proof (induction cs rule: rev_induct)
    case Nil
    then show ?case using ok1 s by (simp add: noted_def core_ids_def kernel_defs)
  next
    case (snoc c cs)
    then show ?case using noted_choose_top [of "fold (choose_top now) cs ?ch0" ks c now] by simp
  qed
  from this [of "[0..<NumCores]"] show "noted ks ch" by (simp add: ch_def atLeast_upt)
  assume np: "no_pins ks"
  then have "no_pins ks1" by (simp add: no_pins_def same_view_fields [OF v1])
  then have ex: "exact Q ch" using sched_front(1) [OF so1] by (simp add: exact_def e pick_no_pins)
  moreover have "busy Q (ch_idle_cores ch) ch"
    using ex sched_front(1) [OF so1] by (auto simp: busy_def e(4) exact_def)
  ultimately show "best_ok Q (ch_idle_cores ch) ch" by (simp add: best_ok_def)
qed

theorem UpdateHighestPriorityThreadsImpl_ok:
  assumes ok: "kernel_ok Q ks"
  obtains m ks' Q' where "UpdateHighestPriorityThreadsImpl now cur ks = Some (m, ks')" "chosen ks Q' m ks'"
proof -
  define ch where "ch = fold (choose_top now) [0..<NumCores]
    \<lparr>ch_top_threads = (\<lambda>_. None), ch_cores_needing_scheduling = 0, ch_idle_cores = 0, ch_kernel = ClearSchedulerUpdateNeeded ks\<rparr>"
  note fl = first_loop_ok [OF ok refl, of now, folded ch_def]
  obtain ch' Q' where f: "fill_idle_cores now (ch_idle_cores ch) ch = Some ch'" "loop_ok Q' 0 ch'"
    "low (ch_kernel ch') = low (ch_kernel ch)" "best_ok Q (ch_idle_cores ch) ch \<longrightarrow> best_ok Q' 0 ch'" "noted ks ch \<longrightarrow> noted ks ch'"
    by (rule fill_idle_cores_ok [OF fl(1), where now = now and ?ks0.0 = ks])
  have "chosen ks Q' (ch_cores_needing_scheduling ch') (ch_kernel ch')"
    using f fl by (auto simp: chosen_def loop_ok_def assigned_def noted_def best_ok_def exact_def busy_def)
  moreover define ks1 where "ks1 = WakeupWaitingDummyThreads (ch_kernel ch')"
  ultimately have c1: "chosen ks Q' (ch_cores_needing_scheduling ch') ks1"
    using chosen_same_view same_view_wakeup by metis
  define ks2 where "ks2 = (if IsDummyThread (ks_threads ks1 cur) \<and> GetState (ks_threads ks1 cur) \<noteq> Runnable
    then RequestDummyThreadWait cur ks1 else ks1)"
  have "same_view ks1 ks2" "highest ks2 = highest ks1" "ks_schedulers ks2 = ks_schedulers ks1"
    by (simp_all add: ks2_def) (simp add: RequestDummyThreadWait_def upd_thread_def)
  then have "chosen ks Q' (ch_cores_needing_scheduling ch') ks2" using chosen_same_view [OF c1] by simp
  moreover have "UpdateHighestPriorityThreadsImpl now cur ks = Some (ch_cores_needing_scheduling ch', ks2)"
    unfolding UpdateHighestPriorityThreadsImpl_def Let_def ch_def [symmetric] f(1) ks1_def ks2_def by simp
  ultimately show thesis using that by blast
qed

end
