(* ===== verification/Thread_Laws.thy ===== *)
theory Thread_Laws
  imports Scheduler_Choice KThread_Ops
begin

text \<open>
  The operations of threads and processes keep the invariant of the scheduler: changes of state and
  suspension, of priority, pinning and unpinning, and new core masks.
\<close>

section \<open>State and suspension\<close>

definition ks_ok :: "kernel \<Rightarrow> bool" where
  "ks_ok ks \<longleftrightarrow> (\<exists>Q. kernel_ok Q ks)"

definition qs_ok :: "kernel \<Rightarrow> bool" where
  "qs_ok ks \<longleftrightarrow> (\<exists>Q. queues_ok Q ks)"

lemma ks_ok_parts: "ks_ok ks \<longleftrightarrow> qs_ok ks \<and> pinned_ok ks"
  by (auto simp: ks_ok_def qs_ok_def kernel_ok_def)

lemma same_view_qs: "same_view ks ks' \<Longrightarrow> qs_ok ks' \<longleftrightarrow> qs_ok ks"
  by (simp add: qs_ok_def same_view_queues)

lemma same_view_ks: "same_view ks ks' \<Longrightarrow> ks_ok ks' \<longleftrightarrow> ks_ok ks"
  by (simp add: ks_ok_def same_view_ok)

lemma pinned_ok_view:
  assumes "\<And>u. pin_view (ks_threads ks' u) = pin_view (ks_threads ks u)"
    "\<And>p. pr_pinned_threads (ks_processes ks' p) = pr_pinned_threads (ks_processes ks p)"
  shows "pinned_ok ks' \<longleftrightarrow> pinned_ok ks"
proof -
  have "th_parent (ks_threads ks' u) = th_parent (ks_threads ks u)"
    "th_physical_affinity_mask (ks_threads ks' u) = th_physical_affinity_mask (ks_threads ks u)"
    "th_num_core_migration_disables (ks_threads ks' u) = th_num_core_migration_disables (ks_threads ks u)" for u
    using assms(1) [of u] by (simp_all add: pin_view_def)
  then show ?thesis unfolding pinned_ok_def assms by simp
qed

lemma pinned_ok_upd: "(\<And>th. pin_view (f th) = pin_view th) \<Longrightarrow> pinned_ok (upd_thread t f ks) \<longleftrightarrow> pinned_ok ks"
proof -
  assume "\<And>th. pin_view (f th) = pin_view th"
  then show ?thesis by (intro pinned_ok_view) (simp_all add: upd_thread_def)
qed

lemma same_view_upd:
  "(\<And>th. sched_view (f th) = sched_view th \<and> pin_view (f th) = pin_view th \<and>
      th_num_kernel_waiters (f th) = th_num_kernel_waiters th) \<Longrightarrow> same_view ks (upd_thread t f ks)"
  by (simp add: same_view_def upd_thread_def)

text \<open>Every change of the state ends with telling the scheduler.\<close>

lemma qs_ok_state:
  "qs_ok ks \<Longrightarrow> qs_ok (OnThreadStateChanged t (th_thread_state (ks_threads ks t)) (upd_thread t (\<lambda>th. th\<lparr>th_thread_state := s\<rparr>) ks))"
  unfolding qs_ok_def using OnThreadStateChanged_queues by blast

definition to_state :: "nat \<Rightarrow> u16 \<Rightarrow> kernel \<Rightarrow> kernel" where
  "to_state t s ks =
     OnThreadStateChanged t (th_thread_state (ks_threads ks t)) (upd_thread t (\<lambda>th. th\<lparr>th_thread_state := s\<rparr>) ks)"

lemma to_state_ok:
  shows "qs_ok ks \<Longrightarrow> qs_ok (to_state t s ks)" "pinned_ok (to_state t s ks) \<longleftrightarrow> pinned_ok ks"
    "pin_view (ks_threads (to_state t s ks) u) = pin_view (ks_threads ks u)"
    "pr_pinned_threads (ks_processes (to_state t s ks) p) = pr_pinned_threads (ks_processes ks p)"
proof -
  show "qs_ok ks \<Longrightarrow> qs_ok (to_state t s ks)" unfolding to_state_def by (rule qs_ok_state)
  show "pinned_ok (to_state t s ks) \<longleftrightarrow> pinned_ok ks"
    unfolding to_state_def pinned_ok_changed by (rule pinned_ok_upd) (simp add: pin_view_def)
  show "pin_view (ks_threads (to_state t s ks) u) = pin_view (ks_threads ks u)"
    by (auto simp: to_state_def OnThreadStateChanged_def Let_def upd_thread_def SetSchedulerUpdateNeeded_def IncrementScheduledCount_def
        RegisterDummyThreadForWakeup_def UnregisterDummyThreadForWakeup_def upd_process_def pin_view_def split: option.split)
  show "pr_pinned_threads (ks_processes (to_state t s ks) p) = pr_pinned_threads (ks_processes ks p)"
    by (auto simp: to_state_def OnThreadStateChanged_def Let_def upd_thread_def SetSchedulerUpdateNeeded_def IncrementScheduledCount_def
        RegisterDummyThreadForWakeup_def UnregisterDummyThreadForWakeup_def upd_process_def split: option.split)
qed

lemma SetState_eq: "SetState t s ks = to_state t ((th_thread_state (ks_threads ks t) AND NOT State_Mask) OR (s AND State_Mask)) ks"
  by (auto simp: SetState_def to_state_def Let_def OnThreadStateChanged_def upd_thread_def)

lemma UpdateState_eq:
  "UpdateState t ks = to_state t (ucast (GetSuspendFlags (ks_threads ks t)) OR (th_thread_state (ks_threads ks t) AND State_Mask)) ks"
  by (auto simp: UpdateState_def to_state_def Let_def OnThreadStateChanged_def upd_thread_def)

lemma Continue_thread_eq: "Continue_thread t ks = to_state t (th_thread_state (ks_threads ks t) AND State_Mask) ks"
  by (simp add: Continue_thread_def to_state_def Let_def)

lemmas states_eq = SetState_eq UpdateState_eq Continue_thread_eq

lemma ks_ok_to_state: "ks_ok ks \<Longrightarrow> ks_ok (to_state t s ks)"
  by (simp add: ks_ok_parts to_state_ok)

lemma SetState_ok: "ks_ok ks \<Longrightarrow> ks_ok (SetState t s ks)"
  by (simp add: SetState_eq ks_ok_to_state)

lemma UpdateState_ok: "ks_ok ks \<Longrightarrow> ks_ok (UpdateState t ks)"
  by (simp add: UpdateState_eq ks_ok_to_state)

lemma Continue_thread_ok: "ks_ok ks \<Longrightarrow> ks_ok (Continue_thread t ks)"
  by (simp add: Continue_thread_eq ks_ok_to_state)

lemma suspend_flags_view:
  "same_view ks (upd_thread t (\<lambda>th. th\<lparr>th_suspend_request_flags := f th\<rparr>) ks)"
  "same_view ks (upd_thread t (\<lambda>th. th\<lparr>th_suspend_allowed_flags := f th\<rparr>) ks)"
  by (rule same_view_upd; simp add: sched_view_def pin_view_def IsDummyThread_def)+

lemma RequestSuspend_ok: "ks_ok ks \<Longrightarrow> ks_ok (RequestSuspend type t ks)"
  using same_view_ks [OF suspend_flags_view(1)] by (simp add: RequestSuspend_def TrySuspend_def UpdateState_ok)

lemma Resume_ok: "ks_ok ks \<Longrightarrow> ks_ok (Resume type t ks)"
  using same_view_ks [OF suspend_flags_view(1)] by (simp add: Resume_def UpdateState_ok)

lemma SetActivity_ok: "ks_ok ks \<Longrightarrow> ks_ok (snd (SetActivity paused t ks))"
  by (simp add: SetActivity_def Let_def RequestSuspend_ok Resume_ok)

lemma wait_result_view: "same_view ks (upd_thread t (\<lambda>th. th\<lparr>th_wait_result := r\<rparr>) ks)"
  by (rule same_view_upd) (simp add: sched_view_def pin_view_def IsDummyThread_def)

lemma wake_ok: "ks_ok ks \<Longrightarrow> ks_ok (wake r t ks)"
  using same_view_ks [OF wait_result_view] by (simp add: wake_def SetState_ok)

lemma EndWait_ok: "ks_ok ks \<Longrightarrow> ks_ok (EndWait r t ks)"
  by (simp add: EndWait_def wake_ok)

text \<open>Two states that differ in nothing the queues and the pinning depend on.\<close>

definition quiet :: "kernel \<Rightarrow> kernel \<Rightarrow> bool" where
  "quiet ks ks' \<longleftrightarrow>
     (\<forall>t. sched_view (ks_threads ks' t) = sched_view (ks_threads ks t) \<and> pin_view (ks_threads ks' t) = pin_view (ks_threads ks t)) \<and>
     ks_priority_queue ks' = ks_priority_queue ks \<and>
     (\<forall>c. sc_core_id (ks_schedulers ks' c) = sc_core_id (ks_schedulers ks c)) \<and>
     (\<forall>p. pr_pinned_threads (ks_processes ks' p) = pr_pinned_threads (ks_processes ks p))"

lemma quiet_refl [simp]: "quiet ks ks"
  by (simp add: quiet_def)

lemma quiet_trans: "quiet a b \<Longrightarrow> quiet b c \<Longrightarrow> quiet a c"
  by (simp add: quiet_def)

lemma quiet_sched:
  assumes "quiet ks ks'"
  shows "sched_ok (ks_threads ks') Q pq \<longleftrightarrow> sched_ok (ks_threads ks) Q pq"
proof -
  have "sched_view (ks_threads ks' t) = sched_view (ks_threads ks t)" for t using assms by (simp add: quiet_def)
  then have "thread_ok (ks_threads ks' t) = thread_ok (ks_threads ks t)"
    "belongs (ks_threads ks' t) k p c = belongs (ks_threads ks t) k p c" for t k p c
    using sched_view_eq by blast+
  then show ?thesis by (simp add: sched_ok_def)
qed

lemma quiet_queues: "quiet ks ks' \<Longrightarrow> queues_ok Q ks' \<longleftrightarrow> queues_ok Q ks"
  using quiet_sched [of ks ks' Q] by (simp add: queues_ok_def quiet_def)

lemma quiet_ks_ok:
  assumes "quiet ks ks'"
  shows "ks_ok ks' \<longleftrightarrow> ks_ok ks"
proof -
  have "pinned_ok ks' \<longleftrightarrow> pinned_ok ks" using assms by (intro pinned_ok_view) (simp_all add: quiet_def)
  then show ?thesis using quiet_queues [OF assms] by (simp add: ks_ok_def kernel_ok_def)
qed

text \<open>A change of priority, with changes in between that do not concern the scheduler.\<close>

lemma quiet_priority_changed:
  assumes "quiet ks ks'"
  shows "quiet (OnThreadPriorityChanged cur t old ks) (OnThreadPriorityChanged cur t old ks')"
proof -
  let ?th = "ks_threads ks t" and ?th' = "ks_threads ks' t"
  have "sched_view ?th' = sched_view ?th" using assms by (simp add: quiet_def)
  then have v: "IsDummyThread ?th' = IsDummyThread ?th" "th_priority ?th' = th_priority ?th" "th_core_id ?th' = th_core_id ?th"
    "th_physical_affinity_mask ?th' = th_physical_affinity_mask ?th" "th_thread_state ?th' = th_thread_state ?th"
    by (simp_all add: sched_view_def)
  then have "PushFront_at p ?th' t = PushFront_at p ?th t" "PushBack_at p ?th' t = PushBack_at p ?th t"
    "Remove_at p ?th' t = Remove_at p ?th t" for p
    by (simp_all add: fun_eq_iff Remove_at_def PushFront_at_def PushBack_at_def)
  then have "ChangePriority old r ?th' t pq = ChangePriority old r ?th t pq" for r pq
    using v by (simp add: ChangePriority_def Let_def)
  then show ?thesis using assms v
    by (auto simp: quiet_def OnThreadPriorityChanged_def Let_def SetSchedulerUpdateNeeded_def IncrementScheduledCount_def upd_process_def
        split: option.split)
qed

lemma priority_changed_ok:
  assumes ok: "ks_ok ks" and q: "quiet (upd_thread t (\<lambda>th. th\<lparr>th_priority := p\<rparr>) ks) ks'"
  shows "ks_ok (OnThreadPriorityChanged cur t (th_priority (ks_threads ks t)) ks')"
proof -
  let ?ks = "upd_thread t (\<lambda>th. th\<lparr>th_priority := p\<rparr>) ks"
  obtain Q where "queues_ok Q ks" "pinned_ok ks" using ok by (auto simp: ks_ok_def kernel_ok_def)
  moreover have "pinned_ok ?ks \<longleftrightarrow> pinned_ok ks" by (rule pinned_ok_upd) (simp add: pin_view_def)
  moreover obtain Q' where "queues_ok Q' (OnThreadPriorityChanged cur t (th_priority (ks_threads ks t)) ?ks)"
    using OnThreadPriorityChanged_queues [OF \<open>queues_ok Q ks\<close> refl] .
  ultimately have "ks_ok (OnThreadPriorityChanged cur t (th_priority (ks_threads ks t)) ?ks)"
    by (auto simp: ks_ok_def kernel_ok_def pinned_ok_changed)
  then show ?thesis using quiet_ks_ok [OF quiet_priority_changed [OF q]] by simp
qed

section \<open>Pinning and core masks\<close>

lemma qs_ok_upd:
  assumes "sched_view (f (ks_threads ks t)) = sched_view (ks_threads ks t)"
  shows "qs_ok (upd_thread t f ks) \<longleftrightarrow> qs_ok ks"
proof -
  have v: "sched_view (ks_threads (upd_thread t f ks) u) = sched_view (ks_threads ks u)" for u
    using assms by (simp add: upd_thread_def)
  have "thread_ok (ks_threads (upd_thread t f ks) u) = thread_ok (ks_threads ks u)"
    "belongs (ks_threads (upd_thread t f ks) u) k p c = belongs (ks_threads ks u) k p c" for u k p c
    using sched_view_eq [OF v] by blast+
  then have "sched_ok (ks_threads (upd_thread t f ks)) Q pq = sched_ok (ks_threads ks) Q pq" for Q pq
    by (simp add: sched_ok_def)
  then show ?thesis by (simp add: qs_ok_def queues_ok_def) (simp add: upd_thread_def)
qed

lemma affinity_changed_ok:
  assumes ok: "qs_ok ks" and ks': "ks' = upd_thread t f ks" and tk: "thread_ok (f (ks_threads ks t))"
    and f: "th_thread_state (f (ks_threads ks t)) = th_thread_state (ks_threads ks t)"
      "IsDummyThread (f (ks_threads ks t)) = IsDummyThread (ks_threads ks t)"
      "th_priority (f (ks_threads ks t)) = th_priority (ks_threads ks t)"
    and old: "m = th_physical_affinity_mask (ks_threads ks t)" "c = th_core_id (ks_threads ks t)"
  shows "qs_ok (OnThreadAffinityMaskChanged t m c ks')"
proof -
  obtain Q where "queues_ok Q ks" using ok by (auto simp: qs_ok_def)
  from OnThreadAffinityMaskChanged_queues [OF this ks' tk f] obtain Q' where
    "queues_ok Q' (OnThreadAffinityMaskChanged t m c ks')" unfolding old by blast
  then show ?thesis by (auto simp: qs_ok_def)
qed

lemma affinity_changed_frame [simp]:
  "ks_threads (OnThreadAffinityMaskChanged t m c ks) = ks_threads ks"
  "pr_pinned_threads (ks_processes (OnThreadAffinityMaskChanged t m c ks) p) = pr_pinned_threads (ks_processes ks p)"
  by (auto simp: OnThreadAffinityMaskChanged_def Let_def SetSchedulerUpdateNeeded_def IncrementScheduledCount_def upd_process_def
      split: option.split)

lemma upd_thread_frame [simp]:
  "ks_threads (upd_thread t f ks) u = (if u = t then f (ks_threads ks t) else ks_threads ks u)"
  "ks_processes (upd_thread t f ks) = ks_processes ks"
  by (simp_all add: upd_thread_def)

lemma UpdateState_frame [simp]:
  "pin_view (ks_threads (UpdateState t ks) u) = pin_view (ks_threads ks u)"
  "pr_pinned_threads (ks_processes (UpdateState t ks) p) = pr_pinned_threads (ks_processes ks p)"
  "pinned_ok (UpdateState t ks) \<longleftrightarrow> pinned_ok ks" "qs_ok ks \<Longrightarrow> qs_ok (UpdateState t ks)"
  by (simp_all add: UpdateState_eq to_state_ok)

lemma wake_frame:
  "pin_view (ks_threads (wake r t ks) u) = pin_view (ks_threads ks u)"
  "pr_pinned_threads (ks_processes (wake r t ks) p) = pr_pinned_threads (ks_processes ks p)"
  "qs_ok ks \<Longrightarrow> qs_ok (wake r t ks)"
proof -
  let ?ks = "upd_thread t (\<lambda>th. th\<lparr>th_wait_result := r\<rparr>) ks"
  have "pin_view (ks_threads ?ks u) = pin_view (ks_threads ks u)" by (simp add: pin_view_def)
  then show "pin_view (ks_threads (wake r t ks) u) = pin_view (ks_threads ks u)" by (simp add: wake_def SetState_eq to_state_ok del: upd_thread_frame)
  show "pr_pinned_threads (ks_processes (wake r t ks) p) = pr_pinned_threads (ks_processes ks p)"
    by (simp add: wake_def SetState_eq to_state_ok)
  show "qs_ok ks \<Longrightarrow> qs_ok (wake r t ks)"
    using same_view_qs [OF wait_result_view] by (simp add: wake_def SetState_eq to_state_ok)
qed

lemma EndWait_frame:
  "pin_view (ks_threads (EndWait r t ks) u) = pin_view (ks_threads ks u)"
  "pr_pinned_threads (ks_processes (EndWait r t ks) p) = pr_pinned_threads (ks_processes ks p)"
  "qs_ok ks \<Longrightarrow> qs_ok (EndWait r t ks)"
  by (simp_all add: EndWait_def wake_frame)

lemma EndWaits_frame:
  "pin_view (ks_threads (fold (EndWait r) ts ks) u) = pin_view (ks_threads ks u)"
  "pr_pinned_threads (ks_processes (fold (EndWait r) ts ks) p) = pr_pinned_threads (ks_processes ks p)"
  "qs_ok ks \<Longrightarrow> qs_ok (fold (EndWait r) ts ks)"
  by (induction ts arbitrary: ks) (simp_all add: EndWait_frame)

lemma thread_ok_one_core:
  "c < NumCores \<Longrightarrow> th_core_id th = int c \<Longrightarrow> th_physical_affinity_mask th = GetCoreBit c \<Longrightarrow> thread_ok th"
  by (auto simp: thread_ok_def spots_ok_def spots_def GetCoreBit_bit)

lemma mask_wf_one_core: "c < NumCores \<Longrightarrow> mask_wf (int c) (GetCoreBit c)"
proof -
  assume c: "c < NumCores"
  then have "bit (GetCoreBit c) c" by (simp add: GetCoreBit_bit)
  then have "GetCoreBit c \<noteq> 0" by auto
  then show ?thesis using c by (simp add: mask_wf_def GetCoreBit_bit)
qed

text \<open>A pinned thread: its queues, and its masks.\<close>

lemma Pin_qs_ok:
  assumes ok: "qs_ok ks" and c: "c < NumCores"
  shows "qs_ok (Pin t c ks)"
proof -
  let ?th = "ks_threads ks t"
  let ?f = "\<lambda>th. th\<lparr>th_is_pinned := True, th_num_core_migration_disables := th_num_core_migration_disables th + 1,
     th_original_physical_ideal_core_id := th_physical_ideal_core_id th,
     th_original_physical_affinity_mask := th_physical_affinity_mask ?th, th_core_id := int c,
     th_physical_ideal_core_id := int c, th_physical_affinity_mask := GetCoreBit c\<rparr>"
  define ks1 where "ks1 = (if th_core_id ?th \<noteq> int c \<or> GetCoreBit c \<noteq> th_physical_affinity_mask ?th
    then OnThreadAffinityMaskChanged t (th_physical_affinity_mask ?th) (th_core_id ?th) (upd_thread t ?f ks)
    else upd_thread t ?f ks)"
  have "qs_ok (OnThreadAffinityMaskChanged t (th_physical_affinity_mask ?th) (th_core_id ?th) (upd_thread t ?f ks))"
    using c by (intro affinity_changed_ok [OF ok refl]) (auto simp: IsDummyThread_def intro: thread_ok_one_core)
  moreover have "qs_ok (upd_thread t ?f ks)" if "th_core_id ?th = int c" "GetCoreBit c = th_physical_affinity_mask ?th"
    using ok that by (subst qs_ok_upd) (simp_all add: sched_view_def IsDummyThread_def)
  ultimately have "qs_ok ks1" by (auto simp: ks1_def)
  then have "qs_ok (upd_thread t (\<lambda>th. th\<lparr>th_suspend_allowed_flags := g th\<rparr>) ks1)" for g
    by (subst qs_ok_upd) (simp_all add: sched_view_def IsDummyThread_def)
  then show ?thesis by (simp add: Pin_def Let_def ks1_def)
qed

lemma Pin_frame:
  "pin_view (ks_threads (Pin t c ks) u) =
     (if u = t then (th_parent (ks_threads ks t), int c, GetCoreBit c, th_physical_ideal_core_id (ks_threads ks t),
        th_physical_affinity_mask (ks_threads ks t), th_num_core_migration_disables (ks_threads ks t) + 1)
      else pin_view (ks_threads ks u))"
  "pr_pinned_threads (ks_processes (Pin t c ks) p) = pr_pinned_threads (ks_processes ks p)"
  by (simp_all add: Pin_def Let_def) (simp add: pin_view_def)

lemma PinCurrentThread_ok:
  assumes ok: "ks_ok ks" and c: "th_current_core_id (ks_threads ks cur) = int c" "c < NumCores"
    and par: "th_parent (ks_threads ks cur) = Some p" and dis: "th_num_core_migration_disables (ks_threads ks cur) = 0"
  shows "ks_ok (PinCurrentThread p cur ks)"
proof (cases "IsTerminationRequested (ks_threads ks cur)")
  case False
  let ?ks1 = "upd_process p (\<lambda>pr. pr\<lparr>pr_pinned_threads := (pr_pinned_threads pr)(c := Some cur)\<rparr>) ks"
  let ?ks2 = "Pin cur c ?ks1"
  have q: "qs_ok ks" and pin: "pinned_ok ks" using ok by (simp_all add: ks_ok_parts)
  have "qs_ok ?ks1" using q by (simp add: qs_ok_def queues_ok_def upd_process_def)
  then have q2: "qs_ok ?ks2" using c(2) by (rule Pin_qs_ok)
  have t1: "ks_threads ?ks1 = ks_threads ks" by (simp add: upd_process_def)
  note v = Pin_frame(1) [of cur c ?ks1, unfolded t1] and pr = Pin_frame(2) [of cur c ?ks1]
  have "masks_ok (pin_view (ks_threads ?ks2 u))" for u
    using pin dis mask_wf_one_core [OF c(2)] unfolding v by (auto simp: pinned_ok_def masks_ok_def pin_view_def)
  moreover have "th_parent (ks_threads ?ks2 u) = Some r \<and> th_physical_affinity_mask (ks_threads ?ks2 u) = GetCoreBit d \<and>
      th_num_core_migration_disables (ks_threads ?ks2 u) \<noteq> 0"
    if d: "d < NumCores" "pr_pinned_threads (ks_processes ?ks2 r) d = Some u" for r d u
  proof (cases "u = cur")
    case True
    have "r = p \<and> d = c"
    proof (rule ccontr)
      assume "\<not> (r = p \<and> d = c)"
      then have "pr_pinned_threads (ks_processes ks r) d = Some cur"
        using d(2) True unfolding pr by (auto simp: upd_process_def split: if_splits)
      then show False using pin d(1) dis by (auto simp: pinned_ok_def)
    qed
    then show ?thesis using v [of cur] True par dis by (simp add: pin_view_def)
  next
    case False
    then have "pr_pinned_threads (ks_processes ks r) d = Some u"
      using d(2) unfolding pr by (auto simp: upd_process_def split: if_splits)
    then show ?thesis using pin d(1) v [of u] False by (auto simp: pinned_ok_def pin_view_def)
  qed
  ultimately have "pinned_ok ?ks2" by (simp add: pinned_ok_def)
  with q2 have "ks_ok ?ks2" by (simp add: ks_ok_parts)
  moreover have "same_view ?ks2 (PinCurrentThread p cur ks)" using False c(1) by (simp add: PinCurrentThread_def)
  ultimately show ?thesis using same_view_ks by blast
next
  case True
  then show ?thesis using ok by (simp add: PinCurrentThread_def)
qed

lemma countl_zero_bit:
  assumes "m \<noteq> 0"
  shows "countl_zero m < 64" "bit m (63 - countl_zero m)"
proof -
  obtain j where j: "j < 64" "bit m j" using word_nonzero_bit [OF assms] by blast
  then have "63 - j \<in> set [0..<64]" "bit m (63 - (63 - j))" by auto
  then have "\<not> (\<forall>i\<in>set [0..<64]. \<not> bit m (63 - i))" by blast
  then have "takeWhile (\<lambda>i. \<not> bit m (63 - i)) [0..<64] \<noteq> [0..<64]" by (metis takeWhile_eq_all_conv)
  then show l: "countl_zero m < 64"
    unfolding countl_zero_def by (metis length_takeWhile_le length_upt minus_nat.diff_0 nat_less_le takeWhile_eq_take take_all order_refl)
  show "bit m (63 - countl_zero m)"
    using nth_length_takeWhile [of "\<lambda>i. \<not> bit m (63 - i)" "[0..<64]"] l by (simp add: countl_zero_def)
qed

lemma core_for_mask_bit: "mask_wf ideal m \<Longrightarrow> core_for_mask ideal m \<ge> 0 \<and> bit m (nat (core_for_mask ideal m))"
proof -
  assume wf: "mask_wf ideal m"
  then have "countl_zero m < 64" "bit m (63 - countl_zero m)" using countl_zero_bit by (simp_all add: mask_wf_def)
  moreover from this have "nat (64 - 1 - int (countl_zero m)) = 63 - countl_zero m" by linarith
  ultimately show ?thesis using wf by (simp add: core_for_mask_def mask_wf_def)
qed

lemma thread_ok_mask:
  assumes "mask_wf ideal (th_physical_affinity_mask th)"
    "th_core_id th \<ge> 0 \<Longrightarrow> bit (th_physical_affinity_mask th) (nat (th_core_id th))"
  shows "thread_ok th"
  using assms by (auto simp: thread_ok_def spots_ok_def spots_def mask_wf_def)

lemma upd_thread_twice: "upd_thread t g (upd_thread t f ks) = upd_thread t (\<lambda>th. g (f th)) ks"
  by (simp add: upd_thread_def)

lemma new_mask_ok:
  assumes ok: "qs_ok ks" and wf: "mask_wf ideal m"
    and f: "th_physical_affinity_mask (f (ks_threads ks t)) = m"
      "th_thread_state (f (ks_threads ks t)) = th_thread_state (ks_threads ks t)"
      "th_thread_type (f (ks_threads ks t)) = th_thread_type (ks_threads ks t)"
      "th_priority (f (ks_threads ks t)) = th_priority (ks_threads ks t)"
      "th_core_id (f (ks_threads ks t)) = th_core_id (ks_threads ks t) \<and>
         (th_core_id (ks_threads ks t) \<ge> 0 \<longrightarrow> bit m (nat (th_core_id (ks_threads ks t)))) \<or>
       th_core_id (f (ks_threads ks t)) = core_for_mask ideal m"
  shows "qs_ok (OnThreadAffinityMaskChanged t (th_physical_affinity_mask (ks_threads ks t)) (th_core_id (ks_threads ks t)) (upd_thread t f ks))"
proof (rule affinity_changed_ok [OF ok refl])
  show "thread_ok (f (ks_threads ks t))"
    using wf f core_for_mask_bit [OF wf] by (intro thread_ok_mask) auto
qed (use f in \<open>auto simp: IsDummyThread_def\<close>)

lemma Unpin_qs_ok:
  assumes ok: "qs_ok ks"
    and wf: "mask_wf (th_original_physical_ideal_core_id (ks_threads ks t)) (th_original_physical_affinity_mask (ks_threads ks t))"
  shows "qs_ok (Unpin t ks)"
proof -
  let ?th = "ks_threads ks t"
  let ?m = "th_original_physical_affinity_mask ?th"
  let ?f = "\<lambda>th. th\<lparr>th_is_pinned := False, th_num_core_migration_disables := th_num_core_migration_disables th - 1,
     th_physical_ideal_core_id := th_original_physical_ideal_core_id th, th_physical_affinity_mask := ?m\<rparr>"
  let ?g = "\<lambda>th. th\<lparr>th_core_id := core_for_mask (th_physical_ideal_core_id th) ?m\<rparr>"
  let ?h = "if \<not> GetAffinity (nat (th_core_id ?th)) ?m then (\<lambda>th. ?g (?f th)) else ?f"
  define ks1 where "ks1 = (if ?m \<noteq> th_physical_affinity_mask ?th
    then OnThreadAffinityMaskChanged t (th_physical_affinity_mask ?th) (th_core_id ?th) (upd_thread t ?h ks) else upd_thread t ?f ks)"
  have "qs_ok (OnThreadAffinityMaskChanged t (th_physical_affinity_mask ?th) (th_core_id ?th) (upd_thread t ?h ks))"
    by (rule new_mask_ok [OF ok wf]) (auto simp: GetAffinity_bit)
  moreover have "qs_ok (upd_thread t ?f ks)" if "?m = th_physical_affinity_mask ?th"
    using ok that by (subst qs_ok_upd) (simp_all add: sched_view_def IsDummyThread_def)
  ultimately have "qs_ok ks1" by (auto simp: ks1_def)
  then have flags: "qs_ok (upd_thread t (\<lambda>th. th\<lparr>th_suspend_allowed_flags := g th\<rparr>) ks1)" for g
    by (subst qs_ok_upd) (simp_all add: sched_view_def IsDummyThread_def)
  define ks2 where "ks2 = (if \<not> IsTerminationRequested (ks_threads ks1 t)
    then UpdateState t (upd_thread t (\<lambda>th. th\<lparr>th_suspend_allowed_flags := th_suspend_allowed_flags th OR suspend_bit Suspend_Thread\<rparr>) ks1)
    else ks1)"
  have "qs_ok ks2" using \<open>qs_ok ks1\<close> flags by (simp add: ks2_def)
  then have "qs_ok (upd_thread t (\<lambda>th. th\<lparr>th_pinned_waiter_list := []\<rparr>) (fold (EndWait ResultSuccess) ws ks2))" for ws
    by (subst qs_ok_upd) (simp_all add: sched_view_def IsDummyThread_def EndWaits_frame)
  moreover have "Unpin t ks = upd_thread t (\<lambda>th. th\<lparr>th_pinned_waiter_list := []\<rparr>) (fold (EndWait ResultSuccess) (th_pinned_waiter_list (ks_threads ks2 t)) ks2)"
    by (simp add: Unpin_def Let_def ks2_def ks1_def upd_thread_twice cong: if_cong)
  ultimately show ?thesis by simp
qed

lemma Unpin_frame:
  "pin_view (ks_threads (Unpin t ks) u) =
     (if u = t then (th_parent (ks_threads ks t), th_original_physical_ideal_core_id (ks_threads ks t),
        th_original_physical_affinity_mask (ks_threads ks t), th_original_physical_ideal_core_id (ks_threads ks t),
        th_original_physical_affinity_mask (ks_threads ks t), th_num_core_migration_disables (ks_threads ks t) - 1)
      else pin_view (ks_threads ks u))"
  "pr_pinned_threads (ks_processes (Unpin t ks) p) = pr_pinned_threads (ks_processes ks p)"
proof -
  have c: "pin_view (ks_threads (upd_thread t (\<lambda>th. th\<lparr>th_pinned_waiter_list := []\<rparr>) x) u) = pin_view (ks_threads x u)"
    "pin_view (ks_threads (upd_thread t (\<lambda>th. th\<lparr>th_suspend_allowed_flags := g th\<rparr>) x) u) = pin_view (ks_threads x u)" for x g
    by (simp_all add: pin_view_def)
  show "pin_view (ks_threads (Unpin t ks) u) =
     (if u = t then (th_parent (ks_threads ks t), th_original_physical_ideal_core_id (ks_threads ks t),
        th_original_physical_affinity_mask (ks_threads ks t), th_original_physical_ideal_core_id (ks_threads ks t),
        th_original_physical_affinity_mask (ks_threads ks t), th_num_core_migration_disables (ks_threads ks t) - 1)
      else pin_view (ks_threads ks u))"
    unfolding Unpin_def Let_def c EndWaits_frame
    by (simp add: c del: upd_thread_frame(1)) (simp add: pin_view_def)
  show "pr_pinned_threads (ks_processes (Unpin t ks) p) = pr_pinned_threads (ks_processes ks p)"
    by (simp add: Unpin_def Let_def EndWaits_frame)
qed

lemma unpinned_pinned_ok:
  assumes pin: "pinned_ok ks" and t: "pr_pinned_threads (ks_processes ks p) c = Some t" "c < NumCores"
    and v: "\<And>u. pin_view (ks_threads ks' u) = pin_view (ks_threads (Unpin t ks) u)"
    and pr: "\<And>r d. pr_pinned_threads (ks_processes ks' r) d =
      (if r = p \<and> d = c then None else pr_pinned_threads (ks_processes ks r) d)"
  shows "pinned_ok ks'"
proof -
  have tf: "th_parent (ks_threads ks t) = Some p" "th_physical_affinity_mask (ks_threads ks t) = GetCoreBit c"
    "th_num_core_migration_disables (ks_threads ks t) \<noteq> 0" using pin t by (auto simp: pinned_ok_def)
  have m: "masks_ok (pin_view (ks_threads ks u))" for u using pin by (simp add: pinned_ok_def)
  have "masks_ok (pin_view (ks_threads ks' u))" for u
    using m [of u] m [of t] tf(3) unfolding v Unpin_frame(1) by (auto simp: masks_ok_def pin_view_def)
  moreover have "th_parent (ks_threads ks' u) = Some r \<and> th_physical_affinity_mask (ks_threads ks' u) = GetCoreBit d \<and>
      th_num_core_migration_disables (ks_threads ks' u) \<noteq> 0"
    if d: "d < NumCores" "pr_pinned_threads (ks_processes ks' r) d = Some u" for r d u
  proof -
    have r: "pr_pinned_threads (ks_processes ks r) d = Some u" "\<not> (r = p \<and> d = c)" using d(2) pr by (auto split: if_splits)
    have uf: "th_parent (ks_threads ks u) = Some r" "th_physical_affinity_mask (ks_threads ks u) = GetCoreBit d"
      "th_num_core_migration_disables (ks_threads ks u) \<noteq> 0" using pin d(1) r(1) by (auto simp: pinned_ok_def)
    have "u \<noteq> t"
    proof
      assume "u = t"
      then have "r = p" "GetCoreBit d = GetCoreBit c" using uf tf by auto
      then have "d = c" using GetCoreBit_bit [OF d(1), of d] GetCoreBit_bit [OF t(2), of d] by simp
      then show False using r(2) \<open>r = p\<close> by simp
    qed
    then show ?thesis using uf v [of u] unfolding Unpin_frame(1) by (simp add: pin_view_def)
  qed
  ultimately show ?thesis by (simp add: pinned_ok_def)
qed

lemma Unpin_qs_ok_pinned:
  assumes "ks_ok ks" "pr_pinned_threads (ks_processes ks p) c = Some t" "c < NumCores"
  shows "qs_ok (Unpin t ks)"
proof (rule Unpin_qs_ok)
  have pin: "pinned_ok ks" and "qs_ok ks" using assms(1) by (simp_all add: ks_ok_parts)
  then show "qs_ok ks" by simp
  have "th_num_core_migration_disables (ks_threads ks t) \<noteq> 0" "masks_ok (pin_view (ks_threads ks t))"
    using pin assms(2,3) by (auto simp: pinned_ok_def)
  then show "mask_wf (th_original_physical_ideal_core_id (ks_threads ks t)) (th_original_physical_affinity_mask (ks_threads ks t))"
    by (simp add: masks_ok_def pin_view_def)
qed

lemma UnpinCurrentThread_ok:
  assumes ok: "ks_ok ks" and c: "th_current_core_id (ks_threads ks cur) = int c" "c < NumCores"
    and t: "pr_pinned_threads (ks_processes ks p) c = Some cur"
  shows "ks_ok (UnpinCurrentThread p cur ks)"
proof -
  let ?f = "\<lambda>pr. pr\<lparr>pr_pinned_threads := (pr_pinned_threads pr)(c := None)\<rparr>"
  let ?ks = "upd_process p ?f (Unpin cur ks)"
  have "qs_ok ?ks" using Unpin_qs_ok_pinned [OF ok t c(2)] by (simp add: qs_ok_def queues_ok_def upd_process_def)
  moreover have "pinned_ok ?ks"
  proof (rule unpinned_pinned_ok [OF _ t c(2)])
    show "pinned_ok ks" using ok by (simp add: ks_ok_parts)
  qed (auto simp: upd_process_def Unpin_frame)
  moreover have "same_view ?ks (UnpinCurrentThread p cur ks)" using c(1) by (simp add: UnpinCurrentThread_def Let_def)
  ultimately show ?thesis using same_view_ks ks_ok_parts by blast
qed

lemma UnpinThread_ok:
  assumes ok: "ks_ok ks" and c: "th_core_id (ks_threads ks t) = int c" "c < NumCores"
    and t: "pr_pinned_threads (ks_processes ks p) c = Some t"
  shows "ks_ok (UnpinThread p t ks)"
proof -
  let ?f = "\<lambda>pr. pr\<lparr>pr_pinned_threads := (pr_pinned_threads pr)(c := None)\<rparr>"
  let ?ks = "upd_process p ?f ks"
  have th: "ks_threads ?ks = ks_threads ks" by (simp add: upd_process_def)
  have pin: "pinned_ok ks" "qs_ok ks" using ok by (simp_all add: ks_ok_parts)
  then have "th_num_core_migration_disables (ks_threads ks t) \<noteq> 0" "masks_ok (pin_view (ks_threads ks t))"
    using t c(2) by (auto simp: pinned_ok_def)
  then have "mask_wf (th_original_physical_ideal_core_id (ks_threads ?ks t)) (th_original_physical_affinity_mask (ks_threads ?ks t))"
    by (simp add: masks_ok_def pin_view_def th)
  moreover have "qs_ok ?ks" using pin(2) by (simp add: qs_ok_def queues_ok_def upd_process_def)
  ultimately have "qs_ok (Unpin t ?ks)" by (intro Unpin_qs_ok)
  moreover have "pinned_ok (Unpin t ?ks)"
    by (rule unpinned_pinned_ok [OF pin(1) t c(2)]) (auto simp: Unpin_frame th, auto simp: upd_process_def)
  moreover have "same_view (Unpin t ?ks) (UnpinThread p t ks)" using c(1) by (simp add: UnpinThread_def Let_def)
  ultimately show ?thesis using same_view_ks ks_ok_parts by blast
qed

lemma ConvertVirtualCoreMaskToPhysical_bit:
  "bit (ConvertVirtualCoreMaskToPhysical v p) c \<longleftrightarrow> bit p c \<or> (\<exists>i. bit v i \<and> c = VirtualToPhysicalCoreMap ! i)"
proof (induction v p rule: ConvertVirtualCoreMaskToPhysical.induct)
  case (1 v p)
  show ?case
  proof (cases "v = 0")
    case True
    then show ?thesis by (simp add: ConvertVirtualCoreMaskToPhysical.simps)
  next
    case False
    let ?n = "countr_zero v"
    have n: "bit v ?n" using False by (rule countr_zero_bit(1))
    then have "?n < length VirtualToPhysicalCoreMap"
      using bit_imp_le_length [OF n] by (simp add: VirtualToPhysicalCoreMap_def)
    then have "VirtualToPhysicalCoreMap ! ?n \<in> set VirtualToPhysicalCoreMap" by (rule nth_mem)
    then have "VirtualToPhysicalCoreMap ! ?n < 64" by (auto simp: VirtualToPhysicalCoreMap_def)
    then have b: "bit (push_bit (VirtualToPhysicalCoreMap ! ?n) (1 :: u64)) c \<longleftrightarrow> c = VirtualToPhysicalCoreMap ! ?n"
      by (auto simp: bit_simps)
    have "bit (ConvertVirtualCoreMaskToPhysical v p) c \<longleftrightarrow>
        bit (ConvertVirtualCoreMaskToPhysical (ClearAffinityBit v ?n) (p OR push_bit (VirtualToPhysicalCoreMap ! ?n) 1)) c"
      using False by (subst ConvertVirtualCoreMaskToPhysical.simps) (simp add: Let_def)
    then show ?thesis using n b unfolding 1 [OF False refl] bit_or_iff bit_ClearAffinityBit by blast
  qed
qed

lemma virtual_core_bound: "i < 64 \<Longrightarrow> VirtualToPhysicalCoreMap ! i < NumCores"
proof -
  assume "i < 64"
  then have "VirtualToPhysicalCoreMap ! i \<in> set VirtualToPhysicalCoreMap"
    by (intro nth_mem) (simp add: VirtualToPhysicalCoreMap_def)
  then show ?thesis by (auto simp: VirtualToPhysicalCoreMap_def NumCores_def)
qed

lemma converted_mask_wf:
  assumes v: "v \<noteq> 0" and core: "core \<ge> 0 \<Longrightarrow> bit v (nat core)"
  shows "mask_wf (if core \<ge> 0 then int (VirtualToPhysicalCoreMap ! nat core) else core) (ConvertVirtualCoreMaskToPhysical v 0)"
proof -
  obtain j where "bit v j" using word_nonzero_bit [OF v] by blast
  then have "bit (ConvertVirtualCoreMaskToPhysical v 0) (VirtualToPhysicalCoreMap ! j)"
    by (auto simp: ConvertVirtualCoreMaskToPhysical_bit)
  then have "ConvertVirtualCoreMaskToPhysical v 0 \<noteq> 0" by auto
  moreover have "c < NumCores" if "bit (ConvertVirtualCoreMaskToPhysical v 0) c" for c
    using that virtual_core_bound bit_imp_le_length by (fastforce simp: ConvertVirtualCoreMaskToPhysical_bit)
  ultimately show ?thesis using core by (auto simp: mask_wf_def ConvertVirtualCoreMaskToPhysical_bit)
qed

lemma SetCoreMask_ok:
  assumes ok: "ks_ok ks" and v: "v \<noteq> 0" and core: "core_id \<ge> 0 \<Longrightarrow> bit v (nat core_id)"
    and r: "SetCoreMask core_id v t ks = Some (res, ks')"
  shows "ks_ok ks'"
proof (cases "res = ResultInvalidCombination")
  case True
  then show ?thesis using r ok by (auto simp: SetCoreMask_def Let_def split: if_splits)
next
  case False
  let ?th = "ks_threads ks t"
  define ideal where "ideal = (if core_id \<noteq> IdealCoreNoUpdate then core_id else th_virtual_ideal_core_id ?th)"
  define phys where "phys = (if ideal \<ge> 0 then int (VirtualToPhysicalCoreMap ! nat ideal) else ideal)"
  define m where "m = ConvertVirtualCoreMaskToPhysical v 0"
  note unfolded = SetCoreMask_def Let_def ideal_def [symmetric] phys_def [symmetric] m_def [symmetric]
  have "ideal \<ge> 0 \<Longrightarrow> bit v (nat ideal)"
    using core r False by (auto simp: ideal_def SetCoreMask_def Let_def bit_iff_and_push_bit_not_eq_0 and.commute split: if_splits)
  from converted_mask_wf [OF v this] have wf: "mask_wf phys m" by (simp add: phys_def m_def)
  have q: "qs_ok ks" and pin: "pinned_ok ks" using ok by (simp_all add: ks_ok_parts)
  let ?f = "\<lambda>th. th\<lparr>th_virtual_ideal_core_id := ideal, th_virtual_affinity_mask := v\<rparr>"
  show ?thesis
  proof (cases "th_num_core_migration_disables ?th = 0")
    case True
    let ?g = "\<lambda>th. (?f th)\<lparr>th_physical_ideal_core_id := phys, th_physical_affinity_mask := m\<rparr>"
    let ?h = "if th_core_id ?th \<ge> 0 \<and> \<not> GetAffinity (nat (th_core_id ?th)) m
      then (\<lambda>th. (?g th)\<lparr>th_core_id := core_for_mask phys m\<rparr>) else ?g"
    have ks': "ks' = (if m \<noteq> th_physical_affinity_mask ?th
      then OnThreadAffinityMaskChanged t (th_physical_affinity_mask ?th) (th_core_id ?th) (upd_thread t ?h ks)
      else upd_thread t ?g ks)"
      using r True False unfolding unfolded by (auto simp: upd_thread_twice split: if_splits)
    have "qs_ok (OnThreadAffinityMaskChanged t (th_physical_affinity_mask ?th) (th_core_id ?th) (upd_thread t ?h ks))"
      by (rule new_mask_ok [OF q wf]) (auto simp: GetAffinity_bit)
    moreover have "qs_ok (upd_thread t ?g ks)" if "m = th_physical_affinity_mask ?th"
      using q that by (subst qs_ok_upd) (simp_all add: sched_view_def IsDummyThread_def)
    ultimately have "qs_ok ks'" by (auto simp: ks')
    moreover have "pinned_ok (upd_thread t x ks)" if x: "pin_view (x ?th) = pin_view (?g ?th)" for x
      using pin True wf x by (auto simp: pinned_ok_def masks_ok_def pin_view_def)
    then have "pinned_ok ks'" by (simp add: ks' pinned_ok_changed pin_view_def)
    ultimately show ?thesis by (simp add: ks_ok_parts)
  next
    case dis: False
    let ?g = "\<lambda>th. (?f th)\<lparr>th_original_physical_ideal_core_id := phys, th_original_physical_affinity_mask := m\<rparr>"
    have ks': "ks' = upd_thread t ?g ks"
      using r dis False unfolding unfolded by (auto simp: upd_thread_twice split: if_splits)
    have "qs_ok ks'" using q unfolding ks' by (subst qs_ok_upd) (simp_all add: sched_view_def IsDummyThread_def)
    moreover have "pinned_ok ks'" using pin wf unfolding ks' by (auto simp: pinned_ok_def masks_ok_def pin_view_def)
    ultimately show ?thesis by (simp add: ks_ok_parts)
  qed
qed

text \<open>A mask that is not the empty one, with an ideal core in it, is always set.\<close>

lemma SetCoreMask_total:
  assumes "core_id \<noteq> IdealCoreNoUpdate \<or> th_virtual_ideal_core_id (ks_threads ks t) \<ge> 0"
  shows "\<exists>res ks'. SetCoreMask core_id v t ks = Some (res, ks')"
  using assms by (auto simp: SetCoreMask_def Let_def)

end
