(* ===== verification/Lock_Operations.thy ===== *)
theory Lock_Operations
  imports Lock_Trees Thread_Laws
begin

text \<open>
  Adding and removing a waiter keep the lock objects in order, change the owner a thread waits for and
  nothing the scheduler looks at.
\<close>

section \<open>Joining and leaving\<close>

definition held :: "kernel \<Rightarrow> nat \<Rightarrow> nat list" where
  "held ks t = th_held_lock_info_list (ks_threads ks t)"

definition waiting :: "kernel \<Rightarrow> nat \<Rightarrow> nat option" where
  "waiting ks t = th_waiting_lock_info (ks_threads ks t)"

definition address :: "kernel \<Rightarrow> nat \<Rightarrow> u64 \<times> bool" where
  "address ks t = (th_address_key (ks_threads ks t), th_is_kernel_address_key (ks_threads ks t))"

definition kernel_waiters :: "(nat \<Rightarrow> LockInfo) \<Rightarrow> nat list \<Rightarrow> int" where
  "kernel_waiters I ls = (\<Sum>l\<leftarrow>ls. if li_is_kernel_address_key (I l) then int (li_waiter_count (I l)) else 0)"

definition locks_ok :: "kernel \<Rightarrow> bool" where
  "locks_ok ks \<longleftrightarrow>
     lock_inv (held ks) (waiting ks) (ks_lock_infos ks) (ks_free_lock_infos ks) (priority_of ks) (address ks) \<and>
     finite {u. waiting ks u \<noteq> None} \<and>
     (\<forall>t. th_num_kernel_waiters (ks_threads ks t) = kernel_waiters (ks_lock_infos ks) (held ks t))"

text \<open>All the lock objects there are: the free ones and those of the held locks.\<close>

definition objects :: "kernel \<Rightarrow> nat set" where
  "objects ks = set (ks_free_lock_infos ks) \<union> (\<Union>t. set (held ks t))"

text \<open>A thread holds one lock object at most for an address of the kernel.\<close>

definition lock_key :: "kernel \<Rightarrow> nat \<Rightarrow> u64 \<times> bool" where
  "lock_key ks l = (li_address_key (ks_lock_infos ks l), li_is_kernel_address_key (ks_lock_infos ks l))"

definition one_lock :: "kernel \<Rightarrow> bool" where
  "one_lock ks \<longleftrightarrow> (\<forall>t l l'. l \<in> set (held ks t) \<longrightarrow> l' \<in> set (held ks t) \<longrightarrow> lock_key ks l = lock_key ks l' \<longrightarrow> snd (lock_key ks l) \<longrightarrow> l = l')"

lemma one_lock_mono:
  assumes "\<And>x. lock_key ks' x = lock_key ks x" "\<And>t. set (held ks' t) \<subseteq> set (held ks t)"
  shows "one_lock ks \<longrightarrow> one_lock ks'"
  unfolding one_lock_def assms(1) using assms(2) by blast

text \<open>What the operations on locks leave alone.\<close>

definition other_fields :: "KThread \<Rightarrow> nat \<times> u64 \<times> u32 \<times> bool \<times> nat option \<times> u64 \<times> Result" where
  "other_fields th = (th_base_priority th, th_address_key th, th_address_key_value th, th_is_kernel_address_key th,
     th_condvar_tree th, th_condvar_key th, th_wait_result th)"

definition locks_only :: "kernel \<Rightarrow> kernel \<Rightarrow> bool" where
  "locks_only ks ks' \<longleftrightarrow> quiet ks ks' \<and> (\<forall>t. other_fields (ks_threads ks' t) = other_fields (ks_threads ks t)) \<and>
     ks_trees ks' = ks_trees ks \<and> ks_user_memory ks' = ks_user_memory ks"

lemma locks_only_refl [simp]: "locks_only ks ks"
  by (simp add: locks_only_def)

lemma locks_only_trans: "locks_only a b \<Longrightarrow> locks_only b c \<Longrightarrow> locks_only a c"
  by (auto simp: locks_only_def intro: quiet_trans)

lemma locks_only_fields:
  assumes "locks_only ks ks'"
  shows "priority_of ks' = priority_of ks" "address ks' = address ks"
    "th_base_priority (ks_threads ks' t) = th_base_priority (ks_threads ks t)"
    "th_condvar_tree (ks_threads ks' t) = th_condvar_tree (ks_threads ks t)"
    "th_condvar_key (ks_threads ks' t) = th_condvar_key (ks_threads ks t)"
    "th_address_key_value (ks_threads ks' t) = th_address_key_value (ks_threads ks t)"
    "th_thread_state (ks_threads ks' t) = th_thread_state (ks_threads ks t)"
  using assms by (auto simp: locks_only_def quiet_def other_fields_def sched_view_def priority_of_def address_def fun_eq_iff)

lemmas lock_views = quiet_def sched_view_def pin_view_def IsDummyThread_def other_fields_def upd_thread_def upd_lock_def
  SetSchedulerUpdateNeeded_def add_kernel_waiters_def AddHeldLock_def drop_held_def lock_Free_def lock_AddWaiter_def
  lock_RemoveWaiter_def Let_def

lemma locks_only_ops [simp]:
  "locks_only ks (SetSchedulerUpdateNeeded ks') \<longleftrightarrow> locks_only ks ks'"
  "locks_only ks (add_kernel_waiters t n ks') \<longleftrightarrow> locks_only ks ks'"
  "locks_only ks (AddHeldLock t l ks') \<longleftrightarrow> locks_only ks ks'"
  "locks_only ks (drop_held t l ks') \<longleftrightarrow> locks_only ks ks'"
  "locks_only ks (lock_Free l ks') \<longleftrightarrow> locks_only ks ks'"
  "locks_only ks (lock_AddWaiter l t ks') \<longleftrightarrow> locks_only ks ks'"
  "locks_only ks (snd (lock_RemoveWaiter l t ks')) \<longleftrightarrow> locks_only ks ks'"
  by (auto simp: locks_only_def lock_views)

lemma held_ops [simp]:
  "held (SetSchedulerUpdateNeeded ks) = held ks" "held (add_kernel_waiters t n ks) = held ks"
  "held (AddHeldLock t l ks) = (held ks)(t := l # held ks t)" "held (drop_held t l ks) = (held ks)(t := remove1 l (held ks t))"
  "held (lock_Free l ks) = held ks" "held (lock_AddWaiter l t ks) = held ks" "held (snd (lock_RemoveWaiter l t ks)) = held ks"
  by (auto simp: fun_eq_iff held_def lock_views)

lemma waiting_ops [simp]:
  "waiting (SetSchedulerUpdateNeeded ks) = waiting ks" "waiting (add_kernel_waiters t n ks) = waiting ks"
  "waiting (AddHeldLock t l ks) = waiting ks" "waiting (drop_held t l ks) = waiting ks" "waiting (lock_Free l ks) = waiting ks"
  "waiting (lock_AddWaiter l t ks) = (waiting ks)(t := Some l)" "waiting (snd (lock_RemoveWaiter l t ks)) = (waiting ks)(t := None)"
  by (auto simp: fun_eq_iff waiting_def lock_views)

lemma lock_infos_ops [simp]:
  "ks_lock_infos (SetSchedulerUpdateNeeded ks) = ks_lock_infos ks" "ks_lock_infos (add_kernel_waiters t n ks) = ks_lock_infos ks"
  "ks_lock_infos (AddHeldLock t l ks) = (ks_lock_infos ks)(l := (ks_lock_infos ks l)\<lparr>li_owner := Some t\<rparr>)"
  "ks_lock_infos (drop_held t l ks) = ks_lock_infos ks" "ks_lock_infos (lock_Free l ks) = ks_lock_infos ks"
  "ks_lock_infos (lock_AddWaiter l t ks) = (ks_lock_infos ks)(l := (ks_lock_infos ks l)
     \<lparr>li_tree := tree_insert_by (by_urgency (priority_of ks)) t (li_tree (ks_lock_infos ks l)),
      li_waiter_count := li_waiter_count (ks_lock_infos ks l) + 1\<rparr>)"
  "ks_lock_infos (snd (lock_RemoveWaiter l t ks)) = (ks_lock_infos ks)(l := (ks_lock_infos ks l)
     \<lparr>li_tree := remove1 t (li_tree (ks_lock_infos ks l)), li_waiter_count := li_waiter_count (ks_lock_infos ks l) - 1\<rparr>)"
proof -
  have "lock_before (ks_threads ks) = by_urgency (priority_of ks)" by (simp add: fun_eq_iff lock_before_def priority_of_def)
  then show "ks_lock_infos (lock_AddWaiter l t ks) = (ks_lock_infos ks)(l := (ks_lock_infos ks l)
     \<lparr>li_tree := tree_insert_by (by_urgency (priority_of ks)) t (li_tree (ks_lock_infos ks l)),
      li_waiter_count := li_waiter_count (ks_lock_infos ks l) + 1\<rparr>)" by (simp add: lock_views)
qed (simp_all add: lock_views)

lemma free_ops [simp]:
  "ks_free_lock_infos (SetSchedulerUpdateNeeded ks) = ks_free_lock_infos ks"
  "ks_free_lock_infos (add_kernel_waiters t n ks) = ks_free_lock_infos ks"
  "ks_free_lock_infos (AddHeldLock t l ks) = ks_free_lock_infos ks" "ks_free_lock_infos (drop_held t l ks) = ks_free_lock_infos ks"
  "ks_free_lock_infos (lock_Free l ks) = l # ks_free_lock_infos ks"
  "ks_free_lock_infos (lock_AddWaiter l t ks) = ks_free_lock_infos ks"
  "ks_free_lock_infos (snd (lock_RemoveWaiter l t ks)) = ks_free_lock_infos ks"
  by (simp_all add: lock_views)

definition kernel_count :: "kernel \<Rightarrow> nat \<Rightarrow> int" where
  "kernel_count ks t = th_num_kernel_waiters (ks_threads ks t)"

lemma kernel_count_ops [simp]:
  "kernel_count (SetSchedulerUpdateNeeded ks) = kernel_count ks"
  "kernel_count (add_kernel_waiters t n ks) = (kernel_count ks)(t := kernel_count ks t + n)"
  "kernel_count (AddHeldLock t l ks) = kernel_count ks" "kernel_count (drop_held t l ks) = kernel_count ks"
  "kernel_count (lock_Free l ks) = kernel_count ks" "kernel_count (lock_AddWaiter l t ks) = kernel_count ks"
  "kernel_count (snd (lock_RemoveWaiter l t ks)) = kernel_count ks"
  by (auto simp: fun_eq_iff kernel_count_def lock_views)

lemma lock_RemoveWaiter_empty: "fst (lock_RemoveWaiter l t ks) \<longleftrightarrow> li_waiter_count (ks_lock_infos ks l) - 1 = 0"
  by (simp add: lock_views)

lemma locks_okI:
  assumes "lock_inv (held ks) (waiting ks) (ks_lock_infos ks) (ks_free_lock_infos ks) (priority_of ks) (address ks)"
    "finite {u. waiting ks u \<noteq> None}" "\<And>t. kernel_count ks t = kernel_waiters (ks_lock_infos ks) (held ks t)"
  shows "locks_ok ks"
  using assms by (simp add: locks_ok_def kernel_count_def)

lemma locks_ok_inv:
  assumes "locks_ok ks"
  shows "lock_inv (held ks) (waiting ks) (ks_lock_infos ks) (ks_free_lock_infos ks) (priority_of ks) (address ks)"
    "finite {u. waiting ks u \<noteq> None}" "kernel_count ks t = kernel_waiters (ks_lock_infos ks) (held ks t)"
  using assms by (simp_all add: locks_ok_def kernel_count_def)

lemma GetLockOwner_alt: "GetLockOwner t ks = (case waiting ks t of None \<Rightarrow> None | Some l \<Rightarrow> li_owner (ks_lock_infos ks l))"
  by (simp add: GetLockOwner_def waiting_def)

lemma owner_waiting:
  assumes "locks_ok ks"
  shows "GetLockOwner u ks = None \<longleftrightarrow> waiting ks u = None"
    "GetLockOwner u ks = Some t \<longleftrightarrow> (\<exists>l. waiting ks u = Some l \<and> l \<in> set (held ks t))"
proof -
  note inv = locks_ok_inv(1) [OF assms]
  have "li_owner (ks_lock_infos ks l) = Some v \<longleftrightarrow> l \<in> set (held ks v)" if "waiting ks u = Some l" for l v
    using lock_inv_waiting [OF inv that] lock_inv_held(1) [OF inv] by (metis option.inject)
  moreover have "\<exists>v. li_owner (ks_lock_infos ks l) = Some v" if "waiting ks u = Some l" for l
    using lock_inv_waiting [OF inv that] by metis
  ultimately show "GetLockOwner u ks = None \<longleftrightarrow> waiting ks u = None"
    "GetLockOwner u ks = Some t \<longleftrightarrow> (\<exists>l. waiting ks u = Some l \<and> l \<in> set (held ks t))"
    by (cases "waiting ks u"; fastforce simp: GetLockOwner_alt)+
qed

lemma finite_waiting_upd: "finite {u. W u \<noteq> None} \<Longrightarrow> finite {u. (W(v := x)) u \<noteq> None}"
  by (rule finite_subset [of _ "insert v {u. W u \<noteq> None}"]) auto

definition waiters_in :: "LockInfo \<Rightarrow> int" where
  "waiters_in li = (if li_is_kernel_address_key li then int (li_waiter_count li) else 0)"

lemma kernel_waiters_sum: "kernel_waiters I ls = (\<Sum>l\<leftarrow>ls. waiters_in (I l))"
  by (simp add: kernel_waiters_def waiters_in_def)

lemma kernel_waiters_other: "l \<notin> set ls \<Longrightarrow> kernel_waiters (I(l := li)) ls = kernel_waiters I ls"
  unfolding kernel_waiters_sum by (induction ls) auto

lemma kernel_waiters_upd:
  "distinct ls \<Longrightarrow> l \<in> set ls \<Longrightarrow> kernel_waiters (I(l := li)) ls = kernel_waiters I ls - waiters_in (I l) + waiters_in li"
  using kernel_waiters_other [of l _ I li] by (induction ls) (auto simp: kernel_waiters_sum)

lemma kernel_waiters_remove: "l \<in> set ls \<Longrightarrow> kernel_waiters I (remove1 l ls) = kernel_waiters I ls - waiters_in (I l)"
  unfolding kernel_waiters_sum by (induction ls) auto

lemma kernel_waiters_Cons: "kernel_waiters I (l # ls) = waiters_in (I l) + kernel_waiters I ls"
  by (simp add: kernel_waiters_sum)

text \<open>Whether a thread can wait for another one at its address: an object is there, or can be had.\<close>

definition can_wait :: "nat \<Rightarrow> nat \<Rightarrow> kernel \<Rightarrow> bool" where
  "can_wait t u ks \<longleftrightarrow>
     FindHeldLock t (th_address_key (ks_threads ks u)) (th_is_kernel_address_key (ks_threads ks u)) ks \<noteq> None \<or>
     ks_free_lock_infos ks \<noteq> []"

lemma FindHeldLock_found:
  assumes "FindHeldLock t k b ks = Some l"
  shows "l \<in> set (held ks t)" "li_address_key (ks_lock_infos ks l) = k" "li_is_kernel_address_key (ks_lock_infos ks l) = b"
  using assms unfolding FindHeldLock_def held_def find_Some_iff by (auto simp: in_set_conv_nth)

lemma FindHeldLock_cong:
  "held ks' t = held ks t \<Longrightarrow> ks_lock_infos ks' = ks_lock_infos ks \<Longrightarrow> FindHeldLock t k b ks' = FindHeldLock t k b ks"
  by (simp add: FindHeldLock_def held_def)

definition counted :: "nat \<Rightarrow> nat \<Rightarrow> int \<Rightarrow> kernel \<Rightarrow> kernel" where
  "counted t u n ks =
     (if th_is_kernel_address_key (ks_threads ks u) then SetSchedulerUpdateNeeded (add_kernel_waiters t n ks) else ks)"

lemma counted_ops [simp]:
  "locks_only ks (counted t u n ks') \<longleftrightarrow> locks_only ks ks'" "held (counted t u n ks) = held ks"
  "waiting (counted t u n ks) = waiting ks" "ks_lock_infos (counted t u n ks) = ks_lock_infos ks"
  "ks_free_lock_infos (counted t u n ks) = ks_free_lock_infos ks"
  "kernel_count (counted t u n ks) = (kernel_count ks)(t := kernel_count ks t + (if snd (address ks u) then n else 0))"
  by (auto simp: counted_def address_def)

lemma AddWaiterImpl_join:
  assumes ok: "locks_ok ks" and u: "waiting ks u = None"
    and l: "FindHeldLock t (th_address_key (ks_threads ks u)) (th_is_kernel_address_key (ks_threads ks u)) ks = Some l"
    and ks': "ks' = lock_AddWaiter l u (counted t u 1 ks)"
  shows "AddWaiterImpl t u ks = Some ks'" "locks_ok ks'"
proof -
  let ?I = "ks_lock_infos ks"
  note inv = locks_ok_inv(1) [OF ok]
  note found = FindHeldLock_found [OF l]
  have "FindHeldLock t (th_address_key (ks_threads ks u)) (th_is_kernel_address_key (ks_threads ks u)) (counted t u 1 ks) = Some l"
    using l FindHeldLock_cong [of "counted t u 1 ks" t ks] by simp
  then show "AddWaiterImpl t u ks = Some ks'"
    unfolding AddWaiterImpl_def Let_def counted_def [symmetric] ks' by simp
  have frame: "locks_only ks ks'" "priority_of (counted t u 1 ks) = priority_of ks"
    unfolding ks' using locks_only_fields(1) [of ks "counted t u 1 ks"] by simp_all
  have key: "address ks u = (li_address_key (?I l), li_is_kernel_address_key (?I l))" using found by (simp add: address_def)
  show "locks_ok ks'"
  proof (rule locks_okI)
    show "lock_inv (held ks') (waiting ks') (ks_lock_infos ks') (ks_free_lock_infos ks') (priority_of ks') (address ks')"
      using lock_inv_join [OF inv found(1) u key refl] unfolding locks_only_fields(1,2) [OF frame(1)] unfolding ks' by (simp add: frame(2))
    show "finite {v. waiting ks' v \<noteq> None}" using finite_waiting_upd [OF locks_ok_inv(2) [OF ok]] by (simp add: ks')
    fix v
    have d: "distinct (held ks x)" for x using inv by (simp add: lock_inv_def)
    show "kernel_count ks' v = kernel_waiters (ks_lock_infos ks') (held ks' v)"
    proof (cases "v = t")
      case True
      then show ?thesis using kernel_waiters_upd [OF d found(1), of ?I] locks_ok_inv(3) [OF ok, of t] key
        by (simp add: ks' waiters_in_def)
    next
      case False
      then have "l \<notin> set (held ks v)" using lock_inv_held(1) [OF inv found(1)] lock_inv_held(1) [OF inv, of l v] by auto
      then show ?thesis using kernel_waiters_other [of l "held ks v" ?I] locks_ok_inv(3) [OF ok, of v] False by (simp add: ks')
    qed
  qed
qed

definition created :: "nat \<Rightarrow> nat list \<Rightarrow> u64 \<Rightarrow> bool \<Rightarrow> kernel \<Rightarrow> kernel" where
  "created l F k b ks = (ks\<lparr>ks_free_lock_infos := F\<rparr>)\<lparr>ks_lock_infos := (ks_lock_infos ks)
     (l := \<lparr>li_tree = [], li_address_key = k, li_owner = None, li_waiter_count = 0, li_is_kernel_address_key = b\<rparr>)\<rparr>"

lemma created_ops [simp]:
  "locks_only ks (created l F k b ks') \<longleftrightarrow> locks_only ks ks'" "held (created l F k b ks) = held ks"
  "waiting (created l F k b ks) = waiting ks" "ks_free_lock_infos (created l F k b ks) = F"
  "ks_lock_infos (created l F k b ks) = (ks_lock_infos ks)
     (l := \<lparr>li_tree = [], li_address_key = k, li_owner = None, li_waiter_count = 0, li_is_kernel_address_key = b\<rparr>)"
  "kernel_count (created l F k b ks) = kernel_count ks"
  by (auto simp: created_def fun_eq_iff locks_only_def quiet_def held_def waiting_def kernel_count_def)

lemma AddWaiterImpl_first:
  assumes ok: "locks_ok ks" and u: "waiting ks u = None"
    and none: "FindHeldLock t (th_address_key (ks_threads ks u)) (th_is_kernel_address_key (ks_threads ks u)) ks = None"
    and free: "ks_free_lock_infos ks = l # F"
    and ks': "ks' = lock_AddWaiter l u (AddHeldLock t l (created l F (th_address_key (ks_threads ks u))
      (th_is_kernel_address_key (ks_threads ks u)) (counted t u 1 ks)))"
  shows "AddWaiterImpl t u ks = Some ks'" "locks_ok ks'"
proof -
  let ?I = "ks_lock_infos ks" and ?k = "th_address_key (ks_threads ks u)" and ?b = "th_is_kernel_address_key (ks_threads ks u)"
  note inv = locks_ok_inv(1) [OF ok, unfolded free]
  have "FindHeldLock t ?k ?b (counted t u 1 ks) = None" using none FindHeldLock_cong [of "counted t u 1 ks" t ks] by simp
  then show "AddWaiterImpl t u ks = Some ks'"
    unfolding AddWaiterImpl_def Let_def counted_def [symmetric] ks' by (simp add: lock_Create_def free created_def)
  have frame: "locks_only ks ks'" unfolding ks' by simp
  have new: "l \<notin> set (held ks v)" for v using lock_inv_held(2) [OF inv] by auto
  have tree: "tree_insert_by b' u [] = [u]" for b' by (simp add: tree_insert_by_def)
  show "locks_ok ks'"
  proof (rule locks_okI)
    show "lock_inv (held ks') (waiting ks') (ks_lock_infos ks') (ks_free_lock_infos ks') (priority_of ks') (address ks')"
      using lock_inv_first [OF inv u, of ?k ?b _ t] unfolding locks_only_fields(1,2) [OF frame] unfolding ks'
      by (simp add: tree address_def)
    show "finite {v. waiting ks' v \<noteq> None}" using finite_waiting_upd [OF locks_ok_inv(2) [OF ok]] by (simp add: ks')
    show "kernel_count ks' v = kernel_waiters (ks_lock_infos ks') (held ks' v)" for v
      using locks_ok_inv(3) [OF ok] kernel_waiters_other [OF new, of ?I]
      by (simp add: ks' kernel_waiters_Cons waiters_in_def address_def)
  qed
qed

lemma owner_upd_other:
  assumes "locks_ok ks" "locks_ok ks'" "waiting ks' = (waiting ks)(u := w)" "v \<noteq> u"
    "\<And>t l. waiting ks v = Some l \<Longrightarrow> l \<in> set (held ks' t) \<longleftrightarrow> l \<in> set (held ks t)"
  shows "GetLockOwner v ks' = GetLockOwner v ks"
proof -
  have "GetLockOwner v ks' = Some t \<longleftrightarrow> GetLockOwner v ks = Some t" for t
    using assms(3-5) unfolding owner_waiting(2) [OF assms(1)] owner_waiting(2) [OF assms(2)] by auto
  then show ?thesis by (metis option.exhaust)
qed

lemma AddWaiterImpl_ok:
  assumes ok: "locks_ok ks" and u: "GetLockOwner u ks = None" and c: "can_wait t u ks"
  obtains ks' where "AddWaiterImpl t u ks = Some ks'" "locks_ok ks'" "locks_only ks ks'" "objects ks' = objects ks" "one_lock ks \<longrightarrow> one_lock ks'"
    "\<And>v. GetLockOwner v ks' = (if v = u then Some t else GetLockOwner v ks)"
proof -
  have w: "waiting ks u = None" using u owner_waiting(1) [OF ok] by simp
  show thesis
  proof (cases "FindHeldLock t (th_address_key (ks_threads ks u)) (th_is_kernel_address_key (ks_threads ks u)) ks")
    case (Some l)
    define ks' where "ks' = lock_AddWaiter l u (counted t u 1 ks)"
    note j = AddWaiterImpl_join [OF ok w Some ks'_def]
    have "GetLockOwner v ks' = (if v = u then Some t else GetLockOwner v ks)" for v
      using FindHeldLock_found(1) [OF Some] owner_waiting(2) [OF j(2)] owner_upd_other [OF ok j(2), of u "Some l" v]
      by (auto simp: ks'_def)
    moreover have "lock_key ks' x = lock_key ks x" for x by (simp add: lock_key_def ks'_def)
    then have "one_lock ks \<longrightarrow> one_lock ks'" by (simp add: one_lock_def ks'_def)
    ultimately show thesis using that [OF j] by (simp add: ks'_def objects_def)
  next
    case None
    then obtain l F where f: "ks_free_lock_infos ks = l # F" using c by (auto simp: can_wait_def neq_Nil_conv)
    define ks' where "ks' = lock_AddWaiter l u (AddHeldLock t l (created l F (th_address_key (ks_threads ks u))
      (th_is_kernel_address_key (ks_threads ks u)) (counted t u 1 ks)))"
    note j = AddWaiterImpl_first [OF ok w None f ks'_def]
    have new: "waiting ks v \<noteq> Some l" for v
      using locks_ok_inv(1) [OF ok] lock_inv_held(2) [OF locks_ok_inv(1) [OF ok]] f unfolding lock_inv_def by (metis list.set_intros(1))
    have "GetLockOwner v ks' = (if v = u then Some t else GetLockOwner v ks)" for v
    proof (cases "v = u")
      case True
      then show ?thesis using owner_waiting(2) [OF j(2), of u t] by (simp add: ks'_def)
    next
      case False
      have "l' \<in> set (held ks' x) \<longleftrightarrow> l' \<in> set (held ks x)" if "waiting ks v = Some l'" for x l'
        using that new [of v] by (auto simp: ks'_def)
      then show ?thesis using owner_upd_other [OF ok j(2), of u "Some l" v] False by (simp add: ks'_def)
    qed
    moreover have "objects ks' = objects ks" using f by (auto simp: objects_def ks'_def split: if_splits)
    moreover have "one_lock ks \<longrightarrow> one_lock ks'"
    proof -
      let ?k = "(th_address_key (ks_threads ks u), th_is_kernel_address_key (ks_threads ks u))"
      have key: "lock_key ks' x = (if x = l then ?k else lock_key ks x)" for x by (simp add: lock_key_def ks'_def)
      have out: "l \<notin> set (held ks v)" for v using lock_inv_held(2) [OF locks_ok_inv(1) [OF ok]] f by auto
      have "lock_key ks x \<noteq> ?k" if "x \<in> set (held ks t)" for x
        using None that unfolding FindHeldLock_def find_None_iff by (auto simp: held_def lock_key_def)
      moreover have "held ks' = (held ks)(t := l # held ks t)" by (simp add: ks'_def)
      ultimately show ?thesis using out unfolding one_lock_def key by (auto split: if_splits) (metis out)+
    qed
    ultimately show thesis using that [OF j] by (simp add: ks'_def)
  qed
qed

lemma RemoveWaiterImpl_ok:
  assumes ok: "locks_ok ks" and u: "GetLockOwner u ks = Some t"
  obtains ks' where "RemoveWaiterImpl t u ks = Some ks'" "locks_ok ks'" "locks_only ks ks'" "can_wait t u ks'" "objects ks' = objects ks" "one_lock ks \<longrightarrow> one_lock ks'"
    "\<And>v. GetLockOwner v ks' = (if v = u then None else GetLockOwner v ks)"
proof -
  let ?I = "ks_lock_infos ks"
  note inv = locks_ok_inv(1) [OF ok]
  obtain l where w: "waiting ks u = Some l" and l: "l \<in> set (held ks t)" using u owner_waiting(2) [OF ok] by blast
  note held_l = lock_inv_held [OF inv l]
  have d: "distinct (held ks x)" for x using inv by (simp add: lock_inv_def)
  have m: "u \<in> set (li_tree (?I l))" and key: "address ks u = (li_address_key (?I l), li_is_kernel_address_key (?I l))"
    using lock_inv_waiting [OF inv w] by metis+
  then have n: "li_waiter_count (?I l) > 0" using held_l(6) by (cases "li_tree (?I l)") auto
  have other: "l \<notin> set (held ks v)" if "v \<noteq> t" for v using that held_l(1) lock_inv_held(1) [OF inv, of l v] by auto
  define left where "left = snd (lock_RemoveWaiter l u (counted t u (- 1) ks))"
  define ks' where "ks' = (if li_tree (?I l) = [u] then lock_Free l (drop_held t l left) else left)"
  have "li_waiter_count (?I l) - 1 = 0 \<longleftrightarrow> li_tree (?I l) = [u]"
    using held_l(6) m by (cases "li_tree (?I l)"; cases "tl (li_tree (?I l))") auto
  then have "fst (lock_RemoveWaiter l u (counted t u (- 1) ks)) \<longleftrightarrow> li_tree (?I l) = [u]" by (simp add: lock_RemoveWaiter_empty)
  moreover have "th_waiting_lock_info (ks_threads (counted t u (- 1) ks) u) = Some l" using w by (simp add: waiting_def [symmetric])
  ultimately have run: "RemoveWaiterImpl t u ks = Some ks'"
    unfolding RemoveWaiterImpl_def Let_def counted_def [symmetric] ks'_def left_def by (simp add: case_prod_unfold)
  have frame: "locks_only ks ks'" by (simp add: ks'_def left_def)
  note fields = locks_only_fields(1,2) [OF frame]
  have okk: "locks_ok ks'"
  proof (rule locks_okI)
    show "lock_inv (held ks') (waiting ks') (ks_lock_infos ks') (ks_free_lock_infos ks') (priority_of ks') (address ks')"
      using lock_inv_last [OF inv l, of u] lock_inv_leave [OF inv l w _ refl] unfolding fields by (simp add: ks'_def left_def)
    show "finite {v. waiting ks' v \<noteq> None}" using finite_waiting_upd [OF locks_ok_inv(2) [OF ok]] by (simp add: ks'_def left_def)
    fix v
    show "kernel_count ks' v = kernel_waiters (ks_lock_infos ks') (held ks' v)"
    proof (cases "v = t")
      case True
      have "l \<notin> set (remove1 l (held ks t))" using d by simp
      then show ?thesis using True kernel_waiters_upd [OF d l, of ?I] kernel_waiters_remove [OF l, of ?I] held_l(6) n key
          locks_ok_inv(3) [OF ok, of t] kernel_waiters_other [of l "remove1 l (held ks t)" ?I]
        by (auto simp: ks'_def left_def waiters_in_def of_nat_diff Suc_le_eq)
    next
      case False
      then show ?thesis using kernel_waiters_other [OF other, of v ?I] locks_ok_inv(3) [OF ok, of v] by (simp add: ks'_def left_def)
    qed
  qed
  have own: "GetLockOwner v ks' = (if v = u then None else GetLockOwner v ks)" for v
  proof (cases "v = u")
    case True
    then show ?thesis using owner_waiting(1) [OF okk] by (simp add: ks'_def left_def)
  next
    case False
    have "l' \<in> set (held ks' x) \<longleftrightarrow> l' \<in> set (held ks x)" if "waiting ks v = Some l'" for x l'
    proof (cases "li_tree (?I l) = [u]")
      case True
      then have "l' \<noteq> l" using held_l(7) that False by auto
      then show ?thesis by (simp add: ks'_def left_def)
    qed (simp add: ks'_def left_def)
    then show ?thesis using owner_upd_other [OF ok okk, of u None v] False by (simp add: ks'_def left_def)
  qed
  have "can_wait t u ks'"
  proof (cases "li_tree (?I l) = [u]")
    case True
    then show ?thesis by (simp add: can_wait_def ks'_def)
  next
    case False
    have "address ks' u = address ks u" using fields by simp
    then have "\<exists>x \<in> set (held ks' t). li_address_key (ks_lock_infos ks' x) = th_address_key (ks_threads ks' u) \<and>
        li_is_kernel_address_key (ks_lock_infos ks' x) = th_is_kernel_address_key (ks_threads ks' u)"
      using False l key by (auto simp: ks'_def left_def address_def intro!: bexI [of _ l])
    then show ?thesis unfolding can_wait_def FindHeldLock_def held_def [symmetric] by (auto simp: find_None_iff)
  qed
  moreover have "objects ks' = objects ks" using l d [of t] by (auto simp: objects_def ks'_def left_def split: if_splits)
  moreover have "one_lock ks \<longrightarrow> one_lock ks'"
  proof (rule one_lock_mono)
    show "set (held ks' x) \<subseteq> set (held ks x)" for x using set_remove1_subset [of l "held ks t"] by (simp add: ks'_def left_def)
  qed (simp add: lock_key_def ks'_def left_def)
  ultimately show thesis using that [OF run okk frame] own by blast
qed

end
