(* ===== verification/Priority_Inheritance.thy ===== *)
theory Priority_Inheritance
  imports Lock_Operations
begin

text \<open>
  Restoring priorities ends, also when threads wait for each other in a circle, and leaves every thread
  at the smallest of its base priority and the priorities of those that wait for it. The operations on
  locks keep that.
\<close>

section \<open>Inheritance\<close>

lemma le_inherited_priority:
  assumes ok: "locks_ok ks"
  shows "x \<le> inherited_priority t ks \<longleftrightarrow>
    x \<le> th_base_priority (ks_threads ks t) \<and> (\<forall>u. GetLockOwner u ks = Some t \<longrightarrow> x \<le> priority_of ks u)"
proof -
  let ?I = "ks_lock_infos ks"
  define f where "f = (\<lambda>l p. case GetHighestPriorityWaiter l ks of None \<Rightarrow> p | Some w \<Rightarrow> min p (th_priority (ks_threads ks w)))"
  have fold_le: "x \<le> fold f ls b \<longleftrightarrow> x \<le> b \<and> (\<forall>l\<in>set ls. case GetHighestPriorityWaiter l ks of None \<Rightarrow> True | Some w \<Rightarrow> x \<le> priority_of ks w)"
    for ls b by (induction ls arbitrary: b) (auto simp: f_def priority_of_def split: option.splits)
  have front: "(case GetHighestPriorityWaiter l ks of None \<Rightarrow> True | Some w \<Rightarrow> x \<le> priority_of ks w) \<longleftrightarrow>
      (\<forall>u. waiting ks u = Some l \<longrightarrow> x \<le> priority_of ks u)" if "l \<in> set (held ks t)" for l
  proof -
    note h = lock_inv_held [OF locks_ok_inv(1) [OF ok] that]
    then obtain w ws where w: "li_tree (?I l) = w # ws" by (cases "li_tree (?I l)") auto
    have "priority_of ks w \<le> priority_of ks u" if "u \<in> set (w # ws)" for u
      using urgency.ordered_front [OF h(5) [unfolded w] that] by simp
    then show ?thesis using h(7) w by (force simp: GetHighestPriorityWaiter_def)
  qed
  have "x \<le> inherited_priority t ks \<longleftrightarrow> x \<le> th_base_priority (ks_threads ks t) \<and>
      (\<forall>l\<in>set (held ks t). \<forall>u. waiting ks u = Some l \<longrightarrow> x \<le> priority_of ks u)"
    unfolding inherited_priority_def f_def [symmetric] fold_le held_def [symmetric] using front by auto
  then show ?thesis using owner_waiting(2) [OF ok] by blast
qed

lemma inherited_priority_le:
  assumes "locks_ok ks"
  shows "inherited_priority t ks \<le> th_base_priority (ks_threads ks t)"
    "GetLockOwner u ks = Some t \<Longrightarrow> inherited_priority t ks \<le> priority_of ks u"
  using le_inherited_priority [OF assms, of "inherited_priority t ks" t] by auto

text \<open>The trees of condition variables and address arbiters.\<close>

definition trees_ok :: "kernel \<Rightarrow> bool" where
  "trees_ok ks \<longleftrightarrow> (\<forall>tr. distinct (ks_trees ks tr) \<and> ordered (condvar_before (ks_threads ks)) (ks_trees ks tr) \<and>
     (\<forall>u. u \<in> set (ks_trees ks tr) \<longleftrightarrow> th_condvar_tree (ks_threads ks u) = Some tr))"

lemma trees_ok_cong:
  assumes "ks_trees ks' = ks_trees ks" "\<And>u. th_condvar_tree (ks_threads ks' u) = th_condvar_tree (ks_threads ks u)"
    "\<And>u. th_condvar_tree (ks_threads ks u) \<noteq> None \<Longrightarrow> th_condvar_key (ks_threads ks' u) = th_condvar_key (ks_threads ks u) \<and>
       th_priority (ks_threads ks' u) = th_priority (ks_threads ks u)"
  shows "trees_ok ks' \<longleftrightarrow> trees_ok ks"
proof -
  have "ordered (condvar_before (ks_threads ks')) ts = ordered (condvar_before (ks_threads ks)) ts"
    if "\<forall>u. u \<in> set ts \<longleftrightarrow> th_condvar_tree (ks_threads ks u) = Some tr" for ts tr
    using assms(3) that by (intro ordered_cong) (simp add: condvar_before_def)
  then show ?thesis unfolding trees_ok_def assms(1,2) by metis
qed

lemma locks_ok_cong:
  assumes "ks_threads ks' = ks_threads ks" "ks_lock_infos ks' = ks_lock_infos ks" "ks_free_lock_infos ks' = ks_free_lock_infos ks"
  shows "locks_ok ks' \<longleftrightarrow> locks_ok ks" "can_wait u v ks' \<longleftrightarrow> can_wait u v ks" "GetLockOwner u ks' = GetLockOwner u ks"
    "inherited_priority u ks' = inherited_priority u ks"
proof -
  have "held ks' = held ks" "waiting ks' = waiting ks" "priority_of ks' = priority_of ks" "address ks' = address ks"
    using assms(1) by (simp_all add: fun_eq_iff held_def waiting_def priority_of_def address_def)
  then show "locks_ok ks' \<longleftrightarrow> locks_ok ks" using assms by (simp add: locks_ok_def)
qed (unfold can_wait_def FindHeldLock_def GetLockOwner_def inherited_priority_def GetHighestPriorityWaiter_def assms, simp_all)

lemma condvar_ops [simp]:
  "ks_threads (condvar_erase t ks) = ks_threads ks" "ks_threads (condvar_insert t ks) = ks_threads ks"
  "ks_lock_infos (condvar_erase t ks) = ks_lock_infos ks" "ks_lock_infos (condvar_insert t ks) = ks_lock_infos ks"
  "ks_free_lock_infos (condvar_erase t ks) = ks_free_lock_infos ks" "ks_free_lock_infos (condvar_insert t ks) = ks_free_lock_infos ks"
  "quiet ks' (condvar_erase t ks) \<longleftrightarrow> quiet ks' ks" "quiet ks' (condvar_insert t ks) \<longleftrightarrow> quiet ks' ks"
  "ks_user_memory (condvar_erase t ks) = ks_user_memory ks" "ks_user_memory (condvar_insert t ks) = ks_user_memory ks"
  by (auto simp: condvar_erase_def condvar_insert_def quiet_def split: option.split)

lemma trees_ok_moved:
  assumes "trees_ok ks"
  shows "trees_ok (condvar_insert t (upd_thread t (\<lambda>th. th\<lparr>th_priority := p\<rparr>) (condvar_erase t ks)))"
proof (cases "th_condvar_tree (ks_threads ks t)")
  case None
  then show ?thesis using assms
    by (simp add: condvar_insert_def condvar_erase_def) (subst trees_ok_cong; auto simp: upd_thread_def)
next
  case (Some tr)
  let ?T = "(ks_threads ks)(t := (ks_threads ks t)\<lparr>th_priority := p\<rparr>)" and ?ts = "remove1 t (ks_trees ks tr)"
  have other: "t \<notin> set ts \<Longrightarrow> ordered (condvar_before ?T) ts = ordered (condvar_before (ks_threads ks)) ts" for ts
    by (intro ordered_cong) (auto simp: condvar_before_def)
  have t: "t \<in> set (ks_trees ks tr')" if "tr' = tr" for tr' using assms Some that by (auto simp: trees_ok_def)
  have n: "t \<notin> set (ks_trees ks tr')" if "tr' \<noteq> tr" for tr' using assms Some that by (auto simp: trees_ok_def)
  have d: "distinct (ks_trees ks tr')" for tr' using assms by (simp add: trees_ok_def)
  then have "t \<notin> set ?ts" by simp
  then have "ordered (condvar_before ?T) (tree_insert_by (condvar_before ?T) t ?ts)"
    using assms by (intro condvar_order.ordered_insert) (simp add: other ordered_remove trees_ok_def)
  moreover have "ordered (condvar_before ?T) (ks_trees ks tr')" if "tr' \<noteq> tr" for tr'
    using assms n [OF that] by (simp add: other trees_ok_def)
  moreover have "condvar_insert t (upd_thread t (\<lambda>th. th\<lparr>th_priority := p\<rparr>) (condvar_erase t ks)) =
    ks\<lparr>ks_threads := ?T, ks_trees := (ks_trees ks)(tr := tree_insert_by (condvar_before ?T) t ?ts)\<rparr>"
    by (simp add: condvar_insert_def condvar_erase_def upd_thread_def Some)
  ultimately show ?thesis using assms d t n Some by (auto simp: trees_ok_def)
qed

text \<open>What a change of priorities leaves alone.\<close>

definition calm_view :: "KThread \<Rightarrow> bool \<times> int \<times> u64 \<times> u16 \<times> nat" where
  "calm_view th = (IsDummyThread th, th_core_id th, th_physical_affinity_mask th, th_thread_state th, th_base_priority th)"

definition priorities_only :: "kernel \<Rightarrow> kernel \<Rightarrow> bool" where
  "priorities_only ks ks' \<longleftrightarrow>
     (\<forall>t. calm_view (ks_threads ks' t) = calm_view (ks_threads ks t) \<and> other_fields (ks_threads ks' t) = other_fields (ks_threads ks t)) \<and>
     (\<forall>t. GetLockOwner t ks' = GetLockOwner t ks) \<and> ks_user_memory ks' = ks_user_memory ks \<and> objects ks' = objects ks \<and>
     (one_lock ks \<longrightarrow> one_lock ks')"

lemma priorities_only_refl [simp]: "priorities_only ks ks"
  by (simp add: priorities_only_def)

lemma priorities_only_trans: "priorities_only a b \<Longrightarrow> priorities_only b c \<Longrightarrow> priorities_only a c"
  by (auto simp: priorities_only_def)

lemma OnThreadPriorityChanged_frame [simp]:
  "ks_threads (OnThreadPriorityChanged cur t p ks) = ks_threads ks"
  "ks_lock_infos (OnThreadPriorityChanged cur t p ks) = ks_lock_infos ks"
  "ks_free_lock_infos (OnThreadPriorityChanged cur t p ks) = ks_free_lock_infos ks"
  "ks_trees (OnThreadPriorityChanged cur t p ks) = ks_trees ks"
  "ks_user_memory (OnThreadPriorityChanged cur t p ks) = ks_user_memory ks"
  by (auto simp: OnThreadPriorityChanged_def Let_def SetSchedulerUpdateNeeded_def IncrementScheduledCount_def upd_process_def
      split: option.split)

lemma optional_remove:
  assumes "locks_ok ks"
  obtains ks1 where "(case GetLockOwner t ks of None \<Rightarrow> Some ks | Some owner \<Rightarrow> RemoveWaiterImpl owner t ks) = Some ks1"
    "locks_ok ks1" "locks_only ks ks1" "\<And>h. GetLockOwner t ks = Some h \<Longrightarrow> can_wait h t ks1" "objects ks1 = objects ks"
    "one_lock ks \<longrightarrow> one_lock ks1" "\<And>v. GetLockOwner v ks1 = (if v = t then None else GetLockOwner v ks)"
proof (cases "GetLockOwner t ks")
  case None
  then show thesis using that [of ks] assms by auto
next
  case (Some h)
  from RemoveWaiterImpl_ok [OF assms Some] obtain ks1 where r: "RemoveWaiterImpl h t ks = Some ks1" "locks_ok ks1" "locks_only ks ks1"
    "can_wait h t ks1" "objects ks1 = objects ks" "one_lock ks \<longrightarrow> one_lock ks1" "\<And>v. GetLockOwner v ks1 = (if v = t then None else GetLockOwner v ks)" by blast
  then show thesis using that [of ks1] Some by simp
qed

lemma optional_add:
  assumes "locks_ok ks" "GetLockOwner t ks = None" "\<And>h. owner = Some h \<Longrightarrow> can_wait h t ks"
  obtains ks1 where "(case owner of None \<Rightarrow> Some ks | Some owner \<Rightarrow> AddWaiterImpl owner t ks) = Some ks1"
    "locks_ok ks1" "locks_only ks ks1" "objects ks1 = objects ks"
    "one_lock ks \<longrightarrow> one_lock ks1" "\<And>v. GetLockOwner v ks1 = (if v = t then owner else GetLockOwner v ks)"
proof (cases owner)
  case None
  then show thesis using that [of ks] assms by auto
next
  case (Some h)
  from AddWaiterImpl_ok [OF assms(1,2) assms(3) [OF Some]] obtain ks1 where r: "AddWaiterImpl h t ks = Some ks1" "locks_ok ks1"
    "locks_only ks ks1" "objects ks1 = objects ks" "one_lock ks \<longrightarrow> one_lock ks1"
    "\<And>v. GetLockOwner v ks1 = (if v = t then Some h else GetLockOwner v ks)" by blast
  then show thesis using that [of ks1] Some by simp
qed

lemma locks_ok_priority:
  assumes ok: "locks_ok ks" and w: "GetLockOwner t ks = None" and ks': "ks' = upd_thread t (\<lambda>th. th\<lparr>th_priority := p\<rparr>) ks"
  shows "locks_ok ks'" "GetLockOwner u ks' = GetLockOwner u ks" "can_wait u v ks' \<longleftrightarrow> can_wait u v ks"
proof -
  have "waiting ks t = None" using owner_waiting(1) [OF ok] w by simp
  moreover have f: "held ks' = held ks" "waiting ks' = waiting ks" "address ks' = address ks" "priority_of ks' = (priority_of ks)(t := p)"
    "kernel_count ks' = kernel_count ks" "ks_lock_infos ks' = ks_lock_infos ks" "ks_free_lock_infos ks' = ks_free_lock_infos ks"
    by (auto simp: fun_eq_iff held_def waiting_def address_def priority_of_def kernel_count_def ks' upd_thread_def)
  moreover have "lock_inv (held ks) (waiting ks) (ks_lock_infos ks) (ks_free_lock_infos ks) ((priority_of ks)(t := p)) (address ks)"
    using calculation(1) by (intro lock_inv_priority [OF locks_ok_inv(1) [OF ok]]) auto
  ultimately show "locks_ok ks'" using locks_ok_inv [OF ok] by (intro locks_okI) auto
  have a: "waiting ks' x = waiting ks x" "held ks' x = held ks x" "address ks' x = address ks x" for x using f by simp_all
  show "GetLockOwner u ks' = GetLockOwner u ks" unfolding GetLockOwner_alt a f(6) ..
  show "can_wait u v ks' \<longleftrightarrow> can_wait u v ks"
    by (simp add: can_wait_def FindHeldLock_def f(6,7)) (simp add: ks' upd_thread_def)
qed

lemma restore_one_ok:
  assumes ok: "locks_ok ks"
  obtains ks' where "restore_one cur t p ks = Some ks'" "locks_ok ks'" "priorities_only ks ks'"
    "priority_of ks' = (priority_of ks)(t := p)" "trees_ok ks \<Longrightarrow> trees_ok ks'" "ks_ok ks \<Longrightarrow> ks_ok ks'"
proof -
  obtain ks1 where r1: "(case GetLockOwner t ks of None \<Rightarrow> Some ks | Some owner \<Rightarrow> RemoveWaiterImpl owner t ks) = Some ks1"
    "locks_ok ks1" "locks_only ks ks1" "\<And>h. GetLockOwner t ks = Some h \<Longrightarrow> can_wait h t ks1" "objects ks1 = objects ks"
    "one_lock ks \<longrightarrow> one_lock ks1" "\<And>v. GetLockOwner v ks1 = (if v = t then None else GetLockOwner v ks)"
    using optional_remove [OF ok, of t] by blast
  define ks2 where "ks2 = upd_thread t (\<lambda>th. th\<lparr>th_priority := p\<rparr>) (condvar_erase t ks1)"
  define ks3 where "ks3 = condvar_insert t ks2"
  have c1: "locks_ok (condvar_erase t ks1)" "GetLockOwner v (condvar_erase t ks1) = GetLockOwner v ks1"
      "can_wait h v (condvar_erase t ks1) = can_wait h v ks1" for v h
    using r1(2) locks_ok_cong [of "condvar_erase t ks1" ks1] by simp_all
  have c2: "locks_ok ks2" "GetLockOwner v ks2 = GetLockOwner v ks1" "can_wait h v ks2 = can_wait h v ks1" for v h
    using locks_ok_priority [OF c1(1) _ ks2_def] c1(2,3) r1(7) [of t] by simp_all
  have c3: "locks_ok ks3" "GetLockOwner v ks3 = GetLockOwner v ks1" "can_wait h v ks3 = can_wait h v ks1" for v h
    using c2 locks_ok_cong [of ks3 ks2] by (simp_all add: ks3_def)
  obtain ks4 where r4: "(case GetLockOwner t ks of None \<Rightarrow> Some ks3 | Some owner \<Rightarrow> AddWaiterImpl owner t ks3) = Some ks4"
    "locks_ok ks4" "locks_only ks3 ks4" "objects ks4 = objects ks3"
    "one_lock ks3 \<longrightarrow> one_lock ks4" "\<And>v. GetLockOwner v ks4 = (if v = t then GetLockOwner t ks else GetLockOwner v ks3)"
    using optional_add [OF c3(1), of t "GetLockOwner t ks"] c3(2,3) r1(4,7) by auto
  define ks' where "ks' = OnThreadPriorityChanged cur t (th_priority (ks_threads ks1 t)) ks4"
  note same = locks_ok_cong [of ks' ks4, unfolded ks'_def, simplified, folded ks'_def]
  have old: "th_priority (ks_threads ks1 t) = priority_of ks t" using locks_only_fields(1) [OF r1(3)] by (metis priority_of_def)
  have run: "restore_one cur t p ks = Some ks'"
    unfolding restore_one_def Let_def r1(1) Option.bind.bind_lunit ks2_def [symmetric] ks3_def [symmetric] r4(1) by (simp add: ks'_def)
  have T: "ks_threads ks3 = (ks_threads ks1)(t := (ks_threads ks1 t)\<lparr>th_priority := p\<rparr>)"
    by (simp add: ks3_def ks2_def upd_thread_def fun_eq_iff)
  have prio: "priority_of ks' = (priority_of ks)(t := p)"
    using locks_only_fields(1) [OF r4(3)] locks_only_fields(1) [OF r1(3)] T by (simp add: fun_eq_iff priority_of_def ks'_def)
  have "GetLockOwner v ks' = GetLockOwner v ks" for v using same(3) r4(6) c3(2) r1(7) by simp
  moreover have "calm_view (ks_threads ks' v) = calm_view (ks_threads ks v)" "other_fields (ks_threads ks' v) = other_fields (ks_threads ks v)" for v
    using r4(3) r1(3) T by (auto simp: ks'_def locks_only_def quiet_def sched_view_def calm_view_def other_fields_def IsDummyThread_def)
  moreover have "ks_user_memory ks' = ks_user_memory ks"
    using r4(3) r1(3) by (simp add: ks'_def locks_only_def ks3_def ks2_def upd_thread_def)
  moreover have "objects ks' = objects ks"
  proof -
    have "held ks3 = held ks1" using T by (simp add: held_def fun_eq_iff)
    then have "objects ks3 = objects ks1" by (simp add: objects_def ks3_def ks2_def upd_thread_def)
    moreover have "objects ks' = objects ks4" by (simp add: objects_def held_def ks'_def)
    ultimately show ?thesis using r4(4) r1(5) by simp
  qed
  moreover have "one_lock ks \<longrightarrow> one_lock ks'"
  proof -
    have "held ks3 = held ks1" using T by (simp add: held_def fun_eq_iff)
    then have "one_lock ks3 \<longleftrightarrow> one_lock ks1" by (simp add: one_lock_def lock_key_def ks3_def ks2_def upd_thread_def)
    moreover have "one_lock ks' \<longleftrightarrow> one_lock ks4" by (simp add: one_lock_def lock_key_def held_def ks'_def)
    ultimately show ?thesis using r4(5) r1(6) by simp
  qed
  ultimately have only: "priorities_only ks ks'" by (simp add: priorities_only_def)
  have tr: "trees_ok ks'" if "trees_ok ks"
  proof -
    have "trees_ok ks1" using that trees_ok_cong [of ks1 ks] locks_only_fields(1,4,5) [OF r1(3)] r1(3)
      by (simp add: locks_only_def priority_of_def fun_eq_iff)
    then have "trees_ok ks3" unfolding ks3_def ks2_def by (rule trees_ok_moved)
    then show ?thesis using trees_ok_cong [of ks' ks3] locks_only_fields(1,4,5) [OF r4(3)] r4(3)
      by (simp add: locks_only_def priority_of_def fun_eq_iff ks'_def)
  qed
  have "quiet (upd_thread t (\<lambda>th. th\<lparr>th_priority := p\<rparr>) ks) ks3"
    using r1(3) by (auto simp: locks_only_def quiet_def ks3_def ks2_def upd_thread_def sched_view_def pin_view_def IsDummyThread_def
        condvar_erase_def condvar_insert_def split: option.split)
  then have "quiet (upd_thread t (\<lambda>th. th\<lparr>th_priority := p\<rparr>) ks) ks4" using r4(3) quiet_trans by (auto simp: locks_only_def)
  from priority_changed_ok [OF _ this, of cur] have "ks_ok ks \<Longrightarrow> ks_ok ks'" using old by (simp add: ks'_def priority_of_def)
  then show thesis using that [OF run] same(1) r4(2) only prio tr by simp
qed

text \<open>Every thread runs at the priority it inherits, with the exception of one.\<close>

definition inherits_but :: "nat option \<Rightarrow> kernel \<Rightarrow> bool" where
  "inherits_but thread ks \<longleftrightarrow> (\<forall>x. thread \<noteq> Some x \<longrightarrow> priority_of ks x = inherited_priority x ks)"

lemma priorities_only_fields:
  assumes "priorities_only ks ks'"
  shows "th_base_priority (ks_threads ks' t) = th_base_priority (ks_threads ks t)" "GetLockOwner t ks' = GetLockOwner t ks"
  using assms by (simp_all add: priorities_only_def calm_view_def)

lemma inherits_after_step:
  assumes ok: "locks_ok ks" "locks_ok ks'" and but: "inherits_but (Some t) ks" and only: "priorities_only ks ks'"
    and p: "priority_of ks' = (priority_of ks)(t := inherited_priority t ks)"
  shows "inherits_but (GetLockOwner t ks) ks'"
    "inherited_priority t ks \<le> priority_of ks t \<Longrightarrow> GetLockOwner t ks = Some h \<Longrightarrow> inherited_priority h ks' \<le> priority_of ks' h"
    "priority_of ks t < inherited_priority t ks \<Longrightarrow> GetLockOwner t ks = Some h \<Longrightarrow> priority_of ks' h \<le> inherited_priority h ks'"
proof -
  note le = le_inherited_priority [OF ok(1)] and le' = le_inherited_priority [OF ok(2)]
  note f = priorities_only_fields [OF only]
  have same: "inherited_priority x ks' = inherited_priority x ks" if "GetLockOwner t ks \<noteq> Some x" for x
  proof -
    have "n \<le> inherited_priority x ks' \<longleftrightarrow> n \<le> inherited_priority x ks" for n
      unfolding le le' f p using that by auto
    then show ?thesis by (metis le_antisym le_refl)
  qed
  show "inherits_but (GetLockOwner t ks) ks'"
    using but same by (auto simp: inherits_but_def p)
  show "inherited_priority h ks' \<le> priority_of ks' h" if "inherited_priority t ks \<le> priority_of ks t" "GetLockOwner t ks = Some h"
  proof (cases "h = t")
    case True
    then show ?thesis using inherited_priority_le(2) [OF ok(2), of t t] that(2) f(2) by simp
  next
    case False
    have "inherited_priority h ks' \<le> priority_of ks u" if "GetLockOwner u ks = Some h" for u
      using inherited_priority_le(2) [OF ok(2), of u h] \<open>inherited_priority t ks \<le> priority_of ks t\<close> that f(2) p
      by (cases "u = t") (auto intro: le_trans)
    then have "inherited_priority h ks' \<le> inherited_priority h ks"
      using inherited_priority_le(1) [OF ok(2), of h] f(1) unfolding le by simp
    then show ?thesis using False but by (simp add: p inherits_but_def)
  qed
  show "priority_of ks' h \<le> inherited_priority h ks'" if "priority_of ks t < inherited_priority t ks" "GetLockOwner t ks = Some h"
  proof -
    have "h \<noteq> t" using inherited_priority_le(2) [OF ok(1), of t t] that by auto
    then have "priority_of ks' h = inherited_priority h ks" using but by (simp add: p inherits_but_def)
    moreover have "inherited_priority h ks \<le> priority_of ks' u" if "GetLockOwner u ks = Some h" for u
      using inherited_priority_le(2) [OF ok(1) that] \<open>priority_of ks t < inherited_priority t ks\<close> p by (cases "u = t") auto
    then have "inherited_priority h ks \<le> inherited_priority h ks'"
      using inherited_priority_le(1) [OF ok(1), of h] f unfolding le' by simp
    ultimately show ?thesis by simp
  qed
qed

definition restored :: "kernel \<Rightarrow> kernel \<Rightarrow> bool" where
  "restored ks ks' \<longleftrightarrow> locks_ok ks' \<and> priorities_only ks ks' \<and> inherits_but None ks' \<and>
     (trees_ok ks \<longrightarrow> trees_ok ks') \<and> (ks_ok ks \<longrightarrow> ks_ok ks')"

lemma restored_step: "restored ks1 ks' \<Longrightarrow> priorities_only ks ks1 \<Longrightarrow> (trees_ok ks \<Longrightarrow> trees_ok ks1) \<Longrightarrow> (ks_ok ks \<Longrightarrow> ks_ok ks1) \<Longrightarrow> restored ks ks'"
  using priorities_only_trans by (auto simp: restored_def)

lemma RestorePriority_stops:
  assumes "locks_ok ks" "inherits_but None ks"
  shows "RestorePriority cur thread ks = Some ks" "restored ks ks"
proof -
  show "RestorePriority cur thread ks = Some ks"
    using assms by (subst RestorePriority.simps) (simp add: inherits_but_def priority_of_def split: option.split)
  show "restored ks ks" using assms by (simp add: restored_def)
qed

text \<open>
  The loop, with a measure that falls in every round that goes on: the rounds either all raise or all
  lower a priority, and only threads that wait are followed by a further round.
\<close>

lemma RestorePriority_by_measure:
  assumes measure: "\<And>ks ks' t. I (Some t) ks \<Longrightarrow> locks_ok ks \<Longrightarrow> inherits_but (Some t) ks \<Longrightarrow> inherited_priority t ks \<noteq> priority_of ks t \<Longrightarrow>
      GetLockOwner t ks \<noteq> None \<Longrightarrow> locks_ok ks' \<Longrightarrow> priorities_only ks ks' \<Longrightarrow>
      priority_of ks' = (priority_of ks)(t := inherited_priority t ks) \<Longrightarrow> I (GetLockOwner t ks) ks' \<and> m ks' < (m ks :: nat)"
    and "locks_ok ks" "inherits_but thread ks" "I thread ks"
  shows "\<exists>ks'. RestorePriority cur thread ks = Some ks' \<and> restored ks ks'"
  using assms(2-)
proof (induction "m ks" arbitrary: ks thread rule: less_induct)
  case less
  show ?case
  proof (cases thread)
    case None
    then show ?thesis using RestorePriority_stops less.prems by blast
  next
    case (Some t)
    show ?thesis
    proof (cases "inherited_priority t ks = priority_of ks t")
      case True
      then have "inherits_but None ks" using less.prems(2) Some unfolding inherits_but_def by (metis option.inject)
      then show ?thesis using RestorePriority_stops less.prems by blast
    next
      case False
      obtain ks1 where r: "restore_one cur t (inherited_priority t ks) ks = Some ks1" "locks_ok ks1" "priorities_only ks ks1"
        "priority_of ks1 = (priority_of ks)(t := inherited_priority t ks)" "trees_ok ks \<Longrightarrow> trees_ok ks1" "ks_ok ks \<Longrightarrow> ks_ok ks1"
        using restore_one_ok [OF less.prems(1), of cur t "inherited_priority t ks"] by blast
      have but: "inherits_but (GetLockOwner t ks) ks1"
        using inherits_after_step(1) [OF less.prems(1) r(2) _ r(3,4)] less.prems(2) Some by simp
      have run: "RestorePriority cur thread ks = RestorePriority cur (GetLockOwner t ks) ks1"
        using False r(1) Some by (subst RestorePriority.simps) (simp add: Let_def priority_of_def)
      have "\<exists>ks'. RestorePriority cur (GetLockOwner t ks) ks1 = Some ks' \<and> restored ks1 ks'"
      proof (cases "GetLockOwner t ks")
        case None
        then show ?thesis using RestorePriority_stops [OF r(2)] but by auto
      next
        case own: (Some h)
        have "I (GetLockOwner t ks) ks1 \<and> m ks1 < m ks"
          using measure [OF _ less.prems(1) _ False _ r(2-4)] less.prems(2,3) Some own by simp
        then show ?thesis using less.hyps [of ks1 "GetLockOwner t ks"] r(2) but by blast
      qed
      then show ?thesis using run restored_step [OF _ r(3,5,6)] by auto
    qed
  qed
qed

definition waiters :: "kernel \<Rightarrow> nat set" where
  "waiters ks = {u. GetLockOwner u ks \<noteq> None}"

lemma finite_waiters: "locks_ok ks \<Longrightarrow> finite (waiters ks)"
  using locks_ok_inv(2) [of ks] by (simp add: waiters_def owner_waiting(1))

lemma waiters_only: "priorities_only ks ks' \<Longrightarrow> waiters ks' = waiters ks"
  by (simp add: waiters_def priorities_only_def)

lemma sum_strict_at:
  assumes "finite A" "t \<in> A" "\<And>u. u \<noteq> t \<Longrightarrow> f' u = f u" "f' t < (f t :: nat)"
  shows "sum f' A < sum f A"
proof -
  have "sum f' A = f' t + sum f' (A - {t})" "sum f A = f t + sum f (A - {t})" using assms(1,2) by (simp_all add: sum.remove)
  moreover have "sum f' (A - {t}) = sum f (A - {t})" using assms(3) by (intro sum.cong) auto
  ultimately show ?thesis using assms(4) by simp
qed

lemma RestorePriority_ok:
  assumes ok: "locks_ok ks" and but: "inherits_but thread ks"
  shows "\<exists>ks'. RestorePriority cur thread ks = Some ks' \<and> restored ks ks'"
proof (cases "\<forall>t. thread = Some t \<longrightarrow> inherited_priority t ks \<le> priority_of ks t")
  case True
  show ?thesis
  proof (rule RestorePriority_by_measure [where I = "\<lambda>thread ks. \<forall>t. thread = Some t \<longrightarrow> inherited_priority t ks \<le> priority_of ks t"
        and m = "\<lambda>ks. sum (priority_of ks) (waiters ks)"])
    fix ks ks' t
    assume a: "\<forall>t'. Some t = Some t' \<longrightarrow> inherited_priority t' ks \<le> priority_of ks t'" "locks_ok ks" "inherits_but (Some t) ks"
      "inherited_priority t ks \<noteq> priority_of ks t" "GetLockOwner t ks \<noteq> None" "locks_ok ks'" "priorities_only ks ks'"
      "priority_of ks' = (priority_of ks)(t := inherited_priority t ks)"
    have "sum (priority_of ks') (waiters ks) < sum (priority_of ks) (waiters ks)"
      using a by (intro sum_strict_at [OF finite_waiters, where t = t]) (auto simp: waiters_def)
    then show "(\<forall>t'. GetLockOwner t ks = Some t' \<longrightarrow> inherited_priority t' ks' \<le> priority_of ks' t') \<and>
        sum (priority_of ks') (waiters ks') < sum (priority_of ks) (waiters ks)"
      using inherits_after_step(2) [OF a(2,6,3,7,8)] a(1) waiters_only [OF a(7)] by simp
  qed (use ok but True in auto)
next
  case False
  let ?slack = "\<lambda>ks u. th_base_priority (ks_threads ks u) - priority_of ks u"
  show ?thesis
  proof (rule RestorePriority_by_measure [where I = "\<lambda>thread ks. \<forall>t. thread = Some t \<longrightarrow> priority_of ks t \<le> inherited_priority t ks"
        and m = "\<lambda>ks. sum (?slack ks) (waiters ks)"])
    fix ks ks' t
    assume a: "\<forall>t'. Some t = Some t' \<longrightarrow> priority_of ks t' \<le> inherited_priority t' ks" "locks_ok ks" "inherits_but (Some t) ks"
      "inherited_priority t ks \<noteq> priority_of ks t" "GetLockOwner t ks \<noteq> None" "locks_ok ks'" "priorities_only ks ks'"
      "priority_of ks' = (priority_of ks)(t := inherited_priority t ks)"
    have lt: "priority_of ks t < inherited_priority t ks" using a(1,4) by (simp add: order_less_le)
    have "inherited_priority t ks \<le> th_base_priority (ks_threads ks t)" by (rule inherited_priority_le(1) [OF a(2)])
    then have "sum (?slack ks') (waiters ks) < sum (?slack ks) (waiters ks)"
      using lt a(5,8) priorities_only_fields(1) [OF a(7)]
      by (intro sum_strict_at [OF finite_waiters [OF a(2)], where t = t]) (auto simp: waiters_def)
    then show "(\<forall>t'. GetLockOwner t ks = Some t' \<longrightarrow> priority_of ks' t' \<le> inherited_priority t' ks') \<and>
        sum (?slack ks') (waiters ks') < sum (?slack ks) (waiters ks)"
      using inherits_after_step(3) [OF a(2,6,3,7,8)] lt waiters_only [OF a(7)] by simp
  qed (use ok but False in auto)
qed

section \<open>The operations on locks\<close>

text \<open>
  The promise of priority inheritance: the lock objects are in order, and every thread runs at the
  smallest of its base priority and the priorities of the threads that wait for it.
\<close>

definition locks_inherit :: "kernel \<Rightarrow> bool" where
  "locks_inherit ks \<longleftrightarrow> locks_ok ks \<and> inherits_but None ks"

lemma locks_inherit_priority:
  "locks_inherit ks \<Longrightarrow> priority_of ks t = inherited_priority t ks" "locks_inherit ks \<Longrightarrow> locks_ok ks"
  by (simp_all add: locks_inherit_def inherits_but_def)

lemma locks_only_keeps:
  assumes "locks_only ks ks'"
  shows "trees_ok ks' \<longleftrightarrow> trees_ok ks" "ks_ok ks' \<longleftrightarrow> ks_ok ks"
proof -
  show "trees_ok ks' \<longleftrightarrow> trees_ok ks"
    using locks_only_fields(1,4,5) [OF assms] assms by (intro trees_ok_cong) (simp_all add: locks_only_def priority_of_def fun_eq_iff)
  show "ks_ok ks' \<longleftrightarrow> ks_ok ks" using assms by (intro quiet_ks_ok) (simp add: locks_only_def)
qed

text \<open>What an operation leaves alone that changes who waits for whom, as given by \<open>B\<close>, and then restores priorities.\<close>

definition relocked :: "(nat \<Rightarrow> nat option) \<Rightarrow> kernel \<Rightarrow> kernel \<Rightarrow> bool" where
  "relocked B ks ks' \<longleftrightarrow> locks_inherit ks' \<and> (\<forall>v. GetLockOwner v ks' = B v) \<and>
     (\<forall>t. calm_view (ks_threads ks' t) = calm_view (ks_threads ks t) \<and> other_fields (ks_threads ks' t) = other_fields (ks_threads ks t)) \<and>
     ks_user_memory ks' = ks_user_memory ks \<and> objects ks' = objects ks \<and> (trees_ok ks \<longrightarrow> trees_ok ks') \<and> (ks_ok ks \<longrightarrow> ks_ok ks')"

lemma relocked_after:
  assumes only: "locks_only ks ks1" "objects ks1 = objects ks" and B: "\<And>v. GetLockOwner v ks1 = B v" and r: "restored ks1 ks'"
  shows "relocked B ks ks'"
proof -
  have "calm_view (ks_threads ks1 t) = calm_view (ks_threads ks t)" "other_fields (ks_threads ks1 t) = other_fields (ks_threads ks t)" for t
    using only(1) by (simp_all add: locks_only_def quiet_def sched_view_def calm_view_def other_fields_def)
  then show ?thesis using r B only locks_only_keeps [OF only(1)]
    by (simp add: relocked_def restored_def locks_inherit_def priorities_only_def locks_only_def)
qed

lemma eq_by_le: "(\<And>n::nat. n \<le> a \<longleftrightarrow> n \<le> b) \<Longrightarrow> a = b"
  by (metis le_antisym le_refl)

lemma AddWaiter_ok:
  assumes inh: "locks_inherit ks" and u: "GetLockOwner u ks = None" and c: "can_wait t u ks"
  shows "\<exists>ks'. AddWaiter cur t u ks = Some ks' \<and> relocked ((\<lambda>v. GetLockOwner v ks)(u := Some t)) ks ks' \<and> (one_lock ks \<longrightarrow> one_lock ks')"
proof -
  note ok = locks_inherit_priority(2) [OF inh] and p = locks_inherit_priority(1) [OF inh]
  obtain ks1 where r: "AddWaiterImpl t u ks = Some ks1" "locks_ok ks1" "locks_only ks ks1"
    "\<And>v. GetLockOwner v ks1 = (if v = u then Some t else GetLockOwner v ks)" "objects ks1 = objects ks" "one_lock ks \<longrightarrow> one_lock ks1"
    using AddWaiterImpl_ok [OF ok u c] by blast
  note f = locks_only_fields(1,3) [OF r(3)]
  have le: "n \<le> inherited_priority x ks1 \<longleftrightarrow> n \<le> inherited_priority x ks \<and> (x = t \<longrightarrow> n \<le> priority_of ks u)" for n x
  proof -
    have "GetLockOwner v ks1 = Some x \<longleftrightarrow> GetLockOwner v ks = Some x \<or> v = u \<and> x = t" for v
      using u r(4) [of v] by auto
    then show ?thesis unfolding le_inherited_priority [OF r(2)] le_inherited_priority [OF ok] f by (simp only:) blast
  qed
  have other: "priority_of ks1 x = inherited_priority x ks1" if "x \<noteq> t" for x
    unfolding f p by (rule eq_by_le) (simp add: le that)
  then have but: "inherits_but (Some t) ks1" by (simp add: inherits_but_def)
  have run: "AddWaiter cur t u ks = (if priority_of ks u < priority_of ks t then RestorePriority cur (Some t) ks1 else Some ks1)"
    using r(1) fun_cong [OF f(1)] by (simp add: AddWaiter_def priority_of_def)
  have "\<exists>ks'. AddWaiter cur t u ks = Some ks' \<and> restored ks1 ks'"
  proof (cases "priority_of ks u < priority_of ks t")
    case True
    then show ?thesis using run RestorePriority_ok [OF r(2) but] by simp
  next
    case False
    have "n \<le> inherited_priority t ks \<Longrightarrow> n \<le> priority_of ks u" for n using False p [of t] by simp
    then have "n \<le> inherited_priority t ks \<longleftrightarrow> n \<le> inherited_priority t ks1" for n using le [of n t] by blast
    then have "priority_of ks1 t = inherited_priority t ks1" unfolding f p by (rule eq_by_le)
    then have "priority_of ks1 x = inherited_priority x ks1" for x using other by (cases "x = t") auto
    then have "restored ks1 ks1" using RestorePriority_stops(2) [OF r(2)] by (simp add: inherits_but_def)
    then show ?thesis using False run by simp
  qed
  moreover have "GetLockOwner v ks1 = ((\<lambda>v. GetLockOwner v ks)(u := Some t)) v" for v using r(4) by simp
  ultimately show ?thesis using relocked_after [OF r(3,5)] r(6) unfolding restored_def priorities_only_def by blast
qed

text \<open>A thread that loses waiters, among which the most urgent one is \<open>n\<close>.\<close>

lemma lost_waiters:
  assumes p: "priority_of ks t = inherited_priority t ks" and ok: "locks_ok ks" "locks_ok ks1" and only: "locks_only ks ks1"
    and lost: "\<And>u. GetLockOwner u ks = Some t \<Longrightarrow> GetLockOwner u ks1 \<noteq> Some t \<Longrightarrow> priority_of ks n \<le> priority_of ks u"
    and sub: "\<And>u. GetLockOwner u ks1 = Some t \<Longrightarrow> GetLockOwner u ks = Some t" and n: "GetLockOwner n ks = Some t"
    and no: "\<not> (priority_of ks t = priority_of ks n \<and> priority_of ks t < th_base_priority (ks_threads ks t))"
  shows "priority_of ks1 t = inherited_priority t ks1"
proof -
  note f = locks_only_fields(1,3) [OF only]
  note le = le_inherited_priority [OF ok(1)] and le1 = le_inherited_priority [OF ok(2), unfolded f]
  have up: "inherited_priority t ks \<le> inherited_priority t ks1"
    using inherited_priority_le(1) [OF ok(1), of t] inherited_priority_le(2) [OF ok(1), of _ t] sub unfolding le1 by blast
  have "\<not> Suc (inherited_priority t ks) \<le> inherited_priority t ks1"
  proof
    assume a: "Suc (inherited_priority t ks) \<le> inherited_priority t ks1"
    then have b: "Suc (inherited_priority t ks) \<le> th_base_priority (ks_threads ks t)" unfolding le1 by blast
    have "\<not> Suc (inherited_priority t ks) \<le> inherited_priority t ks" by simp
    then obtain u where "GetLockOwner u ks = Some t" "\<not> Suc (inherited_priority t ks) \<le> priority_of ks u"
      using b unfolding le by blast
    moreover from this have "GetLockOwner u ks1 \<noteq> Some t" using a unfolding le1 by blast
    ultimately have "priority_of ks n \<le> inherited_priority t ks" using lost by fastforce
    then show False using no p b inherited_priority_le(2) [OF ok(1) n] by simp
  qed
  then show ?thesis using up p f by simp
qed

lemma RemoveWaiter_ok:
  assumes inh: "locks_inherit ks" and u: "GetLockOwner u ks = Some t"
  shows "\<exists>ks'. RemoveWaiter cur t u ks = Some ks' \<and> relocked ((\<lambda>v. GetLockOwner v ks)(u := None)) ks ks' \<and> (one_lock ks \<longrightarrow> one_lock ks')"
proof -
  note ok = locks_inherit_priority(2) [OF inh] and p = locks_inherit_priority(1) [OF inh]
  obtain ks1 where r: "RemoveWaiterImpl t u ks = Some ks1" "locks_ok ks1" "locks_only ks ks1"
    "\<And>v. GetLockOwner v ks1 = (if v = u then None else GetLockOwner v ks)" "objects ks1 = objects ks" "one_lock ks \<longrightarrow> one_lock ks1"
    using RemoveWaiterImpl_ok [OF ok u] by blast
  note f = locks_only_fields(1,3) [OF r(3)]
  have le: "n \<le> inherited_priority x ks1 \<longleftrightarrow> n \<le> inherited_priority x ks" if "x \<noteq> t" for n x
  proof -
    have "GetLockOwner v ks1 = Some x \<longleftrightarrow> GetLockOwner v ks = Some x" for v using u that r(4) by auto
    then show ?thesis unfolding le_inherited_priority [OF r(2)] le_inherited_priority [OF ok] f by simp
  qed
  have other: "priority_of ks1 x = inherited_priority x ks1" if "x \<noteq> t" for x
    unfolding f p by (rule eq_by_le) (simp add: le that)
  then have but: "inherits_but (Some t) ks1" by (simp add: inherits_but_def)
  let ?c = "priority_of ks t = priority_of ks u \<and> priority_of ks t < th_base_priority (ks_threads ks t)"
  have run: "RemoveWaiter cur t u ks = (if ?c then RestorePriority cur (Some t) ks1 else Some ks1)"
    using r(1) fun_cong [OF f(1)] f(2) by (simp add: RemoveWaiter_def Let_def priority_of_def)
  have "\<exists>ks'. RemoveWaiter cur t u ks = Some ks' \<and> restored ks1 ks'"
  proof (cases ?c)
    case True
    then show ?thesis using run RestorePriority_ok [OF r(2) but] by simp
  next
    case False
    have "priority_of ks1 t = inherited_priority t ks1"
      by (rule lost_waiters [OF p ok r(2,3) _ _ u False]) (auto simp: r(4) split: if_splits)
    then have "inherits_but None ks1" using but unfolding inherits_but_def by (metis option.inject)
    then show ?thesis using run [unfolded if_not_P [OF False]] RestorePriority_stops(2) [OF r(2)] by blast
  qed
  moreover have "GetLockOwner v ks1 = ((\<lambda>v. GetLockOwner v ks)(u := None)) v" for v using r(4) by simp
  ultimately show ?thesis using relocked_after [OF r(3,5)] r(6) unfolding restored_def priorities_only_def by blast
qed

lemma base_changed:
  assumes inh: "locks_inherit ks" and ks1: "ks1 = upd_thread t (\<lambda>th. th\<lparr>th_base_priority := v\<rparr>) ks"
  shows "locks_ok ks1" "inherits_but (Some t) ks1" "trees_ok ks1 \<longleftrightarrow> trees_ok ks" "ks_ok ks1 \<longleftrightarrow> ks_ok ks" "GetLockOwner u ks1 = GetLockOwner u ks"
proof -
  note ok = locks_inherit_priority(2) [OF inh] and p = locks_inherit_priority(1) [OF inh]
  have f: "held ks1 = held ks" "waiting ks1 = waiting ks" "address ks1 = address ks" "priority_of ks1 = priority_of ks"
    "kernel_count ks1 = kernel_count ks" "ks_lock_infos ks1 = ks_lock_infos ks" "ks_free_lock_infos ks1 = ks_free_lock_infos ks"
    by (auto simp: fun_eq_iff held_def waiting_def address_def priority_of_def kernel_count_def ks1 upd_thread_def)
  show ok1: "locks_ok ks1" using locks_ok_inv [OF ok] by (intro locks_okI) (simp_all add: f)
  show own: "GetLockOwner u ks1 = GetLockOwner u ks" for u unfolding GetLockOwner_alt f ..
  have "priority_of ks1 x = inherited_priority x ks1" if "x \<noteq> t" for x
    unfolding f p by (rule eq_by_le) (use that in \<open>simp add: le_inherited_priority [OF ok] le_inherited_priority [OF ok1] own f(4), simp add: ks1\<close>)
  then show "inherits_but (Some t) ks1" by (simp add: inherits_but_def)
  show "trees_ok ks1 \<longleftrightarrow> trees_ok ks" by (intro trees_ok_cong) (auto simp: ks1 upd_thread_def)
  show "ks_ok ks1 \<longleftrightarrow> ks_ok ks"
    by (intro quiet_ks_ok) (auto simp: quiet_def ks1 upd_thread_def sched_view_def pin_view_def IsDummyThread_def)
qed

lemma SetBasePriority_ok:
  assumes "locks_inherit ks"
  shows "\<exists>ks'. SetBasePriority cur t v ks = Some ks' \<and> restored (upd_thread t (\<lambda>th. th\<lparr>th_base_priority := v\<rparr>) ks) ks'"
  unfolding SetBasePriority_def by (rule RestorePriority_ok [OF base_changed(1,2) [OF assms refl]])

lemma IncreaseBasePriority_ok:
  assumes "locks_inherit ks"
  shows "\<exists>ks'. IncreaseBasePriority cur t v ks = Some ks' \<and>
    restored (if v < th_base_priority (ks_threads ks t) then upd_thread t (\<lambda>th. th\<lparr>th_base_priority := v\<rparr>) ks else ks) ks'"
  using RestorePriority_ok [OF base_changed(1,2) [OF assms refl]] RestorePriority_stops(2) [of ks] assms
  by (simp add: IncreaseBasePriority_def locks_inherit_def)

text \<open>Handing a lock over: its waiters now wait for the most urgent one of them.\<close>

definition handed_over :: "nat \<Rightarrow> nat \<Rightarrow> kernel \<Rightarrow> nat \<Rightarrow> nat option" where
  "handed_over l n ks v = (if v = n then None else if waiting ks v = Some l then Some n else GetLockOwner v ks)"

lemma hand_over_ok:
  assumes ok: "locks_ok ks" and l: "l \<in> set (held ks t)" and n: "li_tree (ks_lock_infos ks l) = n # ns"
    and ks1: "ks1 = (if li_is_kernel_address_key (ks_lock_infos ks l)
        then SetSchedulerUpdateNeeded (add_kernel_waiters t (- int (li_waiter_count (ks_lock_infos ks l))) (drop_held t l ks))
        else drop_held t l ks)"
    and ks2: "ks2 = snd (lock_RemoveWaiter l n ks1)"
    and ks3: "ks3 = (if ns = [] then lock_Free l ks2
        else if li_is_kernel_address_key (ks_lock_infos ks l)
        then add_kernel_waiters n (int (length ns)) (AddHeldLock n l ks2) else AddHeldLock n l ks2)"
  shows "locks_ok ks3" "locks_only ks ks3" "GetLockOwner v ks3 = handed_over l n ks v" "objects ks3 = objects ks"
    "one_lock ks \<Longrightarrow> (\<And>x. x \<in> set (held ks n) \<Longrightarrow> lock_key ks x = lock_key ks l \<Longrightarrow> x = l) \<Longrightarrow> one_lock ks3"
proof -
  let ?I = "ks_lock_infos ks" and ?k = "li_is_kernel_address_key (ks_lock_infos ks l)"
  note inv = locks_ok_inv(1) [OF ok]
  note held_l = lock_inv_held [OF inv l]
  have d: "distinct (held ks x)" for x using inv by (simp add: lock_inv_def)
  have count: "li_waiter_count (?I l) = Suc (length ns)" using held_l(6) n by simp
  have Wn: "waiting ks n = Some l" using held_l(7) n by auto
  have other: "l \<notin> set (held ks x)" if "x \<noteq> t" for x using that held_l(1) lock_inv_held(1) [OF inv, of l x] by auto
  have s: "held ks2 = (held ks)(t := remove1 l (held ks t))" "waiting ks2 = (waiting ks)(n := None)"
    "ks_free_lock_infos ks2 = ks_free_lock_infos ks"
    "ks_lock_infos ks2 = ?I(l := (?I l)\<lparr>li_tree := ns, li_waiter_count := length ns\<rparr>)"
    "kernel_count ks2 = (kernel_count ks)(t := kernel_count ks t - waiters_in (?I l))"
    using n count by (auto simp: ks2 ks1 waiters_in_def)
  show only: "locks_only ks ks3" by (simp add: ks3 ks2 ks1)
  note fields = locks_only_fields(1,2) [OF only]
  have gone: "l \<notin> set (remove1 l (held ks t))" using d by simp
  show okk: "locks_ok ks3"
  proof (rule locks_okI)
    show "lock_inv (held ks3) (waiting ks3) (ks_lock_infos ks3) (ks_free_lock_infos ks3) (priority_of ks3) (address ks3)"
    proof (cases "ns = []")
      case True
      then show ?thesis using lock_inv_last [OF inv l] n unfolding fields by (simp add: ks3 s)
    next
      case False
      have li: "(?I l)\<lparr>li_tree := ns, li_waiter_count := length ns, li_owner := Some n\<rparr> =
          (?I l)\<lparr>li_tree := ns, li_owner := Some n, li_waiter_count := li_waiter_count (?I l) - 1\<rparr>"
        using count by (simp add: LockInfo.equality)
      show ?thesis using lock_inv_hand_over [OF inv l n False li refl] False unfolding fields
        by (cases "n = t") (simp_all add: ks3 s Let_def)
    qed
    show "finite {v. waiting ks3 v \<noteq> None}" using finite_waiting_upd [OF locks_ok_inv(2) [OF ok]] by (simp add: ks3 s)
    fix v
    have kw: "kernel_waiters (ks_lock_infos ks2) (held ks2 x) = kernel_count ks2 x" for x
    proof (cases "x = t")
      case True
      then show ?thesis using kernel_waiters_other [OF gone, of ?I] kernel_waiters_remove [OF l, of ?I] locks_ok_inv(3) [OF ok, of t]
        by (simp add: s)
    next
      case False
      then show ?thesis using kernel_waiters_other [OF other, of x ?I] locks_ok_inv(3) [OF ok, of x] by (simp add: s)
    qed
    have absent: "l \<notin> set (held ks2 x)" for x using gone other by (simp add: s)
    show "kernel_count ks3 v = kernel_waiters (ks_lock_infos ks3) (held ks3 v)"
      using kw kernel_waiters_other [OF absent, of "ks_lock_infos ks2"]
      by (auto simp: ks3 kernel_waiters_Cons waiters_in_def s(4))
  qed
  have held3: "x \<in> set (held ks3 v) \<longleftrightarrow> (if x = l then ns \<noteq> [] \<and> v = n else x \<in> set (held ks v))" for x v
    using gone other [of v] other [of n] by (auto simp: ks3 s)
  have w3: "waiting ks3 = (waiting ks)(n := None)" by (simp add: ks3 s)
  have "GetLockOwner v ks3 = Some y \<longleftrightarrow> handed_over l n ks v = Some y" for y
    unfolding owner_waiting(2) [OF okk] handed_over_def held3 w3
    using held_l(7) n owner_waiting(2) [OF ok, of v] by (auto split: if_splits)
  then show "GetLockOwner v ks3 = handed_over l n ks v" by (metis option.exhaust)
  have "ks_free_lock_infos ks3 = (if ns = [] then l # ks_free_lock_infos ks else ks_free_lock_infos ks)" by (simp add: ks3 s)
  then have "x \<in> objects ks3 \<longleftrightarrow> x \<in> objects ks" for x using l by (cases "x = l") (auto simp: objects_def held3)
  then show "objects ks3 = objects ks" by blast
  have key: "lock_key ks3 x = lock_key ks x" for x by (simp add: lock_key_def ks3 s)
  show "one_lock ks3" if "one_lock ks" "\<And>x. x \<in> set (held ks n) \<Longrightarrow> lock_key ks x = lock_key ks l \<Longrightarrow> x = l"
    using that unfolding one_lock_def key held3 by (auto split: if_splits)
qed

lemma RemoveWaiterByKey_none: "FindHeldLock t k b ks = None \<Longrightarrow> RemoveWaiterByKey cur t k b ks = Some (None, False, ks)"
  by (simp add: RemoveWaiterByKey_def)

lemma RemoveWaiterByKey_all:
  assumes inh: "locks_inherit ks" and l: "FindHeldLock t k b ks = Some l"
  obtains n ns ks' where "li_tree (ks_lock_infos ks l) = n # ns" "RemoveWaiterByKey cur t k b ks = Some (Some n, ns \<noteq> [], ks')"
    "relocked (handed_over l n ks) ks ks'"
    "one_lock ks \<and> (\<forall>x. x \<in> set (held ks n) \<longrightarrow> lock_key ks x = lock_key ks l \<longrightarrow> x = l) \<longrightarrow> one_lock ks'"
proof -
  let ?I = "ks_lock_infos ks"
  note ok = locks_inherit_priority(2) [OF inh] and p = locks_inherit_priority(1) [OF inh]
  note inv = locks_ok_inv(1) [OF ok]
  note lt = FindHeldLock_found(1) [OF l]
  note held_l = lock_inv_held [OF inv lt]
  obtain n ns where n: "li_tree (?I l) = n # ns" using held_l(3) by (cases "li_tree (?I l)") auto
  define ks1 where "ks1 = (if li_is_kernel_address_key (?I l)
    then SetSchedulerUpdateNeeded (add_kernel_waiters t (- int (li_waiter_count (?I l))) (drop_held t l ks)) else drop_held t l ks)"
  define ks2 where "ks2 = snd (lock_RemoveWaiter l n ks1)"
  define ks3 where "ks3 = (if ns = [] then lock_Free l ks2
    else if li_is_kernel_address_key (?I l) then add_kernel_waiters n (int (length ns)) (AddHeldLock n l ks2) else AddHeldLock n l ks2)"
  note r = hand_over_ok [OF ok lt n ks1_def ks2_def ks3_def]
  note f = locks_only_fields(1,3) [OF r(2)]
  have count: "li_waiter_count (?I l) = Suc (length ns)" using held_l(6) n by simp
  have I1: "ks_lock_infos ks1 = ?I" by (simp add: ks1_def)
  have e: "lock_RemoveWaiter l n ks1 = (ns = [], ks2)"
    using lock_RemoveWaiter_empty [of l n ks1] count by (simp add: ks2_def I1 prod_eq_iff)
  have w: "GetHighestPriorityWaiter l ks1 = Some n" by (simp add: GetHighestPriorityWaiter_def I1 n)
  have c2: "li_waiter_count (ks_lock_infos (AddHeldLock n l ks2) l) = length ns" using count by (simp add: ks2_def I1)
  let ?c = "priority_of ks t = priority_of ks n \<and> priority_of ks t < th_base_priority (ks_threads ks t)"
  have run: "RemoveWaiterByKey cur t k b ks =
      do { ks' \<leftarrow> (if ?c then RestorePriority cur (Some t) ks3 else Some ks3); Some (Some n, ns \<noteq> [], ks') }"
    unfolding RemoveWaiterByKey_def Let_def l option.case lock_infos_ops(4) ks1_def [symmetric] w Option.bind.bind_lunit e prod.case
      c2 ks3_def [symmetric] f(2) using fun_cong [OF f(1)] by (simp add: priority_of_def)
  have waits: "waiting ks u = Some l \<Longrightarrow> GetLockOwner u ks = Some t" for u using lt owner_waiting(2) [OF ok] by blast
  have Wl: "{u. waiting ks u = Some l} = set (n # ns)" using held_l(7) n by simp
  then have nt: "GetLockOwner n ks = Some t" using waits [of n] by auto
  have front: "waiting ks u = Some l \<Longrightarrow> priority_of ks n \<le> priority_of ks u" for u
    using urgency.ordered_front [OF held_l(5) [unfolded n]] Wl by (metis mem_Collect_eq not_less)
  have "priority_of ks3 x = inherited_priority x ks3" if x: "x \<noteq> t" for x
    unfolding f p
  proof (rule eq_by_le)
    fix m
    have "GetLockOwner u ks3 = Some x \<longleftrightarrow> GetLockOwner u ks = Some x \<or> x = n \<and> u \<noteq> n \<and> waiting ks u = Some l" for u
      using x nt waits [of u] by (auto simp: r(3) handed_over_def)
    then have "m \<le> inherited_priority x ks3 \<longleftrightarrow>
        m \<le> inherited_priority x ks \<and> (\<forall>u. x = n \<and> u \<noteq> n \<and> waiting ks u = Some l \<longrightarrow> m \<le> priority_of ks u)"
      unfolding le_inherited_priority [OF r(1)] le_inherited_priority [OF ok] f by (simp only:) blast
    moreover have "m \<le> inherited_priority n ks \<Longrightarrow> waiting ks u = Some l \<Longrightarrow> m \<le> priority_of ks u" for u
      using front [of u] p [of n] by simp
    ultimately show "m \<le> inherited_priority x ks \<longleftrightarrow> m \<le> inherited_priority x ks3" by blast
  qed
  then have but: "inherits_but (Some t) ks3" by (simp add: inherits_but_def)
  have "\<exists>ks'. (if ?c then RestorePriority cur (Some t) ks3 else Some ks3) = Some ks' \<and> restored ks3 ks'"
  proof (cases ?c)
    case True
    then show ?thesis using RestorePriority_ok [OF r(1) but] by simp
  next
    case False
    have "priority_of ks3 t = inherited_priority t ks3"
    proof (rule lost_waiters [OF p ok r(1,2) _ _ nt False])
      show "priority_of ks n \<le> priority_of ks u" if "GetLockOwner u ks = Some t" "GetLockOwner u ks3 \<noteq> Some t" for u
        using that front [of u] by (auto simp: r(3) handed_over_def split: if_splits)
      show "GetLockOwner u ks = Some t" if "GetLockOwner u ks3 = Some t" for u
        using that nt waits [of u] by (auto simp: r(3) handed_over_def split: if_splits)
    qed
    then have "inherits_but None ks3" using but unfolding inherits_but_def by (metis option.inject)
    then show ?thesis unfolding if_not_P [OF False] using RestorePriority_stops(2) [OF r(1)] by blast
  qed
  then obtain ks' where "RemoveWaiterByKey cur t k b ks = Some (Some n, ns \<noteq> [], ks')" "restored ks3 ks'" using run by auto
  moreover from this have "one_lock ks3 \<Longrightarrow> one_lock ks'" by (simp add: restored_def priorities_only_def)
  ultimately show thesis using that [OF n] relocked_after [OF r(2,4,3)] r(5) by blast
qed

lemma RemoveWaiterByKey_ok:
  assumes "locks_inherit ks" "FindHeldLock t k b ks = Some l"
  obtains n ns ks' where "li_tree (ks_lock_infos ks l) = n # ns" "RemoveWaiterByKey cur t k b ks = Some (Some n, ns \<noteq> [], ks')"
    "relocked (handed_over l n ks) ks ks'"
  by (rule RemoveWaiterByKey_all [OF assms, of cur]) (rule that)

end
