(* ===== verification/KConditionVariable.thy ===== *)
theory KConditionVariable
  imports KThread_Locks
begin

text \<open>
  Locks and condition variables of user programs, \<^verbatim>\<open>src/src/core/hle/kernel/k_condition_variable.cpp\<close>, and
  address arbiters, \<^verbatim>\<open>k_address_arbiter.cpp\<close>. A lock is a word of user memory that holds the handle of
  its owner, with a bit that says whether threads wait in the kernel.

  The memory of a process is a function from word-aligned addresses, as the system calls check, to
  words. Reading and writing it always succeeds, as in the code. A loop that repeats an exclusive
  access until it succeeds is one step. The process of the current thread and what its handle table
  holds are arguments; a handle that names a thread gives its number. An operation that makes the
  current thread wait gives no result, since the result is set by whoever ends the wait. Timers are
  not part of the model: that one ends a wait is an operation of its own.
\<close>

section \<open>User memory\<close>

definition HandleWaitMask :: u32 where
  "HandleWaitMask = push_bit 30 1"

definition InvalidHandle :: u32 where
  "InvalidHandle = 0"

definition ReadFromUser :: "nat \<Rightarrow> u64 \<Rightarrow> kernel \<Rightarrow> u32" where
  "ReadFromUser p addr ks = ks_user_memory ks p addr"

definition WriteToUser :: "nat \<Rightarrow> u64 \<Rightarrow> u32 \<Rightarrow> kernel \<Rightarrow> kernel" where
  "WriteToUser p addr v ks = ks\<lparr>ks_user_memory := (ks_user_memory ks)(p := (ks_user_memory ks p)(addr := v))\<rparr>"

definition UpdateLockAtomic :: "nat \<Rightarrow> u64 \<Rightarrow> u32 \<Rightarrow> u32 \<Rightarrow> kernel \<Rightarrow> u32 \<times> kernel" where
  "UpdateLockAtomic p address if_zero new_orr_mask ks =
     (let expected = ReadFromUser p address ks;
          v = (if expected = 0 then if_zero else expected OR new_orr_mask)
      in (expected, WriteToUser p address v ks))"

section \<open>Trees of waiting threads\<close>

definition SetUserAddressKey :: "nat \<Rightarrow> u64 \<Rightarrow> u32 \<Rightarrow> kernel \<Rightarrow> kernel" where
  "SetUserAddressKey t key val =
     upd_thread t (\<lambda>th. th\<lparr>th_address_key := key, th_address_key_value := val, th_is_kernel_address_key := False\<rparr>)"

definition SetConditionVariable :: "nat \<Rightarrow> nat \<Rightarrow> u64 \<Rightarrow> u64 \<Rightarrow> u32 \<Rightarrow> kernel \<Rightarrow> kernel" where
  "SetConditionVariable t tr address cv_key val =
     upd_thread t (\<lambda>th. th\<lparr>th_condvar_tree := Some tr, th_condvar_key := cv_key, th_address_key := address,
       th_address_key_value := val, th_is_kernel_address_key := False\<rparr>)"

definition SetAddressArbiter :: "nat \<Rightarrow> nat \<Rightarrow> u64 \<Rightarrow> kernel \<Rightarrow> kernel" where
  "SetAddressArbiter t tr address = upd_thread t (\<lambda>th. th\<lparr>th_condvar_tree := Some tr, th_condvar_key := address\<rparr>)"

definition ClearConditionVariable :: "nat \<Rightarrow> kernel \<Rightarrow> kernel" where
  "ClearConditionVariable t = upd_thread t (\<lambda>th. th\<lparr>th_condvar_tree := None\<rparr>)"

text \<open>An iterator into a tree is the thread it stands at, or nothing at the end.\<close>

definition nfind_key :: "nat \<Rightarrow> u64 \<Rightarrow> kernel \<Rightarrow> nat option" where
  "nfind_key tr key ks = find (\<lambda>u. key \<le> th_condvar_key (ks_threads ks u)) (ks_trees ks tr)"

definition following :: "nat list \<Rightarrow> nat \<Rightarrow> nat option" where
  "following ts t = (case dropWhile (\<lambda>u. u \<noteq> t) ts of _ # u # _ \<Rightarrow> Some u | _ \<Rightarrow> None)"

definition tree_erase :: "nat \<Rightarrow> nat \<Rightarrow> kernel \<Rightarrow> nat option \<times> kernel" where
  "tree_erase tr t ks =
     (following (ks_trees ks tr) t, ks\<lparr>ks_trees := (ks_trees ks)(tr := remove1 t (ks_trees ks tr))\<rparr>)"

definition tree_insert_thread :: "nat \<Rightarrow> nat \<Rightarrow> kernel \<Rightarrow> kernel" where
  "tree_insert_thread tr t ks =
     ks\<lparr>ks_trees := (ks_trees ks)(tr := tree_insert_by (condvar_before (ks_threads ks)) t (ks_trees ks tr))\<rparr>"

section \<open>Locks\<close>

text \<open>The value of the word of a lock that is handed to the next owner.\<close>

definition next_tag :: "nat option \<Rightarrow> bool \<Rightarrow> kernel \<Rightarrow> u32" where
  "next_tag next_owner has_waiters ks =
     (case next_owner of
        None \<Rightarrow> 0
      | Some n \<Rightarrow>
          let v = th_address_key_value (ks_threads ks n) in if has_waiters then v OR HandleWaitMask else v)"

definition SignalToAddress :: "nat \<Rightarrow> nat \<Rightarrow> u64 \<Rightarrow> kernel \<Rightarrow> (Result \<times> kernel) option" where
  "SignalToAddress p cur addr ks =
     do {
       (next_owner, has_waiters, ks) \<leftarrow> RemoveWaiterByKey cur cur addr False ks;
       let next_value = next_tag next_owner has_waiters ks;
       let ks = WriteToUser p addr next_value ks;
       let ks = (case next_owner of None \<Rightarrow> ks | Some n \<Rightarrow> EndWait ResultSuccess n ks);
       Some (ResultSuccess, ks)
     }"

definition WaitForAddress :: "nat \<Rightarrow> nat \<Rightarrow> (u32 \<Rightarrow> nat option) \<Rightarrow> u32 \<Rightarrow> u64 \<Rightarrow> u32 \<Rightarrow> kernel \<Rightarrow> (Result option \<times> kernel) option" where
  "WaitForAddress p cur thread_of handle addr val ks =
     (if IsTerminationRequested (ks_threads ks cur) then Some (Some ResultTerminationRequested, ks)
      else if ReadFromUser p addr ks \<noteq> handle OR HandleWaitMask then Some (Some ResultSuccess, ks)
      else
        case thread_of handle of
          None \<Rightarrow> Some (Some ResultInvalidHandle, ks)
        | Some owner_thread \<Rightarrow> do {
            let ks = SetUserAddressKey cur addr val ks;
            ks \<leftarrow> AddWaiter cur owner_thread cur ks;
            Some (None, BeginWait cur ks)
          })"

text \<open>The end of a wait for a lock by a timer or a cancellation; the owner is not null, as the code assumes.\<close>

definition lock_CancelWait :: "nat \<Rightarrow> Result \<Rightarrow> nat \<Rightarrow> kernel \<Rightarrow> kernel option" where
  "lock_CancelWait cur result t ks =
     do {
       owner \<leftarrow> GetLockOwner t ks;
       ks \<leftarrow> RemoveWaiter cur owner t ks;
       Some (wake result t ks)
     }"

section \<open>Condition variables\<close>

definition SignalImpl :: "nat \<Rightarrow> nat \<Rightarrow> (u32 \<Rightarrow> nat option) \<Rightarrow> nat \<Rightarrow> kernel \<Rightarrow> kernel option" where
  "SignalImpl p cur thread_of thread ks =
     (let address = th_address_key (ks_threads ks thread);
          own_tag = th_address_key_value (ks_threads ks thread);
          (prev_tag, ks) = UpdateLockAtomic p address own_tag HandleWaitMask ks
      in if prev_tag = InvalidHandle then Some (EndWait ResultSuccess thread ks)
         else
           case thread_of (prev_tag AND NOT HandleWaitMask) of
             Some owner_thread \<Rightarrow> AddWaiter cur owner_thread thread ks
           | None \<Rightarrow> Some (EndWait ResultInvalidState thread ks))"

partial_function (option) signal_threads ::
  "nat \<Rightarrow> nat \<Rightarrow> (u32 \<Rightarrow> nat option) \<Rightarrow> nat \<Rightarrow> u64 \<Rightarrow> int \<Rightarrow> int \<Rightarrow> nat option \<Rightarrow> kernel \<Rightarrow> (nat option \<times> kernel) option" where
  "signal_threads p cur thread_of tr cv_key count num_waiters it ks =
     (case it of
        None \<Rightarrow> Some (None, ks)
      | Some target_thread \<Rightarrow>
          if (count \<le> 0 \<or> num_waiters < count) \<and> th_condvar_key (ks_threads ks target_thread) = cv_key
          then
            let (it, ks) = tree_erase tr target_thread ks
            in do {
                 ks \<leftarrow> SignalImpl p cur thread_of target_thread (ClearConditionVariable target_thread ks);
                 signal_threads p cur thread_of tr cv_key count (num_waiters + 1) it ks
               }
          else Some (it, ks))"

declare signal_threads.simps [code]

definition Signal :: "nat \<Rightarrow> nat \<Rightarrow> (u32 \<Rightarrow> nat option) \<Rightarrow> nat \<Rightarrow> u64 \<Rightarrow> int \<Rightarrow> kernel \<Rightarrow> kernel option" where
  "Signal p cur thread_of tr cv_key count ks =
     do {
       (it, ks) \<leftarrow> signal_threads p cur thread_of tr cv_key count 0 (nfind_key tr cv_key ks) ks;
       Some (case it of
               None \<Rightarrow> WriteToUser p cv_key 0 ks
             | Some t \<Rightarrow> if th_condvar_key (ks_threads ks t) \<noteq> cv_key then WriteToUser p cv_key 0 ks else ks)
     }"

definition Wait :: "nat \<Rightarrow> nat \<Rightarrow> nat \<Rightarrow> u64 \<Rightarrow> u64 \<Rightarrow> u32 \<Rightarrow> int \<Rightarrow> kernel \<Rightarrow> (Result option \<times> kernel) option" where
  "Wait p cur tr addr key val timeout ks =
     (if IsTerminationRequested (ks_threads ks cur) then Some (Some ResultTerminationRequested, ks)
      else do {
        (next_owner, has_waiters, ks) \<leftarrow> RemoveWaiterByKey cur cur addr False ks;
        let next_value = next_tag next_owner has_waiters ks;
        let ks = (case next_owner of None \<Rightarrow> ks | Some n \<Rightarrow> EndWait ResultSuccess n ks);
        let ks = WriteToUser p key 1 ks;
        let ks = WriteToUser p addr next_value ks;
        if timeout = 0 then Some (Some ResultTimedOut, ks)
        else
          let ks = SetConditionVariable cur tr addr key val ks;
              ks = tree_insert_thread tr cur ks
          in Some (None, BeginWait cur ks)
      })"

definition condvar_CancelWait :: "nat \<Rightarrow> nat \<Rightarrow> Result \<Rightarrow> nat \<Rightarrow> kernel \<Rightarrow> kernel option" where
  "condvar_CancelWait cur tr result t ks =
     do {
       ks \<leftarrow> (case GetLockOwner t ks of None \<Rightarrow> Some ks | Some owner \<Rightarrow> RemoveWaiter cur owner t ks);
       let ks = (if th_condvar_tree (ks_threads ks t) \<noteq> None
                 then ClearConditionVariable t (snd (tree_erase tr t ks)) else ks);
       Some (wake result t ks)
     }"

section \<open>Address arbiters\<close>

text \<open>A value of user memory as the signed number the arbiter compares.\<close>

definition DecrementIfLessThan :: "nat \<Rightarrow> u64 \<Rightarrow> int \<Rightarrow> kernel \<Rightarrow> int \<times> kernel" where
  "DecrementIfLessThan p addr val ks =
     (let current_value = sint (ReadFromUser p addr ks)
      in (current_value, if current_value < val then WriteToUser p addr (word_of_int (current_value - 1)) ks else ks))"

definition UpdateIfEqual :: "nat \<Rightarrow> u64 \<Rightarrow> int \<Rightarrow> int \<Rightarrow> kernel \<Rightarrow> int \<times> kernel" where
  "UpdateIfEqual p addr val new_value ks =
     (let current_value = sint (ReadFromUser p addr ks)
      in (current_value, if current_value = val then WriteToUser p addr (word_of_int new_value) ks else ks))"

lemma trees_state [simp]:
  "ks_trees (OnThreadStateChanged t s ks) = ks_trees ks" "ks_trees (upd_thread t f ks) = ks_trees ks"
  "ks_trees (EndWait r t ks) = ks_trees ks" "ks_trees (ClearConditionVariable t ks) = ks_trees ks"
proof -
  have a: "ks_trees (upd_thread t f ks) = ks_trees ks" for t f ks by (simp add: upd_thread_def)
  have b: "ks_trees (OnThreadStateChanged t s ks) = ks_trees ks" for t s ks
    by (auto simp: OnThreadStateChanged_def Let_def SetSchedulerUpdateNeeded_def IncrementScheduledCount_def upd_process_def
        UnregisterDummyThreadForWakeup_def RegisterDummyThreadForWakeup_def split: option.split)
  show "ks_trees (OnThreadStateChanged t s ks) = ks_trees ks" "ks_trees (upd_thread t f ks) = ks_trees ks"
    "ks_trees (EndWait r t ks) = ks_trees ks" "ks_trees (ClearConditionVariable t ks) = ks_trees ks"
    by (simp_all add: a b EndWait_def wake_def SetState_def Let_def ClearConditionVariable_def)
qed

lemma following_in:
  "following ts t = Some u \<Longrightarrow> t \<in> set ts"
proof (rule ccontr)
  assume f: "following ts t = Some u" "t \<notin> set ts"
  then have "dropWhile (\<lambda>v. v \<noteq> t) ts = []" by (auto simp: dropWhile_eq_Nil_conv)
  then show False using f(1) unfolding following_def by (simp only: list.case option.distinct)
qed

text \<open>The loop that all three ways to signal an arbiter share.\<close>

function wake_waiters :: "nat \<Rightarrow> u64 \<Rightarrow> int \<Rightarrow> int \<Rightarrow> nat option \<Rightarrow> kernel \<Rightarrow> kernel" where
  "wake_waiters tr addr count num_waiters it ks =
     (case it of
        None \<Rightarrow> ks
      | Some target_thread \<Rightarrow>
          if (count \<le> 0 \<or> num_waiters < count) \<and> th_condvar_key (ks_threads ks target_thread) = addr
          then
            let ks = ClearConditionVariable target_thread (EndWait ResultSuccess target_thread ks);
                (it, ks) = tree_erase tr target_thread ks
            in wake_waiters tr addr count (num_waiters + 1) it ks
          else ks)"
  by pat_completeness auto

termination
proof (relation "measure (\<lambda>(tr, _, _, _, it, ks). length (ks_trees ks tr) + (if it = None then 0 else 1))", goal_cases)
  case (2 tr addr count num_waiters it ks t x y it' ks')
  then have e: "it' = following (ks_trees ks tr) t" "ks_trees ks' tr = remove1 t (ks_trees ks tr)"
    by (auto simp: tree_erase_def)
  show ?case
  proof (cases it')
    case None
    have "length (remove1 t ts) \<le> length ts" for ts by (induction ts) auto
    then show ?thesis using 2(1) e None by (simp add: le_imp_less_Suc)
  next
    case (Some u)
    then have "t \<in> set (ks_trees ks tr)" using e following_in by metis
    then have "length (remove1 t (ks_trees ks tr)) < length (ks_trees ks tr)"
      using length_pos_if_in_set [of t "ks_trees ks tr"] by (simp add: length_remove1)
    then show ?thesis using 2(1) e Some by simp
  qed
qed simp

declare wake_waiters.simps [simp del]

definition arbiter_Signal :: "nat \<Rightarrow> u64 \<Rightarrow> int \<Rightarrow> kernel \<Rightarrow> Result \<times> kernel" where
  "arbiter_Signal tr addr count ks = (ResultSuccess, wake_waiters tr addr count 0 (nfind_key tr addr ks) ks)"

definition SignalAndIncrementIfEqual :: "nat \<Rightarrow> nat \<Rightarrow> u64 \<Rightarrow> int \<Rightarrow> int \<Rightarrow> kernel \<Rightarrow> Result \<times> kernel" where
  "SignalAndIncrementIfEqual p tr addr val count ks =
     (let (user_value, ks) = UpdateIfEqual p addr val (val + 1) ks
      in if user_value \<noteq> val then (ResultInvalidState, ks)
         else (ResultSuccess, wake_waiters tr addr count 0 (nfind_key tr addr ks) ks))"

text \<open>
  The count of the threads that wait behind the first one; the loop stops when the count exceeds the
  given one.
\<close>

fun count_waiters :: "kernel \<Rightarrow> u64 \<Rightarrow> int \<Rightarrow> int \<Rightarrow> nat list \<Rightarrow> int" where
  "count_waiters ks addr count tmp_num_waiters [] = tmp_num_waiters"
| "count_waiters ks addr count tmp_num_waiters (t # ts) =
     (if th_condvar_key (ks_threads ks t) = addr
      then if tmp_num_waiters \<ge> count then tmp_num_waiters + 1 else count_waiters ks addr count (tmp_num_waiters + 1) ts
      else tmp_num_waiters)"

definition new_value_by_count :: "nat \<Rightarrow> u64 \<Rightarrow> int \<Rightarrow> int \<Rightarrow> kernel \<Rightarrow> int" where
  "new_value_by_count tr addr val count ks =
     (case nfind_key tr addr ks of
        Some t \<Rightarrow>
          if th_condvar_key (ks_threads ks t) = addr
          then
            if count \<le> 0 then val - 2
            else if count_waiters ks addr count 0 (tl (dropWhile (\<lambda>u. u \<noteq> t) (ks_trees ks tr))) < count then val - 1
            else val
          else val + 1
      | None \<Rightarrow> val + 1)"

definition SignalAndModifyByWaitingCountIfEqual :: "nat \<Rightarrow> nat \<Rightarrow> u64 \<Rightarrow> int \<Rightarrow> int \<Rightarrow> kernel \<Rightarrow> Result \<times> kernel" where
  "SignalAndModifyByWaitingCountIfEqual p tr addr val count ks =
     (let it = nfind_key tr addr ks;
          new_value = new_value_by_count tr addr val count ks;
          (user_value, ks) = (if val \<noteq> new_value then UpdateIfEqual p addr val new_value ks
                              else (sint (ReadFromUser p addr ks), ks))
      in if user_value \<noteq> val then (ResultInvalidState, ks)
         else (ResultSuccess, wake_waiters tr addr count 0 it ks))"

definition arbiter_wait :: "nat \<Rightarrow> nat \<Rightarrow> u64 \<Rightarrow> kernel \<Rightarrow> kernel" where
  "arbiter_wait cur tr addr ks = BeginWait cur (tree_insert_thread tr cur (SetAddressArbiter cur tr addr ks))"

definition WaitIfLessThan :: "nat \<Rightarrow> nat \<Rightarrow> nat \<Rightarrow> u64 \<Rightarrow> int \<Rightarrow> bool \<Rightarrow> int \<Rightarrow> kernel \<Rightarrow> Result option \<times> kernel" where
  "WaitIfLessThan p cur tr addr val decrement timeout ks =
     (if IsTerminationRequested (ks_threads ks cur) then (Some ResultTerminationRequested, ks)
      else
        let (user_value, ks) = (if decrement then DecrementIfLessThan p addr val ks else (sint (ReadFromUser p addr ks), ks))
        in if user_value \<ge> val then (Some ResultInvalidState, ks)
           else if timeout = 0 then (Some ResultTimedOut, ks)
           else (None, arbiter_wait cur tr addr ks))"

definition WaitIfEqual :: "nat \<Rightarrow> nat \<Rightarrow> nat \<Rightarrow> u64 \<Rightarrow> int \<Rightarrow> int \<Rightarrow> kernel \<Rightarrow> Result option \<times> kernel" where
  "WaitIfEqual p cur tr addr val timeout ks =
     (if IsTerminationRequested (ks_threads ks cur) then (Some ResultTerminationRequested, ks)
      else if val \<noteq> sint (ReadFromUser p addr ks) then (Some ResultInvalidState, ks)
      else if timeout = 0 then (Some ResultTimedOut, ks)
      else (None, arbiter_wait cur tr addr ks))"

definition arbiter_CancelWait :: "nat \<Rightarrow> Result \<Rightarrow> nat \<Rightarrow> kernel \<Rightarrow> kernel" where
  "arbiter_CancelWait tr result t ks =
     (let ks = (if th_condvar_tree (ks_threads ks t) \<noteq> None
                then ClearConditionVariable t (snd (tree_erase tr t ks)) else ks)
      in wake result t ks)"

end
