(* ===== verification/Waiting_Frames.thy ===== *)
theory Waiting_Frames
  imports Priority_Inheritance KConditionVariable
begin

text \<open>
  What the operations of the scheduler leave alone of the locks and the trees of waiting threads, and
  the invariant of everything threads wait for.
\<close>

section \<open>What the operations of the scheduler leave alone\<close>

definition thread_locks :: "KThread \<Rightarrow> nat \<times> nat \<times> int \<times> nat list \<times> nat option \<times> u64 \<times> bool \<times> nat option \<times> u64" where
  "thread_locks th = (th_priority th, th_base_priority th, th_num_kernel_waiters th, th_held_lock_info_list th, th_waiting_lock_info th,
     th_address_key th, th_is_kernel_address_key th, th_condvar_tree th, th_condvar_key th)"

definition lock_view :: "kernel \<Rightarrow> (nat \<Rightarrow> nat \<times> nat \<times> int \<times> nat list \<times> nat option \<times> u64 \<times> bool \<times> nat option \<times> u64) \<times>
    (nat \<Rightarrow> LockInfo) \<times> nat list \<times> (nat \<Rightarrow> nat list)" where
  "lock_view ks = (\<lambda>t. thread_locks (ks_threads ks t), ks_lock_infos ks, ks_free_lock_infos ks, ks_trees ks)"

text \<open>The invariant of everything threads wait for, but for the queues of the scheduler.\<close>

definition apart :: "kernel \<Rightarrow> bool" where
  "apart ks \<longleftrightarrow> (\<forall>u. th_condvar_tree (ks_threads ks u) \<noteq> None \<longrightarrow> GetLockOwner u ks = None)"

definition waits_ok :: "kernel \<Rightarrow> bool" where
  "waits_ok ks \<longleftrightarrow> locks_inherit ks \<and> trees_ok ks \<and> apart ks"

lemma lock_view_fields:
  assumes "lock_view ks' = lock_view ks"
  shows "priority_of ks' = priority_of ks" "held ks' = held ks" "waiting ks' = waiting ks" "address ks' = address ks"
    "kernel_count ks' = kernel_count ks" "ks_lock_infos ks' = ks_lock_infos ks" "ks_free_lock_infos ks' = ks_free_lock_infos ks"
    "ks_trees ks' = ks_trees ks" "th_base_priority (ks_threads ks' t) = th_base_priority (ks_threads ks t)"
    "th_condvar_tree (ks_threads ks' t) = th_condvar_tree (ks_threads ks t)" "th_condvar_key (ks_threads ks' t) = th_condvar_key (ks_threads ks t)"
    "GetLockOwner t ks' = GetLockOwner t ks"
proof -
  have "thread_locks (ks_threads ks' u) = thread_locks (ks_threads ks u)" for u using assms by (simp add: lock_view_def fun_eq_iff)
  note t = this [unfolded thread_locks_def prod.inject]
  show "priority_of ks' = priority_of ks" "held ks' = held ks" "address ks' = address ks" "kernel_count ks' = kernel_count ks"
    "th_base_priority (ks_threads ks' t) = th_base_priority (ks_threads ks t)"
    "th_condvar_tree (ks_threads ks' t) = th_condvar_tree (ks_threads ks t)" "th_condvar_key (ks_threads ks' t) = th_condvar_key (ks_threads ks t)"
    using t by (simp_all add: fun_eq_iff priority_of_def held_def address_def kernel_count_def)
  show w: "waiting ks' = waiting ks" using t by (simp add: fun_eq_iff waiting_def)
  show i: "ks_lock_infos ks' = ks_lock_infos ks" and "ks_free_lock_infos ks' = ks_free_lock_infos ks" "ks_trees ks' = ks_trees ks"
    using assms by (simp_all add: lock_view_def)
  show "GetLockOwner t ks' = GetLockOwner t ks" unfolding GetLockOwner_alt w i ..
qed

lemma lock_view_ok:
  assumes "lock_view ks' = lock_view ks"
  shows "locks_inherit ks' \<longleftrightarrow> locks_inherit ks" "trees_ok ks' \<longleftrightarrow> trees_ok ks" "apart ks' \<longleftrightarrow> apart ks" "waits_ok ks' \<longleftrightarrow> waits_ok ks"
proof -
  note f = lock_view_fields [OF assms]
  have ok: "locks_ok ks' \<longleftrightarrow> locks_ok ks"
    unfolding locks_ok_def kernel_count_def [symmetric] f ..
  moreover have "inherited_priority t ks' = inherited_priority t ks" if "locks_ok ks" for t
  proof (rule eq_by_le)
    fix n
    show "n \<le> inherited_priority t ks' \<longleftrightarrow> n \<le> inherited_priority t ks"
      unfolding le_inherited_priority [OF that] le_inherited_priority [OF ok [THEN iffD2, OF that]] f ..
  qed
  ultimately show l: "locks_inherit ks' \<longleftrightarrow> locks_inherit ks" unfolding locks_inherit_def inherits_but_def f by auto
  have "th_priority (ks_threads ks' u) = th_priority (ks_threads ks u)" for u
    using fun_cong [OF f(1), of u] by (simp add: priority_of_def)
  then show t: "trees_ok ks' \<longleftrightarrow> trees_ok ks" using f(8,10,11) by (intro trees_ok_cong) simp_all
  show a: "apart ks' \<longleftrightarrow> apart ks" unfolding apart_def f ..
  show "waits_ok ks' \<longleftrightarrow> waits_ok ks" unfolding waits_ok_def l t a ..
qed

lemma lock_view_upd: "(\<And>th. thread_locks (f th) = thread_locks th) \<Longrightarrow> lock_view (upd_thread t f ks) = lock_view ks"
  by (simp add: lock_view_def upd_thread_def fun_eq_iff)

lemma lock_view_simple [simp]:
  "lock_view (SetSchedulerUpdateNeeded ks) = lock_view ks" "lock_view (ClearSchedulerUpdateNeeded ks) = lock_view ks"
  "lock_view (upd_process p g ks) = lock_view ks" "lock_view (upd_scheduler c h ks) = lock_view ks"
  "lock_view (IncrementScheduledCount t ks) = lock_view ks" "lock_view (ks\<lparr>ks_priority_queue := q\<rparr>) = lock_view ks"
  "lock_view (RegisterDummyThreadForWakeup t ks) = lock_view ks" "lock_view (UnregisterDummyThreadForWakeup t ks) = lock_view ks"
  "lock_view (WriteToUser p a v ks) = lock_view ks"
  by (auto simp: lock_view_def SetSchedulerUpdateNeeded_def ClearSchedulerUpdateNeeded_def upd_process_def upd_scheduler_def
      IncrementScheduledCount_def RegisterDummyThreadForWakeup_def UnregisterDummyThreadForWakeup_def Let_def WriteToUser_def split: option.split)

lemma lock_view_thread_ops [simp]:
  "lock_view (RequestDummyThreadWait t ks) = lock_view ks" "lock_view (DummyThreadEndWait t ks) = lock_view ks"
  "lock_view (SetYieldScheduleCount t ks) = lock_view ks" "lock_view (upd_thread t (\<lambda>th. th\<lparr>th_thread_state := s\<rparr>) ks) = lock_view ks"
  "lock_view (upd_thread t (\<lambda>th. th\<lparr>th_wait_result := r\<rparr>) ks) = lock_view ks" "lock_view (migrate t c f ks) = lock_view ks"
  by (auto simp: RequestDummyThreadWait_def DummyThreadEndWait_def SetYieldScheduleCount_def migrate_def Let_def thread_locks_def
      intro!: lock_view_upd)

lemma lock_view_changed [simp]:
  "lock_view (OnThreadStateChanged t s ks) = lock_view ks" "lock_view (OnThreadAffinityMaskChanged t m c ks) = lock_view ks"
  by (simp_all add: OnThreadStateChanged_def OnThreadAffinityMaskChanged_def Let_def)

lemma lock_view_to_state [simp]: "lock_view (to_state t s ks) = lock_view ks"
  by (simp add: to_state_def)

lemma lock_view_states [simp]:
  "lock_view (SetState t s ks) = lock_view ks" "lock_view (UpdateState t ks) = lock_view ks" "lock_view (Continue_thread t ks) = lock_view ks"
  by (simp_all add: states_eq)

lemma lock_view_waits [simp]:
  "lock_view (wake r t ks) = lock_view ks" "lock_view (EndWait r t ks) = lock_view ks" "lock_view (BeginWait t ks) = lock_view ks"
  by (simp_all add: wake_def EndWait_def BeginWait_def)

lemma lock_view_kernel [simp]:
  "lock_view (ks\<lparr>ks_owner_thread := x\<rparr>) = lock_view ks" "lock_view (ks\<lparr>ks_lock_count := n\<rparr>) = lock_view ks"
  "lock_view (ks\<lparr>ks_woken_dummy_threads := ts\<rparr>) = lock_view ks"
  by (simp_all add: lock_view_def)

lemma lock_view_fold: "(\<And>x ks. lock_view (f x ks) = lock_view ks) \<Longrightarrow> lock_view (fold f xs ks) = lock_view ks"
  by (induction xs arbitrary: ks) auto

lemmas frames = lock_view_upd thread_locks_def Let_def

lemma lock_view_suspension [simp]:
  "lock_view (RequestSuspend type t ks) = lock_view ks" "lock_view (Resume type t ks) = lock_view ks"
  "lock_view (snd (SetActivity paused t ks)) = lock_view ks"
proof -
  show "lock_view (RequestSuspend type t ks) = lock_view ks" "lock_view (Resume type t ks) = lock_view ks" for type
    by (simp_all add: RequestSuspend_def TrySuspend_def Resume_def frames)
  then show "lock_view (snd (SetActivity paused t ks)) = lock_view ks" by (simp add: SetActivity_def Let_def)
qed

lemma lock_view_pins [simp]:
  "lock_view (PinCurrentThread p t ks) = lock_view ks" "lock_view (UnpinCurrentThread p t ks) = lock_view ks"
  "lock_view (UnpinThread p t ks) = lock_view ks"
proof -
  have "lock_view (Unpin t ks) = lock_view ks" for ks by (simp add: Unpin_def frames lock_view_fold)
  then show "lock_view (PinCurrentThread p t ks) = lock_view ks" "lock_view (UnpinCurrentThread p t ks) = lock_view ks"
    "lock_view (UnpinThread p t ks) = lock_view ks"
    by (simp_all add: PinCurrentThread_def Pin_def UnpinCurrentThread_def UnpinThread_def frames)
qed

lemma lock_view_SetCoreMask: "SetCoreMask core v t ks = Some (r, ks') \<Longrightarrow> lock_view ks' = lock_view ks"
  by (auto simp: SetCoreMask_def frames split: if_splits)

lemma lock_view_rotate:
  assumes "RotateScheduledQueue cur core p ks = Some ks'"
  shows "lock_view ks' = lock_view ks"
proof -
  have found: "lock_view (migrate_found core r ks) = lock_view ks" for r ks
    by (simp add: migrate_found_def split: sum.split option.split)
  have "lock_view (snd (snd (rotate_front core p ks))) = lock_view ks"
    by (simp add: rotate_front_def Let_def split: option.split prod.split)
  then show ?thesis using assms
    by (auto simp: RotateScheduledQueue_def Let_def found split: prod.splits option.splits if_splits Option.bind_splits)
qed

lemma lock_view_preempt: "PreemptThreads cur ks = Some ks' \<Longrightarrow> lock_view ks' = lock_view ks"
proof -
  have "preempt_cores cur c ps ks = Some ks' \<Longrightarrow> lock_view ks' = lock_view ks" for c ps
    by (induction ps arbitrary: c ks) (auto simp: lock_view_rotate split: Option.bind_splits)
  then show "PreemptThreads cur ks = Some ks' \<Longrightarrow> lock_view ks' = lock_view ks" by (simp add: PreemptThreads_def)
qed

lemma lock_view_yields:
  "lock_view (YieldWithoutCoreMigration cur ks) = lock_view ks"
  "YieldWithCoreMigration cur ks = Some ks' \<Longrightarrow> lock_view ks' = lock_view ks"
  "YieldToAnyThread cur ks = Some ks' \<Longrightarrow> lock_view ks' = lock_view ks"
proof -
  have moved: "lock_view (snd (yield_back cur ks)) = lock_view ks" by (simp add: yield_back_def Let_def split: prod.split)
  show "lock_view (YieldWithoutCoreMigration cur ks) = lock_view ks"
    using moved by (auto simp: YieldWithoutCoreMigration_def Let_def split: prod.splits)
  show "YieldWithCoreMigration cur ks = Some ks' \<Longrightarrow> lock_view ks' = lock_view ks"
    using moved by (auto simp: YieldWithCoreMigration_def Let_def split: prod.splits option.splits if_splits Option.bind_splits)
  show "YieldToAnyThread cur ks = Some ks' \<Longrightarrow> lock_view ks' = lock_view ks"
    by (auto simp: YieldToAnyThread_def Let_def split: prod.splits sum.splits bool.splits if_splits Option.bind_splits)
qed

lemma lock_view_set_top [simp]: "lock_view (ch_kernel (set_top now core t ch)) = lock_view (ch_kernel ch)"
  by (simp add: set_top_def UpdateHighestPriorityThread_def frames split: option.split)

lemma lock_view_candidates: "lock_view (ch_kernel (try_candidates now core cs ch)) = lock_view (ch_kernel ch)"
  by (induction now core cs ch rule: try_candidates.induct) (auto simp: Let_def split: option.split)

lemma lock_view_fill: "fill_idle_cores now cs ch = Some ch' \<Longrightarrow> lock_view (ch_kernel ch') = lock_view (ch_kernel ch)"
proof (induction now cs ch rule: fill_idle_cores.induct)
  case (1 now cs ch)
  have "fill_core now c ch = Some x \<Longrightarrow> lock_view (ch_kernel x) = lock_view (ch_kernel ch)" for c x
    by (auto simp: fill_core_def Let_def lock_view_candidates split: option.splits sum.splits Option.bind_splits)
  then show ?case using 1 by (auto simp: fill_idle_cores.simps [of now cs ch] Let_def split: if_splits Option.bind_splits)
qed

lemma lock_view_update:
  "UpdateHighestPriorityThreadsImpl now cur ks = Some (m, ks') \<Longrightarrow> lock_view ks' = lock_view ks"
  "UpdateHighestPriorityThreads now cur ks = Some (m, ks') \<Longrightarrow> lock_view ks' = lock_view ks"
proof -
  have "lock_view (ch_kernel (fold (choose_top now) cs ch)) = lock_view (ch_kernel ch)" for cs ch
    by (induction cs arbitrary: ch) (auto simp: choose_top_def split: option.split)
  moreover have "lock_view (WakeupWaitingDummyThreads x) = lock_view x" for x
    by (simp add: WakeupWaitingDummyThreads_def lock_view_fold)
  ultimately show u: "UpdateHighestPriorityThreadsImpl now cur ks = Some (m, ks') \<Longrightarrow> lock_view ks' = lock_view ks"
    by (auto simp: UpdateHighestPriorityThreadsImpl_def Let_def lock_view_fill split: if_splits Option.bind_splits)
  then show "UpdateHighestPriorityThreads now cur ks = Some (m, ks') \<Longrightarrow> lock_view ks' = lock_view ks"
    by (auto simp: UpdateHighestPriorityThreads_def split: if_splits)
qed

lemma lock_view_switch [simp]:
  "lock_view (SwitchThread now c cur nxt ks) = lock_view ks" "lock_view (Scheduler_Lock cur ks) = lock_view ks"
  "lock_view (ClearPreviousThread t ks) = lock_view ks"
  by (simp_all add: SwitchThread_def Scheduler_Lock_def ClearPreviousThread_def frames lock_view_fold split: option.split)

lemma lock_view_unlock: "Scheduler_Unlock now cur ks = Some (r, ks') \<Longrightarrow> lock_view ks' = lock_view ks"
  by (auto simp: Scheduler_Unlock_def Let_def lock_view_update split: if_splits Option.bind_splits)

end
