(* ===== verification/Waiting_Laws.thy ===== *)
theory Waiting_Laws
  imports Waiting_Frames
begin

text \<open>
  The operations by which threads wait for locks and condition variables keep the invariant of
  everything threads wait for, return, and never lack a lock object when there are as many objects as
  threads.
\<close>

section \<open>What threads wait for\<close>

text \<open>
  The whole invariant: the queues of the scheduler, the locks and the trees are as they should be.
\<close>

definition sync_ok :: "kernel \<Rightarrow> bool" where
  "sync_ok ks \<longleftrightarrow> ks_ok ks \<and> waits_ok ks"

lemma sync_ok_parts:
  "sync_ok ks \<Longrightarrow> ks_ok ks" "sync_ok ks \<Longrightarrow> waits_ok ks" "sync_ok ks \<Longrightarrow> locks_inherit ks" "sync_ok ks \<Longrightarrow> trees_ok ks"
  "sync_ok ks \<Longrightarrow> locks_ok ks" "sync_ok ks \<Longrightarrow> th_condvar_tree (ks_threads ks u) \<noteq> None \<Longrightarrow> GetLockOwner u ks = None"
  by (auto simp: sync_ok_def waits_ok_def locks_inherit_def apart_def)

lemma sync_ok_view: "lock_view ks' = lock_view ks \<Longrightarrow> ks_ok ks' \<Longrightarrow> sync_ok ks \<Longrightarrow> sync_ok ks'"
  unfolding sync_ok_def using lock_view_ok(4) by blast

lemma objects_view: "lock_view ks' = lock_view ks \<Longrightarrow> objects ks' = objects ks"
  unfolding objects_def using lock_view_fields(2,7) by metis

lemma objects_upd:
  assumes "\<And>th. th_held_lock_info_list (f th) = th_held_lock_info_list th"
  shows "objects (upd_thread t f ks) = objects ks"
proof -
  have "held (upd_thread t f ks) = held ks" using assms by (simp add: fun_eq_iff held_def upd_thread_def)
  then show ?thesis by (simp add: objects_def upd_thread_def)
qed

lemma ks_ok_Write [simp]: "ks_ok (WriteToUser p a v ks) \<longleftrightarrow> ks_ok ks"
  by (rule same_view_ks) (simp add: same_view_def WriteToUser_def)

lemma sync_ok_quiet:
  assumes "sync_ok ks"
  shows "sync_ok (EndWait r t ks)" "sync_ok (wake r t ks)" "sync_ok (BeginWait t ks)" "sync_ok (WriteToUser p a v ks)"
proof -
  note ok = sync_ok_parts(1) [OF assms]
  show "sync_ok (EndWait r t ks)" by (rule sync_ok_view [OF lock_view_waits(2) EndWait_ok [OF ok] assms])
  show "sync_ok (wake r t ks)" by (rule sync_ok_view [OF lock_view_waits(1) wake_ok [OF ok] assms])
  have "ks_ok (BeginWait t ks)" unfolding BeginWait_def by (rule SetState_ok [OF ok])
  then show "sync_ok (BeginWait t ks)" by (rule sync_ok_view [OF lock_view_waits(3) _ assms])
  show "sync_ok (WriteToUser p a v ks)" by (rule sync_ok_view [OF lock_view_simple(9) _ assms]) (simp add: ok)
qed

lemma relocked_sync:
  assumes "sync_ok ks" "relocked B ks ks'" "\<And>u. th_condvar_tree (ks_threads ks u) \<noteq> None \<Longrightarrow> B u = None"
  shows "sync_ok ks'"
proof -
  have "th_condvar_tree (ks_threads ks' u) = th_condvar_tree (ks_threads ks u)" for u
    using assms(2) by (simp add: relocked_def other_fields_def)
  then show ?thesis using assms by (auto simp: sync_ok_def waits_ok_def relocked_def apart_def)
qed

lemma AddWaiter_sync:
  assumes "sync_ok ks" "GetLockOwner u ks = None" "th_condvar_tree (ks_threads ks u) = None" "can_wait t u ks"
  obtains ks' where "AddWaiter cur t u ks = Some ks'" "sync_ok ks'" "relocked ((\<lambda>v. GetLockOwner v ks)(u := Some t)) ks ks'"
proof -
  obtain ks' where r: "AddWaiter cur t u ks = Some ks'" "relocked ((\<lambda>v. GetLockOwner v ks)(u := Some t)) ks ks'"
    using AddWaiter_ok [OF sync_ok_parts(3) [OF assms(1)] assms(2,4)] by blast
  moreover have "sync_ok ks'" using assms(3) sync_ok_parts(6) [OF assms(1)] by (intro relocked_sync [OF assms(1) r(2)]) auto
  ultimately show thesis using that by blast
qed

lemma AddWaiter_can_wait: "AddWaiter cur t u ks = Some ks' \<Longrightarrow> can_wait t u ks"
proof (rule ccontr)
  assume a: "AddWaiter cur t u ks = Some ks'" "\<not> can_wait t u ks"
  let ?k = "th_address_key (ks_threads ks u)" and ?b = "th_is_kernel_address_key (ks_threads ks u)"
  from a(2) have n: "FindHeldLock t ?k ?b ks = None" "ks_free_lock_infos ks = []" by (simp_all add: can_wait_def)
  then have "FindHeldLock t ?k ?b (counted t u 1 ks) = None" using FindHeldLock_cong [of "counted t u 1 ks" t ks] by simp
  then have "AddWaiterImpl t u ks = None"
    unfolding AddWaiterImpl_def Let_def counted_def [symmetric] using n by (simp add: lock_Create_def)
  then show False using a(1) by (simp add: AddWaiter_def)
qed

lemma RemoveWaiter_sync:
  assumes "sync_ok ks" "GetLockOwner u ks = Some t"
  obtains ks' where "RemoveWaiter cur t u ks = Some ks'" "sync_ok ks'" "relocked ((\<lambda>v. GetLockOwner v ks)(u := None)) ks ks'"
proof -
  obtain ks' where r: "RemoveWaiter cur t u ks = Some ks'" "relocked ((\<lambda>v. GetLockOwner v ks)(u := None)) ks ks'"
    using RemoveWaiter_ok [OF sync_ok_parts(3) [OF assms(1)] assms(2)] by blast
  moreover have "sync_ok ks'" using sync_ok_parts(6) [OF assms(1)] by (intro relocked_sync [OF assms(1) r(2)]) auto
  ultimately show thesis using that by blast
qed

text \<open>A change of the base priority and of what only threads that wait for a lock or in a tree need.\<close>

lemma restored_sync:
  assumes "sync_ok ks" "restored (upd_thread t (\<lambda>th. th\<lparr>th_base_priority := v\<rparr>) ks) ks'"
  shows "sync_ok ks'" "objects ks' = objects ks" "GetLockOwner u ks' = GetLockOwner u ks"
proof -
  let ?ks = "upd_thread t (\<lambda>th. th\<lparr>th_base_priority := v\<rparr>) ks"
  note b = base_changed [OF sync_ok_parts(3) [OF assms(1)] refl, where t = t and v = v]
  have same: "objects ?ks = objects ks" by (intro objects_upd) simp
  have c: "th_condvar_tree (ks_threads ks' u) = th_condvar_tree (ks_threads ks u)" for u
    using assms(2) by (auto simp: restored_def priorities_only_def other_fields_def upd_thread_def split: if_splits)
  show own: "GetLockOwner u ks' = GetLockOwner u ks" for u using assms(2) b(5) by (simp add: restored_def priorities_only_def)
  show "sync_ok ks'" using assms b(3,4) c own
    by (auto simp: restored_def sync_ok_def waits_ok_def locks_inherit_def apart_def)
  show "objects ks' = objects ks" using assms(2) same by (simp add: restored_def priorities_only_def)
qed
section \<open>Keys and trees\<close>

text \<open>A change of the keys of a thread that waits for no lock.\<close>

definition rekeys :: "(KThread \<Rightarrow> KThread) \<Rightarrow> bool" where
  "rekeys f \<longleftrightarrow> (\<forall>th. sched_view (f th) = sched_view th \<and> pin_view (f th) = pin_view th \<and> th_priority (f th) = th_priority th \<and>
     th_num_kernel_waiters (f th) = th_num_kernel_waiters th \<and> th_base_priority (f th) = th_base_priority th \<and>
     th_held_lock_info_list (f th) = th_held_lock_info_list th \<and> th_waiting_lock_info (f th) = th_waiting_lock_info th)"

lemma rekeyed:
  assumes inh: "locks_inherit ks" and t: "GetLockOwner t ks = None" and f: "rekeys f" and ks': "ks' = upd_thread t f ks"
  shows "locks_inherit ks'" "GetLockOwner u ks' = GetLockOwner u ks" "objects ks' = objects ks"
proof -
  note ok = locks_inherit_priority(2) [OF inh] and p = locks_inherit_priority(1) [OF inh]
  have v: "held ks' = held ks" "waiting ks' = waiting ks" "priority_of ks' = priority_of ks" "kernel_count ks' = kernel_count ks"
    "ks_lock_infos ks' = ks_lock_infos ks" "ks_free_lock_infos ks' = ks_free_lock_infos ks"
    using f by (simp_all add: rekeys_def ks' upd_thread_def fun_eq_iff held_def waiting_def priority_of_def kernel_count_def)
  have w: "waiting ks t = None" using owner_waiting(1) [OF ok] t by simp
  have "address ks' u = address ks u" if "waiting ks u \<noteq> None" for u
    using that w by (cases "u = t") (simp_all add: ks' upd_thread_def address_def)
  then have "lock_inv (held ks) (waiting ks) (ks_lock_infos ks) (ks_free_lock_infos ks) (priority_of ks) (address ks')"
    by (intro lock_inv_priority [OF locks_ok_inv(1) [OF ok]]) auto
  then have ok': "locks_ok ks'" using locks_ok_inv [OF ok] by (intro locks_okI) (simp_all add: v)
  have base: "th_base_priority (ks_threads ks' x) = th_base_priority (ks_threads ks x)" for x
    using f by (simp add: rekeys_def ks' upd_thread_def)
  show own: "GetLockOwner u ks' = GetLockOwner u ks" for u unfolding GetLockOwner_alt v ..
  have "inherited_priority x ks' = inherited_priority x ks" for x
    by (rule eq_by_le) (simp add: le_inherited_priority [OF ok] le_inherited_priority [OF ok'] own v base)
  then show "locks_inherit ks'" using ok' p unfolding locks_inherit_def inherits_but_def v by simp
  show "objects ks' = objects ks" unfolding objects_def v ..
qed

lemma ks_ok_trees [simp]: "ks_ok (ks\<lparr>ks_trees := x\<rparr>) \<longleftrightarrow> ks_ok ks"
  by (rule same_view_ks) (simp add: same_view_def)

lemma ks_ok_rekeyed: "rekeys f \<Longrightarrow> ks_ok (upd_thread t f ks) \<longleftrightarrow> ks_ok ks"
  by (intro same_view_ks same_view_upd) (simp add: rekeys_def)

lemma with_trees:
  "locks_inherit (ks\<lparr>ks_trees := x\<rparr>) \<longleftrightarrow> locks_inherit ks" "GetLockOwner u (ks\<lparr>ks_trees := x\<rparr>) = GetLockOwner u ks"
  "objects (ks\<lparr>ks_trees := x\<rparr>) = objects ks"
proof -
  note c = locks_ok_cong [of "ks\<lparr>ks_trees := x\<rparr>" ks]
  have "priority_of (ks\<lparr>ks_trees := x\<rparr>) = priority_of ks" by (simp add: fun_eq_iff priority_of_def)
  then show "locks_inherit (ks\<lparr>ks_trees := x\<rparr>) \<longleftrightarrow> locks_inherit ks"
    using c(1,4) by (simp add: locks_inherit_def inherits_but_def)
  show "GetLockOwner u (ks\<lparr>ks_trees := x\<rparr>) = GetLockOwner u ks" using c(3) by simp
  show "objects (ks\<lparr>ks_trees := x\<rparr>) = objects ks" by (simp add: objects_def held_def)
qed

lemma rekey_sync:
  assumes ok: "sync_ok ks" and t: "GetLockOwner t ks = None" and f: "rekeys f"
    and c: "\<And>th. th_condvar_tree (f th) = th_condvar_tree th \<and> th_condvar_key (f th) = th_condvar_key th"
  shows "sync_ok (upd_thread t f ks)"
proof -
  note r = rekeyed [OF sync_ok_parts(3) [OF ok] t f refl]
  have "trees_ok (upd_thread t f ks)" using sync_ok_parts(4) [OF ok]
    by (subst trees_ok_cong [of _ ks]) (use f c in \<open>auto simp: upd_thread_def rekeys_def\<close>)
  moreover have "apart (upd_thread t f ks)"
    using sync_ok_parts(6) [OF ok] r(2) c by (auto simp: apart_def upd_thread_def split: if_splits)
  ultimately show ?thesis using ks_ok_rekeyed [OF f] sync_ok_parts(1) [OF ok] r(1) by (simp add: sync_ok_def waits_ok_def)
qed

text \<open>A thread that joins a tree and one that leaves it.\<close>

lemma join_sync:
  assumes ok: "sync_ok ks" and t: "GetLockOwner t ks = None" "th_condvar_tree (ks_threads ks t) = None"
    and f: "rekeys f" "th_condvar_tree (f (ks_threads ks t)) = Some tr"
  shows "sync_ok (tree_insert_thread tr t (upd_thread t f ks))"
proof -
  let ?T = "(ks_threads ks)(t := f (ks_threads ks t))"
  note r = rekeyed [OF sync_ok_parts(3) [OF ok] t(1) f(1) refl]
  note tr = sync_ok_parts(4) [OF ok, unfolded trees_ok_def, rule_format]
  have out: "t \<notin> set (ks_trees ks x)" for x using tr t(2) by auto
  then have "ordered (condvar_before ?T) (ks_trees ks x) = ordered (condvar_before (ks_threads ks)) (ks_trees ks x)" for x
    by (intro ordered_cong) (metis condvar_before_def fun_upd_other)
  then have other: "ordered (condvar_before ?T) (ks_trees ks x)" for x using tr by simp
  have "trees_ok (tree_insert_thread tr t (upd_thread t f ks))"
    using tr other out f(2) condvar_order.ordered_insert [OF other] by (auto simp: trees_ok_def tree_insert_thread_def upd_thread_def)
  moreover have "apart (tree_insert_thread tr t (upd_thread t f ks))"
    using sync_ok_parts(6) [OF ok] r(2) t(1) by (auto simp: apart_def tree_insert_thread_def with_trees upd_thread_def split: if_splits)
  ultimately show ?thesis using ks_ok_rekeyed [OF f(1)] sync_ok_parts(1) [OF ok] r(1)
    by (simp add: sync_ok_def waits_ok_def tree_insert_thread_def with_trees)
qed

definition leave :: "nat \<Rightarrow> nat \<Rightarrow> kernel \<Rightarrow> kernel" where
  "leave tr t ks = ClearConditionVariable t (snd (tree_erase tr t ks))"

lemma leave_alt: "snd (tree_erase tr t (ClearConditionVariable t ks)) = leave tr t ks"
  by (simp add: leave_def tree_erase_def ClearConditionVariable_def upd_thread_def)

lemma rekeys_clear: "rekeys (\<lambda>th. th\<lparr>th_condvar_tree := None\<rparr>)"
  by (simp add: rekeys_def sched_view_def pin_view_def IsDummyThread_def)

lemma leave_sync:
  assumes ok: "sync_ok ks" and t: "th_condvar_tree (ks_threads ks t) = Some tr"
  shows "sync_ok (leave tr t ks)" "GetLockOwner u (leave tr t ks) = GetLockOwner u ks" "objects (leave tr t ks) = objects ks"
proof -
  let ?ks = "snd (tree_erase tr t ks)" and ?T = "(ks_threads ks)(t := (ks_threads ks t)\<lparr>th_condvar_tree := None\<rparr>)"
  have w: "?ks = ks\<lparr>ks_trees := (ks_trees ks)(tr := remove1 t (ks_trees ks tr))\<rparr>" by (simp add: tree_erase_def)
  have own: "GetLockOwner t ks = None" using sync_ok_parts(6) [OF ok] t by simp
  have "locks_inherit ?ks" "GetLockOwner t ?ks = None" using sync_ok_parts(3) [OF ok] own unfolding w by (simp_all add: with_trees)
  note r = rekeyed [OF this rekeys_clear refl, folded ClearConditionVariable_def, folded leave_def]
  note tr = sync_ok_parts(4) [OF ok, unfolded trees_ok_def, rule_format]
  have b: "condvar_before ?T = condvar_before (ks_threads ks)" by (auto simp: condvar_before_def fun_eq_iff)
  have "trees_ok (leave tr t ks)"
    using tr t ordered_remove [of "condvar_before (ks_threads ks)"]
    by (auto simp: trees_ok_def leave_def w ClearConditionVariable_def upd_thread_def b)
  moreover show g: "GetLockOwner u (leave tr t ks) = GetLockOwner u ks" for u using r(2) by (simp add: w with_trees)
  moreover have "apart (leave tr t ks)"
    using sync_ok_parts(6) [OF ok] by (auto simp: apart_def g) (auto simp: leave_def w ClearConditionVariable_def upd_thread_def split: if_splits)
  moreover have "ks_ok (leave tr t ks)" unfolding leave_def ClearConditionVariable_def ks_ok_rekeyed [OF rekeys_clear]
    using sync_ok_parts(1) [OF ok] by (simp add: w)
  ultimately show "sync_ok (leave tr t ks)" using r(1) by (simp add: sync_ok_def waits_ok_def)
  show "objects (leave tr t ks) = objects ks" using r(3) by (simp add: w with_trees)
qed
section \<open>Locks of user programs\<close>

text \<open>A thread that waits for no lock and is in no tree, as every thread that runs.\<close>

definition at_large :: "kernel \<Rightarrow> nat \<Rightarrow> bool" where
  "at_large ks t \<longleftrightarrow> GetLockOwner t ks = None \<and> th_condvar_tree (ks_threads ks t) = None"

lemma at_large_view: "lock_view ks' = lock_view ks \<Longrightarrow> at_large ks' t \<longleftrightarrow> at_large ks t"
  unfolding at_large_def using lock_view_fields(10,12) by metis

lemma relocked_fields:
  assumes "relocked B ks ks'"
  shows "objects ks' = objects ks" "th_condvar_tree (ks_threads ks' u) = th_condvar_tree (ks_threads ks u)"
    "th_condvar_key (ks_threads ks' u) = th_condvar_key (ks_threads ks u)" "GetLockOwner u ks' = B u"
    "th_address_key_value (ks_threads ks' u) = th_address_key_value (ks_threads ks u)"
    "th_thread_state (ks_threads ks' u) = th_thread_state (ks_threads ks u)"
    "ks_user_memory ks' = ks_user_memory ks"
  using assms by (simp_all add: relocked_def other_fields_def calm_view_def)

lemma RemoveWaiterByKey_sync:
  assumes ok: "sync_ok ks"
  obtains n more ks' where "RemoveWaiterByKey cur t k b ks = Some (n, more, ks')" "sync_ok ks'" "objects ks' = objects ks"
    "\<And>u. at_large ks u \<Longrightarrow> at_large ks' u"
proof (cases "FindHeldLock t k b ks")
  case None
  then show thesis using that [OF RemoveWaiterByKey_none] ok by blast
next
  case (Some l)
  obtain n ns ks' where "li_tree (ks_lock_infos ks l) = n # ns"
    and r: "RemoveWaiterByKey cur t k b ks = Some (Some n, ns \<noteq> [], ks')" "relocked (handed_over l n ks) ks ks'"
    by (rule RemoveWaiterByKey_ok [OF sync_ok_parts(3) [OF ok] Some, of cur])
  have none: "handed_over l n ks u = None" if "GetLockOwner u ks = None" for u
    using that owner_waiting(1) [OF sync_ok_parts(5) [OF ok]] by (simp add: handed_over_def)
  then have "sync_ok ks'" using sync_ok_parts(6) [OF ok] by (intro relocked_sync [OF ok r(2)]) blast
  then show thesis using that [OF r(1)] none by (simp add: at_large_def relocked_fields [OF r(2)])
qed

lemma SignalToAddress_sync:
  assumes ok: "sync_ok ks"
  obtains ks' where "SignalToAddress p cur addr ks = Some (ResultSuccess, ks')" "sync_ok ks'" "objects ks' = objects ks"
proof -
  obtain n more ks1 where r: "RemoveWaiterByKey cur cur addr False ks = Some (n, more, ks1)" "sync_ok ks1" "objects ks1 = objects ks"
    "\<And>u. at_large ks u \<Longrightarrow> at_large ks1 u"
    by (rule RemoveWaiterByKey_sync [OF ok, of cur cur addr False]) (rule that)
  let ?w = "WriteToUser p addr (next_tag n more ks1) ks1"
  let ?e = "case n of None \<Rightarrow> ?w | Some n \<Rightarrow> EndWait ResultSuccess n ?w"
  have "sync_ok ?e" using r(2) by (auto intro: sync_ok_quiet split: option.split)
  moreover have "objects ?e = objects ks1" by (rule objects_view) (simp split: option.split)
  ultimately show thesis using that [of ?e] r(1,3) by (simp add: SignalToAddress_def Let_def)
qed

lemma rekeys_keys:
  "rekeys (\<lambda>th. th\<lparr>th_address_key := k, th_address_key_value := v, th_is_kernel_address_key := b\<rparr>)"
  "rekeys (\<lambda>th. th\<lparr>th_condvar_tree := c, th_condvar_key := cv, th_address_key := k, th_address_key_value := v, th_is_kernel_address_key := b\<rparr>)"
  "rekeys (\<lambda>th. th\<lparr>th_condvar_tree := c, th_condvar_key := cv\<rparr>)"
  by (simp_all add: rekeys_def sched_view_def pin_view_def IsDummyThread_def)

lemma address_set:
  assumes ok: "sync_ok ks" and t: "at_large ks t" and ks': "ks' = SetUserAddressKey t key v ks"
  shows "sync_ok ks'" "at_large ks' u \<longleftrightarrow> at_large ks u" "objects ks' = objects ks" "GetLockOwner u ks' = GetLockOwner u ks"
proof -
  have none: "GetLockOwner t ks = None" using t by (simp add: at_large_def)
  note r = rekeyed [OF sync_ok_parts(3) [OF ok] none rekeys_keys(1) refl]
  show "sync_ok ks'" unfolding ks' SetUserAddressKey_def by (rule rekey_sync [OF ok none rekeys_keys(1)]) simp
  show own: "GetLockOwner u ks' = GetLockOwner u ks" for u unfolding ks' SetUserAddressKey_def by (rule r(2))
  show "objects ks' = objects ks" unfolding ks' SetUserAddressKey_def by (rule r(3))
  show "at_large ks' u \<longleftrightarrow> at_large ks u" unfolding at_large_def own
    by (simp add: ks' SetUserAddressKey_def upd_thread_def)
qed

lemma WaitForAddress_sync:
  assumes ok: "sync_ok ks" and t: "at_large ks cur" and run: "WaitForAddress p cur thread_of handle addr v ks = Some (r, ks')"
  shows "sync_ok ks'" "objects ks' = objects ks"
proof -
  define ks1 where "ks1 = SetUserAddressKey cur addr v ks"
  note a = address_set [OF ok t ks1_def]
  from run consider "ks' = ks"
    | owner ks2 where "AddWaiter cur owner cur ks1 = Some ks2" "ks' = BeginWait cur ks2"
    by (auto simp: WaitForAddress_def Let_def ks1_def [symmetric] split: if_splits option.splits Option.bind_splits)
  then have "sync_ok ks' \<and> objects ks' = objects ks"
  proof cases
    case (2 owner ks2)
    have "at_large ks1 cur" using a(2) t by simp
    then obtain ks3 where "AddWaiter cur owner cur ks1 = Some ks3" "sync_ok ks3" "objects ks3 = objects ks1"
      using AddWaiter_sync [OF a(1) _ _ AddWaiter_can_wait [OF 2(1)]] relocked_fields(1) unfolding at_large_def by metis
    then have "sync_ok ks2" "objects ks2 = objects ks" using 2(1) a(3) by simp_all
    then show ?thesis using 2(2) sync_ok_quiet(3) objects_view [OF lock_view_waits(3)] by simp
  qed (simp add: ok)
  then show "sync_ok ks'" "objects ks' = objects ks" by simp_all
qed

lemma lock_CancelWait_sync:
  assumes "sync_ok ks" "lock_CancelWait cur r t ks = Some ks'"
  shows "sync_ok ks'" "objects ks' = objects ks"
proof -
  obtain h where h: "GetLockOwner t ks = Some h" using assms(2) by (auto simp: lock_CancelWait_def split: Option.bind_splits)
  obtain ks1 where k: "RemoveWaiter cur h t ks = Some ks1" "sync_ok ks1" "objects ks1 = objects ks"
    using RemoveWaiter_sync [OF assms(1) h] relocked_fields(1) by metis
  then have "ks' = wake r t ks1" using assms(2) h by (simp add: lock_CancelWait_def)
  then show "sync_ok ks'" "objects ks' = objects ks" using k sync_ok_quiet(2) objects_view [OF lock_view_waits(1)] by simp_all
qed
section \<open>The supply of lock objects\<close>

text \<open>
  Threads \<open>T\<close> that have as many lock objects: every other thread is at large. There is always an object
  for another thread that waits, since every lock has a waiter of its own.
\<close>

definition supplied :: "nat set \<Rightarrow> kernel \<Rightarrow> bool" where
  "supplied T ks \<longleftrightarrow> finite T \<and> card T \<le> card (objects ks) \<and> (\<forall>u. u \<notin> T \<longrightarrow> at_large ks u)"

lemma supply_lasts:
  assumes ok: "locks_ok ks" and T: "supplied T ks" and u: "u \<in> T" "GetLockOwner u ks = None"
  shows "can_wait t u ks"
proof (rule ccontr)
  assume "\<not> can_wait t u ks"
  then have free: "ks_free_lock_infos ks = []" by (simp add: can_wait_def)
  note inv = locks_ok_inv(1) [OF ok]
  let ?first = "\<lambda>l. hd (li_tree (ks_lock_infos ks l))"
  have w: "waiting ks (?first l) = Some l" "?first l \<in> waiters ks" if l: "l \<in> objects ks" for l
  proof -
    obtain x where x: "l \<in> set (held ks x)" using l by (auto simp: objects_def free)
    have "?first l \<in> set (li_tree (ks_lock_infos ks l))" using lock_inv_held(3) [OF inv x] by simp
    then show "waiting ks (?first l) = Some l" using lock_inv_held(7) [OF inv x] by simp
    then show "?first l \<in> waiters ks" using owner_waiting(1) [OF ok] by (simp add: waiters_def)
  qed
  have inj: "inj_on ?first (objects ks)" by (rule inj_on_inverseI [where g = "\<lambda>v. the (waiting ks v)"]) (simp add: w)
  have le: "card (objects ks) \<le> card (waiters ks)" using w(2) by (intro card_inj_on_le [OF inj _ finite_waiters [OF ok]]) blast
  have "u \<notin> waiters ks" using u(2) by (simp add: waiters_def)
  moreover have "v \<in> T" if "v \<in> waiters ks" for v using T that by (auto simp: supplied_def waiters_def at_large_def)
  ultimately have "waiters ks \<subset> T" using u(1) by blast
  then show False using T le psubset_card_mono [of T "waiters ks"] by (simp add: supplied_def)
qed

lemma supplied_after:
  "supplied T ks \<Longrightarrow> objects ks' = objects ks \<Longrightarrow> (\<And>u. u \<notin> T \<Longrightarrow> at_large ks u \<Longrightarrow> at_large ks' u) \<Longrightarrow> supplied T ks'"
  by (auto simp: supplied_def)

lemma WaitForAddress_returns:
  assumes ok: "sync_ok ks" and t: "at_large ks cur" and T: "supplied T ks" "cur \<in> T"
  shows "\<exists>r ks'. WaitForAddress p cur thread_of handle addr v ks = Some (r, ks')"
proof -
  define ks1 where "ks1 = SetUserAddressKey cur addr v ks"
  note a = address_set [OF ok t ks1_def]
  have "at_large ks1 cur" using a(2) t by simp
  then have c: "GetLockOwner cur ks1 = None" "th_condvar_tree (ks_threads ks1 cur) = None" by (simp_all add: at_large_def)
  have "supplied T ks1" using supplied_after [OF T(1) a(3)] a(2) by blast
  then have "can_wait x cur ks1" for x using supply_lasts [OF sync_ok_parts(5) [OF a(1)] _ T(2) c(1)] by blast
  then have "\<exists>ks'. AddWaiter cur x cur ks1 = Some ks'" for x using AddWaiter_sync [OF a(1) c] by metis
  then show ?thesis unfolding WaitForAddress_def Let_def ks1_def [symmetric]
    by (auto split: option.split) (metis Option.bind.bind_lunit)
qed

section \<open>Condition variables\<close>

lemma condvar_set:
  assumes ok: "sync_ok ks" and t: "at_large ks t" and f: "rekeys f" "th_condvar_tree (f (ks_threads ks t)) = Some tr"
  shows "sync_ok (BeginWait t (tree_insert_thread tr t (upd_thread t f ks)))"
    "objects (BeginWait t (tree_insert_thread tr t (upd_thread t f ks))) = objects ks"
proof -
  let ?ks = "tree_insert_thread tr t (upd_thread t f ks)"
  have none: "GetLockOwner t ks = None" "th_condvar_tree (ks_threads ks t) = None" using t by (simp_all add: at_large_def)
  have "sync_ok ?ks" by (rule join_sync [OF ok none f])
  then show "sync_ok (BeginWait t ?ks)" by (rule sync_ok_quiet(3))
  have "objects ?ks = objects ks" unfolding tree_insert_thread_def with_trees
    by (rule rekeyed(3) [OF sync_ok_parts(3) [OF ok] none(1) f(1) refl])
  then show "objects (BeginWait t ?ks) = objects ks" using objects_view [OF lock_view_waits(3)] by simp
qed

lemma Wait_sync:
  assumes ok: "sync_ok ks" and t: "at_large ks cur"
  obtains r ks' where "Wait p cur tr addr key v timeout ks = Some (r, ks')" "sync_ok ks'" "objects ks' = objects ks"
proof (cases "IsTerminationRequested (ks_threads ks cur)")
  case True
  then show thesis using that [of "Some ResultTerminationRequested" ks] ok by (simp add: Wait_def)
next
  case False
  obtain n more ks1 where r: "RemoveWaiterByKey cur cur addr False ks = Some (n, more, ks1)" "sync_ok ks1" "objects ks1 = objects ks"
    "\<And>u. at_large ks u \<Longrightarrow> at_large ks1 u"
    by (rule RemoveWaiterByKey_sync [OF ok, of cur cur addr False]) (rule that)
  define ks2 where "ks2 = WriteToUser p addr (next_tag n more ks1) (WriteToUser p key 1
    (case n of None \<Rightarrow> ks1 | Some n \<Rightarrow> EndWait ResultSuccess n ks1))"
  have view: "lock_view ks2 = lock_view ks1" by (simp add: ks2_def split: option.split)
  have k: "sync_ok ks2" using r(2) by (auto simp: ks2_def intro!: sync_ok_quiet split: option.split)
  have l: "at_large ks2 cur" using r(4) [OF t] at_large_view [OF view] by simp
  have o2: "objects ks2 = objects ks" using objects_view [OF view] r(3) by simp
  let ?w = "BeginWait cur (tree_insert_thread tr cur (SetConditionVariable cur tr addr key v ks2))"
  have "sync_ok ?w" "objects ?w = objects ks" unfolding SetConditionVariable_def
    using condvar_set [OF k l rekeys_keys(2), where tr = tr] o2 by simp_all
  moreover have "Wait p cur tr addr key v timeout ks = Some (if timeout = 0 then (Some ResultTimedOut, ks2) else (None, ?w))"
    using False r(1) by (simp add: Wait_def Let_def ks2_def)
  ultimately show thesis using that k o2 by (cases "timeout = 0") auto
qed

lemma UpdateLockAtomic_view: "lock_view (snd (UpdateLockAtomic p a z m ks)) = lock_view ks"
  by (simp add: UpdateLockAtomic_def Let_def)

lemma UpdateLockAtomic_sync: "sync_ok ks \<Longrightarrow> sync_ok (snd (UpdateLockAtomic p a z m ks))"
  by (simp add: UpdateLockAtomic_def Let_def sync_ok_quiet)

lemma SignalImpl_sync:
  assumes ok: "sync_ok ks" and t: "at_large ks t" and run: "SignalImpl p cur thread_of t ks = Some ks'"
  shows "sync_ok ks'" "objects ks' = objects ks" "th_condvar_tree (ks_threads ks' u) = th_condvar_tree (ks_threads ks u)"
    "u \<noteq> t \<Longrightarrow> at_large ks u \<Longrightarrow> at_large ks' u"
proof -
  define x where "x = UpdateLockAtomic p (th_address_key (ks_threads ks t)) (th_address_key_value (ks_threads ks t)) HandleWaitMask ks"
  have k: "sync_ok (snd x)" and v: "lock_view (snd x) = lock_view ks" using ok by (simp_all add: x_def UpdateLockAtomic_sync UpdateLockAtomic_view)
  have "at_large (snd x) t" using t at_large_view [OF v] by simp
  then have c: "GetLockOwner t (snd x) = None" "th_condvar_tree (ks_threads (snd x) t) = None" by (simp_all add: at_large_def)
  have end_wait: "sync_ok (EndWait r t (snd x))" "lock_view (EndWait r t (snd x)) = lock_view ks" for r
    using k v by (simp_all add: sync_ok_quiet)
  consider r where "ks' = EndWait r t (snd x)" | h where "AddWaiter cur h t (snd x) = Some ks'"
    using run unfolding SignalImpl_def Let_def x_def [symmetric] by (auto simp: case_prod_unfold split: if_splits option.splits)
  then have "sync_ok ks' \<and> objects ks' = objects ks \<and> (\<forall>u. th_condvar_tree (ks_threads ks' u) = th_condvar_tree (ks_threads ks u) \<and>
      (u \<noteq> t \<longrightarrow> at_large ks u \<longrightarrow> at_large ks' u))"
  proof cases
    case (1 r)
    show ?thesis unfolding 1
      using end_wait objects_view [OF end_wait(2)] lock_view_fields(10) [OF end_wait(2)] at_large_view [OF end_wait(2)] by simp
  next
    case (2 h)
    obtain y where y: "AddWaiter cur h t (snd x) = Some y" "sync_ok y" "relocked ((\<lambda>v. GetLockOwner v (snd x))(t := Some h)) (snd x) y"
      by (rule AddWaiter_sync [OF k c AddWaiter_can_wait [OF 2]])
    have "y = ks'" using 2 y(1) by simp
    with y relocked_fields(1,2,4) [OF y(3)] objects_view [OF v] lock_view_fields(10,12) [OF v] show ?thesis
      by (simp add: at_large_def)
  qed
  then show "sync_ok ks'" "objects ks' = objects ks" "th_condvar_tree (ks_threads ks' u) = th_condvar_tree (ks_threads ks u)"
    "u \<noteq> t \<Longrightarrow> at_large ks u \<Longrightarrow> at_large ks' u" by simp_all
qed

lemma SignalImpl_returns:
  assumes ok: "sync_ok ks" and t: "at_large ks t" and T: "supplied T ks" "t \<in> T"
  shows "\<exists>ks'. SignalImpl p cur thread_of t ks = Some ks'"
proof -
  define x where "x = UpdateLockAtomic p (th_address_key (ks_threads ks t)) (th_address_key_value (ks_threads ks t)) HandleWaitMask ks"
  have k: "sync_ok (snd x)" and v: "lock_view (snd x) = lock_view ks" using ok by (simp_all add: x_def UpdateLockAtomic_sync UpdateLockAtomic_view)
  have "at_large (snd x) t" using t at_large_view [OF v] by simp
  then have c: "GetLockOwner t (snd x) = None" "th_condvar_tree (ks_threads (snd x) t) = None" by (simp_all add: at_large_def)
  have "supplied T (snd x)" using supplied_after [OF T(1) objects_view [OF v]] at_large_view [OF v] by blast
  then have "can_wait h t (snd x)" for h using supply_lasts [OF sync_ok_parts(5) [OF k] _ T(2) c(1)] by blast
  then have "\<exists>y. AddWaiter cur h t (snd x) = Some y" for h using AddWaiter_sync [OF k c] by metis
  then show ?thesis unfolding SignalImpl_def Let_def x_def [symmetric] by (auto simp: case_prod_unfold split: option.split)
qed
text \<open>Every round of the loop takes a thread out of the tree, so the loop ends.\<close>

lemma following_Some:
  assumes "following ts t = Some u" "distinct ts"
  shows "u \<in> set (remove1 t ts)"
proof -
  have "t \<in> set ts" using following_in [OF assms(1)] .
  then obtain xs ys where s: "ts = xs @ t # ys" "t \<notin> set xs" using split_list_first by metis
  then have "\<And>v. v \<in> set xs \<Longrightarrow> v \<noteq> t" by blast
  then have "dropWhile (\<lambda>v. v \<noteq> t) ts = t # ys" unfolding s(1) by (subst dropWhile_append2) simp_all
  then show ?thesis using assms s by (auto simp: following_def remove1_append split: list.splits)
qed

lemma in_tree: "trees_ok ks \<Longrightarrow> u \<in> set (ks_trees ks tr) \<longleftrightarrow> th_condvar_tree (ks_threads ks u) = Some tr"
  by (simp add: trees_ok_def)

lemma leave_frame: "th_condvar_tree (ks_threads (leave tr t ks) u) = (if u = t then None else th_condvar_tree (ks_threads ks u))"
  by (simp add: leave_def ClearConditionVariable_def tree_erase_def upd_thread_def)

lemma leave_large:
  assumes "sync_ok ks" "th_condvar_tree (ks_threads ks t) = Some tr"
  shows "at_large (leave tr t ks) t" "at_large ks u \<Longrightarrow> at_large (leave tr t ks) u"
  using sync_ok_parts(6) [OF assms(1)] assms(2) by (auto simp: at_large_def leave_frame leave_sync(2) [OF assms])

lemma signal_threads_sync:
  assumes "sync_ok ks" "\<And>t. it = Some t \<Longrightarrow> t \<in> set (ks_trees ks tr)"
  shows "(supplied T ks \<longrightarrow> signal_threads p cur thread_of tr key count n it ks \<noteq> None) \<and>
    (\<forall>it' ks'. signal_threads p cur thread_of tr key count n it ks = Some (it', ks') \<longrightarrow> sync_ok ks' \<and> objects ks' = objects ks)"
  using assms
proof (induction "card (set (ks_trees ks tr))" arbitrary: ks it n rule: less_induct)
  case less
  show ?case
  proof (cases "\<exists>t. it = Some t \<and> (count \<le> 0 \<or> n < count) \<and> th_condvar_key (ks_threads ks t) = key")
    case False
    then show ?thesis using less.prems(1) by (subst (1 2) signal_threads.simps) (auto split: option.split)
  next
    case True
    then obtain t where t: "it = Some t" "count \<le> 0 \<or> n < count" "th_condvar_key (ks_threads ks t) = key" by blast
    define nxt where "nxt = following (ks_trees ks tr) t"
    note tree = in_tree [OF sync_ok_parts(4) [OF less.prems(1)]]
    have c: "th_condvar_tree (ks_threads ks t) = Some tr" using less.prems(2) t(1) tree by blast
    note l = leave_sync [OF less.prems(1) c] and large = leave_large [OF less.prems(1) c]
    have step: "signal_threads p cur thread_of tr key count n it ks =
        do { ks \<leftarrow> SignalImpl p cur thread_of t (leave tr t ks); signal_threads p cur thread_of tr key count (n + 1) nxt ks }"
      using t by (subst signal_threads.simps) (simp add: nxt_def leave_def tree_erase_def)
    have go: "(supplied T ks1 \<longrightarrow> signal_threads p cur thread_of tr key count (n + 1) nxt ks1 \<noteq> None) \<and>
        (\<forall>it' ks'. signal_threads p cur thread_of tr key count (n + 1) nxt ks1 = Some (it', ks') \<longrightarrow> sync_ok ks' \<and> objects ks' = objects ks1)"
      if ks1: "SignalImpl p cur thread_of t (leave tr t ks) = Some ks1" for ks1
    proof -
      note s = SignalImpl_sync [OF l(1) large(1) ks1]
      have set1: "set (ks_trees ks1 tr) = set (ks_trees ks tr) - {t}"
        using s(3) in_tree [OF sync_ok_parts(4) [OF s(1)]] tree by (auto simp: leave_frame split: if_splits)
      then have less_card: "card (set (ks_trees ks1 tr)) < card (set (ks_trees ks tr))"
        using c tree by (intro psubset_card_mono) auto
      have "distinct (ks_trees ks tr)" using sync_ok_parts(4) [OF less.prems(1)] by (simp add: trees_ok_def)
      then have "u \<in> set (ks_trees ks1 tr)" if "nxt = Some u" for u
        using following_Some [of "ks_trees ks tr" t u] that set1 by (simp add: nxt_def)
      from less.hyps [OF less_card s(1) this] show ?thesis by blast
    qed
    have "signal_threads p cur thread_of tr key count n it ks \<noteq> None" if T: "supplied T ks"
    proof -
      have t_in: "t \<in> T" using T c by (auto simp: supplied_def at_large_def)
      have T1: "supplied T (leave tr t ks)" using supplied_after [OF T l(3)] large(2) by blast
      obtain ks1 where ks1: "SignalImpl p cur thread_of t (leave tr t ks) = Some ks1"
        using SignalImpl_returns [OF l(1) large(1) T1 t_in] by blast
      note s = SignalImpl_sync [OF l(1) large(1) ks1]
      have "supplied T ks1" using supplied_after [OF T1 s(2)] s(4) t_in by metis
      then show ?thesis using go [OF ks1] by (simp add: step ks1)
    qed
    moreover have "sync_ok ks' \<and> objects ks' = objects ks"
      if ret: "signal_threads p cur thread_of tr key count n it ks = Some (it', ks')" for it' ks'
    proof -
      obtain ks1 where ks1: "SignalImpl p cur thread_of t (leave tr t ks) = Some ks1"
        "signal_threads p cur thread_of tr key count (n + 1) nxt ks1 = Some (it', ks')"
        using ret unfolding step bind_eq_Some_conv by blast
      then show ?thesis using go [OF ks1(1)] SignalImpl_sync(2) [OF l(1) large(1) ks1(1)] l(3) by auto
    qed
    ultimately show ?thesis by blast
  qed
qed

lemma nfind_key_in: "nfind_key tr key ks = Some t \<Longrightarrow> t \<in> set (ks_trees ks tr)"
  by (auto simp: nfind_key_def find_Some_iff)

lemma Signal_sync:
  assumes ok: "sync_ok ks"
  shows "supplied T ks \<Longrightarrow> \<exists>ks'. Signal p cur thread_of tr key count ks = Some ks'"
    "Signal p cur thread_of tr key count ks = Some ks' \<Longrightarrow> sync_ok ks' \<and> objects ks' = objects ks"
proof -
  let ?s = "signal_threads p cur thread_of tr key count 0 (nfind_key tr key ks) ks"
  have s: "(supplied T ks \<longrightarrow> ?s \<noteq> None) \<and> (\<forall>it' ks'. ?s = Some (it', ks') \<longrightarrow> sync_ok ks' \<and> objects ks' = objects ks)" for T
    by (rule signal_threads_sync [OF ok nfind_key_in])
  then show "supplied T ks \<Longrightarrow> \<exists>ks'. Signal p cur thread_of tr key count ks = Some ks'"
    by (cases ?s) (auto simp: Signal_def)
  assume "Signal p cur thread_of tr key count ks = Some ks'"
  then obtain it ks1 where x: "?s = Some (it, ks1)" "ks' = ks1 \<or> ks' = WriteToUser p key 0 ks1"
    by (auto simp: Signal_def split: Option.bind_splits option.splits if_splits)
  then show "sync_ok ks' \<and> objects ks' = objects ks"
    using s sync_ok_quiet(4) objects_view [OF lock_view_simple(9)] by metis
qed

lemma tree_waiter_leave:
  assumes "sync_ok ks" "\<And>x. th_condvar_tree (ks_threads ks t) = Some x \<Longrightarrow> x = tr"
    "ks' = (if th_condvar_tree (ks_threads ks t) \<noteq> None then ClearConditionVariable t (snd (tree_erase tr t ks)) else ks)"
  shows "sync_ok (wake r t ks')" "objects (wake r t ks') = objects ks"
proof -
  have "sync_ok ks' \<and> objects ks' = objects ks"
    using assms leave_sync(1,3) [OF assms(1)] by (cases "th_condvar_tree (ks_threads ks t)") (auto simp: leave_def)
  then show "sync_ok (wake r t ks')" "objects (wake r t ks') = objects ks"
    using sync_ok_quiet(2) objects_view [OF lock_view_waits(1)] by simp_all
qed

lemma arbiter_CancelWait_sync:
  assumes "sync_ok ks" "\<And>x. th_condvar_tree (ks_threads ks t) = Some x \<Longrightarrow> x = tr"
  shows "sync_ok (arbiter_CancelWait tr r t ks)" "objects (arbiter_CancelWait tr r t ks) = objects ks"
  using tree_waiter_leave [OF assms refl] by (simp_all add: arbiter_CancelWait_def)

lemma condvar_CancelWait_sync:
  assumes ok: "sync_ok ks" and tr: "\<And>x. th_condvar_tree (ks_threads ks t) = Some x \<Longrightarrow> x = tr"
  obtains ks' where "condvar_CancelWait cur tr r t ks = Some ks'" "sync_ok ks'" "objects ks' = objects ks"
proof -
  have "\<exists>ks1. (case GetLockOwner t ks of None \<Rightarrow> Some ks | Some owner \<Rightarrow> RemoveWaiter cur owner t ks) = Some ks1 \<and> sync_ok ks1 \<and>
    objects ks1 = objects ks \<and> th_condvar_tree (ks_threads ks1 t) = th_condvar_tree (ks_threads ks t)"
  proof (cases "GetLockOwner t ks")
    case (Some h)
    then show ?thesis using RemoveWaiter_sync [OF ok Some] relocked_fields(1,2) by (metis option.simps(5))
  qed (simp add: ok)
  then obtain ks1 where k: "(case GetLockOwner t ks of None \<Rightarrow> Some ks | Some owner \<Rightarrow> RemoveWaiter cur owner t ks) = Some ks1"
    "sync_ok ks1" "objects ks1 = objects ks" "th_condvar_tree (ks_threads ks1 t) = th_condvar_tree (ks_threads ks t)" by blast
  have "\<And>x. th_condvar_tree (ks_threads ks1 t) = Some x \<Longrightarrow> x = tr" using tr k(4) by simp
  note w = tree_waiter_leave [OF k(2) this refl, where r = r]
  show thesis using that [OF _ w(1)] w(2) k(1,3) by (simp add: condvar_CancelWait_def Let_def)
qed

end
