(* ===== verification/Arbiter_Laws.thy ===== *)
theory Arbiter_Laws
  imports Waiting_Laws
begin

text \<open>
  Address arbiters: the loop over the tree of waiting threads wakes the most urgent ones of those that
  wait at the address, and the new value depends on how many there are.
\<close>

section \<open>Address arbiters\<close>

text \<open>
  The threads that wait at an address, the most urgent one first, and those of them that a signal
  wakes. Waking them one after the other is what the loop over the tree does.
\<close>

definition waiting_at :: "nat \<Rightarrow> u64 \<Rightarrow> kernel \<Rightarrow> nat list" where
  "waiting_at tr addr ks = filter (\<lambda>u. th_condvar_key (ks_threads ks u) = addr) (ks_trees ks tr)"

definition woken :: "nat \<Rightarrow> u64 \<Rightarrow> int \<Rightarrow> kernel \<Rightarrow> nat list" where
  "woken tr addr count ks = (let ws = waiting_at tr addr ks in if count \<le> 0 then ws else take (nat count) ws)"

definition wake_one :: "nat \<Rightarrow> nat \<Rightarrow> kernel \<Rightarrow> kernel" where
  "wake_one tr t ks = leave tr t (EndWait ResultSuccess t ks)"

lemma wake_one_frame:
  "ks_trees (wake_one tr t ks) = (ks_trees ks)(tr := remove1 t (ks_trees ks tr))"
  "th_condvar_key (ks_threads (wake_one tr t ks) u) = th_condvar_key (ks_threads ks u)"
  "u \<noteq> t \<Longrightarrow> ks_threads (wake_one tr t ks) u = ks_threads ks u"
  "ks_user_memory (wake_one tr t ks) = ks_user_memory ks"
proof -
  have v: "ks_trees (EndWait r t ks) = ks_trees ks" "th_condvar_key (ks_threads (EndWait r t ks) u) = th_condvar_key (ks_threads ks u)" for r u
    using lock_view_fields(8,11) [OF lock_view_waits(2)] by metis+
  show "ks_trees (wake_one tr t ks) = (ks_trees ks)(tr := remove1 t (ks_trees ks tr))"
    "th_condvar_key (ks_threads (wake_one tr t ks) u) = th_condvar_key (ks_threads ks u)"
    using v by (simp_all add: wake_one_def leave_def ClearConditionVariable_def tree_erase_def upd_thread_def)
  have c: "ks_threads (OnThreadStateChanged x s k) = ks_threads k \<and> ks_user_memory (OnThreadStateChanged x s k) = ks_user_memory k" for x s k
    by (auto simp: OnThreadStateChanged_def Let_def SetSchedulerUpdateNeeded_def IncrementScheduledCount_def upd_process_def
        UnregisterDummyThreadForWakeup_def RegisterDummyThreadForWakeup_def split: option.split)
  then show "u \<noteq> t \<Longrightarrow> ks_threads (wake_one tr t ks) u = ks_threads ks u" "ks_user_memory (wake_one tr t ks) = ks_user_memory ks"
    by (auto simp: wake_one_def leave_def ClearConditionVariable_def tree_erase_def upd_thread_def EndWait_def wake_def SetState_def Let_def)
qed

lemma wake_one_sync:
  assumes "sync_ok ks" "t \<in> set (ks_trees ks tr)"
  shows "sync_ok (wake_one tr t ks)" "objects (wake_one tr t ks) = objects ks"
proof -
  let ?ks = "EndWait ResultSuccess t ks"
  have k: "sync_ok ?ks" by (rule sync_ok_quiet(1) [OF assms(1)])
  have "th_condvar_tree (ks_threads ks t) = Some tr" using assms in_tree [OF sync_ok_parts(4)] by blast
  then have c: "th_condvar_tree (ks_threads ?ks t) = Some tr" using lock_view_fields(10) [OF lock_view_waits(2)] by metis
  show "sync_ok (wake_one tr t ks)" "objects (wake_one tr t ks) = objects ks"
    unfolding wake_one_def using leave_sync(1,3) [OF k c] objects_view [OF lock_view_waits(2)] by simp_all
qed

text \<open>The first thread of a list, where an iterator stands.\<close>

definition front_of :: "nat list \<Rightarrow> nat option" where
  "front_of ts = (case ts of [] \<Rightarrow> None | t # _ \<Rightarrow> Some t)"

lemma following_split: "t \<notin> set xs \<Longrightarrow> following (xs @ t # ys) t = front_of ys"
proof -
  assume "t \<notin> set xs"
  then have "\<And>v. v \<in> set xs \<Longrightarrow> v \<noteq> t" by blast
  then have "dropWhile (\<lambda>v. v \<noteq> t) (xs @ t # ys) = t # ys" by (subst dropWhile_append2) simp_all
  then show ?thesis by (simp add: following_def front_of_def split: list.split)
qed

lemma wake_waiters_fold:
  assumes "ks_trees ks tr = xs @ bs @ cs" "distinct (ks_trees ks tr)"
    "\<And>u. u \<in> set bs \<Longrightarrow> th_condvar_key (ks_threads ks u) = addr" "\<And>u. u \<in> set cs \<Longrightarrow> th_condvar_key (ks_threads ks u) \<noteq> addr"
  shows "wake_waiters tr addr count n (front_of (bs @ cs)) ks =
    fold (wake_one tr) (if count \<le> 0 then bs else take (nat (count - n)) bs) ks"
  using assms
proof (induction bs arbitrary: ks n)
  case Nil
  then show ?case by (subst wake_waiters.simps) (auto simp: front_of_def split: option.split list.split)
next
  case (Cons b bs)
  let ?ks = "wake_one tr b ks"
  show ?case
  proof (cases "count \<le> 0 \<or> n < count")
    case True
    have b: "b \<notin> set xs" using Cons.prems(1,2) by auto
    then have tree: "ks_trees ?ks tr = xs @ bs @ cs" using Cons.prems(1) by (simp add: wake_one_frame remove1_append)
    have nxt: "following (ks_trees ks tr) b = front_of (bs @ cs)" using following_split [OF b] Cons.prems(1) by simp
    have key: "th_condvar_key (ks_threads ks b) = addr" using Cons.prems(3) by simp
    have e: "snd (tree_erase tr b (ClearConditionVariable b (EndWait ResultSuccess b ks))) = ?ks" by (simp add: leave_alt wake_one_def)
    have f: "fst (tree_erase tr b (ClearConditionVariable b (EndWait ResultSuccess b ks))) = front_of (bs @ cs)"
      using nxt by (simp add: tree_erase_def)
    have step: "wake_waiters tr addr count n (front_of ((b # bs) @ cs)) ks = wake_waiters tr addr count (n + 1) (front_of (bs @ cs)) ?ks"
      using True key e f by (subst wake_waiters.simps) (simp add: front_of_def [of "b # _"] Let_def case_prod_unfold)
    have go: "wake_waiters tr addr count (n + 1) (front_of (bs @ cs)) ?ks =
        fold (wake_one tr) (if count \<le> 0 then bs else take (nat (count - (n + 1))) bs) ?ks"
      by (rule Cons.IH) (use tree Cons.prems in \<open>auto simp: wake_one_frame(2)\<close>)
    show ?thesis
    proof (cases "count \<le> 0")
      case False
      then have "nat (count - n) = Suc (nat (count - (n + 1)))" using True by simp
      then show ?thesis using False step go by simp
    qed (use step go in simp)
  next
    case False
    then show ?thesis by (subst wake_waiters.simps) (simp add: front_of_def)
  qed
qed

text \<open>An ordered tree has the threads of an address next to each other.\<close>

lemma ordered_by_key:
  assumes "ordered (condvar_before T) ts"
  defines "k \<equiv> \<lambda>u. th_condvar_key (T u)"
  shows "ts = filter (\<lambda>u. k u < a) ts @ filter (\<lambda>u. k u = a) ts @ filter (\<lambda>u. a < k u) ts \<and>
    sorted_wrt (\<lambda>u v. th_priority (T u) \<le> th_priority (T v)) (filter (\<lambda>u. k u = a) ts) \<and>
    find (\<lambda>u. a \<le> k u) ts = front_of (filter (\<lambda>u. k u = a) ts @ filter (\<lambda>u. a < k u) ts)"
  using assms(1)
proof (induction ts)
  case (Cons t ts)
  have le: "k t \<le> k u" "k u = k t \<Longrightarrow> th_priority (T t) \<le> th_priority (T u)" if "u \<in> set ts" for u
    using Cons.prems that by (auto simp: ordered_def condvar_before_def k_def Let_def not_less)
  have tail: "ordered (condvar_before T) ts" using Cons.prems by (simp add: ordered_def)
  note IH = Cons.IH [OF tail]
  have none: "filter (\<lambda>u. k u < a) ts = []" if "\<not> k t < a" using le(1) that by (force simp: filter_empty_conv)
  have none2: "filter (\<lambda>u. k u = a) ts = []" if "a < k t" using le(1) that by (force simp: filter_empty_conv)
  consider "k t < a" | "k t = a" | "a < k t" by (rule linorder_cases)
  then show ?case
  proof cases
    case 1
    then have "t # ts = t # filter (\<lambda>u. k u < a) ts @ filter (\<lambda>u. k u = a) ts @ filter (\<lambda>u. a < k u) ts" using IH by simp
    moreover have "\<not> a < k t" "k t \<noteq> a" "\<not> a \<le> k t" using 1 by auto
    ultimately show ?thesis using 1 IH by simp
  next
    case 2
    then have "ts = filter (\<lambda>u. k u = a) ts @ filter (\<lambda>u. a < k u) ts" using IH none by simp
    then show ?thesis using 2 IH none le(2) by (simp add: front_of_def)
  next
    case 3
    then have "ts = filter (\<lambda>u. a < k u) ts" using IH none none2 by simp
    moreover have "\<not> k t < a" "k t \<noteq> a" "a \<le> k t" using 3 by auto
    ultimately show ?thesis using 3 none none2 by (simp add: front_of_def)
  qed
qed (simp add: front_of_def)
lemma tree_by_key:
  assumes "trees_ok ks"
  obtains xs cs where "ks_trees ks tr = xs @ waiting_at tr addr ks @ cs" "nfind_key tr addr ks = front_of (waiting_at tr addr ks @ cs)"
    "\<And>u. u \<in> set cs \<Longrightarrow> th_condvar_key (ks_threads ks u) \<noteq> addr"
proof -
  have "ordered (condvar_before (ks_threads ks)) (ks_trees ks tr)" using assms by (simp add: trees_ok_def)
  note k = ordered_by_key [OF this, of addr]
  let ?cs = "filter (\<lambda>u. addr < th_condvar_key (ks_threads ks u)) (ks_trees ks tr)"
  show thesis
  proof (rule that)
    show "ks_trees ks tr = filter (\<lambda>u. th_condvar_key (ks_threads ks u) < addr) (ks_trees ks tr) @ waiting_at tr addr ks @ ?cs"
      using k unfolding waiting_at_def by blast
    show "nfind_key tr addr ks = front_of (waiting_at tr addr ks @ ?cs)" using k unfolding waiting_at_def nfind_key_def by blast
  qed auto
qed

lemma urgent_first:
  "trees_ok ks \<Longrightarrow> sorted_wrt (\<lambda>u v. th_priority (ks_threads ks u) \<le> th_priority (ks_threads ks v)) (waiting_at tr addr ks)"
  using ordered_by_key [of "ks_threads ks" "ks_trees ks tr" addr] by (simp add: waiting_at_def trees_ok_def)

lemma wake_waiters_woken:
  assumes "trees_ok ks"
  shows "wake_waiters tr addr count 0 (nfind_key tr addr ks) ks = fold (wake_one tr) (woken tr addr count ks) ks"
proof -
  obtain xs cs where t: "ks_trees ks tr = xs @ waiting_at tr addr ks @ cs" "nfind_key tr addr ks = front_of (waiting_at tr addr ks @ cs)"
    "\<And>u. u \<in> set cs \<Longrightarrow> th_condvar_key (ks_threads ks u) \<noteq> addr" by (rule tree_by_key [OF assms]) (rule that)
  have "distinct (ks_trees ks tr)" using assms by (simp add: trees_ok_def)
  from wake_waiters_fold [OF t(1) this _ t(3), of count 0] show ?thesis unfolding t(2) woken_def Let_def
    by (simp add: waiting_at_def)
qed

lemma woken_waiting: "set (woken tr addr count ks) \<subseteq> set (waiting_at tr addr ks)" "distinct (ks_trees ks tr) \<Longrightarrow> distinct (woken tr addr count ks)"
  by (auto simp: woken_def Let_def waiting_at_def dest: in_set_takeD)

lemma wake_one_thread:
  "th_condvar_tree (ks_threads (wake_one tr t ks) t) = None"
  "GetState (ks_threads ks t) = Waiting_State \<Longrightarrow> GetState (ks_threads (wake_one tr t ks) t) = Runnable \<and>
     th_wait_result (ks_threads (wake_one tr t ks) t) = ResultSuccess"
proof -
  show "th_condvar_tree (ks_threads (wake_one tr t ks) t) = None" by (simp add: wake_one_def leave_frame)
  have c: "ks_threads (OnThreadStateChanged x s k) = ks_threads k" for x s k
    by (auto simp: OnThreadStateChanged_def Let_def SetSchedulerUpdateNeeded_def IncrementScheduledCount_def upd_process_def
        UnregisterDummyThreadForWakeup_def RegisterDummyThreadForWakeup_def split: option.split)
  have m: "((s AND NOT State_Mask) OR (Runnable AND State_Mask)) AND State_Mask = Runnable" for s
  proof -
    have "Runnable AND State_Mask = (2::u16)" "Runnable AND (2::u16) = 2" "State_Mask AND (2::u16) = 2" by code_simp+
    then show ?thesis by (simp add: bit.conj_disj_distrib2 and.assoc)
  qed
  assume w: "GetState (ks_threads ks t) = Waiting_State"
  then have "(th_thread_state (ks_threads ks t) AND NOT State_Mask) OR (Runnable AND State_Mask) \<noteq> th_thread_state (ks_threads ks t)"
    using m [of "th_thread_state (ks_threads ks t)"] by (auto simp: GetState_def)
  then show "GetState (ks_threads (wake_one tr t ks) t) = Runnable \<and> th_wait_result (ks_threads (wake_one tr t ks) t) = ResultSuccess"
    using w by (simp add: wake_one_def leave_def ClearConditionVariable_def tree_erase_def EndWait_def wake_def SetState_def Let_def c upd_thread_def
        GetState_def m)
qed

text \<open>What a list of threads that are woken looks like afterwards.\<close>

lemma wake_fold:
  assumes "distinct ts" "sync_ok ks" "set ts \<subseteq> set (ks_trees ks tr)" "ks' = fold (wake_one tr) ts ks"
  shows "sync_ok ks'" "objects ks' = objects ks" "ks_trees ks' tr = filter (\<lambda>u. u \<notin> set ts) (ks_trees ks tr)"
    "u \<notin> set ts \<Longrightarrow> ks_threads ks' u = ks_threads ks u" "ks_user_memory ks' = ks_user_memory ks"
    "u \<in> set ts \<Longrightarrow> th_condvar_tree (ks_threads ks' u) = None \<and> (GetState (ks_threads ks u) = Waiting_State \<longrightarrow>
      GetState (ks_threads ks' u) = Runnable \<and> th_wait_result (ks_threads ks' u) = ResultSuccess)"
proof -
  have "sync_ok ks' \<and> objects ks' = objects ks \<and> ks_trees ks' tr = filter (\<lambda>u. u \<notin> set ts) (ks_trees ks tr) \<and>
    (\<forall>u. u \<notin> set ts \<longrightarrow> ks_threads ks' u = ks_threads ks u) \<and> ks_user_memory ks' = ks_user_memory ks \<and>
    (\<forall>u. u \<in> set ts \<longrightarrow> th_condvar_tree (ks_threads ks' u) = None \<and> (GetState (ks_threads ks u) = Waiting_State \<longrightarrow>
      GetState (ks_threads ks' u) = Runnable \<and> th_wait_result (ks_threads ks' u) = ResultSuccess))"
    using assms
  proof (induction ts arbitrary: ks)
    case (Cons t ts)
    let ?k = "wake_one tr t ks"
    have d: "distinct (ks_trees ks tr)" using sync_ok_parts(4) [OF Cons.prems(2)] by (simp add: trees_ok_def)
    have tin: "t \<in> set (ks_trees ks tr)" using Cons.prems(3) by simp
    note w = wake_one_sync [OF Cons.prems(2) tin]
    have tree: "ks_trees ?k tr = filter (\<lambda>u. u \<noteq> t) (ks_trees ks tr)" using d by (simp add: wake_one_frame(1) distinct_remove1_removeAll removeAll_filter_not_eq)
      (metis (mono_tags, lifting))
    have sub: "set ts \<subseteq> set (ks_trees ?k tr)" using Cons.prems(1,3) by (auto simp: tree)
    note IH = Cons.IH [OF _ w(1) sub] and prems = Cons.prems
    have IH': "sync_ok ks'" "objects ks' = objects ?k" "ks_trees ks' tr = filter (\<lambda>u. u \<notin> set ts) (ks_trees ?k tr)"
      "ks_user_memory ks' = ks_user_memory ?k"
      "\<And>u. u \<notin> set ts \<Longrightarrow> ks_threads ks' u = ks_threads ?k u"
      "\<And>u. u \<in> set ts \<Longrightarrow> th_condvar_tree (ks_threads ks' u) = None \<and> (GetState (ks_threads ?k u) = Waiting_State \<longrightarrow>
        GetState (ks_threads ks' u) = Runnable \<and> th_wait_result (ks_threads ks' u) = ResultSuccess)"
      using IH prems(1,4) by simp_all
    have t: "t \<notin> set ts" using prems(1) by simp
    have "ks_trees ks' tr = filter (\<lambda>u. u \<notin> set (t # ts)) (ks_trees ks tr)" unfolding IH'(3) tree by (simp add: conj_commute)
    moreover have "ks_threads ?k u = ks_threads ks u" if "u \<noteq> t" for u using that by (rule wake_one_frame(3))
    moreover from this have "ks_threads ?k u = ks_threads ks u" if "u \<in> set ts" for u using that t by metis
    ultimately show ?case using IH' w wake_one_thread [where tr = tr and t = t and ks = ks] wake_one_frame(4) [where tr = tr and t = t and ks = ks] t
      by (auto simp: set_ConsD)
  qed simp
  then show "sync_ok ks'" "objects ks' = objects ks" "ks_trees ks' tr = filter (\<lambda>u. u \<notin> set ts) (ks_trees ks tr)"
    "u \<notin> set ts \<Longrightarrow> ks_threads ks' u = ks_threads ks u" "ks_user_memory ks' = ks_user_memory ks"
    "u \<in> set ts \<Longrightarrow> th_condvar_tree (ks_threads ks' u) = None \<and> (GetState (ks_threads ks u) = Waiting_State \<longrightarrow>
      GetState (ks_threads ks' u) = Runnable \<and> th_wait_result (ks_threads ks' u) = ResultSuccess)" by blast+
qed
lemma arbiter_wake:
  assumes ok: "sync_ok ks" and ks': "ks' = wake_waiters tr addr count 0 (nfind_key tr addr ks) ks"
  defines "ws \<equiv> woken tr addr count ks"
  shows "sync_ok ks'" "objects ks' = objects ks" "ks_trees ks' tr = filter (\<lambda>u. u \<notin> set ws) (ks_trees ks tr)"
    "u \<notin> set ws \<Longrightarrow> ks_threads ks' u = ks_threads ks u" "ks_user_memory ks' = ks_user_memory ks"
    "u \<in> set ws \<Longrightarrow> th_condvar_tree (ks_threads ks' u) = None \<and> (GetState (ks_threads ks u) = Waiting_State \<longrightarrow>
      GetState (ks_threads ks' u) = Runnable \<and> th_wait_result (ks_threads ks' u) = ResultSuccess)"
proof -
  note t = sync_ok_parts(4) [OF ok]
  have d: "distinct (ks_trees ks tr)" using t by (simp add: trees_ok_def)
  have sub: "set ws \<subseteq> set (ks_trees ks tr)" using woken_waiting(1) [of tr addr count ks] by (auto simp: ws_def waiting_at_def)
  have k: "ks' = fold (wake_one tr) ws ks" unfolding ks' ws_def by (rule wake_waiters_woken [OF t])
  note w = wake_fold [OF woken_waiting(2) [OF d, of addr count, folded ws_def] ok sub k]
  show "sync_ok ks'" "objects ks' = objects ks" "ks_trees ks' tr = filter (\<lambda>u. u \<notin> set ws) (ks_trees ks tr)"
    "u \<notin> set ws \<Longrightarrow> ks_threads ks' u = ks_threads ks u" "ks_user_memory ks' = ks_user_memory ks"
    "u \<in> set ws \<Longrightarrow> th_condvar_tree (ks_threads ks' u) = None \<and> (GetState (ks_threads ks u) = Waiting_State \<longrightarrow>
      GetState (ks_threads ks' u) = Runnable \<and> th_wait_result (ks_threads ks' u) = ResultSuccess)"
    by (rule w(1), rule w(2), rule w(3), erule w(4), rule w(5), erule w(6))
qed

lemma Write_frame [simp]:
  "ks_trees (WriteToUser p a v ks) = ks_trees ks" "ks_threads (WriteToUser p a v ks) = ks_threads ks"
  "nfind_key tr addr (WriteToUser p a v ks) = nfind_key tr addr ks" "waiting_at tr addr (WriteToUser p a v ks) = waiting_at tr addr ks"
  "woken tr addr count (WriteToUser p a v ks) = woken tr addr count ks" "objects (WriteToUser p a v ks) = objects ks"
  by (simp_all add: WriteToUser_def nfind_key_def waiting_at_def woken_def objects_def held_def)

lemma UpdateIfEqual_cases: "snd (UpdateIfEqual p addr v x ks) = ks \<or> (\<exists>w. snd (UpdateIfEqual p addr v x ks) = WriteToUser p addr w ks)"
  by (auto simp: UpdateIfEqual_def Let_def)

lemma wake_written:
  assumes "sync_ok ks" "ks1 = ks \<or> (\<exists>w. ks1 = WriteToUser p addr w ks)"
    "r = (ResultInvalidState, ks1) \<or> r = (ResultSuccess, wake_waiters tr addr count 0 (nfind_key tr addr ks) ks1)"
  shows "sync_ok (snd r)" "objects (snd r) = objects ks"
proof -
  have k: "sync_ok ks1" "nfind_key tr addr ks1 = nfind_key tr addr ks" "objects ks1 = objects ks"
    using assms(1,2) sync_ok_quiet(4) by auto
  note w = arbiter_wake(1,2) [OF k(1) refl, of tr addr count]
  show "sync_ok (snd r)" "objects (snd r) = objects ks" using assms(3) k w by auto
qed

lemma arbiter_signals_sync:
  assumes ok: "sync_ok ks"
  shows "sync_ok (snd (arbiter_Signal tr addr count ks))" "objects (snd (arbiter_Signal tr addr count ks)) = objects ks"
    "sync_ok (snd (SignalAndIncrementIfEqual p tr addr v count ks))"
    "objects (snd (SignalAndIncrementIfEqual p tr addr v count ks)) = objects ks"
    "sync_ok (snd (SignalAndModifyByWaitingCountIfEqual p tr addr v count ks))"
    "objects (snd (SignalAndModifyByWaitingCountIfEqual p tr addr v count ks)) = objects ks"
proof -
  show "sync_ok (snd (arbiter_Signal tr addr count ks))" "objects (snd (arbiter_Signal tr addr count ks)) = objects ks"
    unfolding arbiter_Signal_def snd_conv by (rule arbiter_wake(1,2) [OF ok refl])+
  define k1 where "k1 = snd (UpdateIfEqual p addr v (v + 1) ks)"
  have c1: "k1 = ks \<or> (\<exists>w. k1 = WriteToUser p addr w ks)" unfolding k1_def by (rule UpdateIfEqual_cases)
  then have "nfind_key tr addr k1 = nfind_key tr addr ks" by auto
  then have r1: "SignalAndIncrementIfEqual p tr addr v count ks = (ResultInvalidState, k1) \<or>
      SignalAndIncrementIfEqual p tr addr v count ks = (ResultSuccess, wake_waiters tr addr count 0 (nfind_key tr addr ks) k1)"
    by (simp add: SignalAndIncrementIfEqual_def k1_def case_prod_unfold Let_def)
  show "sync_ok (snd (SignalAndIncrementIfEqual p tr addr v count ks))"
    "objects (snd (SignalAndIncrementIfEqual p tr addr v count ks)) = objects ks"
    by (rule wake_written [OF ok c1 r1])+
  let ?n = "new_value_by_count tr addr v count ks"
  define k2 where "k2 = (if v \<noteq> ?n then snd (UpdateIfEqual p addr v ?n ks) else ks)"
  have c2: "k2 = ks \<or> (\<exists>w. k2 = WriteToUser p addr w ks)" unfolding k2_def using UpdateIfEqual_cases by auto
  have r2: "SignalAndModifyByWaitingCountIfEqual p tr addr v count ks = (ResultInvalidState, k2) \<or>
      SignalAndModifyByWaitingCountIfEqual p tr addr v count ks = (ResultSuccess, wake_waiters tr addr count 0 (nfind_key tr addr ks) k2)"
    by (simp add: SignalAndModifyByWaitingCountIfEqual_def k2_def Let_def case_prod_unfold)
  show "sync_ok (snd (SignalAndModifyByWaitingCountIfEqual p tr addr v count ks))"
    "objects (snd (SignalAndModifyByWaitingCountIfEqual p tr addr v count ks)) = objects ks"
    by (rule wake_written [OF ok c2 r2])+
qed

lemma arbiter_wait_sync:
  assumes ok: "sync_ok ks" and t: "at_large ks t"
  shows "sync_ok (arbiter_wait t tr addr ks)" "objects (arbiter_wait t tr addr ks) = objects ks"
  unfolding arbiter_wait_def SetAddressArbiter_def using condvar_set [OF ok t rekeys_keys(3), where tr = tr] by simp_all

lemma arbiter_waits_sync:
  assumes ok: "sync_ok ks" and t: "at_large ks t"
  shows "sync_ok (snd (WaitIfLessThan p t tr addr v decrement timeout ks))"
    "objects (snd (WaitIfLessThan p t tr addr v decrement timeout ks)) = objects ks"
    "sync_ok (snd (WaitIfEqual p t tr addr v timeout ks))" "objects (snd (WaitIfEqual p t tr addr v timeout ks)) = objects ks"
proof -
  show "sync_ok (snd (WaitIfEqual p t tr addr v timeout ks))" "objects (snd (WaitIfEqual p t tr addr v timeout ks)) = objects ks"
    using arbiter_wait_sync [OF assms] ok by (simp_all add: WaitIfEqual_def)
  define k1 where "k1 = (if decrement then snd (DecrementIfLessThan p addr v ks) else ks)"
  have "k1 = ks \<or> (\<exists>w. k1 = WriteToUser p addr w ks)" by (auto simp: k1_def DecrementIfLessThan_def Let_def)
  then have k: "sync_ok k1" "at_large k1 t" "objects k1 = objects ks"
    using assms sync_ok_quiet(4) at_large_view [OF lock_view_simple(9)] by auto
  have "snd (WaitIfLessThan p t tr addr v decrement timeout ks) \<in> {ks, k1, arbiter_wait t tr addr k1}"
    by (auto simp: WaitIfLessThan_def Let_def k1_def case_prod_unfold)
  then show "sync_ok (snd (WaitIfLessThan p t tr addr v decrement timeout ks))"
    "objects (snd (WaitIfLessThan p t tr addr v decrement timeout ks)) = objects ks"
    using arbiter_wait_sync [OF k(1,2)] k ok by auto
qed

text \<open>The new value by the number of the threads that wait.\<close>

lemma count_waiters_eq:
  assumes "\<And>u. u \<in> set bs \<Longrightarrow> th_condvar_key (ks_threads ks u) = addr" "\<And>u. u \<in> set cs \<Longrightarrow> th_condvar_key (ks_threads ks u) \<noteq> addr"
    "n \<le> count"
  shows "count_waiters ks addr count n (bs @ cs) = min (n + int (length bs)) (count + 1)"
  using assms
proof (induction bs arbitrary: n)
  case Nil
  then show ?case by (cases cs) auto
next
  case (Cons b bs)
  then show ?case by (cases "n = count") auto
qed

lemma new_value_by_count_eq:
  assumes "trees_ok ks"
  shows "new_value_by_count tr addr v count ks =
    (let ws = waiting_at tr addr ks
     in if ws = [] then v + 1 else if count \<le> 0 then v - 2 else if int (length ws) \<le> count then v - 1 else v)"
proof -
  obtain xs cs where t: "ks_trees ks tr = xs @ waiting_at tr addr ks @ cs" "nfind_key tr addr ks = front_of (waiting_at tr addr ks @ cs)"
    "\<And>u. u \<in> set cs \<Longrightarrow> th_condvar_key (ks_threads ks u) \<noteq> addr" by (rule tree_by_key [OF assms]) (rule that)
  have key: "th_condvar_key (ks_threads ks u) = addr" if "u \<in> set (waiting_at tr addr ks)" for u using that by (simp add: waiting_at_def)
  show ?thesis
  proof (cases "waiting_at tr addr ks")
    case Nil
    then show ?thesis using t(2,3) by (cases cs) (simp_all add: new_value_by_count_def front_of_def)
  next
    case (Cons w ws)
    have "distinct (ks_trees ks tr)" using assms by (simp add: trees_ok_def)
    then have "w \<notin> set xs" using t(1) Cons by auto
    then have "\<And>u. u \<in> set xs \<Longrightarrow> u \<noteq> w" by blast
    then have "dropWhile (\<lambda>u. u \<noteq> w) (ks_trees ks tr) = w # ws @ cs" unfolding t(1) Cons by (subst dropWhile_append2) simp_all
    moreover have "count_waiters ks addr count 0 (ws @ cs) = min (int (length ws)) (count + 1)" if "\<not> count \<le> 0"
      using count_waiters_eq [of ws ks addr cs 0 count] key t(3) Cons that by simp
    ultimately show ?thesis using t(2) Cons key by (auto simp: new_value_by_count_def front_of_def Let_def min_def)
  qed
qed

end
