(* ===== verification/Scheduler_Steps.thy ===== *)
theory Scheduler_Steps
  imports Arbiter_Laws
begin

text \<open>
  The states the kernel reaches by the operations on its threads, its scheduler and what threads wait
  for, and what the scheduler promises in each: the queues offer the best thread, no thread is given to two cores, no
  core is left idle while a thread could run on it, changes are noted, and every walk ends.
\<close>

section \<open>Reachable states\<close>

text \<open>
  A kernel that starts: no thread is queued, none is pinned, and none holds a lock or waits. Main
  threads and idle threads are runnable, but their priority is below all those that are queued.
\<close>

definition unlocked :: "KThread \<Rightarrow> bool" where
  "unlocked th \<longleftrightarrow> th_held_lock_info_list th = [] \<and> th_waiting_lock_info th = None \<and> th_num_kernel_waiters th = 0 \<and>
     th_condvar_tree th = None \<and> th_priority th = th_base_priority th"

definition initial :: "kernel \<Rightarrow> bool" where
  "initial ks \<longleftrightarrow>
     ks_priority_queue ks = new_KPriorityQueue \<and> (\<forall>c<NumCores. sc_core_id (ks_schedulers ks c) = c) \<and> no_pins ks \<and>
     distinct (ks_free_lock_infos ks) \<and> ks_trees ks = (\<lambda>_. []) \<and>
     (\<forall>t. unlocked (ks_threads ks t) \<and> thread_ok (ks_threads ks t) \<and> masks_ok (pin_view (ks_threads ks t)) \<and>
        (th_thread_state (ks_threads ks t) \<noteq> Runnable \<or> IsDummyThread (ks_threads ks t) \<or>
         LowestPriority < th_priority (ks_threads ks t)))"

text \<open>
  The operations of the kernel on threads, with what the code asserts or what its callers have checked:
  a new thread is an object that holds no lock, a thread that starts to wait waits for nothing yet and
  is in no tree, a wait is cancelled in the tree the thread is in, a thread yields only on a core, pins
  itself on the core it runs on when it is not pinned yet, and a new core mask is not empty and holds
  the ideal core. User programs write their memory at any time.
\<close>

inductive sched_step :: "kernel \<Rightarrow> kernel \<Rightarrow> bool" where
  create: "sched_step ks (ks\<lparr>ks_threads := (ks_threads ks)(t := thread_Initialize type prio virt_core owner th)\<rparr>)"
  if "th_thread_state (ks_threads ks t) \<noteq> Runnable" "\<forall>p c. pr_pinned_threads (ks_processes ks p) c \<noteq> Some t"
    "th_physical_affinity_mask th = 0" "virt_core < 64" "type = MainThread \<longrightarrow> prio = LowestPriority + 1"
    "held ks t = []" "at_large ks t" "th_held_lock_info_list th = []"
| state: "sched_step ks (SetState t s ks)"
| update_state: "sched_step ks (UpdateState t ks)"
| continue: "sched_step ks (Continue_thread t ks)"
| suspend: "sched_step ks (RequestSuspend type t ks)"
| resume: "sched_step ks (Resume type t ks)"
| activity: "sched_step ks (snd (SetActivity paused t ks))"
| end_wait: "sched_step ks (EndWait r t ks)"
| base_priority: "sched_step ks ks'" if "SetBasePriority cur t v ks = Some ks'"
| increase_priority: "sched_step ks ks'" if "IncreaseBasePriority cur t v ks = Some ks'"
| signal_to_address: "sched_step ks ks'" if "SignalToAddress p cur addr ks = Some (r, ks')"
| wait_for_address: "sched_step ks ks'" if "at_large ks cur" "WaitForAddress p cur thread_of handle addr tag ks = Some (res, ks')"
| cancel_lock: "sched_step ks ks'" if "lock_CancelWait cur r t ks = Some ks'"
| signal_condvar: "sched_step ks ks'" if "Signal p cur thread_of tr key count ks = Some ks'"
| wait_condvar: "sched_step ks ks'" if "at_large ks cur" "Wait p cur tr addr key tag timeout ks = Some (res, ks')"
| cancel_condvar: "sched_step ks ks'"
  if "th_condvar_tree (ks_threads ks t) \<in> {None, Some tr}" "condvar_CancelWait cur tr r t ks = Some ks'"
| signal_arbiter: "sched_step ks (snd (arbiter_Signal tr addr count ks))"
| signal_increment: "sched_step ks (snd (SignalAndIncrementIfEqual p tr addr n count ks))"
| signal_modify: "sched_step ks (snd (SignalAndModifyByWaitingCountIfEqual p tr addr n count ks))"
| wait_less: "sched_step ks (snd (WaitIfLessThan p cur tr addr n decrement timeout ks))" if "at_large ks cur"
| wait_equal: "sched_step ks (snd (WaitIfEqual p cur tr addr n timeout ks))" if "at_large ks cur"
| user_write: "sched_step ks (WriteToUser p addr w ks)"
| cancel_arbiter: "sched_step ks (arbiter_CancelWait tr r t ks)" if "th_condvar_tree (ks_threads ks t) \<in> {None, Some tr}"
| pin: "sched_step ks (PinCurrentThread p cur ks)"
  if "th_current_core_id (ks_threads ks cur) = int c" "c < NumCores" "th_parent (ks_threads ks cur) = Some p"
    "th_num_core_migration_disables (ks_threads ks cur) = 0"
| unpin_current: "sched_step ks (UnpinCurrentThread p cur ks)"
  if "th_current_core_id (ks_threads ks cur) = int c" "c < NumCores" "pr_pinned_threads (ks_processes ks p) c = Some cur"
| unpin: "sched_step ks (UnpinThread p t ks)"
  if "th_core_id (ks_threads ks t) = int c" "c < NumCores" "pr_pinned_threads (ks_processes ks p) c = Some t"
| core_mask: "sched_step ks ks'"
  if "v \<noteq> 0" "core_id \<ge> 0 \<longrightarrow> bit v (nat core_id)" "SetCoreMask core_id v t ks = Some (res, ks')"
| rotate: "sched_step ks ks'" if "c < NumCores" "RotateScheduledQueue cur c p ks = Some ks'"
| preempt: "sched_step ks ks'" if "PreemptThreads cur ks = Some ks'"
| yield_stay: "sched_step ks (YieldWithoutCoreMigration cur ks)"
  if "\<not> IsDummyThread (ks_threads ks cur)" "th_core_id (ks_threads ks cur) \<ge> 0"
| yield_migrate: "sched_step ks ks'"
  if "\<not> IsDummyThread (ks_threads ks cur)" "th_core_id (ks_threads ks cur) \<ge> 0" "YieldWithCoreMigration cur ks = Some ks'"
| yield_any: "sched_step ks ks'"
  if "\<not> IsDummyThread (ks_threads ks cur)" "th_core_id (ks_threads ks cur) \<ge> 0" "YieldToAnyThread cur ks = Some ks'"
| update: "sched_step ks ks'" if "UpdateHighestPriorityThreads now cur ks = Some (m, ks')"
| switch: "sched_step ks (SwitchThread now c cur nxt ks)"
| lock: "sched_step ks (Scheduler_Lock cur ks)"
| unlock: "sched_step ks ks'" if "Scheduler_Unlock now cur ks = Some (r, ks')"
| clear_previous: "sched_step ks (ClearPreviousThread t ks)"

inductive sched_reach :: "kernel \<Rightarrow> bool" where
  start: "sched_reach ks" if "initial ks"
| step: "sched_reach ks'" if "sched_reach ks" "sched_step ks ks'"

lemma initial_waits: "initial ks \<Longrightarrow> waits_ok ks"
proof -
  assume i: "initial ks"
  then have u: "held ks = (\<lambda>_. [])" "waiting ks = (\<lambda>_. None)" "kernel_count ks = (\<lambda>_. 0)"
    "\<And>t. th_condvar_tree (ks_threads ks t) = None" "\<And>t. th_priority (ks_threads ks t) = th_base_priority (ks_threads ks t)"
    by (simp_all add: initial_def unlocked_def held_def waiting_def kernel_count_def fun_eq_iff)
  have "locks_ok ks" using i by (intro locks_okI) (simp_all add: u lock_inv_def kernel_waiters_def initial_def)
  moreover have "inherited_priority t ks = priority_of ks t" for t
    using fun_cong [OF u(1), of t] by (simp add: inherited_priority_def held_def priority_of_def u(5))
  moreover have "trees_ok ks" using i u(4) by (simp add: trees_ok_def ordered_def initial_def)
  ultimately show ?thesis using u(4) by (simp add: waits_ok_def locks_inherit_def inherits_but_def apart_def)
qed

lemma initial_ok: "initial ks \<Longrightarrow> sync_ok ks"
proof -
  assume i: "initial ks"
  then have "kernel_ok (\<lambda>_ _ _. []) ks" using new_KPriorityQueue_ok
    by (auto simp: initial_def kernel_defs sched_ok_def belongs_def pinned_ok_def no_pins_def)
  then show ?thesis using initial_waits [OF i] by (auto simp: ks_ok_def sync_ok_def)
qed

lemma create_ok:
  assumes ok: "ks_ok ks" and t: "th_thread_state (ks_threads ks t) \<noteq> Runnable" "\<forall>p c. pr_pinned_threads (ks_processes ks p) c \<noteq> Some t"
    and new: "th_physical_affinity_mask th = 0" "virt_core < 64" "type = MainThread \<longrightarrow> prio = LowestPriority + 1"
  shows "ks_ok (ks\<lparr>ks_threads := (ks_threads ks)(t := thread_Initialize type prio virt_core owner th)\<rparr>)"
proof -
  let ?th = "thread_Initialize type prio virt_core owner th" and ?c = "VirtualToPhysicalCoreMap ! virt_core"
  obtain Q where k: "kernel_ok Q ks" using ok by (auto simp: ks_ok_def)
  have c: "?c < NumCores" using new(2) by (rule virtual_core_bound)
  have f: "th_core_id ?th = int ?c" "th_physical_affinity_mask ?th = GetCoreBit ?c" "th_physical_ideal_core_id ?th = int ?c"
    "th_num_core_migration_disables ?th = 0"
    using new(1) by (simp_all add: thread_Initialize_def Let_def SetAffinity_def)
  have "\<not> belongs ?th k p d" for k p d
    using new(3) by (auto simp: belongs_def thread_Initialize_def Let_def IsDummyThread_def)
  then have "sched_ok ((ks_threads ks)(t := ?th)) Q (ks_priority_queue ks)"
    using k t(1) thread_ok_one_core [OF c f(1,2)] by (auto simp: kernel_defs sched_ok_def belongs_def)
  moreover have "masks_ok (pin_view ?th)" using mask_wf_one_core [OF c] f by (simp add: masks_ok_def pin_view_def)
  ultimately have "kernel_ok Q (ks\<lparr>ks_threads := (ks_threads ks)(t := ?th)\<rparr>)"
    using k t(2) by (auto simp: kernel_defs pinned_ok_def)
  then show ?thesis by (auto simp: ks_ok_def)
qed

lemma created_waits:
  assumes ok: "waits_ok ks" and t: "held ks t = []" "at_large ks t" and th: "unlocked th"
    and ks': "ks' = ks\<lparr>ks_threads := (ks_threads ks)(t := th)\<rparr>"
  shows "waits_ok ks'" "objects ks' = objects ks"
proof -
  have inh: "locks_inherit ks" and tr: "trees_ok ks" and ap: "apart ks" using ok by (simp_all add: waits_ok_def)
  note lk = locks_inherit_priority(2) [OF inh]
  have w: "waiting ks t = None" "th_condvar_tree (ks_threads ks t) = None"
    using t(2) owner_waiting(1) [OF lk] by (simp_all add: at_large_def)
  have f: "held ks' = held ks" "waiting ks' = waiting ks" "ks_lock_infos ks' = ks_lock_infos ks"
    "ks_free_lock_infos ks' = ks_free_lock_infos ks" "\<And>u. u \<noteq> t \<Longrightarrow> ks_threads ks' u = ks_threads ks u" "ks_threads ks' t = th"
    using t(1) w th by (auto simp: ks' fun_eq_iff held_def waiting_def unlocked_def)
  have same: "priority_of ks' u = priority_of ks u" "address ks' u = address ks u" if "waiting ks u \<noteq> None" for u
    using that w f(5) by (cases "u = t"; simp add: priority_of_def address_def)+
  have count: "kernel_count ks' u = kernel_waiters (ks_lock_infos ks) (held ks u)" for u
    using locks_ok_inv(3) [OF lk, of u] t(1) th f(5) [of u] f(6)
    by (cases "u = t") (simp_all add: kernel_count_def unlocked_def kernel_waiters_def)
  have lk': "locks_ok ks'"
    using lock_inv_priority [OF locks_ok_inv(1) [OF lk] same] locks_ok_inv(2) [OF lk] count by (intro locks_okI) (simp_all add: f)
  have own: "GetLockOwner u ks' = GetLockOwner u ks" for u unfolding GetLockOwner_alt f ..
  have "priority_of ks' x = inherited_priority x ks'" for x
  proof (cases "x = t")
    case True
    then show ?thesis using th f(6) by (simp add: inherited_priority_def unlocked_def priority_of_def)
  next
    case False
    have "GetLockOwner u ks = Some x \<Longrightarrow> waiting ks u \<noteq> None" for u using owner_waiting(1) [OF lk, of u] by auto
    then have "n \<le> inherited_priority x ks \<longleftrightarrow> n \<le> inherited_priority x ks'" for n
      unfolding le_inherited_priority [OF lk] le_inherited_priority [OF lk'] own using same(1) f(5) [OF False] by metis
    then have "inherited_priority x ks = inherited_priority x ks'" by (rule eq_by_le)
    then show ?thesis using locks_inherit_priority(1) [OF inh, of x] f(5) [OF False] by (simp add: priority_of_def)
  qed
  moreover have "trees_ok ks'"
  proof (subst trees_ok_cong [of ks' ks])
    show "th_condvar_tree (ks_threads ks' u) = th_condvar_tree (ks_threads ks u)" for u
      using w(2) th f(5,6) by (cases "u = t") (simp_all add: unlocked_def)
    show "th_condvar_key (ks_threads ks' u) = th_condvar_key (ks_threads ks u) \<and> th_priority (ks_threads ks' u) = th_priority (ks_threads ks u)"
      if "th_condvar_tree (ks_threads ks u) \<noteq> None" for u using that w(2) f(5) by (cases "u = t") simp_all
  qed (simp_all add: ks' tr)
  moreover have "apart ks'" using ap th f(5,6) unfolding apart_def own by (metis unlocked_def)
  ultimately show "waits_ok ks'" using lk' by (simp add: waits_ok_def locks_inherit_def inherits_but_def)
  show "objects ks' = objects ks" unfolding objects_def f ..
qed

lemma UpdateHighestPriorityThreads_ks_ok:
  assumes "ks_ok ks" "UpdateHighestPriorityThreads now cur ks = Some (m, ks')"
  shows "ks_ok ks'"
proof (cases "ks_scheduler_update_needed ks")
  case True
  obtain Q where "kernel_ok Q ks" using assms(1) by (auto simp: ks_ok_def)
  from UpdateHighestPriorityThreadsImpl_ok [OF this] assms(2) True show ?thesis
    by (auto simp: UpdateHighestPriorityThreads_def chosen_def ks_ok_def) (metis Pair_inject option.inject)
next
  case False
  then show ?thesis using assms by (simp add: UpdateHighestPriorityThreads_def)
qed

lemma same_view_switch: "same_view ks (SwitchThread now c cur nxt ks)"
  by (auto simp: SwitchThread_def Let_def same_view_def sched_view_def pin_view_def IsDummyThread_def upd_thread_def upd_process_def
      upd_scheduler_def split: option.split)

lemma same_view_lock: "same_view ks (Scheduler_Lock cur ks)"
  by (auto simp: Scheduler_Lock_def Let_def same_view_def sched_view_def pin_view_def IsDummyThread_def upd_thread_def)

lemma same_view_clear_previous: "same_view ks (ClearPreviousThread t ks)"
  by (auto simp: ClearPreviousThread_def same_view_def upd_scheduler_def NumCores_def upt_rec [of _ 4])

lemma Scheduler_Unlock_ok:
  assumes "ks_ok ks" "Scheduler_Unlock now cur ks = Some (r, ks')"
  shows "ks_ok ks'"
proof -
  let ?ks = "ks\<lparr>ks_lock_count := ks_lock_count ks - 1\<rparr>"
  have "same_view ks ?ks" by (simp add: same_view_def)
  then have k: "ks_ok ?ks" using assms(1) same_view_ks by blast
  have "same_view x (x\<lparr>ks_owner_thread := None\<rparr>)" for x by (simp add: same_view_def)
  note owner = this [THEN same_view_ks]
  show ?thesis using assms(2) k UpdateHighestPriorityThreads_ks_ok [OF k] owner
    by (auto simp: Scheduler_Unlock_def Let_def split: if_splits Option.bind_splits)
qed

lemma ks_ok_returned:
  assumes "ks_ok ks" "f ks = Some ks'" "\<And>Q thesis. kernel_ok Q ks \<Longrightarrow> (\<And>x Q'. f ks = Some x \<Longrightarrow> kernel_ok Q' x \<Longrightarrow> thesis) \<Longrightarrow> thesis"
  shows "ks_ok ks'"
  using assms unfolding ks_ok_def by (metis option.inject)

text \<open>The steps that leave locks and trees alone, and the others.\<close>

lemma view_step:
  assumes "sync_ok ks" "lock_view ks' = lock_view ks" "ks_ok ks \<Longrightarrow> ks_ok ks'"
  shows "sync_ok ks' \<and> objects ks' = objects ks"
  using assms sync_ok_parts(1) [OF assms(1)] sync_ok_view objects_view by blast

lemma sched_step_ok: "sched_step ks ks' \<Longrightarrow> sync_ok ks \<Longrightarrow> sync_ok ks' \<and> objects ks' = objects ks"
proof (induction rule: sched_step.induct)
  case (create ks t th virt_core type prio owner)
  have "unlocked (thread_Initialize type prio virt_core owner th)"
    using create(8) by (simp add: unlocked_def thread_Initialize_def Let_def)
  from created_waits [OF sync_ok_parts(2) [OF create(9)] create(6,7) this refl] show ?case
    using create_ok [OF sync_ok_parts(1) [OF create(9)] create(1-5)] by (simp add: sync_ok_def)
next
  case (base_priority cur t v ks ks')
  then show ?case using SetBasePriority_ok [OF sync_ok_parts(3)] restored_sync by (metis option.inject)
next
  case (increase_priority cur t v ks ks')
  then show ?case using SetBasePriority_ok [OF sync_ok_parts(3)] restored_sync
    unfolding IncreaseBasePriority_def SetBasePriority_def by (metis option.inject)
next
  case (signal_to_address p cur addr ks r ks')
  then show ?case using SignalToAddress_sync by (metis Pair_inject option.inject)
next
  case (wait_condvar ks cur p tr addr key tag timeout res ks')
  then show ?case using Wait_sync by (metis Pair_inject option.inject)
next
  case (cancel_condvar ks t tr cur r ks')
  then have "\<And>x. th_condvar_tree (ks_threads ks t) = Some x \<Longrightarrow> x = tr" by auto
  then show ?case using cancel_condvar condvar_CancelWait_sync by (metis option.inject)
next
  case (cancel_arbiter ks t tr r)
  then have "\<And>x. th_condvar_tree (ks_threads ks t) = Some x \<Longrightarrow> x = tr" by auto
  then show ?case using cancel_arbiter arbiter_CancelWait_sync by blast
next
  case (rotate c cur p ks ks')
  then show ?case using ks_ok_returned [where f = "RotateScheduledQueue cur c p"] RotateScheduledQueue_ok
    by (intro view_step lock_view_rotate) blast+
next
  case (preempt cur ks ks')
  then show ?case using ks_ok_returned [where f = "PreemptThreads cur"] PreemptThreads_ok
    by (intro view_step lock_view_preempt) blast+
next
  case (yield_stay ks cur)
  have "ks_ok (YieldWithoutCoreMigration cur ks)" if "ks_ok ks"
    using that YieldWithoutCoreMigration_ok [OF _ yield_stay(1,2)] unfolding ks_ok_def by blast
  then show ?case using yield_stay by (intro view_step lock_view_yields(1))
next
  case (yield_migrate ks cur ks')
  then show ?case using ks_ok_returned [where f = "YieldWithCoreMigration cur"] YieldWithCoreMigration_ok
    by (intro view_step lock_view_yields(2)) blast+
next
  case (yield_any ks cur ks')
  then show ?case using ks_ok_returned [where f = "YieldToAnyThread cur"] YieldToAnyThread_ok
    by (intro view_step lock_view_yields(3)) blast+
next
  case (core_mask v core_id t ks res ks')
  then show ?case using SetCoreMask_ok by (intro view_step lock_view_SetCoreMask) blast+
next
  case (update now cur ks m ks')
  then show ?case using UpdateHighestPriorityThreads_ks_ok by (intro view_step lock_view_update(2)) blast+
next
  case (unlock now cur ks r ks')
  then show ?case using Scheduler_Unlock_ok by (intro view_step lock_view_unlock) blast+
next
  case (switch ks now c cur nxt)
  then show ?case using same_view_ks [OF same_view_switch] by (intro view_step) simp_all
next
  case (lock ks cur)
  then show ?case using same_view_ks [OF same_view_lock] by (intro view_step) simp_all
next
  case (clear_previous ks t)
  then show ?case using same_view_ks [OF same_view_clear_previous] by (intro view_step) simp_all
next
  case (pin ks cur c p)
  then show ?case by (intro view_step PinCurrentThread_ok) simp_all
next
  case (unpin_current ks cur c p)
  then show ?case by (intro view_step UnpinCurrentThread_ok) simp_all
next
  case (unpin ks t c p)
  then show ?case by (intro view_step UnpinThread_ok) simp_all
next
  case (state ks t s)
  then show ?case by (intro view_step SetState_ok) simp_all
next
  case (update_state ks t)
  then show ?case by (intro view_step UpdateState_ok) simp_all
next
  case (continue ks t)
  then show ?case by (intro view_step Continue_thread_ok) simp_all
next
  case (suspend ks type t)
  then show ?case by (intro view_step RequestSuspend_ok) simp_all
next
  case (resume ks type t)
  then show ?case by (intro view_step Resume_ok) simp_all
next
  case (activity ks paused t)
  then show ?case by (intro view_step SetActivity_ok) simp_all
next
  case (end_wait ks r t)
  then show ?case by (intro view_step EndWait_ok) simp_all
next
  case (wait_for_address ks cur p thread_of handle addr tag res ks')
  then show ?case using WaitForAddress_sync [OF wait_for_address(3,1,2)] by simp
next
  case (cancel_lock cur r t ks ks')
  then show ?case using lock_CancelWait_sync [OF cancel_lock(2,1)] by simp
next
  case (signal_condvar p cur thread_of tr key count ks ks')
  then show ?case by (intro Signal_sync(2))
qed (simp_all add: arbiter_signals_sync arbiter_waits_sync sync_ok_quiet(4))

lemma sched_reach_sync: "sched_reach ks \<Longrightarrow> sync_ok ks"
  by (induction rule: sched_reach.induct) (auto simp: initial_ok sched_step_ok)

lemma sched_reach_ok: "sched_reach ks \<Longrightarrow> ks_ok ks"
  by (rule sync_ok_parts(1) [OF sched_reach_sync])


section \<open>What the scheduler promises\<close>

definition runs_on :: "kernel \<Rightarrow> nat \<Rightarrow> nat \<Rightarrow> bool" where
  "runs_on ks c t \<longleftrightarrow>
     th_thread_state (ks_threads ks t) = Runnable \<and> \<not> IsDummyThread (ks_threads ks t) \<and>
     th_priority (ks_threads ks t) \<le> LowestPriority \<and> th_core_id (ks_threads ks t) = int c"

definition may_run_on :: "kernel \<Rightarrow> nat \<Rightarrow> nat \<Rightarrow> bool" where
  "may_run_on ks c t \<longleftrightarrow>
     th_thread_state (ks_threads ks t) = Runnable \<and> \<not> IsDummyThread (ks_threads ks t) \<and>
     th_priority (ks_threads ks t) \<le> LowestPriority \<and> GetAffinity c (th_physical_affinity_mask (ks_threads ks t))"

lemma runs_on_queued:
  assumes "kernel_ok Q ks"
  shows "runs_on ks c t \<longleftrightarrow> t \<in> set (by_priority Q True c)"
proof -
  have tk: "thread_ok (ks_threads ks t)" using assms by (simp add: kernel_defs sched_ok_def)
  have "th_core_id (ks_threads ks t) = int c \<Longrightarrow> bit (th_physical_affinity_mask (ks_threads ks t)) c"
    using tk by (simp add: thread_ok_def)
  then show ?thesis by (auto simp: queued_iff [OF assms] runs_on_def priority_of_def)
qed

lemma may_run_on_queued:
  assumes "kernel_ok Q ks"
  shows "may_run_on ks c t \<longleftrightarrow> t \<in> set (by_priority Q True c) \<union> set (by_priority Q False c)"
  by (auto simp: queued_iff [OF assms] may_run_on_def priority_of_def GetAffinity_bit)

lemma front_is_best:
  assumes ok: "kernel_ok Q ks"
  shows "front_or (by_priority Q True c) None = None \<Longrightarrow> \<not> runs_on ks c u"
    "front_or (by_priority Q True c) None = Some t \<Longrightarrow>
      runs_on ks c t \<and> (\<forall>u. runs_on ks c u \<longrightarrow> th_priority (ks_threads ks t) \<le> th_priority (ks_threads ks u))"
proof -
  show "front_or (by_priority Q True c) None = None \<Longrightarrow> \<not> runs_on ks c u" by (simp add: runs_on_queued [OF ok])
  assume "front_or (by_priority Q True c) None = Some t"
  then obtain ts where ts: "by_priority Q True c = t # ts" by (cases "by_priority Q True c") simp_all
  have "sched_ok (ks_threads ks) Q (ks_priority_queue ks)" using ok by (simp add: kernel_defs)
  from sorted_by_priority [OF this, of True c] ts
  show "runs_on ks c t \<and> (\<forall>u. runs_on ks c u \<longrightarrow> th_priority (ks_threads ks t) \<le> th_priority (ks_threads ks u))"
    by (auto simp: runs_on_queued [OF ok])
qed

text \<open>
  C3. In every reachable state the scheduled queue of a core offers the right thread: when it offers none, no
  runnable thread has this core as its active core, and the thread it offers is runnable on the core
  and no runnable thread on the core has a higher priority (a smaller number).\<close>
theorem reachable_front_is_best:
  assumes "sched_reach ks" "c < NumCores"
  shows "case GetScheduledFront c (ks_priority_queue ks) of
      None \<Rightarrow> \<forall>u. \<not> runs_on ks c u
    | Some t \<Rightarrow> runs_on ks c t \<and> (\<forall>u. runs_on ks c u \<longrightarrow> th_priority (ks_threads ks t) \<le> th_priority (ks_threads ks u))"
proof -
  obtain Q where ok: "kernel_ok Q ks" using sched_reach_ok [OF assms(1)] by (auto simp: ks_ok_def)
  then have "sched_ok (ks_threads ks) Q (ks_priority_queue ks)" by (simp add: kernel_defs)
  note front = sched_front(1) [OF this assms(2)]
  show ?thesis unfolding front using front_is_best [OF ok, of c]
    by (cases "front_or (by_priority Q True c) None") (simp_all del: front_or_None)
qed

lemma update_chosen:
  assumes "sched_reach ks"
  shows "\<exists>m ks' Q. UpdateHighestPriorityThreadsImpl now cur ks = Some (m, ks') \<and> chosen ks Q m ks'"
proof -
  obtain Q where "kernel_ok Q ks" using sched_reach_ok [OF assms] by (auto simp: ks_ok_def)
  from UpdateHighestPriorityThreadsImpl_ok [OF this] show ?thesis by blast
qed

lemma chosen_once:
  assumes ch: "chosen ks Q m ks'" and c: "c < NumCores" "d < NumCores" and h: "highest ks' c = Some t" "highest ks' d = Some t"
  shows "c = d"
proof (rule ccontr)
  assume ne: "c \<noteq> d"
  have tk: "thread_ok (ks_threads ks' t)" using ch by (simp add: chosen_def kernel_defs sched_ok_def)
  let ?core = "th_core_id (ks_threads ks' t)" and ?m = "th_physical_affinity_mask (ks_threads ks' t)"
  have a: "?core = int c \<or> ?m = GetCoreBit c" "?core = int d \<or> ?m = GetCoreBit d" using ch c h by (auto simp: chosen_def)
  have b: "?core = int x \<Longrightarrow> bit ?m x" for x using tk by (simp add: thread_ok_def)
  have "bit ?m c" using a(1) b [of c] GetCoreBit_bit [OF c(1), of c] by auto
  moreover have "bit ?m d" using a(2) b [of d] GetCoreBit_bit [OF c(2), of d] by auto
  ultimately show False using a ne GetCoreBit_bit [OF c(1), of d] GetCoreBit_bit [OF c(2), of c] by auto
qed

text \<open>
  C4. Choosing the threads to run ends, gives no thread to two cores, and gives cores only runnable
  threads.\<close>
theorem update_one_core_each:
  assumes "sched_reach ks"
  shows "\<exists>m ks'. UpdateHighestPriorityThreadsImpl now cur ks = Some (m, ks') \<and>
    (\<forall>c<NumCores. \<forall>d<NumCores. \<forall>t.
       sc_highest_priority_thread (ks_schedulers ks' c) = Some t \<longrightarrow>
       th_thread_state (ks_threads ks' t) = Runnable \<and>
       (sc_highest_priority_thread (ks_schedulers ks' d) = Some t \<longrightarrow> c = d))"
proof -
  obtain m ks' Q where u: "UpdateHighestPriorityThreadsImpl now cur ks = Some (m, ks')" "chosen ks Q m ks'"
    using update_chosen [OF assms] by blast
  have "th_thread_state (ks_threads ks' t) = Runnable" if "c < NumCores" "highest ks' c = Some t" for c t
    using u(2) that by (simp add: chosen_def)
  then show ?thesis using u chosen_once [OF u(2)] by (auto simp: highest_def)
qed

text \<open>
  C13. When no thread is pinned, choosing the threads to run gives every core a runnable thread of the
  highest priority among those that have it as their active core, migrations included, and nothing
  only when there is none.\<close>
theorem update_gives_best:
  assumes "sched_reach ks" "no_pins ks" "c < NumCores"
    "UpdateHighestPriorityThreadsImpl now cur ks = Some (m, ks')"
  shows "case sc_highest_priority_thread (ks_schedulers ks' c) of
      None \<Rightarrow> \<forall>u. \<not> runs_on ks' c u
    | Some t \<Rightarrow> runs_on ks' c t \<and> (\<forall>u. runs_on ks' c u \<longrightarrow> th_priority (ks_threads ks' t) \<le> th_priority (ks_threads ks' u))"
proof -
  obtain Q where ch: "chosen ks Q m ks'" using update_chosen [OF assms(1), of now cur] assms(4) by auto
  then have "highest ks' c = front_or (by_priority Q True c) None" "kernel_ok Q ks'" using assms(2,3) by (simp_all add: chosen_def)
  with front_is_best [of Q ks' c] show ?thesis by (cases "highest ks' c") (simp_all add: highest_def)
qed

text \<open>
  C14. No core idles while a thread waits for it. When no thread is pinned and no runnable thread has a
  priority above the limit for migrations, then, after the threads have been chosen, every runnable
  thread that may run on a core without a thread has been given another core.\<close>
theorem update_leaves_no_core_idle:
  assumes "sched_reach ks" "no_pins ks"
    "\<forall>t. th_thread_state (ks_threads ks t) = Runnable \<longrightarrow> HighestCoreMigrationAllowedPriority \<le> th_priority (ks_threads ks t)"
    "UpdateHighestPriorityThreadsImpl now cur ks = Some (m, ks')"
    "c < NumCores" "sc_highest_priority_thread (ks_schedulers ks' c) = None" "may_run_on ks' c t"
  shows "\<exists>d<NumCores. sc_highest_priority_thread (ks_schedulers ks' d) = Some t"
proof -
  obtain Q where ch: "chosen ks Q m ks'" using update_chosen [OF assms(1), of now cur] assms(4) by auto
  have low: "low ks" using assms(3) by (simp add: low_def priority_of_def)
  have h: "\<And>d. d < NumCores \<Longrightarrow> highest ks' d = front_or (by_priority Q True d) None" and ok: "kernel_ok Q ks'"
    using ch assms(2) by (simp_all add: chosen_def)
  have "by_priority Q True c = []" using h [OF assms(5)] assms(6) by (metis front_or_None highest_def)
  then have "t \<in> set (by_priority Q False c)" using assms(7) by (simp add: may_run_on_queued [OF ok])
  then obtain d where "d < NumCores" "by_priority Q True d = [t]"
    using ch assms(2,5,6) low unfolding chosen_def highest_def by blast
  then show ?thesis using h [of d] by (auto simp: highest_def)
qed

text \<open>
  A core whose thread changes is in the set of cores to reschedule, and knows that it needs to.\<close>
theorem update_notes_changes:
  assumes "sched_reach ks" "UpdateHighestPriorityThreadsImpl now cur ks = Some (m, ks')" "c < NumCores"
    "sc_highest_priority_thread (ks_schedulers ks' c) \<noteq> sc_highest_priority_thread (ks_schedulers ks c)"
  shows "GetAffinity c m \<and> sc_needs_scheduling (ks_schedulers ks' c)"
proof -
  obtain Q where "chosen ks Q m ks'" using update_chosen [OF assms(1), of now cur] assms(2) by auto
  then show ?thesis using assms(3,4) by (simp add: chosen_def highest_def GetAffinity_bit)
qed

text \<open>
  C40. The walks over the queues end. In every reachable state, and whatever thread is the current one,
  the dummy thread of a host thread that handles the timer included, rotating a queue, preempting and
  choosing the threads to run return. So do the two yields that walk over a queue, for a thread that
  is no dummy and has an active core, as every guest thread that runs.\<close>
theorem scheduler_returns:
  assumes "sched_reach ks"
  shows "(c < NumCores \<longrightarrow> (\<exists>a. RotateScheduledQueue cur c p ks = Some a)) \<and> (\<exists>b. PreemptThreads cur ks = Some b) \<and>
    (\<exists>z. UpdateHighestPriorityThreads now cur ks = Some z) \<and>
    (\<not> IsDummyThread (ks_threads ks cur) \<longrightarrow> 0 \<le> th_core_id (ks_threads ks cur) \<longrightarrow>
       (\<exists>x. YieldWithCoreMigration cur ks = Some x) \<and> (\<exists>y. YieldToAnyThread cur ks = Some y))"
proof -
  obtain Q where ok: "kernel_ok Q ks" using sched_reach_ok [OF assms] by (auto simp: ks_ok_def)
  have "\<exists>z. UpdateHighestPriorityThreads now cur ks = Some z"
    using update_chosen [OF assms, of now cur] by (auto simp: UpdateHighestPriorityThreads_def)
  moreover have "\<exists>a. RotateScheduledQueue cur c p ks = Some a" if "c < NumCores" using RotateScheduledQueue_ok [OF ok that] by metis
  moreover have "\<exists>b. PreemptThreads cur ks = Some b" using PreemptThreads_ok [OF ok] by metis
  moreover have "(\<exists>x. YieldWithCoreMigration cur ks = Some x) \<and> (\<exists>y. YieldToAnyThread cur ks = Some y)"
    if "\<not> IsDummyThread (ks_threads ks cur)" "0 \<le> th_core_id (ks_threads ks cur)"
    using YieldWithCoreMigration_ok [OF ok that] YieldToAnyThread_ok [OF ok that] by metis
  ultimately show ?thesis by blast
qed


section \<open>Examples\<close>

text \<open>
  A kernel whose threads are created for core 0 and not started; then thread 1 is allowed on the
  cores 0 and 1 and started, and the threads to run are chosen.
\<close>

definition new_thread :: KThread where
  "new_thread = thread_Initialize UserThread 44 0 None
     \<lparr>th_thread_type = UserThread, th_priority = 0, th_base_priority = 0, th_core_id = 0, th_current_core_id = 0,
      th_virtual_ideal_core_id = 0, th_virtual_affinity_mask = 0, th_physical_ideal_core_id = 0, th_physical_affinity_mask = 0,
      th_original_physical_ideal_core_id = 0, th_original_physical_affinity_mask = 0, th_num_core_migration_disables = 0,
      th_is_pinned = False, th_thread_state = 0, th_suspend_request_flags = 0, th_suspend_allowed_flags = 0,
      th_termination_requested = False, th_num_kernel_waiters = 0, th_last_scheduled_tick = 0, th_schedule_count = 0,
      th_cpu_time = 0, th_parent = None, th_dummy_thread_runnable = True, th_disable_count = 0, th_pinned_waiter_list = [],
      th_held_lock_info_list = [], th_waiting_lock_info = None, th_address_key = 0, th_address_key_value = 0,
      th_is_kernel_address_key = False, th_condvar_tree = None, th_condvar_key = 0, th_wait_result = ResultSuccess\<rparr>"

definition boot :: kernel where
  "boot =
     \<lparr>ks_threads = (\<lambda>_. new_thread),
      ks_processes = (\<lambda>_. \<lparr>pr_schedule_count = 0, pr_cpu_time = 0, pr_pinned_threads = (\<lambda>_. None), pr_running_threads = (\<lambda>_. None),
         pr_running_thread_idle_counts = (\<lambda>_. 0), pr_running_thread_switch_counts = (\<lambda>_. 0)\<rparr>),
      ks_schedulers = (\<lambda>c. \<lparr>sc_needs_scheduling = False, sc_interrupt_task_runnable = False, sc_should_count_idle = False,
         sc_idle_count = 0, sc_highest_priority_thread = None, sc_prev_thread = None, sc_core_id = c,
         sc_last_context_switch_time = 0, sc_idle_thread = 0, sc_current_thread = 0\<rparr>),
      ks_priority_queue = new_KPriorityQueue, ks_scheduler_update_needed = False, ks_woken_dummy_threads = [],
      ks_thread_list = [], ks_lock_count = 0, ks_owner_thread = None,
      ks_lock_infos = (\<lambda>_. \<lparr>li_tree = [], li_address_key = 0, li_owner = None, li_waiter_count = 0, li_is_kernel_address_key = False\<rparr>),
      ks_free_lock_infos = [0..<8], ks_trees = (\<lambda>_. []), ks_user_memory = (\<lambda>_ _. 0)\<rparr>"

definition started :: kernel where
  "started = SetState 1 Runnable (snd (the (SetCoreMask 0 3 1 boot)))"

definition running :: kernel where
  "running = snd (the (UpdateHighestPriorityThreadsImpl 0 2 started))"

lemma new_thread_fields:
  "th_thread_state new_thread = 0" "th_core_id new_thread = 0" "th_physical_affinity_mask new_thread = GetCoreBit 0"
  "th_physical_ideal_core_id new_thread = 0" "th_num_core_migration_disables new_thread = 0"
  by (simp_all add: new_thread_def thread_Initialize_def Let_def VirtualToPhysicalCoreMap_def SetAffinity_def)

lemma initial_boot: "initial boot"
proof -
  have c: "0 < NumCores" by (simp add: NumCores_def)
  have "thread_ok new_thread" using thread_ok_one_core [OF c] new_thread_fields by simp
  moreover have "masks_ok (pin_view new_thread)"
    using mask_wf_one_core [OF c] new_thread_fields by (simp add: masks_ok_def pin_view_def)
  moreover have "unlocked new_thread" by (simp add: unlocked_def new_thread_def thread_Initialize_def Let_def)
  ultimately show ?thesis using new_thread_fields by (simp add: initial_def boot_def no_pins_def)
qed

lemma mask_boot: "fst (the (SetCoreMask 0 3 1 boot)) = ResultSuccess" "SetCoreMask 0 3 1 boot \<noteq> None"
  by code_simp+

lemma mask_boot_result: "SetCoreMask 0 3 1 boot = Some (ResultSuccess, snd (the (SetCoreMask 0 3 1 boot)))"
  using mask_boot by (cases "SetCoreMask 0 3 1 boot") auto

lemma reach_started: "sched_reach started"
proof -
  from mask_boot_result have "sched_step boot (snd (the (SetCoreMask 0 3 1 boot)))"
    by (intro sched_step.core_mask [where v = 3 and core_id = 0]) auto
  then show ?thesis unfolding started_def
    by (meson initial_boot sched_reach.start sched_reach.step sched_step.state)
qed

lemma started_front: "GetScheduledFront 0 (ks_priority_queue started) = Some 1"
  by code_simp

lemma started_update: "UpdateHighestPriorityThreadsImpl 0 2 started = Some (fst (the (UpdateHighestPriorityThreadsImpl 0 2 started)), running)"
  using update_chosen [OF reach_started, of 0 2] unfolding running_def by (metis option.sel fst_conv snd_conv)

lemma running_evaluated:
  "sc_highest_priority_thread (ks_schedulers started 0) = None"
  "sc_highest_priority_thread (ks_schedulers running 0) = Some 1"
  "sc_highest_priority_thread (ks_schedulers running 1) = None"
  "may_run_on running 1 1"
  "fst (the (UpdateHighestPriorityThreadsImpl 0 2 started)) = 1"
  by code_simp+

lemma IncrementScheduledCount_frame:
  "ks_threads (IncrementScheduledCount t ks) = ks_threads ks"
  "pr_pinned_threads (ks_processes (IncrementScheduledCount t ks) p) = pr_pinned_threads (ks_processes ks p)"
  by (auto simp: IncrementScheduledCount_def upd_process_def split: option.split)

lemma SetState_frame:
  "th_priority (ks_threads (SetState t s ks) u) = th_priority (ks_threads ks u)"
  "pr_pinned_threads (ks_processes (SetState t s ks) p) = pr_pinned_threads (ks_processes ks p)"
  by (auto simp: SetState_def OnThreadStateChanged_def Let_def SetSchedulerUpdateNeeded_def IncrementScheduledCount_frame upd_thread_def
      UnregisterDummyThreadForWakeup_def RegisterDummyThreadForWakeup_def)

lemma SetCoreMask_frame:
  assumes "SetCoreMask core v t ks = Some (r, ks')"
  shows "th_priority (ks_threads ks' u) = th_priority (ks_threads ks u)"
    "pr_pinned_threads (ks_processes ks' p) = pr_pinned_threads (ks_processes ks p)"
  using assms by (auto simp: SetCoreMask_def OnThreadAffinityMaskChanged_def Let_def SetSchedulerUpdateNeeded_def
      IncrementScheduledCount_frame upd_thread_def split: if_splits)

lemma started_state:
  "no_pins started"
  "th_priority (ks_threads started t) = 44"
proof -
  have "th_priority (ks_threads boot t) = 44" "no_pins boot"
    by (simp_all add: boot_def no_pins_def new_thread_def thread_Initialize_def Let_def)
  then show "no_pins started" "th_priority (ks_threads started t) = 44"
    using SetCoreMask_frame [OF mask_boot_result] by (simp_all add: started_def SetState_frame no_pins_def)
qed

theorem reachable_front_is_best_witness:
  "GetScheduledFront 0 (ks_priority_queue started) = Some 1 \<and> runs_on started 0 1"
  using reachable_front_is_best [OF reach_started, of 0] started_front by (simp add: NumCores_def)

theorem update_one_core_each_witness:
  "\<exists>m ks'. UpdateHighestPriorityThreadsImpl 0 2 started = Some (m, ks') \<and>
     sc_highest_priority_thread (ks_schedulers ks' 0) = Some 1 \<and>
     th_thread_state (ks_threads ks' 1) = Runnable \<and> sc_highest_priority_thread (ks_schedulers ks' 1) \<noteq> Some 1"
proof -
  have n: "0 < NumCores" "1 < NumCores" by (simp_all add: NumCores_def)
  obtain m ks' where u: "UpdateHighestPriorityThreadsImpl 0 2 started = Some (m, ks')"
    and all: "\<And>c d t. c < NumCores \<Longrightarrow> d < NumCores \<Longrightarrow> sc_highest_priority_thread (ks_schedulers ks' c) = Some t \<Longrightarrow>
       th_thread_state (ks_threads ks' t) = Runnable \<and> (sc_highest_priority_thread (ks_schedulers ks' d) = Some t \<longrightarrow> c = d)"
    using update_one_core_each [OF reach_started, of 0 2] by blast
  have "ks' = running" using u started_update by simp
  then show ?thesis using u all [OF n, of 1] running_evaluated(2) by auto
qed

theorem update_gives_best_witness:
  "sc_highest_priority_thread (ks_schedulers running 0) = Some 1 \<and> runs_on running 0 1"
  using update_gives_best [OF reach_started started_state(1) _ started_update, of 0] running_evaluated(2)
  by (simp add: NumCores_def)

theorem update_leaves_no_core_idle_witness:
  "may_run_on running 1 1 \<and> (\<exists>d. d < NumCores \<and> sc_highest_priority_thread (ks_schedulers running d) = Some 1)"
  using update_leaves_no_core_idle [OF reach_started started_state(1) _ started_update _ running_evaluated(3,4)]
    running_evaluated(4)
  by (simp add: NumCores_def started_state(2) HighestCoreMigrationAllowedPriority_def)

theorem update_notes_changes_witness:
  "GetAffinity 0 (fst (the (UpdateHighestPriorityThreadsImpl 0 2 started))) \<and> sc_needs_scheduling (ks_schedulers running 0)"
  using update_notes_changes [OF reach_started started_update, of 0] running_evaluated(1,2) by (simp add: NumCores_def)

theorem scheduler_returns_witness:
  "\<exists>a b x y z. RotateScheduledQueue 1 0 44 started = Some a \<and> PreemptThreads 1 started = Some b \<and>
    YieldWithCoreMigration 1 started = Some x \<and> YieldToAnyThread 1 started = Some y \<and>
    UpdateHighestPriorityThreads 0 1 started = Some z"
proof -
  have "\<not> IsDummyThread (ks_threads started 1)" "0 \<le> th_core_id (ks_threads started 1)" by code_simp+
  with scheduler_returns [OF reach_started, of 0 1 44 0] show ?thesis by (simp add: NumCores_def)
qed

end
