(* ===== verification/Synchronization.thy ===== *)
theory Synchronization
  imports Scheduler_Steps
begin

text \<open>
  What locks, condition variables and address arbiters promise in every state the kernel reaches:
  priorities are inherited, no thread is linked in two trees, locks are handed to the most urgent
  waiter, signals wake the most urgent threads, and no operation fails to return.
\<close>

section \<open>Priority inheritance\<close>

lemma inherited_priority_Min:
  assumes "locks_ok ks"
  shows "inherited_priority t ks = Min (insert (th_base_priority (ks_threads ks t)) {th_priority (ks_threads ks u) |u. GetLockOwner u ks = Some t})"
proof (rule eq_by_le)
  fix n
  have "{u. GetLockOwner u ks = Some t} \<subseteq> waiters ks" by (auto simp: waiters_def)
  then have "finite {u. GetLockOwner u ks = Some t}" using finite_waiters [OF assms] by (rule finite_subset)
  then have "finite {th_priority (ks_threads ks u) |u. GetLockOwner u ks = Some t}" by simp
  then show "n \<le> inherited_priority t ks \<longleftrightarrow>
      n \<le> Min (insert (th_base_priority (ks_threads ks t)) {th_priority (ks_threads ks u) |u. GetLockOwner u ks = Some t})"
    by (auto simp: le_inherited_priority [OF assms] priority_of_def)
qed

text \<open>
  C2. In every reachable state, every thread runs at the highest priority (the smallest number) among its
  own base priority and the priorities of the threads that wait for a lock it holds.\<close>
theorem reachable_priority_inherited:
  assumes "sched_reach ks"
  shows "th_priority (ks_threads ks t) =
    Min (insert (th_base_priority (ks_threads ks t)) {th_priority (ks_threads ks u) |u. GetLockOwner u ks = Some t})"
proof -
  note ok = sched_reach_sync [OF assms]
  show ?thesis using locks_inherit_priority(1) [OF sync_ok_parts(3) [OF ok], of t] inherited_priority_Min [OF sync_ok_parts(5) [OF ok]]
    by (simp add: priority_of_def)
qed

text \<open>
  C16. The trees of locks and those of condition variables and arbiters link threads through the same
  node. In every reachable state a thread is linked in at most one of them, and only once: no tree of
  either kind has a thread twice, a thread is in at most one tree of a condition variable or arbiter,
  a thread in the tree of a held lock is in none of those, and it is in the tree of no other lock.\<close>
theorem reachable_one_tree:
  assumes "sched_reach ks"
  shows "(\<forall>tr. distinct (ks_trees ks tr)) \<and>
    (\<forall>u tr tr'. u \<in> set (ks_trees ks tr) \<longrightarrow> u \<in> set (ks_trees ks tr') \<longrightarrow> tr' = tr) \<and>
    (\<forall>t l. l \<in> set (th_held_lock_info_list (ks_threads ks t)) \<longrightarrow>
       distinct (li_tree (ks_lock_infos ks l)) \<and>
       (\<forall>u\<in>set (li_tree (ks_lock_infos ks l)).
          (\<forall>tr. u \<notin> set (ks_trees ks tr)) \<and>
          (\<forall>t' l'. l' \<in> set (th_held_lock_info_list (ks_threads ks t')) \<longrightarrow> u \<in> set (li_tree (ks_lock_infos ks l')) \<longrightarrow>
             l' = l \<and> t' = t)))"
proof -
  note ok = sched_reach_sync [OF assms]
  note inv = locks_ok_inv(1) [OF sync_ok_parts(5) [OF ok]] and tr = sync_ok_parts(4) [OF ok]
  have "distinct (li_tree (ks_lock_infos ks l))"
    "u \<in> set (li_tree (ks_lock_infos ks l)) \<Longrightarrow> u \<notin> set (ks_trees ks x)"
    "u \<in> set (li_tree (ks_lock_infos ks l)) \<Longrightarrow> l' \<in> set (held ks t') \<Longrightarrow> u \<in> set (li_tree (ks_lock_infos ks l')) \<Longrightarrow> l' = l \<and> t' = t"
    if l: "l \<in> set (held ks t)" for t l u x t' l'
  proof -
    note h = lock_inv_held [OF inv l]
    show "distinct (li_tree (ks_lock_infos ks l))" by (rule h(4))
    assume "u \<in> set (li_tree (ks_lock_infos ks l))"
    then have w: "waiting ks u = Some l" using h(7) by auto
    then have "GetLockOwner u ks = Some t" using l owner_waiting(2) [OF sync_ok_parts(5) [OF ok]] by blast
    then have "th_condvar_tree (ks_threads ks u) = None" using sync_ok_parts(6) [OF ok, of u] by (metis option.distinct(1))
    then show "u \<notin> set (ks_trees ks x)" by (simp add: in_tree [OF tr])
    show "l' = l \<and> t' = t" if "l' \<in> set (held ks t')" "u \<in> set (li_tree (ks_lock_infos ks l'))"
      using that w lock_inv_held(1,7) [OF inv that(1)] h(1) by auto
  qed
  note locks = this [unfolded held_def]
  have "distinct (ks_trees ks x)" for x using tr by (simp add: trees_ok_def)
  moreover have "y = x" if "u \<in> set (ks_trees ks x)" "u \<in> set (ks_trees ks y)" for u x y
    using that by (simp add: in_tree [OF tr])
  ultimately show ?thesis using locks by (intro conjI allI impI ballI) (assumption | blast)+
qed

section \<open>Handing a lock over\<close>

lemma EndWait_thread:
  "GetState (ks_threads ks t) = Waiting_State \<Longrightarrow> GetState (ks_threads (EndWait ResultSuccess t ks) t) = Runnable \<and>
     th_wait_result (ks_threads (EndWait ResultSuccess t ks) t) = ResultSuccess"
  "ks_user_memory (EndWait ResultSuccess t ks) = ks_user_memory ks"
proof -
  have "GetState (ks_threads (leave tr t x) t) = GetState (ks_threads x t)"
    "th_wait_result (ks_threads (leave tr t x) t) = th_wait_result (ks_threads x t)" "ks_user_memory (leave tr t x) = ks_user_memory x" for tr x
    by (simp_all add: leave_def ClearConditionVariable_def tree_erase_def upd_thread_def GetState_def)
  then show "GetState (ks_threads ks t) = Waiting_State \<Longrightarrow> GetState (ks_threads (EndWait ResultSuccess t ks) t) = Runnable \<and>
     th_wait_result (ks_threads (EndWait ResultSuccess t ks) t) = ResultSuccess"
    "ks_user_memory (EndWait ResultSuccess t ks) = ks_user_memory ks"
    using wake_one_thread(2) [of ks t] wake_one_frame(4) [of _ t ks] by (simp_all add: wake_one_def)
qed

text \<open>
  C5. Releasing a lock returns, in every reachable state. When nobody waits at the address, its word is
  cleared and nothing else changes. Otherwise the lock goes to a waiter of the highest priority: it no
  longer waits and becomes runnable with success, the others now wait for it, and the word of the lock
  holds its tag, with the bit for waiters exactly when there are others.\<close>
theorem SignalToAddress_hands_over:
  assumes "sched_reach ks"
  shows "\<exists>ks'. SignalToAddress p cur addr ks = Some (ResultSuccess, ks') \<and>
    (case FindHeldLock cur addr False ks of
       None \<Rightarrow> ks' = WriteToUser p addr 0 ks
     | Some l \<Rightarrow>
         \<exists>n. th_waiting_lock_info (ks_threads ks n) = Some l \<and>
           (\<forall>u. th_waiting_lock_info (ks_threads ks u) = Some l \<longrightarrow> th_priority (ks_threads ks n) \<le> th_priority (ks_threads ks u)) \<and>
           GetLockOwner n ks' = None \<and>
           (\<forall>u. u \<noteq> n \<longrightarrow> GetLockOwner u ks' =
              (if th_waiting_lock_info (ks_threads ks u) = Some l then Some n else GetLockOwner u ks)) \<and>
           ReadFromUser p addr ks' =
             (if \<exists>u. u \<noteq> n \<and> th_waiting_lock_info (ks_threads ks u) = Some l
              then th_address_key_value (ks_threads ks n) OR HandleWaitMask else th_address_key_value (ks_threads ks n)) \<and>
           (GetState (ks_threads ks n) = Waiting_State \<longrightarrow>
              GetState (ks_threads ks' n) = Runnable \<and> th_wait_result (ks_threads ks' n) = ResultSuccess))"
proof (cases "FindHeldLock cur addr False ks")
  case None
  then show ?thesis by (simp add: SignalToAddress_def RemoveWaiterByKey_none next_tag_def)
next
  case (Some l)
  note ok = sched_reach_sync [OF assms]
  note lk = sync_ok_parts(5) [OF ok]
  obtain n ns ks1 where tree: "li_tree (ks_lock_infos ks l) = n # ns"
    and r: "RemoveWaiterByKey cur cur addr False ks = Some (Some n, ns \<noteq> [], ks1)" "relocked (handed_over l n ks) ks ks1"
    by (rule RemoveWaiterByKey_ok [OF sync_ok_parts(3) [OF ok] Some, of cur])
  note h = lock_inv_held [OF locks_ok_inv(1) [OF lk] FindHeldLock_found(1) [OF Some]]
  have W: "waiting ks u = Some l \<longleftrightarrow> u \<in> set (n # ns)" for u using h(7) tree by auto
  have d: "n \<notin> set ns" using h(4) tree by simp
  have urgent: "priority_of ks n \<le> priority_of ks u" if "waiting ks u = Some l" for u
    using urgency.ordered_front [OF h(5) [unfolded tree]] that W by (metis not_less)
  have others: "(\<exists>u. u \<noteq> n \<and> waiting ks u = Some l) \<longleftrightarrow> ns \<noteq> []" unfolding W using d by (cases ns) auto
  note f = relocked_fields [OF r(2)]
  define ks2 where "ks2 = WriteToUser p addr (next_tag (Some n) (ns \<noteq> []) ks1) ks1"
  define ks' where "ks' = EndWait ResultSuccess n ks2"
  have run: "SignalToAddress p cur addr ks = Some (ResultSuccess, ks')" by (simp add: SignalToAddress_def r(1) ks'_def ks2_def)
  have "lock_view ks' = lock_view ks1" by (simp add: ks'_def ks2_def)
  note own = lock_view_fields(12) [OF this, unfolded f(4)]
  have mem: "ReadFromUser p addr ks' = next_tag (Some n) (ns \<noteq> []) ks1"
    by (simp add: ReadFromUser_def ks'_def EndWait_thread(2)) (simp add: ks2_def WriteToUser_def)
  have "GetState (ks_threads ks2 n) = GetState (ks_threads ks n)" using f(6) by (simp add: ks2_def GetState_def)
  then have woken: "GetState (ks_threads ks n) = Waiting_State \<longrightarrow> GetState (ks_threads ks' n) = Runnable \<and> th_wait_result (ks_threads ks' n) = ResultSuccess"
    using EndWait_thread(1) [of ks2 n] by (simp add: ks'_def)
  show ?thesis unfolding Some option.case waiting_def [symmetric] priority_of_def [symmetric]
    using run W [of n] urgent own mem woken others by (auto simp: handed_over_def next_tag_def f(5) Let_def intro!: exI [of _ n])
qed

section \<open>Nothing gets stuck\<close>

text \<open>
  C15. The operations on locks and condition variables return, in every reachable state in which there are
  at least as many lock objects as threads that may wait. In particular the walk that restores
  inherited priorities ends, whoever waits for whom, and the supply of lock objects does not run out;
  no step changes the set of the objects.\<close>
theorem waits_return:
  assumes "sched_reach ks" "finite T" "card T \<le> card (objects ks)" "\<forall>u. u \<notin> T \<longrightarrow> at_large ks u" "cur \<in> T" "at_large ks cur"
  shows "(\<exists>r ks'. WaitForAddress p cur thread_of handle addr tag ks = Some (r, ks')) \<and>
    (\<exists>r ks'. Wait p cur tr addr key tag timeout ks = Some (r, ks')) \<and>
    (\<exists>ks'. Signal p cur thread_of tr key count ks = Some ks') \<and>
    (\<exists>ks'. SetBasePriority cur t v ks = Some ks') \<and>
    (\<forall>ks'. sched_step ks ks' \<longrightarrow> objects ks' = objects ks)"
proof -
  note ok = sched_reach_sync [OF assms(1)]
  have T: "supplied T ks" using assms(2-4) by (simp add: supplied_def)
  have "\<exists>r ks'. Wait p cur tr addr key tag timeout ks = Some (r, ks')" using Wait_sync [OF ok assms(6)] by metis
  then show ?thesis
    using WaitForAddress_returns [OF ok assms(6) T assms(5)] Signal_sync(1) [OF ok T] SetBasePriority_ok [OF sync_ok_parts(3) [OF ok]]
      sched_step_ok [OF _ ok] by metis
qed

section \<open>Arbiters\<close>

text \<open>
  C17. Signalling an address wakes the most urgent ones of the threads that wait there, all of them when the
  count is not positive and at most that many otherwise. In every reachable state the woken threads
  leave the tree and, when they were waiting, become runnable with success; the tree keeps the others
  in order, and no other thread changes.\<close>
theorem arbiter_Signal_wakes_urgent:
  assumes "sched_reach ks" "ks' = snd (arbiter_Signal tr addr count ks)"
    "ws = filter (\<lambda>u. th_condvar_key (ks_threads ks u) = addr) (ks_trees ks tr)"
    "woke = (if count \<le> 0 then ws else take (nat count) ws)"
  shows "sorted_wrt (\<lambda>u v. th_priority (ks_threads ks u) \<le> th_priority (ks_threads ks v)) ws \<and>
    ks_trees ks' tr = filter (\<lambda>u. u \<notin> set woke) (ks_trees ks tr) \<and>
    (\<forall>u. if u \<in> set woke
         then th_condvar_tree (ks_threads ks' u) = None \<and>
           (GetState (ks_threads ks u) = Waiting_State \<longrightarrow>
              GetState (ks_threads ks' u) = Runnable \<and> th_wait_result (ks_threads ks' u) = ResultSuccess)
         else ks_threads ks' u = ks_threads ks u)"
proof -
  note ok = sched_reach_sync [OF assms(1)]
  have ws: "ws = waiting_at tr addr ks" and woke: "woke = woken tr addr count ks"
    using assms(3,4) by (simp_all add: waiting_at_def woken_def)
  have "ks' = wake_waiters tr addr count 0 (nfind_key tr addr ks) ks" using assms(2) by (simp add: arbiter_Signal_def)
  note w = arbiter_wake(3,4,6) [OF ok this, folded woke]
  show ?thesis using urgent_first [OF sync_ok_parts(4) [OF ok], of tr addr] w unfolding ws by auto
qed

text \<open>
  C18. Signalling an address and modifying its value by the number of waiters. When the word there does not
  hold the given value, the kernel stays as it is and the result says so. Otherwise the word becomes
  one more when nobody waits, two less when all are woken, one less when the count covers all who
  wait, and stays when it does not; then the most urgent ones are woken as by a plain signal.\<close>
theorem SignalAndModify_value:
  assumes "sched_reach ks" "n = length (filter (\<lambda>u. th_condvar_key (ks_threads ks u) = addr) (ks_trees ks tr))"
    "new = (if n = 0 then v + 1 else if count \<le> 0 then v - 2 else if int n \<le> count then v - 1 else v)"
  shows "SignalAndModifyByWaitingCountIfEqual p tr addr v count ks =
    (if sint (ReadFromUser p addr ks) \<noteq> v then (ResultInvalidState, ks)
     else (ResultSuccess, snd (arbiter_Signal tr addr count (WriteToUser p addr (word_of_int new) ks))))"
proof -
  have n: "n = length (waiting_at tr addr ks)" using assms(2) by (simp add: waiting_at_def)
  have new: "new_value_by_count tr addr v count ks = new"
    using new_value_by_count_eq [OF sync_ok_parts(4) [OF sched_reach_sync [OF assms(1)]]] assms(3) by (simp add: n Let_def)
  have same: "WriteToUser p addr (word_of_int (sint (ReadFromUser p addr ks))) ks = ks"
    by (simp add: WriteToUser_def ReadFromUser_def)
  show ?thesis
  proof (cases "new = v")
    case True
    then show ?thesis using same
      by (auto simp: SignalAndModifyByWaitingCountIfEqual_def new arbiter_Signal_def)
  next
    case False
    then show ?thesis
      by (auto simp: SignalAndModifyByWaitingCountIfEqual_def new arbiter_Signal_def UpdateIfEqual_def Let_def)
  qed
qed

section \<open>Examples\<close>

text \<open>
  A kernel whose threads have priorities from 40 down, such that higher numbers are more urgent. Thread 2
  waits for a lock whose word names thread 1 by the handle 5; and the threads 2 and 3 wait on an
  arbiter.
\<close>

definition by_handle :: "u32 \<Rightarrow> nat option" where
  "by_handle h = (if h = 5 then Some 1 else None)"

definition ranked_boot :: kernel where
  "ranked_boot = boot\<lparr>ks_threads := (\<lambda>t. new_thread\<lparr>th_priority := 40 - t, th_base_priority := 40 - t\<rparr>)\<rparr>"

definition lock_taken :: kernel where
  "lock_taken = WriteToUser 0 4096 (5 OR HandleWaitMask) ranked_boot"

definition contended :: kernel where
  "contended = snd (the (WaitForAddress 0 2 by_handle 5 4096 6 lock_taken))"

definition parked :: kernel where
  "parked = snd (WaitIfEqual 0 3 0 8192 0 (- 1) (snd (WaitIfEqual 0 2 0 8192 0 (- 1) ranked_boot)))"

lemma reach_ranked: "sched_reach ranked_boot"
proof -
  have "initial ranked_boot" using initial_boot new_thread_fields(1)
    by (simp add: initial_def ranked_boot_def boot_def no_pins_def unlocked_def thread_ok_def pin_view_def)
  then show ?thesis by (rule sched_reach.start)
qed

lemma reach_taken: "sched_reach lock_taken"
  unfolding lock_taken_def by (rule sched_reach.step [OF reach_ranked sched_step.user_write])

lemma ranked_objects: "objects ranked_boot = {0..<8}" "objects lock_taken = {0..<8}"
proof -
  show "objects ranked_boot = {0..<8}"
    by (simp add: objects_def held_def ranked_boot_def boot_def new_thread_def thread_Initialize_def Let_def)
  then show "objects lock_taken = {0..<8}" by (simp add: lock_taken_def)
qed

lemma all_large: "at_large ranked_boot u" "at_large lock_taken u"
proof -
  show "at_large ranked_boot u"
    by (simp add: at_large_def GetLockOwner_def ranked_boot_def boot_def new_thread_def thread_Initialize_def Let_def)
  then show "at_large lock_taken u" using at_large_view [OF lock_view_simple(9)] by (simp add: lock_taken_def)
qed

lemma reach_contended: "sched_reach contended"
proof -
  have "supplied {2} lock_taken" using ranked_objects all_large by (simp add: supplied_def)
  then obtain r ks' where w: "WaitForAddress 0 2 by_handle 5 4096 6 lock_taken = Some (r, ks')"
    using WaitForAddress_returns [OF sched_reach_sync [OF reach_taken] all_large(2)] by blast
  then have "sched_step lock_taken contended"
    unfolding contended_def using sched_step.wait_for_address [OF all_large(2) w] by simp
  then show ?thesis by (rule sched_reach.step [OF reach_taken])
qed

lemma contended_evaluated: "th_priority (ks_threads contended 1) = 38" "FindHeldLock 1 4096 False contended = Some 0"
  by code_simp+

lemma reach_parked: "sched_reach parked"
proof -
  have "at_large (snd (WaitIfEqual 0 2 0 8192 0 (- 1) ranked_boot)) 3" by code_simp
  from sched_step.wait_equal [OF this] show ?thesis unfolding parked_def
    by (rule sched_reach.step [OF sched_reach.step [OF reach_ranked sched_step.wait_equal [OF all_large(1)]]])
qed

lemma parked_evaluated:
  "ks_trees parked 0 = [3, 2]" "th_condvar_key (ks_threads parked 2) = 8192" "th_condvar_key (ks_threads parked 3) = 8192"
  "GetState (ks_threads parked 3) = Waiting_State" "sint (ReadFromUser 0 8192 parked) = 0"
  by code_simp+

theorem reachable_priority_inherited_witness:
  "th_priority (ks_threads contended 1) = 38 \<and>
   Min (insert (th_base_priority (ks_threads contended 1)) {th_priority (ks_threads contended u) |u. GetLockOwner u contended = Some 1}) = 38"
  using reachable_priority_inherited [OF reach_contended, of 1] contended_evaluated(1) by simp

theorem reachable_one_tree_witness:
  "\<exists>u. u \<in> set (li_tree (ks_lock_infos contended 0)) \<and> u \<notin> set (ks_trees contended 0)"
proof -
  have l: "0 \<in> set (held contended 1)" using FindHeldLock_found(1) [OF contended_evaluated(2)] .
  have "li_tree (ks_lock_infos contended 0) \<noteq> []"
    using lock_inv_held(3) [OF locks_ok_inv(1) [OF sync_ok_parts(5) [OF sched_reach_sync [OF reach_contended]]] l] .
  then obtain u where "u \<in> set (li_tree (ks_lock_infos contended 0))" by (cases "li_tree (ks_lock_infos contended 0)") auto
  then show ?thesis using reachable_one_tree [OF reach_contended] l unfolding held_def by blast
qed

theorem SignalToAddress_hands_over_witness:
  "\<exists>ks' n. SignalToAddress 0 1 4096 contended = Some (ResultSuccess, ks') \<and>
     th_waiting_lock_info (ks_threads contended n) = Some 0 \<and> GetLockOwner n ks' = None"
  using SignalToAddress_hands_over [OF reach_contended, of 0 1 4096] unfolding contended_evaluated(2) option.case by blast

theorem waits_return_witness:
  "(\<exists>r ks'. WaitForAddress 0 2 by_handle 5 4096 6 lock_taken = Some (r, ks')) \<and> (\<exists>ks'. Signal 0 2 by_handle 0 8192 1 lock_taken = Some ks')"
  using waits_return [OF reach_taken, of "{2}" 2] ranked_objects(2) all_large(2) by simp

theorem arbiter_Signal_wakes_urgent_witness:
  "ks_trees (snd (arbiter_Signal 0 8192 1 parked)) 0 = [2] \<and> GetState (ks_threads (snd (arbiter_Signal 0 8192 1 parked)) 3) = Runnable"
  using arbiter_Signal_wakes_urgent [OF reach_parked refl refl refl, where tr = 0 and addr = 8192 and count = 1] parked_evaluated
  by simp

theorem SignalAndModify_value_witness:
  "SignalAndModifyByWaitingCountIfEqual 0 0 8192 0 2 parked =
    (ResultSuccess, snd (arbiter_Signal 0 8192 2 (WriteToUser 0 8192 (- 1) parked)))"
  using SignalAndModify_value [OF reach_parked refl refl, where tr = 0 and addr = 8192 and p = 0 and v = 0 and count = 2] parked_evaluated
  by simp

end
