(* ===== verification/KLightLock.thy ===== *)
theory KLightLock
  imports KThread_Locks
begin

text \<open>
  Locks of the kernel itself: \<^verbatim>\<open>src/src/core/hle/kernel/k_light_lock.cpp\<close>. A lock is a word, the tag, that
  holds the pointer to the thread that owns it, with the lowest bit set when threads wait for it. Both
  are kept apart in the model. A lock is known by the address of its tag.

  \<open>Lock\<close> and \<open>Unlock\<close> first try an atomic exchange on the tag and only then take the lock of the
  scheduler, so they are not one step: a thread that is about to enter the slow path, waits in it or
  has to start over is described by where it is in the code. An exchange that fails spuriously and is
  repeated is one step. So is an \<open>Unlock\<close> whose exchange fails: the bit of the tag is set by then, and
  until the new tag is stored under the lock of the scheduler the exchanges of other threads write back
  what they read, so that they may as well come before.
\<close>

section \<open>The tag\<close>

type_synonym light_tag = "nat option \<times> bool"

definition unlocked_tag :: light_tag where
  "unlocked_tag = (None, False)"

text \<open>Where a thread is: outside, in \<open>Lock\<close> before the exchange or before the slow path, or asleep in it.\<close>

datatype lock_pc = Outside | Retry u64 | SlowPath u64 light_tag | Asleep u64

record locking =
  lk_kernel :: kernel
  lk_tags :: "u64 \<Rightarrow> light_tag"
  lk_pc :: "nat \<Rightarrow> lock_pc"
  lk_holds :: "nat \<Rightarrow> u64 set"

section \<open>Operations\<close>

definition SetKernelAddressKey :: "nat \<Rightarrow> u64 \<Rightarrow> kernel \<Rightarrow> kernel" where
  "SetKernelAddressKey t key = upd_thread t (\<lambda>th. th\<lparr>th_address_key := key, th_is_kernel_address_key := True\<rparr>)"

definition ContinueIfHasKernelWaiters :: "nat \<Rightarrow> kernel \<Rightarrow> kernel" where
  "ContinueIfHasKernelWaiters t ks = (if th_num_kernel_waiters (ks_threads ks t) > 0 then Continue_thread t ks else ks)"

text \<open>The exchange of \<open>Lock\<close>; the result is the old tag.\<close>

definition lock_exchange :: "nat \<Rightarrow> light_tag \<Rightarrow> light_tag \<times> light_tag" where
  "lock_exchange cur old_tag = (old_tag, if old_tag = unlocked_tag then (Some cur, False) else (fst old_tag, True))"

definition LockSlowPath :: "u64 \<Rightarrow> light_tag \<Rightarrow> nat \<Rightarrow> light_tag \<Rightarrow> kernel \<Rightarrow> (bool \<times> kernel) option" where
  "LockSlowPath lock owner cur tag ks =
     (if tag \<noteq> owner then Some (False, ks)
      else do {
        owner_thread \<leftarrow> fst owner;
        let ks = SetKernelAddressKey cur lock ks;
        ks \<leftarrow> AddWaiter cur owner_thread cur ks;
        let ks = BeginWait cur ks;
        Some (True, if IsSuspended (ks_threads ks owner_thread) then ContinueIfHasKernelWaiters owner_thread ks else ks)
      })"

definition UnlockSlowPath :: "u64 \<Rightarrow> nat \<Rightarrow> kernel \<Rightarrow> (light_tag \<times> kernel) option" where
  "UnlockSlowPath lock cur ks =
     do {
       (next_owner, has_waiters, ks) \<leftarrow> RemoveWaiterByKey cur cur lock True ks;
       let (next_tag, ks) =
         (case next_owner of
            None \<Rightarrow> (unlocked_tag, ks)
          | Some n \<Rightarrow>
              let ks = EndWait ResultSuccess n ks
              in ((Some n, has_waiters), if IsSuspended (ks_threads ks n) then ContinueIfHasKernelWaiters n ks else ks));
       let ks = (if IsSuspended (ks_threads ks cur) then TrySuspend cur ks else ks);
       Some (next_tag, ks)
     }"

definition light_Unlock :: "u64 \<Rightarrow> nat \<Rightarrow> light_tag \<Rightarrow> kernel \<Rightarrow> (light_tag \<times> kernel) option" where
  "light_Unlock lock cur tag ks = (if tag = (Some cur, False) then Some (unlocked_tag, ks) else UnlockSlowPath lock cur ks)"

definition light_CancelWait :: "nat \<Rightarrow> Result \<Rightarrow> nat \<Rightarrow> kernel \<Rightarrow> kernel option" where
  "light_CancelWait cur result t ks =
     do {
       ks \<leftarrow> (case GetLockOwner t ks of None \<Rightarrow> Some ks | Some owner \<Rightarrow> RemoveWaiter cur owner t ks);
       Some (wake result t ks)
     }"

definition IsLocked :: "light_tag \<Rightarrow> bool" where
  "IsLocked tag \<longleftrightarrow> tag \<noteq> unlocked_tag"

definition IsLockedByCurrentThread :: "nat \<Rightarrow> light_tag \<Rightarrow> bool" where
  "IsLockedByCurrentThread cur tag \<longleftrightarrow> fst tag = Some cur"

section \<open>Steps\<close>

text \<open>
  The steps of threads that use locks. A thread asleep goes on, as the owner of the lock, once it is no
  longer linked to an owner, which whoever wakes it does in the same section. The flag tells whether
  waits may be cancelled, as the termination of a thread does. Operations that leave all locks alone
  happen in between.
\<close>

definition set_pc :: "nat \<Rightarrow> lock_pc \<Rightarrow> locking \<Rightarrow> locking" where
  "set_pc t pc s = s\<lparr>lk_pc := (lk_pc s)(t := pc)\<rparr>"

definition set_tag :: "u64 \<Rightarrow> light_tag \<Rightarrow> locking \<Rightarrow> locking" where
  "set_tag lock tag s = s\<lparr>lk_tags := (lk_tags s)(lock := tag)\<rparr>"

definition acquired :: "nat \<Rightarrow> u64 \<Rightarrow> locking \<Rightarrow> locking" where
  "acquired t lock s = s\<lparr>lk_pc := (lk_pc s)(t := Outside), lk_holds := (lk_holds s)(t := insert lock (lk_holds s t))\<rparr>"

definition released :: "nat \<Rightarrow> u64 \<Rightarrow> locking \<Rightarrow> locking" where
  "released t lock s = s\<lparr>lk_holds := (lk_holds s)(t := lk_holds s t - {lock})\<rparr>"

text \<open>The exchange, and what \<open>Lock\<close> does with the old tag.\<close>

definition light_Lock :: "nat \<Rightarrow> u64 \<Rightarrow> locking \<Rightarrow> locking" where
  "light_Lock t lock s =
     (let (old_tag, tag) = lock_exchange t (lk_tags s lock); s = set_tag lock tag s
      in if old_tag = unlocked_tag then acquired t lock s else set_pc t (SlowPath lock (fst old_tag, True)) s)"

end
