(* ===== verification/Light_Lock_Laws.thy ===== *)
theory Light_Lock_Laws
  imports KLightLock Scheduler_Steps
begin

text \<open>
  Light locks exclude each other's owners and lose no waiter, as long as no wait for one is cancelled; a
  cancelled wait is taken for an acquisition, which is proved as well.
\<close>

section \<open>Steps\<close>

inductive light_step :: "bool \<Rightarrow> locking \<Rightarrow> locking \<Rightarrow> bool" for cancelling where
  lock: "light_step cancelling s (light_Lock t a s)" if "lk_pc s t = Outside \<or> lk_pc s t = Retry a"
| start_over: "light_step cancelling s (set_pc t (Retry a) (s\<lparr>lk_kernel := ks\<rparr>))"
  if "lk_pc s t = SlowPath a w" "LockSlowPath a w t (lk_tags s a) (lk_kernel s) = Some (False, ks)"
| sleep: "light_step cancelling s (set_pc t (Asleep a) (s\<lparr>lk_kernel := ks\<rparr>))"
  if "lk_pc s t = SlowPath a w" "LockSlowPath a w t (lk_tags s a) (lk_kernel s) = Some (True, ks)"
| go_on: "light_step cancelling s (acquired t a s)" if "lk_pc s t = Asleep a" "GetLockOwner t (lk_kernel s) = None"
| unlock: "light_step cancelling s (set_tag a tag (released t a (s\<lparr>lk_kernel := ks\<rparr>)))"
  if "lk_pc s t = Outside" "a \<in> lk_holds s t" "light_Unlock a t (lk_tags s a) (lk_kernel s) = Some (tag, ks)"
| other: "light_step cancelling s (s\<lparr>lk_kernel := ks\<rparr>)" if "sched_step (lk_kernel s) ks" "lock_view ks = lock_view (lk_kernel s)"
| cancel: "light_step cancelling s (s\<lparr>lk_kernel := ks\<rparr>)"
  if "cancelling" "lk_pc s t = Asleep a" "light_CancelWait cur r t (lk_kernel s) = Some ks"

inductive light_reach :: "bool \<Rightarrow> locking \<Rightarrow> bool" for cancelling where
  start: "light_reach cancelling s"
  if "initial (lk_kernel s)" "lk_tags s = (\<lambda>_. unlocked_tag)" "lk_pc s = (\<lambda>_. Outside)" "lk_holds s = (\<lambda>_. {})"
| step: "light_reach cancelling s'" if "light_reach cancelling s" "light_step cancelling s s'"

text \<open>
  The invariant. A thread asleep is linked to the owner in the tag, whose bit is set, or has become the
  owner; threads elsewhere wait for nothing.
\<close>

definition place_ok :: "kernel \<Rightarrow> (u64 \<Rightarrow> light_tag) \<Rightarrow> lock_pc \<Rightarrow> nat \<Rightarrow> bool" where
  "place_ok ks tags pc t \<longleftrightarrow>
     (case pc of
        Asleep a \<Rightarrow>
          th_condvar_tree (ks_threads ks t) = None \<and>
          (case GetLockOwner t ks of
             None \<Rightarrow> fst (tags a) = Some t
           | Some h \<Rightarrow> tags a = (Some h, True) \<and> address ks t = (a, True))
      | SlowPath a w \<Rightarrow> at_large ks t \<and> fst w \<noteq> None \<and> snd w
      | _ \<Rightarrow> at_large ks t)"

definition light_inv :: "locking \<Rightarrow> bool" where
  "light_inv s \<longleftrightarrow>
     sync_ok (lk_kernel s) \<and> one_lock (lk_kernel s) \<and> (\<forall>t. place_ok (lk_kernel s) (lk_tags s) (lk_pc s t) t) \<and>
     (\<forall>t a. a \<in> lk_holds s t \<longrightarrow> fst (lk_tags s a) = Some t) \<and>
     (\<forall>a. fst (lk_tags s a) = None \<longrightarrow> lk_tags s a = unlocked_tag)"

lemma one_lock_view: "lock_view ks' = lock_view ks \<Longrightarrow> one_lock ks' \<longleftrightarrow> one_lock ks"
  by (simp add: one_lock_def lock_key_def lock_view_fields(2,6) [of ks' ks])

lemma address_view: "lock_view ks' = lock_view ks \<Longrightarrow> address ks' = address ks"
  by (rule lock_view_fields(4))

lemma place_ok_view:
  assumes "lock_view ks' = lock_view ks"
  shows "place_ok ks' tags pc t \<longleftrightarrow> place_ok ks tags pc t"
  unfolding place_ok_def at_large_view [OF assms] lock_view_fields(10,12) [OF assms] address_view [OF assms] ..

lemma place_ok_cong:
  assumes "GetLockOwner u ks' = GetLockOwner u ks" "address ks' u = address ks u"
    "th_condvar_tree (ks_threads ks' u) = th_condvar_tree (ks_threads ks u)"
  shows "place_ok ks' tags pc u \<longleftrightarrow> place_ok ks tags pc u"
  unfolding place_ok_def at_large_def assms ..

lemma place_ok_awake: "pc = Outside \<or> pc = Retry a \<Longrightarrow> place_ok ks tags pc t \<longleftrightarrow> at_large ks t"
  by (auto simp: place_ok_def)

text \<open>A thread that waits for a lock is asleep at the address it waits at.\<close>

lemma waiter_asleep:
  assumes "place_ok ks tags pc u" "GetLockOwner u ks = Some h"
  obtains a where "pc = Asleep a" "tags a = (Some h, True)" "address ks u = (a, True)"
  using assms by (auto simp: place_ok_def at_large_def split: lock_pc.splits)

lemma light_start: "initial (lk_kernel s) \<Longrightarrow> lk_tags s = (\<lambda>_. unlocked_tag) \<Longrightarrow> lk_pc s = (\<lambda>_. Outside) \<Longrightarrow> lk_holds s = (\<lambda>_. {}) \<Longrightarrow>
  light_inv s"
  by (simp add: light_inv_def initial_ok place_ok_def at_large_def unlocked_tag_def)
    (simp add: initial_def unlocked_def one_lock_def held_def GetLockOwner_def)

lemma light_lock_inv:
  assumes inv: "light_inv s" and pc: "lk_pc s t = Outside \<or> lk_pc s t = Retry a"
  shows "light_inv (light_Lock t a s)"
proof -
  have large: "at_large (lk_kernel s) t" using inv place_ok_awake [OF pc] unfolding light_inv_def by blast
  have asleep: "lk_tags s a \<noteq> unlocked_tag" if "lk_pc s u = Asleep a" for u
  proof -
    have "place_ok (lk_kernel s) (lk_tags s) (Asleep a) u" using inv that unfolding light_inv_def by metis
    then show ?thesis by (auto simp: place_ok_def unlocked_tag_def split: option.splits)
  qed
  show ?thesis
  proof (cases "lk_tags s a = unlocked_tag")
    case True
    let ?tags = "(lk_tags s)(a := (Some t, False))"
    have l: "light_Lock t a s = acquired t a (set_tag a (Some t, False) s)"
      using True by (simp add: light_Lock_def lock_exchange_def)
    have "place_ok (lk_kernel s) ?tags (if u = t then Outside else lk_pc s u) u" for u
      using inv large asleep [of u] True
      by (cases "lk_pc s u") (auto simp: light_inv_def place_ok_def split: option.splits dest: spec [of _ u])
    moreover have "a \<notin> lk_holds s u" for u
      using inv True unfolding light_inv_def unlocked_tag_def by (metis fst_conv option.distinct(1))
    ultimately show ?thesis using inv unfolding l by (auto simp: light_inv_def acquired_def set_tag_def)
  next
    case False
    let ?tags = "(lk_tags s)(a := (fst (lk_tags s a), True))"
    have l: "light_Lock t a s = set_pc t (SlowPath a (fst (lk_tags s a), True)) (set_tag a (fst (lk_tags s a), True) s)"
      using False by (simp add: light_Lock_def lock_exchange_def)
    have some: "fst (lk_tags s a) \<noteq> None" using inv False by (auto simp: light_inv_def)
    have "place_ok (lk_kernel s) ?tags (if u = t then SlowPath a (fst (lk_tags s a), True) else lk_pc s u) u" for u
      using inv large some
      by (cases "lk_pc s u") (auto simp: light_inv_def place_ok_def split: option.splits dest: spec [of _ u])
    then show ?thesis using inv some unfolding l by (auto simp: light_inv_def set_pc_def set_tag_def)
  qed
qed

section \<open>The slow paths\<close>

lemma lock_view_light [simp]:
  "lock_view (ContinueIfHasKernelWaiters t ks) = lock_view ks" "lock_view (TrySuspend t ks) = lock_view ks"
  by (simp_all add: ContinueIfHasKernelWaiters_def TrySuspend_def)

lemma sync_ok_light:
  assumes "sync_ok ks"
  shows "sync_ok (ContinueIfHasKernelWaiters t ks)" "sync_ok (TrySuspend t ks)"
proof -
  note ok = sync_ok_parts(1) [OF assms]
  have "ks_ok (ContinueIfHasKernelWaiters t ks)" "ks_ok (TrySuspend t ks)"
    using ok by (simp_all add: ContinueIfHasKernelWaiters_def TrySuspend_def Continue_thread_ok UpdateState_ok)
  with lock_view_light assms show "sync_ok (ContinueIfHasKernelWaiters t ks)" "sync_ok (TrySuspend t ks)"
    using sync_ok_view by metis+
qed

lemma rekeys_kernel: "rekeys (\<lambda>th. th\<lparr>th_address_key := k, th_is_kernel_address_key := b\<rparr>)"
  by (simp add: rekeys_def sched_view_def pin_view_def IsDummyThread_def)

lemma kernel_key_set:
  assumes ok: "sync_ok ks" and t: "at_large ks t" and ks': "ks' = SetKernelAddressKey t key ks"
  shows "sync_ok ks'" "at_large ks' u \<longleftrightarrow> at_large ks u" "objects ks' = objects ks" "GetLockOwner u ks' = GetLockOwner u ks"
    "one_lock ks' \<longleftrightarrow> one_lock ks" "address ks' u = (if u = t then (key, True) else address ks u)"
    "th_condvar_tree (ks_threads ks' u) = th_condvar_tree (ks_threads ks u)"
proof -
  have none: "GetLockOwner t ks = None" using t by (simp add: at_large_def)
  note r = rekeyed [OF sync_ok_parts(3) [OF ok] none rekeys_kernel refl]
  show "sync_ok ks'" unfolding ks' SetKernelAddressKey_def by (rule rekey_sync [OF ok none rekeys_kernel]) simp
  show own: "GetLockOwner u ks' = GetLockOwner u ks" for u unfolding ks' SetKernelAddressKey_def by (rule r(2))
  show "objects ks' = objects ks" unfolding ks' SetKernelAddressKey_def by (rule r(3))
  show c: "th_condvar_tree (ks_threads ks' u) = th_condvar_tree (ks_threads ks u)" for u
    by (simp add: ks' SetKernelAddressKey_def upd_thread_def)
  then show "at_large ks' u \<longleftrightarrow> at_large ks u" unfolding at_large_def own by simp
  have "held ks' = held ks" "ks_lock_infos ks' = ks_lock_infos ks"
    by (simp_all add: ks' SetKernelAddressKey_def upd_thread_def held_def fun_eq_iff)
  then show "one_lock ks' \<longleftrightarrow> one_lock ks" by (simp add: one_lock_def lock_key_def)
  show "address ks' u = (if u = t then (key, True) else address ks u)" by (simp add: ks' SetKernelAddressKey_def upd_thread_def address_def)
qed

lemma relocked_address: "relocked B ks ks' \<Longrightarrow> address ks' u = address ks u"
  by (simp add: relocked_def other_fields_def address_def)

lemma LockSlowPath_waits:
  assumes ok: "sync_ok ks" "one_lock ks" and t: "at_large ks t" and h: "fst w = Some h"
    and run: "LockSlowPath a w t tag ks = Some (True, ks')"
  shows "sync_ok ks'" "one_lock ks'" "tag = w" "GetLockOwner u ks' = (if u = t then Some h else GetLockOwner u ks)"
    "address ks' u = (if u = t then (a, True) else address ks u)" "th_condvar_tree (ks_threads ks' u) = th_condvar_tree (ks_threads ks u)"
    "objects ks' = objects ks"
proof -
  define k1 where "k1 = SetKernelAddressKey t a ks"
  note k = kernel_key_set [OF ok(1) t k1_def]
  show "tag = w" using run by (auto simp: LockSlowPath_def split: if_splits)
  then obtain k2 where k2: "AddWaiter t h t k1 = Some k2"
    and ks': "ks' = (let k = BeginWait t k2 in if IsSuspended (ks_threads k h) then ContinueIfHasKernelWaiters h k else k)"
    using run h by (auto simp: LockSlowPath_def k1_def Let_def split: if_splits Option.bind_splits)
  have c: "GetLockOwner t k1 = None" "th_condvar_tree (ks_threads k1 t) = None" using t k(4,7) by (simp_all add: at_large_def)
  obtain k3 where r: "AddWaiter t h t k1 = Some k3" "relocked ((\<lambda>v. GetLockOwner v k1)(t := Some h)) k1 k3" "one_lock k1 \<longrightarrow> one_lock k3"
    using AddWaiter_ok [OF sync_ok_parts(3) [OF k(1)] c(1) AddWaiter_can_wait [OF k2], of t] by blast
  then have e: "k3 = k2" using k2 by simp
  note f = relocked_fields [OF r(2), unfolded e]
  have "sync_ok k2" using sync_ok_parts(6) [OF k(1)] c(2) by (intro relocked_sync [OF k(1) r(2) [unfolded e]]) auto
  then show "sync_ok ks'" unfolding ks' Let_def by (simp add: sync_ok_quiet(3) sync_ok_light(1))
  have v: "lock_view ks' = lock_view k2" by (simp add: ks' Let_def)
  show "one_lock ks'" using one_lock_view [OF v] r(3) e k(5) ok(2) by simp
  show "GetLockOwner u ks' = (if u = t then Some h else GetLockOwner u ks)"
    using lock_view_fields(12) [OF v, of u] f(4) [of u] k(4) by simp
  show "address ks' u = (if u = t then (a, True) else address ks u)"
    using address_view [OF v] relocked_address [OF r(2), of u] e k(6) by simp
  show "th_condvar_tree (ks_threads ks' u) = th_condvar_tree (ks_threads ks u)" using lock_view_fields(10) [OF v, of u] f(2) [of u] k(7) by simp
  show "objects ks' = objects ks" using objects_view [OF v] f(1) k(3) by simp
qed

lemma sleep_inv:
  assumes inv: "light_inv s" and pc: "lk_pc s t = SlowPath a w"
    and run: "LockSlowPath a w t (lk_tags s a) (lk_kernel s) = Some (True, ks)"
  shows "light_inv (set_pc t (Asleep a) (s\<lparr>lk_kernel := ks\<rparr>))"
proof -
  have p: "place_ok (lk_kernel s) (lk_tags s) (lk_pc s u) u" for u using inv by (simp add: light_inv_def)
  have large: "at_large (lk_kernel s) t" and w: "fst w \<noteq> None" "snd w" using p [of t] pc by (simp_all add: place_ok_def)
  obtain h where h: "fst w = Some h" using w(1) by auto
  have ok: "sync_ok (lk_kernel s)" "one_lock (lk_kernel s)" using inv by (simp_all add: light_inv_def)
  note l = LockSlowPath_waits [OF ok large h run]
  have "place_ok ks (lk_tags s) (if u = t then Asleep a else lk_pc s u) u" for u
  proof (cases "u = t")
    case True
    have "lk_tags s a = (Some h, True)" using l(3) h w(2) by (simp add: prod_eq_iff)
    then show ?thesis using True l(4-6) [of t] large by (simp add: place_ok_def at_large_def)
  next
    case False
    then show ?thesis using p [of u] l(4-6) [of u] place_ok_cong [of u ks "lk_kernel s"] by simp
  qed
  then show ?thesis using inv l(1,2) by (simp add: light_inv_def set_pc_def)
qed

text \<open>Handing the lock over: the invariant says that the waiters of the tag are those of one lock object.\<close>

lemma unlock_places:
  assumes ok: "sync_ok ks" "one_lock ks" and p: "\<And>u. place_ok ks tags (pc u) u" and t: "pc t = Outside" "fst (tags a) = Some t"
    and run: "UnlockSlowPath a t ks = Some (tag, ks')"
  shows "sync_ok ks'" "one_lock ks'" "place_ok ks' (tags(a := tag)) (pc u) u" "fst tag = None \<longrightarrow> tag = unlocked_tag"
proof -
  note lk = sync_ok_parts(5) [OF ok(1)]
  note inv = locks_ok_inv(1) [OF lk]
  have tl: "GetLockOwner t ks = None" using p [of t] t(1) by (simp add: place_ok_def at_large_def)
  have own: "\<exists>l. waiting ks u = Some l \<and> l \<in> set (held ks h) \<and> lock_key ks l = address ks u" if g: "GetLockOwner u ks = Some h" for u h
  proof -
    obtain l where l: "waiting ks u = Some l" "l \<in> set (held ks h)" using g owner_waiting(2) [OF lk, of u h] by blast
    have "lock_key ks l = address ks u" by (rule lock_inv_waiting [OF inv l(1)]) (simp add: lock_key_def)
    then show ?thesis using l by blast
  qed
  have asleep: "\<exists>b. pc u = Asleep b \<and> tags b = (Some h, True) \<and> address ks u = (b, True)" if "GetLockOwner u ks = Some h" for u h
    by (rule waiter_asleep [OF p [of u] that]) blast
  have not_free: False if "pc u = Asleep a" "GetLockOwner u ks = None" for u
  proof -
    have "fst (tags a) = Some u" using p [of u] that by (simp add: place_ok_def)
    then show False using t that by auto
  qed
  have "\<exists>k2. sync_ok k2 \<and> one_lock k2 \<and> lock_view ks' = lock_view k2 \<and> (\<forall>u. place_ok k2 (tags(a := tag)) (pc u) u) \<and>
      (fst tag = None \<longrightarrow> tag = unlocked_tag)"
  proof (cases "FindHeldLock t a True ks")
    case None
    then have tag: "tag = unlocked_tag" and v: "lock_view ks' = lock_view ks"
      using run by (auto simp: UnlockSlowPath_def RemoveWaiterByKey_none split: if_splits)
    have "pc u \<noteq> Asleep a" for u
    proof
      assume u: "pc u = Asleep a"
      then obtain h where h: "GetLockOwner u ks = Some h" using not_free by (cases "GetLockOwner u ks") auto
      from asleep [OF h] u t(2) have "h = t" "address ks u = (a, True)" by auto
      then obtain l where "l \<in> set (held ks t)" "lock_key ks l = (a, True)" using own [OF h] by auto
      then show False using None by (auto simp: FindHeldLock_def find_None_iff held_def lock_key_def)
    qed
    then have "place_ok ks (tags(a := tag)) (pc u) u" for u using p [of u] by (cases "pc u") (auto simp: place_ok_def split: option.splits)
    then show ?thesis using ok v tag by blast
  next
    case (Some l)
    obtain n ns k2 where tree: "li_tree (ks_lock_infos ks l) = n # ns"
      and r: "RemoveWaiterByKey t t a True ks = Some (Some n, ns \<noteq> [], k2)" "relocked (handed_over l n ks) ks k2"
        "one_lock ks \<and> (\<forall>x. x \<in> set (held ks n) \<longrightarrow> lock_key ks x = lock_key ks l \<longrightarrow> x = l) \<longrightarrow> one_lock k2"
      by (rule RemoveWaiterByKey_all [OF sync_ok_parts(3) [OF ok(1)] Some, of t])
    note f = relocked_fields [OF r(2)]
    have tag: "tag = (Some n, ns \<noteq> [])" and v: "lock_view ks' = lock_view k2"
      using run r(1) by (auto simp: UnlockSlowPath_def Let_def split: if_splits)
    have l: "l \<in> set (held ks t)" and key: "lock_key ks l = (a, True)"
      using FindHeldLock_found [OF Some] by (simp_all add: lock_key_def)
    have W: "waiting ks u = Some l \<longleftrightarrow> u \<in> set (n # ns)" for u using lock_inv_held(7) [OF inv l] tree by auto
    have at_a: "pc u = Asleep a" "GetLockOwner u ks = Some t" "address ks u = (a, True)" if "waiting ks u = Some l" for u
    proof -
      show g: "GetLockOwner u ks = Some t" using that l owner_waiting(2) [OF lk] by blast
      show "address ks u = (a, True)" using own [OF g] that key by simp
      then show "pc u = Asleep a" using asleep [OF g] by auto
    qed
    have on_l: "waiting ks u = Some l" if u: "pc u = Asleep a" for u
    proof -
      obtain h where h: "GetLockOwner u ks = Some h" using not_free u by (cases "GetLockOwner u ks") auto
      from asleep [OF h] u t(2) have "h = t" "address ks u = (a, True)" by auto
      then obtain x where "waiting ks u = Some x" "x \<in> set (held ks t)" "lock_key ks x = lock_key ks l" using own [OF h] key by auto
      then show ?thesis using ok(2) l key unfolding one_lock_def by (metis snd_conv)
    qed
    have none: "handed_over l n ks u = None" if "GetLockOwner u ks = None" for u
      using that owner_waiting(1) [OF lk] by (simp add: handed_over_def)
    have sync: "sync_ok k2" using none sync_ok_parts(6) [OF ok(1)] by (intro relocked_sync [OF ok(1) r(2)]) blast
    have "x = l" if x: "x \<in> set (held ks n)" "lock_key ks x = lock_key ks l" for x
    proof -
      obtain v where "v \<in> set (li_tree (ks_lock_infos ks x))" using lock_inv_held(3) [OF inv x(1)] by (cases "li_tree (ks_lock_infos ks x)") auto
      then have wv: "waiting ks v = Some x" using lock_inv_held(7) [OF inv x(1)] by auto
      then have g: "GetLockOwner v ks = Some n" using x(1) owner_waiting(2) [OF lk] by blast
      have "address ks v = (a, True)" using own [OF g] wv x(2) key by simp
      then have "n = t" using asleep [OF g] t(2) by auto
      then show ?thesis using at_a(2) [of n] W [of n] tl by simp
    qed
    then have one: "one_lock k2" using r(3) ok(2) by blast
    have "place_ok k2 (tags(a := tag)) (pc u) u" for u
    proof (cases "pc u = Asleep a")
      case True
      then have wu: "waiting ks u = Some l" by (rule on_l)
      have c: "th_condvar_tree (ks_threads k2 u) = None" using p [of u] True f(2) by (simp add: place_ok_def)
      show ?thesis
      proof (cases "u = n")
        case True
        then show ?thesis using c f(4) [of u] \<open>pc u = Asleep a\<close> by (simp add: place_ok_def handed_over_def tag)
      next
        case False
        then have "ns \<noteq> []" using W [of u] wu by auto
        then show ?thesis using False c f(4) [of u] wu \<open>pc u = Asleep a\<close> at_a(3) [OF wu] relocked_address [OF r(2), of u]
          by (simp add: place_ok_def handed_over_def tag)
      qed
    next
      case False
      then have "waiting ks u \<noteq> Some l" using at_a(1) by blast
      then have "GetLockOwner u k2 = GetLockOwner u ks" using f(4) [of u] W [of n] by (auto simp: handed_over_def)
      then have "place_ok k2 tags (pc u) u" using p [of u] place_ok_cong [of u k2 ks] relocked_address [OF r(2), of u] f(2) by simp
      then show ?thesis using False by (cases "pc u") (auto simp: place_ok_def split: option.splits)
    qed
    then show ?thesis using sync one v tag by auto
  qed
  then obtain k2 where k2: "sync_ok k2" "one_lock k2" "lock_view ks' = lock_view k2" "\<forall>u. place_ok k2 (tags(a := tag)) (pc u) u"
    "fst tag = None \<longrightarrow> tag = unlocked_tag" by (elim exE conjE)
  show "one_lock ks'" "place_ok ks' (tags(a := tag)) (pc u) u" "fst tag = None \<longrightarrow> tag = unlocked_tag"
    using k2 one_lock_view [OF k2(3)] place_ok_view [OF k2(3)] by simp_all
  obtain n more k1 where r: "RemoveWaiterByKey t t a True ks = Some (n, more, k1)" "sync_ok k1" "objects k1 = objects ks"
    "\<And>u. at_large ks u \<Longrightarrow> at_large k1 u"
    by (rule RemoveWaiterByKey_sync [OF ok(1), of t t a True]) (rule that)
  then show "sync_ok ks'" using run
    by (auto simp: UnlockSlowPath_def Let_def sync_ok_light sync_ok_quiet split: option.splits if_splits)
qed

lemma unlock_inv:
  assumes inv: "light_inv s" and t: "lk_pc s t = Outside" "a \<in> lk_holds s t"
    and run: "light_Unlock a t (lk_tags s a) (lk_kernel s) = Some (tag, ks)"
  shows "light_inv (set_tag a tag (released t a (s\<lparr>lk_kernel := ks\<rparr>)))"
proof -
  have p: "place_ok (lk_kernel s) (lk_tags s) (lk_pc s u) u" for u using inv by (simp add: light_inv_def)
  have ok: "sync_ok (lk_kernel s)" "one_lock (lk_kernel s)" using inv by (simp_all add: light_inv_def)
  have tag: "fst (lk_tags s a) = Some t" using inv t(2) by (simp add: light_inv_def)
  have "sync_ok ks \<and> one_lock ks \<and> (\<forall>u. place_ok ks ((lk_tags s)(a := tag)) (lk_pc s u) u) \<and> (fst tag = None \<longrightarrow> tag = unlocked_tag)"
  proof (cases "lk_tags s a = (Some t, False)")
    case True
    then have r: "tag = unlocked_tag" "ks = lk_kernel s" using run by (simp_all add: light_Unlock_def)
    have "place_ok ks ((lk_tags s)(a := tag)) (lk_pc s u) u" for u
      using p [of u] True t(1) by (cases "lk_pc s u") (auto simp: place_ok_def r split: option.splits)
    then show ?thesis using r ok by simp
  next
    case False
    then have "UnlockSlowPath a t (lk_kernel s) = Some (tag, ks)" using run by (simp add: light_Unlock_def)
    from unlock_places [OF ok p t(1) tag this] show ?thesis by simp
  qed
  moreover have "lk_holds s u - {a} = lk_holds s u" if "u \<noteq> t" for u
    using inv tag that unfolding light_inv_def by (metis Diff_empty Diff_insert0 option.inject)
  ultimately show ?thesis using inv unfolding light_inv_def set_tag_def released_def
    by (auto split: if_splits)
qed

section \<open>Exclusion\<close>

lemma light_step_inv: "light_step False s s' \<Longrightarrow> light_inv s \<Longrightarrow> light_inv s'"
proof (induction rule: light_step.induct)
  case (lock s t a)
  then show ?case by (intro light_lock_inv) auto
next
  case (start_over s t a w ks)
  then have ks: "ks = lk_kernel s" by (auto simp: LockSlowPath_def Let_def split: if_splits Option.bind_splits)
  have "place_ok (lk_kernel s) (lk_tags s) (SlowPath a w) t" using start_over unfolding light_inv_def by metis
  then have "at_large (lk_kernel s) t" by (simp add: place_ok_def)
  then show ?case using start_over unfolding ks by (auto simp: light_inv_def set_pc_def place_ok_def [of _ _ "Retry a"])
next
  case (sleep s t a w ks)
  then show ?case by (intro sleep_inv)
next
  case (go_on s t a)
  have p: "place_ok (lk_kernel s) (lk_tags s) (Asleep a) t" using go_on unfolding light_inv_def by metis
  then have "fst (lk_tags s a) = Some t" "at_large (lk_kernel s) t" using go_on(2) by (simp_all add: place_ok_def at_large_def)
  then show ?case using go_on by (auto simp: light_inv_def acquired_def place_ok_def [of _ _ Outside])
next
  case (unlock s t a tag ks)
  then show ?case by (intro unlock_inv)
next
  case (other s ks)
  then have "sync_ok ks" using sched_step_ok by (auto simp: light_inv_def)
  then show ?case using other one_lock_view [OF other(2)] place_ok_view [OF other(2)] by (simp add: light_inv_def)
qed simp

lemma light_reach_inv: "light_reach False s \<Longrightarrow> light_inv s"
  by (induction rule: light_reach.induct) (auto intro: light_start light_step_inv)

text \<open>
  C6. Light locks exclude. In every state that threads reach by locking and unlocking, whatever the
  interleaving of the atomic exchanges and the slow paths, at most one thread holds a lock, and it is
  the one the tag names. A thread asleep that is still linked to an owner is linked to the thread in
  the tag, whose bit is set, so that unlocking finds it.\<close>
theorem light_lock_excludes:
  assumes "light_reach False s" "a \<in> lk_holds s t"
  shows "IsLockedByCurrentThread t (lk_tags s a) \<and> (\<forall>u. a \<in> lk_holds s u \<longrightarrow> u = t) \<and>
    (\<forall>u h. lk_pc s u = Asleep a \<longrightarrow> GetLockOwner u (lk_kernel s) = Some h \<longrightarrow> h = t \<and> snd (lk_tags s a))"
proof -
  have inv: "light_inv s" by (rule light_reach_inv [OF assms(1)])
  then have tag: "fst (lk_tags s a) = Some u" if "a \<in> lk_holds s u" for u using that by (simp add: light_inv_def)
  have "lk_tags s a = (Some h, True)" if "lk_pc s u = Asleep a" "GetLockOwner u (lk_kernel s) = Some h" for u h
  proof -
    have "place_ok (lk_kernel s) (lk_tags s) (Asleep a) u" using inv that(1) unfolding light_inv_def by metis
    then show ?thesis using that(2) by (simp add: place_ok_def)
  qed
  then show ?thesis using tag assms(2) unfolding IsLockedByCurrentThread_def by (metis fst_conv option.inject snd_conv)
qed

section \<open>Cancelled waits\<close>

definition lock_boot :: locking where
  "lock_boot = \<lparr>lk_kernel = boot, lk_tags = (\<lambda>_. unlocked_tag), lk_pc = (\<lambda>_. Outside), lk_holds = (\<lambda>_. {})\<rparr>"

definition lock_held :: locking where
  "lock_held = light_Lock 3 4096 lock_boot"

definition lock_wanted :: locking where
  "lock_wanted = light_Lock 2 4096 lock_held"

lemma reach_lock_boot: "light_reach c lock_boot"
  by (rule light_reach.start) (simp_all add: lock_boot_def initial_boot)

lemma reach_lock_held: "light_reach c lock_held"
  unfolding lock_held_def by (rule light_reach.step [OF reach_lock_boot light_step.lock]) (simp add: lock_boot_def)

lemma lock_held_fields:
  "lk_kernel lock_held = boot" "lk_tags lock_held 4096 = (Some 3, False)" "lk_pc lock_held = (\<lambda>_. Outside)"
  "lk_holds lock_held = (\<lambda>t. if t = 3 then {4096} else {})"
  by (auto simp: lock_held_def lock_boot_def light_Lock_def lock_exchange_def acquired_def set_tag_def)

lemma reach_lock_wanted: "light_reach c lock_wanted"
  unfolding lock_wanted_def by (rule light_reach.step [OF reach_lock_held light_step.lock]) (simp add: lock_held_fields)

lemma lock_wanted_fields:
  "lk_kernel lock_wanted = boot" "lk_tags lock_wanted 4096 = (Some 3, True)" "lk_pc lock_wanted 2 = SlowPath 4096 (Some 3, True)"
  "lk_holds lock_wanted = (\<lambda>t. if t = 3 then {4096} else {})"
  by (auto simp: lock_wanted_def light_Lock_def lock_exchange_def set_pc_def set_tag_def lock_held_fields unlocked_tag_def)

lemma boot_large: "at_large boot u" "objects boot = {0..<8}"
  by (simp_all add: at_large_def GetLockOwner_def objects_def held_def boot_def new_thread_def thread_Initialize_def Let_def)

lemma LockSlowPath_boot:
  obtains ks where "LockSlowPath 4096 (Some 3, True) 2 (Some 3, True) boot = Some (True, ks)" "GetLockOwner 2 ks = Some 3" "sync_ok ks"
proof -
  note ok = initial_ok [OF initial_boot]
  define k1 where "k1 = SetKernelAddressKey 2 4096 boot"
  note k = kernel_key_set [OF ok boot_large(1) k1_def]
  have "supplied {2} k1" using boot_large k(2,3) by (simp add: supplied_def)
  then have "can_wait 3 2 k1" using supply_lasts [OF sync_ok_parts(5) [OF k(1)]] k(4) boot_large(1) [of 2] by (simp add: at_large_def)
  then obtain k2 where "AddWaiter 2 3 2 k1 = Some k2"
    using AddWaiter_ok [OF sync_ok_parts(3) [OF k(1)]] k(4) boot_large(1) [of 2] by (metis at_large_def)
  then have r: "\<exists>ks. LockSlowPath 4096 (Some 3, True) 2 (Some 3, True) boot = Some (True, ks)"
    by (simp add: LockSlowPath_def k1_def Let_def)
  then obtain ks where ks: "LockSlowPath 4096 (Some 3, True) 2 (Some 3, True) boot = Some (True, ks)" by blast
  have "one_lock boot" by (simp add: one_lock_def held_def boot_def new_thread_def thread_Initialize_def Let_def)
  from LockSlowPath_waits [OF ok this boot_large(1) _ ks, of 3] show thesis using that [OF ks] by simp
qed

text \<open>
  C30. A wait for a light lock that is cancelled, as the termination of the waiting thread does, is taken
  for an acquisition: there is a run after which two threads hold the same lock.\<close>
theorem cancelled_wait_breaks_exclusion:
  "\<exists>s. light_reach True s \<and> 4096 \<in> lk_holds s 3 \<and> 4096 \<in> lk_holds s 2"
proof -
  obtain ks where ks: "LockSlowPath 4096 (Some 3, True) 2 (Some 3, True) boot = Some (True, ks)" "GetLockOwner 2 ks = Some 3" "sync_ok ks"
    by (rule LockSlowPath_boot)
  define s1 where "s1 = set_pc 2 (Asleep 4096) (lock_wanted\<lparr>lk_kernel := ks\<rparr>)"
  have "light_step True lock_wanted s1" unfolding s1_def
    by (rule light_step.sleep [where w = "(Some 3, True)"]) (simp_all add: lock_wanted_fields ks(1))
  then have r1: "light_reach True s1" by (rule light_reach.step [OF reach_lock_wanted])
  obtain k2 where k2: "RemoveWaiter 0 3 2 ks = Some k2" "relocked ((\<lambda>v. GetLockOwner v ks)(2 := None)) ks k2"
    using RemoveWaiter_ok [OF sync_ok_parts(3) [OF ks(3)] ks(2), of 0] by blast
  define k3 where "k3 = wake ResultTerminationRequested 2 k2"
  have "light_CancelWait 0 ResultTerminationRequested 2 ks = Some k3" using ks(2) k2(1) by (simp add: light_CancelWait_def k3_def)
  then have "light_step True s1 (s1\<lparr>lk_kernel := k3\<rparr>)"
    by (intro light_step.cancel [where t = 2 and a = 4096 and cur = 0 and r = ResultTerminationRequested]) (simp_all add: s1_def set_pc_def)
  then have r2: "light_reach True (s1\<lparr>lk_kernel := k3\<rparr>)" by (rule light_reach.step [OF r1])
  have "GetLockOwner 2 k3 = None"
    using relocked_fields(4) [OF k2(2), of 2] lock_view_fields(12) [OF lock_view_waits(1), of 2 ResultTerminationRequested 2 k2] by (simp add: k3_def)
  then have "light_step True (s1\<lparr>lk_kernel := k3\<rparr>) (acquired 2 4096 (s1\<lparr>lk_kernel := k3\<rparr>))"
    by (intro light_step.go_on) (simp_all add: s1_def set_pc_def)
  then have "light_reach True (acquired 2 4096 (s1\<lparr>lk_kernel := k3\<rparr>))" by (rule light_reach.step [OF r2])
  moreover have "4096 \<in> lk_holds (acquired 2 4096 (s1\<lparr>lk_kernel := k3\<rparr>)) t" if "t \<in> {3, 2}" for t
    using that by (auto simp: acquired_def s1_def set_pc_def lock_wanted_fields)
  ultimately show ?thesis by (intro exI [of _ "acquired 2 4096 (s1\<lparr>lk_kernel := k3\<rparr>)"]) simp
qed

theorem light_lock_excludes_witness:
  "IsLockedByCurrentThread 3 (lk_tags lock_wanted 4096) \<and> 4096 \<in> lk_holds lock_wanted 3 \<and> 4096 \<notin> lk_holds lock_wanted 2"
proof -
  have h: "4096 \<in> lk_holds lock_wanted 3" "4096 \<notin> lk_holds lock_wanted 2" by (simp_all add: lock_wanted_fields)
  then show ?thesis using light_lock_excludes [OF reach_lock_wanted h(1)] by blast
qed

end
