(* ===== verification/Spec2Isabelle.thy ===== *)
theory Spec2Isabelle
  imports Memory_Block_Laws Handle_Table_Laws Cheat_Engine_Laws Buffer_Queue_Laws Page_Heap_Laws Memory_Region_Laws
    Memory_Manager_Laws Synchronization Light_Lock_Laws
begin

text \<open>
  NXbox is an emulator of a game console: it runs the guest's programs on translated or interpreted
  code and re-implements the guest's kernel and system services on the host. This library verifies
  parts of that re-implementation that keep state of their own and that everything else relies on:
  the bookkeeping of the kernel (address spaces, physical pages, handles), its scheduler and what its
  threads wait for, the machine that runs cheat codes, and the queue that carries frames from a
  program to the display.

  \<^bold>\<open>Conventions.\<close> Every definition that models code carries the name of the function it models, with
  a prefix where two classes share a name (\<open>mm_Open\<close>, \<open>im_Open\<close>, \<open>pg_Open\<close>). Structures are
  records, enumerations are datatypes, pointers into arrays and lists are indices, pointers that may
  be null are options. Fixed-width integers are words where the code computes with bits, and naturals
  or integers with the wrap-around written out (\<open>add64\<close>, \<open>sub64\<close>, \<open>mul64\<close> of \<open>Nx_Prelude\<close>)
  where it computes with addresses. State is passed explicitly. A null dereference, an index outside
  an array or a fatal error is the value \<open>None\<close> (or a constructor of its own) of the model.
  Assertions of the code are not part of the model: where they matter they appear as proved
  invariants. Locks are taken around whole operations, so an operation is one step; where an
  operation gives its lock up, its parts are separate steps.

  \<^bold>\<open>Address spaces\<close> (\<open>KMemoryBlock\<close>, \<open>KMemoryBlockManager\<close>; laws in
  \<open>Memory_Block_Refinement\<close>, \<open>Memory_Block_Laws\<close>). \<^verbatim>\<open>k_memory_block.h\<close> and
  \<^verbatim>\<open>k_memory_block_manager.{h,cpp}\<close>: an address space is a tree of blocks with state, permission
  and attributes; the tree is the sequence of its nodes. Abstractly it is the sequence of its pages'
  properties, and every update maps a function over a range of pages. The contract \<open>block_walk\<close> of
  the common loop is met by the three updates, and by the five lock functions through
  \<open>lock_function\<close>. The laws cover updates, free-area search, block storage, locking and unlocking,
  the consistency check, and a fault of the update at the start of the space.

  \<^bold>\<open>Handles\<close> (\<open>KAutoObject\<close>, \<open>KHandleTable\<close>; laws in \<open>Handle_Table_Laws\<close>).
  \<^verbatim>\<open>k_handle_table.{h,cpp}\<close>: a table of objects with a free list threaded through its entries and
  handles made of an index and a linear id. Abstractly a finite map from handles to objects
  (\<open>handle_map\<close>). The laws cover every operation, stale handles, reservations and the reference
  counts of the objects, also when a multiple lookup fails half way.

  \<^bold>\<open>Cheats\<close> (\<open>Cheat_Types\<close>, \<open>Cheat_Decode\<close>, \<open>Cheat_VM\<close>, \<open>Cheat_Engine\<close>; laws in
  \<open>Cheat_VM_Laws\<close>, \<open>Cheat_Engine_Laws\<close>). \<^verbatim>\<open>dmnt_cheat_vm.{h,cpp}\<close>, \<^verbatim>\<open>dmnt_cheat_types.h\<close> and
  \<^verbatim>\<open>cheat_engine.{h,cpp}\<close>: a decoder, a register machine with nested conditions and loops, a text
  parser and the frame callback. The machine talks to the process through callbacks; an invariant of
  the callbacks is one of every execution (\<open>vm_callbacks\<close>), which the standard callbacks meet with
  confinement to the process's regions. Executions are also a step relation (\<open>vm_step\<close>), over which
  bounds and confinement are stated for every state a program reaches, whether it ends or not. The
  code's execution loop has no bound, so \<open>Execute\<close> takes fuel, and a frame whose program does not end
  or faults has no state afterwards: programs without loops are proved to end within as many rounds as they have words, and a
  program is given that no fuel suffices for.

  \<^bold>\<open>Frames\<close> (\<open>Buffer_Queue_Core\<close>, \<open>Buffer_Queue_Producer\<close>, \<open>Buffer_Queue_Consumer\<close>; laws in
  \<open>Buffer_Queue_Invariant\<close>, \<open>Buffer_Queue_Steps\<close>, \<open>Buffer_Queue_Laws\<close>). The producer and consumer of
  \<^verbatim>\<open>src/src/core/hle/service/nvnflinger\<close> share slots of buffers under one lock. The system of one
  producer and any consumers is a step relation over the locked sections; its invariant says who
  owns each buffer. Consumer operations share the contract \<open>consumer_operation\<close>.

  \<^bold>\<open>Physical pages.\<close> Three layers of the kernel's page allocator, each proved against sets of pages
  and used by the next through those sets only:
  \<^item> \<open>Tiny_MT\<close>, \<open>KPageBitmap\<close> (laws in \<open>Page_Bitmap_Levels\<close>, \<open>Page_Bitmap_Laws\<close>):
    \<^verbatim>\<open>k_page_bitmap.h\<close>, a bitmap with summary levels in a shared array of words. It implements a set
    of offsets; the search is proved once for every way of choosing a bit of a word
    (\<open>bit_chooser\<close>) and met by the random and by the lowest bit.
  \<^item> \<open>KPageHeap\<close> (laws in \<open>Buddy_Blocks\<close>, \<open>Page_Heap_Levels\<close>, \<open>Page_Heap_Init\<close>, \<open>Page_Heap_Alloc\<close>,
    \<open>Page_Heap_Laws\<close>): \<^verbatim>\<open>k_page_heap.{h,cpp}\<close>, a buddy allocator with seven block sizes over seven
    bitmaps. \<open>block_sizes\<close> is the geometry of the sizes. Freeing adds and allocating removes exactly
    the pages in question, and the bitmaps stay inside the management area.
  \<^item> \<open>KMemoryRegion\<close>, \<open>KPageGroup\<close>, \<open>KMemoryManager\<close> (laws in \<open>Memory_Region_Laws\<close>,
    \<open>Memory_Manager_Pages\<close>, \<open>Memory_Manager_Groups\<close>, \<open>Memory_Manager_Alloc\<close>, \<open>Memory_Manager_Init\<close>,
    \<open>Memory_Manager_Steps\<close>, \<open>Memory_Manager_Laws\<close>): \<^verbatim>\<open>k_memory_manager.{h,cpp}\<close> with the groups and
    the region tree it uses. A manager knows of each page whether it is free, its references and a
    mark; operations act page by page (\<open>page_operation\<close>), whichever managers a range spans. The
    specification is an account of references and of lost pages: every operation, refused requests
    included, is one of its steps. In every reachable state the free pages have no references, and
    pages without references are free, except in pools whose managers are adjacent (the application
    pool of a board can be one), where a refused request can lose pages; a run that does is given.

  \<^bold>\<open>Threads.\<close> One record, \<open>kernel\<close>, holds the threads, the schedulers of the cores, the queues of
  runnable threads and what threads wait for; threads, processes, lock objects and trees have numbers.
  \<^item> \<open>KThread\<close>, \<open>KPriorityQueue\<close> (laws in \<open>Priority_Queue_Lists\<close>, \<open>Priority_Queue_Laws\<close>):
    \<^verbatim>\<open>k_priority_queue.h\<close>, down to the links between threads. The queues are lists by core and
    priority, in which a runnable thread is once as scheduled and once per other core as suggested.
  \<^item> \<open>KScheduler\<close>, \<open>KThread_Ops\<close> (laws in \<open>Scheduler_Laws\<close>, \<open>Scheduler_Choice\<close>, \<open>Thread_Laws\<close>):
    \<^verbatim>\<open>k_scheduler.cpp\<close>, \<^verbatim>\<open>k_scheduler_lock.h\<close>, \<^verbatim>\<open>global_scheduler_context.cpp\<close> and the operations of
    \<^verbatim>\<open>k_thread.cpp\<close> on states, suspension, pinning and core masks. Walks along a queue are partial
    functions; the contract \<open>thread_walk\<close> proves once that they end, and every walk of the scheduler
    is an interpretation of it.
  \<^item> \<open>KThread_Locks\<close> (laws in \<open>Lock_Trees\<close>, \<open>Lock_Operations\<close>, \<open>Priority_Inheritance\<close>): the part of
    \<^verbatim>\<open>k_thread.cpp\<close> by which the holder of a lock runs at the priority of those that wait for it. The
    trees share the contract \<open>weak_order\<close>. Restoring priorities is a partial function that is proved
    to return, also when threads wait for each other in a circle.
  \<^item> \<open>KConditionVariable\<close> (laws in \<open>Waiting_Frames\<close>, \<open>Waiting_Laws\<close>, \<open>Arbiter_Laws\<close>):
    \<^verbatim>\<open>k_condition_variable.cpp\<close> and \<^verbatim>\<open>k_address_arbiter.cpp\<close>, with the memory of user programs as a
    function. What the handle table of the process holds is an argument.
  \<^item> \<open>Scheduler_Steps\<close> and \<open>Synchronization\<close> close all these operations into one step relation, prove
    its invariant (\<open>sync_ok\<close>) and state what the scheduler, the locks and the arbiters promise in
    every reachable state. The slab heap of lock objects is the list of its free ones; that it never
    runs out is proved from the number of objects, which the kernel makes that of the threads.
  \<^item> \<open>KLightLock\<close> (laws in \<open>Light_Lock_Laws\<close>): \<^verbatim>\<open>k_light_lock.cpp\<close>, the locks of the kernel itself. They
    start with an atomic exchange outside the lock of the scheduler, so the state also says where in
    the code each thread is. A lock has one owner at a time in every state threads reach unless a wait
    is cancelled; the run in which a cancelled wait gives two owners is proved as well.

  \<^bold>\<open>Bounds.\<close> The loops over the managers of a pool and over the managers to initialise have the fuel
  \<open>MaxManagerCount\<close>, the size of the array the managers are in; the invariant \<open>mm_ok\<close> includes that
  it suffices. The loops over parts of a range (\<open>each_part\<close>, \<open>process_parts\<close>) are partial functions
  and proved to return. The random places of \<open>GetRandomAlignedRegion\<close> are taken from a list of
  draws, since the loop of the code need not end. Heaps lie below \<open>2 ^ 44\<close> because a page group keeps
  page numbers of 32 bits.

  \<^bold>\<open>Not modelled.\<close> CPU back ends and shader translation generate code at run time; GPU, audio and
  input are host interfaces; services are IPC front ends around the modelled parts; loaders, file
  systems and cryptography are host input and output or third-party code. Of the kernel, page
  tables, events, light condition variables, resource limits and sessions are left for later extensions; fibers,
  host threads, interrupts between cores and timers are host code: that a timer ends a wait is an
  operation of the model. Of threads, contexts, thread local memory, termination and the loops of
  \<open>SetCoreMask\<close> and \<open>SetActivity\<close> that wait until a thread has left its core are left out.
  Diagnostics (logging, \<open>LogOpcode\<close>) have no effect on the state.
\<close>

end
